(* ===== verification/Prelude.thy ===== *)
theory Prelude
  imports Main "HOL-Library.Word"
begin

text \<open>
  Shared vocabulary of the development: bytes and text, searching in a text as the C++
  string functions do it (a position or nothing), the error record every parser returns,
  the three-way outcome of a fuelled parser, and the interfaces that several components provide:
  \<open>keyed_store\<close> (lookup after update) and \<open>escaper\<close> (a text written character by character so
  that it can be read back and holds nothing a reader would take for markup).
\<close>

named_theorems text_simps "facts on trimming, splitting and searching text"
named_theorems outcome_simps "unfolding of the parser outcome combinators"

section \<open>Bytes\<close>

text \<open>A \<open>std::string\<close> or \<open>std::string_view\<close> is a list of bytes; a C++ \<open>char\<close> is a \<open>char\<close>.\<close>

abbreviation byte :: "char \<Rightarrow> nat" where
  "byte c \<equiv> of_char c"

text \<open>
  \<open>lo <= c && c <= hi\<close> for ASCII bounds. The bounds are below 128, so the answer is the same
  whether the platform's \<open>char\<close> is signed or not.
\<close>

definition between :: "char \<Rightarrow> char \<Rightarrow> char \<Rightarrow> bool" where
  "between lo hi c \<longleftrightarrow> byte lo \<le> byte c \<and> byte c \<le> byte hi"

lemma byte_less [simp]: "byte c < 256"
  by (rule of_char_mod_256 [THEN subst]) simp

lemma byte_inj [simp]: "byte c = byte d \<longleftrightarrow> c = d"
  by (metis char_of_char)

lemma byte_char_of: "n < 256 \<Longrightarrow> byte (char_of n) = n"
  by simp

section \<open>Searching\<close>

text \<open>\<open>find_first_of\<close> and its kin: the first position whose byte satisfies \<open>P\<close>; \<open>npos\<close> is \<open>None\<close>.\<close>

fun find_pos :: "('a \<Rightarrow> bool) \<Rightarrow> 'a list \<Rightarrow> nat option" where
  "find_pos P [] = None"
| "find_pos P (x # xs) = (if P x then Some 0 else map_option Suc (find_pos P xs))"

text \<open>The last such position.\<close>

fun find_last_pos :: "('a \<Rightarrow> bool) \<Rightarrow> 'a list \<Rightarrow> nat option" where
  "find_last_pos P [] = None"
| "find_last_pos P (x # xs) =
     (case find_last_pos P xs of
        Some i \<Rightarrow> Some (Suc i)
      | None \<Rightarrow> if P x then Some 0 else None)"

text \<open>\<open>starts_with\<close>, and the first occurrence of a needle.\<close>

fun starts_with :: "'a list \<Rightarrow> 'a list \<Rightarrow> bool" where
  "starts_with xs [] = True"
| "starts_with [] (p # ps) = False"
| "starts_with (x # xs) (p # ps) = (x = p \<and> starts_with xs ps)"

fun find_sub :: "'a list \<Rightarrow> 'a list \<Rightarrow> nat option" where
  "find_sub needle [] = (if needle = [] then Some 0 else None)"
| "find_sub needle (x # xs) =
     (if starts_with (x # xs) needle then Some 0
      else map_option Suc (find_sub needle xs))"

text \<open>\<open>contains\<close> and \<open>ends_with\<close>.\<close>

definition contains :: "'a list \<Rightarrow> 'a list \<Rightarrow> bool" where
  "contains hay needle \<longleftrightarrow> find_sub needle hay \<noteq> None"

definition ends_with :: "'a list \<Rightarrow> 'a list \<Rightarrow> bool" where
  "ends_with xs suf \<longleftrightarrow> starts_with (rev xs) (rev suf)"

lemma find_pos_None [text_simps]: "find_pos P xs = None \<longleftrightarrow> (\<forall>x \<in> set xs. \<not> P x)"
  by (induction xs) auto

lemma find_pos_Some:
  "find_pos P xs = Some i \<longleftrightarrow>
     i < length xs \<and> P (xs ! i) \<and> (\<forall>x \<in> set (take i xs). \<not> P x)"
  by (induction xs arbitrary: i) (auto simp: nth_Cons take_Cons split: nat.splits)

lemma find_pos_less: "find_pos P xs = Some i \<Longrightarrow> i < length xs"
  by (simp add: find_pos_Some)

lemma find_pos_split:
  "find_pos P xs = Some i \<Longrightarrow> xs = take i xs @ xs ! i # drop (Suc i) xs"
  by (simp add: find_pos_less id_take_nth_drop)

lemma find_pos_append_first:
  "\<forall>x \<in> set xs. \<not> P x \<Longrightarrow> P y \<Longrightarrow> find_pos P (xs @ y # ys) = Some (length xs)"
  by (induction xs) auto

lemma find_pos_append_None:
  "\<forall>x \<in> set xs. \<not> P x \<Longrightarrow> find_pos P (xs @ ys) = map_option ((+) (length xs)) (find_pos P ys)"
proof (induction xs)
  case Nil
  then show ?case by (cases "find_pos P ys") auto
next
  case (Cons x xs)
  then show ?case by (cases "find_pos P ys") auto
qed

lemma find_pos_append_Some: "find_pos P xs = Some i \<Longrightarrow> find_pos P (xs @ ys) = Some i"
  by (induction xs arbitrary: i) (auto split: if_splits)

lemma find_pos_takeWhile:
  "find_pos P xs = Some i \<Longrightarrow> take i xs = takeWhile (\<lambda>x. \<not> P x) xs"
  by (induction xs arbitrary: i) (auto split: if_splits)

lemma find_last_pos_None: "find_last_pos P xs = None \<longleftrightarrow> (\<forall>x \<in> set xs. \<not> P x)"
  by (induction xs) (auto split: option.splits)

lemma find_last_pos_Some:
  "find_last_pos P xs = Some i \<longleftrightarrow>
     i < length xs \<and> P (xs ! i) \<and> (\<forall>x \<in> set (drop (Suc i) xs). \<not> P x)"
proof (induction xs arbitrary: i)
  case (Cons x xs)
  show ?case
  proof (cases i)
    case 0
    then show ?thesis
      using find_last_pos_None [of P xs]
      by (cases "find_last_pos P xs") (force split: option.splits)+
  next
    case (Suc j)
    then have "find_last_pos P (x # xs) = Some i \<longleftrightarrow> find_last_pos P xs = Some j"
      by (auto split: option.splits)
    with Suc show ?thesis
      by (simp add: Cons.IH)
  qed
qed simp

lemma starts_with_iff: "starts_with xs ps \<longleftrightarrow> (\<exists>ys. xs = ps @ ys)"
  by (induction xs ps rule: starts_with.induct) auto

lemma starts_with_append [simp]: "starts_with (ps @ ys) ps"
  by (auto simp: starts_with_iff)

lemma starts_with_mono: "starts_with xs ps \<Longrightarrow> starts_with (xs @ ys) ps"
  by (auto simp: starts_with_iff)

lemma starts_with_length: "starts_with xs ps \<Longrightarrow> length ps \<le> length xs"
  by (auto simp: starts_with_iff)

lemma starts_with_take: "starts_with xs ps \<longleftrightarrow> take (length ps) xs = ps"
  by (metis append_eq_conv_conj append_take_drop_id starts_with_iff)

lemma find_sub_Some:
  "find_sub needle xs = Some i \<Longrightarrow> i + length needle \<le> length xs \<and>
     starts_with (drop i xs) needle"
proof (induction needle xs arbitrary: i rule: find_sub.induct)
  case (2 needle x xs)
  then show ?case
    by (auto split: if_splits dest: starts_with_length)
qed (auto split: if_splits)

lemma starts_with_append_iff:
  "length ps \<le> length xs \<Longrightarrow> starts_with (xs @ ys) ps \<longleftrightarrow> starts_with xs ps"
  by (simp add: starts_with_take)

lemma find_sub_append: "find_sub needle xs = Some i \<Longrightarrow> find_sub needle (xs @ ys) = Some i"
proof (induction needle xs arbitrary: i rule: find_sub.induct)
  case (1 needle)
  then show ?case by (cases ys) (auto split: if_splits)
next
  case (2 needle x xs)
  have "length needle \<le> length (x # xs)"
    using find_sub_Some [OF "2.prems"] by simp
  then have same: "starts_with (x # xs @ ys) needle \<longleftrightarrow> starts_with (x # xs) needle"
    using starts_with_append_iff [of needle "x # xs" ys] by simp
  show ?case
  proof (cases "starts_with (x # xs) needle")
    case True
    with same "2.prems" show ?thesis by simp
  next
    case False
    with "2.prems" obtain j where "find_sub needle xs = Some j" and "i = Suc j"
      by auto
    with False same "2.IH" show ?thesis by simp
  qed
qed

section \<open>Errors and outcomes\<close>

text \<open>\<open>ParseError\<close> of json.h, shared by the JSON, YAML and expression parsers.\<close>

record parse_error =
  pe_message :: string
  pe_line :: nat
  pe_column :: nat

text \<open>
  What a recursive-descent parser function does: produce a value and the next parser state,
  fail with an error, or run out of the model's recursion fuel. The last is never what the
  C++ does; each parser proves that its own fuel is enough.
\<close>

datatype ('s, 'a) outcome = Done 'a 's | Failed parse_error | OutOfFuel

fun bind_outcome ::
  "('s, 'a) outcome \<Rightarrow> ('a \<Rightarrow> 's \<Rightarrow> ('s, 'b) outcome) \<Rightarrow> ('s, 'b) outcome" where
  "bind_outcome (Done a s) k = k a s"
| "bind_outcome (Failed e) k = Failed e"
| "bind_outcome OutOfFuel k = OutOfFuel"

lemma bind_outcome_Done [outcome_simps]:
  "bind_outcome m k = Done b s' \<longleftrightarrow> (\<exists>a s. m = Done a s \<and> k a s = Done b s')"
  by (cases m) auto

lemma bind_outcome_OutOfFuel [outcome_simps]:
  "bind_outcome m k = OutOfFuel \<longleftrightarrow>
     m = OutOfFuel \<or> (\<exists>a s. m = Done a s \<and> k a s = OutOfFuel)"
  by (cases m) auto

lemma bind_outcome_cong [fundef_cong]:
  "m = m' \<Longrightarrow> (\<And>a s. m' = Done a s \<Longrightarrow> k a s = k' a s) \<Longrightarrow>
   bind_outcome m k = bind_outcome m' k'"
  by (cases m') auto

section \<open>Interfaces\<close>

text \<open>
  A store of values under keys, given by what a lookup returns after an update. The laws are
  those of the insertion-ordered association lists that \<open>Value\<close> and \<open>ViewContext\<close> keep.
\<close>

locale keyed_store =
  fixes lookup :: "'s \<Rightarrow> 'k \<Rightarrow> 'v option"
    and update :: "'k \<Rightarrow> 'v \<Rightarrow> 's \<Rightarrow> 's"
  assumes lookup_update: "lookup (update k v s) = (lookup s)(k \<mapsto> v)"
begin

lemma lookup_update_same: "lookup (update k v s) k = Some v"
  by (simp add: lookup_update)

lemma lookup_update_other: "j \<noteq> k \<Longrightarrow> lookup (update k v s) j = lookup s j"
  by (simp add: lookup_update)

lemma lookup_fold_update:
  "lookup (fold (\<lambda>(k, v). update k v) kvs s) = lookup s ++ map_of (rev kvs)"
  by (induction kvs arbitrary: s) (auto simp: lookup_update map_add_def fun_eq_iff split: option.splits)

lemma dom_fold_update:
  "dom (lookup (fold (\<lambda>(k, v). update k v) kvs s)) = dom (lookup s) \<union> fst ` set kvs"
  by (simp add: lookup_fold_update dom_map_of_conv_image_fst Un_commute)

end

section \<open>Escaping\<close>

text \<open>
  What the writers of markup promise: what is written for a character shows which character it was,
  whatever follows, and holds none of the active characters.
\<close>

locale escaper =
  fixes code :: "char \<Rightarrow> string"
    and active :: "char set"
  assumes code_prefix: "code c @ xs = code d @ ys \<Longrightarrow> c = d \<and> xs = ys"
    and code_quiet: "set (code c) \<inter> active = {}"
begin

lemma code_nonempty: "code c \<noteq> []"
proof
  assume "code c = []"
  then have "c = d" for d
    using code_prefix [of c "code d" d "[]"] by simp
  from this [of "CHR ''a''"] this [of "CHR ''b''"] show False by simp
qed

lemma escape_inj: "concat (map code s) = concat (map code t) \<Longrightarrow> s = t"
proof (induction s arbitrary: t)
  case Nil
  then show ?case using code_nonempty by (cases t) auto
next
  case (Cons c s)
  show ?case
  proof (cases t)
    case Nil
    with Cons.prems code_nonempty show ?thesis by simp
  next
    case (Cons d t')
    with Cons.prems Cons.IH [of t'] code_prefix show ?thesis by auto
  qed
qed

lemma escape_quiet: "set (concat (map code s)) \<inter> active = {}"
  using code_quiet by auto

lemma escape_not_active: "c \<in> active \<Longrightarrow> c \<notin> set (concat (map code s))"
  using escape_quiet by blast

end

end
