(* ===== verification/TextOps.thy ===== *)
theory TextOps
  imports Prelude
begin

text \<open>
  text.cpp and summary.cpp: UTF-8 stepping by lead byte, substrings by character index,
  trimming, splitting, words, ASCII case, and the summary helpers built on them. A loop over
  a byte cursor is a recursion over the same cursor, or over the suffix it points at.
\<close>

unbundle bit_operations_syntax

section \<open>Characters of a UTF-8 text\<close>

definition sequence_length :: "8 word \<Rightarrow> nat" where
  "sequence_length lead =
     (if lead < 0x80 then 1
      else if lead AND 0xE0 = 0xC0 then 2
      else if lead AND 0xF0 = 0xE0 then 3
      else if lead AND 0xF8 = 0xF0 then 4
      else 1)"

abbreviation step_at :: "string \<Rightarrow> nat \<Rightarrow> nat" where
  "step_at s p \<equiv> sequence_length (of_char (s ! p))"

lemma sequence_length_pos [simp]: "0 < sequence_length b"
  by (simp add: sequence_length_def)

lemma sequence_length_ge1: "Suc 0 \<le> sequence_length b"
  by (simp add: sequence_length_def)

function char_length_from :: "string \<Rightarrow> nat \<Rightarrow> nat \<Rightarrow> nat" where
  "char_length_from s position characters =
     (if position < length s
      then char_length_from s (position + step_at s position) (Suc characters)
      else characters)"
  by pat_completeness auto
termination
  by (relation "measure (\<lambda>(s, p, _). length s - p)")
    (auto intro: diff_less_mono2 simp: sequence_length_def)

declare char_length_from.simps [simp del]

definition char_length :: "string \<Rightarrow> nat" where
  "char_length s = char_length_from s 0 0"

function byte_offset_from :: "string \<Rightarrow> nat \<Rightarrow> nat \<Rightarrow> nat \<Rightarrow> nat" where
  "byte_offset_from s char_index position characters =
     (if position < length s \<and> characters < char_index
      then byte_offset_from s char_index (position + step_at s position) (Suc characters)
      else if position > length s then length s else position)"
  by pat_completeness auto
termination
  by (relation "measure (\<lambda>(s, _, p, _). length s - p)")
    (auto intro: diff_less_mono2 simp: sequence_length_def)

declare byte_offset_from.simps [simp del]

definition byte_offset :: "string \<Rightarrow> nat \<Rightarrow> nat" where
  "byte_offset s char_index = byte_offset_from s char_index 0 0"

text \<open>
  \<open>substr\<close>: sizes are \<open>std::size_t\<close>, so the sum of the two indices and the difference of the
  two offsets wrap at \<open>2 ^ 64\<close>. \<open>None\<close> is \<open>npos\<close>.
\<close>

definition size_add :: "nat \<Rightarrow> nat \<Rightarrow> nat" where
  "size_add a b = (a + b) mod 2 ^ 64"

definition size_sub :: "nat \<Rightarrow> nat \<Rightarrow> nat" where
  "size_sub a b = (if b \<le> a then a - b else 2 ^ 64 - (b - a))"

definition char_substr :: "string \<Rightarrow> nat \<Rightarrow> nat option \<Rightarrow> string" where
  "char_substr s char_start char_count =
     (let start = byte_offset s char_start
      in case char_count of
           None \<Rightarrow> drop start s
         | Some n \<Rightarrow>
             let stop = byte_offset s (size_add char_start n)
             in take (size_sub stop start) (drop start s))"

section \<open>Whitespace, trimming, splitting\<close>

definition whitespace :: string where
  "whitespace = [CHR '' '', CHR 0x09, CHR 0x0D, CHR 0x0A, CHR 0x0C, CHR 0x0B]"

definition is_space :: "char \<Rightarrow> bool" where
  "is_space c \<longleftrightarrow> c \<in> set whitespace"

definition trim_start :: "string \<Rightarrow> string" where
  "trim_start s = (case find_pos (\<lambda>c. \<not> is_space c) s of None \<Rightarrow> [] | Some i \<Rightarrow> drop i s)"

definition trim_end :: "string \<Rightarrow> string" where
  "trim_end s = (case find_last_pos (\<lambda>c. \<not> is_space c) s of None \<Rightarrow> [] | Some i \<Rightarrow> take (Suc i) s)"

definition trim :: "string \<Rightarrow> string" where
  "trim s = trim_end (trim_start s)"

function split_at :: "string \<Rightarrow> char \<Rightarrow> string list" where
  "split_at s sep =
     (case find_pos (\<lambda>c. c = sep) s of
        None \<Rightarrow> [s]
      | Some found \<Rightarrow> take found s # split_at (drop (Suc found) s) sep)"
  by pat_completeness auto
termination
  by (relation "measure (\<lambda>(s, _). length s)") (auto dest: find_pos_less)

declare split_at.simps [simp del]

text \<open>A trailing carriage return belongs to the line ending, but only before a newline.\<close>

definition strip_cr :: "string \<Rightarrow> string" where
  "strip_cr line = (if line \<noteq> [] \<and> last line = CHR 0x0D then butlast line else line)"

function split_lines :: "string \<Rightarrow> string list" where
  "split_lines s =
     (case find_pos (\<lambda>c. c = CHR 0x0A) s of
        None \<Rightarrow> if s \<noteq> [] then [s] else []
      | Some newline \<Rightarrow> strip_cr (take newline s) # split_lines (drop (Suc newline) s))"
  by pat_completeness auto
termination
  by (relation "measure length") (auto dest: find_pos_less)

declare split_lines.simps [simp del]

lemma length_dropWhile_less:
  "xs \<noteq> [] \<Longrightarrow> P (hd xs) \<Longrightarrow> length (dropWhile P xs) < length xs"
  by (cases xs) (auto simp: length_dropWhile_le le_imp_less_Suc)

function words :: "string \<Rightarrow> string list" where
  "words s =
     (let rest = dropWhile is_space s
      in if rest = [] then []
         else takeWhile (\<lambda>c. \<not> is_space c) rest # words (dropWhile (\<lambda>c. \<not> is_space c) rest))"
  by pat_completeness auto
termination
proof (relation "measure length", goal_cases)
  case (2 s rest)
  then have "length (dropWhile (\<lambda>c. \<not> is_space c) rest) < length rest"
    by (intro length_dropWhile_less) (metis hd_dropWhile)+
  also have "length rest \<le> length s"
    using 2 by (simp add: length_dropWhile_le)
  finally show ?case by simp
qed simp

declare words.simps [simp del]

definition word_count :: "string \<Rightarrow> nat" where
  "word_count s = length (words s)"

section \<open>ASCII case\<close>

definition lower_char :: "char \<Rightarrow> char" where
  "lower_char c = (if between CHR ''A'' CHR ''Z'' c then char_of (byte c - 65 + 97) else c)"

definition upper_char :: "char \<Rightarrow> char" where
  "upper_char c = (if between CHR ''a'' CHR ''z'' c then char_of (byte c - 97 + 65) else c)"

definition to_lower_ascii :: "string \<Rightarrow> string" where
  "to_lower_ascii s = map lower_char s"

definition to_upper_ascii :: "string \<Rightarrow> string" where
  "to_upper_ascii s = map upper_char s"

section \<open>Summaries\<close>

text \<open>The default ellipsis is U+2026, three bytes of UTF-8.\<close>

definition default_ellipsis :: string where
  "default_ellipsis = [CHR 0xE2, CHR 0x80, CHR 0xA6]"

definition truncate_text :: "string \<Rightarrow> nat \<Rightarrow> string \<Rightarrow> string" where
  "truncate_text input len ellipsis =
     (if char_length input \<le> len then input
      else
        let cut = trim (char_substr input 0 (Some len));
            cut' = (case find_last_pos (\<lambda>c. c = CHR '' '') cut of
                      None \<Rightarrow> cut
                    | Some space \<Rightarrow> take space cut)
        in trim cut' @ ellipsis)"

fun first_block_in :: "string list \<Rightarrow> nat \<Rightarrow> string" where
  "first_block_in [] len = []"
| "first_block_in (line # lines) len =
     (let trimmed = trim line
      in if trimmed \<noteq> [] then truncate_text trimmed len default_ellipsis
         else first_block_in lines len)"

definition first_block :: "string \<Rightarrow> nat \<Rightarrow> string" where
  "first_block content len = first_block_in (split_lines content) len"

definition choose_summary :: "string \<Rightarrow> string \<Rightarrow> string \<Rightarrow> nat \<Rightarrow> string" where
  "choose_summary explicit_summary excerpt content len =
     (if trim explicit_summary \<noteq> [] then trim explicit_summary
      else if trim excerpt \<noteq> [] then trim excerpt
      else first_block content len)"

section \<open>Stepping through a text, as a recursion over its suffixes\<close>

text \<open>
  The reference definitions: how many sequences a text holds, and how many bytes its first
  \<open>n\<close> sequences claim (the last one may claim bytes past the end).
\<close>

function sequences :: "string \<Rightarrow> nat" where
  "sequences [] = 0"
| "sequences (c # cs) = Suc (sequences (drop (sequence_length (of_char c) - 1) cs))"
  by pat_completeness auto
termination
  by (relation "measure length") auto

function claimed :: "string \<Rightarrow> nat \<Rightarrow> nat" where
  "claimed [] n = 0"
| "claimed (c # cs) 0 = 0"
| "claimed (c # cs) (Suc n) =
     sequence_length (of_char c) + claimed (drop (sequence_length (of_char c) - 1) cs) n"
  by pat_completeness auto
termination
  by (relation "measure (\<lambda>(_, n). n)") auto

lemma claimed_0 [simp]: "claimed s 0 = 0"
  by (cases s) auto

lemma char_length_from_sequences:
  "char_length_from s p k = k + sequences (drop p s)"
proof (induction s p k rule: char_length_from.induct)
  case (1 s p k)
  show ?case
  proof (cases "p < length s")
    case True
    then have "drop p s = s ! p # drop (Suc p) s"
      by (simp add: Cons_nth_drop_Suc)
    moreover have "drop (step_at s p - 1) (drop (Suc p) s) = drop (p + step_at s p) s"
      using sequence_length_ge1 [of "of_char (s ! p)"] by (simp add: add.commute)
    ultimately show ?thesis
      using 1 True by (subst char_length_from.simps) simp
  next
    case False
    then show ?thesis by (subst char_length_from.simps) simp
  qed
qed

lemma char_length_sequences: "char_length s = sequences s"
  by (simp add: char_length_def char_length_from_sequences)

lemma byte_offset_from_claimed:
  "k \<le> n \<Longrightarrow> byte_offset_from s n p k = min (length s) (p + claimed (drop p s) (n - k))"
proof (induction s n p k rule: byte_offset_from.induct)
  case (1 s n p k)
  show ?case
  proof (cases "p < length s \<and> k < n")
    case True
    then have d: "drop p s = s ! p # drop (Suc p) s" and n: "n - k = Suc (n - Suc k)"
      by (auto simp: Cons_nth_drop_Suc)
    have "drop (step_at s p - 1) (drop (Suc p) s) = drop (p + step_at s p) s"
      using sequence_length_ge1 [of "of_char (s ! p)"] by (simp add: add.commute)
    then have "claimed (drop p s) (n - k) =
        step_at s p + claimed (drop (p + step_at s p) s) (n - Suc k)"
      unfolding d n by simp
    with 1 True show ?thesis
      by (subst byte_offset_from.simps) (simp add: add.assoc)
  next
    case False
    with "1.prems" show ?thesis by (subst byte_offset_from.simps) auto
  qed
qed

lemma byte_offset_claimed: "byte_offset s n = min (length s) (claimed s n)"
  by (simp add: byte_offset_def byte_offset_from_claimed)

lemma byte_offset_le [simp]: "byte_offset s n \<le> length s"
  by (simp add: byte_offset_claimed)

lemma sequences_le_length: "sequences s \<le> length s"
  by (induction s rule: sequences.induct) (auto intro: le_trans)

lemma claimed_mono: "m \<le> n \<Longrightarrow> claimed s m \<le> claimed s n"
proof (induction s n arbitrary: m rule: claimed.induct)
  case (3 c cs n)
  then show ?case by (cases m) auto
qed auto

lemma sequences_take: "sequences (take k s) \<le> sequences s"
proof (induction s arbitrary: k rule: sequences.induct)
  case (2 c cs)
  show ?case
  proof (cases k)
    case (Suc j)
    then have "sequences (take k (c # cs)) =
        Suc (sequences (take (j - (sequence_length (of_char c) - 1))
          (drop (sequence_length (of_char c) - 1) cs)))"
      by (simp add: drop_take)
    also have "\<dots> \<le> Suc (sequences (drop (sequence_length (of_char c) - 1) cs))"
      using 2 by simp
    finally show ?thesis by simp
  qed simp
qed simp

lemma sequences_take_claimed: "sequences (take (claimed s n) s) = min n (sequences s)"
proof (induction s n rule: claimed.induct)
  case (3 c cs n)
  let ?l = "sequence_length (of_char c)"
  have "take (claimed (c # cs) (Suc n)) (c # cs) =
      c # take (?l - 1 + claimed (drop (?l - 1) cs) n) cs"
    using sequence_length_ge1 [of "of_char c"] by (cases ?l) auto
  then have "sequences (take (claimed (c # cs) (Suc n)) (c # cs)) =
      Suc (sequences (take (claimed (drop (?l - 1) cs) n) (drop (?l - 1) cs)))"
    by (simp add: drop_take)
  with 3 show ?case by simp
qed auto

lemma space_single: "is_space c \<Longrightarrow> sequence_length (of_char c) = 1"
  by (auto simp: is_space_def whitespace_def sequence_length_def)

lemma sequences_dropWhile_space: "sequences (dropWhile is_space s) \<le> sequences s"
  by (induction s) (auto simp: space_single intro: le_SucI)

section \<open>Trimming\<close>

lemma drop_find_pos:
  "(case find_pos P s of None \<Rightarrow> [] | Some i \<Rightarrow> drop i s) = dropWhile (\<lambda>x. \<not> P x) s"
  by (induction s) (auto split: option.splits)

lemma trim_start_dropWhile [text_simps]: "trim_start s = dropWhile is_space s"
  using drop_find_pos [where P = "\<lambda>c. \<not> is_space c" and s = s] by (simp add: trim_start_def)

lemma take_find_last_pos:
  "(case find_last_pos P s of None \<Rightarrow> [] | Some i \<Rightarrow> take (Suc i) s) =
     rev (dropWhile (\<lambda>x. \<not> P x) (rev s))"
proof (induction s)
  case (Cons x s)
  show ?case
  proof (cases "find_last_pos P s")
    case None
    then have "\<forall>y \<in> set s. \<not> P y"
      by (simp add: find_last_pos_None)
    with None show ?thesis
      by (auto simp: dropWhile_append)
  next
    case (Some i)
    then have "\<exists>y \<in> set s. P y"
      using find_last_pos_None [of P s] by auto
    with Some Cons show ?thesis
      by (auto simp: dropWhile_append)
  qed
qed simp

lemma trim_end_dropWhile [text_simps]: "trim_end s = rev (dropWhile is_space (rev s))"
  using take_find_last_pos [where P = "\<lambda>c. \<not> is_space c" and s = s] by (simp add: trim_end_def)

lemma trim_end_prefix: "\<exists>ws. s = trim_end s @ ws \<and> (\<forall>c \<in> set ws. is_space c)"
proof -
  have "rev (takeWhile is_space (rev s) @ dropWhile is_space (rev s)) = s"
    by simp
  then have "s = trim_end s @ rev (takeWhile is_space (rev s))"
    by (simp add: trim_end_dropWhile del: takeWhile_dropWhile_id)
  moreover have "\<forall>c \<in> set (rev (takeWhile is_space (rev s))). is_space c"
    by (auto dest: set_takeWhileD)
  ultimately show ?thesis by blast
qed

lemma trim_start_suffix: "\<exists>ws. s = ws @ trim_start s \<and> (\<forall>c \<in> set ws. is_space c)"
  by (metis set_takeWhileD takeWhile_dropWhile_id trim_start_dropWhile)

lemma trim_decompose:
  "\<exists>pre post. s = pre @ trim s @ post \<and> (\<forall>c \<in> set pre \<union> set post. is_space c)"
proof -
  obtain pre where "s = pre @ trim_start s" "\<forall>c \<in> set pre. is_space c"
    using trim_start_suffix by blast
  moreover obtain post where "trim_start s = trim s @ post" "\<forall>c \<in> set post. is_space c"
    using trim_end_prefix [of "trim_start s"] by (auto simp: trim_def)
  ultimately show ?thesis by (intro exI [of _ pre] exI [of _ post]) auto
qed

lemma hd_trim_start: "trim_start s \<noteq> [] \<Longrightarrow> \<not> is_space (hd (trim_start s))"
  by (simp add: trim_start_dropWhile hd_dropWhile)

lemma trim_ends:
  assumes "trim s \<noteq> []"
  shows "\<not> is_space (hd (trim s))" and "\<not> is_space (last (trim s))"
proof -
  have ne: "trim_start s \<noteq> []"
    using assms by (auto simp: trim_def trim_end_dropWhile)
  obtain ws where ws: "trim_start s = trim s @ ws"
    using trim_end_prefix [of "trim_start s"] by (auto simp: trim_def)
  then have "hd (trim_start s) = hd (trim s)"
    using assms by (metis hd_append2)
  then show "\<not> is_space (hd (trim s))"
    using hd_trim_start [OF ne] by simp
  have "dropWhile is_space (rev (trim_start s)) \<noteq> []"
    using assms by (simp add: trim_def trim_end_dropWhile)
  then show "\<not> is_space (last (trim s))"
    by (simp add: trim_def trim_end_dropWhile last_rev hd_dropWhile)
qed

lemma trim_id:
  assumes "s = [] \<or> (\<not> is_space (hd s) \<and> \<not> is_space (last s))"
  shows "trim s = s"
proof (cases "s = []")
  case False
  with assms have "dropWhile is_space s = s" and "dropWhile is_space (rev s) = rev s"
    by (auto simp: dropWhile_eq_self_iff hd_rev)
  then show ?thesis
    by (simp add: trim_def trim_start_dropWhile trim_end_dropWhile)
qed (simp add: trim_def trim_start_dropWhile trim_end_dropWhile)

lemma trim_trim [simp]: "trim (trim s) = trim s"
  by (rule trim_id) (use trim_ends in blast)

lemma trim_nil_iff: "trim s = [] \<longleftrightarrow> (\<forall>c \<in> set s. is_space c)"
proof
  assume "trim s = []"
  then have all: "\<forall>c \<in> set (trim_start s). is_space c"
    by (auto simp: trim_def trim_end_dropWhile)
  obtain ws where "s = ws @ trim_start s" "\<forall>c \<in> set ws. is_space c"
    using trim_start_suffix by blast
  with all show "\<forall>c \<in> set s. is_space c" by (metis UnE set_append)
next
  assume "\<forall>c \<in> set s. is_space c"
  then have "dropWhile is_space s = []"
    by simp
  then show "trim s = []"
    by (simp only: trim_def trim_start_dropWhile trim_end_dropWhile) simp
qed

lemma set_trim: "set (trim s) \<subseteq> set s"
  by (auto simp: trim_def trim_start_dropWhile trim_end_dropWhile dest!: set_dropWhileD)

lemma sequences_trim: "sequences (trim s) \<le> sequences s"
proof -
  obtain ws where "trim_start s = trim s @ ws"
    using trim_end_prefix [of "trim_start s"] by (auto simp: trim_def)
  then have "trim s = take (length (trim s)) (trim_start s)"
    by simp
  then have "sequences (trim s) \<le> sequences (trim_start s)"
    by (metis sequences_take)
  also have "\<dots> \<le> sequences s"
    by (simp add: trim_start_dropWhile sequences_dropWhile_space)
  finally show ?thesis .
qed

section \<open>Splitting\<close>

fun join_with :: "'a \<Rightarrow> 'a list list \<Rightarrow> 'a list" where
  "join_with sep [] = []"
| "join_with sep [x] = x"
| "join_with sep (x # y # ys) = x @ sep # join_with sep (y # ys)"

lemma join_with_Cons: "ys \<noteq> [] \<Longrightarrow> join_with sep (x # ys) = x @ sep # join_with sep ys"
  by (cases ys) auto

lemma split_at_nonempty [simp]: "split_at s sep \<noteq> []"
  by (subst split_at.simps) (simp split: option.splits)

lemma split_at_join: "join_with sep (split_at s sep) = s"
proof (induction s sep rule: split_at.induct)
  case (1 s sep)
  show ?case
  proof (cases "find_pos (\<lambda>c. c = sep) s")
    case (Some i)
    then have "s = take i s @ sep # drop (Suc i) s"
      using find_pos_split [OF Some] by (auto simp: find_pos_Some)
    with 1 Some show ?thesis
      by (subst split_at.simps) (simp add: join_with_Cons)
  qed (subst split_at.simps, simp)
qed

lemma split_at_pieces: "piece \<in> set (split_at s sep) \<Longrightarrow> sep \<notin> set piece"
proof (induction s sep rule: split_at.induct)
  case (1 s sep)
  then show ?case
    by (cases "find_pos (\<lambda>c. c = sep) s")
      (auto simp: split_at.simps [of s sep] find_pos_Some find_pos_None)
qed

lemma split_at_unique:
  "pieces \<noteq> [] \<Longrightarrow> (\<forall>p \<in> set pieces. sep \<notin> set p) \<Longrightarrow>
   split_at (join_with sep pieces) sep = pieces"
proof (induction sep pieces rule: join_with.induct)
  case (2 sep x)
  then have "find_pos (\<lambda>c. c = sep) x = None"
    by (auto simp: find_pos_None)
  then show ?case by (subst split_at.simps) simp
next
  case (3 sep x y ys)
  then have "find_pos (\<lambda>c. c = sep) (x @ sep # join_with sep (y # ys)) = Some (length x)"
    by (intro find_pos_append_first) auto
  with 3 show ?case by (subst split_at.simps) simp
qed simp

lemma words_spec:
  "concat (words s) = filter (\<lambda>c. \<not> is_space c) s \<and>
   (\<forall>w \<in> set (words s). w \<noteq> [] \<and> (\<forall>c \<in> set w. \<not> is_space c))"
proof (induction s rule: words.induct)
  case (1 s)
  let ?r = "dropWhile is_space s"
  have skip: "filter (\<lambda>c. \<not> is_space c) t = filter (\<lambda>c. \<not> is_space c) (dropWhile is_space t)"
    for t
    by (induction t) auto
  have run: "filter (\<lambda>c. \<not> is_space c) r =
      takeWhile (\<lambda>c. \<not> is_space c) r @ filter (\<lambda>c. \<not> is_space c) (dropWhile (\<lambda>c. \<not> is_space c) r)"
    for r
    by (induction r) auto
  show ?case
  proof (cases "?r = []")
    case True
    then have "words s = []" by (subst words.simps) simp
    with True show ?thesis using skip [of s] by simp
  next
    case False
    let ?w = "takeWhile (\<lambda>c. \<not> is_space c) ?r"
    let ?rest = "dropWhile (\<lambda>c. \<not> is_space c) ?r"
    have w: "?w \<noteq> [] \<and> (\<forall>c \<in> set ?w. \<not> is_space c)"
      using hd_dropWhile [OF False] False by (cases ?r) (auto dest: set_takeWhileD)
    have step: "words s = ?w # words ?rest"
      using False by (subst words.simps) (simp add: Let_def)
    have "filter (\<lambda>c. \<not> is_space c) s = ?w @ filter (\<lambda>c. \<not> is_space c) ?rest"
      by (rule trans [OF skip run])
    with w "1.IH" [OF refl False] show ?thesis
      by (metis (no_types, lifting) step concat.simps(2) set_ConsD)
  qed
qed

section \<open>Properties\<close>

lemma take_byte_offset: "take (byte_offset s n) s = take (claimed s n) s"
  by (simp add: byte_offset_claimed min_def)

lemma char_substr_prefix: "n < 2 ^ 64 \<Longrightarrow> char_substr s 0 (Some n) = take (claimed s n) s"
  by (simp add: char_substr_def size_add_def size_sub_def Let_def take_byte_offset
      byte_offset_claimed [of s 0])

text \<open>
  Substrings by character index cut a text between characters and lose no byte. The
  first \<open>n\<close> characters followed by everything from character \<open>n\<close> on are the text again,
  and the first part holds \<open>n\<close> characters, or all of them when the text is shorter.
\<close>

theorem char_substr_partition:
  assumes "n < 2 ^ 64"
  shows "char_substr s 0 (Some n) @ char_substr s n None = s \<and>
    char_length (char_substr s 0 (Some n)) = min n (char_length s)"
  using assms
  by (simp add: char_substr_prefix char_length_sequences sequences_take_claimed)
    (simp add: char_substr_def byte_offset_claimed min_def)

theorem char_substr_partition_witness:
  "char_substr [CHR ''a'', CHR 0xC3, CHR 0xA9, CHR ''z''] 0 (Some 2) @
     char_substr [CHR ''a'', CHR 0xC3, CHR 0xA9, CHR ''z''] 2 None =
   [CHR ''a'', CHR 0xC3, CHR 0xA9, CHR ''z''] \<and>
   char_length (char_substr [CHR ''a'', CHR 0xC3, CHR 0xA9, CHR ''z''] 0 (Some 2)) =
     min 2 (char_length [CHR ''a'', CHR 0xC3, CHR 0xA9, CHR ''z''])"
  by (rule char_substr_partition) simp

text \<open>
  A truncated text is the input itself when it fits, and otherwise an unbroken piece of
  the input of at most \<open>len\<close> characters, trimmed, with the ellipsis after it.
\<close>

theorem truncate_text_bound:
  assumes "len < 2 ^ 64"
  shows "(char_length input \<le> len \<and> truncate_text input len ellipsis = input) \<or>
    (\<exists>pre body post. input = pre @ body @ post \<and> char_length body \<le> len \<and>
       trim body = body \<and> truncate_text input len ellipsis = body @ ellipsis)"
proof (cases "char_length input \<le> len")
  case False
  let ?raw = "char_substr input 0 (Some len)"
  let ?cut = "trim ?raw"
  let ?k = "case find_last_pos (\<lambda>c. c = CHR '' '') ?cut of None \<Rightarrow> length ?cut | Some i \<Rightarrow> i"
  let ?body = "trim (take ?k ?cut)"
  have res: "truncate_text input len ellipsis = ?body @ ellipsis"
    using False by (simp add: truncate_text_def Let_def split: option.splits)
  have "sequences ?body \<le> sequences ?raw"
    by (meson order_trans sequences_take sequences_trim)
  also have "\<dots> \<le> len"
    using assms by (simp add: char_substr_prefix sequences_take_claimed)
  finally have small: "char_length ?body \<le> len"
    by (simp add: char_length_sequences)
  obtain a b where ab: "take ?k ?cut = a @ ?body @ b"
    using trim_decompose by blast
  obtain c d where cd: "?raw = c @ ?cut @ d"
    using trim_decompose by blast
  have "input = ?raw @ drop (claimed input len) input"
    using assms by (simp add: char_substr_prefix)
  also have "\<dots> = c @ (take ?k ?cut @ drop ?k ?cut) @ d @ drop (claimed input len) input"
    using cd by simp
  also have "\<dots> = (c @ a) @ ?body @ (b @ drop ?k ?cut @ d @ drop (claimed input len) input)"
    by (subst ab) simp
  finally show ?thesis using res small trim_trim by blast
qed (simp add: truncate_text_def)

theorem truncate_text_bound_witness:
  "(char_length ''one two three'' \<le> 9 \<and>
      truncate_text ''one two three'' 9 ''..'' = ''one two three'') \<or>
   (\<exists>pre body post. ''one two three'' = pre @ body @ post \<and> char_length body \<le> 9 \<and>
      trim body = body \<and> truncate_text ''one two three'' 9 ''..'' = body @ ''..'')"
  by (rule truncate_text_bound) simp

text \<open>
  Splitting at a separator is inverse to joining with it. The pieces joined give the text
  back, no piece holds the separator, and they are the only such list of pieces.
\<close>

theorem split_at_inverse:
  "join_with sep (split_at s sep) = s \<and> (\<forall>p \<in> set (split_at s sep). sep \<notin> set p) \<and>
   (\<forall>pieces. pieces \<noteq> [] \<and> join_with sep pieces = s \<and> (\<forall>p \<in> set pieces. sep \<notin> set p) \<longrightarrow>
      pieces = split_at s sep)"
  using split_at_join split_at_pieces split_at_unique by metis

theorem split_at_inverse_witness: "split_at ''a,,b'' CHR '','' = [''a'', [], ''b'']"
proof -
  have "join_with CHR '','' [''a'', [], ''b''] = ''a,,b''" "CHR '','' \<notin> set ''a''" "CHR '','' \<notin> set ''b''"
    by simp_all
  then have "[''a'', [], ''b''] \<noteq> [] \<and> join_with CHR '','' [''a'', [], ''b''] = ''a,,b'' \<and>
      (\<forall>p \<in> set [''a'', [], ''b'']. CHR '','' \<notin> set p)"
    by (simp only: list.set ball_simps) simp
  then show ?thesis
    using split_at_inverse [of "CHR '',''" "''a,,b''"] by metis
qed

end
