(* ===== verification/Floats.thy ===== *)
theory Floats
  imports TextOps
begin

text \<open>
  The \<open>double\<close> of the program and the standard-library operations it uses on one:
  \<open>std::strtod\<close> behind \<open>text::to_double\<close>, the conversions from and to \<open>std::int64_t\<close>, the
  comparisons, \<open>+\<close> and \<open>-\<close>, and \<open>std::format("{}", x)\<close>, which is the shortest decimal text
  that reads back. A finite double is kept exactly, as sign, significand and binary
  exponent; there is one NaN. Rounding is to nearest, ties to even; \<open>ERANGE\<close> is set on
  overflow and on a tiny inexact result, as glibc does on x86-64.
\<close>

datatype double = NaN | Inf bool | Fin bool nat int

text \<open>Canonical form: normal numbers carry 53 bits, subnormal ones the least exponent.\<close>

fun double_ok :: "double \<Rightarrow> bool" where
  "double_ok (Fin neg m e) \<longleftrightarrow>
     (2 ^ 52 \<le> m \<and> m < 2 ^ 53 \<and> - 1074 \<le> e \<and> e \<le> 971) \<or> (m < 2 ^ 52 \<and> e = - 1074)"
| "double_ok d \<longleftrightarrow> True"

section \<open>Rounding a rational\<close>

fun bit_count :: "nat \<Rightarrow> nat" where
  "bit_count n = (if n = 0 then 0 else Suc (bit_count (n div 2)))"

declare bit_count.simps [simp del]

text \<open>Whether \<open>p / q \<ge> 2 ^ k\<close>, and the largest such \<open>k\<close>.\<close>

definition ge_pow2 :: "nat \<Rightarrow> nat \<Rightarrow> int \<Rightarrow> bool" where
  "ge_pow2 p q k \<longleftrightarrow> (if 0 \<le> k then q * 2 ^ nat k \<le> p else q \<le> p * 2 ^ nat (- k))"

definition floor_log2 :: "nat \<Rightarrow> nat \<Rightarrow> int" where
  "floor_log2 p q =
     (let k = int (bit_count p) - int (bit_count q) in if ge_pow2 p q k then k else k - 1)"

definition round_at :: "nat \<Rightarrow> nat \<Rightarrow> int \<Rightarrow> nat" where
  "round_at p q e =
     (let num = (if 0 \<le> e then p else p * 2 ^ nat (- e));
          den = (if 0 \<le> e then q * 2 ^ nat e else q);
          m = num div den;
          r = num mod den
      in if den < 2 * r \<or> (2 * r = den \<and> odd m) then Suc m else m)"

definition exact_at :: "nat \<Rightarrow> nat \<Rightarrow> int \<Rightarrow> bool" where
  "exact_at p q e \<longleftrightarrow>
     (if 0 \<le> e then p mod (q * 2 ^ nat e) = 0 else (p * 2 ^ nat (- e)) mod q = 0)"

text \<open>The double nearest to \<open>p / q\<close>, and whether \<open>ERANGE\<close> is reported.\<close>

definition round_ratio :: "bool \<Rightarrow> nat \<Rightarrow> nat \<Rightarrow> double \<times> bool" where
  "round_ratio neg p q =
     (if p = 0 then (Fin neg 0 (- 1074), False)
      else
        let free = floor_log2 p q - 52;
            tiny = (let m = round_at p q free in if m = 2 ^ 53 then free + 1 else free) < - 1074;
            e = max (- 1074) free;
            m = round_at p q e;
            (m', e') = (if m = 2 ^ 53 then (2 ^ 52, e + 1) else (m, e))
        in if 971 < e' then (Inf neg, True)
           else (Fin neg m' e', tiny \<and> \<not> exact_at p q e))"

section \<open>strtod\<close>

definition is_digit :: "char \<Rightarrow> bool" where
  "is_digit c \<longleftrightarrow> between CHR ''0'' CHR ''9'' c"

definition digit_value :: "char \<Rightarrow> nat" where
  "digit_value c = byte c - 48"

definition hex_value :: "char \<Rightarrow> nat option" where
  "hex_value c =
     (if between CHR ''0'' CHR ''9'' c then Some (byte c - 48)
      else if between CHR ''a'' CHR ''f'' c then Some (byte c - 97 + 10)
      else if between CHR ''A'' CHR ''F'' c then Some (byte c - 65 + 10)
      else None)"

definition digits_value :: "nat \<Rightarrow> string \<Rightarrow> nat" where
  "digits_value base ds = foldl (\<lambda>n c. base * n + the (hex_value c)) 0 ds"

text \<open>An exponent part counts only when it has a digit; otherwise nothing of it is read.\<close>

definition read_exponent :: "char set \<Rightarrow> string \<Rightarrow> int \<times> string" where
  "read_exponent marks s =
     (case s of
        [] \<Rightarrow> (0, s)
      | c # rest \<Rightarrow>
          if c \<notin> marks then (0, s)
          else
            let (neg, rest') =
                  (case rest of
                     [] \<Rightarrow> (False, rest)
                   | d # follow \<Rightarrow> if d = CHR ''-'' then (True, follow)
                                else if d = CHR ''+'' then (False, follow) else (False, rest));
                ds = takeWhile is_digit rest';
                n = int (digits_value 10 ds)
            in if ds = [] then (0, s) else (if neg then - n else n, dropWhile is_digit rest'))"

text \<open>Digits, an optional point, digits: the digits read, how many follow the point, the rest.\<close>

definition read_significand :: "(char \<Rightarrow> bool) \<Rightarrow> string \<Rightarrow> string \<times> nat \<times> string" where
  "read_significand dig s =
     (let whole = takeWhile dig s;
          rest = dropWhile dig s
      in case rest of
           [] \<Rightarrow> (whole, 0, rest)
         | c # follow \<Rightarrow>
             if c = CHR ''.'' \<and> (whole \<noteq> [] \<or> takeWhile dig follow \<noteq> [])
             then (whole @ takeWhile dig follow, length (takeWhile dig follow), dropWhile dig follow)
             else (whole, 0, rest))"

definition scale :: "bool \<Rightarrow> nat \<Rightarrow> nat \<Rightarrow> int \<Rightarrow> double \<times> bool" where
  "scale neg base n x =
     (if 0 \<le> x then round_ratio neg (n * base ^ nat x) 1
      else round_ratio neg n (base ^ nat (- x)))"

definition strtod_unsigned :: "bool \<Rightarrow> string \<Rightarrow> (double \<times> bool \<times> string) option" where
  "strtod_unsigned neg s =
     (let low = to_lower_ascii s in
      if starts_with low ''infinity'' then Some (Inf neg, False, drop 8 s)
      else if starts_with low ''inf'' then Some (Inf neg, False, drop 3 s)
      else if starts_with low ''nan'' then
        (let rest = drop 3 s;
             inner = dropWhile (\<lambda>c. is_digit c \<or> between CHR ''a'' CHR ''z'' (lower_char c) \<or> c = CHR ''_'')
                       (drop 1 rest)
         in if starts_with rest ''('' \<and> starts_with inner '')'' then Some (NaN, False, drop 1 inner)
            else Some (NaN, False, rest))
      else
        let hex = read_significand (\<lambda>c. hex_value c \<noteq> None) (drop 2 s) in
        if starts_with low ''0x'' \<and> fst hex \<noteq> [] then
          (let (ds, after, left) = hex;
               (x, rest') = read_exponent {CHR ''p'', CHR ''P''} left;
               (d, erange) = scale neg 2 (digits_value 16 ds) (x - 4 * int after)
           in Some (d, erange, rest'))
        else
          let (ds, after, rest) = read_significand is_digit s in
          if ds = [] then None
          else
            let (x, rest') = read_exponent {CHR ''e'', CHR ''E''} rest;
                (d, erange) = scale neg 10 (digits_value 10 ds) (x - int after)
            in Some (d, erange, rest'))"

text \<open>
  The value, whether \<open>errno\<close> is \<open>ERANGE\<close>, and the text at \<open>end\<close>; without a conversion \<open>end\<close> is
  the start of the text.
\<close>

definition strtod :: "string \<Rightarrow> double \<times> bool \<times> string" where
  "strtod s =
     (let t = dropWhile is_space s;
          (neg, u) = (if starts_with t ''-'' then (True, drop 1 t)
                      else if starts_with t ''+'' then (False, drop 1 t) else (False, t))
      in case strtod_unsigned neg u of
           None \<Rightarrow> (Fin False 0 (- 1074), False, s)
         | Some r \<Rightarrow> r)"

text \<open>text.cpp, \<open>to_double\<close>: all of the text or nothing, and nothing on \<open>ERANGE\<close>.\<close>

definition to_double :: "string \<Rightarrow> double option" where
  "to_double s =
     (if s = [] then None
      else
        let (v, erange, rest) = strtod s
        in if rest \<noteq> [] then None else if erange then None else Some v)"

section \<open>Integers\<close>

definition int64_min :: int where "int64_min = - (2 ^ 63)"
definition int64_max :: int where "int64_max = 2 ^ 63 - 1"

definition in_int64 :: "int \<Rightarrow> bool" where
  "in_int64 i \<longleftrightarrow> int64_min \<le> i \<and> i \<le> int64_max"

text \<open>
  \<open>std::from_chars\<close> into an \<open>std::int64_t\<close>: an optional minus and at least one digit; the
  value when it fits. The callers look at the error code, so the three answers are kept apart.
\<close>

datatype from_chars_result = Parsed int string | Invalid | OutOfRange

definition from_chars_int64 :: "string \<Rightarrow> from_chars_result" where
  "from_chars_int64 s =
     (let neg = starts_with s ''-'';
          t = (if neg then drop 1 s else s);
          ds = takeWhile is_digit t;
          n = int (digits_value 10 ds);
          i = (if neg then - n else n)
      in if ds = [] then Invalid
         else if in_int64 i then Parsed i (dropWhile is_digit t) else OutOfRange)"

lemma from_chars_in_int64: "from_chars_int64 token = Parsed i rest \<Longrightarrow> in_int64 i"
  by (auto simp: from_chars_int64_def Let_def split: if_splits)

text \<open>\<open>static_cast<std::int64_t>\<close> of a size wraps around.\<close>

definition int64_of_size :: "nat \<Rightarrow> int" where
  "int64_of_size n = (int n + 2 ^ 63) mod 2 ^ 64 - 2 ^ 63"

lemma int64_of_size_small: "n < 2 ^ 63 \<Longrightarrow> int64_of_size n = int n"
  by (simp add: int64_of_size_def)

lemma int64_of_size_fits: "in_int64 (int64_of_size n)"
proof -
  have "0 \<le> (int n + 2 ^ 63) mod 2 ^ 64" "(int n + 2 ^ 63) mod 2 ^ 64 < 2 ^ 64"
    by (rule pos_mod_sign, simp) (rule pos_mod_bound, simp)
  then show ?thesis
    by (simp add: int64_of_size_def in_int64_def int64_min_def int64_max_def)
qed

definition double_of_int :: "int \<Rightarrow> double" where
  "double_of_int i = fst (round_ratio (i < 0) (nat \<bar>i\<bar>) 1)"

text \<open>
  \<open>static_cast<std::int64_t>(double)\<close> truncates towards zero; outside the range of the
  integer type it is undefined, \<open>None\<close>.
\<close>

definition truncated :: "nat \<Rightarrow> int \<Rightarrow> nat" where
  "truncated m e = (if 0 \<le> e then m * 2 ^ nat e else m div 2 ^ nat (- e))"

fun int64_of_double :: "double \<Rightarrow> int option" where
  "int64_of_double (Fin neg m e) =
     (let i = (if neg then - int (truncated m e) else int (truncated m e))
      in if in_int64 i then Some i else None)"
| "int64_of_double d = None"

section \<open>Comparison and arithmetic\<close>

text \<open>The value of a finite double in units of \<open>2 ^ - 1074\<close>.\<close>

definition units :: "bool \<Rightarrow> nat \<Rightarrow> int \<Rightarrow> int" where
  "units neg m e = (if neg then - 1 else 1) * (int m * 2 ^ nat (e + 1074))"

fun double_less :: "double \<Rightarrow> double \<Rightarrow> bool" where
  "double_less (Fin s m e) (Fin t n f) \<longleftrightarrow> units s m e < units t n f"
| "double_less (Inf s) (Inf t) \<longleftrightarrow> s \<and> \<not> t"
| "double_less (Inf s) (Fin t n f) \<longleftrightarrow> s"
| "double_less (Fin s m e) (Inf t) \<longleftrightarrow> \<not> t"
| "double_less _ _ \<longleftrightarrow> False"

fun double_eq :: "double \<Rightarrow> double \<Rightarrow> bool" where
  "double_eq (Fin s m e) (Fin t n f) \<longleftrightarrow> units s m e = units t n f"
| "double_eq (Inf s) (Inf t) \<longleftrightarrow> s = t"
| "double_eq _ _ \<longleftrightarrow> False"

definition double_zero :: double where "double_zero = Fin False 0 (- 1074)"

fun double_neg :: "double \<Rightarrow> double" where
  "double_neg (Fin s m e) = Fin (\<not> s) m e"
| "double_neg (Inf s) = Inf (\<not> s)"
| "double_neg NaN = NaN"

fun double_add :: "double \<Rightarrow> double \<Rightarrow> double" where
  "double_add (Fin s m e) (Fin t n f) =
     (let u = units s m e + units t n f
      in if u = 0 then Fin (s \<and> t) 0 (- 1074)
         else fst (round_ratio (u < 0) (nat \<bar>u\<bar>) (2 ^ 1074)))"
| "double_add (Inf s) (Inf t) = (if s = t then Inf s else NaN)"
| "double_add (Inf s) (Fin t n f) = Inf s"
| "double_add (Fin s m e) (Inf t) = Inf t"
| "double_add _ _ = NaN"

definition double_sub :: "double \<Rightarrow> double \<Rightarrow> double" where
  "double_sub a b = double_add a (double_neg b)"

fun is_finite :: "double \<Rightarrow> bool" where
  "is_finite (Fin _ _ _) = True"
| "is_finite _ = False"

section \<open>Printing\<close>

text \<open>\<open>std::format("{}", n)\<close> for an unsigned and a signed integer.\<close>

definition digit_char :: "nat \<Rightarrow> char" where
  "digit_char d = char_of (48 + d)"

fun format_nat :: "nat \<Rightarrow> string" where
  "format_nat n = (if n < 10 then [digit_char n] else format_nat (n div 10) @ [digit_char (n mod 10)])"

declare format_nat.simps [simp del]

definition format_int :: "int \<Rightarrow> string" where
  "format_int i = (if i < 0 then CHR ''-'' # format_nat (nat (- i)) else format_nat (nat i))"

lemma byte_digit_char: "d < 10 \<Longrightarrow> byte (digit_char d) = 48 + d"
  by (simp add: digit_char_def)

lemma is_digit_digit_char [simp]: "d < 10 \<Longrightarrow> is_digit (digit_char d)"
  by (simp add: is_digit_def between_def byte_digit_char)

lemma hex_value_digit_char [simp]: "d < 10 \<Longrightarrow> hex_value (digit_char d) = Some d"
  by (simp add: hex_value_def between_def byte_digit_char)

lemma format_nat_digits: "format_nat n \<noteq> [] \<and> (\<forall>c \<in> set (format_nat n). is_digit c)"
proof (induction n rule: format_nat.induct)
  case (1 n)
  then show ?case
    by (cases "n < 10") (auto simp: format_nat.simps [of n])
qed

lemma digits_value_snoc: "digits_value b (ds @ [c]) = b * digits_value b ds + the (hex_value c)"
  by (simp add: digits_value_def)

lemma digits_value_format_nat: "digits_value 10 (format_nat n) = n"
proof (induction n rule: format_nat.induct)
  case (1 n)
  show ?case
  proof (cases "n < 10")
    case True
    then show ?thesis
      by (subst format_nat.simps) (simp add: digits_value_def)
  next
    case False
    then have "digits_value 10 (format_nat n) = 10 * (n div 10) + n mod 10"
      using 1 by (subst format_nat.simps) (simp add: digits_value_snoc)
    then show ?thesis by simp
  qed
qed

text \<open>How often \<open>p\<close> must be multiplied by ten to reach \<open>q\<close>, and the decimal exponent of \<open>p / q\<close>.\<close>

function tenfolds :: "nat \<Rightarrow> nat \<Rightarrow> nat" where
  "tenfolds p q = (if p = 0 \<or> q \<le> p then 0 else Suc (tenfolds (10 * p) q))"
  by pat_completeness auto
termination
  by (relation "measure (\<lambda>(p, q). q - p)") auto

declare tenfolds.simps [simp del]

definition decimal_exponent :: "nat \<Rightarrow> nat \<Rightarrow> int" where
  "decimal_exponent p q =
     (if q \<le> p then int (length (format_nat (p div q))) - 1 else - int (tenfolds p q))"

text \<open>
  Of the two \<open>n\<close>-digit decimals around \<open>p / q\<close>, those that read back as the same double, the
  nearer one first (the even one on a tie).
\<close>

definition candidates :: "nat \<Rightarrow> nat \<Rightarrow> double \<Rightarrow> nat \<Rightarrow> (nat \<times> int) list" where
  "candidates p q d n =
     (let x = decimal_exponent p q - int n + 1;
          num = (if 0 \<le> x then p else p * 10 ^ nat (- x));
          den = (if 0 \<le> x then q * 10 ^ nat x else q);
          lo = num div den;
          r = num mod den;
          ordered = (if 2 * r < den \<or> (2 * r = den \<and> even lo) then [lo, Suc lo] else [Suc lo, lo])
      in filter (\<lambda>(a, y). fst (scale False 10 a y) = d) (map (\<lambda>a. (a, x)) ordered))"

definition shortest_decimal :: "nat \<Rightarrow> nat \<Rightarrow> double \<Rightarrow> nat \<times> int" where
  "shortest_decimal p q d =
     (case find (\<lambda>n. candidates p q d n \<noteq> []) [1..<18] of
        Some n \<Rightarrow> hd (candidates p q d n)
      | None \<Rightarrow> (0, 0))"

definition strip_zeros :: "nat \<times> int \<Rightarrow> string \<times> int" where
  "strip_zeros ax =
     (let ds = format_nat (fst ax);
          kept = rev (dropWhile (\<lambda>c. c = CHR ''0'') (rev ds))
      in (kept, snd ax + int (length ds - length kept)))"

definition exponent_text :: "int \<Rightarrow> string" where
  "exponent_text k =
     (let ds = format_nat (nat \<bar>k\<bar>)
      in (if k < 0 then ''e-'' else ''e+'') @ (if length ds < 2 then CHR ''0'' # ds else ds))"

text \<open>Fixed or scientific, whichever is shorter; fixed on a tie. A whole number in fixed form is exact.\<close>

definition layout_decimal :: "nat \<Rightarrow> nat \<Rightarrow> string \<times> int \<Rightarrow> string" where
  "layout_decimal p q dx =
     (let (ds, x) = dx;
          n = length ds;
          k = x + int n - 1;
          sci = (if n = 1 then ds else hd ds # CHR ''.'' # tl ds) @ exponent_text k;
          fixed =
            (if 0 \<le> x then format_nat (p div q)
             else if 0 \<le> k then take (nat (k + 1)) ds @ CHR ''.'' # drop (nat (k + 1)) ds
             else ''0.'' @ replicate (nat (- k - 1)) CHR ''0'' @ ds)
      in if length fixed \<le> length sci then fixed else sci)"

fun format_double :: "double \<Rightarrow> string" where
  "format_double NaN = ''nan''"
| "format_double (Inf neg) = (if neg then ''-inf'' else ''inf'')"
| "format_double (Fin neg m e) =
     (let p = (if 0 \<le> e then m * 2 ^ nat e else m);
          q = (if 0 \<le> e then 1 else 2 ^ nat (- e));
          text = (if m = 0 then ''0''
                  else layout_decimal p q (strip_zeros (shortest_decimal p q (Fin False m e))))
      in (if neg then CHR ''-'' # text else text))"

end
