(* ===== verification/Values.thy ===== *)
theory Values
  imports Floats
begin

text \<open>
  value.cpp: the dynamic type shared by JSON, YAML and the template context. An object is an
  association list in insertion order. The setters return the new value; a reader of the wrong
  type returns its fallback.
\<close>

datatype jvalue =
    VNull
  | VBoolean bool
  | VInteger int
  | VNumber double
  | VString string
  | VArray "jvalue list"
  | VObject "(string \<times> jvalue) list"

datatype value_type =
  TNull | TBoolean | TInteger | TNumber | TString | TArray | TObject

fun type_of_value :: "jvalue \<Rightarrow> value_type" where
  "type_of_value VNull = TNull"
| "type_of_value (VBoolean _) = TBoolean"
| "type_of_value (VInteger _) = TInteger"
| "type_of_value (VNumber _) = TNumber"
| "type_of_value (VString _) = TString"
| "type_of_value (VArray _) = TArray"
| "type_of_value (VObject _) = TObject"

fun type_name :: "value_type \<Rightarrow> string" where
  "type_name TNull = ''null''"
| "type_name TBoolean = ''boolean''"
| "type_name TInteger = ''integer''"
| "type_name TNumber = ''number''"
| "type_name TString = ''string''"
| "type_name TArray = ''array''"
| "type_name TObject = ''object''"

abbreviation is_object :: "jvalue \<Rightarrow> bool" where
  "is_object v \<equiv> type_of_value v = TObject"

abbreviation is_array :: "jvalue \<Rightarrow> bool" where
  "is_array v \<equiv> type_of_value v = TArray"

section \<open>Readers\<close>

fun as_boolean :: "jvalue \<Rightarrow> bool \<Rightarrow> bool" where
  "as_boolean (VBoolean b) fallback = b"
| "as_boolean _ fallback = fallback"

text \<open>\<open>None\<close> is the undefined conversion of a double outside the integer's range.\<close>

fun as_integer :: "jvalue \<Rightarrow> int \<Rightarrow> int option" where
  "as_integer (VInteger i) fallback = Some i"
| "as_integer (VNumber d) fallback = int64_of_double d"
| "as_integer _ fallback = Some fallback"

fun as_number :: "jvalue \<Rightarrow> double \<Rightarrow> double" where
  "as_number (VNumber d) fallback = d"
| "as_number (VInteger i) fallback = double_of_int i"
| "as_number _ fallback = fallback"

fun as_string :: "jvalue \<Rightarrow> string \<Rightarrow> string" where
  "as_string (VString s) fallback = s"
| "as_string _ fallback = fallback"

fun truthy :: "jvalue \<Rightarrow> bool" where
  "truthy VNull = False"
| "truthy (VBoolean b) = b"
| "truthy (VInteger i) = (i \<noteq> 0)"
| "truthy (VNumber d) = (\<not> double_eq d double_zero)"
| "truthy (VString s) = (s \<noteq> [])"
| "truthy (VArray xs) = (xs \<noteq> [])"
| "truthy (VObject ms) = (ms \<noteq> [])"

fun value_size :: "jvalue \<Rightarrow> nat" where
  "value_size (VArray xs) = length xs"
| "value_size (VObject ms) = length ms"
| "value_size (VString s) = length s"
| "value_size _ = 0"

fun items :: "jvalue \<Rightarrow> jvalue list" where
  "items (VArray xs) = xs"
| "items _ = []"

fun members :: "jvalue \<Rightarrow> (string \<times> jvalue) list" where
  "members (VObject ms) = ms"
| "members _ = []"

definition value_at :: "jvalue \<Rightarrow> nat \<Rightarrow> jvalue" where
  "value_at v index =
     (case v of VArray xs \<Rightarrow> if index \<ge> length xs then VNull else xs ! index | _ \<Rightarrow> VNull)"

section \<open>Writers\<close>

definition push_item :: "jvalue \<Rightarrow> jvalue \<Rightarrow> jvalue" where
  "push_item v item = (case v of VArray xs \<Rightarrow> VArray (xs @ [item]) | _ \<Rightarrow> VArray [item])"

lemma fold_push_items: "fold (\<lambda>x v. push_item v (f x)) entries (VArray xs) = VArray (xs @ map f entries)"
  by (induction entries arbitrary: xs) (simp_all add: push_item_def)

text \<open>
  The update that \<open>Value::set\<close> and \<open>ViewContext\<close> share: the first entry with the key is
  overwritten in place, otherwise one is appended.
\<close>

fun put_entry :: "'k \<Rightarrow> 'v \<Rightarrow> ('k \<times> 'v) list \<Rightarrow> ('k \<times> 'v) list" where
  "put_entry key item [] = [(key, item)]"
| "put_entry key item ((k, v) # entries) =
     (if k = key then (k, item) # entries else (k, v) # put_entry key item entries)"

definition set_member :: "jvalue \<Rightarrow> string \<Rightarrow> jvalue \<Rightarrow> jvalue" where
  "set_member v key item =
     (case v of VObject ms \<Rightarrow> VObject (put_entry key item ms) | _ \<Rightarrow> VObject [(key, item)])"

definition find_member :: "jvalue \<Rightarrow> string \<Rightarrow> jvalue option" where
  "find_member v key = (case v of VObject ms \<Rightarrow> map_of ms key | _ \<Rightarrow> None)"

lemma find_member_VObject [simp]: "find_member (VObject ms) key = map_of ms key"
  by (simp add: find_member_def)

definition has_member :: "jvalue \<Rightarrow> string \<Rightarrow> bool" where
  "has_member v key \<longleftrightarrow> find_member v key \<noteq> None"

text \<open>\<open>operator[]\<close>: a missing key reads as null.\<close>

definition get_member :: "jvalue \<Rightarrow> string \<Rightarrow> jvalue" where
  "get_member v key = (case find_member v key of Some item \<Rightarrow> item | None \<Rightarrow> VNull)"

text \<open>\<open>operator==\<close> compares alternatives and contents; doubles compare as doubles.\<close>

fun value_eq :: "jvalue \<Rightarrow> jvalue \<Rightarrow> bool"
  and values_eq :: "jvalue list \<Rightarrow> jvalue list \<Rightarrow> bool"
  and members_eq :: "(string \<times> jvalue) list \<Rightarrow> (string \<times> jvalue) list \<Rightarrow> bool" where
  "value_eq VNull VNull = True"
| "value_eq (VBoolean a) (VBoolean b) = (a = b)"
| "value_eq (VInteger a) (VInteger b) = (a = b)"
| "value_eq (VNumber a) (VNumber b) = double_eq a b"
| "value_eq (VString a) (VString b) = (a = b)"
| "value_eq (VArray a) (VArray b) = values_eq a b"
| "value_eq (VObject a) (VObject b) = members_eq a b"
| "value_eq _ _ = False"
| "values_eq [] [] = True"
| "values_eq (x # xs) (y # ys) = (value_eq x y \<and> values_eq xs ys)"
| "values_eq _ _ = False"
| "members_eq [] [] = True"
| "members_eq ((k, x) # xs) ((l, y) # ys) = (k = l \<and> value_eq x y \<and> members_eq xs ys)"
| "members_eq _ _ = False"

section \<open>Deep merge\<close>

fun deep_merge :: "jvalue \<Rightarrow> jvalue \<Rightarrow> jvalue"
  and merge_members :: "jvalue \<Rightarrow> (string \<times> jvalue) list \<Rightarrow> jvalue" where
  "deep_merge base over =
     (case over of
        VObject ms \<Rightarrow> if is_object base then merge_members base ms else over
      | _ \<Rightarrow> over)"
| "merge_members merged [] = merged"
| "merge_members merged ((key, item) # rest) =
     (case find_member merged key of
        Some existing \<Rightarrow>
          if is_object existing \<and> is_object item
          then merge_members (set_member merged key (deep_merge existing item)) rest
          else merge_members (set_member merged key item) rest
      | None \<Rightarrow> merge_members (set_member merged key item) rest)"

declare deep_merge.simps [simp del]

lemma deep_merge_objects [simp]:
  "is_object base \<Longrightarrow> deep_merge base (VObject ms) = merge_members base ms"
  by (simp add: deep_merge.simps)

lemma deep_merge_other:
  "\<not> is_object base \<or> \<not> is_object over \<Longrightarrow> deep_merge base over = over"
  by (cases over) (auto simp: deep_merge.simps)

section \<open>Insertion-ordered entries as a keyed store\<close>

lemma map_of_put_entry: "map_of (put_entry key item ms) = (map_of ms)(key \<mapsto> item)"
  by (induction key item ms rule: put_entry.induct) (auto simp: fun_eq_iff)

lemma keys_put_entry:
  "map fst (put_entry key item ms) =
     (if key \<in> fst ` set ms then map fst ms else map fst ms @ [key])"
  by (induction key item ms rule: put_entry.induct) auto

lemma distinct_put_entry:
  "distinct (map fst ms) \<Longrightarrow> distinct (map fst (put_entry key item ms))"
  by (auto simp: keys_put_entry)

lemma put_entry_fresh: "key \<notin> fst ` set ms \<Longrightarrow> put_entry key item ms = ms @ [(key, item)]"
  by (induction key item ms rule: put_entry.induct) auto

interpretation entries: keyed_store map_of put_entry
  by unfold_locales (rule map_of_put_entry)

text \<open>A value whose objects have distinct keys and whose integers fit; the setters keep it.\<close>

fun value_ok :: "jvalue \<Rightarrow> bool" where
  "value_ok (VInteger i) = in_int64 i"
| "value_ok (VArray xs) = (\<forall>x \<in> set xs. value_ok x)"
| "value_ok (VObject ms) = (distinct (map fst ms) \<and> (\<forall>m \<in> set ms. value_ok (snd m)))"
| "value_ok _ = True"

lemma set_put_entry: "set (put_entry key item ms) \<subseteq> insert (key, item) (set ms)"
  by (induction key item ms rule: put_entry.induct) auto

lemma value_ok_set_member:
  "value_ok v \<Longrightarrow> value_ok item \<Longrightarrow> value_ok (set_member v key item)"
  using set_put_entry [of key item "members v"]
  by (cases v) (auto simp: set_member_def distinct_put_entry)

lemma value_ok_push_item: "value_ok v \<Longrightarrow> value_ok item \<Longrightarrow> value_ok (push_item v item)"
  by (cases v) (auto simp: push_item_def)

lemma value_ok_find_member: "value_ok v \<Longrightarrow> find_member v key = Some item \<Longrightarrow> value_ok item"
  by (cases v) (auto simp: find_member_def dest!: map_of_SomeD)

lemma value_ok_deep_merge:
  "value_ok base \<Longrightarrow> value_ok over \<Longrightarrow> value_ok (deep_merge base over)"
  "value_ok merged \<Longrightarrow> (\<forall>m \<in> set ms. value_ok (snd m)) \<Longrightarrow> value_ok (merge_members merged ms)"
proof (induction base over and merged ms rule: deep_merge_merge_members.induct)
  case (1 base over)
  show ?case
  proof (cases "is_object base \<and> is_object over")
    case True
    then obtain ms where "over = VObject ms" by (cases over) auto
    with 1 True show ?thesis by simp
  next
    case False
    then have "deep_merge base over = over" by (intro deep_merge_other) blast
    with 1 show ?thesis by simp
  qed
next
  case (3 merged key item rest)
  then show ?case
    by (auto simp: value_ok_set_member split: option.splits)
      (metis value_ok_find_member value_ok_set_member)
qed simp

section \<open>What a merge reads back\<close>

lemma is_object_set_member [simp]: "is_object (set_member v key item)"
  by (cases v) (auto simp: set_member_def)

lemma find_set_member:
  "is_object v \<Longrightarrow> find_member (set_member v key item) = (find_member v)(key \<mapsto> item)"
  by (cases v) (auto simp: find_member_def set_member_def map_of_put_entry fun_eq_iff)

definition merged_member :: "jvalue option \<Rightarrow> jvalue \<Rightarrow> jvalue" where
  "merged_member existing item =
     (case existing of
        Some old \<Rightarrow> if is_object old \<and> is_object item then deep_merge old item else item
      | None \<Rightarrow> item)"

lemma merge_members_step:
  "merge_members merged ((key, item) # rest) =
     merge_members (set_member merged key (merged_member (find_member merged key) item)) rest"
  by (simp add: merged_member_def split: option.splits)

lemma is_object_merge_members: "is_object merged \<Longrightarrow> is_object (merge_members merged ms)"
  by (induction ms arbitrary: merged) (auto simp: merge_members_step simp del: merge_members.simps(2))

lemma find_merge_members:
  "is_object merged \<Longrightarrow> distinct (map fst ms) \<Longrightarrow>
   find_member (merge_members merged ms) key =
     (case map_of ms key of
        None \<Rightarrow> find_member merged key
      | Some item \<Rightarrow> Some (merged_member (find_member merged key) item))"
proof (induction ms arbitrary: merged)
  case (Cons m ms)
  obtain k item where m: "m = (k, item)" by (cases m)
  have "map_of ms k = None"
    using Cons.prems m by (auto simp: map_of_eq_None_iff)
  with Cons show ?case
    unfolding m merge_members_step
    by (auto simp: find_set_member split: option.splits)
qed simp

lemma keys_set_member:
  "map fst (members (set_member v key item)) =
     (if key \<in> fst ` set (members v) then map fst (members v) else map fst (members v) @ [key])"
  by (cases v) (auto simp: set_member_def keys_put_entry)

lemma keys_merge_members:
  "distinct (map fst ms) \<Longrightarrow>
   map fst (members (merge_members merged ms)) =
     map fst (members merged) @ filter (\<lambda>k. k \<notin> fst ` set (members merged)) (map fst ms)"
proof (induction ms arbitrary: merged)
  case (Cons m ms)
  obtain k item where m: "m = (k, item)" by (cases m)
  let ?next = "set_member merged k (merged_member (find_member merged k) item)"
  have keys: "fst ` set (members ?next) = insert k (fst ` set (members merged))"
    using arg_cong [OF keys_set_member [of merged k "merged_member (find_member merged k) item"], of set]
    by (auto split: if_splits)
  have same: "filter (\<lambda>j. j \<noteq> k \<and> j \<notin> A) (map fst ms) = filter (\<lambda>j. j \<notin> A) (map fst ms)"
    for A :: "string set"
    using Cons.prems m by (intro filter_cong) auto
  show ?case
    using Cons unfolding m merge_members_step
    by (simp add: keys same keys_set_member)
qed simp

text \<open>
  A deep merge of two objects reads, under every key, the entry of \<open>over\<close> where it has
  one (merged with the base's entry when both are objects), and the base's entry otherwise.
  The base's keys keep their places and the new ones follow in their own order.
\<close>

theorem deep_merge_members:
  assumes "distinct (map fst over)"
  shows "find_member (deep_merge (VObject base) (VObject over)) key =
      (case map_of over key of
         None \<Rightarrow> map_of base key
       | Some item \<Rightarrow> Some (merged_member (map_of base key) item))
    \<and> map fst (members (deep_merge (VObject base) (VObject over))) =
      map fst base @ filter (\<lambda>k. k \<notin> fst ` set base) (map fst over)"
  using assms find_merge_members [of "VObject base" over key]
    keys_merge_members [of over "VObject base"]
  by (auto split: option.splits)

theorem deep_merge_members_witness:
  "find_member (deep_merge (VObject [(''a'', VObject [(''x'', VNull)])])
      (VObject [(''b'', VNull), (''a'', VObject [(''y'', VNull)])])) ''a'' =
      (case map_of [(''b'', VNull), (''a'', VObject [(''y'', VNull)])] ''a'' of
         None \<Rightarrow> map_of [(''a'', VObject [(''x'', VNull)])] ''a''
       | Some item \<Rightarrow> Some (merged_member (map_of [(''a'', VObject [(''x'', VNull)])] ''a'') item))
    \<and> map fst (members (deep_merge (VObject [(''a'', VObject [(''x'', VNull)])])
      (VObject [(''b'', VNull), (''a'', VObject [(''y'', VNull)])]))) =
      map fst [(''a'', VObject [(''x'', VNull)])] @
        filter (\<lambda>k. k \<notin> fst ` set [(''a'', VObject [(''x'', VNull)])])
          (map fst [(''b'', VNull), (''a'', VObject [(''y'', VNull)])])"
  by (rule deep_merge_members) simp

end
