(* ===== verification/Json.thy ===== *)
theory Json
  imports Values "HOL-Library.Char_ord" "HOL-Library.List_Lexorder" "HOL-Library.Multiset"
begin

text \<open>
  json.cpp. The writer returns the bytes it appends. The parser's \<open>text_\<close> and \<open>position_\<close> are
  kept together as the unread suffix \<open>text_.substr(position_)\<close>; the position never moves
  backwards. The mutually recursive functions carry fuel; \<open>parse_json\<close> starts with enough
  (lemma \<open>json_fuel\<close>), so \<open>OutOfFuel\<close> never comes back.
\<close>

unbundle bit_operations_syntax

section \<open>The writer\<close>

datatype json_style = Compact | Pretty

definition hex_digit :: "nat \<Rightarrow> char" where
  "hex_digit d = (if d < 10 then char_of (48 + d) else char_of (97 + (d - 10)))"

text \<open>\<open>"{:04x}"\<close> of a byte.\<close>

definition format_04x :: "nat \<Rightarrow> string" where
  "format_04x n = [hex_digit (n div 4096 mod 16), hex_digit (n div 256 mod 16),
     hex_digit (n div 16 mod 16), hex_digit (n mod 16)]"

definition json_escape :: "char \<Rightarrow> string" where
  "json_escape c =
     (if c = CHR 0x22 then [CHR 0x5C, CHR 0x22]
      else if c = CHR 0x5C then [CHR 0x5C, CHR 0x5C]
      else if c = CHR 0x08 then [CHR 0x5C, CHR ''b'']
      else if c = CHR 0x0C then [CHR 0x5C, CHR ''f'']
      else if c = CHR 0x0A then [CHR 0x5C, CHR ''n'']
      else if c = CHR 0x0D then [CHR 0x5C, CHR ''r'']
      else if c = CHR 0x09 then [CHR 0x5C, CHR ''t'']
      else if byte c < 32 then [CHR 0x5C, CHR ''u''] @ format_04x (byte c)
      else [c])"

definition json_string :: "string \<Rightarrow> string" where
  "json_string s = CHR 0x22 # concat (map json_escape s) @ [CHR 0x22]"

definition indent_text :: "nat \<Rightarrow> string" where
  "indent_text depth = replicate (depth * 2) CHR '' ''"

definition line_break :: "json_style \<Rightarrow> nat \<Rightarrow> string" where
  "line_break style depth = (if style = Pretty then CHR 0x0A # indent_text depth else [])"

definition write_number :: "double \<Rightarrow> string" where
  "write_number d =
     (if \<not> is_finite d then ''null''
      else format_double (if double_eq d double_zero then double_zero else d))"

lemma size_list_sort_key [simp]: "size_list f (sort_key k xs) = size_list f xs"
proof -
  have "mset (map f (sort_key k xs)) = mset (map f xs)"
    by (metis mset_map mset_sort)
  then have "sum_list (map f (sort_key k xs)) = sum_list (map f xs)"
    by (metis sum_mset_sum_list)
  then show ?thesis by (simp add: size_list_conv_sum_list)
qed

fun write_value :: "json_style \<Rightarrow> bool \<Rightarrow> nat \<Rightarrow> jvalue \<Rightarrow> string"
  and write_items :: "json_style \<Rightarrow> bool \<Rightarrow> nat \<Rightarrow> bool \<Rightarrow> jvalue list \<Rightarrow> string"
  and write_members :: "json_style \<Rightarrow> bool \<Rightarrow> nat \<Rightarrow> bool \<Rightarrow> (string \<times> jvalue) list \<Rightarrow> string" where
  "write_value style sorted_keys depth VNull = ''null''"
| "write_value style sorted_keys depth (VBoolean b) = (if b then ''true'' else ''false'')"
| "write_value style sorted_keys depth (VInteger i) = format_int i"
| "write_value style sorted_keys depth (VNumber d) = write_number d"
| "write_value style sorted_keys depth (VString s) = json_string s"
| "write_value style sorted_keys depth (VArray xs) =
     (if xs = [] then ''[]''
      else ''['' @ write_items style sorted_keys depth True xs @ line_break style depth @ '']'')"
| "write_value style sorted_keys depth (VObject ms) =
     (if ms = [] then ''{}''
      else ''{'' @
        write_members style sorted_keys depth True (if sorted_keys then sort_key fst ms else ms) @
        line_break style depth @ ''}'')"
| "write_items style sorted_keys depth first [] = []"
| "write_items style sorted_keys depth first (x # xs) =
     (if first then [] else '','') @ line_break style (depth + 1) @
     write_value style sorted_keys (depth + 1) x @
     write_items style sorted_keys depth False xs"
| "write_members style sorted_keys depth first [] = []"
| "write_members style sorted_keys depth first ((k, x) # ms) =
     (if first then [] else '','') @ line_break style (depth + 1) @
     json_string k @ '':'' @ (if style = Pretty then '' '' else []) @
     write_value style sorted_keys (depth + 1) x @
     write_members style sorted_keys depth False ms"

definition to_json :: "jvalue \<Rightarrow> json_style \<Rightarrow> bool \<Rightarrow> string" where
  "to_json v style sorted_keys =
     write_value style sorted_keys 0 v @ (if style = Pretty then [CHR 0x0A] else [])"

text \<open>\<open>ParseError::describe\<close>, without and with a path.\<close>

definition describe_error :: "parse_error \<Rightarrow> string" where
  "describe_error e = ''line '' @ format_nat (pe_line e) @ '', column '' @
     format_nat (pe_column e) @ '': '' @ pe_message e"

definition describe_error_at :: "parse_error \<Rightarrow> string \<Rightarrow> string" where
  "describe_error_at e path = path @ '':'' @ format_nat (pe_line e) @ '':'' @
     format_nat (pe_column e) @ '': '' @ pe_message e"

section \<open>The parser's state\<close>

record jstate =
  j_rest :: string
  j_line :: nat
  j_column :: nat
  j_depth :: nat

definition max_json_depth :: nat where "max_json_depth = 64"

definition j_fail :: "string \<Rightarrow> jstate \<Rightarrow> (jstate, 'a) outcome" where
  "j_fail message st = Failed \<lparr>pe_message = message, pe_line = j_line st, pe_column = j_column st\<rparr>"

text \<open>\<open>advance\<close>; every caller has checked that there is a character.\<close>

definition j_advance :: "jstate \<Rightarrow> jstate" where
  "j_advance st =
     (case j_rest st of
        [] \<Rightarrow> st
      | c # cs \<Rightarrow>
          if c = CHR 0x0A then st\<lparr>j_rest := cs, j_line := j_line st + 1, j_column := 1\<rparr>
          else st\<lparr>j_rest := cs, j_column := j_column st + 1\<rparr>)"

lemma j_rest_advance [simp]: "j_rest (j_advance st) = tl (j_rest st)"
  by (simp add: j_advance_def split: list.split)

lemma j_depth_advance [simp]: "j_depth (j_advance st) = j_depth st"
  by (simp add: j_advance_def split: list.split)

definition j_peek :: "jstate \<Rightarrow> char option" where
  "j_peek st = (case j_rest st of [] \<Rightarrow> None | c # _ \<Rightarrow> Some c)"

definition json_space :: "char \<Rightarrow> bool" where
  "json_space c \<longleftrightarrow> c \<in> {CHR '' '', CHR 0x09, CHR 0x0A, CHR 0x0D}"

function j_while :: "(char \<Rightarrow> bool) \<Rightarrow> jstate \<Rightarrow> jstate" where
  "j_while P st =
     (case j_rest st of
        [] \<Rightarrow> st
      | c # _ \<Rightarrow> if P c then j_while P (j_advance st) else st)"
  by pat_completeness auto
termination
  by (relation "measure (\<lambda>(_, st). length (j_rest st))") auto

declare j_while.simps [simp del]

abbreviation j_skip :: "jstate \<Rightarrow> jstate" where
  "j_skip st \<equiv> j_while json_space st"

text \<open>\<open>consume\<close>: whether the character was there, and the state after it.\<close>

definition j_consume :: "char \<Rightarrow> jstate \<Rightarrow> bool \<times> jstate" where
  "j_consume c st = (if j_peek st = Some c then (True, j_advance st) else (False, st))"

definition j_consume_word :: "string \<Rightarrow> jstate \<Rightarrow> bool \<times> jstate" where
  "j_consume_word word st =
     (if starts_with (j_rest st) word then (True, (j_advance ^^ length word) st) else (False, st))"

section \<open>Strings\<close>

definition incomplete_escape :: string where
  "incomplete_escape = ''incomplete '' @ [CHR 0x5C] @ ''u escape''"

definition invalid_hex_digit :: string where
  "invalid_hex_digit = ''invalid hex digit in a '' @ [CHR 0x5C] @ ''u escape''"

definition append_utf8 :: "32 word \<Rightarrow> string" where
  "append_utf8 cp =
     (if cp < 0x80 then [char_of (unat cp)]
      else if cp < 0x800 then
        [char_of (unat (0xC0 OR drop_bit 6 cp)), char_of (unat (0x80 OR (cp AND 0x3F)))]
      else if cp < 0x10000 then
        [char_of (unat (0xE0 OR drop_bit 12 cp)),
         char_of (unat (0x80 OR (drop_bit 6 cp AND 0x3F))),
         char_of (unat (0x80 OR (cp AND 0x3F)))]
      else
        [char_of (unat (0xF0 OR drop_bit 18 cp)),
         char_of (unat (0x80 OR (drop_bit 12 cp AND 0x3F))),
         char_of (unat (0x80 OR (drop_bit 6 cp AND 0x3F))),
         char_of (unat (0x80 OR (cp AND 0x3F)))])"

text \<open>The loop of \<open>parse_hex4\<close>: \<open>n\<close> digits still to read.\<close>

fun hex4_loop :: "nat \<Rightarrow> 32 word \<Rightarrow> jstate \<Rightarrow> (jstate, 32 word) outcome" where
  "hex4_loop 0 v st = Done v st"
| "hex4_loop (Suc n) v st =
     (case j_rest st of
        [] \<Rightarrow> j_fail incomplete_escape st
      | c # _ \<Rightarrow>
          (case hex_value c of
             Some d \<Rightarrow> hex4_loop n (push_bit 4 v OR of_nat d) (j_advance st)
           | None \<Rightarrow> j_fail invalid_hex_digit (j_advance st)))"

definition parse_hex4 :: "jstate \<Rightarrow> (jstate, 32 word) outcome" where
  "parse_hex4 st =
     (if length (j_rest st) < 4 then j_fail incomplete_escape st
      else hex4_loop 4 0 st)"

lemma hex4_loop_rest: "hex4_loop n v st = Done w st' \<Longrightarrow>
   j_rest st' = drop n (j_rest st) \<and> j_depth st' = j_depth st"
  by (induction n v st rule: hex4_loop.induct)
    (auto simp: j_fail_def drop_Suc split: list.splits option.splits)

lemma parse_hex4_rest: "parse_hex4 st = Done w st' \<Longrightarrow>
   j_rest st' = drop 4 (j_rest st) \<and> j_depth st' = j_depth st"
  by (auto simp: parse_hex4_def j_fail_def dest: hex4_loop_rest split: if_splits)

text \<open>
  \<open>append_escaped_code_point\<close> returns the bytes it appends. A high surrogate looks for an
  escaped low one; a low one that does not pair leaves both encoded separately.
\<close>

definition surrogate_bytes :: "32 word \<Rightarrow> 32 word \<Rightarrow> string" where
  "surrogate_bytes value low =
     (if 0xDC00 \<le> low \<and> low \<le> 0xDFFF
      then append_utf8 (0x10000 + push_bit 10 (value - 0xD800) + (low - 0xDC00))
      else append_utf8 value @ append_utf8 low)"

definition escaped_code_point :: "jstate \<Rightarrow> (jstate, string) outcome" where
  "escaped_code_point st =
     bind_outcome (parse_hex4 st) (\<lambda>value st1.
       if 0xD800 \<le> value \<and> value \<le> 0xDBFF \<and> starts_with (j_rest st1) [CHR 0x5C, CHR ''u'']
       then bind_outcome (parse_hex4 (j_advance (j_advance st1)))
              (\<lambda>low st2. Done (surrogate_bytes value low) st2)
       else Done (append_utf8 value) st1)"

lemma escaped_code_point_rest: "escaped_code_point st = Done t st' \<Longrightarrow>
   length (j_rest st') \<le> length (j_rest st) \<and> j_depth st' = j_depth st"
proof -
  assume result: "escaped_code_point st = Done t st'"
  obtain v st1 where first: "parse_hex4 st = Done v st1"
    using result by (simp add: escaped_code_point_def bind_outcome_Done) blast
  note rest1 = parse_hex4_rest [OF first]
  let ?pair = "0xD800 \<le> v \<and> v \<le> 0xDBFF \<and> starts_with (j_rest st1) [CHR 0x5C, CHR ''u'']"
  show ?thesis
  proof (cases ?pair)
    case True
    have "bind_outcome (parse_hex4 (j_advance (j_advance st1)))
        (\<lambda>low st2. Done (surrogate_bytes v low) st2) = Done t st'"
      using result unfolding escaped_code_point_def first bind_outcome.simps if_P [OF True] .
    then obtain low where second: "parse_hex4 (j_advance (j_advance st1)) = Done low st'"
      by (auto simp: bind_outcome_Done)
    with rest1 show ?thesis
      using parse_hex4_rest [OF second] by simp
  next
    case False
    then have "st' = st1"
      using result unfolding escaped_code_point_def first bind_outcome.simps if_not_P [OF False]
      by simp
    with rest1 show ?thesis by simp
  qed
qed

text \<open>The one-character escapes.\<close>

definition simple_escape :: "char \<Rightarrow> char option" where
  "simple_escape c =
     (if c = CHR 0x22 then Some CHR 0x22
      else if c = CHR 0x5C then Some CHR 0x5C
      else if c = CHR ''/'' then Some CHR ''/''
      else if c = CHR ''b'' then Some CHR 0x08
      else if c = CHR ''f'' then Some CHR 0x0C
      else if c = CHR ''n'' then Some CHR 0x0A
      else if c = CHR ''r'' then Some CHR 0x0D
      else if c = CHR ''t'' then Some CHR 0x09
      else None)"

function parse_string_loop :: "string \<Rightarrow> jstate \<Rightarrow> (jstate, string) outcome" where
  "parse_string_loop out st =
     (case j_rest st of
        [] \<Rightarrow> j_fail ''unterminated string'' st
      | c # rest \<Rightarrow>
          if c = CHR 0x22 then Done out (j_advance st)
          else if c \<noteq> CHR 0x5C then
            (if byte c < 32
             then j_fail ''unescaped control character in a string'' (j_advance st)
             else parse_string_loop (out @ [c]) (j_advance st))
          else
            (case rest of
               [] \<Rightarrow> j_fail ''unterminated escape'' (j_advance st)
             | e # _ \<Rightarrow>
                 let st2 = j_advance (j_advance st) in
                 if e = CHR ''u'' then
                   bind_outcome (escaped_code_point st2) (\<lambda>t st3. parse_string_loop (out @ t) st3)
                 else
                   (case simple_escape e of
                      Some d \<Rightarrow> parse_string_loop (out @ [d]) st2
                    | None \<Rightarrow> j_fail ''unknown escape'' st2)))"
  by pat_completeness auto
termination
  by (relation "measure (\<lambda>(_, st). length (j_rest st))")
    (auto dest!: escaped_code_point_rest)

declare parse_string_loop.simps [simp del]

definition parse_string :: "jstate \<Rightarrow> (jstate, string) outcome" where
  "parse_string st = parse_string_loop [] (j_advance st)"

section \<open>Numbers\<close>

definition quoted :: "char \<Rightarrow> string" where
  "quoted c = [CHR 0x27, c, CHR 0x27]"

text \<open>A run of digits: whether there was one, and the state after it.\<close>

definition j_digits :: "jstate \<Rightarrow> bool \<times> jstate" where
  "j_digits st =
     (let st' = j_while is_digit st in (length (j_rest st') < length (j_rest st), st'))"

definition j_number_end :: "string \<Rightarrow> bool \<Rightarrow> jstate \<Rightarrow> (jstate, jvalue) outcome" where
  "j_number_end start floating st =
     (let token = take (length start - length (j_rest st)) start;
          number = (case to_double token of
                      None \<Rightarrow> j_fail ''number out of range'' st
                    | Some d \<Rightarrow> Done (VNumber d) st)
      in if \<not> floating
         then (case from_chars_int64 token of Parsed i _ \<Rightarrow> Done (VInteger i) st | _ \<Rightarrow> number)
         else number)"

definition j_number_exponent :: "string \<Rightarrow> bool \<Rightarrow> jstate \<Rightarrow> (jstate, jvalue) outcome" where
  "j_number_exponent start floating st =
     (if j_peek st = Some CHR ''e'' \<or> j_peek st = Some CHR ''E'' then
        let st1 = j_advance st;
            st2 = (if j_peek st1 = Some CHR ''+'' \<or> j_peek st1 = Some CHR ''-''
                   then j_advance st1 else st1);
            (any, st3) = j_digits st2
        in if \<not> any then j_fail ''expected a digit in the exponent'' st3
           else j_number_end start True st3
      else j_number_end start floating st)"

definition parse_number :: "jstate \<Rightarrow> (jstate, jvalue) outcome" where
  "parse_number st =
     (let start = j_rest st;
          st1 = (if j_peek st = Some CHR ''-'' then j_advance st else st);
          (any_digits, st2) = j_digits st1
      in if \<not> any_digits then j_fail ''expected a value'' st2
         else if j_peek st2 = Some CHR ''.'' then
           (let (fraction_digits, st3) = j_digits (j_advance st2)
            in if \<not> fraction_digits then j_fail (''expected a digit after '' @ quoted CHR ''.'') st3
               else j_number_exponent start True st3)
         else j_number_exponent start False st2)"

section \<open>Values\<close>

definition j_word :: "string \<Rightarrow> jvalue \<Rightarrow> jstate \<Rightarrow> (jstate, jvalue) outcome" where
  "j_word word v st =
     (let (found, st') = j_consume_word word st
      in if found then Done v st' else j_fail (''expected '' @ word) st')"

fun parse_value :: "nat \<Rightarrow> jstate \<Rightarrow> (jstate, jvalue) outcome"
  and parse_value_inner :: "nat \<Rightarrow> jstate \<Rightarrow> (jstate, jvalue) outcome"
  and parse_object :: "nat \<Rightarrow> jstate \<Rightarrow> (jstate, jvalue) outcome"
  and object_loop :: "nat \<Rightarrow> jvalue \<Rightarrow> jstate \<Rightarrow> (jstate, jvalue) outcome"
  and parse_array :: "nat \<Rightarrow> jstate \<Rightarrow> (jstate, jvalue) outcome"
  and array_loop :: "nat \<Rightarrow> jvalue \<Rightarrow> jstate \<Rightarrow> (jstate, jvalue) outcome" where
  "parse_value 0 st = OutOfFuel"
| "parse_value (Suc n) st =
     (case j_peek st of
        None \<Rightarrow> j_fail ''unexpected end of input'' st
      | Some c \<Rightarrow>
          let nests = (c = CHR ''{'' \<or> c = CHR ''['') in
          if nests \<and> max_json_depth < j_depth st + 1 then j_fail ''nested too deeply'' st
          else
            bind_outcome (parse_value_inner n (if nests then st\<lparr>j_depth := j_depth st + 1\<rparr> else st))
              (\<lambda>v st'. Done v (if nests then st'\<lparr>j_depth := j_depth st' - 1\<rparr> else st')))"
| "parse_value_inner 0 st = OutOfFuel"
| "parse_value_inner (Suc n) st =
     (let c = j_peek st in
      if c = Some CHR ''{'' then parse_object n st
      else if c = Some CHR ''['' then parse_array n st
      else if c = Some CHR 0x22 then bind_outcome (parse_string st) (\<lambda>t st'. Done (VString t) st')
      else if c = Some CHR ''t'' then j_word ''true'' (VBoolean True) st
      else if c = Some CHR ''f'' then j_word ''false'' (VBoolean False) st
      else if c = Some CHR ''n'' then j_word ''null'' VNull st
      else parse_number st)"
| "parse_object 0 st = OutOfFuel"
| "parse_object (Suc n) st =
     (let st1 = j_skip (j_advance st);
          (closed, st2) = j_consume CHR ''}'' st1
      in if closed then Done (VObject []) st2 else object_loop n (VObject []) st2)"
| "object_loop 0 object st = OutOfFuel"
| "object_loop (Suc n) object st =
     (let st1 = j_skip st in
      if j_peek st1 = None then j_fail ''unexpected end of input inside an object'' st1
      else if j_peek st1 \<noteq> Some CHR 0x22 then j_fail ''expected a key in double quotes'' st1
      else
        bind_outcome (parse_string st1) (\<lambda>key st2.
          let (colon, st3) = j_consume CHR '':'' (j_skip st2) in
          if \<not> colon then j_fail (''expected '' @ quoted CHR '':'' @ '' after a key'') st3
          else
            bind_outcome (parse_value n (j_skip st3)) (\<lambda>item st4.
              let object' = set_member object key item;
                  (comma, st5) = j_consume CHR '','' (j_skip st4)
              in if comma then
                   (let st6 = j_skip st5 in
                    if j_peek st6 = Some CHR ''}''
                    then j_fail (''trailing comma before '' @ quoted CHR ''}'') st6
                    else object_loop n object' st6)
                 else
                   (let (closed, st6) = j_consume CHR ''}'' st5 in
                    if closed then Done object' st6
                    else j_fail (''expected '' @ quoted CHR '','' @ '' or '' @ quoted CHR ''}'' @
                                 '' in an object'') st6))))"
| "parse_array 0 st = OutOfFuel"
| "parse_array (Suc n) st =
     (let st1 = j_skip (j_advance st);
          (closed, st2) = j_consume CHR '']'' st1
      in if closed then Done (VArray []) st2 else array_loop n (VArray []) st2)"
| "array_loop 0 array st = OutOfFuel"
| "array_loop (Suc n) array st =
     bind_outcome (parse_value n (j_skip st)) (\<lambda>item st1.
       let array' = push_item array item;
           (comma, st2) = j_consume CHR '','' (j_skip st1)
       in if comma then
            (let st3 = j_skip st2 in
             if j_peek st3 = Some CHR '']''
             then j_fail (''trailing comma before '' @ quoted CHR '']'') st3
             else array_loop n array' st3)
          else
            (let (closed, st3) = j_consume CHR '']'' st2 in
             if closed then Done array' st3
             else j_fail (''expected '' @ quoted CHR '','' @ '' or '' @ quoted CHR '']'' @
                          '' in an array'') st3))"

definition j_start :: "string \<Rightarrow> jstate" where
  "j_start text = \<lparr>j_rest = text, j_line = 1, j_column = 1, j_depth = 0\<rparr>"

definition json_fuel :: "string \<Rightarrow> nat" where
  "json_fuel text = 4 * length text + 4"

definition parse_json :: "string \<Rightarrow> (jstate, jvalue) outcome" where
  "parse_json text =
     bind_outcome (parse_value (json_fuel text) (j_skip (j_start text))) (\<lambda>v st.
       let st' = j_skip st in
       if j_rest st' \<noteq> [] then j_fail ''unexpected trailing content'' st' else Done v st')"

end
