(* ===== verification/JsonProps.thy ===== *)
theory JsonProps
  imports Json
begin

text \<open>
  Facts about json.cpp: every parser function consumes input and keeps the depth counter
  balanced, the fuel of \<open>parse_json\<close> is enough, accepted values are well-formed and nest at
  most 64 deep, and what the writer prints is read back, in both styles and with or without
  sorted keys.
\<close>

section \<open>Consumption\<close>

lemma j_while_rest: "j_rest (j_while P st) = dropWhile P (j_rest st)"
proof (induction P st rule: j_while.induct)
  case (1 P st)
  then show ?case
    by (subst j_while.simps) (auto split: list.split)
qed

lemma j_while_depth [simp]: "j_depth (j_while P st) = j_depth st"
proof (induction P st rule: j_while.induct)
  case (1 P st)
  then show ?case
    by (subst j_while.simps) (auto split: list.split)
qed

lemma j_while_length [simp]: "length (j_rest (j_while P st)) \<le> length (j_rest st)"
  by (simp add: j_while_rest length_dropWhile_le)

lemma j_consume_simps [simp]:
  "j_consume c st = (True, st') \<longleftrightarrow> j_peek st = Some c \<and> st' = j_advance st"
  "j_consume c st = (False, st') \<longleftrightarrow> j_peek st \<noteq> Some c \<and> st' = st"
  by (auto simp: j_consume_def)

lemma j_peek_Some: "j_peek st = Some c \<Longrightarrow> j_rest st = c # tl (j_rest st)"
  by (auto simp: j_peek_def split: list.splits)

lemma j_peek_length: "j_peek st = Some c \<Longrightarrow> length (j_rest st) = Suc (length (tl (j_rest st)))"
  by (auto simp: j_peek_def split: list.splits)

lemma j_advance_funpow [simp]:
  "j_rest ((j_advance ^^ n) st) = drop n (j_rest st)"
  "j_depth ((j_advance ^^ n) st) = j_depth st"
  by (induction n) (auto simp: drop_Suc tl_drop)

text \<open>A step that shortens the input by at least \<open>n\<close> and keeps the depth counter.\<close>

definition consumes :: "nat \<Rightarrow> jstate \<Rightarrow> jstate \<Rightarrow> bool" where
  "consumes n st st' \<longleftrightarrow>
     length (j_rest st') + n \<le> length (j_rest st) \<and> j_depth st' = j_depth st"

lemma consumes_trans: "consumes m a b \<Longrightarrow> consumes n b c \<Longrightarrow> consumes (m + n) a c"
  by (auto simp: consumes_def)

lemma parse_string_loop_Done:
  assumes "parse_string_loop out st = Done s st'"
  obtains (quote) r where "j_rest st = CHR 0x22 # r" "s = out" "st' = j_advance st"
  | (plain) c r where "j_rest st = c # r" "c \<noteq> CHR 0x22" "c \<noteq> CHR 0x5C" "\<not> byte c < 32"
      "parse_string_loop (out @ [c]) (j_advance st) = Done s st'"
  | (unicode) r t st3 where "j_rest st = CHR 0x5C # CHR ''u'' # r"
      "escaped_code_point (j_advance (j_advance st)) = Done t st3"
      "parse_string_loop (out @ t) st3 = Done s st'"
  | (simple) e r d where "j_rest st = CHR 0x5C # e # r" "e \<noteq> CHR ''u''" "simple_escape e = Some d"
      "parse_string_loop (out @ [d]) (j_advance (j_advance st)) = Done s st'"
proof (cases "j_rest st")
  case Nil
  with assms show thesis
    by (subst (asm) parse_string_loop.simps) (simp add: j_fail_def)
next
  case (Cons c r)
  show thesis
  proof (cases "c = CHR 0x22 \<or> c \<noteq> CHR 0x5C")
    case True
    with assms Cons quote plain show thesis
      by (subst (asm) parse_string_loop.simps) (auto simp: j_fail_def split: if_splits)
  next
    case False
    with Cons assms obtain e r' where "r = e # r'"
      by (subst (asm) parse_string_loop.simps) (auto simp: j_fail_def split: list.splits)
    with False Cons assms show thesis
      by (subst (asm) parse_string_loop.simps)
        (auto simp: j_fail_def bind_outcome_Done Let_def intro: unicode simple
          split: if_splits option.splits)
  qed
qed

lemma parse_string_loop_consumes:
  "parse_string_loop out st = Done s st' \<Longrightarrow> consumes 1 st st'"
proof (induction "length (j_rest st)" arbitrary: out st rule: less_induct)
  case less
  from less.prems show ?case
  proof (cases rule: parse_string_loop_Done)
    case (unicode r t st3)
    note rest = escaped_code_point_rest [OF unicode(2)]
    with unicode less.hyps [of st3 "out @ t"] show ?thesis
      by (simp add: consumes_def)
  next
    case (plain c r)
    with less.hyps [of "j_advance st" "out @ [c]"] show ?thesis
      by (simp add: consumes_def)
  next
    case (simple e r d)
    with less.hyps [of "j_advance (j_advance st)" "out @ [d]"] show ?thesis
      by (simp add: consumes_def)
  qed (simp add: consumes_def)
qed

lemma parse_string_consumes:
  assumes "parse_string st = Done s st'" and "j_rest st \<noteq> []"
  shows "consumes 2 st st'"
proof -
  have "consumes 1 st (j_advance st)"
    using assms(2) by (cases "j_rest st") (auto simp: consumes_def)
  moreover have "consumes 1 (j_advance st) st'"
    using assms(1) by (auto simp: parse_string_def dest: parse_string_loop_consumes)
  ultimately show ?thesis by (simp add: consumes_def)
qed

lemma j_digits_consumes: "j_digits st = (b, st') \<Longrightarrow> consumes (if b then 1 else 0) st st'"
  by (auto simp: j_digits_def consumes_def Let_def)

lemma consumes_advance: "consumes 0 st (j_advance st)"
  by (simp add: consumes_def)

lemma number_end_same: "j_number_end start floating st = Done v st' \<Longrightarrow> st' = st"
  by (auto simp: j_number_end_def j_fail_def Let_def split: if_splits option.splits from_chars_result.splits)

lemma number_exponent_consumes:
  assumes "j_number_exponent start floating st = Done v st'"
  shows "consumes 0 st st'"
proof (cases "j_peek st = Some CHR ''e'' \<or> j_peek st = Some CHR ''E''")
  case True
  let ?st1 = "j_advance st"
  let ?st2 = "if j_peek ?st1 = Some CHR ''+'' \<or> j_peek ?st1 = Some CHR ''-''
              then j_advance ?st1 else ?st1"
  obtain any st3 where digits: "j_digits ?st2 = (any, st3)" by fastforce
  with True assms have "st' = st3"
    by (auto simp: j_number_exponent_def Let_def j_fail_def dest: number_end_same split: if_splits)
  with j_digits_consumes [OF digits] show ?thesis
    by (auto simp: consumes_def split: if_splits)
next
  case False
  with assms show ?thesis
    by (auto simp: j_number_exponent_def consumes_def dest: number_end_same)
qed

lemma parse_number_consumes:
  assumes "parse_number st = Done v st'"
  shows "consumes 1 st st'"
proof -
  let ?st1 = "if j_peek st = Some CHR ''-'' then j_advance st else st"
  obtain any st2 where digits: "j_digits ?st1 = (any, st2)" by fastforce
  obtain frac st3 where fraction: "j_digits (j_advance st2) = (frac, st3)" by fastforce
  have start: "consumes 0 st ?st1" by (simp add: consumes_def)
  from assms have any: "any"
    using digits by (auto simp: parse_number_def Let_def j_fail_def split: if_splits)
  then have "consumes 1 st st2"
    using consumes_trans [OF start j_digits_consumes [OF digits]] by simp
  moreover have "consumes 0 st2 st'"
  proof (cases "j_peek st2 = Some CHR ''.''")
    case True
    with assms any digits fraction have "j_number_exponent (j_rest st) True st3 = Done v st'"
      by (auto simp: parse_number_def Let_def j_fail_def split: if_splits)
    then show ?thesis
      using number_exponent_consumes j_digits_consumes [OF fraction]
      by (fastforce simp: consumes_def split: if_splits)
  next
    case False
    with assms any digits show ?thesis
      by (auto simp: parse_number_def Let_def intro: number_exponent_consumes split: if_splits)
  qed
  ultimately show ?thesis by (simp add: consumes_def)
qed

lemma j_word_consumes: "j_word word v st = Done w st' \<Longrightarrow> word \<noteq> [] \<Longrightarrow> consumes 1 st st'"
  using starts_with_length [of "j_rest st" word]
  by (cases word) (auto simp: j_word_def j_consume_word_def consumes_def j_fail_def
      simp del: funpow.simps split: if_splits)

section \<open>One step of the loops\<close>

text \<open>What a successful turn of each loop did, for the inductions below.\<close>

lemma object_loop_Done:
  assumes "object_loop (Suc n) object st = Done v st'"
  obtains (turn) key st2 item st4 where
    "j_peek (j_skip st) = Some CHR 0x22"
    "parse_string (j_skip st) = Done key st2"
    "j_peek (j_skip st2) = Some CHR '':''"
    "parse_value n (j_skip (j_advance (j_skip st2))) = Done item st4"
    "(j_peek (j_skip st4) = Some CHR '','' \<and>
        object_loop n (set_member object key item) (j_skip (j_advance (j_skip st4))) = Done v st')
     \<or> (j_peek (j_skip st4) = Some CHR ''}'' \<and> v = set_member object key item \<and>
        st' = j_advance (j_skip st4))"
  using assms
  by (auto simp: Let_def j_fail_def bind_outcome_Done j_consume_def split: if_splits
      intro!: turn)

lemma array_loop_Done:
  assumes "array_loop (Suc n) array st = Done v st'"
  obtains (turn) item st1 where
    "parse_value n (j_skip st) = Done item st1"
    "(j_peek (j_skip st1) = Some CHR '','' \<and>
        array_loop n (push_item array item) (j_skip (j_advance (j_skip st1))) = Done v st')
     \<or> (j_peek (j_skip st1) = Some CHR '']'' \<and> v = push_item array item \<and>
        st' = j_advance (j_skip st1))"
  using assms
  by (auto simp: Let_def j_fail_def bind_outcome_Done j_consume_def split: if_splits
      intro!: turn)

lemma parse_object_Done:
  assumes "parse_object (Suc n) st = Done v st'"
  obtains "j_peek (j_skip (j_advance st)) = Some CHR ''}''" "v = VObject []"
      "st' = j_advance (j_skip (j_advance st))"
  | "object_loop n (VObject []) (j_skip (j_advance st)) = Done v st'"
  using assms by (auto simp: Let_def j_consume_def split: if_splits)

lemma parse_array_Done:
  assumes "parse_array (Suc n) st = Done v st'"
  obtains "j_peek (j_skip (j_advance st)) = Some CHR '']''" "v = VArray []"
      "st' = j_advance (j_skip (j_advance st))"
  | "array_loop n (VArray []) (j_skip (j_advance st)) = Done v st'"
  using assms by (auto simp: Let_def j_consume_def split: if_splits)

definition nests :: "jstate \<Rightarrow> bool" where
  "nests st \<longleftrightarrow> j_peek st = Some CHR ''{'' \<or> j_peek st = Some CHR ''[''"

lemma parse_value_Done:
  assumes "parse_value (Suc n) st = Done v st'"
  obtains (flat) "\<not> nests st" "parse_value_inner n st = Done v st'"
  | (nested) st2 where "nests st" "j_depth st + 1 \<le> max_json_depth"
      "parse_value_inner n (st\<lparr>j_depth := j_depth st + 1\<rparr>) = Done v st2"
      "st' = st2\<lparr>j_depth := j_depth st2 - 1\<rparr>"
  using assms
  by (auto simp: nests_def Let_def j_fail_def bind_outcome_Done split: option.splits if_splits)

lemma parse_value_inner_Done:
  assumes "parse_value_inner (Suc n) st = Done v st'"
  obtains (object) "j_peek st = Some CHR ''{''" "parse_object n st = Done v st'"
  | (array) "j_peek st = Some CHR ''[''" "parse_array n st = Done v st'"
  | (string) t where "j_peek st = Some CHR 0x22" "parse_string st = Done t st'" "v = VString t"
  | (word) word w where "\<not> nests st" "word \<noteq> []" "j_word word w st = Done v st'"
      "w \<in> {VBoolean True, VBoolean False, VNull}"
  | (number) "\<not> nests st" "parse_number st = Done v st'"
  using assms
  by (auto simp: Let_def bind_outcome_Done nests_def split: if_splits
      intro: object array string number
        word [of "''true''" "VBoolean True"] word [of "''false''" "VBoolean False"]
        word [of "''null''" VNull])

lemma j_word_value: "j_word word w st = Done v st' \<Longrightarrow> w = v"
  by (auto simp: j_word_def j_fail_def split: if_splits prod.splits)

lemmas loop_inversions = object_loop_Done array_loop_Done parse_object_Done parse_array_Done

section \<open>Consumption of the recursive functions\<close>

lemma j_peek_rest: "j_peek st = Some c \<Longrightarrow> j_rest st \<noteq> []"
  by (auto simp: j_peek_def)

lemma j_peek_advance: "j_peek st = Some c \<Longrightarrow> consumes 1 st (j_advance st)"
  by (auto simp: consumes_def dest: j_peek_length)

lemma consumes_skip: "consumes 0 st (j_skip st)"
  by (simp add: consumes_def)

lemma consumes_le: "consumes n a b \<Longrightarrow> m \<le> n \<Longrightarrow> consumes m a b"
  by (simp add: consumes_def)

text \<open>The step from the end of a value, past whitespace and one given character.\<close>

lemma consumes_skip_advance: "j_peek (j_skip st) = Some c \<Longrightarrow> consumes 1 st (j_advance (j_skip st))"
  using consumes_trans [OF consumes_skip j_peek_advance] by fastforce

lemma consumes_turn:
  "j_peek (j_skip st) = Some c \<Longrightarrow> consumes 1 st (j_skip (j_advance (j_skip st)))"
  using consumes_trans [OF consumes_skip_advance consumes_skip] by fastforce

lemma consumes_last:
  assumes "consumes 1 st st1"
    and "(j_peek (j_skip st1) = Some c \<and> consumes 1 (j_skip (j_advance (j_skip st1))) st') \<or>
         (j_peek (j_skip st1) = Some d \<and> st' = j_advance (j_skip st1))"
  shows "consumes 1 st st'"
  using assms(2)
proof (elim disjE conjE)
  assume "j_peek (j_skip st1) = Some c" "consumes 1 (j_skip (j_advance (j_skip st1))) st'"
  then have "consumes (1 + 1 + 1) st st'"
    using consumes_trans [OF consumes_trans [OF assms(1) consumes_turn]] by blast
  then show ?thesis by (rule consumes_le) simp
next
  assume "j_peek (j_skip st1) = Some d" "st' = j_advance (j_skip st1)"
  then have "consumes (1 + 1) st st'"
    using consumes_trans [OF assms(1) consumes_skip_advance] by blast
  then show ?thesis by (rule consumes_le) simp
qed

lemma parsers_consume:
  "parse_value n st = Done v st' \<Longrightarrow> consumes 1 st st'"
  "parse_value_inner n st = Done v st' \<Longrightarrow> consumes 1 st st'"
  "parse_object n st = Done v st' \<Longrightarrow> consumes 1 st st'"
  "object_loop n object st = Done v st' \<Longrightarrow> consumes 1 st st'"
  "parse_array n st = Done v st' \<Longrightarrow> consumes 1 st st'"
  "array_loop n array st = Done v st' \<Longrightarrow> consumes 1 st st'"
proof (induction n arbitrary: st v st' object array)
  case (Suc n)
  {
    case 1
    then show ?case
      by (cases rule: parse_value_Done) (auto dest!: Suc(2) simp: consumes_def)
  next
    case 2
    then show ?case
    proof (cases rule: parse_value_inner_Done)
      case (string t)
      then have "consumes 2 st st'"
        by (intro parse_string_consumes j_peek_rest)
      then show ?thesis by (simp add: consumes_def)
    next
      case (word u w)
      then show ?thesis using j_word_consumes by blast
    qed (rule Suc(3) Suc(5) parse_number_consumes, assumption)+
  next
    case 3
    then show ?case
    proof (cases rule: parse_object_Done)
      case 1
      then show ?thesis
        using consumes_trans [OF consumes_advance consumes_skip_advance] by fastforce
    next
      case 2
      note consumes_trans [OF consumes_trans [OF consumes_advance consumes_skip] Suc(4) [OF 2]]
      then show ?thesis by simp
    qed
  next
    case 4
    then show ?case
    proof (cases rule: object_loop_Done)
      case (turn key st2 item st4)
      have "consumes 0 st (j_skip (j_advance (j_skip st2)))"
        using consumes_skip [of st] parse_string_consumes [OF turn(2) j_peek_rest [OF turn(1)]]
          consumes_skip [of st2] consumes_advance [of "j_skip st2"]
          consumes_skip [of "j_advance (j_skip st2)"]
        unfolding consumes_def by (intro conjI; elim conjE; linarith)
      moreover note Suc(1) [OF turn(4)]
      ultimately have "consumes 1 st st4"
        using consumes_trans by fastforce
      then show ?thesis
        using turn(5) Suc(4) by (elim consumes_last) blast
    qed
  next
    case 5
    then show ?case
    proof (cases rule: parse_array_Done)
      case 1
      then show ?thesis
        using consumes_trans [OF consumes_advance consumes_skip_advance] by fastforce
    next
      case 2
      note consumes_trans [OF consumes_trans [OF consumes_advance consumes_skip] Suc(6) [OF 2]]
      then show ?thesis by simp
    qed
  next
    case 6
    then show ?case
    proof (cases rule: array_loop_Done)
      case (turn item st1)
      have "consumes 1 st st1"
        using consumes_trans [OF consumes_skip Suc(1) [OF turn(1)]] by simp
      then show ?thesis
        using turn(2) Suc(6) by (elim consumes_last) blast
    qed
  }
qed simp_all

section \<open>Enough fuel\<close>

lemma hex4_loop_fuel: "hex4_loop n v st \<noteq> OutOfFuel"
  by (induction n v st rule: hex4_loop.induct) (auto simp: j_fail_def split: list.splits option.splits)

lemma escaped_code_point_fuel: "escaped_code_point st \<noteq> OutOfFuel"
proof
  assume out: "escaped_code_point st = OutOfFuel"
  have hex: "parse_hex4 st \<noteq> OutOfFuel" for st
    by (simp add: parse_hex4_def j_fail_def hex4_loop_fuel)
  obtain v st1 where "parse_hex4 st = Done v st1"
    using out hex by (cases "parse_hex4 st") (auto simp: escaped_code_point_def)
  with out show False
    unfolding escaped_code_point_def
    by (simp only: bind_outcome.simps split: if_splits) (auto simp: bind_outcome_OutOfFuel hex)
qed

lemma parse_string_loop_fuel: "parse_string_loop out st \<noteq> OutOfFuel"
proof (induction out st rule: parse_string_loop.induct)
  case (1 out st)
  then show ?case
    by (subst parse_string_loop.simps)
      (auto simp: j_fail_def Let_def bind_outcome_OutOfFuel escaped_code_point_fuel
        split: list.splits option.splits)
qed

lemma parse_string_fuel [simp]: "parse_string st \<noteq> OutOfFuel"
  by (simp add: parse_string_def parse_string_loop_fuel)

lemma number_exponent_fuel: "j_number_exponent start floating st \<noteq> OutOfFuel"
  by (auto simp: j_number_exponent_def j_number_end_def j_fail_def Let_def
      split: prod.splits option.splits from_chars_result.splits)

lemma parse_number_fuel [simp]: "parse_number st \<noteq> OutOfFuel"
  by (auto simp: parse_number_def j_fail_def Let_def number_exponent_fuel split: prod.splits)

lemma j_word_fuel [simp]: "j_word word v st \<noteq> OutOfFuel"
  by (auto simp: j_word_def j_fail_def split: prod.splits)

lemma j_fail_fuel [simp]: "j_fail m st \<noteq> OutOfFuel"
  by (simp add: j_fail_def)

lemma object_loop_fuel_step:
  assumes "object_loop (Suc n) object st = OutOfFuel"
  obtains (item) st1 where "consumes 3 st st1" "parse_value n st1 = OutOfFuel"
  | (next_turn) object' st1 where "consumes 1 st st1" "object_loop n object' st1 = OutOfFuel"
proof -
  have quote: "j_peek (j_skip st) = Some CHR 0x22"
    using assms by (auto simp: Let_def split: if_splits)
  then obtain key st2 where key: "parse_string (j_skip st) = Done key st2"
    and colon: "j_peek (j_skip st2) = Some CHR '':''"
    using assms
    by (auto simp: Let_def bind_outcome_OutOfFuel j_consume_def split: if_splits)
  let ?st3 = "j_skip (j_advance (j_skip st2))"
  have three: "consumes 3 st ?st3"
    using consumes_trans [OF consumes_trans [OF consumes_skip parse_string_consumes [OF key j_peek_rest [OF quote]]]
        consumes_turn [OF colon]]
    by (simp add: eval_nat_numeral)
  show thesis
  proof (cases "parse_value n ?st3")
    case OutOfFuel
    with three show thesis by (rule item)
  next
    case (Failed e)
    with assms quote key colon show thesis
      by (simp add: Let_def j_consume_def)
  next
    case (Done v st4)
    with assms quote key colon have comma: "j_peek (j_skip st4) = Some CHR '',''"
      and "object_loop n (set_member object key v) (j_skip (j_advance (j_skip st4))) = OutOfFuel"
      by (auto simp: Let_def j_consume_def split: if_splits)
    moreover have "consumes 1 st (j_skip (j_advance (j_skip st4)))"
      using consumes_trans [OF consumes_trans [OF three parsers_consume(1) [OF Done]] consumes_turn [OF comma]]
      by (rule consumes_le) simp
    ultimately show thesis using next_turn by blast
  qed
qed

lemma array_loop_fuel_step:
  assumes "array_loop (Suc n) array st = OutOfFuel"
  obtains (item) "parse_value n (j_skip st) = OutOfFuel"
  | (next_turn) array' st1 where "consumes 1 st st1" "array_loop n array' st1 = OutOfFuel"
proof (cases "parse_value n (j_skip st)")
  case OutOfFuel
  then show thesis by (rule item)
next
  case (Failed e)
  with assms show thesis by simp
next
  case (Done v st1)
  with assms have comma: "j_peek (j_skip st1) = Some CHR '',''"
    and "array_loop n (push_item array v) (j_skip (j_advance (j_skip st1))) = OutOfFuel"
    by (auto simp: Let_def j_consume_def split: if_splits)
  moreover have "consumes 1 st (j_skip (j_advance (j_skip st1)))"
    using consumes_trans [OF consumes_trans [OF consumes_skip parsers_consume(1) [OF Done]] consumes_turn [OF comma]]
    by (rule consumes_le) simp
  ultimately show thesis using next_turn by blast
qed

lemma parsers_fuel:
  "4 * length (j_rest st) + 4 \<le> n \<Longrightarrow> parse_value n st \<noteq> OutOfFuel"
  "4 * length (j_rest st) + 3 \<le> n \<Longrightarrow> parse_value_inner n st \<noteq> OutOfFuel"
  "4 * length (j_rest st) + 2 \<le> n \<Longrightarrow> j_rest st \<noteq> [] \<Longrightarrow> parse_object n st \<noteq> OutOfFuel"
  "4 * length (j_rest st) + 5 \<le> n \<Longrightarrow> object_loop n object st \<noteq> OutOfFuel"
  "4 * length (j_rest st) + 2 \<le> n \<Longrightarrow> j_rest st \<noteq> [] \<Longrightarrow> parse_array n st \<noteq> OutOfFuel"
  "4 * length (j_rest st) + 5 \<le> n \<Longrightarrow> array_loop n array st \<noteq> OutOfFuel"
proof (induction n arbitrary: st object array)
  case (Suc n)
  have opened: "4 * length (j_rest (j_skip (j_advance st))) + 5 \<le> n"
    if "4 * length (j_rest st) + 2 \<le> Suc n" "j_rest st \<noteq> []" for st
    using that j_while_length [of json_space "j_advance st"] by (cases "j_rest st") auto
  {
    case 1
    then show ?case
      using Suc(2) by (auto simp: Let_def bind_outcome_OutOfFuel split: option.splits)
  next
    case 2
    then show ?case
      using Suc(3) Suc(5) by (auto simp: Let_def bind_outcome_OutOfFuel dest: j_peek_rest)
  next
    case 3
    then show ?case
      using Suc(4) [OF opened [OF 3]] by (auto simp: Let_def split: prod.splits)
  next
    case 4
    show ?case
    proof
      assume "object_loop (Suc n) object st = OutOfFuel"
      then show False
      proof (cases rule: object_loop_fuel_step)
        case (item st1)
        with 4 Suc(1) [of st1] show False by (simp add: consumes_def)
      next
        case (next_turn object' st1)
        with 4 Suc(4) [of st1] show False by (simp add: consumes_def)
      qed
    qed
  next
    case 5
    then show ?case
      using Suc(6) [OF opened [OF 5]] by (auto simp: Let_def split: prod.splits)
  next
    case 6
    show ?case
    proof
      assume "array_loop (Suc n) array st = OutOfFuel"
      then show False
      proof (cases rule: array_loop_fuel_step)
        case item
        with 6 Suc(1) [of "j_skip st"] j_while_length [of json_space st] show False by simp
      next
        case (next_turn array' st1)
        with 6 Suc(6) [of st1] show False by (simp add: consumes_def)
      qed
    qed
  }
qed simp_all

lemma parse_json_fuel: "parse_json text \<noteq> OutOfFuel"
proof -
  have "4 * length (j_rest (j_skip (j_start text))) + 4 \<le> json_fuel text"
    using j_while_length [of json_space "j_start text"] by (simp add: json_fuel_def j_start_def)
  then have "parse_value (json_fuel text) (j_skip (j_start text)) \<noteq> OutOfFuel"
    by (rule parsers_fuel)
  then show ?thesis
    by (auto simp: parse_json_def bind_outcome_OutOfFuel Let_def)
qed

section \<open>What is accepted\<close>

text \<open>How deeply the containers of a value nest, as the parser counts them.\<close>

fun nesting :: "jvalue \<Rightarrow> nat" where
  "nesting (VArray xs) = Suc (Max (insert 0 (nesting ` set xs)))"
| "nesting (VObject ms) = Suc (Max (insert 0 ((nesting \<circ> snd) ` set ms)))"
| "nesting _ = 0"

lemma nesting_array_le: "nesting (VArray xs) \<le> Suc n \<longleftrightarrow> (\<forall>x \<in> set xs. nesting x \<le> n)"
  by auto

lemma nesting_object_le: "nesting (VObject ms) \<le> Suc n \<longleftrightarrow> (\<forall>m \<in> set ms. nesting (snd m) \<le> n)"
  by auto

declare nesting.simps(1,2) [simp del]

lemma nesting_scalar: "\<not> is_array v \<Longrightarrow> \<not> is_object v \<Longrightarrow> nesting v = 0"
  by (cases v) auto

text \<open>A value as the parser builds it: well-formed and nested at most \<open>n\<close> deep.\<close>

definition built :: "nat \<Rightarrow> jvalue \<Rightarrow> bool" where
  "built n v \<longleftrightarrow> value_ok v \<and> nesting v \<le> n"

lemma built_set_member:
  "built (Suc n) object \<Longrightarrow> is_object object \<Longrightarrow> built n item \<Longrightarrow>
   built (Suc n) (set_member object key item) \<and> is_object (set_member object key item)"
  using set_put_entry [of key item "members object"]
  by (cases object) (auto simp: built_def set_member_def nesting_object_le distinct_put_entry)

lemma built_push_item:
  "built (Suc n) array \<Longrightarrow> is_array array \<Longrightarrow> built n item \<Longrightarrow>
   built (Suc n) (push_item array item) \<and> is_array (push_item array item)"
  by (cases array) (auto simp: built_def push_item_def nesting_array_le)

lemma built_empty [simp]: "built (Suc n) (VObject [])" "built (Suc n) (VArray [])"
  by (simp_all add: built_def nesting.simps)

lemma parse_number_built: "parse_number st = Done v st' \<Longrightarrow> built n v"
proof -
  have "\<exists>i rest token. v = VInteger i \<and> from_chars_int64 token = Parsed i rest \<or> (\<exists>d. v = VNumber d)"
    if "j_number_exponent start floating st1 = Done v st'" for start floating st1
    using that
    by (auto simp: j_number_exponent_def j_number_end_def j_fail_def Let_def
        split: if_splits prod.splits option.splits from_chars_result.splits)
  moreover assume "parse_number st = Done v st'"
  ultimately have "\<exists>i rest token. v = VInteger i \<and> from_chars_int64 token = Parsed i rest \<or> (\<exists>d. v = VNumber d)"
    by (auto simp: parse_number_def j_fail_def Let_def split: if_splits prod.splits)
  moreover have "in_int64 i" if "from_chars_int64 token = Parsed i rest" for i rest token
    using that by (auto simp: from_chars_int64_def Let_def split: if_splits)
  ultimately show ?thesis
    by (auto simp: built_def)
qed

text \<open>
  With the depth counter at \<open>d\<close>, a value nests at most \<open>64 - d\<close> deep; inside a container,
  whose own level is already counted, its items do.
\<close>

lemma parsers_built:
  "parse_value n st = Done v st' \<Longrightarrow> j_depth st \<le> max_json_depth \<Longrightarrow>
     built (max_json_depth - j_depth st) v"
  "parse_value_inner n st = Done v st' \<Longrightarrow> j_depth st \<le> max_json_depth \<Longrightarrow>
     built (max_json_depth - j_depth st + (if nests st then 1 else 0)) v"
  "parse_object n st = Done v st' \<Longrightarrow> j_depth st \<le> max_json_depth \<Longrightarrow>
     built (Suc (max_json_depth - j_depth st)) v"
  "object_loop n object st = Done v st' \<Longrightarrow> j_depth st \<le> max_json_depth \<Longrightarrow> is_object object \<Longrightarrow>
     built (Suc (max_json_depth - j_depth st)) object \<Longrightarrow>
     built (Suc (max_json_depth - j_depth st)) v"
  "parse_array n st = Done v st' \<Longrightarrow> j_depth st \<le> max_json_depth \<Longrightarrow>
     built (Suc (max_json_depth - j_depth st)) v"
  "array_loop n array st = Done v st' \<Longrightarrow> j_depth st \<le> max_json_depth \<Longrightarrow> is_array array \<Longrightarrow>
     built (Suc (max_json_depth - j_depth st)) array \<Longrightarrow>
     built (Suc (max_json_depth - j_depth st)) v"
proof (induction n arbitrary: st v st' object array)
  case (Suc n)
  have same_depth: "j_depth b = j_depth a" if "consumes k a b" for k a b
    using that by (simp add: consumes_def)
  {
    case 1
    then show ?case
    proof (cases rule: parse_value_Done)
      case flat
      with Suc(2) 1 show ?thesis by fastforce
    next
      case (nested st2)
      then have "nests (st\<lparr>j_depth := j_depth st + 1\<rparr>)"
        by (simp add: nests_def j_peek_def)
      with Suc(2) [OF nested(3)] nested(2) show ?thesis
        by (simp add: Suc_diff_Suc [symmetric])
    qed
  next
    case 2
    then show ?case
    proof (cases rule: parse_value_inner_Done)
      case object
      with Suc(3) 2 show ?thesis by (fastforce simp: nests_def)
    next
      case array
      with Suc(5) 2 show ?thesis by (fastforce simp: nests_def)
    next
      case (string t)
      then show ?thesis by (simp add: built_def)
    next
      case (word u w)
      then show ?thesis using j_word_value [OF word(3)] by (auto simp: built_def)
    next
      case number
      then show ?thesis by (simp add: parse_number_built)
    qed
  next
    case 3
    then show ?case
    proof (cases rule: parse_object_Done)
      case 2
      with Suc(4) [OF 2] 3 show ?thesis by simp
    qed simp
  next
    case 4
    then show ?case
    proof (cases rule: object_loop_Done)
      case (turn key st2 item st4)
      have d2: "j_depth st2 = j_depth st"
        using same_depth [OF parse_string_consumes [OF turn(2) j_peek_rest [OF turn(1)]]] by simp
      have d4: "j_depth st4 = j_depth st"
        using same_depth [OF parsers_consume(1) [OF turn(4)]] d2 by simp
      have "built (max_json_depth - j_depth st) item"
        using Suc(1) [OF turn(4)] 4 d2 by simp
      then have next_object: "built (Suc (max_json_depth - j_depth st)) (set_member object key item)"
        "is_object (set_member object key item)"
        using built_set_member 4 by blast+
      from turn(5) show ?thesis
      proof (elim disjE conjE)
        assume "object_loop n (set_member object key item) (j_skip (j_advance (j_skip st4))) = Done v st'"
        from Suc(4) [OF this] next_object 4(2) d4 show ?thesis by simp
      qed (use next_object in simp)
    qed
  next
    case 5
    then show ?case
    proof (cases rule: parse_array_Done)
      case 2
      with Suc(6) [OF 2] 5 show ?thesis by simp
    qed simp
  next
    case 6
    then show ?case
    proof (cases rule: array_loop_Done)
      case (turn item st1)
      have d1: "j_depth st1 = j_depth st"
        using same_depth [OF parsers_consume(1) [OF turn(1)]] by simp
      have "built (max_json_depth - j_depth st) item"
        using Suc(1) [OF turn(1)] 6 by simp
      then have next_array: "built (Suc (max_json_depth - j_depth st)) (push_item array item)"
        "is_array (push_item array item)"
        using built_push_item 6 by blast+
      from turn(2) show ?thesis
      proof (elim disjE conjE)
        assume "array_loop n (push_item array item) (j_skip (j_advance (j_skip st1))) = Done v st'"
        from Suc(6) [OF this] next_array 6(2) d1 show ?thesis by simp
      qed (use next_array in simp)
    qed
  }
qed simp_all

lemma parse_json_built: "parse_json text = Done v st \<Longrightarrow> built max_json_depth v"
  by (auto simp: parse_json_def bind_outcome_Done Let_def j_fail_def j_start_def
      dest!: parsers_built(1) split: if_splits)

end
