(* ===== verification/Yaml.thy ===== *)
theory Yaml
  imports JsonProps
begin

text \<open>
  The YAML subset of frontmatter and data files (\<open>yaml.cpp\<close>). \<open>ystate\<close> is the parser
  object: the lines from \<open>position_\<close> on, the number of lines in all, and \<open>depth_\<close>. The functions
  that read single tokens keep no state and return an error or a value.
\<close>

section \<open>Lines\<close>

record yline =
  yl_indent :: nat
  yl_content :: string
  yl_number :: nat

definition is_quote :: "char \<Rightarrow> bool" where
  "is_quote c \<longleftrightarrow> c \<in> {CHR 0x22, CHR 0x27}"

text \<open>The loop of \<open>strip_comment\<close>: the open quote, and the character before the next one.\<close>

fun strip_comment_from :: "char option \<Rightarrow> char option \<Rightarrow> string \<Rightarrow> string" where
  "strip_comment_from quote previous [] = []"
| "strip_comment_from (Some q) previous (c # cs) =
     c # strip_comment_from (if c = q then None else Some q) (Some c) cs"
| "strip_comment_from None previous (c # cs) =
     (if is_quote c then c # strip_comment_from (Some c) (Some c) cs
      else if c = CHR ''#'' \<and> (case previous of None \<Rightarrow> True | Some p \<Rightarrow> is_space p) then []
      else c # strip_comment_from None (Some c) cs)"

definition strip_comment :: "string \<Rightarrow> string" where
  "strip_comment line = strip_comment_from None None line"

fun significant_from :: "nat \<Rightarrow> string list \<Rightarrow> yline list" where
  "significant_from number [] = []"
| "significant_from number (raw # rest) =
     (let kept = trim_end (strip_comment raw);
          indent = length (takeWhile (\<lambda>c. c = CHR '' '') kept)
      in if trim kept = [] \<or> trim kept = ''---'' then significant_from (number + 1) rest
         else \<lparr>yl_indent = indent, yl_content = drop indent kept, yl_number = number\<rparr> #
           significant_from (number + 1) rest)"

definition significant_lines :: "string \<Rightarrow> yline list" where
  "significant_lines source = significant_from 1 (split_lines source)"

section \<open>Scalars\<close>

definition all_digits :: "string \<Rightarrow> bool" where
  "all_digits s \<longleftrightarrow> s \<noteq> [] \<and> list_all is_digit s"

definition scalar_from :: "string \<Rightarrow> jvalue" where
  "scalar_from token =
     (if token = [] \<or> token = ''~'' \<or> token = ''null'' then VNull
      else if token = ''true'' then VBoolean True
      else if token = ''false'' then VBoolean False
      else
        (let digits = (if starts_with token ''-'' then tl token else token);
             integer = (if all_digits digits then
                 (case from_chars_int64 token of Parsed i [] \<Rightarrow> Some i | _ \<Rightarrow> None) else None)
         in case integer of
              Some i \<Rightarrow> VInteger i
            | None \<Rightarrow>
                (case find_pos (\<lambda>c. c = CHR ''.'') digits of
                   None \<Rightarrow> VString token
                 | Some dot \<Rightarrow>
                     if all_digits (take dot digits) \<and> all_digits (drop (dot + 1) digits) then
                       (case to_double token of Some d \<Rightarrow> VNumber d | None \<Rightarrow> VString token)
                     else VString token)))"

definition yaml_error :: "string \<Rightarrow> nat \<Rightarrow> nat \<Rightarrow> parse_error" where
  "yaml_error message line column = \<lparr>pe_message = message, pe_line = line, pe_column = column\<rparr>"

definition yaml_escape :: "char \<Rightarrow> char option" where
  "yaml_escape e =
     (if e = CHR ''n'' then Some (CHR 0x0A)
      else if e = CHR ''t'' then Some (CHR 0x09)
      else if e = CHR ''r'' then Some (CHR 0x0D)
      else if e = CHR 0x22 then Some (CHR 0x22)
      else if e = CHR 0x5C then Some (CHR 0x5C)
      else None)"

text \<open>The loop over the inside of a double-quoted scalar; a final lone backslash is a character.\<close>

fun unescape_loop :: "nat \<Rightarrow> string \<Rightarrow> string \<Rightarrow> parse_error + string" where
  "unescape_loop line out [] = Inr out"
| "unescape_loop line out [c] = Inr (out @ [c])"
| "unescape_loop line out (c # e # cs) =
     (if c \<noteq> CHR 0x5C then unescape_loop line (out @ [c]) (e # cs)
      else (case yaml_escape e of
              Some x \<Rightarrow> unescape_loop line (out @ [x]) cs
            | None \<Rightarrow> Inl (yaml_error ''unknown escape in a double-quoted scalar'' line 1)))"

definition quoted_by :: "char \<Rightarrow> string \<Rightarrow> bool" where
  "quoted_by q token \<longleftrightarrow> 2 \<le> length token \<and> hd token = q \<and> last token = q"

definition unquote :: "string \<Rightarrow> nat \<Rightarrow> parse_error + jvalue" where
  "unquote token line =
     (if quoted_by (CHR 0x22) token then
        map_sum id VString (unescape_loop line [] (butlast (tl token)))
      else if quoted_by (CHR 0x27) token then Inr (VString (butlast (tl token)))
      else Inr (scalar_from token))"

definition flow_item :: "nat \<Rightarrow> jvalue \<Rightarrow> string \<Rightarrow> parse_error + jvalue" where
  "flow_item line list piece =
     (if trim piece = [] then Inr list
      else map_sum id (push_item list) (unquote (trim piece) line))"

text \<open>The loop of \<open>parse_flow_sequence\<close>: the open quote and the piece since \<open>start\<close>.\<close>

fun flow_loop :: "nat \<Rightarrow> jvalue \<Rightarrow> char option \<Rightarrow> string \<Rightarrow> string \<Rightarrow> parse_error + jvalue" where
  "flow_loop line list quote piece [] = flow_item line list piece"
| "flow_loop line list (Some q) piece (c # cs) =
     flow_loop line list (if c = q then None else Some q) (piece @ [c]) cs"
| "flow_loop line list None piece (c # cs) =
     (if is_quote c then flow_loop line list (Some c) (piece @ [c]) cs
      else if c \<noteq> CHR '','' then flow_loop line list None (piece @ [c]) cs
      else (case flow_item line list piece of
              Inl e \<Rightarrow> Inl e
            | Inr list' \<Rightarrow> flow_loop line list' None [] cs))"

definition parse_flow_sequence :: "string \<Rightarrow> nat \<Rightarrow> parse_error + jvalue" where
  "parse_flow_sequence token line =
     (let inner = trim (butlast (tl token)) in
      if inner = [] then Inr (VArray []) else flow_loop line (VArray []) None [] inner)"

definition parse_scalar :: "string \<Rightarrow> nat \<Rightarrow> parse_error + jvalue" where
  "parse_scalar token line =
     (let trimmed = trim token in
      if 2 \<le> length trimmed \<and> hd trimmed = CHR ''['' \<and> last trimmed = CHR '']'' then
        parse_flow_sequence trimmed line
      else if starts_with trimmed ''{'' then
        Inl (yaml_error ''flow mappings are not supported'' line 1)
      else if starts_with trimmed ''&'' \<or> starts_with trimmed ''*'' then
        Inl (yaml_error ''anchors and aliases are not supported'' line 1)
      else if trimmed = ''|'' \<or> trimmed = ''>'' \<or> starts_with trimmed ''|-'' \<or> starts_with trimmed ''>-'' then
        Inl (yaml_error ''block scalars are not supported'' line 1)
      else unquote trimmed line)"

fun mapping_colon_from :: "char option \<Rightarrow> nat \<Rightarrow> string \<Rightarrow> nat option" where
  "mapping_colon_from quote index [] = None"
| "mapping_colon_from (Some q) index (c # cs) =
     mapping_colon_from (if c = q then None else Some q) (index + 1) cs"
| "mapping_colon_from None index (c # cs) =
     (if is_quote c then mapping_colon_from (Some c) (index + 1) cs
      else if c = CHR '':'' \<and> (cs = [] \<or> is_space (hd cs)) then Some index
      else mapping_colon_from None (index + 1) cs)"

definition mapping_colon :: "string \<Rightarrow> nat option" where
  "mapping_colon content = mapping_colon_from None 0 content"

section \<open>Blocks\<close>

record ystate =
  y_rest :: "yline list"
  y_total :: nat
  y_depth :: nat

definition max_yaml_depth :: nat where "max_yaml_depth = 64"

definition y_error :: "string \<Rightarrow> nat \<Rightarrow> nat \<Rightarrow> (ystate, 'a) outcome" where
  "y_error message line column = Failed (yaml_error message line column)"

definition y_next :: "ystate \<Rightarrow> ystate" where
  "y_next st = st\<lparr>y_rest := tl (y_rest st)\<rparr>"

text \<open>The first of the remaining lines, \<open>lines_[position_]\<close>, when there is one.\<close>

definition y_indent_over :: "ystate \<Rightarrow> nat \<Rightarrow> bool" where
  "y_indent_over st indent \<longleftrightarrow> (case y_rest st of [] \<Rightarrow> False | l # _ \<Rightarrow> indent < yl_indent l)"

definition key_text :: "jvalue \<Rightarrow> string" where
  "key_text key = as_string key []"

text \<open>
  "key: rest" split and read, the part \<open>parse_mapping\<close> and \<open>parse_inline_mapping\<close> share: the key,
  and the value when it is on the line.
\<close>

definition entry_of :: "string \<Rightarrow> nat \<Rightarrow> parse_error + string \<times> jvalue option" where
  "entry_of content number =
     (case mapping_colon content of
        None \<Rightarrow> Inl (yaml_error (''expected '' @ [CHR 0x27] @ ''key: value'' @ [CHR 0x27]) number 1)
      | Some colon \<Rightarrow>
          (case unquote (trim (take colon content)) number of
             Inl e \<Rightarrow> Inl e
           | Inr key \<Rightarrow>
               (let rest = trim (drop (colon + 1) content) in
                if rest = [] then Inr (key_text key, None)
                else (case parse_scalar rest number of
                        Inl e \<Rightarrow> Inl e
                      | Inr item \<Rightarrow> Inr (key_text key, Some item)))))"

text \<open>
  What one turn of a loop decides before it calls anything. \<open>Keep\<close> adds the item and goes on with
  the next line, \<open>Descend\<close> parses the block that starts there, \<open>Same_Indent\<close> the sequence that sits
  at the indentation of its key, \<open>Inline\<close> the mapping whose first key is on the dash line.
\<close>

datatype mapping_turn = Stop | Refuse parse_error | Keep string jvalue | Descend string | Same_Indent string

datatype sequence_turn = Seq_Stop | Seq_Refuse parse_error | Seq_Keep jvalue | Seq_Descend | Seq_Inline string

definition mapping_turn_of :: "nat \<Rightarrow> ystate \<Rightarrow> mapping_turn" where
  "mapping_turn_of indent st =
     (case y_rest st of
        [] \<Rightarrow> Stop
      | l # ls \<Rightarrow>
          if yl_indent l < indent then Stop
          else if indent < yl_indent l then
            Refuse (yaml_error ''unexpected indentation'' (yl_number l) (yl_indent l + 1))
          else if starts_with (yl_content l) ''- '' then
            Refuse (yaml_error ''a sequence item where a mapping key was expected'' (yl_number l) 1)
          else
            (case entry_of (yl_content l) (yl_number l) of
               Inl e \<Rightarrow> Refuse e
             | Inr (key, Some item) \<Rightarrow> Keep key item
             | Inr (key, None) \<Rightarrow>
                 if y_indent_over (y_next st) (yl_indent l) then Descend key
                 else if ls \<noteq> [] \<and> yl_indent (hd ls) = yl_indent l \<and>
                      starts_with (yl_content (hd ls)) ''- '' then Same_Indent key
                 else Keep key VNull))"

definition sequence_turn_of :: "nat \<Rightarrow> ystate \<Rightarrow> sequence_turn" where
  "sequence_turn_of indent st =
     (case y_rest st of
        [] \<Rightarrow> Seq_Stop
      | l # ls \<Rightarrow>
          if yl_indent l < indent then Seq_Stop
          else if indent < yl_indent l then
            Seq_Refuse (yaml_error ''unexpected indentation'' (yl_number l) (yl_indent l + 1))
          else if \<not> starts_with (yl_content l) ''- '' \<and> yl_content l \<noteq> ''-'' then Seq_Stop
          else
            (let rest = trim (drop 1 (yl_content l)) in
             if rest = [] then
               if y_indent_over (y_next st) (yl_indent l) then Seq_Descend else Seq_Keep VNull
             else if starts_with rest ''- '' then
               Seq_Refuse (yaml_error (''a nested sequence on the same line is not supported. '' @
                 ''Indent it on its own line'') (yl_number l) (yl_indent l + 1))
             else if mapping_colon rest \<noteq> None then Seq_Inline rest
             else (case parse_scalar rest (yl_number l) of
                     Inl e \<Rightarrow> Seq_Refuse e
                   | Inr item \<Rightarrow> Seq_Keep item)))"

text \<open>The indentation and number of \<open>lines_[position_]\<close>, where the code has checked there is one.\<close>

definition head_indent :: "ystate \<Rightarrow> nat" where
  "head_indent st = (case y_rest st of [] \<Rightarrow> 0 | l # _ \<Rightarrow> yl_indent l)"

definition head_number :: "ystate \<Rightarrow> nat" where
  "head_number st = (case y_rest st of [] \<Rightarrow> y_total st | l # _ \<Rightarrow> yl_number l)"

definition head_is_dash :: "ystate \<Rightarrow> bool" where
  "head_is_dash st \<longleftrightarrow> (case y_rest st of [] \<Rightarrow> False | l # _ \<Rightarrow> starts_with (yl_content l) ''- '')"

definition head_is_item :: "ystate \<Rightarrow> bool" where
  "head_is_item st \<longleftrightarrow>
     (case y_rest st of [] \<Rightarrow> False | l # _ \<Rightarrow> starts_with (yl_content l) ''- '' \<or> yl_content l = ''-'')"

definition merge_more :: "jvalue \<Rightarrow> jvalue \<Rightarrow> jvalue" where
  "merge_more mapping extra =
     fold (\<lambda>m merged. set_member merged (fst m) (snd m)) (members extra) mapping"

text \<open>
  The block parser. Fuel goes down by one at each call and each turn of a loop; \<open>parse_lines\<close>
  gives it four for each line and some more. \<open>inline_rest\<close> is the loop at the end of
  \<open>parse_inline_mapping\<close>.
\<close>

function (sequential) parse_block :: "nat \<Rightarrow> nat \<Rightarrow> ystate \<Rightarrow> (ystate, jvalue) outcome"
  and parse_block_inner :: "nat \<Rightarrow> nat \<Rightarrow> ystate \<Rightarrow> (ystate, jvalue) outcome"
  and mapping_loop :: "nat \<Rightarrow> nat \<Rightarrow> jvalue \<Rightarrow> ystate \<Rightarrow> (ystate, jvalue) outcome"
  and sequence_loop :: "nat \<Rightarrow> nat \<Rightarrow> jvalue \<Rightarrow> ystate \<Rightarrow> (ystate, jvalue) outcome"
  and inline_mapping :: "nat \<Rightarrow> string \<Rightarrow> nat \<Rightarrow> nat \<Rightarrow> ystate \<Rightarrow> (ystate, jvalue) outcome"
  and inline_rest :: "nat \<Rightarrow> nat \<Rightarrow> jvalue \<Rightarrow> ystate \<Rightarrow> (ystate, jvalue) outcome" where
  "parse_block 0 indent st = OutOfFuel"
| "parse_block (Suc n) indent st =
     (if max_yaml_depth < y_depth st + 1 then y_error ''nested too deeply'' (head_number st) 1
      else bind_outcome (parse_block_inner n indent (st\<lparr>y_depth := y_depth st + 1\<rparr>))
        (\<lambda>v st'. Done v (st'\<lparr>y_depth := y_depth st' - 1\<rparr>)))"
| "parse_block_inner 0 indent st = OutOfFuel"
| "parse_block_inner (Suc n) indent st =
     (if y_rest st = [] then Done VNull st
      else if head_is_item st then sequence_loop n indent (VArray []) st
      else mapping_loop n indent (VObject []) st)"
| "mapping_loop 0 indent mapping st = OutOfFuel"
| "mapping_loop (Suc n) indent mapping st =
     (case mapping_turn_of indent st of
        Stop \<Rightarrow> Done mapping st
      | Refuse e \<Rightarrow> Failed e
      | Keep key item \<Rightarrow> mapping_loop n indent (set_member mapping key item) (y_next st)
      | Descend key \<Rightarrow>
          bind_outcome (parse_block n (head_indent (y_next st)) (y_next st)) (\<lambda>nested st1.
            mapping_loop n indent (set_member mapping key nested) st1)
      | Same_Indent key \<Rightarrow>
          bind_outcome (sequence_loop n (head_indent st) (VArray []) (y_next st)) (\<lambda>nested st1.
            mapping_loop n indent (set_member mapping key nested) st1))"
| "sequence_loop 0 indent sequence st = OutOfFuel"
| "sequence_loop (Suc n) indent sequence st =
     (case sequence_turn_of indent st of
        Seq_Stop \<Rightarrow> Done sequence st
      | Seq_Refuse e \<Rightarrow> Failed e
      | Seq_Keep item \<Rightarrow> sequence_loop n indent (push_item sequence item) (y_next st)
      | Seq_Descend \<Rightarrow>
          bind_outcome (parse_block n (head_indent (y_next st)) (y_next st)) (\<lambda>nested st1.
            sequence_loop n indent (push_item sequence nested) st1)
      | Seq_Inline rest \<Rightarrow>
          bind_outcome (inline_mapping n rest (head_indent st) (head_number st) (y_next st)) (\<lambda>item st1.
            sequence_loop n indent (push_item sequence item) st1))"
| "inline_mapping 0 first dash_indent number st = OutOfFuel"
| "inline_mapping (Suc n) first dash_indent number st =
     (case entry_of first number of
        Inl e \<Rightarrow> Failed e
      | Inr (key, Some item) \<Rightarrow> inline_rest n dash_indent (set_member (VObject []) key item) st
      | Inr (key, None) \<Rightarrow>
          if y_indent_over st dash_indent then
            bind_outcome (parse_block n (head_indent st) st) (\<lambda>nested st1.
              inline_rest n dash_indent (set_member (VObject []) key nested) st1)
          else inline_rest n dash_indent (set_member (VObject []) key VNull) st)"
| "inline_rest 0 dash_indent mapping st = OutOfFuel"
| "inline_rest (Suc n) dash_indent mapping st =
     (if y_indent_over st dash_indent \<and> \<not> head_is_dash st then
        bind_outcome (mapping_loop n (head_indent st) (VObject []) st) (\<lambda>extra st1.
          inline_rest n dash_indent (merge_more mapping extra) st1)
      else Done mapping st)"
  by pat_completeness auto

termination
  by (relation "measure (case_sum
      (case_sum (\<lambda>(n, _). n) (case_sum (\<lambda>(n, _). n) (\<lambda>(n, _). n)))
      (case_sum (\<lambda>(n, _). n) (case_sum (\<lambda>(n, _). n) (\<lambda>(n, _). n))))") auto

definition yaml_start :: "string \<Rightarrow> ystate" where
  "yaml_start source =
     \<lparr>y_rest = significant_lines source, y_total = length (significant_lines source), y_depth = 0\<rparr>"

definition yaml_fuel :: "ystate \<Rightarrow> nat" where
  "yaml_fuel st = 4 * length (y_rest st) + 8"

text \<open>\<open>Parser::parse\<close>.\<close>

definition parse_lines :: "ystate \<Rightarrow> (ystate, jvalue) outcome" where
  "parse_lines st =
     (case y_rest st of
        [] \<Rightarrow> Done (VObject []) st
      | l # _ \<Rightarrow> parse_block (yaml_fuel st) (yl_indent l) st)"

section \<open>The measured value\<close>

text \<open>The walk with an explicit stack; the top of the stack is the head of the list.\<close>

definition child_values :: "jvalue \<Rightarrow> jvalue list" where
  "child_values v = (if is_object v then map snd (members v) else items v)"

function container_walk :: "nat \<Rightarrow> (jvalue \<times> nat) list \<Rightarrow> nat" where
  "container_walk deepest [] = deepest"
| "container_walk deepest ((v, depth) # pending) =
     (if \<not> is_object v \<and> \<not> is_array v then container_walk deepest pending
      else container_walk (max deepest depth)
             (rev (map (\<lambda>child. (child, depth + 1)) (child_values v)) @ pending))"
  by pat_completeness auto

lemma size_child_values:
  "is_object v \<or> is_array v \<Longrightarrow> (\<Sum>child \<leftarrow> child_values v. Suc (size child)) < Suc (size v)"
proof (cases v)
  case (VArray xs)
  have "(\<Sum>child \<leftarrow> xs. Suc (size child)) = size_list size xs"
    by (induction xs) auto
  then show ?thesis by (simp add: VArray child_values_def)
next
  case (VObject ms)
  have "(\<Sum>m \<leftarrow> ms. Suc (size (snd m))) \<le> size_list (size_prod (\<lambda>_. 0) size) ms"
    by (induction ms) (auto simp: size_prod_simp)
  then show ?thesis by (simp add: VObject child_values_def comp_def)
qed auto

termination container_walk
proof (relation "measure (\<lambda>(_, pending). \<Sum>p \<leftarrow> pending. Suc (size (fst p)))")
  fix deepest v depth and pending :: "(jvalue \<times> nat) list"
  assume "\<not> (\<not> is_object v \<and> \<not> is_array v)"
  then have "(\<Sum>child \<leftarrow> child_values v. Suc (size child)) < Suc (size v)"
    using size_child_values by blast
  then show "((max deepest depth, rev (map (\<lambda>child. (child, depth + 1)) (child_values v)) @ pending),
      (deepest, (v, depth) # pending)) \<in> measure (\<lambda>(_, pending). \<Sum>p \<leftarrow> pending. Suc (size (fst p)))"
    by (simp add: rev_map [symmetric] sum_list_rev comp_def)
qed auto

definition container_depth :: "jvalue \<Rightarrow> nat" where
  "container_depth root = container_walk 0 [(root, 1)]"

definition parse_yaml :: "string \<Rightarrow> (ystate, jvalue) outcome" where
  "parse_yaml source =
     bind_outcome (parse_lines (yaml_start source)) (\<lambda>v st.
       if max_json_depth < container_depth v then
         y_error ''nested too deeply'' (length (significant_lines source)) 1
       else Done v st)"

end
