(* ===== verification/JsonRoundTrip.thy ===== *)
theory JsonRoundTrip
  imports JsonProps
begin

text \<open>
  What \<open>to_json\<close> prints, \<open>parse_json\<close> reads back: the same value when keys keep their order,
  and the value with its keys sorted at every level otherwise. Doubles are left out: a whole
  double prints without a point and reads back as an integer.
\<close>

section \<open>Integers\<close>

lemma minus_not_digit [simp]: "\<not> is_digit CHR ''-''"
  by (simp add: is_digit_def between_def)

lemma takeWhile_format_nat [simp]: "takeWhile is_digit (format_nat n) = format_nat n"
  using format_nat_digits by (simp add: takeWhile_eq_all_conv)

lemma format_nat_no_minus: "\<not> starts_with (format_nat n) ''-''"
  using format_nat_digits [of n] by (cases "format_nat n") auto

lemma from_chars_format_int: "in_int64 i \<Longrightarrow> from_chars_int64 (format_int i) = Parsed i []"
  using format_nat_digits
  by (auto simp: from_chars_int64_def format_int_def format_nat_no_minus digits_value_format_nat
      dropWhile_eq_Nil_conv)

definition ends_value :: "string \<Rightarrow> bool" where
  "ends_value r \<longleftrightarrow> (case r of [] \<Rightarrow> True | c # _ \<Rightarrow> \<not> is_digit c \<and> c \<notin> {CHR ''.'', CHR ''e'', CHR ''E''})"

lemma ends_value_cases:
  "ends_value r \<Longrightarrow> r = [] \<or> (\<exists>c cs. r = c # cs \<and> \<not> is_digit c \<and> c \<noteq> CHR ''.'' \<and> c \<noteq> CHR ''e'' \<and> c \<noteq> CHR ''E'')"
  by (auto simp: ends_value_def split: list.splits)

lemma j_digits_read:
  assumes "j_rest st = format_nat n @ r" and "ends_value r"
  shows "\<exists>st'. j_digits st = (True, st') \<and> j_rest st' = r"
proof -
  have "dropWhile is_digit r = r"
    using ends_value_cases [OF assms(2)] by auto
  then have "j_rest (j_while is_digit st) = r"
    using assms(1) format_nat_digits by (simp add: j_while_rest dropWhile_append3)
  then show ?thesis
    using assms(1) format_nat_digits [of n] by (simp add: j_digits_def)
qed

lemma parse_number_read:
  assumes i: "in_int64 i" and rest: "j_rest st = format_int i @ r" and ends: "ends_value r"
  shows "\<exists>st'. parse_number st = Done (VInteger i) st' \<and> j_rest st' = r"
proof -
  let ?n = "nat \<bar>i\<bar>"
  let ?st1 = "if j_peek st = Some CHR ''-'' then j_advance st else st"
  have "j_rest ?st1 = format_nat ?n @ r"
    using rest format_nat_digits [of ?n]
    by (cases "format_nat ?n") (auto simp: format_int_def j_peek_def)
  from j_digits_read [OF this ends] obtain st2
    where digits: "j_digits ?st1 = (True, st2)" and rest2: "j_rest st2 = r"
    by blast
  have peek: "j_peek st2 \<noteq> Some CHR ''.''" "j_peek st2 \<noteq> Some CHR ''e''" "j_peek st2 \<noteq> Some CHR ''E''"
    using ends_value_cases [OF ends] rest2 by (auto simp: j_peek_def)
  have "take (length (j_rest st) - length (j_rest st2)) (j_rest st) = format_int i"
    using rest rest2 by simp
  then have "parse_number st = Done (VInteger i) st2"
    using digits peek
    by (simp add: parse_number_def Let_def j_number_exponent_def j_number_end_def
        from_chars_format_int [OF i])
  with rest2 show ?thesis by blast
qed

section \<open>Strings\<close>

lemma hex_value_hex_digit [simp]: "d < 16 \<Longrightarrow> hex_value (hex_digit d) = Some d"
  by (auto simp: hex_value_def hex_digit_def between_def)

text \<open>The four digits of a control character's escape read back as that character.\<close>

definition four_digits :: "nat \<Rightarrow> 32 word" where
  "four_digits b = push_bit 4 (push_bit 4 (push_bit 4 (push_bit 4 0 OR 0) OR 0) OR
      of_nat (b div 16)) OR of_nat (b mod 16)"

lemma control_code_points:
  "\<forall>b \<in> set [0..<32]. append_utf8 (four_digits b) = [char_of b] \<and> \<not> 0xD800 \<le> four_digits b"
  by code_simp

lemma hex4_loop_step:
  "j_rest st = c # cs \<Longrightarrow> hex_value c = Some d \<Longrightarrow>
   hex4_loop (Suc n) v st = hex4_loop n (push_bit 4 v OR of_nat d) (j_advance st)"
  by simp

lemma control_escape_read:
  assumes b: "byte c < 32" and rest: "j_rest st = format_04x (byte c) @ r"
  shows "\<exists>st'. escaped_code_point st = Done [c] st' \<and> j_rest st' = r"
proof -
  let ?b = "byte c"
  have small: "?b div 16 < 16" "?b div 16 div 16 = 0" "?b div 256 = 0" "?b div 4096 = 0"
    using b by auto
  then have digits: "format_04x ?b = [hex_digit 0, hex_digit 0, hex_digit (?b div 16), hex_digit (?b mod 16)]"
    by (simp add: format_04x_def)
  let ?st4 = "j_advance (j_advance (j_advance (j_advance st)))"
  have chars: "j_rest st = hex_digit 0 # hex_digit 0 # hex_digit (?b div 16) # hex_digit (?b mod 16) # r"
    using rest digits by simp
  have "\<not> length (j_rest st) < 4"
    using chars by simp
  then have "parse_hex4 st = hex4_loop 4 0 st"
    by (simp only: parse_hex4_def if_False)
  moreover have "4 = Suc (Suc (Suc (Suc 0)))"
    by simp
  ultimately have "parse_hex4 st = hex4_loop (Suc (Suc (Suc (Suc 0)))) 0 st"
    by (simp only:)
  also have "\<dots> = Done (four_digits ?b) ?st4"
    using chars small by (simp add: four_digits_def)
  finally have hex: "parse_hex4 st = Done (four_digits ?b) ?st4" .
  have "?b \<in> set [0..<32]" using b by simp
  then have "append_utf8 (four_digits ?b) = [c]" and "\<not> 0xD800 \<le> four_digits ?b"
    using control_code_points by fastforce+
  then have "escaped_code_point st = Done [c] ?st4"
    by (simp only: escaped_code_point_def hex bind_outcome.simps simp_thms if_False)
  moreover have "j_rest ?st4 = r"
    using chars by simp
  ultimately show ?thesis by blast
qed

lemma escape_cases:
  obtains (plain) "json_escape c = [c]" "c \<noteq> CHR 0x22" "c \<noteq> CHR 0x5C" "\<not> byte c < 32"
  | (simple) e where "json_escape c = [CHR 0x5C, e]" "e \<noteq> CHR ''u''" "simple_escape e = Some c"
  | (control) "json_escape c = CHR 0x5C # CHR ''u'' # format_04x (byte c)" "byte c < 32"
proof -
  consider "c \<in> {CHR 0x22, CHR 0x5C, CHR 0x08, CHR 0x0C, CHR 0x0A, CHR 0x0D, CHR 0x09}"
    | "c \<notin> {CHR 0x22, CHR 0x5C, CHR 0x08, CHR 0x0C, CHR 0x0A, CHR 0x0D, CHR 0x09}" "byte c < 32"
    | "c \<notin> {CHR 0x22, CHR 0x5C, CHR 0x08, CHR 0x0C, CHR 0x0A, CHR 0x0D, CHR 0x09}" "\<not> byte c < 32"
    by blast
  then show thesis
  proof cases
    case 1
    then show thesis
      using simple by (auto simp: json_escape_def simple_escape_def)
  next
    case 2
    then show thesis using control by (simp add: json_escape_def)
  next
    case 3
    then show thesis using plain by (simp add: json_escape_def)
  qed
qed

lemma parse_string_loop_read:
  "j_rest st = concat (map json_escape s) @ CHR 0x22 # r \<Longrightarrow>
   \<exists>st'. parse_string_loop out st = Done (out @ s) st' \<and> j_rest st' = r"
proof (induction s arbitrary: out st)
  case Nil
  then show ?case by (subst parse_string_loop.simps) simp
next
  case (Cons c s)
  let ?tail = "concat (map json_escape s) @ CHR 0x22 # r"
  show ?case
  proof (cases c rule: escape_cases)
    case plain
    then have "parse_string_loop out st = parse_string_loop (out @ [c]) (j_advance st)"
      using Cons.prems by (subst parse_string_loop.simps) simp
    with Cons.IH [of "j_advance st" "out @ [c]"] Cons.prems plain show ?thesis by simp
  next
    case (simple e)
    then have "parse_string_loop out st = parse_string_loop (out @ [c]) (j_advance (j_advance st))"
      using Cons.prems by (subst parse_string_loop.simps) (simp add: Let_def)
    with Cons.IH [of "j_advance (j_advance st)" "out @ [c]"] Cons.prems simple show ?thesis by simp
  next
    case control
    have "j_rest (j_advance (j_advance st)) = format_04x (byte c) @ ?tail"
      using Cons.prems control by simp
    from control_escape_read [OF control(2) this] obtain st3
      where "escaped_code_point (j_advance (j_advance st)) = Done [c] st3" "j_rest st3 = ?tail"
      by blast
    moreover from this(1) have "parse_string_loop out st = parse_string_loop (out @ [c]) st3"
      using Cons.prems control by (subst parse_string_loop.simps) (simp add: Let_def)
    ultimately show ?thesis
      using Cons.IH [of st3 "out @ [c]"] by simp
  qed
qed

lemma parse_string_read:
  "j_rest st = json_string s @ r \<Longrightarrow> \<exists>st'. parse_string st = Done s st' \<and> j_rest st' = r"
  using parse_string_loop_read [of "j_advance st" s r "[]"]
  by (simp add: parse_string_def json_string_def)

section \<open>Values\<close>

fun number_free :: "jvalue \<Rightarrow> bool" where
  "number_free (VNumber d) = False"
| "number_free (VArray xs) = (\<forall>x \<in> set xs. number_free x)"
| "number_free (VObject ms) = (\<forall>m \<in> set ms. number_free (snd m))"
| "number_free _ = True"

definition value_start :: "char \<Rightarrow> bool" where
  "value_start c \<longleftrightarrow> c \<in> {CHR ''{'', CHR ''['', CHR 0x22, CHR ''t'', CHR ''f'', CHR ''n'', CHR ''-''} \<or> is_digit c"

lemma value_start_not: "value_start c \<Longrightarrow> \<not> json_space c \<and> c \<noteq> CHR '']'' \<and> c \<noteq> CHR ''}'' \<and> c \<noteq> CHR '',''"
  by (auto simp: value_start_def json_space_def is_digit_def between_def)

lemma write_value_start:
  "number_free v \<Longrightarrow> \<exists>c cs. write_value style sorted_keys d v = c # cs \<and> value_start c"
proof (cases v)
  case (VInteger i)
  then show ?thesis
    using format_nat_digits [of "nat i"]
    by (cases "format_nat (nat i)") (auto simp: format_int_def value_start_def)
qed (auto simp: value_start_def json_string_def)

lemma line_break_space: "\<forall>c \<in> set (line_break style d). json_space c"
  by (auto simp: line_break_def indent_text_def json_space_def)

lemma j_skip_read:
  "j_rest st = ws @ c # r \<Longrightarrow> \<forall>x \<in> set ws. json_space x \<Longrightarrow> \<not> json_space c \<Longrightarrow>
   j_rest (j_skip st) = c # r"
  by (simp add: j_while_rest dropWhile_append2)

lemma ends_value_break: "ends_value r' \<Longrightarrow> ends_value (line_break style d @ r')"
  by (cases style) (auto simp: line_break_def ends_value_def is_digit_def between_def)

text \<open>What it means for the parser to read back one value, followed by anything that ends it.\<close>

definition reads_back :: "json_style \<Rightarrow> nat \<Rightarrow> nat \<Rightarrow> jvalue \<Rightarrow> bool" where
  "reads_back style d depth v \<longleftrightarrow>
     (\<forall>st r n. j_rest st = write_value style False d v @ r \<longrightarrow> ends_value r \<longrightarrow> j_depth st = depth \<longrightarrow>
        4 * length (j_rest st) + 4 \<le> n \<longrightarrow>
        (\<exists>st'. parse_value n st = Done v st' \<and> j_rest st' = r))"

lemma reads_backD:
  assumes "reads_back style d depth v" and "j_rest st = write_value style False d v @ r"
    and "ends_value r" and "j_depth st = depth" and "4 * length (j_rest st) + 4 \<le> n"
  obtains st' where "parse_value n st = Done v st'" "j_rest st' = r" "j_depth st' = depth"
proof -
  obtain st' where "parse_value n st = Done v st'" "j_rest st' = r"
    using assms unfolding reads_back_def by blast
  moreover from parsers_consume(1) [OF this(1)] have "j_depth st' = depth"
    using assms(4) by (simp add: consumes_def)
  ultimately show thesis by (rule that)
qed

lemma array_loop_read:
  assumes "\<forall>y \<in> set (x # xs). reads_back style (d + 1) depth y \<and> number_free y"
    and "j_rest st = ws @ write_value style False (d + 1) x @ write_items style False d False xs @
           line_break style d @ CHR '']'' # r"
    and "\<forall>c \<in> set ws. json_space c" and "j_depth st = depth"
    and "4 * length (j_rest st) + 5 \<le> n"
  shows "\<exists>st'. array_loop n (VArray acc) st = Done (VArray (acc @ x # xs)) st' \<and> j_rest st' = r"
  using assms
proof (induction xs arbitrary: x acc ws st n)
  case Nil
  then obtain m where n: "n = Suc m" by (cases n) auto
  obtain c cs where start: "write_value style False (d + 1) x = c # cs" "value_start c"
    using write_value_start Nil.prems(1) by fastforce
  let ?tail = "line_break style d @ CHR '']'' # r"
  have skip: "j_rest (j_skip st) = write_value style False (d + 1) x @ ?tail"
    using Nil.prems j_skip_read [of st ws c "cs @ ?tail"] start value_start_not by simp
  have "ends_value ?tail"
    by (rule ends_value_break) (simp add: ends_value_def is_digit_def between_def)
  moreover have "4 * length (j_rest (j_skip st)) + 4 \<le> m"
    using Nil.prems(5) n j_while_length [of json_space st] by linarith
  ultimately obtain st1 where st1: "parse_value m (j_skip st) = Done x st1" "j_rest st1 = ?tail"
    using reads_backD [OF _ skip, of depth m] Nil.prems(1,4) by auto
  have "j_rest (j_skip st1) = CHR '']'' # r"
    using st1(2) line_break_space by (intro j_skip_read) (auto simp: json_space_def)
  then show ?case
    using st1(1) by (simp add: n j_consume_def j_peek_def push_item_def)
next
  case (Cons y ys)
  then obtain m where n: "n = Suc m" by (cases n) auto
  obtain c cs where start: "write_value style False (d + 1) x = c # cs" "value_start c"
    using write_value_start Cons.prems(1) by fastforce
  obtain c' cs' where start': "write_value style False (d + 1) y = c' # cs'" "value_start c'"
    using write_value_start Cons.prems(1) by fastforce
  let ?y = "write_value style False (d + 1) y @ write_items style False d False ys @
      line_break style d @ CHR '']'' # r"
  let ?tail = "CHR '','' # line_break style (d + 1) @ ?y"
  have skip: "j_rest (j_skip st) = write_value style False (d + 1) x @ ?tail"
    using Cons.prems j_skip_read [of st ws c "cs @ ?tail"] start value_start_not by simp
  have "ends_value ?tail"
    by (simp add: ends_value_def is_digit_def between_def)
  moreover have "4 * length (j_rest (j_skip st)) + 4 \<le> m"
    using Cons.prems(5) n j_while_length [of json_space st] by linarith
  ultimately obtain st1 where st1: "parse_value m (j_skip st) = Done x st1" "j_rest st1 = ?tail"
      "j_depth st1 = depth"
    using reads_backD [OF _ skip, of depth m] Cons.prems(1,4) by auto
  have "j_rest (j_skip st1) = ?tail"
    using st1(2) by (simp add: j_while_rest json_space_def)
  moreover have y: "j_rest (j_skip (j_advance (j_skip st1))) = ?y"
    using calculation start' line_break_space [of style "d + 1"] value_start_not [OF start'(2)]
    by (simp add: j_while_rest dropWhile_append2)
  moreover have "j_peek (j_skip (j_advance (j_skip st1))) \<noteq> Some CHR '']''"
    using y start' value_start_not by (simp add: j_peek_def)
  ultimately have step: "array_loop n (VArray acc) st =
      array_loop m (VArray (acc @ [x])) (j_skip (j_advance (j_skip st1)))"
    using st1(1) by (simp add: n j_consume_def j_peek_def push_item_def)
  have "length (j_rest (j_skip (j_advance (j_skip st1)))) < length (j_rest st)"
    using y Cons.prems(2) by simp
  then have "\<exists>st'. array_loop m (VArray (acc @ [x])) (j_skip (j_advance (j_skip st1))) =
      Done (VArray ((acc @ [x]) @ y # ys)) st' \<and> j_rest st' = r"
    using Cons.prems n st1(3) y by (intro Cons.IH [where ws = "[]"]) auto
  then show ?case by (simp add: step)
qed

text \<open>One turn of the object loop, up to what follows the value.\<close>

lemma object_turn_read:
  assumes x: "reads_back style (d + 1) depth x" "number_free x"
    and rest: "j_rest st = ws @ json_string k @ '':'' @ sp @ write_value style False (d + 1) x @ tail"
    and spaces: "\<forall>c \<in> set ws. json_space c" "\<forall>c \<in> set sp. json_space c"
    and ends: "ends_value tail" and depth: "j_depth st = depth"
    and fuel: "4 * length (j_rest st) + 4 \<le> m"
  obtains st4 where "j_rest st4 = tail" "j_depth st4 = depth"
    and "j_peek (j_skip st4) = Some CHR ''}'' \<Longrightarrow>
      object_loop (Suc m) object st = Done (set_member object k x) (j_advance (j_skip st4))"
    and "j_peek (j_skip st4) = Some CHR '','' \<Longrightarrow>
      j_peek (j_skip (j_advance (j_skip st4))) \<noteq> Some CHR ''}'' \<Longrightarrow>
      object_loop (Suc m) object st =
        object_loop m (set_member object k x) (j_skip (j_advance (j_skip st4)))"
proof -
  let ?v = "write_value style False (d + 1) x"
  obtain c cs where start: "?v = c # cs" "value_start c"
    using write_value_start x(2) by blast
  have "j_rest (j_skip st) = CHR 0x22 # concat (map json_escape k) @ CHR 0x22 # '':'' @ sp @ ?v @ tail"
    using rest spaces(1) by (intro j_skip_read) (auto simp: json_string_def json_space_def)
  then have skip: "j_rest (j_skip st) = json_string k @ '':'' @ sp @ ?v @ tail"
    and quote: "j_peek (j_skip st) = Some CHR 0x22"
    by (auto simp: json_string_def j_peek_def)
  from parse_string_read [OF skip] obtain st2
    where key: "parse_string (j_skip st) = Done k st2" and rest2: "j_rest st2 = '':'' @ sp @ ?v @ tail"
    by blast
  have d2: "j_depth st2 = depth"
    using parse_string_consumes [OF key j_peek_rest [OF quote]] depth by (simp add: consumes_def)
  have colon: "j_rest (j_skip st2) = '':'' @ sp @ ?v @ tail"
    using rest2 by (simp add: j_while_rest json_space_def)
  let ?st3 = "j_skip (j_advance (j_skip st2))"
  have rest3: "j_rest ?st3 = ?v @ tail"
    using colon start value_start_not spaces(2)
    by (simp add: j_while_rest [of _ "j_advance (j_skip st2)"] dropWhile_append2)
  have "length (j_rest ?st3) \<le> length (j_rest st)"
    unfolding rest3 using rest by simp
  then have "4 * length (j_rest ?st3) + 4 \<le> m"
    using fuel by linarith
  then obtain st4 where st4: "parse_value m ?st3 = Done x st4" "j_rest st4 = tail" "j_depth st4 = depth"
    using reads_backD [OF x(1) rest3 ends, of m] d2 by auto
  have "j_peek (j_skip st2) = Some CHR '':''"
    using colon by (simp add: j_peek_def)
  with st4 quote key show thesis
    by (intro that [of st4]) (simp_all add: j_consume_def)
qed

lemma object_loop_read:
  assumes "\<forall>m \<in> set ((k, x) # ms). reads_back style (d + 1) depth (snd m) \<and> number_free (snd m)"
    and "distinct (map fst (acc @ (k, x) # ms))"
    and "j_rest st = ws @ json_string k @ '':'' @ (if style = Pretty then '' '' else []) @
           write_value style False (d + 1) x @ write_members style False d False ms @
           line_break style d @ CHR ''}'' # r"
    and "\<forall>c \<in> set ws. json_space c" and "j_depth st = depth"
    and "4 * length (j_rest st) + 5 \<le> n"
  shows "\<exists>st'. object_loop n (VObject acc) st = Done (VObject (acc @ (k, x) # ms)) st' \<and> j_rest st' = r"
  using assms
proof (induction ms arbitrary: k x acc ws st n)
  case (Nil k x acc ws st n)
  then obtain m where n: "n = Suc m" by (cases n) auto
  have space: "\<forall>c \<in> set (if style = Pretty then '' '' else []). json_space c"
    by (simp add: json_space_def)
  have x: "reads_back style (d + 1) depth x" "number_free x"
    using Nil.prems(1) by auto
  have rest: "j_rest st = ws @ json_string k @ '':'' @ (if style = Pretty then '' '' else []) @
      write_value style False (d + 1) x @ (line_break style d @ CHR ''}'' # r)"
    using Nil.prems(3) by simp
  have ends: "ends_value (line_break style d @ CHR ''}'' # r)"
    by (rule ends_value_break) (simp add: ends_value_def is_digit_def between_def)
  have fuel: "4 * length (j_rest st) + 4 \<le> m"
    using Nil.prems(6) n by linarith
  obtain st4 where st4: "j_rest st4 = line_break style d @ CHR ''}'' # r"
    and close: "j_peek (j_skip st4) = Some CHR ''}'' \<Longrightarrow>
      object_loop (Suc m) (VObject acc) st = Done (set_member (VObject acc) k x) (j_advance (j_skip st4))"
    using object_turn_read [OF x rest Nil.prems(4) space ends Nil.prems(5) fuel, of "VObject acc"]
    by blast
  have skip: "j_rest (j_skip st4) = CHR ''}'' # r"
    using st4 line_break_space by (intro j_skip_read) (auto simp: json_space_def)
  have "k \<notin> fst ` set acc"
    using Nil.prems(2) by auto
  with close skip show ?case
    by (simp add: n j_peek_def set_member_def put_entry_fresh)
next
  case (Cons y ms k x acc ws st n)
  then obtain m where n: "n = Suc m" by (cases n) auto
  obtain k' x' where y: "y = (k', x')" by (cases y)
  let ?sp = "if style = Pretty then '' '' else []"
  let ?y = "json_string k' @ '':'' @ ?sp @ write_value style False (d + 1) x' @
      write_members style False d False ms @ line_break style d @ CHR ''}'' # r"
  let ?tail = "CHR '','' # line_break style (d + 1) @ ?y"
  have space: "\<forall>c \<in> set ?sp. json_space c"
    by (simp add: json_space_def)
  have x: "reads_back style (d + 1) depth x" "number_free x"
    using Cons.prems(1) by auto
  have rest: "j_rest st = ws @ json_string k @ '':'' @ ?sp @ write_value style False (d + 1) x @ ?tail"
    using Cons.prems(3) by (simp add: y)
  have ends: "ends_value ?tail"
    by (simp add: ends_value_def is_digit_def between_def)
  have fuel: "4 * length (j_rest st) + 4 \<le> m"
    using Cons.prems(6) n by linarith
  obtain st4 where st4: "j_rest st4 = ?tail" "j_depth st4 = depth"
    and turn: "j_peek (j_skip st4) = Some CHR '','' \<Longrightarrow>
      j_peek (j_skip (j_advance (j_skip st4))) \<noteq> Some CHR ''}'' \<Longrightarrow>
      object_loop (Suc m) (VObject acc) st =
        object_loop m (set_member (VObject acc) k x) (j_skip (j_advance (j_skip st4)))"
    using object_turn_read [OF x rest Cons.prems(4) space ends Cons.prems(5) fuel, of "VObject acc"]
    by blast
  have comma: "j_rest (j_skip st4) = ?tail"
    using st4(1) by (simp add: j_while_rest json_space_def)
  have y_rest: "j_rest (j_skip (j_advance (j_skip st4))) = ?y"
    using comma line_break_space [of style "d + 1"]
    by (simp add: j_while_rest [of _ "j_advance (j_skip st4)"] dropWhile_append2 json_string_def
        json_space_def)
  have fresh: "k \<notin> fst ` set acc"
    using Cons.prems(2) by auto
  have step: "object_loop n (VObject acc) st =
      object_loop m (VObject (acc @ [(k, x)])) (j_skip (j_advance (j_skip st4)))"
    using turn comma y_rest fresh
    by (simp add: n j_peek_def json_string_def set_member_def put_entry_fresh del: object_loop.simps)
  have "length (j_rest (j_skip (j_advance (j_skip st4)))) < length (j_rest st)"
    using y_rest rest by simp
  then have "\<exists>st'. object_loop m (VObject (acc @ [(k, x)])) (j_skip (j_advance (j_skip st4))) =
      Done (VObject ((acc @ [(k, x)]) @ (k', x') # ms)) st' \<and> j_rest st' = r"
    using Cons.prems n st4(2) y_rest y by (intro Cons.IH [where ws = "[]"]) auto
  then show ?case by (simp add: step y)
qed

section \<open>The whole writer\<close>

lemma container_read:
  assumes "j_depth st + 1 \<le> max_json_depth" and "st1 = st\<lparr>j_depth := j_depth st + 1\<rparr>"
    and "(j_peek st = Some CHR ''['' \<and> parse_array k st1 = Done v st2) \<or>
         (j_peek st = Some CHR ''{'' \<and> parse_object k st1 = Done v st2)"
  shows "\<exists>st'. parse_value (Suc (Suc k)) st = Done v st' \<and> j_rest st' = j_rest st2"
proof -
  have peek: "j_peek st1 = j_peek st"
    using assms(2) by (simp add: j_peek_def)
  then have "parse_value_inner (Suc k) st1 = Done v st2"
    using assms(3) by auto
  then have "parse_value (Suc (Suc k)) st = Done v (st2\<lparr>j_depth := j_depth st2 - 1\<rparr>)"
    using assms by (auto simp del: parse_value_inner.simps)
  then show ?thesis by simp
qed

lemma array_read:
  assumes items: "\<forall>x \<in> set xs. reads_back style (d + 1) (depth + 1) x \<and> number_free x"
    and "depth + 1 \<le> max_json_depth"
  shows "reads_back style d depth (VArray xs)"
  unfolding reads_back_def
proof (intro allI impI)
  fix st :: jstate and r n
  assume rest: "j_rest st = write_value style False d (VArray xs) @ r" and "ends_value r"
    and depth: "j_depth st = depth" and fuel: "4 * length (j_rest st) + 4 \<le> n"
  define k where "k = n - 3"
  have n: "n = Suc (Suc (Suc k))" using fuel by (simp add: k_def)
  let ?st1 = "st\<lparr>j_depth := j_depth st + 1\<rparr>"
  have "\<exists>st2. parse_array (Suc k) ?st1 = Done (VArray xs) st2 \<and> j_rest st2 = r"
  proof (cases xs)
    case Nil
    then have "j_rest (j_skip (j_advance ?st1)) = CHR '']'' # r"
      using rest by (simp add: j_while_rest json_space_def)
    then show ?thesis
      using Nil by (simp add: j_consume_def j_peek_def)
  next
    case (Cons x ys)
    let ?body = "write_value style False (d + 1) x @ write_items style False d False ys @
        line_break style d @ CHR '']'' # r"
    obtain c cs where start: "write_value style False (d + 1) x = c # cs" "value_start c"
      using write_value_start items Cons by fastforce
    have tail: "j_rest (j_advance ?st1) = line_break style (d + 1) @ ?body"
      using rest Cons by simp
    then have skip: "j_rest (j_skip (j_advance ?st1)) = ?body"
      using start line_break_space [of style "d + 1"] value_start_not [OF start(2)]
      by (simp add: j_while_rest dropWhile_append2)
    then have "j_peek (j_skip (j_advance ?st1)) \<noteq> Some CHR '']''"
      using start value_start_not by (simp add: j_peek_def)
    moreover have "length (j_rest (j_skip (j_advance ?st1))) < length (j_rest st)"
      using j_while_length [of json_space "j_advance ?st1"] rest Cons by (simp add: skip)
    then have "\<exists>st2. array_loop k (VArray []) (j_skip (j_advance ?st1)) =
        Done (VArray ([] @ x # ys)) st2 \<and> j_rest st2 = r"
      using items Cons skip depth fuel n
      by (intro array_loop_read [where ws = "[]" and depth = "depth + 1"]) auto
    ultimately show ?thesis
      using Cons by (simp add: j_consume_def)
  qed
  moreover have "j_peek st = Some CHR ''[''"
    using rest by (simp add: j_peek_def)
  ultimately show "\<exists>st'. parse_value n st = Done (VArray xs) st' \<and> j_rest st' = r"
    using container_read [of st ?st1 "Suc k"] assms(2) depth unfolding n by blast
qed

lemma object_read:
  assumes items: "\<forall>m \<in> set ms. reads_back style (d + 1) (depth + 1) (snd m) \<and> number_free (snd m)"
    and keys: "distinct (map fst ms)" and "depth + 1 \<le> max_json_depth"
  shows "reads_back style d depth (VObject ms)"
  unfolding reads_back_def
proof (intro allI impI)
  fix st :: jstate and r n
  assume rest: "j_rest st = write_value style False d (VObject ms) @ r" and "ends_value r"
    and depth: "j_depth st = depth" and fuel: "4 * length (j_rest st) + 4 \<le> n"
  define k where "k = n - 3"
  have n: "n = Suc (Suc (Suc k))" using fuel by (simp add: k_def)
  let ?st1 = "st\<lparr>j_depth := j_depth st + 1\<rparr>"
  have "\<exists>st2. parse_object (Suc k) ?st1 = Done (VObject ms) st2 \<and> j_rest st2 = r"
  proof (cases ms)
    case Nil
    then have "j_rest (j_skip (j_advance ?st1)) = CHR ''}'' # r"
      using rest by (simp add: j_while_rest json_space_def)
    then show ?thesis
      using Nil by (simp add: j_consume_def j_peek_def)
  next
    case (Cons m ms')
    obtain key x where m: "m = (key, x)" by (cases m)
    let ?body = "json_string key @ '':'' @ (if style = Pretty then '' '' else []) @
        write_value style False (d + 1) x @ write_members style False d False ms' @
        line_break style d @ CHR ''}'' # r"
    have tail: "j_rest (j_advance ?st1) = line_break style (d + 1) @ ?body"
      using rest Cons m by simp
    then have skip: "j_rest (j_skip (j_advance ?st1)) = ?body"
      using line_break_space [of style "d + 1"]
      by (simp add: j_while_rest dropWhile_append2 json_string_def json_space_def)
    then have "j_peek (j_skip (j_advance ?st1)) \<noteq> Some CHR ''}''"
      by (simp add: j_peek_def json_string_def)
    moreover have "length (j_rest (j_skip (j_advance ?st1))) < length (j_rest st)"
      using j_while_length [of json_space "j_advance ?st1"] rest Cons m by (simp add: skip)
    then have "\<exists>st2. object_loop k (VObject []) (j_skip (j_advance ?st1)) =
        Done (VObject ([] @ (key, x) # ms')) st2 \<and> j_rest st2 = r"
      using items keys Cons m skip depth fuel n
      by (intro object_loop_read [where ws = "[]" and depth = "depth + 1"]) auto
    ultimately show ?thesis
      using Cons m by (simp add: j_consume_def)
  qed
  moreover have "j_peek st = Some CHR ''{''"
    using rest by (simp add: j_peek_def)
  ultimately show "\<exists>st'. parse_value n st = Done (VObject ms) st' \<and> j_rest st' = r"
    using container_read [of st ?st1 "Suc k"] assms(3) depth unfolding n by blast
qed

text \<open>Scalars: the inner function decides on the first character.\<close>

lemma flat_read:
  assumes "\<And>(st :: jstate) r m. j_rest st = write_value style False d v @ r \<Longrightarrow> ends_value r \<Longrightarrow>
      \<not> nests st \<and> (\<exists>st'. parse_value_inner (Suc m) st = Done v st' \<and> j_rest st' = r)"
    and "number_free v"
  shows "reads_back style d depth v"
  unfolding reads_back_def
proof (intro allI impI)
  fix st :: jstate and r n
  assume rest: "j_rest st = write_value style False d v @ r" and ends: "ends_value r"
    and fuel: "4 * length (j_rest st) + 4 \<le> n"
  define m where "m = n - 2"
  have n: "n = Suc (Suc m)" using fuel by (simp add: m_def)
  obtain c cs where "write_value style False d v = c # cs"
    using write_value_start assms(2) by blast
  with rest have peek: "j_peek st = Some c" by (simp add: j_peek_def)
  from assms(1) [OF rest ends, of m] peek
  show "\<exists>st'. parse_value n st = Done v st' \<and> j_rest st' = r"
    unfolding n by (auto simp: nests_def simp del: parse_value_inner.simps)
qed

lemma word_read:
  "j_rest st = word @ r \<Longrightarrow> \<exists>st'. j_word word v st = Done v st' \<and> j_rest st' = r"
  by (simp add: j_word_def j_consume_word_def)

lemma integer_read: "in_int64 i \<Longrightarrow> reads_back style d depth (VInteger i)"
proof (rule flat_read)
  fix st :: jstate and r m
  assume i: "in_int64 i" and rest: "j_rest st = write_value style False d (VInteger i) @ r"
    and ends: "ends_value r"
  obtain c cs where c: "format_int i = c # cs" "is_digit c \<or> c = CHR ''-''"
    using format_nat_digits [of "nat i"]
    by (cases "i < 0"; cases "format_nat (nat i)") (auto simp: format_int_def)
  then have "c \<noteq> CHR ''{'' \<and> c \<noteq> CHR ''['' \<and> c \<noteq> CHR 0x22 \<and> c \<noteq> CHR ''t'' \<and> c \<noteq> CHR ''f'' \<and> c \<noteq> CHR ''n''"
    by (auto simp: is_digit_def between_def)
  moreover have "j_peek st = Some c"
    using rest c by (simp add: j_peek_def)
  ultimately show "\<not> nests st \<and> (\<exists>st'. parse_value_inner (Suc m) st = Done (VInteger i) st' \<and> j_rest st' = r)"
    using parse_number_read [OF i _ ends] rest by (simp add: nests_def)
qed simp

lemma string_read: "reads_back style d depth (VString s)"
proof (rule flat_read)
  fix st :: jstate and r m
  assume rest: "j_rest st = write_value style False d (VString s) @ r"
  then have "j_peek st = Some CHR 0x22"
    by (simp add: j_peek_def json_string_def)
  with parse_string_read [of st s r] rest
  show "\<not> nests st \<and> (\<exists>st'. parse_value_inner (Suc m) st = Done (VString s) st' \<and> j_rest st' = r)"
    by (auto simp: nests_def)
qed simp

lemma constant_read:
  "reads_back style d depth VNull" "reads_back style d depth (VBoolean b)"
  by (rule flat_read; use word_read [of _ "''null''" _ VNull] word_read [of _ "''true''" _ "VBoolean True"]
      word_read [of _ "''false''" _ "VBoolean False"] in \<open>auto simp: nests_def j_peek_def\<close>)+

lemma write_value_reads_back:
  "value_ok v \<Longrightarrow> number_free v \<Longrightarrow> depth + nesting v \<le> max_json_depth \<Longrightarrow>
   reads_back style d depth v"
proof (induction v arbitrary: d depth)
  case (VArray xs)
  have "Suc 0 \<le> nesting (VArray xs)" by (simp add: nesting.simps)
  with VArray.prems(3) have "depth + 1 \<le> max_json_depth" by linarith
  moreover from this obtain k where "max_json_depth - depth = Suc k"
    by (metis Suc_diff_Suc Suc_eq_plus1 Suc_le_eq)
  moreover have "\<forall>x \<in> set xs. depth + 1 + nesting x \<le> max_json_depth"
    using VArray.prems(3) nesting_array_le [of xs k] calculation by fastforce
  ultimately show ?case
    using VArray by (intro array_read) auto
next
  case (VObject ms)
  have "Suc 0 \<le> nesting (VObject ms)" by (simp add: nesting.simps)
  with VObject.prems(3) have "depth + 1 \<le> max_json_depth" by linarith
  moreover from this obtain k where "max_json_depth - depth = Suc k"
    by (metis Suc_diff_Suc Suc_eq_plus1 Suc_le_eq)
  moreover have "\<forall>m \<in> set ms. depth + 1 + nesting (snd m) \<le> max_json_depth"
    using VObject.prems(3) nesting_object_le [of ms k] calculation by fastforce
  moreover have "reads_back style (d + 1) (depth + 1) (snd m)" if "m \<in> set ms" for m
    by (rule VObject.IH [of m "snd m"]) (use VObject.prems calculation(3) that in \<open>auto simp: snds.simps\<close>)
  ultimately show ?case
    using VObject.prems by (intro object_read) auto
qed (auto simp: constant_read integer_read string_read)

section \<open>Sorted keys\<close>

fun reorder :: "jvalue \<Rightarrow> jvalue" where
  "reorder (VArray xs) = VArray (map reorder xs)"
| "reorder (VObject ms) = VObject (sort_key fst (map (\<lambda>m. (fst m, reorder (snd m))) ms))"
| "reorder v = v"

lemma insort_key_map_snd:
  "insort_key fst (fst m, g (snd m)) (map (\<lambda>m. (fst m, g (snd m))) ms) =
   map (\<lambda>m. (fst m, g (snd m))) (insort_key fst m ms)"
  by (induction ms) auto

lemma sort_key_map_snd:
  "sort_key fst (map (\<lambda>m. (fst m, g (snd m))) ms) = map (\<lambda>m. (fst m, g (snd m))) (sort_key fst ms)"
  by (induction ms) (simp_all add: insort_key_map_snd)

lemma write_items_reorder:
  "(\<And>x d. x \<in> set xs \<Longrightarrow> write_value style True d x = write_value style False d (reorder x)) \<Longrightarrow>
   write_items style True d first xs = write_items style False d first (map reorder xs)"
  by (induction xs arbitrary: first) auto

lemma write_members_reorder:
  "(\<And>m d. m \<in> set ms \<Longrightarrow> write_value style True d (snd m) = write_value style False d (reorder (snd m))) \<Longrightarrow>
   write_members style True d first ms =
   write_members style False d first (map (\<lambda>m. (fst m, reorder (snd m))) ms)"
proof (induction ms arbitrary: first)
  case (Cons m ms)
  have "write_members style True d False ms =
      write_members style False d False (map (\<lambda>m. (fst m, reorder (snd m))) ms)"
    by (rule Cons.IH) (simp add: Cons.prems)
  moreover have "write_value style True (d + 1) (snd m) = write_value style False (d + 1) (reorder (snd m))"
    by (rule Cons.prems) simp
  ultimately show ?case by (cases m) simp
qed simp

lemma write_value_reorder: "write_value style True d v = write_value style False d (reorder v)"
proof (induction v arbitrary: d)
  case (VArray xs)
  then show ?case by (simp add: write_items_reorder)
next
  case (VObject ms)
  have "write_members style True d True (sort_key fst ms) =
      write_members style False d True (map (\<lambda>m. (fst m, reorder (snd m))) (sort_key fst ms))"
    by (rule write_members_reorder) (use VObject.IH in \<open>auto simp: snds.simps\<close>)
  moreover have "sort_key fst ms = [] \<longleftrightarrow> ms = []"
    by (metis length_0_conv length_sort)
  ultimately show ?case
    by (simp add: sort_key_map_snd)
qed simp_all

lemma nesting_reorder [simp]: "nesting (reorder v) = nesting v"
proof (induction v)
  case (VArray xs)
  then have "(nesting \<circ> reorder) ` set xs = nesting ` set xs"
    by (intro image_cong) auto
  then show ?case by (simp add: nesting.simps image_comp)
next
  case (VObject ms)
  have "(\<lambda>m. nesting (reorder (snd m))) ` set ms = (\<lambda>m. nesting (snd m)) ` set ms"
    by (rule image_cong) (use VObject.IH in \<open>auto simp: snds.simps\<close>)
  then show ?case by (simp add: nesting.simps image_comp comp_def)
qed simp_all

lemma map_fst_snd [simp]: "map fst (map (\<lambda>m. (fst m, g (snd m))) ms) = map fst ms"
  by simp

lemma distinct_sort_key_fst: "distinct (map fst (sort_key fst ms)) \<longleftrightarrow> distinct (map fst ms)"
proof -
  have "mset (map fst (sort_key fst ms)) = mset (map fst ms)"
    by simp
  then show ?thesis
    by (metis mset_eq_imp_distinct_iff)
qed

lemma value_ok_reorder: "value_ok v \<Longrightarrow> value_ok (reorder v)"
proof (induction v)
  case (VObject ms)
  have "\<forall>m \<in> set ms. value_ok (reorder (snd m))"
    using VObject by (auto simp: snds.simps)
  moreover have "distinct (map fst (sort_key fst (map (\<lambda>m. (fst m, reorder (snd m))) ms)))"
    using VObject.prems by (subst distinct_sort_key_fst) (simp add: comp_def)
  ultimately show ?case by simp
qed simp_all

lemma number_free_reorder: "number_free v \<Longrightarrow> number_free (reorder v)"
  by (induction v) (auto simp: snds.simps)

section \<open>Whole documents\<close>

lemma json_space_ends: "json_space c \<Longrightarrow> \<not> is_digit c \<and> c \<notin> {CHR ''.'', CHR ''e'', CHR ''E''}"
  by (auto simp: json_space_def is_digit_def between_def)

lemma reads_back_document:
  assumes "value_ok v" "number_free v" "nesting v \<le> max_json_depth"
    and ws: "\<forall>c \<in> set ws. json_space c"
  shows "\<exists>st. parse_json (write_value style False 0 v @ ws) = Done v st \<and> j_rest st = []"
proof -
  let ?s = "write_value style False 0 v @ ws"
  obtain c cs where start: "write_value style False 0 v = c # cs" "value_start c"
    using write_value_start assms(2) by blast
  then have skip: "j_skip (j_start ?s) = j_start ?s"
    using value_start_not [OF start(2)] by (subst j_while.simps) (simp add: j_start_def)
  have readable: "reads_back style 0 0 v"
    using assms by (intro write_value_reads_back) simp_all
  have ends: "ends_value ws"
    using ws json_space_ends by (cases ws) (simp_all add: ends_value_def)
  obtain st' where parsed: "parse_value (json_fuel ?s) (j_start ?s) = Done v st'"
    and rest: "j_rest st' = ws" "j_depth st' = 0"
    by (rule reads_backD [OF readable _ ends, of "j_start ?s" "json_fuel ?s"])
      (simp_all add: j_start_def json_fuel_def)
  have "j_rest (j_skip st') = []"
    using rest ws by (simp add: j_while_rest dropWhile_eq_Nil_conv)
  then show ?thesis
    unfolding parse_json_def by (simp only: skip parsed bind_outcome.simps Let_def if_False simp_thms) simp
qed

lemma to_json_reads_back:
  assumes "value_ok v" and "number_free v" and "nesting v \<le> max_json_depth"
  shows "\<exists>st. parse_json (to_json v style sorted_keys) =
      Done (if sorted_keys then reorder v else v) st \<and> j_rest st = []"
proof -
  let ?v = "if sorted_keys then reorder v else v"
  have "write_value style sorted_keys 0 v = write_value style False 0 ?v"
    by (simp add: write_value_reorder)
  moreover have "value_ok ?v" "number_free ?v" "nesting ?v \<le> max_json_depth"
    using assms by (simp_all add: value_ok_reorder number_free_reorder)
  ultimately show ?thesis
    unfolding to_json_def
    by (simp only:) (rule reads_back_document; simp add: json_space_def)
qed

text \<open>
  C28. What \<open>to_json\<close> writes, in either style and with or without sorted keys, \<open>parse_json\<close>
  accepts and reads back: the value itself, or the value with every object's members sorted by
  key. It holds for every value without doubles whose integers fit 64 bits, whose objects have
  distinct keys (what the class keeps) and whose containers nest at most 64 levels.
\<close>

theorem json_round_trip:
  assumes "value_ok v" and "number_free v" and "nesting v \<le> max_json_depth"
  shows "\<exists>st. parse_json (to_json v style sorted_keys) =
      Done (if sorted_keys then reorder v else v) st \<and> j_rest st = []"
  using assms by (rule to_json_reads_back)

theorem json_round_trip_witness:
  "\<exists>st. parse_json (to_json (VObject [(''b'', VArray [VInteger (- 7), VNull]), (''a'', VString [CHR 0x0A, CHR 0x22])])
       Pretty True) =
     Done (VObject [(''a'', VString [CHR 0x0A, CHR 0x22]), (''b'', VArray [VInteger (- 7), VNull])]) st \<and> j_rest st = []"
proof -
  let ?v = "VObject [(''b'', VArray [VInteger (- 7), VNull]), (''a'', VString [CHR 0x0A, CHR 0x22])]"
  have "value_ok ?v" "number_free ?v" "nesting ?v \<le> max_json_depth"
    by (simp_all add: in_int64_def int64_min_def int64_max_def nesting.simps max_json_depth_def)
  from json_round_trip [OF this, of Pretty True] show ?thesis
    by (simp add: less_char_def)
qed

text \<open>
  C30. The JSON parser always comes back, with a value or an error: the fuel of the model is never
  what ends it. Every value it accepts has distinct keys in every object and integers of 64 bits,
  and nests at most 64 containers deep, so the recursive walks over it are bounded.
\<close>

theorem parse_json_total:
  "(\<exists>e. parse_json text = Failed e) \<or>
   (\<exists>v st. parse_json text = Done v st \<and> value_ok v \<and> nesting v \<le> 64)"
proof (cases "parse_json text")
  case (Done v st)
  then show ?thesis
    using parse_json_built [of "text" v st] by (simp add: built_def max_json_depth_def)
qed (use parse_json_fuel [of "text"] in auto)

end
