(* ===== verification/YamlProps.thy ===== *)
theory YamlProps
  imports Yaml JsonRoundTrip
begin

text \<open>
  Facts about \<open>yaml.cpp\<close>: the fuel of the block parser is enough, the values it builds are
  well-formed, the walk with an explicit stack measures the nesting of containers, and so an
  accepted file is one the JSON parser reads back.
\<close>

section \<open>Turns and consumption\<close>

lemma y_next_simps [simp]:
  "y_rest (y_next st) = tl (y_rest st)" "y_depth (y_next st) = y_depth st" "y_total (y_next st) = y_total st"
  by (simp_all add: y_next_def)

lemma mapping_turn_rest: "mapping_turn_of indent st \<noteq> Stop \<Longrightarrow> y_rest st \<noteq> []"
  by (auto simp: mapping_turn_of_def)

lemma sequence_turn_rest: "sequence_turn_of indent st \<noteq> Seq_Stop \<Longrightarrow> y_rest st \<noteq> []"
  by (auto simp: sequence_turn_of_def)

lemma mapping_turn_here: "y_indent_over st dash \<Longrightarrow> mapping_turn_of (head_indent st) st \<noteq> Stop"
  by (auto simp: mapping_turn_of_def y_indent_over_def head_indent_def
      split: list.splits sum.splits option.splits)

definition keeps :: "ystate \<Rightarrow> ystate \<Rightarrow> bool" where
  "keeps st st' \<longleftrightarrow> length (y_rest st') \<le> length (y_rest st) \<and> y_depth st' = y_depth st"

lemma keeps_refl [simp]: "keeps st st"
  by (simp add: keeps_def)

lemma keeps_trans: "keeps a b \<Longrightarrow> keeps b c \<Longrightarrow> keeps a c"
  by (simp add: keeps_def)

lemma keeps_next: "keeps (y_next st) st' \<Longrightarrow> keeps st st'"
  by (auto simp: keeps_def)

text \<open>What each function did when it returned a value.\<close>

lemma parse_block_Done:
  assumes "parse_block (Suc n) indent st = Done v st'"
  obtains st1 where "parse_block_inner n indent (st\<lparr>y_depth := y_depth st + 1\<rparr>) = Done v st1"
    "st' = st1\<lparr>y_depth := y_depth st1 - 1\<rparr>" "y_depth st < max_yaml_depth"
  using assms by (auto simp: y_error_def bind_outcome_Done split: if_splits)

lemma mapping_loop_Done:
  assumes "mapping_loop (Suc n) indent mapping st = Done v st'"
  obtains (stop) "mapping_turn_of indent st = Stop" "v = mapping" "st' = st"
  | (keep) key item where "mapping_turn_of indent st = Keep key item"
      "mapping_loop n indent (set_member mapping key item) (y_next st) = Done v st'"
  | (block) key nested st1 where "mapping_turn_of indent st = Descend key"
      "parse_block n (head_indent (y_next st)) (y_next st) = Done nested st1"
      "mapping_loop n indent (set_member mapping key nested) st1 = Done v st'"
  | (sequence) key nested st1 where "mapping_turn_of indent st = Same_Indent key"
      "sequence_loop n (head_indent st) (VArray []) (y_next st) = Done nested st1"
      "mapping_loop n indent (set_member mapping key nested) st1 = Done v st'"
  using assms
  by (cases "mapping_turn_of indent st") (auto simp: bind_outcome_Done intro: stop keep block sequence)

lemma sequence_loop_Done:
  assumes "sequence_loop (Suc n) indent sequence st = Done v st'"
  obtains (stop) "sequence_turn_of indent st = Seq_Stop" "v = sequence" "st' = st"
  | (keep) item where "sequence_turn_of indent st = Seq_Keep item"
      "sequence_loop n indent (push_item sequence item) (y_next st) = Done v st'"
  | (block) nested st1 where "sequence_turn_of indent st = Seq_Descend"
      "parse_block n (head_indent (y_next st)) (y_next st) = Done nested st1"
      "sequence_loop n indent (push_item sequence nested) st1 = Done v st'"
  | (inline) line item st1 where "sequence_turn_of indent st = Seq_Inline line"
      "inline_mapping n line (head_indent st) (head_number st) (y_next st) = Done item st1"
      "sequence_loop n indent (push_item sequence item) st1 = Done v st'"
  using assms
  by (cases "sequence_turn_of indent st") (auto simp: bind_outcome_Done intro: stop keep block inline)

lemma inline_mapping_Done:
  assumes "inline_mapping (Suc n) first dash number st = Done v st'"
  obtains (keep) key item where
      "item = VNull \<or> entry_of first number = Inr (key, Some item)"
      "inline_rest n dash (set_member (VObject []) key item) st = Done v st'"
  | (block) key nested st1 where "parse_block n (head_indent st) st = Done nested st1"
      "inline_rest n dash (set_member (VObject []) key nested) st1 = Done v st'"
proof (cases "entry_of first number")
  case (Inr e)
  obtain key item where e: "e = (key, item)" by (cases e)
  show thesis
  proof (cases item)
    case None
    then show thesis
      using assms Inr e keep [of VNull key] block [of _ _ key]
      by (auto simp: bind_outcome_Done split: if_splits)
  next
    case (Some x)
    then show thesis
      using assms Inr e keep [of x key] by simp
  qed
qed (use assms in simp)

lemma inline_rest_Done:
  assumes "inline_rest (Suc n) dash mapping st = Done v st'"
  obtains (stop) "v = mapping" "st' = st"
  | (turn) extra st1 where "y_indent_over st dash"
      "mapping_loop n (head_indent st) (VObject []) st = Done extra st1"
      "inline_rest n dash (merge_more mapping extra) st1 = Done v st'"
  using assms by (auto simp: bind_outcome_Done split: if_splits intro: stop turn)

lemma parsers_keep:
  "parse_block n indent st = Done v st' \<Longrightarrow> keeps st st'"
  "parse_block_inner n indent st = Done v st' \<Longrightarrow> keeps st st'"
  "mapping_loop n indent mapping st = Done v st' \<Longrightarrow> keeps st st'"
  "sequence_loop n indent sequence st = Done v st' \<Longrightarrow> keeps st st'"
  "inline_mapping n first dash number st = Done v st' \<Longrightarrow> keeps st st'"
  "inline_rest n dash mapping st = Done v st' \<Longrightarrow> keeps st st'"
proof (induction n arbitrary: indent st v st' mapping sequence first dash number)
  case (Suc n)
  {
    case 1
    then show ?case
      by (cases rule: parse_block_Done) (use Suc(2) in \<open>fastforce simp: keeps_def\<close>)
  next
    case 2
    then show ?case
      using Suc(3,4) by (auto split: if_splits)
  next
    case 3
    then show ?case
    proof (cases rule: mapping_loop_Done)
      case keep
      then show ?thesis using Suc(3) keeps_next by blast
    next
      case block
      then show ?thesis using Suc(1) Suc(3) keeps_next keeps_trans by blast
    next
      case sequence
      then show ?thesis using Suc(4) Suc(3) keeps_next keeps_trans by blast
    qed simp
  next
    case 4
    then show ?case
    proof (cases rule: sequence_loop_Done)
      case keep
      then show ?thesis using Suc(4) keeps_next by blast
    next
      case block
      then show ?thesis using Suc(1) Suc(4) keeps_next keeps_trans by blast
    next
      case inline
      then show ?thesis using Suc(5) Suc(4) keeps_next keeps_trans by blast
    qed simp
  next
    case 5
    then show ?case
    proof (cases rule: inline_mapping_Done)
      case keep
      then show ?thesis using Suc(6) by blast
    next
      case block
      then show ?thesis using Suc(1) Suc(6) keeps_trans by blast
    qed
  next
    case 6
    then show ?case
    proof (cases rule: inline_rest_Done)
      case turn
      then show ?thesis using Suc(3) Suc(6) keeps_trans by blast
    qed simp
  }
qed simp_all

lemma keeps_shorter:
  assumes "keeps (y_next st) st'" and "y_rest st \<noteq> []"
  shows "length (y_rest st') < length (y_rest st)"
  using assms by (cases "y_rest st") (auto simp: keeps_def)

lemma mapping_loop_shorter:
  assumes "mapping_loop n indent mapping st = Done v st'" and "mapping_turn_of indent st \<noteq> Stop"
  shows "length (y_rest st') < length (y_rest st)"
proof (cases n)
  case (Suc m)
  have "keeps (y_next st) st'"
    using assms(1) unfolding Suc
  proof (cases rule: mapping_loop_Done)
    case keep
    then show ?thesis using parsers_keep(3) by blast
  next
    case block
    then show ?thesis using parsers_keep(1,3) keeps_trans by blast
  next
    case sequence
    then show ?thesis using parsers_keep(3,4) keeps_trans by blast
  qed (use assms(2) in simp)
  then show ?thesis
    using keeps_shorter mapping_turn_rest [OF assms(2)] by blast
qed (use assms in simp)

section \<open>Enough fuel\<close>

lemma next_rest: "y_rest st \<noteq> [] \<Longrightarrow> length (y_rest (y_next st)) + 1 = length (y_rest st)"
  by (cases "y_rest st") auto

lemma mapping_loop_fuel_step:
  assumes "mapping_loop (Suc n) indent mapping st = OutOfFuel"
  obtains (block) "parse_block n (head_indent (y_next st)) (y_next st) = OutOfFuel" "y_rest st \<noteq> []"
  | (sequence) "sequence_loop n (head_indent st) (VArray []) (y_next st) = OutOfFuel" "y_rest st \<noteq> []"
  | (next_turn) mapping' st1 where "length (y_rest st1) < length (y_rest st)"
      "mapping_loop n indent mapping' st1 = OutOfFuel"
proof -
  have rest: "y_rest st \<noteq> []"
    using assms mapping_turn_rest [of indent st] by (cases "mapping_turn_of indent st") auto
  then have shorter: "length (y_rest (y_next st)) < length (y_rest st)"
    using next_rest by fastforce
  show thesis
  proof (cases "mapping_turn_of indent st")
    case (Keep key item)
    then show thesis
      using assms next_turn [OF shorter] by simp
  next
    case (Descend key)
    show thesis
    proof (cases "parse_block n (head_indent (y_next st)) (y_next st)")
      case (Done v st1)
      then show thesis
        using assms Descend next_turn [of st1] keeps_shorter [OF parsers_keep(1) rest] by simp
    qed (use assms Descend rest block in auto)
  next
    case (Same_Indent key)
    show thesis
    proof (cases "sequence_loop n (head_indent st) (VArray []) (y_next st)")
      case (Done v st1)
      then show thesis
        using assms Same_Indent next_turn [of st1] keeps_shorter [OF parsers_keep(4) rest] by simp
    qed (use assms Same_Indent rest sequence in auto)
  qed (use assms in simp_all)
qed

lemma sequence_loop_fuel_step:
  assumes "sequence_loop (Suc n) indent sequence st = OutOfFuel"
  obtains (block) "parse_block n (head_indent (y_next st)) (y_next st) = OutOfFuel" "y_rest st \<noteq> []"
  | (inline) rest number where
      "inline_mapping n rest (head_indent st) number (y_next st) = OutOfFuel" "y_rest st \<noteq> []"
  | (next_turn) sequence' st1 where "length (y_rest st1) < length (y_rest st)"
      "sequence_loop n indent sequence' st1 = OutOfFuel"
proof -
  have rest: "y_rest st \<noteq> []"
    using assms sequence_turn_rest [of indent st] by (cases "sequence_turn_of indent st") auto
  then have shorter: "length (y_rest (y_next st)) < length (y_rest st)"
    using next_rest by fastforce
  show thesis
  proof (cases "sequence_turn_of indent st")
    case (Seq_Keep item)
    then show thesis
      using assms next_turn [OF shorter] by simp
  next
    case Seq_Descend
    show thesis
    proof (cases "parse_block n (head_indent (y_next st)) (y_next st)")
      case (Done v st1)
      then show thesis
        using assms Seq_Descend next_turn [of st1] keeps_shorter [OF parsers_keep(1) rest] by simp
    qed (use assms Seq_Descend rest block in auto)
  next
    case (Seq_Inline line)
    show thesis
    proof (cases "inline_mapping n line (head_indent st) (head_number st) (y_next st)")
      case (Done v st1)
      then show thesis
        using assms Seq_Inline next_turn [of st1] keeps_shorter [OF parsers_keep(5) rest] by simp
    qed (use assms Seq_Inline rest inline in auto)
  qed (use assms in simp_all)
qed

lemma inline_mapping_fuel_step:
  assumes "inline_mapping (Suc n) first dash number st = OutOfFuel"
  obtains (block) "parse_block n (head_indent st) st = OutOfFuel"
  | (rest) mapping' st1 where "keeps st st1" "inline_rest n dash mapping' st1 = OutOfFuel"
proof (cases "entry_of first number")
  case (Inr e)
  obtain key item where e: "e = (key, item)" by (cases e)
  show thesis
  proof (cases "item = None \<and> y_indent_over st dash")
    case True
    show thesis
    proof (cases "parse_block n (head_indent st) st")
      case (Done v st1)
      then show thesis
        using assms Inr e True rest [of st1] parsers_keep(1) by simp
    qed (use assms Inr e True block in auto)
  next
    case False
    then show thesis
      using assms Inr e rest [of st] by (cases item) auto
  qed
qed (use assms in simp)

lemma inline_rest_fuel_step:
  assumes "inline_rest (Suc n) dash mapping st = OutOfFuel"
  obtains (mapping) indent where "mapping_loop n indent (VObject []) st = OutOfFuel"
  | (next_turn) mapping' st1 where "length (y_rest st1) < length (y_rest st)"
      "inline_rest n dash mapping' st1 = OutOfFuel"
proof -
  have over: "y_indent_over st dash" "\<not> head_is_dash st"
    using assms by (auto split: if_splits)
  show thesis
  proof (cases "mapping_loop n (head_indent st) (VObject []) st")
    case (Done v st1)
    then show thesis
      using assms over next_turn [of st1] mapping_loop_shorter [OF Done mapping_turn_here [OF over(1)]]
      by simp
  qed (use assms over mapping in auto)
qed

lemma block_parsers_fuel:
  "4 * length (y_rest st) + 4 \<le> n \<Longrightarrow> parse_block n indent st \<noteq> OutOfFuel"
  "4 * length (y_rest st) + 3 \<le> n \<Longrightarrow> parse_block_inner n indent st \<noteq> OutOfFuel"
  "4 * length (y_rest st) + 2 \<le> n \<Longrightarrow> mapping_loop n indent mapping st \<noteq> OutOfFuel"
  "4 * length (y_rest st) + 2 \<le> n \<Longrightarrow> sequence_loop n indent sequence st \<noteq> OutOfFuel"
  "4 * length (y_rest st) + 5 \<le> n \<Longrightarrow> inline_mapping n first dash number st \<noteq> OutOfFuel"
  "4 * length (y_rest st) + 4 \<le> n \<Longrightarrow> inline_rest n dash mapping st \<noteq> OutOfFuel"
proof (induction n arbitrary: indent st mapping sequence first dash number)
  case (Suc n)
  have shorter: "4 * length (y_rest st1) + 5 \<le> n"
    if "4 * length (y_rest st) + 2 \<le> Suc n" "length (y_rest st1) < length (y_rest st)" for st st1
    using that by linarith
  {
    case 1
    then show ?case
      using Suc(2) by (auto simp: y_error_def bind_outcome_OutOfFuel)
  next
    case 2
    then show ?case
      using Suc(3,4) by auto
  next
    case 3
    show ?case
    proof
      assume "mapping_loop (Suc n) indent mapping st = OutOfFuel"
      then show False
      proof (cases rule: mapping_loop_fuel_step)
        case block
        then show False using 3 Suc(1) next_rest [of st] by fastforce
      next
        case sequence
        then show False using 3 Suc(4) next_rest [of st] by fastforce
      next
        case (next_turn mapping' st1)
        then show False using 3 Suc(3) [of st1] by simp
      qed
    qed
  next
    case 4
    show ?case
    proof
      assume "sequence_loop (Suc n) indent sequence st = OutOfFuel"
      then show False
      proof (cases rule: sequence_loop_fuel_step)
        case block
        then show False using 4 Suc(1) next_rest [of st] by fastforce
      next
        case (inline rest number)
        then show False using 4 Suc(5) next_rest [of st] by fastforce
      next
        case (next_turn sequence' st1)
        then show False using 4 Suc(4) [of st1] by simp
      qed
    qed
  next
    case 5
    show ?case
    proof
      assume "inline_mapping (Suc n) first dash number st = OutOfFuel"
      then show False
      proof (cases rule: inline_mapping_fuel_step)
        case block
        then show False using 5 Suc(1) by fastforce
      next
        case (rest mapping' st1)
        then show False using 5 Suc(6) [of st1] by (simp add: keeps_def)
      qed
    qed
  next
    case 6
    show ?case
    proof
      assume "inline_rest (Suc n) dash mapping st = OutOfFuel"
      then show False
      proof (cases rule: inline_rest_fuel_step)
        case mapping
        then show False using 6 Suc(3) by fastforce
      next
        case (next_turn mapping' st1)
        then show False using 6 Suc(6) [of st1] by simp
      qed
    qed
  }
qed simp_all

lemma parse_lines_fuel: "parse_lines st \<noteq> OutOfFuel"
proof -
  have "parse_block (yaml_fuel st) indent st \<noteq> OutOfFuel" for indent
    by (rule block_parsers_fuel) (simp add: yaml_fuel_def)
  then show ?thesis by (simp add: parse_lines_def split: list.split)
qed

lemma parse_yaml_fuel: "parse_yaml source \<noteq> OutOfFuel"
  by (auto simp: parse_yaml_def bind_outcome_OutOfFuel parse_lines_fuel y_error_def)

section \<open>Well-formed values\<close>

lemma value_ok_scalar: "value_ok (scalar_from token)"
  using from_chars_in_int64
  by (auto simp: scalar_from_def Let_def split: option.split from_chars_result.split list.split)

lemma value_ok_unquote: "unquote token line = Inr v \<Longrightarrow> value_ok v"
  by (cases "unescape_loop line [] (butlast (tl token))")
    (auto simp: unquote_def value_ok_scalar split: if_splits)

lemma value_ok_flow_item: "flow_item line list piece = Inr v \<Longrightarrow> value_ok list \<Longrightarrow> value_ok v"
  using value_ok_unquote
  by (cases "unquote (trim piece) line") (auto simp: flow_item_def value_ok_push_item split: if_splits)

lemma value_ok_flow_loop:
  "flow_loop line list quote piece cs = Inr v \<Longrightarrow> value_ok list \<Longrightarrow> value_ok v"
  by (induction line list quote piece cs rule: flow_loop.induct)
    (auto dest: value_ok_flow_item split: if_splits sum.splits)

lemma value_ok_parse_scalar: "parse_scalar token line = Inr v \<Longrightarrow> value_ok v"
  by (auto simp: parse_scalar_def parse_flow_sequence_def Let_def
      dest: value_ok_unquote value_ok_flow_loop split: if_splits)

lemma value_ok_entry: "entry_of content number = Inr (key, Some item) \<Longrightarrow> value_ok item"
  by (auto simp: entry_of_def Let_def dest: value_ok_parse_scalar
      split: option.splits sum.splits if_splits)

lemma value_ok_mapping_turn: "mapping_turn_of indent st = Keep key item \<Longrightarrow> value_ok item"
  by (auto simp: mapping_turn_of_def dest: value_ok_entry
      split: list.splits if_splits sum.splits option.splits)

lemma value_ok_sequence_turn: "sequence_turn_of indent st = Seq_Keep item \<Longrightarrow> value_ok item"
  by (auto simp: sequence_turn_of_def Let_def dest: value_ok_parse_scalar
      split: list.splits if_splits sum.splits)

lemma value_ok_fold_set:
  "value_ok mapping \<Longrightarrow> \<forall>m \<in> set ms. value_ok (snd m) \<Longrightarrow>
   value_ok (fold (\<lambda>m merged. set_member merged (fst m) (snd m)) ms mapping)"
  by (induction ms arbitrary: mapping) (auto simp: value_ok_set_member)

lemma value_ok_merge_more: "value_ok mapping \<Longrightarrow> value_ok extra \<Longrightarrow> value_ok (merge_more mapping extra)"
  unfolding merge_more_def by (rule value_ok_fold_set) (cases extra; auto)+

lemma block_parsers_ok:
  "parse_block n indent st = Done v st' \<Longrightarrow> value_ok v"
  "parse_block_inner n indent st = Done v st' \<Longrightarrow> value_ok v"
  "mapping_loop n indent mapping st = Done v st' \<Longrightarrow> value_ok mapping \<Longrightarrow> value_ok v"
  "sequence_loop n indent sequence st = Done v st' \<Longrightarrow> value_ok sequence \<Longrightarrow> value_ok v"
  "inline_mapping n first dash number st = Done v st' \<Longrightarrow> value_ok v"
  "inline_rest n dash mapping st = Done v st' \<Longrightarrow> value_ok mapping \<Longrightarrow> value_ok v"
proof (induction n arbitrary: indent st v st' mapping sequence first dash number)
  case (Suc n)
  have empty: "value_ok (VArray [])" "value_ok (VObject [])"
    by simp_all
  {
    case 1
    then show ?case
      by (cases rule: parse_block_Done) (rule Suc(2))
  next
    case 2
    then show ?case
      using Suc(3) [OF _ empty(2)] Suc(4) [OF _ empty(1)] by (auto split: if_splits)
  next
    case 3
    from 3(1) show ?case
    proof (cases rule: mapping_loop_Done)
      case keep
      then show ?thesis using Suc(3) value_ok_set_member 3(2) value_ok_mapping_turn by blast
    next
      case block
      then show ?thesis using Suc(1) Suc(3) value_ok_set_member 3(2) by blast
    next
      case sequence
      then show ?thesis using Suc(4) [OF _ empty(1)] Suc(3) value_ok_set_member 3(2) by blast
    qed (use 3(2) in simp)
  next
    case 4
    from 4(1) show ?case
    proof (cases rule: sequence_loop_Done)
      case keep
      then show ?thesis using Suc(4) value_ok_push_item 4(2) value_ok_sequence_turn by blast
    next
      case block
      then show ?thesis using Suc(1) Suc(4) value_ok_push_item 4(2) by blast
    next
      case inline
      then show ?thesis using Suc(5) Suc(4) value_ok_push_item 4(2) by blast
    qed (use 4(2) in simp)
  next
    case 5
    then show ?case
    proof (cases rule: inline_mapping_Done)
      case (keep key item)
      then have "value_ok item" using value_ok_entry by auto
      with keep(2) show ?thesis using Suc(6) value_ok_set_member empty(2) by blast
    next
      case block
      then show ?thesis using Suc(1) Suc(6) value_ok_set_member empty(2) by blast
    qed
  next
    case 6
    from 6(1) show ?case
    proof (cases rule: inline_rest_Done)
      case turn
      then show ?thesis using Suc(3) [OF _ empty(2)] Suc(6) value_ok_merge_more 6(2) by blast
    qed (use 6(2) in simp)
  }
qed simp_all

section \<open>Measuring\<close>

lemma child_nesting:
  "is_object v \<or> is_array v \<Longrightarrow> nesting v \<le> Suc n \<longleftrightarrow> (\<forall>child \<in> set (child_values v). nesting child \<le> n)"
  by (cases v) (auto simp: child_values_def nesting_array_le nesting_object_le)

lemma container_nesting: "is_object v \<or> is_array v \<Longrightarrow> 0 < nesting v"
  by (cases v) (simp_all add: nesting.simps)

lemma container_children_le:
  assumes "is_object v \<or> is_array v" and "d \<le> b"
  shows "(\<forall>child \<in> set (child_values v). nesting child = 0 \<or> d + 1 + nesting child \<le> b + 1) \<longleftrightarrow>
         d + nesting v \<le> b + 1"
proof -
  obtain k where b: "b = d + k" using assms(2) le_Suc_ex by blast
  have "(\<forall>child \<in> set (child_values v). nesting child = 0 \<or> d + 1 + nesting child \<le> b + 1) \<longleftrightarrow>
      (\<forall>child \<in> set (child_values v). nesting child \<le> k)"
    by (auto simp: b)
  also have "\<dots> \<longleftrightarrow> nesting v \<le> Suc k"
    using child_nesting assms(1) by blast
  finally show ?thesis by (simp add: b)
qed

lemma container_walk_le:
  "container_walk deepest pending \<le> b \<longleftrightarrow>
     deepest \<le> b \<and> (\<forall>p \<in> set pending. nesting (fst p) = 0 \<or> snd p + nesting (fst p) \<le> b + 1)"
proof (induction deepest pending rule: container_walk.induct)
  case (2 deepest v depth pending)
  show ?case
  proof (cases "is_object v \<or> is_array v")
    case True
    let ?children = "\<forall>child \<in> set (child_values v). nesting child = 0 \<or> depth + 1 + nesting child \<le> b + 1"
    let ?pending = "\<forall>p \<in> set pending. nesting (fst p) = 0 \<or> snd p + nesting (fst p) \<le> b + 1"
    have "container_walk deepest ((v, depth) # pending) \<le> b \<longleftrightarrow>
        (deepest \<le> b \<and> depth \<le> b) \<and> ?children \<and> ?pending"
      using True 2(2) by (auto simp: ball_Un)
    also have "\<dots> \<longleftrightarrow> deepest \<le> b \<and> depth + nesting v \<le> b + 1 \<and> ?pending"
    proof (cases "depth \<le> b")
      case True
      then show ?thesis using container_children_le [OF \<open>is_object v \<or> is_array v\<close>] by blast
    next
      case False
      then show ?thesis using container_nesting [OF True] by auto
    qed
    finally show ?thesis using container_nesting [OF True] by auto
  next
    case False
    then show ?thesis using 2(1) by (simp add: nesting_scalar)
  qed
qed simp

lemma container_depth_nesting: "container_depth v = nesting v"
proof (rule antisym)
  have "container_depth v \<le> b \<longleftrightarrow> nesting v \<le> b" for b
    unfolding container_depth_def by (simp only: container_walk_le) auto
  then show "container_depth v \<le> nesting v" "nesting v \<le> container_depth v"
    by blast+
qed

lemma parse_yaml_accepts:
  assumes "parse_yaml source = Done v st"
  shows "value_ok v \<and> nesting v \<le> max_json_depth"
proof -
  from assms obtain st1 where "parse_lines (yaml_start source) = Done v st1"
    and depth: "container_depth v \<le> max_json_depth"
    by (auto simp: parse_yaml_def bind_outcome_Done y_error_def split: if_splits)
  then have "value_ok v"
    using block_parsers_ok(1) by (fastforce simp: parse_lines_def split: list.splits)
  with depth show ?thesis by (simp add: container_depth_nesting)
qed

text \<open>
  C31. A YAML file is refused or read, never neither, and what is read has distinct keys in every
  object, integers of 64 bits, and at most as many nested containers as the JSON parser allows.
\<close>

theorem parse_yaml_total:
  "(\<exists>e. parse_yaml source = Failed e) \<or>
   (\<exists>v st. parse_yaml source = Done v st \<and> value_ok v \<and> nesting v \<le> max_json_depth)"
proof (cases "parse_yaml source")
  case (Done v st)
  then show ?thesis using parse_yaml_accepts by blast
qed (use parse_yaml_fuel [of source] in auto)

text \<open>
  The walk with an explicit stack that measures a parsed value computes its nesting.
\<close>

theorem container_depth_correct: "container_depth v = nesting v"
  by (rule container_depth_nesting)

text \<open>
  A data file the YAML parser accepts can be written to the search index: its value, when it
  holds no double, is written as JSON that the JSON parser accepts and reads back as that value.
\<close>

theorem yaml_survives_json:
  assumes "parse_yaml source = Done v st" and "number_free v"
  shows "\<exists>st'. parse_json (to_json v style sorted_keys) =
      Done (if sorted_keys then reorder v else v) st' \<and> j_rest st' = []"
  using to_json_reads_back parse_yaml_accepts [OF assms(1)] assms(2) by blast

theorem yaml_survives_json_witness:
  "\<exists>st'. parse_json (to_json (VObject [(''tags'', VArray [VString ''b'', VInteger 3])]) Compact False) =
     Done (VObject [(''tags'', VArray [VString ''b'', VInteger 3])]) st' \<and> j_rest st' = []"
proof -
  have parsed: "parse_yaml ''tags: [b, 3]'' = Done (VObject [(''tags'', VArray [VString ''b'', VInteger 3])])
      \<lparr>y_rest = [], y_total = 1, y_depth = 0\<rparr>"
    by code_simp
  show ?thesis
    using yaml_survives_json [OF parsed, of Compact False] by simp
qed

section \<open>What the block counter does not count\<close>

text \<open>
  A sequence at the indentation of its key is parsed without a trip through \<open>parse_block\<close>, and
  so is a mapping that starts on a dash line. \<open>ladder k n\<close> is \<open>n\<close> rungs of the two from level \<open>k\<close>:
  "- a: 1", then "b:" indented past the dash.
\<close>

fun ladder :: "nat \<Rightarrow> nat \<Rightarrow> yline list" where
  "ladder k 0 = []"
| "ladder k (Suc n) =
     \<lparr>yl_indent = 2 * k, yl_content = ''- a: 1'', yl_number = 2 * k + 1\<rparr> #
     \<lparr>yl_indent = 2 * k + 2, yl_content = ''b:'', yl_number = 2 * k + 2\<rparr> # ladder (k + 1) n"

fun tower :: "nat \<Rightarrow> jvalue" where
  "tower 0 = VNull"
| "tower (Suc n) = VArray [VObject [(''a'', VInteger 1), (''b'', tower n)]]"

lemma tower_nesting: "nesting (tower n) = 2 * n"
  by (induction n) (simp_all add: nesting.simps)

lemma ladder_scan:
  "mapping_colon ''b:'' = Some 1" "mapping_colon ''a: 1'' = Some 1" "trim '' 1'' = ''1''"
  "trim '' a: 1'' = ''a: 1''" "trim ''a'' = ''a''" "trim ''b'' = ''b''" "trim ''1'' = ''1''" "trim [] = []"
  "scalar_from ''1'' = VInteger 1" "scalar_from ''a'' = VString ''a''" "scalar_from ''b'' = VString ''b''"
  by code_simp+

lemma ladder_entries:
  "entry_of ''b:'' number = Inr (''b'', None)" "entry_of ''a: 1'' number = Inr (''a'', Some (VInteger 1))"
  by (simp_all add: entry_of_def parse_scalar_def unquote_def quoted_by_def key_text_def ladder_scan)

lemma ladder_first: "ladder k n = [] \<or> yl_indent (hd (ladder k n)) = 2 * k \<and> yl_content (hd (ladder k n)) = ''- a: 1''"
  by (cases n) simp_all

lemma ladder_nil [simp]: "ladder k n = [] \<longleftrightarrow> n = 0"
  by (cases n) simp_all

lemma rung_mapping_turn:
  assumes "y_rest st = \<lparr>yl_indent = 2 * k + 2, yl_content = ''b:'', yl_number = i\<rparr> # ladder (k + 1) n"
  shows "mapping_turn_of (2 * k + 2) st = (if n = 0 then Keep ''b'' VNull else Same_Indent ''b'')"
proof (cases "ladder (k + 1) n")
  case (Cons l ls)
  then have "n \<noteq> 0" by (cases n) simp_all
  with Cons show ?thesis
    using assms ladder_first [of "k + 1" n]
    by (auto simp: mapping_turn_of_def ladder_entries y_indent_over_def)
qed (use assms in \<open>auto simp: mapping_turn_of_def ladder_entries y_indent_over_def\<close>)

lemma rung_sequence_turn:
  assumes "y_rest st = \<lparr>yl_indent = 2 * k, yl_content = ''- a: 1'', yl_number = i\<rparr> # ls"
  shows "sequence_turn_of (2 * k) st = Seq_Inline ''a: 1''"
  using assms by (simp add: sequence_turn_of_def ladder_scan)

lemma ladder_parse:
  "y_rest st = ladder k n \<Longrightarrow> 6 * n + 6 \<le> m \<Longrightarrow>
   sequence_loop m (2 * k) (VArray []) st =
     Done (if n = 0 then VArray [] else tower n) (st\<lparr>y_rest := []\<rparr>)"
proof (induction n arbitrary: k m st)
  case 0
  then show ?case by (cases m) (simp_all add: sequence_turn_of_def)
next
  case (Suc n)
  define m4 where "m4 = m - 4"
  have m: "m = Suc (Suc (Suc (Suc m4)))" "6 * n + 6 \<le> m4"
    using Suc.prems(2) by (simp_all add: m4_def)
  then obtain m5 where m5: "m4 = Suc m5" by (cases m4) auto
  define st1 where "st1 = y_next st"
  define st2 where "st2 = y_next st1"
  have rest: "y_rest st1 = \<lparr>yl_indent = 2 * k + 2, yl_content = ''b:'', yl_number = 2 * k + 2\<rparr> # ladder (k + 1) n"
    "y_rest st2 = ladder (k + 1) n"
    using Suc.prems(1) by (simp_all add: st1_def st2_def)
  have st: "st\<lparr>y_rest := []\<rparr> = st2\<lparr>y_rest := []\<rparr>"
    by (simp add: st1_def st2_def y_next_def)
  let ?last = "st2\<lparr>y_rest := []\<rparr>"
  have over: "y_indent_over st1 (2 * k)" "\<not> head_is_dash st1" "head_indent st1 = 2 * k + 2"
    using rest by (simp_all add: y_indent_over_def head_is_dash_def head_indent_def)
  have stop: "mapping_loop m4 i v ?last = Done v ?last" for i v
    unfolding m5 by (simp add: mapping_turn_of_def)
  have "mapping_loop (Suc m4) (2 * k + 2) (VObject []) st1 = Done (VObject [(''b'', tower n)]) ?last"
  proof (cases "n = 0")
    case True
    then have "st2 = ?last" using rest(2) by simp
    then show ?thesis
      using True rung_mapping_turn [OF rest(1)] stop by (simp add: st2_def set_member_def)
  next
    case False
    have "sequence_loop m4 (2 * (k + 1)) (VArray []) st2 = Done (tower n) ?last"
      using Suc.IH [OF rest(2) m(2)] False by simp
    then show ?thesis
      using False rung_mapping_turn [OF rest(1)] stop over(3)
      by (simp add: st2_def [symmetric] set_member_def bind_outcome_Done)
  qed
  then have "inline_mapping (Suc (Suc (Suc m4))) ''a: 1'' (2 * k) i st1 =
      Done (VObject [(''a'', VInteger 1), (''b'', tower n)]) ?last" for i
    using over by (simp add: ladder_entries set_member_def merge_more_def y_indent_over_def)
  then show ?case
    using rung_sequence_turn [of st k] Suc.prems(1)
    by (simp add: m(1) st st1_def [symmetric] head_indent_def push_item_def sequence_turn_of_def)
qed

text \<open>
  The counter of \<open>parse_block\<close> does not bound the recursion: with one trip left in it, the
  parser still goes down a ladder of any number of rungs, two calls and two containers to a rung.
\<close>

theorem block_counter_passes_ladder:
  "parse_block (yaml_fuel \<lparr>y_rest = ladder 0 (n + 1), y_total = t, y_depth = 63\<rparr>) 0
     \<lparr>y_rest = ladder 0 (n + 1), y_total = t, y_depth = 63\<rparr> =
   Done (tower (n + 1)) \<lparr>y_rest = [], y_total = t, y_depth = 63\<rparr> \<and>
   nesting (tower (n + 1)) = 2 * (n + 1)"
proof -
  let ?st = "\<lparr>y_rest = ladder 0 (n + 1), y_total = t, y_depth = 64\<rparr>"
  have "sequence_loop (8 * n + 14) (2 * 0) (VArray []) ?st = Done (tower (n + 1)) (?st\<lparr>y_rest := []\<rparr>)"
    using ladder_parse [of ?st 0 "n + 1" "8 * n + 14"] by simp
  moreover have "head_is_item ?st"
    by (simp add: head_is_item_def)
  moreover have ladder_length: "length (ladder k n) = 2 * n" for k n
    by (induction n arbitrary: k) simp_all
  have "yaml_fuel \<lparr>y_rest = ladder 0 (n + 1), y_total = t, y_depth = 63\<rparr> = Suc (Suc (8 * n + 14))"
    using ladder_length [of 0 "n + 1"] by (simp add: yaml_fuel_def del: ladder.simps)
  ultimately show ?thesis
    by (simp only: tower_nesting parse_block.simps parse_block_inner.simps)
      (simp add: max_yaml_depth_def del: ladder.simps tower.simps)
qed

text \<open>
  A line indented less than the first one ends the block the file starts with; what follows is
  not looked at, and no error is reported. Likewise a key that reads as a number is the empty key.
\<close>

lemma dedented_line_dropped:
  "parse_yaml (''  a: 1'' @ [CHR 0x0A] @ ''b: 2'') =
   Done (VObject [(''a'', VInteger 1)])
     \<lparr>y_rest = [\<lparr>yl_indent = 0, yl_content = ''b: 2'', yl_number = 2\<rparr>], y_total = 2, y_depth = 0\<rparr>"
  by code_simp

lemma number_keys_collide:
  "parse_yaml (''1: a'' @ [CHR 0x0A] @ ''2: b'') =
   Done (VObject [([], VString ''b'')]) \<lparr>y_rest = [], y_total = 2, y_depth = 0\<rparr>"
  by code_simp

end
