(* ===== verification/Websocket.thy ===== *)
theory Websocket
  imports TextOps
begin

text \<open>
  The preview server's WebSocket support (\<open>websocket.cpp\<close>): SHA-1 on 32-bit words, base64, the
  handshake's key, and the frames of RFC 6455. Bytes are characters, read as 8-bit words; the
  length field of a frame is a 64-bit word, as in the code, and buffer sizes are naturals.
\<close>

unbundle bit_operations_syntax

section \<open>SHA-1\<close>

definition websocket_guid :: string where
  "websocket_guid = ''258EAFA5-E914-47DA-95CA-C5AB0DC85B11''"

definition rotate_left :: "32 word \<Rightarrow> nat \<Rightarrow> 32 word" where
  "rotate_left v amount = push_bit amount v OR drop_bit (32 - amount) v"

definition byte_word :: "char \<Rightarrow> 'a::len word" where
  "byte_word c = of_nat (byte c)"

definition word_char :: "'a::len word \<Rightarrow> char" where
  "word_char w = char_of (unat (w AND 0xff))"

text \<open>The loop that adds zeroes until the size is 56 modulo 64.\<close>

function pad_message :: "string \<Rightarrow> string" where
  "pad_message message =
     (if length message mod 64 \<noteq> 56 then pad_message (message @ [CHR 0x00]) else message)"
  by pat_completeness auto

lemma pad_distance:
  fixes r :: nat
  assumes "r < 64"
  shows "(120 - r) mod 64 = (if r \<le> 56 then 56 - r else 120 - r)"
proof (cases "r \<le> 56")
  case True
  then have "120 - r = 64 + (56 - r)" by simp
  then have "(120 - r) mod 64 = (56 - r) mod 64" by (simp only: mod_add_self1)
  with True show ?thesis by simp
qed (use assms in simp)

lemma pad_distance_less:
  fixes n :: nat
  assumes "n mod 64 \<noteq> 56"
  shows "(120 - Suc n mod 64) mod 64 < (120 - n mod 64) mod 64"
proof -
  have less: "n mod 64 < 64" "Suc n mod 64 < 64" by simp_all
  have suc: "Suc n mod 64 = (if Suc (n mod 64) = 64 then 0 else Suc (n mod 64))"
    by (rule mod_Suc)
  have step: "(if r' \<le> 56 then 56 - r' else 120 - r') < (if r \<le> 56 then 56 - r else 120 - r)"
    if "r' = (if Suc r = 64 then 0 else Suc r)" "r \<noteq> 56" "r < 64" for r r' :: nat
    using that by (cases "Suc r = 64") auto
  show ?thesis
    unfolding pad_distance [OF less(1)] pad_distance [OF less(2)]
    by (rule step [OF suc assms less(1)])
qed

termination pad_message
  by (relation "measure (\<lambda>message. (120 - length message mod 64) mod 64)")
    (simp_all add: pad_distance_less)

declare pad_message.simps [simp del]

definition bit_length_bytes :: "64 word \<Rightarrow> string" where
  "bit_length_bytes bits = map (\<lambda>index. word_char (drop_bit (index * 8) bits)) (rev [0..<8])"

definition sha1_message :: "string \<Rightarrow> string" where
  "sha1_message bytes =
     pad_message (bytes @ [char_of (0x80 :: nat)]) @ bit_length_bytes (of_nat (length bytes) * 8)"

definition big_endian :: "string \<Rightarrow> nat \<Rightarrow> 32 word" where
  "big_endian block index =
     push_bit 24 (byte_word (block ! (4 * index))) OR push_bit 16 (byte_word (block ! (4 * index + 1))) OR
     push_bit 8 (byte_word (block ! (4 * index + 2))) OR byte_word (block ! (4 * index + 3))"

text \<open>The message schedule: the array \<open>words\<close> filled from 16 on.\<close>

definition sha1_expand :: "32 word list \<Rightarrow> nat \<Rightarrow> 32 word list" where
  "sha1_expand ws index =
     ws @ [rotate_left (ws ! (index - 3) XOR ws ! (index - 8) XOR ws ! (index - 14) XOR ws ! (index - 16)) 1]"

definition sha1_schedule :: "string \<Rightarrow> 32 word list" where
  "sha1_schedule block = foldl sha1_expand (map (big_endian block) [0..<16]) [16..<80]"

record sha1_state =
  sha_a :: "32 word"
  sha_b :: "32 word"
  sha_c :: "32 word"
  sha_d :: "32 word"
  sha_e :: "32 word"

definition sha1_mix :: "nat \<Rightarrow> sha1_state \<Rightarrow> 32 word \<times> 32 word" where
  "sha1_mix index s =
     (if index < 20 then ((sha_b s AND sha_c s) OR (NOT (sha_b s) AND sha_d s), 0x5a827999)
      else if index < 40 then (sha_b s XOR sha_c s XOR sha_d s, 0x6ed9eba1)
      else if index < 60 then
        ((sha_b s AND sha_c s) OR (sha_b s AND sha_d s) OR (sha_c s AND sha_d s), 0x8f1bbcdc)
      else (sha_b s XOR sha_c s XOR sha_d s, 0xca62c1d6))"

definition sha1_round :: "32 word list \<Rightarrow> sha1_state \<Rightarrow> nat \<Rightarrow> sha1_state" where
  "sha1_round ws s index =
     (let (mixed, constant) = sha1_mix index s;
          next_word = rotate_left (sha_a s) 5 + mixed + sha_e s + constant + ws ! index
      in \<lparr>sha_a = next_word, sha_b = sha_a s, sha_c = rotate_left (sha_b s) 30, sha_d = sha_c s, sha_e = sha_d s\<rparr>)"

definition sha1_block :: "sha1_state \<Rightarrow> string \<Rightarrow> sha1_state" where
  "sha1_block state block =
     (let r = foldl (sha1_round (sha1_schedule block)) state [0..<80]
      in \<lparr>sha_a = sha_a state + sha_a r, sha_b = sha_b state + sha_b r, sha_c = sha_c state + sha_c r,
          sha_d = sha_d state + sha_d r, sha_e = sha_e state + sha_e r\<rparr>)"

function sha1_blocks :: "sha1_state \<Rightarrow> string \<Rightarrow> sha1_state" where
  "sha1_blocks state message =
     (if message = [] then state else sha1_blocks (sha1_block state (take 64 message)) (drop 64 message))"
  by pat_completeness auto
termination
  by (relation "measure (\<lambda>(_, message). length message)") (auto simp: neq_Nil_conv)

declare sha1_blocks.simps [simp del]

definition sha1_initial :: sha1_state where
  "sha1_initial = \<lparr>sha_a = 0x67452301, sha_b = 0xefcdab89, sha_c = 0x98badcfe, sha_d = 0x10325476,
     sha_e = 0xc3d2e1f0\<rparr>"

definition word_bytes :: "32 word \<Rightarrow> string" where
  "word_bytes w = map (\<lambda>index. word_char (drop_bit (index * 8) w)) (rev [0..<4])"

definition sha1 :: "string \<Rightarrow> string" where
  "sha1 bytes =
     (let s = sha1_blocks sha1_initial (sha1_message bytes)
      in concat (map word_bytes [sha_a s, sha_b s, sha_c s, sha_d s, sha_e s]))"

section \<open>base64\<close>

definition base64_alphabet :: string where
  "base64_alphabet = ''ABCDEFGHIJKLMNOPQRSTUVWXYZabcdefghijklmnopqrstuvwxyz0123456789+/''"

definition base64_digit :: "32 word \<Rightarrow> nat \<Rightarrow> char" where
  "base64_digit chunk shift = base64_alphabet ! unat (drop_bit shift chunk AND 0x3f)"

text \<open>Three bytes at a time, then the one or two that remain.\<close>

fun base64 :: "string \<Rightarrow> string" where
  "base64 (a # b # c # rest) =
     (let chunk = push_bit 16 (byte_word a) OR push_bit 8 (byte_word b) OR byte_word c
      in base64_digit chunk 18 # base64_digit chunk 12 # base64_digit chunk 6 # base64_digit chunk 0 #
         base64 rest)"
| "base64 [a, b] =
     (let chunk = push_bit 16 (byte_word a) OR push_bit 8 (byte_word b)
      in [base64_digit chunk 18, base64_digit chunk 12, base64_digit chunk 6, CHR ''=''])"
| "base64 [a] =
     (let chunk = push_bit 16 (byte_word a)
      in [base64_digit chunk 18, base64_digit chunk 12, CHR ''='', CHR ''=''])"
| "base64 [] = []"

definition accept_key :: "string \<Rightarrow> string" where
  "accept_key client_key = base64 (sha1 (client_key @ websocket_guid))"

definition is_upgrade :: "string \<Rightarrow> string \<Rightarrow> bool" where
  "is_upgrade connection upgrade \<longleftrightarrow>
     contains (to_lower_ascii connection) ''upgrade'' \<and> to_lower_ascii upgrade = ''websocket''"

section \<open>Frames\<close>

text \<open>An \<open>enum class\<close> over \<open>uint8_t\<close>: any 8-bit value can be one, and these are the named ones.\<close>

type_synonym opcode = "8 word"

definition opcode_continuation :: opcode where "opcode_continuation = 0x0"
definition opcode_text :: opcode where "opcode_text = 0x1"
definition opcode_binary :: opcode where "opcode_binary = 0x2"
definition opcode_close :: opcode where "opcode_close = 0x8"
definition opcode_ping :: opcode where "opcode_ping = 0x9"
definition opcode_pong :: opcode where "opcode_pong = 0xa"

datatype frame_state = Incomplete_Frame | Ready_Frame | Malformed_Frame

record frame =
  frame_state :: frame_state
  frame_opcode :: opcode
  frame_final :: bool
  frame_payload :: string
  frame_length :: nat

definition empty_frame :: frame where
  "empty_frame = \<lparr>frame_state = Incomplete_Frame, frame_opcode = opcode_text, frame_final = True,
     frame_payload = [], frame_length = 0\<rparr>"

text \<open>The length byte, without the mask bit, and the extended length after it.\<close>

definition encode_length :: "nat \<Rightarrow> 8 word \<times> string" where
  "encode_length len =
     (if len < 126 then (of_nat len, [])
      else if len \<le> 0xffff then
        (126, [word_char (drop_bit 8 (of_nat len :: 64 word)), word_char (of_nat len :: 64 word)])
      else (127, map (\<lambda>index. word_char (drop_bit (index * 8) (of_nat len :: 64 word))) (rev [0..<8])))"

definition encode_frame :: "opcode \<Rightarrow> string \<Rightarrow> string" where
  "encode_frame opcode payload =
     (let (size_byte, extended) = encode_length (length payload)
      in word_char (0x80 OR opcode) # word_char size_byte # extended @ payload)"

definition decode_length :: "string \<Rightarrow> (64 word \<times> nat) option" where
  "decode_length buffer =
     (let size_byte = (byte_word (buffer ! 1) :: 8 word) AND 0x7f in
      if size_byte = 126 then
        (if length buffer < 2 + 2 then None
         else Some (push_bit 8 (byte_word (buffer ! 2)) OR byte_word (buffer ! 3), 4))
      else if size_byte = 127 then
        (if length buffer < 2 + 8 then None
         else Some (foldl (\<lambda>len index. push_bit 8 len OR byte_word (buffer ! (2 + index))) 0 [0..<8], 10))
      else Some (ucast size_byte, 2))"

definition unmask :: "string \<Rightarrow> nat \<Rightarrow> nat \<Rightarrow> string" where
  "unmask buffer cursor len =
     map (\<lambda>index. word_char ((byte_word (buffer ! (cursor + 4 + index)) :: 8 word) XOR
       byte_word (buffer ! (cursor + index mod 4)))) [0..<len]"

definition decode_frame :: "string \<Rightarrow> frame" where
  "decode_frame buffer =
     (if length buffer < 2 then empty_frame
      else
        (let first = byte_word (buffer ! 0) :: 8 word;
             frame = empty_frame\<lparr>frame_final := first AND 0x80 \<noteq> 0, frame_opcode := first AND 0x0f\<rparr>;
             masked = (byte_word (buffer ! 1) :: 8 word) AND 0x80 \<noteq> 0
         in case decode_length buffer of
              None \<Rightarrow> frame
            | Some (len, cursor) \<Rightarrow>
                if \<not> masked then frame\<lparr>frame_state := Malformed_Frame\<rparr>
                else if length buffer < cursor + 4 then frame
                else if length buffer - (cursor + 4) < unat len then frame
                else frame\<lparr>frame_payload := unmask buffer cursor (unat len),
                           frame_state := Ready_Frame,
                           frame_length := cursor + 4 + unat len\<rparr>))"

end
