(* ===== verification/WebsocketProps.thy ===== *)
theory WebsocketProps
  imports Websocket
begin

text \<open>
  Facts about \<open>websocket.cpp\<close>: the padded message is whole blocks, base64 has an inverse, a
  client's masked frame is decoded to its payload whatever follows it in the buffer, and the
  decoder stays inside the buffer.
\<close>

unbundle bit_operations_syntax

section \<open>Bytes and words\<close>

lemma ff_mask: "(0xff :: 'a::len word) = mask 8"
  by (simp add: mask_eq_exp_minus_1)

lemma bit_mod_256: "bit (m mod 256) n \<longleftrightarrow> n < 8 \<and> bit (m :: nat) n"
  using bit_take_bit_iff [of 8 m n] by (simp add: take_bit_eq_mod)

lemma bit_byte: "bit (byte c) n \<longleftrightarrow> n < 8 \<and> bit (byte c) n"
  using bit_mod_256 [of "byte c" n] by simp

lemma bit_byte_word: "bit (byte_word c :: 'a::len word) n \<longleftrightarrow> n < LENGTH('a) \<and> n < 8 \<and> bit (byte c) n"
  using bit_byte [of c n] by (auto simp add: byte_word_def bit_simps)

lemma bit_word_char: "bit (byte (word_char (w :: 'a::len word))) n \<longleftrightarrow> n < 8 \<and> bit w n"
  by (auto simp: word_char_def bit_mod_256 ff_mask bit_simps bit_imp_le_length)

lemma byte_word_char8 [simp]: "byte_word (word_char (w :: 8 word)) = w"
  by (rule bit_word_eqI) (simp add: bit_byte_word bit_word_char)

lemma word_char_byte [simp]: "word_char (byte_word c :: 8 word) = c"
proof -
  have "byte (word_char (byte_word c :: 8 word)) = byte c"
    by (rule bit_eqI) (use bit_byte [of c] in \<open>auto simp: bit_word_char bit_byte_word\<close>)
  then show ?thesis by simp
qed

section \<open>The length of a frame\<close>

lemma join_byte:
  "push_bit 8 (drop_bit (8 * Suc k) w) OR byte_word (word_char (drop_bit (8 * k) w)) =
   drop_bit (8 * k) (w :: 64 word)"
  by (rule bit_word_eqI) (auto simp: bit_byte_word bit_word_char bit_simps bit_imp_le_length)

lemma join_two:
  assumes "n \<le> 0xffff"
  shows "push_bit 8 (byte_word (word_char (drop_bit 8 (of_nat n :: 64 word)))) OR
    byte_word (word_char (of_nat n :: 64 word)) = (of_nat n :: 64 word)"
proof -
  have "take_bit 16 n = n"
    using assms by (simp add: take_bit_nat_eq_self_iff)
  then have small: "bit n i \<Longrightarrow> i < 16" for i
    by (metis bit_take_bit_iff)
  show ?thesis
    by (rule bit_word_eqI) (auto simp: bit_byte_word bit_word_char bit_simps dest: small)
qed

lemma join_eight:
  "foldl (\<lambda>len index. push_bit 8 len OR
       byte_word (map (\<lambda>index. word_char (drop_bit (index * 8) w)) (rev [0..<8]) ! index)) 0 [0..<8] =
   (w :: 64 word)"
proof -
  have top: "(0 :: 64 word) = drop_bit (8 * Suc 7) w"
    by (rule bit_word_eqI) (auto simp: bit_simps dest: bit_imp_le_length)
  have upt: "[0..<8] = [0, 1, 2, 3, 4, 5, 6, 7::nat]"
    by (simp add: upt_rec)
  have "push_bit 8 (drop_bit (8 * Suc k) w) OR byte_word (word_char (drop_bit (k * 8) w)) =
      drop_bit (8 * k) w" for k
    using join_byte [of k w] by (simp add: mult.commute)
  note step = this [of 7] this [of 6] this [of 5] this [of 4] this [of 3] this [of 2] this [of 1] this [of 0]
  show ?thesis
    unfolding upt by (subst top) (use step in simp)
qed

text \<open>The byte with the mask bit, read back: 7 bits of length.\<close>

lemma length_byte:
  "\<forall>n \<in> set [0..<128]. ((0x80 OR of_nat n :: 8 word) AND 0x7f = of_nat n) \<and>
     (0x80 OR of_nat n :: 8 word) AND 0x80 \<noteq> 0 \<and> unat (of_nat n :: 8 word) = n \<and>
     (of_nat n = (126 :: 8 word) \<longleftrightarrow> n = 126) \<and> (of_nat n = (127 :: 8 word) \<longleftrightarrow> n = 127)"
  by code_simp

section \<open>A client's frame\<close>

text \<open>
  What a client sends: the header of \<open>encode_frame\<close> with the mask bit set, the four bytes of the
  mask, and the payload with the mask applied.
\<close>

definition mask_payload :: "string \<Rightarrow> string \<Rightarrow> string" where
  "mask_payload key payload =
     map (\<lambda>index. word_char ((byte_word (payload ! index) :: 8 word) XOR byte_word (key ! (index mod 4))))
       [0..<length payload]"

definition client_frame :: "bool \<Rightarrow> opcode \<Rightarrow> string \<Rightarrow> string \<Rightarrow> string" where
  "client_frame final opcode key payload =
     (let (len_byte, extended) = encode_length (length payload)
      in word_char ((if final then 0x80 else 0) OR opcode) # word_char (0x80 OR len_byte) #
         extended @ key @ mask_payload key payload)"

lemma decode_encoded_length:
  assumes "encode_length n = (len_byte, extended)" and "n < 2 ^ 64"
  shows "decode_length (first # word_char (0x80 OR len_byte) # extended @ rest) =
      Some (of_nat n, 2 + length extended) \<and> (0x80 OR len_byte) AND 0x80 \<noteq> 0"
proof -
  consider "n < 126" | "126 \<le> n" "n \<le> 0xffff" | "0xffff < n" by linarith
  then show ?thesis
  proof cases
    case 1
    then have "n \<in> set [0..<128]" by simp
    note byte = length_byte [rule_format, OF this]
    have "of_nat n \<noteq> (126 :: 8 word)" "of_nat n \<noteq> (127 :: 8 word)"
      using byte 1 by auto
    moreover have "(ucast (of_nat n :: 8 word) :: 64 word) = of_nat n"
      using byte by (metis of_nat_unat)
    ultimately show ?thesis
      using 1 byte assms(1) by (auto simp: encode_length_def decode_length_def)
  next
    case 2
    then show ?thesis
      using assms(1) join_two [OF 2(2)] by (auto simp: encode_length_def decode_length_def)
  next
    case 3
    let ?w = "of_nat n :: 64 word"
    define ext where "ext = map (\<lambda>index. word_char (drop_bit (index * 8) ?w)) (rev [0..<8])"
    have ext: "length ext = 8" by (simp add: ext_def)
    have "foldl (\<lambda>len index. push_bit 8 len OR byte_word ((ext @ rest) ! index)) 0 [0..<8] =
        foldl (\<lambda>len index. push_bit 8 len OR byte_word (ext ! index)) 0 [0..<8]"
      by (rule foldl_cong) (auto simp: nth_append ext)
    also have "\<dots> = ?w"
      using join_eight [of ?w] by (simp only: ext_def)
    finally have "foldl (\<lambda>len index. push_bit 8 len OR byte_word ((ext @ rest) ! index)) 0 [0..<8] = ?w" .
    moreover have "len_byte = 127" "extended = ext"
      using 3 assms(1) by (simp_all add: encode_length_def ext_def)
    ultimately show ?thesis
      using ext by (simp add: decode_length_def)
  qed
qed

lemma encode_length_at_least: "encode_length n = (len_byte, extended) \<Longrightarrow> length extended \<le> 8"
  by (auto simp: encode_length_def split: if_splits)

lemma unmask_payload:
  assumes "length key = 4"
  shows "unmask (front @ key @ mask_payload key payload @ rest) (length front) (length payload) = payload"
proof (rule nth_equalityI)
  fix i assume "i < length (unmask (front @ key @ mask_payload key payload @ rest) (length front) (length payload))"
  then have i: "i < length payload" by (simp add: unmask_def)
  have "(front @ key @ mask_payload key payload @ rest) ! (length front + 4 + i) = mask_payload key payload ! i"
    using assms i by (simp add: nth_append mask_payload_def)
  moreover have "(front @ key @ mask_payload key payload @ rest) ! (length front + i mod 4) = key ! (i mod 4)"
    using assms by (simp add: nth_append)
  ultimately show "unmask (front @ key @ mask_payload key payload @ rest) (length front) (length payload) ! i = payload ! i"
    using i by (simp add: unmask_def mask_payload_def xor.assoc)
qed (simp add: unmask_def)

lemma opcode_bits:
  "\<forall>n \<in> set [0..<16]. ((0x80 OR of_nat n :: 8 word) AND 0x0f = of_nat n) \<and> (0x80 OR of_nat n :: 8 word) AND 0x80 \<noteq> 0 \<and>
     ((of_nat n :: 8 word) AND 0x0f = of_nat n) \<and> (of_nat n :: 8 word) AND 0x80 = 0"
  by code_simp

lemma opcode_byte:
  assumes "opcode < (16 :: 8 word)"
  shows "((if final then 0x80 else 0) OR opcode) AND 0x0f = opcode"
    and "((if final then 0x80 else 0) OR opcode) AND 0x80 \<noteq> 0 \<longleftrightarrow> final"
proof -
  have "unat opcode \<in> set [0..<16]"
    using assms by (simp add: word_less_nat_alt)
  with opcode_bits have "((0x80 OR of_nat (unat opcode) :: 8 word) AND 0x0f = of_nat (unat opcode)) \<and>
      (0x80 OR of_nat (unat opcode) :: 8 word) AND 0x80 \<noteq> 0 \<and>
      ((of_nat (unat opcode) :: 8 word) AND 0x0f = of_nat (unat opcode)) \<and> (of_nat (unat opcode) :: 8 word) AND 0x80 = 0"
    by blast
  then show "((if final then 0x80 else 0) OR opcode) AND 0x0f = opcode"
    and "((if final then 0x80 else 0) OR opcode) AND 0x80 \<noteq> 0 \<longleftrightarrow> final"
    by simp_all
qed

text \<open>
  C36. A frame as a client sends it, of any length a 64-bit field can hold, is decoded as ready,
  with its opcode, its final bit and its payload unmasked, and with the number of bytes it took,
  whatever follows it in the buffer.
\<close>

theorem decode_client_frame:
  assumes "length key = 4" and "opcode < 16" and "length payload < 2 ^ 64"
  shows "decode_frame (client_frame final opcode key payload @ rest) =
    \<lparr>frame_state = Ready_Frame, frame_opcode = opcode, frame_final = final, frame_payload = payload,
     frame_length = length (client_frame final opcode key payload)\<rparr>"
proof -
  obtain len_byte extended where encoded: "encode_length (length payload) = (len_byte, extended)"
    by (cases "encode_length (length payload)")
  let ?first = "word_char ((if final then 0x80 else 0) OR opcode)"
  let ?front = "?first # word_char (0x80 OR len_byte) # extended"
  let ?buffer = "?front @ key @ mask_payload key payload @ rest"
  have frame: "client_frame final opcode key payload @ rest = ?buffer"
    "length (client_frame final opcode key payload) = length ?front + 4 + length payload"
    using encoded assms(1) by (simp_all add: client_frame_def mask_payload_def)
  have decoded: "decode_length ?buffer = Some (of_nat (length payload), length ?front)"
    and masked: "(0x80 OR len_byte) AND 0x80 \<noteq> 0"
    using decode_encoded_length [OF encoded assms(3), of ?first "key @ mask_payload key payload @ rest"]
    by simp_all
  have "unat (of_nat (length payload) :: 64 word) = length payload"
    using assms(3) by (simp add: unat_of_nat)
  then show ?thesis
    using decoded masked opcode_byte [OF assms(2), of final] assms(1)
      unmask_payload [OF assms(1), of ?front payload rest]
    unfolding frame decode_frame_def empty_frame_def
    by (simp add: mask_payload_def)
qed

theorem decode_client_frame_witness:
  "decode_frame (client_frame True opcode_text ''abcd'' ''hi'' @ ''next'') =
    \<lparr>frame_state = Ready_Frame, frame_opcode = opcode_text, frame_final = True, frame_payload = ''hi'',
     frame_length = 8\<rparr>"
  using decode_client_frame [of "''abcd''" opcode_text "''hi''" True "''next''"]
  by (simp add: opcode_text_def client_frame_def encode_length_def mask_payload_def)

section \<open>Reading a stream\<close>

lemma decode_length_append:
  assumes "2 \<le> length buffer" and "decode_length buffer = Some (len, cursor)"
  shows "decode_length (buffer @ more_bytes) = Some (len, cursor) \<and> 2 \<le> cursor \<and> cursor \<le> length buffer"
proof -
  have nth: "(buffer @ more_bytes) ! i = buffer ! i" if "i < length buffer" for i
    using that by (simp add: nth_append)
  have eight: "foldl (\<lambda>len index. push_bit 8 len OR byte_word ((buffer @ more_bytes) ! (2 + index))) (0 :: 64 word) [0..<8] =
      foldl (\<lambda>len index. push_bit 8 len OR byte_word (buffer ! (2 + index))) 0 [0..<8]" if "10 \<le> length buffer"
    by (rule foldl_cong) (use that nth in auto)
  show ?thesis
    using assms nth [of 1] nth [of 2] nth [of 3] eight
    by (auto simp: decode_length_def Let_def split: if_splits)
qed

lemma unmask_append:
  assumes "cursor + 4 + len \<le> length buffer"
  shows "unmask (buffer @ more_bytes) cursor len = unmask buffer cursor len"
proof -
  have "cursor + i mod 4 < length buffer" for i
    using assms mod_less_divisor [of 4 i] by linarith
  then show ?thesis
    using assms by (simp add: unmask_def nth_append)
qed

lemma decode_frame_cases:
  obtains (short) "frame_state (decode_frame buffer) = Incomplete_Frame"
  | (unmasked) len cursor where "2 \<le> length buffer" "decode_length buffer = Some (len, cursor)"
      "(byte_word (buffer ! 1) :: 8 word) AND 0x80 = 0" "frame_state (decode_frame buffer) = Malformed_Frame"
  | (ready) len cursor where "2 \<le> length buffer" "decode_length buffer = Some (len, cursor)"
      "(byte_word (buffer ! 1) :: 8 word) AND 0x80 \<noteq> 0" "cursor + 4 + unat len \<le> length buffer"
      "frame_state (decode_frame buffer) = Ready_Frame"
      "frame_length (decode_frame buffer) = cursor + 4 + unat len"
      "frame_payload (decode_frame buffer) = unmask buffer cursor (unat len)"
proof (cases "length buffer < 2 \<or> decode_length buffer = None")
  case True
  then show thesis
    by (intro short) (auto simp: decode_frame_def empty_frame_def Let_def)
next
  case False
  then obtain len cursor where decoded: "2 \<le> length buffer" "decode_length buffer = Some (len, cursor)"
    by auto
  show thesis
  proof (cases "(byte_word (buffer ! 1) :: 8 word) AND 0x80 = 0")
    case True
    then show thesis
      using decoded by (intro unmasked) (simp_all add: decode_frame_def Let_def)
  next
    case masked: False
    show thesis
    proof (cases "cursor + 4 + unat len \<le> length buffer")
      case True
      then have "\<not> length buffer - (cursor + 4) < unat len" "\<not> length buffer < cursor + 4"
        by linarith+
      then show thesis
        using True decoded masked by (intro ready) (simp_all add: decode_frame_def Let_def)
    next
      case False
      then show thesis
        using decoded masked by (intro short) (auto simp: decode_frame_def empty_frame_def Let_def)
    qed
  qed
qed

text \<open>
  C37. A frame reported as ready lies inside the buffer: its length, at least six bytes of header
  and mask more than its payload, is at most the buffer's, whatever the length field claims. And
  it was masked: a frame without the mask bit is never ready.
\<close>

theorem decode_frame_inside:
  assumes "frame_state (decode_frame buffer) = Ready_Frame"
  shows "frame_length (decode_frame buffer) \<le> length buffer \<and>
    length (frame_payload (decode_frame buffer)) + 6 \<le> frame_length (decode_frame buffer) \<and>
    (byte_word (buffer ! 1) :: 8 word) AND 0x80 \<noteq> 0"
proof (cases buffer rule: decode_frame_cases)
  case (ready len cursor)
  moreover have "2 \<le> cursor"
    using decode_length_append [OF ready(1,2)] by blast
  ultimately show ?thesis by (simp add: unmask_def)
qed (use assms in simp_all)

theorem decode_frame_inside_witness:
  "frame_length (decode_frame (map char_of [0x81, 0x81, 1, 2, 3, 4, 0x69, 7 :: nat])) \<le> 8 \<and>
   length (frame_payload (decode_frame (map char_of [0x81, 0x81, 1, 2, 3, 4, 0x69, 7 :: nat]))) + 6 \<le>
     frame_length (decode_frame (map char_of [0x81, 0x81, 1, 2, 3, 4, 0x69, 7 :: nat]))"
proof -
  let ?buffer = "map char_of [0x81, 0x81, 1, 2, 3, 4, 0x69, 7 :: nat]"
  have "frame_state (decode_frame ?buffer) = Ready_Frame"
    by code_simp
  from decode_frame_inside [OF this] show ?thesis by simp
qed

text \<open>
  Once a frame is ready or refused, bytes that arrive after it do not change what was
  decoded, so the server may decode the front of whatever it has received.
\<close>

theorem decode_frame_stable:
  assumes "frame_state (decode_frame buffer) \<noteq> Incomplete_Frame"
  shows "decode_frame (buffer @ more_bytes) = decode_frame buffer"
proof -
  have nth: "(buffer @ more_bytes) ! 0 = buffer ! 0" "(buffer @ more_bytes) ! 1 = buffer ! 1"
    if "2 \<le> length buffer"
    using that by (auto simp: nth_append)
  show ?thesis
  proof (cases buffer rule: decode_frame_cases)
    case short
    with assms show ?thesis by simp
  next
    case (unmasked len cursor)
    have "decode_length (buffer @ more_bytes) = Some (len, cursor)"
      using decode_length_append [OF unmasked(1,2)] by blast
    then show ?thesis
      using nth [OF unmasked(1)] unmasked(1,2,3) by (simp add: decode_frame_def Let_def)
  next
    case (ready len cursor)
    have "decode_length (buffer @ more_bytes) = Some (len, cursor)"
      using decode_length_append [OF ready(1,2)] by blast
    then show ?thesis
      using nth [OF ready(1)] ready(1-4) unmask_append [OF ready(4)] by (simp add: decode_frame_def Let_def)
  qed
qed

theorem decode_frame_stable_witness:
  "decode_frame (map char_of [0x81, 0x01, 0x41 :: nat] @ ''later'') = decode_frame (map char_of [0x81, 0x01, 0x41 :: nat])"
proof -
  have "frame_state (decode_frame (map char_of [0x81, 0x01, 0x41 :: nat])) \<noteq> Incomplete_Frame"
    by code_simp
  then show ?thesis by (rule decode_frame_stable)
qed

section \<open>base64\<close>

text \<open>The decoder: the 24 bits of four digits, and the bytes that are in them.\<close>

definition sextet :: "char \<Rightarrow> nat" where
  "sextet c = (case find_pos (\<lambda>d. d = c) base64_alphabet of Some i \<Rightarrow> i | None \<Rightarrow> 0)"

definition group_value :: "char \<Rightarrow> char \<Rightarrow> char \<Rightarrow> char \<Rightarrow> nat" where
  "group_value p q r s = ((sextet p * 64 + sextet q) * 64 + sextet r) * 64 + sextet s"

fun unbase64 :: "string \<Rightarrow> string" where
  "unbase64 (p # q # r # s # rest) =
     (let v = group_value p q r s;
          bytes = [char_of (v div 65536), char_of (v div 256), char_of v]
      in if r = CHR ''='' then take 1 bytes
         else if s = CHR ''='' then take 2 bytes
         else bytes @ unbase64 rest)"
| "unbase64 _ = []"

lemma sextet_alphabet:
  "\<forall>k \<in> set [0..<64]. sextet (base64_alphabet ! k) = k \<and> base64_alphabet ! k \<noteq> CHR ''=''"
  by code_simp

lemma sextet_pad: "sextet (CHR ''='') = 0"
  by code_simp

lemma base64_digit_nat:
  "base64_digit chunk shift = base64_alphabet ! (unat chunk div 2 ^ shift mod 64)"
proof -
  have mask: "(0x3f :: 32 word) = mask 6" by (simp add: mask_eq_exp_minus_1)
  have "unat (drop_bit shift chunk AND 0x3f) = take_bit 6 (drop_bit shift (unat chunk))"
    unfolding mask by (rule bit_eqI) (auto simp: bit_simps dest: bit_imp_le_length)
  then show ?thesis
    by (simp add: base64_digit_def take_bit_eq_mod drop_bit_eq_div)
qed

lemma chunk_value:
  "unat (push_bit 16 (byte_word a) OR push_bit 8 (byte_word b) OR byte_word c :: 32 word) =
   byte a * 65536 + byte b * 256 + byte c"
proof -
  have "unat (push_bit 16 (byte_word a) OR push_bit 8 (byte_word b) OR byte_word c :: 32 word) =
      (push_bit 16 (byte a) OR push_bit 8 (byte b) OR byte c)"
    by (rule bit_eqI) (auto simp: bit_simps bit_byte_word dest: bit_byte [THEN iffD1])
  also have "\<dots> = push_bit 16 (byte a) + (push_bit 8 (byte b) + byte c)"
  proof -
    have "push_bit 8 (byte b) + byte c = push_bit 8 (byte b) OR byte c"
      by (rule disjunctive_add) (auto simp: bit_simps dest: bit_byte [THEN iffD1])
    moreover have "push_bit 16 (byte a) + (push_bit 8 (byte b) OR byte c) =
        push_bit 16 (byte a) OR (push_bit 8 (byte b) OR byte c)"
      by (rule disjunctive_add) (auto simp: bit_simps dest: bit_byte [THEN iffD1])
    ultimately show ?thesis by (simp add: or.assoc)
  qed
  finally show ?thesis by (simp add: push_bit_eq_mult)
qed

lemma four_sextets:
  fixes n :: nat
  assumes "n < 16777216"
  shows "((n div 262144 mod 64 * 64 + n div 4096 mod 64) * 64 + n div 64 mod 64) * 64 + n mod 64 = n"
proof -
  have "n div 262144 mod 64 = n div 4096 div 64" "n div 4096 = n div 64 div 64"
    using assms by (simp_all add: div_mult2_eq [symmetric])
  then show ?thesis by (simp only: div_mult_mod_eq)
qed

lemma encoded_group:
  assumes "n < 16777216"
  shows "group_value (base64_alphabet ! (n div 262144 mod 64)) (base64_alphabet ! (n div 4096 mod 64))
    (base64_alphabet ! (n div 64 mod 64)) (base64_alphabet ! (n mod 64)) = n"
proof -
  have "sextet (base64_alphabet ! (k mod 64)) = k mod 64" for k
    using sextet_alphabet by simp
  then show ?thesis
    unfolding group_value_def using four_sextets [OF assms] by (simp only:)
qed

lemma bytes_of_group:
  fixes n :: nat
  assumes "n = byte a * 65536 + byte b * 256 + byte c"
  shows "n < 16777216" "char_of (n div 65536) = a" "char_of (n div 256) = b" "char_of n = c"
proof -
  have less: "byte a < 256" "byte b < 256" "byte c < 256" by simp_all
  then show "n < 16777216" using assms by linarith
  have low: "(l + h * 256) div 256 = h" "(l + h * 256) mod 256 = l" if "l < 256" for l h :: nat
    using that by simp_all
  have n: "n = byte c + (byte a * 256 + byte b) * 256"
    using assms by simp
  have "n div 256 = byte a * 256 + byte b" "n mod 256 = byte c"
    unfolding n by (simp_all only: low [OF less(3)])
  moreover have "(byte b + byte a * 256) div 256 = byte a"
    by (simp only: low [OF less(2)])
  moreover have "n div 65536 = n div 256 div 256"
    by (simp add: div_mult2_eq [symmetric])
  ultimately have "n div 256 = byte a * 256 + byte b" "n div 65536 = byte a" "n mod 256 = byte c"
    by (simp_all add: add.commute)
  moreover have "char_of (byte a * 256 + byte b) = b"
    by (rule byte_inj [THEN iffD1]) simp
  moreover have "char_of n = char_of (n mod 256)"
    by simp
  ultimately show "char_of (n div 65536) = a" "char_of (n div 256) = b" "char_of n = c"
    by simp_all
qed

lemma base64_inverse: "unbase64 (base64 bytes) = bytes \<and> length (base64 bytes) = (length bytes + 2) div 3 * 4"
proof (induction bytes rule: base64.induct)
  case (1 a b c rest)
  define n where "n = byte a * 65536 + byte b * 256 + byte c"
  note n = bytes_of_group [OF n_def]
  have encoded: "base64 (a # b # c # rest) = base64_alphabet ! (n div 262144 mod 64) #
      base64_alphabet ! (n div 4096 mod 64) # base64_alphabet ! (n div 64 mod 64) #
      base64_alphabet ! (n mod 64) # base64 rest"
    by (simp add: Let_def base64_digit_nat chunk_value n_def)
  have "base64_alphabet ! (k mod 64) \<noteq> CHR ''=''" for k
    using sextet_alphabet by simp
  moreover have "(5 + k) div 3 = Suc ((2 + k) div 3)" for k :: nat
    by simp
  ultimately show ?case
    using 1 n encoded_group [OF n(1)] unfolding encoded by (simp add: Let_def)
next
  case (2 a b)
  define n where "n = byte a * 65536 + byte b * 256 + byte CHR 0x00"
  note n = bytes_of_group [OF n_def]
  have chunk: "unat (push_bit 16 (byte_word a) OR push_bit 8 (byte_word b) :: 32 word) = n"
    using chunk_value [of a b "CHR 0x00"] by (simp add: n_def byte_word_def)
  have encoded: "base64 [a, b] = [base64_alphabet ! (n div 262144 mod 64), base64_alphabet ! (n div 4096 mod 64),
      base64_alphabet ! (n div 64 mod 64), CHR ''='']"
    by (simp add: Let_def base64_digit_nat chunk)
  have "n mod 64 = 0" by (simp add: n_def)
  then have "group_value p q r (CHR ''='') = group_value p q r (base64_alphabet ! (n mod 64))" for p q r
    using sextet_alphabet sextet_pad by (simp add: group_value_def)
  moreover have "base64_alphabet ! (n div 64 mod 64) \<noteq> CHR ''=''"
    using sextet_alphabet by simp
  ultimately show ?case
    using n encoded_group [OF n(1)] unfolding encoded
    by (simp add: numeral_2_eq_2)
next
  case (3 a)
  define n where "n = byte a * 65536 + byte CHR 0x00 * 256 + byte CHR 0x00"
  note n = bytes_of_group [OF n_def]
  have chunk: "unat (push_bit 16 (byte_word a) :: 32 word) = n"
    using chunk_value [of a "CHR 0x00" "CHR 0x00"] by (simp add: n_def byte_word_def)
  have encoded: "base64 [a] = [base64_alphabet ! (n div 262144 mod 64), base64_alphabet ! (n div 4096 mod 64),
      CHR ''='', CHR ''='']"
    by (simp add: Let_def base64_digit_nat chunk)
  have "n mod 64 = 0" "n div 64 mod 64 = 0" by (simp_all add: n_def)
  then have "group_value p q (CHR ''='') (CHR ''='') =
      group_value p q (base64_alphabet ! (n div 64 mod 64)) (base64_alphabet ! (n mod 64))" for p q
    using sextet_alphabet sextet_pad by (simp add: group_value_def)
  then show ?case
    using n encoded_group [OF n(1)] unfolding encoded by simp
qed simp

lemma base64_length: "length (base64 bytes) = (length bytes + 2) div 3 * 4"
  using base64_inverse by blast

text \<open>
  Base64 loses nothing: decoding the four-character groups gives the bytes back, and the
  output has four characters for each three bytes begun.
\<close>

theorem base64_decodes:
  "unbase64 (base64 bytes) = bytes \<and> length (base64 bytes) = (length bytes + 2) div 3 * 4"
  by (rule base64_inverse)

section \<open>The handshake\<close>

lemma pad_message_mod: "length (pad_message message) mod 64 = 56"
proof (induction message rule: pad_message.induct)
  case (1 message)
  then show ?case
    by (cases "length message mod 64 = 56") (simp_all add: pad_message.simps [of message])
qed

lemma pad_message_zeroes:
  "\<exists>k. pad_message message = message @ replicate k (CHR 0x00) \<and> k \<le> (120 - length message mod 64) mod 64"
proof (induction message rule: pad_message.induct)
  case (1 message)
  show ?case
  proof (cases "length message mod 64 = 56")
    case True
    then show ?thesis by (simp add: pad_message.simps [of message])
  next
    case False
    from 1 [OF False] obtain k where k: "pad_message (message @ [CHR 0x00]) = (message @ [CHR 0x00]) @ replicate k (CHR 0x00)"
      "k \<le> (120 - Suc (length message) mod 64) mod 64"
      by auto
    then have "pad_message message = message @ replicate (Suc k) (CHR 0x00)"
      using False by (simp add: pad_message.simps [of message])
    moreover have "Suc k \<le> (120 - length message mod 64) mod 64"
      using k(2) pad_distance_less [OF False] by linarith
    ultimately show ?thesis by blast
  qed
qed

text \<open>
  What is hashed is the message, a 0x80 byte, fewer than 64 zeroes and the length in eight
  bytes, together whole blocks of 64 bytes; the digest has 20 bytes and the handshake's key 28
  characters.
\<close>

theorem sha1_shape:
  "(\<exists>k < 64. sha1_message bytes = bytes @ [char_of (0x80 :: nat)] @ replicate k (CHR 0x00) @
      bit_length_bytes (of_nat (length bytes) * 8)) \<and>
   length (sha1_message bytes) mod 64 = 0 \<and> length (sha1 bytes) = 20 \<and>
   length (accept_key client_key) = 28"
proof -
  obtain k where k: "pad_message (bytes @ [char_of (0x80 :: nat)]) =
      (bytes @ [char_of (0x80 :: nat)]) @ replicate k (CHR 0x00)"
    "k \<le> (120 - length (bytes @ [char_of (0x80 :: nat)]) mod 64) mod 64"
    using pad_message_zeroes by blast
  have "(120 - length (bytes @ [char_of (0x80 :: nat)]) mod 64) mod 64 < 64"
    by simp
  with k(2) have "k < 64" by linarith
  moreover have "length (sha1_message bytes) mod 64 = (56 + 8) mod 64"
    using pad_message_mod [of "bytes @ [char_of (0x80 :: nat)]"]
    unfolding sha1_message_def length_append by (subst mod_add_left_eq [symmetric]) (simp add: bit_length_bytes_def)
  moreover have digest: "length (sha1 b) = 20" for b
    by (simp add: sha1_def Let_def word_bytes_def)
  moreover have "length (accept_key client_key) = 28"
    using base64_length [of "sha1 (client_key @ websocket_guid)"] by (simp add: accept_key_def digest)
  ultimately show ?thesis
    using k(1) by (auto simp: sha1_message_def)
qed

end
