(* ===== verification/Http.thy ===== *)
theory Http
  imports TextOps Floats
begin

text \<open>
  The preview server's HTTP (\<open>http.cpp\<close>): requests parsed from the front of a buffer, responses
  as bytes, content types, and the file a request path names. A \<open>std::map\<close> of headers is an
  association list; \<open>emplace\<close> keeps the entry that is there. The file system is a parameter of
  \<open>resolve_file\<close>: which paths are regular files, and the canonical form of a path as the list of
  its components, when it has one.
\<close>

section \<open>Requests\<close>

definition crlf :: string where "crlf = [CHR 0x0D, CHR 0x0A]"

definition maximum_request_size :: nat where "maximum_request_size = 64 * 1024"

record request =
  rq_method :: string
  rq_target :: string
  rq_path :: string
  rq_version :: string
  rq_headers :: "(string \<times> string) list"
  rq_length :: nat

definition empty_request :: request where
  "empty_request = \<lparr>rq_method = [], rq_target = [], rq_path = [], rq_version = [], rq_headers = [], rq_length = 0\<rparr>"

datatype request_state = Request_Incomplete | Request_Ready | Request_Malformed

type_synonym parsed_request = "request_state \<times> request"

definition emplace :: "'k \<Rightarrow> 'v \<Rightarrow> ('k \<times> 'v) list \<Rightarrow> ('k \<times> 'v) list" where
  "emplace k v entries = (if map_of entries k = None then entries @ [(k, v)] else entries)"

definition request_header :: "request \<Rightarrow> string \<Rightarrow> string" where
  "request_header request name =
     (case map_of (rq_headers request) (to_lower_ascii name) of None \<Rightarrow> [] | Some v \<Rightarrow> v)"

definition wants_keep_alive :: "request \<Rightarrow> bool" where
  "wants_keep_alive request =
     (let connection = to_lower_ascii (request_header request ''connection'') in
      if contains connection ''close'' then False
      else if contains connection ''keep-alive'' then True
      else rq_version request = ''HTTP/1.1'')"

text \<open>The loop over the header lines: \<open>None\<close> where a line has no colon.\<close>

fun read_headers :: "(string \<times> string) list \<Rightarrow> string list \<Rightarrow> (string \<times> string) list option" where
  "read_headers headers [] = Some headers"
| "read_headers headers (header # rest) =
     (let stripped = trim header in
      if stripped = [] then read_headers headers rest
      else (case find_pos (\<lambda>c. c = CHR '':'') stripped of
              None \<Rightarrow> None
            | Some colon \<Rightarrow>
                read_headers (emplace (to_lower_ascii (take colon stripped)) (trim (drop (colon + 1) stripped)) headers)
                  rest))"

definition malformed :: parsed_request where
  "malformed = (Request_Malformed, empty_request)"

text \<open>\<open>line\<close> split at its first two spaces.\<close>

definition split_request_line :: "string \<Rightarrow> (string \<times> string \<times> string) option" where
  "split_request_line line =
     (case find_pos (\<lambda>c. c = CHR '' '') line of
        None \<Rightarrow> None
      | Some first \<Rightarrow>
          (case find_pos (\<lambda>c. c = CHR '' '') (drop (first + 1) line) of
             None \<Rightarrow> None
           | Some second \<Rightarrow>
               Some (take first line, take second (drop (first + 1) line), drop (first + 1 + second + 1) line)))"

definition target_path :: "string \<Rightarrow> string" where
  "target_path target = (case find_pos (\<lambda>c. c = CHR ''?'') target of None \<Rightarrow> target | Some query \<Rightarrow> take query target)"

definition parse_request :: "string \<Rightarrow> parsed_request" where
  "parse_request buffer =
     (case find_sub (crlf @ crlf) buffer of
        None \<Rightarrow>
          (if maximum_request_size < length buffer then Request_Malformed else Request_Incomplete, empty_request)
      | Some end_of_headers \<Rightarrow>
          (let head = take end_of_headers buffer;
               end_of_line = find_sub crlf head;
               line = (case end_of_line of None \<Rightarrow> head | Some i \<Rightarrow> take i head)
           in case split_request_line line of
                None \<Rightarrow> malformed
              | Some (method, target, version) \<Rightarrow>
                  if method = [] \<or> target = [] then malformed
                  else
                    (case (case end_of_line of
                             None \<Rightarrow> Some []
                           | Some i \<Rightarrow> read_headers [] (split_at (drop (i + 2) head) (CHR 0x0A))) of
                       None \<Rightarrow> malformed
                     | Some headers \<Rightarrow>
                         (Request_Ready,
                          \<lparr>rq_method = method, rq_target = target, rq_path = target_path target,
                           rq_version = trim version, rq_headers = headers, rq_length = end_of_headers + 4\<rparr>))))"

section \<open>Responses\<close>

record response =
  rs_status :: int
  rs_content_type :: string
  rs_body :: string
  rs_keep_alive :: bool
  rs_headers :: "(string \<times> string) list"

definition default_response :: response where
  "default_response = \<lparr>rs_status = 200, rs_content_type = ''text/plain'', rs_body = [], rs_keep_alive = True, rs_headers = []\<rparr>"

definition reason_for :: "int \<Rightarrow> string" where
  "reason_for status =
     (if status = 200 then ''OK''
      else if status = 400 then ''Bad Request''
      else if status = 404 then ''Not Found''
      else if status = 405 then ''Method Not Allowed''
      else if status = 101 then ''Switching Protocols''
      else ''OK'')"

definition status_line :: "int \<Rightarrow> string" where
  "status_line status = ''HTTP/1.1 '' @ format_int status @ '' '' @ reason_for status @ crlf"

definition header_line :: "string \<times> string \<Rightarrow> string" where
  "header_line h = fst h @ '': '' @ snd h @ crlf"

definition serialize :: "response \<Rightarrow> string" where
  "serialize response =
     status_line (rs_status response) @
     (if rs_status response \<noteq> 101 then
        header_line (''Content-Type'', rs_content_type response) @
        header_line (''Content-Length'', format_nat (length (rs_body response))) @
        header_line (''Cache-Control'', ''no-store'') @
        header_line (''Connection'', if rs_keep_alive response then ''keep-alive'' else ''close'')
      else []) @
     concat (map header_line (rs_headers response)) @ crlf @
     (if rs_status response \<noteq> 101 then rs_body response else [])"

section \<open>Files\<close>

text \<open>\<open>std::filesystem::path\<close>: the last component's extension, with its dot.\<close>

definition path_filename :: "string \<Rightarrow> string" where
  "path_filename file = last (split_at file (CHR ''/''))"

definition path_extension :: "string \<Rightarrow> string" where
  "path_extension file =
     (let name = path_filename file in
      if name = ''.'' \<or> name = ''..'' then []
      else (case find_last_pos (\<lambda>c. c = CHR ''.'') name of
              None \<Rightarrow> []
            | Some dot \<Rightarrow> if dot = 0 then [] else drop dot name))"

definition content_types :: "(string \<times> string) list" where
  "content_types =
     [(''html'', ''text/html; charset=utf-8''), (''css'', ''text/css''), (''js'', ''application/javascript''),
      (''json'', ''application/json''), (''xml'', ''application/xml''), (''svg'', ''image/svg+xml''),
      (''png'', ''image/png''), (''jpg'', ''image/jpeg''), (''jpeg'', ''image/jpeg''), (''gif'', ''image/gif''),
      (''webp'', ''image/webp''), (''ico'', ''image/x-icon''), (''txt'', ''text/plain'')]"

definition content_type_for :: "string \<Rightarrow> string" where
  "content_type_for file =
     (let extension = to_lower_ascii (path_extension file) in
      if extension = [] then ''application/octet-stream''
      else (case map_of content_types (drop 1 extension) of
              None \<Rightarrow> ''application/octet-stream''
            | Some t \<Rightarrow> t))"

text \<open>\<open>root / relative\<close>: an absolute right-hand side replaces the left.\<close>

definition path_append :: "string \<Rightarrow> string \<Rightarrow> string" where
  "path_append root relative =
     (if starts_with relative ''/'' then relative
      else if root = [] \<or> ends_with root ''/'' then root @ relative
      else root @ ''/'' @ relative)"

text \<open>\<open>lexically_relative\<close> on canonical absolute paths, as lists of components.\<close>

fun lexically_relative :: "string list \<Rightarrow> string list \<Rightarrow> string list" where
  "lexically_relative [] [] = [''.'']"
| "lexically_relative path [] = path"
| "lexically_relative [] base = map (\<lambda>_. ''..'') base"
| "lexically_relative (p # path) (b # base) =
     (if p = b then lexically_relative path base
      else map (\<lambda>_. ''..'') (b # base) @ p # path)"

text \<open>The lambda \<open>within\<close>: what a failed \<open>weakly_canonical\<close> leaves has no relation to the root.\<close>

definition within_root ::
  "(string \<Rightarrow> bool) \<Rightarrow> (string \<Rightarrow> string list option) \<Rightarrow> string \<Rightarrow> string \<Rightarrow> string list option" where
  "within_root regular canonical root candidate =
     (if \<not> regular candidate then None
      else (case canonical root of
              None \<Rightarrow> None
            | Some base \<Rightarrow>
                (case canonical candidate of
                   None \<Rightarrow> None
                 | Some resolved \<Rightarrow>
                     (let relation = lexically_relative resolved base in
                      if relation = [] \<or> hd relation = ''..'' then None else Some resolved))))"

definition relative_file :: "string \<Rightarrow> string" where
  "relative_file url_path =
     (let relative = target_path url_path;
          stripped = (if starts_with relative ''/'' then tl relative else relative)
      in if stripped = [] \<or> ends_with stripped ''/'' then stripped @ ''index.html'' else stripped)"

definition resolve_file ::
  "(string \<Rightarrow> bool) \<Rightarrow> (string \<Rightarrow> string list option) \<Rightarrow> string \<Rightarrow> string \<Rightarrow> string list option" where
  "resolve_file regular canonical url_path root =
     (let relative = relative_file url_path; within = within_root regular canonical root in
      case within (path_append root relative) of
        Some direct \<Rightarrow> Some direct
      | None \<Rightarrow>
          if contains relative ''.'' then None
          else (case within (path_append root (relative @ ''.html'')) of
                  Some page \<Rightarrow> Some page
                | None \<Rightarrow> within (path_append (path_append root relative) ''index.html'')))"

end
