(* ===== verification/HttpProps.thy ===== *)
theory HttpProps
  imports Http
begin

text \<open>
  Facts about \<open>http.cpp\<close>: what is parsed from the front of a buffer does not depend on what comes
  after it, a request written the usual way is read back, and no path names a file outside the
  directory that is served.
\<close>

section \<open>The front of a buffer\<close>

lemma parse_request_None:
  "find_sub (crlf @ crlf) buffer = None \<Longrightarrow> fst (parse_request buffer) =
     (if maximum_request_size < length buffer then Request_Malformed else Request_Incomplete)"
  by (simp add: parse_request_def)

lemma parse_request_append:
  assumes "find_sub (crlf @ crlf) buffer = Some i"
  shows "parse_request (buffer @ more_bytes) = parse_request buffer"
proof -
  have "i \<le> length buffer"
    using find_sub_Some [OF assms] by simp
  then show ?thesis
    using assms find_sub_append [OF assms, of more_bytes] by (simp add: parse_request_def)
qed

lemma parse_request_Ready:
  assumes "parse_request buffer = (Request_Ready, request)"
  obtains i where "find_sub (crlf @ crlf) buffer = Some i" "rq_length request = i + 4"
    "rq_length request \<le> length buffer" "rq_method request \<noteq> []" "rq_target request \<noteq> []"
proof (cases "find_sub (crlf @ crlf) buffer")
  case None
  then show thesis using assms by (simp add: parse_request_def split: if_splits)
next
  case (Some i)
  then have "i + 4 \<le> length buffer"
    using find_sub_Some [OF Some] by (simp add: crlf_def)
  with Some assms that show thesis
    by (auto simp: parse_request_def malformed_def Let_def split: option.splits if_splits prod.splits)
qed

section \<open>Header names\<close>

lemma lower_char_idem [simp]: "lower_char (lower_char c) = lower_char c"
  by (auto simp: lower_char_def between_def byte_char_of)

lemma to_lower_idem [simp]: "to_lower_ascii (to_lower_ascii s) = to_lower_ascii s"
  by (simp add: to_lower_ascii_def)

lemma read_headers_lower:
  "read_headers headers rest = Some headers' \<Longrightarrow> \<forall>h \<in> set headers. to_lower_ascii (fst h) = fst h \<Longrightarrow>
   distinct (map fst headers) \<Longrightarrow>
   (\<forall>h \<in> set headers'. to_lower_ascii (fst h) = fst h) \<and> distinct (map fst headers')"
proof (induction headers rest rule: read_headers.induct)
  case (2 headers header rest)
  show ?case
  proof (cases "trim header = []")
    case False
    then obtain colon where colon: "find_pos (\<lambda>c. c = CHR '':'') (trim header) = Some colon"
      using 2(3) by (auto simp: Let_def split: option.splits)
    let ?k = "to_lower_ascii (take colon (trim header))"
    let ?new = "emplace ?k (trim (drop (colon + 1) (trim header))) headers"
    have "(\<forall>h \<in> set ?new. to_lower_ascii (fst h) = fst h) \<and> distinct (map fst ?new)"
      using 2(4,5) by (auto simp: emplace_def map_of_eq_None_iff)
    then show ?thesis
      using 2(2) [OF refl False colon] 2(3) False colon by (simp add: Let_def)
  qed (use 2 in simp)
qed simp

text \<open>
  When a request is ready it lies in the front of the buffer: bytes that follow do not change
  it, its length is at most the buffer's and ends just after the empty line, its method and target
  are not empty, and its header names are in lower case and occur once.
\<close>

theorem parse_request_front:
  assumes "parse_request buffer = (Request_Ready, request)"
  shows "parse_request (buffer @ more_bytes) = (Request_Ready, request) \<and>
    rq_length request \<le> length buffer \<and> ends_with (take (rq_length request) buffer) (crlf @ crlf) \<and>
    rq_method request \<noteq> [] \<and> rq_target request \<noteq> [] \<and>
    (\<forall>h \<in> set (rq_headers request). to_lower_ascii (fst h) = fst h) \<and> distinct (map fst (rq_headers request))"
proof -
  obtain i where i: "find_sub (crlf @ crlf) buffer = Some i" "rq_length request = i + 4"
    "rq_length request \<le> length buffer" "rq_method request \<noteq> []" "rq_target request \<noteq> []"
    by (rule parse_request_Ready [OF assms])
  have "starts_with (drop i buffer) (crlf @ crlf)"
    using find_sub_Some [OF i(1)] by blast
  then have "take 4 (drop i buffer) = crlf @ crlf"
    by (simp add: starts_with_take crlf_def eval_nat_numeral)
  then have "take (i + 4) buffer = take i buffer @ crlf @ crlf"
    by (simp add: take_add)
  then have "ends_with (take (rq_length request) buffer) (crlf @ crlf)"
    by (simp add: ends_with_def i(2) starts_with_iff del: take_append)
  moreover have "rq_headers request = [] \<or> (\<exists>rest. read_headers [] rest = Some (rq_headers request))"
    using assms i(1)
    by (auto simp: parse_request_def malformed_def Let_def split: option.splits if_splits prod.splits)
  then have "(\<forall>h \<in> set (rq_headers request). to_lower_ascii (fst h) = fst h) \<and> distinct (map fst (rq_headers request))"
    using read_headers_lower by fastforce
  ultimately show ?thesis
    using i parse_request_append [OF i(1), of more_bytes] assms by simp
qed

theorem parse_request_front_witness:
  "parse_request (''GET / HTTP/1.1'' @ crlf @ ''Host: x'' @ crlf @ crlf @ ''GET /next'') =
   (Request_Ready, \<lparr>rq_method = ''GET'', rq_target = ''/'', rq_path = ''/'', rq_version = ''HTTP/1.1'',
      rq_headers = [(''host'', ''x'')], rq_length = 27\<rparr>)"
proof -
  have "parse_request (''GET / HTTP/1.1'' @ crlf @ ''Host: x'' @ crlf @ crlf) =
     (Request_Ready, \<lparr>rq_method = ''GET'', rq_target = ''/'', rq_path = ''/'', rq_version = ''HTTP/1.1'',
        rq_headers = [(''host'', ''x'')], rq_length = 27\<rparr>)"
    by code_simp
  from parse_request_front [OF this, of "''GET /next''"] show ?thesis
    by simp
qed

section \<open>Requests as a client writes them\<close>

definition write_request :: "string \<Rightarrow> string \<Rightarrow> string \<Rightarrow> (string \<times> string) list \<Rightarrow> string" where
  "write_request method target version headers =
     method @ '' '' @ target @ '' '' @ version @ crlf @ concat (map header_line headers) @ crlf"

definition plain :: "string \<Rightarrow> bool" where
  "plain s \<longleftrightarrow> CHR 0x0D \<notin> set s \<and> CHR 0x0A \<notin> set s"

definition header_ok :: "string \<times> string \<Rightarrow> bool" where
  "header_ok h \<longleftrightarrow> plain (fst h) \<and> plain (snd h) \<and> fst h \<noteq> [] \<and> \<not> is_space (hd (fst h)) \<and>
     CHR '':'' \<notin> set (fst h) \<and> trim (snd h) = snd h"

definition header_text :: "string \<times> string \<Rightarrow> string" where
  "header_text h = fst h @ '': '' @ snd h"

lemma header_line_text: "header_line h = header_text h @ crlf"
  by (simp add: header_line_def header_text_def)

lemma header_text_ok: "header_ok h \<Longrightarrow> plain (header_text h) \<and> header_text h \<noteq> []"
  by (auto simp: header_ok_def header_text_def plain_def)

lemma find_sub_plain:
  "plain l \<Longrightarrow> needle = CHR 0x0D # ns \<Longrightarrow>
   find_sub needle (l @ xs) = map_option ((+) (length l)) (find_sub needle xs)"
proof (induction l)
  case Nil
  then show ?case by (cases "find_sub needle xs") auto
next
  case (Cons c l)
  then have "c \<noteq> CHR 0x0D" "plain l" by (auto simp: plain_def)
  with Cons show ?case
    by (cases "find_sub needle xs") auto
qed

lemma find_empty_line:
  "\<forall>l \<in> set lines. plain l \<and> l \<noteq> [] \<Longrightarrow> plain first \<Longrightarrow>
   find_sub (crlf @ crlf) (first @ concat (map (\<lambda>l. crlf @ l) lines) @ crlf @ crlf @ rest) =
     Some (length first + length (concat (map (\<lambda>l. crlf @ l) lines)))"
proof (induction lines arbitrary: first)
  case Nil
  have "find_sub (crlf @ crlf) (crlf @ crlf @ rest) = Some 0"
    by (simp add: crlf_def)
  with Nil show ?case
    using find_sub_plain [of first "crlf @ crlf"] by (simp add: crlf_def)
next
  case (Cons l lines)
  obtain c cs where l: "l = c # cs" "c \<noteq> CHR 0x0D"
    using Cons.prems(1) by (cases l) (auto simp: plain_def)
  let ?tail = "l @ concat (map (\<lambda>l. crlf @ l) lines) @ crlf @ crlf @ rest"
  have "find_sub (crlf @ crlf) (crlf @ ?tail) = map_option ((+) 2) (find_sub (crlf @ crlf) ?tail)"
    using l by (simp add: crlf_def option.map_comp comp_def)
  moreover have "find_sub (crlf @ crlf) ?tail = Some (length l + length (concat (map (\<lambda>l. crlf @ l) lines)))"
    using Cons.prems by (intro Cons.IH) simp_all
  ultimately show ?case
    using find_sub_plain [OF Cons.prems(2), of "crlf @ crlf"] by (simp add: crlf_def)
qed

lemma crlf_moves: "sep @ concat (map (\<lambda>l. l @ sep) lines) = concat (map (\<lambda>l. sep @ l) lines) @ sep"
  by (induction lines) simp_all

lemma find_sub_not_plain: "plain l \<Longrightarrow> find_sub crlf l = None"
proof (induction l)
  case (Cons c l)
  then have "c \<noteq> CHR 0x0D" "plain l" by (auto simp: plain_def)
  with Cons show ?case by (simp add: crlf_def)
qed (simp add: crlf_def)

lemma find_first_line:
  assumes "plain first"
  shows "find_sub crlf (first @ crlf @ rest) = Some (length first)"
proof -
  have "find_sub crlf (crlf @ rest) = Some 0"
    by (simp add: crlf_def)
  then show ?thesis
    using find_sub_plain [OF assms, of crlf] by (simp add: crlf_def)
qed

lemma trim_append_space: "is_space c \<Longrightarrow> trim (s @ [c]) = trim s"
proof (cases "\<forall>x \<in> set s. is_space x")
  case True
  assume "is_space c"
  with True have "trim (s @ [c]) = []" "trim s = []"
    by (simp_all add: trim_nil_iff)
  then show ?thesis by simp
qed (auto simp: trim_def trim_start_dropWhile trim_end_dropWhile dropWhile_append)

lemma crlf_space [simp]: "is_space (CHR 0x0D)" "is_space (CHR 0x0A)" "is_space (CHR '' '')" "\<not> is_space (CHR '':'')"
  by (simp_all add: is_space_def whitespace_def)

lemma trim_prepend_space: "is_space c \<Longrightarrow> trim (c # s) = trim s"
  by (simp add: trim_def trim_start_dropWhile)

lemma trim_header_text:
  assumes "header_ok h"
  shows "trim (header_text h) = fst h @ (if snd h = [] then '':'' else '': '' @ snd h)"
proof (cases "snd h = []")
  case True
  have "trim (header_text h) = trim (fst h @ '':'')"
    using trim_append_space [of "CHR '' ''" "fst h @ '':''"] True by (simp add: header_text_def)
  also have "\<dots> = fst h @ '':''"
    using assms by (intro trim_id) (auto simp: header_ok_def)
  finally show ?thesis using True by simp
next
  case False
  then have "\<not> is_space (last (snd h))"
    using assms trim_ends(2) [of "snd h"] by (simp add: header_ok_def)
  then have "trim (header_text h) = header_text h"
    using assms False by (intro trim_id) (auto simp: header_ok_def header_text_def)
  then show ?thesis using False by (simp add: header_text_def)
qed

text \<open>One header line, with or without the carriage return before the newline.\<close>

lemma read_header_line:
  assumes "header_ok h" and "trim l = trim (header_text h)"
  shows "read_headers headers (l # rest) = read_headers (emplace (to_lower_ascii (fst h)) (snd h) headers) rest"
proof -
  have "find_pos (\<lambda>c. c = CHR '':'') (fst h @ CHR '':'' # ys) = Some (length (fst h))" for ys
    using assms(1) by (intro find_pos_append_first) (auto simp: header_ok_def)
  moreover have "trim (if snd h = [] then [] else CHR '' '' # snd h) = snd h"
    using assms(1) by (auto simp: header_ok_def trim_prepend_space trim_nil_iff)
  ultimately show ?thesis
    using assms by (cases "snd h = []") (auto simp: trim_header_text Let_def header_ok_def)
qed

lemma split_header_lines:
  "\<forall>l \<in> set (l # ls). plain l \<Longrightarrow>
   split_at (l @ concat (map (\<lambda>l. crlf @ l) ls)) (CHR 0x0A) =
   (if ls = [] then [l] else (l @ [CHR 0x0D]) # split_at (hd ls @ concat (map (\<lambda>l. crlf @ l) (tl ls))) (CHR 0x0A))"
proof (cases ls)
  case Nil
  assume "\<forall>l \<in> set (l # ls). plain l"
  then have "find_pos (\<lambda>c. c = CHR 0x0A) l = None"
    by (auto simp: plain_def find_pos_None)
  with Nil show ?thesis by (subst split_at.simps) simp
next
  case (Cons k ks)
  assume "\<forall>l \<in> set (l # ls). plain l"
  then have "find_pos (\<lambda>c. c = CHR 0x0A) ((l @ [CHR 0x0D]) @ CHR 0x0A # ys) = Some (length (l @ [CHR 0x0D]))" for ys
    by (intro find_pos_append_first) (auto simp: plain_def)
  with Cons show ?thesis by (subst split_at.simps) (simp add: crlf_def)
qed

lemma read_written_headers:
  "\<forall>h \<in> set (h # hs). header_ok h \<Longrightarrow>
   read_headers headers (split_at (header_text h @ concat (map (\<lambda>l. crlf @ l) (map header_text hs))) (CHR 0x0A)) =
   Some (fold (\<lambda>h. emplace (to_lower_ascii (fst h)) (snd h)) (h # hs) headers)"
proof (induction hs arbitrary: h headers)
  case Nil
  then have "\<forall>l \<in> set [header_text h]. plain l" "header_ok h"
    using header_text_ok by auto
  then show ?case
    using split_header_lines [of "header_text h" "[]"] read_header_line [of h "header_text h" headers "[]"]
    by (simp del: read_headers.simps(2))
next
  case (Cons k ks)
  have "\<forall>l \<in> set (header_text h # map header_text (k # ks)). plain l"
    using Cons.prems header_text_ok by auto
  note split = split_header_lines [OF this]
  have "trim (header_text h @ [CHR 0x0D]) = trim (header_text h)"
    by (simp add: trim_append_space)
  then show ?case
    unfolding split using Cons.prems Cons.IH [of k]
      read_header_line [of h "header_text h @ [CHR 0x0D]"]
    by (simp del: read_headers.simps(2))
qed

lemma parse_request_parts:
  assumes "find_sub (crlf @ crlf) buffer = Some i" and "take i buffer = front"
    and "split_request_line (case find_sub crlf front of None \<Rightarrow> front | Some j \<Rightarrow> take j front) =
      Some (method, target, version)"
    and "method \<noteq> []" and "target \<noteq> []"
    and "(case find_sub crlf front of None \<Rightarrow> Some []
      | Some j \<Rightarrow> read_headers [] (split_at (drop (j + 2) front) (CHR 0x0A))) = Some headers"
  shows "parse_request buffer = (Request_Ready,
    \<lparr>rq_method = method, rq_target = target, rq_path = target_path target, rq_version = trim version,
     rq_headers = headers, rq_length = i + 4\<rparr>)"
  by (simp only: parse_request_def assms Let_def option.case prod.case if_False simp_thms)

text \<open>
  A request written the way a client writes it, with any method, target, version and headers
  that hold no line breaks, is read back: the same method, target and version, the target's path
  without its query, each header under its lower-case name (the first one where a name repeats),
  and the number of bytes the request takes.
\<close>

theorem parse_written_request:
  assumes "plain method" "method \<noteq> []" "CHR '' '' \<notin> set method"
    and "plain target" "target \<noteq> []" "CHR '' '' \<notin> set target"
    and "plain version" "trim version = version" and "\<forall>h \<in> set headers. header_ok h"
  shows "parse_request (write_request method target version headers @ rest) =
    (Request_Ready,
     \<lparr>rq_method = method, rq_target = target, rq_path = target_path target, rq_version = version,
      rq_headers = fold (\<lambda>h. emplace (to_lower_ascii (fst h)) (snd h)) headers [],
      rq_length = length (write_request method target version headers)\<rparr>)"
proof -
  let ?line = "method @ '' '' @ target @ '' '' @ version"
  let ?texts = "map header_text headers"
  let ?more = "concat (map (\<lambda>l. crlf @ l) ?texts)"
  have line: "plain ?line" using assms by (simp add: plain_def)
  have texts: "\<forall>l \<in> set ?texts. plain l \<and> l \<noteq> []"
    using assms(9) header_text_ok by auto
  have written: "write_request method target version headers = ?line @ ?more @ crlf @ crlf"
    using crlf_moves [of crlf ?texts]
    by (simp add: write_request_def header_line_text [abs_def] comp_def)
  then have found: "find_sub (crlf @ crlf) (write_request method target version headers @ rest) =
      Some (length ?line + length ?more)"
    using find_empty_line [OF texts line, of rest] by simp
  have head: "take (length ?line + length ?more) (write_request method target version headers @ rest) = ?line @ ?more"
    by (simp add: written)
  have no_space: "\<forall>c \<in> set method. \<not> c = CHR '' ''" "\<forall>c \<in> set target. \<not> c = CHR '' ''"
    using assms(3,6) by blast+
  have split: "split_request_line ?line = Some (method, target, version)"
    using find_pos_append_first [OF no_space(1) refl] find_pos_append_first [OF no_space(2) refl]
    by (simp add: split_request_line_def)
  have length: "length ?line + length ?more + 4 = length (write_request method target version headers)"
    by (simp add: written crlf_def)
  have parts: "split_request_line (case find_sub crlf (?line @ ?more) of None \<Rightarrow> ?line @ ?more
        | Some j \<Rightarrow> take j (?line @ ?more)) = Some (method, target, version) \<and>
      (case find_sub crlf (?line @ ?more) of None \<Rightarrow> Some []
        | Some j \<Rightarrow> read_headers [] (split_at (drop (j + 2) (?line @ ?more)) (CHR 0x0A))) =
      Some (fold (\<lambda>h. emplace (to_lower_ascii (fst h)) (snd h)) headers [])"
  proof (cases headers)
    case Nil
    then have "find_sub crlf (?line @ ?more) = None" "?line @ ?more = ?line"
      using find_sub_not_plain [OF line] by simp_all
    then show ?thesis
      using Nil split by (simp only: option.case) simp
  next
    case (Cons h hs)
    let ?rest = "header_text h @ concat (map (\<lambda>l. crlf @ l) (map header_text hs))"
    have front: "?line @ ?more = ?line @ crlf @ ?rest"
      using Cons by simp
    have "find_sub crlf (?line @ crlf @ ?rest) = Some (length ?line)"
      using find_first_line [OF line, of ?rest] by simp
    moreover have "drop (length l + 2) (l @ crlf @ r) = r" for l r :: string
      by (simp add: crlf_def)
    from this [of ?line ?rest] have "drop (length ?line + 2) (?line @ crlf @ ?rest) = ?rest" .
    moreover have "take (length ?line) (?line @ crlf @ ?rest) = ?line"
      by simp
    moreover have "read_headers [] (split_at ?rest (CHR 0x0A)) =
        Some (fold (\<lambda>h. emplace (to_lower_ascii (fst h)) (snd h)) headers [])"
      using read_written_headers [of h hs "[]"] assms(9) Cons by simp
    ultimately show ?thesis
      unfolding front using split by (simp only: option.case)
  qed
  show ?thesis
    using parse_request_parts [OF found head parts [THEN conjunct1] assms(2,5) parts [THEN conjunct2]]
    by (simp only: assms(8) length)
qed

theorem parse_written_request_witness:
  "parse_request (write_request ''GET'' ''/a?b'' ''HTTP/1.1'' [(''Host'', ''x''), (''Connection'', ''close'')] @ ''rest'') =
    (Request_Ready,
     \<lparr>rq_method = ''GET'', rq_target = ''/a?b'', rq_path = ''/a'', rq_version = ''HTTP/1.1'',
      rq_headers = [(''host'', ''x''), (''connection'', ''close'')], rq_length = 49\<rparr>)"
proof -
  have ok: "\<forall>h \<in> set [(''Host'', ''x''), (''Connection'', ''close'')]. header_ok h" "trim ''HTTP/1.1'' = ''HTTP/1.1''"
    by code_simp+
  have evaluated: "fold (\<lambda>h. emplace (to_lower_ascii (fst h)) (snd h)) [(''Host'', ''x''), (''Connection'', ''close'')] [] =
      [(''host'', ''x''), (''connection'', ''close'')]" "target_path ''/a?b'' = ''/a''"
    "length (write_request ''GET'' ''/a?b'' ''HTTP/1.1'' [(''Host'', ''x''), (''Connection'', ''close'')]) = 49"
    by code_simp+
  show ?thesis
    using parse_written_request [of "''GET''" "''/a?b''" "''HTTP/1.1''" "[(''Host'', ''x''), (''Connection'', ''close'')]" "''rest''"]
      ok evaluated by (simp add: plain_def)
qed

section \<open>Files\<close>

lemma lexically_relative_inside:
  "lexically_relative path base \<noteq> [] \<Longrightarrow> hd (lexically_relative path base) \<noteq> ''..'' \<Longrightarrow>
   \<exists>below. path = base @ below"
  by (induction path base rule: lexically_relative.induct) (auto split: if_splits)

lemma within_root_inside:
  "within_root regular canonical root candidate = Some file \<Longrightarrow>
   \<exists>base below. canonical root = Some base \<and> file = base @ below \<and> regular candidate \<and> canonical candidate = Some file"
  by (auto simp: within_root_def Let_def dest!: lexically_relative_inside split: if_splits option.splits)

text \<open>
  C1. Whatever a url spells, the file it resolves to is a regular file whose canonical path lies
  under the canonical root: no request is answered with a file from outside, through dots, an
  absolute path or a symbolic link. The file system is arbitrary.
\<close>

theorem resolve_file_inside:
  assumes "resolve_file regular canonical url_path root = Some file"
  shows "\<exists>base below candidate. canonical root = Some base \<and> file = base @ below \<and>
    regular candidate \<and> canonical candidate = Some file"
  using assms within_root_inside unfolding resolve_file_def Let_def
  by (auto split: option.splits if_splits) blast+

theorem resolve_file_inside_witness:
  "\<exists>base below candidate. (\<lambda>p. if p = ''out'' then Some [''site'', ''out''] else Some [''site'', ''out'', ''a.html'']) ''out'' = Some base \<and>
    [''site'', ''out'', ''a.html''] = base @ below \<and> candidate = ''out/a.html'' \<and>
    (\<lambda>p. if p = ''out'' then Some [''site'', ''out''] else Some [''site'', ''out'', ''a.html'']) candidate = Some [''site'', ''out'', ''a.html'']"
proof -
  let ?regular = "\<lambda>p. p = ''out/a.html''"
  let ?canonical = "\<lambda>p. if p = ''out'' then Some [''site'', ''out''] else Some [''site'', ''out'', ''a.html'']"
  have "resolve_file ?regular ?canonical ''/a?x=1'' ''out'' = Some [''site'', ''out'', ''a.html'']"
    by code_simp
  from resolve_file_inside [OF this] show ?thesis by blast
qed

end
