(* ===== verification/Reload.thy ===== *)
theory Reload
  imports JsonRoundTrip
begin

text \<open>
  Live reload (\<open>reload.cpp\<close>): the messages a page gets over its socket, the script put into a page,
  and the channel that numbers what happened. The channel's operations hold its mutex throughout,
  so each is one step on its state. The JavaScript the page runs is not modelled.
\<close>

section \<open>Messages\<close>

definition hello_message :: "int \<Rightarrow> string \<Rightarrow> string" where
  "hello_message version session =
     to_json (set_member (set_member (set_member (VObject [])
       ''type'' (VString ''hello'')) ''version'' (VInteger version)) ''session'' (VString session)) Compact False"

definition change_message :: "int \<Rightarrow> string list \<Rightarrow> string" where
  "change_message version paths =
     (let listed = fold (\<lambda>path list. push_item list (VString path)) paths (VArray [])
      in to_json (set_member (set_member (set_member (VObject [])
           ''type'' (VString ''change'')) ''version'' (VInteger version)) ''paths'' listed) Compact False)"

definition failure_message :: "int \<Rightarrow> string \<Rightarrow> string \<Rightarrow> nat \<Rightarrow> string" where
  "failure_message version detail file line =
     to_json (set_member (set_member (set_member (set_member (set_member (VObject [])
       ''type'' (VString ''failure'')) ''version'' (VInteger version)) ''detail'' (VString detail))
       ''file'' (VString file)) ''line'' (VInteger (int64_of_size line))) Compact False"

text \<open>\<open>relative\<close> is \<open>file.lexically_relative(root).generic_string()\<close>, which is empty when there is none.\<close>

definition changed_paths :: "(string \<Rightarrow> string) \<Rightarrow> string list \<Rightarrow> string list" where
  "changed_paths relative files =
     fold (\<lambda>file paths.
       let named = relative file;
           shown = (if named = [] \<or> starts_with named ''..'' then file else named)
       in if shown \<in> set paths then paths else paths @ [shown]) files []"

definition inject :: "string \<Rightarrow> string \<Rightarrow> string" where
  "inject html script =
     (case find_sub ''</body>'' html of
        None \<Rightarrow> html @ script
      | Some closing \<Rightarrow> take closing html @ script @ drop closing html)"

section \<open>The channel\<close>

record channel =
  ch_version :: int
  ch_session :: string

definition channel_change :: "channel \<Rightarrow> string list \<Rightarrow> string \<times> channel" where
  "channel_change ch paths =
     (let ch' = ch\<lparr>ch_version := ch_version ch + 1\<rparr> in (change_message (ch_version ch') paths, ch'))"

definition channel_failure :: "channel \<Rightarrow> string \<Rightarrow> string \<Rightarrow> nat \<Rightarrow> string \<times> channel" where
  "channel_failure ch detail file line =
     (let ch' = ch\<lparr>ch_version := ch_version ch + 1\<rparr> in (failure_message (ch_version ch') detail file line, ch'))"

definition channel_hello :: "channel \<Rightarrow> string" where
  "channel_hello ch = hello_message (ch_version ch) (ch_session ch)"

section \<open>What a page reads\<close>

lemma message_read:
  assumes "value_ok v" "number_free v" "nesting v \<le> 64"
  shows "\<exists>st. parse_json (to_json v Compact False) = Done v st"
  using to_json_reads_back [of v Compact False] assms by (auto simp: max_json_depth_def)

lemma nesting_strings: "nesting (VArray (map VString paths)) = 1"
  by (induction paths) (simp_all add: nesting.simps)

lemma messages_read:
  assumes "in_int64 version"
  shows "\<exists>st. parse_json (hello_message version session) = Done (VObject [(''type'', VString ''hello''),
      (''version'', VInteger version), (''session'', VString session)]) st"
    and "\<exists>st. parse_json (change_message version paths) = Done (VObject [(''type'', VString ''change''),
      (''version'', VInteger version), (''paths'', VArray (map VString paths))]) st"
    and "line < 2 ^ 63 \<Longrightarrow> \<exists>st. parse_json (failure_message version detail file line) =
      Done (VObject [(''type'', VString ''failure''), (''version'', VInteger version),
        (''detail'', VString detail), (''file'', VString file), (''line'', VInteger (int line))]) st"
proof -
  show "\<exists>st. parse_json (hello_message version session) = Done (VObject [(''type'', VString ''hello''),
      (''version'', VInteger version), (''session'', VString session)]) st"
    using assms by (simp add: hello_message_def set_member_def message_read nesting.simps)
  show "\<exists>st. parse_json (change_message version paths) = Done (VObject [(''type'', VString ''change''),
      (''version'', VInteger version), (''paths'', VArray (map VString paths))]) st"
    using assms nesting_strings [of paths]
    by (simp add: change_message_def set_member_def fold_push_items message_read nesting.simps(2))
  assume "line < 2 ^ 63"
  then have "int64_of_size line = int line" "in_int64 (int line)"
    using int64_of_size_fits by (simp_all add: int64_of_size_small in_int64_def int64_min_def int64_max_def)
  then show "\<exists>st. parse_json (failure_message version detail file line) =
      Done (VObject [(''type'', VString ''failure''), (''version'', VInteger version),
        (''detail'', VString detail), (''file'', VString file), (''line'', VInteger (int line))]) st"
    using assms by (simp add: failure_message_def set_member_def message_read nesting.simps)
qed

text \<open>
  Every message the channel sends is JSON that reads back as the message: its type, the
  version, and the session, the changed paths in order, or the failure with its file and line.
\<close>

theorem messages_read_back:
  assumes "in_int64 version" and "line < 2 ^ 63"
  shows "(\<exists>st. parse_json (hello_message version session) = Done (VObject [(''type'', VString ''hello''),
       (''version'', VInteger version), (''session'', VString session)]) st) \<and>
    (\<exists>st. parse_json (change_message version paths) = Done (VObject [(''type'', VString ''change''),
       (''version'', VInteger version), (''paths'', VArray (map VString paths))]) st) \<and>
    (\<exists>st. parse_json (failure_message version detail file line) =
       Done (VObject [(''type'', VString ''failure''), (''version'', VInteger version),
         (''detail'', VString detail), (''file'', VString file), (''line'', VInteger (int line))]) st)"
  using messages_read [OF assms(1)] assms(2) by blast

theorem messages_read_back_witness:
  "\<exists>st. parse_json (change_message 2 [''a.css'', ''b.html'']) = Done (VObject [(''type'', VString ''change''),
       (''version'', VInteger 2), (''paths'', VArray [VString ''a.css'', VString ''b.html''])]) st"
  using messages_read_back [of 2 1 "''s''" "[''a.css'', ''b.html'']" "''d''" "''f''"]
  by (simp add: in_int64_def int64_min_def int64_max_def)

section \<open>Numbering\<close>

datatype channel_event = Changed "string list" | Build_Failed string string nat

fun channel_step :: "channel \<Rightarrow> channel_event \<Rightarrow> string \<times> channel" where
  "channel_step ch (Changed paths) = channel_change ch paths"
| "channel_step ch (Build_Failed detail file line) = channel_failure ch detail file line"

fun channel_run :: "channel \<Rightarrow> channel_event list \<Rightarrow> string list \<times> channel" where
  "channel_run ch [] = ([], ch)"
| "channel_run ch (e # es) =
     (let (message, ch') = channel_step ch e; (messages, ch'') = channel_run ch' es
      in (message # messages, ch''))"

definition event_ok :: "channel_event \<Rightarrow> bool" where
  "event_ok e \<longleftrightarrow> (case e of Changed _ \<Rightarrow> True | Build_Failed _ _ line \<Rightarrow> line < 2 ^ 63)"

lemma channel_step_simps:
  "channel_step ch e = (message, ch') \<Longrightarrow>
   ch' = ch\<lparr>ch_version := ch_version ch + 1\<rparr> \<and>
   (in_int64 (ch_version ch + 1) \<longrightarrow> event_ok e \<longrightarrow>
     (\<exists>v st. parse_json message = Done v st \<and> find_member v ''version'' = Some (VInteger (ch_version ch + 1))))"
  using messages_read [of "ch_version ch + 1"]
  by (cases e) (fastforce simp: channel_change_def channel_failure_def Let_def event_ok_def)+

lemma channel_run_numbers:
  "channel_run ch es = (messages, ch') \<Longrightarrow> 0 \<le> ch_version ch \<Longrightarrow>
   ch_version ch + int (length es) \<le> int64_max \<Longrightarrow> \<forall>e \<in> set es. event_ok e \<Longrightarrow>
   length messages = length es \<and> ch' = ch\<lparr>ch_version := ch_version ch + int (length es)\<rparr> \<and>
   (\<forall>i < length es. \<exists>v st. parse_json (messages ! i) = Done v st \<and>
      find_member v ''version'' = Some (VInteger (ch_version ch + int i + 1)))"
proof (induction es arbitrary: ch messages)
  case (Cons e es)
  obtain message ch1 where step: "channel_step ch e = (message, ch1)"
    by (cases "channel_step ch e")
  obtain rest ch2 where run: "channel_run ch1 es = (rest, ch2)"
    by (cases "channel_run ch1 es")
  have eqs: "messages = message # rest" "ch' = ch2"
    using Cons.prems(1) step run by simp_all
  have "in_int64 (ch_version ch + 1)"
    using Cons.prems(2,3) by (simp add: in_int64_def int64_min_def)
  then have first: "ch1 = ch\<lparr>ch_version := ch_version ch + 1\<rparr>"
    "\<exists>v st. parse_json message = Done v st \<and> find_member v ''version'' = Some (VInteger (ch_version ch + 1))"
    using channel_step_simps [OF step] Cons.prems(4) by simp_all
  have "length rest = length es \<and> ch' = ch1\<lparr>ch_version := ch_version ch1 + int (length es)\<rparr> \<and>
     (\<forall>i < length es. \<exists>v st. parse_json (rest ! i) = Done v st \<and>
      find_member v ''version'' = Some (VInteger (ch_version ch1 + int i + 1)))"
    using Cons.prems run eqs(2) first(1) by (intro Cons.IH) simp_all
  then show ?case
    using first eqs(1) by (auto simp: nth_Cons ac_simps split: nat.split)
qed simp

text \<open>
  The channel numbers what happens: over any sequence of changes and failures the i-th message
  carries the version it started from plus i, and what a page that connects afterwards is told is
  the version of the last one.
\<close>

theorem channel_versions:
  assumes "0 \<le> ch_version ch" and "ch_version ch + int (length es) \<le> int64_max"
    and "\<forall>e \<in> set es. event_ok e"
  shows "(\<forall>i < length es. \<exists>v st. parse_json (fst (channel_run ch es) ! i) = Done v st \<and>
      find_member v ''version'' = Some (VInteger (ch_version ch + int i + 1))) \<and>
    (\<exists>v st. parse_json (channel_hello (snd (channel_run ch es))) = Done v st \<and>
      find_member v ''version'' = Some (VInteger (ch_version ch + int (length es))))"
proof -
  obtain messages ch' where run: "channel_run ch es = (messages, ch')"
    by (cases "channel_run ch es")
  note numbers = channel_run_numbers [OF run assms]
  have "in_int64 (ch_version ch + int (length es))"
    using assms by (simp add: in_int64_def int64_min_def)
  then have "\<exists>v st. parse_json (channel_hello ch') = Done v st \<and>
      find_member v ''version'' = Some (VInteger (ch_version ch + int (length es)))"
    using messages_read(1) [of "ch_version ch + int (length es)" "ch_session ch"] numbers
    by (auto simp: channel_hello_def)
  with numbers run show ?thesis by simp
qed

theorem channel_versions_witness:
  "\<exists>v st. parse_json (channel_hello (snd (channel_run \<lparr>ch_version = 0, ch_session = ''s''\<rparr>
       [Changed [''a''], Build_Failed ''d'' ''f'' 3]))) = Done v st \<and> find_member v ''version'' = Some (VInteger 2)"
  using channel_versions [of "\<lparr>ch_version = 0, ch_session = ''s''\<rparr>" "[Changed [''a''], Build_Failed ''d'' ''f'' 3]"]
  by (simp add: int64_max_def event_ok_def)

text \<open>
  A script is put into a page once and changes nothing else: before the first closing body tag
  when there is one, at the end otherwise.
\<close>

theorem inject_places_script:
  "\<exists>before after. html = before @ after \<and> inject html script = before @ script @ after \<and>
     (if contains html ''</body>'' then starts_with after ''</body>'' \<and> find_sub ''</body>'' html = Some (length before)
      else after = [])"
proof (cases "find_sub ''</body>'' html")
  case None
  then show ?thesis
    by (intro exI [of _ html] exI [of _ "[]"]) (simp add: inject_def contains_def)
next
  case (Some i)
  then have "starts_with (drop i html) ''</body>''" "i \<le> length html"
    using find_sub_Some [OF Some] by auto
  then show ?thesis
    using Some by (intro exI [of _ "take i html"] exI [of _ "drop i html"]) (simp add: inject_def contains_def)
qed

end
