(* ===== verification/Connection.thy ===== *)
theory Connection
  imports HttpProps Reload Websocket
begin

text \<open>
  One connection of the preview server (the loop of \<open>Server::run\<close> in \<open>server.cpp\<close>): bytes are read
  only when the buffer holds no whole request, every request in the buffer is answered in turn, and
  the connection ends by an error, a header or an upgrade. \<open>conn_reach\<close> is the step relation, with
  reads of any size, sends that fail, a site that changes and a stopping server; \<open>requests_in\<close> is what the
  bytes ask for, read at once.
\<close>

section \<open>What a request is answered with\<close>

text \<open>
  What the loop reads from the server's state and the file system: the build directory, the current
  client script, the channel's greeting and the failure that stands.
\<close>

record site =
  site_regular :: "string \<Rightarrow> bool"
  site_canonical :: "string \<Rightarrow> string list option"
  site_root :: string
  site_read :: "string list \<Rightarrow> string"
  site_script :: string
  site_hello :: string
  site_standing :: string

definition socket_path :: string where
  "socket_path = ''/__blogin-reload''"

definition not_found_page :: string where
  "not_found_page = ''<!doctype html><title>Not Found</title><p>Not Found''"

definition page_response :: "site \<Rightarrow> request \<Rightarrow> response" where
  "page_response site request =
     (case resolve_file (site_regular site) (site_canonical site) (rq_path request) (site_root site) of
        Some file \<Rightarrow>
          (let content_type = content_type_for (if file = [] then [] else last file); body = site_read site file
           in default_response\<lparr>rs_content_type := content_type,
                rs_body := (if starts_with content_type ''text/html'' then inject body (site_script site) else body),
                rs_keep_alive := wants_keep_alive request\<rparr>)
      | None \<Rightarrow>
          default_response\<lparr>rs_status := 404, rs_content_type := ''text/html; charset=utf-8'',
            rs_body := inject not_found_page (site_script site),
            rs_keep_alive := wants_keep_alive request\<rparr>)"

text \<open>A HEAD request gets the headers of the page, with the length the page would have had.\<close>

definition no_length :: string where
  "no_length = header_line (''Content-Length'', ''0'')"

definition head_bytes :: "response \<Rightarrow> string" where
  "head_bytes response =
     (let serialized = serialize (response\<lparr>rs_body := []\<rparr>) in
      case find_sub no_length serialized of
        None \<Rightarrow> serialized
      | Some placeholder \<Rightarrow>
          take placeholder serialized @
          header_line (''Content-Length'', format_nat (length (rs_body response))) @
          drop (placeholder + length no_length) serialized)"

definition upgrade_response :: "request \<Rightarrow> response" where
  "upgrade_response request = default_response\<lparr>rs_status := 101,
     rs_headers := [(''Connection'', ''Upgrade''),
       (''Sec-WebSocket-Accept'', accept_key (request_header request ''sec-websocket-key'')),
       (''Upgrade'', ''websocket'')]\<rparr>"

definition not_allowed :: response where
  "not_allowed = default_response\<lparr>rs_status := 405, rs_body := ''Method Not Allowed''\<rparr>"

definition bad_request :: response where
  "bad_request = default_response\<lparr>rs_status := 400, rs_body := ''Bad Request'', rs_keep_alive := False\<rparr>"

datatype conn_status = Conn_Open | Conn_Closed | Conn_Upgraded

text \<open>
  What is sent for one request and what becomes of the connection. Beside each text stands whether the
  loop gives up when it cannot be sent: the result of \<open>send_all\<close> is looked at for a page and for the
  answer to an upgrade, and not for the other messages.
\<close>

definition handle_request :: "site \<Rightarrow> request \<Rightarrow> (string \<times> bool) list \<times> conn_status" where
  "handle_request site request =
     (if rq_path request = socket_path \<and>
         is_upgrade (request_header request ''connection'') (request_header request ''upgrade'') then
        ((serialize (upgrade_response request), True) # (encode_frame opcode_text (site_hello site), False) #
           (if site_standing site \<noteq> [] then [(encode_frame opcode_text (site_standing site), False)] else []),
         Conn_Upgraded)
      else if rq_method request \<noteq> ''GET'' \<and> rq_method request \<noteq> ''HEAD'' then
        ([(serialize not_allowed, False)], Conn_Open)
      else
        (let response = page_response site request in
         ([(if rq_method request = ''HEAD'' then head_bytes response else serialize response, True)],
          if rs_keep_alive response then Conn_Open else Conn_Closed)))"

text \<open>\<open>None\<close> stands for bytes that are no request.\<close>

definition answer_of :: "site \<Rightarrow> request option \<Rightarrow> (string \<times> bool) list \<times> conn_status" where
  "answer_of site asked =
     (case asked of
        Some request \<Rightarrow> handle_request site request
      | None \<Rightarrow> ([(serialize bad_request, False)], Conn_Closed))"

text \<open>
  Sending, and whether the loop goes on. \<open>taken\<close> says how many bytes of each text the socket takes; a text
  of which it takes fewer has failed, one it says nothing of is sent whole.
\<close>

fun send_each :: "(string \<times> bool) list \<Rightarrow> nat list \<Rightarrow> string list \<times> bool" where
  "send_each [] taken = ([], True)"
| "send_each ((bytes, needed) # sends) taken =
     (let k = (case taken of [] \<Rightarrow> length bytes | n # _ \<Rightarrow> n) in
      if needed \<and> k < length bytes then ([take k bytes], False)
      else (case send_each sends (tl taken) of (sent, goes_on) \<Rightarrow> (take k bytes # sent, goes_on)))"

section \<open>The loop\<close>

record conn =
  c_buffer :: string
  c_sent :: "string list"
  c_status :: conn_status

definition fresh_conn :: conn where
  "fresh_conn = \<lparr>c_buffer = [], c_sent = [], c_status = Conn_Open\<rparr>"

definition feed :: "string \<Rightarrow> conn \<Rightarrow> conn" where
  "feed chunk c = c\<lparr>c_buffer := c_buffer c @ chunk\<rparr>"

definition waiting :: "conn \<Rightarrow> bool" where
  "waiting c \<longleftrightarrow> fst (parse_request (c_buffer c)) = Request_Incomplete"

text \<open>
  What a turn meets: the site as it is read for this request, which the builds of the watcher change
  from one request to the next, and what the socket takes.
\<close>

type_synonym meeting = "site \<times> nat list"

definition respond :: "meeting \<Rightarrow> request option \<Rightarrow> conn \<Rightarrow> conn" where
  "respond met asked c =
     (case answer_of (fst met) asked of (sends, status) \<Rightarrow>
        (case send_each sends (snd met) of (sent, goes_on) \<Rightarrow>
           c\<lparr>c_sent := c_sent c @ sent, c_status := if goes_on then status else Conn_Closed\<rparr>))"

text \<open>One turn of the loop where the buffer holds a request or something that is none.\<close>

definition turn :: "meeting \<Rightarrow> conn \<Rightarrow> conn" where
  "turn met c =
     (case parse_request (c_buffer c) of
        (Request_Ready, request) \<Rightarrow> respond met (Some request) (c\<lparr>c_buffer := drop (rq_length request) (c_buffer c)\<rparr>)
      | (Request_Malformed, request) \<Rightarrow> respond met None c
      | (Request_Incomplete, request) \<Rightarrow> c)"

text \<open>
  The connection after a sequence of received bytes and of turns. A read brings up to 8192 bytes; one
  that brings nothing, an exception and a server that stops end the connection at any point.
\<close>

inductive conn_reach :: "meeting list \<Rightarrow> string \<Rightarrow> conn \<Rightarrow> bool" where
  start: "conn_reach [] [] fresh_conn"
| receive: "conn_reach log bytes c \<Longrightarrow> c_status c = Conn_Open \<Longrightarrow> waiting c \<Longrightarrow> chunk \<noteq> [] \<Longrightarrow> length chunk \<le> 8192 \<Longrightarrow>
    conn_reach log (bytes @ chunk) (feed chunk c)"
| answer: "conn_reach log bytes c \<Longrightarrow> c_status c = Conn_Open \<Longrightarrow> \<not> waiting c \<Longrightarrow> conn_reach (log @ [met]) bytes (turn met c)"
| hang_up: "conn_reach log bytes c \<Longrightarrow> c_status c = Conn_Open \<Longrightarrow> conn_reach log bytes (c\<lparr>c_status := Conn_Closed\<rparr>)"

inductive_cases conn_reachE: "conn_reach log bytes c"

lemma respond_simps [simp]:
  "c_buffer (respond met asked c) = c_buffer c"
  "c_sent (respond met asked c) = c_sent c @ fst (send_each (fst (answer_of (fst met) asked)) (snd met))"
  "c_status (respond met None c) = Conn_Closed"
  by (simp_all add: respond_def case_prod_beta' answer_of_def)

lemma turn_cases:
  obtains (waiting) "waiting c"
  | (malformed) request where "\<not> waiting c" "parse_request (c_buffer c) = (Request_Malformed, request)" "turn met c = respond met None c"
  | (ready) request where "\<not> waiting c" "parse_request (c_buffer c) = (Request_Ready, request)"
      "turn met c = respond met (Some request) (c\<lparr>c_buffer := drop (rq_length request) (c_buffer c)\<rparr>)"
proof (cases "parse_request (c_buffer c)")
  case (Pair state request)
  show thesis
  proof (cases state)
    case Request_Incomplete
    with Pair show thesis by (intro waiting) (simp add: waiting_def)
  next
    case Request_Ready
    with Pair show thesis by (intro ready) (simp_all add: waiting_def turn_def)
  next
    case Request_Malformed
    with Pair show thesis by (intro malformed) (simp_all add: waiting_def turn_def)
  qed
qed

lemma feed_simps [simp]:
  "c_status (feed chunk c) = c_status c" "c_sent (feed chunk c) = c_sent c" "c_buffer (feed chunk c) = c_buffer c @ chunk"
  by (simp_all add: feed_def)

section \<open>The requests in the bytes\<close>

text \<open>
  What the bytes ask for, read at once: the requests in them one after the other, up to an unfinished
  one or to bytes that are none.
\<close>

function requests_in :: "string \<Rightarrow> request option list" where
  "requests_in bytes =
     (case parse_request bytes of
        (Request_Ready, request) \<Rightarrow> Some request # requests_in (drop (rq_length request) bytes)
      | (Request_Malformed, request) \<Rightarrow> [None]
      | (Request_Incomplete, request) \<Rightarrow> [])"
  by pat_completeness auto
termination
proof (relation "measure length")
  fix bytes state and request :: request
  assume "(state, request) = parse_request bytes" and "state = Request_Ready"
  then have parsed: "parse_request bytes = (Request_Ready, request)" by simp
  have "4 \<le> rq_length request \<and> rq_length request \<le> length bytes"
    by (rule parse_request_Ready [OF parsed]) simp
  then show "(drop (rq_length request) bytes, bytes) \<in> measure length" by simp linarith
qed simp

declare requests_in.simps [simp del]

lemma requests_in_ready:
  "parse_request bytes = (Request_Ready, request) \<Longrightarrow> requests_in bytes = Some request # requests_in (drop (rq_length request) bytes)"
  by (subst requests_in.simps) simp

lemma requests_in_malformed: "parse_request bytes = (Request_Malformed, request) \<Longrightarrow> requests_in bytes = [None]"
  by (subst requests_in.simps) simp

lemma requests_in_waiting: "waiting c \<Longrightarrow> requests_in (c_buffer c) = []"
  by (subst requests_in.simps) (simp add: waiting_def case_prod_beta')

text \<open>A turn does not look past the request it answers, whatever comes after it.\<close>

lemma parse_settled:
  assumes "\<not> waiting c" and "length (c_buffer c) \<le> maximum_request_size"
  shows "parse_request (c_buffer c @ more_bytes) = parse_request (c_buffer c)"
proof (cases "find_sub (crlf @ crlf) (c_buffer c)")
  case None
  with assms show ?thesis
    using parse_request_None [OF None] by (simp add: waiting_def)
qed (rule parse_request_append)

definition answer_sent :: "meeting \<Rightarrow> request option \<Rightarrow> string list" where
  "answer_sent met asked = fst (send_each (fst (answer_of (fst met) asked)) (snd met))"

lemma turn_asks:
  assumes "\<not> waiting c" and "length (c_buffer c) \<le> maximum_request_size"
  shows "\<exists>asked. c_sent (turn met c) = c_sent c @ answer_sent met asked \<and> length (c_buffer (turn met c)) \<le> length (c_buffer c) \<and>
    (\<forall>more_bytes. \<exists>rest. requests_in (c_buffer c @ more_bytes) = asked # rest \<and>
      (c_status (turn met c) = Conn_Open \<longrightarrow> rest = requests_in (c_buffer (turn met c) @ more_bytes)))"
proof (cases c rule: turn_cases [where met = met])
  case waiting
  with assms(1) show ?thesis by simp
next
  case (malformed request)
  have "requests_in (c_buffer c @ more_bytes) = [None]" for more_bytes
    using parse_settled [OF assms, of more_bytes] malformed(2) by (simp add: requests_in_malformed)
  then show ?thesis
    by (intro exI [of _ None]) (simp add: malformed(3) answer_sent_def)
next
  case (ready request)
  have "rq_length request \<le> length (c_buffer c)"
    by (rule parse_request_Ready [OF ready(2)])
  then have "requests_in (c_buffer c @ more_bytes) = Some request # requests_in (drop (rq_length request) (c_buffer c) @ more_bytes)"
      for more_bytes
    using parse_settled [OF assms, of more_bytes] ready(2) by (simp add: requests_in_ready)
  then show ?thesis
    by (intro exI [of _ "Some request"]) (simp add: ready(3) answer_sent_def)
qed

text \<open>
  The connection follows the bytes: its turns have answered the first requests in them, and while it is
  open the rest is what its buffer holds, whatever is received later.
\<close>

definition follows :: "meeting list \<Rightarrow> string \<Rightarrow> conn \<Rightarrow> bool" where
  "follows log bytes c \<longleftrightarrow> length (c_buffer c) \<le> length bytes \<and>
     (\<exists>asked. length asked = length log \<and> c_sent c = concat (map2 answer_sent log asked) \<and>
       (\<forall>more_bytes. \<exists>rest. requests_in (bytes @ more_bytes) = asked @ rest \<and>
         (c_status c = Conn_Open \<longrightarrow> rest = requests_in (c_buffer c @ more_bytes))))"

lemma conn_reach_follows:
  "conn_reach log bytes c \<Longrightarrow> length bytes \<le> maximum_request_size \<Longrightarrow> follows log bytes c"
proof (induction rule: conn_reach.induct)
  case start
  then show ?case by (simp add: follows_def fresh_conn_def)
next
  case (receive log bytes c chunk)
  then obtain asked where "length asked = length log" "c_sent c = concat (map2 answer_sent log asked)"
    "\<forall>more_bytes. requests_in (bytes @ more_bytes) = asked @ requests_in (c_buffer c @ more_bytes)"
    by (auto simp: follows_def)
  then show ?case
    using receive by (auto simp: follows_def)
next
  case (answer log bytes c met)
  then obtain asked where asked: "length asked = length log" "c_sent c = concat (map2 answer_sent log asked)"
    "\<forall>more_bytes. requests_in (bytes @ more_bytes) = asked @ requests_in (c_buffer c @ more_bytes)"
    and short: "length (c_buffer c) \<le> length bytes"
    by (auto simp: follows_def)
  then obtain one where one: "c_sent (turn met c) = c_sent c @ answer_sent met one" "length (c_buffer (turn met c)) \<le> length (c_buffer c)"
    "\<forall>more_bytes. \<exists>rest. requests_in (c_buffer c @ more_bytes) = one # rest \<and>
      (c_status (turn met c) = Conn_Open \<longrightarrow> rest = requests_in (c_buffer (turn met c) @ more_bytes))"
    using turn_asks [of c met] answer by auto
  then show ?case
    unfolding follows_def using asked short by (intro conjI exI [of _ "asked @ [one]"]) auto
next
  case (hang_up log bytes c)
  then show ?case by (fastforce simp: follows_def)
qed

lemma all_sent: "send_each sends [] = (map fst sends, True)"
  by (induction sends) auto

text \<open>
  C3. A connection answers the requests in the bytes it receives in their order, one turn a request,
  however the bytes are cut into reads: what it has sent is, turn by turn, the answer to the next of the
  requests that the bytes hold when they are read at once, made from the site as it was at that turn, as
  far as the socket took it; it has answered no more than there are, and all of them when it is open
  and waiting for more. When no send fails, whole answers were sent. The bytes may be any, up to the 64
  KiB past which an unfinished request is refused.
\<close>

theorem answers_follow_bytes:
  assumes "conn_reach log bytes c" and "length bytes \<le> maximum_request_size"
  shows "c_sent c = concat (map2 answer_sent log (requests_in bytes)) \<and> length log \<le> length (requests_in bytes) \<and>
    (c_status c = Conn_Open \<longrightarrow> waiting c \<longrightarrow> length log = length (requests_in bytes)) \<and>
    (list_all (\<lambda>met. snd met = []) log \<longrightarrow>
      c_sent c = concat (map2 (\<lambda>met asked. map fst (fst (answer_of (fst met) asked))) log (requests_in bytes)))"
proof -
  obtain asked rest where asked: "length asked = length log" "c_sent c = concat (map2 answer_sent log asked)"
    "requests_in bytes = asked @ rest" "c_status c = Conn_Open \<longrightarrow> rest = requests_in (c_buffer c)"
    using conn_reach_follows [OF assms] unfolding follows_def by (metis append_Nil2)
  have zipped: "zip log (requests_in bytes) = zip log asked"
    using asked(1) by (simp add: asked(3) zip_append2)
  have "c_status c = Conn_Open \<Longrightarrow> waiting c \<Longrightarrow> length log = length (requests_in bytes)"
    using asked requests_in_waiting [of c] by simp
  moreover have "concat (map2 answer_sent log asked) = concat (map2 (\<lambda>met asked. map fst (fst (answer_of (fst met) asked))) log asked)"
    if "list_all (\<lambda>met. snd met = []) log"
  proof (rule arg_cong [OF map_cong [OF refl]])
    fix turned
    assume "turned \<in> set (zip log asked)"
    then have "fst turned \<in> set log" by (metis prod.collapse set_zip_leftD)
    then show "(case turned of (met, x) \<Rightarrow> answer_sent met x) = (case turned of (met, x) \<Rightarrow> map fst (fst (answer_of (fst met) x)))"
      using that by (simp add: answer_sent_def all_sent list_all_iff case_prod_beta')
  qed
  moreover have "length log \<le> length (requests_in bytes)"
    using asked(1,3) by simp
  ultimately show ?thesis
    unfolding zipped using asked(2) by simp
qed

theorem answers_follow_bytes_witness:
  "\<forall>met. c_sent (turn met (feed (''PUT / HTTP/1.1'' @ crlf @ crlf) fresh_conn)) =
     concat (map2 answer_sent [met] (requests_in (''PUT / HTTP/1.1'' @ crlf @ crlf)))"
proof
  fix met
  let ?bytes = "''PUT / HTTP/1.1'' @ crlf @ crlf"
  let ?c = "feed ?bytes fresh_conn"
  have waits: "waiting fresh_conn"
    by (simp add: waiting_def fresh_conn_def parse_request_def crlf_def maximum_request_size_def)
  have parsed: "parse_request ?bytes = (Request_Ready, \<lparr>rq_method = ''PUT'', rq_target = ''/'', rq_path = ''/'',
      rq_version = ''HTTP/1.1'', rq_headers = [], rq_length = 18\<rparr>)"
    by code_simp
  have "conn_reach [] ([] @ ?bytes) ?c"
    by (rule conn_reach.receive [OF conn_reach.start _ waits]) (simp_all add: fresh_conn_def crlf_def)
  moreover have "\<not> waiting ?c" "c_status ?c = Conn_Open"
    by (simp_all only: waiting_def feed_simps) (simp_all add: fresh_conn_def parsed [simplified])
  ultimately have "conn_reach ([] @ [met]) ?bytes (turn met ?c)"
    by (intro conn_reach.answer) simp_all
  then have "conn_reach [met] ?bytes (turn met ?c)"
    by simp
  moreover have "length ?bytes \<le> maximum_request_size"
    by (simp add: crlf_def maximum_request_size_def)
  ultimately show "c_sent (turn met ?c) = concat (map2 answer_sent [met] (requests_in ?bytes))"
    using answers_follow_bytes by blast
qed

section \<open>HEAD\<close>

lemma find_sub_skip:
  assumes "find_sub needle (xs @ butlast needle) = None" and "needle \<noteq> []"
  shows "find_sub needle (xs @ needle @ ys) = Some (length xs)"
  using assms(1)
proof (induction xs)
  case Nil
  obtain c cs where needle: "needle = c # cs" using assms(2) by (cases needle) auto
  then have "starts_with (c # cs @ ys) (c # cs)"
    using starts_with_append [of needle ys] by simp
  then show ?case by (simp add: needle)
next
  case (Cons x xs)
  have none: "find_sub needle (xs @ butlast needle) = None" "\<not> starts_with (x # xs @ butlast needle) needle"
    using Cons.prems by (auto split: if_splits)
  have "\<not> starts_with (x # xs @ needle @ ys) needle"
  proof
    have longer: "length needle \<le> length (x # xs @ butlast needle)"
      using assms(2) by simp
    assume "starts_with (x # xs @ needle @ ys) needle"
    moreover have "x # xs @ needle @ ys = (x # xs @ butlast needle) @ last needle # ys"
      using assms(2) by simp
    ultimately have "starts_with (x # xs @ butlast needle) needle"
      using starts_with_append_iff [OF longer] by metis
    with none(2) show False by simp
  qed
  then show ?case using Cons.IH [OF none(1)] by simp
qed

text \<open>A content type the server can answer with: one of the table, or the fallback.\<close>

definition served_types :: "string list" where
  "served_types = ''application/octet-stream'' # map snd content_types"

lemma content_type_served: "content_type_for file \<in> set served_types"
proof -
  have "t \<in> snd ` set content_types" if "map_of content_types e = Some t" for e t
    using map_of_SomeD [OF that] by force
  then show ?thesis
    by (auto simp: content_type_for_def served_types_def Let_def split: option.split)
qed

lemma no_length_before:
  "list_all (\<lambda>status. list_all (\<lambda>t. find_sub no_length
       ((status_line status @ header_line (''Content-Type'', t)) @ butlast no_length) = None) served_types)
     [200, 404]"
  by code_simp

text \<open>
  A HEAD request is answered with exactly the bytes a GET of the same page begins with, up to
  its body: the same status and headers, with the length of the body that is left out.
\<close>

theorem head_is_get_without_body:
  "serialize (page_response site request) = head_bytes (page_response site request) @ rs_body (page_response site request)"
proof -
  let ?r = "page_response site request"
  let ?front = "status_line (rs_status ?r) @ header_line (''Content-Type'', rs_content_type ?r)"
  let ?tail = "header_line (''Cache-Control'', ''no-store'') @
    header_line (''Connection'', if rs_keep_alive ?r then ''keep-alive'' else ''close'') @ crlf"
  have page: "rs_status ?r \<in> set [200, 404]" "rs_content_type ?r \<in> set served_types" "rs_headers ?r = []"
    using content_type_served
    by (auto simp: page_response_def default_response_def Let_def served_types_def content_types_def
        split: option.split)
  then have whole: "serialize ?r = ?front @ header_line (''Content-Length'', format_nat (length (rs_body ?r))) @ ?tail @ rs_body ?r"
    by (auto simp: serialize_def)
  have "format_nat 0 = ''0''" by code_simp
  then have empty: "serialize (?r\<lparr>rs_body := []\<rparr>) = ?front @ no_length @ ?tail"
    using page by (auto simp: serialize_def no_length_def)
  have "find_sub no_length (?front @ butlast no_length) = None"
    using no_length_before page(1,2) by (auto simp: list_all_iff)
  then have "find_sub no_length (?front @ no_length @ ?tail) = Some (length ?front)"
    by (rule find_sub_skip) (simp add: no_length_def header_line_def)
  then have "head_bytes ?r = ?front @ header_line (''Content-Length'', format_nat (length (rs_body ?r))) @ ?tail"
    unfolding head_bytes_def empty by (simp del: append_assoc add: append_assoc [symmetric])
  then show ?thesis by (simp add: whole)
qed

end
