(* ===== verification/ViewContexts.thy ===== *)
theory ViewContexts
  imports Json
begin

text \<open>
  What a template may read (\<open>view_context.cpp\<close>): values, locals that shadow them, and functions,
  each a list of entries found by name; and the recordings of what a fragment reads, from which its
  cache key is made. The functions a view offers are parameters of the model: any function from
  arguments to a value. A recording is open from \<open>begin_recording\<close> to \<open>end_recording\<close>; the last one
  opened is the head of the list.
\<close>

section \<open>Edit distance\<close>

text \<open>
  One row of the table: \<open>here\<close> is \<open>current[column - 1]\<close>, the list is \<open>previous\<close> from that column on.
\<close>

fun edit_cells :: "char \<Rightarrow> nat \<Rightarrow> nat list \<Rightarrow> string \<Rightarrow> nat list" where
  "edit_cells c here (p # q # ps) (r # rs) =
     (let cell = min (min (here + 1) (q + 1)) (p + (if c = r then 0 else 1))
      in cell # edit_cells c cell (q # ps) rs)"
| "edit_cells c here ps rs = []"

fun edit_rows :: "nat \<Rightarrow> nat list \<Rightarrow> string \<Rightarrow> string \<Rightarrow> nat list" where
  "edit_rows row previous [] goal = previous"
| "edit_rows row previous (c # cs) goal =
     edit_rows (row + 1) (row # edit_cells c row previous goal) cs goal"

definition edit_distance :: "string \<Rightarrow> string \<Rightarrow> nat" where
  "edit_distance name goal = edit_rows 1 [0..<length goal + 1] name goal ! length goal"

section \<open>The context\<close>

type_synonym argument = "string \<times> jvalue"
type_synonym view_function = "argument list \<Rightarrow> jvalue"

record recording =
  rc_reads :: "(string \<times> string) list"
  rc_bound :: "string list"
  rc_replayable :: bool

record view_context =
  vc_values :: "(string \<times> jvalue) list"
  vc_locals :: "(string \<times> jvalue) list"
  vc_functions :: "(string \<times> view_function) list"
  vc_recordings :: "recording list"
  vc_read_names :: "string list"
  vc_replayable :: bool

definition empty_context :: view_context where
  "empty_context = \<lparr>vc_values = [], vc_locals = [], vc_functions = [], vc_recordings = [],
     vc_read_names = [], vc_replayable = True\<rparr>"

definition vc_set :: "string \<Rightarrow> jvalue \<Rightarrow> view_context \<Rightarrow> view_context" where
  "vc_set name v c = c\<lparr>vc_values := put_entry name v (vc_values c)\<rparr>"

definition vc_define :: "string \<Rightarrow> view_function \<Rightarrow> view_context \<Rightarrow> view_context" where
  "vc_define name f c = c\<lparr>vc_functions := put_entry name f (vc_functions c)\<rparr>"

definition add_bound :: "string \<Rightarrow> recording \<Rightarrow> recording" where
  "add_bound name r = (if name \<in> set (rc_bound r) then r else r\<lparr>rc_bound := rc_bound r @ [name]\<rparr>)"

definition note_bound :: "string \<Rightarrow> view_context \<Rightarrow> view_context" where
  "note_bound name c = c\<lparr>vc_recordings := map (add_bound name) (vc_recordings c)\<rparr>"

definition set_local :: "string \<Rightarrow> jvalue \<Rightarrow> view_context \<Rightarrow> view_context" where
  "set_local name v c =
     (let c' = note_bound name c in c'\<lparr>vc_locals := put_entry name v (vc_locals c')\<rparr>)"

text \<open>The three stores of a context are keyed stores.\<close>

interpretation context_values: keyed_store "\<lambda>c. map_of (vc_values c)" vc_set
  by unfold_locales (simp add: vc_set_def map_of_put_entry)

interpretation context_functions: keyed_store "\<lambda>c. map_of (vc_functions c)" vc_define
  by unfold_locales (simp add: vc_define_def map_of_put_entry)

interpretation context_locals: keyed_store "\<lambda>c. map_of (vc_locals c)" set_local
  by unfold_locales (simp add: set_local_def note_bound_def Let_def map_of_put_entry)

section \<open>Reads\<close>

definition add_read :: "string \<Rightarrow> string \<Rightarrow> recording \<Rightarrow> recording" where
  "add_read name shown r =
     (if name \<in> set (rc_bound r) then r
      else (case map_of (rc_reads r) name of
              None \<Rightarrow> r\<lparr>rc_reads := rc_reads r @ [(name, shown)]\<rparr>
            | Some seen \<Rightarrow> if seen \<noteq> shown then r\<lparr>rc_replayable := False\<rparr> else r))"

definition vc_record :: "string \<Rightarrow> jvalue \<Rightarrow> view_context \<Rightarrow> view_context" where
  "vc_record name v c =
     (if vc_recordings c = [] then c
      else c\<lparr>vc_recordings := map (add_read name (to_json v Compact True)) (vc_recordings c)\<rparr>)"

definition lookup :: "string \<Rightarrow> view_context \<Rightarrow> jvalue option \<times> view_context" where
  "lookup name c =
     (case map_of (vc_values c) name of
        None \<Rightarrow> (None, c)
      | Some v \<Rightarrow> (Some v, vc_record name v c))"

definition lookup_local :: "string \<Rightarrow> view_context \<Rightarrow> jvalue option \<times> view_context" where
  "lookup_local name c =
     (case map_of (vc_locals c) name of
        None \<Rightarrow> (None, c)
      | Some v \<Rightarrow> (Some v, vc_record name v c))"

definition find_function :: "string \<Rightarrow> view_context \<Rightarrow> view_function option" where
  "find_function name c = map_of (vc_functions c) name"

definition vc_callable :: "string \<Rightarrow> view_context \<Rightarrow> bool" where
  "vc_callable name c \<longleftrightarrow> find_function name c \<noteq> None"

definition vc_has :: "string \<Rightarrow> view_context \<Rightarrow> bool \<times> view_context" where
  "vc_has name c = (let (found, c') = lookup name c in (found \<noteq> None \<or> vc_callable name c', c'))"

definition has_local :: "string \<Rightarrow> view_context \<Rightarrow> bool \<times> view_context" where
  "has_local name c = (let (found, c') = lookup_local name c in (found \<noteq> None, c'))"

definition resolve :: "string \<Rightarrow> view_context \<Rightarrow> jvalue option \<times> view_context" where
  "resolve name c =
     (let (found, c') = lookup_local name c in
      case found of Some v \<Rightarrow> (Some v, c') | None \<Rightarrow> lookup name c')"

section \<open>Suggestions\<close>

text \<open>The best candidate so far, with its distance; \<open>None\<close> is the distance \<open>npos\<close>.\<close>

definition consider_candidate :: "string \<Rightarrow> string \<Rightarrow> (string \<times> nat) option \<Rightarrow> (string \<times> nat) option" where
  "consider_candidate name candidate best =
     (if candidate = name then best
      else (let distance = edit_distance name candidate in
            case best of
              None \<Rightarrow> Some (candidate, distance)
            | Some (_, best_distance) \<Rightarrow> if distance < best_distance then Some (candidate, distance) else best))"

definition nearest_entry :: "string \<Rightarrow> string list \<Rightarrow> (string \<times> nat) option" where
  "nearest_entry name names = fold (consider_candidate name) names None"

definition nearest :: "string \<Rightarrow> view_context \<Rightarrow> string" where
  "nearest name c =
     (case nearest_entry name (map fst (vc_values c) @ map fst (vc_functions c)) of
        None \<Rightarrow> []
      | Some (best, distance) \<Rightarrow>
          if best = [] \<or> 3 < distance then []
          else '' (did you mean '' @ [CHR 0x27] @ best @ [CHR 0x27] @ ''?)'')"

section \<open>Recordings\<close>

definition read_text :: "string \<Rightarrow> string \<Rightarrow> string" where
  "read_text name shown = name @ ''='' @ shown @ '';''"

definition begin_recording :: "view_context \<Rightarrow> view_context" where
  "begin_recording c =
     c\<lparr>vc_recordings := \<lparr>rc_reads = [], rc_bound = [], rc_replayable = True\<rparr> # vc_recordings c\<rparr>"

definition end_recording :: "view_context \<Rightarrow> string \<times> view_context" where
  "end_recording c =
     (case vc_recordings c of
        [] \<Rightarrow> ([], c)
      | finished # rest \<Rightarrow>
          (concat (map (\<lambda>(name, shown). read_text name shown) (rc_reads finished)),
           c\<lparr>vc_recordings := rest, vc_read_names := map fst (rc_reads finished),
             vc_replayable := rc_replayable finished\<rparr>))"

fun replay_from :: "string \<Rightarrow> string list \<Rightarrow> view_context \<Rightarrow> string option \<times> view_context" where
  "replay_from key [] c = (Some key, c)"
| "replay_from key (name # names) c =
     (let (found, c') = resolve name c in
      case found of
        None \<Rightarrow> (None, c')
      | Some v \<Rightarrow> replay_from (key @ read_text name (to_json v Compact True)) names c')"

definition replay :: "string list \<Rightarrow> view_context \<Rightarrow> string option \<times> view_context" where
  "replay names c = replay_from [] names c"

definition prune_recording :: "(string \<times> jvalue) list \<Rightarrow> recording \<Rightarrow> recording" where
  "prune_recording locals r = r\<lparr>rc_bound := filter (\<lambda>name. map_of locals name \<noteq> None) (rc_bound r)\<rparr>"

definition prune_bound :: "view_context \<Rightarrow> view_context" where
  "prune_bound c = c\<lparr>vc_recordings := map (prune_recording (vc_locals c)) (vc_recordings c)\<rparr>"

definition take_locals :: "view_context \<Rightarrow> (string \<times> jvalue) list \<times> view_context" where
  "take_locals c = (vc_locals c, prune_bound (c\<lparr>vc_locals := []\<rparr>))"

definition restore_locals :: "(string \<times> jvalue) list \<Rightarrow> view_context \<Rightarrow> view_context" where
  "restore_locals locals c = prune_bound (c\<lparr>vc_locals := locals\<rparr>)"

section \<open>The edit distance is the distance\<close>

text \<open>The distance by recursion on the two words, read from their ends.\<close>

fun levenshtein :: "string \<Rightarrow> string \<Rightarrow> nat" where
  "levenshtein [] ys = length ys"
| "levenshtein xs [] = length xs"
| "levenshtein (x # xs) (y # ys) =
     min (min (levenshtein (x # xs) ys + 1) (levenshtein xs (y # ys) + 1))
       (levenshtein xs ys + (if x = y then 0 else 1))"

lemma levenshtein_nil [simp]: "levenshtein xs [] = length xs"
  by (cases xs) simp_all

definition lev_rev :: "string \<Rightarrow> string \<Rightarrow> nat" where
  "lev_rev xs ys = levenshtein (rev xs) (rev ys)"

lemma lev_rev_snoc:
  "lev_rev (xs @ [x]) (ys @ [y]) =
     min (min (lev_rev (xs @ [x]) ys + 1) (lev_rev xs (ys @ [y]) + 1))
       (lev_rev xs ys + (if x = y then 0 else 1))"
  by (simp add: lev_rev_def)

lemma edit_cells_row:
  "edit_cells c (lev_rev (xs @ [c]) ys) (map (\<lambda>j. lev_rev xs (ys @ take j rs)) [0..<Suc (length rs)]) rs =
   map (\<lambda>j. lev_rev (xs @ [c]) (ys @ take (Suc j) rs)) [0..<length rs]"
proof (induction rs arbitrary: ys)
  case (Cons r rs)
  have row: "map (\<lambda>j. lev_rev xs (ys @ take j (r # rs))) [0..<Suc (length (r # rs))] =
      lev_rev xs ys # map (\<lambda>j. lev_rev xs ((ys @ [r]) @ take j rs)) [0..<Suc (length rs)]"
    by (simp add: map_upt_Suc del: upt_Suc)
  have next_row: "map (\<lambda>j. lev_rev xs ((ys @ [r]) @ take j rs)) [0..<Suc (length rs)] =
      lev_rev xs (ys @ [r]) # map (\<lambda>j. lev_rev xs ((ys @ [r]) @ take (Suc j) rs)) [0..<length rs]"
    by (simp add: map_upt_Suc del: upt_Suc)
  have cell: "min (min (lev_rev (xs @ [c]) ys + 1) (lev_rev xs (ys @ [r]) + 1))
      (lev_rev xs ys + (if c = r then 0 else 1)) = lev_rev (xs @ [c]) (ys @ [r])"
    by (simp add: lev_rev_snoc)
  have "edit_cells c (lev_rev (xs @ [c]) ys)
      (map (\<lambda>j. lev_rev xs (ys @ take j (r # rs))) [0..<Suc (length (r # rs))]) (r # rs) =
    lev_rev (xs @ [c]) (ys @ [r]) # edit_cells c (lev_rev (xs @ [c]) (ys @ [r]))
      (map (\<lambda>j. lev_rev xs ((ys @ [r]) @ take j rs)) [0..<Suc (length rs)]) rs"
    unfolding row next_row by (simp only: edit_cells.simps Let_def cell)
  also have "\<dots> = map (\<lambda>j. lev_rev (xs @ [c]) (ys @ take (Suc j) (r # rs))) [0..<length (r # rs)]"
    unfolding Cons.IH by (simp add: map_upt_Suc del: upt_Suc)
  finally show ?case .
qed simp

lemma edit_rows_row:
  "edit_rows (Suc (length xs)) (map (\<lambda>j. lev_rev xs (take j goal)) [0..<Suc (length goal)]) cs goal =
   map (\<lambda>j. lev_rev (xs @ cs) (take j goal)) [0..<Suc (length goal)]"
proof (induction cs arbitrary: xs)
  case (Cons c cs)
  have here: "Suc (length xs) = lev_rev (xs @ [c]) []"
    by (simp add: lev_rev_def)
  have "Suc (length xs) # edit_cells c (Suc (length xs)) (map (\<lambda>j. lev_rev xs (take j goal)) [0..<Suc (length goal)]) goal =
      map (\<lambda>j. lev_rev (xs @ [c]) (take j goal)) [0..<Suc (length goal)]"
    using edit_cells_row [of c xs "[]" goal] unfolding here
    by (simp add: map_upt_Suc del: upt_Suc)
  then show ?case
    using Cons.IH [of "xs @ [c]"] by simp
qed simp

text \<open>
  The distance behind "did you mean", computed row by row in two vectors, is the Levenshtein
  distance: the recursion over the two words.
\<close>

theorem edit_distance_levenshtein: "edit_distance name goal = levenshtein (rev name) (rev goal)"
proof -
  have "[0..<length goal + 1] = map (\<lambda>j. lev_rev [] (take j goal)) [0..<Suc (length goal)]"
    by (rule nth_equalityI) (simp_all add: lev_rev_def del: upt_Suc)
  then show ?thesis
    using edit_rows_row [of "[]" goal name]
    by (simp add: edit_distance_def lev_rev_def del: upt_Suc)
qed

section \<open>Suggestions are close\<close>

definition closest :: "string \<Rightarrow> string list \<Rightarrow> (string \<times> nat) option \<Rightarrow> bool" where
  "closest name names best \<longleftrightarrow>
     (case best of
        None \<Rightarrow> \<forall>n \<in> set names. n = name
      | Some (b, d) \<Rightarrow> b \<in> set names \<and> b \<noteq> name \<and> d = edit_distance name b \<and>
          (\<forall>n \<in> set names. n \<noteq> name \<longrightarrow> d \<le> edit_distance name n))"

lemma closest_consider:
  "closest name names best \<Longrightarrow> closest name (names @ [n]) (consider_candidate name n best)"
  by (auto simp: closest_def consider_candidate_def Let_def split: option.splits)

lemma closest_nearest_entry: "closest name names (nearest_entry name names)"
proof (induction names rule: rev_induct)
  case (snoc n names)
  then show ?case
    using closest_consider by (simp add: nearest_entry_def)
qed (simp add: closest_def nearest_entry_def)

section \<open>Replaying a recording\<close>

definition outer :: "view_context \<Rightarrow> string \<Rightarrow> jvalue option" where
  "outer c name = (case map_of (vc_locals c) name of Some v \<Rightarrow> Some v | None \<Rightarrow> map_of (vc_values c) name)"

definition read_effect :: "string \<Rightarrow> view_context \<Rightarrow> recording \<Rightarrow> recording" where
  "read_effect name c r = (case outer c name of None \<Rightarrow> r | Some v \<Rightarrow> add_read name (to_json v Compact True) r)"

lemma vc_record_map: "vc_record name v c = c\<lparr>vc_recordings := map (add_read name (to_json v Compact True)) (vc_recordings c)\<rparr>"
  by (cases c) (simp add: vc_record_def)

lemma resolve_outer:
  "resolve name c = (outer c name, c\<lparr>vc_recordings := map (read_effect name c) (vc_recordings c)\<rparr>)"
proof (cases "outer c name")
  case None
  then have "read_effect name c = (\<lambda>r. r)"
    by (simp add: read_effect_def fun_eq_iff)
  with None show ?thesis
    by (simp add: resolve_def lookup_local_def lookup_def outer_def split: option.splits)
next
  case (Some v)
  then have "read_effect name c = add_read name (to_json v Compact True)"
    by (simp add: read_effect_def fun_eq_iff)
  with Some show ?thesis
    by (auto simp: resolve_def lookup_local_def lookup_def outer_def vc_record_map split: option.splits)
qed

text \<open>What a fragment does to the context: it reads names and binds locals.\<close>

datatype fragment_step = Read_Name string | Bind_Local string jvalue

fun take_step :: "view_context \<Rightarrow> fragment_step \<Rightarrow> view_context" where
  "take_step c (Read_Name name) = snd (resolve name c)"
| "take_step c (Bind_Local name v) = set_local name v c"

definition run_fragment :: "fragment_step list \<Rightarrow> view_context \<Rightarrow> view_context" where
  "run_fragment steps c = foldl take_step c steps"

definition record_fragment :: "fragment_step list \<Rightarrow> view_context \<Rightarrow> string \<times> view_context" where
  "record_fragment steps c =
     end_recording (restore_locals (vc_locals c) (run_fragment steps (begin_recording c)))"

definition recording_ok :: "view_context \<Rightarrow> view_context \<Rightarrow> recording \<Rightarrow> bool" where
  "recording_ok c0 c r \<longleftrightarrow>
     vc_values c = vc_values c0 \<and>
     (\<forall>n. n \<notin> set (rc_bound r) \<longrightarrow> map_of (vc_locals c) n = map_of (vc_locals c0) n) \<and>
     (\<forall>(n, shown) \<in> set (rc_reads r). \<exists>v. outer c0 n = Some v \<and> shown = to_json v Compact True) \<and>
     rc_replayable r"

lemma recording_ok_read:
  assumes "recording_ok c0 c r"
  shows "recording_ok c0 (snd (resolve name c)) (read_effect name c r)"
proof (cases "outer c name")
  case None
  with assms show ?thesis by (simp add: read_effect_def resolve_outer recording_ok_def)
next
  case (Some v)
  show ?thesis
  proof (cases "name \<in> set (rc_bound r)")
    case True
    with assms Some show ?thesis by (simp add: read_effect_def resolve_outer recording_ok_def add_read_def)
  next
    case False
    then have outer0: "outer c0 name = Some v"
      using assms Some by (auto simp: recording_ok_def outer_def split: option.splits)
    moreover have "shown = to_json v Compact True" if "map_of (rc_reads r) name = Some shown" for shown
      using assms map_of_SomeD [OF that] outer0 by (fastforce simp: recording_ok_def)
    ultimately show ?thesis
      using assms Some False
      by (auto simp: read_effect_def resolve_outer recording_ok_def add_read_def split: option.split)
  qed
qed

lemma recording_ok_bind:
  assumes "recording_ok c0 c r"
  shows "recording_ok c0 (set_local name v c) (add_bound name r)"
  using assms
  by (auto simp: recording_ok_def set_local_def note_bound_def add_bound_def map_of_put_entry Let_def)

lemma run_fragment_ok:
  "vc_recordings c = r # rs \<Longrightarrow> recording_ok c0 c r \<Longrightarrow>
   \<exists>r' rs'. vc_recordings (run_fragment steps c) = r' # rs' \<and> recording_ok c0 (run_fragment steps c) r'"
proof (induction steps arbitrary: c r rs)
  case (Cons step steps)
  have "\<exists>r' rs'. vc_recordings (take_step c step) = r' # rs' \<and> recording_ok c0 (take_step c step) r'"
  proof (cases step)
    case (Read_Name name)
    then show ?thesis
      using recording_ok_read [OF Cons.prems(2), of name] Cons.prems(1) by (simp add: resolve_outer)
  next
    case (Bind_Local name v)
    then show ?thesis
      using recording_ok_bind [OF Cons.prems(2), of name v] Cons.prems(1)
      by (simp add: set_local_def note_bound_def Let_def)
  qed
  then show ?case
    using Cons.IH by (auto simp: run_fragment_def)
qed (auto simp: run_fragment_def)

lemma outer_recordings [simp]: "outer (c\<lparr>vc_recordings := rs\<rparr>) = outer c"
  by (auto simp: outer_def fun_eq_iff split: option.split)

lemma replay_reads:
  "\<forall>(n, shown) \<in> set reads. \<exists>v. outer c n = Some v \<and> shown = to_json v Compact True \<Longrightarrow>
   fst (replay_from key (map fst reads) c) = Some (key @ concat (map (\<lambda>(n, shown). read_text n shown) reads))"
proof (induction reads arbitrary: key c)
  case (Cons read reads)
  obtain n shown where read: "read = (n, shown)" by (cases read)
  then obtain v where v: "outer c n = Some v" "shown = to_json v Compact True"
    using Cons.prems by auto
  have "fst (replay_from (key @ read_text n shown) (map fst reads) (snd (resolve n c))) =
      Some ((key @ read_text n shown) @ concat (map (\<lambda>(n, shown). read_text n shown) reads))"
    using Cons.prems by (intro Cons.IH) (simp add: resolve_outer)
  then show ?case
    using v read by (simp add: resolve_outer)
qed simp

text \<open>
  What a recorded fragment read decides its cache key: whatever it read and bound, in any
  order, it is replayable, and replaying the names it read against the same page gives the very key
  the recording gave, so an unchanged page finds the fragment it rendered.
\<close>

theorem replay_reproduces_key:
  "vc_replayable (snd (record_fragment steps c)) \<and>
   fst (replay (vc_read_names (snd (record_fragment steps c))) (snd (record_fragment steps c))) =
     Some (fst (record_fragment steps c))"
proof -
  let ?c = "begin_recording c"
  let ?run = "run_fragment steps ?c"
  have "recording_ok c ?c \<lparr>rc_reads = [], rc_bound = [], rc_replayable = True\<rparr>"
    by (simp add: recording_ok_def begin_recording_def)
  then obtain r rs where run: "vc_recordings ?run = r # rs" "recording_ok c ?run r"
    using run_fragment_ok [of ?c] by (fastforce simp: begin_recording_def)
  have ended: "record_fragment steps c =
     (concat (map (\<lambda>(n, shown). read_text n shown) (rc_reads r)),
      (?run\<lparr>vc_locals := vc_locals c\<rparr>)\<lparr>vc_recordings := map (prune_recording (vc_locals c)) rs,
        vc_read_names := map fst (rc_reads r), vc_replayable := rc_replayable r\<rparr>)"
    by (simp add: record_fragment_def end_recording_def restore_locals_def prune_bound_def run(1)
        prune_recording_def)
  have "outer (snd (record_fragment steps c)) = outer c"
    using run(2) by (auto simp: ended outer_def recording_ok_def fun_eq_iff split: option.split)
  then have "fst (replay_from [] (map fst (rc_reads r)) (snd (record_fragment steps c))) =
      Some ([] @ concat (map (\<lambda>(n, shown). read_text n shown) (rc_reads r)))"
    using run(2) by (intro replay_reads) (simp add: recording_ok_def)
  then show ?thesis
    using run(2) by (simp add: ended replay_def recording_ok_def)
qed

text \<open>
  "Did you mean" names something the view offers: when it suggests, the suggestion is one of
  the values or functions, is not the name that was written, and none of the others is closer.
\<close>

theorem nearest_suggests:
  "nearest name c = [] \<or>
   (\<exists>best \<in> set (map fst (vc_values c) @ map fst (vc_functions c)).
      nearest name c = '' (did you mean '' @ [CHR 0x27] @ best @ [CHR 0x27] @ ''?)'' \<and>
      best \<noteq> name \<and> edit_distance name best \<le> 3 \<and>
      (\<forall>n \<in> set (map fst (vc_values c) @ map fst (vc_functions c)).
         n \<noteq> name \<longrightarrow> edit_distance name best \<le> edit_distance name n))"
proof -
  let ?names = "map fst (vc_values c) @ map fst (vc_functions c)"
  show ?thesis
  proof (cases "nearest_entry name ?names")
    case (Some entry)
    obtain best d where entry: "entry = (best, d)" by (cases entry)
    have "closest name ?names (Some (best, d))"
      using closest_nearest_entry [of name ?names] Some entry by simp
    then have best: "best \<in> set ?names \<and> best \<noteq> name \<and> d = edit_distance name best \<and>
      (\<forall>n \<in> set ?names. n \<noteq> name \<longrightarrow> d \<le> edit_distance name n)"
      unfolding closest_def option.case prod.case .
    have "nearest name c = (if best = [] \<or> 3 < d then []
        else '' (did you mean '' @ [CHR 0x27] @ best @ [CHR 0x27] @ ''?)'')"
      by (simp only: nearest_def Some entry option.case prod.case)
    then show ?thesis
      using best by (metis not_less)
  qed (simp add: nearest_def)
qed

theorem nearest_suggests_witness:
  "nearest ''titel'' (vc_set ''title'' VNull (vc_set ''url'' VNull empty_context)) = '' (did you mean '' @ [CHR 0x27] @ ''title'' @ [CHR 0x27] @ ''?)''"
proof -
  have "nearest ''titel'' (vc_set ''title'' VNull (vc_set ''url'' VNull empty_context)) \<noteq> []"
    "map fst (vc_values (vc_set ''title'' VNull (vc_set ''url'' VNull empty_context))) @
     map fst (vc_functions (vc_set ''title'' VNull (vc_set ''url'' VNull empty_context))) = [''url'', ''title'']"
    "\<not> edit_distance ''titel'' ''url'' \<le> 3"
    by code_simp+
  then show ?thesis
    using nearest_suggests [of "''titel''" "vc_set ''title'' VNull (vc_set ''url'' VNull empty_context)"] by auto
qed

end
