(* ===== verification/Expressions.thy ===== *)
theory Expressions
  imports ViewContexts
begin

text \<open>
  The expression language of templates (\<open>expression.cpp\<close>): the tree, the parser over the trimmed
  source, and the evaluator over a view context. \<open>xstate\<close> is the parser object: the source from
  \<open>position_\<close> on, \<open>position_\<close>, \<open>depth_\<close>, and the line and base column of the expression. The parser
  has fuel; the evaluator has the depth to which it may recurse. Addition and subtraction of
  integers that leave 64 bits are undefined in C++ and are an outcome of their own.
\<close>

section \<open>Trees\<close>

datatype binary_operator =
  Equal | Not_Equal | Less | Less_Or_Equal | Greater | Greater_Or_Equal | Logical_And | Logical_Or |
  Add | Subtract | Concatenate

record node_info =
  ni_height :: nat
  ni_line :: nat
  ni_column :: nat

datatype node =
    Literal_Null node_info
  | Literal_Boolean node_info bool
  | Literal_Integer node_info int
  | Literal_Number node_info double
  | Literal_String node_info string
  | Name node_info string
  | Variable node_info string
  | Member node_info string node
  | Call node_info node "node list"
  | Named_Argument node_info string node
  | Block node_info node
  | Map_Node node_info "node list"
  | Unary_Not node_info node
  | Binary node_info binary_operator node node

fun node_info_of :: "node \<Rightarrow> node_info" where
  "node_info_of (Literal_Null i) = i"
| "node_info_of (Literal_Boolean i _) = i"
| "node_info_of (Literal_Integer i _) = i"
| "node_info_of (Literal_Number i _) = i"
| "node_info_of (Literal_String i _) = i"
| "node_info_of (Name i _) = i"
| "node_info_of (Variable i _) = i"
| "node_info_of (Member i _ _) = i"
| "node_info_of (Call i _ _) = i"
| "node_info_of (Named_Argument i _ _) = i"
| "node_info_of (Block i _) = i"
| "node_info_of (Map_Node i _) = i"
| "node_info_of (Unary_Not i _) = i"
| "node_info_of (Binary i _ _ _) = i"

abbreviation node_height :: "node \<Rightarrow> nat" where
  "node_height node \<equiv> ni_height (node_info_of node)"

section \<open>The parser's state\<close>

definition max_expression_depth :: nat where "max_expression_depth = 64"

definition is_name_start :: "char \<Rightarrow> bool" where
  "is_name_start c \<longleftrightarrow> between (CHR ''a'') (CHR ''z'') c \<or> between (CHR ''A'') (CHR ''Z'') c \<or> c = CHR ''_''"

definition is_name_character :: "char \<Rightarrow> bool" where
  "is_name_character c \<longleftrightarrow> is_name_start c \<or> between (CHR ''0'') (CHR ''9'') c \<or> c = CHR ''-''"

record xstate =
  x_rest :: string
  x_position :: nat
  x_depth :: nat
  x_line :: nat
  x_base :: nat

definition x_error :: "string \<Rightarrow> xstate \<Rightarrow> parse_error" where
  "x_error message st = \<lparr>pe_message = message, pe_line = x_line st, pe_column = x_base st + x_position st\<rparr>"

definition too_deep_error :: "xstate \<Rightarrow> parse_error" where
  "too_deep_error st =
     x_error (''nested too deeply, past '' @ format_nat max_expression_depth @ '' levels'') st"

definition x_drop :: "nat \<Rightarrow> xstate \<Rightarrow> xstate" where
  "x_drop n st = st\<lparr>x_rest := drop n (x_rest st), x_position := x_position st + n\<rparr>"

definition x_blank :: "char \<Rightarrow> bool" where
  "x_blank c \<longleftrightarrow> c = CHR '' '' \<or> c = CHR 0x09"

definition skip_spaces :: "xstate \<Rightarrow> xstate" where
  "skip_spaces st = x_drop (length (takeWhile x_blank (x_rest st))) st"

definition x_peek :: "xstate \<Rightarrow> char option" where
  "x_peek st = (case x_rest st of [] \<Rightarrow> None | c # _ \<Rightarrow> Some c)"

text \<open>
  \<open>consume\<close>: the spaces before are skipped whether the token is there or not, and a word must be a
  whole word.
\<close>

definition x_consume :: "string \<Rightarrow> xstate \<Rightarrow> bool \<times> xstate" where
  "x_consume token st =
     (let st1 = skip_spaces st in
      if \<not> starts_with (x_rest st1) token then (False, st1)
      else if is_name_start (hd token) \<and>
              (case drop (length token) (x_rest st1) of [] \<Rightarrow> False | c # _ \<Rightarrow> is_name_character c)
      then (False, st1)
      else (True, x_drop (length token) st1))"

definition read_name :: "xstate \<Rightarrow> string \<times> xstate" where
  "read_name st =
     (let name = takeWhile is_name_character (x_rest st) in (name, x_drop (length name) st))"

definition make_info :: "nat \<Rightarrow> xstate \<Rightarrow> node_info" where
  "make_info height st = \<lparr>ni_height = height, ni_line = x_line st, ni_column = x_base st + x_position st\<rparr>"

text \<open>\<open>too_tall\<close> gives a node its height, one more than its tallest child, and refuses it past 64.\<close>

definition tallest :: "node list \<Rightarrow> nat" where
  "tallest children = fold (\<lambda>child h. max h (node_height child)) children 0"

definition checked :: "(nat \<Rightarrow> node) \<Rightarrow> node list \<Rightarrow> xstate \<Rightarrow> (xstate, node) outcome" where
  "checked build children st =
     (let height = tallest children + 1 in
      if max_expression_depth < height then Failed (too_deep_error st) else Done (build height) st)"

section \<open>Operators, by level\<close>

datatype level = Or_Level | And_Level | Comparison_Level | Additive_Level

fun level_tokens :: "level \<Rightarrow> (string \<times> binary_operator) list" where
  "level_tokens Or_Level = [(''||'', Logical_Or), (''or'', Logical_Or)]"
| "level_tokens And_Level = [(''&&'', Logical_And), (''and'', Logical_And)]"
| "level_tokens Comparison_Level =
     [(''=='', Equal), (''eq'', Equal), (''!='', Not_Equal), (''ne'', Not_Equal), (''<='', Less_Or_Equal),
      (''>='', Greater_Or_Equal), (''<'', Less), (''>'', Greater)]"
| "level_tokens Additive_Level = [(''~'', Concatenate), (''+'', Add), (''-'', Subtract)]"

fun first_operator :: "(string \<times> binary_operator) list \<Rightarrow> xstate \<Rightarrow> binary_operator option \<times> xstate" where
  "first_operator [] st = (None, st)"
| "first_operator ((token, op) # tokens) st =
     (let (found, st1) = x_consume token st in
      if found then (Some op, st1) else first_operator tokens st1)"

section \<open>What a function decides before it calls another\<close>

definition quoted_text :: "string \<Rightarrow> string" where
  "quoted_text s = [CHR 0x27] @ s @ [CHR 0x27]"

text \<open>\<open>parse_string\<close>: a backslash stands for the character after it, when there is one.\<close>

fun string_body :: "char \<Rightarrow> string \<Rightarrow> string \<times> string" where
  "string_body quote [] = ([], [])"
| "string_body quote [c] = (if c = quote then ([], [c]) else ([c], []))"
| "string_body quote (c # d # cs) =
     (if c = quote then ([], c # d # cs)
      else if c = CHR 0x5C then (let (body, rest) = string_body quote cs in (d # body, rest))
      else (let (body, rest) = string_body quote (d # cs) in (c # body, rest)))"

datatype primary_turn =
  No_Primary parse_error | Leaf node xstate | Group xstate | Map_Start node_info xstate | Block_Start xstate

definition string_turn :: "char \<Rightarrow> xstate \<Rightarrow> primary_turn" where
  "string_turn quote st =
     (let st1 = x_drop 1 st; (body, rest) = string_body quote (x_rest st1);
          st2 = x_drop (length (x_rest st1) - length rest) st1
      in if rest = [] then No_Primary (x_error ''unterminated string'' st2)
         else (let st3 = x_drop 1 st2 in Leaf (Literal_String (make_info 1 st3) body) st3))"

text \<open>
  \<open>parse_number\<close>. The result of \<open>std::from_chars\<close> is not looked at, so a number past 64 bits leaves
  the zero the variable started with.
\<close>

definition number_turn :: "xstate \<Rightarrow> primary_turn" where
  "number_turn st =
     (let digits = takeWhile is_digit (x_rest st);
          after = drop (length digits) (x_rest st);
          fraction = (case after of
              c # d # _ \<Rightarrow> if c = CHR ''.'' \<and> is_digit d then CHR ''.'' # takeWhile is_digit (tl after) else []
            | _ \<Rightarrow> []);
          token = digits @ fraction;
          st1 = x_drop (length token) st
      in if fraction \<noteq> [] then
           Leaf (Literal_Number (make_info 1 st1) (case to_double token of Some d \<Rightarrow> d | None \<Rightarrow> double_zero)) st1
         else Leaf (Literal_Integer (make_info 1 st1) (case from_chars_int64 token of Parsed i _ \<Rightarrow> i | _ \<Rightarrow> 0)) st1)"

definition word_turn :: "xstate \<Rightarrow> primary_turn" where
  "word_turn st =
     (let (word, st1) = read_name st in
      if word \<in> {''true'', ''false'', ''True'', ''False''} then
        Leaf (Literal_Boolean (make_info 1 st1) (word = ''true'' \<or> word = ''True'')) st1
      else if word = ''null'' \<or> word = ''Nil'' then Leaf (Literal_Null (make_info 1 st1)) st1
      else Leaf (Name (make_info 1 st) word) st1)"

definition looks_like_map :: "xstate \<Rightarrow> bool" where
  "looks_like_map st =
     (let inner = dropWhile x_blank (drop 1 (x_rest st)) in
      case inner of
        [] \<Rightarrow> False
      | c # _ \<Rightarrow>
          if c = CHR ''}'' then True
          else if \<not> is_name_start c then False
          else (case dropWhile x_blank (dropWhile is_name_character inner) of
                  [] \<Rightarrow> False
                | d # _ \<Rightarrow> d = CHR '':''))"

definition primary_turn_of :: "xstate \<Rightarrow> primary_turn" where
  "primary_turn_of st0 =
     (let st = skip_spaces st0 in
      case x_rest st of
        [] \<Rightarrow> No_Primary (x_error ''expected a value'' st)
      | c # _ \<Rightarrow>
          if c = CHR ''('' then Group (x_drop 1 st)
          else if c = CHR ''{'' then
            (if looks_like_map st then Map_Start (make_info 1 st) (skip_spaces (x_drop 1 st))
             else Block_Start (x_drop 1 st))
          else if c = CHR 0x22 \<or> c = CHR 0x27 then string_turn c st
          else if is_digit c then number_turn st
          else if c = CHR ''$'' then
            (let (name, st1) = read_name (x_drop 1 st) in
             if name = [] then No_Primary (x_error (''expected a name after '' @ quoted_text ''$'') st1)
             else Leaf (Variable (make_info 1 st1) name) st1)
          else if is_name_start c then word_turn st
          else if c = CHR ''='' then No_Primary (x_error ''assignment is not supported'' st)
          else No_Primary (x_error (''unexpected '' @ quoted_text [c]) st))"

datatype postfix_turn =
  Postfix_Stop xstate | Postfix_Fail parse_error | Postfix_Node node xstate | Postfix_Call node xstate

definition member_turn :: "string \<Rightarrow> node \<Rightarrow> bool \<Rightarrow> xstate \<Rightarrow> postfix_turn" where
  "member_turn name target callable st =
     (case checked (\<lambda>h. Member (make_info h st) name target) [target] st of
        Done node st1 \<Rightarrow> if callable \<and> x_peek st1 = Some (CHR ''('') then Postfix_Call node st1 else Postfix_Node node st1
      | Failed e \<Rightarrow> Postfix_Fail e
      | OutOfFuel \<Rightarrow> Postfix_Stop st)"

definition postfix_turn_of :: "node \<Rightarrow> xstate \<Rightarrow> postfix_turn" where
  "postfix_turn_of target st =
     (let (dot, st1) = x_consume ''.'' st in
      if dot then
        (let (name, st2) = read_name st1 in
         if name = [] then Postfix_Fail (x_error (''expected a name after '' @ quoted_text ''.'') st2)
         else member_turn name target True st2)
      else if x_peek st1 = Some (CHR ''<'') then
        (let (key, st2) = read_name (x_drop 1 st1) in
         if key \<noteq> [] \<and> x_peek st2 = Some (CHR ''>'') then member_turn key target False (x_drop 1 st2)
         else Postfix_Stop st1)
      else if x_peek st1 = Some (CHR ''('') then Postfix_Call target st1
      else Postfix_Stop st1)"

datatype argument_turn =
  Arg_Fail parse_error | Arg_Plain xstate | Arg_Leaf node xstate | Arg_Group string node_info xstate

definition argument_turn_of :: "xstate \<Rightarrow> argument_turn" where
  "argument_turn_of st0 =
     (let st = skip_spaces st0 in
      if x_peek st \<noteq> Some (CHR '':'') then Arg_Plain st
      else
        (let (name, st1) = read_name (x_drop 1 st) in
         if name = [] then Arg_Fail (x_error (''expected a name after '' @ quoted_text '':'') st1)
         else if x_peek st1 = Some (CHR ''<'') then
           (case find_pos (\<lambda>c. c = CHR ''>'') (x_rest st1) of
              None \<Rightarrow> Arg_Fail (x_error ''unterminated named argument'' st1)
            | Some closing \<Rightarrow>
                Arg_Leaf (Named_Argument (make_info 2 st1) name
                    (Literal_String (make_info 1 st1) (take (closing - 1) (drop 1 (x_rest st1)))))
                  (x_drop (closing + 1) st1))
         else if x_peek st1 = Some (CHR ''('') then Arg_Group name (make_info 1 st1) (x_drop 1 st1)
         else Arg_Leaf (Named_Argument (make_info 2 st1) name (Literal_String (make_info 1 st1) name)) st1))"

datatype map_turn = Map_End xstate | Map_Fail parse_error | Map_Key string xstate

definition map_turn_of :: "xstate \<Rightarrow> map_turn" where
  "map_turn_of st =
     (if x_rest st = [] \<or> x_peek st = Some (CHR ''}'') then Map_End st
      else
        (let (key, st1) = read_name st in
         if key = [] then Map_Fail (x_error ''expected a name as a map key'' st1)
         else
           (let (colon, st2) = x_consume '':'' st1 in
            if colon then Map_Key key st2
            else Map_Fail (x_error (''expected '' @ quoted_text '':'' @ '' after the map key '' @ quoted_text key) st2))))"

definition x_expect :: "string \<Rightarrow> string \<Rightarrow> 'a \<Rightarrow> xstate \<Rightarrow> (xstate, 'a) outcome" where
  "x_expect token message v st =
     (let (found, st1) = x_consume token st in if found then Done v st1 else Failed (x_error message st1))"

definition map_close :: "node_info \<Rightarrow> node list \<Rightarrow> xstate \<Rightarrow> (xstate, node) outcome" where
  "map_close info entries st =
     bind_outcome (x_expect ''}'' (''expected '' @ quoted_text ''}'' @ '' to close a map'') () st) (\<lambda>_ st1.
       checked (\<lambda>h. Map_Node (info\<lparr>ni_height := h\<rparr>) entries) entries st1)"

section \<open>The grammar\<close>

text \<open>The guard of \<open>Depth\<close>: counted going down, given back on the way up.\<close>

definition deeper :: "(xstate \<Rightarrow> (xstate, node) outcome) \<Rightarrow> xstate \<Rightarrow> (xstate, node) outcome" where
  "deeper body st =
     (if max_expression_depth < x_depth st + 1 then Failed (too_deep_error st)
      else bind_outcome (body (st\<lparr>x_depth := x_depth st + 1\<rparr>)) (\<lambda>node st'.
        Done node (st'\<lparr>x_depth := x_depth st' - 1\<rparr>)))"

function (sequential)
      parse_level :: "nat \<Rightarrow> level \<Rightarrow> xstate \<Rightarrow> (xstate, node) outcome"
  and parse_operand :: "nat \<Rightarrow> level \<Rightarrow> xstate \<Rightarrow> (xstate, node) outcome"
  and level_loop :: "nat \<Rightarrow> level \<Rightarrow> node \<Rightarrow> xstate \<Rightarrow> (xstate, node) outcome"
  and parse_unary :: "nat \<Rightarrow> xstate \<Rightarrow> (xstate, node) outcome"
  and parse_postfix :: "nat \<Rightarrow> xstate \<Rightarrow> (xstate, node) outcome"
  and postfix_loop :: "nat \<Rightarrow> node \<Rightarrow> xstate \<Rightarrow> (xstate, node) outcome"
  and parse_arguments :: "nat \<Rightarrow> xstate \<Rightarrow> (xstate, node list) outcome"
  and arguments_loop :: "nat \<Rightarrow> node list \<Rightarrow> xstate \<Rightarrow> (xstate, node list) outcome"
  and parse_argument :: "nat \<Rightarrow> xstate \<Rightarrow> (xstate, node) outcome"
  and parse_primary :: "nat \<Rightarrow> xstate \<Rightarrow> (xstate, node) outcome"
  and map_loop :: "nat \<Rightarrow> node_info \<Rightarrow> node list \<Rightarrow> xstate \<Rightarrow> (xstate, node) outcome" where
  "parse_level 0 level st = OutOfFuel"
| "parse_level (Suc n) level st =
     (if level = Or_Level
      then deeper (\<lambda>st'. bind_outcome (parse_operand n level st') (level_loop n level)) st
      else bind_outcome (parse_operand n level st) (level_loop n level))"
| "parse_operand 0 level st = OutOfFuel"
| "parse_operand (Suc n) level st =
     (case level of
        Or_Level \<Rightarrow> parse_level n And_Level st
      | And_Level \<Rightarrow> parse_level n Comparison_Level st
      | Comparison_Level \<Rightarrow> parse_level n Additive_Level st
      | Additive_Level \<Rightarrow> parse_unary n st)"
| "level_loop 0 level left st = OutOfFuel"
| "level_loop (Suc n) level left st =
     (case first_operator (level_tokens level) st of
        (None, st1) \<Rightarrow> Done left st1
      | (Some op, st1) \<Rightarrow>
          bind_outcome (parse_operand n level st1) (\<lambda>right st2.
            bind_outcome (checked (\<lambda>h. Binary (make_info h st2) op left right) [left, right] st2)
              (level_loop n level)))"
| "parse_unary 0 st = OutOfFuel"
| "parse_unary (Suc n) st =
     deeper (\<lambda>st'.
       case first_operator [(''!'', Equal), (''not'', Equal)] st' of
         (None, st1) \<Rightarrow> parse_postfix n st1
       | (Some _, st1) \<Rightarrow>
           bind_outcome (parse_unary n st1) (\<lambda>operand st2.
             checked (\<lambda>h. Unary_Not (make_info h st2) operand) [operand] st2)) st"
| "parse_postfix 0 st = OutOfFuel"
| "parse_postfix (Suc n) st = bind_outcome (parse_primary n st) (postfix_loop n)"
| "postfix_loop 0 target st = OutOfFuel"
| "postfix_loop (Suc n) target st =
     (case postfix_turn_of target st of
        Postfix_Stop st1 \<Rightarrow> Done target st1
      | Postfix_Fail e \<Rightarrow> Failed e
      | Postfix_Node node st1 \<Rightarrow> postfix_loop n node st1
      | Postfix_Call node st1 \<Rightarrow>
          bind_outcome (parse_arguments n st1) (\<lambda>arguments st2.
            bind_outcome (checked (\<lambda>h. Call (make_info h st2) node arguments) (node # arguments) st2)
              (postfix_loop n)))"
| "parse_arguments 0 st = OutOfFuel"
| "parse_arguments (Suc n) st =
     (let st1 = skip_spaces (x_drop 1 st) in
      if x_rest st1 = [] then Failed (x_error ''unterminated argument list'' st1)
      else if x_peek st1 = Some (CHR '')'') then Done [] (x_drop 1 st1)
      else arguments_loop n [] st1)"
| "arguments_loop 0 arguments st = OutOfFuel"
| "arguments_loop (Suc n) arguments st =
     bind_outcome (parse_argument n st) (\<lambda>argument st1.
       let (comma, st2) = x_consume '','' st1 in
       if comma then arguments_loop n (arguments @ [argument]) st2
       else x_expect '')'' (''expected '' @ quoted_text '','' @ '' or '' @ quoted_text '')'' @
              '' in an argument list'') (arguments @ [argument]) st2)"
| "parse_argument 0 st = OutOfFuel"
| "parse_argument (Suc n) st =
     (case argument_turn_of st of
        Arg_Fail e \<Rightarrow> Failed e
      | Arg_Leaf node st1 \<Rightarrow> Done node st1
      | Arg_Plain st1 \<Rightarrow> parse_level n Or_Level st1
      | Arg_Group name info st1 \<Rightarrow>
          bind_outcome (parse_level n Or_Level st1) (\<lambda>v st2.
            bind_outcome (x_expect '')'' (''expected '' @ quoted_text '')'' @ '' after a named argument'') v st2)
              (\<lambda>v st3. checked (\<lambda>h. Named_Argument (info\<lparr>ni_height := h\<rparr>) name v) [v] st3)))"
| "parse_primary 0 st = OutOfFuel"
| "parse_primary (Suc n) st =
     (case primary_turn_of st of
        No_Primary e \<Rightarrow> Failed e
      | Leaf node st1 \<Rightarrow> Done node st1
      | Group st1 \<Rightarrow>
          bind_outcome (parse_level n Or_Level st1) (x_expect '')'' (''expected '' @ quoted_text '')''))
      | Map_Start info st1 \<Rightarrow> map_loop n info [] st1
      | Block_Start st1 \<Rightarrow>
          bind_outcome (parse_level n Or_Level st1) (\<lambda>inner st2.
            bind_outcome (x_expect ''}'' (''expected '' @ quoted_text ''}'' @ '' to close a block'') inner st2)
              (\<lambda>inner st3. checked (\<lambda>h. Block (make_info h st3) inner) [inner] st3)))"
| "map_loop 0 info entries st = OutOfFuel"
| "map_loop (Suc n) info entries st =
     (case map_turn_of st of
        Map_End st1 \<Rightarrow> map_close info entries st1
      | Map_Fail e \<Rightarrow> Failed e
      | Map_Key key st1 \<Rightarrow>
          bind_outcome (parse_level n Or_Level st1) (\<lambda>v st2.
            bind_outcome (checked (\<lambda>h. Named_Argument (make_info h st2) key v) [v] st2) (\<lambda>entry st3.
              let (comma, st4) = x_consume '','' st3 in
              if comma then map_loop n info (entries @ [entry]) (skip_spaces st4)
              else map_close info (entries @ [entry]) st4)))"
  by pat_completeness auto

termination
  by (relation "measure (case_sum
        (case_sum (case_sum (\<lambda>(n, _). n) (\<lambda>(n, _). n)) (case_sum (\<lambda>(n, _). n) (case_sum (\<lambda>(n, _). n) (\<lambda>(n, _). n))))
        (case_sum (case_sum (\<lambda>(n, _). n) (case_sum (\<lambda>(n, _). n) (\<lambda>(n, _). n)))
           (case_sum (\<lambda>(n, _). n) (case_sum (\<lambda>(n, _). n) (\<lambda>(n, _). n)))))") auto

definition x_start :: "string \<Rightarrow> nat \<Rightarrow> nat \<Rightarrow> xstate" where
  "x_start source line column =
     \<lparr>x_rest = trim source, x_position = 0, x_depth = 0, x_line = line, x_base = column\<rparr>"

definition expression_fuel :: "xstate \<Rightarrow> nat" where
  "expression_fuel st = 16 * length (x_rest st) + 16"

definition parse_expression :: "string \<Rightarrow> nat \<Rightarrow> nat \<Rightarrow> (xstate, node) outcome" where
  "parse_expression source line column =
     (let st = x_start source line column in
      bind_outcome (parse_level (expression_fuel st) Or_Level st) (\<lambda>node st1.
        let st2 = skip_spaces st1 in
        case x_rest st2 of
          [] \<Rightarrow> Done node st2
        | c # _ \<Rightarrow>
            if c = CHR ''='' then Failed (x_error ''assignment is not supported'' st2)
            else Failed (x_error (''unexpected '' @ quoted_text [c]) st2)))"

section \<open>The evaluator\<close>

datatype 'a eval = Value 'a | Error parse_error | Undefined | Too_Deep

type_synonym 'a evaluation = "'a eval \<times> view_context"

fun bind_eval :: "'a evaluation \<Rightarrow> ('a \<Rightarrow> view_context \<Rightarrow> 'b evaluation) \<Rightarrow> 'b evaluation" where
  "bind_eval (Value v, c) f = f v c"
| "bind_eval (Error e, c) f = (Error e, c)"
| "bind_eval (Undefined, c) f = (Undefined, c)"
| "bind_eval (Too_Deep, c) f = (Too_Deep, c)"

definition error_at :: "node_info \<Rightarrow> string \<Rightarrow> view_context \<Rightarrow> 'a evaluation" where
  "error_at info message c =
     (Error \<lparr>pe_message = message, pe_line = ni_line info, pe_column = ni_column info\<rparr>, c)"

abbreviation is_string :: "jvalue \<Rightarrow> bool" where
  "is_string v \<equiv> type_of_value v = TString"

abbreviation is_integer :: "jvalue \<Rightarrow> bool" where
  "is_integer v \<equiv> type_of_value v = TInteger"

definition same_value :: "jvalue \<Rightarrow> jvalue \<Rightarrow> bool" where
  "same_value l r =
     (if is_string l \<or> is_string r then is_string l \<and> is_string r \<and> as_string l [] = as_string r []
      else if l = VNull \<or> r = VNull then l = VNull \<and> r = VNull
      else if type_of_value l = TBoolean \<or> type_of_value r = TBoolean then
        type_of_value l = TBoolean \<and> type_of_value r = TBoolean \<and> as_boolean l False = as_boolean r False
      else double_eq (as_number l double_zero) (as_number r double_zero))"

definition numeric :: "jvalue \<Rightarrow> bool" where
  "numeric v \<longleftrightarrow> type_of_value v = TInteger \<or> type_of_value v = TNumber"

definition compare_values :: "node_info \<Rightarrow> jvalue \<Rightarrow> jvalue \<Rightarrow> view_context \<Rightarrow> int evaluation" where
  "compare_values info l r c =
     (if is_string l \<and> is_string r then
        (Value (if as_string l [] < as_string r [] then - 1 else if as_string l [] = as_string r [] then 0 else 1), c)
      else if numeric l \<and> numeric r then
        (let a = as_number l double_zero; b = as_number r double_zero in
         (Value (if double_less a b then - 1 else if double_less b a then 1 else 0), c))
      else error_at info (''cannot compare '' @ type_name (type_of_value l) @ '' with '' @ type_name (type_of_value r)) c)"

fun to_text :: "jvalue \<Rightarrow> string" where
  "to_text (VBoolean b) = (if b then ''true'' else ''false'')"
| "to_text (VInteger i) = format_int i"
| "to_text (VNumber d) = format_double d"
| "to_text (VString s) = s"
| "to_text _ = []"

definition list_member :: "node_info \<Rightarrow> jvalue \<Rightarrow> string \<Rightarrow> view_context \<Rightarrow> jvalue evaluation" where
  "list_member info target name c =
     (if name = ''elems'' \<or> name = ''size'' \<or> name = ''count'' then (Value (VInteger (int64_of_size (value_size target))), c)
      else if name = ''first'' then (Value (value_at target 0), c)
      else if name = ''last'' then
        (Value (if value_size target = 0 then VNull else value_at target (value_size target - 1)), c)
      else error_at info (''a list has no '' @ quoted_text name) c)"

text \<open>Signed addition past 64 bits is undefined.\<close>

definition integer_result :: "int \<Rightarrow> view_context \<Rightarrow> jvalue evaluation" where
  "integer_result i c = (if in_int64 i then Value (VInteger i) else Undefined, c)"

definition int_of_value :: "jvalue \<Rightarrow> int" where
  "int_of_value v = (case v of VInteger i \<Rightarrow> i | _ \<Rightarrow> 0)"

text \<open>The operators that evaluate both sides.\<close>

definition apply_operator :: "node_info \<Rightarrow> binary_operator \<Rightarrow> jvalue \<Rightarrow> jvalue \<Rightarrow> view_context \<Rightarrow> jvalue evaluation" where
  "apply_operator info op l r c =
     (case op of
        Equal \<Rightarrow> (Value (VBoolean (same_value l r)), c)
      | Not_Equal \<Rightarrow> (Value (VBoolean (\<not> same_value l r)), c)
      | Concatenate \<Rightarrow> (Value (VString (to_text l @ to_text r)), c)
      | Add \<Rightarrow>
          if is_string l \<or> is_string r then (Value (VString (to_text l @ to_text r)), c)
          else if is_integer l \<and> is_integer r then integer_result (int_of_value l + int_of_value r) c
          else (Value (VNumber (double_add (as_number l double_zero) (as_number r double_zero))), c)
      | Subtract \<Rightarrow>
          if is_integer l \<and> is_integer r then integer_result (int_of_value l - int_of_value r) c
          else (Value (VNumber (double_sub (as_number l double_zero) (as_number r double_zero))), c)
      | _ \<Rightarrow>
          bind_eval (compare_values info l r c) (\<lambda>ordering c1.
            case op of
              Less \<Rightarrow> (Value (VBoolean (ordering < 0)), c1)
            | Less_Or_Equal \<Rightarrow> (Value (VBoolean (ordering \<le> 0)), c1)
            | Greater \<Rightarrow> (Value (VBoolean (ordering > 0)), c1)
            | Greater_Or_Equal \<Rightarrow> (Value (VBoolean (ordering \<ge> 0)), c1)
            | _ \<Rightarrow> error_at info ''unsupported operator'' c1))"

type_synonym evaluator = "node \<Rightarrow> view_context \<Rightarrow> jvalue evaluation"

definition evaluate_binary :: "evaluator \<Rightarrow> node_info \<Rightarrow> binary_operator \<Rightarrow> node \<Rightarrow> node \<Rightarrow> view_context \<Rightarrow> jvalue evaluation" where
  "evaluate_binary ev info op left right c =
     bind_eval (ev left c) (\<lambda>l c1.
       if op = Logical_And then (if \<not> truthy l then (Value l, c1) else ev right c1)
       else if op = Logical_Or then (if truthy l then (Value l, c1) else ev right c1)
       else bind_eval (ev right c1) (\<lambda>r c2. apply_operator info op l r c2))"

text \<open>A local, then a value.\<close>

definition read_plain :: "string \<Rightarrow> view_context \<Rightarrow> jvalue option \<times> view_context" where
  "read_plain name c =
     (let (local_value, c1) = lookup_local name c in
      case local_value of Some v \<Rightarrow> (Some v, c1) | None \<Rightarrow> lookup name c1)"

definition no_such_name :: "node_info \<Rightarrow> string \<Rightarrow> view_context \<Rightarrow> 'a evaluation" where
  "no_such_name info name c = error_at info (''no such name '' @ quoted_text name @ nearest name c) c"

text \<open>
  The arguments of a call, in order. A block is evaluated here like any other argument, and the
  name of a named argument goes with its value.
\<close>

fun argument_source :: "node \<Rightarrow> string \<times> node" where
  "argument_source (Block i inner) = ([], inner)"
| "argument_source (Named_Argument i name v) = (name, Named_Argument i name v)"
| "argument_source node = ([], node)"

fun evaluate_arguments :: "evaluator \<Rightarrow> node list \<Rightarrow> argument list \<Rightarrow> view_context \<Rightarrow> argument list evaluation" where
  "evaluate_arguments ev [] arguments c = (Value arguments, c)"
| "evaluate_arguments ev (node # nodes) arguments c =
     bind_eval (ev (snd (argument_source node)) c) (\<lambda>v c1.
       evaluate_arguments ev nodes (arguments @ [(fst (argument_source node), v)]) c1)"

fun callable_name :: "node \<Rightarrow> string option" where
  "callable_name (Name i name) = Some name"
| "callable_name (Member i name target) = Some name"
| "callable_name _ = None"

definition is_member :: "node \<Rightarrow> bool" where
  "is_member node \<longleftrightarrow> (case node of Member _ _ _ \<Rightarrow> True | _ \<Rightarrow> False)"

definition evaluate_call :: "evaluator \<Rightarrow> node_info \<Rightarrow> node \<Rightarrow> node list \<Rightarrow> view_context \<Rightarrow> jvalue evaluation" where
  "evaluate_call ev info target arguments c =
     (case callable_name target of
        None \<Rightarrow> error_at info ''only a name can be called'' c
      | Some name \<Rightarrow>
          if is_member target \<and> arguments = [] then ev target c
          else
            (case find_function name c of
               None \<Rightarrow>
                 (if arguments = [] then
                    (let (found, c1) = read_plain name c in
                     case found of Some v \<Rightarrow> (Value v, c1) | None \<Rightarrow> no_such_name info name c1)
                  else no_such_name info name c)
             | Some f \<Rightarrow>
                 bind_eval (evaluate_arguments ev arguments [] c) (\<lambda>values c1. (Value (f values), c1))))"

definition evaluate_member :: "node_info \<Rightarrow> string \<Rightarrow> jvalue \<Rightarrow> view_context \<Rightarrow> jvalue evaluation" where
  "evaluate_member info name v c =
     (if is_array v then list_member info v name c
      else if is_object v then (Value (get_member v name), c)
      else if is_string v \<and> (name = ''chars'' \<or> name = ''elems'') then (Value (VInteger (int64_of_size (value_size v))), c)
      else error_at info (''cannot read '' @ quoted_text name @ '' from '' @ type_name (type_of_value v)) c)"

fun entry_parts :: "node \<Rightarrow> string \<times> node" where
  "entry_parts (Named_Argument i name v) = (name, v)"
| "entry_parts node = ([], node)"

fun evaluate_entries :: "evaluator \<Rightarrow> node list \<Rightarrow> jvalue \<Rightarrow> view_context \<Rightarrow> jvalue evaluation" where
  "evaluate_entries ev [] out c = (Value out, c)"
| "evaluate_entries ev (entry # entries) out c =
     bind_eval (ev (snd (entry_parts entry)) c) (\<lambda>v c1.
       evaluate_entries ev entries (set_member out (fst (entry_parts entry)) v) c1)"

text \<open>One call of \<open>evaluate\<close>, with \<open>ev\<close> for the calls it makes.\<close>

fun evaluate_node :: "evaluator \<Rightarrow> node \<Rightarrow> view_context \<Rightarrow> jvalue evaluation" where
  "evaluate_node ev (Literal_Null i) c = (Value VNull, c)"
| "evaluate_node ev (Literal_Boolean i b) c = (Value (VBoolean b), c)"
| "evaluate_node ev (Literal_Integer i n) c = (Value (VInteger n), c)"
| "evaluate_node ev (Literal_Number i d) c = (Value (VNumber d), c)"
| "evaluate_node ev (Literal_String i s) c = (Value (VString s), c)"
| "evaluate_node ev (Variable i name) c =
     (let (found, c1) = lookup_local name c in
      case found of
        Some v \<Rightarrow> (Value v, c1)
      | None \<Rightarrow> error_at i (''no such local '' @ quoted_text (CHR ''$'' # name)) c1)"
| "evaluate_node ev (Name i name) c =
     (let (found, c1) = read_plain name c in
      case found of
        Some v \<Rightarrow> (Value v, c1)
      | None \<Rightarrow>
          (case find_function name c1 of
             Some f \<Rightarrow> (Value (f []), c1)
           | None \<Rightarrow> no_such_name i name c1))"
| "evaluate_node ev (Member i name target) c = bind_eval (ev target c) (evaluate_member i name)"
| "evaluate_node ev (Named_Argument i name v) c = ev v c"
| "evaluate_node ev (Block i inner) c = error_at i ''a block is only allowed as an argument'' c"
| "evaluate_node ev (Map_Node i entries) c = evaluate_entries ev entries (VObject []) c"
| "evaluate_node ev (Unary_Not i operand) c =
     bind_eval (ev operand c) (\<lambda>v c1. (Value (VBoolean (\<not> truthy v)), c1))"
| "evaluate_node ev (Binary i op left right) c = evaluate_binary ev i op left right c"
| "evaluate_node ev (Call i target arguments) c = evaluate_call ev i target arguments c"

text \<open>\<open>evaluate\<close>, allowed to recurse to a given depth.\<close>

primrec evaluate :: "nat \<Rightarrow> evaluator" where
  "evaluate 0 = (\<lambda>node c. (Too_Deep, c))"
| "evaluate (Suc depth) = evaluate_node (evaluate depth)"

end
