(* ===== verification/Templates.thy ===== *)
theory Templates
  imports Expressions
begin

text \<open>
  HAML templates and their parser (\<open>haml.h\<close>, \<open>haml.cpp\<close>). A template is a tree of nodes, one per
  line of the source; the fields of the C++ \<open>Node\<close> are the record \<open>haml_info\<close> and its children
  are the list beside it. \<open>lines_\<close> from \<open>position_\<close> on is a list of lines. Parsing a node and
  parsing the lines below it call each other; both stop because every node takes its line.
\<close>

section \<open>The tree\<close>

datatype segment = Literal string | Hole node

record haml_attribute =
  ha_name :: string
  ha_value :: "segment list"
  ha_boolean :: bool

datatype haml_kind =
  Root_Node | Element_Node | Text_Node | Output_Node | Control_Node | Filter_Node | Doctype_Node | Comment_Node

datatype control_kind = If_Control | Elsif_Control | Else_Control | Unless_Control | For_Control

record haml_info =
  hi_kind :: haml_kind
  hi_tag :: string
  hi_classes :: "string list"
  hi_id :: string
  hi_attributes :: "haml_attribute list"
  hi_self_closing :: bool
  hi_keeps_whitespace :: bool
  hi_text :: "segment list"
  hi_value :: "node option"
  hi_escaped :: bool
  hi_control :: control_kind
  hi_loop_variable :: string
  hi_filter :: string
  hi_line :: nat

datatype haml_node = Haml_Node haml_info "haml_node list"

fun haml_info_of :: "haml_node \<Rightarrow> haml_info" where
  "haml_info_of (Haml_Node i children) = i"

fun haml_children :: "haml_node \<Rightarrow> haml_node list" where
  "haml_children (Haml_Node i children) = children"

text \<open>What a \<open>Node\<close> is before anything is written into it.\<close>

definition new_node :: haml_info where
  "new_node = \<lparr>hi_kind = Root_Node, hi_tag = [], hi_classes = [], hi_id = [], hi_attributes = [],
     hi_self_closing = False, hi_keeps_whitespace = False, hi_text = [], hi_value = None,
     hi_escaped = True, hi_control = If_Control, hi_loop_variable = [], hi_filter = [], hi_line = 1\<rparr>"

definition node_at :: "haml_kind \<Rightarrow> nat \<Rightarrow> haml_info" where
  "node_at kind number = new_node\<lparr>hi_kind := kind, hi_line := number\<rparr>"

section \<open>Results\<close>

type_synonym 'a parsed = "parse_error + 'a"

fun bind_parsed :: "'a parsed \<Rightarrow> ('a \<Rightarrow> 'b parsed) \<Rightarrow> 'b parsed" where
  "bind_parsed (Inl e) k = Inl e"
| "bind_parsed (Inr x) k = k x"

lemma bind_parsed_Inr [outcome_simps]: "bind_parsed m k = Inr y \<longleftrightarrow> (\<exists>x. m = Inr x \<and> k x = Inr y)"
  by (cases m) auto

lemma bind_parsed_cong [fundef_cong]:
  "m = m' \<Longrightarrow> (\<And>x. m' = Inr x \<Longrightarrow> k x = k' x) \<Longrightarrow> bind_parsed m k = bind_parsed m' k'"
  by (cases m') auto

text \<open>
  An expression of a template. The parser of expressions always has fuel enough
  (\<open>parse_expression_total\<close>), so the last branch is never taken.
\<close>

definition template_expression :: "string \<Rightarrow> nat \<Rightarrow> nat \<Rightarrow> node parsed" where
  "template_expression source line column =
     (case parse_expression source line column of
        Done node st \<Rightarrow> Inr node
      | Failed e \<Rightarrow> Inl e
      | OutOfFuel \<Rightarrow> Inl \<lparr>pe_message = [], pe_line = 0, pe_column = 0\<rparr>)"

section \<open>Lines\<close>

definition tag_character :: "char \<Rightarrow> bool" where
  "tag_character c \<longleftrightarrow>
     between (CHR ''a'') (CHR ''z'') c \<or> between (CHR ''A'') (CHR ''Z'') c \<or>
     between (CHR ''0'') (CHR ''9'') c \<or> c = CHR ''-'' \<or> c = CHR ''_''"

record haml_line =
  hl_indent :: nat
  hl_content :: string
  hl_text :: string
  hl_number :: nat
  hl_blank :: bool

definition indent_character :: "char \<Rightarrow> bool" where
  "indent_character c \<longleftrightarrow> c = CHR '' '' \<or> c = CHR 0x09"

definition source_line :: "nat \<Rightarrow> string \<Rightarrow> haml_line" where
  "source_line number raw =
     (if trim raw = [] then \<lparr>hl_indent = 0, hl_content = [], hl_text = [], hl_number = number, hl_blank = True\<rparr>
      else (let indent = length (takeWhile indent_character raw) in
        \<lparr>hl_indent = indent, hl_content = trim_end (drop indent raw), hl_text = trim_end raw,
         hl_number = number, hl_blank = False\<rparr>))"

definition source_lines :: "string \<Rightarrow> haml_line list" where
  "source_lines source =
     (let raws = split_lines source in map2 source_line [1..<Suc (length raws)] raws)"

abbreviation skip_blank :: "haml_line list \<Rightarrow> haml_line list" where
  "skip_blank \<equiv> dropWhile hl_blank"

section \<open>Blocks that keep their whitespace\<close>

definition preserves_whitespace :: "string \<Rightarrow> bool" where
  "preserves_whitespace tag \<longleftrightarrow> tag = ''pre'' \<or> tag = ''textarea''"

text \<open>The name after a bracket, whether it closes, and what follows it.\<close>

definition bracket_name :: "string \<Rightarrow> bool \<times> string \<times> string" where
  "bracket_name rest =
     (let closing = (rest \<noteq> [] \<and> hd rest = CHR ''/'');
          inside = (if closing then tl rest else rest)
      in (closing, takeWhile tag_character inside, dropWhile tag_character inside))"

lemma bracket_name_shorter: "bracket_name rest = (closing, name, rest') \<Longrightarrow> length rest' \<le> length rest"
  using length_dropWhile_le [of tag_character rest] length_dropWhile_le [of tag_character "tl rest"]
  by (auto simp: bracket_name_def Let_def split: if_splits)

function unclosed_tag_from :: "string \<Rightarrow> string \<Rightarrow> string" where
  "unclosed_tag_from opened content =
     (case dropWhile (\<lambda>c. c \<noteq> CHR ''<'') content of
        [] \<Rightarrow> opened
      | _ # rest \<Rightarrow>
          (case bracket_name rest of
             (closing, name, rest') \<Rightarrow>
               unclosed_tag_from
                 (if \<not> preserves_whitespace name then opened
                  else if \<not> closing then name
                  else if name = opened then [] else opened) rest'))"
  by pat_completeness auto

lemma dropWhile_Cons_length: "dropWhile P xs = y # ys \<Longrightarrow> length ys < length xs"
  by (metis length_dropWhile_le length_Cons less_le_trans lessI)

termination unclosed_tag_from
  by (relation "measure (\<lambda>(_, content). length content)")
    (auto dest!: bracket_name_shorter [OF sym] dropWhile_Cons_length)

declare unclosed_tag_from.simps [simp del]

definition unclosed_preserved_tag :: "string \<Rightarrow> string" where
  "unclosed_preserved_tag content = unclosed_tag_from [] content"

text \<open>The smallest indentation; a block of blank lines has none, and nothing asks for it.\<close>

definition block_base :: "haml_line list \<Rightarrow> nat" where
  "block_base block =
     (case filter (\<lambda>line. \<not> hl_blank line) block of
        [] \<Rightarrow> 0
      | first # rest \<Rightarrow> fold (\<lambda>line base. min base (hl_indent line)) rest (hl_indent first))"

definition block_text :: "haml_line list \<Rightarrow> string" where
  "block_text block =
     join_with (CHR 0x0A)
       (map (\<lambda>line. if hl_blank line then [] else drop (block_base block) (hl_text line)) block)"

text \<open>The lines under a line indented to \<open>indent\<close>, without the blank ones that trail them.\<close>

definition block_end :: "nat \<Rightarrow> haml_line list \<Rightarrow> nat" where
  "block_end indent lines =
     (case find_last_pos (\<lambda>line. \<not> hl_blank line)
         (takeWhile (\<lambda>line. hl_blank line \<or> indent < hl_indent line) lines) of
        None \<Rightarrow> 0
      | Some final \<Rightarrow> Suc final)"

definition markup_block_end :: "string \<Rightarrow> haml_line list \<Rightarrow> nat" where
  "markup_block_end tag lines =
     (case find_pos (\<lambda>line. contains (hl_content line) (''</'' @ tag @ ''>'')) lines of
        None \<Rightarrow> length lines
      | Some closing \<Rightarrow> Suc closing)"

section \<open>Interpolated text\<close>

definition line_error :: "haml_line \<Rightarrow> string \<Rightarrow> nat \<Rightarrow> 'a parsed" where
  "line_error line message column =
     Inl \<lparr>pe_message = message, pe_line = hl_number line, pe_column = column\<rparr>"

text \<open>The source of a hole, up to the brace that closes it, and what follows that brace.\<close>

fun hole_source :: "nat \<Rightarrow> string \<Rightarrow> (string \<times> string) option" where
  "hole_source depth [] = None"
| "hole_source depth (c # rest) =
     (if c = CHR ''}'' \<and> depth = 1 then Some ([], rest)
      else map_option (\<lambda>(source, after). (c # source, after))
        (hole_source (if c = CHR ''{'' then depth + 1 else if c = CHR ''}'' then depth - 1 else depth) rest))"

lemma hole_source_length:
  "hole_source depth rest = Some (source, after) \<Longrightarrow> length rest = length source + 1 + length after"
  by (induction depth rest arbitrary: source after rule: hole_source.induct) (auto split: if_splits)

definition literal_part :: "string \<Rightarrow> segment list" where
  "literal_part literal = (if literal = [] then [] else [Literal literal])"

function interpolated_from :: "haml_line \<Rightarrow> nat \<Rightarrow> string \<Rightarrow> string \<Rightarrow> segment list \<Rightarrow> segment list parsed" where
  "interpolated_from line index rest literal parts =
     (case rest of
        [] \<Rightarrow> Inr (parts @ literal_part literal)
      | c # rest1 \<Rightarrow>
          if \<not> starts_with rest ''#{'' then interpolated_from line (index + 1) rest1 (literal @ [c]) parts
          else
            (case hole_source 1 (drop 2 rest) of
               None \<Rightarrow> line_error line (''unterminated '' @ quoted_text ''#{'') (index + 1)
             | Some (source, after) \<Rightarrow>
                 bind_parsed (template_expression source (hl_number line) (index + 1)) (\<lambda>hole.
                   interpolated_from line (index + length source + 3) after []
                     (parts @ literal_part literal @ [Hole hole]))))"
  by pat_completeness auto
termination
  by (relation "measure (\<lambda>(_, _, rest, _, _). length rest)") (auto dest!: hole_source_length)

declare interpolated_from.simps [simp del]

definition parse_interpolated :: "haml_line \<Rightarrow> string \<Rightarrow> segment list parsed" where
  "parse_interpolated line content = interpolated_from line 0 content [] []"

section \<open>Attribute lists\<close>

text \<open>How many characters of an attribute list come before the one that closes it.\<close>

fun attributes_end :: "char \<Rightarrow> char \<Rightarrow> nat \<Rightarrow> char option \<Rightarrow> string \<Rightarrow> nat option" where
  "attributes_end opener closer depth quote [] = None"
| "attributes_end opener closer depth quote (c # rest) =
     (case quote of
        Some q \<Rightarrow> map_option Suc (attributes_end opener closer depth (if c = q then None else quote) rest)
      | None \<Rightarrow>
          if c = CHR 0x22 \<or> c = CHR 0x27 then map_option Suc (attributes_end opener closer depth (Some c) rest)
          else if c = opener then map_option Suc (attributes_end opener closer (depth + 1) None rest)
          else if c = closer then
            (if depth - 1 = 0 then Some 0 else map_option Suc (attributes_end opener closer (depth - 1) None rest))
          else map_option Suc (attributes_end opener closer depth None rest))"

text \<open>A name, quoted or not, and what follows it.\<close>

definition attribute_name :: "string \<Rightarrow> string \<times> string" where
  "attribute_name rest =
     (if rest \<noteq> [] \<and> (hd rest = CHR 0x22 \<or> hd rest = CHR 0x27) then
        (takeWhile (\<lambda>c. c \<noteq> hd rest) (tl rest), drop 1 (dropWhile (\<lambda>c. c \<noteq> hd rest) (tl rest)))
      else (takeWhile tag_character rest, dropWhile tag_character rest))"

text \<open>The value that follows a separator, up to a comma outside quotes and brackets.\<close>

fun attribute_value_length :: "int \<Rightarrow> char option \<Rightarrow> string \<Rightarrow> nat" where
  "attribute_value_length depth quote [] = 0"
| "attribute_value_length depth quote (c # rest) =
     (case quote of
        Some q \<Rightarrow> Suc (attribute_value_length depth (if c = q then None else quote) rest)
      | None \<Rightarrow>
          if c = CHR 0x22 \<or> c = CHR 0x27 then Suc (attribute_value_length depth (Some c) rest)
          else if c \<in> set ''({['' then Suc (attribute_value_length (depth + 1) None rest)
          else if c \<in> set '')}]'' then Suc (attribute_value_length (depth - 1) None rest)
          else if c = CHR '','' \<and> depth = 0 then 0
          else Suc (attribute_value_length depth None rest))"

definition attribute_gap :: "char \<Rightarrow> bool" where
  "attribute_gap c \<longleftrightarrow> c = CHR '' '' \<or> c = CHR '','' \<or> c = CHR 0x09"

text \<open>One attribute of a list: a bare name, or a name and the source of its value.\<close>

datatype attribute_turn = No_More | No_Name | Bare string string | Valued string string string

definition attribute_turn_of :: "string \<Rightarrow> attribute_turn" where
  "attribute_turn_of body =
     (let rest = dropWhile attribute_gap body in
      if rest = [] then No_More
      else
        (case attribute_name rest of
           (name, rest1) \<Rightarrow>
             if name = [] then No_Name
             else
               (let rest2 = dropWhile indent_character rest1;
                    separator = (if starts_with rest2 ''=>'' then 2
                      else if rest2 \<noteq> [] \<and> (hd rest2 = CHR '':'' \<or> hd rest2 = CHR ''='') then 1 else 0);
                    rest3 = drop separator rest2;
                    n = attribute_value_length 0 None rest3
                in if separator = 0 then Bare name rest2
                   else Valued name (trim (take n rest3)) (drop n rest3))))"

lemma length_trim_le: "length (trim s) \<le> length s"
  unfolding trim_def trim_end_def trim_start_def by (auto split: option.splits)

lemma dropWhile_length_less: "takeWhile P xs \<noteq> [] \<Longrightarrow> length (dropWhile P xs) < length xs"
  by (metis length_append length_greater_0_conv less_add_same_cancel2 takeWhile_dropWhile_id)

lemma attribute_name_shorter:
  assumes "attribute_name rest = (name, rest')" and "name \<noteq> []"
  shows "length rest' < length rest"
proof (cases "rest \<noteq> [] \<and> (hd rest = CHR 0x22 \<or> hd rest = CHR 0x27)")
  case True
  then have "rest' = drop 1 (dropWhile (\<lambda>c. c \<noteq> hd rest) (tl rest))"
    using assms by (auto simp: attribute_name_def)
  then have "length rest' \<le> length (tl rest)"
    by (metis diff_le_self le_trans length_drop length_dropWhile_le)
  with True show ?thesis
    by (cases rest) auto
next
  case False
  then show ?thesis
    using assms dropWhile_length_less by (auto simp: attribute_name_def)
qed

lemma attribute_turn_shorter:
  "attribute_turn_of body = Bare name rest \<Longrightarrow> length rest < length body"
  "attribute_turn_of body = Valued name raw rest \<Longrightarrow> length rest < length body \<and> length raw < length body"
proof -
  let ?rest = "dropWhile attribute_gap body"
  obtain name1 rest1 where read: "attribute_name ?rest = (name1, rest1)"
    by (cases "attribute_name ?rest")
  have "length (dropWhile indent_character rest1) < length body" if "name1 \<noteq> []"
    using attribute_name_shorter [OF read that]
    by (meson le_less_trans length_dropWhile_le less_le_trans)
  then have shorter: "length (drop n (dropWhile indent_character rest1)) < length body" if "name1 \<noteq> []" for n
    using that by (simp add: less_imp_diff_less)
  show "length rest < length body" if "attribute_turn_of body = Bare name rest"
    using that shorter [of 0] by (auto simp: attribute_turn_of_def Let_def read split: if_splits)
  show "length rest < length body \<and> length raw < length body" if valued: "attribute_turn_of body = Valued name raw rest"
  proof -
    obtain k n where "name1 \<noteq> []" "raw = trim (take n (drop k (dropWhile indent_character rest1)))"
      "rest = drop n (drop k (dropWhile indent_character rest1))"
      using valued by (auto simp: attribute_turn_of_def Let_def read split: if_splits simp del: drop_drop)
    then show ?thesis
      using shorter [of k] shorter [of "n + k"] length_trim_le [of "take n (drop k (dropWhile indent_character rest1))"]
      by (auto simp: min_def simp del: length_drop split: if_splits)
  qed
qed

definition joined_name :: "string \<Rightarrow> string \<Rightarrow> string" where
  "joined_name prefix name = (if prefix = [] then name else prefix @ ''-'' @ name)"

definition is_quoted :: "string \<Rightarrow> bool" where
  "is_quoted raw \<longleftrightarrow> 2 \<le> length raw \<and> (hd raw = CHR 0x22 \<or> hd raw = CHR 0x27) \<and> last raw = hd raw"

definition is_hash :: "string \<Rightarrow> bool" where
  "is_hash raw \<longleftrightarrow> 2 \<le> length raw \<and> hd raw = CHR ''{'' \<and> last raw = CHR ''}''"

definition attribute_segments :: "haml_line \<Rightarrow> string \<Rightarrow> segment list parsed" where
  "attribute_segments line raw =
     (if is_quoted raw then parse_interpolated line (butlast (tl raw))
      else bind_parsed (template_expression raw (hl_number line) (hl_indent line + 1)) (\<lambda>hole. Inr [Hole hole]))"

function attribute_body ::
  "haml_line \<Rightarrow> string \<Rightarrow> string \<Rightarrow> haml_attribute list \<Rightarrow> haml_attribute list parsed" where
  "attribute_body line prefix body attributes =
     (case attribute_turn_of body of
        No_More \<Rightarrow> Inr attributes
      | No_Name \<Rightarrow> line_error line ''expected an attribute name'' 1
      | Bare name rest \<Rightarrow>
          attribute_body line prefix rest
            (attributes @ [\<lparr>ha_name = joined_name prefix name, ha_value = [], ha_boolean = True\<rparr>])
      | Valued name raw rest \<Rightarrow>
          if is_hash raw then
            bind_parsed (attribute_body line (joined_name prefix name) (butlast (tl raw)) attributes)
              (\<lambda>attributes'. attribute_body line prefix rest attributes')
          else
            bind_parsed (attribute_segments line raw) (\<lambda>parts.
              attribute_body line prefix rest
                (attributes @ [\<lparr>ha_name = joined_name prefix name, ha_value = parts, ha_boolean = False\<rparr>])))"
  by pat_completeness auto
termination
  by (relation "measure (\<lambda>(_, _, body, _). length body)") (auto dest: attribute_turn_shorter)

declare attribute_body.simps [simp del]

section \<open>The nodes a line makes\<close>

definition build_text :: "haml_line \<Rightarrow> string \<Rightarrow> haml_node parsed" where
  "build_text line content =
     bind_parsed (parse_interpolated line content) (\<lambda>parts.
       Inr (Haml_Node ((node_at Text_Node (hl_number line))\<lparr>hi_text := parts\<rparr>) []))"

definition build_output :: "haml_line \<Rightarrow> string \<Rightarrow> bool \<Rightarrow> haml_node parsed" where
  "build_output line source escaped =
     bind_parsed (template_expression source (hl_number line) (hl_indent line + 1)) (\<lambda>v.
       Inr (Haml_Node ((node_at Output_Node (hl_number line))\<lparr>hi_escaped := escaped, hi_value := Some v\<rparr>) []))"

text \<open>The branch of \<open>build\<close> for a line that begins with \<open>=\<close> or \<open>!=\<close>.\<close>

definition build_output_line :: "haml_line \<Rightarrow> string \<Rightarrow> haml_node parsed" where
  "build_output_line line content =
     (let escaped = (hd content = CHR ''='')
      in build_output line (trim (drop (if escaped then 1 else 2) content)) escaped)"

fun control_keyword :: "string \<Rightarrow> control_kind option" where
  "control_keyword keyword =
     (if keyword = ''if'' then Some If_Control
      else if keyword = ''elsif'' then Some Elsif_Control
      else if keyword = ''else'' then Some Else_Control
      else if keyword = ''unless'' then Some Unless_Control
      else if keyword = ''for'' then Some For_Control else None)"

declare control_keyword.simps [simp del]

definition build_for :: "haml_line \<Rightarrow> string \<Rightarrow> haml_node parsed" where
  "build_for line rest =
     (case find_sub ''->'' rest of
        None \<Rightarrow> line_error line (''a for loop needs '' @ quoted_text ''-> $name'' @ '' to say what each item is called'') 1
      | Some arrow \<Rightarrow>
          (let written = trim (drop (arrow + 2) rest);
               variable = (if starts_with written ''$'' then tl written else written)
           in if variable = [] then line_error line (''a for loop needs a name after '' @ quoted_text ''->'') 1
              else bind_parsed (template_expression (trim (take arrow rest)) (hl_number line) (hl_indent line + 1)) (\<lambda>v.
                Inr (Haml_Node ((node_at Control_Node (hl_number line))
                  \<lparr>hi_control := For_Control, hi_loop_variable := variable, hi_value := Some v\<rparr>) []))))"

definition build_control :: "haml_line \<Rightarrow> string \<Rightarrow> haml_node parsed" where
  "build_control line source =
     (let keyword = takeWhile (\<lambda>c. \<not> indent_character c) source;
          rest = trim (dropWhile (\<lambda>c. \<not> indent_character c) source)
      in case control_keyword keyword of
           None \<Rightarrow> line_error line (quoted_text keyword @ '' is not something a template can do'') 1
         | Some Else_Control \<Rightarrow>
             Inr (Haml_Node ((node_at Control_Node (hl_number line))\<lparr>hi_control := Else_Control\<rparr>) [])
         | Some For_Control \<Rightarrow> build_for line rest
         | Some control \<Rightarrow>
             bind_parsed (template_expression rest (hl_number line) (hl_indent line + 1)) (\<lambda>v.
               Inr (Haml_Node ((node_at Control_Node (hl_number line))
                 \<lparr>hi_control := control, hi_value := Some v\<rparr>) [])))"

text \<open>The classes and the id written after the tag. A column counts from the line's content.\<close>

function element_names :: "haml_line \<Rightarrow> string \<Rightarrow> string \<Rightarrow> haml_info \<Rightarrow> (haml_info \<times> string) parsed" where
  "element_names line content rest info =
     (case rest of
        [] \<Rightarrow> Inr (info, rest)
      | kind # rest1 \<Rightarrow>
          if kind = CHR ''.'' \<or> kind = CHR ''#'' then
            (let name = takeWhile tag_character rest1 in
             if name = [] then
               line_error line (''expected a name after '' @ quoted_text [kind]) (length content - length rest1 + 1)
             else
               element_names line content (dropWhile tag_character rest1)
                 (if kind = CHR ''.'' then info\<lparr>hi_classes := hi_classes info @ [name]\<rparr>
                  else info\<lparr>hi_id := name\<rparr>))
          else Inr (info, rest))"
  by pat_completeness auto
termination
  by (relation "measure (\<lambda>(_, _, rest, _). length rest)") (auto simp: length_dropWhile_le le_imp_less_Suc)

declare element_names.simps [simp del]

definition element_attributes :: "haml_line \<Rightarrow> string \<Rightarrow> string \<Rightarrow> haml_info \<Rightarrow> (haml_info \<times> string) parsed" where
  "element_attributes line content rest info =
     (if rest \<noteq> [] \<and> (hd rest = CHR ''{'' \<or> hd rest = CHR ''('') then
        (case attributes_end (hd rest) (if hd rest = CHR ''{'' then CHR ''}'' else CHR '')'') 0 None rest of
           None \<Rightarrow> line_error line ''unterminated attribute list'' (length content - length rest + 1)
         | Some scan \<Rightarrow>
             bind_parsed (attribute_body line [] (take (scan - 1) (tl rest)) (hi_attributes info)) (\<lambda>attributes.
               Inr (info\<lparr>hi_attributes := attributes\<rparr>, drop (scan + 1) rest)))
      else Inr (info, rest))"

definition element_tag :: "string \<Rightarrow> string \<times> string" where
  "element_tag content =
     (if hd content = CHR ''%'' then
        (takeWhile (\<lambda>c. tag_character c \<or> c = CHR '':'') (tl content),
         dropWhile (\<lambda>c. tag_character c \<or> c = CHR '':'') (tl content))
      else (''div'', content))"

text \<open>What a tag's own line says after the tag is its only child so far.\<close>

definition inline_child :: "haml_line \<Rightarrow> string \<Rightarrow> haml_node parsed" where
  "inline_child line rest =
     (if starts_with rest ''!='' \<or> starts_with rest ''='' then build_output_line line rest
      else build_text line (if starts_with rest [CHR 0x5C] then tl rest else rest))"

definition build_element :: "haml_line \<Rightarrow> string \<Rightarrow> haml_node parsed" where
  "build_element line content =
     (let (tag, rest) = element_tag content in
      bind_parsed (element_names line content rest ((node_at Element_Node (hl_number line))\<lparr>hi_tag := tag\<rparr>))
        (\<lambda>(info1, rest1).
        bind_parsed (element_attributes line content rest1 info1) (\<lambda>(info2, rest2).
          let closed = starts_with rest2 ''/'';
              info3 = (if closed then info2\<lparr>hi_self_closing := True\<rparr> else info2);
              rest3 = trim (if closed then tl rest2 else rest2)
          in if rest3 = [] then Inr (Haml_Node info3 [])
             else bind_parsed (inline_child line rest3) (\<lambda>child. Inr (Haml_Node info3 [child])))))"

definition build :: "haml_line \<Rightarrow> haml_node parsed" where
  "build line =
     (let content = hl_content line in
      if starts_with content ''!!!'' then
        Inr (Haml_Node ((node_at Doctype_Node (hl_number line))\<lparr>hi_tag := trim (drop 3 content)\<rparr>) [])
      else if starts_with content ''-#'' \<or> starts_with content ''/'' then
        Inr (Haml_Node ((node_at Comment_Node (hl_number line))
          \<lparr>hi_text := [Literal (trim (drop (if hd content = CHR ''/'' then 1 else 2) content))]\<rparr>) [])
      else if starts_with content '':'' \<and> 1 < length content \<and> tag_character (content ! 1) then
        Inr (Haml_Node ((node_at Filter_Node (hl_number line))\<lparr>hi_filter := trim (drop 1 content)\<rparr>) [])
      else if starts_with content ''-'' then build_control line (trim (drop 1 content))
      else if starts_with content ''!='' \<or> starts_with content ''='' then build_output_line line content
      else if starts_with content ''%'' \<or> starts_with content ''.'' \<or> starts_with content ''#'' then
        build_element line content
      else build_text line (if starts_with content [CHR 0x5C] then tl content else content))"

section \<open>The lines below a node\<close>

text \<open>
  \<open>attach_block\<close>: the lines become text of the node, joined to the text its own line began, if
  that is what it ends with.
\<close>

definition joined_block :: "segment list \<Rightarrow> segment list" where
  "joined_block parts = Literal [CHR 0x0A] # parts"

definition attach_parts :: "haml_line \<Rightarrow> segment list \<Rightarrow> haml_node \<Rightarrow> haml_node" where
  "attach_parts line parts node =
     (case node of
        Haml_Node info children \<Rightarrow>
          if hi_kind info = Text_Node then Haml_Node (info\<lparr>hi_text := hi_text info @ joined_block parts\<rparr>) children
          else if children \<noteq> [] \<and> hi_kind (haml_info_of (last children)) = Text_Node then
            (case last children of
               Haml_Node final below \<Rightarrow>
                 Haml_Node info (butlast children @ [Haml_Node (final\<lparr>hi_text := hi_text final @ joined_block parts\<rparr>) below]))
          else Haml_Node info (children @ [Haml_Node ((node_at Text_Node (hl_number line))\<lparr>hi_text := parts\<rparr>) []]))"

definition attach_block ::
  "haml_node \<Rightarrow> haml_line \<Rightarrow> nat \<Rightarrow> haml_line list \<Rightarrow> (haml_node \<times> haml_line list) parsed" where
  "attach_block node line n lines =
     (if n = 0 then Inr (node, lines)
      else bind_parsed (parse_interpolated line (block_text (take n lines))) (\<lambda>parts.
        Inr (attach_parts line parts node, drop n lines)))"

definition attach_filter_block :: "haml_node \<Rightarrow> nat \<Rightarrow> haml_line list \<Rightarrow> haml_node \<times> haml_line list" where
  "attach_filter_block node n lines =
     (if n = 0 then (node, lines)
      else
        (case node of
           Haml_Node info children \<Rightarrow>
             (Haml_Node info (children @
                [Haml_Node ((node_at Text_Node (hl_number (hd lines)))
                   \<lparr>hi_text := [Literal (block_text (take n lines))]\<rparr>) []]),
              drop n lines)))"

definition keep_whitespace :: "haml_node \<Rightarrow> haml_node" where
  "keep_whitespace node =
     (case node of Haml_Node info children \<Rightarrow> Haml_Node (info\<lparr>hi_keeps_whitespace := True\<rparr>) children)"

text \<open>
  What a node does with the lines below its own: it may take them as a block of text, or leave
  them to be read as its children.
\<close>

datatype below = Block_Taken haml_node "haml_line list" | Children_Below haml_node

definition lines_below :: "haml_line \<Rightarrow> haml_node \<Rightarrow> haml_line list \<Rightarrow> below parsed" where
  "lines_below line node lines =
     (let opened = unclosed_preserved_tag (hl_content line); info = haml_info_of node in
      if opened \<noteq> [] then
        bind_parsed (attach_block node line (markup_block_end opened lines) lines) (\<lambda>(node', lines').
          Inr (Block_Taken node' lines'))
      else if hi_kind info = Element_Node \<and> preserves_whitespace (hi_tag info) then
        bind_parsed (attach_block (keep_whitespace node) line (block_end (hl_indent line) lines) lines)
          (\<lambda>(node', lines'). Inr (Block_Taken node' lines'))
      else if hi_kind info = Filter_Node then
        (case attach_filter_block node (block_end (hl_indent line) lines) lines of
           (node', lines') \<Rightarrow> Inr (Block_Taken node' lines'))
      else Inr (Children_Below node))"

lemma lines_below_le:
  "lines_below line node lines = Inr (Block_Taken node' lines') \<Longrightarrow> length lines' \<le> length lines"
  by (auto simp: lines_below_def Let_def attach_block_def attach_filter_block_def outcome_simps
      split: if_splits haml_node.splits)

text \<open>Neither parser gives back more lines than it was given, if the calls it makes do not.\<close>

lemma node_step_le:
  assumes "bind_parsed (build line) (\<lambda>node. bind_parsed (lines_below line node lines) (\<lambda>below.
      case below of
        Block_Taken node' lines' \<Rightarrow> Inr (node', lines')
      | Children_Below (Haml_Node info children) \<Rightarrow>
          bind_parsed below_lines (\<lambda>(more, lines'). Inr (Haml_Node info (children @ more), lines')))) = Inr (node, lines')"
    and below: "\<And>built info children nodes lines'. build line = Inr built \<Longrightarrow>
      lines_below line built lines = Inr (Children_Below (Haml_Node info children)) \<Longrightarrow>
      below_lines = Inr (nodes, lines') \<Longrightarrow> length lines' \<le> length lines"
  shows "length lines' \<le> length lines"
proof -
  obtain built taken where built: "build line = Inr built" "lines_below line built lines = Inr taken"
    and rest: "(case taken of
        Block_Taken node' lines' \<Rightarrow> Inr (node', lines')
      | Children_Below (Haml_Node info children) \<Rightarrow>
          bind_parsed below_lines (\<lambda>(more, lines'). Inr (Haml_Node info (children @ more), lines'))) = Inr (node, lines')"
    using assms(1) unfolding outcome_simps by blast
  show ?thesis
  proof (cases taken)
    case (Block_Taken node1 lines1)
    then show ?thesis using rest lines_below_le built by auto
  next
    case (Children_Below node1)
    obtain info children where "node1 = Haml_Node info children" by (cases node1)
    then show ?thesis
      using rest Children_Below below [OF built(1)] built(2) by (auto simp: outcome_simps)
  qed
qed

lemma children_step_le:
  assumes "(case skip_blank lines of
        [] \<Rightarrow> Inr ([], lines)
      | below # rest \<Rightarrow>
          if hl_indent below \<le> indent then Inr ([], lines)
          else bind_parsed (node below rest) (\<lambda>(child, lines1).
            bind_parsed (children lines1) (\<lambda>(nodes, lines2). Inr (child # nodes, lines2)))) = Inr (nodes, lines')"
    and node: "\<And>below rest child lines1. skip_blank lines = below # rest \<Longrightarrow> \<not> hl_indent below \<le> indent \<Longrightarrow>
      node below rest = Inr (child, lines1) \<Longrightarrow> length lines1 \<le> length rest"
    and children: "\<And>below rest child lines1 nodes lines2. skip_blank lines = below # rest \<Longrightarrow> \<not> hl_indent below \<le> indent \<Longrightarrow>
      node below rest = Inr (child, lines1) \<Longrightarrow> children lines1 = Inr (nodes, lines2) \<Longrightarrow> length lines2 \<le> length lines1"
  shows "length lines' \<le> length lines"
proof (cases "skip_blank lines")
  case Nil
  then show ?thesis using assms(1) by (simp del: dropWhile_eq_Nil_conv)
next
  case (Cons below rest)
  show ?thesis
    using assms(1) node [OF Cons] children [OF Cons] dropWhile_Cons_length [OF Cons]
    unfolding Cons by (fastforce simp: outcome_simps split: if_splits)
qed

function (sequential)
  parse_node :: "haml_line \<Rightarrow> haml_line list \<Rightarrow> (haml_node \<times> haml_line list) parsed"
  and parse_children :: "nat \<Rightarrow> haml_line list \<Rightarrow> (haml_node list \<times> haml_line list) parsed"
where
  "parse_node line lines =
     bind_parsed (build line) (\<lambda>node.
     bind_parsed (lines_below line node lines) (\<lambda>below.
       case below of
         Block_Taken node' lines' \<Rightarrow> Inr (node', lines')
       | Children_Below (Haml_Node info children) \<Rightarrow>
           bind_parsed (parse_children (hl_indent line) lines) (\<lambda>(more, lines').
             Inr (Haml_Node info (children @ more), lines'))))"
| "parse_children indent lines =
     (case skip_blank lines of
        [] \<Rightarrow> Inr ([], lines)
      | next # rest \<Rightarrow>
          if hl_indent next \<le> indent then Inr ([], lines)
          else
            bind_parsed (parse_node next rest) (\<lambda>(child, lines1).
            bind_parsed (parse_children indent lines1) (\<lambda>(children, lines2).
              Inr (child # children, lines2))))"
  by pat_completeness auto

lemma parse_lines_dom_le:
  "parse_node_parse_children_dom (Inl (line, lines)) \<Longrightarrow>
     \<forall>node lines'. parse_node line lines = Inr (node, lines') \<longrightarrow> length lines' \<le> length lines"
  "parse_node_parse_children_dom (Inr (indent, lines)) \<Longrightarrow>
     \<forall>nodes lines'. parse_children indent lines = Inr (nodes, lines') \<longrightarrow> length lines' \<le> length lines"
proof (induction line lines and indent lines rule: parse_node_parse_children.pinduct)
  case (1 line lines)
  show ?case
    unfolding parse_node.psimps [OF 1(1)]
    by (intro allI impI, erule node_step_le, drule (1) 1(2) [OF _ _ refl refl]) blast
next
  case (2 indent lines)
  show ?case
    unfolding parse_children.psimps [OF 2(1)]
    by (intro allI impI, erule children_step_le) (use 2(2,3) in blast)+
qed

termination parse_node
proof (relation "measure (case_sum (\<lambda>(_, lines). 2 * length lines + 1) (\<lambda>(_, lines). 2 * length lines))", goal_cases)
  case (3 indent lines below rest)
  then show ?case by (auto dest: dropWhile_Cons_length)
next
  case (4 indent lines below rest x child lines1)
  then have "length lines1 \<le> length rest"
    using parse_lines_dom_le(1) by auto
  then show ?case
    using dropWhile_Cons_length [OF 4(1)] by simp
qed auto

declare parse_node.simps [simp del] parse_children.simps [simp del]

lemma parse_lines_le:
  "\<forall>node lines'. parse_node line lines = Inr (node, lines') \<longrightarrow> length lines' \<le> length lines"
  "\<forall>nodes lines'. parse_children indent lines = Inr (nodes, lines') \<longrightarrow> length lines' \<le> length lines"
proof (induction line lines and indent lines rule: parse_node_parse_children.induct)
  case (1 line lines)
  show ?case
    unfolding parse_node.simps [of line lines]
    by (intro allI impI, erule node_step_le, drule (1) 1 [OF _ _ refl refl]) blast
next
  case (2 indent lines)
  show ?case
    unfolding parse_children.simps [of indent lines]
    by (intro allI impI, erule children_step_le) (use 2 in blast)+
qed

lemma parse_node_le: "parse_node line lines = Inr (node, lines') \<Longrightarrow> length lines' \<le> length lines"
  using parse_lines_le(1) by blast

section \<open>The template\<close>

function parse_root :: "haml_line list \<Rightarrow> haml_node list parsed" where
  "parse_root lines =
     (case skip_blank lines of
        [] \<Rightarrow> Inr []
      | next # rest \<Rightarrow>
          bind_parsed (parse_node next rest) (\<lambda>(child, lines1).
          bind_parsed (parse_root lines1) (\<lambda>children. Inr (child # children))))"
  by pat_completeness auto
termination
proof (relation "measure length", goal_cases)
  case (2 lines below rest x child lines1)
  then show ?case
    using dropWhile_Cons_length [OF 2(1)] parse_node_le [of below rest child lines1] by simp
qed simp

declare parse_root.simps [simp del]

definition parse_template :: "string \<Rightarrow> haml_node parsed" where
  "parse_template source =
     bind_parsed (parse_root (source_lines source)) (\<lambda>children. Inr (Haml_Node new_node children))"

record haml_template =
  ht_source :: string
  ht_name :: string
  ht_root :: haml_node

definition compile_template :: "string \<Rightarrow> string \<Rightarrow> haml_template parsed" where
  "compile_template source name =
     bind_parsed (parse_template source) (\<lambda>root. Inr \<lparr>ht_source = source, ht_name = name, ht_root = root\<rparr>)"

end
