(* ===== verification/Escapes.thy ===== *)
theory Escapes
  imports Floats
begin

text \<open>
  The escapers at the end of \<open>html.cpp\<close>: \<open>append_escaped\<close> for text and attributes and
  \<open>append_url_escaped\<close> for urls. What a function appends to its output is the value of the
  definition. The other components write their own copies of the first one.
\<close>

section \<open>Text\<close>

definition html_entity :: "char \<Rightarrow> string" where
  "html_entity c =
     (if c = CHR ''&'' then ''&amp;''
      else if c = CHR ''<'' then ''&lt;''
      else if c = CHR ''>'' then ''&gt;''
      else if c = CHR 0x22 then ''&quot;''
      else [c])"

definition escaped :: "string \<Rightarrow> string" where
  "escaped s = concat (map html_entity s)"

definition markup_characters :: "char set" where
  "markup_characters = {CHR ''<'', CHR ''>'', CHR 0x22}"

interpretation html: escaper html_entity markup_characters
  by unfold_locales (auto simp: html_entity_def markup_characters_def split: if_splits)

lemma escaped_append [simp]: "escaped (s @ t) = escaped s @ escaped t"
  by (simp add: escaped_def)

lemma escaped_simps [simp]: "escaped [] = []" "escaped (c # s) = html_entity c @ escaped s"
  by (simp_all add: escaped_def)

lemma escaped_quiet [simp]:
  "CHR ''<'' \<notin> set (escaped s)" "CHR ''>'' \<notin> set (escaped s)" "CHR 0x22 \<notin> set (escaped s)"
  using html.escape_quiet [of s] by (auto simp: escaped_def markup_characters_def)

section \<open>Urls\<close>

definition url_safe :: string where
  "url_safe = ''-_.+!*'' @ [CHR 0x27] @ ''(),%#@?=;:/,+&$~''"

definition hex_upper :: "nat \<Rightarrow> char" where
  "hex_upper n = (if n < 10 then char_of (48 + n) else char_of (55 + n))"

text \<open>\<open>%{:02X}\<close> of a byte.\<close>

definition percent :: "char \<Rightarrow> string" where
  "percent c = [CHR ''%'', hex_upper (byte c div 16), hex_upper (byte c mod 16)]"

definition is_alphanumeric :: "char \<Rightarrow> bool" where
  "is_alphanumeric c \<longleftrightarrow> between (CHR ''a'') (CHR ''z'') c \<or> between (CHR ''A'') (CHR ''Z'') c \<or> between (CHR ''0'') (CHR ''9'') c"

definition url_hex_digit :: "char \<Rightarrow> bool" where
  "url_hex_digit c \<longleftrightarrow> between (CHR ''0'') (CHR ''9'') c \<or> between (CHR ''a'') (CHR ''f'') c \<or> between (CHR ''A'') (CHR ''F'') c"

fun url_escaped :: "string \<Rightarrow> string" where
  "url_escaped [] = []"
| "url_escaped (c # s) =
     (if is_alphanumeric c then [c]
      else if c = CHR ''&'' then ''&amp;''
      else if c = CHR ''%'' \<and> 1 < length s \<and> url_hex_digit (s ! 0) \<and> url_hex_digit (s ! 1) then [c]
      else if c \<in> set url_safe then [c]
      else percent c) @ url_escaped s"

text \<open>The percent sign is among the safe characters, so the third test never decides.\<close>

definition url_code :: "char \<Rightarrow> string" where
  "url_code c =
     (if is_alphanumeric c then [c]
      else if c = CHR ''&'' then ''&amp;''
      else if c \<in> set url_safe then [c]
      else percent c)"

lemma url_escaped_code: "url_escaped s = concat (map url_code s)"
  by (induction s) (auto simp: url_code_def url_safe_def)

lemma hex_upper_byte: "n < 16 \<Longrightarrow> byte (hex_upper n) = (if n < 10 then 48 + n else 55 + n)"
  by (simp add: hex_upper_def)

definition quiet_byte :: "char \<Rightarrow> bool" where
  "quiet_byte c \<longleftrightarrow> 32 < byte c \<and> byte c \<noteq> 60 \<and> byte c \<noteq> 62 \<and> byte c \<noteq> 34"

lemma quiet_hex: "n < 16 \<Longrightarrow> quiet_byte (hex_upper n)"
  by (simp add: quiet_byte_def hex_upper_byte)

lemma quiet_alphanumeric: "is_alphanumeric c \<Longrightarrow> quiet_byte c"
  by (auto simp: is_alphanumeric_def between_def quiet_byte_def)

lemma quiet_fixed: "\<forall>c \<in> set (url_safe @ ''&amp;%''). quiet_byte c"
  by code_simp

lemma url_code_quiet: "c \<in> set (url_code d) \<Longrightarrow> quiet_byte c"
proof -
  assume c: "c \<in> set (url_code d)"
  have hex: "quiet_byte (hex_upper (byte d div 16))" "quiet_byte (hex_upper (byte d mod 16))"
    using byte_less [of d] less_mult_imp_div_less [of "byte d" 16 16] by (simp_all add: quiet_hex)
  consider "c = d" "is_alphanumeric d" | "c \<in> set (url_safe @ ''&amp;%'')" | "c = hex_upper (byte d div 16)" | "c = hex_upper (byte d mod 16)"
    using c by (auto simp: url_code_def percent_def split: if_splits)
  then show ?thesis
    using hex quiet_alphanumeric quiet_fixed by cases auto
qed

lemma url_escaped_quiet [simp]:
  "CHR ''<'' \<notin> set (url_escaped s)" "CHR ''>'' \<notin> set (url_escaped s)" "CHR 0x22 \<notin> set (url_escaped s)"
  using url_code_quiet by (fastforce simp: url_escaped_code quiet_byte_def)+

section \<open>Reading markup\<close>

text \<open>What is left of a text without its tags; the flag tells whether a tag is open.\<close>

fun outside_tags :: "bool \<Rightarrow> string \<Rightarrow> string" where
  "outside_tags inside [] = []"
| "outside_tags True (c # s) = outside_tags (c \<noteq> CHR ''>'') s"
| "outside_tags False (c # s) = (if c = CHR ''<'' then outside_tags True s else c # outside_tags False s)"

lemma outside_text: "CHR ''<'' \<notin> set s \<Longrightarrow> outside_tags False (s @ t) = s @ outside_tags False t"
  by (induction s) auto

lemma outside_tag: "CHR ''>'' \<notin> set s \<Longrightarrow> outside_tags True (s @ CHR ''>'' # t) = outside_tags False t"
  by (induction s) auto

lemma outside_escaped [simp]: "outside_tags False (escaped s @ t) = escaped s @ outside_tags False t"
  by (simp add: outside_text)

text \<open>
  What is escaped stays text. An escaped text can be read back, it holds no angle bracket and no
  quote, so it neither opens a tag nor ends an attribute; an escaped url holds none of these either,
  and no space or control character.
\<close>

theorem escaped_is_inert:
  "(escaped s = escaped t \<longleftrightarrow> s = t) \<and> set (escaped s) \<inter> {CHR ''<'', CHR ''>'', CHR 0x22} = {} \<and>
   set (url_escaped s) \<inter> ({CHR ''<'', CHR ''>'', CHR 0x22} \<union> {c. byte c \<le> 32}) = {}"
proof -
  have "escaped s = escaped t \<longleftrightarrow> s = t"
    using html.escape_inj [of s t] by (auto simp: escaped_def)
  moreover have "set (url_escaped s) \<inter> ({CHR ''<'', CHR ''>'', CHR 0x22} \<union> {c. byte c \<le> 32}) = {}"
    using url_code_quiet by (fastforce simp: url_escaped_code quiet_byte_def)
  ultimately show ?thesis by simp
qed

end
