(* ===== verification/Renders.thy ===== *)
theory Renders
  imports Templates Escapes
begin

text \<open>
  Rendering a template (\<open>haml_render.cpp\<close>) and the cache of rendered fragments
  (\<open>template_store.cpp\<close>). A rendering reads and writes the view context and the cache, and gives
  the text it adds to \<open>out_\<close>; the C++ drops what was written before an error, so nothing is lost
  by returning the pieces. Nested renderers are a parameter, \<open>en_deeper\<close>, which is absent when
  the nesting of partials is used up.
\<close>

section \<open>The cache of fragments\<close>

text \<open>
  A fragment is known by the compiled block it comes from. The C++ takes the address of the block;
  here it is the template's name with the block, and what the address reads as is a parameter.
\<close>

type_synonym site = "string \<times> node"

record fragment_cache =
  fc_entries :: "(string \<times> string) list"
  fc_read_lists :: "(site \<times> string list) list"
  fc_hits :: nat
  fc_misses :: nat
  fc_renders :: nat

definition empty_cache :: fragment_cache where
  "empty_cache = \<lparr>fc_entries = [], fc_read_lists = [], fc_hits = 0, fc_misses = 0, fc_renders = 0\<rparr>"

definition fc_find :: "string \<Rightarrow> fragment_cache \<Rightarrow> string option \<times> fragment_cache" where
  "fc_find key f =
     (case map_of (fc_entries f) key of
        None \<Rightarrow> (None, f\<lparr>fc_misses := fc_misses f + 1\<rparr>)
      | Some html \<Rightarrow> (Some html, f\<lparr>fc_hits := fc_hits f + 1\<rparr>))"

text \<open>\<open>emplace_entry\<close> leaves an entry that is there as it is.\<close>

definition emplace_entry :: "'k \<Rightarrow> 'v \<Rightarrow> ('k \<times> 'v) list \<Rightarrow> ('k \<times> 'v) list" where
  "emplace_entry k v entries = (if map_of entries k = None then entries @ [(k, v)] else entries)"

definition fc_store :: "string \<Rightarrow> string \<Rightarrow> fragment_cache \<Rightarrow> fragment_cache" where
  "fc_store key html f = f\<lparr>fc_entries := emplace_entry key html (fc_entries f)\<rparr>"

definition fc_reads :: "site \<Rightarrow> fragment_cache \<Rightarrow> string list option" where
  "fc_reads s f = map_of (fc_read_lists f) s"

definition fc_remember_reads :: "site \<Rightarrow> string list \<Rightarrow> fragment_cache \<Rightarrow> fragment_cache" where
  "fc_remember_reads s names f = f\<lparr>fc_read_lists := emplace_entry s names (fc_read_lists f)\<rparr>"

definition fc_note_render :: "fragment_cache \<Rightarrow> fragment_cache" where
  "fc_note_render f = f\<lparr>fc_renders := fc_renders f + 1\<rparr>"

section \<open>The state of a rendering\<close>

record haml_options =
  ro_partial :: "(string \<Rightarrow> haml_template option) option"
  ro_caching :: bool
  ro_body :: string
  ro_address :: "site \<Rightarrow> string"

record render_state =
  rs_context :: view_context
  rs_cache :: fragment_cache

text \<open>
  What a rendering comes to: text, an error, or what C++ leaves undefined. \<open>Overflow\<close> is signed
  addition past 64 bits, \<open>Exceeded\<close> an expression too deep for the evaluator's stack, and
  \<open>Null_Dereference\<close> the value of a node that has none.
\<close>

datatype 'a rendered = Rendered 'a | Refused parse_error | Overflow | Exceeded | Null_Dereference

type_synonym 'a rendering = "'a rendered \<times> render_state"

record engine =
  en_options :: haml_options
  en_template :: string
  en_deeper :: "(haml_template \<Rightarrow> render_state \<Rightarrow> string rendering) option"

fun bind_render :: "'a rendering \<Rightarrow> ('a \<Rightarrow> render_state \<Rightarrow> 'b rendering) \<Rightarrow> 'b rendering" where
  "bind_render (Rendered v, st) k = k v st"
| "bind_render (Refused e, st) k = (Refused e, st)"
| "bind_render (Overflow, st) k = (Overflow, st)"
| "bind_render (Exceeded, st) k = (Exceeded, st)"
| "bind_render (Null_Dereference, st) k = (Null_Dereference, st)"

fun rendered_of :: "'a eval \<Rightarrow> 'a rendered" where
  "rendered_of (Value v) = Rendered v"
| "rendered_of (Error e) = Refused e"
| "rendered_of Undefined = Overflow"
| "rendered_of Too_Deep = Exceeded"

definition change_context :: "(view_context \<Rightarrow> view_context) \<Rightarrow> render_state \<Rightarrow> render_state" where
  "change_context f st = st\<lparr>rs_context := f (rs_context st)\<rparr>"

definition change_cache :: "(fragment_cache \<Rightarrow> fragment_cache) \<Rightarrow> render_state \<Rightarrow> render_state" where
  "change_cache f st = st\<lparr>rs_cache := f (rs_cache st)\<rparr>"

definition render_error :: "string \<Rightarrow> nat \<Rightarrow> nat \<Rightarrow> render_state \<Rightarrow> 'a rendering" where
  "render_error message line column st =
     (Refused \<lparr>pe_message = message, pe_line = line, pe_column = column\<rparr>, st)"

definition evaluated :: "node \<Rightarrow> render_state \<Rightarrow> jvalue rendering" where
  "evaluated node st =
     (case evaluate max_expression_depth node (rs_context st) of (r, c) \<Rightarrow> (rendered_of r, st\<lparr>rs_context := c\<rparr>))"

text \<open>Dereferencing an expression the node does not have is undefined in C++.\<close>

definition evaluated_value :: "node option \<Rightarrow> render_state \<Rightarrow> jvalue rendering" where
  "evaluated_value v st = (case v of None \<Rightarrow> (Null_Dereference, st) | Some node \<Rightarrow> evaluated node st)"

section \<open>Text\<close>

definition is_void_tag_name :: "string \<Rightarrow> bool" where
  "is_void_tag_name tag \<longleftrightarrow>
     tag \<in> set [''area'', ''base'', ''br'', ''col'', ''embed'', ''hr'', ''img'', ''input'', ''link'', ''meta'',
       ''param'', ''source'', ''track'', ''wbr'']"

definition haml_entity :: "char \<Rightarrow> string" where
  "haml_entity c =
     (if c = CHR ''&'' then ''&amp;'' else if c = CHR ''<'' then ''&lt;'' else if c = CHR ''>'' then ''&gt;''
      else if c = CHR 0x22 then ''&quot;'' else [c])"

definition haml_escape :: "string \<Rightarrow> string" where
  "haml_escape s = concat (map haml_entity s)"

fun shown_text :: "jvalue \<Rightarrow> string" where
  "shown_text VNull = []"
| "shown_text (VBoolean b) = (if b then ''true'' else ''false'')"
| "shown_text (VInteger i) = format_int i"
| "shown_text (VNumber d) = format_double d"
| "shown_text (VString s) = s"
| "shown_text _ = []"

fun interpolate :: "segment list \<Rightarrow> bool \<Rightarrow> render_state \<Rightarrow> string rendering" where
  "interpolate [] escape_holes st = (Rendered [], st)"
| "interpolate (Literal literal # parts) escape_holes st =
     bind_render (interpolate parts escape_holes st) (\<lambda>out st1. (Rendered (literal @ out), st1))"
| "interpolate (Hole hole # parts) escape_holes st =
     bind_render (evaluated hole st) (\<lambda>v st1.
     bind_render (interpolate parts escape_holes st1) (\<lambda>out st2.
       (Rendered ((if escape_holes then haml_escape (shown_text v) else shown_text v) @ out), st2)))"

section \<open>The calls the engine answers\<close>

text \<open>\<open>named\<close>: an argument of a call by its name.\<close>

fun named_argument :: "string \<Rightarrow> node list \<Rightarrow> node option" where
  "named_argument name [] = None"
| "named_argument name (argument # arguments) =
     (case argument of
        Named_Argument i written v \<Rightarrow> if written = name then Some v else named_argument name arguments
      | _ \<Rightarrow> named_argument name arguments)"

datatype engine_call = Render_Call node_info "node list" | Fragment_Call node_info "node list" | No_Engine_Call

fun engine_call_of :: "node \<Rightarrow> engine_call" where
  "engine_call_of (Call info (Name i name) arguments) =
     (if name = ''render'' then Render_Call info arguments
      else if name = ''cache-fragment'' \<or> name = ''cache_fragment'' then Fragment_Call info arguments
      else No_Engine_Call)"
| "engine_call_of _ = No_Engine_Call"

definition evaluated_argument :: "string \<Rightarrow> node list \<Rightarrow> render_state \<Rightarrow> jvalue option rendering" where
  "evaluated_argument name arguments st =
     (case named_argument name arguments of
        None \<Rightarrow> (Rendered None, st)
      | Some node \<Rightarrow> bind_render (evaluated node st) (\<lambda>v st1. (Rendered (Some v), st1)))"

definition bind_members :: "jvalue \<Rightarrow> view_context \<Rightarrow> view_context" where
  "bind_members v c = fold (\<lambda>(name, m). set_local name m) (members v) c"

text \<open>One rendering per item, each with the item bound; the first that fails ends the walk.\<close>

fun for_items :: "(jvalue \<Rightarrow> view_context \<Rightarrow> view_context) \<Rightarrow> (render_state \<Rightarrow> string rendering) \<Rightarrow>
    jvalue list \<Rightarrow> render_state \<Rightarrow> string rendering" where
  "for_items enter body [] st = (Rendered [], st)"
| "for_items enter body (item # others) st =
     bind_render (body (change_context (enter item) st)) (\<lambda>out st1.
     bind_render (for_items enter body others st1) (\<lambda>rest st2. (Rendered (out @ rest), st2)))"

text \<open>Whatever came of it, the saved locals come back.\<close>

definition with_locals :: "(string \<times> jvalue) list \<Rightarrow> 'a rendering \<Rightarrow> 'a rendering" where
  "with_locals saved outcome = (case outcome of (r, st) \<Rightarrow> (r, change_context (restore_locals saved) st))"

definition taken_locals :: "render_state \<Rightarrow> (string \<times> jvalue) list \<times> render_state" where
  "taken_locals st =
     (case take_locals (rs_context st) of (saved, c) \<Rightarrow> (saved, st\<lparr>rs_context := c\<rparr>))"

text \<open>
  \<open>render_partial_call\<close>. The name, the locals, the collection and its alias are evaluated against
  the locals in scope; those are then set aside, and brought back when the partial is done.
\<close>

definition alias_name :: "jvalue option \<Rightarrow> string" where
  "alias_name alias = (case alias of None \<Rightarrow> ''item'' | Some v \<Rightarrow> as_string v [])"

definition render_partial_body ::
  "(render_state \<Rightarrow> string rendering) \<Rightarrow> jvalue option \<Rightarrow> jvalue option \<Rightarrow> jvalue option \<Rightarrow>
   render_state \<Rightarrow> string rendering" where
  "render_partial_body run locals collection alias st =
     (let (saved, st1) = taken_locals st;
          st2 = (case locals of None \<Rightarrow> st1 | Some v \<Rightarrow> change_context (bind_members v) st1)
      in with_locals saved
           (case collection of
              None \<Rightarrow> run st2
            | Some v \<Rightarrow> for_items (set_local (alias_name alias)) run (items v) st2))"

definition render_partial_call :: "engine \<Rightarrow> node_info \<Rightarrow> node list \<Rightarrow> render_state \<Rightarrow> string rendering" where
  "render_partial_call en info arguments st =
     (case (named_argument ''partial'' arguments, ro_partial (en_options en)) of
        (Some partial_name, Some find_partial) \<Rightarrow>
          bind_render (evaluated partial_name st) (\<lambda>resolved st1.
            let target = as_string resolved [] in
            case find_partial target of
              None \<Rightarrow> render_error (''no such partial '' @ quoted_text target) (ni_line info) (ni_column info) st1
            | Some partial \<Rightarrow>
                (case en_deeper en of
                   None \<Rightarrow>
                     render_error (''partials nested too deeply at '' @ quoted_text target)
                       (ni_line info) (ni_column info) st1
                 | Some inner \<Rightarrow>
                     bind_render (evaluated_argument ''locals'' arguments st1) (\<lambda>locals st2.
                     bind_render (evaluated_argument ''collection'' arguments st2) (\<lambda>collection st3.
                     bind_render (evaluated_argument ''as'' arguments st3) (\<lambda>alias st4.
                       render_partial_body (inner partial) locals collection alias st4)))))
      | _ \<Rightarrow> render_error ''render needs a :partial to render'' (ni_line info) (ni_column info) st)"

text \<open>
  \<open>render_cached_fragment\<close>, with \<open>run\<close> for \<open>render_fragment_body\<close> on the block. The key a page has
  is found by replaying the names the block read before; failing that the block is rendered with a
  recording open, and its key is what the recording says it read.
\<close>

fun fragment_block :: "node \<Rightarrow> node" where
  "fragment_block (Block i inner) = inner"
| "fragment_block node = node"

definition replayed_fragment :: "string \<Rightarrow> site \<Rightarrow> render_state \<Rightarrow> string option \<times> render_state" where
  "replayed_fragment prefix here st =
     (case fc_reads here (rs_cache st) of
        None \<Rightarrow> (None, st)
      | Some names \<Rightarrow>
          (case replay names (rs_context st) of
             (None, c) \<Rightarrow> (None, st\<lparr>rs_context := c\<rparr>)
           | (Some key, c) \<Rightarrow>
               (case fc_find (prefix @ key) (rs_cache st) of
                  (found, f) \<Rightarrow> (found, st\<lparr>rs_context := c, rs_cache := f\<rparr>))))"

definition kept_fragment :: "string \<Rightarrow> site \<Rightarrow> string \<Rightarrow> render_state \<Rightarrow> string rendering" where
  "kept_fragment key here html st =
     (let st1 = change_cache fc_note_render st;
          st2 = (if vc_replayable (rs_context st1)
                 then change_cache (fc_remember_reads here (vc_read_names (rs_context st1))) st1 else st1)
      in case fc_find key (rs_cache st2) of
           (Some found, f) \<Rightarrow> (Rendered found, st2\<lparr>rs_cache := f\<rparr>)
         | (None, f) \<Rightarrow> (Rendered html, st2\<lparr>rs_cache := fc_store key html f\<rparr>))"

definition recorded_fragment ::
  "string \<Rightarrow> site \<Rightarrow> (render_state \<Rightarrow> string rendering) \<Rightarrow> render_state \<Rightarrow> string rendering" where
  "recorded_fragment prefix here run st =
     (let (rendered, st1) = run (change_context begin_recording st);
          (key, c) = end_recording (rs_context st1);
          st2 = st1\<lparr>rs_context := c\<rparr>
      in case rendered of
           Rendered html \<Rightarrow> kept_fragment (prefix @ key) here html st2
         | failure \<Rightarrow> (failure, st2))"

definition cached_fragment ::
  "engine \<Rightarrow> node \<Rightarrow> (render_state \<Rightarrow> string rendering) \<Rightarrow> render_state \<Rightarrow> string rendering" where
  "cached_fragment en body run st =
     (if \<not> ro_caching (en_options en) then run st
      else
        (let here = (en_template en, body);
             prefix = ro_address (en_options en) here @ ''|''
         in case replayed_fragment prefix here st of
              (Some html, st1) \<Rightarrow> (Rendered html, st1)
            | (None, st1) \<Rightarrow> recorded_fragment prefix here run st1))"

function render_fragment_body :: "engine \<Rightarrow> node \<Rightarrow> render_state \<Rightarrow> string rendering" where
  "render_fragment_body en body st =
     (case engine_call_of body of
        Render_Call info arguments \<Rightarrow> render_partial_call en info arguments st
      | Fragment_Call info arguments \<Rightarrow>
          if length arguments < 2 then
            render_error ''cache-fragment needs a name and a block'' (ni_line info) (ni_column info) st
          else cached_fragment en (fragment_block (last arguments))
                 (\<lambda>st1. render_fragment_body en (fragment_block (last arguments)) st1) st
      | No_Engine_Call \<Rightarrow> bind_render (evaluated body st) (\<lambda>v st1. (Rendered (shown_text v), st1)))"
  by pat_completeness auto

lemma fragment_block_size: "size (fragment_block node) \<le> size node"
  by (cases node) auto

lemma engine_call_size:
  "engine_call_of body = Fragment_Call info arguments \<Longrightarrow> arguments \<noteq> [] \<Longrightarrow>
   size (fragment_block (last arguments)) < size body"
proof -
  assume call: "engine_call_of body = Fragment_Call info arguments" and some: "arguments \<noteq> []"
  then obtain i name where "body = Call info (Name i name) arguments"
    by (cases body rule: engine_call_of.cases) (auto split: if_splits)
  moreover have "size (last arguments) \<le> size_list size arguments"
    using some by (intro size_list_estimation' [of "last arguments"]) simp_all
  ultimately show ?thesis
    using fragment_block_size [of "last arguments"] by simp
qed

termination render_fragment_body
proof (relation "measure (\<lambda>(_, body, _). size body)", goal_cases)
  case (2 en body st info arguments)
  then show ?case using engine_call_size [of body info arguments] by force
qed simp

declare render_fragment_body.simps [simp del]

definition is_engine_call :: "node \<Rightarrow> bool" where
  "is_engine_call node \<longleftrightarrow> (case engine_call_of node of No_Engine_Call \<Rightarrow> False | _ \<Rightarrow> True)"

section \<open>Output, filters, elements\<close>

fun is_yield :: "node \<Rightarrow> bool" where
  "is_yield (Name i name) \<longleftrightarrow> name = ''yield''"
| "is_yield _ \<longleftrightarrow> False"

definition render_output :: "engine \<Rightarrow> haml_info \<Rightarrow> render_state \<Rightarrow> string rendering" where
  "render_output en info st =
     (case hi_value info of
        None \<Rightarrow> (Null_Dereference, st)
      | Some node \<Rightarrow>
          if is_engine_call node then
            bind_render (render_fragment_body en node st) (\<lambda>html st1.
              (Rendered ((if hi_escaped info then haml_escape html else html) @ [CHR 0x0A]), st1))
          else if is_yield node then (Rendered (ro_body (en_options en) @ [CHR 0x0A]), st)
          else
            bind_render (evaluated node st) (\<lambda>v st1.
              (Rendered ((if hi_escaped info then haml_escape (shown_text v) else shown_text v) @ [CHR 0x0A]), st1)))"

fun filter_body :: "haml_node list \<Rightarrow> render_state \<Rightarrow> string rendering" where
  "filter_body [] st = (Rendered [], st)"
| "filter_body (child # children) st =
     bind_render (interpolate (hi_text (haml_info_of child)) False st) (\<lambda>text st1.
     bind_render (filter_body children st1) (\<lambda>rest st2. (Rendered (text @ CHR 0x0A # rest), st2)))"

definition render_filter :: "haml_info \<Rightarrow> haml_node list \<Rightarrow> render_state \<Rightarrow> string rendering" where
  "render_filter info children st =
     bind_render (filter_body children st) (\<lambda>body st1.
       if hi_filter info = ''plain'' then (Rendered body, st1)
       else if hi_filter info = ''escaped'' then (Rendered (haml_escape body), st1)
       else if hi_filter info = ''javascript'' then
         (Rendered (''<script>'' @ CHR 0x0A # body @ ''</script>'' @ [CHR 0x0A]), st1)
       else if hi_filter info = ''css'' then
         (Rendered (''<style>'' @ CHR 0x0A # body @ ''</style>'' @ [CHR 0x0A]), st1)
       else render_error (''no such filter '' @ quoted_text (CHR '':'' # hi_filter info)) (hi_line info) 1 st1)"

definition add_class :: "string \<Rightarrow> string \<Rightarrow> string" where
  "add_class name classes = (if classes = [] then name else classes @ '' '' @ name)"

text \<open>The first pass over the attributes: the classes and the id they give.\<close>

fun collect_names :: "haml_attribute list \<Rightarrow> string \<times> string \<Rightarrow> render_state \<Rightarrow> (string \<times> string) rendering" where
  "collect_names [] (classes, i) st = (Rendered (classes, i), st)"
| "collect_names (attribute # attributes) (classes, i) st =
     (if ha_boolean attribute then collect_names attributes (classes, i) st
      else
        bind_render (interpolate (ha_value attribute) False st) (\<lambda>text st1.
          if ha_name attribute = ''class'' then
            collect_names attributes (if text = [] then classes else add_class text classes, i) st1
          else if ha_name attribute = ''id'' then collect_names attributes (classes, text) st1
          else collect_names attributes (classes, i) st1))"

definition quoted_attribute :: "string \<Rightarrow> string \<Rightarrow> string" where
  "quoted_attribute name text = CHR '' '' # name @ [CHR ''='', CHR 0x22] @ haml_escape text @ [CHR 0x22]"

text \<open>A value that is one hole is evaluated again, to see whether it is a boolean or null.\<close>

definition value_attribute :: "haml_attribute \<Rightarrow> string \<Rightarrow> render_state \<Rightarrow> string rendering" where
  "value_attribute attribute text st =
     (case ha_value attribute of
        [Hole hole] \<Rightarrow>
          bind_render (evaluated hole st) (\<lambda>v st1.
            (Rendered (case v of
                      VBoolean b \<Rightarrow> if b then CHR '' '' # ha_name attribute else []
                    | VNull \<Rightarrow> []
                    | _ \<Rightarrow> quoted_attribute (ha_name attribute) text), st1))
      | _ \<Rightarrow> (Rendered (quoted_attribute (ha_name attribute) text), st))"

fun write_attributes :: "haml_attribute list \<Rightarrow> render_state \<Rightarrow> string rendering" where
  "write_attributes [] st = (Rendered [], st)"
| "write_attributes (attribute # attributes) st =
     (if ha_name attribute = ''class'' \<or> ha_name attribute = ''id'' then write_attributes attributes st
      else if ha_boolean attribute then
        bind_render (write_attributes attributes st) (\<lambda>rest st1. (Rendered (CHR '' '' # ha_name attribute @ rest), st1))
      else
        bind_render (interpolate (ha_value attribute) False st) (\<lambda>text st1.
        bind_render (value_attribute attribute text st1) (\<lambda>written st2.
        bind_render (write_attributes attributes st2) (\<lambda>rest st3. (Rendered (written @ rest), st3)))))"

definition open_tag :: "haml_info \<Rightarrow> render_state \<Rightarrow> string rendering" where
  "open_tag info st =
     bind_render (collect_names (hi_attributes info) (fold add_class (hi_classes info) [], hi_id info) st)
       (\<lambda>(classes, i) st1.
     bind_render (write_attributes (hi_attributes info) st1) (\<lambda>written st2.
       (Rendered (CHR ''<'' # hi_tag info @
          (if i = [] then [] else quoted_attribute ''id'' i) @
          (if classes = [] then [] else quoted_attribute ''class'' classes) @ written), st2)))"

text \<open>One inline child sits on the line of its tag, without the newline it would end with.\<close>

definition sits_inline :: "haml_info \<Rightarrow> haml_node list \<Rightarrow> bool" where
  "sits_inline info children \<longleftrightarrow>
     hi_keeps_whitespace info \<or>
     (case children of
        [child] \<Rightarrow> hi_kind (haml_info_of child) = Text_Node \<or> hi_kind (haml_info_of child) = Output_Node
      | _ \<Rightarrow> False)"

definition element_content :: "bool \<Rightarrow> string \<Rightarrow> string" where
  "element_content inline out =
     (if \<not> inline then CHR 0x0A # out
      else if out \<noteq> [] \<and> last out = CHR 0x0A then butlast out else out)"

definition close_tag :: "haml_info \<Rightarrow> string" where
  "close_tag info = ''</'' @ hi_tag info @ [CHR ''>'', CHR 0x0A]"

section \<open>Nodes\<close>

definition heads_chain :: "haml_info \<Rightarrow> bool" where
  "heads_chain info \<longleftrightarrow>
     hi_kind info = Control_Node \<and> (hi_control info = If_Control \<or> hi_control info = Unless_Control)"

definition continues_chain :: "haml_info \<Rightarrow> bool" where
  "continues_chain info \<longleftrightarrow>
     hi_kind info = Control_Node \<and> (hi_control info = Elsif_Control \<or> hi_control info = Else_Control)"

definition branch_condition :: "haml_info \<Rightarrow> render_state \<Rightarrow> bool rendering" where
  "branch_condition info st =
     (if hi_control info = Else_Control then (Rendered True, st)
      else bind_render (evaluated_value (hi_value info) st) (\<lambda>v st1.
        (Rendered (if hi_control info = Unless_Control then \<not> truthy v else truthy v), st1)))"

text \<open>
  \<open>render_loop\<close>, given how the children are rendered: the locals are set aside, and each item
  starts from them.
\<close>

definition render_loop :: "(render_state \<Rightarrow> string rendering) \<Rightarrow> haml_info \<Rightarrow> render_state \<Rightarrow> string rendering" where
  "render_loop body info st =
     (if hi_control info \<noteq> For_Control then
        render_error (quoted_text ''elsif'' @ '' and '' @ quoted_text ''else'' @ '' need an '' @ quoted_text ''if'' @
          '' above them'') (hi_line info) 1 st
      else
        bind_render (evaluated_value (hi_value info) st) (\<lambda>v st1.
          if \<not> is_array v then render_error (''cannot iterate '' @ type_name (type_of_value v)) (hi_line info) 1 st1
          else
            (let (saved, st2) = taken_locals st1 in
             with_locals saved
               (for_items (\<lambda>item c. set_local (hi_loop_variable info) item (restore_locals saved c)) body (items v) st2))))"

text \<open>
  \<open>render\<close>, \<open>render_children\<close> and \<open>render_conditional\<close>. A chain of branches is walked together with
  what follows it; \<open>taken\<close> is whether a branch was taken already.
\<close>

function (sequential)
  render_haml_node :: "engine \<Rightarrow> haml_node \<Rightarrow> render_state \<Rightarrow> string rendering"
  and render_children :: "engine \<Rightarrow> haml_node list \<Rightarrow> render_state \<Rightarrow> string rendering"
  and render_chain :: "engine \<Rightarrow> bool \<Rightarrow> haml_node list \<Rightarrow> render_state \<Rightarrow> string rendering"
where
  "render_haml_node en (Haml_Node info children) st =
     (case hi_kind info of
        Root_Node \<Rightarrow> render_children en children st
      | Doctype_Node \<Rightarrow> (Rendered (''<!DOCTYPE html>'' @ [CHR 0x0A]), st)
      | Comment_Node \<Rightarrow> (Rendered [], st)
      | Text_Node \<Rightarrow>
          bind_render (interpolate (hi_text info) True st) (\<lambda>text st1. (Rendered (text @ [CHR 0x0A]), st1))
      | Output_Node \<Rightarrow> render_output en info st
      | Filter_Node \<Rightarrow> render_filter info children st
      | Control_Node \<Rightarrow> render_loop (\<lambda>st1. render_children en children st1) info st
      | Element_Node \<Rightarrow>
          bind_render (open_tag info st) (\<lambda>opened st1.
            if hi_self_closing info \<or> is_void_tag_name (hi_tag info) then
              (Rendered (opened @ '' />'' @ [CHR 0x0A]), st1)
            else if children = [] then (Rendered (opened @ CHR ''>'' # close_tag info), st1)
            else
              bind_render (render_children en children st1) (\<lambda>out st2.
                (Rendered (opened @ CHR ''>'' # element_content (sits_inline info children) out @ close_tag info), st2))))"
| "render_children en [] st = (Rendered [], st)"
| "render_children en (child # children) st =
     (if heads_chain (haml_info_of child) then render_chain en False (child # children) st
      else
        bind_render (render_haml_node en child st) (\<lambda>out st1.
        bind_render (render_children en children st1) (\<lambda>rest st2. (Rendered (out @ rest), st2))))"
| "render_chain en taken [] st = (Rendered [], st)"
| "render_chain en taken (Haml_Node info below # children) st =
     bind_render (if taken then (Rendered False, st) else branch_condition info st) (\<lambda>chosen st1.
     bind_render (if chosen then render_children en below st1 else (Rendered [], st1)) (\<lambda>out st2.
     bind_render
       (if children \<noteq> [] \<and> continues_chain (haml_info_of (hd children))
        then render_chain en (taken \<or> chosen) children st2
        else render_children en children st2) (\<lambda>rest st3. (Rendered (out @ rest), st3))))"
  by pat_completeness auto
termination
  by (relation "measure (case_sum (\<lambda>(_, node, _). 3 * size node)
      (case_sum (\<lambda>(_, nodes, _). 3 * size_list size nodes + 2) (\<lambda>(_, _, nodes, _). 3 * size_list size nodes + 1)))")
    auto

declare render_haml_node.simps [simp del] render_children.simps [simp del] render_chain.simps [simp del]

section \<open>Templates and partials\<close>

text \<open>A renderer that may nest so many partials more. The C++ starts at a depth of 32.\<close>

primrec render_template :: "nat \<Rightarrow> haml_options \<Rightarrow> haml_template \<Rightarrow> render_state \<Rightarrow> string rendering" where
  "render_template 0 opts t st =
     render_children \<lparr>en_options = opts, en_template = ht_name t, en_deeper = None\<rparr> (haml_children (ht_root t)) st"
| "render_template (Suc n) opts t st =
     render_children \<lparr>en_options = opts, en_template = ht_name t, en_deeper = Some (render_template n opts)\<rparr>
       (haml_children (ht_root t)) st"

definition max_partial_depth :: nat where "max_partial_depth = 32"

definition render_haml :: "haml_options \<Rightarrow> haml_template \<Rightarrow> render_state \<Rightarrow> string rendering" where
  "render_haml opts t st = render_template max_partial_depth opts t st"

end
