(* ===== verification/ExpressionProps.thy ===== *)
theory ExpressionProps
  imports Expressions
begin

text \<open>
  Facts about \<open>expression.cpp\<close>: every parser function consumes input and gives the depth counter
  back, the fuel is enough, every accepted tree carries its height and is at most 64 tall, so the
  evaluator recurses at most 64 deep on it, and values stay well-formed.
\<close>

section \<open>Trees and their heights\<close>

fun tree_height :: "node \<Rightarrow> nat" where
  "tree_height (Member i name target) = Suc (tree_height target)"
| "tree_height (Call i target arguments) =
     Suc (Max (insert (tree_height target) (tree_height ` set arguments)))"
| "tree_height (Named_Argument i name v) = Suc (tree_height v)"
| "tree_height (Block i inner) = Suc (tree_height inner)"
| "tree_height (Map_Node i entries) = Suc (Max (insert 0 (tree_height ` set entries)))"
| "tree_height (Unary_Not i operand) = Suc (tree_height operand)"
| "tree_height (Binary i op left right) = Suc (max (tree_height left) (tree_height right))"
| "tree_height _ = 1"

text \<open>The stored height is the height, and at most the limit, at every node; integers fit 64 bits.\<close>

fun sound :: "node \<Rightarrow> bool" where
  "sound (Member i name target) \<longleftrightarrow> sound target \<and> ni_height i = Suc (node_height target) \<and> ni_height i \<le> 64"
| "sound (Call i target arguments) \<longleftrightarrow> sound target \<and> (\<forall>a \<in> set arguments. sound a) \<and>
     ni_height i = Suc (tallest (target # arguments)) \<and> ni_height i \<le> 64"
| "sound (Named_Argument i name v) \<longleftrightarrow> sound v \<and> ni_height i = Suc (node_height v) \<and> ni_height i \<le> 64"
| "sound (Block i inner) \<longleftrightarrow> sound inner \<and> ni_height i = Suc (node_height inner) \<and> ni_height i \<le> 64"
| "sound (Map_Node i entries) \<longleftrightarrow> (\<forall>e \<in> set entries. sound e) \<and>
     ni_height i = Suc (tallest entries) \<and> ni_height i \<le> 64"
| "sound (Unary_Not i operand) \<longleftrightarrow> sound operand \<and> ni_height i = Suc (node_height operand) \<and> ni_height i \<le> 64"
| "sound (Binary i op left right) \<longleftrightarrow> sound left \<and> sound right \<and>
     ni_height i = Suc (max (node_height left) (node_height right)) \<and> ni_height i \<le> 64"
| "sound (Literal_Integer i n) \<longleftrightarrow> ni_height i = 1 \<and> in_int64 n"
| "sound node \<longleftrightarrow> node_height node = 1"

lemma fold_max_height:
  "fold (\<lambda>child h. max h (node_height child)) children h0 = Max (insert h0 (node_height ` set children))"
proof (induction children arbitrary: h0)
  case (Cons child children)
  then show ?case
    by (cases "children = []") (simp_all add: insert_commute max.assoc max.commute)
qed simp

lemma tallest_Max: "tallest children = Max (insert 0 (node_height ` set children))"
  by (simp add: tallest_def fold_max_height)

lemma tallest_simps [simp]:
  "tallest [] = 0" "tallest [a] = node_height a" "tallest [a, b] = max (node_height a) (node_height b)"
  by (simp_all add: tallest_def)

lemma sound_tree_height: "sound node \<Longrightarrow> tree_height node = node_height node \<and> node_height node \<le> 64"
proof (induction node)
  case (Call i target arguments)
  then have "tree_height ` set arguments = node_height ` set arguments"
    by (intro image_cong) auto
  then have "Max (insert (tree_height target) (tree_height ` set arguments)) = tallest (target # arguments)"
    using Call by (simp add: tallest_Max)
  with Call show ?case by simp
next
  case (Map_Node i entries)
  then have "tree_height ` set entries = node_height ` set entries"
    by (intro image_cong) auto
  then have "tree_height (Map_Node i entries) = Suc (tallest entries)"
    by (simp add: tallest_Max)
  moreover have "ni_height i = Suc (tallest entries)" "ni_height i \<le> 64"
    using Map_Node.prems by simp_all
  ultimately show ?case by (simp del: tree_height.simps)
next
  case (Binary i op left right)
  then show ?case by auto
qed simp_all

section \<open>Steps of the parser\<close>

definition moves :: "nat \<Rightarrow> xstate \<Rightarrow> xstate \<Rightarrow> bool" where
  "moves n st st' \<longleftrightarrow> length (x_rest st') + n \<le> length (x_rest st) \<and> x_depth st' = x_depth st"

lemma moves_refl [simp]: "moves 0 st st"
  by (simp add: moves_def)

lemma moves_trans: "moves m a b \<Longrightarrow> moves n b c \<Longrightarrow> moves (m + n) a c"
  by (simp add: moves_def)

lemma moves_weaken: "moves m a b \<Longrightarrow> n \<le> m \<Longrightarrow> moves n a b"
  by (simp add: moves_def)

lemma x_drop_simps [simp]:
  "x_rest (x_drop n st) = drop n (x_rest st)" "x_depth (x_drop n st) = x_depth st"
  by (simp_all add: x_drop_def)

lemma moves_drop: "n \<le> length (x_rest st) \<Longrightarrow> moves n st (x_drop n st)"
  by (simp add: moves_def)

lemma moves_drop0: "moves 0 st (x_drop n st)"
  by (simp add: moves_def)

lemma moves_skip: "moves 0 st (skip_spaces st)"
  by (simp add: skip_spaces_def moves_drop0)

lemma x_consume_moves:
  "x_consume token st = (found, st') \<Longrightarrow> moves 0 st st' \<and> (found \<longrightarrow> token \<noteq> [] \<longrightarrow> moves 1 st st')"
proof -
  assume consumed: "x_consume token st = (found, st')"
  have "moves 1 st (x_drop (length token) (skip_spaces st))"
    if "starts_with (x_rest (skip_spaces st)) token" "token \<noteq> []"
  proof -
    have "1 \<le> length token" using that(2) by (cases token) auto
    moreover have "length token \<le> length (x_rest (skip_spaces st))"
      using starts_with_length [OF that(1)] .
    moreover have "length (x_rest (skip_spaces st)) \<le> length (x_rest st)"
      by (simp add: skip_spaces_def)
    ultimately show ?thesis
      by (simp add: moves_def skip_spaces_def)
  qed
  then show ?thesis
    using consumed moves_skip [of st] moves_weaken [of 1 st _ 0]
    by (auto simp: x_consume_def Let_def moves_def skip_spaces_def split: if_splits)
qed

lemma read_name_moves:
  "read_name st = (name, st') \<Longrightarrow> moves (length name) st st'"
  by (auto simp: read_name_def Let_def intro!: moves_drop length_takeWhile_le)

lemma x_peek_rest: "x_peek st = Some c \<Longrightarrow> x_rest st = c # tl (x_rest st)"
  by (auto simp: x_peek_def split: list.splits)

lemma first_operator_moves:
  "first_operator tokens st = (op, st') \<Longrightarrow> \<forall>t \<in> set tokens. fst t \<noteq> [] \<Longrightarrow>
   moves 0 st st' \<and> (op \<noteq> None \<longrightarrow> moves 1 st st')"
proof (induction tokens st rule: first_operator.induct)
  case (2 token operator tokens st)
  obtain found st1 where step: "x_consume token st = (found, st1)"
    by (cases "x_consume token st")
  note moved = x_consume_moves [OF step]
  show ?case
  proof (cases found)
    case True
    with 2 step moved show ?thesis by auto
  next
    case False
    then have "moves 0 st1 st' \<and> (op \<noteq> None \<longrightarrow> moves 1 st1 st')"
      using 2 step by simp
    with moved show ?thesis
      using moves_trans by fastforce
  qed
qed simp

lemma level_tokens_nonempty: "\<forall>t \<in> set (level_tokens level). fst t \<noteq> []"
  by (cases level) auto

lemma checked_Done:
  "checked build children st = Done node st' \<Longrightarrow>
   st' = st \<and> node = build (Suc (tallest children)) \<and> Suc (tallest children) \<le> 64"
  by (auto simp: checked_def Let_def max_expression_depth_def split: if_splits)

lemma checked_fuel [simp]: "checked build children st \<noteq> OutOfFuel"
  by (simp add: checked_def Let_def)

lemma x_expect_Done: "x_expect token message v st = Done w st' \<Longrightarrow> w = v \<and> moves 0 st st' \<and> (token \<noteq> [] \<longrightarrow> moves 1 st st')"
  using x_consume_moves [of token st] by (auto simp: x_expect_def split: prod.splits if_splits)

lemma x_expect_fuel [simp]: "x_expect token message v st \<noteq> OutOfFuel"
  by (auto simp: x_expect_def split: prod.split)

lemma string_body_length: "string_body quote cs = (body, rest) \<Longrightarrow> length rest \<le> length cs"
  by (induction quote cs arbitrary: body rest rule: string_body.induct)
    (fastforce split: if_splits prod.splits)+

section \<open>Turns\<close>

lemma string_turn_Leaf:
  assumes "string_turn quote st = Leaf node st'" and "x_rest st \<noteq> []"
  shows "moves 1 st st' \<and> sound node"
proof -
  have "\<exists>k. st' = x_drop 1 (x_drop k (x_drop 1 st)) \<and> sound node"
    using assms(1) by (auto simp: string_turn_def Let_def make_info_def split: if_splits prod.splits)
  then show ?thesis
    using assms(2) by (cases "x_rest st") (auto simp: moves_def)
qed

lemma read_integer_fits: "in_int64 (case from_chars_int64 token of Parsed i _ \<Rightarrow> i | _ \<Rightarrow> 0)"
  by (auto simp: in_int64_def int64_min_def int64_max_def split: from_chars_result.split
      dest!: from_chars_in_int64)

lemma number_turn_Leaf:
  assumes "number_turn st = Leaf node st'" and "is_digit (hd (x_rest st))" and "x_rest st \<noteq> []"
  shows "moves 1 st st' \<and> sound node"
proof -
  have one: "1 \<le> length (takeWhile is_digit (x_rest st))"
    using assms(2,3) by (cases "x_rest st") auto
  obtain n where "st' = x_drop (length (takeWhile is_digit (x_rest st)) + n) st" "sound node"
    using assms(1) read_integer_fits
    by (fastforce simp: number_turn_def Let_def make_info_def simp del: sound.simps(1-7) split: if_splits)
  with one assms(3) show ?thesis
    by (cases "x_rest st") (auto simp: moves_def)
qed

lemma number_turn_leaf: "\<exists>node st'. number_turn st = Leaf node st'"
  by (auto simp: number_turn_def Let_def)

lemma word_turn_Leaf:
  assumes "word_turn st = Leaf node st'" and "is_name_start (hd (x_rest st))" and "x_rest st \<noteq> []"
  shows "moves 1 st st' \<and> sound node"
proof -
  obtain word st1 where word: "read_name st = (word, st1)" by (cases "read_name st")
  then have "word \<noteq> []"
    using assms(2,3) by (cases "x_rest st") (auto simp: read_name_def is_name_character_def Let_def)
  then have "1 \<le> length word" by (cases word) auto
  then have "moves 1 st st1"
    by (rule moves_weaken [OF read_name_moves [OF word]])
  moreover have "\<exists>leaf. word_turn st = Leaf leaf st1 \<and> sound leaf"
  proof -
    have "\<exists>leaf. (if P then Leaf (Literal_Boolean (make_info 1 st1) b) st1
        else if Q then Leaf (Literal_Null (make_info 1 st1)) st1
        else Leaf (Name (make_info 1 st) word) st1) = Leaf leaf st1 \<and> sound leaf" for P Q b
      by (auto simp: make_info_def)
    then show ?thesis unfolding word_turn_def word prod.case Let_def by blast
  qed
  ultimately show ?thesis using assms(1) by auto
qed

lemma word_turn_leaf: "\<exists>node st'. word_turn st = Leaf node st'"
  by (auto simp: word_turn_def Let_def split: prod.split)

lemma moves_after_skip: "moves n (skip_spaces st) st' \<Longrightarrow> moves n st st'"
  using moves_trans [OF moves_skip] by fastforce

lemma primary_turn_moves:
  "primary_turn_of st = Leaf node st' \<Longrightarrow> moves 1 st st' \<and> sound node"
  "primary_turn_of st = Group st' \<Longrightarrow> moves 1 st st'"
  "primary_turn_of st = Map_Start info st' \<Longrightarrow> moves 1 st st'"
  "primary_turn_of st = Block_Start st' \<Longrightarrow> moves 1 st st'"
proof -
  have name: "moves 1 st0 st1" if "read_name (x_drop 1 st0) = (name, st1)" "x_rest st0 \<noteq> []" for st0 st1 name
    using read_name_moves [OF that(1)] that(2) by (cases "x_rest st0") (auto simp: moves_def)
  show "moves 1 st st' \<and> sound node" if turn: "primary_turn_of st = Leaf node st'"
  proof -
    obtain c cs where rest: "x_rest (skip_spaces st) = c # cs"
      using turn by (auto simp: primary_turn_of_def Let_def split: list.splits)
    then consider "string_turn c (skip_spaces st) = Leaf node st'"
      | "number_turn (skip_spaces st) = Leaf node st'" "is_digit c"
      | name st1 where "read_name (x_drop 1 (skip_spaces st)) = (name, st1)" "st' = st1" "sound node"
      | "word_turn (skip_spaces st) = Leaf node st'" "is_name_start c"
      using turn by (auto simp: primary_turn_of_def Let_def make_info_def split: if_splits prod.splits)
    then show ?thesis
    proof cases
      case 1
      then show ?thesis using string_turn_Leaf rest moves_after_skip by fastforce
    next
      case 2
      then show ?thesis using number_turn_Leaf rest moves_after_skip by fastforce
    next
      case 3
      then show ?thesis using name [OF 3(1)] rest moves_after_skip by fastforce
    next
      case 4
      then show ?thesis using word_turn_Leaf rest moves_after_skip by fastforce
    qed
  qed
  have opened: "moves 1 st (x_drop 1 (skip_spaces st))" if "x_rest (skip_spaces st) \<noteq> []"
    using that moves_drop [of 1 "skip_spaces st"] moves_after_skip by (cases "x_rest (skip_spaces st)") auto
  show "moves 1 st st'" if turn: "primary_turn_of st = Group st'"
    using turn opened number_turn_leaf word_turn_leaf
    by (auto simp: primary_turn_of_def string_turn_def Let_def split: list.splits if_splits prod.splits)
      (metis primary_turn.distinct)+
  show "moves 1 st st'" if turn: "primary_turn_of st = Block_Start st'"
    using turn opened number_turn_leaf word_turn_leaf
    by (auto simp: primary_turn_of_def string_turn_def Let_def split: list.splits if_splits prod.splits)
      (metis primary_turn.distinct)+
  show "moves 1 st st'" if turn: "primary_turn_of st = Map_Start info st'"
    using turn opened number_turn_leaf word_turn_leaf moves_trans [OF opened moves_skip]
    by (auto simp: primary_turn_of_def string_turn_def Let_def split: list.splits if_splits prod.splits)
      (metis primary_turn.distinct)+
qed

lemma member_turn_sound:
  assumes "sound target"
  shows "member_turn name target callable st = Postfix_Node node st' \<Longrightarrow> st' = st \<and> sound node"
    and "member_turn name target callable st = Postfix_Call node st' \<Longrightarrow> st' = st \<and> sound node \<and> x_rest st \<noteq> []"
    and "member_turn name target callable st \<noteq> Postfix_Stop st'"
proof -
  have "checked (\<lambda>h. Member (make_info h st) name target) [target] st = Done node st' \<Longrightarrow> st' = st \<and> sound node" for node st'
    using assms by (auto dest!: checked_Done simp: make_info_def)
  then show "member_turn name target callable st = Postfix_Node node st' \<Longrightarrow> st' = st \<and> sound node"
    and "member_turn name target callable st = Postfix_Call node st' \<Longrightarrow> st' = st \<and> sound node \<and> x_rest st \<noteq> []"
    by (auto simp: member_turn_def dest: x_peek_rest split: outcome.splits if_splits)
  show "member_turn name target callable st \<noteq> Postfix_Stop st'"
    by (auto simp: member_turn_def split: outcome.splits)
qed

lemma read_one:
  assumes "read_name st = (name, st')" and "name \<noteq> []"
  shows "moves 1 st st'"
proof -
  have "1 \<le> length name" using assms(2) by (cases name) auto
  then show ?thesis by (rule moves_weaken [OF read_name_moves [OF assms(1)]])
qed

lemma moves_drop1: "moves n st st' \<Longrightarrow> moves n st (x_drop k st')"
  by (auto simp: moves_def)

lemma moves_from_drop: "moves n (x_drop k st) st' \<Longrightarrow> moves n st st'"
  by (auto simp: moves_def)

lemma postfix_turn_moves:
  assumes "sound target"
  shows "postfix_turn_of target st = Postfix_Stop st' \<Longrightarrow> moves 0 st st'"
    and "postfix_turn_of target st = Postfix_Node node st' \<Longrightarrow> moves 1 st st' \<and> sound node"
    and "postfix_turn_of target st = Postfix_Call node st' \<Longrightarrow> moves 0 st st' \<and> sound node \<and> x_rest st' \<noteq> []"
proof -
  obtain dot st1 where dot: "x_consume ''.'' st = (dot, st1)" by (cases "x_consume ''.'' st")
  note moved = x_consume_moves [OF dot]
  obtain name st2 where name: "read_name st1 = (name, st2)" by (cases "read_name st1")
  obtain key st3 where key: "read_name (x_drop 1 st1) = (key, st3)" by (cases "read_name (x_drop 1 st1)")
  have key_moves: "moves 1 st (x_drop 1 st3)" if "key \<noteq> []"
    using moves_trans [OF conjunct1 [OF moved] moves_drop1 [OF moves_from_drop [OF read_one [OF key that]]]] by simp
  have name_moves: "moves 1 st st2" if "name \<noteq> []"
    using moves_trans [OF conjunct1 [OF moved] read_one [OF name that]] by simp
  show "moves 0 st st'" if "postfix_turn_of target st = Postfix_Stop st'"
    using that moved member_turn_sound(3) [OF assms]
    by (auto simp: postfix_turn_of_def dot name key simp del: One_nat_def split: if_splits)
  show "moves 1 st st' \<and> sound node" if "postfix_turn_of target st = Postfix_Node node st'"
    using that key_moves name_moves
    by (auto simp: postfix_turn_of_def dot name key simp del: One_nat_def dest: member_turn_sound(1) [OF assms] split: if_splits)
  show "moves 0 st st' \<and> sound node \<and> x_rest st' \<noteq> []" if "postfix_turn_of target st = Postfix_Call node st'"
    using that moved key_moves name_moves assms moves_weaken [of 1 st _ 0]
    by (auto simp: postfix_turn_of_def dot name key simp del: One_nat_def dest: member_turn_sound(2) [OF assms] x_peek_rest split: if_splits)
qed

lemma argument_turn_moves:
  "argument_turn_of st = Arg_Plain st' \<Longrightarrow> moves 0 st st'"
  "argument_turn_of st = Arg_Leaf node st' \<Longrightarrow> moves 1 st st' \<and> sound node"
  "argument_turn_of st = Arg_Group name info st' \<Longrightarrow> moves 1 st st'"
proof -
  obtain name0 st1 where name: "read_name (x_drop 1 (skip_spaces st)) = (name0, st1)"
    by (cases "read_name (x_drop 1 (skip_spaces st))")
  have moved: "moves 1 st (x_drop k st1)" if "name0 \<noteq> []" for k
    by (rule moves_drop1 [OF moves_after_skip [OF moves_from_drop [OF read_one [OF name that]]]])
  have moved0: "moves 1 st st1" if "name0 \<noteq> []"
    by (rule moves_after_skip [OF moves_from_drop [OF read_one [OF name that]]])
  show "argument_turn_of st = Arg_Plain st' \<Longrightarrow> moves 0 st st'"
    using moves_skip by (auto simp: argument_turn_of_def Let_def name simp del: One_nat_def split: if_splits option.splits)
  show "argument_turn_of st = Arg_Leaf node st' \<Longrightarrow> moves 1 st st' \<and> sound node"
    using moved moved0
    by (auto simp: argument_turn_of_def Let_def name make_info_def simp del: One_nat_def split: if_splits option.splits)
  show "argument_turn_of st = Arg_Group name info st' \<Longrightarrow> moves 1 st st'"
    using moved by (auto simp: argument_turn_of_def Let_def name simp del: One_nat_def split: if_splits option.splits)
qed

lemma map_turn_moves:
  "map_turn_of st = Map_End st' \<Longrightarrow> moves 0 st st'"
  "map_turn_of st = Map_Key key st' \<Longrightarrow> moves 1 st st'"
proof -
  obtain name st1 where name: "read_name st = (name, st1)" by (cases "read_name st")
  obtain colon st2 where colon: "x_consume '':'' st1 = (colon, st2)" by (cases "x_consume '':'' st1")
  show "map_turn_of st = Map_End st' \<Longrightarrow> moves 0 st st'"
    by (auto simp: map_turn_of_def name colon split: if_splits)
  have "moves 1 st st2" if "name \<noteq> []"
    using moves_trans [OF read_one [OF name that] conjunct1 [OF x_consume_moves [OF colon]]] by simp
  then show "map_turn_of st = Map_Key key st' \<Longrightarrow> moves 1 st st'"
    by (auto simp: map_turn_of_def name colon split: if_splits)
qed

lemma map_close_Done:
  assumes "map_close info entries st = Done node st'" and "\<forall>e \<in> set entries. sound e"
  shows "moves 1 st st' \<and> sound node"
proof -
  obtain st1 where "x_expect ''}'' (''expected '' @ quoted_text ''}'' @ '' to close a map'') () st = Done () st1"
    "checked (\<lambda>h. Map_Node (info\<lparr>ni_height := h\<rparr>) entries) entries st1 = Done node st'"
    using assms(1) by (auto simp: map_close_def bind_outcome_Done)
  then show ?thesis
    using assms(2) by (auto dest!: x_expect_Done checked_Done)
qed

lemma map_close_fuel [simp]: "map_close info entries st \<noteq> OutOfFuel"
  by (auto simp: map_close_def bind_outcome_OutOfFuel)

lemma deeper_Done:
  assumes "deeper body st = Done node st'"
  obtains st1 where "body (st\<lparr>x_depth := x_depth st + 1\<rparr>) = Done node st1"
    "st' = st1\<lparr>x_depth := x_depth st1 - 1\<rparr>"
  using assms by (auto simp: deeper_def bind_outcome_Done split: if_splits)

lemma deeper_moves:
  "moves n (st\<lparr>x_depth := x_depth st + 1\<rparr>) st1 \<Longrightarrow> moves n st (st1\<lparr>x_depth := x_depth st1 - 1\<rparr>)"
  by (simp add: moves_def)

lemma deeper_fuel: "deeper body st = OutOfFuel \<Longrightarrow> body (st\<lparr>x_depth := x_depth st + 1\<rparr>) = OutOfFuel"
  by (auto simp: deeper_def bind_outcome_OutOfFuel split: if_splits)

section \<open>What the parser returns\<close>

definition good :: "nat \<Rightarrow> xstate \<Rightarrow> node \<Rightarrow> xstate \<Rightarrow> bool" where
  "good n st node st' \<longleftrightarrow> moves n st st' \<and> sound node"

lemma good_before: "moves 0 st st1 \<Longrightarrow> good n st1 node st' \<Longrightarrow> good n st node st'"
  unfolding good_def using moves_trans [of 0 st st1 n st'] by simp

lemma good_after: "moves 1 st st1 \<Longrightarrow> good 0 st1 node st' \<Longrightarrow> good 1 st node st'"
  unfolding good_def using moves_trans [of 1 st st1 0 st'] by simp

lemma good_weaken: "good 1 st node st' \<Longrightarrow> good 0 st node st'"
  unfolding good_def using moves_weaken by blast

lemma deeper_good:
  assumes "deeper body st = Done node st'"
    and "\<And>st st' node. body st = Done node st' \<Longrightarrow> good n st node st'"
  shows "good n st node st'"
  using assms(1)
proof (cases rule: deeper_Done)
  case (1 st1)
  then show ?thesis
    using assms(2) [OF 1(1)] deeper_moves by (simp add: good_def)
qed

definition all_sound :: "nat \<Rightarrow> xstate \<Rightarrow> node list \<Rightarrow> xstate \<Rightarrow> bool" where
  "all_sound n st nodes st' \<longleftrightarrow> moves n st st' \<and> (\<forall>a \<in> set nodes. sound a)"

lemma comma_or_close:
  assumes "x_consume token st = (found, st')"
  shows "moves 0 st st'"
  using x_consume_moves [OF assms] by blast

lemma parsers_good:
  "parse_level n level st = Done node st' \<Longrightarrow> good 1 st node st'"
  "parse_operand n level st = Done node st' \<Longrightarrow> good 1 st node st'"
  "level_loop n level left st = Done node st' \<Longrightarrow> sound left \<Longrightarrow> good 0 st node st'"
  "parse_unary n st = Done node st' \<Longrightarrow> good 1 st node st'"
  "parse_postfix n st = Done node st' \<Longrightarrow> good 1 st node st'"
  "postfix_loop n target st = Done node st' \<Longrightarrow> sound target \<Longrightarrow> good 0 st node st'"
  "parse_arguments n st = Done nodes st' \<Longrightarrow> x_rest st \<noteq> [] \<Longrightarrow> all_sound 1 st nodes st'"
  "arguments_loop n arguments st = Done nodes st' \<Longrightarrow> \<forall>a \<in> set arguments. sound a \<Longrightarrow> all_sound 0 st nodes st'"
  "parse_argument n st = Done node st' \<Longrightarrow> good 1 st node st'"
  "parse_primary n st = Done node st' \<Longrightarrow> good 1 st node st'"
  "map_loop n info entries st = Done node st' \<Longrightarrow> \<forall>a \<in> set entries. sound a \<Longrightarrow> good 0 st node st'"
proof (induction n arbitrary: level st node st' left target nodes arguments info entries)
  case (Suc n)
  have level_body: "good 1 st node st'"
    if "bind_outcome (parse_operand n level st) (level_loop n level) = Done node st'" for level st node st'
  proof -
    obtain left st1 where "parse_operand n level st = Done left st1" "level_loop n level left st1 = Done node st'"
      using \<open>bind_outcome (parse_operand n level st) (level_loop n level) = Done node st'\<close> by (auto simp: bind_outcome_Done)
    with Suc(2) Suc(3) show ?thesis by (meson good_after good_def)
  qed
  {
    case 1
    then show ?case
      using deeper_good [OF _ level_body] level_body by (simp split: if_splits)
  next
    case 2
    then show ?case using Suc(1) Suc(4) by (auto split: level.splits)
  next
    case 3
    obtain op st1 where op: "first_operator (level_tokens level) st = (op, st1)"
      by (cases "first_operator (level_tokens level) st")
    note moved = first_operator_moves [OF op level_tokens_nonempty]
    show ?case
    proof (cases op)
      case None
      with 3 op moved show ?thesis by (simp add: good_def)
    next
      case (Some operator)
      with 3(1) op obtain right st2 node1 where
        "parse_operand n level st1 = Done right st2"
        and built: "checked (\<lambda>h. Binary (make_info h st2) operator left right) [left, right] st2 = Done node1 st2"
        and rest: "level_loop n level node1 st2 = Done node st'"
        by (auto simp: bind_outcome_Done dest: checked_Done)
      moreover have "sound node1"
        using checked_Done [OF built] 3(2) Suc(2) [OF calculation(1)] by (simp add: make_info_def good_def)
      ultimately show ?thesis
        using Suc(2) Suc(3) moved Some
        by (meson good_after good_before good_def good_weaken)
    qed
  next
    case 4
    then show ?case
    proof (subst (asm) parse_unary.simps, elim deeper_good)
      fix st node st'
      let ?ops = "[(''!'', Equal), (''not'', Equal)]"
      obtain op st1 where op: "first_operator ?ops st = (op, st1)"
        by (cases "first_operator ?ops st")
      have moved: "moves 0 st st1"
        using first_operator_moves [OF op] by simp
      assume done_body: "(case first_operator ?ops st of (None, st1) \<Rightarrow> parse_postfix n st1
          | (Some x, st1) \<Rightarrow> bind_outcome (parse_unary n st1) (\<lambda>operand st2.
              checked (\<lambda>h. Unary_Not (make_info h st2) operand) [operand] st2)) = Done node st'"
      show "good 1 st node st'"
      proof (cases op)
        case None
        then have "good 1 st1 node st'"
          using done_body op Suc(5) by simp
        with moved show ?thesis by (rule good_before)
      next
        case (Some x)
        then obtain operand st2 where operand: "parse_unary n st1 = Done operand st2"
          and built: "checked (\<lambda>h. Unary_Not (make_info h st2) operand) [operand] st2 = Done node st'"
          using done_body op by (auto simp: bind_outcome_Done)
        have "good 1 st1 operand st2" using Suc(4) operand by blast
        then have "good 1 st1 node st'"
          using checked_Done [OF built] by (auto simp: make_info_def good_def)
        with moved show ?thesis by (rule good_before)
      qed
    qed
  next
    case 5
    then obtain target st1 where "parse_primary n st = Done target st1" "postfix_loop n target st1 = Done node st'"
      by (auto simp: bind_outcome_Done)
    with Suc(10) Suc(6) show ?case by (meson good_after good_def)
  next
    case 6
    note turn = postfix_turn_moves [OF 6(2), of st]
    show ?case
    proof (cases "postfix_turn_of target st")
      case (Postfix_Stop st1)
      with 6 turn show ?thesis by (simp add: good_def)
    next
      case (Postfix_Fail e)
      with 6 show ?thesis by simp
    next
      case (Postfix_Node node1 st1)
      with 6 turn Suc(6) show ?thesis by (simp, meson good_after good_weaken)
    next
      case (Postfix_Call node1 st1)
      with 6(1) obtain arguments st2 node2 where
        arguments: "parse_arguments n st1 = Done arguments st2"
        and built: "checked (\<lambda>h. Call (make_info h st2) node1 arguments) (node1 # arguments) st2 = Done node2 st2"
        and rest: "postfix_loop n node2 st2 = Done node st'"
        by (auto simp: bind_outcome_Done dest: checked_Done)
      have "all_sound 1 st1 arguments st2"
        using Suc(7) [OF arguments] turn(3) [OF Postfix_Call] by blast
      moreover from this have "sound node2"
        using checked_Done [OF built] turn(3) [OF Postfix_Call] by (auto simp: make_info_def all_sound_def)
      ultimately show ?thesis
        using Suc(6) [OF rest] turn(3) [OF Postfix_Call] by (meson all_sound_def good_after good_before good_weaken)
    qed
  next
    case 7
    have opened: "moves 1 st (skip_spaces (x_drop 1 st))"
      using 7(2) moves_trans [OF moves_drop moves_skip, of 1 st] by (cases "x_rest st") auto
    show ?case
      using 7(1) opened Suc(8) [of "[]" "skip_spaces (x_drop 1 st)" nodes st']
        moves_trans [OF opened, of 0] moves_drop1 [OF opened, of 1]
      by (auto simp: Let_def all_sound_def simp del: One_nat_def split: if_splits)
  next
    case 8
    from 8(1) obtain argument st1 comma st2 where
      argument: "parse_argument n st = Done argument st1" and comma: "x_consume '','' st1 = (comma, st2)"
      and rest: "(if comma then arguments_loop n (arguments @ [argument]) st2
        else x_expect '')'' (''expected '' @ quoted_text '','' @ '' or '' @ quoted_text '')'' @
              '' in an argument list'') (arguments @ [argument]) st2) = Done nodes st'"
      by (cases "parse_argument n st") (auto simp: Let_def split: prod.splits)
    have good: "good 1 st argument st1" by (rule Suc(9) [OF argument])
    then have "moves 0 st st2"
      using moves_trans [OF moves_weaken comma_or_close [OF comma], of 1 st 0] by (simp add: good_def)
    moreover have "all_sound 0 st2 nodes st'"
    proof (cases comma)
      case True
      then show ?thesis
        using rest Suc(8) [of "arguments @ [argument]" st2 nodes st'] 8(2) good by (simp add: good_def)
    next
      case False
      then show ?thesis
        using rest 8(2) good by (auto dest!: x_expect_Done simp: all_sound_def good_def)
    qed
    ultimately show ?case
      using moves_trans [of 0 st st2 0 st'] by (simp add: all_sound_def)
  next
    case 9
    note turn = argument_turn_moves [of st]
    show ?case
    proof (cases "argument_turn_of st")
      case (Arg_Fail e)
      with 9 show ?thesis by simp
    next
      case (Arg_Leaf leaf st1)
      with 9 turn(2) show ?thesis by (simp add: good_def)
    next
      case (Arg_Plain st1)
      with 9 have "good 1 st1 node st'" using Suc(1) by simp
      with turn(1) [OF Arg_Plain] show ?thesis by (rule good_before)
    next
      case (Arg_Group name info st1)
      with 9 obtain v st2 st3 where v: "parse_level n Or_Level st1 = Done v st2"
        and expect: "x_expect '')'' (''expected '' @ quoted_text '')'' @ '' after a named argument'') v st2 = Done v st3"
        and built: "checked (\<lambda>h. Named_Argument (info\<lparr>ni_height := h\<rparr>) name v) [v] st3 = Done node st'"
        by (auto simp: bind_outcome_Done dest: x_expect_Done)
      have "good 1 st1 v st2" by (rule Suc(1) [OF v])
      moreover have "st' = st3 \<and> sound node"
        using checked_Done [OF built] calculation by (simp add: good_def)
      ultimately have "good 0 st1 node st'"
        using x_expect_Done [OF expect] moves_trans [of 1 st1 st2 0 st3] moves_weaken by (auto simp: good_def)
      with turn(3) [OF Arg_Group] show ?thesis by (rule good_after)
    qed
  next
    case 10
    note turn = primary_turn_moves [of st]
    show ?case
    proof (cases "primary_turn_of st")
      case (No_Primary e)
      with 10 show ?thesis by simp
    next
      case (Leaf leaf st1)
      with 10 turn(1) show ?thesis by (simp add: good_def)
    next
      case (Group st1)
      with 10 obtain inner st2 where inner: "parse_level n Or_Level st1 = Done inner st2"
        and expect: "x_expect '')'' (''expected '' @ quoted_text '')'') inner st2 = Done node st'"
        by (auto simp: bind_outcome_Done)
      have "good 0 st1 node st'"
        using Suc(1) [OF inner] x_expect_Done [OF expect] moves_trans [of 1 st1 st2 0 st'] moves_weaken
        by (auto simp: good_def)
      with turn(2) [OF Group] show ?thesis by (rule good_after)
    next
      case (Map_Start info st1)
      with 10 have "good 0 st1 node st'" using Suc(11) by simp
      with turn(3) [OF Map_Start] show ?thesis by (rule good_after)
    next
      case (Block_Start st1)
      with 10 obtain inner st2 st3 where inner: "parse_level n Or_Level st1 = Done inner st2"
        and expect: "x_expect ''}'' (''expected '' @ quoted_text ''}'' @ '' to close a block'') inner st2 = Done inner st3"
        and built: "checked (\<lambda>h. Block (make_info h st3) inner) [inner] st3 = Done node st'"
        by (auto simp: bind_outcome_Done dest: x_expect_Done)
      have "good 1 st1 inner st2" by (rule Suc(1) [OF inner])
      moreover have "st' = st3 \<and> sound node"
        using checked_Done [OF built] calculation by (auto simp: good_def make_info_def)
      ultimately have "good 0 st1 node st'"
        using x_expect_Done [OF expect] moves_trans [of 1 st1 st2 0 st3] moves_weaken by (auto simp: good_def)
      with turn(4) [OF Block_Start] show ?thesis by (rule good_after)
    qed
  next
    case 11
    note turn = map_turn_moves [of st]
    show ?case
    proof (cases "map_turn_of st")
      case (Map_End st1)
      then have "good 1 st1 node st'"
        using 11 map_close_Done [of info entries st1 node st'] by (simp add: good_def)
      then show ?thesis
        using turn(1) [OF Map_End] good_before good_weaken by blast
    next
      case (Map_Fail e)
      with 11 show ?thesis by simp
    next
      case (Map_Key key st1)
      define built where "built v st2 = checked (\<lambda>h. Named_Argument (make_info h st2) key v) [v] st2" for v st2
      from 11(1) Map_Key obtain v st2 where v: "parse_level n Or_Level st1 = Done v st2"
        and after: "bind_outcome (built v st2) (\<lambda>entry st3.
              let (comma, st4) = x_consume '','' st3 in
              if comma then map_loop n info (entries @ [entry]) (skip_spaces st4)
              else map_close info (entries @ [entry]) st4) = Done node st'"
        by (auto simp: bind_outcome_Done built_def)
      from after obtain entry st3 where entry_built: "built v st2 = Done entry st3"
        and loop: "(let (comma, st4) = x_consume '','' st3 in
              if comma then map_loop n info (entries @ [entry]) (skip_spaces st4)
              else map_close info (entries @ [entry]) st4) = Done node st'"
        by (auto simp: bind_outcome_Done)
      have same: "st3 = st2" using entry_built checked_Done unfolding built_def by blast
      obtain comma st4 where comma: "x_consume '','' st2 = (comma, st4)" by fastforce
      have rest: "(if comma then map_loop n info (entries @ [entry]) (skip_spaces st4)
              else map_close info (entries @ [entry]) st4) = Done node st'"
        using loop comma same by simp
      note made = checked_Done [OF entry_built [unfolded built_def]]
      have "good 1 st1 v st2" by (rule Suc(1) [OF v])
      then have entry: "sound entry" and "moves 1 st1 st2"
        using made by (simp_all add: good_def make_info_def)
      then have "moves 0 st st4"
        using turn(2) [OF Map_Key] comma_or_close [OF comma] moves_trans moves_weaken by (simp add: moves_def)
      moreover have "good 0 st4 node st'"
      proof (cases comma)
        case True
        then have "good 0 (skip_spaces st4) node st'"
          using rest Suc(11) [of info "entries @ [entry]" "skip_spaces st4" node st'] 11(2) entry by auto
        then show ?thesis using moves_skip good_before by blast
      next
        case False
        then show ?thesis
          using rest map_close_Done [of info "entries @ [entry]" st4 node st'] 11(2) entry moves_weaken
          by (auto simp: good_def)
      qed
      ultimately show ?thesis by (rule good_before)
    qed
  }
qed simp_all

section \<open>The fuel is enough\<close>

text \<open>
  A call needs sixteen units for every character left and a few more for its place in the grammar:
  the calls that do not consume go down these ranks, every other call has a shorter source.
\<close>

fun level_rank :: "level \<Rightarrow> nat" where
  "level_rank Or_Level = 11"
| "level_rank And_Level = 9"
| "level_rank Comparison_Level = 7"
| "level_rank Additive_Level = 5"

definition fueled :: "nat \<Rightarrow> nat \<Rightarrow> xstate \<Rightarrow> bool" where
  "fueled n rank st \<longleftrightarrow> 16 * length (x_rest st) + rank \<le> n"

lemma fueled_rank: "fueled (Suc n) rank st \<Longrightarrow> moves 0 st st1 \<Longrightarrow> rank1 < rank \<Longrightarrow> fueled n rank1 st1"
  by (simp add: fueled_def moves_def)

lemma fueled_move: "fueled (Suc n) rank st \<Longrightarrow> moves 1 st st1 \<Longrightarrow> rank1 \<le> 15 + rank \<Longrightarrow> fueled n rank1 st1"
  by (simp add: fueled_def moves_def)

lemma fueled_deeper [simp]: "fueled n rank (st\<lparr>x_depth := d\<rparr>) \<longleftrightarrow> fueled n rank st"
  by (simp add: fueled_def)

lemma fueled_zero [simp]: "fueled 0 (Suc rank) st \<longleftrightarrow> False" "fueled 0 (numeral k) st \<longleftrightarrow> False"
  by (simp_all add: fueled_def)

lemma level_rank_pos [simp]: "fueled 0 (level_rank level) st \<longleftrightarrow> False"
  by (cases level) simp_all

lemma bind_fuel:
  assumes "m \<noteq> OutOfFuel" and "\<And>a s. m = Done a s \<Longrightarrow> k a s \<noteq> OutOfFuel"
  shows "bind_outcome m k \<noteq> OutOfFuel"
  using assms by (auto simp: bind_outcome_OutOfFuel)

lemma parsers_fueled:
  "fueled n (level_rank level) st \<Longrightarrow> parse_level n level st \<noteq> OutOfFuel"
  "fueled n (level_rank level - 1) st \<Longrightarrow> parse_operand n level st \<noteq> OutOfFuel"
  "fueled n 1 st \<Longrightarrow> sound left \<Longrightarrow> level_loop n level left st \<noteq> OutOfFuel"
  "fueled n 3 st \<Longrightarrow> parse_unary n st \<noteq> OutOfFuel"
  "fueled n 2 st \<Longrightarrow> parse_postfix n st \<noteq> OutOfFuel"
  "fueled n 2 st \<Longrightarrow> sound target \<Longrightarrow> postfix_loop n target st \<noteq> OutOfFuel"
  "fueled n 1 st \<Longrightarrow> x_rest st \<noteq> [] \<Longrightarrow> parse_arguments n st \<noteq> OutOfFuel"
  "fueled n 13 st \<Longrightarrow> \<forall>a \<in> set arguments. sound a \<Longrightarrow> arguments_loop n arguments st \<noteq> OutOfFuel"
  "fueled n 12 st \<Longrightarrow> parse_argument n st \<noteq> OutOfFuel"
  "fueled n 1 st \<Longrightarrow> parse_primary n st \<noteq> OutOfFuel"
  "fueled n 13 st \<Longrightarrow> \<forall>a \<in> set entries. sound a \<Longrightarrow> map_loop n info entries st \<noteq> OutOfFuel"
proof (induction n arbitrary: level st left target arguments info entries)
  case 0
  {
    case 2
    then show ?case by (cases level) simp_all
  }
next
  case (Suc n)
  have level_body: "bind_outcome (parse_operand n level st) (level_loop n level) \<noteq> OutOfFuel"
    if "fueled (Suc n) (level_rank level) st" for level st
  proof (rule bind_fuel)
    show "parse_operand n level st \<noteq> OutOfFuel"
      by (rule Suc(2), rule fueled_rank [OF that moves_refl]) (cases level; simp)
    fix left st1 assume "parse_operand n level st = Done left st1"
    then have "good 1 st left st1" by (rule parsers_good(2))
    then show "level_loop n level left st1 \<noteq> OutOfFuel"
      using Suc(3) fueled_move [OF that] by (simp add: good_def)
  qed
  have or_level: "parse_level n Or_Level st1 \<noteq> OutOfFuel"
    if "fueled (Suc n) rank st" "moves 1 st st1" for rank st st1
    by (rule Suc(1), rule fueled_move [OF that]) simp
  {
    case 1
    show ?case
    proof (cases "level = Or_Level")
      case True
      have "bind_outcome (parse_operand n level (st\<lparr>x_depth := d\<rparr>)) (level_loop n level) \<noteq> OutOfFuel" for d
        by (rule level_body) (simp add: 1)
      then show ?thesis
        using True deeper_fuel [of "\<lambda>st'. bind_outcome (parse_operand n level st') (level_loop n level)" st] by auto
    next
      case False
      then show ?thesis using level_body [OF 1] by simp
    qed
  next
    case 2
    then show ?case
      using Suc(1) Suc(4) fueled_rank [OF 2 moves_refl] by (auto split: level.splits)
  next
    case 3
    obtain op st1 where op: "first_operator (level_tokens level) st = (op, st1)"
      by (cases "first_operator (level_tokens level) st")
    note moved = first_operator_moves [OF op level_tokens_nonempty]
    show ?case
    proof (cases op)
      case None
      with op show ?thesis by simp
    next
      case (Some operator)
      then have moved1: "moves 1 st st1" using moved by simp
      have "bind_outcome (parse_operand n level st1) (\<lambda>right st2.
            bind_outcome (checked (\<lambda>h. Binary (make_info h st2) operator left right) [left, right] st2)
              (level_loop n level)) \<noteq> OutOfFuel"
      proof (rule bind_fuel)
        show "parse_operand n level st1 \<noteq> OutOfFuel"
          by (rule Suc(2), rule fueled_move [OF 3(1) moved1]) (cases level; simp)
        fix right st2 assume "parse_operand n level st1 = Done right st2"
        then have right: "good 1 st1 right st2" by (rule parsers_good(2))
        then have "moves 1 st st2"
          using moves_trans [OF moved1, of 1 st2] moves_weaken by (auto simp: good_def)
        then have "fueled n 1 st2" by (rule fueled_move [OF 3(1)]) simp
        then show "bind_outcome (checked (\<lambda>h. Binary (make_info h st2) operator left right) [left, right] st2)
              (level_loop n level) \<noteq> OutOfFuel"
          using right 3(2) Suc(3) by (intro bind_fuel) (auto simp: good_def make_info_def dest: checked_Done)
      qed
      with op Some show ?thesis by simp
    qed
  next
    case 4
    show ?case
    proof
      let ?ops = "[(''!'', Equal), (''not'', Equal)]"
      let ?st = "st\<lparr>x_depth := x_depth st + 1\<rparr>"
      obtain op st1 where op: "first_operator ?ops ?st = (op, st1)" by (cases "first_operator ?ops ?st")
      have moved: "moves 0 ?st st1" "op \<noteq> None \<Longrightarrow> moves 1 ?st st1"
        using first_operator_moves [OF op] by simp_all
      have fueled: "fueled (Suc n) 3 ?st" using 4 by simp
      assume "parse_unary (Suc n) st = OutOfFuel"
      then have out: "(case first_operator ?ops ?st of (None, st1) \<Rightarrow> parse_postfix n st1
          | (Some x, st1) \<Rightarrow> bind_outcome (parse_unary n st1) (\<lambda>operand st2.
              checked (\<lambda>h. Unary_Not (make_info h st2) operand) [operand] st2)) = OutOfFuel"
        by (subst (asm) parse_unary.simps) (drule deeper_fuel)
      show False
      proof (cases op)
        case None
        with out op Suc(5) fueled_rank [OF fueled moved(1)] show False by simp
      next
        case (Some x)
        then have "fueled n 3 st1" using fueled_move [OF fueled moved(2)] by simp
        with out op Some Suc(4) show False by (simp add: bind_outcome_OutOfFuel)
      qed
    qed
  next
    case 5
    have "postfix_loop n target st1 \<noteq> OutOfFuel" if "parse_primary n st = Done target st1" for target st1
    proof -
      have "good 1 st target st1" using that by (rule parsers_good(10))
      then show ?thesis
        using Suc(6) fueled_move [OF 5, of st1 2] by (simp add: good_def)
    qed
    then show ?case
      using Suc(10) fueled_rank [OF 5 moves_refl, of 1] by (simp add: bind_fuel)
  next
    case 6
    note turn = postfix_turn_moves [OF 6(2), of st]
    show ?case
    proof (cases "postfix_turn_of target st")
      case (Postfix_Node node1 st1)
      then show ?thesis
        using turn(2) [OF Postfix_Node] Suc(6) fueled_move [OF 6(1), of st1 2] by simp
    next
      case (Postfix_Call node1 st1)
      note start = turn(3) [OF Postfix_Call]
      have "bind_outcome (parse_arguments n st1) (\<lambda>arguments st2.
            bind_outcome (checked (\<lambda>h. Call (make_info h st2) node1 arguments) (node1 # arguments) st2)
              (postfix_loop n)) \<noteq> OutOfFuel"
      proof (rule bind_fuel)
        show "parse_arguments n st1 \<noteq> OutOfFuel"
          using start Suc(7) fueled_rank [OF 6(1), of st1 1] by simp
        fix arguments st2 assume "parse_arguments n st1 = Done arguments st2"
        then have after: "all_sound 1 st1 arguments st2" using parsers_good(7) start by blast
        then have "moves 1 st st2"
          using start moves_trans [of 0 st st1 1 st2] by (simp add: all_sound_def)
        then have "fueled n 2 st2" by (rule fueled_move [OF 6(1)]) simp
        then show "bind_outcome (checked (\<lambda>h. Call (make_info h st2) node1 arguments) (node1 # arguments) st2)
              (postfix_loop n) \<noteq> OutOfFuel"
          using after start Suc(6) by (intro bind_fuel) (auto simp: all_sound_def make_info_def dest: checked_Done)
      qed
      with Postfix_Call show ?thesis by simp
    qed simp_all
  next
    case 7
    have "moves 1 st (skip_spaces (x_drop 1 st))"
      using 7(2) moves_trans [OF moves_drop moves_skip, of 1 st] by (cases "x_rest st") auto
    then show ?case
      using Suc(8) [of "skip_spaces (x_drop 1 st)" "[]"] fueled_move [OF 7(1), of _ 13] by (simp add: Let_def)
  next
    case 8
    have "(let (comma, st2) = x_consume '','' st1 in
       if comma then arguments_loop n (arguments @ [argument]) st2
       else x_expect '')'' (''expected '' @ quoted_text '','' @ '' or '' @ quoted_text '')'' @
              '' in an argument list'') (arguments @ [argument]) st2) \<noteq> OutOfFuel"
      if parsed: "parse_argument n st = Done argument st1" for argument st1
    proof -
      obtain comma st2 where comma: "x_consume '','' st1 = (comma, st2)" by fastforce
      have good: "good 1 st argument st1" using parsed by (rule parsers_good(9))
      then have "moves 1 st st2"
        using comma_or_close [OF comma] moves_trans [of 1 st st1 0 st2] by (simp add: good_def)
      then have "fueled n 13 st2" by (rule fueled_move [OF 8(1)]) simp
      then show ?thesis
        using comma good 8(2) Suc(8) [of st2 "arguments @ [argument]"] by (auto simp: good_def)
    qed
    then show ?case
      using Suc(9) fueled_rank [OF 8(1) moves_refl, of 12] by (simp add: bind_fuel)
  next
    case 9
    note turn = argument_turn_moves [of st]
    show ?case
    proof (cases "argument_turn_of st")
      case (Arg_Plain st1)
      then show ?thesis
        using Suc(1) [of Or_Level st1] fueled_rank [OF 9 turn(1) [OF Arg_Plain], of 11] by simp
    next
      case (Arg_Group name info st1)
      then show ?thesis
        using or_level [OF 9 turn(3) [OF Arg_Group]] by (simp add: bind_outcome_OutOfFuel)
    qed simp_all
  next
    case 10
    note turn = primary_turn_moves [of st]
    show ?case
    proof (cases "primary_turn_of st")
      case (Group st1)
      then show ?thesis
        using or_level [OF 10 turn(2) [OF Group]] by (simp add: bind_outcome_OutOfFuel)
    next
      case (Map_Start info st1)
      then show ?thesis
        using Suc(11) [of st1 "[]" info] fueled_move [OF 10 turn(3) [OF Map_Start], of 13] by simp
    next
      case (Block_Start st1)
      then show ?thesis
        using or_level [OF 10 turn(4) [OF Block_Start]] by (simp add: bind_outcome_OutOfFuel)
    qed simp_all
  next
    case 11
    note turn = map_turn_moves [of st]
    show ?case
    proof (cases "map_turn_of st")
      case (Map_Key key st1)
      note moved = turn(2) [OF Map_Key]
      have "bind_outcome (checked (\<lambda>h. Named_Argument (make_info h st2) key v) [v] st2) (\<lambda>entry st3.
              let (comma, st4) = x_consume '','' st3 in
              if comma then map_loop n info (entries @ [entry]) (skip_spaces st4)
              else map_close info (entries @ [entry]) st4) \<noteq> OutOfFuel"
        if v: "parse_level n Or_Level st1 = Done v st2" for v st2
      proof (rule bind_fuel, simp)
        fix entry st3
        assume built: "checked (\<lambda>h. Named_Argument (make_info h st2) key v) [v] st2 = Done entry st3"
        obtain comma st4 where comma: "x_consume '','' st3 = (comma, st4)" by fastforce
        have good: "good 1 st1 v st2" using v by (rule parsers_good(1))
        then have entry: "sound entry" "st3 = st2"
          using checked_Done [OF built] by (simp_all add: good_def make_info_def)
        have "moves 1 st st2"
          using moves_weaken [OF moves_trans [OF moved], of 1 st2 1] good by (simp add: good_def)
        then have "moves 1 st (skip_spaces st4)"
          using entry(2) comma_or_close [OF comma] moves_skip [of st4] by (simp add: moves_def)
        then have "fueled n 13 (skip_spaces st4)" by (rule fueled_move [OF 11(1)]) simp
        then show "(let (comma, st4) = x_consume '','' st3 in
              if comma then map_loop n info (entries @ [entry]) (skip_spaces st4)
              else map_close info (entries @ [entry]) st4) \<noteq> OutOfFuel"
          using comma entry(1) 11(2) Suc(11) [of "skip_spaces st4" "entries @ [entry]" info] by auto
      qed
      then show ?thesis
        using Map_Key or_level [OF 11(1) moved] by (simp add: bind_fuel)
    qed simp_all
  }
qed simp_all

end
