(* ===== verification/EvaluationProps.thy ===== *)
theory EvaluationProps
  imports ExpressionProps
begin

text \<open>
  Facts about the evaluator of \<open>expression.cpp\<close>: on a tree the parser accepted it recurses at most
  64 deep, its values are well-formed, it leaves the stores of the context alone, and a value it
  gives depends on nothing but the names the context recorded as read.
\<close>

section \<open>Depth\<close>

lemma bind_eval_Value:
  "bind_eval m k = (Value w, c'') \<longleftrightarrow> (\<exists>v c'. m = (Value v, c') \<and> k v c' = (Value w, c''))"
  by (cases "(m, k)" rule: bind_eval.cases) auto

lemma bind_eval_deep [simp]:
  "fst (bind_eval m k) = Too_Deep \<longleftrightarrow>
   fst m = Too_Deep \<or> (\<exists>v c'. m = (Value v, c') \<and> fst (k v c') = Too_Deep)"
  by (cases "(m, k)" rule: bind_eval.cases) auto

text \<open>What \<open>evaluate_node\<close> recurses into.\<close>

fun children :: "node \<Rightarrow> node list" where
  "children (Member i name target) = [target]"
| "children (Named_Argument i name v) = [v]"
| "children (Map_Node i entries) = map (\<lambda>e. snd (entry_parts e)) entries"
| "children (Unary_Not i operand) = [operand]"
| "children (Binary i op left right) = [left, right]"
| "children (Call i target arguments) = target # map (\<lambda>a. snd (argument_source a)) arguments"
| "children _ = []"

lemma parts_height:
  "tree_height (snd (entry_parts e)) \<le> tree_height e" "tree_height (snd (argument_source a)) \<le> tree_height a"
  by (cases e; simp) (cases a; simp)

lemma max_above:
  assumes "finite A" and "a \<in> A" and "h \<le> f a"
  shows "h \<le> (Max (f ` A) :: nat)"
  using assms by (meson Max_ge finite_imageI image_eqI le_trans)

lemma child_height: "child \<in> set (children node) \<Longrightarrow> tree_height child < tree_height node"
proof (cases node)
  case (Map_Node i entries)
  assume "child \<in> set (children node)"
  with Map_Node obtain e where "e \<in> set entries" "child = snd (entry_parts e)" by auto
  then have "tree_height child \<le> Max (tree_height ` set entries)"
    using max_above [of "set entries" e] parts_height(1) by simp
  moreover have "\<dots> \<le> Max (insert 0 (tree_height ` set entries))"
    using \<open>e \<in> set entries\<close> by (intro Max_mono) auto
  ultimately show ?thesis using Map_Node by simp
next
  case (Call i target arguments)
  assume "child \<in> set (children node)"
  with Call consider "child = target" | a where "a \<in> set arguments" "child = snd (argument_source a)"
    by auto
  then have "\<exists>n \<in> set (target # arguments). tree_height child \<le> tree_height n"
    using parts_height(2) by cases auto
  then have "tree_height child \<le> Max (tree_height ` set (target # arguments))"
    using max_above [of "set (target # arguments)"] by blast
  then show ?thesis using Call by simp
qed auto

lemma evaluate_arguments_cong:
  "(\<And>a. a \<in> set nodes \<Longrightarrow> ev (snd (argument_source a)) = ev' (snd (argument_source a))) \<Longrightarrow>
   evaluate_arguments ev nodes arguments c = evaluate_arguments ev' nodes arguments c"
proof (induction nodes arbitrary: arguments c)
  case (Cons a nodes)
  then have "evaluate_arguments ev nodes = evaluate_arguments ev' nodes" by (auto simp: fun_eq_iff)
  with Cons.prems show ?case by simp
qed simp

lemma evaluate_entries_cong:
  "(\<And>e. e \<in> set entries \<Longrightarrow> ev (snd (entry_parts e)) = ev' (snd (entry_parts e))) \<Longrightarrow>
   evaluate_entries ev entries out c = evaluate_entries ev' entries out c"
proof (induction entries arbitrary: out c)
  case (Cons e entries)
  then have "evaluate_entries ev entries = evaluate_entries ev' entries" by (auto simp: fun_eq_iff)
  with Cons.prems show ?case by simp
qed simp

lemma evaluate_node_cong:
  assumes "\<And>child. child \<in> set (children node) \<Longrightarrow> ev child = ev' child"
  shows "evaluate_node ev node c = evaluate_node ev' node c"
proof (cases node)
  case (Call i target arguments)
  then have "ev target = ev' target" "evaluate_arguments ev arguments [] = evaluate_arguments ev' arguments []"
    using assms by (auto intro!: evaluate_arguments_cong simp: fun_eq_iff)
  with Call show ?thesis by (simp add: evaluate_call_def cong: option.case_cong if_cong)
next
  case (Map_Node i entries)
  then have "evaluate_entries ev entries (VObject []) = evaluate_entries ev' entries (VObject [])"
    using assms by (auto intro!: evaluate_entries_cong simp: fun_eq_iff)
  with Map_Node show ?thesis by simp
next
  case (Binary i op left right)
  with assms show ?thesis by (simp add: evaluate_binary_def cong: if_cong)
qed (use assms in simp_all)

lemma evaluate_deeper:
  "tree_height node \<le> depth \<Longrightarrow> tree_height node \<le> depth' \<Longrightarrow> evaluate depth node c = evaluate depth' node c"
proof (induction "tree_height node" arbitrary: node depth depth' c rule: less_induct)
  case less
  have "0 < tree_height node" by (cases node) auto
  then obtain d d' where depths: "depth = Suc d" "depth' = Suc d'"
    using less.prems by (cases depth; cases depth') auto
  have "evaluate_node (evaluate d) node c = evaluate_node (evaluate d') node c"
  proof (rule evaluate_node_cong)
    fix child assume "child \<in> set (children node)"
    then have "tree_height child < tree_height node" by (rule child_height)
    then show "evaluate d child = evaluate d' child"
      using less.hyps less.prems depths by (auto simp: fun_eq_iff)
  qed
  with depths show ?case by simp
qed

lemma error_at_deep [simp]: "fst (error_at info message c) \<noteq> Too_Deep"
  by (simp add: error_at_def)

lemma apply_operator_deep [simp]: "fst (apply_operator info op l r c) \<noteq> Too_Deep"
proof -
  have "fst (compare_values info l r c) \<noteq> Too_Deep"
    by (simp add: compare_values_def Let_def)
  then show ?thesis
    unfolding apply_operator_def
    by (cases op) (auto simp: integer_result_def)
qed

lemma evaluate_member_deep [simp]: "fst (evaluate_member info name v c) \<noteq> Too_Deep"
  by (simp add: evaluate_member_def list_member_def)

lemma evaluate_arguments_deep:
  "(\<And>a c. a \<in> set nodes \<Longrightarrow> fst (ev (snd (argument_source a)) c) \<noteq> Too_Deep) \<Longrightarrow>
   fst (evaluate_arguments ev nodes arguments c) \<noteq> Too_Deep"
  by (induction nodes arbitrary: arguments c) auto

lemma evaluate_entries_deep:
  "(\<And>e c. e \<in> set entries \<Longrightarrow> fst (ev (snd (entry_parts e)) c) \<noteq> Too_Deep) \<Longrightarrow>
   fst (evaluate_entries ev entries out c) \<noteq> Too_Deep"
  by (induction entries arbitrary: out c) auto

lemma evaluate_node_deep:
  assumes "\<And>child c. child \<in> set (children node) \<Longrightarrow> fst (ev child c) \<noteq> Too_Deep"
  shows "fst (evaluate_node ev node c) \<noteq> Too_Deep"
proof (cases node)
  case (Call i target arguments)
  then have "fst (ev target c) \<noteq> Too_Deep" "fst (evaluate_arguments ev arguments [] c) \<noteq> Too_Deep"
    using assms by (auto intro!: evaluate_arguments_deep)
  with Call show ?thesis
    by (auto simp: evaluate_call_def no_such_name_def split: option.split prod.split)
next
  case (Map_Node i entries)
  then show ?thesis using assms by (auto intro!: evaluate_entries_deep)
next
  case (Binary i op left right)
  then show ?thesis
    using assms by (auto simp: evaluate_binary_def)
qed (use assms in \<open>auto simp: no_such_name_def split: option.split prod.split\<close>)

lemma evaluate_not_deep: "tree_height node \<le> depth \<Longrightarrow> fst (evaluate depth node c) \<noteq> Too_Deep"
proof (induction depth arbitrary: node c)
  case 0
  then show ?case by (cases node) auto
next
  case (Suc depth)
  show ?case
    unfolding evaluate.simps using child_height [of _ node] Suc by (intro evaluate_node_deep) fastforce
qed

text \<open>
  C33. Parsing an expression always answers: the fuel given to the parser is enough for any source,
  so the result is a tree or an error, never a missing answer.
\<close>

theorem parse_expression_total: "parse_expression source line column \<noteq> OutOfFuel"
proof -
  let ?st = "x_start source line column"
  have "parse_level (expression_fuel ?st) Or_Level ?st \<noteq> OutOfFuel"
    by (rule parsers_fueled(1)) (simp add: fueled_def expression_fuel_def)
  then show ?thesis
    unfolding parse_expression_def Let_def by (intro bind_fuel) (auto split: list.split)
qed

lemma parse_expression_sound: "parse_expression source line column = Done node st \<Longrightarrow> sound node"
proof -
  let ?st = "x_start source line column"
  assume "parse_expression source line column = Done node st"
  then obtain node1 st1 where parsed: "parse_level (expression_fuel ?st) Or_Level ?st = Done node1 st1"
    and rest: "(case x_rest (skip_spaces st1) of [] \<Rightarrow> Done node1 (skip_spaces st1)
        | c # _ \<Rightarrow> if c = CHR ''='' then Failed (x_error ''assignment is not supported'' (skip_spaces st1))
            else Failed (x_error (''unexpected '' @ quoted_text [c]) (skip_spaces st1))) = Done node st"
    unfolding parse_expression_def Let_def bind_outcome_Done by blast
  from rest have "node1 = node"
    by (cases "x_rest (skip_spaces st1)") (simp_all split: if_splits)
  then show ?thesis
    using parsers_good(1) [OF parsed] by (simp add: good_def)
qed

text \<open>
  C32. The height the parser refuses past 64 is what keeps the evaluator shallow: on a tree it
  accepted the evaluator needs no more than 64 levels, and more room changes nothing.
\<close>

theorem accepted_tree_evaluates:
  assumes "parse_expression source line column = Done node st"
  shows "tree_height node \<le> 64 \<and> fst (evaluate 64 node c) \<noteq> Too_Deep \<and>
     evaluate (64 + spare) node c = evaluate 64 node c"
proof -
  have height: "tree_height node \<le> 64"
    using sound_tree_height [OF parse_expression_sound [OF assms]] by simp
  then show ?thesis
    using evaluate_not_deep [OF height] evaluate_deeper [of node "64 + spare" 64 c] by simp
qed

theorem accepted_tree_evaluates_witness:
  "fst (evaluate (64 + 36) (Unary_Not \<lparr>ni_height = 3, ni_line = 1, ni_column = 13\<rparr>
     (Binary \<lparr>ni_height = 2, ni_line = 1, ni_column = 12\<rparr> Logical_Or
       (Name \<lparr>ni_height = 1, ni_line = 1, ni_column = 6\<rparr> ''a'')
       (Name \<lparr>ni_height = 1, ni_line = 1, ni_column = 11\<rparr> ''b''))) empty_context) \<noteq> Too_Deep"
proof -
  have "parse_expression ''not (a or b)'' 1 1 = Done (Unary_Not \<lparr>ni_height = 3, ni_line = 1, ni_column = 13\<rparr>
     (Binary \<lparr>ni_height = 2, ni_line = 1, ni_column = 12\<rparr> Logical_Or
       (Name \<lparr>ni_height = 1, ni_line = 1, ni_column = 6\<rparr> ''a'')
       (Name \<lparr>ni_height = 1, ni_line = 1, ni_column = 11\<rparr> ''b'')))
     \<lparr>x_rest = [], x_position = 12, x_depth = 0, x_line = 1, x_base = 1\<rparr>"
    by code_simp
  from accepted_tree_evaluates [OF this, of empty_context 36] show ?thesis by metis
qed

section \<open>A value depends on what was read\<close>

text \<open>Two contexts with the same functions and the same names, in the same order.\<close>

definition same_names :: "view_context \<Rightarrow> view_context \<Rightarrow> bool" where
  "same_names c d \<longleftrightarrow> vc_functions d = vc_functions c \<and>
     map fst (vc_values d) = map fst (vc_values c) \<and> map fst (vc_locals d) = map fst (vc_locals c)"

definition stores :: "view_context \<Rightarrow> (string \<times> jvalue) list \<times> (string \<times> jvalue) list \<times> (string \<times> view_function) list" where
  "stores c = (vc_values c, vc_locals c, vc_functions c)"

text \<open>
  All that evaluating does to a context is to note some reads in its recordings, each of a name
  with the value the context has for it. The reads determine the rest: in two contexts with the
  same names a computation comes to the same by the same reads, unless a name it reads after the
  same reads has another value.
\<close>

definition note_reads :: "(string \<times> jvalue) list \<Rightarrow> view_context \<Rightarrow> view_context" where
  "note_reads reads c =
     c\<lparr>vc_recordings := map (fold (\<lambda>(n, v). add_read n (to_json v Compact True)) reads) (vc_recordings c)\<rparr>"

definition true_reads :: "(string \<times> jvalue) list \<Rightarrow> view_context \<Rightarrow> bool" where
  "true_reads reads c \<longleftrightarrow> (\<forall>(n, v) \<in> set reads. outer c n = Some v)"

definition part_at_read :: "(string \<times> jvalue) list \<Rightarrow> (string \<times> jvalue) list \<Rightarrow> bool" where
  "part_at_read xs ys \<longleftrightarrow> (\<exists>p n v w q r. xs = p @ (n, v) # q \<and> ys = p @ (n, w) # r \<and> v \<noteq> w)"

definition tracks :: "(view_context \<Rightarrow> (string \<times> jvalue) list) \<Rightarrow> (view_context \<Rightarrow> 'b \<times> view_context) \<Rightarrow> bool" where
  "tracks log m \<longleftrightarrow> (\<forall>c. snd (m c) = note_reads (log c) c \<and> true_reads (log c) c \<and>
     (\<forall>d. same_names c d \<longrightarrow> fst (m d) = fst (m c) \<and> log d = log c \<or> part_at_read (log c) (log d)))"

definition tracked :: "(view_context \<Rightarrow> 'b \<times> view_context) \<Rightarrow> bool" where
  "tracked m \<longleftrightarrow> (\<exists>log. tracks log m)"

lemma note_reads_simps [simp]:
  "vc_values (note_reads reads c) = vc_values c" "vc_locals (note_reads reads c) = vc_locals c"
  "vc_functions (note_reads reads c) = vc_functions c" "stores (note_reads reads c) = stores c"
  "outer (note_reads reads c) = outer c"
  "true_reads reads' (note_reads reads c) \<longleftrightarrow> true_reads reads' c"
  "same_names (note_reads reads c) d \<longleftrightarrow> same_names c d" "same_names c (note_reads reads d) \<longleftrightarrow> same_names c d"
  by (simp_all add: note_reads_def true_reads_def same_names_def stores_def)

lemma note_no_reads [simp]: "note_reads [] c = c" "true_reads [] c"
  by (simp_all add: note_reads_def true_reads_def)

lemma note_reads_append [simp]:
  "note_reads reads' (note_reads reads c) = note_reads (reads @ reads') c"
  "true_reads (reads @ reads') c \<longleftrightarrow> true_reads reads c \<and> true_reads reads' c"
  by (auto simp: note_reads_def true_reads_def)

lemma part_at_read_append: "part_at_read xs ys \<Longrightarrow> part_at_read (xs @ xs') (ys @ ys')"
  "part_at_read xs ys \<Longrightarrow> part_at_read (zs @ xs) (zs @ ys)"
  unfolding part_at_read_def by (metis append_Cons append_assoc, metis append_assoc)

named_theorems tracking

lemma tracked_pure: "(\<And>c. snd (m c) = c) \<Longrightarrow> (\<And>c d. same_names c d \<Longrightarrow> fst (m d) = fst (m c)) \<Longrightarrow> tracked m"
  unfolding tracked_def tracks_def by (intro exI [of _ "\<lambda>c. []"]) simp

lemma tracked_unit [tracking]: "tracked (\<lambda>c. (x, c))"
  by (rule tracked_pure) simp_all

lemma tracked_error [tracking]: "tracked (error_at info message)"
  by (rule tracked_pure) (simp_all add: error_at_def)

lemma tracked_if [tracking]: "tracked m \<Longrightarrow> tracked m' \<Longrightarrow> tracked (\<lambda>c. if b then m c else m' c)"
  by (cases b) simp_all

lemma tracked_option [tracking]:
  "tracked m \<Longrightarrow> (\<And>x. tracked (k x)) \<Longrightarrow> tracked (\<lambda>c. case found of None \<Rightarrow> m c | Some x \<Rightarrow> k x c)"
  by (cases found) simp_all

text \<open>One computation after another: the reads follow one another too.\<close>

lemma tracked_then:
  assumes r: "tracked r" and k: "\<And>x. tracked (k x)"
  shows "tracked (\<lambda>c. k (fst (r c)) (snd (r c)))"
proof -
  obtain l where l: "tracks l r" using r by (auto simp: tracked_def)
  obtain l' where l': "\<And>x. tracks (l' x) (k x)" using k unfolding tracked_def by metis
  let ?log = "\<lambda>c. l c @ l' (fst (r c)) (snd (r c))"
  have "tracks ?log (\<lambda>c. k (fst (r c)) (snd (r c)))"
    unfolding tracks_def
  proof (intro allI conjI impI)
    fix c
    have step: "snd (r c) = note_reads (l c) c" for c
      using l by (simp add: tracks_def)
    have true: "true_reads (l' x c) c" "snd (k x c) = note_reads (l' x c) c" for x c
      using l' by (simp_all add: tracks_def)
    have "true_reads (l' (fst (r c)) (snd (r c))) c"
      using true(1) [of "fst (r c)" "snd (r c)"] by (simp add: step)
    then show "snd (k (fst (r c)) (snd (r c))) = note_reads (?log c) c" "true_reads (?log c) c"
      using l true(2) by (simp_all add: step tracks_def)
    fix d assume names: "same_names c d"
    show "fst (k (fst (r d)) (snd (r d))) = fst (k (fst (r c)) (snd (r c))) \<and> ?log d = ?log c \<or>
        part_at_read (?log c) (?log d)"
    proof (cases "part_at_read (l c) (l d)")
      case True
      then show ?thesis by (simp add: part_at_read_append(1))
    next
      case False
      then have same: "fst (r d) = fst (r c)" "l d = l c"
        using l names unfolding tracks_def by blast+
      have "same_names (snd (r c)) (snd (r d))"
        using names by (simp add: step)
      then have "fst (k (fst (r c)) (snd (r d))) = fst (k (fst (r c)) (snd (r c))) \<and>
          l' (fst (r c)) (snd (r d)) = l' (fst (r c)) (snd (r c)) \<or>
          part_at_read (l' (fst (r c)) (snd (r c))) (l' (fst (r c)) (snd (r d)))"
        using l' [of "fst (r c)"] unfolding tracks_def by blast
      then show ?thesis
        using same part_at_read_append(2) by auto
    qed
  qed
  then show ?thesis by (auto simp: tracked_def)
qed

lemma bind_eval_then:
  "bind_eval m k = (case fst m of Value v \<Rightarrow> k v | Error e \<Rightarrow> (\<lambda>c. (Error e, c)) | Undefined \<Rightarrow> (\<lambda>c. (Undefined, c))
     | Too_Deep \<Rightarrow> (\<lambda>c. (Too_Deep, c))) (snd m)"
  by (cases "(m, k)" rule: bind_eval.cases) auto

lemma tracked_bind [tracking]:
  assumes "tracked m" and "\<And>v. tracked (k v)"
  shows "tracked (\<lambda>c. bind_eval (m c) k)"
  unfolding bind_eval_then
  by (rule tracked_then [OF assms(1)]) (auto intro!: tracking assms(2) split: eval.split)

section \<open>Every step of the evaluator is tracked\<close>

lemma note_read: "note_reads [(name, v)] c =
    c\<lparr>vc_recordings := map (add_read name (to_json v Compact True)) (vc_recordings c)\<rparr>"
  by (simp add: note_reads_def)

lemma lookup_local_simp:
  "lookup_local name c = (map_of (vc_locals c) name,
     case map_of (vc_locals c) name of None \<Rightarrow> c | Some v \<Rightarrow> note_reads [(name, v)] c)"
  by (simp add: lookup_local_def vc_record_map note_read split: option.split)

lemma read_plain_simp:
  "read_plain name c = (outer c name, case outer c name of None \<Rightarrow> c | Some v \<Rightarrow> note_reads [(name, v)] c)"
  by (simp add: read_plain_def lookup_local_def lookup_def vc_record_map note_read outer_def split: option.split)

lemma outer_None: "outer c name = None \<longleftrightarrow> map_of (vc_locals c) name = None \<and> map_of (vc_values c) name = None"
  by (simp add: outer_def split: option.split)

lemma same_names_None:
  assumes "same_names c d"
  shows "map_of (vc_values d) n = None \<longleftrightarrow> map_of (vc_values c) n = None"
    and "map_of (vc_locals d) n = None \<longleftrightarrow> map_of (vc_locals c) n = None"
    and "outer d n = None \<longleftrightarrow> outer c n = None"
  using assms by (simp_all add: same_names_def outer_None map_of_eq_None_iff flip: set_map)

text \<open>Finding a name's value, when finding it is the only read.\<close>

lemma tracked_find:
  assumes find: "\<And>c. m c = (seek c, case seek c of None \<Rightarrow> c | Some v \<Rightarrow> note_reads [(name, v)] c)"
    and "\<And>c v. seek c = Some v \<Longrightarrow> outer c name = Some v"
    and "\<And>c d. same_names c d \<Longrightarrow> seek d = None \<longleftrightarrow> seek c = None"
  shows "tracked m"
proof -
  let ?log = "\<lambda>c. case seek c of None \<Rightarrow> [] | Some v \<Rightarrow> [(name, v)]"
  have "seek d = seek c \<or> part_at_read (?log c) (?log d)" if names: "same_names c d" for c d
  proof (cases "seek c")
    case (Some v)
    then obtain w where "seek d = Some w" using assms(3) [OF names] by auto
    moreover have "part_at_read [(name, v)] [(name, w)]" if "v \<noteq> w"
      using that unfolding part_at_read_def by (metis append_Nil)
    ultimately show ?thesis
      using Some by (cases "v = w") simp_all
  qed (use assms(3) [OF names] in simp)
  moreover have "snd (m c) = note_reads (?log c) c \<and> true_reads (?log c) c" for c
    using assms(2) [of c] by (cases "seek c") (simp_all add: find true_reads_def)
  ultimately have "tracks ?log m"
    unfolding tracks_def find fst_conv by metis
  then show ?thesis by (auto simp: tracked_def)
qed

lemma tracked_lookup_local: "tracked (lookup_local name)"
  by (rule tracked_find [of _ "\<lambda>c. map_of (vc_locals c) name", OF lookup_local_simp])
    (simp_all add: outer_def same_names_None)

lemma tracked_read_plain: "tracked (read_plain name)"
  by (rule tracked_find [of _ "\<lambda>c. outer c name", OF read_plain_simp]) (simp_all add: same_names_None)

lemma tracked_find_function: "tracked (\<lambda>c. (find_function name c, c))"
  by (rule tracked_pure) (simp_all add: same_names_def find_function_def)

lemma tracked_let_local [tracking]:
  "(\<And>x. tracked (k x)) \<Longrightarrow> tracked (\<lambda>c. let (found, c1) = lookup_local name c in k found c1)"
  using tracked_then [OF tracked_lookup_local, of k] by (simp add: case_prod_beta)

lemma tracked_let_plain [tracking]:
  "(\<And>x. tracked (k x)) \<Longrightarrow> tracked (\<lambda>c. let (found, c1) = read_plain name c in k found c1)"
  using tracked_then [OF tracked_read_plain, of k] by (simp add: case_prod_beta)

lemma tracked_case_function [tracking]:
  "tracked m \<Longrightarrow> (\<And>f. tracked (k f)) \<Longrightarrow>
   tracked (\<lambda>c. case find_function name c of None \<Rightarrow> m c | Some f \<Rightarrow> k f c)"
  using tracked_then [OF tracked_find_function, of "\<lambda>found c. case found of None \<Rightarrow> m c | Some f \<Rightarrow> k f c" name,
      unfolded fst_conv snd_conv] tracked_option [of m k] by simp

lemma tracked_no_such_name [tracking]: "tracked (no_such_name info name)"
  by (rule tracked_pure) (simp_all add: no_such_name_def error_at_def nearest_def same_names_def)

lemma tracked_compare [tracking]: "tracked (compare_values info l r)"
  unfolding compare_values_def Let_def by (intro tracking)

lemma tracked_apply [tracking]: "tracked (apply_operator info op l r)"
  unfolding apply_operator_def integer_result_def
  by (cases op) (auto intro!: tracking)

lemma tracked_member [tracking]: "tracked (evaluate_member info name v)"
  unfolding evaluate_member_def list_member_def by (intro tracking)

lemma tracked_arguments:
  assumes "\<And>node. tracked (ev node)"
  shows "tracked (evaluate_arguments ev nodes arguments)"
proof (induction nodes arbitrary: arguments)
  case Nil
  show ?case unfolding evaluate_arguments.simps by (rule tracking)
next
  case (Cons node nodes)
  with assms show ?case unfolding evaluate_arguments.simps by (intro tracked_bind)
qed

lemma tracked_entries:
  assumes "\<And>node. tracked (ev node)"
  shows "tracked (evaluate_entries ev entries out)"
proof (induction entries arbitrary: out)
  case Nil
  show ?case unfolding evaluate_entries.simps by (rule tracking)
next
  case (Cons entry entries)
  with assms show ?case unfolding evaluate_entries.simps by (intro tracked_bind)
qed

lemma tracked_node:
  assumes "\<And>node. tracked (ev node)"
  shows "tracked (evaluate_node ev node)"
proof (cases node)
  case (Call i target arguments)
  then show ?thesis
    unfolding Call evaluate_node.simps evaluate_call_def
    using assms by (intro tracking tracked_arguments)
next
  case (Map_Node i entries)
  show ?thesis unfolding Map_Node evaluate_node.simps using assms by (rule tracked_entries)
next
  case (Binary i op left right)
  show ?thesis
    unfolding Binary evaluate_node.simps evaluate_binary_def using assms by (intro tracking)
qed (hypsubst, unfold evaluate_node.simps, intro tracking assms)+

lemma tracked_evaluate: "tracked (evaluate depth node)"
proof (induction depth arbitrary: node)
  case 0
  then show ?case by (simp add: tracking)
next
  case (Suc depth)
  then show ?case using tracked_node by simp
qed

lemma begin_recorded: "vc_recordings (begin_recording c) = \<lparr>rc_reads = [], rc_bound = [], rc_replayable = True\<rparr> # vc_recordings c"
  by (simp add: begin_recording_def)

lemma fold_reads_names:
  "rc_bound r = [] \<Longrightarrow>
   fst ` set (rc_reads (fold (\<lambda>(n, v). add_read n (to_json v Compact True)) reads r)) = fst ` set (rc_reads r) \<union> fst ` set reads"
proof (induction reads arbitrary: r)
  case (Cons read reads)
  obtain n v where read: "read = (n, v)" by (cases read)
  have "rc_bound (add_read n shown r) = [] \<and> fst ` set (rc_reads (add_read n shown r)) = fst ` set (rc_reads r) \<union> {n}" for shown
    using Cons.prems by (force simp: add_read_def dest: map_of_SomeD split: option.split)
  then show ?case
    using Cons.IH read by (simp add: insert_commute)
qed simp

text \<open>
  C6. What an expression comes to depends on what the recording says it read: in every context with
  the same functions and the same names in scope, in which the names recorded as read have the
  values they had, it gives the same value or the same error. This is what lets a fragment's
  recorded names stand for it.
\<close>

theorem evaluation_depends_on_reads:
  assumes "evaluate depth node (begin_recording c) = (result, c')" and "same_names c d"
    and "\<forall>n \<in> set (vc_read_names (snd (end_recording c'))). outer d n = outer c n"
  shows "fst (evaluate depth node d) = result"
proof -
  let ?b = "begin_recording c"
  obtain log where log: "tracks log (evaluate depth node)"
    using tracked_evaluate by (auto simp: tracked_def)
  have b: "same_names ?b d" "outer ?b = outer c"
    using assms(2) by (simp_all add: same_names_def begin_recording_def fun_eq_iff outer_def)
  have "set (vc_read_names (snd (end_recording c'))) = fst ` set (log ?b)"
  proof -
    have "c' = note_reads (log ?b) ?b"
      using log assms(1) unfolding tracks_def by (metis snd_conv)
    then show ?thesis
      using fold_reads_names [of "\<lparr>rc_reads = [], rc_bound = [], rc_replayable = True\<rparr>" "log ?b"]
      by (simp add: note_reads_def end_recording_def begin_recorded)
  qed
  moreover have "true_reads (log ?b) ?b" "true_reads (log d) d"
    using log by (simp_all add: tracks_def)
  ultimately have "\<not> part_at_read (log ?b) (log d)"
    using assms(3) b(2) by (fastforce simp: part_at_read_def true_reads_def)
  then show ?thesis
    using log b(1) assms(1) unfolding tracks_def by (metis fst_conv)
qed

theorem evaluation_depends_on_reads_witness:
  "fst (evaluate 3 (Binary (make_info 2 (x_start [] 1 1)) Logical_Or (Name (make_info 1 (x_start [] 1 1)) ''draft'')
       (Name (make_info 1 (x_start [] 1 1)) ''title''))
     (vc_set ''draft'' (VBoolean True) (vc_set ''title'' VNull empty_context))) = Value (VBoolean True)"
proof -
  let ?node = "Binary (make_info 2 (x_start [] 1 1)) Logical_Or (Name (make_info 1 (x_start [] 1 1)) ''draft'')
       (Name (make_info 1 (x_start [] 1 1)) ''title'')"
  let ?c = "vc_set ''draft'' (VBoolean True) (vc_set ''title'' (VString ''Home'') empty_context)"
  let ?after = "(begin_recording ?c)\<lparr>vc_recordings :=
     [\<lparr>rc_reads = [(''draft'', ''true'')], rc_bound = [], rc_replayable = True\<rparr>]\<rparr>"
  have "to_json (VBoolean True) Compact True = ''true''" by code_simp
  then have "evaluate 3 ?node (begin_recording ?c) = (Value (VBoolean True), ?after)"
    by (simp add: eval_nat_numeral evaluate_binary_def read_plain_def lookup_local_def lookup_def begin_recording_def
        vc_set_def empty_context_def vc_record_def add_read_def)
  then show ?thesis
    by (rule evaluation_depends_on_reads)
      (auto simp: same_names_def end_recording_def begin_recording_def vc_set_def empty_context_def outer_def)
qed

section \<open>Values stay well-formed\<close>

definition context_ok :: "view_context \<Rightarrow> bool" where
  "context_ok c \<longleftrightarrow> (\<forall>e \<in> set (vc_values c). value_ok (snd e)) \<and> (\<forall>e \<in> set (vc_locals c). value_ok (snd e)) \<and>
     (\<forall>e \<in> set (vc_functions c). \<forall>arguments.
        (\<forall>a \<in> set arguments. value_ok (snd a)) \<longrightarrow> value_ok (snd e arguments))"

lemma context_ok_reads [simp]: "context_ok (note_reads reads c) \<longleftrightarrow> context_ok c"
  by (simp add: context_ok_def)

lemma tracked_context_ok: "tracked m \<Longrightarrow> context_ok c \<Longrightarrow> context_ok (snd (m c))"
  by (metis context_ok_reads tracked_def tracks_def)

definition keeps :: "('a \<Rightarrow> bool) \<Rightarrow> (view_context \<Rightarrow> 'a evaluation) \<Rightarrow> bool" where
  "keeps P m \<longleftrightarrow> (\<forall>c v. context_ok c \<longrightarrow> fst (m c) = Value v \<longrightarrow> P v)"

named_theorems keeping

lemma keeps_Value [keeping]: "P v \<Longrightarrow> keeps P (\<lambda>c. (Value v, c))"
  by (simp add: keeps_def)

lemma keeps_error [keeping]: "keeps P (error_at info message)" "keeps P (no_such_name info name)"
  by (simp_all add: keeps_def error_at_def no_such_name_def)

lemma keeps_if [keeping]: "keeps P m \<Longrightarrow> keeps P m' \<Longrightarrow> keeps P (\<lambda>c. if b then m c else m' c)"
  by (cases b) simp_all

lemma keeps_bind:
  assumes "tracked m" and "keeps P m" and "\<And>v. P v \<Longrightarrow> keeps Q (k v)"
  shows "keeps Q (\<lambda>c. bind_eval (m c) k)"
  unfolding keeps_def
proof (intro allI impI)
  fix c w assume ok: "context_ok c" and "fst (bind_eval (m c) k) = Value w"
  then obtain c2 where "bind_eval (m c) k = (Value w, c2)" by (metis prod.collapse)
  then obtain v c1 where v: "m c = (Value v, c1)" and w: "k v c1 = (Value w, c2)"
    by (auto simp: bind_eval_Value)
  have "context_ok c1"
    using tracked_context_ok [OF assms(1) ok] v by simp
  moreover have "P v" using assms(2) v ok unfolding keeps_def by (metis fst_conv)
  ultimately show "Q w" using assms(3) w unfolding keeps_def by (metis fst_conv)
qed

lemma keeps_reading:
  assumes "tracked r" and "\<And>c. context_ok c \<Longrightarrow> P (fst (r c))" and "\<And>x. P x \<Longrightarrow> keeps Q (k x)"
  shows "keeps Q (\<lambda>c. k (fst (r c)) (snd (r c)))"
  using assms tracked_context_ok unfolding keeps_def by metis

lemma context_ok_lookups:
  assumes "context_ok c"
  shows "fst (lookup_local name c) = Some v \<Longrightarrow> value_ok v" "fst (read_plain name c) = Some v \<Longrightarrow> value_ok v"
  using assms
  by (auto simp: lookup_local_simp read_plain_simp outer_def context_ok_def dest!: map_of_SomeD split: option.splits)

lemma keeps_lookup_local [keeping]:
  assumes "keeps Q (k None)" and "\<And>v. value_ok v \<Longrightarrow> keeps Q (k (Some v))"
  shows "keeps Q (\<lambda>c. let (found, c1) = lookup_local name c in k found c1)"
  using keeps_reading [OF tracked_lookup_local, of "\<lambda>found. \<forall>v. found = Some v \<longrightarrow> value_ok v" name Q k]
    assms context_ok_lookups(1) by (simp add: case_prod_beta) (metis not_None_eq)

lemma keeps_read_plain [keeping]:
  assumes "keeps Q (k None)" and "\<And>v. value_ok v \<Longrightarrow> keeps Q (k (Some v))"
  shows "keeps Q (\<lambda>c. let (found, c1) = read_plain name c in k found c1)"
  using keeps_reading [OF tracked_read_plain, of "\<lambda>found. \<forall>v. found = Some v \<longrightarrow> value_ok v" name Q k]
    assms context_ok_lookups(2) by (simp add: case_prod_beta) (metis not_None_eq)

definition function_ok :: "view_function \<Rightarrow> bool" where
  "function_ok f \<longleftrightarrow> (\<forall>arguments. (\<forall>a \<in> set arguments. value_ok (snd a)) \<longrightarrow> value_ok (f arguments))"

lemma context_ok_function: "context_ok c \<Longrightarrow> find_function name c = Some f \<Longrightarrow> function_ok f"
  unfolding find_function_def context_ok_def function_ok_def by (metis map_of_SomeD snd_conv)

lemma keeps_find_function [keeping]:
  assumes "keeps Q m" and "\<And>f. function_ok f \<Longrightarrow> keeps Q (k f)"
  shows "keeps Q (\<lambda>c. case find_function name c of None \<Rightarrow> m c | Some f \<Rightarrow> k f c)"
  unfolding keeps_def
proof (intro allI impI)
  fix c v
  assume "context_ok c" and "fst (case find_function name c of None \<Rightarrow> m c | Some f \<Rightarrow> k f c) = Value v"
  then show "Q v"
    using assms context_ok_function [of c name] unfolding keeps_def by (cases "find_function name c") auto
qed

lemma keeps_Undefined [keeping]: "keeps P (\<lambda>c. (Undefined, c))" "keeps P (\<lambda>c. (Too_Deep, c))"
  by (simp_all add: keeps_def)

lemma keeps_anything [keeping]: "keeps (\<lambda>_. True) m"
  by (simp add: keeps_def)

lemma value_ok_parts:
  "value_ok v \<Longrightarrow> value_ok (get_member v name)" "value_ok v \<Longrightarrow> value_ok (value_at v index)"
  by (auto simp: get_member_def split: option.split dest: value_ok_find_member)
    (cases v; auto simp: value_at_def)

lemma keeps_integer_result [keeping]: "keeps value_ok (integer_result i)"
  by (simp add: keeps_def integer_result_def)

lemma keeps_apply: "keeps value_ok (apply_operator info op l r)"
  unfolding apply_operator_def
  by (cases op) (auto intro!: keeping keeps_bind [where P = "\<lambda>_. True"] tracking)

lemma keeps_member: "value_ok v \<Longrightarrow> keeps value_ok (evaluate_member info name v)"
  unfolding evaluate_member_def list_member_def
  by (intro keeping value_ok_parts) (simp_all add: int64_of_size_fits value_ok_parts)

definition arguments_ok :: "argument list \<Rightarrow> bool" where
  "arguments_ok arguments \<longleftrightarrow> (\<forall>a \<in> set arguments. value_ok (snd a))"

lemma keeps_arguments:
  assumes "\<And>node. tracked (ev node)" and "\<And>a. a \<in> set nodes \<Longrightarrow> keeps value_ok (ev (snd (argument_source a)))"
    and "arguments_ok arguments"
  shows "keeps arguments_ok (evaluate_arguments ev nodes arguments)"
  using assms(2,3)
proof (induction nodes arbitrary: arguments)
  case Nil
  then show ?case unfolding evaluate_arguments.simps by (intro keeping)
next
  case (Cons a nodes)
  show ?case
    unfolding evaluate_arguments.simps
    by (rule keeps_bind [OF assms(1) Cons.prems(1)], simp, rule Cons.IH)
      (use Cons.prems in \<open>auto simp: arguments_ok_def\<close>)
qed

lemma keeps_entries:
  assumes "\<And>node. tracked (ev node)" and "\<And>e. e \<in> set entries \<Longrightarrow> keeps value_ok (ev (snd (entry_parts e)))"
    and "value_ok out"
  shows "keeps value_ok (evaluate_entries ev entries out)"
  using assms(2,3)
proof (induction entries arbitrary: out)
  case Nil
  then show ?case unfolding evaluate_entries.simps by (intro keeping)
next
  case (Cons e entries)
  show ?case
    unfolding evaluate_entries.simps
    by (rule keeps_bind [OF assms(1) Cons.prems(1)], simp, rule Cons.IH)
      (use Cons.prems in \<open>auto intro: value_ok_set_member\<close>)
qed

lemma keeps_binary:
  assumes "tracked (ev left)" "tracked (ev right)" "keeps value_ok (ev left)" "keeps value_ok (ev right)"
  shows "keeps value_ok (evaluate_binary ev info op left right)"
  unfolding evaluate_binary_def
  using assms keeps_apply by (auto intro!: keeping keeps_bind [where P = value_ok])

lemma keeps_node:
  assumes tracked: "\<And>node. tracked (ev node)" and literal: "sound node"
    and children: "\<And>child. child \<in> set (children node) \<Longrightarrow> keeps value_ok (ev child)"
  shows "keeps value_ok (evaluate_node ev node)"
proof (cases node)
  case (Call i target arguments)
  then have arguments: "keeps arguments_ok (evaluate_arguments ev arguments [])"
    using children by (intro keeps_arguments tracked) (auto simp: arguments_ok_def)
  have "keeps value_ok (ev target)" using Call children by simp
  then show ?thesis
    unfolding Call evaluate_node.simps evaluate_call_def
    using arguments
    by (cases "callable_name target")
      (auto intro!: keeping keeps_bind [OF tracked_arguments [OF tracked] arguments]
        simp: function_ok_def arguments_ok_def)
next
  case (Map_Node i entries)
  show ?thesis
    unfolding Map_Node evaluate_node.simps
    by (rule keeps_entries [OF tracked]) (use Map_Node children in auto)
next
  case (Binary i op left right)
  show ?thesis
    unfolding Binary evaluate_node.simps by (intro keeps_binary tracked children) (auto simp: Binary)
next
  case (Member i name target)
  show ?thesis
    unfolding Member evaluate_node.simps
    by (intro keeps_bind [where P = value_ok] tracked children keeps_member) (auto simp: Member)
next
  case (Unary_Not i operand)
  show ?thesis
    unfolding Unary_Not evaluate_node.simps
    by (intro keeps_bind [where P = value_ok] tracked children keeping) (auto simp: Unary_Not)
next
  case (Named_Argument i name v)
  show ?thesis unfolding Named_Argument evaluate_node.simps by (rule children) (simp add: Named_Argument)
next
  case (Literal_Integer i n)
  show ?thesis unfolding Literal_Integer evaluate_node.simps by (rule keeping) (use literal Literal_Integer in simp)
next
  case (Name i name)
  show ?thesis
    unfolding Name evaluate_node.simps
    by (rule keeps_read_plain) (auto intro!: keeping simp: function_ok_def)
next
  case (Variable i name)
  show ?thesis
    unfolding Variable evaluate_node.simps by (rule keeps_lookup_local) (auto intro!: keeping)
qed (hypsubst, unfold evaluate_node.simps, (intro keeping; simp))+

lemma sound_parts: "sound e \<Longrightarrow> sound (snd (entry_parts e))" "sound e \<Longrightarrow> sound (snd (argument_source e))"
proof -
  show "sound (snd (entry_parts e))" if "sound e"
    using that by (cases e rule: entry_parts.cases) (auto simp only: entry_parts.simps snd_conv sound.simps)
  show "sound (snd (argument_source e))" if "sound e"
    using that by (cases e rule: argument_source.cases) (auto simp only: argument_source.simps snd_conv sound.simps)
qed

lemma sound_children: "sound node \<Longrightarrow> child \<in> set (children node) \<Longrightarrow> sound child"
  by (cases node) (auto intro: sound_parts)

lemma keeps_evaluate: "sound node \<Longrightarrow> keeps value_ok (evaluate depth node)"
proof (induction depth arbitrary: node)
  case 0
  then show ?case by (simp add: keeping)
next
  case (Suc depth)
  then show ?case
    unfolding evaluate.simps by (intro keeps_node tracked_evaluate) (auto dest: sound_children)
qed

text \<open>
  C38. Evaluating an accepted expression keeps values well-formed: from a context whose values fit
  and whose functions give such values for such arguments, every value has its integers in 64 bits
  and distinct keys in its objects, and the stores of the context are as they were. Integer
  overflow, which is undefined in C++, is never passed off as a value.
\<close>

theorem evaluation_keeps_values:
  assumes "parse_expression source line column = Done node st" and "context_ok c"
    and "evaluate depth node c = (Value v, c')"
  shows "value_ok v \<and> stores c' = stores c \<and> context_ok c'"
proof -
  obtain reads where "c' = note_reads reads c"
    using tracked_evaluate [of depth node] assms(3) unfolding tracked_def tracks_def by (metis snd_conv)
  moreover have "value_ok v"
    using keeps_evaluate [OF parse_expression_sound [OF assms(1)]] assms(2,3)
    unfolding keeps_def by (metis fst_conv)
  ultimately show ?thesis
    using assms(2) by simp
qed

theorem evaluation_keeps_values_witness:
  "let sum = Binary \<lparr>ni_height = 2, ni_line = 1, ni_column = 6\<rparr> Add
       (Literal_Integer \<lparr>ni_height = 1, ni_line = 1, ni_column = 2\<rparr> 1)
       (Name \<lparr>ni_height = 1, ni_line = 1, ni_column = 5\<rparr> ''n'');
       c = vc_set ''n'' (VInteger 2) empty_context
   in fst (evaluate 2 sum c) = Value (VInteger 3) \<and> value_ok (VInteger 3) \<and> context_ok (snd (evaluate 2 sum c))"
proof -
  let ?node = "Binary \<lparr>ni_height = 2, ni_line = 1, ni_column = 6\<rparr> Add
     (Literal_Integer \<lparr>ni_height = 1, ni_line = 1, ni_column = 2\<rparr> 1)
     (Name \<lparr>ni_height = 1, ni_line = 1, ni_column = 5\<rparr> ''n'')"
  let ?c = "vc_set ''n'' (VInteger 2) empty_context"
  have parsed: "parse_expression ''1 + n'' 1 1 =
     Done ?node \<lparr>x_rest = [], x_position = 5, x_depth = 0, x_line = 1, x_base = 1\<rparr>"
    by code_simp
  have "context_ok ?c"
    by (simp add: context_ok_def vc_set_def empty_context_def in_int64_def int64_min_def int64_max_def)
  moreover have "evaluate 2 ?node ?c = (Value (VInteger 3), ?c)"
    by (simp add: eval_nat_numeral evaluate_binary_def read_plain_def lookup_local_def lookup_def vc_set_def
        empty_context_def vc_record_def apply_operator_def integer_result_def int_of_value_def
        in_int64_def int64_min_def int64_max_def)
  ultimately show ?thesis
    using evaluation_keeps_values [OF parsed] by (simp only: Let_def fst_conv snd_conv)
qed

section \<open>Where the code parts from its comments\<close>

text \<open>A literal past 64 bits reads as zero: the result of \<open>std::from_chars\<close> is not looked at.\<close>

lemma long_literal_is_zero:
  "number_turn (x_start ''99999999999999999999'' 1 1) =
     Leaf (Literal_Integer \<lparr>ni_height = 1, ni_line = 1, ni_column = 21\<rparr> 0)
       \<lparr>x_rest = [], x_position = 20, x_depth = 0, x_line = 1, x_base = 1\<rparr>"
proof -
  let ?nines = "''99999999999999999999''"
  have "x_start ?nines 1 1 = \<lparr>x_rest = ?nines, x_position = 0, x_depth = 0, x_line = 1, x_base = 1\<rparr>"
    by code_simp
  moreover have "takeWhile is_digit ?nines = ?nines" by code_simp
  moreover have "from_chars_int64 ?nines = OutOfRange"
  proof -
    have digits: "is_digit (CHR ''9'')" "\<not> starts_with ?nines ''-''" by code_simp+
    have "the (hex_value (CHR ''9'')) = 9" by code_simp
    then have "digits_value 10 ?nines = 99999999999999999999"
      by (simp add: digits_value_def)
    then show ?thesis
      by (simp add: from_chars_int64_def digits in_int64_def int64_min_def int64_max_def)
  qed
  ultimately show ?thesis
    by (simp add: number_turn_def Let_def x_drop_def make_info_def)
qed

text \<open>The sum of two integers that fit may be undefined.\<close>

lemma integer_overflow_undefined:
  "fst (apply_operator info Add (VInteger 9223372036854775807) (VInteger 1) c) = Undefined"
  by (simp add: apply_operator_def integer_result_def int_of_value_def in_int64_def int64_min_def int64_max_def)

text \<open>
  Lists and maps read as the number zero, so \<open>==\<close> cannot tell two lists apart and finds any list
  equal to 0.
\<close>

lemma lists_always_equal:
  "same_value (VArray xs) (VArray ys)" "same_value (VArray xs) (VInteger 0)"
  by (simp_all add: same_value_def double_zero_def double_of_int_def round_ratio_def)

text \<open>
  A name that is not a value is not recorded. A fragment that found a function under a name has the
  same recorded names, and the same key, on a page that has a value of that name, where it would
  render something else.
\<close>

definition shadow_page :: "bool \<Rightarrow> view_context" where
  "shadow_page shadowed =
     (let c = vc_define ''toc'' (\<lambda>_. VString ''built'') empty_context
      in if shadowed then vc_set ''toc'' (VString ''given'') c else c)"

lemma shadowing_value_replays:
  "case parse_expression ''toc'' 1 1 of
     Done node _ \<Rightarrow>
       (case evaluate 64 node (begin_recording (shadow_page False)) of
          (Value v, c) \<Rightarrow>
            fst (end_recording c) = [] \<and> fst (replay (vc_read_names (snd (end_recording c))) (shadow_page True)) = Some [] \<and>
            fst (evaluate 64 node (shadow_page True)) \<noteq> Value v
        | _ \<Rightarrow> False)
   | _ \<Rightarrow> False"
  by code_simp

end
