(* ===== verification/TemplateProps.thy ===== *)
theory TemplateProps
  imports Templates EvaluationProps
begin

text \<open>
  What \<open>haml.cpp\<close> builds. Every template it accepts is well typed: a node that is evaluated has an
  expression, shallow enough for the evaluator. The tree is the outline the indentation draws: a
  line is under the last line before it that is indented less.
\<close>

section \<open>Well-typed templates\<close>

fun segment_ok :: "segment \<Rightarrow> bool" where
  "segment_ok (Literal written) \<longleftrightarrow> True"
| "segment_ok (Hole hole) \<longleftrightarrow> tree_height hole \<le> 64"

definition attribute_ok :: "haml_attribute \<Rightarrow> bool" where
  "attribute_ok a \<longleftrightarrow> list_all segment_ok (ha_value a)"

definition has_value :: "haml_info \<Rightarrow> bool" where
  "has_value info \<longleftrightarrow> (case hi_value info of None \<Rightarrow> False | Some v \<Rightarrow> tree_height v \<le> 64)"

definition info_ok :: "haml_info \<Rightarrow> bool" where
  "info_ok info \<longleftrightarrow> list_all segment_ok (hi_text info) \<and> list_all attribute_ok (hi_attributes info) \<and>
     (hi_kind info = Output_Node \<longrightarrow> has_value info) \<and>
     (hi_kind info = Control_Node \<longrightarrow> hi_control info \<noteq> Else_Control \<longrightarrow> has_value info)"

fun haml_ok :: "haml_node \<Rightarrow> bool" where
  "haml_ok (Haml_Node info nodes) \<longleftrightarrow> info_ok info \<and> list_all haml_ok nodes"

lemma template_expression_ok: "template_expression source line column = Inr node \<Longrightarrow> tree_height node \<le> 64"
  by (auto simp: template_expression_def split: outcome.splits dest: sound_tree_height [OF parse_expression_sound])

lemma interpolated_from_ok:
  "interpolated_from line index rest literal parts = Inr out \<Longrightarrow> list_all segment_ok parts \<Longrightarrow> list_all segment_ok out"
proof (induction line index rest literal parts arbitrary: out rule: interpolated_from.induct)
  case (1 line index rest literal parts)
  have literal_ok: "list_all segment_ok (literal_part written)" for written
    by (simp add: literal_part_def)
  show ?case
  proof (cases rest)
    case Nil
    with 1 literal_ok show ?thesis by (subst (asm) interpolated_from.simps) auto
  next
    case (Cons c rest1)
    show ?thesis
    proof (cases "starts_with rest ''#{''")
      case False
      with 1 Cons show ?thesis
        by (subst (asm) (2) interpolated_from.simps) auto
    next
      case True
      then obtain source after hole where hole: "hole_source 1 (drop 2 rest) = Some (source, after)"
        "template_expression source (hl_number line) (index + 1) = Inr hole"
        and out: "interpolated_from line (index + length source + 3) after []
            (parts @ literal_part literal @ [Hole hole]) = Inr out"
        using 1(3) Cons by (subst (asm) interpolated_from.simps)
          (auto simp: line_error_def outcome_simps split: option.splits)
      show ?thesis
        using 1(2) [OF Cons _ hole(1) refl hole(2) out] True 1(4) literal_ok template_expression_ok [OF hole(2)]
        by simp
    qed
  qed
qed

lemma parse_interpolated_ok: "parse_interpolated line content = Inr parts \<Longrightarrow> list_all segment_ok parts"
  by (auto simp: parse_interpolated_def dest: interpolated_from_ok)

lemma attribute_segments_ok: "attribute_segments line raw = Inr parts \<Longrightarrow> list_all segment_ok parts"
  by (auto simp: attribute_segments_def outcome_simps split: if_splits
      dest: parse_interpolated_ok template_expression_ok)

lemma attribute_body_ok:
  "attribute_body line prefix body attributes = Inr out \<Longrightarrow> list_all attribute_ok attributes \<Longrightarrow> list_all attribute_ok out"
proof (induction line prefix body attributes arbitrary: out rule: attribute_body.induct)
  case (1 line prefix body attributes)
  show ?case
  proof (cases "attribute_turn_of body")
    case No_More
    with 1 show ?thesis by (subst (asm) attribute_body.simps) auto
  next
    case No_Name
    with 1 show ?thesis by (subst (asm) attribute_body.simps) (auto simp: line_error_def)
  next
    case (Bare name rest)
    with 1 show ?thesis by (subst (asm) (4) attribute_body.simps) (auto simp: attribute_ok_def)
  next
    case (Valued name raw rest)
    show ?thesis
    proof (cases "is_hash raw")
      case True
      then obtain inner where inner: "attribute_body line (joined_name prefix name) (butlast (tl raw)) attributes = Inr inner"
        "attribute_body line prefix rest inner = Inr out"
        using 1(5) Valued by (subst (asm) attribute_body.simps) (auto simp: outcome_simps)
      show ?thesis
        using 1(2,3) [OF Valued True] inner 1(6) by blast
    next
      case False
      then obtain parts where "attribute_segments line raw = Inr parts"
        "attribute_body line prefix rest
           (attributes @ [\<lparr>ha_name = joined_name prefix name, ha_value = parts, ha_boolean = False\<rparr>]) = Inr out"
        using 1(5) Valued by (subst (asm) attribute_body.simps) (auto simp: outcome_simps)
      then show ?thesis
        using 1(4) [OF Valued False] 1(6) attribute_segments_ok by (simp add: attribute_ok_def)
    qed
  qed
qed

lemma node_at_simps [simp]:
  "hi_kind (node_at kind number) = kind" "hi_text (node_at kind number) = []"
  "hi_attributes (node_at kind number) = []" "hi_value (node_at kind number) = None"
  "hi_line (node_at kind number) = number" "hi_tag (node_at kind number) = []"
  by (simp_all add: node_at_def new_node_def)

lemma build_text_ok: "build_text line content = Inr node \<Longrightarrow> haml_ok node"
  by (auto simp: build_text_def outcome_simps info_ok_def dest: parse_interpolated_ok)

lemma build_output_line_ok: "build_output_line line content = Inr node \<Longrightarrow> haml_ok node"
  by (auto simp: build_output_line_def build_output_def outcome_simps info_ok_def has_value_def Let_def
      dest: template_expression_ok)

lemma build_for_ok: "build_for line rest = Inr node \<Longrightarrow> haml_ok node"
  by (auto simp: build_for_def line_error_def outcome_simps info_ok_def has_value_def Let_def
      dest: template_expression_ok split: option.splits if_splits)

lemma build_control_ok: "build_control line source = Inr node \<Longrightarrow> haml_ok node"
  by (auto simp: build_control_def line_error_def outcome_simps info_ok_def has_value_def Let_def
      dest: template_expression_ok build_for_ok split: option.splits control_kind.splits)

lemma element_names_ok:
  "element_names line content rest info = Inr (info', rest') \<Longrightarrow>
   hi_kind info' = hi_kind info \<and> hi_attributes info' = hi_attributes info \<and> hi_text info' = hi_text info \<and>
   hi_line info' = hi_line info \<and> hi_tag info' = hi_tag info"
proof (induction line content rest info arbitrary: info' rest' rule: element_names.induct)
  case (1 line content rest info)
  show ?case
    using 1(2) unfolding element_names.simps [of line content rest info]
    by (auto simp: line_error_def Let_def split: list.splits if_splits dest!: 1(1))
qed

lemma element_attributes_ok:
  "element_attributes line content rest info = Inr (info', rest') \<Longrightarrow> list_all attribute_ok (hi_attributes info) \<Longrightarrow>
   list_all attribute_ok (hi_attributes info') \<and> hi_kind info' = hi_kind info \<and> hi_text info' = hi_text info \<and>
   hi_line info' = hi_line info \<and> hi_tag info' = hi_tag info"
  by (auto simp: element_attributes_def line_error_def outcome_simps split: if_splits option.splits
      dest: attribute_body_ok)

lemma build_element_ok: "build_element line content = Inr node \<Longrightarrow> haml_ok node"
proof -
  assume built: "build_element line content = Inr node"
  obtain tag rest where tag: "element_tag content = (tag, rest)" by fastforce
  let ?info = "(node_at Element_Node (hl_number line))\<lparr>hi_tag := tag\<rparr>"
  obtain info1 rest1 info2 rest2 where parts: "element_names line content rest ?info = Inr (info1, rest1)"
    "element_attributes line content rest1 info1 = Inr (info2, rest2)"
    using built by (auto simp: build_element_def tag outcome_simps)
  then have "hi_kind info2 = Element_Node" "hi_text info2 = []" "list_all attribute_ok (hi_attributes info2)"
    using element_names_ok [OF parts(1)] element_attributes_ok [OF parts(2)] by simp_all
  then show ?thesis
    using built parts
    by (auto simp: build_element_def tag outcome_simps Let_def info_ok_def inline_child_def
        split: if_splits dest: build_text_ok build_output_line_ok)
qed

lemma build_ok: "build line = Inr node \<Longrightarrow> haml_ok node"
  by (auto simp: build_def Let_def info_ok_def split: if_splits
      dest: build_control_ok build_output_line_ok build_element_ok build_text_ok)

lemma attach_parts_ok: "haml_ok node \<Longrightarrow> list_all segment_ok parts \<Longrightarrow> haml_ok (attach_parts line parts node)"
proof (cases node)
  case (Haml_Node info nodes)
  assume "haml_ok node" and parts: "list_all segment_ok parts"
  with Haml_Node have ok: "info_ok info" "list_all haml_ok nodes" by simp_all
  obtain final under where final: "nodes \<noteq> [] \<Longrightarrow> last nodes = Haml_Node final under"
    by (cases "last nodes")
  moreover have "haml_ok (last nodes)" "list_all haml_ok (butlast nodes)" if "nodes \<noteq> []"
    using ok that by (auto simp: list_all_iff in_set_butlastD)
  ultimately show ?thesis
    using ok parts Haml_Node
    by (auto simp: attach_parts_def joined_block_def info_ok_def has_value_def)
qed

lemma lines_below_ok:
  assumes "lines_below line node lines = Inr below" and "haml_ok node"
  shows "case below of Block_Taken node' lines' \<Rightarrow> haml_ok node' | Children_Below node' \<Rightarrow> node' = node"
proof -
  have "haml_ok (keep_whitespace node)"
    using assms(2) by (cases node) (simp add: keep_whitespace_def info_ok_def has_value_def)
  moreover have "haml_ok node'" if "attach_filter_block node n lines = (node', lines')" for n node' lines'
    using assms(2) that by (cases node) (auto simp: attach_filter_block_def info_ok_def split: if_splits)
  ultimately show ?thesis
    using assms
    by (auto simp: lines_below_def Let_def attach_block_def outcome_simps attach_parts_ok parse_interpolated_ok
        split: if_splits prod.splits)
qed

lemma parse_ok:
  "parse_node line lines = Inr (node, lines') \<Longrightarrow> haml_ok node"
  "parse_children indent lines = Inr (nodes, lines') \<Longrightarrow> list_all haml_ok nodes"
proof (induction line lines and indent lines arbitrary: node lines' and nodes lines'
    rule: parse_node_parse_children.induct)
  case (1 line lines)
  obtain built below where built: "build line = Inr built" "lines_below line built lines = Inr below"
    using 1(2) by (auto simp: parse_node.simps outcome_simps)
  have ok: "haml_ok built" by (rule build_ok [OF built(1)])
  show ?case
  proof (cases below)
    case (Block_Taken node1 lines1)
    then show ?thesis
      using 1(2) built lines_below_ok [OF built(2) ok] by (auto simp: parse_node.simps)
  next
    case (Children_Below node1)
    obtain info nodes where node1: "node1 = Haml_Node info nodes" by (cases node1)
    then show ?thesis
      using 1(2) built Children_Below lines_below_ok [OF built(2) ok] ok 1(1) [OF built Children_Below node1]
      by (auto simp: parse_node.simps outcome_simps)
  qed
next
  case (2 indent lines)
  show ?case
  proof (cases "skip_blank lines")
    case Nil
    then show ?thesis using 2(3) by (simp add: parse_children.simps del: dropWhile_eq_Nil_conv)
  next
    case (Cons deep rest)
    then show ?thesis
      using 2(1,2) [OF Cons] 2(3) by (fastforce simp: parse_children.simps outcome_simps split: if_splits)
  qed
qed

lemma parse_root_ok: "parse_root lines = Inr nodes \<Longrightarrow> list_all haml_ok nodes"
proof (induction lines arbitrary: nodes rule: parse_root.induct)
  case (1 lines)
  show ?case
  proof (cases "skip_blank lines")
    case Nil
    then show ?thesis using 1(2) by (subst (asm) parse_root.simps) (simp del: dropWhile_eq_Nil_conv)
  next
    case (Cons line rest)
    then obtain node lines1 others where "parse_node line rest = Inr (node, lines1)" "parse_root lines1 = Inr others"
      "nodes = node # others"
      using 1(2) unfolding parse_root.simps [of lines] by (auto simp: outcome_simps)
    then show ?thesis
      using 1(1) [OF Cons] parse_ok(1) by fastforce
  qed
qed

lemma compile_ok: "compile_template source name = Inr t \<Longrightarrow> haml_ok (ht_root t)"
  by (auto simp: compile_template_def parse_template_def outcome_simps parse_root_ok info_ok_def new_node_def)

section \<open>The outline\<close>

text \<open>
  The lines a tree stands on, in the order of the source, and its edges as pairs of lines. What a
  line says after its tag is a child on the same line, and the block of a filter is text.
\<close>

fun node_line :: "haml_node \<Rightarrow> nat" where
  "node_line (Haml_Node info nodes) = hi_line info"

fun tree_lines :: "haml_node \<Rightarrow> nat list" where
  "tree_lines (Haml_Node info nodes) =
     hi_line info # (if hi_kind info = Filter_Node then [] else concat (map tree_lines nodes))"

fun tree_edges :: "haml_node \<Rightarrow> (nat \<times> nat) list" where
  "tree_edges (Haml_Node info nodes) =
     (if hi_kind info = Filter_Node then []
      else concat (map (\<lambda>n. (if node_line n = hi_line info then [] else [(hi_line info, node_line n)]) @ tree_edges n) nodes))"

definition own_children :: "nat \<Rightarrow> haml_node list \<Rightarrow> bool" where
  "own_children number nodes \<longleftrightarrow> (\<forall>n \<in> set nodes. node_line n = number \<and> haml_children n = [])"

definition on_line :: "nat \<Rightarrow> haml_node \<Rightarrow> bool" where
  "on_line number node \<longleftrightarrow> node_line node = number \<and> own_children number (haml_children node)"

lemma on_line_simps [simp]:
  "on_line number (Haml_Node info nodes) \<longleftrightarrow> hi_line info = number \<and> own_children number nodes"
  "own_children number []" "own_children number (n # nodes) \<longleftrightarrow>
     node_line n = number \<and> haml_children n = [] \<and> own_children number nodes"
  by (auto simp: on_line_def own_children_def)

lemma build_text_on_line: "build_text line content = Inr node \<Longrightarrow> node_line node = hl_number line \<and> haml_children node = []"
  by (auto simp: build_text_def outcome_simps)

lemma build_output_line_on_line:
  "build_output_line line content = Inr node \<Longrightarrow> node_line node = hl_number line \<and> haml_children node = []"
  by (auto simp: build_output_line_def build_output_def outcome_simps Let_def)

lemma build_control_on_line:
  "build_control line source = Inr node \<Longrightarrow> node_line node = hl_number line \<and> haml_children node = []"
  by (auto simp: build_control_def build_for_def line_error_def outcome_simps Let_def
      split: option.splits control_kind.splits if_splits)

lemma build_element_on_line: "build_element line content = Inr node \<Longrightarrow> on_line (hl_number line) node"
proof -
  assume built: "build_element line content = Inr node"
  obtain tag rest where tag: "element_tag content = (tag, rest)" by fastforce
  let ?info = "(node_at Element_Node (hl_number line))\<lparr>hi_tag := tag\<rparr>"
  obtain info1 rest1 info2 rest2 where parts: "element_names line content rest ?info = Inr (info1, rest1)"
    "element_attributes line content rest1 info1 = Inr (info2, rest2)"
    using built by (auto simp: build_element_def tag outcome_simps)
  then have "hi_line info2 = hl_number line"
    using element_names_ok [OF parts(1)]
    by (auto simp: element_attributes_def line_error_def outcome_simps split: if_splits option.splits)
  then show ?thesis
    using built parts
    by (auto simp: build_element_def tag outcome_simps Let_def inline_child_def
        split: if_splits dest: build_text_on_line build_output_line_on_line)
qed

lemma on_line_leaf: "node_line node = number \<and> haml_children node = [] \<Longrightarrow> on_line number node"
  by (simp add: on_line_def)

lemma build_on_line: "build line = Inr node \<Longrightarrow> on_line (hl_number line) node"
  by (auto simp: build_def Let_def split: if_splits
      dest: build_element_on_line on_line_leaf [OF build_text_on_line] on_line_leaf [OF build_control_on_line]
        on_line_leaf [OF build_output_line_on_line])

lemma attach_parts_on_line: "on_line (hl_number line) node \<Longrightarrow> on_line (hl_number line) (attach_parts line parts node)"
proof (cases node)
  case (Haml_Node info nodes)
  assume on: "on_line (hl_number line) node"
  obtain final under where final: "last nodes = Haml_Node final under" by (cases "last nodes")
  moreover have "hi_line final = hl_number line \<and> under = []" if "nodes \<noteq> []"
    using on final that last_in_set [OF that] Haml_Node by (auto simp: own_children_def dest!: bspec)
  ultimately show ?thesis
    using on Haml_Node by (auto simp: attach_parts_def own_children_def dest: in_set_butlastD)
qed

text \<open>After a block, the next line that says something is not indented past the line it is under.\<close>

definition stops :: "nat \<Rightarrow> haml_line list \<Rightarrow> bool" where
  "stops indent lines \<longleftrightarrow> skip_blank lines = [] \<or> hl_indent (hd (skip_blank lines)) \<le> indent"

lemma dropWhile_after:
  assumes "\<forall>x \<in> set xs. P x" and "ys \<noteq> [] \<Longrightarrow> \<not> P (hd ys)"
  shows "dropWhile P (xs @ ys) = ys"
proof -
  have "dropWhile P (xs @ ys) = dropWhile P ys"
    using assms(1) by (intro dropWhile_append2) blast
  also have "\<dots> = ys"
    using assms(2) by (cases ys) simp_all
  finally show ?thesis .
qed

lemma block_end_stops: "stops indent (drop (block_end indent lines) lines)"
proof -
  let ?P = "\<lambda>line. hl_blank line \<or> indent < hl_indent line"
  define block after where "block = takeWhile ?P lines" and "after = dropWhile ?P lines"
  define n where "n = block_end indent lines"
  have n: "n = (case find_last_pos (\<lambda>line. \<not> hl_blank line) block of None \<Rightarrow> 0 | Some final \<Rightarrow> Suc final)"
    by (simp add: n_def block_end_def block_def)
  have lines: "lines = block @ after"
    by (simp add: block_def after_def)
  have stop: "\<not> ?P (hd after)" if "after \<noteq> []"
    using that unfolding after_def by (rule hd_dropWhile)
  have "n \<le> length block \<and> (\<forall>line \<in> set (drop n block). hl_blank line)"
  proof (cases "find_last_pos (\<lambda>line. \<not> hl_blank line) block")
    case None
    have "n = 0" by (simp only: n None option.case)
    with None show ?thesis by (simp add: find_last_pos_None)
  next
    case (Some final)
    have "n = Suc final" by (simp only: n Some option.case)
    with Some show ?thesis by (simp add: find_last_pos_Some Suc_le_eq)
  qed
  then have dropped: "drop n lines = drop n block @ after" and blank: "\<forall>line \<in> set (drop n block). hl_blank line"
    by (simp_all add: lines)
  have "skip_blank (drop n block @ after) = after"
    using blank stop by (intro dropWhile_after) auto
  note dropped this
  then show ?thesis
    using stop by (cases "after = []") (auto simp: stops_def n_def)
qed

text \<open>
  What parsing some lines gives, as an outline: the lines it stands on are among those consumed and
  rise; every edge goes to a deeper line, past lines at least as deep; and what is left begins where
  the indentation falls back.
\<close>

definition edge_ok :: "(nat \<Rightarrow> nat) \<Rightarrow> nat list \<Rightarrow> nat \<times> nat \<Rightarrow> bool" where
  "edge_ok ind ls e \<longleftrightarrow> fst e < snd e \<and> ind (fst e) < ind (snd e) \<and>
     (\<forall>q \<in> set ls. fst e < q \<and> q < snd e \<longrightarrow> ind (snd e) \<le> ind q)"

definition outlines :: "(nat \<Rightarrow> nat) \<Rightarrow> haml_node \<Rightarrow> bool" where
  "outlines ind node \<longleftrightarrow> (\<forall>e \<in> set (tree_edges node). edge_ok ind (tree_lines node) e)"

text \<open>A forest whose trees follow one another, none indented past a line before it.\<close>

fun forest_outlines :: "(nat \<Rightarrow> nat) \<Rightarrow> haml_node list \<Rightarrow> bool" where
  "forest_outlines ind [] \<longleftrightarrow> True"
| "forest_outlines ind (n # ns) \<longleftrightarrow> outlines ind n \<and> forest_outlines ind ns \<and>
     (\<forall>p \<in> set (tree_lines n). node_line n \<le> p \<and> ind (node_line n) \<le> ind p \<and>
        (\<forall>q \<in> set (concat (map tree_lines ns)). p < q)) \<and>
     (\<forall>m \<in> set ns. ind (node_line m) \<le> ind (node_line n))"

definition numbered :: "(nat \<Rightarrow> nat) \<Rightarrow> haml_line list \<Rightarrow> bool" where
  "numbered ind lines \<longleftrightarrow> sorted_wrt (<) (map hl_number lines) \<and>
     (\<forall>line \<in> set lines. ind (hl_number line) = hl_indent line \<and> unclosed_preserved_tag (hl_content line) = [])"

lemma numbered_Cons: "numbered ind (line # lines) \<longleftrightarrow>
    numbered ind lines \<and> ind (hl_number line) = hl_indent line \<and> unclosed_preserved_tag (hl_content line) = [] \<and>
    (\<forall>l \<in> set lines. hl_number line < hl_number l)"
  by (auto simp: numbered_def)

lemma numbered_drop: "numbered ind lines \<Longrightarrow> numbered ind (drop n lines)"
  by (auto simp: numbered_def drop_map [symmetric] sorted_wrt_drop dest: in_set_dropD)

lemma numbered_skip: "numbered ind lines \<Longrightarrow> numbered ind (skip_blank lines)"
  by (simp add: dropWhile_eq_drop numbered_drop)

lemma node_line_first: "node_line node \<in> set (tree_lines node)"
  by (cases node) simp

lemma forest_later:
  "forest_outlines ind (n # ns) \<Longrightarrow> m \<in> set ns \<Longrightarrow> p \<in> set (tree_lines n) \<Longrightarrow> ind (node_line m) \<le> ind p"
  by (fastforce intro: le_trans)

lemma forest_top:
  "forest_outlines ind ns \<Longrightarrow> m \<in> set ns \<Longrightarrow> q \<in> set (concat (map tree_lines ns)) \<Longrightarrow> q < node_line m \<Longrightarrow>
   ind (node_line m) \<le> ind q"
proof (induction ns)
  case (Cons n ns)
  show ?case
  proof (cases "q \<in> set (tree_lines n)")
    case True
    then have "m \<in> set ns"
      using Cons.prems by force
    then show ?thesis
      using forest_later [OF Cons.prems(1)] True by blast
  next
    case False
    then obtain k where k: "k \<in> set ns" "q \<in> set (tree_lines k)" using Cons.prems(3) by auto
    have "m \<noteq> n"
      using Cons.prems(1,4) k node_line_first [of n] by (auto dest!: bspec)
    then show ?thesis
      using Cons k by auto
  qed
qed simp

lemma edge_ends: "e \<in> set (tree_edges node) \<Longrightarrow> fst e \<in> set (tree_lines node) \<and> snd e \<in> set (tree_lines node)"
proof (induction node)
  case (Haml_Node info nodes)
  then show ?case
    using node_line_first by (fastforce split: if_splits)
qed

lemma forest_edges:
  "forest_outlines ind ns \<Longrightarrow> m \<in> set ns \<Longrightarrow> e \<in> set (tree_edges m) \<Longrightarrow> edge_ok ind (concat (map tree_lines ns)) e"
proof (induction ns)
  case (Cons n ns)
  then show ?case
  proof (cases "m = n \<and> e \<in> set (tree_edges n)")
    case True
    then have ok: "edge_ok ind (tree_lines n) e" and "snd e \<in> set (tree_lines n)"
      using Cons.prems(1) edge_ends [of e n] by (simp_all add: outlines_def)
    then have "snd e < q" if "q \<in> set (concat (map tree_lines ns))" for q
      using Cons.prems(1) that unfolding forest_outlines.simps by blast
    then show ?thesis
      using ok by (auto simp: edge_ok_def dest: less_asym)
  next
    case False
    then have m: "m \<in> set ns" using Cons.prems by auto
    then have "fst e \<in> set (concat (map tree_lines ns))"
      using edge_ends [OF Cons.prems(3)] by auto
    then have "q < fst e" if "q \<in> set (tree_lines n)" for q
      using Cons.prems(1) that unfolding forest_outlines.simps by blast
    moreover have "edge_ok ind (concat (map tree_lines ns)) e"
      using Cons.IH m Cons.prems by simp
    ultimately show ?thesis
      by (auto simp: edge_ok_def dest: less_asym)
  qed
qed simp

lemma on_line_tree:
  "on_line number node \<Longrightarrow> set (tree_lines node) = {number} \<and> node_line node = number \<and> tree_edges node = []"
proof -
  have "haml_children n = [] \<Longrightarrow> tree_lines n = [node_line n] \<and> tree_edges n = []" for n
    by (cases n) auto
  then show "on_line number node \<Longrightarrow> set (tree_lines node) = {number} \<and> node_line node = number \<and> tree_edges node = []"
    by (cases node) (auto simp: own_children_def)
qed

lemma keep_whitespace_on_line: "on_line number node \<Longrightarrow> on_line number (keep_whitespace node)"
  by (cases node) (simp add: keep_whitespace_def)

lemma lines_below_outlines:
  assumes "lines_below line node lines = Inr (Block_Taken node' lines')" and on: "on_line (hl_number line) node"
    and "unclosed_preserved_tag (hl_content line) = []"
  shows "(\<exists>n. lines' = drop n lines) \<and> stops (hl_indent line) lines' \<and>
    set (tree_lines node') = {hl_number line} \<and> node_line node' = hl_number line \<and> tree_edges node' = []"
proof -
  let ?n = "block_end (hl_indent line) lines"
  consider
      "attach_block (keep_whitespace node) line ?n lines = Inr (node', lines')"
    | "hi_kind (haml_info_of node) = Filter_Node" "attach_filter_block node ?n lines = (node', lines')"
    using assms(1,3) by (auto simp: lines_below_def Let_def outcome_simps split: if_splits prod.splits)
  then have "lines' = drop ?n lines \<and> set (tree_lines node') = {hl_number line} \<and>
      node_line node' = hl_number line \<and> tree_edges node' = []"
  proof cases
    case 1
    have "on_line (hl_number line) (keep_whitespace node)"
      by (rule keep_whitespace_on_line [OF on])
    then have "on_line (hl_number line) node'" "lines' = drop ?n lines"
      using 1 attach_parts_on_line by (auto simp: attach_block_def outcome_simps split: if_splits)
    then show ?thesis
      using on_line_tree by blast
  next
    case 2
    then show ?thesis
      using on by (cases node) (auto simp: attach_filter_block_def split: if_splits)
  qed
  then show ?thesis
    using block_end_stops by blast
qed

lemma forest_on_own:
  assumes own: "own_children (hi_line info) own" and kind: "hi_kind info \<noteq> Filter_Node"
    and forest: "forest_outlines ind below"
    and deeper: "\<forall>q \<in> set (concat (map tree_lines below)). hi_line info < q \<and> ind (hi_line info) < ind q"
  shows "outlines ind (Haml_Node info (own @ below))"
proof -
  let ?all = "tree_lines (Haml_Node info (own @ below))"
  have own_tree: "set (tree_lines n) = {hi_line info} \<and> node_line n = hi_line info \<and> tree_edges n = []" if "n \<in> set own" for n
    using own that on_line_tree [of "hi_line info" n] by (cases n) (auto simp: own_children_def)
  have all: "set ?all = {hi_line info} \<union> set (concat (map tree_lines below))"
    using own_tree kind by auto
  have edge: "e \<in> set (tree_edges (Haml_Node info (own @ below))) \<Longrightarrow>
      (\<exists>m \<in> set below. e = (hi_line info, node_line m) \<or> e \<in> set (tree_edges m))" for e
    using own_tree kind by (auto split: if_splits)
  have "edge_ok ind ?all e" if e: "e \<in> set (tree_edges (Haml_Node info (own @ below)))" for e
  proof -
    from edge [OF e] obtain m where m: "m \<in> set below" and
      "e = (hi_line info, node_line m) \<or> e \<in> set (tree_edges m)" by blast
    then consider "e = (hi_line info, node_line m)" | "e \<in> set (tree_edges m)" by blast
    then show ?thesis
    proof cases
      case 1
      then show ?thesis
        using m forest deeper forest_top [OF forest m] node_line_first [of m] unfolding edge_ok_def all by auto
    next
      case 2
      then have "edge_ok ind (concat (map tree_lines below)) e"
        using forest_edges [OF forest m] by blast
      moreover have "hi_line info < fst e"
        using deeper edge_ends [OF 2] m by auto
      ultimately show ?thesis
        unfolding edge_ok_def all by (auto dest: less_asym)
    qed
  qed
  then show ?thesis by (simp add: outlines_def)
qed

definition node_outlined :: "(nat \<Rightarrow> nat) \<Rightarrow> haml_line \<Rightarrow> haml_line list \<Rightarrow> haml_node \<Rightarrow> haml_line list \<Rightarrow> bool" where
  "node_outlined ind line lines node left \<longleftrightarrow> (\<exists>n. left = drop n lines) \<and> stops (hl_indent line) left \<and>
     outlines ind node \<and> node_line node = hl_number line \<and>
     (\<forall>q \<in> set (tree_lines node). hl_number line \<le> q \<and> hl_indent line \<le> ind q \<and> (\<forall>l \<in> set left. q < hl_number l))"

definition forest_outlined :: "(nat \<Rightarrow> nat) \<Rightarrow> nat \<Rightarrow> haml_line list \<Rightarrow> haml_node list \<Rightarrow> haml_line list \<Rightarrow> bool" where
  "forest_outlined ind indent lines nodes left \<longleftrightarrow> (\<exists>n. left = drop n lines) \<and> stops indent left \<and>
     forest_outlines ind nodes \<and>
     (nodes \<noteq> [] \<longrightarrow> skip_blank lines \<noteq> [] \<and> node_line (hd nodes) = hl_number (hd (skip_blank lines))) \<and>
     (\<forall>q \<in> set (concat (map tree_lines nodes)). indent < ind q \<and> (\<exists>l \<in> set lines. hl_number l \<le> q) \<and>
        (\<forall>l \<in> set left. q < hl_number l))"

lemma forest_outlines_Cons:
  assumes node: "node_outlined ind line lines node left" and "ind (hl_number line) = hl_indent line"
    and forest: "forest_outlines ind nodes" and left: "numbered ind left"
    and first: "nodes \<noteq> [] \<longrightarrow> skip_blank left \<noteq> [] \<and> node_line (hd nodes) = hl_number (hd (skip_blank left))"
    and above: "\<forall>q \<in> set (concat (map tree_lines nodes)). \<exists>l \<in> set left. hl_number l \<le> q"
  shows "forest_outlines ind (node # nodes)"
proof -
  have "ind (node_line m) \<le> ind (node_line node)" if m: "m \<in> set nodes" for m
  proof -
    have some: "nodes \<noteq> []" using m by auto
    then have head: "hd (skip_blank left) \<in> set left"
      using first by (metis hd_in_set set_dropWhileD)
    have "stops (hl_indent line) left"
      using node by (simp add: node_outlined_def)
    then have "ind (node_line (hd nodes)) \<le> hl_indent line"
      using first some head left unfolding stops_def numbered_def by metis
    moreover have "ind (node_line m) \<le> ind (node_line (hd nodes))"
      using m forest by (cases nodes) auto
    ultimately show ?thesis
      using node assms(2) by (simp add: node_outlined_def)
  qed
  moreover have "p < q" if "p \<in> set (tree_lines node)" "q \<in> set (concat (map tree_lines nodes))" for p q
    using above node that by (fastforce simp: node_outlined_def)
  ultimately show ?thesis
    using node forest assms(2) by (auto simp: node_outlined_def)
qed

lemma parse_outlines:
  "parse_node line lines = Inr (node, left) \<Longrightarrow> numbered ind (line # lines) \<Longrightarrow> node_outlined ind line lines node left"
  "parse_children indent lines = Inr (nodes, left) \<Longrightarrow> numbered ind lines \<Longrightarrow> forest_outlined ind indent lines nodes left"
proof (induction line lines and indent lines arbitrary: node left and nodes left
    rule: parse_node_parse_children.induct)
  case (1 line lines)
  obtain built below where built: "build line = Inr built" "lines_below line built lines = Inr below"
    using 1(2) by (auto simp: parse_node.simps outcome_simps)
  have on: "on_line (hl_number line) built" by (rule build_on_line [OF built(1)])
  have line: "numbered ind lines" "ind (hl_number line) = hl_indent line" "unclosed_preserved_tag (hl_content line) = []"
    "\<forall>l \<in> set lines. hl_number line < hl_number l"
    using 1(3) by (simp_all add: numbered_Cons)
  show ?case
  proof (cases below)
    case (Block_Taken node1 lines1)
    then have "node = node1" "left = lines1"
      using 1(2) built by (simp_all add: parse_node.simps)
    then show ?thesis
      using lines_below_outlines [of line built lines node left] built(2) Block_Taken on line
      by (auto simp: node_outlined_def outlines_def dest: in_set_dropD)
  next
    case (Children_Below node1)
    obtain info own where node1: "node1 = Haml_Node info own" by (cases node1)
    moreover have "built = node1" "hi_kind info \<noteq> Filter_Node"
      using built(2) Children_Below line(3) node1
      by (auto simp: lines_below_def Let_def outcome_simps split: if_splits prod.splits)
    ultimately have own: "own_children (hi_line info) own" "hi_line info = hl_number line" "hi_kind info \<noteq> Filter_Node"
      using on by auto
    obtain nodes where nodes: "parse_children (hl_indent line) lines = Inr (nodes, left)" "node = Haml_Node info (own @ nodes)"
      using 1(2) built Children_Below node1 by (auto simp: parse_node.simps outcome_simps)
    have forest: "forest_outlined ind (hl_indent line) lines nodes left"
      by (rule 1(1) [OF built Children_Below node1 nodes(1) line(1)])
    have deeper: "\<forall>q \<in> set (concat (map tree_lines nodes)). hi_line info < q \<and> ind (hi_line info) < ind q"
      using forest line own(2) unfolding forest_outlined_def by (metis less_le_trans)
    have "outlines ind node"
      using forest_on_own [OF own(1,3) _ deeper] forest nodes(2) by (simp add: forest_outlined_def)
    moreover have "set (tree_lines node) = {hl_number line} \<union> set (concat (map tree_lines nodes))"
    proof -
      have "set (tree_lines n) = {hl_number line}" if "n \<in> set own" for n
        using own that on_line_tree [of "hi_line info" n] by (cases n) (auto simp: own_children_def)
      then show ?thesis using own nodes(2) by auto
    qed
    ultimately show ?thesis
      using forest deeper own(2) nodes(2) line unfolding node_outlined_def forest_outlined_def
      by (auto dest: in_set_dropD simp: less_imp_le)
  qed
next
  case (2 indent lines)
  show ?case
  proof (cases "skip_blank lines")
    case Nil
    then show ?thesis using 2(3,4) by (auto simp: parse_children.simps forest_outlined_def stops_def intro: exI [of _ 0] simp del: dropWhile_eq_Nil_conv)
  next
    case (Cons deep rest)
    have num: "numbered ind (deep # rest)"
      using numbered_skip [OF 2(4)] Cons by simp
    obtain k where k: "deep # rest = drop k lines"
      using Cons by (metis dropWhile_eq_drop)
    show ?thesis
    proof (cases "hl_indent deep \<le> indent")
      case True
      then show ?thesis
        using 2(3,4) Cons by (auto simp: parse_children.simps forest_outlined_def stops_def intro: exI [of _ 0])
    next
      case False
      then obtain node lines1 others where parsed: "parse_node deep rest = Inr (node, lines1)"
        "parse_children indent lines1 = Inr (others, left)" "nodes = node # others"
        using 2(3) Cons by (auto simp: parse_children.simps outcome_simps)
      have node: "node_outlined ind deep rest node lines1"
        by (rule 2(1) [OF Cons False parsed(1) num])
      then obtain j where j: "lines1 = drop j rest" by (auto simp: node_outlined_def)
      then have num1: "numbered ind lines1"
        using num by (auto simp: numbered_Cons numbered_drop)
      have others: "forest_outlined ind indent lines1 others left"
        using 2(2) [OF Cons False parsed(1) refl parsed(2) num1] .
      have lines1: "lines1 = drop (k + Suc j) lines"
        using j k by (metis drop_Suc_Cons drop_drop add.commute)
      have "forest_outlines ind nodes"
        unfolding parsed(3) using others num num1 by (intro forest_outlines_Cons [OF node]) (auto simp: forest_outlined_def numbered_Cons)
      moreover obtain m where "left = drop m lines1"
        using others by (auto simp: forest_outlined_def)
      then have "left = drop (m + (k + Suc j)) lines" "set left \<subseteq> set lines1" "set lines1 \<subseteq> set lines"
        using lines1 by (simp, metis set_drop_subset, metis set_drop_subset)
      moreover have "deep \<in> set lines"
        using k by (metis in_set_dropD list.set_intros(1))
      moreover have "\<forall>q \<in> set (concat (map tree_lines others)). \<exists>l \<in> set lines. hl_number l \<le> q"
        using others calculation(4) unfolding forest_outlined_def by blast
      ultimately show ?thesis
        using node others False Cons unfolding parsed(3) node_outlined_def forest_outlined_def
        by (auto simp del: forest_outlines.simps intro: exI [of _ "m + (k + Suc j)"])
    qed
  qed
qed

lemma parse_root_outlines:
  "parse_root lines = Inr nodes \<Longrightarrow> numbered ind lines \<Longrightarrow>
   forest_outlines ind nodes \<and>
   (nodes \<noteq> [] \<longrightarrow> skip_blank lines \<noteq> [] \<and> node_line (hd nodes) = hl_number (hd (skip_blank lines))) \<and>
   (\<forall>q \<in> set (concat (map tree_lines nodes)). \<exists>l \<in> set lines. hl_number l \<le> q)"
proof (induction lines arbitrary: nodes rule: parse_root.induct)
  case (1 lines)
  show ?case
  proof (cases "skip_blank lines")
    case Nil
    then show ?thesis using 1(2) by (subst (asm) parse_root.simps) (simp del: dropWhile_eq_Nil_conv)
  next
    case (Cons line rest)
    then obtain node left others where parsed: "parse_node line rest = Inr (node, left)" "parse_root left = Inr others"
      "nodes = node # others"
      using 1(2) unfolding parse_root.simps [of lines] by (auto simp: outcome_simps)
    have num: "numbered ind (line # rest)"
      using numbered_skip [OF 1(3)] Cons by simp
    have node: "node_outlined ind line rest node left"
      by (rule parse_outlines(1) [OF parsed(1) num])
    then have left: "numbered ind left" "set left \<subseteq> set rest"
      using num by (auto simp: node_outlined_def numbered_Cons numbered_drop dest: in_set_dropD)
    have others: "forest_outlines ind others"
      "others \<noteq> [] \<longrightarrow> skip_blank left \<noteq> [] \<and> node_line (hd others) = hl_number (hd (skip_blank left))"
      "\<forall>q \<in> set (concat (map tree_lines others)). \<exists>l \<in> set left. hl_number l \<le> q"
      using 1(1) [OF Cons parsed(1) refl parsed(2) left(1)] by blast+
    have "forest_outlines ind nodes"
      unfolding parsed(3) using others num left by (intro forest_outlines_Cons [OF node]) (auto simp: numbered_Cons)
    moreover have "line \<in> set lines" "set left \<subseteq> set lines"
      using Cons left(2) by (metis list.set_intros(1) set_dropWhileD, metis list.set_intros(2) set_dropWhileD subset_iff)
    moreover have "\<exists>l \<in> set lines. hl_number l \<le> q" if "q \<in> set (concat (map tree_lines others))" for q
      using others(3) that calculation(3) by blast
    ultimately show ?thesis
      using node Cons unfolding parsed(3) node_outlined_def
      by (auto simp del: forest_outlines.simps)
  qed
qed

text \<open>The lines of a source are numbered from one.\<close>

definition line_indent :: "string \<Rightarrow> nat \<Rightarrow> nat" where
  "line_indent source number = hl_indent (source_lines source ! (number - 1))"

lemma source_lines_nth:
  assumes "i < length (source_lines source)"
  shows "hl_number (source_lines source ! i) = Suc i"
proof -
  let ?raws = "split_lines source"
  have "i < length ?raws"
    using assms by (simp add: source_lines_def Let_def)
  moreover have "hl_number (source_line n raw) = n" for n raw
    by (simp add: source_line_def Let_def)
  ultimately show ?thesis
    by (simp add: source_lines_def Let_def del: upt_Suc)
qed

lemma source_lines_numbered:
  assumes "\<forall>line \<in> set (source_lines source). unclosed_preserved_tag (hl_content line) = []"
  shows "numbered (line_indent source) (source_lines source)"
  using assms
  by (auto simp: numbered_def sorted_wrt_iff_nth_less source_lines_nth line_indent_def in_set_conv_nth)

text \<open>
  C29. The tree a template compiles to is the outline its indentation draws. In a template that leaves
  no preformatted markup open, an edge of the tree goes from a line to a later one that is
  indented more, and every line of the tree between the two is indented at least as far as the
  second: a line is under the last line before it that is indented less. A line at the top has no
  such line before it.
\<close>

theorem template_outline:
  assumes "parse_template source = Inr root"
    and "\<forall>line \<in> set (source_lines source). unclosed_preserved_tag (hl_content line) = []"
    and "lines = concat (map tree_lines (haml_children root))"
  shows "(\<forall>node \<in> set (haml_children root). \<forall>(p, c) \<in> set (tree_edges node).
            p < c \<and> line_indent source p < line_indent source c \<and>
            (\<forall>q \<in> set lines. p < q \<and> q < c \<longrightarrow> line_indent source c \<le> line_indent source q)) \<and>
         (\<forall>node \<in> set (haml_children root). \<forall>q \<in> set lines.
            q < node_line node \<longrightarrow> line_indent source (node_line node) \<le> line_indent source q)"
proof -
  obtain nodes where nodes: "parse_root (source_lines source) = Inr nodes" "haml_children root = nodes"
    using assms(1) by (auto simp: parse_template_def outcome_simps)
  have forest: "forest_outlines (line_indent source) nodes"
    using parse_root_outlines [OF nodes(1) source_lines_numbered [OF assms(2)]] by blast
  show ?thesis
    using forest_edges [OF forest] forest_top [OF forest] unfolding assms(3) nodes(2) edge_ok_def by fastforce
qed

definition sample_source :: string where
  "sample_source = ''%ul'' @ CHR 0x0A # ''    %li one'' @ CHR 0x0A # ''      two'' @ CHR 0x0A # ''  %li'' @ CHR 0x0A # ''%p''"

theorem template_outline_witness:
  "\<exists>root. parse_template sample_source = Inr root \<and>
     concat (map tree_edges (haml_children root)) = [(1, 2), (2, 3), (1, 4)] \<and>
     line_indent sample_source 1 < line_indent sample_source 4 \<and>
     line_indent sample_source 4 \<le> line_indent sample_source 3"
proof -
  obtain root where root: "parse_template sample_source = Inr root"
    and edges: "map tree_edges (haml_children root) = [[(1, 2), (2, 3), (1, 4)], []]"
    and lines: "map tree_lines (haml_children root) = [[1, 2, 2, 3, 4], [5]]"
  proof -
    have "case parse_template sample_source of Inl e \<Rightarrow> False | Inr root \<Rightarrow>
        map tree_edges (haml_children root) = [[(1, 2), (2, 3), (1, 4)], []] \<and>
        map tree_lines (haml_children root) = [[1, 2, 2, 3, 4], [5]]"
      by code_simp
    then show ?thesis using that by (auto split: sum.splits)
  qed
  have closed: "\<forall>line \<in> set (source_lines sample_source). unclosed_preserved_tag (hl_content line) = []"
    by code_simp
  obtain node other where nodes: "haml_children root = [node, other]" "tree_edges node = [(1, 2), (2, 3), (1, 4)]"
    using edges by auto
  then have "(1, 4) \<in> set (tree_edges node)" "node \<in> set (haml_children root)" by simp_all
  moreover have "3 \<in> set (concat (map tree_lines (haml_children root)))"
    using lines by simp
  ultimately have "line_indent sample_source 1 < line_indent sample_source 4 \<and>
      line_indent sample_source 4 \<le> line_indent sample_source 3"
    using template_outline [OF root closed refl] by fastforce
  then show ?thesis
    using root edges nodes by auto
qed

end
