(* ===== verification/RenderProps.thy ===== *)
theory RenderProps
  imports Renders TemplateProps
begin

text \<open>
  What rendering keeps. A rendering leaves the page it was given as it was, whatever comes of it:
  the values, the locals and the functions, and as many recordings open; and the cache only gains
  entries. A template that compiled never dereferences a value it does not have, and never gives
  the evaluator an expression too deep for it.
\<close>

section \<open>The cache only grows\<close>

lemma map_of_emplace_entry: "map_of (emplace_entry k v entries) = (\<lambda>j. if j = k \<and> map_of entries k = None then Some v else map_of entries j)"
  by (auto simp: emplace_entry_def map_add_def fun_eq_iff split: option.split)

lemma emplace_entry_keeps: "map_of entries \<subseteq>\<^sub>m map_of (emplace_entry k v entries)"
  by (auto simp: map_le_def map_of_emplace_entry dom_def)

definition cache_grows :: "fragment_cache \<Rightarrow> fragment_cache \<Rightarrow> bool" where
  "cache_grows f f' \<longleftrightarrow> map_of (fc_entries f) \<subseteq>\<^sub>m map_of (fc_entries f') \<and>
     map_of (fc_read_lists f) \<subseteq>\<^sub>m map_of (fc_read_lists f')"

lemma cache_grows_refl [simp]: "cache_grows f f"
  by (simp add: cache_grows_def)

lemma cache_grows_trans: "cache_grows f f1 \<Longrightarrow> cache_grows f1 f2 \<Longrightarrow> cache_grows f f2"
  by (auto simp: cache_grows_def intro: map_le_trans)

lemma cache_steps_grow [simp]:
  "cache_grows f (snd (fc_find key f))" "cache_grows f (fc_store key html f)"
  "cache_grows f (fc_remember_reads s names f)" "cache_grows f (fc_note_render f)"
  by (auto simp: cache_grows_def fc_find_def fc_store_def fc_remember_reads_def fc_note_render_def emplace_entry_keeps
      split: option.split)

section \<open>What a rendering leaves as it was\<close>

definition same_stores :: "render_state \<Rightarrow> render_state \<Rightarrow> bool" where
  "same_stores st st' \<longleftrightarrow> vc_values (rs_context st') = vc_values (rs_context st) \<and>
     vc_functions (rs_context st') = vc_functions (rs_context st) \<and>
     length (vc_recordings (rs_context st')) = length (vc_recordings (rs_context st)) \<and>
     cache_grows (rs_cache st) (rs_cache st')"

definition calm :: "(render_state \<Rightarrow> 'a rendering) \<Rightarrow> bool" where
  "calm m \<longleftrightarrow> (\<forall>st. same_stores st (snd (m st)) \<and> vc_locals (rs_context (snd (m st))) = vc_locals (rs_context st))"

lemma same_stores_refl [simp]: "same_stores st st"
  by (simp add: same_stores_def)

lemma same_stores_trans: "same_stores st st1 \<Longrightarrow> same_stores st1 st2 \<Longrightarrow> same_stores st st2"
  by (auto simp: same_stores_def intro: cache_grows_trans)

named_theorems calming

lemma calm_unit [calming]: "calm (\<lambda>st. (x, st))" "calm (render_error message line column)"
  by (simp_all add: calm_def render_error_def)

lemma calm_if [calming]: "calm m \<Longrightarrow> calm m' \<Longrightarrow> calm (\<lambda>st. if b then m st else m' st)"
  by (cases b) simp_all

lemma calm_option [calming]:
  "calm m \<Longrightarrow> (\<And>x. calm (k x)) \<Longrightarrow> calm (\<lambda>st. case found of None \<Rightarrow> m st | Some x \<Rightarrow> k x st)"
  by (cases found) simp_all

lemma bind_render_snd:
  "snd (bind_render m k) = (case fst m of Rendered v \<Rightarrow> snd (k v (snd m)) | _ \<Rightarrow> snd m)"
  by (cases "(m, k)" rule: bind_render.cases) auto

lemma same_stores_bind:
  "same_stores st (snd m) \<Longrightarrow> (\<And>v. same_stores (snd m) (snd (k v (snd m)))) \<Longrightarrow> same_stores st (snd (bind_render m k))"
  unfolding bind_render_snd by (cases "fst m") (auto intro: same_stores_trans)

lemma calm_bind [calming]:
  assumes "calm m" and "\<And>v. calm (k v)"
  shows "calm (\<lambda>st. bind_render (m st) k)"
  unfolding calm_def
proof
  fix st
  show "same_stores st (snd (bind_render (m st) k)) \<and>
      vc_locals (rs_context (snd (bind_render (m st) k))) = vc_locals (rs_context st)"
    using assms unfolding calm_def bind_render_snd
    by (cases "fst (m st)") (auto intro: same_stores_trans)
qed

lemma calm_evaluated [calming]: "calm (evaluated node)" "calm (evaluated_value v)"
proof -
  show eval: "calm (evaluated node)" for node
    unfolding calm_def
  proof
    fix st :: render_state
    obtain log where "tracks log (evaluate max_expression_depth node)"
      using tracked_evaluate by (auto simp: tracked_def)
    then have "snd (evaluate max_expression_depth node (rs_context st)) = note_reads (log (rs_context st)) (rs_context st)"
      by (simp add: tracks_def)
    then show "same_stores st (snd (evaluated node st)) \<and>
        vc_locals (rs_context (snd (evaluated node st))) = vc_locals (rs_context st)"
      by (simp add: evaluated_def same_stores_def case_prod_beta note_reads_def)
  qed
  show "calm (evaluated_value v)"
    unfolding evaluated_value_def using eval by (cases v) (simp_all add: calming)
qed

lemma calm_interpolate [calming]: "calm (interpolate parts escape_holes)"
proof (induction parts)
  case Nil
  then show ?case unfolding interpolate.simps by (rule calming)
next
  case (Cons part parts)
  then show ?case by (cases part) (simp_all add: calming)
qed

lemma calm_filter_body [calming]: "calm (filter_body nodes)"
  by (induction nodes) (simp_all add: calming)

lemma calm_render_filter [calming]: "calm (render_filter info nodes)"
  unfolding render_filter_def by (intro calming)

lemma calm_collect_names [calming]: "calm (collect_names attributes names)"
proof (induction attributes arbitrary: names)
  case Nil
  then show ?case by (cases names) (simp add: calming)
next
  case (Cons a attributes)
  then show ?case by (cases names) (simp add: calming)
qed

lemma calm_value_attribute [calming]: "calm (value_attribute attribute written)"
proof (cases "\<exists>hole. ha_value attribute = [Hole hole]")
  case True
  then obtain hole where "ha_value attribute = [Hole hole]" by blast
  then show ?thesis
    unfolding value_attribute_def by (simp only: list.case segment.case) (intro calming)
next
  case False
  then have "value_attribute attribute written = (\<lambda>st. (Rendered (quoted_attribute (ha_name attribute) written), st))"
    by (auto simp: value_attribute_def fun_eq_iff split: list.splits segment.splits)
  then show ?thesis by (simp add: calming)
qed

lemma calm_write_attributes [calming]: "calm (write_attributes attributes)"
  by (induction attributes) (simp_all add: calming)

lemma calm_open_tag [calming]: "calm (open_tag info)"
  unfolding open_tag_def by (intro calming) (auto split: prod.split intro!: calming)


section \<open>Locals come and go\<close>

lemma change_context_stores:
  "(\<And>c. vc_values (f c) = vc_values c \<and> vc_functions (f c) = vc_functions c \<and>
      length (vc_recordings (f c)) = length (vc_recordings c)) \<Longrightarrow> same_stores st (change_context f st)"
  by (simp add: same_stores_def change_context_def)

lemma set_local_stores:
  "vc_values (set_local n v c) = vc_values c \<and> vc_functions (set_local n v c) = vc_functions c \<and>
   length (vc_recordings (set_local n v c)) = length (vc_recordings c)"
  by (simp add: set_local_def note_bound_def Let_def)

lemma restore_locals_stores:
  "vc_values (restore_locals l c) = vc_values c \<and> vc_functions (restore_locals l c) = vc_functions c \<and>
   length (vc_recordings (restore_locals l c)) = length (vc_recordings c) \<and> vc_locals (restore_locals l c) = l"
  by (simp add: restore_locals_def prune_bound_def)

lemma bind_members_stores:
  "vc_values (bind_members v c) = vc_values c \<and> vc_functions (bind_members v c) = vc_functions c \<and>
   length (vc_recordings (bind_members v c)) = length (vc_recordings c)"
proof -
  have "vc_values (fold (\<lambda>(n, m). set_local n m) ms c) = vc_values c \<and>
      vc_functions (fold (\<lambda>(n, m). set_local n m) ms c) = vc_functions c \<and>
      length (vc_recordings (fold (\<lambda>(n, m). set_local n m) ms c)) = length (vc_recordings c)" for ms
    by (induction ms arbitrary: c) (auto simp: set_local_stores)
  then show ?thesis by (simp add: bind_members_def)
qed

lemma taken_locals_stores:
  "taken_locals st = (vc_locals (rs_context st), change_context (restore_locals []) st)"
  by (simp add: taken_locals_def take_locals_def change_context_def restore_locals_def)

definition keeps_stores :: "(view_context \<Rightarrow> view_context) \<Rightarrow> bool" where
  "keeps_stores f \<longleftrightarrow> (\<forall>c. vc_values (f c) = vc_values c \<and> vc_functions (f c) = vc_functions c \<and>
     length (vc_recordings (f c)) = length (vc_recordings c))"

lemma for_items_stores:
  assumes "\<And>item. keeps_stores (enter item)" and body: "\<And>st. same_stores st (snd (body st))"
  shows "same_stores st (snd (for_items enter body xs st))"
proof (induction xs arbitrary: st)
  case (Cons x xs)
  have enter: "same_stores st (change_context (enter x) st)"
    using assms(1) by (intro change_context_stores) (simp add: keeps_stores_def)
  have "same_stores (change_context (enter x) st) (snd (for_items enter body (x # xs) st))"
    unfolding for_items.simps using body Cons.IH by (intro same_stores_bind) simp_all
  with enter show ?case by (rule same_stores_trans)
qed simp

lemma with_locals_calm:
  assumes "same_stores st (snd outcome)"
  shows "same_stores st (snd (with_locals (vc_locals (rs_context st)) outcome)) \<and>
    vc_locals (rs_context (snd (with_locals (vc_locals (rs_context st)) outcome))) = vc_locals (rs_context st)"
  using assms by (cases outcome) (auto simp: with_locals_def change_context_def same_stores_def restore_locals_stores)

lemma calm_for_loop [calming]:
  assumes "calm body"
  shows "calm (render_loop body info)"
proof -
  have "calm (\<lambda>st. let (saved, st2) = taken_locals st in
      with_locals saved (for_items (\<lambda>item c. set_local x item (restore_locals saved c)) body xs st2))" for x xs
    unfolding calm_def taken_locals_stores Let_def prod.case
  proof
    fix st
    let ?saved = "vc_locals (rs_context st)" and ?st = "change_context (restore_locals []) st"
    have "same_stores ?st (snd (for_items (\<lambda>item c. set_local x item (restore_locals ?saved c)) body xs ?st))"
      using assms
      by (intro for_items_stores) (simp_all add: keeps_stores_def set_local_stores restore_locals_stores calm_def)
    moreover have "same_stores st ?st"
      by (simp add: change_context_stores restore_locals_stores)
    ultimately show "same_stores st (snd (with_locals ?saved
          (for_items (\<lambda>item c. set_local x item (restore_locals ?saved c)) body xs ?st))) \<and>
        vc_locals (rs_context (snd (with_locals ?saved
          (for_items (\<lambda>item c. set_local x item (restore_locals ?saved c)) body xs ?st)))) = ?saved"
      by (intro with_locals_calm) (rule same_stores_trans)
  qed
  then show ?thesis
    unfolding render_loop_def by (intro calming)
qed

lemma calm_partial_body [calming]:
  assumes "calm run"
  shows "calm (render_partial_body run locals collection alias)"
  unfolding calm_def render_partial_body_def taken_locals_stores Let_def prod.case
proof
  fix st
  let ?st1 = "change_context (restore_locals []) st"
  let ?st2 = "case locals of None \<Rightarrow> ?st1 | Some v \<Rightarrow> change_context (bind_members v) ?st1"
  let ?out = "case collection of None \<Rightarrow> run ?st2 | Some v \<Rightarrow> for_items (set_local (alias_name alias)) run (items v) ?st2"
  have "same_stores ?st1 ?st2"
    by (auto simp: change_context_stores bind_members_stores split: option.split)
  moreover have "same_stores st ?st1"
    by (simp add: change_context_stores restore_locals_stores)
  moreover have "same_stores ?st2 (snd ?out)"
    using assms for_items_stores [of "set_local (alias_name alias)" run]
    by (auto simp: calm_def keeps_stores_def set_local_stores split: option.split)
  ultimately have "same_stores st (snd ?out)"
    by (blast intro: same_stores_trans)
  then show "same_stores st (snd (with_locals (vc_locals (rs_context st)) ?out)) \<and>
      vc_locals (rs_context (snd (with_locals (vc_locals (rs_context st)) ?out))) = vc_locals (rs_context st)"
    by (rule with_locals_calm)
qed

definition calm_engine :: "engine \<Rightarrow> bool" where
  "calm_engine en \<longleftrightarrow> (\<forall>inner t. en_deeper en = Some inner \<longrightarrow> calm (inner t))"

lemma calm_evaluated_argument [calming]: "calm (evaluated_argument name arguments)"
  unfolding evaluated_argument_def by (intro calming)

lemma calm_partial_call:
  assumes "calm_engine en"
  shows "calm (render_partial_call en info arguments)"
proof (cases "named_argument ''partial'' arguments")
  case (Some partial_name)
  note some = this
  show ?thesis
  proof (cases "ro_partial (en_options en)")
    case (Some find_partial)
    show ?thesis
    proof (cases "en_deeper en")
      case None
      show ?thesis
        unfolding render_partial_call_def some Some None Let_def option.case prod.case by (intro calming)
    next
      case (Some inner)
      then have "calm (inner t)" for t
        using assms by (simp add: calm_engine_def)
      then show ?thesis
        unfolding render_partial_call_def some \<open>ro_partial (en_options en) = Some find_partial\<close> Some Let_def
          option.case prod.case by (intro calming)
    qed
  next
    case None
    show ?thesis unfolding render_partial_call_def some None option.case prod.case by (intro calming)
  qed
next
  case None
  show ?thesis unfolding render_partial_call_def None option.case prod.case by (intro calming)
qed

section \<open>Fragments\<close>

lemma replay_from_stores:
  "vc_values (snd (replay_from key names c)) = vc_values c \<and> vc_locals (snd (replay_from key names c)) = vc_locals c \<and>
   vc_functions (snd (replay_from key names c)) = vc_functions c \<and>
   length (vc_recordings (snd (replay_from key names c))) = length (vc_recordings c)"
proof (induction names arbitrary: key c)
  case (Cons name names)
  then show ?case by (simp add: resolve_outer split: option.split)
qed simp

lemma fc_find_grows: "fc_find key f = (found, f') \<Longrightarrow> cache_grows f f'"
  using cache_steps_grow(1) [of f key] by simp

lemma replayed_fragment_calm:
  "same_stores st (snd (replayed_fragment prefix here st)) \<and>
   vc_locals (rs_context (snd (replayed_fragment prefix here st))) = vc_locals (rs_context st)"
proof (cases "fc_reads here (rs_cache st)")
  case (Some names)
  obtain found c where replayed: "replay names (rs_context st) = (found, c)" by fastforce
  have c: "vc_values c = vc_values (rs_context st) \<and> vc_locals c = vc_locals (rs_context st) \<and>
      vc_functions c = vc_functions (rs_context st) \<and> length (vc_recordings c) = length (vc_recordings (rs_context st))"
    using replay_from_stores [of "[]" names "rs_context st"] replayed by (simp add: replay_def)
  show ?thesis
    using c fc_find_grows
    by (auto simp: replayed_fragment_def Some replayed same_stores_def split: option.split prod.split)
qed (simp add: replayed_fragment_def)

lemma kept_fragment_calm:
  "same_stores st (snd (kept_fragment key here html st)) \<and>
   vc_locals (rs_context (snd (kept_fragment key here html st))) = vc_locals (rs_context st)"
  by (auto simp: kept_fragment_def Let_def same_stores_def change_cache_def fc_find_def
      cache_grows_def fc_store_def fc_remember_reads_def fc_note_render_def
      intro: map_le_trans [OF emplace_entry_keeps] emplace_entry_keeps split: option.split)

lemma end_recording_stores:
  "vc_recordings c \<noteq> [] \<Longrightarrow> vc_values (snd (end_recording c)) = vc_values c \<and>
   vc_locals (snd (end_recording c)) = vc_locals c \<and> vc_functions (snd (end_recording c)) = vc_functions c \<and>
   Suc (length (vc_recordings (snd (end_recording c)))) = length (vc_recordings c)"
  by (cases "vc_recordings c") (simp_all add: end_recording_def)

lemma recorded_fragment_calm:
  assumes "calm run"
  shows "same_stores st (snd (recorded_fragment prefix here run st)) \<and>
    vc_locals (rs_context (snd (recorded_fragment prefix here run st))) = vc_locals (rs_context st)"
proof -
  let ?begun = "change_context begin_recording st"
  obtain rendered st1 where ran: "run ?begun = (rendered, st1)" by fastforce
  obtain key c where ended: "end_recording (rs_context st1) = (key, c)" by fastforce
  have ran_stores: "same_stores ?begun st1" "vc_locals (rs_context st1) = vc_locals (rs_context ?begun)"
    using assms ran unfolding calm_def by (metis snd_conv)+
  then have "vc_recordings (rs_context st1) \<noteq> []"
    by (auto simp: same_stores_def change_context_def begin_recording_def)
  then have st2: "same_stores st (st1\<lparr>rs_context := c\<rparr>) \<and> vc_locals c = vc_locals (rs_context st)"
    using end_recording_stores [of "rs_context st1"] ended ran_stores
    by (auto simp: same_stores_def change_context_def begin_recording_def)
  show ?thesis
    using st2 kept_fragment_calm [where st = "st1\<lparr>rs_context := c\<rparr>" and key = "prefix @ key" and here = here]
    by (cases rendered) (auto simp: recorded_fragment_def ran ended intro: same_stores_trans)
qed

lemma calm_cached_fragment:
  assumes "calm run"
  shows "calm (cached_fragment en body run)"
  unfolding calm_def
proof
  fix st
  let ?here = "(en_template en, body)"
  let ?prefix = "ro_address (en_options en) ?here @ ''|''"
  obtain found st1 where replayed: "replayed_fragment ?prefix ?here st = (found, st1)" by fastforce
  then have "same_stores st st1 \<and> vc_locals (rs_context st1) = vc_locals (rs_context st)"
    using replayed_fragment_calm by (metis snd_conv)
  then show "same_stores st (snd (cached_fragment en body run st)) \<and>
      vc_locals (rs_context (snd (cached_fragment en body run st))) = vc_locals (rs_context st)"
    using assms recorded_fragment_calm [OF assms]
    by (auto simp: cached_fragment_def Let_def replayed calm_def split: option.split intro: same_stores_trans)
qed

lemma fragment_body_cases:
  "render_fragment_body en body =
     (case engine_call_of body of
        Render_Call info arguments \<Rightarrow> render_partial_call en info arguments
      | Fragment_Call info arguments \<Rightarrow>
          if length arguments < 2 then
            render_error ''cache-fragment needs a name and a block'' (ni_line info) (ni_column info)
          else cached_fragment en (fragment_block (last arguments))
                 (render_fragment_body en (fragment_block (last arguments)))
      | No_Engine_Call \<Rightarrow> (\<lambda>st. bind_render (evaluated body st) (\<lambda>v st1. (Rendered (shown_text v), st1))))"
  by (rule ext, subst render_fragment_body.simps) (simp split: engine_call.split)

lemma calm_fragment_body:
  assumes "calm_engine en"
  shows "calm (render_fragment_body en body)"
proof (induction "size body" arbitrary: body rule: less_induct)
  case less
  have smaller: "size (fragment_block (last arguments)) < size body"
    if "engine_call_of body = Fragment_Call info arguments" "\<not> length arguments < 2" for info arguments
    using engine_call_size [OF that(1)] that(2) by force
  show ?case
    using calm_partial_call [OF assms] calm_cached_fragment less smaller
    by (subst fragment_body_cases) (auto simp: calming split: engine_call.split)
qed

section \<open>Whole templates\<close>

lemma calm_render_output [calming]: "calm_engine en \<Longrightarrow> calm (render_output en info)"
  unfolding render_output_def by (intro calming calm_fragment_body)

lemma calm_branch_condition [calming]: "calm (branch_condition info)"
  unfolding branch_condition_def by (intro calming)

lemma calm_lists:
  assumes "\<And>n. n \<in> set nodes \<Longrightarrow> calm (render_haml_node en n) \<and> calm (render_children en (haml_children n))"
  shows "calm (render_children en nodes) \<and> (\<forall>taken. calm (render_chain en taken nodes))"
  using assms
proof (induction nodes)
  case Nil
  show ?case unfolding render_children.simps render_chain.simps by (simp add: calming)
next
  case (Cons n nodes)
  obtain info below where n: "n = Haml_Node info below" by (cases n)
  have tail: "calm (render_children en nodes)" "calm (render_chain en taken nodes)" for taken
    using Cons by simp_all
  have node: "calm (render_haml_node en n)" "calm (render_children en below)"
    using Cons.prems [of n] n by simp_all
  have chain: "calm (render_chain en taken (n # nodes))" for taken
    unfolding n render_chain.simps by (intro calming tail node(2))
  moreover have "calm (render_children en (n # nodes))"
    unfolding render_children.simps by (intro calming chain tail(1) node(1))
  ultimately show ?case by simp
qed

lemma calm_node:
  assumes "calm_engine en"
  shows "calm (render_haml_node en node) \<and> calm (render_children en (haml_children node))"
proof (induction node)
  case (Haml_Node info nodes)
  then have nodes: "calm (render_children en nodes)"
    using calm_lists [of nodes en] by simp
  then have "calm (render_haml_node en (Haml_Node info nodes))"
    unfolding render_haml_node.simps
    by (cases "hi_kind info") (simp_all only: haml_kind.case, (intro calming assms nodes)+)
  with nodes show ?case by simp
qed

lemma calm_template: "calm (render_template n opts t)"
proof (induction n arbitrary: t)
  case 0
  have "calm_engine \<lparr>en_options = opts, en_template = ht_name t, en_deeper = None\<rparr>"
    by (simp add: calm_engine_def)
  then show ?case using calm_node by simp
next
  case (Suc n)
  then have "calm_engine \<lparr>en_options = opts, en_template = ht_name t, en_deeper = Some (render_template n opts)\<rparr>"
    by (simp add: calm_engine_def)
  then show ?case using calm_node by simp
qed

text \<open>
  C8. A rendering leaves the page it was given as it was, whatever comes of it, a page or an error:
  the values, the locals and the functions of the context are untouched and as many recordings are
  open. The cache keeps every fragment and every list of reads it had, under the same keys, so
  what was handed out stays good for the whole build.
\<close>

theorem rendering_keeps_page:
  assumes "render_haml opts t st = (outcome, st')"
  shows "stores (rs_context st') = stores (rs_context st) \<and>
    length (vc_recordings (rs_context st')) = length (vc_recordings (rs_context st)) \<and>
    map_of (fc_entries (rs_cache st)) \<subseteq>\<^sub>m map_of (fc_entries (rs_cache st')) \<and>
    map_of (fc_read_lists (rs_cache st)) \<subseteq>\<^sub>m map_of (fc_read_lists (rs_cache st'))"
proof -
  have "calm (render_haml opts t)"
    unfolding render_haml_def by (rule calm_template)
  then show ?thesis
    using assms unfolding calm_def same_stores_def cache_grows_def stores_def by (metis snd_conv)
qed

text \<open>Samples: a template from its source, partials by name, and a page with a title.\<close>

definition line_end :: string where "line_end = [CHR 0x0A]"

definition compiled :: "string \<Rightarrow> string \<Rightarrow> haml_template" where
  "compiled source file =
     (case compile_template source file of
        Inr t \<Rightarrow> t
      | Inl e \<Rightarrow> \<lparr>ht_source = source, ht_name = file, ht_root = Haml_Node (node_at Root_Node 1) []\<rparr>)"

definition sample_options :: "(string \<times> string) list \<Rightarrow> string \<Rightarrow> haml_options" where
  "sample_options partials page_body =
     \<lparr>ro_partial = Some (\<lambda>asked. map_option (\<lambda>source. compiled source asked) (map_of partials asked)),
      ro_caching = True, ro_body = page_body, ro_address = (\<lambda>_. ''7f'')\<rparr>"

definition titled :: "string \<Rightarrow> view_context" where
  "titled title = vc_set ''title'' (VString title) empty_context"

theorem rendering_keeps_page_witness:
  "fst (render_haml (sample_options [] []) (compiled ''%p= title'' ''page'') \<lparr>rs_context = titled ''One'', rs_cache = empty_cache\<rparr>) =
     Rendered (''<p>One</p>'' @ line_end) \<and>
   stores (rs_context (snd (render_haml (sample_options [] []) (compiled ''%p= title'' ''page'')
     \<lparr>rs_context = titled ''One'', rs_cache = empty_cache\<rparr>))) = stores (titled ''One'')"
proof
  show "fst (render_haml (sample_options [] []) (compiled ''%p= title'' ''page'') \<lparr>rs_context = titled ''One'', rs_cache = empty_cache\<rparr>) =
      Rendered (''<p>One</p>'' @ line_end)"
    by code_simp
  show "stores (rs_context (snd (render_haml (sample_options [] []) (compiled ''%p= title'' ''page'')
      \<lparr>rs_context = titled ''One'', rs_cache = empty_cache\<rparr>))) = stores (titled ''One'')"
    using rendering_keeps_page [OF surjective_pairing [of "render_haml (sample_options [] []) (compiled ''%p= title'' ''page'')
      \<lparr>rs_context = titled ''One'', rs_cache = empty_cache\<rparr>"]] by simp
qed

section \<open>Compiled templates do not go wrong\<close>

definition safe :: "(render_state \<Rightarrow> 'a rendering) \<Rightarrow> bool" where
  "safe m \<longleftrightarrow> (\<forall>st. fst (m st) \<noteq> Exceeded \<and> fst (m st) \<noteq> Null_Dereference)"

named_theorems safety

lemma safe_unit [safety]: "safe (\<lambda>st. (Rendered x, st))" "safe (render_error message line column)"
  by (simp_all add: safe_def render_error_def)

lemma safe_if [safety]: "safe m \<Longrightarrow> safe m' \<Longrightarrow> safe (\<lambda>st. if b then m st else m' st)"
  by (cases b) simp_all

lemma safe_option [safety]:
  "safe m \<Longrightarrow> (\<And>x. safe (k x)) \<Longrightarrow> safe (\<lambda>st. case found of None \<Rightarrow> m st | Some x \<Rightarrow> k x st)"
  by (cases found) simp_all

lemma safe_bind [safety]:
  assumes "safe m" and "\<And>v. safe (k v)"
  shows "safe (\<lambda>st. bind_render (m st) k)"
  unfolding safe_def
proof
  fix st
  show "fst (bind_render (m st) k) \<noteq> Exceeded \<and> fst (bind_render (m st) k) \<noteq> Null_Dereference"
    using assms unfolding safe_def by (cases "m st"; cases "fst (m st)") (auto dest: spec [of _ st])
qed

definition shallow :: "node \<Rightarrow> bool" where
  "shallow node \<longleftrightarrow> tree_height node \<le> max_expression_depth"

lemma shallow_64: "tree_height node \<le> 64 \<Longrightarrow> shallow node"
  by (simp add: shallow_def max_expression_depth_def)

lemma safe_evaluated: "shallow node \<Longrightarrow> safe (evaluated node)"
proof -
  assume "shallow node"
  then have "fst (evaluate max_expression_depth node c) \<noteq> Too_Deep" for c
    unfolding shallow_def by (rule evaluate_not_deep)
  moreover have "rendered_of r \<noteq> Null_Dereference" "rendered_of r = Exceeded \<Longrightarrow> r = Too_Deep" for r :: "jvalue eval"
    by (cases r; simp)+
  ultimately show "safe (evaluated node)"
    by (auto simp: safe_def evaluated_def split: prod.split) (metis fst_conv)
qed

lemma safe_interpolate: "list_all segment_ok parts \<Longrightarrow> safe (interpolate parts escape_holes)"
proof (induction parts)
  case Nil
  show ?case unfolding interpolate.simps by (rule safety)
next
  case (Cons part parts)
  then show ?case
    by (cases part) (simp_all add: safety safe_evaluated shallow_64)
qed

lemma safe_filter_body: "list_all haml_ok nodes \<Longrightarrow> safe (filter_body nodes)"
proof (induction nodes)
  case (Cons n nodes)
  obtain info below where n: "n = Haml_Node info below" by (cases n)
  then have "list_all segment_ok (hi_text info)"
    using Cons.prems by (simp add: info_ok_def)
  then show ?case
    using Cons n unfolding filter_body.simps by (intro safety safe_interpolate) simp_all
qed (simp add: safe_def)

lemma safe_collect_names: "list_all attribute_ok attributes \<Longrightarrow> safe (collect_names attributes names)"
proof (induction attributes arbitrary: names)
  case Nil
  then show ?case by (cases names) (simp add: safety)
next
  case (Cons a attributes)
  then have "safe (interpolate (ha_value a) False)"
    by (intro safe_interpolate) (simp add: attribute_ok_def)
  then show ?case using Cons by (cases names) (simp add: safety)
qed

lemma safe_value_attribute: "attribute_ok attribute \<Longrightarrow> safe (value_attribute attribute written)"
proof (cases "\<exists>hole. ha_value attribute = [Hole hole]")
  case True
  moreover assume "attribute_ok attribute"
  ultimately obtain hole where "ha_value attribute = [Hole hole]" "safe (evaluated hole)"
    by (auto simp: attribute_ok_def safe_evaluated shallow_64)
  then show ?thesis
    unfolding value_attribute_def by (simp only: list.case segment.case) (intro safety)
next
  case False
  then have "value_attribute attribute written = (\<lambda>st. (Rendered (quoted_attribute (ha_name attribute) written), st))"
    by (auto simp: value_attribute_def fun_eq_iff split: list.splits segment.splits)
  then show ?thesis by (simp add: safety)
qed

lemma safe_write_attributes: "list_all attribute_ok attributes \<Longrightarrow> safe (write_attributes attributes)"
proof (induction attributes)
  case (Cons a attributes)
  then have "safe (interpolate (ha_value a) False)" "\<And>w. safe (value_attribute a w)"
    by (simp_all add: safe_value_attribute attribute_ok_def safe_interpolate)
  then show ?case using Cons by (simp add: safety)
qed (simp add: safe_def)

lemma safe_open_tag: "info_ok info \<Longrightarrow> safe (open_tag info)"
  unfolding open_tag_def
  by (intro safety) (auto simp: info_ok_def safe_collect_names split: prod.split intro!: safety safe_write_attributes)

lemma safe_with_locals: "safe (\<lambda>st. with_locals (saved st) (m st)) \<longleftrightarrow> safe m"
  by (simp add: safe_def with_locals_def case_prod_beta)

lemma safe_for_items: "safe body \<Longrightarrow> safe (for_items enter body xs)"
proof (induction xs)
  case (Cons x xs)
  then have "safe (\<lambda>st. body (change_context (enter x) st))"
    by (simp add: safe_def)
  with Cons show ?case unfolding for_items.simps by (intro safety) simp_all
qed (simp add: safe_def)

lemma safe_named:
  "named_argument name arguments = Some node \<Longrightarrow> list_all shallow arguments \<Longrightarrow> shallow node"
  by (induction arguments) (auto simp: shallow_def split: node.splits if_splits)

definition safe_engine :: "engine \<Rightarrow> bool" where
  "safe_engine en \<longleftrightarrow> (\<forall>inner find_partial name t. en_deeper en = Some inner \<longrightarrow>
     ro_partial (en_options en) = Some find_partial \<longrightarrow> find_partial name = Some t \<longrightarrow> safe (inner t))"

lemma safe_evaluated_argument: "list_all shallow arguments \<Longrightarrow> safe (evaluated_argument name arguments)"
  unfolding evaluated_argument_def
  by (cases "named_argument name arguments") (auto intro!: safety safe_evaluated safe_named)

lemma safe_partial_body: "safe run \<Longrightarrow> safe (render_partial_body run locals collection alias)"
proof -
  assume run: "safe run"
  then have "safe (for_items (set_local (alias_name alias)) run xs)" for xs
    by (rule safe_for_items)
  with run show ?thesis
    unfolding safe_def render_partial_body_def with_locals_def Let_def
    by (auto simp: case_prod_beta split: option.split)
qed

lemma safe_partial_call:
  assumes "safe_engine en" and arguments: "list_all shallow arguments"
  shows "safe (render_partial_call en info arguments)"
proof (cases "named_argument ''partial'' arguments")
  case (Some partial_name)
  note some = this
  show ?thesis
  proof (cases "ro_partial (en_options en)")
    case (Some find_partial)
    note partials = this
    have found: "safe (\<lambda>st1. case find_partial target of
          None \<Rightarrow> render_error a line column st1
        | Some partial \<Rightarrow>
            (case en_deeper en of
               None \<Rightarrow> render_error b line column st1
             | Some inner \<Rightarrow>
                 bind_render (evaluated_argument ''locals'' arguments st1) (\<lambda>locals st2.
                 bind_render (evaluated_argument ''collection'' arguments st2) (\<lambda>collection st3.
                 bind_render (evaluated_argument ''as'' arguments st3) (\<lambda>alias st4.
                   render_partial_body (inner partial) locals collection alias st4)))))" for target a b line column
    proof (cases "find_partial target")
      case (Some partial)
      have "safe (inner partial)" if "en_deeper en = Some inner" for inner
        using assms(1) that partials Some by (auto simp: safe_engine_def)
      then show ?thesis
        unfolding Some option.case
        by (cases "en_deeper en") (auto intro!: safety safe_evaluated_argument arguments safe_partial_body)
    qed (simp add: safety)
    have "safe (evaluated partial_name)"
      using safe_named [OF some arguments] by (rule safe_evaluated)
    then show ?thesis
      unfolding render_partial_call_def some Some Let_def option.case prod.case
      by (rule safe_bind) (rule found)
  next
    case None
    show ?thesis unfolding render_partial_call_def some None option.case prod.case by (intro safety)
  qed
next
  case None
  show ?thesis unfolding render_partial_call_def None option.case prod.case by (intro safety)
qed

lemma safe_cached_fragment:
  assumes "safe run"
  shows "safe (cached_fragment en body run)"
proof -
  have "fst (recorded_fragment prefix here run st) \<noteq> Exceeded \<and>
      fst (recorded_fragment prefix here run st) \<noteq> Null_Dereference" for prefix here st
    using assms
    by (cases "fst (run (change_context begin_recording st))")
      (auto simp: recorded_fragment_def Let_def kept_fragment_def safe_def case_prod_beta split: option.split prod.split
        dest: spec [of _ "change_context begin_recording st"])
  then show ?thesis
    using assms by (auto simp: safe_def cached_fragment_def Let_def split: option.split prod.split)
qed

lemma call_arguments_shallow:
  assumes "shallow body" and "engine_call_of body = Render_Call info arguments \<or> engine_call_of body = Fragment_Call info arguments"
  shows "list_all shallow arguments"
  unfolding list_all_iff
proof
  fix a assume a: "a \<in> set arguments"
  obtain i name where "body = Call info (Name i name) arguments"
    using assms(2) by (cases body rule: engine_call_of.cases) (auto split: if_splits)
  moreover have "tree_height a \<le> Max (insert (tree_height (Name i name)) (tree_height ` set arguments))"
    using a by (intro Max_ge) auto
  ultimately show "shallow a"
    using assms(1) by (simp add: shallow_def)
qed

lemma fragment_block_shallow: "shallow node \<Longrightarrow> shallow (fragment_block node)"
  by (cases node) (auto simp: shallow_def)

lemma safe_fragment_body:
  assumes "safe_engine en"
  shows "shallow body \<Longrightarrow> safe (render_fragment_body en body)"
proof (induction "size body" arbitrary: body rule: less_induct)
  case less
  show ?case
  proof (cases "engine_call_of body")
    case (Render_Call info arguments)
    then show ?thesis
      using safe_partial_call [OF assms] call_arguments_shallow [OF less.prems]
      by (subst fragment_body_cases) simp
  next
    case (Fragment_Call info arguments)
    show ?thesis
    proof (cases "length arguments < 2")
      case False
      then have "size (fragment_block (last arguments)) < size body"
        using engine_call_size [OF Fragment_Call] by force
      moreover have "shallow (fragment_block (last arguments))"
      proof (rule fragment_block_shallow)
        have "list_all shallow arguments"
          using call_arguments_shallow [OF less.prems] Fragment_Call by blast
        moreover have "arguments \<noteq> []" using False by auto
        ultimately show "shallow (last arguments)"
          by (simp add: list_all_iff)
      qed
      ultimately show ?thesis
        using less.hyps safe_cached_fragment False Fragment_Call by (subst fragment_body_cases) simp
    next
      case True
      then show ?thesis using Fragment_Call by (subst fragment_body_cases) (simp add: safety)
    qed
  next
    case No_Engine_Call
    then show ?thesis
      using safe_evaluated [OF less.prems] by (subst fragment_body_cases) (simp add: safety)
  qed
qed

lemma has_value_Some: "has_value info \<Longrightarrow> \<exists>v. hi_value info = Some v \<and> shallow v"
  by (auto simp: has_value_def shallow_64 split: option.splits)

lemma safe_render_output:
  assumes "safe_engine en" and "has_value info"
  shows "safe (render_output en info)"
proof -
  obtain v where v: "hi_value info = Some v" "shallow v"
    using has_value_Some [OF assms(2)] by blast
  then show ?thesis
    unfolding render_output_def v(1) option.case using assms(1)
    by (intro safety safe_fragment_body safe_evaluated) simp_all
qed

lemma safe_evaluated_value: "has_value info \<Longrightarrow> safe (evaluated_value (hi_value info))"
  using has_value_Some safe_evaluated by (fastforce simp: evaluated_value_def safe_def)

lemma safe_render_loop:
  assumes "safe body" and "hi_control info = For_Control \<Longrightarrow> has_value info"
  shows "safe (render_loop body info)"
proof (cases "hi_control info = For_Control")
  case True
  have "safe (\<lambda>st. let (saved, st2) = taken_locals st in
      with_locals saved (for_items (\<lambda>item c. set_local x item (restore_locals saved c)) body xs st2))" for x xs
    using safe_for_items [OF assms(1)] by (simp add: safe_def with_locals_def taken_locals_stores Let_def case_prod_beta)
  then show ?thesis
    unfolding render_loop_def using assms(2) True by (intro safety safe_evaluated_value) simp_all
next
  case False
  then show ?thesis unfolding render_loop_def by (simp add: safety)
qed

lemma safe_render_filter: "list_all haml_ok nodes \<Longrightarrow> safe (render_filter info nodes)"
  unfolding render_filter_def by (intro safety safe_filter_body)

lemma safe_branch_condition:
  "info_ok info \<Longrightarrow> hi_kind info = Control_Node \<Longrightarrow> safe (branch_condition info)"
  unfolding branch_condition_def
  by (cases "hi_control info = Else_Control") (auto simp: info_ok_def intro!: safety safe_evaluated_value)

lemma safe_lists:
  assumes "\<And>n. n \<in> set nodes \<Longrightarrow> safe (render_haml_node en n) \<and> safe (render_children en (haml_children n))"
    and "list_all haml_ok nodes"
  shows "safe (render_children en nodes) \<and>
    (\<forall>taken. nodes \<noteq> [] \<longrightarrow> hi_kind (haml_info_of (hd nodes)) = Control_Node \<longrightarrow> safe (render_chain en taken nodes))"
  using assms
proof (induction nodes)
  case Nil
  show ?case unfolding render_children.simps by (simp add: safe_def render_children.simps)
next
  case (Cons n nodes)
  obtain info below where n: "n = Haml_Node info below" by (cases n)
  have tail: "safe (render_children en nodes)"
    "nodes \<noteq> [] \<Longrightarrow> continues_chain (haml_info_of (hd nodes)) \<Longrightarrow> safe (render_chain en taken nodes)" for taken
    using Cons by (simp_all add: continues_chain_def)
  have node: "safe (render_haml_node en n)" "safe (render_children en below)" "info_ok info"
    using Cons.prems n by fastforce+
  have rest: "safe (\<lambda>st. if nodes \<noteq> [] \<and> continues_chain (haml_info_of (hd nodes)) then render_chain en taken nodes st
      else render_children en nodes st)" for taken
    using tail by (cases "nodes \<noteq> [] \<and> continues_chain (haml_info_of (hd nodes))") auto
  have chain: "safe (render_chain en taken (n # nodes))" if "hi_kind info = Control_Node" for taken
    unfolding n render_chain.simps
    by (intro safety rest node(2) safe_branch_condition that node(3))
  moreover have "safe (render_children en (n # nodes))"
  proof (cases "heads_chain info")
    case True
    then show ?thesis
      using chain [of False] n unfolding render_children.simps by (simp add: heads_chain_def)
  next
    case False
    have "safe (\<lambda>st. bind_render (render_haml_node en n st) (\<lambda>out st1.
        bind_render (render_children en nodes st1) (\<lambda>rest st2. (Rendered (out @ rest), st2))))"
      by (intro safety node(1) tail(1))
    with False show ?thesis
      using n unfolding render_children.simps by simp
  qed
  ultimately show ?case by (simp add: n)
qed

lemma safe_node:
  assumes "safe_engine en"
  shows "haml_ok node \<Longrightarrow> safe (render_haml_node en node) \<and> safe (render_children en (haml_children node))"
proof (induction node)
  case (Haml_Node info nodes)
  then have nodes: "safe (render_children en nodes)"
    using safe_lists [of nodes en] by (simp add: list_all_iff)
  have ok: "info_ok info" "list_all haml_ok nodes"
    using Haml_Node.prems by simp_all
  then have "safe (render_haml_node en (Haml_Node info nodes))"
    unfolding render_haml_node.simps
    by (cases "hi_kind info") (simp_all only: haml_kind.case,
      (intro safety safe_open_tag nodes safe_render_output assms safe_render_filter safe_render_loop safe_interpolate;
        simp add: info_ok_def)+)
  with nodes show ?case by simp
qed

lemma safe_template:
  assumes partials: "\<And>find_partial name t. ro_partial opts = Some find_partial \<Longrightarrow> find_partial name = Some t \<Longrightarrow>
      haml_ok (ht_root t)"
  shows "haml_ok (ht_root t) \<Longrightarrow> safe (render_template n opts t)"
proof (induction n arbitrary: t)
  case 0
  have "safe_engine \<lparr>en_options = opts, en_template = ht_name t, en_deeper = None\<rparr>"
    by (simp add: safe_engine_def)
  then show ?case using safe_node [OF _ 0] by simp
next
  case (Suc n)
  have "safe_engine \<lparr>en_options = opts, en_template = ht_name t, en_deeper = Some (render_template n opts)\<rparr>"
    using Suc.IH partials by (auto simp: safe_engine_def)
  then show ?case using safe_node [OF _ Suc.prems] by simp
qed

text \<open>
  C7. Templates that compile do not go wrong. When a template and every partial it can ask for are what
  the parser made of some source, rendering never dereferences the expression of a node that has
  none and never gives the evaluator an expression deeper than its 64 levels: it is a page, an
  error, or an integer that left 64 bits.
\<close>

theorem compiled_templates_safe:
  assumes "compile_template source name = Inr t"
    and "\<forall>find_partial. ro_partial opts = Some find_partial \<longrightarrow>
      (\<forall>asked p. find_partial asked = Some p \<longrightarrow> (\<exists>text file. compile_template text file = Inr p))"
  shows "(\<exists>out. fst (render_haml opts t st) = Rendered out) \<or> (\<exists>e. fst (render_haml opts t st) = Refused e) \<or>
    fst (render_haml opts t st) = Overflow"
proof -
  have "haml_ok (ht_root t)"
    using compile_ok [OF assms(1)] .
  then have "safe (render_haml opts t)"
    unfolding render_haml_def using assms(2) compile_ok by (intro safe_template) blast+
  then show ?thesis
    by (cases "fst (render_haml opts t st)") (auto simp: safe_def dest: spec [of _ st])
qed

lemma compiled_compiles:
  "(case compile_template source file of Inl e \<Rightarrow> False | Inr t \<Rightarrow> True) \<Longrightarrow>
   compile_template source file = Inr (compiled source file)"
  by (auto simp: compiled_def split: sum.splits)

theorem compiled_templates_safe_witness:
  "fst (render_haml (sample_options [(''card'', ''%p= title'')] []) (compiled (''- if title'' @ line_end @ ''  != render(:partial<card>)'') ''page'')
     \<lparr>rs_context = titled ''One'', rs_cache = empty_cache\<rparr>) \<notin> {Exceeded, Null_Dereference}"
proof -
  let ?source = "''- if title'' @ line_end @ ''  != render(:partial<card>)''" and ?opts = "sample_options [(''card'', ''%p= title'')] []"
  have page: "compile_template ?source ''page'' = Inr (compiled ?source ''page'')"
    by (rule compiled_compiles) code_simp
  have "compile_template ''%p= title'' ''card'' = Inr (compiled ''%p= title'' ''card'')"
    by (rule compiled_compiles) code_simp
  then have "\<forall>find_partial. ro_partial ?opts = Some find_partial \<longrightarrow>
      (\<forall>asked p. find_partial asked = Some p \<longrightarrow> (\<exists>written file. compile_template written file = Inr p))"
    by (auto simp: sample_options_def split: if_splits)
  from compiled_templates_safe [OF page this, of "\<lparr>rs_context = titled ''One'', rs_cache = empty_cache\<rparr>"] show ?thesis
    by auto
qed

end
