(* ===== verification/Fragments.thy ===== *)
theory Fragments
  imports RenderProps
begin

text \<open>
  What a rendering depends on. All it does to the context is a sequence of events, and on two pages
  with the same names and locals the events and the outcome are the same until a value of the page
  is read that differs. This holds of every template that has no cached fragment of its own.
\<close>

section \<open>Events\<close>

datatype context_event =
  Read_Event string jvalue bool | Bind_Event string jvalue | Swap_Event "(string \<times> jvalue) list"

fun play_event :: "context_event \<Rightarrow> view_context \<Rightarrow> view_context" where
  "play_event (Read_Event n v from_local) c = note_reads [(n, v)] c"
| "play_event (Bind_Event n v) c = set_local n v c"
| "play_event (Swap_Event locals) c = restore_locals locals c"

abbreviation play :: "context_event list \<Rightarrow> view_context \<Rightarrow> view_context" where
  "play \<equiv> fold play_event"

fun true_event :: "context_event \<Rightarrow> view_context \<Rightarrow> bool" where
  "true_event (Read_Event n v from_local) c \<longleftrightarrow>
     (if from_local then map_of (vc_locals c) n = Some v
      else map_of (vc_locals c) n = None \<and> map_of (vc_values c) n = Some v)"
| "true_event _ c \<longleftrightarrow> True"

fun true_events :: "context_event list \<Rightarrow> view_context \<Rightarrow> bool" where
  "true_events [] c \<longleftrightarrow> True"
| "true_events (e # es) c \<longleftrightarrow> true_event e c \<and> true_events es (play_event e c)"

lemma true_events_append: "true_events (es @ es') c \<longleftrightarrow> true_events es c \<and> true_events es' (play es c)"
  by (induction es arbitrary: c) auto

definition same_page :: "render_state \<Rightarrow> render_state \<Rightarrow> bool" where
  "same_page st st' \<longleftrightarrow> vc_functions (rs_context st') = vc_functions (rs_context st) \<and>
     map fst (vc_values (rs_context st')) = map fst (vc_values (rs_context st)) \<and>
     vc_locals (rs_context st') = vc_locals (rs_context st)"

definition part_at_value :: "context_event list \<Rightarrow> context_event list \<Rightarrow> bool" where
  "part_at_value es es' \<longleftrightarrow> (\<exists>p n v w q r.
     es = p @ Read_Event n v False # q \<and> es' = p @ Read_Event n w False # r \<and> v \<noteq> w)"

definition follows :: "(render_state \<Rightarrow> context_event list) \<Rightarrow> (render_state \<Rightarrow> 'b \<times> render_state) \<Rightarrow> bool" where
  "follows log m \<longleftrightarrow> (\<forall>st. snd (m st) = change_context (play (log st)) st \<and> true_events (log st) (rs_context st) \<and>
     (\<forall>st'. same_page st st' \<longrightarrow> fst (m st') = fst (m st) \<and> log st' = log st \<or> part_at_value (log st) (log st')))"

definition followed :: "(render_state \<Rightarrow> 'b \<times> render_state) \<Rightarrow> bool" where
  "followed m \<longleftrightarrow> (\<exists>log. follows log m)"

lemma change_context_twice [simp]: "change_context g (change_context f st) = change_context (g \<circ> f) st"
  by (simp add: change_context_def)

lemma rs_context_change [simp]: "rs_context (change_context f st) = f (rs_context st)"
    "rs_cache (change_context f st) = rs_cache st"
  by (simp_all add: change_context_def)

lemma part_at_value_append: "part_at_value xs ys \<Longrightarrow> part_at_value (xs @ xs') (ys @ ys')"
  "part_at_value xs ys \<Longrightarrow> part_at_value (zs @ xs) (zs @ ys)"
  unfolding part_at_value_def by (metis append_Cons append_assoc, metis append_assoc)

lemma play_event_page:
  "vc_functions (play_event e c) = vc_functions c \<and> vc_values (play_event e c) = vc_values c \<and>
   (vc_locals d = vc_locals c \<longrightarrow> vc_locals (play_event e d) = vc_locals (play_event e c))"
proof (cases e)
  case (Read_Event n v from_local)
  then show ?thesis by simp
next
  case (Bind_Event n v)
  then show ?thesis by (simp add: set_local_def note_bound_def Let_def)
next
  case (Swap_Event locals)
  then show ?thesis by (simp add: restore_locals_def prune_bound_def)
qed

lemma play_page:
  "vc_functions (play es c) = vc_functions c \<and> vc_values (play es c) = vc_values c \<and>
   (vc_locals d = vc_locals c \<longrightarrow> vc_locals (play es d) = vc_locals (play es c))"
proof (induction es arbitrary: c d)
  case (Cons e es)
  show ?case
    using Cons.IH [of "play_event e c" "play_event e d"] play_event_page [of e c d] by simp
qed simp

lemma same_page_play: "same_page st st' \<Longrightarrow> same_page (change_context (play es) st) (change_context (play es) st')"
  using play_page [of es "rs_context st" "rs_context st'"] play_page [of es "rs_context st'" "rs_context st'"]
  by (simp add: same_page_def)

text \<open>One computation after another.\<close>

lemma followed_then:
  assumes m: "followed m" and k: "\<And>x. followed (k x)"
  shows "followed (\<lambda>st. k (fst (m st)) (snd (m st)))"
proof -
  obtain l where l: "follows l m" using m by (auto simp: followed_def)
  obtain l' where l': "\<And>x. follows (l' x) (k x)" using k unfolding followed_def by metis
  let ?log = "\<lambda>st. l st @ l' (fst (m st)) (snd (m st))"
  have step: "snd (m st) = change_context (play (l st)) st" for st
    using l by (simp add: follows_def)
  have "follows ?log (\<lambda>st. k (fst (m st)) (snd (m st)))"
    unfolding follows_def
  proof (intro allI conjI impI)
    fix st
    show "snd (k (fst (m st)) (snd (m st))) = change_context (play (?log st)) st"
      using l' [of "fst (m st)"] by (simp add: follows_def step)
    show "true_events (?log st) (rs_context st)"
      using l l' [of "fst (m st)"] unfolding follows_def by (metis rs_context_change step true_events_append)
    fix st' assume page: "same_page st st'"
    show "fst (k (fst (m st')) (snd (m st'))) = fst (k (fst (m st)) (snd (m st))) \<and> ?log st' = ?log st \<or>
        part_at_value (?log st) (?log st')"
    proof (cases "part_at_value (l st) (l st')")
      case True
      then show ?thesis by (simp add: part_at_value_append(1))
    next
      case False
      then have same: "fst (m st') = fst (m st)" "l st' = l st"
        using l page unfolding follows_def by blast+
      then have "same_page (snd (m st)) (snd (m st'))"
        unfolding step using same_page_play [OF page] by simp
      then have "fst (k (fst (m st)) (snd (m st'))) = fst (k (fst (m st)) (snd (m st))) \<and>
          l' (fst (m st)) (snd (m st')) = l' (fst (m st)) (snd (m st)) \<or>
          part_at_value (l' (fst (m st)) (snd (m st))) (l' (fst (m st)) (snd (m st')))"
        using l' [of "fst (m st)"] unfolding follows_def by blast
      then show ?thesis
        using same part_at_value_append(2) by auto
    qed
  qed
  then show ?thesis by (auto simp: followed_def)
qed


named_theorems following

lemma followed_pure: "(\<And>st. snd (m st) = st) \<Longrightarrow> (\<And>st st'. same_page st st' \<Longrightarrow> fst (m st') = fst (m st)) \<Longrightarrow> followed m"
  unfolding followed_def follows_def by (intro exI [of _ "\<lambda>st. []"]) (simp add: change_context_def)

lemma followed_unit [following]: "followed (\<lambda>st. (x, st))" "followed (render_error message line column)"
  by (rule followed_pure; simp add: render_error_def)+

lemma followed_if [following]: "followed m \<Longrightarrow> followed m' \<Longrightarrow> followed (\<lambda>st. if b then m st else m' st)"
  by (cases b) simp_all

lemma followed_option [following]:
  "followed m \<Longrightarrow> (\<And>x. followed (k x)) \<Longrightarrow> followed (\<lambda>st. case found of None \<Rightarrow> m st | Some x \<Rightarrow> k x st)"
  by (cases found) simp_all

lemma bind_render_then:
  "bind_render m k = (case fst m of Rendered v \<Rightarrow> k v | Refused e \<Rightarrow> (\<lambda>st. (Refused e, st))
     | Overflow \<Rightarrow> (\<lambda>st. (Overflow, st)) | Exceeded \<Rightarrow> (\<lambda>st. (Exceeded, st))
     | Null_Dereference \<Rightarrow> (\<lambda>st. (Null_Dereference, st))) (snd m)"
  by (cases "(m, k)" rule: bind_render.cases) auto

lemma followed_bind [following]:
  assumes "followed m" and "\<And>v. followed (k v)"
  shows "followed (\<lambda>st. bind_render (m st) k)"
  unfolding bind_render_then
  by (rule followed_then [OF assms(1)]) (auto intro!: following assms(2) split: rendered.split)

text \<open>Steps that change the locals.\<close>

lemma followed_step:
  assumes "\<And>c. true_events es c"
  shows "followed (\<lambda>st. (x, change_context (play es) st))"
  unfolding followed_def follows_def using assms by (intro exI [of _ "\<lambda>st. es"]) simp

lemma followed_after:
  assumes "followed m" and "\<And>c. true_events es c"
  shows "followed (\<lambda>st. m (change_context (play es) st))"
  using followed_then [OF followed_step [OF assms(2), of "()"], of "\<lambda>_. m"] assms(1) by simp

lemma followed_locals:
  assumes "\<And>saved. followed (m saved)"
  shows "followed (\<lambda>st. m (vc_locals (rs_context st)) st)"
proof -
  obtain l where l: "\<And>saved. follows (l saved) (m saved)" using assms unfolding followed_def by metis
  have "follows (\<lambda>st. l (vc_locals (rs_context st)) st) (\<lambda>st. m (vc_locals (rs_context st)) st)"
    unfolding follows_def
  proof (intro allI conjI impI)
    fix st st'
    assume page: "same_page st st'"
    then have "vc_locals (rs_context st') = vc_locals (rs_context st)" by (simp add: same_page_def)
    then show "fst (m (vc_locals (rs_context st')) st') = fst (m (vc_locals (rs_context st)) st) \<and>
        l (vc_locals (rs_context st')) st' = l (vc_locals (rs_context st)) st \<or>
        part_at_value (l (vc_locals (rs_context st)) st) (l (vc_locals (rs_context st')) st')"
      using l page unfolding follows_def by metis
  qed (use l in \<open>simp_all add: follows_def\<close>)
  then show ?thesis by (auto simp: followed_def)
qed

text \<open>Evaluating follows from what the evaluator's own reads say.\<close>

definition event_of_read :: "view_context \<Rightarrow> string \<times> jvalue \<Rightarrow> context_event" where
  "event_of_read c r = Read_Event (fst r) (snd r) (map_of (vc_locals c) (fst r) \<noteq> None)"

lemma play_reads: "play (map (event_of_read c0) reads) c = note_reads reads c"
proof (induction reads arbitrary: c)
  case (Cons read reads)
  then show ?case by (simp add: event_of_read_def)
qed simp

lemma true_reads_events: "true_reads reads c \<Longrightarrow> true_events (map (event_of_read c) reads) c"
proof -
  have "\<forall>(n, v) \<in> set reads. outer c n = Some v \<Longrightarrow>
      vc_locals d = vc_locals c \<Longrightarrow> vc_values d = vc_values c \<Longrightarrow> true_events (map (event_of_read c) reads) d" for d
  proof (induction reads arbitrary: d)
    case (Cons read reads)
    then show ?case by (cases read) (auto simp: event_of_read_def outer_def split: option.splits)
  qed simp
  then show "true_reads reads c \<Longrightarrow> true_events (map (event_of_read c) reads) c"
    by (simp add: true_reads_def)
qed

lemma followed_evaluated [following]: "followed (evaluated node)"
proof -
  obtain log where log: "tracks log (evaluate max_expression_depth node)"
    using tracked_evaluate by (auto simp: tracked_def)
  let ?events = "\<lambda>st. map (event_of_read (rs_context st)) (log (rs_context st))"
  have "follows ?events (evaluated node)"
    unfolding follows_def
  proof (intro allI conjI impI)
    fix st st' :: render_state
    show "snd (evaluated node st) = change_context (play (?events st)) st"
      using log by (simp add: evaluated_def case_prod_beta tracks_def play_reads change_context_def)
    show "true_events (?events st) (rs_context st)"
      using log by (intro true_reads_events) (simp add: tracks_def)
    assume page: "same_page st st'"
    let ?c = "rs_context st" and ?d = "rs_context st'"
    have locals: "vc_locals ?d = vc_locals ?c" and "same_names ?c ?d"
      using page by (simp_all add: same_page_def same_names_def)
    then consider "fst (evaluate max_expression_depth node ?d) = fst (evaluate max_expression_depth node ?c)" "log ?d = log ?c"
      | "part_at_read (log ?c) (log ?d)"
      using log unfolding tracks_def by blast
    then show "fst (evaluated node st') = fst (evaluated node st) \<and> ?events st' = ?events st \<or>
        part_at_value (?events st) (?events st')"
    proof cases
      case 1
      then show ?thesis
        using locals by (simp add: evaluated_def case_prod_beta event_of_read_def)
    next
      case 2
      then obtain p n v w q r where parts: "log ?c = p @ (n, v) # q" "log ?d = p @ (n, w) # r" "v \<noteq> w"
        unfolding part_at_read_def by blast
      moreover have "true_reads (log ?c) ?c" "true_reads (log ?d) ?d"
        using log by (simp_all add: tracks_def)
      ultimately have "outer ?c n = Some v" "outer ?d n = Some w"
        by (auto simp: true_reads_def)
      then have "map_of (vc_locals ?c) n = None"
        using locals parts(3) by (auto simp: outer_def split: option.splits)
      then have "event_of_read ?c (n, v) = Read_Event n v False" "event_of_read ?d (n, w) = Read_Event n w False"
        using locals by (simp_all add: event_of_read_def)
      moreover have "event_of_read ?d = event_of_read ?c"
        using locals by (simp add: event_of_read_def fun_eq_iff)
      ultimately have events: "?events st = map (event_of_read ?c) p @ Read_Event n v False # map (event_of_read ?c) q"
        "?events st' = map (event_of_read ?c) p @ Read_Event n w False # map (event_of_read ?c) r"
        unfolding parts by simp_all
      show ?thesis
        unfolding events part_at_value_def using parts(3) by blast
    qed
  qed
  then show ?thesis by (auto simp: followed_def)
qed


lemma followed_evaluated_value [following]: "followed (evaluated_value v)"
  unfolding evaluated_value_def by (cases v) (simp_all add: following)

section \<open>What is rendered follows\<close>

lemma followed_interpolate [following]: "followed (interpolate parts escape_holes)"
proof (induction parts)
  case Nil
  then show ?case unfolding interpolate.simps by (rule following)
next
  case (Cons part parts)
  then show ?case by (cases part) (simp_all add: following)
qed

lemma followed_filter_body [following]: "followed (filter_body nodes)"
  by (induction nodes) (simp_all add: following)

lemma followed_render_filter [following]: "followed (render_filter info nodes)"
  unfolding render_filter_def by (intro following)

lemma followed_collect_names [following]: "followed (collect_names attributes names)"
proof (induction attributes arbitrary: names)
  case Nil
  then show ?case by (cases names) (simp add: following)
next
  case (Cons a attributes)
  then show ?case by (cases names) (simp add: following)
qed

lemma followed_value_attribute [following]: "followed (value_attribute attribute written)"
proof (cases "\<exists>hole. ha_value attribute = [Hole hole]")
  case True
  then obtain hole where "ha_value attribute = [Hole hole]" by blast
  then show ?thesis
    unfolding value_attribute_def by (simp only: list.case segment.case) (intro following)
next
  case False
  then have "value_attribute attribute written = (\<lambda>st. (Rendered (quoted_attribute (ha_name attribute) written), st))"
    by (auto simp: value_attribute_def fun_eq_iff split: list.splits segment.splits)
  then show ?thesis by (simp add: following)
qed

lemma followed_write_attributes [following]: "followed (write_attributes attributes)"
  by (induction attributes) (simp_all add: following)

lemma followed_open_tag [following]: "followed (open_tag info)"
  unfolding open_tag_def by (intro following) (auto split: prod.split intro!: following)

lemma true_bindings [simp]: "true_events (map (\<lambda>(n, m). Bind_Event n m) xs) c"
  by (induction xs arbitrary: c) auto

lemma play_changes [simp]: "play_event (Swap_Event l) = restore_locals l" "play_event (Bind_Event n v) = set_local n v"
  by (simp_all add: fun_eq_iff)

lemma bind_members_events: "bind_members v = play (map (\<lambda>(n, m). Bind_Event n m) (members v))"
  by (simp add: bind_members_def fun_eq_iff fold_map o_def case_prod_unfold)

lemma followed_with_locals:
  fixes m :: "render_state \<Rightarrow> 'b rendering"
  assumes "followed m"
  shows "followed (\<lambda>st. with_locals saved (m st))"
proof -
  have "followed (\<lambda>st. (x, change_context (restore_locals saved) st))" for x :: "'b rendered"
    using followed_step [of "[Swap_Event saved]" x] by simp
  then show ?thesis
    using followed_then [OF assms, of "\<lambda>x st. (x, change_context (restore_locals saved) st)"]
    by (simp add: with_locals_def case_prod_beta)
qed

lemma followed_for_items:
  assumes body: "followed body" and enter: "\<And>item. \<exists>es. enter item = play es \<and> (\<forall>c. true_events es c)"
  shows "followed (for_items enter body xs)"
proof (induction xs)
  case (Cons x xs)
  obtain es where "enter x = play es" "\<And>c. true_events es c" using enter by blast
  then have "followed (\<lambda>st. body (change_context (enter x) st))"
    using followed_after [OF body] by simp
  then show ?case
    unfolding for_items.simps using Cons.IH by (intro following)
qed (simp add: following)

lemma followed_loop [following]:
  assumes "followed body"
  shows "followed (render_loop body info)"
proof -
  have "followed (\<lambda>st. let (saved, st2) = taken_locals st in
      with_locals saved (for_items (\<lambda>item c. set_local x item (restore_locals saved c)) body xs st2))" for x xs
    unfolding taken_locals_stores Let_def prod.case
  proof (rule followed_locals)
    fix saved
    have "\<exists>es. (\<lambda>c. set_local x item (restore_locals saved c)) = play es \<and> (\<forall>c. true_events es c)" for item
      by (intro exI [of _ "[Swap_Event saved, Bind_Event x item]"]) (simp add: fun_eq_iff)
    then have "followed (for_items (\<lambda>item c. set_local x item (restore_locals saved c)) body xs)"
      by (rule followed_for_items [OF assms])
    then show "followed (\<lambda>st. with_locals saved (for_items (\<lambda>item c. set_local x item (restore_locals saved c)) body xs
        (change_context (restore_locals []) st)))"
      using followed_after [of _ "[Swap_Event []]"] by (intro followed_with_locals) simp
  qed
  then show ?thesis unfolding render_loop_def by (intro following)
qed

lemma followed_partial_body [following]:
  assumes "followed run"
  shows "followed (render_partial_body run locals collection alias)"
proof -
  have "\<exists>es. set_local (alias_name alias) item = play es \<and> (\<forall>c. true_events es c)" for item
    by (intro exI [of _ "[Bind_Event (alias_name alias) item]"]) (simp add: fun_eq_iff)
  then have "followed (\<lambda>st. case collection of None \<Rightarrow> run st
      | Some v \<Rightarrow> for_items (set_local (alias_name alias)) run (items v) st)"
    using assms followed_for_items by (intro following) blast+
  then have step: "followed (\<lambda>st. case collection of None \<Rightarrow> run (change_context (play es) st)
      | Some v \<Rightarrow> for_items (set_local (alias_name alias)) run (items v) (change_context (play es) st))"
    if "\<And>c. true_events es c" for es
    using followed_after [OF _ that] by fast
  obtain es where es: "(\<lambda>c. case locals of None \<Rightarrow> restore_locals [] c
      | Some v \<Rightarrow> bind_members v (restore_locals [] c)) = play es" "\<And>c. true_events es c"
  proof (cases locals)
    case None
    then show ?thesis using that [of "[Swap_Event []]"] by (simp add: fun_eq_iff)
  next
    case (Some v)
    then show ?thesis
      using that [of "Swap_Event [] # map (\<lambda>(n, m). Bind_Event n m) (members v)"]
      by (simp add: fun_eq_iff bind_members_events case_prod_beta)
  qed
  have "render_partial_body run locals collection alias =
      (\<lambda>st. with_locals (vc_locals (rs_context st)) (case collection of None \<Rightarrow> run (change_context (play es) st)
        | Some v \<Rightarrow> for_items (set_local (alias_name alias)) run (items v) (change_context (play es) st)))"
    unfolding render_partial_body_def taken_locals_stores Let_def prod.case es(1) [symmetric]
    by (auto simp: fun_eq_iff o_def split: option.split)
  moreover have "followed \<dots>"
    by (rule followed_locals, rule followed_with_locals, rule step [OF es(2)])
  ultimately show ?thesis by simp
qed

lemma followed_evaluated_argument [following]: "followed (evaluated_argument name arguments)"
  unfolding evaluated_argument_def by (intro following)

text \<open>A template is free of fragments when none of its outputs is one.\<close>

fun fragment_free :: "haml_node \<Rightarrow> bool" where
  "fragment_free (Haml_Node info nodes) \<longleftrightarrow> list_all fragment_free nodes \<and>
     (case hi_value info of None \<Rightarrow> True
      | Some v \<Rightarrow> (case engine_call_of v of Fragment_Call i arguments \<Rightarrow> False | _ \<Rightarrow> True))"

definition free_engine :: "engine \<Rightarrow> bool" where
  "free_engine en \<longleftrightarrow> (\<forall>inner find_partial name t. en_deeper en = Some inner \<longrightarrow>
     ro_partial (en_options en) = Some find_partial \<longrightarrow> find_partial name = Some t \<longrightarrow> followed (inner t))"

lemma followed_partial_call:
  assumes "free_engine en"
  shows "followed (render_partial_call en info arguments)"
proof (cases "named_argument ''partial'' arguments")
  case (Some partial_name)
  note some = this
  show ?thesis
  proof (cases "ro_partial (en_options en)")
    case (Some find_partial)
    note partials = this
    have "followed (\<lambda>st1. case find_partial target of
          None \<Rightarrow> render_error a line column st1
        | Some partial \<Rightarrow>
            (case en_deeper en of
               None \<Rightarrow> render_error b line column st1
             | Some inner \<Rightarrow>
                 bind_render (evaluated_argument ''locals'' arguments st1) (\<lambda>locals st2.
                 bind_render (evaluated_argument ''collection'' arguments st2) (\<lambda>collection st3.
                 bind_render (evaluated_argument ''as'' arguments st3) (\<lambda>alias st4.
                   render_partial_body (inner partial) locals collection alias st4)))))" for target a b line column
    proof (cases "find_partial target")
      case (Some partial)
      have "followed (inner partial)" if "en_deeper en = Some inner" for inner
        using assms(1) that partials Some by (auto simp: free_engine_def)
      then show ?thesis
        unfolding Some option.case by (cases "en_deeper en") (auto intro!: following)
    qed (simp add: following)
    then show ?thesis
      unfolding render_partial_call_def some Some Let_def option.case prod.case
      by (intro followed_bind [OF followed_evaluated])
  next
    case None
    show ?thesis unfolding render_partial_call_def some None option.case prod.case by (intro following)
  qed
next
  case None
  show ?thesis unfolding render_partial_call_def None option.case prod.case by (intro following)
qed

lemma followed_fragment_body:
  assumes "free_engine en" and "\<And>i arguments. engine_call_of body \<noteq> Fragment_Call i arguments"
  shows "followed (render_fragment_body en body)"
  using assms followed_partial_call
  by (subst fragment_body_cases) (auto intro!: following split: engine_call.split)

lemma followed_render_output:
  assumes "free_engine en" and "\<And>v i arguments. hi_value info = Some v \<Longrightarrow> engine_call_of v \<noteq> Fragment_Call i arguments"
  shows "followed (render_output en info)"
  unfolding render_output_def
  by (cases "hi_value info") (auto intro!: following followed_fragment_body assms)

lemma followed_branch_condition [following]: "followed (branch_condition info)"
  unfolding branch_condition_def by (intro following)

lemma followed_lists:
  assumes "\<And>n. n \<in> set nodes \<Longrightarrow> followed (render_haml_node en n) \<and> followed (render_children en (haml_children n))"
  shows "followed (render_children en nodes) \<and> (\<forall>taken. followed (render_chain en taken nodes))"
  using assms
proof (induction nodes)
  case Nil
  show ?case unfolding render_children.simps render_chain.simps by (simp add: following)
next
  case (Cons n nodes)
  obtain info below where n: "n = Haml_Node info below" by (cases n)
  have tail: "followed (render_children en nodes)" "followed (render_chain en taken nodes)" for taken
    using Cons by simp_all
  have node: "followed (render_haml_node en n)" "followed (render_children en below)"
    using Cons.prems [of n] n by simp_all
  have chain: "followed (render_chain en taken (n # nodes))" for taken
    unfolding n render_chain.simps by (intro following tail node(2))
  moreover have "followed (render_children en (n # nodes))"
    unfolding render_children.simps by (intro following chain tail(1) node(1))
  ultimately show ?case by simp
qed

lemma followed_node:
  assumes "free_engine en"
  shows "fragment_free node \<Longrightarrow> followed (render_haml_node en node) \<and> followed (render_children en (haml_children node))"
proof (induction node)
  case (Haml_Node info nodes)
  then have nodes: "followed (render_children en nodes)"
    using followed_lists [of nodes en] by (simp add: list_all_iff)
  have free: "engine_call_of v \<noteq> Fragment_Call i arguments" if "hi_value info = Some v" for v i arguments
    using Haml_Node.prems that by (auto split: engine_call.splits)
  then have "followed (render_haml_node en (Haml_Node info nodes))"
    unfolding render_haml_node.simps
    by (cases "hi_kind info")
      (simp_all only: haml_kind.case, (intro following followed_render_output assms free nodes; assumption?)+)
  with nodes show ?case by simp
qed

lemma followed_template:
  assumes partials: "\<And>find_partial name p. ro_partial opts = Some find_partial \<Longrightarrow> find_partial name = Some p \<Longrightarrow>
      fragment_free (ht_root p)"
  shows "fragment_free (ht_root t) \<Longrightarrow> followed (render_template n opts t)"
proof (induction n arbitrary: t)
  case 0
  have "free_engine \<lparr>en_options = opts, en_template = ht_name t, en_deeper = None\<rparr>"
    by (simp add: free_engine_def)
  then show ?case using followed_node [OF _ 0] by simp
next
  case (Suc n)
  have "free_engine \<lparr>en_options = opts, en_template = ht_name t, en_deeper = Some (render_template n opts)\<rparr>"
    using Suc.IH partials by (auto simp: free_engine_def)
  then show ?case using followed_node [OF _ Suc.prems] by simp
qed

end
