(* ===== verification/FragmentKeys.thy ===== *)
theory FragmentKeys
  imports Fragments JsonRoundTrip
begin

text \<open>
  When a cached fragment may stand for a rendered one. A fragment that read what another one read is
  that fragment, if its recording says what was read: if it stayed replayable. Then the cache gives
  what rendering would give, for every page of a sequence; and where a recording did not stay
  replayable, it may give another page's text.
\<close>

section \<open>What a recording says of the events\<close>

definition told :: "jvalue \<Rightarrow> string" where
  "told v = to_json v Compact True"

lemma note_reads_one: "note_reads [(n, v)] c = c\<lparr>vc_recordings := map (add_read n (told v)) (vc_recordings c)\<rparr>"
  by (simp add: note_reads_def told_def vc_record_map)

text \<open>What one recording keeps, step by step: \<open>bound_within\<close> is about the names it leaves out.\<close>

definition bound_within :: "recording \<Rightarrow> view_context \<Rightarrow> bool" where
  "bound_within r c \<longleftrightarrow> (\<forall>n \<in> set (rc_bound r). map_of (vc_locals c) n \<noteq> None)"

definition kept_reads :: "recording \<Rightarrow> recording \<Rightarrow> bool" where
  "kept_reads r r' \<longleftrightarrow> (rc_replayable r' \<longrightarrow> rc_replayable r) \<and>
     (\<forall>n t. map_of (rc_reads r) n = Some t \<longrightarrow> map_of (rc_reads r') n = Some t)"

lemma kept_reads_refl [simp]: "kept_reads r r"
  by (simp add: kept_reads_def)

lemma kept_reads_trans: "kept_reads r r1 \<Longrightarrow> kept_reads r1 r2 \<Longrightarrow> kept_reads r r2"
  by (simp add: kept_reads_def)

lemma add_read_keeps: "kept_reads r (add_read n shown r) \<and> rc_bound (add_read n shown r) = rc_bound r"
  by (auto simp: add_read_def kept_reads_def map_add_def split: option.split)

lemma add_read_reads:
  "n \<notin> set (rc_bound r) \<Longrightarrow> rc_replayable (add_read n shown r) \<Longrightarrow> map_of (rc_reads (add_read n shown r)) n = Some shown"
  by (auto simp: add_read_def map_add_def split: option.splits if_splits)

lemma play_event_head:
  assumes "vc_recordings c = r # rs" and "bound_within r c"
  shows "\<exists>r' rs'. vc_recordings (play_event e c) = r' # rs' \<and> bound_within r' (play_event e c) \<and> kept_reads r r'"
proof (cases e)
  case (Read_Event n v from_local)
  then show ?thesis
    using assms add_read_keeps [of r n "told v"] by (simp add: note_reads_one bound_within_def)
next
  case (Bind_Event n v)
  then show ?thesis
    using assms by (auto simp: set_local_def note_bound_def Let_def add_bound_def bound_within_def kept_reads_def map_of_put_entry)
next
  case (Swap_Event locals)
  then show ?thesis
    using assms by (simp add: restore_locals_def prune_bound_def prune_recording_def bound_within_def kept_reads_def)
qed

lemma play_head:
  "vc_recordings c = r # rs \<Longrightarrow> bound_within r c \<Longrightarrow>
   \<exists>r' rs'. vc_recordings (play es c) = r' # rs' \<and> bound_within r' (play es c) \<and> kept_reads r r'"
proof (induction es arbitrary: c r rs)
  case (Cons e es)
  obtain r1 rs1 where step: "vc_recordings (play_event e c) = r1 # rs1" "bound_within r1 (play_event e c)" "kept_reads r r1"
    using play_event_head [OF Cons.prems] by blast
  from Cons.IH [OF step(1,2)] show ?case
    using kept_reads_trans [OF step(3)] by auto
qed simp

lemma read_recorded:
  assumes "vc_recordings c = r # rs" "bound_within r c" and events: "true_events (p @ Read_Event n v False # q) c"
    and final: "vc_recordings (play (p @ Read_Event n v False # q) c) = r' # rs'" "rc_replayable r'"
  shows "map_of (rc_reads r') n = Some (told v) \<and> map_of (vc_values c) n = Some v"
proof -
  let ?c = "play p c"
  obtain r1 rs1 where r1: "vc_recordings ?c = r1 # rs1" "bound_within r1 ?c"
    using play_head [OF assms(1,2)] by blast
  have unbound: "n \<notin> set (rc_bound r1)" and page: "map_of (vc_values ?c) n = Some v"
    using events r1(2) by (auto simp: true_events_append bound_within_def)
  let ?d = "play_event (Read_Event n v False) ?c"
  have d: "vc_recordings ?d = add_read n (told v) r1 # map (add_read n (told v)) rs1"
    using r1(1) by (simp add: note_reads_one)
  have "bound_within (add_read n (told v) r1) ?d"
    using r1(2) add_read_keeps [of r1 n "told v"] by (simp add: note_reads_one bound_within_def)
  from play_head [OF d this, of q] final have kept: "kept_reads (add_read n (told v) r1) r'"
    by auto
  then have "map_of (rc_reads (add_read n (told v) r1)) n = Some (told v)"
    using final(2) unbound by (intro add_read_reads) (simp_all add: kept_reads_def)
  then show ?thesis
    using kept page play_page [of p c c] by (simp add: kept_reads_def)
qed

section \<open>Two renderings of one fragment\<close>

definition recording_of :: "(render_state \<Rightarrow> string rendering) \<Rightarrow> render_state \<Rightarrow> recording" where
  "recording_of run st = hd (vc_recordings (rs_context (snd (run (change_context begin_recording st)))))"

lemma begun_recordings:
  "vc_recordings (begin_recording c) = \<lparr>rc_reads = [], rc_bound = [], rc_replayable = True\<rparr> # vc_recordings c"
  "vc_values (begin_recording c) = vc_values c" "vc_locals (begin_recording c) = vc_locals c"
  "vc_functions (begin_recording c) = vc_functions c"
  by (simp_all add: begin_recording_def)

lemma same_page_begun:
  "same_page st st' \<Longrightarrow> same_page (change_context begin_recording st) (change_context begin_recording st')"
  "same_page st (change_context begin_recording st)"
  by (simp_all add: same_page_def begun_recordings)

lemma same_page_sym: "same_page st st' \<Longrightarrow> same_page st' st"
  by (simp add: same_page_def)

lemma same_page_trans: "same_page st st1 \<Longrightarrow> same_page st1 st2 \<Longrightarrow> same_page st st2"
  by (simp add: same_page_def)

lemma recording_tells:
  assumes "follows log run" and "log (change_context begin_recording st) = p @ Read_Event n v False # q"
  shows "map_of (vc_values (rs_context st)) n = Some v \<and>
    (rc_replayable (recording_of run st) \<longrightarrow> map_of (rc_reads (recording_of run st)) n = Some (told v))"
proof -
  let ?begun = "change_context begin_recording st" and ?fresh = "\<lparr>rc_reads = [], rc_bound = [], rc_replayable = True\<rparr>"
  let ?c = "rs_context ?begun"
  have log: "snd (run ?begun) = change_context (play (log ?begun)) ?begun" "true_events (log ?begun) ?c"
    using assms(1) unfolding follows_def by blast+
  have begun: "vc_recordings ?c = ?fresh # vc_recordings (rs_context st)" "bound_within ?fresh ?c"
    by (simp_all add: begun_recordings bound_within_def)
  obtain r' rs' where final: "vc_recordings (play (log ?begun) ?c) = r' # rs'"
    using play_head [OF begun] by blast
  then have "recording_of run st = r'"
    using log(1) by (simp add: recording_of_def)
  moreover have "map_of (vc_values ?c) n = Some v"
    using log(2) play_page [of p ?c ?c] by (simp add: assms(2) true_events_append)
  ultimately show ?thesis
    using read_recorded [OF begun, of p n v q r' rs'] log(2) final by (simp add: assms(2) begun_recordings)
qed

text \<open>
  Either two pages make the same of a fragment, or a name of the page that both read is different on
  the two, and every replayable recording says so.
\<close>

lemma renderings_part:
  assumes "followed run" and "same_page st st'"
  obtains "fst (run (change_context begin_recording st')) = fst (run (change_context begin_recording st))"
  | n v w where "v \<noteq> w" "map_of (vc_values (rs_context st)) n = Some v" "map_of (vc_values (rs_context st')) n = Some w"
      "rc_replayable (recording_of run st) \<Longrightarrow> map_of (rc_reads (recording_of run st)) n = Some (told v)"
      "rc_replayable (recording_of run st') \<Longrightarrow> map_of (rc_reads (recording_of run st')) n = Some (told w)"
proof -
  obtain log where log: "follows log run" using assms(1) by (auto simp: followed_def)
  let ?a = "change_context begin_recording st" and ?b = "change_context begin_recording st'"
  consider "fst (run ?b) = fst (run ?a)" | "part_at_value (log ?a) (log ?b)"
    using log same_page_begun(1) [OF assms(2)] unfolding follows_def by blast
  then show thesis
  proof cases
    case 1
    then show thesis by (rule that(1))
  next
    case 2
    then obtain p n v w q r where parts: "log ?a = p @ Read_Event n v False # q" "log ?b = p @ Read_Event n w False # r" "v \<noteq> w"
      unfolding part_at_value_def by blast
    from recording_tells [OF log parts(1)] recording_tells [OF log parts(2)] parts(3) show thesis
      by (intro that(2)) auto
  qed
qed

text \<open>On one page a fragment is one thing, whatever is being recorded and whatever the cache holds.\<close>

lemma rendering_settled:
  assumes "follows log run" and "same_page st st'" and "vc_values (rs_context st') = vc_values (rs_context st)"
  shows "fst (run st') = fst (run st) \<and> log st' = log st"
proof -
  have true: "true_events (log st) (rs_context st)" "true_events (log st') (rs_context st')"
    using assms(1) unfolding follows_def by blast+
  have "\<not> part_at_value (log st) (log st')"
  proof
    assume "part_at_value (log st) (log st')"
    then obtain p n v w q r where parts: "log st = p @ Read_Event n v False # q" "log st' = p @ Read_Event n w False # r" "v \<noteq> w"
      unfolding part_at_value_def by blast
    then show False
      using true assms(3) play_page [of p "rs_context st" "rs_context st"] play_page [of p "rs_context st'" "rs_context st'"]
      by (simp add: true_events_append)
  qed
  then show ?thesis
    using assms(1,2) unfolding follows_def by blast
qed

lemma rendering_ignores_cache:
  "followed run \<Longrightarrow> same_page st st' \<Longrightarrow> vc_values (rs_context st') = vc_values (rs_context st) \<Longrightarrow> fst (run st') = fst (run st)"
  using rendering_settled unfolding followed_def by blast

section \<open>A key says what was read\<close>

definition plain_value :: "jvalue \<Rightarrow> bool" where
  "plain_value v \<longleftrightarrow> value_ok v \<and> number_free v \<and> nesting v \<le> max_json_depth \<and> reorder v = v"

lemma told_apart:
  assumes "plain_value v" "plain_value w" and "told v @ CHR '';'' # r = told w @ CHR '';'' # r'"
  shows "v = w \<and> r = r'"
proof -
  let ?s = "told v @ CHR '';'' # r"
  have ends: "ends_value (CHR '';'' # x)" for x
    by (simp add: ends_value_def is_digit_def between_def)
  have read: "\<exists>st. parse_value (json_fuel ?s) (j_start ?s) = Done u st \<and> j_rest st = CHR '';'' # x"
    if "plain_value u" "?s = told u @ CHR '';'' # x" for u x
  proof -
    have "told u = write_value Compact False 0 u"
      using that(1) by (simp add: told_def to_json_def write_value_reorder plain_value_def)
    moreover have "reads_back Compact 0 0 u"
      using that(1) by (intro write_value_reads_back) (simp_all add: plain_value_def)
    ultimately show ?thesis
      using that(2) by (elim reads_backD [OF _ _ ends [of x], of _ _ _ _ "j_start ?s" "json_fuel ?s"])
        (auto simp: j_start_def json_fuel_def)
  qed
  show ?thesis
    using read [OF assms(1) refl] read [OF assms(2,3)] by auto
qed

lemma name_apart:
  assumes "CHR ''='' \<notin> set n" "CHR ''='' \<notin> set n'" "n @ CHR ''='' # r = n' @ CHR ''='' # r'"
  shows "n = n' \<and> r = r'"
proof -
  have "takeWhile (\<lambda>c. c \<noteq> CHR ''='') (n @ CHR ''='' # r) = n" "takeWhile (\<lambda>c. c \<noteq> CHR ''='') (n' @ CHR ''='' # r') = n'"
    using assms(1,2) by (auto simp: takeWhile_append)
  then show ?thesis using assms(3) by auto
qed

definition clear_read :: "string \<times> string \<Rightarrow> bool" where
  "clear_read read \<longleftrightarrow> CHR ''='' \<notin> set (fst read) \<and> (\<exists>v. plain_value v \<and> snd read = told v)"

definition key_of :: "(string \<times> string) list \<Rightarrow> string" where
  "key_of reads = concat (map (\<lambda>(n, shown). read_text n shown) reads)"

lemma key_tells_reads:
  "list_all clear_read reads \<Longrightarrow> list_all clear_read reads' \<Longrightarrow> key_of reads = key_of reads' \<Longrightarrow> reads = reads'"
proof (induction reads arbitrary: reads')
  case Nil
  then show ?case by (cases reads') (auto simp: key_of_def read_text_def)
next
  case (Cons read reads)
  obtain n v where read: "read = (n, told v)" "plain_value v" "CHR ''='' \<notin> set n"
    using Cons.prems(1) by (cases read) (auto simp: clear_read_def)
  obtain read' more' where some: "reads' = read' # more'"
    using Cons.prems(3) by (cases reads') (auto simp: key_of_def read_text_def read)
  obtain n' v' where read': "read' = (n', told v')" "plain_value v'" "CHR ''='' \<notin> set n'"
    using Cons.prems(2) some by (cases read') (auto simp: clear_read_def)
  have keys: "n @ CHR ''='' # (told v @ CHR '';'' # key_of reads) = n' @ CHR ''='' # (told v' @ CHR '';'' # key_of more')"
    using Cons.prems(3) by (simp add: key_of_def read_text_def some read read')
  from name_apart [OF read(3) read'(3) this] have "n = n'" and
    "told v @ CHR '';'' # key_of reads = told v' @ CHR '';'' # key_of more'" by simp_all
  moreover from told_apart [OF read(2) read'(2) this(2)] have "v = v'" "key_of reads = key_of more'" by simp_all
  moreover from Cons.IH [OF _ _ this(2)] have "reads = more'"
    using Cons.prems some by simp
  ultimately show ?case by (simp add: some read read')
qed

section \<open>The cache keeps what was rendered\<close>

lemma play_event_heads:
  "vc_recordings c = r # rs \<Longrightarrow> vc_recordings d = r # rs' \<Longrightarrow> vc_locals d = vc_locals c \<Longrightarrow>
   \<exists>r1 qs qs'. vc_recordings (play_event e c) = r1 # qs \<and> vc_recordings (play_event e d) = r1 # qs'"
  by (cases e) (simp_all add: note_reads_one set_local_def note_bound_def Let_def restore_locals_def prune_bound_def)

lemma play_heads:
  "vc_recordings c = r # rs \<Longrightarrow> vc_recordings d = r # rs' \<Longrightarrow> vc_locals d = vc_locals c \<Longrightarrow>
   hd (vc_recordings (play es d)) = hd (vc_recordings (play es c))"
proof (induction es arbitrary: c d r rs rs')
  case (Cons e es)
  obtain r1 qs qs' where heads: "vc_recordings (play_event e c) = r1 # qs" "vc_recordings (play_event e d) = r1 # qs'"
    using play_event_heads [OF Cons.prems] by blast
  have "vc_locals (play_event e d) = vc_locals (play_event e c)"
    using play_event_page [of e c d] Cons.prems(3) by blast
  from Cons.IH [OF heads this] show ?case by simp
qed simp

lemma recording_of_same:
  assumes "followed run" and page: "same_page st st'" and vals: "vc_values (rs_context st') = vc_values (rs_context st)"
  shows "recording_of run st' = recording_of run st"
proof -
  obtain log where log: "follows log run" using assms(1) by (auto simp: followed_def)
  let ?a = "change_context begin_recording st" and ?b = "change_context begin_recording st'"
  have "log ?b = log ?a"
    using rendering_settled [OF log same_page_begun(1) [OF page]] vals by (simp add: begun_recordings)
  moreover have "snd (run s) = change_context (play (log s)) s" for s
    using log unfolding follows_def by blast
  moreover have "hd (vc_recordings (play es (rs_context ?b))) = hd (vc_recordings (play es (rs_context ?a)))" for es
    using page by (intro play_heads) (simp_all add: begun_recordings same_page_def)
  ultimately show ?thesis by (simp add: recording_of_def)
qed

definition page_clear :: "view_context \<Rightarrow> bool" where
  "page_clear c \<longleftrightarrow> (\<forall>n v. outer c n = Some v \<longrightarrow> plain_value v) \<and>
     (\<forall>n. map_of (vc_locals c) n \<noteq> None \<longrightarrow> map_of (vc_values c) n = None)"

definition clear_rendering :: "(render_state \<Rightarrow> string rendering) \<Rightarrow> render_state \<Rightarrow> bool" where
  "clear_rendering run st \<longleftrightarrow> page_clear (rs_context st) \<and> rc_replayable (recording_of run st) \<and>
     list_all clear_read (rc_reads (recording_of run st))"

definition cache_made :: "(render_state \<Rightarrow> string rendering) \<Rightarrow> render_state \<Rightarrow> string \<Rightarrow> site \<Rightarrow> fragment_cache \<Rightarrow> bool" where
  "cache_made run st prefix here f \<longleftrightarrow>
     (\<forall>key html. map_of (fc_entries f) (prefix @ key) = Some html \<longrightarrow>
        (\<exists>st'. same_page st st' \<and> clear_rendering run st' \<and> key = key_of (rc_reads (recording_of run st')) \<and>
           fst (run st') = Rendered html)) \<and>
     (\<forall>names n. fc_reads here f = Some names \<longrightarrow> n \<in> set names \<longrightarrow> CHR ''='' \<notin> set n)"

lemma page_clear_value:
  "page_clear c \<Longrightarrow> map_of (vc_values c) n = Some v \<Longrightarrow> outer c n = Some v \<and> plain_value v"
proof -
  assume clear: "page_clear c" and v: "map_of (vc_values c) n = Some v"
  then have "outer c n = Some v"
    unfolding page_clear_def outer_def by (cases "map_of (vc_locals c) n") auto
  then show ?thesis using clear by (simp add: page_clear_def)
qed

lemma told_same: "plain_value v \<Longrightarrow> plain_value w \<Longrightarrow> told v = told w \<Longrightarrow> v = w"
  using told_apart [of v w "[]" "[]"] by simp

text \<open>An entry whose key is what this page has for the names in it is this page's own rendering.\<close>

lemma entry_is_rendering:
  assumes run: "followed run" and page: "same_page st st'" and clear: "clear_rendering run st'" "page_clear (rs_context st)"
    and tells: "\<And>n w t. map_of (vc_values (rs_context st)) n = Some w \<Longrightarrow>
      map_of (rc_reads (recording_of run st')) n = Some t \<Longrightarrow>
      (rc_replayable (recording_of run st) \<Longrightarrow> map_of (rc_reads (recording_of run st)) n = Some (told w)) \<Longrightarrow> t = told w"
  shows "fst (run st') = fst (run st)"
proof -
  have begun: "fst (run (change_context begin_recording s)) = fst (run s)" for s
    using rendering_ignores_cache [OF run same_page_begun(2)] by (simp add: begun_recordings)
  from renderings_part [OF run page] show ?thesis
  proof cases
    case 1
    then show ?thesis by (simp add: begun)
  next
    case (2 n v w)
    have "map_of (rc_reads (recording_of run st')) n = Some (told w)"
      using 2(5) clear(1) by (simp add: clear_rendering_def)
    then have "told w = told v"
      using tells [OF 2(2)] 2(4) by blast
    moreover have "plain_value v" "plain_value w"
      using page_clear_value clear 2(2,3) by (auto simp: clear_rendering_def)
    ultimately show ?thesis using told_same 2(1) by metis
  qed
qed

lemma replayed_key:
  "replay names c = (Some key, c') \<Longrightarrow>
   (\<forall>n \<in> set names. outer c n \<noteq> None) \<and> key = key_of (map (\<lambda>n. (n, told (the (outer c n)))) names)"
proof -
  have "replay_from k names d = (Some key, c') \<Longrightarrow> outer d = outer c \<Longrightarrow>
      (\<forall>n \<in> set names. outer c n \<noteq> None) \<and> key = k @ key_of (map (\<lambda>n. (n, told (the (outer c n)))) names)" for k d
  proof (induction names arbitrary: k d)
    case (Cons n names)
    then obtain v where "outer c n = Some v"
      by (auto simp: resolve_outer split: option.splits)
    then show ?case
      using Cons by (force simp: resolve_outer key_of_def told_def)
  qed (simp add: key_of_def)
  then show "replay names c = (Some key, c') \<Longrightarrow>
      (\<forall>n \<in> set names. outer c n \<noteq> None) \<and> key = key_of (map (\<lambda>n. (n, told (the (outer c n)))) names)"
    by (fastforce simp: replay_def)
qed

lemma replayed_is_rendering:
  assumes run: "followed run" and clear: "page_clear (rs_context st)" and made: "cache_made run st prefix here (rs_cache st)"
    and found: "replayed_fragment prefix here st = (Some html, st1)"
  shows "fst (run st) = Rendered html"
proof -
  let ?c = "rs_context st"
  obtain names key where names: "fc_reads here (rs_cache st) = Some names" "fst (replay names ?c) = Some key"
    and entry: "map_of (fc_entries (rs_cache st)) (prefix @ key) = Some html"
    using found by (auto simp: replayed_fragment_def fc_find_def split: option.splits prod.splits)
  let ?reads = "map (\<lambda>n. (n, told (the (outer ?c n)))) names"
  have key: "\<forall>n \<in> set names. outer ?c n \<noteq> None" "key = key_of ?reads"
    using replayed_key [of names ?c key "snd (replay names ?c)"] names(2) by (auto simp: prod_eq_iff)
  obtain st' where st': "same_page st st'" "clear_rendering run st'" "key = key_of (rc_reads (recording_of run st'))"
      "fst (run st') = Rendered html"
    using made entry by (auto simp: cache_made_def)
  have "list_all clear_read ?reads"
    using made names(1) key(1) clear by (fastforce simp: list_all_iff clear_read_def cache_made_def page_clear_def)
  then have "rc_reads (recording_of run st') = ?reads"
    using key(2) st'(2,3) by (intro key_tells_reads) (simp_all add: clear_rendering_def)
  then have "fst (run st') = fst (run st)"
    using page_clear_value [OF clear]
    by (intro entry_is_rendering [OF run st'(1,2) clear]) (auto simp: map_of_map_restrict restrict_map_def split: if_splits)
  with st'(4) show ?thesis by simp
qed

lemma cache_made_page: "same_page st st' \<Longrightarrow> cache_made run st prefix here f \<Longrightarrow> cache_made run st' prefix here f"
  unfolding cache_made_def by (meson same_page_sym same_page_trans)

lemma cache_made_counts [simp]:
  "cache_made run st prefix here (fc_note_render f) = cache_made run st prefix here f"
  "cache_made run st prefix here (snd (fc_find key f)) = cache_made run st prefix here f"
  by (auto simp: cache_made_def fc_note_render_def fc_find_def fc_reads_def split: option.split)

lemma cache_made_reads:
  "cache_made run st prefix here f \<Longrightarrow> list_all clear_read reads \<Longrightarrow>
   cache_made run st prefix here (fc_remember_reads here (map fst reads) f)"
  by (auto simp: cache_made_def fc_remember_reads_def fc_reads_def map_of_emplace_entry list_all_iff clear_read_def split: if_splits)

lemma cache_made_store:
  assumes "cache_made run st prefix here f" and "clear_rendering run st" and "fst (run st) = Rendered html"
  shows "cache_made run st prefix here (fc_store (prefix @ key_of (rc_reads (recording_of run st))) html f)"
proof -
  have "same_page st st" by (simp add: same_page_def)
  then show ?thesis
    using assms by (fastforce simp: cache_made_def fc_store_def fc_reads_def map_of_emplace_entry split: if_splits)
qed

lemma ended_recording:
  assumes "followed run"
  shows "\<exists>d. end_recording (rs_context (snd (run (change_context begin_recording st)))) =
      (key_of (rc_reads (recording_of run st)), d) \<and>
    vc_read_names d = map fst (rc_reads (recording_of run st)) \<and> vc_replayable d = rc_replayable (recording_of run st) \<and>
    rs_cache (snd (run (change_context begin_recording st))) = rs_cache st"
proof -
  obtain log where "follows log run" using assms by (auto simp: followed_def)
  then obtain es where ran: "snd (run (change_context begin_recording st)) = change_context (play es) (change_context begin_recording st)"
    unfolding follows_def by blast
  obtain r rs where "vc_recordings (play es (begin_recording (rs_context st))) = r # rs"
    using play_head [of "begin_recording (rs_context st)"] by (fastforce simp: begun_recordings bound_within_def)
  then show ?thesis
    by (simp add: recording_of_def ran end_recording_def key_of_def)
qed

lemma kept_outcome:
  assumes "vc_replayable (rs_context st)" and "f = fc_remember_reads here (vc_read_names (rs_context st)) (fc_note_render (rs_cache st))"
  shows "fst (kept_fragment key here html st) =
      Rendered (case map_of (fc_entries f) key of None \<Rightarrow> html | Some kept_html \<Rightarrow> kept_html) \<and>
    rs_cache (snd (kept_fragment key here html st)) =
      (case map_of (fc_entries f) key of None \<Rightarrow> fc_store key html (snd (fc_find key f)) | Some _ \<Rightarrow> snd (fc_find key f))"
  using assms by (auto simp: kept_fragment_def change_cache_def fc_find_def Let_def split: option.split)

lemma recorded_is_rendering:
  assumes run: "followed run" and clear: "clear_rendering run st" and made: "cache_made run st prefix here (rs_cache st)"
  shows "fst (recorded_fragment prefix here run st) = fst (run st) \<and>
    cache_made run st prefix here (rs_cache (snd (recorded_fragment prefix here run st)))"
proof -
  let ?begun = "change_context begin_recording st" and ?reads = "rc_reads (recording_of run st)"
  obtain outcome st1 where ran: "run ?begun = (outcome, st1)" by fastforce
  obtain d where ended: "end_recording (rs_context st1) = (key_of ?reads, d)" "vc_read_names d = map fst ?reads"
      "vc_replayable d" "rs_cache st1 = rs_cache st"
    using ended_recording [OF run, of st] clear by (auto simp: ran clear_rendering_def)
  have outcome: "outcome = fst (run st)"
    using rendering_ignores_cache [OF run same_page_begun(2) [of st]] by (simp add: ran begun_recordings)
  let ?f = "fc_remember_reads here (map fst ?reads) (fc_note_render (rs_cache st))"
  have kept: "cache_made run st prefix here ?f"
    using made clear by (intro cache_made_reads) (simp_all add: clear_rendering_def)
  have found: "fst (run st) = Rendered html" if entry: "map_of (fc_entries ?f) (prefix @ key_of ?reads) = Some html" for html
  proof -
    obtain st' where st': "same_page st st'" "clear_rendering run st'" "key_of ?reads = key_of (rc_reads (recording_of run st'))"
        "fst (run st') = Rendered html"
      using kept entry unfolding cache_made_def by blast
    then have "?reads = rc_reads (recording_of run st')"
      using clear by (intro key_tells_reads) (simp_all add: clear_rendering_def)
    then have "fst (run st') = fst (run st)"
      using clear by (intro entry_is_rendering [OF run st'(1,2)]) (auto simp: clear_rendering_def)
    with st'(4) show ?thesis by simp
  qed
  show ?thesis
  proof (cases outcome)
    case (Rendered html)
    have out: "recorded_fragment prefix here run st = kept_fragment (prefix @ key_of ?reads) here html (st1\<lparr>rs_context := d\<rparr>)"
      by (simp add: recorded_fragment_def ran ended Rendered)
    note kept_outcome [of "st1\<lparr>rs_context := d\<rparr>" ?f here "prefix @ key_of ?reads" html]
    then have result: "fst (recorded_fragment prefix here run st) =
        Rendered (case map_of (fc_entries ?f) (prefix @ key_of ?reads) of None \<Rightarrow> html | Some kept_html \<Rightarrow> kept_html)"
      "rs_cache (snd (recorded_fragment prefix here run st)) =
        (case map_of (fc_entries ?f) (prefix @ key_of ?reads) of
           None \<Rightarrow> fc_store (prefix @ key_of ?reads) html (snd (fc_find (prefix @ key_of ?reads) ?f))
         | Some _ \<Rightarrow> snd (fc_find (prefix @ key_of ?reads) ?f))"
      unfolding out using ended by simp_all
    show ?thesis
    proof (cases "map_of (fc_entries ?f) (prefix @ key_of ?reads)")
      case None
      then show ?thesis
        using kept cache_made_store [OF _ clear] outcome Rendered by (simp add: result)
    next
      case (Some kept_html)
      then show ?thesis
        using kept found [OF Some] by (simp add: result)
    qed
  qed (use made outcome in \<open>simp_all add: recorded_fragment_def ran ended Let_def\<close>)
qed

lemma replayed_leaves:
  "same_page st (snd (replayed_fragment prefix here st)) \<and>
   vc_values (rs_context (snd (replayed_fragment prefix here st))) = vc_values (rs_context st) \<and>
   cache_made run p prefix' here' (rs_cache (snd (replayed_fragment prefix here st))) = cache_made run p prefix' here' (rs_cache st)"
proof (cases "fc_reads here (rs_cache st)")
  case (Some names)
  obtain key c where replayed: "replay names (rs_context st) = (key, c)" by fastforce
  then have c: "vc_values c = vc_values (rs_context st) \<and> vc_locals c = vc_locals (rs_context st) \<and>
      vc_functions c = vc_functions (rs_context st)"
    using replay_from_stores [of "[]" names "rs_context st"] by (simp add: replay_def)
  have "cache_made run p prefix' here' f = cache_made run p prefix' here' (rs_cache st)"
    if "fc_find k (rs_cache st) = (html, f)" for k html f
    using cache_made_counts(2) [of run p prefix' here' k "rs_cache st"] that by simp
  with c show ?thesis
    by (auto simp: replayed_fragment_def Some replayed same_page_def split: option.split prod.split)
qed (simp add: replayed_fragment_def same_page_def)

lemma cached_is_rendering:
  assumes run: "followed run" and caching: "ro_caching (en_options en)" and clear: "clear_rendering run st"
    and made: "cache_made run st (ro_address (en_options en) (en_template en, body) @ ''|'') (en_template en, body) (rs_cache st)"
  shows "fst (cached_fragment en body run st) = fst (run st) \<and>
    cache_made run st (ro_address (en_options en) (en_template en, body) @ ''|'') (en_template en, body)
      (rs_cache (snd (cached_fragment en body run st)))"
proof -
  let ?here = "(en_template en, body)" and ?prefix = "ro_address (en_options en) (en_template en, body) @ ''|''"
  obtain found st1 where replayed: "replayed_fragment ?prefix ?here st = (found, st1)" by fastforce
  have st1: "same_page st st1" "vc_values (rs_context st1) = vc_values (rs_context st)"
    "cache_made run st ?prefix ?here (rs_cache st1)"
    using replayed_leaves [of st ?prefix ?here run st ?prefix ?here] made replayed by simp_all
  show ?thesis
  proof (cases found)
    case (Some html)
    have "fst (run st) = Rendered html"
      using replayed_is_rendering [OF run _ made] clear replayed Some by (auto simp: clear_rendering_def)
    then show ?thesis
      using caching st1(3) Some by (simp add: cached_fragment_def replayed)
  next
    case None
    have same: "fst (run st1) = fst (run st)" "recording_of run st1 = recording_of run st"
      using rendering_ignores_cache recording_of_same run st1 by blast+
    have "outer (rs_context st1) = outer (rs_context st)"
      using st1 by (auto simp: outer_def same_page_def fun_eq_iff split: option.split)
    then have "clear_rendering run st1"
      using clear same(2) st1 by (simp add: clear_rendering_def page_clear_def same_page_def)
    then have "fst (recorded_fragment ?prefix ?here run st1) = fst (run st) \<and>
        cache_made run st ?prefix ?here (rs_cache (snd (recorded_fragment ?prefix ?here run st1)))"
      using recorded_is_rendering [OF run, of st1 ?prefix ?here] same(1) st1
        cache_made_page [of st st1] cache_made_page [of st1 st] same_page_sym by metis
    then show ?thesis
      using caching None by (simp add: cached_fragment_def replayed Let_def)
  qed
qed

section \<open>A build of many pages\<close>

text \<open>One fragment on page after page, the cache handed from one to the next.\<close>

fun serve_fragment :: "engine \<Rightarrow> node \<Rightarrow> view_context list \<Rightarrow> fragment_cache \<Rightarrow> string rendered list" where
  "serve_fragment en body [] f = []"
| "serve_fragment en body (c # cs) f =
     (case cached_fragment en body (render_fragment_body en body) \<lparr>rs_context = c, rs_cache = f\<rparr> of
        (outcome, st) \<Rightarrow> outcome # serve_fragment en body cs (rs_cache st))"

definition same_shape :: "view_context \<Rightarrow> view_context \<Rightarrow> bool" where
  "same_shape c d \<longleftrightarrow> vc_functions d = vc_functions c \<and> map fst (vc_values d) = map fst (vc_values c) \<and>
     vc_locals d = vc_locals c"

lemma clear_rendering_cache:
  "followed run \<Longrightarrow> clear_rendering run \<lparr>rs_context = c, rs_cache = f\<rparr> \<longleftrightarrow> clear_rendering run \<lparr>rs_context = c, rs_cache = g\<rparr>"
  using recording_of_same [of run "\<lparr>rs_context = c, rs_cache = f\<rparr>" "\<lparr>rs_context = c, rs_cache = g\<rparr>"]
  by (simp add: clear_rendering_def same_page_def)

lemma serve_fragment_renders:
  assumes run: "followed (render_fragment_body en body)" and "ro_caching (en_options en)"
  shows "\<forall>d \<in> set cs. same_shape c d \<and> clear_rendering (render_fragment_body en body) \<lparr>rs_context = d, rs_cache = empty_cache\<rparr> \<Longrightarrow>
    cache_made (render_fragment_body en body) \<lparr>rs_context = c, rs_cache = empty_cache\<rparr>
      (ro_address (en_options en) (en_template en, body) @ ''|'') (en_template en, body) f \<Longrightarrow>
    serve_fragment en body cs f = map (\<lambda>d. fst (render_fragment_body en body \<lparr>rs_context = d, rs_cache = empty_cache\<rparr>)) cs"
proof (induction cs arbitrary: f)
  case (Cons d cs)
  let ?run = "render_fragment_body en body" and ?here = "(en_template en, body)"
  let ?prefix = "ro_address (en_options en) (en_template en, body) @ ''|''"
  let ?c = "\<lparr>rs_context = c, rs_cache = empty_cache\<rparr>" and ?st = "\<lparr>rs_context = d, rs_cache = f\<rparr>"
  have page: "same_page ?c ?st" "same_page ?st ?c" "same_page \<lparr>rs_context = d, rs_cache = empty_cache\<rparr> ?st"
    using Cons.prems(1) by (simp_all add: same_page_def same_shape_def)
  have "cache_made ?run ?st ?prefix ?here (rs_cache ?st)"
    using cache_made_page [OF page(1) Cons.prems(2)] by simp
  moreover have "clear_rendering ?run ?st"
    using Cons.prems(1) clear_rendering_cache [OF run, of d empty_cache f] by simp
  ultimately have step: "fst (cached_fragment en body ?run ?st) = fst (?run ?st)"
    "cache_made ?run ?st ?prefix ?here (rs_cache (snd (cached_fragment en body ?run ?st)))"
    using cached_is_rendering [where st = ?st, OF run assms(2)] by blast+
  have "fst (?run ?st) = fst (?run \<lparr>rs_context = d, rs_cache = empty_cache\<rparr>)"
    using rendering_ignores_cache [OF run page(3)] by simp
  then show ?case
    using step(1) Cons.IH [OF _ cache_made_page [OF page(2) step(2)]] Cons.prems(1) by (simp add: case_prod_beta)
qed simp

text \<open>
  C2. Within one section and for one body the fragment cache is transparent. Fix what the renderer is given
  beside the page: the layout, the lookup of partials, which is a section's, and the text that
  \<open>yield\<close> puts in. Take a block that is not itself a cached fragment, partials that hold none, and pages with
  the same names, functions and locals. Render the block on each of them in turn, with one cache. If on
  every page the recording stays replayable and what it says can be told apart (names without \<open>=\<close>, values
  without doubles and in key order, no local over a page value), then every page gets exactly what
  rendering the block afresh for it would give, error or text. Between sections, or for a block that
  yields, it is not: \<open>fragment_of_other_section_served\<close> and \<open>fragment_with_other_body_served\<close> are the
  counterexamples, because neither is part of a fragment's key.
\<close>

theorem cached_fragments_are_rendered:
  assumes "en = \<lparr>en_options = opts, en_template = file, en_deeper = Some (render_template depth opts)\<rparr>"
    and "ro_caching opts"
    and "\<forall>find_partial. ro_partial opts = Some find_partial \<longrightarrow>
      (\<forall>asked p. find_partial asked = Some p \<longrightarrow> fragment_free (ht_root p))"
    and "\<forall>i arguments. engine_call_of body \<noteq> Fragment_Call i arguments"
    and "\<forall>c \<in> set pages. same_shape page c \<and>
      clear_rendering (render_fragment_body en body) \<lparr>rs_context = c, rs_cache = empty_cache\<rparr>"
  shows "serve_fragment en body pages empty_cache =
    map (\<lambda>c. fst (render_fragment_body en body \<lparr>rs_context = c, rs_cache = empty_cache\<rparr>)) pages"
proof -
  have "free_engine en"
    unfolding free_engine_def using assms(1,3) by (auto intro!: followed_template)
  then have "followed (render_fragment_body en body)"
    using assms(4) by (intro followed_fragment_body) simp_all
  then show ?thesis
    using assms(1,2,5)
    by (intro serve_fragment_renders [of en body pages page]) (simp_all add: cache_made_def empty_cache_def fc_reads_def)
qed

section \<open>Samples\<close>

definition dquote :: string where "dquote = [CHR 0x22]"

definition expression_of :: "string \<Rightarrow> node" where
  "expression_of source =
     (case parse_expression source 1 1 of Done node st \<Rightarrow> node | _ \<Rightarrow> Name (make_info 1 (x_start [] 1 1)) source)"

definition sample_engine :: "(string \<times> string) list \<Rightarrow> string \<Rightarrow> engine" where
  "sample_engine partials page_body =
     \<lparr>en_options = sample_options partials page_body, en_template = ''layout'',
      en_deeper = Some (render_template 2 (sample_options partials page_body))\<rparr>"

definition card_call :: node where
  "card_call = expression_of ''render(:partial<card>)''"

lemma sample_cards:
  "fragment_free (ht_root (compiled ''%p= title'' ''card''))"
  "case engine_call_of card_call of Fragment_Call i arguments \<Rightarrow> False | _ \<Rightarrow> True"
  "map (\<lambda>t. recording_of (render_fragment_body (sample_engine [(''card'', ''%p= title'')] []) card_call)
      \<lparr>rs_context = titled t, rs_cache = empty_cache\<rparr>) [''One'', ''Two''] =
    map (\<lambda>t. \<lparr>rc_reads = [(''title'', dquote @ t @ dquote)], rc_bound = [], rc_replayable = True\<rparr>) [''One'', ''Two'']"
  "map (\<lambda>t. fst (render_fragment_body (sample_engine [(''card'', ''%p= title'')] []) card_call
      \<lparr>rs_context = titled t, rs_cache = empty_cache\<rparr>)) [''One'', ''Two''] =
    map (\<lambda>t. Rendered (''<p>'' @ t @ ''</p>'' @ line_end)) [''One'', ''Two'']"
  by code_simp+

lemma titled_stores:
  "vc_values (titled t) = [(''title'', VString t)]" "vc_locals (titled t) = []" "vc_functions (titled t) = []"
  by (simp_all add: titled_def vc_set_def empty_context_def)

lemma titled_clear: "page_clear (titled t)"
  by (simp add: page_clear_def titled_stores outer_def plain_value_def nesting.simps)

theorem cached_fragments_are_rendered_witness:
  "serve_fragment (sample_engine [(''card'', ''%p= title'')] []) card_call [titled ''One'', titled ''Two'', titled ''One''] empty_cache =
   [Rendered (''<p>One</p>'' @ line_end), Rendered (''<p>Two</p>'' @ line_end), Rendered (''<p>One</p>'' @ line_end)]"
proof -
  let ?partials = "[(''card'', ''%p= title'')]"
  let ?run = "render_fragment_body (sample_engine ?partials []) card_call"
  let ?st = "\<lambda>t. \<lparr>rs_context = titled t, rs_cache = empty_cache\<rparr>"
  have clear: "clear_rendering ?run (?st t)" if t: "t \<in> {''One'', ''Two''}" for t
  proof -
    have "recording_of ?run (?st t) = \<lparr>rc_reads = [(''title'', dquote @ t @ dquote)], rc_bound = [], rc_replayable = True\<rparr>"
      using t sample_cards(3) by auto
    moreover have "dquote @ t @ dquote = told (VString t)"
      using t by (elim insertE emptyE; simp only:; code_simp)
    moreover have "plain_value (VString t)"
      by (simp add: plain_value_def nesting.simps)
    ultimately show ?thesis
      using titled_clear [of t] by (auto simp: clear_rendering_def clear_read_def)
  qed
  have "serve_fragment (sample_engine ?partials []) card_call [titled ''One'', titled ''Two'', titled ''One''] empty_cache =
      map (\<lambda>c. fst (?run \<lparr>rs_context = c, rs_cache = empty_cache\<rparr>)) [titled ''One'', titled ''Two'', titled ''One'']"
  proof (rule cached_fragments_are_rendered [where page = "titled ''One''"])
    show "sample_engine ?partials [] = \<lparr>en_options = sample_options ?partials [], en_template = ''layout'',
        en_deeper = Some (render_template 2 (sample_options ?partials []))\<rparr>"
      by (simp add: sample_engine_def)
    show "\<forall>find_partial. ro_partial (sample_options ?partials []) = Some find_partial \<longrightarrow>
        (\<forall>asked p. find_partial asked = Some p \<longrightarrow> fragment_free (ht_root p))"
      using sample_cards(1) by (auto simp: sample_options_def split: if_splits)
    show "\<forall>i arguments. engine_call_of card_call \<noteq> Fragment_Call i arguments"
      using sample_cards(2) by (auto split: engine_call.splits)
    show "\<forall>c \<in> set [titled ''One'', titled ''Two'', titled ''One'']. same_shape (titled ''One'') c \<and>
        clear_rendering ?run \<lparr>rs_context = c, rs_cache = empty_cache\<rparr>"
      using clear by (simp add: same_shape_def titled_stores)
  qed (simp add: sample_options_def)
  then show ?thesis
    using sample_cards(4) by simp
qed

section \<open>Where a cached fragment is not what rendering gives\<close>

text \<open>
  A name read with two values leaves the recording not replayable, but the fragment is stored, and
  found, under the first value all the same. A loop variable named like a value of the page is
  enough: the second page is served the first page's card.
\<close>

definition heading_call :: node where
  "heading_call = expression_of ''render(:partial<card>, :locals({heading: $title}))''"

lemma stale_fragment_served:
  "serve_fragment (sample_engine [(''card'', ''= $heading'' @ line_end @ ''= title'')] []) heading_call
     (map (\<lambda>t. set_local ''title'' (VString ''A'') (titled t)) [''One'', ''Two'']) empty_cache =
     [Rendered (''A'' @ line_end @ ''One'' @ line_end), Rendered (''A'' @ line_end @ ''One'' @ line_end)] \<and>
   fst (render_fragment_body (sample_engine [(''card'', ''= $heading'' @ line_end @ ''= title'')] []) heading_call
     \<lparr>rs_context = set_local ''title'' (VString ''A'') (titled ''Two''), rs_cache = empty_cache\<rparr>) =
     Rendered (''A'' @ line_end @ ''Two'' @ line_end)"
  by code_simp

text \<open>
  The key says nothing of the partials a section has, nor of the page body a \<open>yield\<close> writes: with one
  cache, another section's card and another page's body are served.
\<close>

definition served_twice :: "engine \<Rightarrow> engine \<Rightarrow> string rendered list" where
  "served_twice first second =
     (let (outcome, st) = cached_fragment first card_call (render_fragment_body first card_call)
            \<lparr>rs_context = titled ''One'', rs_cache = empty_cache\<rparr>
      in [outcome, fst (cached_fragment second card_call (render_fragment_body second card_call) st),
          fst (render_fragment_body second card_call st)])"

lemma fragment_of_other_section_served:
  "served_twice (sample_engine [(''card'', ''%p= title'')] []) (sample_engine [(''card'', ''%b= title'')] []) =
     [Rendered (''<p>One</p>'' @ line_end), Rendered (''<p>One</p>'' @ line_end), Rendered (''<b>One</b>'' @ line_end)]"
  by code_simp

lemma fragment_with_other_body_served:
  "served_twice (sample_engine [(''card'', ''= yield'')] ''first'') (sample_engine [(''card'', ''= yield'')] ''second'') =
     [Rendered (''first'' @ line_end), Rendered (''first'' @ line_end), Rendered (''second'' @ line_end)]"
  by code_simp

end
