(* ===== verification/TemplateStores.thy ===== *)
theory TemplateStores
  imports Templates
begin

text \<open>
  The store of a site's templates (\<open>template_store.cpp\<close>): compiling every template file of the search
  paths, and finding one by its name from a section. A search path is the list of the regular files
  below it, each with its path from there, its full path and its text, or nothing when it is not a
  directory; walking the directory and reading the files is the operating system's part.
\<close>

type_synonym listed_file = "string list \<times> string \<times> string"

definition path_text :: "string list \<Rightarrow> string" where
  "path_text parts = join_with (CHR ''/'') parts"

text \<open>\<open>extension() == ".haml"\<close>: a name that is nothing else has no extension.\<close>

definition is_haml_file :: "listed_file \<Rightarrow> bool" where
  "is_haml_file file \<longleftrightarrow> ends_with (last (fst file)) ''.haml'' \<and> last (fst file) \<noteq> ''.haml''"

definition template_name :: "string list \<Rightarrow> string" where
  "template_name parts =
     (let relative = path_text parts in
      if ends_with relative ''.html.haml'' then take (length relative - 10) relative
      else if ends_with relative ''.haml'' then take (length relative - 5) relative
      else relative)"

record template_store =
  ts_templates :: "(string \<times> haml_template) list"
  ts_sources :: string

text \<open>The files of a search path in the order they are read: paths compare name by name.\<close>

definition path_files :: "listed_file list option \<Rightarrow> listed_file list" where
  "path_files directory =
     (case directory of None \<Rightarrow> [] | Some files \<Rightarrow> sort_key fst (filter is_haml_file files))"

definition store_file :: "listed_file \<Rightarrow> template_store \<Rightarrow> template_store parsed" where
  "store_file file store =
     (case file of
        (parts, path, source) \<Rightarrow>
          if map_of (ts_templates store) (template_name parts) \<noteq> None then Inr store
          else
            (case compile_template source path of
               Inl e \<Rightarrow> Inl (e\<lparr>pe_message := path @ '': '' @ pe_message e\<rparr>)
             | Inr t \<Rightarrow>
                 Inr \<lparr>ts_templates = ts_templates store @ [(template_name parts, t)],
                      ts_sources = ts_sources store @ source @ [CHR 0x0A]\<rparr>))"

fun store_files :: "listed_file list \<Rightarrow> template_store \<Rightarrow> template_store parsed" where
  "store_files [] store = Inr store"
| "store_files (file # files) store = bind_parsed (store_file file store) (store_files files)"

definition load_templates :: "listed_file list option list \<Rightarrow> template_store parsed" where
  "load_templates search_paths =
     store_files (concat (map path_files search_paths)) \<lparr>ts_templates = [], ts_sources = []\<rparr>"

text \<open>The directory above one: what comes before its last slash.\<close>

definition directory_above :: "string \<Rightarrow> string" where
  "directory_above directory =
     (case find_last_pos (\<lambda>c. c = CHR ''/'') directory of None \<Rightarrow> [] | Some separator \<Rightarrow> take separator directory)"

lemma directory_above_shorter: "directory \<noteq> [] \<Longrightarrow> length (directory_above directory) < length directory"
  using find_last_pos_Some [of "\<lambda>c. c = CHR ''/''" directory]
  by (auto simp: directory_above_def split: option.split)

function find_from :: "(string \<times> haml_template) list \<Rightarrow> string \<Rightarrow> string \<Rightarrow> haml_template option" where
  "find_from templates name directory =
     (case map_of templates (if directory = [] then name else directory @ ''/'' @ name) of
        Some t \<Rightarrow> Some t
      | None \<Rightarrow> if directory = [] then None else find_from templates name (directory_above directory))"
  by pat_completeness auto
termination
  by (relation "measure (\<lambda>(_, _, directory). length directory)") (auto simp: directory_above_shorter)

declare find_from.simps [simp del]

definition find_template :: "template_store \<Rightarrow> string \<Rightarrow> string \<Rightarrow> haml_template option" where
  "find_template store name here = find_from (ts_templates store) name here"

definition find_partial :: "template_store \<Rightarrow> string \<Rightarrow> string \<Rightarrow> haml_template option" where
  "find_partial store name here = find_template store (CHR ''_'' # name) here"

definition mentions :: "template_store \<Rightarrow> string \<Rightarrow> bool" where
  "mentions store word \<longleftrightarrow> contains (ts_sources store) word"

definition store_names :: "template_store \<Rightarrow> string list" where
  "store_names store = sort (map fst (ts_templates store))"

section \<open>The first file of a name is the template\<close>

definition named_file :: "string \<Rightarrow> listed_file list \<Rightarrow> listed_file option" where
  "named_file name files = find (\<lambda>file. template_name (fst file) = name) files"

definition file_template :: "listed_file \<Rightarrow> haml_template option" where
  "file_template file = (case compile_template (snd (snd file)) (fst (snd file)) of Inl e \<Rightarrow> None | Inr t \<Rightarrow> Some t)"

lemma store_files_first:
  "store_files files store = Inr store' \<Longrightarrow>
   map_of (ts_templates store') name =
     (case map_of (ts_templates store) name of
        Some t \<Rightarrow> Some t
      | None \<Rightarrow> (case named_file name files of None \<Rightarrow> None | Some file \<Rightarrow> file_template file))"
proof (induction files arbitrary: store)
  case Nil
  then show ?case by (simp add: named_file_def split: option.split)
next
  case (Cons entry files)
  obtain parts path source where whole: "entry = (parts, path, source)" by (cases entry)
  obtain store1 where step: "store_file entry store = Inr store1" "store_files files store1 = Inr store'"
    using Cons.prems by (auto simp: outcome_simps)
  show ?case
  proof (cases "map_of (ts_templates store) (template_name parts)")
    case (Some t)
    then have "store1 = store" using step(1) by (simp add: store_file_def whole)
    then show ?thesis
      using Cons.IH [OF step(2)] Some by (auto simp: named_file_def whole split: option.splits)
  next
    case None
    then obtain t where t: "compile_template source path = Inr t"
        "store1 = \<lparr>ts_templates = ts_templates store @ [(template_name parts, t)], ts_sources = ts_sources store @ source @ [CHR 0x0A]\<rparr>"
      using step(1) by (auto simp: store_file_def whole split: sum.splits)
    then show ?thesis
      using Cons.IH [OF step(2)] None
      by (auto simp: named_file_def file_template_def whole map_add_def split: option.splits)
  qed
qed

text \<open>Every first file of its name compiled, or loading would have stopped at it.\<close>

lemma store_files_compiled:
  "store_files files store = Inr store' \<Longrightarrow> named_file name files = Some f \<Longrightarrow>
   map_of (ts_templates store) name = None \<Longrightarrow> file_template f \<noteq> None"
proof (induction files arbitrary: store)
  case (Cons entry files)
  obtain parts path source where whole: "entry = (parts, path, source)" by (cases entry)
  obtain store1 where step: "store_file entry store = Inr store1" "store_files files store1 = Inr store'"
    using Cons.prems(1) by (auto simp: outcome_simps)
  show ?case
  proof (cases "template_name parts = name")
    case True
    then show ?thesis
      using Cons.prems(2,3) step(1)
      by (auto simp: named_file_def whole store_file_def file_template_def split: sum.splits)
  next
    case False
    then have "map_of (ts_templates store1) name = None" "named_file name files = Some f"
      using Cons.prems(2,3) step(1)
      by (auto simp: named_file_def whole store_file_def map_add_def split: if_splits sum.splits)
    then show ?thesis using Cons.IH [OF step(2)] by blast
  qed
qed (simp add: named_file_def)

lemma loaded_file:
  "load_templates search_paths = Inr store \<Longrightarrow>
   named_file name (concat (map path_files search_paths)) = Some f \<Longrightarrow> file_template f \<noteq> None"
  unfolding load_templates_def by (erule store_files_compiled) simp_all

section \<open>The nearest directory answers\<close>

lemma path_text_append: "xs \<noteq> [] \<Longrightarrow> ys \<noteq> [] \<Longrightarrow> path_text (xs @ ys) = path_text xs @ CHR ''/'' # path_text ys"
proof (induction xs)
  case (Cons x xs)
  then show ?case by (cases "xs = []"; cases ys; cases xs) (auto simp: path_text_def)
qed simp

lemma path_text_one [simp]: "path_text [x] = x" "path_text [] = []"
  by (simp_all add: path_text_def)

definition section_parts :: "string list \<Rightarrow> bool" where
  "section_parts parts \<longleftrightarrow> list_all (\<lambda>part. part \<noteq> [] \<and> CHR ''/'' \<notin> set part) parts"

lemma path_text_empty: "section_parts parts \<Longrightarrow> path_text parts = [] \<longleftrightarrow> parts = []"
  by (cases parts; cases "tl parts") (auto simp: path_text_def section_parts_def)

lemma above_last:
  assumes "section_parts (parts @ [part])"
  shows "directory_above (path_text (parts @ [part])) = path_text parts"
proof -
  have none: "find_last_pos (\<lambda>c. c = CHR ''/'') part = None"
    using assms by (auto simp: section_parts_def find_last_pos_None)
  show ?thesis
  proof (cases "parts = []")
    case True
    then show ?thesis using none by (simp add: directory_above_def)
  next
    case False
    have "find_last_pos (\<lambda>c. c = CHR ''/'') (xs @ CHR ''/'' # part) = Some (length xs)" for xs :: string
      using none by (induction xs) simp_all
    with False show ?thesis
      by (simp add: path_text_append directory_above_def)
  qed
qed

lemma find_from_nearest:
  "section_parts parts \<Longrightarrow>
   find_from templates name (path_text parts) =
     (case find (\<lambda>k. map_of templates (path_text (take k parts @ [name])) \<noteq> None) (rev [0..<Suc (length parts)]) of
        None \<Rightarrow> None
      | Some k \<Rightarrow> map_of templates (path_text (take k parts @ [name])))"
proof (induction parts rule: rev_induct)
  case Nil
  then show ?case by (subst find_from.simps) (simp split: option.split)
next
  case (snoc part parts)
  have parts: "section_parts parts" using snoc.prems by (simp add: section_parts_def)
  have here: "path_text (parts @ [part]) \<noteq> []"
    using path_text_empty [OF snoc.prems] by simp
  have joined: "path_text (parts @ [part, name]) = path_text (parts @ [part]) @ CHR ''/'' # name"
    using path_text_append [of "parts @ [part]" "[name]"] by simp
  define depths where "depths = rev [0..<Suc (length parts)]"
  have all: "rev [0..<Suc (length (parts @ [part]))] = Suc (length parts) # depths"
    by (simp add: depths_def)
  have same: "take k (parts @ [part]) = take k parts" if "k \<in> set depths" for k
    using that by (auto simp: depths_def)
  have shorter: "find (\<lambda>k. map_of templates (path_text (take k (parts @ [part]) @ [name])) \<noteq> None) depths =
      find (\<lambda>k. map_of templates (path_text (take k parts @ [name])) \<noteq> None) depths"
    using same by (intro find_cong) auto
  have found: "k \<in> set depths" if "find P depths = Some k" for P k
    using that by (metis find_Some_iff nth_mem)
  have "find_from templates name (path_text (parts @ [part])) =
      (case map_of templates (path_text (parts @ [part, name])) of
         Some t \<Rightarrow> Some t | None \<Rightarrow> find_from templates name (path_text parts))"
    using here above_last [OF snoc.prems] by (subst find_from.simps) (simp add: joined split: option.split)
  then show ?case
    unfolding all using shorter found same snoc.IH [OF parts, folded depths_def]
    by (cases "map_of templates (path_text (parts @ [part, name]))") (auto split: option.split)
qed

text \<open>
  C35. What a page is rendered with. Loading never puts a template under a name twice, so a name is the
  first file of that name, in the order of the search paths and then of the paths of the files: a
  site's own file hides a theme's. Asked from a section, a name is looked for in the section's
  directory, then in each directory above it, then at the root, and the nearest directory that has
  such a file answers; when none has, nothing is found.
\<close>

theorem nearest_first_file_found:
  assumes "load_templates search_paths = Inr store" and "section_parts parts"
  shows "find_template store name (path_text parts) =
    (case find (\<lambda>k. named_file (path_text (take k parts @ [name])) (concat (map path_files search_paths)) \<noteq> None)
        (rev [0..<Suc (length parts)]) of
       None \<Rightarrow> None
     | Some k \<Rightarrow>
         Option.bind (named_file (path_text (take k parts @ [name])) (concat (map path_files search_paths))) file_template)"
proof -
  let ?files = "concat (map path_files search_paths)"
  have stored: "map_of (ts_templates store) n = Option.bind (named_file n ?files) file_template" for n
    using store_files_first [OF assms(1) [unfolded load_templates_def], of n] by (simp split: option.split)
  have compiled: "file_template f \<noteq> None" if "named_file n ?files = Some f" for n f
    using loaded_file [OF assms(1) that] .
  have "(map_of (ts_templates store) n \<noteq> None) = (named_file n ?files \<noteq> None)" for n
    using compiled by (cases "named_file n ?files") (auto simp: stored)
  then show ?thesis
    unfolding find_template_def find_from_nearest [OF assms(2)] by (simp only: stored)
qed

definition sample_paths :: "listed_file list option list" where
  "sample_paths =
     [Some [([''docs'', ''_nav.haml''], ''site/docs/_nav.haml'', ''%b'')], None,
      Some [([''show.haml''], ''theme/show.haml'', ''%i''), ([''_nav.haml''], ''theme/_nav.haml'', ''%p''),
        ([''docs'', ''_nav.html.haml''], ''theme/docs/_nav.html.haml'', ''%s'')]]"

theorem nearest_first_file_found_witness:
  "\<exists>store. load_templates sample_paths = Inr store \<and>
     map_option ht_name (find_template store ''_nav'' (path_text [''docs'', ''api''])) = Some ''site/docs/_nav.haml''"
proof -
  have "case load_templates sample_paths of Inl e \<Rightarrow> False | Inr store \<Rightarrow> True"
    by code_simp
  then obtain store where store: "load_templates sample_paths = Inr store"
    by (auto split: sum.splits)
  have "section_parts [''docs'', ''api'']"
    by code_simp
  note found = nearest_first_file_found [OF store this, of "''_nav''"]
  have "map_option ht_name (case find (\<lambda>k. named_file (path_text (take k [''docs'', ''api''] @ [''_nav''])) (concat (map path_files sample_paths)) \<noteq> None)
        (rev [0..<Suc (length [''docs'', ''api''])]) of
       None \<Rightarrow> None
     | Some k \<Rightarrow> Option.bind (named_file (path_text (take k [''docs'', ''api''] @ [''_nav''])) (concat (map path_files sample_paths)))
         file_template) = Some ''site/docs/_nav.haml''"
    by code_simp
  then show ?thesis
    unfolding found [symmetric] using store by blast
qed

end
