(* ===== verification/MarkdownTree.thy ===== *)
theory MarkdownTree
  imports Main
begin

text \<open>
  The tree the Markdown parser makes and the renderer walks (\<open>markdown.h\<close>): the kind of a node, the
  fields both halves use, and the children.
\<close>

section \<open>The tree\<close>

datatype md_kind =
  K_Document | K_Block_Quote | K_List | K_Item | K_Paragraph | K_Heading | K_Code_Block | K_Html_Block |
  K_Thematic_Break | K_Table | K_Table_Row | K_Table_Cell | K_Definition_List | K_Definition_Term |
  K_Definition_Detail | K_Footnotes | K_Footnote_Item | K_Shortcode | K_Text | K_Soft_Break | K_Line_Break |
  K_Code_Span | K_Html_Inline | K_Emphasis | K_Strong | K_Strikethrough | K_Link | K_Image | K_Footnote_Ref | K_Math

datatype alignment = Align_None | Align_Left | Align_Center | Align_Right

record md_fields =
  f_level :: int
  f_literal :: string
  f_info :: string
  f_url :: string
  f_title :: string
  f_ordered :: bool
  f_tight :: bool
  f_start :: int
  f_task :: bool
  f_checked :: bool
  f_header :: bool
  f_alignment :: alignment
  f_attributes :: "(string \<times> string) list"
  f_label :: string
  f_number :: int
  f_occurrence :: int
  f_display :: bool
  f_raw :: string

datatype md_node = Md_Node (md_kind: md_kind) (md_fields: md_fields) (md_children: "md_node list")

end
