(* ===== verification/Frameworks.thy ===== *)
theory Frameworks
  imports Prelude
begin

text \<open>
  The CSS frameworks (\<open>framework.cpp\<close>): a table of profiles, each with the classes it has for the
  slots the renderer asks for. The exception of \<open>Framework::profile\<close> is the value \<open>Inl\<close> of its message.
\<close>

record framework_profile =
  fp_name :: string
  fp_stylesheet :: string
  fp_script :: string
  fp_slots :: "(string \<times> string) list"

definition known_profiles :: "framework_profile list" where
  "known_profiles = [
     \<lparr>fp_name = ''none'', fp_stylesheet = [], fp_script = [], fp_slots = []\<rparr>,
     \<lparr>fp_name = ''bootstrap5'',
       fp_stylesheet = ''https://cdn.jsdelivr.net/npm/bootstrap@5.3.3/dist/css/bootstrap.min.css'',
       fp_script = ''https://cdn.jsdelivr.net/npm/bootstrap@5.3.3/dist/js/bootstrap.bundle.min.js'',
       fp_slots = [(''table'', ''table''), (''blockquote'', ''blockquote''), (''image'', ''img-fluid''),
         (''pagination-list'', ''pagination''), (''pagination-item'', ''page-item''), (''pagination-link'', ''page-link''),
         (''pagination-active-item'', ''active''), (''nav'', ''nav''), (''container'', ''container''),
         (''tag'', ''badge text-bg-secondary''), (''post-nav-button'', ''btn btn-primary'')]\<rparr>,
     \<lparr>fp_name = ''pico'', fp_stylesheet = ''https://cdn.jsdelivr.net/npm/@picocss/pico@2/css/pico.min.css'', fp_script = [],
       fp_slots = [(''container'', ''container'')]\<rparr>,
     \<lparr>fp_name = ''bulma'', fp_stylesheet = ''https://cdn.jsdelivr.net/npm/bulma@1/css/bulma.min.css'', fp_script = [],
       fp_slots = [(''article'', ''content''), (''table'', ''table''), (''image'', ''image''),
         (''pagination-nav'', ''pagination''), (''pagination-list'', ''pagination-list''),
         (''pagination-link'', ''pagination-link''), (''pagination-active-link'', ''is-current''),
         (''nav'', ''navbar''), (''container'', ''container''), (''tag'', ''tag''), (''post-nav-button'', ''button'')]\<rparr>]"

text \<open>The first profile of a name.\<close>

fun find_profile :: "string \<Rightarrow> framework_profile list \<Rightarrow> framework_profile option" where
  "find_profile name [] = None"
| "find_profile name (p # profiles) = (if fp_name p = name then Some p else find_profile name profiles)"

definition framework_names :: "string list" where
  "framework_names = map fp_name known_profiles"

record framework =
  fw_name :: string
  fw_stylesheet :: string
  fw_script :: string

fun comma_names :: "string list \<Rightarrow> string" where
  "comma_names [] = []"
| "comma_names [name] = name"
| "comma_names (name # names) = name @ '', '' @ comma_names names"

definition framework_of :: "string \<Rightarrow> string + framework" where
  "framework_of name =
     (case find_profile name known_profiles of
        None \<Rightarrow> Inl (''unknown css-framework '' @ [CHR 0x27] @ name @ [CHR 0x27] @ '' (known: '' @ comma_names framework_names @ '')'')
      | Some p \<Rightarrow> Inr \<lparr>fw_name = fp_name p, fw_stylesheet = fp_stylesheet p, fw_script = fp_script p\<rparr>)"

definition class_for :: "framework \<Rightarrow> string \<Rightarrow> string" where
  "class_for fw slot =
     (case find_profile (fw_name fw) known_profiles of
        None \<Rightarrow> []
      | Some p \<Rightarrow> (case map_of (fp_slots p) slot of None \<Rightarrow> [] | Some v \<Rightarrow> v))"

lemma find_profile_Some: "find_profile name profiles = Some p \<Longrightarrow> p \<in> set profiles \<and> fp_name p = name"
  by (induction profiles) (auto split: if_splits)

lemma known_frameworks: "framework_of name = Inr fw \<Longrightarrow> name \<in> set framework_names \<and> fw_name fw = name"
  using find_profile_Some [of name known_profiles]
  by (auto simp: framework_of_def framework_names_def simp del: find_profile.simps split: option.splits)

end
