(* ===== verification/Highlights.thy ===== *)
theory Highlights
  imports Escapes
begin

text \<open>
  The highlighter (\<open>highlight.cpp\<close>): keywords, strings, numbers and comments of a dozen languages,
  each wrapped in a span, everything else escaped. \<open>hl_loop\<close> is the loop of \<open>render\<close> over the code
  that is left; one turn of it takes the token \<open>hl_token\<close> names.
\<close>

section \<open>Languages\<close>

record language =
  ln_comment :: string
  ln_keywords :: "string list"

definition languages_by_name :: "(string \<times> language) list" where
  "languages_by_name = [
     (''raku'', \<lparr>ln_comment = ''#'', ln_keywords = words (''my our sub method class role grammar token rule regex has is does return if '' @
        ''elsif else unless for while loop given when default use need unit module multi '' @ ''proto enum constant'')\<rparr>),
     (''ruby'', \<lparr>ln_comment = ''#'', ln_keywords = words (''def end class module if elsif else unless case when while until do return yield '' @
        ''require attr_accessor new self nil true false'')\<rparr>),
     (''python'', \<lparr>ln_comment = ''#'', ln_keywords = words (''def class if elif else for while return import from as with try except finally '' @
        ''lambda pass yield None True False and or not in is'')\<rparr>),
     (''javascript'', \<lparr>ln_comment = ''//'', ln_keywords = words (''function var let const if else for while return class new this import '' @
        ''export from async await try catch throw typeof of'')\<rparr>),
     (''bash'', \<lparr>ln_comment = ''#'', ln_keywords = words (''if then elif else fi for in do done while until case esac function echo return '' @
        ''export local'')\<rparr>),
     (''json'', \<lparr>ln_comment = [], ln_keywords = []\<rparr>),
     (''c'', \<lparr>ln_comment = ''//'', ln_keywords = words (''int char short long float double void unsigned signed const static struct union '' @
        ''enum typedef sizeof if else for while do switch case default break continue '' @ ''return goto extern'')\<rparr>),
     (''cpp'', \<lparr>ln_comment = ''//'', ln_keywords = words (''int char bool float double void auto const static struct class namespace '' @
        ''template typename public private protected virtual if else for while do switch '' @
        ''case default break continue return new delete this using nullptr true false '' @ ''enum union'')\<rparr>),
     (''java'', \<lparr>ln_comment = ''//'', ln_keywords = words (''public private protected class interface extends implements static final void '' @
        ''int long double boolean char new return if else for while do switch case '' @
        ''default break continue this super import package try catch finally throw '' @ ''throws null true false'')\<rparr>),
     (''go'', \<lparr>ln_comment = ''//'', ln_keywords = words (''func package import var const type struct interface map chan go defer if else '' @
        ''for range switch case default break continue return nil true false new make'')\<rparr>),
     (''rust'', \<lparr>ln_comment = ''//'', ln_keywords = words (''fn let mut const static struct enum impl trait pub use mod match if else for '' @
        ''while loop return self where as ref move dyn true false None Some Ok Err'')\<rparr>),
     (''typescript'', \<lparr>ln_comment = ''//'', ln_keywords = words (''function const let var interface type class enum public private protected '' @
        ''readonly extends implements import export from if else for while return '' @
        ''new this async await try catch throw typeof of as null undefined true '' @ ''false'')\<rparr>)]"

definition first_word :: "string \<Rightarrow> string" where
  "first_word info = (case words info of [] \<Rightarrow> [] | w # _ \<Rightarrow> to_lower_ascii w)"

definition supports :: "string \<Rightarrow> bool" where
  "supports name \<longleftrightarrow> map_of languages_by_name (first_word name) \<noteq> None"

section \<open>Tokens\<close>

definition hl_escape :: "string \<Rightarrow> string" where
  "hl_escape s = concat (map html_entity s)"

definition span :: "string \<Rightarrow> string \<Rightarrow> string" where
  "span kind body = ''<span class='' @ [CHR 0x22] @ ''hl-'' @ kind @ [CHR 0x22] @ ''>'' @ hl_escape body @ ''</span>''"

definition hl_word_character :: "char \<Rightarrow> bool" where
  "hl_word_character c \<longleftrightarrow> is_alphanumeric c \<or> c = CHR ''_''"

text \<open>How far the loop inside quotes goes from the character after the opening one.\<close>

fun quote_scan :: "char \<Rightarrow> string \<Rightarrow> nat" where
  "quote_scan quote [] = 0"
| "quote_scan quote [c] = (if c = quote then 0 else 1)"
| "quote_scan quote (c # d # s) =
     (if c = quote then 0
      else if c = CHR 0x5C then 2 + quote_scan quote s
      else 1 + quote_scan quote (d # s))"

text \<open>The kind of the span, when there is one, and the length of the token at the front.\<close>

definition hl_token :: "language \<Rightarrow> string \<Rightarrow> string option \<times> nat" where
  "hl_token ln rest =
     (let c = hd rest; scan = 1 + quote_scan c (tl rest) in
      if ln_comment ln \<noteq> [] \<and> starts_with rest (ln_comment ln) then
        (Some ''comment'', length (takeWhile (\<lambda>c. c \<noteq> CHR 0x0A) rest))
      else if (c = CHR 0x22 \<or> c = CHR 0x27) \<and> scan < length rest then (Some ''string'', scan + 1)
      else if is_digit c then
        (Some ''number'', length (takeWhile (\<lambda>c. is_digit c \<or> c = CHR ''.'') rest))
      else if hl_word_character c then
        (let token = takeWhile hl_word_character rest in
         (if token \<in> set (ln_keywords ln) then Some ''keyword'' else None, length token))
      else (None, 1))"

text \<open>
  The loop has no test for a token of no length, with which it would never end; here it stops there,
  and \<open>hl_token_pos\<close> shows that no language has such a token.
\<close>

function hl_loop :: "language \<Rightarrow> string \<Rightarrow> string" where
  "hl_loop ln rest =
     (if rest = [] then []
      else
        (let (kind, size) = hl_token ln rest;
             shown = (case kind of Some k \<Rightarrow> span k (take size rest) | None \<Rightarrow> hl_escape (take size rest))
         in if size = 0 then shown else shown @ hl_loop ln (drop size rest)))"
  by pat_completeness auto
termination
  by (relation "measure (\<lambda>(ln, rest). length rest)") auto

definition hl_render :: "string \<Rightarrow> string \<Rightarrow> string" where
  "hl_render code name =
     (case map_of languages_by_name (first_word name) of
        None \<Rightarrow> hl_escape code
      | Some ln \<Rightarrow> hl_loop ln code)"

declare hl_loop.simps [simp del]

section \<open>Highlighting loses nothing\<close>

lemma hl_escape_escaped [simp]: "hl_escape s = escaped s"
  by (simp add: hl_escape_def escaped_def)

lemma comment_not_newline: "map_of languages_by_name name = Some ln \<Longrightarrow> starts_with rest (ln_comment ln) \<Longrightarrow>
  ln_comment ln \<noteq> [] \<Longrightarrow> rest \<noteq> [] \<and> hd rest \<noteq> CHR 0x0A"
  by (cases rest) (auto simp: languages_by_name_def split: if_splits)

text \<open>Every token takes something, so the loop ends with nothing left.\<close>

lemma hl_token_pos:
  assumes "map_of languages_by_name name = Some ln" and "rest \<noteq> []"
  shows "0 < snd (hl_token ln rest)"
proof -
  obtain c s where rest: "rest = c # s" using assms(2) by (cases rest) auto
  then show ?thesis
    using comment_not_newline [OF assms(1), of rest] by (auto simp: hl_token_def Let_def)
qed

lemma span_outside: "CHR ''>'' \<notin> set kind \<Longrightarrow> outside_tags False (span kind body @ t) = escaped body @ outside_tags False t"
proof -
  assume "CHR ''>'' \<notin> set kind"
  then have opened: "CHR ''>'' \<notin> set (''span class='' @ [CHR 0x22] @ ''hl-'' @ kind @ [CHR 0x22])"
    by simp
  have "span kind body @ t = CHR ''<'' # (''span class='' @ [CHR 0x22] @ ''hl-'' @ kind @ [CHR 0x22]) @ CHR ''>'' #
      (escaped body @ CHR ''<'' # ''/span'' @ CHR ''>'' # t)"
    by (simp add: span_def)
  then show ?thesis
    by (simp only: outside_tags.simps outside_tag [OF opened] outside_escaped) simp
qed

lemma hl_token_kind: "fst (hl_token ln rest) = Some kind \<Longrightarrow> CHR ''>'' \<notin> set kind"
  by (auto simp: hl_token_def Let_def split: if_splits)

lemma hl_loop_outside:
  "map_of languages_by_name name = Some ln \<Longrightarrow> outside_tags False (hl_loop ln rest) = escaped rest"
proof (induction "length rest" arbitrary: rest rule: less_induct)
  case less
  show ?case
  proof (cases "rest = []")
    case False
    obtain kind n where token: "hl_token ln rest = (kind, n)" by fastforce
    have pos: "0 < n" using hl_token_pos [OF less.prems False] token by simp
    have kind: "CHR ''>'' \<notin> set k" if "kind = Some k" for k
      using hl_token_kind [of ln rest k] token that by simp
    have "outside_tags False (hl_loop ln (drop n rest)) = escaped (drop n rest)"
      using less False pos by simp
    then have "outside_tags False (hl_loop ln rest) = escaped (take n rest) @ escaped (drop n rest)"
      using pos False kind by (subst hl_loop.simps) (simp add: token span_outside split: option.split)
    then show ?thesis by (simp flip: escaped_append)
  qed (simp add: hl_loop.simps)
qed

text \<open>
  Highlighting adds spans and nothing else: without its tags, what is written for a piece of
  code is the code escaped, in every language, so no character of the code is lost, repeated or
  turned into markup.
\<close>

theorem highlighting_keeps_code: "outside_tags False (hl_render code name) = escaped code"
  using hl_loop_outside outside_escaped [of code "[]"]
  by (simp add: hl_render_def split: option.split)

end
