(* ===== verification/Shortcodes.thy ===== *)
theory Shortcodes
  imports Escapes
begin

text \<open>
  Shortcodes (\<open>shortcode.cpp\<close>): the arguments of a call, the built-in ones, and templates whose
  placeholders are filled with escaped arguments. A registry is the list of its templates, by name;
  reading them from the directory is not modelled.
\<close>

section \<open>Arguments\<close>

type_synonym sc_argument = "string \<times> string"

definition sc_name_character :: "char \<Rightarrow> bool" where
  "sc_name_character c \<longleftrightarrow> is_alphanumeric c \<or> c = CHR ''-'' \<or> c = CHR ''_''"

definition sc_blank :: "char \<Rightarrow> bool" where
  "sc_blank c \<longleftrightarrow> c = CHR '' '' \<or> c = CHR 0x09"

text \<open>
  One turn of the loop: nothing when there is no name left, otherwise the argument, when the name
  has a quoted value, and what is left.
\<close>

definition sc_turn :: "string \<Rightarrow> (sc_argument option \<times> string) option" where
  "sc_turn raw =
     (let named = dropWhile (\<lambda>c. \<not> sc_name_character c) raw;
          name = takeWhile sc_name_character named;
          after = dropWhile sc_blank (dropWhile sc_name_character named)
      in if name = [] then None
         else if after = [] \<or> hd after \<noteq> CHR ''='' then Some (None, after)
         else
           (let quoted = dropWhile sc_blank (tl after) in
            if quoted = [] \<or> hd quoted \<noteq> CHR 0x22 \<and> hd quoted \<noteq> CHR 0x27 then Some (None, quoted)
            else (let open_quote = (\<lambda>c. c \<noteq> hd quoted) in
              Some (Some (name, takeWhile open_quote (tl quoted)), drop 1 (dropWhile open_quote (tl quoted))))))"

lemma sc_turn_shorter:
  assumes turn: "sc_turn raw = Some (found, rest)"
  shows "length rest < length raw"
proof -
  define named where "named = dropWhile (\<lambda>c. \<not> sc_name_character c) raw"
  define name where "name = takeWhile sc_name_character named"
  define after where "after = dropWhile sc_blank (dropWhile sc_name_character named)"
  define quoted where "quoted = dropWhile sc_blank (tl after)"
  define past where "past = drop 1 (dropWhile (\<lambda>c. c \<noteq> hd quoted) (tl quoted))"
  have choice: "(if name = [] then None else if after = [] \<or> hd after \<noteq> CHR ''='' then Some (None, after)
      else if quoted = [] \<or> hd quoted \<noteq> CHR 0x22 \<and> hd quoted \<noteq> CHR 0x27 then Some (None, quoted)
      else Some (Some (name, takeWhile (\<lambda>c. c \<noteq> hd quoted) (tl quoted)), past)) = Some (found, rest)"
    using turn unfolding sc_turn_def Let_def past_def quoted_def after_def name_def named_def .
  then have "name \<noteq> []" and rest: "rest \<in> {after, quoted, past}"
    by (auto split: if_splits)
  have "length (dropWhile sc_name_character named) < length named"
    using \<open>name \<noteq> []\<close> unfolding name_def
    by (cases named) (auto simp: le_imp_less_Suc length_dropWhile_le split: if_splits)
  moreover have "length named \<le> length raw" unfolding named_def by (rule length_dropWhile_le)
  moreover have "length after \<le> length (dropWhile sc_name_character named)"
    unfolding after_def by (rule length_dropWhile_le)
  moreover have "length quoted \<le> length (tl after)" unfolding quoted_def by (rule length_dropWhile_le)
  moreover have "length past \<le> length (dropWhile (\<lambda>c. c \<noteq> hd quoted) (tl quoted))" unfolding past_def by simp
  moreover have "length (dropWhile (\<lambda>c. c \<noteq> hd quoted) (tl quoted)) \<le> length (tl quoted)" by (rule length_dropWhile_le)
  ultimately show ?thesis using rest by auto
qed

function parse_arguments_sc :: "string \<Rightarrow> sc_argument list" where
  "parse_arguments_sc raw =
     (case sc_turn raw of
        None \<Rightarrow> []
      | Some (None, rest) \<Rightarrow> parse_arguments_sc rest
      | Some (Some found, rest) \<Rightarrow> found # parse_arguments_sc rest)"
  by pat_completeness auto
termination
  by (relation "measure length") (auto dest: sc_turn_shorter)

declare parse_arguments_sc.simps [simp del]

definition sc_argument_of :: "sc_argument list \<Rightarrow> string \<Rightarrow> string" where
  "sc_argument_of arguments name = (case map_of arguments name of None \<Rightarrow> [] | Some v \<Rightarrow> v)"

section \<open>Expansion\<close>

definition escape_attribute :: "string \<Rightarrow> string" where
  "escape_attribute s = concat (map html_entity s)"

function render_template_sc :: "sc_argument list \<Rightarrow> string \<Rightarrow> string" where
  "render_template_sc arguments body =
     (if body = [] then []
      else if \<not> starts_with body ''{{'' then hd body # render_template_sc arguments (tl body)
      else (case find_sub ''}}'' (drop 2 body) of
              None \<Rightarrow> hd body # render_template_sc arguments (tl body)
            | Some closing \<Rightarrow>
                escape_attribute (sc_argument_of arguments (trim (take closing (drop 2 body)))) @
                render_template_sc arguments (drop (2 + closing + 2) body)))"
  by pat_completeness auto
termination
  by (relation "measure (\<lambda>(arguments, body). length body)") auto

declare render_template_sc.simps [simp del]

definition is_builtin :: "string \<Rightarrow> bool" where
  "is_builtin name \<longleftrightarrow> name = ''youtube'' \<or> name = ''figure''"

definition quote_sc :: string where "quote_sc = [CHR 0x22]"

definition expand_builtin :: "string \<Rightarrow> sc_argument list \<Rightarrow> string" where
  "expand_builtin name arguments =
     (if name = ''youtube'' then
        ''<div class='' @ quote_sc @ ''video'' @ quote_sc @ ''><iframe src='' @ quote_sc @ ''https://www.youtube.com/embed/'' @
        escape_attribute (sc_argument_of arguments ''id'') @ quote_sc @ '' allowfullscreen></iframe></div>''
      else if name = ''figure'' then
        ''<figure><img src='' @ quote_sc @ escape_attribute (sc_argument_of arguments ''src'') @ quote_sc @ '' alt='' @ quote_sc @
        escape_attribute (sc_argument_of arguments ''alt'') @ quote_sc @ '' />'' @
        (if sc_argument_of arguments ''caption'' \<noteq> []
         then ''<figcaption>'' @ escape_attribute (sc_argument_of arguments ''caption'') @ ''</figcaption>'' else []) @
        ''</figure>''
      else [])"

type_synonym registry = "(string \<times> string) list"

definition registry_contains :: "registry \<Rightarrow> string \<Rightarrow> bool" where
  "registry_contains templates name \<longleftrightarrow> map_of templates name \<noteq> None \<or> is_builtin name"

definition registry_expand :: "registry \<Rightarrow> string \<Rightarrow> string \<Rightarrow> string \<Rightarrow> string" where
  "registry_expand templates name arguments source =
     (let parsed = parse_arguments_sc arguments in
      case map_of templates name of
        Some body \<Rightarrow> render_template_sc parsed body
      | None \<Rightarrow> if is_builtin name then expand_builtin name parsed else escape_attribute source)"

section \<open>Arguments are read as written\<close>

definition written_argument :: "sc_argument \<Rightarrow> string" where
  "written_argument a = '' '' @ fst a @ ''='' @ quote_sc @ snd a @ quote_sc"

definition written_arguments :: "sc_argument list \<Rightarrow> string" where
  "written_arguments arguments = concat (map written_argument arguments)"

definition writable :: "sc_argument \<Rightarrow> bool" where
  "writable a \<longleftrightarrow> fst a \<noteq> [] \<and> list_all sc_name_character (fst a) \<and> CHR 0x22 \<notin> set (snd a)"

lemma name_characters: "\<not> sc_name_character (CHR '' '')" "\<not> sc_name_character (CHR ''='')" "\<not> sc_blank (CHR ''='')"
  "\<not> sc_blank (CHR 0x22)"
  by code_simp+

lemma takeWhile_name: "list_all P xs \<Longrightarrow> \<not> P y \<Longrightarrow> takeWhile P (xs @ y # ys) = xs \<and> dropWhile P (xs @ y # ys) = y # ys"
  by (induction xs) auto

lemma sc_turn_written:
  assumes "writable a"
  shows "sc_turn (written_argument a @ rest) = Some (Some a, rest)"
proof -
  obtain name v where a: "a = (name, v)" by (cases a)
  have name: "name \<noteq> []" "list_all sc_name_character name" "CHR 0x22 \<notin> set v"
    using assms by (simp_all add: writable_def a)
  let ?after = "CHR ''='' # CHR 0x22 # v @ CHR 0x22 # rest"
  have named: "dropWhile (\<lambda>c. \<not> sc_name_character c) (written_argument a @ rest) = name @ ?after"
    using name name_characters(1) by (cases name) (auto simp: written_argument_def quote_sc_def a)
  have split: "takeWhile sc_name_character (name @ ?after) = name" "dropWhile sc_name_character (name @ ?after) = ?after"
    using takeWhile_name [OF name(2) name_characters(2)] by auto
  have quoted: "takeWhile (\<lambda>c. c \<noteq> CHR 0x22) (v @ CHR 0x22 # rest) = v"
    "dropWhile (\<lambda>c. c \<noteq> CHR 0x22) (v @ CHR 0x22 # rest) = CHR 0x22 # rest"
    using name(3) by (induction v) auto
  show ?thesis
    unfolding sc_turn_def named Let_def split
    using name(1) name_characters quoted by (simp add: a)
qed

text \<open>
  The arguments of a shortcode are read as written: from names with quoted values, of any
  number, every name and value comes back, in order.
\<close>

theorem shortcode_arguments_read:
  assumes "list_all writable arguments"
  shows "parse_arguments_sc (written_arguments arguments) = arguments"
  using assms
proof (induction arguments)
  case Nil
  then show ?case
    by (subst parse_arguments_sc.simps) (simp add: written_arguments_def sc_turn_def)
next
  case (Cons a arguments)
  then have "sc_turn (written_arguments (a # arguments)) = Some (Some a, written_arguments arguments)"
    using sc_turn_written [of a] by (simp add: written_arguments_def)
  with Cons show ?case
    by (subst parse_arguments_sc.simps) simp
qed

theorem shortcode_arguments_read_witness:
  "parse_arguments_sc ('' src='' @ quote_sc @ ''a.png'' @ quote_sc @ '' alt='' @ quote_sc @ ''it's <b>'' @ quote_sc) =
     [(''src'', ''a.png''), (''alt'', ''it's <b>'')]"
proof -
  have "list_all writable [(''src'', ''a.png''), (''alt'', ''it's <b>'')]" by code_simp
  from shortcode_arguments_read [OF this] show ?thesis
    by (simp add: written_arguments_def written_argument_def)
qed

section \<open>Arguments are not markup\<close>

definition skeleton :: "string \<Rightarrow> string" where
  "skeleton s = filter (\<lambda>c. c \<in> markup_characters) s"

lemma skeleton_simps [simp]:
  "skeleton [] = []" "skeleton (s @ t) = skeleton s @ skeleton t"
  "skeleton (c # s) = (if c \<in> markup_characters then c # skeleton s else skeleton s)"
  by (simp_all add: skeleton_def)

lemma skeleton_escaped [simp]: "skeleton (escape_attribute s) = []"
  using html.escape_quiet [of s] by (auto simp: skeleton_def escape_attribute_def filter_empty_conv)

lemma skeleton_template: "skeleton (render_template_sc arguments body) = skeleton (render_template_sc others body)"
proof (induction "length body" arbitrary: body rule: less_induct)
  case less
  have tail: "skeleton (render_template_sc arguments (tl body)) = skeleton (render_template_sc others (tl body))" if "body \<noteq> []"
    using less that by simp
  have rest: "skeleton (render_template_sc arguments (drop (Suc n) body)) = skeleton (render_template_sc others (drop (Suc n) body))"
    if "body \<noteq> []" for n
    using less that by simp
  show ?case
  proof (cases "body = []")
    case False
    note unfold = render_template_sc.simps [of arguments body] render_template_sc.simps [of others body]
    show ?thesis
      unfolding unfold using False tail rest by (simp add: add_2_eq_Suc split: option.split)
  qed (simp add: render_template_sc.simps)
qed

text \<open>
  What an author passes to a shortcode never becomes markup: the angle brackets and quotes of an
  expansion, in their order, are those of the template or the built-in alone, whatever the arguments,
  and a shortcode that does not exist shows its source escaped. Only whether the caption of a figure
  is empty changes the elements written.
\<close>

theorem shortcode_arguments_inert:
  assumes "sc_argument_of (parse_arguments_sc raw) ''caption'' = [] \<longleftrightarrow>
      sc_argument_of (parse_arguments_sc other) ''caption'' = []"
  shows "skeleton (registry_expand templates name raw source) = skeleton (registry_expand templates name other source)"
  using assms skeleton_template [of "parse_arguments_sc raw" _ "parse_arguments_sc other"]
  by (simp add: registry_expand_def expand_builtin_def Let_def split: option.split)

theorem shortcode_arguments_inert_witness:
  "skeleton (registry_expand [(''note'', ''<p>{{ body }}</p>'')] ''note'' ('' body='' @ quote_sc @ ''<script>'' @ quote_sc) []) =
   skeleton (registry_expand [(''note'', ''<p>{{ body }}</p>'')] ''note'' [] [])"
proof (rule shortcode_arguments_inert)
  show "sc_argument_of (parse_arguments_sc ('' body='' @ quote_sc @ ''<script>'' @ quote_sc)) ''caption'' = [] \<longleftrightarrow>
      sc_argument_of (parse_arguments_sc []) ''caption'' = []"
    by code_simp
qed

end
