(* ===== verification/Tocs.thy ===== *)
theory Tocs
  imports Escapes
begin

text \<open>
  The table of contents (\<open>toc.cpp\<close>): headings into a tree by level, and the tree as nested lists.
  \<open>build\<close> keeps the levels of the open entries in a vector, here a list with the last one first, and
  goes down the last entries of the tree once for each of them.
\<close>

section \<open>The tree\<close>

record heading =
  hd_level :: int
  hd_text :: string
  hd_id :: string

datatype toc_entry = Toc_Entry (te_title: string) (te_id: string) (te_level: int) (te_children: "toc_entry list")

fun push_at :: "nat \<Rightarrow> toc_entry \<Rightarrow> toc_entry list \<Rightarrow> toc_entry list" where
  "push_at 0 e entries = entries @ [e]"
| "push_at (Suc depth) e entries =
     (if entries = [] then [e]
      else (case last entries of Toc_Entry title i level children \<Rightarrow>
              butlast entries @ [Toc_Entry title i level (push_at depth e children)]))"

definition toc_step :: "heading \<Rightarrow> toc_entry list \<times> int list \<Rightarrow> toc_entry list \<times> int list" where
  "toc_step h = (\<lambda>(roots, levels).
     let shallower = dropWhile (\<lambda>level. hd_level h \<le> level) levels
     in (push_at (length shallower) (Toc_Entry (hd_text h) (hd_id h) (hd_level h) []) roots,
         hd_level h # shallower))"

definition toc_build :: "heading list \<Rightarrow> toc_entry list" where
  "toc_build headings = fst (fold toc_step headings ([], []))"

definition toc_escape :: "string \<Rightarrow> string" where
  "toc_escape s = concat (map html_entity s)"

fun toc_render :: "toc_entry list \<Rightarrow> string"
  and toc_items :: "toc_entry list \<Rightarrow> string" where
  "toc_render [] = []"
| "toc_render (e # entries) = ''<ul>'' @ toc_items (e # entries) @ ''</ul>''"
| "toc_items [] = []"
| "toc_items (Toc_Entry title i level children # entries) =
     ''<li><a href='' @ [CHR 0x22] @ ''#'' @ toc_escape i @ [CHR 0x22] @ ''>'' @ toc_escape title @ ''</a>'' @
     toc_render children @ ''</li>'' @ toc_items entries"

section \<open>The tree holds the headings\<close>

fun toc_flatten :: "toc_entry list \<Rightarrow> heading list" where
  "toc_flatten [] = []"
| "toc_flatten (Toc_Entry title i level children # entries) =
     \<lparr>hd_level = level, hd_text = title, hd_id = i\<rparr> # toc_flatten children @ toc_flatten entries"

text \<open>
  Below an entry the levels are deeper, and an entry is at most as deep as the one before it, which
  otherwise would hold it.
\<close>

fun toc_nested :: "toc_entry list \<Rightarrow> bool" where
  "toc_nested [] \<longleftrightarrow> True"
| "toc_nested (Toc_Entry title i level children # entries) \<longleftrightarrow>
     (\<forall>e \<in> set children. level < te_level e) \<and> toc_nested children \<and>
     (\<forall>e \<in> set entries. te_level e \<le> level) \<and> toc_nested entries"

text \<open>The levels along the last entries, from the top.\<close>

fun last_path :: "toc_entry list \<Rightarrow> int list" where
  "last_path [] = []"
| "last_path [Toc_Entry title i level children] = level # last_path children"
| "last_path (e # entries) = last_path entries"

lemma last_path_snoc [simp]: "last_path (entries @ [e]) = te_level e # last_path (te_children e)"
proof (induction entries)
  case Nil
  then show ?case by (cases e) simp
next
  case (Cons a entries)
  then show ?case by (cases "entries @ [e]") auto
qed

lemma toc_flatten_append [simp]: "toc_flatten (es @ fs) = toc_flatten es @ toc_flatten fs"
  by (induction es rule: toc_flatten.induct) auto

lemma toc_nested_snoc:
  "toc_nested (es @ [e]) \<longleftrightarrow> toc_nested es \<and> (\<forall>f \<in> set es. te_level e \<le> te_level f) \<and>
     (\<forall>c \<in> set (te_children e). te_level e < te_level c) \<and> toc_nested (te_children e)"
proof (induction es rule: toc_nested.induct)
  case 1
  then show ?case by (cases e) simp
qed auto

lemma last_entry: "entries \<noteq> [] \<Longrightarrow> \<exists>es title i level children. entries = es @ [Toc_Entry title i level children]"
  by (metis append_butlast_last_id toc_entry.exhaust)

lemma push_at_snoc:
  "push_at (Suc depth) e (es @ [Toc_Entry title i level children]) =
     es @ [Toc_Entry title i level (push_at depth e children)]"
  by simp

lemma toc_flatten_push:
  "depth \<le> length (last_path entries) \<Longrightarrow>
   toc_flatten (push_at depth (Toc_Entry title i level []) entries) =
     toc_flatten entries @ [\<lparr>hd_level = level, hd_text = title, hd_id = i\<rparr>]"
proof (induction depth arbitrary: entries)
  case (Suc depth)
  then have "entries \<noteq> []" by auto
  then obtain es title' i' level' children where entries: "entries = es @ [Toc_Entry title' i' level' children]"
    using last_entry by blast
  with Suc show ?case by (simp add: push_at_snoc del: push_at.simps)
qed simp

lemma last_path_push:
  "depth \<le> length (last_path entries) \<Longrightarrow>
   last_path (push_at depth (Toc_Entry title i level []) entries) = take depth (last_path entries) @ [level]"
proof (induction depth arbitrary: entries)
  case (Suc depth)
  then have "entries \<noteq> []" by auto
  then obtain es title' i' level' children where entries: "entries = es @ [Toc_Entry title' i' level' children]"
    using last_entry by blast
  with Suc show ?case by (simp add: push_at_snoc del: push_at.simps)
qed simp

text \<open>An entry put below the first levels of the path, and not above the rest of it.\<close>

lemma toc_nested_push:
  "depth \<le> length (last_path entries) \<Longrightarrow> toc_nested entries \<Longrightarrow>
   (\<forall>l \<in> set (take depth (last_path entries)). l < level) \<Longrightarrow>
   (\<forall>l \<in> set (drop depth (last_path entries)). level \<le> l) \<Longrightarrow>
   toc_nested (push_at depth (Toc_Entry title i level []) entries)"
proof (induction depth arbitrary: entries)
  case 0
  have "\<forall>f \<in> set entries. level \<le> te_level f"
  proof (cases "entries = []")
    case False
    then obtain es title' i' level' children where entries: "entries = es @ [Toc_Entry title' i' level' children]"
      using last_entry by blast
    with 0 show ?thesis by (auto simp: toc_nested_snoc)
  qed simp
  with 0 show ?case by (simp add: toc_nested_snoc)
next
  case (Suc depth)
  then have "entries \<noteq> []" by auto
  then obtain es title' i' level' children where entries: "entries = es @ [Toc_Entry title' i' level' children]"
    using last_entry by blast
  let ?pushed = "push_at depth (Toc_Entry title i level []) children"
  have "toc_nested ?pushed"
    using Suc entries by (intro Suc.IH) (simp_all add: toc_nested_snoc)
  moreover have "\<forall>c \<in> set ?pushed. level' < te_level c"
  proof (cases depth)
    case 0
    with Suc.prems entries show ?thesis by (simp add: toc_nested_snoc)
  next
    case (Suc d)
    then have "children \<noteq> []" using Suc.prems(1) entries by auto
    then obtain cs t j l ds where children: "children = cs @ [Toc_Entry t j l ds]"
      using last_entry by blast
    with Suc Suc.prems(2) entries show ?thesis
      by (simp add: toc_nested_snoc push_at_snoc del: push_at.simps)
  qed
  ultimately show ?case
    using Suc.prems entries by (simp add: toc_nested_snoc push_at_snoc del: push_at.simps)
qed

lemma increasing_dropWhile:
  assumes "sorted_wrt (>) (levels :: int list)"
  shows "\<forall>l \<in> set (dropWhile (\<lambda>l. n \<le> l) levels). l < n"
  using assms by (induction levels) (auto simp: not_le)

definition toc_ok :: "heading list \<Rightarrow> toc_entry list \<times> int list \<Rightarrow> bool" where
  "toc_ok hs st \<longleftrightarrow> (case st of (roots, levels) \<Rightarrow>
     toc_flatten roots = hs \<and> toc_nested roots \<and> last_path roots = rev levels \<and> sorted_wrt (>) levels)"

lemma toc_ok_step: "toc_ok hs st \<Longrightarrow> toc_ok (hs @ [h]) (toc_step h st)"
proof -
  assume ok: "toc_ok hs st"
  obtain roots levels where st: "st = (roots, levels)" by (cases st)
  define deeper where "deeper = takeWhile (\<lambda>l. hd_level h \<le> l) levels"
  define shallower where "shallower = dropWhile (\<lambda>l. hd_level h \<le> l) levels"
  have levels: "levels = deeper @ shallower" by (simp add: deeper_def shallower_def)
  have path: "last_path roots = rev shallower @ rev deeper"
    using ok st levels by (simp add: toc_ok_def)
  have less: "\<forall>l \<in> set shallower. l < hd_level h"
    unfolding shallower_def using ok st by (intro increasing_dropWhile) (simp add: toc_ok_def)
  have least: "\<forall>l \<in> set deeper. hd_level h \<le> l"
    by (auto simp: deeper_def dest: set_takeWhileD)
  let ?pushed = "push_at (length shallower) (Toc_Entry (hd_text h) (hd_id h) (hd_level h) []) roots"
  have depth: "length shallower \<le> length (last_path roots)" by (simp add: path)
  have "toc_flatten ?pushed = hs @ [h]"
    using ok st by (simp add: toc_flatten_push [OF depth] toc_ok_def)
  moreover have "last_path ?pushed = rev (hd_level h # shallower)"
    by (simp add: last_path_push [OF depth] path)
  moreover have "toc_nested ?pushed"
  proof (rule toc_nested_push [OF depth])
    show "toc_nested roots" using ok st by (simp add: toc_ok_def)
    show "\<forall>l \<in> set (take (length shallower) (last_path roots)). l < hd_level h"
      "\<forall>l \<in> set (drop (length shallower) (last_path roots)). hd_level h \<le> l"
      unfolding path using less least by simp_all
  qed
  moreover have "sorted_wrt (>) (hd_level h # shallower)"
    using ok st levels less by (simp add: toc_ok_def sorted_wrt_append)
  ultimately show ?thesis
    by (simp add: st toc_ok_def toc_step_def Let_def flip: shallower_def)
qed

lemma toc_ok_fold: "toc_ok hs st \<Longrightarrow> toc_ok (hs @ more_headings) (fold toc_step more_headings st)"
proof (induction more_headings arbitrary: hs st)
  case (Cons h more_headings)
  then show ?case using toc_ok_step [of hs st h] by fastforce
qed simp

lemma toc_render_outside:
  "outside_tags False (toc_render entries @ t) = concat (map (\<lambda>h. escaped (hd_text h)) (toc_flatten entries)) @ outside_tags False t"
  "outside_tags False (toc_items entries @ t) = concat (map (\<lambda>h. escaped (hd_text h)) (toc_flatten entries)) @ outside_tags False t"
proof (induction entries and entries arbitrary: t and t rule: toc_render_toc_items.induct)
  case (2 e entries)
  then show ?case by simp
next
  case (4 title i level children entries)
  have opened: "CHR ''>'' \<notin> set (''a href='' @ [CHR 0x22] @ ''#'' @ escaped i @ [CHR 0x22])" by simp
  have "toc_items (Toc_Entry title i level children # entries) @ t =
      ''<li>'' @ CHR ''<'' # (''a href='' @ [CHR 0x22] @ ''#'' @ escaped i @ [CHR 0x22]) @ CHR ''>'' #
        (escaped title @ ''</a>'' @ toc_render children @ ''</li>'' @ toc_items entries @ t)"
    by (simp add: toc_escape_def escaped_def)
  then show ?case
    using 4 by (simp only:) (simp add: outside_tag [OF opened, simplified])
qed simp_all

text \<open>
  The table of contents is the headings: read from top to bottom the tree gives the headings in
  their order, an entry holds exactly deeper ones, no entry is deeper than the one before it on its
  level, and what the rendered lists show is the titles, escaped.
\<close>

theorem toc_lists_headings:
  "toc_flatten (toc_build headings) = headings \<and> toc_nested (toc_build headings) \<and>
   outside_tags False (toc_render (toc_build headings)) = concat (map (\<lambda>h. escaped (hd_text h)) headings)"
proof -
  have "toc_ok [] ([], [])" by (simp add: toc_ok_def)
  from toc_ok_fold [OF this, of headings] have "toc_flatten (toc_build headings) = headings" "toc_nested (toc_build headings)"
    by (simp_all add: toc_ok_def toc_build_def split: prod.splits)
  then show ?thesis
    using toc_render_outside(1) [of "toc_build headings" "[]"] by simp
qed

end
