(* ===== verification/Slug.thy ===== *)
theory Slug
  imports TextOps
begin

text \<open>
  slug.cpp: the URL form of a title and the label of a directory name. Both loops run over
  the characters with the output so far and one flag as their state.
\<close>

definition is_slug_character :: "char \<Rightarrow> bool" where
  "is_slug_character c \<longleftrightarrow> between CHR ''a'' CHR ''z'' c \<or> between CHR ''0'' CHR ''9'' c"

definition spelled_out :: "char \<Rightarrow> string" where
  "spelled_out c =
     (if c = CHR ''+'' then ''plus'' else if c = CHR ''#'' then ''sharp''
      else if c = CHR ''&'' then ''and'' else [])"

text \<open>One turn of the loop: the output and whether a hyphen is pending.\<close>

definition slug_step :: "char \<Rightarrow> string \<times> bool \<Rightarrow> string \<times> bool" where
  "slug_step c st =
     (let (out, pending_hyphen) = st; word = spelled_out c
      in if word \<noteq> [] then ((if out \<noteq> [] then out @ ''-'' else out) @ word, True)
         else if is_slug_character c
         then ((if pending_hyphen \<and> out \<noteq> [] then out @ ''-'' else out) @ [c], False)
         else (out, True))"

definition slugify :: "string \<Rightarrow> string" where
  "slugify s = fst (fold slug_step (to_lower_ascii s) ([], False))"

definition humanize_step :: "char \<Rightarrow> string \<times> bool \<Rightarrow> string \<times> bool" where
  "humanize_step c st =
     (let (out, start_of_word) = st
      in if c = CHR ''-'' \<or> c = CHR ''_''
         then (if out \<noteq> [] \<and> \<not> start_of_word then out @ '' '' else out, True)
         else if start_of_word \<and> between CHR ''a'' CHR ''z'' c
         then (out @ [char_of (byte c - 97 + 65)], False)
         else (out @ [c], False))"

definition humanize :: "string \<Rightarrow> string" where
  "humanize s = fst (fold humanize_step s ([], True))"

section \<open>The shape of a slug\<close>

abbreviation hyphen :: char where "hyphen \<equiv> CHR ''-''"

definition no_double_hyphen :: "string \<Rightarrow> bool" where
  "no_double_hyphen s \<longleftrightarrow> successively (\<lambda>a b. \<not> (a = hyphen \<and> b = hyphen)) s"

definition is_slug :: "string \<Rightarrow> bool" where
  "is_slug s \<longleftrightarrow>
     (\<forall>c \<in> set s. is_slug_character c \<or> c = hyphen) \<and> no_double_hyphen s \<and>
     (s \<noteq> [] \<longrightarrow> hd s \<noteq> hyphen \<and> last s \<noteq> hyphen)"

lemma hyphen_not_slug_character [simp]: "\<not> is_slug_character hyphen"
  by (simp add: is_slug_character_def between_def)

lemma slug_character_not_spelled: "is_slug_character c \<Longrightarrow> spelled_out c = []"
  by (auto simp: is_slug_character_def spelled_out_def between_def)

lemma spelled_out_slug: "spelled_out c \<noteq> [] \<Longrightarrow> is_slug (spelled_out c)"
  by (auto simp: spelled_out_def is_slug_def no_double_hyphen_def is_slug_character_def
      between_def split: if_splits)

lemma is_slug_Nil [simp]: "is_slug []"
  by (simp add: is_slug_def no_double_hyphen_def)

lemma is_slug_character_single: "is_slug_character c \<Longrightarrow> is_slug [c]"
  by (auto simp: is_slug_def no_double_hyphen_def)

text \<open>Two slugs may be joined by a hyphen, and non-empty ones also without.\<close>

lemma is_slug_hyphen:
  "is_slug a \<Longrightarrow> is_slug b \<Longrightarrow> a \<noteq> [] \<Longrightarrow> b \<noteq> [] \<Longrightarrow> is_slug (a @ hyphen # b)"
  by (auto simp: is_slug_def no_double_hyphen_def successively_append_iff successively_Cons)

lemma is_slug_append: "is_slug a \<Longrightarrow> is_slug b \<Longrightarrow> is_slug (a @ b)"
  by (cases "a = [] \<or> b = []")
    (auto simp: is_slug_def no_double_hyphen_def successively_append_iff)

lemma slug_step_is_slug: "is_slug (fst st) \<Longrightarrow> is_slug (fst (slug_step c st))"
  by (cases st)
    (auto simp: slug_step_def Let_def intro!: is_slug_hyphen
      spelled_out_slug is_slug_character_single intro: is_slug_append)

lemma fold_slug_step_is_slug: "is_slug (fst st) \<Longrightarrow> is_slug (fst (fold slug_step s st))"
  by (induction s arbitrary: st) (auto simp: slug_step_is_slug)

section \<open>A slug is its own slug\<close>

text \<open>After a prefix of a slug the loop has output it, less a hyphen it still holds back.\<close>

lemma fold_slug_step_prefix:
  assumes "\<forall>c \<in> set s. is_slug_character c \<or> c = hyphen" and "no_double_hyphen s"
    and "s \<noteq> [] \<longrightarrow> hd s \<noteq> hyphen"
  shows "fold slug_step s ([], False) =
    (if s \<noteq> [] \<and> last s = hyphen then (butlast s, True) else (s, False))"
  using assms
proof (induction s rule: rev_induct)
  case (snoc c s)
  then have pre: "\<forall>c \<in> set s. is_slug_character c \<or> c = hyphen" "no_double_hyphen s"
      "s \<noteq> [] \<longrightarrow> hd s \<noteq> hyphen"
    by (auto simp: no_double_hyphen_def successively_append_iff)
  note IH = snoc.IH [OF pre]
  show ?case
  proof (cases "c = hyphen")
    case True
    with snoc.prems have "s \<noteq> [] \<and> last s \<noteq> hyphen"
      by (cases "s = []") (auto simp: no_double_hyphen_def successively_append_iff)
    with IH True show ?thesis
      by (simp add: slug_step_def spelled_out_def)
  next
    case False
    with snoc.prems have c: "is_slug_character c" by simp
    have "butlast s \<noteq> []" if "s \<noteq> []" "last s = hyphen"
      using that pre(3) by (cases s) auto
    moreover have "butlast s @ [hyphen] = s" if "s \<noteq> []" "last s = hyphen"
      using that append_butlast_last_id [of s] by simp
    ultimately show ?thesis
      using IH c False by (auto simp: slug_step_def slug_character_not_spelled)
  qed
qed simp

lemma slug_character_lower: "is_slug_character c \<or> c = hyphen \<Longrightarrow> lower_char c = c"
  by (auto simp: lower_char_def is_slug_character_def between_def)

lemma slugify_slug: "is_slug s \<Longrightarrow> slugify s = s"
proof -
  assume s: "is_slug s"
  then have "map lower_char s = s"
    by (simp add: is_slug_def map_idI slug_character_lower)
  with s show ?thesis
    using fold_slug_step_prefix [of s]
    by (auto simp: is_slug_def slugify_def to_lower_ascii_def)
qed

text \<open>
  A slug is made of lowercase letters, digits and single hyphens, never at an end; and
  the slug of a slug is itself, so a URL that is slugified again does not change.
\<close>

theorem slugify_shape: "is_slug (slugify s) \<and> slugify (slugify s) = slugify s"
proof -
  have "is_slug (slugify s)"
    by (simp add: slugify_def fold_slug_step_is_slug)
  then show ?thesis by (simp add: slugify_slug)
qed

end
