(* ===== verification/HtmlRender.thy ===== *)
theory HtmlRender
  imports MarkdownTree Frameworks Highlights Shortcodes Tocs Slug
begin

text \<open>
  The HTML renderer (\<open>html.cpp\<close>). A node of the Markdown tree is its kind, its fields and its
  children; \<open>rstate\<close> is what the renderer writes: the markup, the stripped text and the headings. The
  renderer asks for a node's parent and next sibling in two places; here the kinds and tightness of the
  ancestors and whether the node is the last of its siblings are arguments. Where the code calls
  \<open>children(node)\<close>, the definitions of one node's markup have that call as the argument \<open>kids\<close>.
\<close>

record render_options =
  ro_framework :: framework
  ro_highlight :: bool
  ro_shortcodes :: "registry option"
  ro_anchors :: bool

record rstate =
  r_html :: string
  r_text :: string
  r_headings :: "heading list"

section \<open>Writing\<close>

definition emit :: "string \<Rightarrow> rstate \<Rightarrow> rstate" where
  "emit s st = st\<lparr>r_html := r_html st @ s\<rparr>"

definition say :: "string \<Rightarrow> rstate \<Rightarrow> rstate" where
  "say s st = st\<lparr>r_text := r_text st @ s\<rparr>"

definition newline :: string where "newline = [CHR 0x0A]"
definition dquote :: string where "dquote = [CHR 0x22]"

definition ensure_newline :: "rstate \<Rightarrow> rstate" where
  "ensure_newline st = (if r_html st \<noteq> [] \<and> last (r_html st) \<noteq> CHR 0x0A then emit newline st else st)"

definition attribute_text :: "string \<Rightarrow> string \<Rightarrow> string" where
  "attribute_text name v = '' '' @ name @ ''='' @ dquote @ escaped v @ dquote"

definition class_text :: "string \<Rightarrow> string" where
  "class_text classes = (if classes = [] then [] else attribute_text ''class'' classes)"

definition with_class :: "render_options \<Rightarrow> string \<Rightarrow> rstate \<Rightarrow> rstate" where
  "with_class opts slot st = emit (class_text (class_for (ro_framework opts) slot)) st"

text \<open>An ancestor is its kind and whether it is tight.\<close>

definition in_tight_list :: "(md_kind \<times> bool) list \<Rightarrow> bool" where
  "in_tight_list ancestors =
     (case ancestors of (K_Item, _) # (K_List, tight) # _ \<Rightarrow> tight | _ \<Rightarrow> False)"

fun plain_nodes :: "md_node list \<Rightarrow> string" where
  "plain_nodes [] = []"
| "plain_nodes (Md_Node kind f children # nodes) =
     (if kind = K_Text \<or> kind = K_Code_Span \<or> kind = K_Math then f_literal f
      else if kind = K_Soft_Break \<or> kind = K_Line_Break then newline
      else plain_nodes children) @ plain_nodes nodes"

text \<open>The classes of a link or image in one attribute, then its other attributes as they are.\<close>

definition class_names :: "md_fields \<Rightarrow> string \<Rightarrow> string" where
  "class_names f extra =
     fold (\<lambda>(name, v) classes.
       if name \<noteq> ''class'' then classes
       else classes @ (if classes = [] then v else CHR '' '' # v)) (f_attributes f) extra"

definition append_attributes :: "md_fields \<Rightarrow> string \<Rightarrow> string" where
  "append_attributes f extra =
     class_text (class_names f extra) @
     concat (map (\<lambda>(name, v). if name = ''class'' then [] else attribute_text name v) (f_attributes f))"

section \<open>One node\<close>

type_synonym render_step = "rstate \<Rightarrow> rstate"

definition join_classes :: "string \<Rightarrow> string \<Rightarrow> string" where
  "join_classes classes extra = classes @ (if classes = [] then extra else CHR '' '' # extra)"

definition code_classes :: "render_options \<Rightarrow> string \<Rightarrow> string" where
  "code_classes opts name =
     (let classes = (if name = [] then [] else ''language-'' @ takeWhile (\<lambda>c. c \<noteq> CHR '' '' \<and> c \<noteq> CHR 0x09) name);
          marked = (if ro_highlight opts \<and> name \<noteq> [] \<and> \<not> supports name then join_classes classes ''hl-plain'' else classes);
          extra = class_for (ro_framework opts) ''code-block''
      in if extra = [] then marked else join_classes marked extra)"

definition render_code_block :: "render_options \<Rightarrow> md_fields \<Rightarrow> render_step" where
  "render_code_block opts f st =
     (let name = trim (f_info f); lowered = to_lower_ascii name in
      if lowered = ''mermaid'' then
        say (f_literal f) (emit (''<pre class='' @ dquote @ ''mermaid'' @ dquote @ ''>'' @ escaped (f_literal f) @ ''</pre>'' @ newline)
          (ensure_newline st))
      else if lowered = ''math'' then
        say (f_literal f) (emit (''<div class='' @ dquote @ ''math math-display'' @ dquote @ ''>'' @ escaped (trim (f_literal f)) @
          ''</div>'' @ newline) (ensure_newline st))
      else
        say (f_literal f) (emit (''<pre><code'' @ class_text (code_classes opts name) @ ''>'' @
          (if ro_highlight opts \<and> supports name then hl_render (f_literal f) name else escaped (f_literal f)) @
          ''</code></pre>'' @ newline) (ensure_newline st)))"

definition render_heading :: "render_options \<Rightarrow> md_node \<Rightarrow> render_step \<Rightarrow> render_step" where
  "render_heading opts node kids st =
     (let level = f_level (md_fields node); title = plain_nodes (md_children node); i = slugify title;
          anchored = ro_anchors opts \<and> i \<noteq> [];
          st1 = ensure_newline (st\<lparr>r_headings := r_headings st @ [\<lparr>hd_level = level, hd_text = title, hd_id = i\<rparr>]\<rparr>);
          st2 = emit (''<h'' @ format_int level @ (if anchored then attribute_text ''id'' i else [])) st1;
          st3 = kids (emit ''>'' (with_class opts ''heading'' st2));
          st4 = emit (if anchored then ''<a class='' @ dquote @ ''anchor'' @ dquote @ '' href='' @ dquote @ ''#'' @ escaped i @ dquote @ ''>#</a>''
                      else []) st3
      in say newline (emit (''</h'' @ format_int level @ ''>'' @ newline) st4))"

definition render_table :: "render_options \<Rightarrow> bool \<Rightarrow> md_node \<Rightarrow> render_step \<Rightarrow> render_step" where
  "render_table opts is_last node kids st =
     (case md_kind node of
        K_Table \<Rightarrow>
          say newline (emit (''</table>'' @ newline) (kids (emit (''>'' @ newline)
            (with_class opts ''table'' (emit ''<table'' (ensure_newline st))))))
      | K_Table_Row \<Rightarrow>
          (let head = f_header (md_fields node);
               st1 = emit (if head then ''<thead>'' @ newline else []) (ensure_newline st);
               st2 = emit (''</tr>'' @ newline) (kids (emit (''<tr>'' @ newline) st1));
               st3 = emit (if head then ''</thead>'' @ newline @ ''<tbody>'' @ newline else []) st2
           in emit (if \<not> head \<and> is_last then ''</tbody>'' @ newline else []) st3)
      | _ \<Rightarrow>
          (let tag = (if f_header (md_fields node) then ''th'' else ''td'');
               align = (case f_alignment (md_fields node) of
                   Align_Left \<Rightarrow> attribute_text ''align'' ''left''
                 | Align_Center \<Rightarrow> attribute_text ''align'' ''center''
                 | Align_Right \<Rightarrow> attribute_text ''align'' ''right''
                 | Align_None \<Rightarrow> [])
           in say '' '' (emit (''</'' @ tag @ ''>'' @ newline) (kids (emit (''<'' @ tag @ align @ ''>'') st)))))"

definition render_definition :: "render_options \<Rightarrow> md_node \<Rightarrow> render_step \<Rightarrow> render_step" where
  "render_definition opts node kids st =
     (case md_kind node of
        K_Definition_List \<Rightarrow>
          emit (''</dl>'' @ newline) (kids (emit (''>'' @ newline) (with_class opts ''definition-list'' (emit ''<dl'' (ensure_newline st)))))
      | K_Definition_Term \<Rightarrow> say newline (emit (''</dt>'' @ newline) (kids (emit ''<dt>'' (ensure_newline st))))
      | _ \<Rightarrow> say newline (emit (''</dd>'' @ newline) (kids (emit ''<dd>'' (ensure_newline st)))))"

definition render_footnote :: "md_node \<Rightarrow> render_step \<Rightarrow> render_step" where
  "render_footnote node kids st =
     (let f = md_fields node in
      case md_kind node of
        K_Footnotes \<Rightarrow>
          emit (''</ol>'' @ newline @ ''</section>'' @ newline)
            (kids (emit (''<section class='' @ dquote @ ''footnotes'' @ dquote @ ''>'' @ newline @ ''<ol>'' @ newline) (ensure_newline st)))
      | K_Footnote_Item \<Rightarrow>
          emit ('' <a href='' @ dquote @ ''#fnref-'' @ escaped (f_label f) @ dquote @ '' class='' @ dquote @ ''footnote-back'' @ dquote @
              ''>&#8617;</a></li>'' @ newline)
            (kids (emit (''<li id='' @ dquote @ ''fn-'' @ escaped (f_label f) @ dquote @ ''>'') (ensure_newline st)))
      | _ \<Rightarrow>
          emit (''<sup class='' @ dquote @ ''footnote-ref'' @ dquote @ ''><a href='' @ dquote @ ''#fn-'' @ escaped (f_label f) @ dquote @
            '' id='' @ dquote @ ''fnref-'' @ escaped (f_label f) @
            (if 1 < f_occurrence f then ''-'' @ format_int (f_occurrence f) else []) @ dquote @ ''>'' @
            format_int (f_number f) @ ''</a></sup>'') st)"

definition title_text :: "md_fields \<Rightarrow> string" where
  "title_text f = (if f_title f = [] then [] else attribute_text ''title'' (f_title f))"

definition render_link :: "render_options \<Rightarrow> md_node \<Rightarrow> render_step \<Rightarrow> render_step" where
  "render_link opts node kids st =
     (let f = md_fields node in
      if md_kind node = K_Link then
        emit ''</a>'' (kids (emit (''<a href='' @ dquote @ url_escaped (f_url f) @ dquote @ title_text f @ append_attributes f [] @ ''>'') st))
      else
        (let alt = plain_nodes (md_children node) in
         emit (title_text f @ append_attributes f (class_for (ro_framework opts) ''image'') @ '' />'')
           (emit dquote (say alt (emit (''<img src='' @ dquote @ url_escaped (f_url f) @ dquote @ '' alt='' @ dquote @ escaped alt) st)))))"

definition render_block :: "render_options \<Rightarrow> (md_kind \<times> bool) list \<Rightarrow> md_node \<Rightarrow> render_step \<Rightarrow> render_step" where
  "render_block opts ancestors node kids st =
     (let f = md_fields node; list_tag = (if f_ordered f then ''ol'' else ''ul'') in
      case md_kind node of
        K_Document \<Rightarrow> kids st
      | K_Paragraph \<Rightarrow>
          if in_tight_list ancestors then say newline (kids st)
          else say newline (emit (''</p>'' @ newline) (kids (emit ''<p>'' (ensure_newline st))))
      | K_Heading \<Rightarrow> render_heading opts node kids st
      | K_Thematic_Break \<Rightarrow> emit (''<hr />'' @ newline) (ensure_newline st)
      | K_Block_Quote \<Rightarrow>
          emit (''</blockquote>'' @ newline) (ensure_newline (kids (emit (''>'' @ newline)
            (with_class opts ''blockquote'' (emit ''<blockquote'' (ensure_newline st))))))
      | K_List \<Rightarrow>
          emit (''</'' @ list_tag @ ''>'' @ newline) (kids (emit (''>'' @ newline) (with_class opts ''list''
            (emit (''<'' @ list_tag @ (if f_ordered f \<and> f_start f \<noteq> 1 then attribute_text ''start'' (format_int (f_start f)) else []))
              (ensure_newline st)))))
      | K_Item \<Rightarrow>
          emit (''</li>'' @ newline) (kids (emit (''<li>'' @
            (if f_task f then ''<input type='' @ dquote @ ''checkbox'' @ dquote @
                (if f_checked f then '' checked='' @ dquote @ dquote else []) @ '' disabled='' @ dquote @ dquote @ '' /> ''
             else [])) (ensure_newline st)))
      | K_Code_Block \<Rightarrow> render_code_block opts f st
      | _ \<Rightarrow> emit (f_literal f) (ensure_newline st))"

definition render_inline :: "render_options \<Rightarrow> md_node \<Rightarrow> render_step \<Rightarrow> render_step" where
  "render_inline opts node kids st =
     (let f = md_fields node in
      case md_kind node of
        K_Shortcode \<Rightarrow>
          emit newline (emit (case ro_shortcodes opts of
              Some templates \<Rightarrow> registry_expand templates (f_label f) (f_raw f) (f_literal f)
            | None \<Rightarrow> ''<p>'' @ escaped (f_literal f) @ ''</p>'') (ensure_newline st))
      | K_Text \<Rightarrow> say (f_literal f) (emit (escaped (f_literal f)) st)
      | K_Soft_Break \<Rightarrow> say '' '' (emit newline st)
      | K_Line_Break \<Rightarrow> say '' '' (emit (''<br />'' @ newline) st)
      | K_Code_Span \<Rightarrow> say (f_literal f) (emit (''<code>'' @ escaped (f_literal f) @ ''</code>'') st)
      | K_Html_Inline \<Rightarrow> emit (f_literal f) st
      | K_Emphasis \<Rightarrow> emit ''</em>'' (kids (emit ''<em>'' st))
      | K_Strong \<Rightarrow> emit ''</strong>'' (kids (emit ''<strong>'' st))
      | K_Strikethrough \<Rightarrow> emit ''</del>'' (kids (emit ''<del>'' st))
      | _ \<Rightarrow> say (f_literal f) (emit (''<span class='' @ dquote @ (if f_display f then ''math math-display'' else ''math math-inline'') @
               dquote @ ''>'' @ escaped (f_literal f) @ ''</span>'') st))"

definition render_node :: "render_options \<Rightarrow> (md_kind \<times> bool) list \<Rightarrow> bool \<Rightarrow> md_node \<Rightarrow> render_step \<Rightarrow> render_step" where
  "render_node opts ancestors is_last node kids =
     (if md_kind node \<in> {K_Document, K_Paragraph, K_Heading, K_Thematic_Break, K_Block_Quote, K_List, K_Item, K_Code_Block, K_Html_Block}
      then render_block opts ancestors node kids
      else if md_kind node \<in> {K_Table, K_Table_Row, K_Table_Cell} then render_table opts is_last node kids
      else if md_kind node \<in> {K_Definition_List, K_Definition_Term, K_Definition_Detail} then render_definition opts node kids
      else if md_kind node \<in> {K_Footnotes, K_Footnote_Item, K_Footnote_Ref} then render_footnote node kids
      else if md_kind node = K_Link \<or> md_kind node = K_Image then render_link opts node kids
      else render_inline opts node kids)"

text \<open>\<open>children\<close>, which renders the nodes of a list in turn.\<close>

fun render_nodes :: "render_options \<Rightarrow> (md_kind \<times> bool) list \<Rightarrow> md_node list \<Rightarrow> rstate \<Rightarrow> rstate" where
  "render_nodes opts ancestors [] st = st"
| "render_nodes opts ancestors (Md_Node kind f children # nodes) st =
     render_nodes opts ancestors nodes
       (render_node opts ancestors (nodes = []) (Md_Node kind f children)
         (render_nodes opts ((kind, f_tight f) # ancestors) children) st)"

record render_result =
  rr_html :: string
  rr_text :: string
  rr_headings :: "heading list"

definition wrapped :: "render_options \<Rightarrow> string \<Rightarrow> string" where
  "wrapped opts body =
     (let article = class_for (ro_framework opts) ''article'' in
      if article = [] \<or> body = [] then body
      else ''<div class='' @ dquote @ escaped article @ dquote @ ''>'' @ newline @ body @
        (if last body \<noteq> CHR 0x0A then newline else []) @ ''</div>'' @ newline)"

definition render_document :: "render_options \<Rightarrow> md_node \<Rightarrow> render_result" where
  "render_document opts node =
     (let st = render_nodes opts [] [node] \<lparr>r_html = [], r_text = [], r_headings = []\<rparr> in
      \<lparr>rr_html = wrapped opts (r_html st), rr_text = trim (r_text st), rr_headings = r_headings st\<rparr>)"

end
