(* ===== verification/TagScanner.thy ===== *)
theory TagScanner
  imports Escapes
begin

text \<open>
  A reader of markup, to say what the writers of markup promise. It takes one character at a time and
  keeps the open elements on a stack; it gives up on a bracket or a quote out of place and on a
  closing tag that does not match.
\<close>

section \<open>A scanner of tags\<close>

datatype tag_mode = M_Text | M_Name string | M_Attrs string bool | M_Quote string

type_synonym scan_state = "tag_mode \<times> string list"

text \<open>The end of a tag, \<open>/>\<close> when \<open>closed\<close>.\<close>

definition tag_end :: "string \<Rightarrow> bool \<Rightarrow> string list \<Rightarrow> scan_state option" where
  "tag_end name closed stack =
     (if name = [] then None
      else if hd name = CHR ''/'' then
        (case stack of t # rest \<Rightarrow> if t = tl name then Some (M_Text, rest) else None | [] \<Rightarrow> None)
      else if closed then Some (M_Text, stack)
      else Some (M_Text, name # stack))"

fun scan_char :: "char \<Rightarrow> scan_state \<Rightarrow> scan_state option" where
  "scan_char c (M_Text, stack) =
     (if c = CHR ''<'' then Some (M_Name [], stack) else if c = CHR ''>'' then None else Some (M_Text, stack))"
| "scan_char c (M_Name name, stack) =
     (if c = CHR ''>'' then tag_end name False stack
      else if c = CHR '' '' then Some (M_Attrs name False, stack)
      else if c = CHR ''<'' \<or> c = CHR 0x22 then None
      else Some (M_Name (name @ [c]), stack))"
| "scan_char c (M_Attrs name closed, stack) =
     (if c = CHR ''>'' then tag_end name closed stack
      else if c = CHR 0x22 then Some (M_Quote name, stack)
      else if c = CHR ''<'' then None
      else Some (M_Attrs name (c = CHR ''/''), stack))"
| "scan_char c (M_Quote name, stack) =
     (if c = CHR 0x22 then Some (M_Attrs name False, stack)
      else if c = CHR ''<'' \<or> c = CHR ''>'' then None
      else Some (M_Quote name, stack))"

definition scan :: "string \<Rightarrow> scan_state option \<Rightarrow> scan_state option" where
  "scan s x = fold (\<lambda>c x. Option.bind x (scan_char c)) s x"

definition balanced :: "string \<Rightarrow> bool" where
  "balanced s \<longleftrightarrow> scan s (Some (M_Text, [])) = Some (M_Text, [])"

lemma scan_simps [simp]:
  "scan [] x = x" "scan (c # s) x = scan s (Option.bind x (scan_char c))" "scan (s @ t) x = scan t (scan s x)"
  by (simp_all add: scan_def)

lemma tag_end_simps [simp]:
  "tag_end [] closed stack = None"
  "tag_end (c # name) closed stack =
     (if c = CHR ''/'' then (case stack of t # rest \<Rightarrow> if t = name then Some (M_Text, rest) else None | [] \<Rightarrow> None)
      else if closed then Some (M_Text, stack) else Some (M_Text, (c # name) # stack))"
  by (simp_all add: tag_end_def split: list.split)

definition quiet :: "string \<Rightarrow> bool" where
  "quiet s \<longleftrightarrow> CHR ''<'' \<notin> set s \<and> CHR ''>'' \<notin> set s \<and> CHR 0x22 \<notin> set s"

lemma quiet_simps [simp]:
  "quiet []" "quiet (c # s) \<longleftrightarrow> c \<noteq> CHR ''<'' \<and> c \<noteq> CHR ''>'' \<and> c \<noteq> CHR 0x22 \<and> quiet s"
  "quiet (s @ t) \<longleftrightarrow> quiet s \<and> quiet t" "quiet (escaped s)" "quiet (url_escaped s)"
  by (auto simp: quiet_def)

lemma scan_text [simp]: "quiet s \<Longrightarrow> scan s (Some (M_Text, stack)) = Some (M_Text, stack)"
  by (induction s) auto

lemma scan_quote [simp]: "quiet s \<Longrightarrow> scan s (Some (M_Quote name, stack)) = Some (M_Quote name, stack)"
  by (induction s) auto

lemma scan_attrs: "quiet s \<Longrightarrow> \<exists>closed'. scan s (Some (M_Attrs name closed, stack)) = Some (M_Attrs name closed', stack)"
  by (induction s arbitrary: closed) auto

lemma scan_name: "quiet s \<Longrightarrow> CHR '' '' \<notin> set s \<Longrightarrow> scan s (Some (M_Name name, stack)) = Some (M_Name (name @ s), stack)"
  by (induction s arbitrary: name) auto

lemma quiet_number [simp]: "quiet (format_int i)" "CHR '' '' \<notin> set (format_int i)"
proof -
  have "\<not> is_digit (CHR ''<'')" "\<not> is_digit (CHR ''>'')" "\<not> is_digit (CHR 0x22)" "\<not> is_digit (CHR '' '')"
    by code_simp+
  then show "quiet (format_int i)" "CHR '' '' \<notin> set (format_int i)"
    using format_nat_digits by (auto simp: format_int_def quiet_def)
qed

text \<open>Elements that were open before stay open.\<close>

lemma scan_char_below: "scan_char c (m, stack) = Some (m', stack') \<Longrightarrow> scan_char c (m, stack @ below) = Some (m', stack' @ below)"
  by (cases "(c, (m, stack))" rule: scan_char.cases) (auto simp: tag_end_def split: if_splits list.splits)

lemma scan_none [simp]: "scan s None = None"
  by (induction s) simp_all

lemma scan_below: "scan s (Some (m, stack)) = Some (m', stack') \<Longrightarrow> scan s (Some (m, stack @ below)) = Some (m', stack' @ below)"
proof (induction s arbitrary: m stack)
  case (Cons c s)
  then obtain m1 stack1 where "scan_char c (m, stack) = Some (m1, stack1)"
    by (cases "scan_char c (m, stack)") auto
  with Cons show ?case
    by (simp add: scan_char_below)
qed simp

end
