(* ===== verification/HtmlProps.thy ===== *)
theory HtmlProps
  imports HtmlRender TagScanner
begin

text \<open>
  The markup the renderer writes is balanced: every definition of one node's markup takes the scanner
  of \<open>TagScanner\<close> from between tags back to between tags with the same stack, when its children do.
\<close>

section \<open>Attributes\<close>

lemma scan_attribute [simp]:
  "quiet name \<Longrightarrow> scan (attribute_text name v) (Some (M_Attrs tag False, stack)) = Some (M_Attrs tag False, stack)"
  "quiet name \<Longrightarrow> scan (attribute_text name v) (Some (M_Name tag, stack)) = Some (M_Attrs tag False, stack)"
proof -
  assume quiet: "quiet name"
  obtain closed where "scan name (Some (M_Attrs tag False, stack)) = Some (M_Attrs tag closed, stack)"
    using scan_attrs [OF quiet] by blast
  then show "scan (attribute_text name v) (Some (M_Attrs tag False, stack)) = Some (M_Attrs tag False, stack)"
    and "scan (attribute_text name v) (Some (M_Name tag, stack)) = Some (M_Attrs tag False, stack)"
    by (simp_all add: attribute_text_def dquote_def)
qed

lemma scan_class [simp]:
  "scan (class_text classes) (Some (M_Attrs tag False, stack)) = Some (M_Attrs tag False, stack)"
  "scan (class_text classes) (Some (M_Name tag, stack)) = Some (if classes = [] then M_Name tag else M_Attrs tag False, stack)"
  by (simp_all add: class_text_def)

definition attributes_ok :: "md_fields \<Rightarrow> bool" where
  "attributes_ok f \<longleftrightarrow> (\<forall>(name, v) \<in> set (f_attributes f). quiet name)"

lemma scan_attributes [simp]:
  assumes "attributes_ok f"
  shows "scan (append_attributes f extra) (Some (M_Attrs tag False, stack)) = Some (M_Attrs tag False, stack)"
proof -
  have "\<forall>(n, v) \<in> set as. quiet n \<Longrightarrow>
      scan (concat (map (\<lambda>(n, v). if n = ''class'' then [] else attribute_text n v) as)) (Some (M_Attrs tag False, stack)) =
        Some (M_Attrs tag False, stack)" for as
    by (induction as) auto
  with assms show ?thesis
    by (simp add: append_attributes_def attributes_ok_def)
qed

lemma scan_title [simp]:
  "scan (title_text f) (Some (M_Attrs tag False, stack)) = Some (M_Attrs tag False, stack)"
  by (simp add: title_text_def)

section \<open>Highlighted code\<close>

lemma scan_span [simp]: "quiet kind \<Longrightarrow> scan (span kind body) (Some (M_Text, stack)) = Some (M_Text, stack)"
  by (simp add: span_def)

lemma hl_token_kind_quiet: "hl_token ln rest = (Some kind, n) \<Longrightarrow> quiet kind"
  by (auto simp: hl_token_def Let_def split: if_splits)

lemma scan_hl_loop [simp]: "scan (hl_loop ln rest) (Some (M_Text, stack)) = Some (M_Text, stack)"
proof (induction ln rest rule: hl_loop.induct)
  case (1 ln rest)
  obtain kind n where token: "hl_token ln rest = (kind, n)" by fastforce
  have "quiet k" if "kind = Some k" for k
    using hl_token_kind_quiet token that by simp
  then show ?case
    using 1 token by (subst hl_loop.simps) (simp add: token Let_def split: option.split)
qed

lemma scan_hl_render [simp]: "scan (hl_render code name) (Some (M_Text, stack)) = Some (M_Text, stack)"
  by (simp add: hl_render_def split: option.split)

section \<open>One node\<close>

text \<open>What the scanner holds after the markup written so far, and whether it is between tags.\<close>

definition held :: "rstate \<Rightarrow> scan_state option" where
  "held st = scan (r_html st) (Some (M_Text, []))"

definition between_tags :: "scan_state option \<Rightarrow> bool" where
  "between_tags x \<longleftrightarrow> (\<exists>stack. x = Some (M_Text, stack))"

definition keeps :: "render_step \<Rightarrow> bool" where
  "keeps kids \<longleftrightarrow> (\<forall>st. between_tags (held st) \<longrightarrow> held (kids st) = held st)"

lemma between_tags_Some [simp]: "between_tags (Some (M_Text, stack))"
  by (simp add: between_tags_def)

lemma held_emit [simp]: "held (emit s st) = scan s (held st)"
  by (simp add: held_def emit_def)

lemma held_say [simp]: "held (say s st) = held st"
  by (simp add: held_def say_def)

lemma held_headings [simp]: "held (st\<lparr>r_headings := hs\<rparr>) = held st"
  by (simp add: held_def)

lemma held_ensure [simp]: "between_tags (held st) \<Longrightarrow> held (ensure_newline st) = held st"
  by (auto simp: ensure_newline_def between_tags_def newline_def)

lemma held_with_class [simp]: "held (with_class opts slot st) = scan (class_text (class_for (ro_framework opts) slot)) (held st)"
  by (simp add: with_class_def)

lemma keepsI: "(\<And>st stack. held st = Some (M_Text, stack) \<Longrightarrow> held (kids st) = Some (M_Text, stack)) \<Longrightarrow> keeps kids"
  by (auto simp: keeps_def between_tags_def)

lemma keepsD [simp]: "keeps kids \<Longrightarrow> between_tags (held st) \<Longrightarrow> held (kids st) = held st"
  by (simp add: keeps_def)

lemmas markup_defs = newline_def dquote_def

lemma keeps_code_block: "keeps (render_code_block opts f)"
  by (rule keepsI) (simp add: render_code_block_def Let_def markup_defs)

lemma keeps_heading: "keeps kids \<Longrightarrow> keeps (render_heading opts node kids)"
  by (rule keepsI) (simp add: render_heading_def Let_def markup_defs scan_name)

lemma keeps_definition: "keeps kids \<Longrightarrow> keeps (render_definition opts node kids)"
  by (rule keepsI) (simp add: render_definition_def markup_defs split: md_kind.split)

lemma keeps_footnote: "keeps kids \<Longrightarrow> keeps (render_footnote node kids)"
  by (rule keepsI) (simp add: render_footnote_def Let_def markup_defs split: md_kind.split)

lemma keeps_link: "keeps kids \<Longrightarrow> attributes_ok (md_fields node) \<Longrightarrow> keeps (render_link opts node kids)"
  by (rule keepsI) (simp add: render_link_def Let_def markup_defs)

lemma keeps_block:
  "keeps kids \<Longrightarrow> md_kind node \<in> {K_Document, K_Paragraph, K_Heading, K_Thematic_Break, K_Block_Quote, K_List, K_Item, K_Code_Block} \<Longrightarrow>
     keeps (render_block opts ancestors node kids)"
  by (rule keepsI) (auto simp: render_block_def Let_def markup_defs keeps_heading keeps_code_block)

lemma keeps_inline:
  "keeps kids \<Longrightarrow> md_kind node \<noteq> K_Html_Inline \<Longrightarrow> md_kind node = K_Shortcode \<longrightarrow> ro_shortcodes opts = None \<Longrightarrow>
     keeps (render_inline opts node kids)"
  by (rule keepsI) (simp add: render_inline_def Let_def markup_defs split: md_kind.split)

lemma keeps_table: "keeps kids \<Longrightarrow> md_kind node \<noteq> K_Table_Row \<Longrightarrow> keeps (render_table opts is_last node kids)"
  by (rule keepsI) (simp add: render_table_def Let_def markup_defs split: md_kind.split alignment.split)

section \<open>Trees\<close>

text \<open>
  Where a node stands: in the flow, or as the header row, the first row after it or a later row of a
  table. \<open>nodes_ok\<close> says that the rows of every table are one header row and at least one more, that
  rows are nowhere else, that attributes have names without brackets and quotes, and that no node
  brings markup of its own.
\<close>

datatype place = P_Flow | P_Head | P_First | P_Later

fun next_place :: "place \<Rightarrow> place" where
  "next_place P_Flow = P_Flow" | "next_place P_Head = P_First" | "next_place P_First = P_Later" | "next_place P_Later = P_Later"

definition node_ok :: "render_options \<Rightarrow> place \<Rightarrow> md_kind \<Rightarrow> md_fields \<Rightarrow> bool" where
  "node_ok opts place kind f \<longleftrightarrow>
     kind \<noteq> K_Html_Block \<and> kind \<noteq> K_Html_Inline \<and> (kind = K_Shortcode \<longrightarrow> ro_shortcodes opts = None) \<and> attributes_ok f \<and>
     ((kind = K_Table_Row) = (place \<noteq> P_Flow)) \<and> (place \<noteq> P_Flow \<longrightarrow> f_header f = (place = P_Head))"

fun nodes_ok :: "render_options \<Rightarrow> place \<Rightarrow> md_node list \<Rightarrow> bool" where
  "nodes_ok opts place [] \<longleftrightarrow> place = P_Flow \<or> place = P_Later"
| "nodes_ok opts place (Md_Node kind f children # nodes) \<longleftrightarrow>
     node_ok opts place kind f \<and> nodes_ok opts (if kind = K_Table then P_Head else P_Flow) children \<and>
     nodes_ok opts (next_place place) nodes"

lemma keeps_render_node:
  assumes "keeps kids" and "node_ok opts P_Flow (md_kind node) (md_fields node)"
  shows "keeps (render_node opts ancestors is_last node kids)"
proof -
  have "md_kind node \<in> {K_Document, K_Paragraph, K_Heading, K_Thematic_Break, K_Block_Quote, K_List, K_Item, K_Code_Block} \<Longrightarrow> ?thesis"
    using keeps_block [OF assms(1)] by (auto simp: render_node_def)
  moreover have "md_kind node \<notin> {K_Document, K_Paragraph, K_Heading, K_Thematic_Break, K_Block_Quote, K_List, K_Item, K_Code_Block} \<Longrightarrow> ?thesis"
    using assms(2) keeps_table [OF assms(1)] keeps_definition [OF assms(1)] keeps_footnote [OF assms(1)]
      keeps_link [OF assms(1)] keeps_inline [OF assms(1), of node opts]
    by (simp add: render_node_def node_ok_def)
  ultimately show ?thesis by blast
qed

text \<open>A header row opens \<open>tbody\<close> and the last row closes it.\<close>

lemma held_row:
  assumes "keeps kids" and "held st = Some (M_Text, stack)" and "md_kind node = K_Table_Row"
  shows "held (render_node opts ancestors is_last node kids st) =
    (if f_header (md_fields node) then Some (M_Text, ''tbody'' # stack)
     else if is_last then scan (''</tbody>'' @ newline) (Some (M_Text, stack)) else Some (M_Text, stack))"
  using assms by (simp add: render_node_def render_table_def Let_def markup_defs)

lemma held_nodes:
  "nodes_ok opts place nodes \<Longrightarrow>
   held st = Some (M_Text, if place \<in> {P_First, P_Later} \<and> nodes \<noteq> [] then ''tbody'' # stack else stack) \<Longrightarrow>
   held (render_nodes opts ancestors nodes st) = Some (M_Text, stack)"
proof (induction opts place nodes arbitrary: st stack ancestors rule: nodes_ok.induct)
  case (2 opts place kind f children nodes)
  let ?kids = "render_nodes opts ((kind, f_tight f) # ancestors) children"
  let ?node = "Md_Node kind f children"
  let ?st = "render_node opts ancestors (nodes = []) ?node ?kids st"
  have ok: "node_ok opts place kind f" and rest: "nodes_ok opts (next_place place) nodes"
    using "2.prems"(1) by simp_all
  have kids: "keeps ?kids"
    using "2.IH"(1) "2.prems"(1) by (intro keepsI) (auto split: if_splits)
  have "held ?st = Some (M_Text, if next_place place \<in> {P_First, P_Later} \<and> nodes \<noteq> [] then ''tbody'' # stack else stack)"
  proof (cases "place = P_Flow")
    case True
    then show ?thesis
      using keeps_render_node [OF kids, where node = ?node and opts = opts] ok "2.prems"(2) by simp
  next
    case False
    then have row: "kind = K_Table_Row" "f_header f = (place = P_Head)"
      using ok by (simp_all add: node_ok_def)
    show ?thesis
      using held_row [OF kids "2.prems"(2), where node = ?node] row False rest
      by (cases place) (auto simp: newline_def)
  qed
  then show ?case
    using "2.IH"(2) [OF rest] by simp
qed auto

lemma scan_wrapped:
  assumes "scan s (Some (M_Text, [])) = Some (M_Text, [])"
  shows "scan (wrapped opts s) (Some (M_Text, [])) = Some (M_Text, [])"
  using assms scan_below [OF assms, of "[''div'']"] by (simp add: wrapped_def Let_def markup_defs)

text \<open>
  C10. The page of a tree is balanced. For every tree whose tables have a header row and another row,
  whose attributes have clean names and which brings no markup of its own, under every framework and
  with and without highlighting and anchors, the scanner reads the rendered page to its end with
  every element closed: each closing tag names the element opened last, and no bracket or quote is
  out of place, whatever the texts, titles, urls and codes hold.
\<close>

theorem rendered_html_balanced:
  assumes "nodes_ok opts P_Flow [node]"
  shows "balanced (rr_html (render_document opts node))"
proof -
  have "held (render_nodes opts [] [node] \<lparr>r_html = [], r_text = [], r_headings = []\<rparr>) = Some (M_Text, [])"
    by (rule held_nodes [OF assms]) (simp add: held_def)
  then have body: "scan (r_html (render_nodes opts [] [node] \<lparr>r_html = [], r_text = [], r_headings = []\<rparr>)) (Some (M_Text, [])) = Some (M_Text, [])"
    by (simp add: held_def)
  then show ?thesis
    using scan_wrapped by (simp add: balanced_def render_document_def Let_def)
qed

definition no_fields :: md_fields where
  "no_fields = \<lparr>f_level = 0, f_literal = [], f_info = [], f_url = [], f_title = [], f_ordered = False, f_tight = False,
     f_start = 1, f_task = False, f_checked = False, f_header = False, f_alignment = Align_None, f_attributes = [],
     f_label = [], f_number = 0, f_occurrence = 0, f_display = False, f_raw = []\<rparr>"

definition words_node :: "string \<Rightarrow> md_node" where
  "words_node s = Md_Node K_Text (no_fields\<lparr>f_literal := s\<rparr>) []"

definition table_node :: "md_node list \<Rightarrow> md_node" where
  "table_node rows = Md_Node K_Table no_fields (Md_Node K_Table_Row (no_fields\<lparr>f_header := True\<rparr>) [] # rows)"

definition sample_page :: md_node where
  "sample_page = Md_Node K_Document no_fields
     [Md_Node K_Heading (no_fields\<lparr>f_level := 2\<rparr>) [words_node ''a < b''],
      Md_Node K_Paragraph no_fields
        [Md_Node K_Link (no_fields\<lparr>f_url := ''/x'', f_title := ''<t>'', f_attributes := [(''class'', ''c''), (''rel'', ''me'')]\<rparr>) [words_node ''here'']],
      table_node [Md_Node K_Table_Row no_fields [Md_Node K_Table_Cell no_fields [words_node ''1'']]]]"

definition plain_options :: render_options where
  "plain_options = \<lparr>ro_framework = \<lparr>fw_name = ''none'', fw_stylesheet = [], fw_script = []\<rparr>, ro_highlight = True, ro_shortcodes = None, ro_anchors = True\<rparr>"

theorem rendered_html_balanced_witness:
  "nodes_ok plain_options P_Flow [sample_page] \<and> balanced (rr_html (render_document plain_options sample_page))"
proof -
  have ok: "nodes_ok plain_options P_Flow [sample_page]"
    by (simp add: sample_page_def table_node_def words_node_def node_ok_def attributes_ok_def no_fields_def)
  then show ?thesis
    using rendered_html_balanced [OF ok] by simp
qed

text \<open>A table with a header row and nothing after it leaves its body open.\<close>

lemma header_only_table_unbalanced: "\<not> balanced (rr_html (render_document plain_options (table_node [])))"
  by code_simp

section \<open>What does not depend on the options\<close>

text \<open>The headings of a tree in the order of the page; a leaf's children are not rendered.\<close>

definition leaf_kind :: "md_kind \<Rightarrow> bool" where
  "leaf_kind kind \<longleftrightarrow> kind \<in> {K_Thematic_Break, K_Code_Block, K_Html_Block, K_Footnote_Ref, K_Image, K_Shortcode, K_Text,
     K_Soft_Break, K_Line_Break, K_Code_Span, K_Html_Inline, K_Math}"

fun headings_in :: "md_node list \<Rightarrow> heading list" where
  "headings_in [] = []"
| "headings_in (Md_Node kind f children # nodes) =
     (if kind = K_Heading then [\<lparr>hd_level = f_level f, hd_text = plain_nodes children, hd_id = slugify (plain_nodes children)\<rparr>] else []) @
     (if leaf_kind kind then [] else headings_in children) @ headings_in nodes"

text \<open>The words of a tree: what its leaves say, with a line after each block and a space after each cell.\<close>

fun spoken :: "md_node list \<Rightarrow> string" where
  "spoken [] = []"
| "spoken (Md_Node kind f children # nodes) =
     (if kind \<in> {K_Text, K_Code_Span, K_Math, K_Code_Block} then f_literal f
      else if kind = K_Image then plain_nodes children
      else if kind = K_Soft_Break \<or> kind = K_Line_Break then '' ''
      else if leaf_kind kind then []
      else spoken children @
        (if kind \<in> {K_Paragraph, K_Heading, K_Table, K_Definition_Term, K_Definition_Detail} then newline
         else if kind = K_Table_Cell then '' '' else [])) @ spoken nodes"

definition adds :: "heading list \<Rightarrow> render_step \<Rightarrow> bool" where
  "adds hs kids \<longleftrightarrow> (\<forall>st. r_headings (kids st) = r_headings st @ hs)"

lemma state_parts [simp]:
  "r_headings (emit s st) = r_headings st" "r_headings (say s st) = r_headings st" "r_headings (ensure_newline st) = r_headings st"
  "r_headings (with_class opts slot st) = r_headings st"
  "r_text (emit s st) = r_text st" "r_text (say s st) = r_text st @ s" "r_text (ensure_newline st) = r_text st"
  "r_text (with_class opts slot st) = r_text st"
  by (simp_all add: emit_def say_def ensure_newline_def with_class_def)

lemmas one_node_defs = render_node_def render_block_def render_heading_def render_code_block_def render_table_def
  render_definition_def render_footnote_def render_link_def render_inline_def Let_def

lemma node_headings:
  "adds hs kids \<Longrightarrow> r_headings (render_node opts ancestors is_last node kids st) =
     r_headings st @ (if md_kind node = K_Heading
       then [\<lparr>hd_level = f_level (md_fields node), hd_text = plain_nodes (md_children node), hd_id = slugify (plain_nodes (md_children node))\<rparr>]
       else []) @ (if leaf_kind (md_kind node) then [] else hs)"
  by (cases "md_kind node") (simp_all add: one_node_defs adds_def leaf_kind_def)

lemma nodes_headings: "r_headings (render_nodes opts ancestors nodes st) = r_headings st @ headings_in nodes"
proof (induction nodes arbitrary: ancestors st rule: headings_in.induct)
  case (2 kind f children nodes)
  show ?case
  proof (cases "leaf_kind kind")
    case True
    then show ?thesis
      using 2 by (cases kind) (simp_all add: one_node_defs leaf_kind_def)
  next
    case False
    then have "adds (headings_in children) (render_nodes opts ((kind, f_tight f) # ancestors) children)"
      using "2.IH"(1) by (simp add: adds_def)
    then show ?thesis
      using "2.IH"(2) False by (simp add: node_headings)
  qed
qed simp

definition says :: "string \<Rightarrow> render_step \<Rightarrow> bool" where
  "says t kids \<longleftrightarrow> (\<forall>st. r_text (kids st) = r_text st @ t)"

lemma node_text: "says t kids \<Longrightarrow> r_text (render_node opts ancestors is_last (Md_Node kind f children) kids st) =
     r_text st @
     (if kind \<in> {K_Text, K_Code_Span, K_Math, K_Code_Block} then f_literal f
      else if kind = K_Image then plain_nodes children
      else if kind = K_Soft_Break \<or> kind = K_Line_Break then '' ''
      else if leaf_kind kind then []
      else t @ (if kind \<in> {K_Paragraph, K_Heading, K_Table, K_Definition_Term, K_Definition_Detail} then newline
                else if kind = K_Table_Cell then '' '' else []))"
  by (cases kind) (simp_all add: one_node_defs says_def leaf_kind_def)

lemma nodes_text: "r_text (render_nodes opts ancestors nodes st) = r_text st @ spoken nodes"
proof (induction nodes arbitrary: ancestors st rule: spoken.induct)
  case (2 kind f children nodes)
  show ?case
  proof (cases "leaf_kind kind")
    case True
    then show ?thesis
      using 2 by (cases kind) (simp_all add: one_node_defs leaf_kind_def)
  next
    case False
    then have "says (spoken children) (render_nodes opts ((kind, f_tight f) # ancestors) children)"
      using "2.IH"(1) by (auto simp: says_def leaf_kind_def)
    then show ?thesis
      using "2.IH"(2) False by (auto simp: node_text leaf_kind_def)
  qed
qed simp

text \<open>
  The words and the headings of a page are those of its tree. Whatever the framework, the
  shortcodes and the switches for highlighting and anchors, the renderer lists exactly the headings
  of the tree in the order of the page, each with its words and the slug of its words, and its
  stripped text is the words of the leaves in order, trimmed.
\<close>

theorem rendered_words_and_headings:
  "rr_headings (render_document opts node) = headings_in [node] \<and> rr_text (render_document opts node) = trim (spoken [node])"
  by (simp add: render_document_def Let_def nodes_headings nodes_text del: render_nodes.simps headings_in.simps spoken.simps)

end
