(* ===== verification/MarkdownText.thy ===== *)
theory MarkdownText
  imports Escapes
begin

text \<open>
  What the block and the inline half of the Markdown parser share (\<open>markdown_shared.cpp\<close>): classes of
  characters, labels, entities, code points and unescaping. \<open>decode_entity\<close> answers the length it
  consumed and what it appended; \<open>None\<close> is the length 0.
\<close>

unbundle bit_operations_syntax

section \<open>Characters\<close>

definition is_space_or_tab :: "char \<Rightarrow> bool" where
  "is_space_or_tab c \<longleftrightarrow> c = CHR '' '' \<or> c = CHR 0x09"

definition is_letter :: "char \<Rightarrow> bool" where
  "is_letter c \<longleftrightarrow> between (CHR ''a'') (CHR ''z'') c \<or> between (CHR ''A'') (CHR ''Z'') c"

definition is_blank :: "string \<Rightarrow> bool" where
  "is_blank line \<longleftrightarrow> find_pos (\<lambda>c. \<not> is_space_or_tab c) line = None"

definition md_space :: "char \<Rightarrow> bool" where
  "md_space c \<longleftrightarrow> c \<in> {CHR '' '', CHR 0x09, CHR 0x0A, CHR 0x0D, CHR 0x0C, CHR 0x0B}"

definition is_punctuation :: "char \<Rightarrow> bool" where
  "is_punctuation c \<longleftrightarrow> c \<in> set (''!'' @ [CHR 0x22] @ ''#$%&'' @ [CHR 0x27] @ ''()*+,-./:;<=>?@['' @ [CHR 0x5C] @ '']^_'' @ [CHR 0x60] @ ''{|}~'')"

text \<open>The loop of \<open>normalize_label\<close>: what is written, whether a space is pending, what is left.\<close>

fun label_loop :: "string \<Rightarrow> bool \<Rightarrow> string \<Rightarrow> string" where
  "label_loop out pending [] = out"
| "label_loop out pending (c # s) =
     (if md_space c then label_loop out True s
      else label_loop ((if pending \<and> out \<noteq> [] then out @ '' '' else out) @
             [if between (CHR ''A'') (CHR ''Z'') c then char_of (byte c - byte (CHR ''A'') + byte (CHR ''a'')) else c]) False s)"

definition normalize_label :: "string \<Rightarrow> string" where
  "normalize_label label = label_loop [] False (trim label)"

section \<open>Code points\<close>

definition scalar_value :: "32 word \<Rightarrow> 32 word" where
  "scalar_value cp = (if cp = 0 \<or> 0x10FFFF < cp \<or> 0xD800 \<le> cp \<and> cp \<le> 0xDFFF then 0xFFFD else cp)"

definition code_char :: "32 word \<Rightarrow> char" where
  "code_char w = char_of (unat w mod 256)"

definition md_append_utf8 :: "32 word \<Rightarrow> string" where
  "md_append_utf8 code_point =
     (let cp = scalar_value code_point in
      if cp < 0x80 then [code_char cp]
      else if cp < 0x800 then [code_char (0xC0 OR drop_bit 6 cp), code_char (0x80 OR (cp AND 0x3F))]
      else if cp < 0x10000 then
        [code_char (0xE0 OR drop_bit 12 cp), code_char (0x80 OR (drop_bit 6 cp AND 0x3F)), code_char (0x80 OR (cp AND 0x3F))]
      else
        [code_char (0xF0 OR drop_bit 18 cp), code_char (0x80 OR (drop_bit 12 cp AND 0x3F)),
         code_char (0x80 OR (drop_bit 6 cp AND 0x3F)), code_char (0x80 OR (cp AND 0x3F))])"

definition char_word :: "char \<Rightarrow> 32 word" where
  "char_word c = of_nat (byte c)"

text \<open>The continuation bytes folded into the value; \<open>None\<close> at a byte that is not one.\<close>

fun continue_code_point :: "32 word \<Rightarrow> string \<Rightarrow> 32 word option" where
  "continue_code_point v [] = Some v"
| "continue_code_point v (c # s) =
     (if char_word c AND 0xC0 \<noteq> 0x80 then None
      else continue_code_point (push_bit 6 v OR (char_word c AND 0x3F)) s)"

definition lead_of :: "32 word \<Rightarrow> (nat \<times> 32 word) option" where
  "lead_of lead =
     (if lead AND 0xE0 = 0xC0 then Some (2, lead AND 0x1F)
      else if lead AND 0xF0 = 0xE0 then Some (3, lead AND 0x0F)
      else if lead AND 0xF8 = 0xF0 then Some (4, lead AND 0x07)
      else None)"

definition code_point_at :: "string \<Rightarrow> nat \<Rightarrow> 32 word" where
  "code_point_at s offset =
     (if length s \<le> offset then 0
      else
        (let lead = char_word (s ! offset) in
         if lead < 0x80 then lead
         else
           (case lead_of lead of
              None \<Rightarrow> lead
            | Some (count, v) \<Rightarrow>
                if length s < offset + count then lead
                else (case continue_code_point v (take (count - 1) (drop (Suc offset) s)) of None \<Rightarrow> lead | Some v' \<Rightarrow> v'))))"

fun back_to_lead :: "string \<Rightarrow> nat \<Rightarrow> nat" where
  "back_to_lead s 0 = 0"
| "back_to_lead s (Suc start) = (if char_word (s ! Suc start) AND 0xC0 = 0x80 then back_to_lead s start else Suc start)"

definition code_point_before :: "string \<Rightarrow> nat \<Rightarrow> 32 word" where
  "code_point_before s offset = (if offset = 0 then 0 else code_point_at s (back_to_lead s (offset - 1)))"

definition is_unicode_whitespace :: "32 word \<Rightarrow> bool" where
  "is_unicode_whitespace cp \<longleftrightarrow>
     cp \<in> {0x20, 0x09, 0x0A, 0x0D, 0x0C, 0x0B, 0x00A0, 0x1680, 0x2028, 0x2029, 0x202F, 0x205F, 0x3000} \<or>
     0x2000 \<le> cp \<and> cp \<le> 0x200A"

definition punctuation_ranges :: "(32 word \<times> 32 word) list" where
  "punctuation_ranges = [(0x00A1, 0x00BF), (0x00D7, 0x00D7), (0x00F7, 0x00F7), (0x2010, 0x2027), (0x2030, 0x205E),
     (0x20A0, 0x20BF), (0x2100, 0x2BFF), (0x3001, 0x303F), (0xFE30, 0xFE4F), (0xFF01, 0xFF65)]"

definition is_unicode_punctuation :: "32 word \<Rightarrow> bool" where
  "is_unicode_punctuation cp \<longleftrightarrow>
     (if cp < 0x80 then is_punctuation (code_char cp)
      else \<exists>(first, last) \<in> set punctuation_ranges. first \<le> cp \<and> cp \<le> last)"

section \<open>Entities\<close>

definition named_entities :: "(string \<times> string) list" where
  "named_entities = [
     (''amp'', ''&''), (''lt'', ''<''), (''gt'', ''>''), (''quot'', [CHR 0x22]), (''apos'', [CHR 0x27]), (''nbsp'', [CHR 0xC2, CHR 0xA0]),
     (''copy'', [CHR 0xC2, CHR 0xA9]), (''reg'', [CHR 0xC2, CHR 0xAE]), (''trade'', [CHR 0xE2, CHR 0x84, CHR 0xA2]), (''hellip'', [CHR 0xE2, CHR 0x80, CHR 0xA6]),
     (''mdash'', [CHR 0xE2, CHR 0x80, CHR 0x94]), (''ndash'', [CHR 0xE2, CHR 0x80, CHR 0x93]), (''lsquo'', [CHR 0xE2, CHR 0x80, CHR 0x98]),
     (''rsquo'', [CHR 0xE2, CHR 0x80, CHR 0x99]), (''ldquo'', [CHR 0xE2, CHR 0x80, CHR 0x9C]), (''rdquo'', [CHR 0xE2, CHR 0x80, CHR 0x9D]),
     (''laquo'', [CHR 0xC2, CHR 0xAB]), (''raquo'', [CHR 0xC2, CHR 0xBB]), (''deg'', [CHR 0xC2, CHR 0xB0]), (''plusmn'', [CHR 0xC2, CHR 0xB1]),
     (''times'', [CHR 0xC3, CHR 0x97]), (''divide'', [CHR 0xC3, CHR 0xB7]), (''frac12'', [CHR 0xC2, CHR 0xBD]), (''micro'', [CHR 0xC2, CHR 0xB5]),
     (''para'', [CHR 0xC2, CHR 0xB6]), (''sect'', [CHR 0xC2, CHR 0xA7]), (''dagger'', [CHR 0xE2, CHR 0x80, CHR 0xA0]), (''bull'', [CHR 0xE2, CHR 0x80, CHR 0xA2]),
     (''larr'', [CHR 0xE2, CHR 0x86, CHR 0x90]), (''rarr'', [CHR 0xE2, CHR 0x86, CHR 0x92]), (''harr'', [CHR 0xE2, CHR 0x86, CHR 0x94]),
     (''auml'', [CHR 0xC3, CHR 0xA4]), (''ouml'', [CHR 0xC3, CHR 0xB6]), (''uuml'', [CHR 0xC3, CHR 0xBC]), (''szlig'', [CHR 0xC3, CHR 0x9F]),
     (''eacute'', [CHR 0xC3, CHR 0xA9]), (''egrave'', [CHR 0xC3, CHR 0xA8]), (''agrave'', [CHR 0xC3, CHR 0xA0]), (''ccedil'', [CHR 0xC3, CHR 0xA7]),
     (''euro'', [CHR 0xE2, CHR 0x82, CHR 0xAC]), (''pound'', [CHR 0xC2, CHR 0xA3]), (''yen'', [CHR 0xC2, CHR 0xA5]), (''cent'', [CHR 0xC2, CHR 0xA2]),
     (''AElig'', [CHR 0xC3, CHR 0x86]), (''Dagger'', [CHR 0xE2, CHR 0x80, CHR 0xA1]), (''Auml'', [CHR 0xC3, CHR 0x84]), (''Ouml'', [CHR 0xC3, CHR 0x96]),
     (''Uuml'', [CHR 0xC3, CHR 0x9C]), (''ge'', [CHR 0xE2, CHR 0x89, CHR 0xA5]), (''le'', [CHR 0xE2, CHR 0x89, CHR 0xA4]), (''ne'', [CHR 0xE2, CHR 0x89, CHR 0xA0])]"

text \<open>The digits of a numeric reference folded at the width of the code; \<open>None\<close> at a character that is no digit.\<close>

definition reference_digit :: "bool \<Rightarrow> char \<Rightarrow> 32 word option" where
  "reference_digit hexadecimal c =
     (if is_digit c then Some (char_word c - char_word (CHR ''0''))
      else if hexadecimal \<and> between (CHR ''a'') (CHR ''f'') c then Some (char_word c - char_word (CHR ''a'') + 10)
      else if hexadecimal \<and> between (CHR ''A'') (CHR ''F'') c then Some (char_word c - char_word (CHR ''A'') + 10)
      else None)"

fun reference_value :: "bool \<Rightarrow> 32 word \<Rightarrow> string \<Rightarrow> 32 word option" where
  "reference_value hexadecimal v [] = Some v"
| "reference_value hexadecimal v (c # s) =
     (case reference_digit hexadecimal c of
        None \<Rightarrow> None
      | Some d \<Rightarrow> reference_value hexadecimal (v * (if hexadecimal then 16 else 10) + d) s)"

definition decode_entity :: "string \<Rightarrow> (nat \<times> string) option" where
  "decode_entity s =
     (if length s < 3 \<or> s ! 0 \<noteq> CHR ''&'' then None
      else
        (case find_pos (\<lambda>c. c = CHR '';'') (drop 1 s) of
           None \<Rightarrow> None
         | Some count \<Rightarrow>
             (let body = take count (drop 1 s) in
              if 33 < Suc count \<or> body = [] then None
              else if hd body = CHR ''#'' then
                (let hexadecimal = 2 < length body \<and> (body ! 1 = CHR ''x'' \<or> body ! 1 = CHR ''X'');
                     digits = drop (if hexadecimal then 2 else 1) body
                 in if digits = [] \<or> 8 < length digits then None
                    else map_option (\<lambda>cp. (count + 2, md_append_utf8 cp)) (reference_value hexadecimal 0 digits))
              else map_option (\<lambda>t. (count + 2, t)) (map_of named_entities body))))"

text \<open>\<open>unescape_string\<close>; an entity has at least three characters, so the loop goes on.\<close>

function unescape_string :: "string \<Rightarrow> string" where
  "unescape_string [] = []"
| "unescape_string (c # s) =
     (if c = CHR 0x5C \<and> s \<noteq> [] \<and> is_punctuation (hd s) then hd s # unescape_string (tl s)
      else
        (case if c = CHR ''&'' then decode_entity (c # s) else None of
           Some (n, t) \<Rightarrow> t @ unescape_string (drop (n - 1) s)
         | None \<Rightarrow> c # unescape_string s))"
  by pat_completeness auto
termination
  by (relation "measure length") auto

declare unescape_string.simps(2) [simp del]

section \<open>Escaping and unescaping\<close>

lemma decode_markup [simp]:
  "decode_entity (''&amp;'' @ s) = Some (5, ''&'')" "decode_entity (''&lt;'' @ s) = Some (4, ''<'')"
  "decode_entity (''&gt;'' @ s) = Some (4, ''>'')" "decode_entity (''&quot;'' @ s) = Some (6, [CHR 0x22])"
  by (simp_all add: decode_entity_def named_entities_def)

lemma unescape_entity: "c \<noteq> CHR 0x5C \<Longrightarrow> unescape_string (html_entity c @ s) = c # unescape_string s"
  using decode_markup [of s] by (auto simp: html_entity_def unescape_string.simps(2))

text \<open>
  What the renderer escapes, the parser reads back. A text without backslashes that
  \<open>html.cpp\<close> escaped is unescaped to itself by the Markdown parser: the four entities the renderer
  writes are among those the parser decodes, and nothing else of the text is taken for an entity.
\<close>

theorem markdown_reads_escaped_text:
  "CHR 0x5C \<notin> set s \<Longrightarrow> unescape_string (escaped s) = s"
  by (induction s) (auto simp: unescape_entity)

theorem markdown_reads_escaped_text_witness:
  "unescape_string (escaped ''a < b &amp; c'') = ''a < b &amp; c''"
  by (rule markdown_reads_escaped_text) simp

section \<open>Writing and reading a code point\<close>

lemma char_word_char: "w < 256 \<Longrightarrow> char_word (code_char w) = w"
  by (simp add: char_word_def code_char_def word_less_nat_alt)

lemma and_small: "d < 2 ^ k \<Longrightarrow> d AND mask k = (d :: 32 word)"
  by (simp add: less_mask_eq)

lemma and_above: "d < 2 ^ k \<Longrightarrow> k \<le> n \<Longrightarrow> d AND push_bit n m = (0 :: 32 word)"
proof -
  assume "d < 2 ^ k" and "k \<le> n"
  then have "d AND push_bit n m = (d AND mask k) AND push_bit n m"
    by (simp add: and_small)
  with \<open>k \<le> n\<close> show ?thesis
    by (auto intro!: bit_word_eqI simp: bit_simps)
qed

lemma or_below: "a < 2 ^ k \<Longrightarrow> b < 2 ^ k \<Longrightarrow> k < 32 \<Longrightarrow> a OR b < (2 ^ k :: 32 word)"
  using and_mask_less' [of k "a OR b"] by (simp add: word_ao_dist and_small)

lemma join_bits: "push_bit 6 (drop_bit 6 x) OR (x AND 0x3F) = (x :: 32 word)"
proof -
  have m: "(0x3F :: 32 word) = mask 6"
    by (simp add: mask_eq_decr_exp)
  show ?thesis
    unfolding m
  proof (rule bit_word_eqI)
    fix n :: nat assume "n < LENGTH(32)"
    then show "bit (push_bit 6 (drop_bit 6 x) OR x AND mask 6) n = bit x n"
      by (cases "n < 6") (simp_all add: bit_simps)
  qed
qed

lemma unat_p2: "k < 32 \<Longrightarrow> unat (2 ^ k :: 32 word) = 2 ^ k"
proof -
  assume "k < 32"
  then have "(2 :: nat) ^ k < 2 ^ 32"
    by (rule power_strict_increasing) simp
  moreover have "(2 ^ k :: 32 word) = of_nat (2 ^ k)"
    by simp
  ultimately show ?thesis
    by (simp only: unsigned_of_nat take_bit_eq_mod) simp
qed

lemma drop_below: "x < 2 ^ (k + n) \<Longrightarrow> k + n < 32 \<Longrightarrow> drop_bit n x < (2 ^ k :: 32 word)"
proof -
  assume x: "x < 2 ^ (k + n)" and n: "k + n < 32"
  then have "unat x < 2 ^ k * 2 ^ n"
    by (simp add: word_less_nat_alt unat_p2 flip: power_add)
  then have "drop_bit n (unat x) < 2 ^ k"
    by (simp add: drop_bit_eq_div less_mult_imp_div_less)
  then show ?thesis
    using n by (simp only: word_less_nat_alt unat_drop_bit_eq) (simp add: unat_p2)
qed

definition follower :: "32 word \<Rightarrow> 32 word" where
  "follower x = 0x80 OR (x AND 0x3F)"

lemma follower_facts:
  "follower x AND 0xC0 = 0x80" "follower x AND 0x3F = x AND 0x3F" "follower x < 256"
proof -
  have low: "x AND 0x3F < 2 ^ 6"
    using and_mask_less' [where w = x and n = 6] by (simp add: mask_eq_decr_exp)
  have zero: "(x AND 0x3F) AND 0xC0 = 0"
    using and_above [OF low, where n = 6 and m = 3] by simp
  have "x AND 0x3F < 2 ^ 8"
    using low by (simp add: word_less_nat_alt)
  then show "follower x AND 0xC0 = 0x80" "follower x AND 0x3F = x AND 0x3F" "follower x < 256"
    using or_below [of "0x80" 8 "x AND 0x3F"] zero
    by (simp_all add: follower_def word_ao_dist and.assoc)
qed

lemma lead_facts:
  "d < 32 \<Longrightarrow> lead_of (0xC0 OR d) = Some (2, d)" "d < 32 \<Longrightarrow> (0xC0 OR d) AND 0xC0 = 0xC0" "d < 32 \<Longrightarrow> 0xC0 OR d < 256"
  "e < 16 \<Longrightarrow> lead_of (0xE0 OR e) = Some (3, e)" "e < 16 \<Longrightarrow> (0xE0 OR e) AND 0xC0 = 0xC0" "e < 16 \<Longrightarrow> 0xE0 OR e < 256"
  "f < 8 \<Longrightarrow> lead_of (0xF0 OR f) = Some (4, f)" "f < 8 \<Longrightarrow> (0xF0 OR f) AND 0xC0 = 0xC0" "f < 8 \<Longrightarrow> 0xF0 OR f < 256"
proof -
  assume "d < 32"
  then show "lead_of (0xC0 OR d) = Some (2, d)" and "(0xC0 OR d) AND 0xC0 = 0xC0" and "0xC0 OR d < 256"
    using and_small [of d 5] and_above [of d 5 5 7] and_above [of d 5 6 3] or_below [of "0xC0" 8 d]
    by (simp_all add: lead_of_def word_ao_dist mask_eq_decr_exp word_less_nat_alt)
next
  assume "e < 16"
  then show "lead_of (0xE0 OR e) = Some (3, e)" and "(0xE0 OR e) AND 0xC0 = 0xC0" and "0xE0 OR e < 256"
    using and_small [of e 4] and_above [of e 4 5 7] and_above [of e 4 4 15] and_above [of e 4 6 3] or_below [of "0xE0" 8 e]
    by (simp_all add: lead_of_def word_ao_dist mask_eq_decr_exp word_less_nat_alt)
next
  assume "f < 8"
  then show "lead_of (0xF0 OR f) = Some (4, f)" and "(0xF0 OR f) AND 0xC0 = 0xC0" and "0xF0 OR f < 256"
    using and_small [of f 3] and_above [of f 3 5 7] and_above [of f 3 4 15] and_above [of f 3 3 31] and_above [of f 3 6 3]
      or_below [of "0xF0" 8 f]
    by (simp_all add: lead_of_def word_ao_dist mask_eq_decr_exp word_less_nat_alt)
qed

text \<open>A lead byte followed by continuation bytes, read from the front and from behind.\<close>

definition followers :: "32 word list \<Rightarrow> string" where
  "followers xs = map (\<lambda>x. code_char (follower x)) xs"

lemma continue_followers: "continue_code_point v (followers xs) = Some (fold (\<lambda>x v. push_bit 6 v OR (x AND 0x3F)) xs v)"
  by (induction xs arbitrary: v) (simp_all add: followers_def follower_facts char_word_char)

lemma read_sequence:
  assumes "lead_of l = Some (Suc (length xs), v)" and "l < 256" and "0x80 \<le> l"
  shows "code_point_at (p @ code_char l # followers xs @ t) (length p) = fold (\<lambda>x v. push_bit 6 v OR (x AND 0x3F)) xs v"
proof -
  have "take (length xs) (followers xs @ t) = followers xs"
    by (simp add: followers_def)
  moreover have "\<not> l < 0x80"
    using assms(3) by simp
  ultimately show ?thesis
    using assms(1, 2) continue_followers [of v xs]
    by (simp add: code_point_at_def char_word_char followers_def Let_def)
qed

lemma read_behind:
  assumes "l AND 0xC0 \<noteq> 0x80" and "l < 256" and "k \<le> length xs"
  shows "back_to_lead (p @ code_char l # followers xs) (length p + k) = length p"
  using assms(3)
proof (induction k)
  case 0
  show ?case
    using assms(1, 2) by (cases "length p") (simp_all add: nth_append char_word_char)
next
  case (Suc k)
  have "(p @ code_char l # followers xs) ! Suc (length p + k) = code_char (follower (xs ! k))"
    using Suc.prems by (simp add: nth_append followers_def)
  with Suc show ?case
    by (simp add: char_word_char follower_facts)
qed

lemma lead_high: "(0x80 :: 32 word) \<le> 0xC0 OR d" "(0x80 :: 32 word) \<le> 0xE0 OR d" "(0x80 :: 32 word) \<le> 0xF0 OR d"
  by - (rule order_trans [OF _ le_word_or2], simp)+

lemma ascii_leads: "c < (0x80 :: 32 word) \<Longrightarrow> c AND 0xC0 \<noteq> 0x80"
proof
  assume "c < 0x80" and masked: "c AND 0xC0 = 0x80"
  then have "c AND 0x80 = 0"
    using and_above [of c 7 7 1] by simp
  moreover have "c AND 0x80 = (c AND 0xC0) AND 0x80"
    by (simp add: and.assoc)
  ultimately show False
    by (simp add: masked)
qed

text \<open>What is written is an ASCII character or such a sequence.\<close>

definition is_sequence :: "32 word \<Rightarrow> string \<Rightarrow> bool" where
  "is_sequence c s \<longleftrightarrow> (\<exists>l xs v. s = code_char l # followers xs \<and> lead_of l = Some (Suc (length xs), v) \<and> l < 256 \<and> 0x80 \<le> l \<and>
     l AND 0xC0 = 0xC0 \<and> fold (\<lambda>x v. push_bit 6 v OR (x AND 0x3F)) xs v = c)"

lemma utf8_shape:
  "(scalar_value cp < 0x80 \<and> md_append_utf8 cp = [code_char (scalar_value cp)]) \<or> is_sequence (scalar_value cp) (md_append_utf8 cp)"
proof -
  define c where "c = scalar_value cp"
  have top: "c \<le> 0x10FFFF"
    by (simp add: c_def scalar_value_def not_less)
  have join2: "push_bit 6 (drop_bit 12 c) OR (drop_bit 6 c AND 0x3F) = drop_bit 6 c"
    "push_bit 6 (drop_bit 18 c) OR (drop_bit 12 c AND 0x3F) = drop_bit 12 c"
    using join_bits [of "drop_bit 6 c"] join_bits [of "drop_bit 12 c"] by (simp_all add: drop_bit_drop_bit)
  consider "c < 0x80" | "\<not> c < 0x80" "c < 0x800" | "\<not> c < 0x800" "c < 0x10000" | "\<not> c < 0x10000"
    by blast
  then show ?thesis
  proof cases
    case 1
    then show ?thesis by (simp add: md_append_utf8_def Let_def flip: c_def)
  next
    case 2
    have d: "drop_bit 6 c < 32"
      using drop_below [of c 5 6] 2 by simp
    have "is_sequence c [code_char (0xC0 OR drop_bit 6 c), code_char (0x80 OR (c AND 0x3F))]"
      unfolding is_sequence_def
      by (rule exI [of _ "0xC0 OR drop_bit 6 c"], rule exI [of _ "[c]"], rule exI [of _ "drop_bit 6 c"])
        (simp add: followers_def follower_def lead_facts(1-3) [OF d] lead_high join_bits)
    with 2 show ?thesis by (simp add: md_append_utf8_def Let_def flip: c_def)
  next
    case 3
    have d: "drop_bit 12 c < 16"
      using drop_below [of c 4 12] 3 by simp
    have "is_sequence c [code_char (0xE0 OR drop_bit 12 c), code_char (0x80 OR (drop_bit 6 c AND 0x3F)), code_char (0x80 OR (c AND 0x3F))]"
      unfolding is_sequence_def
      by (rule exI [of _ "0xE0 OR drop_bit 12 c"], rule exI [of _ "[drop_bit 6 c, c]"], rule exI [of _ "drop_bit 12 c"])
        (simp add: followers_def follower_def lead_facts(4-6) [OF d] lead_high join_bits join2)
    moreover have "\<not> c < 0x80"
      using 3 by (simp add: word_less_nat_alt)
    ultimately show ?thesis using 3 by (simp add: md_append_utf8_def Let_def flip: c_def)
  next
    case 4
    have "c < 0x200000"
      using top by (simp add: word_less_nat_alt word_le_nat_alt)
    then have d: "drop_bit 18 c < 8"
      using drop_below [of c 3 18] by simp
    have "is_sequence c [code_char (0xF0 OR drop_bit 18 c), code_char (0x80 OR (drop_bit 12 c AND 0x3F)),
        code_char (0x80 OR (drop_bit 6 c AND 0x3F)), code_char (0x80 OR (c AND 0x3F))]"
      unfolding is_sequence_def
      by (rule exI [of _ "0xF0 OR drop_bit 18 c"], rule exI [of _ "[drop_bit 12 c, drop_bit 6 c, c]"], rule exI [of _ "drop_bit 18 c"])
        (simp add: followers_def follower_def lead_facts(7-9) [OF d] lead_high join_bits join2)
    moreover have "\<not> c < 0x80" "\<not> c < 0x800"
      using 4 by (simp_all add: word_less_nat_alt)
    ultimately show ?thesis using 4 by (simp add: md_append_utf8_def Let_def flip: c_def)
  qed
qed

text \<open>
  A code point that is written can be read. At any place of a text, the bytes written for a code
  point decode to it, whether they are read from their front or from behind; a value that is no
  Unicode scalar, and zero, is written and read as the replacement character.
\<close>

theorem code_point_written_is_read:
  "code_point_at (p @ md_append_utf8 cp @ t) (length p) = scalar_value cp \<and>
   code_point_before (p @ md_append_utf8 cp) (length p + length (md_append_utf8 cp)) = scalar_value cp"
  using utf8_shape [of cp]
proof
  assume ascii: "scalar_value cp < 0x80 \<and> md_append_utf8 cp = [code_char (scalar_value cp)]"
  then have "scalar_value cp < 256" by (simp add: word_less_nat_alt)
  then show ?thesis
    using ascii ascii_leads read_behind [of "scalar_value cp" 0 "[]" p]
    by (simp add: code_point_at_def code_point_before_def char_word_char Let_def followers_def)
next
  assume "is_sequence (scalar_value cp) (md_append_utf8 cp)"
  then obtain l xs v where "md_append_utf8 cp = code_char l # followers xs" "lead_of l = Some (Suc (length xs), v)" "l < 256" "0x80 \<le> l"
      "l AND 0xC0 = 0xC0" "fold (\<lambda>x v. push_bit 6 v OR (x AND 0x3F)) xs v = scalar_value cp"
    unfolding is_sequence_def by blast
  then show ?thesis
    using read_sequence [of l xs v p t] read_sequence [of l xs v p "[]"] read_behind [of l "length xs" xs p]
    by (simp add: code_point_before_def followers_def)
qed

end
