(* ===== verification/Attributes.thy ===== *)
theory Attributes
  imports MarkdownText
begin

text \<open>
  The attribute block after a link or image, \<open>{.class #id key=value}\<close>: \<open>parse_attributes\<close> of
  \<open>markdown_inline.cpp\<close>. One turn of its loop takes what is left of the body and answers the
  attribute it appends and what is left then. The loop has a body on which it never ends, so it is a
  partial function, and \<open>attr_hangs\<close> decides that case.
\<close>

section \<open>The loop\<close>

definition attr_turn :: "string \<Rightarrow> (string \<times> string) option \<times> string" where
  "attr_turn rest =
     (let c = hd rest in
      if c = CHR ''.'' \<or> c = CHR ''#'' then
        (let token = takeWhile (\<lambda>c. \<not> md_space c) (tl rest); after = dropWhile (\<lambda>c. \<not> md_space c) (tl rest) in
         (if token \<noteq> [] then Some (if c = CHR ''.'' then ''class'' else ''id'', token) else None, after))
      else
        (let name = takeWhile (\<lambda>c. c \<noteq> CHR ''='' \<and> \<not> md_space c) rest;
             after = dropWhile (\<lambda>c. c \<noteq> CHR ''='' \<and> \<not> md_space c) rest
         in if after = [] \<or> hd after \<noteq> CHR ''='' \<or> name = [] then (None, after)
            else
              (let v = tl after in
               if v \<noteq> [] \<and> (hd v = CHR 0x22 \<or> hd v = CHR 0x27) then
                 (Some (name, takeWhile (\<lambda>c. c \<noteq> hd v) (tl v)), drop 1 (dropWhile (\<lambda>c. c \<noteq> hd v) (tl v)))
               else (Some (name, takeWhile (\<lambda>c. \<not> md_space c) v), dropWhile (\<lambda>c. \<not> md_space c) v))))"

definition attr_skip :: "string \<Rightarrow> string" where
  "attr_skip rest = dropWhile md_space rest"

partial_function (option) parse_attributes :: "string \<Rightarrow> (string \<times> string) list option" where
  "parse_attributes rest =
     (if attr_skip rest = [] then Some []
      else Option.bind (parse_attributes (snd (attr_turn (attr_skip rest))))
        (\<lambda>more. Some (case fst (attr_turn (attr_skip rest)) of None \<Rightarrow> more | Some a \<Rightarrow> a # more)))"

declare parse_attributes.simps [code]

text \<open>\<open>attach_attribute_block\<close> on what is left of the input: the attributes and what is left then.\<close>

definition attach_attribute_block :: "string \<Rightarrow> ((string \<times> string) list \<times> string) option" where
  "attach_attribute_block rest =
     (if rest = [] \<or> hd rest \<noteq> CHR ''{'' then Some ([], rest)
      else
        (case find_pos (\<lambda>c. c = CHR ''}'') (tl rest) of
           None \<Rightarrow> Some ([], rest)
         | Some n \<Rightarrow>
             map_option (\<lambda>as. if as = [] then ([], rest) else (as, drop (Suc n) (tl rest)))
               (parse_attributes (take n (tl rest)))))"

section \<open>When it ends\<close>

lemma attr_turn_stuck: "attr_turn (CHR ''='' # s) = (None, CHR ''='' # s)"
  by (simp add: attr_turn_def)

lemma drop_while_le: "length xs \<le> n \<Longrightarrow> length (dropWhile P xs) \<le> n" "length xs \<le> n \<Longrightarrow> length (tl xs) \<le> n" "length xs \<le> n \<Longrightarrow> length (drop (Suc 0) xs) \<le> n"
  by (simp_all add: order.trans [OF length_dropWhile_le])

lemma attr_turn_shorter:
  assumes "rest \<noteq> []" and "\<not> md_space (hd rest)" and "hd rest \<noteq> CHR ''=''"
  shows "length (snd (attr_turn rest)) < length rest"
proof -
  obtain c s where rest: "rest = c # s" using assms(1) by (cases rest) auto
  have "length (snd (attr_turn rest)) \<le> length s"
    using assms(2, 3) unfolding rest attr_turn_def Let_def
    by (auto simp del: length_tl length_drop intro!: drop_while_le)
  with rest show ?thesis by simp
qed

lemma attr_skip_hd: "attr_skip rest \<noteq> [] \<Longrightarrow> \<not> md_space (hd (attr_skip rest))"
  by (simp add: attr_skip_def hd_dropWhile)

function attr_hangs :: "string \<Rightarrow> bool" where
  "attr_hangs rest =
     (if attr_skip rest = [] then False
      else if hd (attr_skip rest) = CHR ''='' then True
      else attr_hangs (snd (attr_turn (attr_skip rest))))"
  by pat_completeness auto
termination
proof (relation "measure length", goal_cases)
  case (2 rest)
  then have "length (snd (attr_turn (attr_skip rest))) < length (attr_skip rest)"
    by (intro attr_turn_shorter) (simp_all add: attr_skip_hd)
  also have "\<dots> \<le> length rest"
    by (simp add: attr_skip_def length_dropWhile_le)
  finally show ?case by simp
qed simp

declare attr_hangs.simps [simp del]

lemma attr_skip_equals: "attr_skip (CHR ''='' # s) = CHR ''='' # s"
  by (simp add: attr_skip_def md_space_def)

lemma attr_stuck: "parse_attributes rest = Some as \<Longrightarrow> \<forall>s. attr_skip rest \<noteq> CHR ''='' # s"
proof (rule parse_attributes.raw_induct [where P = "\<lambda>rest as. \<forall>s. attr_skip rest \<noteq> CHR ''='' # s"])
  fix loop :: "string \<Rightarrow> (string \<times> string) list option" and rest as
  assume hyp: "\<And>r as. loop r = Some as \<Longrightarrow> \<forall>s. attr_skip r \<noteq> CHR ''='' # s"
    and body: "(if attr_skip rest = [] then Some []
      else Option.bind (loop (snd (attr_turn (attr_skip rest))))
        (\<lambda>more. Some (case fst (attr_turn (attr_skip rest)) of None \<Rightarrow> more | Some a \<Rightarrow> a # more))) = Some as"
  show "\<forall>s. attr_skip rest \<noteq> CHR ''='' # s"
  proof (rule allI, rule notI)
    fix s assume skip: "attr_skip rest = CHR ''='' # s"
    have "loop (CHR ''='' # s) = Some as"
      using body unfolding skip attr_turn_stuck by (cases "loop (CHR ''='' # s)") simp_all
    then show False
      using hyp attr_skip_equals by blast
  qed
qed

text \<open>
  An attribute block ends unless it runs into a bare equals sign. The loop answers a list of
  attributes exactly when no turn of it starts at an equals sign; with one it goes on for ever at the
  same place. Whether it does is decided by \<open>attr_hangs\<close>, which always ends, and \<open>{=}\<close> is such a body.
\<close>

theorem attribute_block_ends:
  "(parse_attributes body = None) = attr_hangs body \<and> parse_attributes ''='' = None"
proof -
  have hangs: "(parse_attributes body = None) = attr_hangs body" for body
  proof (induction body rule: attr_hangs.induct)
  case (1 rest)
  show ?case
  proof (cases "attr_skip rest = [] \<or> hd (attr_skip rest) \<noteq> CHR ''=''")
    case True
    with 1 show ?thesis
      by (subst parse_attributes.simps, subst attr_hangs.simps) (auto simp: bind_eq_None_conv)
  next
    case False
    then have "attr_skip rest = CHR ''='' # tl (attr_skip rest)"
      by (cases "attr_skip rest") auto
    then have "parse_attributes rest = None"
      using attr_stuck [of rest] by (cases "parse_attributes rest") auto
    with False show ?thesis
      by (simp add: attr_hangs.simps [of rest])
  qed
qed
  moreover have "attr_hangs ''=''"
    by (simp add: attr_hangs.simps [of "''=''"] attr_skip_equals)
  ultimately show ?thesis by blast
qed

section \<open>Reading a written block\<close>

definition written_attribute :: "string \<times> string \<Rightarrow> string" where
  "written_attribute a = '' '' @ fst a @ ''='' @ [CHR 0x22] @ snd a @ [CHR 0x22]"

definition plain_name :: "string \<Rightarrow> bool" where
  "plain_name name \<longleftrightarrow> name \<noteq> [] \<and> hd name \<noteq> CHR ''.'' \<and> hd name \<noteq> CHR ''#'' \<and> (\<forall>c \<in> set name. c \<noteq> CHR ''='' \<and> \<not> md_space c)"

lemma attr_turn_written:
  assumes "plain_name name" and "CHR 0x22 \<notin> set v"
  shows "attr_turn (name @ ''='' @ [CHR 0x22] @ v @ [CHR 0x22] @ rest) = (Some (name, v), rest)"
proof -
  have name: "takeWhile (\<lambda>c. c \<noteq> CHR ''='' \<and> \<not> md_space c) (name @ CHR ''='' # s) = name"
      "dropWhile (\<lambda>c. c \<noteq> CHR ''='' \<and> \<not> md_space c) (name @ CHR ''='' # s) = CHR ''='' # s" for s
    using assms(1) by (simp_all add: plain_name_def takeWhile_append2 dropWhile_append2)
  have quoted: "takeWhile (\<lambda>c. c \<noteq> CHR 0x22) (v @ CHR 0x22 # s) = v" "dropWhile (\<lambda>c. c \<noteq> CHR 0x22) (v @ CHR 0x22 # s) = CHR 0x22 # s" for s
    using assms(2) by (induction v) auto
  show ?thesis
    using assms(1) by (simp add: attr_turn_def Let_def name quoted plain_name_def)
qed

lemma attr_skip_written:
  "plain_name name \<Longrightarrow> attr_skip (CHR '' '' # name @ s) = name @ s"
  by (cases name) (auto simp: attr_skip_def md_space_def plain_name_def)

lemma parse_attributes_written:
  assumes "\<forall>(name, v) \<in> set as. plain_name name \<and> CHR 0x22 \<notin> set v"
  shows "parse_attributes (concat (map written_attribute as)) = Some as"
  using assms
proof (induction as)
  case Nil
  show ?case by (subst parse_attributes.simps) (simp add: attr_skip_def)
next
  case (Cons a as)
  obtain name v where a: "a = (name, v)" by fastforce
  have ok: "plain_name name" "CHR 0x22 \<notin> set v"
    using Cons.prems a by simp_all
  have skip: "attr_skip (concat (map written_attribute (a # as))) = name @ ''='' @ [CHR 0x22] @ v @ [CHR 0x22] @ concat (map written_attribute as)"
    using attr_skip_written [OF ok(1)] by (simp add: a written_attribute_def)
  show ?case
    unfolding parse_attributes.simps [of "concat (map written_attribute (a # as))"] skip attr_turn_written [OF ok]
    using Cons by (simp add: a)
qed

lemma written_no_brace:
  assumes "\<forall>(name, v) \<in> set as. CHR ''}'' \<notin> set name \<union> set v"
  shows "\<forall>c \<in> set (concat (map written_attribute as)). c \<noteq> CHR ''}''"
proof
  fix c assume "c \<in> set (concat (map written_attribute as))"
  then obtain name v where "(name, v) \<in> set as" and c: "c \<in> set (written_attribute (name, v))"
    by auto
  then have "CHR ''}'' \<notin> set name \<union> set v"
    using assms by blast
  with c show "c \<noteq> CHR ''}''"
    by (auto simp: written_attribute_def)
qed

text \<open>
  A written attribute block is read back. Names that hold no space and no equals sign and do
  not start with a dot or a hash, each with a value in double quotes that holds none, are attached
  in their order with their values, and the text goes on after the closing brace.
\<close>

theorem attribute_block_reads_back:
  assumes "as \<noteq> []" and "\<forall>(name, v) \<in> set as. plain_name name \<and> CHR 0x22 \<notin> set v \<and> CHR ''}'' \<notin> set name \<union> set v"
  shows "attach_attribute_block (''{'' @ concat (map written_attribute as) @ ''}'' @ rest) = Some (as, rest)"
proof -
  have "\<forall>(name, v) \<in> set as. CHR ''}'' \<notin> set name \<union> set v" and "\<forall>(name, v) \<in> set as. plain_name name \<and> CHR 0x22 \<notin> set v"
    using assms(2) by auto
  then have "find_pos (\<lambda>c. c = CHR ''}'') (concat (map written_attribute as) @ CHR ''}'' # rest) = Some (length (concat (map written_attribute as)))"
    and "parse_attributes (concat (map written_attribute as)) = Some as"
    using written_no_brace parse_attributes_written by (simp_all add: find_pos_append_first)
  then show ?thesis
    using assms(1) by (simp add: attach_attribute_block_def)
qed

theorem attribute_block_reads_back_witness:
  "attach_attribute_block (''{ rel='' @ [CHR 0x22] @ ''a = {b'' @ [CHR 0x22] @ ''} more'') = Some ([(''rel'', ''a = {b'')], '' more'')"
  using attribute_block_reads_back [of "[(''rel'', ''a = {b'')]" "'' more''"]
  by (simp add: plain_name_def md_space_def written_attribute_def)

end
