(* ===== verification/MarkdownLines.thy ===== *)
theory MarkdownLines
  imports MarkdownText MarkdownTree
begin

text \<open>
  What one line of Markdown can open (\<open>markdown.cpp\<close>, before the class \<open>BlockParser\<close>): the scanner
  that counts columns, and a matcher for each kind of block. A matcher's \<open>matched\<close> field is an option.
\<close>

section \<open>The scanner\<close>

text \<open>
  \<open>sc_line\<close> is the line from \<open>offset\<close> on. A tab that indentation splits owes its other columns, which
  \<open>sc_pending\<close> counts.
\<close>

record scanner =
  sc_line :: string
  sc_column :: nat
  sc_pending :: nat

definition scan_line :: "string \<Rightarrow> scanner" where
  "scan_line line = \<lparr>sc_line = line, sc_column = 0, sc_pending = 0\<rparr>"

definition tab_width :: "nat \<Rightarrow> nat" where
  "tab_width column = 4 - column mod 4"

definition sc_peek :: "scanner \<Rightarrow> char option" where
  "sc_peek s =
     (if 0 < sc_pending s then Some (CHR '' '')
      else (case sc_line s of [] \<Rightarrow> None | c # _ \<Rightarrow> Some c))"

definition sc_advance :: "scanner \<Rightarrow> scanner" where
  "sc_advance s =
     (if 0 < sc_pending s then s\<lparr>sc_pending := sc_pending s - 1, sc_column := sc_column s + 1\<rparr>
      else
        (case sc_line s of
           [] \<Rightarrow> s
         | c # rest \<Rightarrow>
             s\<lparr>sc_line := rest, sc_column := sc_column s + (if c = CHR 0x09 then tab_width (sc_column s) else 1)\<rparr>))"

definition sc_rest :: "scanner \<Rightarrow> string" where
  "sc_rest s = replicate (sc_pending s) (CHR '' '') @ sc_line s"

definition sc_at_blank :: "scanner \<Rightarrow> bool" where
  "sc_at_blank s \<longleftrightarrow> (case sc_peek s of None \<Rightarrow> False | Some c \<Rightarrow> is_space_or_tab c)"

definition tab_splits :: "nat \<Rightarrow> nat \<Rightarrow> scanner \<Rightarrow> bool" where
  "tab_splits started limit s \<longleftrightarrow> sc_pending s = 0 \<and> sc_peek s = Some (CHR 0x09) \<and>
     limit - (sc_column s - started) < tab_width (sc_column s)"

definition split_tab :: "nat \<Rightarrow> nat \<Rightarrow> scanner \<Rightarrow> scanner" where
  "split_tab started limit s =
     (let remaining = limit - (sc_column s - started)
      in \<lparr>sc_line = tl (sc_line s), sc_column = sc_column s + remaining, sc_pending = tab_width (sc_column s) - remaining\<rparr>)"

function skip_from :: "nat \<Rightarrow> nat \<Rightarrow> scanner \<Rightarrow> scanner" where
  "skip_from started limit s =
     (if sc_at_blank s \<and> sc_column s - started < limit then
        (if tab_splits started limit s then split_tab started limit s
         else skip_from started limit (sc_advance s))
      else s)"
  by pat_completeness auto
termination
proof (relation "measure (\<lambda>(_, _, s). sc_pending s + length (sc_line s))", goal_cases)
  case (2 started limit s)
  then show ?case
    by (auto simp: sc_at_blank_def sc_peek_def sc_advance_def split: if_splits list.splits)
qed simp

declare skip_from.simps [simp del]

text \<open>The columns skipped, and the scanner after them.\<close>

definition skip_spaces_to :: "nat \<Rightarrow> scanner \<Rightarrow> nat \<times> scanner" where
  "skip_spaces_to limit s = (let s' = skip_from (sc_column s) limit s in (sc_column s' - sc_column s, s'))"

section \<open>Rules, headings and fences\<close>

definition matches_thematic_break :: "string \<Rightarrow> bool" where
  "matches_thematic_break rest \<longleftrightarrow>
     (case rest of
        [] \<Rightarrow> False
      | marker # _ \<Rightarrow>
          marker \<in> set ''*-_'' \<and> list_all (\<lambda>c. c = marker \<or> is_space_or_tab c) rest \<and>
          3 \<le> length (filter (\<lambda>c. c = marker) rest))"

text \<open>The level and the content of a heading.\<close>

definition atx_content :: "string \<Rightarrow> string" where
  "atx_content after =
     (let content = trim after;
          hashes = length (takeWhile (\<lambda>c. c = CHR ''#'') (rev content));
          trailing = length content - hashes
      in if trailing = 0 then []
         else if trailing < length content \<and> is_space_or_tab (content ! (trailing - 1)) then trim_end (take trailing content)
         else content)"

definition match_atx_heading :: "string \<Rightarrow> (nat \<times> string) option" where
  "match_atx_heading rest =
     (let level = length (takeWhile (\<lambda>c. c = CHR ''#'') rest); after = drop level rest
      in if level = 0 \<or> 6 < level then None
         else if after \<noteq> [] \<and> \<not> is_space_or_tab (hd after) then None
         else Some (level, atx_content after))"

record fence_match =
  fm_character :: char
  fm_length :: nat
  fm_info :: string

definition match_code_fence :: "string \<Rightarrow> fence_match option" where
  "match_code_fence rest =
     (case rest of
        [] \<Rightarrow> None
      | marker # _ \<Rightarrow>
          if marker \<noteq> CHR 0x60 \<and> marker \<noteq> CHR ''~'' then None
          else
            (let len = length (takeWhile (\<lambda>c. c = marker) rest); info = trim (drop len rest)
             in if len < 3 then None
                else if marker = CHR 0x60 \<and> CHR 0x60 \<in> set info then None
                else Some \<lparr>fm_character = marker, fm_length = len, fm_info = info\<rparr>))"

definition matches_closing_fence :: "string \<Rightarrow> char \<Rightarrow> nat \<Rightarrow> bool" where
  "matches_closing_fence rest marker len \<longleftrightarrow>
     (let n = length (takeWhile (\<lambda>c. c = marker) rest) in len \<le> n \<and> trim (drop n rest) = [])"

section \<open>Lists\<close>

datatype list_delimiter = No_Delimiter | Period | Paren

record list_match =
  lm_ordered :: bool
  lm_start :: int
  lm_delimiter :: list_delimiter
  lm_width :: nat
  lm_bullet :: char

text \<open>\<open>stoi\<close> of at most nine digits.\<close>

definition marker_number :: "string \<Rightarrow> int" where
  "marker_number digits = foldl (\<lambda>n c. 10 * n + (int (byte c) - 48)) 0 digits"

definition match_list_marker :: "string \<Rightarrow> list_match option" where
  "match_list_marker rest =
     (case rest of
        [] \<Rightarrow> None
      | first # _ \<Rightarrow>
          if first \<in> set ''-+*'' then
            Some \<lparr>lm_ordered = False, lm_start = 1, lm_delimiter = No_Delimiter, lm_width = 1, lm_bullet = first\<rparr>
          else
            (let digits = length (takeWhile is_digit (take 10 rest)) in
             if digits = 0 \<or> length rest \<le> digits \<or> 9 < digits then None
             else if rest ! digits = CHR ''.'' \<or> rest ! digits = CHR '')'' then
               Some \<lparr>lm_ordered = True, lm_start = marker_number (take digits rest),
                 lm_delimiter = (if rest ! digits = CHR ''.'' then Period else Paren), lm_width = digits + 1,
                 lm_bullet = CHR 0x00\<rparr>
             else None))"

section \<open>Tags and HTML blocks\<close>

definition tag_name_character :: "char \<Rightarrow> bool" where
  "tag_name_character c \<longleftrightarrow> is_letter c \<or> is_digit c \<or> c = CHR ''-''"

definition attribute_name_character :: "char \<Rightarrow> bool" where
  "attribute_name_character c \<longleftrightarrow> is_letter c \<or> is_digit c \<or> c \<in> set ''_.:-''"

definition unquoted_character :: "char \<Rightarrow> bool" where
  "unquoted_character c \<longleftrightarrow> \<not> md_space c \<and> c \<notin> set (CHR 0x22 # CHR 0x27 # CHR 0x60 # ''=<>'')"

text \<open>What follows an attribute, when there is one: past its value, if it has an equals sign.\<close>

definition attribute_value_rest :: "string \<Rightarrow> string option" where
  "attribute_value_rest after =
     (case dropWhile md_space after of
        [] \<Rightarrow> None
      | q # inside \<Rightarrow>
          if q = CHR 0x22 \<or> q = CHR 0x27 then
            (case find_pos (\<lambda>d. d = q) inside of None \<Rightarrow> None | Some closing \<Rightarrow> Some (drop (Suc closing) inside))
          else if unquoted_character q then Some (dropWhile unquoted_character inside)
          else None)"

definition attribute_rest :: "string \<Rightarrow> string option" where
  "attribute_rest before_equals =
     (case dropWhile md_space before_equals of
        [] \<Rightarrow> Some before_equals
      | c # after \<Rightarrow> if c \<noteq> CHR ''='' then Some before_equals else attribute_value_rest after)"

definition match_attribute :: "string \<Rightarrow> string option" where
  "match_attribute rest =
     (case rest of
        [] \<Rightarrow> None
      | first # _ \<Rightarrow>
          if \<not> is_letter first \<and> first \<noteq> CHR ''_'' \<and> first \<noteq> CHR '':'' then None
          else attribute_rest (dropWhile attribute_name_character rest))"

lemma dropWhile_Cons_le: "dropWhile P xs = y # ys \<Longrightarrow> length ys < length xs"
  by (metis length_dropWhile_le length_Cons less_le_trans lessI)

lemma attribute_value_rest_le: "attribute_value_rest after = Some rest \<Longrightarrow> length rest \<le> length after"
  by (auto simp: attribute_value_rest_def split: list.splits if_splits option.splits
      dest!: dropWhile_Cons_le intro: le_trans [OF length_dropWhile_le])

lemma attribute_rest_le: "attribute_rest before = Some rest \<Longrightarrow> length rest \<le> length before"
  by (auto simp: attribute_rest_def split: list.splits if_splits dest!: dropWhile_Cons_le attribute_value_rest_le)

lemma match_attribute_shorter: "match_attribute rest = Some rest' \<Longrightarrow> length rest' < length rest"
proof -
  assume "match_attribute rest = Some rest'"
  then obtain first more where "rest = first # more" "attribute_name_character first"
    and rest': "attribute_rest (dropWhile attribute_name_character rest) = Some rest'"
    by (auto simp: match_attribute_def attribute_name_character_def split: list.splits if_splits)
  then have "length (dropWhile attribute_name_character rest) < length rest"
    using length_dropWhile_less [of rest attribute_name_character] by simp
  with attribute_rest_le [OF rest'] show ?thesis by simp
qed

text \<open>What follows the attributes of an open tag and its bracket.\<close>

function tag_attributes :: "string \<Rightarrow> string option" where
  "tag_attributes rest =
     (case dropWhile md_space rest of
        [] \<Rightarrow> None
      | c # inside \<Rightarrow>
          if c = CHR ''>'' then Some inside
          else if c = CHR ''/'' then
            (case inside of [] \<Rightarrow> None | d # after \<Rightarrow> if d = CHR ''>'' then Some after else None)
          else if dropWhile md_space rest = rest then None
          else
            (case match_attribute (dropWhile md_space rest) of
               None \<Rightarrow> None
             | Some after \<Rightarrow> tag_attributes after))"
  by pat_completeness auto
termination
proof (relation "measure length", goal_cases)
  case (2 rest c inside after)
  then show ?case
    using match_attribute_shorter [of "dropWhile md_space rest" after] length_dropWhile_le [of md_space rest]
    by (metis in_measure le_less_trans less_le_trans)
qed simp

declare tag_attributes.simps [simp del]

definition match_tag_rest :: "string \<Rightarrow> string option" where
  "match_tag_rest after =
     (let closing_tag = (after \<noteq> [] \<and> hd after = CHR ''/''); name = (if closing_tag then tl after else after)
      in if name = [] \<or> \<not> is_letter (hd name) then None
         else
           (let inside = dropWhile tag_name_character name in
            if closing_tag then
              (case dropWhile md_space inside of
                 [] \<Rightarrow> None
               | c # rest \<Rightarrow> if c = CHR ''>'' then Some rest else None)
            else tag_attributes inside))"

text \<open>The length of the tag a text starts with, 0 when it starts with none.\<close>

definition match_html_tag :: "string \<Rightarrow> nat" where
  "match_html_tag text =
     (if length text < 2 \<or> hd text \<noteq> CHR ''<'' then 0
      else (case match_tag_rest (tl text) of None \<Rightarrow> 0 | Some rest \<Rightarrow> length text - length rest))"

definition html_block_tags :: "string list" where
  "html_block_tags =
     [''address'', ''article'', ''aside'', ''base'', ''basefont'', ''blockquote'', ''body'', ''caption'', ''center'', ''col'',
      ''colgroup'', ''dd'', ''details'', ''dialog'', ''dir'', ''div'', ''dl'', ''dt'', ''fieldset'', ''figcaption'', ''figure'',
      ''footer'', ''form'', ''frame'', ''frameset'', ''h1'', ''h2'', ''h3'', ''h4'', ''h5'', ''h6'', ''head'', ''header'', ''hr'',
      ''html'', ''iframe'', ''legend'', ''li'', ''link'', ''main'', ''menu'', ''menuitem'', ''nav'', ''noframes'', ''ol'',
      ''optgroup'', ''option'', ''p'', ''param'', ''search'', ''section'', ''summary'', ''table'', ''tbody'', ''td'', ''tfoot'',
      ''th'', ''thead'', ''title'', ''tr'', ''track'', ''ul'']"

definition match_html_block_start :: "string \<Rightarrow> bool \<Rightarrow> nat" where
  "match_html_block_start rest in_paragraph =
     (if rest = [] \<or> hd rest \<noteq> CHR ''<'' then 0
      else
        (let after = tl rest; lowered = to_lower_ascii after;
             name = (if starts_with after ''/'' then tl after else after);
             len = length (takeWhile (\<lambda>c. is_letter c \<or> is_digit c) name);
             tag = to_lower_ascii (take len name); tail = drop len name
         in if list_ex (starts_with lowered) [''script'', ''pre'', ''style'', ''textarea''] then 1
            else if starts_with after ''!--'' then 2
            else if starts_with after ''?'' then 3
            else if starts_with after ''![CDATA['' then 5
            else if 1 < length after \<and> hd after = CHR ''!'' \<and> is_letter (after ! 1) then 4
            else if len = 0 then 0
            else if tag \<in> set html_block_tags \<and>
              (tail = [] \<or> is_space_or_tab (hd tail) \<or> starts_with tail ''>'' \<or> starts_with tail ''/>'') then 6
            else if \<not> in_paragraph \<and> 0 < match_html_tag rest \<and> trim (drop (match_html_tag rest) rest) = [] then 7
            else 0))"

definition html_block_ends :: "nat \<Rightarrow> string \<Rightarrow> bool" where
  "html_block_ends type line \<longleftrightarrow>
     (if type = 1 then list_ex (contains (to_lower_ascii line)) [''</script>'', ''</pre>'', ''</style>'', ''</textarea>'']
      else if type = 2 then contains line ''-->''
      else if type = 3 then contains line ''?>''
      else if type = 4 then CHR ''>'' \<in> set line
      else if type = 5 then contains line '']]>''
      else False)"

section \<open>Underlines, tables and the rest\<close>

definition setext_level :: "string \<Rightarrow> nat" where
  "setext_level rest =
     (case trim_end rest of
        [] \<Rightarrow> 0
      | marker # others \<Rightarrow>
          if marker \<noteq> CHR ''='' \<and> marker \<noteq> CHR ''-'' then 0
          else if list_ex (\<lambda>c. c \<noteq> marker) others then 0
          else if marker = CHR ''='' then 1 else 2)"

text \<open>The cells of a row. An escape at its end steps past it, and the last cell is lost.\<close>

fun row_cells :: "string \<Rightarrow> string \<Rightarrow> string list" where
  "row_cells cell [] = [trim cell]"
| "row_cells cell [c] =
     (if c = CHR 0x5C then [] else if c = CHR ''|'' then [trim cell, trim []] else [trim (cell @ [c])])"
| "row_cells cell (c # d # rest) =
     (if c = CHR 0x5C then row_cells (cell @ [c, d]) rest
      else if c = CHR ''|'' then trim cell # row_cells [] (d # rest)
      else row_cells (cell @ [c]) (d # rest))"

definition split_table_row :: "string \<Rightarrow> string list" where
  "split_table_row line =
     (let trimmed = trim line;
          opened = (if starts_with trimmed ''|'' then tl trimmed else trimmed);
          inside = (if ends_with opened ''|'' \<and> \<not> ends_with opened [CHR 0x5C, CHR ''|''] then butlast opened else opened)
      in row_cells [] inside)"

definition cell_alignment :: "string \<Rightarrow> alignment option" where
  "cell_alignment cell =
     (if cell = [] then None
      else
        (let left = (hd cell = CHR '':''); right = (last cell = CHR '':'');
             dashes = (if left then tl cell else cell);
             dashes' = (if right \<and> dashes \<noteq> [] then butlast dashes else dashes)
         in if dashes' = [] \<or> list_ex (\<lambda>c. c \<noteq> CHR ''-'') dashes' then None
            else Some (if left \<and> right then Align_Center else if left then Align_Left
              else if right then Align_Right else Align_None)))"

definition table_alignments :: "string \<Rightarrow> alignment list" where
  "table_alignments line =
     (if CHR ''-'' \<notin> set line then []
      else
        (let cells = map cell_alignment (split_table_row line)
         in if None \<in> set cells then [] else map the cells))"

text \<open>Whether the box of a task is checked, and how wide the marker is.\<close>

definition match_task_marker :: "string \<Rightarrow> (bool \<times> nat) option" where
  "match_task_marker content =
     (if length content < 3 \<or> content ! 0 \<noteq> CHR ''['' \<or> content ! 2 \<noteq> CHR '']'' then None
      else if content ! 1 \<notin> set '' xX'' then None
      else if 3 < length content \<and> \<not> is_space_or_tab (content ! 3) then None
      else Some (content ! 1 \<noteq> CHR '' '', if 3 < length content then 4 else 3))"

text \<open>The name and the arguments of a shortcode. A text that starts and ends so has six characters.\<close>

definition match_shortcode :: "string \<Rightarrow> (string \<times> string) option" where
  "match_shortcode rest =
     (let trimmed = trim rest in
      if \<not> starts_with trimmed ''{{<'' \<or> \<not> ends_with trimmed ''>}}'' then None
      else
        (let body = trim (take (length trimmed - 6) (drop 3 trimmed));
             len = length (takeWhile (\<lambda>c. is_letter c \<or> is_digit c \<or> c = CHR ''-'' \<or> c = CHR ''_'') body)
         in if len = 0 then None else Some (take len body, trim (drop len body))))"

definition is_definition_line :: "string \<Rightarrow> bool" where
  "is_definition_line rest \<longleftrightarrow>
     (let trimmed = trim_start rest
      in 1 < length trimmed \<and> trimmed ! 0 = CHR '':'' \<and> is_space_or_tab (trimmed ! 1))"

end
