(* ===== verification/LinkDefinitions.thy ===== *)
theory LinkDefinitions
  imports MarkdownLines
begin

text \<open>
  The definitions a paragraph may open with (\<open>markdown_inline.cpp\<close>): links, \<open>[label]: url "title"\<close>, and
  footnotes, \<open>[^label]: body\<close>. A position in the input is the text from there on; an answer of 0 bytes is
  \<open>None\<close>. The maps keep the first definition of a label.
\<close>

type_synonym reference_map = "(string \<times> string \<times> string) list"
type_synonym footnote_map = "(string \<times> string) list"

definition add_first :: "'k \<Rightarrow> 'v \<Rightarrow> ('k \<times> 'v) list \<Rightarrow> ('k \<times> 'v) list" where
  "add_first k v entries = (if map_of entries k = None then entries @ [(k, v)] else entries)"

section \<open>Links\<close>

text \<open>The label up to the bracket that closes it, and what follows the bracket.\<close>

fun label_part :: "nat \<Rightarrow> string \<Rightarrow> string \<Rightarrow> (string \<times> string) option" where
  "label_part depth label [] = None"
| "label_part depth label [c] = (if c = CHR '']'' \<and> depth = 0 then Some (label, []) else None)"
| "label_part depth label (c # d # rest) =
     (if c = CHR 0x5C then label_part depth (label @ [c, d]) rest
      else if c = CHR '']'' \<and> depth = 0 then Some (label, d # rest)
      else label_part (if c = CHR ''['' then depth + 1 else if c = CHR '']'' then depth - 1 else depth)
             (label @ [c]) (d # rest))"

definition read_definition_label :: "string \<Rightarrow> (string \<times> string) option" where
  "read_definition_label input =
     (case dropWhile is_space_or_tab input of
        [] \<Rightarrow> None
      | c # inside \<Rightarrow>
          if c \<noteq> CHR ''['' then None
          else
            (case label_part 0 [] inside of
               None \<Rightarrow> None
             | Some (label, after) \<Rightarrow>
                 if after = [] \<or> hd after \<noteq> CHR '':'' \<or> normalize_label label = [] then None
                 else Some (label, dropWhile md_space (tl after))))"

definition escapes_punctuation :: "string \<Rightarrow> bool" where
  "escapes_punctuation s \<longleftrightarrow> (case s of c # d # _ \<Rightarrow> c = CHR 0x5C \<and> is_punctuation d | _ \<Rightarrow> False)"

text \<open>Text up to a closing character, escapes resolved; \<open>None\<close> when a stopping one or the end comes first.\<close>

fun closed_text :: "char \<Rightarrow> string \<Rightarrow> string \<Rightarrow> (string \<times> string) option" where
  "closed_text closer stops [] = None"
| "closed_text closer stops [c] = (if c \<notin> set stops \<and> c = closer then Some ([], []) else None)"
| "closed_text closer stops (c # d # rest) =
     (if escapes_punctuation (c # d # rest) then
        map_option (\<lambda>(body, after). (d # body, after)) (closed_text closer stops rest)
      else if c \<in> set stops then None
      else if c = closer then Some ([], d # rest)
      else map_option (\<lambda>(body, after). (c # body, after)) (closed_text closer stops (d # rest)))"

fun bare_destination :: "string \<Rightarrow> string \<times> string" where
  "bare_destination [] = ([], [])"
| "bare_destination [c] = (if md_space c then ([], [c]) else ([c], []))"
| "bare_destination (c # d # rest) =
     (if md_space c then ([], c # d # rest)
      else if escapes_punctuation (c # d # rest) then
        (case bare_destination rest of (body, after) \<Rightarrow> (d # body, after))
      else (case bare_destination (d # rest) of (body, after) \<Rightarrow> (c # body, after)))"

text \<open>The destination, whether it was in brackets, and what follows it.\<close>

definition read_definition_destination :: "string \<Rightarrow> (string \<times> bool \<times> string) option" where
  "read_definition_destination input =
     (if starts_with input ''<'' then
        map_option (\<lambda>(destination, after). (destination, True, after)) (closed_text (CHR ''>'') [CHR 0x0A, CHR ''<''] (tl input))
      else (case bare_destination input of (destination, after) \<Rightarrow> Some (destination, False, after)))"

text \<open>The end of a definition: the rest of its line must be blank. What follows the line.\<close>

definition line_done :: "string \<Rightarrow> string option" where
  "line_done input =
     (case dropWhile is_space_or_tab input of
        [] \<Rightarrow> Some []
      | c # after \<Rightarrow> if c = CHR 0x0A then Some after else None)"

definition read_definition_title :: "string \<Rightarrow> bool \<Rightarrow> (string \<times> string) option" where
  "read_definition_title input separated =
     (case input of
        [] \<Rightarrow> None
      | opener # inside \<Rightarrow>
          if separated \<and> (opener = CHR 0x22 \<or> opener = CHR 0x27 \<or> opener = CHR ''('') then
            (case closed_text (if opener = CHR ''('' then CHR '')'' else opener) [] inside of
               None \<Rightarrow> None
             | Some (title, tail) \<Rightarrow> map_option (\<lambda>after. (title, after)) (line_done tail))
          else None)"

text \<open>The optional title and the end of the definition; \<open>crossed\<close> is whether a line ended before the title.\<close>

definition definition_end :: "string \<Rightarrow> (string \<times> string) option" where
  "definition_end after_destination =
     (let spaced = dropWhile is_space_or_tab after_destination;
          crossed = starts_with spaced [CHR 0x0A];
          position = (if crossed then dropWhile is_space_or_tab (tl spaced) else spaced)
      in case read_definition_title position (spaced \<noteq> after_destination \<or> crossed) of
           None \<Rightarrow> map_option (\<lambda>after. ([], after)) (line_done after_destination)
         | Some (title, after) \<Rightarrow> if crossed \<and> title = [] then None else Some (title, after))"

definition parse_reference_definition :: "string \<Rightarrow> reference_map \<Rightarrow> (string \<times> reference_map) option" where
  "parse_reference_definition input references =
     (case read_definition_label input of
        None \<Rightarrow> None
      | Some (label, input1) \<Rightarrow>
          (case read_definition_destination input1 of
             None \<Rightarrow> None
           | Some (destination, angled, input2) \<Rightarrow>
               if destination = [] \<and> \<not> angled then None
               else
                 (case definition_end input2 of
                    None \<Rightarrow> None
                  | Some (title, after) \<Rightarrow>
                      Some (after,
                        add_first (normalize_label (unescape_string label))
                          (unescape_string destination, unescape_string title) references))))"

section \<open>Footnotes\<close>

definition footnote_character :: "char \<Rightarrow> bool" where
  "footnote_character c \<longleftrightarrow> is_letter c \<or> is_digit c \<or> c = CHR ''-'' \<or> c = CHR ''_''"

definition parse_footnote_definition :: "string \<Rightarrow> footnote_map \<Rightarrow> (string \<times> footnote_map) option" where
  "parse_footnote_definition input footnotes =
     (let opened = dropWhile is_space_or_tab input in
      if length opened < 3 \<or> \<not> starts_with opened ''[^'' then None
      else
        (let label = takeWhile footnote_character (drop 2 opened); after = dropWhile footnote_character (drop 2 opened)
         in if label = [] \<or> \<not> starts_with after '']:'' then None
            else
              (let body = dropWhile is_space_or_tab (drop 2 after);
                   line = takeWhile (\<lambda>c. c \<noteq> CHR 0x0A) body
               in Some (drop (Suc (length line)) body, add_first label line footnotes))))"

section \<open>All the definitions a paragraph opens with\<close>

lemma label_part_shorter: "label_part depth label s = Some (l, after) \<Longrightarrow> length after < length s"
  by (induction depth label s rule: label_part.induct) (auto split: if_splits)

lemma closed_text_shorter: "closed_text closer stops s = Some (body, after) \<Longrightarrow> length after < length s"
  by (induction closer stops s arbitrary: body rule: closed_text.induct) (fastforce split: if_splits)+

lemma bare_destination_le: "bare_destination s = (body, after) \<Longrightarrow> length after \<le> length s"
  by (induction s arbitrary: body after rule: bare_destination.induct) (fastforce split: if_splits prod.splits)+

lemma line_done_le: "line_done s = Some after \<Longrightarrow> length after \<le> length s"
  by (auto simp: line_done_def split: list.splits if_splits dest: dropWhile_Cons_le)

lemma read_definition_title_le: "read_definition_title s separated = Some (title, after) \<Longrightarrow> length after \<le> length s"
  by (auto simp: read_definition_title_def split: list.splits if_splits option.splits
      dest!: closed_text_shorter line_done_le)

lemma definition_end_le: "definition_end s = Some (title, after) \<Longrightarrow> length after \<le> length s"
proof -
  assume ended: "definition_end s = Some (title, after)"
  let ?spaced = "dropWhile is_space_or_tab s"
  have "length (dropWhile is_space_or_tab (tl ?spaced)) \<le> length s"
    using length_dropWhile_le [of is_space_or_tab "tl ?spaced"] length_dropWhile_le [of is_space_or_tab s] by simp
  then show ?thesis
    using ended length_dropWhile_le [of is_space_or_tab s]
    by (auto simp: definition_end_def Let_def split: option.splits if_splits
        dest!: read_definition_title_le line_done_le)
qed

lemma reference_shorter:
  assumes "parse_reference_definition input references = Some (after, references')"
  shows "length after < length input"
proof -
  obtain label input1 destination angled input2 where
    label: "read_definition_label input = Some (label, input1)" and
    destination: "read_definition_destination input1 = Some (destination, angled, input2)" and
    ended: "\<exists>title. definition_end input2 = Some (title, after)"
    using assms by (auto simp: parse_reference_definition_def split: option.splits if_splits)
  obtain inside tail where "dropWhile is_space_or_tab input = CHR ''['' # inside" "label_part 0 [] inside = Some (label, tail)"
      "input1 = dropWhile md_space (tl tail)"
    using label by (auto simp: read_definition_label_def split: list.splits if_splits option.splits)
  then have "length input1 < length input"
    using dropWhile_Cons_le [of is_space_or_tab input] label_part_shorter length_dropWhile_le [of md_space "tl tail"]
    by fastforce
  moreover have "length input2 \<le> length input1"
    using destination
    by (auto simp: read_definition_destination_def split: if_splits prod.splits dest!: closed_text_shorter bare_destination_le)
  ultimately show ?thesis
    using ended definition_end_le by fastforce
qed

lemma footnote_shorter:
  assumes "parse_footnote_definition input footnotes = Some (after, footnotes')"
  shows "length after < length input"
proof -
  let ?opened = "dropWhile is_space_or_tab input"
  let ?after = "dropWhile footnote_character (drop 2 ?opened)"
  let ?body = "dropWhile is_space_or_tab (drop 2 ?after)"
  have "3 \<le> length ?opened" "after = drop (Suc (length (takeWhile (\<lambda>c. c \<noteq> CHR 0x0A) ?body))) ?body"
    using assms by (auto simp: parse_footnote_definition_def Let_def split: if_splits)
  moreover have "length ?body \<le> length ?opened - 2"
    using length_dropWhile_le [of is_space_or_tab "drop 2 ?after"] length_dropWhile_le [of footnote_character "drop 2 ?opened"]
    by simp
  ultimately show ?thesis
    using length_dropWhile_le [of is_space_or_tab input] by simp
qed

text \<open>The loop of \<open>finalize_paragraph\<close>: what is left of the text, and the definitions it gave.\<close>

function take_definitions :: "string \<Rightarrow> reference_map \<Rightarrow> footnote_map \<Rightarrow> string \<times> reference_map \<times> footnote_map" where
  "take_definitions remaining references footnotes =
     (if remaining = [] then (remaining, references, footnotes)
      else
        (case parse_footnote_definition remaining footnotes of
           Some (after, footnotes') \<Rightarrow> take_definitions after references footnotes'
         | None \<Rightarrow>
             (case parse_reference_definition remaining references of
                Some (after, references') \<Rightarrow> take_definitions after references' footnotes
              | None \<Rightarrow> (remaining, references, footnotes))))"
  by pat_completeness auto
termination
  by (relation "measure (\<lambda>(remaining, _, _). length remaining)") (auto simp: footnote_shorter reference_shorter)

declare take_definitions.simps [simp del]

end
