(* ===== verification/Blocks.thy ===== *)
theory Blocks
  imports LinkDefinitions "HOL-Library.Monad_Syntax"
begin

text \<open>
  The block half of the Markdown parser (\<open>markdown.cpp\<close>, the class \<open>BlockParser\<close>). The parser links
  nodes by pointers and writes through them, so the arena is a list of nodes here and a pointer is an
  index into it; node 0 is the document. The children of a node are a list of indices, which stands for
  \<open>first_child\<close>, \<open>last_child\<close> and \<open>next_sibling\<close>, and the entry of a node in \<open>content_\<close> is a field of the
  node, empty when there is none. \<open>None\<close> is a loop that never ends or a null pointer that is followed.
\<close>

section \<open>The arena\<close>

record block = md_fields +
  b_kind :: md_kind
  b_parent :: "nat option"
  b_children :: "nat list"
  b_content :: string
  b_fenced :: bool
  b_fence_char :: char
  b_fence_length :: nat
  b_fence_offset :: nat
  b_delimiter :: list_delimiter
  b_padding :: nat
  b_html_type :: nat
  b_open :: bool
  b_blank :: bool

definition new_block :: "md_kind \<Rightarrow> block" where
  "new_block kind =
     \<lparr>f_level = 0, f_literal = [], f_info = [], f_url = [], f_title = [], f_ordered = False, f_tight = True,
      f_start = 1, f_task = False, f_checked = False, f_header = False, f_alignment = Align_None,
      f_attributes = [], f_label = [], f_number = 0, f_occurrence = 1, f_display = False, f_raw = [],
      b_kind = kind, b_parent = None, b_children = [], b_content = [], b_fenced = False, b_fence_char = CHR 0x00,
      b_fence_length = 0, b_fence_offset = 0, b_delimiter = No_Delimiter, b_padding = 0, b_html_type = 0,
      b_open = True, b_blank = False\<rparr>"

record block_state =
  bs_nodes :: "block list"
  bs_tip :: nat
  bs_alignments :: "alignment list"
  bs_consumed :: bool
  bs_references :: reference_map
  bs_footnotes :: footnote_map

definition node_of :: "block_state \<Rightarrow> nat \<Rightarrow> block" where
  "node_of st n = bs_nodes st ! n"

definition change_node :: "nat \<Rightarrow> (block \<Rightarrow> block) \<Rightarrow> block_state \<Rightarrow> block_state" where
  "change_node n f st = st\<lparr>bs_nodes := (bs_nodes st)[n := f (bs_nodes st ! n)]\<rparr>"

definition set_tip :: "nat \<Rightarrow> block_state \<Rightarrow> block_state" where
  "set_tip n st = st\<lparr>bs_tip := n\<rparr>"

definition tip_kind :: "block_state \<Rightarrow> md_kind" where
  "tip_kind st = b_kind (node_of st (bs_tip st))"

text \<open>\<open>make\<close> and \<open>append_child\<close>; a node is only appended when it is new.\<close>

definition append_new :: "nat \<Rightarrow> block \<Rightarrow> block_state \<Rightarrow> nat \<times> block_state" where
  "append_new parent node st =
     (let n = length (bs_nodes st) in
      (n, change_node parent (\<lambda>p. p\<lparr>b_children := b_children p @ [n]\<rparr>)
            (st\<lparr>bs_nodes := bs_nodes st @ [node\<lparr>b_parent := Some parent\<rparr>]\<rparr>)))"

definition detach :: "nat \<Rightarrow> block_state \<Rightarrow> block_state" where
  "detach n st =
     (case b_parent (node_of st n) of
        None \<Rightarrow> st
      | Some parent \<Rightarrow>
          change_node n (\<lambda>b. b\<lparr>b_parent := None\<rparr>)
            (change_node parent (\<lambda>p. p\<lparr>b_children := removeAll n (b_children p)\<rparr>) st))"

definition parent_or_document :: "block_state \<Rightarrow> nat \<Rightarrow> nat" where
  "parent_or_document st n = (case b_parent (node_of st n) of None \<Rightarrow> 0 | Some parent \<Rightarrow> parent)"

definition accepts_lines :: "md_kind \<Rightarrow> bool" where
  "accepts_lines kind \<longleftrightarrow> kind \<in> {K_Paragraph, K_Code_Block, K_Html_Block, K_Table}"

definition is_container :: "md_kind \<Rightarrow> bool" where
  "is_container kind \<longleftrightarrow> kind \<in> {K_Document, K_Block_Quote, K_List, K_Item, K_Definition_List}"

section \<open>Closing a block\<close>

text \<open>The text of an indented code block, without the blank lines that end it.\<close>

fun drop_blank_lines :: "string list \<Rightarrow> string list" where
  "drop_blank_lines [] = []"
| "drop_blank_lines (line # lines) = (if is_blank line then drop_blank_lines lines else line # lines)"

definition indented_code :: "string \<Rightarrow> string" where
  "indented_code body =
     (case drop_blank_lines (rev (split_at body (CHR 0x0A))) of
        [] \<Rightarrow> []
      | lines \<Rightarrow> join_with (CHR 0x0A) (rev lines) @ [CHR 0x0A])"

definition finalize_code :: "nat \<Rightarrow> block_state \<Rightarrow> block_state" where
  "finalize_code n st =
     change_node n (\<lambda>b. b\<lparr>f_literal := (if b_fenced b then b_content b else indented_code (b_content b)), b_content := []\<rparr>) st"

definition finalize_text :: "nat \<Rightarrow> block_state \<Rightarrow> block_state" where
  "finalize_text n st = change_node n (\<lambda>b. b\<lparr>f_literal := b_content b, b_content := []\<rparr>) st"

definition finalize_paragraph :: "nat \<Rightarrow> block_state \<Rightarrow> block_state" where
  "finalize_paragraph n st =
     (case take_definitions (b_content (node_of st n)) (bs_references st) (bs_footnotes st) of
        (remaining, references, footnotes) \<Rightarrow>
          (let st1 = change_node n (\<lambda>b. b\<lparr>b_content := []\<rparr>) (st\<lparr>bs_references := references, bs_footnotes := footnotes\<rparr>)
           in if trim remaining = [] then detach n st1
              else change_node n (\<lambda>b. b\<lparr>f_literal := trim remaining\<rparr>) st1))"

fun unescape_pipes :: "string \<Rightarrow> string" where
  "unescape_pipes (c # d # cell) =
     (if c = CHR 0x5C \<and> d = CHR ''|'' then d # unescape_pipes cell else c # unescape_pipes (d # cell))"
| "unescape_pipes cell = cell"

text \<open>A row is padded or cut to the width the delimiter row declared.\<close>

definition cell_block :: "bool \<Rightarrow> alignment \<Rightarrow> string \<Rightarrow> block" where
  "cell_block header align cell =
     (new_block K_Table_Cell)\<lparr>f_header := header, f_alignment := align, f_literal := unescape_pipes cell\<rparr>"

fun add_cells :: "nat \<Rightarrow> bool \<Rightarrow> alignment list \<Rightarrow> string list \<Rightarrow> block_state \<Rightarrow> block_state" where
  "add_cells row header [] cells st = st"
| "add_cells row header (align # aligns) cells st =
     add_cells row header aligns (tl cells)
       (snd (append_new row (cell_block header align (if cells = [] then [] else hd cells)) st))"

fun add_rows :: "nat \<Rightarrow> bool \<Rightarrow> string list \<Rightarrow> block_state \<Rightarrow> block_state" where
  "add_rows table header [] st = st"
| "add_rows table header (line # lines) st =
     (if trim line = [] then add_rows table header lines st
      else
        (case append_new table ((new_block K_Table_Row)\<lparr>f_header := header\<rparr>) st of
           (row, st1) \<Rightarrow>
             add_rows table False lines (add_cells row header (bs_alignments st1) (split_table_row line) st1)))"

definition finalize_table :: "nat \<Rightarrow> block_state \<Rightarrow> block_state" where
  "finalize_table n st =
     add_rows n True (split_lines (b_content (node_of st n))) (change_node n (\<lambda>b. b\<lparr>b_content := []\<rparr>) st)"

text \<open>A list is loose when a blank line separates content inside it.\<close>

fun loose_children :: "bool \<Rightarrow> block list \<Rightarrow> bool" where
  "loose_children item_follows [] = False"
| "loose_children item_follows (child # children) =
     (b_blank child \<and> (children \<noteq> [] \<or> item_follows) \<or> loose_children item_follows children)"

fun loose_items :: "block_state \<Rightarrow> nat list \<Rightarrow> bool" where
  "loose_items st [] = False"
| "loose_items st (item # items) =
     (b_blank (node_of st item) \<and> items \<noteq> [] \<or>
      loose_children (items \<noteq> []) (map (node_of st) (b_children (node_of st item))) \<or> loose_items st items)"

definition loosen :: "nat \<Rightarrow> block_state \<Rightarrow> block_state" where
  "loosen n st = change_node n (\<lambda>b. b\<lparr>f_tight := False\<rparr>) st"

definition finalize_list :: "nat \<Rightarrow> block_state \<Rightarrow> block_state" where
  "finalize_list n st = (if loose_items st (b_children (node_of st n)) then loosen n st else st)"

definition finalize_block :: "nat \<Rightarrow> block_state \<Rightarrow> block_state" where
  "finalize_block n st =
     (let kind = b_kind (node_of st n) in
      if kind = K_Paragraph then finalize_paragraph n st
      else if kind = K_Code_Block then finalize_code n st
      else if kind = K_Table then finalize_table n st
      else if kind = K_Html_Block \<or> kind = K_Heading then finalize_text n st
      else if kind = K_List then finalize_list n st
      else st)"

text \<open>After a block is closed its parent is the tip, or the document if it was taken out of the tree.\<close>

definition close_block :: "nat \<Rightarrow> block_state \<Rightarrow> block_state" where
  "close_block n st =
     (if \<not> b_open (node_of st n) then st
      else
        (let st1 = finalize_block n (change_node n (\<lambda>b. b\<lparr>b_open := False\<rparr>) st)
         in set_tip (parent_or_document st1 n) st1))"

section \<open>Adding a block\<close>

text \<open>\<open>while (tip_ != stop && ...) close(tip_)\<close>, with as many turns as there are nodes.\<close>

fun close_while :: "nat \<Rightarrow> (block_state \<Rightarrow> bool) \<Rightarrow> block_state \<Rightarrow> block_state option" where
  "close_while 0 going st = (if going st then None else Some st)"
| "close_while (Suc fuel) going st =
     (if going st then close_while fuel going (close_block (bs_tip st) st) else Some st)"

definition holds_no_blocks :: "block_state \<Rightarrow> bool" where
  "holds_no_blocks st \<longleftrightarrow> bs_tip st \<noteq> 0 \<and> \<not> is_container (tip_kind st)"

definition loosen_for :: "md_kind \<Rightarrow> block_state \<Rightarrow> block_state option" where
  "loosen_for kind st =
     (let tip = node_of st (bs_tip st) in do {
        st1 \<leftarrow> (if b_kind tip = K_Item \<and> b_blank tip \<and> b_children tip \<noteq> [] then
                 (case b_parent tip of None \<Rightarrow> None | Some parent \<Rightarrow> Some (loosen parent st))
               else Some st);
        Some (if kind = K_Item \<and> b_kind tip = K_List \<and> b_children tip \<noteq> [] \<and> b_blank (node_of st (last (b_children tip)))
              then loosen (bs_tip st) st1 else st1)
      })"

definition add_child :: "block \<Rightarrow> block_state \<Rightarrow> block_state option" where
  "add_child node st = do {
     st1 \<leftarrow> close_while (length (bs_nodes st)) holds_no_blocks st;
     let st2 = (if b_kind node \<noteq> K_Item \<and> tip_kind st1 = K_List then close_block (bs_tip st1) st1 else st1);
     st3 \<leftarrow> loosen_for (b_kind node) st2;
     (case append_new (bs_tip st3) node st3 of (n, st4) \<Rightarrow> Some (set_tip n st4))
   }"

section \<open>Continuing open blocks\<close>

definition open_child :: "block_state \<Rightarrow> nat \<Rightarrow> nat option" where
  "open_child st parent =
     (case rev (b_children (node_of st parent)) of
        [] \<Rightarrow> None
      | child # _ \<Rightarrow> if b_open (node_of st child) then Some child else None)"

definition in_paragraph :: "block_state \<Rightarrow> bool" where
  "in_paragraph st \<longleftrightarrow> tip_kind st = K_Paragraph"

text \<open>Past the marker of a quote and the one space that may follow it.\<close>

definition past_quote :: "scanner \<Rightarrow> scanner" where
  "past_quote s = (let s1 = sc_advance s in if sc_at_blank s1 then sc_advance s1 else s1)"

definition code_indent :: nat where "code_indent = 4"

definition fenced_code_continues :: "nat \<Rightarrow> scanner \<Rightarrow> block_state \<Rightarrow> bool \<times> scanner \<times> block_state" where
  "fenced_code_continues n s st =
     (let b = node_of st n; (indent, s1) = skip_spaces_to 3 s in
      if indent \<le> 3 \<and> matches_closing_fence (sc_rest s1) (b_fence_char b) (b_fence_length b)
      then (False, s1, (close_block n st)\<lparr>bs_consumed := True\<rparr>)
      else (True, snd (skip_spaces_to (b_fence_offset b) s), st))"

definition block_continues :: "nat \<Rightarrow> scanner \<Rightarrow> block_state \<Rightarrow> bool \<times> scanner \<times> block_state" where
  "block_continues n s st =
     (let b = node_of st n; kind = b_kind b; blank = is_blank (sc_rest s) in
      if kind = K_Block_Quote then
        (let (indent, s1) = skip_spaces_to 3 s
         in if indent \<le> 3 \<and> sc_peek s1 = Some (CHR ''>'') then (True, past_quote s1, st) else (False, s1, st))
      else if kind = K_Item then
        (if blank then (b_children b \<noteq> [], s, st)
         else (let (skipped, s1) = skip_spaces_to (b_padding b) s in (b_padding b \<le> skipped, s1, st)))
      else if kind = K_Code_Block then
        (if b_fenced b then fenced_code_continues n s st
         else (let (skipped, s1) = skip_spaces_to code_indent s in (blank \<or> code_indent \<le> skipped, s1, st)))
      else if kind = K_Html_Block then
        (if 6 \<le> b_html_type b \<and> blank then (False, s, close_block n st) else (True, s, st))
      else if kind = K_Definition_List \<or> kind = K_Paragraph then (\<not> blank, s, st)
      else if kind = K_Table then (\<not> blank \<and> CHR ''|'' \<in> set (sc_rest s), s, st)
      else (True, s, st))"

text \<open>Where the walk down the open blocks ended: the line is done with, or a container and whether all matched.\<close>

datatype descent = Line_Done block_state | Walked nat bool scanner block_state

fun descend :: "nat \<Rightarrow> nat \<Rightarrow> scanner \<Rightarrow> block_state \<Rightarrow> descent option" where
  "descend 0 container s st = None"
| "descend (Suc fuel) container s st =
     (case open_child st container of
        None \<Rightarrow> Some (Walked container True s st)
      | Some child \<Rightarrow>
          (case block_continues child s st of
             (matched, s1, st1) \<Rightarrow>
               if matched then descend fuel child s1 st1
               else if bs_consumed st1 then Some (Line_Done st1)
               else
                 (case b_parent (node_of st1 child) of
                    None \<Rightarrow> None
                  | Some parent \<Rightarrow> Some (Walked parent False s st1))))"

section \<open>Text\<close>

definition add_text :: "nat \<Rightarrow> string \<Rightarrow> block_state \<Rightarrow> block_state" where
  "add_text n line st =
     (let b = node_of st n in
      if b_kind b = K_Code_Block \<or> b_kind b = K_Html_Block then
        (let st1 = change_node n (\<lambda>b. b\<lparr>b_content := b_content b @ line @ [CHR 0x0A]\<rparr>) st
         in if b_kind b = K_Html_Block \<and> b_html_type b \<le> 5 \<and> html_block_ends (b_html_type b) line
            then close_block n st1 else st1)
      else
        change_node n (\<lambda>b. b\<lparr>b_content := b_content b @ (if b_content b = [] then [] else [CHR 0x0A]) @ trim_start line\<rparr>) st)"

text \<open>Whether four columns of indentation start the line.\<close>

fun indents_code :: "nat \<Rightarrow> string \<Rightarrow> bool" where
  "indents_code indent [] = False"
| "indents_code indent (c # rest) =
     (if is_space_or_tab c then
        (let indent' = (if c = CHR '' '' then indent + 1 else indent + tab_width indent)
         in code_indent \<le> indent' \<or> indents_code indent' rest)
      else False)"

definition starts_no_block :: "scanner \<Rightarrow> bool" where
  "starts_no_block s \<longleftrightarrow>
     (let raw = sc_rest s; rest = trim_start raw in
      indents_code 0 raw \<or>
      \<not> (rest = [] \<or> hd rest = CHR ''>'' \<or> matches_thematic_break rest \<or> match_atx_heading rest \<noteq> None \<or>
         match_code_fence rest \<noteq> None \<or> 0 < match_html_block_start rest True \<or>
         (case match_list_marker rest of
            None \<Rightarrow> False
          | Some list \<Rightarrow>
              (let after = drop (lm_width list) rest in after = [] \<or> is_space_or_tab (hd after)))))"

text \<open>The walk up from a node, itself first.\<close>

fun ancestors :: "nat \<Rightarrow> block_state \<Rightarrow> nat \<Rightarrow> nat list option" where
  "ancestors 0 st n = None"
| "ancestors (Suc fuel) st n =
     (case b_parent (node_of st n) of
        None \<Rightarrow> Some [n]
      | Some parent \<Rightarrow> map_option ((#) n) (ancestors fuel st parent))"

definition close_paragraph :: "block_state \<Rightarrow> block_state" where
  "close_paragraph st = (if in_paragraph st then close_block (bs_tip st) st else st)"

definition mark_blank :: "block_state \<Rightarrow> block_state option" where
  "mark_blank st = do {
     let st1 = close_paragraph st;
     chain \<leftarrow> ancestors (length (bs_nodes st1)) st1 (bs_tip st1);
     Some (fold (\<lambda>n. change_node n (\<lambda>b. b\<lparr>b_blank := True\<rparr>)) chain st1)
   }"

section \<open>Definition lists and tables\<close>

definition term_block :: "string \<Rightarrow> block" where
  "term_block body = (new_block K_Definition_Term)\<lparr>f_literal := body, b_open := False\<rparr>"

text \<open>
  \<open>detach\<close> takes the parent from the paragraph before it is read, so the tip is always the document;
  the branch for a tip that is a definition list already is not taken.
\<close>

definition take_paragraph :: "block_state \<Rightarrow> block_state" where
  "take_paragraph st =
     (let n = bs_tip st; st1 = detach n (change_node n (\<lambda>b. b\<lparr>b_content := []\<rparr>) st)
      in set_tip (parent_or_document st1 n) st1)"

definition start_definition_list :: "block_state \<Rightarrow> block_state option" where
  "start_definition_list st =
     (let body = b_content (node_of st (bs_tip st)); st1 = take_paragraph st in
      if tip_kind st1 = K_Definition_List then Some (snd (append_new (bs_tip st1) (term_block body) st1))
      else do {
        st2 \<leftarrow> add_child (new_block K_Definition_List) st1;
        Some (snd (append_new (bs_tip st2) (term_block body) st2))
      })"

definition add_definition_detail :: "string \<Rightarrow> block_state \<Rightarrow> block_state option" where
  "add_definition_detail body st = do {
     chain \<leftarrow> ancestors (length (bs_nodes st)) st (bs_tip st);
     (case find (\<lambda>n. b_kind (node_of st n) = K_Definition_List) chain of
        None \<Rightarrow> Some st
      | Some list \<Rightarrow>
          Some (set_tip list
            (snd (append_new list ((new_block K_Definition_Detail)\<lparr>f_literal := body, b_open := False\<rparr>) st))))
   }"

definition detail_text :: "string \<Rightarrow> string" where
  "detail_text rest = trim (tl (trim_start rest))"

definition start_table :: "string \<Rightarrow> alignment list \<Rightarrow> block_state \<Rightarrow> block_state option" where
  "start_table heading_line alignments st = do {
     st1 \<leftarrow> add_child (new_block K_Table) (take_paragraph st);
     Some (change_node (bs_tip st1) (\<lambda>b. b\<lparr>b_content := heading_line @ [CHR 0x0A]\<rparr>) (st1\<lparr>bs_alignments := alignments\<rparr>))
   }"

section \<open>Opening blocks\<close>

text \<open>One turn of the loop: the line is done with, or goes on inside a new container, or opens nothing more.\<close>

datatype block_turn = Opened block_state | Inside scanner block_state | No_More scanner block_state

definition open_leaf :: "block \<Rightarrow> block_state \<Rightarrow> block_turn option" where
  "open_leaf node st = do {
     st1 \<leftarrow> add_child node (close_paragraph st);
     Some (Opened (close_block (bs_tip st1) st1))
   }"

definition open_indented :: "scanner \<Rightarrow> string \<Rightarrow> block_state \<Rightarrow> block_turn option" where
  "open_indented start rest st =
     (if is_blank rest \<or> in_paragraph st then Some (No_More start st)
      else do {
        st1 \<leftarrow> add_child ((new_block K_Code_Block)\<lparr>b_content := sc_rest (snd (skip_spaces_to code_indent start)) @ [CHR 0x0A]\<rparr>) st;
        Some (Opened st1)
      })"

definition open_definition :: "string \<Rightarrow> block_state \<Rightarrow> block_turn option" where
  "open_definition rest st = do {
     st1 \<leftarrow> start_definition_list st;
     st2 \<leftarrow> add_definition_detail (detail_text rest) st1;
     Some (Opened st2)
   }"

definition fence_block :: "fence_match \<Rightarrow> nat \<Rightarrow> block" where
  "fence_block fence indent =
     (new_block K_Code_Block)\<lparr>b_fenced := True, b_fence_char := fm_character fence, b_fence_length := fm_length fence,
       b_fence_offset := indent, f_info := unescape_string (fm_info fence)\<rparr>"

text \<open>The alignments of the table a delimiter row makes of the line above it.\<close>

definition table_start :: "string \<Rightarrow> block_state \<Rightarrow> alignment list option" where
  "table_start rest st =
     (let heading_line = b_content (node_of st (bs_tip st)); alignments = table_alignments rest in
      if in_paragraph st \<and> CHR ''|'' \<in> set rest \<and> CHR 0x0A \<notin> set heading_line \<and> alignments \<noteq> [] \<and>
        length alignments = length (split_table_row heading_line)
      then Some alignments else None)"

definition open_html :: "nat \<Rightarrow> string \<Rightarrow> block_state \<Rightarrow> block_turn option" where
  "open_html html_type rest st = do {
     st1 \<leftarrow> add_child ((new_block K_Html_Block)\<lparr>b_html_type := html_type, b_content := rest @ [CHR 0x0A]\<rparr>) (close_paragraph st);
     Some (Opened (if html_type \<le> 5 \<and> html_block_ends html_type rest then close_block (bs_tip st1) st1 else st1))
   }"

text \<open>The padding of an item and the scanner at its content.\<close>

definition item_padding :: "bool \<Rightarrow> scanner \<Rightarrow> nat \<times> scanner" where
  "item_padding empty_item s =
     (if empty_item then (1, s)
      else
        (let (measured, s1) = skip_spaces_to 5 s
         in if 1 \<le> measured \<and> measured \<le> 4 then (measured, s1) else (1, snd (skip_spaces_to 1 s))))"

definition bullet_level :: "list_match \<Rightarrow> int" where
  "bullet_level list = (if lm_ordered list then 0 else int (byte (lm_bullet list)))"

definition same_list :: "list_match \<Rightarrow> block \<Rightarrow> bool" where
  "same_list list b \<longleftrightarrow> b_kind b = K_List \<and> f_ordered b = lm_ordered list \<and>
     (lm_ordered list \<longrightarrow> b_delimiter b = lm_delimiter list) \<and>
     (\<not> lm_ordered list \<longrightarrow> f_level b = int (byte (lm_bullet list)))"

definition list_block :: "list_match \<Rightarrow> block" where
  "list_block list =
     (new_block K_List)\<lparr>f_ordered := lm_ordered list, f_start := lm_start list, b_delimiter := lm_delimiter list,
       f_level := bullet_level list\<rparr>"

definition open_list :: "nat \<Rightarrow> list_match \<Rightarrow> bool \<Rightarrow> scanner \<Rightarrow> block_state \<Rightarrow> block_turn option" where
  "open_list indent list empty_item s st =
     (let (padding, s1) = item_padding empty_item ((sc_advance ^^ lm_width list) s); st1 = close_paragraph st in do {
        st2 \<leftarrow> (if same_list list (node_of st1 (bs_tip st1)) then Some st1 else add_child (list_block list) st1);
        st3 \<leftarrow> add_child ((new_block K_Item)\<lparr>b_padding := indent + lm_width list + padding\<rparr>) st2;
        Some (Inside s1 st3)
      })"

definition open_marker :: "nat \<Rightarrow> string \<Rightarrow> scanner \<Rightarrow> block_state \<Rightarrow> block_turn option" where
  "open_marker indent rest s st =
     (case match_list_marker rest of
        None \<Rightarrow> Some (No_More s st)
      | Some list \<Rightarrow>
          (let after = drop (lm_width list) rest; empty_item = (trim after = []) in
           if after \<noteq> [] \<and> \<not> is_space_or_tab (hd after) then Some (No_More s st)
           else if in_paragraph st \<and> (empty_item \<or> lm_ordered list \<and> lm_start list \<noteq> 1) then Some (No_More s st)
           else open_list indent list empty_item s st))"

text \<open>An underline makes a heading of the paragraph above it.\<close>

definition open_underlined :: "nat \<Rightarrow> block_state \<Rightarrow> block_state" where
  "open_underlined level st =
     (let n = bs_tip st
      in close_block n (change_node n (\<lambda>b. b\<lparr>b_kind := K_Heading, f_level := int level, b_content := trim (b_content b)\<rparr>) st))"

definition tip_content :: "block_state \<Rightarrow> string" where
  "tip_content st = b_content (node_of st (bs_tip st))"

definition open_turn :: "scanner \<Rightarrow> block_state \<Rightarrow> block_turn option" where
  "open_turn start st =
     (let (indent, s) = skip_spaces_to 100 start; rest = sc_rest s; written = in_paragraph st \<and> tip_content st \<noteq> [] in
      if code_indent \<le> indent then open_indented start rest st
      else if rest = [] then Some (No_More s st)
      else if hd rest = CHR ''>'' then do {
        st1 \<leftarrow> add_child (new_block K_Block_Quote) (close_paragraph st);
        Some (Inside (past_quote s) st1)
      }
      else case match_shortcode rest of
        Some (name, arguments) \<Rightarrow>
          open_leaf ((new_block K_Shortcode)\<lparr>f_label := name, f_raw := arguments, f_literal := trim rest\<rparr>) st
      | None \<Rightarrow>
      if written \<and> is_definition_line rest then open_definition rest st
      else case match_atx_heading rest of
        Some (level, content) \<Rightarrow>
          open_leaf ((new_block K_Heading)\<lparr>f_level := int level, b_content := content\<rparr>) st
      | None \<Rightarrow>
      case match_code_fence rest of
        Some fence \<Rightarrow> map_option Opened (add_child (fence_block fence indent) (close_paragraph st))
      | None \<Rightarrow>
      case table_start rest st of
        Some alignments \<Rightarrow> map_option Opened (start_table (tip_content st) alignments st)
      | None \<Rightarrow>
      if written \<and> 0 < setext_level rest then Some (Opened (open_underlined (setext_level rest) st))
      else if matches_thematic_break rest then open_leaf (new_block K_Thematic_Break) st
      else if 0 < match_html_block_start rest (in_paragraph st) then
        open_html (match_html_block_start rest (in_paragraph st)) rest st
      else open_marker indent rest s st)"

definition max_nesting :: nat where "max_nesting = 64"

fun open_loop :: "nat \<Rightarrow> scanner \<Rightarrow> block_state \<Rightarrow> block_turn option" where
  "open_loop 0 s st = Some (No_More s st)"
| "open_loop (Suc n) s st =
     (case open_turn s st of
        Some (Inside s1 st1) \<Rightarrow> open_loop n s1 st1
      | turn \<Rightarrow> turn)"

text \<open>What is left of the line once it opens nothing more: a blank line, a definition, or text.\<close>

definition open_text :: "scanner \<Rightarrow> block_state \<Rightarrow> block_state option" where
  "open_text s st =
     (let rest = sc_rest s in
      if is_blank rest then mark_blank st
      else if tip_kind st = K_Definition_List then
        (if is_definition_line rest then add_definition_detail (detail_text rest) st
         else Some (snd (append_new (bs_tip st) (term_block (trim rest)) st)))
      else if in_paragraph st then Some (add_text (bs_tip st) rest st)
      else
        (let body = trim_start rest; tip = node_of st (bs_tip st) in
         case (if b_kind tip = K_Item \<and> b_children tip = [] then match_task_marker body else None) of
           None \<Rightarrow> add_child ((new_block K_Paragraph)\<lparr>b_content := body\<rparr>) st
         | Some (checked, width) \<Rightarrow>
             add_child ((new_block K_Paragraph)\<lparr>b_content := trim_start (drop width body)\<rparr>)
               (change_node (bs_tip st) (\<lambda>b. b\<lparr>f_task := True, f_checked := checked\<rparr>) st)))"

definition open_new_blocks :: "scanner \<Rightarrow> block_state \<Rightarrow> block_state option" where
  "open_new_blocks s st =
     (case open_loop max_nesting s st of
        None \<Rightarrow> None
      | Some (Opened st1) \<Rightarrow> Some st1
      | Some (Inside s1 st1) \<Rightarrow> open_text s1 st1
      | Some (No_More s1 st1) \<Rightarrow> open_text s1 st1)"

section \<open>A line, and the document\<close>

definition matched_line :: "nat \<Rightarrow> scanner \<Rightarrow> block_state \<Rightarrow> block_state option" where
  "matched_line container s st =
     (let kind = b_kind (node_of st container); st1 = set_tip container st in
      if accepts_lines kind \<and> kind \<noteq> K_Paragraph then Some (add_text container (sc_rest s) st1)
      else open_new_blocks s st1)"

definition unmatched_line :: "nat \<Rightarrow> scanner \<Rightarrow> block_state \<Rightarrow> block_state option" where
  "unmatched_line container s st =
     (if in_paragraph st \<and> \<not> is_blank (sc_rest s) \<and> starts_no_block s then
        Some (add_text (bs_tip st) (sc_rest s) st)
      else do {
        st1 \<leftarrow> close_while (length (bs_nodes st)) (\<lambda>st'. bs_tip st' \<noteq> container \<and> bs_tip st' \<noteq> 0) st;
        open_new_blocks s (if b_kind (node_of st1 container) = K_Paragraph then set_tip container st1 else st1)
      })"

definition handle_line :: "string \<Rightarrow> block_state \<Rightarrow> block_state option" where
  "handle_line raw st =
     (let st0 = st\<lparr>bs_consumed := False\<rparr> in
      case descend (Suc (length (bs_nodes st0))) 0 (scan_line raw) st0 of
        None \<Rightarrow> None
      | Some (Line_Done st1) \<Rightarrow> Some st1
      | Some (Walked container matched s st1) \<Rightarrow>
          if matched then matched_line container s st1 else unmatched_line container s st1)"

fun handle_lines :: "string list \<Rightarrow> block_state \<Rightarrow> block_state option" where
  "handle_lines [] st = Some st"
| "handle_lines (line # lines) st = Option.bind (handle_line line st) (handle_lines lines)"

text \<open>The loop that closes the tip at the end gives up when the tip stays where it is.\<close>

fun close_tips :: "nat \<Rightarrow> block_state \<Rightarrow> block_state option" where
  "close_tips 0 st = None"
| "close_tips (Suc fuel) st =
     (if bs_tip st = 0 then Some st
      else
        (let st1 = close_block (bs_tip st) st
         in if bs_tip st1 = bs_tip st then Some st1 else close_tips fuel st1))"

text \<open>The blocks still open, children before their parent.\<close>

fun close_remaining :: "nat \<Rightarrow> nat \<Rightarrow> block_state \<Rightarrow> block_state option" where
  "close_remaining 0 n st = None"
| "close_remaining (Suc fuel) n st = do {
     st1 \<leftarrow> fold (\<lambda>child walked. Option.bind walked (close_remaining fuel child)) (b_children (node_of st n)) (Some st);
     Some (if n = 0 then change_node 0 (\<lambda>b. b\<lparr>b_open := False\<rparr>) st1 else close_block n st1)
   }"

definition start_state :: block_state where
  "start_state = \<lparr>bs_nodes = [new_block K_Document], bs_tip = 0, bs_alignments = [], bs_consumed = False,
     bs_references = [], bs_footnotes = []\<rparr>"

definition parse_blocks :: "string \<Rightarrow> block_state option" where
  "parse_blocks input = do {
     st1 \<leftarrow> handle_lines (split_lines input) start_state;
     st2 \<leftarrow> close_tips (Suc (length (bs_nodes st1))) st1;
     close_remaining (length (bs_nodes st2) + 4) 0 st2
   }"

text \<open>The tree below a node.\<close>

fun tree_of :: "nat \<Rightarrow> block_state \<Rightarrow> nat \<Rightarrow> md_node" where
  "tree_of 0 st n = Md_Node K_Text (md_fields.truncate (node_of st n)) []"
| "tree_of (Suc fuel) st n =
     Md_Node (b_kind (node_of st n)) (md_fields.truncate (node_of st n))
       (map (tree_of fuel st) (b_children (node_of st n)))"

text \<open>The blocks of a document; a path in the tree is shorter than the list of nodes.\<close>

definition block_tree :: "string \<Rightarrow> md_node option" where
  "block_tree input = map_option (\<lambda>st. tree_of (length (bs_nodes st)) st 0) (parse_blocks input)"

end
