(* ===== verification/BlockProps.thy ===== *)
theory BlockProps
  imports Blocks
begin

text \<open>
  What the block parser keeps: the links of the arena form a tree with the document at its root, a
  node's children are of the kinds it may hold, and the tip and all above it are open. So every loop
  of the parser ends, no null pointer is followed, and every input gives a tree.
\<close>

section \<open>The arena is a tree\<close>

abbreviation arena_size :: "block_state \<Rightarrow> nat" where
  "arena_size st \<equiv> length (bs_nodes st)"

abbreviation kind_at :: "block_state \<Rightarrow> nat \<Rightarrow> md_kind" where
  "kind_at st n \<equiv> b_kind (node_of st n)"

abbreviation parent_at :: "block_state \<Rightarrow> nat \<Rightarrow> nat option" where
  "parent_at st n \<equiv> b_parent (node_of st n)"

abbreviation children_at :: "block_state \<Rightarrow> nat \<Rightarrow> nat list" where
  "children_at st n \<equiv> b_children (node_of st n)"

abbreviation open_at :: "block_state \<Rightarrow> nat \<Rightarrow> bool" where
  "open_at st n \<equiv> b_open (node_of st n)"

definition flow_kind :: "md_kind \<Rightarrow> bool" where
  "flow_kind kind \<longleftrightarrow> kind \<in> {K_Block_Quote, K_List, K_Paragraph, K_Heading, K_Code_Block, K_Html_Block,
     K_Thematic_Break, K_Table, K_Definition_List, K_Shortcode}"

text \<open>What a node may hold. A block that follows a definition list without a blank line lands inside it.\<close>

definition may_hold :: "md_kind \<Rightarrow> md_kind \<Rightarrow> bool" where
  "may_hold parent child \<longleftrightarrow>
     (if parent \<in> {K_Document, K_Block_Quote, K_Item} then flow_kind child
      else if parent = K_Definition_List then flow_kind child \<or> child = K_Definition_Term \<or> child = K_Definition_Detail
      else if parent = K_List then child = K_Item
      else if parent = K_Table then child = K_Table_Row
      else if parent = K_Table_Row then child = K_Table_Cell
      else False)"

definition links_ok :: "nat \<Rightarrow> (nat \<Rightarrow> md_kind) \<Rightarrow> (nat \<Rightarrow> nat option) \<Rightarrow> (nat \<Rightarrow> nat list) \<Rightarrow> bool" where
  "links_ok count kind parent children \<longleftrightarrow> 0 < count \<and> kind 0 = K_Document \<and> parent 0 = None \<and>
     (\<forall>n < count. \<forall>p. parent n = Some p \<longrightarrow> p < n \<and> may_hold (kind p) (kind n)) \<and>
     (\<forall>n < count. \<forall>c \<in> set (children n). c < count \<and> parent c = Some n)"

definition arena_ok :: "block_state \<Rightarrow> bool" where
  "arena_ok st \<longleftrightarrow> links_ok (arena_size st) (\<lambda>n. kind_at st n) (\<lambda>n. parent_at st n) (\<lambda>n. children_at st n)"

lemma arena_okI:
  assumes "0 < arena_size st" and "kind_at st 0 = K_Document" and "parent_at st 0 = None"
    and "\<And>n p. n < arena_size st \<Longrightarrow> parent_at st n = Some p \<Longrightarrow> p < n \<and> may_hold (kind_at st p) (kind_at st n)"
    and "\<And>n c. n < arena_size st \<Longrightarrow> c \<in> set (children_at st n) \<Longrightarrow> c < arena_size st \<and> parent_at st c = Some n"
  shows "arena_ok st"
  unfolding arena_ok_def links_ok_def using assms by blast

lemma arena_parent:
  assumes "arena_ok st" and "n < arena_size st" and "parent_at st n = Some p"
  shows "p < n \<and> may_hold (kind_at st p) (kind_at st n)"
  using assms unfolding arena_ok_def links_ok_def by blast

lemma arena_root:
  assumes "arena_ok st"
  shows "0 < arena_size st \<and> kind_at st 0 = K_Document \<and> parent_at st 0 = None"
  using assms unfolding arena_ok_def links_ok_def by blast

lemma arena_child:
  assumes "arena_ok st" and "n < arena_size st" and "c \<in> set (children_at st n)"
  shows "c < arena_size st \<and> parent_at st c = Some n \<and> n < c \<and> may_hold (kind_at st n) (kind_at st c)"
proof -
  have "c < arena_size st \<and> parent_at st c = Some n"
    using assms unfolding arena_ok_def links_ok_def by blast
  then show ?thesis using arena_parent [OF assms(1)] by blast
qed

text \<open>A node is openly in the tree when it and all above it are open; the document always is.\<close>

inductive openly :: "block_state \<Rightarrow> nat \<Rightarrow> bool" where
  root: "openly st 0"
| below: "n < arena_size st \<Longrightarrow> open_at st n \<Longrightarrow> parent_at st n = Some p \<Longrightarrow> openly st p \<Longrightarrow> openly st n"

inductive_cases openly_cases: "openly st n"

lemma openly_size: "arena_ok st \<Longrightarrow> openly st n \<Longrightarrow> n < arena_size st"
  by (erule openly_cases) (use arena_root in blast)+

lemma openly_parent: "openly st n \<Longrightarrow> n \<noteq> 0 \<Longrightarrow> \<exists>p. parent_at st n = Some p \<and> openly st p \<and> open_at st n"
  by (erule openly_cases) blast+

lemma openly_mono:
  assumes "openly st n" and "arena_ok st" and "arena_size st \<le> arena_size st'"
    and "\<And>m. m \<le> n \<Longrightarrow> m < arena_size st \<Longrightarrow> open_at st' m = open_at st m \<and> parent_at st' m = parent_at st m"
  shows "openly st' n"
  using assms
proof (induction rule: openly.induct)
  case (below n st p)
  have p: "p < n" using arena_parent [OF below.prems(1) below.hyps(1,3)] by blast
  have "openly st' p"
  proof (rule below.IH [OF below.prems(1,2)])
    fix m assume "m \<le> p" "m < arena_size st"
    with p show "open_at st' m = open_at st m \<and> parent_at st' m = parent_at st m"
      by (intro below.prems(3)) simp_all
  qed
  moreover have "open_at st' n = open_at st n \<and> parent_at st' n = parent_at st n"
    by (rule below.prems(3)) (use below.hyps in simp_all)
  moreover have "n < arena_size st'" using below.hyps(1) below.prems(2) by simp
  ultimately show ?case
    using below.hyps by (intro openly.below [of n st' p]) simp_all
qed (rule openly.root)

section \<open>Writing to a node\<close>

lemma change_node_simps [simp]:
  "arena_size (change_node n f st) = arena_size st" "bs_tip (change_node n f st) = bs_tip st"
  "bs_references (change_node n f st) = bs_references st" "bs_footnotes (change_node n f st) = bs_footnotes st"
  "bs_alignments (change_node n f st) = bs_alignments st" "bs_consumed (change_node n f st) = bs_consumed st"
  by (simp_all add: change_node_def)

lemma node_of_change:
  "m < arena_size st \<Longrightarrow> node_of (change_node n f st) m = (if m = n then f (node_of st n) else node_of st m)"
  by (simp add: change_node_def node_of_def nth_list_update)

lemma node_of_state [simp]:
  "node_of (st\<lparr>bs_tip := t\<rparr>) n = node_of st n" "node_of (st\<lparr>bs_consumed := c\<rparr>) n = node_of st n"
  "node_of (st\<lparr>bs_alignments := a\<rparr>) n = node_of st n"
  "node_of (st\<lparr>bs_references := r, bs_footnotes := f\<rparr>) n = node_of st n"
  "node_of (set_tip t st) n = node_of st n"
  by (simp_all add: node_of_def set_tip_def)

lemma set_tip_simps [simp]: "bs_nodes (set_tip n st) = bs_nodes st" "bs_tip (set_tip n st) = n"
  by (simp_all add: set_tip_def)

lemma arena_ok_same:
  assumes "arena_ok st" and "arena_size st' = arena_size st"
    and same: "\<And>m. m < arena_size st \<Longrightarrow> kind_at st' m = kind_at st m \<and> parent_at st' m = parent_at st m \<and> children_at st' m = children_at st m"
  shows "arena_ok st'"
proof (rule arena_okI)
  have pos: "0 < arena_size st \<and> kind_at st 0 = K_Document \<and> parent_at st 0 = None" by (rule arena_root [OF assms(1)])
  show "0 < arena_size st'" using pos assms(2) by simp
  show "kind_at st' 0 = K_Document" using pos same [of 0] by simp
  show "parent_at st' 0 = None" using pos same [of 0] by simp
next
  fix n p assume n: "n < arena_size st'" and p: "parent_at st' n = Some p"
  have n': "n < arena_size st" using n assms(2) by simp
  have "parent_at st n = Some p" using same [OF n'] p by simp
  from arena_parent [OF assms(1) n' this] have "p < n \<and> may_hold (kind_at st p) (kind_at st n)" .
  then show "p < n \<and> may_hold (kind_at st' p) (kind_at st' n)"
    using same [OF n'] same [of p] n' by simp
next
  fix n c assume n: "n < arena_size st'" and c: "c \<in> set (children_at st' n)"
  have n': "n < arena_size st" using n assms(2) by simp
  have "c \<in> set (children_at st n)" using same [OF n'] c by simp
  from arena_child [OF assms(1) n' this] have "c < arena_size st \<and> parent_at st c = Some n" by blast
  then show "c < arena_size st' \<and> parent_at st' c = Some n" using same [of c] assms(2) by simp
qed

text \<open>A write that leaves the links and the kind of the node alone.\<close>

definition quiet :: "(block \<Rightarrow> block) \<Rightarrow> bool" where
  "quiet f \<longleftrightarrow> (\<forall>b. b_kind (f b) = b_kind b \<and> b_parent (f b) = b_parent b \<and> b_children (f b) = b_children b)"

lemma quiet_ok: assumes "arena_ok st" and "quiet f" shows "arena_ok (change_node n f st)"
proof (rule arena_ok_same [OF assms(1)])
  fix m assume "m < arena_size st"
  then show "kind_at (change_node n f st) m = kind_at st m \<and> parent_at (change_node n f st) m = parent_at st m \<and>
      children_at (change_node n f st) m = children_at st m"
    using assms(2) by (simp add: node_of_change quiet_def)
qed simp

section \<open>Taking a node out and putting one in\<close>

lemma detach_simps [simp]:
  "arena_size (detach n st) = arena_size st" "bs_tip (detach n st) = bs_tip st"
  by (simp_all add: detach_def split: option.split)

lemma node_of_detach:
  assumes "arena_ok st" and "n < arena_size st" and "m < arena_size st"
  shows "kind_at (detach n st) m = kind_at st m" "open_at (detach n st) m = open_at st m"
    "parent_at (detach n st) m = (if m = n then None else parent_at st m)"
    "set (children_at (detach n st) m) = set (children_at st m) - {n}"
proof -
  have "n \<notin> set (children_at st m)" if "parent_at st n \<noteq> Some m"
    using that arena_child [OF assms(1,3), of n] by blast
  moreover have "p < n" if "parent_at st n = Some p" for p
    using arena_parent [OF assms(1,2) that] by blast
  ultimately show "kind_at (detach n st) m = kind_at st m" "open_at (detach n st) m = open_at st m"
    "parent_at (detach n st) m = (if m = n then None else parent_at st m)"
    "set (children_at (detach n st) m) = set (children_at st m) - {n}"
    using assms(2,3) by (auto simp: detach_def node_of_change split: option.split)
qed

lemma detach_ok:
  assumes ok: "arena_ok st" and n: "n < arena_size st"
  shows "arena_ok (detach n st)"
proof (rule arena_okI)
  have pos: "0 < arena_size st \<and> kind_at st 0 = K_Document \<and> parent_at st 0 = None" by (rule arena_root [OF ok])
  show "0 < arena_size (detach n st)" using pos by simp
  show "kind_at (detach n st) 0 = K_Document" "parent_at (detach n st) 0 = None"
    using pos node_of_detach(1,3) [OF ok n, of 0] by simp_all
next
  fix m p assume m: "m < arena_size (detach n st)" and p: "parent_at (detach n st) m = Some p"
  have m': "m < arena_size st" using m by simp
  have "parent_at st m = Some p" using p node_of_detach(3) [OF ok n m'] by (simp split: if_splits)
  from arena_parent [OF ok m' this] have "p < m \<and> may_hold (kind_at st p) (kind_at st m)" .
  then show "p < m \<and> may_hold (kind_at (detach n st) p) (kind_at (detach n st) m)"
    using node_of_detach(1) [OF ok n m'] node_of_detach(1) [OF ok n, of p] m' by simp
next
  fix m c assume m: "m < arena_size (detach n st)" and c: "c \<in> set (children_at (detach n st) m)"
  have m': "m < arena_size st" using m by simp
  have "c \<in> set (children_at st m)" "c \<noteq> n" using c node_of_detach(4) [OF ok n m'] by simp_all
  with arena_child [OF ok m', of c] show "c < arena_size (detach n st) \<and> parent_at (detach n st) c = Some m"
    using node_of_detach(3) [OF ok n, of c] by simp
qed

lemma append_new_simps [simp]:
  "fst (append_new parent node st) = arena_size st"
  "arena_size (snd (append_new parent node st)) = Suc (arena_size st)"
  "bs_tip (snd (append_new parent node st)) = bs_tip st"
  by (simp_all add: append_new_def Let_def)

lemma node_of_append_new:
  assumes "parent < arena_size st" and "m < Suc (arena_size st)"
  shows "node_of (snd (append_new parent node st)) m =
    (if m = parent then (node_of st parent)\<lparr>b_children := children_at st parent @ [arena_size st]\<rparr>
     else if m = arena_size st then node\<lparr>b_parent := Some parent\<rparr> else node_of st m)"
  using assms by (auto simp: append_new_def Let_def change_node_def node_of_def nth_append nth_list_update)

lemma append_new_ok:
  assumes ok: "arena_ok st" and parent: "parent < arena_size st" and kind: "may_hold (kind_at st parent) (b_kind node)"
    and leaf: "b_children node = []"
  shows "arena_ok (snd (append_new parent node st))"
proof (rule arena_okI)
  let ?st = "snd (append_new parent node st)"
  note at = node_of_append_new [OF parent]
  have pos: "0 < arena_size st \<and> kind_at st 0 = K_Document \<and> parent_at st 0 = None" by (rule arena_root [OF ok])
  show "0 < arena_size ?st" by simp
  show "kind_at ?st 0 = K_Document" "parent_at ?st 0 = None" using pos at [of 0] by simp_all
next
  let ?st = "snd (append_new parent node st)"
  note at = node_of_append_new [OF parent]
  fix m p assume m: "m < arena_size ?st" and p: "parent_at ?st m = Some p"
  show "p < m \<and> may_hold (kind_at ?st p) (kind_at ?st m)"
  proof (cases "m = arena_size st")
    case True
    then show ?thesis using p at [of m] at [of parent] parent kind by simp
  next
    case False
    then have m': "m < arena_size st" using m by simp
    have "parent_at st m = Some p" using p at [of m] False m by (simp split: if_splits)
    from arena_parent [OF ok m' this] have "p < m \<and> may_hold (kind_at st p) (kind_at st m)" .
    then show ?thesis using at [of m] at [of p] m' by auto
  qed
next
  let ?st = "snd (append_new parent node st)"
  note at = node_of_append_new [OF parent]
  fix m c assume m: "m < arena_size ?st" and c: "c \<in> set (children_at ?st m)"
  show "c < arena_size ?st \<and> parent_at ?st c = Some m"
  proof (cases "m < arena_size st \<and> c \<in> set (children_at st m)")
    case True
    with arena_child [OF ok, of m c] have "c < arena_size st \<and> parent_at st c = Some m" by blast
    then show ?thesis using at [of c] by auto
  next
    case False
    then have "m = parent" "c = arena_size st"
      using c m at [of m] leaf parent by (auto split: if_splits)
    then show ?thesis using at [of c] parent by simp
  qed
qed

section \<open>Closing a block\<close>

text \<open>
  What finishing node \<open>n\<close> does: the arena may grow by rows and cells, kinds and openness stay, and only
  \<open>n\<close> may lose its parent, when it was a paragraph.
\<close>

definition settles :: "nat \<Rightarrow> block_state \<Rightarrow> block_state \<Rightarrow> bool" where
  "settles n st st' \<longleftrightarrow> arena_ok st' \<and> arena_size st \<le> arena_size st' \<and> bs_tip st' = bs_tip st \<and>
     (\<forall>m < arena_size st. kind_at st' m = kind_at st m \<and> open_at st' m = open_at st m \<and>
        (m \<noteq> n \<longrightarrow> parent_at st' m = parent_at st m)) \<and>
     (n < arena_size st \<longrightarrow> parent_at st' n = parent_at st n \<or> kind_at st n = K_Paragraph \<and> parent_at st' n = None) \<and>
     (\<forall>m < arena_size st'. arena_size st \<le> m \<longrightarrow> kind_at st' m = K_Table_Row \<or> kind_at st' m = K_Table_Cell)"

lemma settlesD:
  assumes "settles n st st'"
  shows "arena_ok st'" "arena_size st \<le> arena_size st'" "bs_tip st' = bs_tip st"
    "\<And>m. m < arena_size st \<Longrightarrow> kind_at st' m = kind_at st m"
    "\<And>m. m < arena_size st \<Longrightarrow> open_at st' m = open_at st m"
    "\<And>m. m < arena_size st \<Longrightarrow> m \<noteq> n \<Longrightarrow> parent_at st' m = parent_at st m"
    "n < arena_size st \<Longrightarrow> parent_at st' n = parent_at st n \<or> kind_at st n = K_Paragraph \<and> parent_at st' n = None"
    "\<And>m. m < arena_size st' \<Longrightarrow> arena_size st \<le> m \<Longrightarrow> kind_at st' m = K_Table_Row \<or> kind_at st' m = K_Table_Cell"
  using assms unfolding settles_def by blast+

lemma settles_refl: "arena_ok st \<Longrightarrow> settles n st st"
  by (simp add: settles_def)

lemma settles_trans:
  assumes 1: "settles n st st1" and 2: "settles n st1 st2"
  shows "settles n st st2"
proof -
  note one = settlesD [OF 1] and two = settlesD [OF 2]
  have "kind_at st2 m = kind_at st m \<and> open_at st2 m = open_at st m \<and> (m \<noteq> n \<longrightarrow> parent_at st2 m = parent_at st m)"
    if "m < arena_size st" for m
    using that one(2,4,5,6) two(4,5,6) by (metis order_less_le_trans)
  moreover have "parent_at st2 n = parent_at st n \<or> kind_at st n = K_Paragraph \<and> parent_at st2 n = None"
    if "n < arena_size st"
    using that one(2,4,7) two(7) by (metis order_less_le_trans)
  moreover have "kind_at st2 m = K_Table_Row \<or> kind_at st2 m = K_Table_Cell"
    if "m < arena_size st2" "arena_size st \<le> m" for m
    using that one(8) two(4,8) by (metis leI)
  ultimately show ?thesis
    unfolding settles_def using one(2,3) two(1,2,3) by simp
qed

lemma settles_quiet:
  assumes "arena_ok st" and "quiet f" and "\<And>b. b_open (f b) = b_open b"
  shows "settles n st (change_node m f st)"
  using assms(2,3) by (simp add: settles_def quiet_ok [OF assms(1,2)] node_of_change quiet_def)

lemma settles_detach:
  assumes "arena_ok st" and "n < arena_size st" and "kind_at st n = K_Paragraph"
  shows "settles n st (detach n st)"
  using assms(3) by (simp add: settles_def detach_ok [OF assms(1,2)] node_of_detach [OF assms(1,2)])

lemma settles_append:
  assumes ok: "arena_ok st" and parent: "parent < arena_size st" and kind: "may_hold (kind_at st parent) (b_kind node)"
    and leaf: "b_children node = []" and cell: "b_kind node = K_Table_Row \<or> b_kind node = K_Table_Cell"
  shows "settles n st (snd (append_new parent node st))"
proof -
  have "kind_at (snd (append_new parent node st)) m = K_Table_Row \<or> kind_at (snd (append_new parent node st)) m = K_Table_Cell"
    if "m < Suc (arena_size st)" "arena_size st \<le> m" for m
    using that cell parent node_of_append_new [OF parent that(1), of node] by auto
  then show ?thesis
    by (simp add: settles_def append_new_ok [OF ok parent kind leaf] node_of_append_new [OF parent])
qed

lemma add_cells_settles:
  "arena_ok st \<Longrightarrow> row < arena_size st \<Longrightarrow> kind_at st row = K_Table_Row \<Longrightarrow> settles n st (add_cells row header aligns cells st)"
proof (induction row header aligns cells st rule: add_cells.induct)
  case (2 row header align aligns cells st)
  let ?st = "snd (append_new row (cell_block header align (if cells = [] then [] else hd cells)) st)"
  have step: "settles n st ?st"
    using "2.prems" by (intro settles_append) (simp_all add: cell_block_def new_block_def may_hold_def)
  have "settles n ?st (add_cells row header aligns (tl cells) ?st)"
    using "2.prems" settlesD [OF step] by (intro "2.IH") simp_all
  then show ?case using settles_trans [OF step] by simp
qed (simp add: settles_refl)

lemma add_rows_settles:
  "arena_ok st \<Longrightarrow> table < arena_size st \<Longrightarrow> kind_at st table = K_Table \<Longrightarrow> settles n st (add_rows table header lines st)"
proof (induction lines arbitrary: header st)
  case (Cons line lines)
  show ?case
  proof (cases "trim line = []")
    case False
    let ?row = "(new_block K_Table_Row)\<lparr>f_header := header\<rparr>"
    define st1 where "st1 = snd (append_new table ?row st)"
    define st2 where "st2 = add_cells (arena_size st) header (bs_alignments st1) (split_table_row line) st1"
    have step: "settles n st st1"
      unfolding st1_def using Cons.prems by (intro settles_append) (simp_all add: new_block_def may_hold_def)
    have row: "kind_at st1 (arena_size st) = K_Table_Row" "arena_size st < arena_size st1"
      unfolding st1_def using Cons.prems by (simp_all add: node_of_append_new new_block_def)
    have cells: "settles n st1 st2"
      unfolding st2_def using row settlesD(1) [OF step] by (intro add_cells_settles)
    note both = settles_trans [OF step cells]
    have "settles n st2 (add_rows table False lines st2)"
      using Cons.prems settlesD [OF both] by (intro Cons.IH) simp_all
    moreover have "add_rows table header (line # lines) st = add_rows table False lines st2"
      using False by (simp add: st2_def st1_def append_new_def Let_def)
    ultimately show ?thesis using settles_trans [OF both] by simp
  qed (use Cons in simp)
qed (simp add: settles_refl)

text \<open>Updates of the fields the links do not rest on.\<close>

lemma arena_ok_nodes: "bs_nodes st' = bs_nodes st \<Longrightarrow> arena_ok st' \<longleftrightarrow> arena_ok st"
  by (simp add: arena_ok_def node_of_def)

lemma settles_nodes: "arena_ok st \<Longrightarrow> bs_nodes st' = bs_nodes st \<Longrightarrow> bs_tip st' = bs_tip st \<Longrightarrow> settles n st st'"
  using arena_ok_nodes [of st' st] by (simp add: settles_def node_of_def)

lemma finalize_block_settles:
  assumes ok: "arena_ok st" and n: "n < arena_size st"
  shows "settles n st (finalize_block n st)"
proof -
  have quiet: "settles n st (change_node n f st)" if "quiet f" "\<And>b. b_open (f b) = b_open b" for f
    using settles_quiet [OF ok that] .
  consider "kind_at st n = K_Paragraph" | "kind_at st n = K_Table" | "kind_at st n \<noteq> K_Paragraph \<and> kind_at st n \<noteq> K_Table"
    by blast
  then show ?thesis
  proof cases
    case 1
    obtain remaining references footnotes where taken:
      "take_definitions (b_content (node_of st n)) (bs_references st) (bs_footnotes st) = (remaining, references, footnotes)"
      by (metis prod_cases3)
    define st0 where "st0 = st\<lparr>bs_references := references, bs_footnotes := footnotes\<rparr>"
    define st1 where "st1 = change_node n (\<lambda>b. b\<lparr>b_content := []\<rparr>) st0"
    have st0: "settles n st st0" by (rule settles_nodes [OF ok]) (simp_all add: st0_def)
    have "settles n st0 st1"
      unfolding st1_def by (rule settles_quiet [OF settlesD(1) [OF st0]]) (simp_all add: quiet_def)
    then have st1: "settles n st st1" by (rule settles_trans [OF st0])
    have "settles n st1 (detach n st1)"
      using settlesD [OF st1] n 1 by (intro settles_detach) simp_all
    moreover have "settles n st1 (change_node n (\<lambda>b. b\<lparr>f_literal := trim remaining\<rparr>) st1)"
      by (rule settles_quiet [OF settlesD(1) [OF st1]]) (simp_all add: quiet_def)
    ultimately have "settles n st1 (finalize_paragraph n st)"
      by (simp add: finalize_paragraph_def taken Let_def flip: st0_def st1_def)
    then have "settles n st (finalize_paragraph n st)" by (rule settles_trans [OF st1])
    then show ?thesis using 1 by (simp add: finalize_block_def)
  next
    case 2
    let ?st = "change_node n (\<lambda>b. b\<lparr>b_content := []\<rparr>) st"
    have one: "settles n st ?st" by (rule quiet) (simp_all add: quiet_def)
    have "settles n ?st (finalize_table n st)"
      unfolding finalize_table_def using settlesD [OF one] n 2 by (intro add_rows_settles) simp_all
    then have "settles n st (finalize_table n st)" by (rule settles_trans [OF one])
    then show ?thesis using 2 by (simp add: finalize_block_def)
  next
    case 3
    have "settles n st (finalize_code n st)" "settles n st (finalize_text n st)" "settles n st (finalize_list n st)"
      unfolding finalize_code_def finalize_text_def finalize_list_def loosen_def
      using quiet settles_refl [OF ok] by (auto simp: quiet_def)
    then show ?thesis using 3 settles_refl [OF ok] by (simp add: finalize_block_def Let_def)
  qed
qed

lemma close_block_closed: "\<not> open_at st n \<Longrightarrow> close_block n st = st"
  by (simp add: close_block_def)

lemma close_block_eq:
  assumes ok: "arena_ok st" and n: "n < arena_size st" and "open_at st n"
  obtains st1 where "settles n (change_node n (\<lambda>b. b\<lparr>b_open := False\<rparr>) st) st1"
    and "close_block n st = set_tip (parent_or_document st1 n) st1"
proof
  let ?st = "change_node n (\<lambda>b. b\<lparr>b_open := False\<rparr>) st"
  have "arena_ok ?st" by (rule quiet_ok [OF ok]) (simp add: quiet_def)
  then show "settles n ?st (finalize_block n ?st)" using n by (intro finalize_block_settles) simp_all
  show "close_block n st = set_tip (parent_or_document (finalize_block n ?st) n) (finalize_block n ?st)"
    using assms(3) by (simp add: close_block_def Let_def)
qed

text \<open>Where the arena only grows and keeps its kinds.\<close>

definition grows :: "block_state \<Rightarrow> block_state \<Rightarrow> bool" where
  "grows st st' \<longleftrightarrow> arena_ok st' \<and> arena_size st \<le> arena_size st' \<and> (\<forall>m < arena_size st. kind_at st' m = kind_at st m) \<and>
     (\<forall>m < arena_size st'. arena_size st \<le> m \<longrightarrow> kind_at st' m = K_Table_Row \<or> kind_at st' m = K_Table_Cell)"

lemma growsD:
  assumes "grows st st'"
  shows "arena_ok st'" "arena_size st \<le> arena_size st'" "\<And>m. m < arena_size st \<Longrightarrow> kind_at st' m = kind_at st m"
    "\<And>m. m < arena_size st' \<Longrightarrow> arena_size st \<le> m \<Longrightarrow> kind_at st' m = K_Table_Row \<or> kind_at st' m = K_Table_Cell"
  using assms unfolding grows_def by blast+

lemma grows_refl: "arena_ok st \<Longrightarrow> grows st st"
  by (simp add: grows_def)

lemma grows_trans:
  assumes "grows st st1" and "grows st1 st2"
  shows "grows st st2"
proof -
  note one = growsD [OF assms(1)] and two = growsD [OF assms(2)]
  have "kind_at st2 m = kind_at st m" if "m < arena_size st" for m
    using that one(2,3) two(3) by (metis order_less_le_trans)
  moreover have "kind_at st2 m = K_Table_Row \<or> kind_at st2 m = K_Table_Cell" if "m < arena_size st2" "arena_size st \<le> m" for m
    using that one(4) two(3,4) by (metis leI)
  ultimately show ?thesis unfolding grows_def using one(2) two(1,2) by simp
qed

lemma close_block_grows:
  assumes ok: "arena_ok st" and n: "n < arena_size st"
  shows "grows st (close_block n st)"
proof (cases "open_at st n")
  case True
  then obtain st1 where st1: "settles n (change_node n (\<lambda>b. b\<lparr>b_open := False\<rparr>) st) st1"
    and eq: "close_block n st = set_tip (parent_or_document st1 n) st1"
    by (rule close_block_eq [OF ok n])
  note facts = settlesD [OF st1]
  have "arena_ok (close_block n st)" using facts(1) using arena_ok_nodes [of "set_tip (parent_or_document st1 n) st1" st1] by (simp add: eq)
  then show ?thesis
    unfolding grows_def using facts(2,4,8) by (simp add: eq node_of_change split: if_splits)
qed (simp add: close_block_closed grows_refl [OF ok])

text \<open>Closing an open node of the tree: the tip moves up, to its parent unless it was a paragraph taken out.\<close>

lemma close_block_openly:
  assumes ok: "arena_ok st" and openly: "openly st n" and n: "n \<noteq> 0"
  shows "bs_tip (close_block n st) < n" "openly (close_block n st) (bs_tip (close_block n st))"
    "kind_at st n \<noteq> K_Paragraph \<Longrightarrow> parent_at st n = Some (bs_tip (close_block n st))"
    "kind_at st n \<noteq> K_Paragraph \<Longrightarrow> parent_at (close_block n st) n = parent_at st n"
    "m < n \<Longrightarrow> openly st m \<Longrightarrow> openly (close_block n st) m"
proof -
  have size: "n < arena_size st" by (rule openly_size [OF ok openly])
  obtain p where p: "parent_at st n = Some p" "openly st p" "open_at st n"
    using openly_parent [OF openly n] by blast
  have "p < n" using arena_parent [OF ok size p(1)] by simp
  obtain st1 where st1: "settles n (change_node n (\<lambda>b. b\<lparr>b_open := False\<rparr>) st) st1"
    and eq: "close_block n st = set_tip (parent_or_document st1 n) st1"
    using close_block_eq [OF ok size p(3)] .
  note facts = settlesD [OF st1]
  have parent: "parent_at st1 n = Some p \<or> kind_at st n = K_Paragraph \<and> parent_at st1 n = None"
    using facts(7) size p(1) by (simp add: node_of_change)
  show up: "m < n \<Longrightarrow> openly st m \<Longrightarrow> openly (close_block n st) m" for m
  proof (rule openly_mono [OF _ ok])
    show "arena_size st \<le> arena_size (close_block n st)" using facts(2) by (simp add: eq)
    show "open_at (close_block n st) k = open_at st k \<and> parent_at (close_block n st) k = parent_at st k"
      if "m < n" "k \<le> m" "k < arena_size st" for k
      using that facts(5,6) [of k] by (simp add: eq node_of_change)
  qed
  show "bs_tip (close_block n st) < n" using parent \<open>p < n\<close> by (auto simp: eq parent_or_document_def)
  show "openly (close_block n st) (bs_tip (close_block n st))"
    using parent up [OF \<open>p < n\<close> p(2)] openly.root by (auto simp: eq parent_or_document_def)
  show "kind_at st n \<noteq> K_Paragraph \<Longrightarrow> parent_at st n = Some (bs_tip (close_block n st))"
    "kind_at st n \<noteq> K_Paragraph \<Longrightarrow> parent_at (close_block n st) n = parent_at st n"
    using parent p(1) by (auto simp: eq parent_or_document_def)
qed

section \<open>Lines keep the tip open\<close>

definition good :: "block_state \<Rightarrow> bool" where
  "good st \<longleftrightarrow> arena_ok st \<and> openly st (bs_tip st)"

lemma goodD: "good st \<Longrightarrow> arena_ok st" "good st \<Longrightarrow> openly st (bs_tip st)" "good st \<Longrightarrow> bs_tip st < arena_size st"
  by (simp_all add: good_def openly_size)

lemma openly_quiet:
  assumes "arena_ok st" and "quiet f" and "\<And>b. b_open (f b) = b_open b" and "openly st m"
  shows "openly (change_node n f st) m"
  using assms(2,3) by (intro openly_mono [OF assms(4,1)]) (simp_all add: node_of_change quiet_def)

lemma good_quiet:
  "good st \<Longrightarrow> quiet f \<Longrightarrow> (\<And>b. b_open (f b) = b_open b) \<Longrightarrow> good (change_node n f st)"
  unfolding good_def change_node_simps by (blast intro: quiet_ok openly_quiet)

lemma openly_nodes: "bs_nodes st' = bs_nodes st \<Longrightarrow> arena_ok st \<Longrightarrow> openly st m \<Longrightarrow> openly st' m"
  by (rule openly_mono [of st]) (simp_all add: node_of_def)

lemma good_nodes:
  assumes "bs_nodes st' = bs_nodes st" and "arena_ok st" and "openly st (bs_tip st')"
  shows "good st'"
  using assms arena_ok_nodes [OF assms(1)] openly_nodes [OF assms] by (simp add: good_def)

lemma close_block_good:
  assumes "arena_ok st" and "openly st n" and "n \<noteq> 0"
  shows "good (close_block n st)"
  unfolding good_def
  using growsD(1) [OF close_block_grows [OF assms(1) openly_size [OF assms(1,2)]]] close_block_openly(2) [OF assms] by blast

lemma close_tip:
  assumes "good st" and "bs_tip st \<noteq> 0"
  shows "good (close_block (bs_tip st) st)" "grows st (close_block (bs_tip st) st)"
    "bs_tip (close_block (bs_tip st) st) < bs_tip st"
  using close_block_good [OF goodD(1,2) [OF assms(1)] assms(2)] close_block_grows [OF goodD(1,3) [OF assms(1)]]
    close_block_openly(1) [OF goodD(1,2) [OF assms(1)] assms(2)] .

lemma close_while_good:
  assumes "good st" and "bs_tip st \<le> fuel" and "\<And>st. going st \<Longrightarrow> bs_tip st \<noteq> 0"
  shows "\<exists>st'. close_while fuel going st = Some st' \<and> good st' \<and> grows st st' \<and> \<not> going st'"
  using assms
proof (induction fuel going st rule: close_while.induct)
  case (1 going st)
  then have "\<not> going st" using "1.prems"(2) "1.prems"(3) [of st] by auto
  then show ?case using "1.prems"(1) grows_refl goodD(1) by simp
next
  case (2 fuel going st)
  show ?case
  proof (cases "going st")
    case True
    note tip = close_tip [OF "2.prems"(1) "2.prems"(3) [OF True]]
    have "\<exists>st'. close_while fuel going (close_block (bs_tip st) st) = Some st' \<and> good st' \<and>
        grows (close_block (bs_tip st) st) st' \<and> \<not> going st'"
      using tip "2.prems"(2) by (intro "2.IH" [OF True] "2.prems"(3)) simp_all
    then show ?thesis using True grows_trans [OF tip(2)] by auto
  next
    case False
    then show ?thesis using "2.prems"(1) grows_refl goodD(1) by simp
  qed
qed

lemma close_paragraph_good: "good st \<Longrightarrow> good (close_paragraph st)"
proof (cases "in_paragraph st")
  case True
  assume good: "good st"
  have "bs_tip st \<noteq> 0"
  proof
    assume "bs_tip st = 0"
    then show False using True arena_root [OF goodD(1) [OF good]] by (simp add: in_paragraph_def tip_kind_def)
  qed
  then show ?thesis using True close_tip(1) [OF good] by (simp add: close_paragraph_def)
qed (simp add: close_paragraph_def)

lemma append_good:
  assumes good: "good st" and parent: "openly st parent" and kind: "may_hold (kind_at st parent) (b_kind node)"
    and leaf: "b_children node = []"
  shows "good (snd (append_new parent node st))"
    "b_open node \<Longrightarrow> openly (snd (append_new parent node st)) (arena_size st)"
    "openly st m \<Longrightarrow> openly (snd (append_new parent node st)) m"
proof -
  let ?st = "snd (append_new parent node st)"
  note ok = goodD(1) [OF good]
  have size: "parent < arena_size st" by (rule openly_size [OF ok parent])
  have keep: "openly ?st m" if "openly st m" for m
    by (rule openly_mono [OF that ok]) (simp_all add: node_of_append_new [OF size])
  then show "openly st m \<Longrightarrow> openly ?st m" .
  show "good ?st"
    unfolding good_def using append_new_ok [OF ok size kind leaf] keep [OF goodD(2) [OF good]] by simp
  show "b_open node \<Longrightarrow> openly ?st (arena_size st)"
    using keep [OF parent] size by (intro openly.below [of "arena_size st" ?st parent]) (simp_all add: node_of_append_new)
qed

lemma loosen_for_good:
  assumes good: "good st"
  shows "\<exists>st'. loosen_for kind st = Some st' \<and> good st' \<and> tip_kind st' = tip_kind st \<and> bs_tip st' = bs_tip st"
proof -
  have quiet: "quiet (\<lambda>b. b\<lparr>f_tight := False\<rparr>)" by (simp add: quiet_def)
  have loose: "good (loosen n st') \<and> tip_kind (loosen n st') = tip_kind st' \<and> bs_tip (loosen n st') = bs_tip st'"
    if "good st'" for n st'
    using good_quiet [OF that quiet] goodD(3) [OF that] by (simp add: loosen_def tip_kind_def node_of_change)
  have "kind_at st (bs_tip st) = K_Item \<Longrightarrow> \<exists>p. parent_at st (bs_tip st) = Some p"
    using openly_parent [OF goodD(2) [OF good]] arena_root [OF goodD(1) [OF good]] by (metis md_kind.distinct(5))
  then obtain st1 where st1: "(let tip = node_of st (bs_tip st) in if b_kind tip = K_Item \<and> b_blank tip \<and> b_children tip \<noteq> [] then
        (case b_parent tip of None \<Rightarrow> None | Some parent \<Rightarrow> Some (loosen parent st)) else Some st) = Some st1"
      "good st1 \<and> tip_kind st1 = tip_kind st \<and> bs_tip st1 = bs_tip st"
    using good loose [OF good]
    by (cases "kind_at st (bs_tip st) = K_Item \<and> b_blank (node_of st (bs_tip st)) \<and> children_at st (bs_tip st) \<noteq> []") force+
  then show ?thesis
    using loose [of st1 "bs_tip st"] by (simp add: loosen_for_def Let_def)
qed

lemma may_hold_item: "may_hold parent K_Item \<longleftrightarrow> parent = K_List"
  by (auto simp: may_hold_def flow_kind_def)

lemma may_hold_list: "may_hold parent K_List \<Longrightarrow> flow_kind kind \<Longrightarrow> may_hold parent kind"
  by (cases parent; simp add: may_hold_def)

text \<open>A node that is not a container gives way to its parent, and so does a list to anything but an item.\<close>

lemma make_room:
  assumes good: "good st" and kind: "flow_kind kind \<or> kind = K_Item \<and> tip_kind st = K_List"
  obtains st1 where "close_while (arena_size st) holds_no_blocks st = Some st1"
    and "good (if kind \<noteq> K_Item \<and> tip_kind st1 = K_List then close_block (bs_tip st1) st1 else st1)"
    and "may_hold (tip_kind (if kind \<noteq> K_Item \<and> tip_kind st1 = K_List then close_block (bs_tip st1) st1 else st1)) kind"
proof (cases "flow_kind kind")
  case False
  then have item: "kind = K_Item" "tip_kind st = K_List" using kind by simp_all
  then have "\<not> holds_no_blocks st" by (simp add: holds_no_blocks_def is_container_def)
  then have "close_while (arena_size st) holds_no_blocks st = Some st" by (cases "arena_size st") simp_all
  then show ?thesis using that good item by (simp add: may_hold_item)
next
  case True
  have "\<exists>st1. close_while (arena_size st) holds_no_blocks st = Some st1 \<and> good st1 \<and> grows st st1 \<and> \<not> holds_no_blocks st1"
    using goodD(3) [OF good] by (intro close_while_good [OF good]) (simp_all add: holds_no_blocks_def)
  then obtain st1 where st1: "close_while (arena_size st) holds_no_blocks st = Some st1" "good st1" "\<not> holds_no_blocks st1"
    by blast
  show ?thesis
  proof (cases "tip_kind st1 = K_List")
    case list: True
    let ?n = "bs_tip st1" and ?st = "close_block (bs_tip st1) st1"
    have "?n \<noteq> 0"
    proof
      assume "?n = 0"
      then show False using list arena_root [OF goodD(1) [OF st1(2)]] by (simp add: tip_kind_def)
    qed
    note tip = close_tip [OF st1(2) this] and up = close_block_openly(3) [OF goodD(1,2) [OF st1(2)] this]
    have "parent_at st1 ?n = Some (bs_tip ?st)" using up list by (simp add: tip_kind_def)
    then have "may_hold (kind_at st1 (bs_tip ?st)) K_List"
      using arena_parent [OF goodD(1,3) [OF st1(2)]] list by (simp add: tip_kind_def)
    moreover have "kind_at ?st (bs_tip ?st) = kind_at st1 (bs_tip ?st)"
      using growsD(3) [OF tip(2)] tip(3) goodD(3) [OF st1(2)] by simp
    ultimately have "may_hold (tip_kind ?st) kind" using may_hold_list True by (simp add: tip_kind_def)
    moreover have "kind \<noteq> K_Item" using True by (auto simp: flow_kind_def)
    ultimately show ?thesis using that [OF st1(1)] tip(1) list by simp
  next
    case False
    then have "tip_kind st1 \<in> {K_Document, K_Block_Quote, K_Item, K_Definition_List}"
      using st1(3) arena_root [OF goodD(1) [OF st1(2)]] by (auto simp: holds_no_blocks_def is_container_def tip_kind_def)
    then have "may_hold (tip_kind st1) kind" using True by (auto simp: may_hold_def)
    then show ?thesis using that [OF st1(1)] st1(2) False by simp
  qed
qed

lemma add_child_good:
  assumes good: "good st" and kind: "flow_kind (b_kind node) \<or> b_kind node = K_Item \<and> tip_kind st = K_List"
    and node: "b_children node = []" "b_open node"
  shows "\<exists>st'. add_child node st = Some st' \<and> good st' \<and> tip_kind st' = b_kind node"
proof -
  obtain st1 where st1: "close_while (arena_size st) holds_no_blocks st = Some st1"
    and room: "good (if b_kind node \<noteq> K_Item \<and> tip_kind st1 = K_List then close_block (bs_tip st1) st1 else st1)"
      "may_hold (tip_kind (if b_kind node \<noteq> K_Item \<and> tip_kind st1 = K_List then close_block (bs_tip st1) st1 else st1)) (b_kind node)"
    using make_room [OF good kind] .
  define st2 where "st2 = (if b_kind node \<noteq> K_Item \<and> tip_kind st1 = K_List then close_block (bs_tip st1) st1 else st1)"
  obtain st3 where st3: "loosen_for (b_kind node) st2 = Some st3" "good st3" "tip_kind st3 = tip_kind st2" "bs_tip st3 = bs_tip st2"
    using loosen_for_good room(1) unfolding st2_def [symmetric] by blast
  let ?st = "snd (append_new (bs_tip st3) node st3)"
  have kind: "may_hold (kind_at st3 (bs_tip st3)) (b_kind node)"
    using room(2) st3(3) unfolding st2_def [symmetric] by (simp add: tip_kind_def)
  note put = append_good [OF st3(2) goodD(2) [OF st3(2)] kind node(1)]
  have "good (set_tip (arena_size st3) ?st)"
    by (rule good_nodes [of _ ?st]) (use goodD(1) [OF put(1)] put(2) [OF node(2)] in simp_all)
  moreover have "kind_at ?st (arena_size st3) = b_kind node"
    using goodD(3) [OF st3(2)] by (simp add: node_of_append_new)
  moreover have "add_child node st = Some (set_tip (arena_size st3) ?st)"
    using st1 st3(1) by (simp add: add_child_def append_new_def Let_def flip: st2_def)
  ultimately show ?thesis by (simp add: tip_kind_def)
qed

lemma ancestors_some:
  assumes "arena_ok st"
  shows "n < arena_size st \<Longrightarrow> n < fuel \<Longrightarrow> \<exists>chain. ancestors fuel st n = Some chain"
proof (induction fuel arbitrary: n)
  case (Suc fuel)
  show ?case
  proof (cases "parent_at st n")
    case (Some p)
    then have "p < n" using arena_parent [OF assms Suc.prems(1)] by blast
    then show ?thesis using Suc.IH [of p] Suc.prems Some by simp
  qed simp
qed simp

lemma ancestors_openly:
  assumes "arena_ok st"
  shows "ancestors fuel st n = Some chain \<Longrightarrow> openly st n \<Longrightarrow> m \<in> set chain \<Longrightarrow> openly st m"
proof (induction fuel arbitrary: n chain)
  case (Suc fuel)
  show ?case
  proof (cases "parent_at st n")
    case (Some p)
    then have "openly st p" using openly_parent [OF Suc.prems(2)] arena_root [OF assms] by force
    then show ?thesis using Suc.IH [of p] Suc.prems Some by auto
  qed (use Suc.prems in auto)
qed simp

lemma good_fold_quiet:
  "quiet f \<Longrightarrow> (\<And>b. b_open (f b) = b_open b) \<Longrightarrow> good st \<Longrightarrow> good (fold (\<lambda>n. change_node n f) chain st)"
  by (induction chain arbitrary: st) (simp_all add: good_quiet)

lemma mark_blank_good: "good st \<Longrightarrow> \<exists>st'. mark_blank st = Some st' \<and> good st'"
proof -
  assume "good st"
  note st1 = close_paragraph_good [OF this]
  obtain chain where "ancestors (arena_size (close_paragraph st)) (close_paragraph st) (bs_tip (close_paragraph st)) = Some chain"
    using ancestors_some [OF goodD(1) [OF st1]] goodD(3) [OF st1] by blast
  then show ?thesis
    using good_fold_quiet [OF _ _ st1, of "\<lambda>b. b\<lparr>b_blank := True\<rparr>" chain] by (simp add: mark_blank_def Let_def quiet_def)
qed

lemma new_block_simps [simp]:
  "b_kind (new_block kind) = kind" "b_children (new_block kind) = []" "b_open (new_block kind)"
  by (simp_all add: new_block_def)

lemma flow_kinds [simp]:
  "flow_kind K_Block_Quote" "flow_kind K_List" "flow_kind K_Paragraph" "flow_kind K_Heading" "flow_kind K_Code_Block"
  "flow_kind K_Html_Block" "flow_kind K_Thematic_Break" "flow_kind K_Table" "flow_kind K_Definition_List" "flow_kind K_Shortcode"
  by (simp_all add: flow_kind_def)

lemma tip_not_document: "arena_ok st \<Longrightarrow> tip_kind st \<noteq> K_Document \<Longrightarrow> bs_tip st \<noteq> 0"
  using arena_root [of st] by (metis tip_kind_def)

lemma close_tip_good: "good st \<Longrightarrow> tip_kind st \<noteq> K_Document \<Longrightarrow> good (close_block (bs_tip st) st)"
  by (rule close_tip(1)) (simp_all add: tip_not_document goodD)

text \<open>A paragraph that makes way for a table or a term leaves the document as the tip.\<close>

lemma take_paragraph_good:
  assumes good: "good st" shows "good (take_paragraph st)" "tip_kind (take_paragraph st) = K_Document"
proof -
  let ?st = "change_node (bs_tip st) (\<lambda>b. b\<lparr>b_content := []\<rparr>) st"
  have ok: "arena_ok ?st" by (rule quiet_ok [OF goodD(1) [OF good]]) (simp add: quiet_def)
  have size: "bs_tip st < arena_size ?st" using goodD(3) [OF good] by simp
  have "parent_at (detach (bs_tip st) ?st) (bs_tip st) = None" using node_of_detach(3) [OF ok size size] by simp
  then have eq: "take_paragraph st = set_tip 0 (detach (bs_tip st) ?st)"
    by (simp add: take_paragraph_def parent_or_document_def Let_def)
  have "arena_ok (take_paragraph st)"
    using detach_ok [OF ok size] arena_ok_nodes [of "take_paragraph st" "detach (bs_tip st) ?st"] by (simp add: eq)
  then show "good (take_paragraph st)" "tip_kind (take_paragraph st) = K_Document"
    using arena_root [of "take_paragraph st"] openly.root by (simp_all add: good_def tip_kind_def eq)
qed

lemma append_term_good:
  assumes "good st" and "tip_kind st = K_Definition_List"
  shows "good (snd (append_new (bs_tip st) (term_block body) st))"
  using assms by (intro append_good(1)) (simp_all add: goodD may_hold_def tip_kind_def term_block_def)

lemma start_definition_list_good:
  assumes "good st"
  shows "\<exists>st'. start_definition_list st = Some st' \<and> good st'"
proof -
  note taken = take_paragraph_good [OF assms]
  obtain st2 where "add_child (new_block K_Definition_List) (take_paragraph st) = Some st2" "good st2"
      "tip_kind st2 = K_Definition_List"
    using add_child_good [OF taken(1), of "new_block K_Definition_List"] by auto
  then show ?thesis
    using append_term_good taken(2) by (simp add: start_definition_list_def Let_def)
qed

lemma add_definition_detail_good:
  assumes good: "good st"
  shows "\<exists>st'. add_definition_detail body st = Some st' \<and> good st'"
proof -
  obtain chain where chain: "ancestors (arena_size st) st (bs_tip st) = Some chain"
    using ancestors_some [OF goodD(1) [OF good]] goodD(3) [OF good] by blast
  show ?thesis
  proof (cases "find (\<lambda>n. kind_at st n = K_Definition_List) chain")
    case None
    then show ?thesis using good chain by (simp add: add_definition_detail_def)
  next
    case (Some list)
    then have kind: "kind_at st list = K_Definition_List" and "list \<in> set chain"
      by (auto simp: find_Some_iff)
    then have openly: "openly st list" using ancestors_openly [OF goodD(1) [OF good] chain goodD(2) [OF good]] by blast
    let ?node = "(new_block K_Definition_Detail)\<lparr>f_literal := body, b_open := False\<rparr>"
    let ?st = "snd (append_new list ?node st)"
    have hold: "may_hold (kind_at st list) (b_kind ?node)" by (simp add: kind may_hold_def)
    note put = append_good [OF good openly hold]
    have "good (set_tip list ?st)"
      by (rule good_nodes [of _ ?st]) (use goodD(1) [OF put(1)] put(3) [OF _ openly] in simp_all)
    then show ?thesis using chain Some by (simp add: add_definition_detail_def)
  qed
qed

lemma start_table_good:
  assumes "good st"
  shows "\<exists>st'. start_table line alignments st = Some st' \<and> good st'"
proof -
  obtain st1 where st1: "add_child (new_block K_Table) (take_paragraph st) = Some st1" "good st1"
    using add_child_good [OF take_paragraph_good(1) [OF assms], of "new_block K_Table"] by auto
  have "good (st1\<lparr>bs_alignments := alignments\<rparr>)"
    by (rule good_nodes [of _ st1]) (use goodD [OF st1(2)] in simp_all)
  from good_quiet [OF this, of "\<lambda>b. b\<lparr>b_content := line @ [CHR 0x0A]\<rparr>" "bs_tip st1"]
  show ?thesis using st1(1) by (simp add: start_table_def quiet_def)
qed

section \<open>Every way a line opens blocks\<close>

fun turn_good :: "block_turn option \<Rightarrow> bool" where
  "turn_good None \<longleftrightarrow> False"
| "turn_good (Some (Opened st)) \<longleftrightarrow> good st"
| "turn_good (Some (Inside s st)) \<longleftrightarrow> good st"
| "turn_good (Some (No_More s st)) \<longleftrightarrow> good st"

lemma add_flow:
  assumes "good st" and "flow_kind (b_kind node)" and "b_children node = []" and "b_open node"
  obtains st' where "add_child node st = Some st'" "good st'" "tip_kind st' = b_kind node"
  using add_child_good [OF assms(1) _ assms(3,4)] assms(2) by blast

lemma open_leaf_good:
  assumes "good st" and "flow_kind (b_kind node)" and "b_children node = []" and "b_open node"
  shows "turn_good (open_leaf node st)"
proof -
  obtain st1 where st1: "add_child node (close_paragraph st) = Some st1" "good st1" "tip_kind st1 = b_kind node"
    using add_flow [OF close_paragraph_good [OF assms(1)] assms(2-4)] .
  have "tip_kind st1 \<noteq> K_Document" using st1(3) assms(2) by (auto simp: flow_kind_def)
  then show ?thesis using st1(1) close_tip_good [OF st1(2)] by (simp add: open_leaf_def)
qed

lemma open_html_good:
  assumes "good st" shows "turn_good (open_html html_type rest st)"
proof -
  obtain st1 where st1: "add_child ((new_block K_Html_Block)\<lparr>b_html_type := html_type, b_content := rest @ [CHR 0x0A]\<rparr>)
      (close_paragraph st) = Some st1" "good st1" "tip_kind st1 = K_Html_Block"
    using add_child_good [OF close_paragraph_good [OF assms], of
      "(new_block K_Html_Block)\<lparr>b_html_type := html_type, b_content := rest @ [CHR 0x0A]\<rparr>"] by auto
  then show ?thesis using close_tip_good [OF st1(2)] by (simp add: open_html_def)
qed

lemma open_indented_good:
  assumes "good st" shows "turn_good (open_indented start rest st)"
proof -
  obtain st1 where "add_child ((new_block K_Code_Block)\<lparr>b_content := sc_rest (snd (skip_spaces_to code_indent start)) @ [CHR 0x0A]\<rparr>) st
      = Some st1" "good st1"
    using add_child_good [OF assms, of
      "(new_block K_Code_Block)\<lparr>b_content := sc_rest (snd (skip_spaces_to code_indent start)) @ [CHR 0x0A]\<rparr>"] by auto
  then show ?thesis using assms by (simp add: open_indented_def)
qed

lemma open_definition_good: "good st \<Longrightarrow> turn_good (open_definition rest st)"
  using start_definition_list_good [of st] add_definition_detail_good [of _ "detail_text rest"]
  by (fastforce simp: open_definition_def)

lemma open_list_good:
  assumes "good st" shows "turn_good (open_list indent list empty_item s st)"
proof -
  obtain padding s1 where item: "item_padding empty_item ((sc_advance ^^ lm_width list) s) = (padding, s1)" by fastforce
  note closed = close_paragraph_good [OF assms]
  define st1 where "st1 = close_paragraph st"
  obtain st2 where st2: "(if same_list list (node_of st1 (bs_tip st1)) then Some st1 else add_child (list_block list) st1) = Some st2"
      "good st2" "tip_kind st2 = K_List"
  proof (cases "same_list list (node_of st1 (bs_tip st1))")
    case True
    then show ?thesis using that [of st1] closed by (simp add: same_list_def tip_kind_def st1_def)
  next
    case False
    obtain st2 where "add_child (list_block list) st1 = Some st2" "good st2" "tip_kind st2 = b_kind (list_block list)"
      by (rule add_flow [OF closed, of "list_block list"]) (simp_all add: list_block_def st1_def)
    then show ?thesis using that [of st2] False by (simp add: list_block_def)
  qed
  obtain st3 where "add_child ((new_block K_Item)\<lparr>b_padding := indent + lm_width list + padding\<rparr>) st2 = Some st3" "good st3"
    using add_child_good [OF st2(2), of "(new_block K_Item)\<lparr>b_padding := indent + lm_width list + padding\<rparr>"] st2(3) by auto
  then show ?thesis using item st2(1) by (simp add: open_list_def Let_def flip: st1_def)
qed

lemma open_marker_good: "good st \<Longrightarrow> turn_good (open_marker indent rest s st)"
  by (simp add: open_marker_def Let_def open_list_good split: option.split)

text \<open>A paragraph holds nothing and stands where a heading may, so it can become one.\<close>

lemma heading_ok:
  assumes ok: "arena_ok st" and n: "n < arena_size st" and kind: "kind_at st n = K_Paragraph"
    and f: "\<And>b. b_kind (f b) = K_Heading \<and> b_parent (f b) = b_parent b \<and> b_children (f b) = b_children b"
  shows "arena_ok (change_node n f st)"
proof (rule arena_okI)
  let ?st = "change_node n f st"
  have pos: "0 < arena_size st \<and> kind_at st 0 = K_Document \<and> parent_at st 0 = None" by (rule arena_root [OF ok])
  have "n \<noteq> 0" using pos kind by (cases n) simp_all
  then show "0 < arena_size ?st" "kind_at ?st 0 = K_Document" "parent_at ?st 0 = None"
    using pos by (simp_all add: node_of_change)
next
  let ?st = "change_node n f st"
  fix m p assume m: "m < arena_size ?st" and p: "parent_at ?st m = Some p"
  have m': "m < arena_size st" using m by simp
  have "parent_at st m = Some p" using p m' f by (simp add: node_of_change split: if_splits)
  from arena_parent [OF ok m' this] have up: "p < m" "may_hold (kind_at st p) (kind_at st m)" by simp_all
  then have "p \<noteq> n" using kind by (auto simp: may_hold_def)
  moreover have "may_hold (kind_at st p) K_Heading" if "m = n"
    using up(2) kind that by (cases "kind_at st p"; simp add: may_hold_def)
  ultimately show "p < m \<and> may_hold (kind_at ?st p) (kind_at ?st m)"
    using up m' f by (simp add: node_of_change)
next
  let ?st = "change_node n f st"
  fix m c assume m: "m < arena_size ?st" and c: "c \<in> set (children_at ?st m)"
  have "c \<in> set (children_at st m)" using c m f by (simp add: node_of_change split: if_splits)
  with arena_child [OF ok, of m c] m show "c < arena_size ?st \<and> parent_at ?st c = Some m"
    using f by (auto simp: node_of_change)
qed

lemma open_underlined_good:
  assumes good: "good st" and kind: "in_paragraph st"
  shows "good (open_underlined level st)"
proof -
  define f :: "block \<Rightarrow> block" where "f = (\<lambda>b. b\<lparr>b_kind := K_Heading, f_level := int level, b_content := trim (b_content b)\<rparr>)"
  let ?st = "change_node (bs_tip st) f st"
  have tip: "bs_tip st < arena_size st" "kind_at st (bs_tip st) = K_Paragraph"
    using goodD(3) [OF good] kind by (simp_all add: in_paragraph_def tip_kind_def)
  have "arena_ok ?st" by (rule heading_ok [OF goodD(1) [OF good] tip]) (simp add: f_def)
  moreover have "openly ?st (bs_tip st)"
    by (rule openly_mono [OF goodD(2) [OF good] goodD(1) [OF good]]) (simp_all add: node_of_change f_def)
  ultimately have "good ?st" by (simp add: good_def)
  moreover have "tip_kind ?st = K_Heading" using tip(1) by (simp add: tip_kind_def node_of_change f_def)
  ultimately show ?thesis
    using close_tip_good [of ?st] by (simp add: open_underlined_def f_def [symmetric] Let_def)
qed

lemma open_quote_good:
  assumes "good st"
  shows "turn_good (do { st1 \<leftarrow> add_child (new_block K_Block_Quote) (close_paragraph st); Some (Inside s st1) })"
  using add_child_good [OF close_paragraph_good [OF assms], of "new_block K_Block_Quote"] by auto

lemma open_fence_good:
  assumes "good st"
  shows "turn_good (map_option Opened (add_child (fence_block fence indent) (close_paragraph st)))"
  using add_child_good [OF close_paragraph_good [OF assms], of "fence_block fence indent"]
  by (auto simp: fence_block_def)

lemma open_table_good: "good st \<Longrightarrow> turn_good (map_option Opened (start_table line alignments st))"
  using start_table_good [of st line alignments] by auto

lemmas opening_good = open_quote_good open_fence_good open_table_good open_leaf_good open_html_good open_indented_good
  open_definition_good open_marker_good open_underlined_good

lemma open_turn_good:
  assumes good: "good st"
  shows "turn_good (open_turn start st)"
proof -
  obtain indent s where skipped: "skip_spaces_to 100 start = (indent, s)" by fastforce
  show ?thesis
    unfolding open_turn_def skipped
    using good by (auto simp: Let_def opening_good split: option.split simp del: bind.simps bind_eq_Some_conv)
qed

lemma open_loop_good: "good st \<Longrightarrow> turn_good (open_loop n s st)"
proof (induction n arbitrary: s st)
  case (Suc n)
  then show ?case using open_turn_good [OF Suc.prems, of s]
    by (cases "open_turn s st" rule: turn_good.cases) simp_all
qed simp

lemma open_text_good:
  assumes good: "good st"
  shows "\<exists>st'. open_text s st = Some st' \<and> good st'"
proof -
  have add: "\<exists>st'. add_child ((new_block K_Paragraph)\<lparr>b_content := body\<rparr>) st1 = Some st' \<and> good st'" if "good st1" for body st1
    using add_child_good [OF that, of "(new_block K_Paragraph)\<lparr>b_content := body\<rparr>"] by auto
  have task: "good (change_node n (\<lambda>b. b\<lparr>f_task := True, f_checked := checked\<rparr>) st)" for n checked
    by (rule good_quiet [OF good]) (simp_all add: quiet_def)
  have line: "good (add_text (bs_tip st) rest st)" if "in_paragraph st" for rest
    using that by (auto simp: add_text_def in_paragraph_def tip_kind_def quiet_def intro: good_quiet [OF good])
  show ?thesis
    unfolding open_text_def Let_def
    using mark_blank_good [OF good] add_definition_detail_good [OF good] append_term_good [OF good] add good task line
    by (auto split: option.split)
qed

lemma open_new_blocks_good: "good st \<Longrightarrow> \<exists>st'. open_new_blocks s st = Some st' \<and> good st'"
  using open_loop_good [of st max_nesting s] open_text_good
  by (cases "open_loop max_nesting s st" rule: turn_good.cases) (simp_all add: open_new_blocks_def)

section \<open>A line keeps the parser in order\<close>

lemma add_text_good:
  assumes good: "good st" and n: "openly st n" "n \<noteq> 0"
  shows "good (add_text n line st)"
proof -
  have one: "good (change_node n (\<lambda>b. b\<lparr>b_content := b_content b @ line @ [CHR 0x0A]\<rparr>) st)"
    "good (change_node n (\<lambda>b. b\<lparr>b_content := b_content b @ (if b_content b = [] then [] else [CHR 0x0A]) @ trim_start line\<rparr>) st)"
    by (rule good_quiet [OF good]; simp add: quiet_def)+
  have "openly (change_node n (\<lambda>b. b\<lparr>b_content := b_content b @ line @ [CHR 0x0A]\<rparr>) st) n"
    by (rule openly_quiet [OF goodD(1) [OF good] _ _ n(1)]) (simp_all add: quiet_def)
  from close_block_good [OF goodD(1) [OF one(1)] this n(2)] one show ?thesis
    by (simp add: add_text_def Let_def)
qed

lemma open_child_facts:
  assumes ok: "arena_ok st" and container: "openly st container" and child: "open_child st container = Some child"
  shows "openly st child" "parent_at st child = Some container" "container < child" "child < arena_size st"
    "may_hold (kind_at st container) (kind_at st child)"
proof -
  have last: "child \<in> set (children_at st container)" "open_at st child"
    using child by (auto simp: open_child_def split: list.splits if_splits)
  note facts = arena_child [OF ok openly_size [OF ok container] last(1)]
  then show "parent_at st child = Some container" "container < child" "child < arena_size st"
    "may_hold (kind_at st container) (kind_at st child)" by simp_all
  show "openly st child"
    by (rule openly.below [of child st container]) (use facts last(2) container in simp_all)
qed

lemma block_continues_good:
  assumes good: "good st" and container: "openly st container" and child: "open_child st container = Some child"
    and step: "block_continues child s st = (matched, s1, st1)"
  shows "matched \<Longrightarrow> st1 = st"
    "good st1 \<and> parent_at st1 child = Some container \<and> openly st1 container \<and> kind_at st1 container = kind_at st container"
proof -
  note facts = open_child_facts [OF goodD(1) [OF good] container child]
  have close: "good st'" "parent_at st' child = Some container" "openly st' container" "kind_at st' container = kind_at st container"
    if kind: "kind_at st child \<noteq> K_Paragraph" and st': "bs_nodes st' = bs_nodes (close_block child st)" "bs_tip st' = bs_tip (close_block child st)" for st'
  proof -
    have "child \<noteq> 0" using facts(3) by simp
    note closed = close_block_openly [OF goodD(1) [OF good] facts(1) this]
    note shut = close_block_good [OF goodD(1) [OF good] facts(1) \<open>child \<noteq> 0\<close>]
    show "good st'" by (rule good_nodes [OF st'(1)]) (use goodD(1,2) [OF shut] st'(2) in simp_all)
    show "openly st' container"
      by (rule openly_nodes [OF st'(1) goodD(1) [OF shut]]) (rule closed(5) [OF facts(3) container])
    show "parent_at st' child = Some container" using closed(4) [OF kind] facts(2) st'(1) by (simp add: node_of_def)
    show "kind_at st' container = kind_at st container"
      using growsD(3) [OF close_block_grows [OF goodD(1) [OF good] facts(4)], of container] facts(3,4) st'(1)
      by (simp add: node_of_def)
  qed
  show "matched \<Longrightarrow> st1 = st"
    using step by (auto simp: block_continues_def fenced_code_continues_def Let_def split: if_splits prod.splits)
  show "good st1 \<and> parent_at st1 child = Some container \<and> openly st1 container \<and> kind_at st1 container = kind_at st container"
  proof (cases "st1 = st")
    case False
    then have "kind_at st child \<noteq> K_Paragraph \<and> (st1 = close_block child st \<or> st1 = (close_block child st)\<lparr>bs_consumed := True\<rparr>)"
      using step by (auto simp: block_continues_def fenced_code_continues_def Let_def split: if_splits prod.splits)
    then show ?thesis using close [of st1] by auto
  qed (use good container facts(2) in simp)
qed

text \<open>The walk down ends at a container that is openly in the tree, and is no paragraph unless it matched.\<close>

fun descent_good :: "descent option \<Rightarrow> bool" where
  "descent_good None \<longleftrightarrow> False"
| "descent_good (Some (Line_Done st)) \<longleftrightarrow> good st"
| "descent_good (Some (Walked container matched s st)) \<longleftrightarrow>
     good st \<and> openly st container \<and> (\<not> matched \<longrightarrow> kind_at st container \<noteq> K_Paragraph)"

lemma descend_good:
  "good st \<Longrightarrow> openly st container \<Longrightarrow> arena_size st < fuel + container \<Longrightarrow> descent_good (descend fuel container s st)"
proof (induction fuel container s st rule: descend.induct)
  case (1 container s st)
  then show ?case using openly_size [OF goodD(1) [OF "1.prems"(1)] "1.prems"(2)] by simp
next
  case (2 fuel container s st)
  show ?case
  proof (cases "open_child st container")
    case (Some child)
    note facts = open_child_facts [OF goodD(1) [OF "2.prems"(1)] "2.prems"(2) Some]
    obtain matched s1 st1 where step: "block_continues child s st = (matched, s1, st1)" by (rule prod_cases3)
    note kept = block_continues_good [OF "2.prems"(1,2) Some step]
    show ?thesis
    proof (cases matched)
      case True
      have "st1 = st" by (rule kept(1) [OF True])
      then have "descent_good (descend fuel child s1 st1)"
        using "2.prems" facts by (intro "2.IH" [OF Some step [symmetric] refl True]) simp_all
      then show ?thesis using Some step True by simp
    next
      case False
      have "kind_at st1 container \<noteq> K_Paragraph" using facts(5) kept(2) by (auto simp: may_hold_def)
      then show ?thesis using Some step False kept(2) by simp
    qed
  qed (use "2.prems" in simp)
qed

lemma unmatched_line_good:
  assumes good: "good st" and container: "openly st container" "kind_at st container \<noteq> K_Paragraph"
  shows "\<exists>st'. unmatched_line container s st = Some st' \<and> good st'"
proof (cases "in_paragraph st \<and> \<not> is_blank (sc_rest s) \<and> starts_no_block s")
  case True
  then have "bs_tip st \<noteq> 0" using tip_not_document goodD(1) [OF good] by (simp add: in_paragraph_def)
  then show ?thesis using True add_text_good [OF good goodD(2) [OF good]] by (simp add: unmatched_line_def)
next
  case False
  have "\<exists>st1. close_while (arena_size st) (\<lambda>st'. bs_tip st' \<noteq> container \<and> bs_tip st' \<noteq> 0) st = Some st1 \<and>
      good st1 \<and> grows st st1 \<and> \<not> (bs_tip st1 \<noteq> container \<and> bs_tip st1 \<noteq> 0)"
    using goodD(3) [OF good] by (intro close_while_good [OF good]) simp_all
  then obtain st1 where st1: "close_while (arena_size st) (\<lambda>st'. bs_tip st' \<noteq> container \<and> bs_tip st' \<noteq> 0) st = Some st1"
      "good st1" "grows st st1"
    by blast
  have "kind_at st1 container = kind_at st container"
    using growsD(3) [OF st1(3)] openly_size [OF goodD(1) [OF good] container(1)] .
  then show ?thesis
    using False st1(1) open_new_blocks_good [OF st1(2)] container(2) by (auto simp: unmatched_line_def)
qed

lemma matched_line_good:
  assumes good: "good st" and container: "openly st container"
  shows "\<exists>st'. matched_line container s st = Some st' \<and> good st'"
proof -
  have tip: "good (set_tip container st)"
    by (rule good_nodes [of _ st]) (use goodD(1) [OF good] container in simp_all)
  have "container \<noteq> 0" if "accepts_lines (kind_at st container)"
    using that arena_root [OF goodD(1) [OF good]] by (metis accepts_lines_def insert_iff empty_iff md_kind.distinct)
  then show ?thesis
    using add_text_good [OF tip] openly_nodes [OF _ goodD(1) [OF good] container, of "set_tip container st"]
      open_new_blocks_good [OF tip]
    by (auto simp: matched_line_def Let_def)
qed

lemma handle_line_good:
  assumes "good st"
  shows "\<exists>st'. handle_line raw st = Some st' \<and> good st'"
proof -
  let ?st = "st\<lparr>bs_consumed := False\<rparr>"
  have good: "good ?st" by (rule good_nodes [of _ st]) (use goodD [OF assms] in simp_all)
  have "descent_good (descend (Suc (arena_size ?st)) 0 (scan_line raw) ?st)"
    by (rule descend_good [OF good openly.root]) simp
  then show ?thesis
    using matched_line_good unmatched_line_good
    by (cases "descend (Suc (arena_size ?st)) 0 (scan_line raw) ?st" rule: descent_good.cases)
      (simp_all add: handle_line_def del: descend.simps)
qed

lemma handle_lines_good: "good st \<Longrightarrow> \<exists>st'. handle_lines lines st = Some st' \<and> good st'"
proof (induction lines arbitrary: st)
  case (Cons line lines)
  then show ?case using handle_line_good [OF Cons.prems, of line] by auto
qed simp

lemma close_tips_good: "good st \<Longrightarrow> bs_tip st < fuel \<Longrightarrow> \<exists>st'. close_tips fuel st = Some st' \<and> good st'"
proof (induction fuel arbitrary: st)
  case (Suc fuel)
  then show ?case using close_tip [OF Suc.prems(1)] Suc.IH [of "close_block (bs_tip st) st"] by (auto simp: Let_def)
qed simp

section \<open>Closing what is left\<close>

text \<open>
  While the blocks below the document are closed only rows and cells are added, so how deep the walk
  still goes is bounded by the nodes the lines made and the two levels of a table.
\<close>

definition bounded :: "nat \<Rightarrow> block_state \<Rightarrow> bool" where
  "bounded bound st \<longleftrightarrow> (\<forall>m < arena_size st. kind_at st m \<noteq> K_Table_Row \<and> kind_at st m \<noteq> K_Table_Cell \<longrightarrow> m < bound)"

definition rank :: "nat \<Rightarrow> block_state \<Rightarrow> nat \<Rightarrow> nat" where
  "rank bound st m = (if kind_at st m = K_Table_Cell then 1 else if kind_at st m = K_Table_Row then 2 else bound + 3 - m)"

lemma bounded_grows:
  assumes "bounded bound st" and "grows st st'"
  shows "bounded bound st'" "m < arena_size st \<Longrightarrow> rank bound st' m = rank bound st m"
proof -
  show "bounded bound st'"
    unfolding bounded_def
  proof (intro allI impI)
    fix m assume "m < arena_size st'" "kind_at st' m \<noteq> K_Table_Row \<and> kind_at st' m \<noteq> K_Table_Cell"
    then show "m < bound"
      using assms(1) growsD(3,4) [OF assms(2), of m] by (cases "m < arena_size st") (auto simp: bounded_def)
  qed
  show "m < arena_size st \<Longrightarrow> rank bound st' m = rank bound st m" using growsD(3) [OF assms(2)] by (simp add: rank_def)
qed

lemma rank_child:
  assumes ok: "arena_ok st" and bounded: "bounded bound st" and n: "n < arena_size st" and c: "c \<in> set (children_at st n)"
  shows "rank bound st c < rank bound st n"
proof -
  have child: "c < arena_size st" "n < c" "may_hold (kind_at st n) (kind_at st c)"
    using arena_child [OF ok n c] by simp_all
  have "kind_at st n \<noteq> K_Table_Cell" "kind_at st n = K_Table_Row \<Longrightarrow> kind_at st c = K_Table_Cell"
    using child(3) by (auto simp: may_hold_def)
  moreover have "kind_at st n \<noteq> K_Table_Row \<Longrightarrow> kind_at st n \<noteq> K_Table_Cell \<Longrightarrow> n < bound"
    using bounded n by (simp add: bounded_def)
  moreover have "kind_at st c \<noteq> K_Table_Row \<Longrightarrow> kind_at st c \<noteq> K_Table_Cell \<Longrightarrow> c < bound"
    using bounded child(1) by (simp add: bounded_def)
  ultimately show ?thesis using child(2) by (auto simp: rank_def)
qed

lemma close_remaining_children:
  assumes step: "\<And>c st. arena_ok st \<Longrightarrow> bounded bound st \<Longrightarrow> c < arena_size st \<Longrightarrow> rank bound st c \<le> fuel \<Longrightarrow>
      \<exists>st'. close_remaining fuel c st = Some st' \<and> grows st st'"
  shows "arena_ok st \<Longrightarrow> bounded bound st \<Longrightarrow> (\<And>c. c \<in> set cs \<Longrightarrow> c < arena_size st \<and> rank bound st c \<le> fuel) \<Longrightarrow>
    \<exists>st'. fold (\<lambda>c walked. Option.bind walked (close_remaining fuel c)) cs (Some st) = Some st' \<and> grows st st'"
proof (induction cs arbitrary: st)
  case (Cons c cs)
  obtain st1 where st1: "close_remaining fuel c st = Some st1" "grows st st1"
    using step [OF Cons.prems(1,2)] Cons.prems(3) [of c] by auto
  note kept = bounded_grows [OF Cons.prems(2) st1(2)]
  have "d < arena_size st1 \<and> rank bound st1 d \<le> fuel" if "d \<in> set cs" for d
    using Cons.prems(3) [of d] that kept(2) [of d] growsD(2) [OF st1(2)] by simp
  then obtain st2 where "fold (\<lambda>c walked. Option.bind walked (close_remaining fuel c)) cs (Some st1) = Some st2" "grows st1 st2"
    using Cons.IH [OF growsD(1) [OF st1(2)] kept(1)] by blast
  then show ?case using st1(1) grows_trans [OF st1(2)] by simp
qed (simp add: grows_refl)

lemma close_remaining_grows:
  "arena_ok st \<Longrightarrow> bounded bound st \<Longrightarrow> n < arena_size st \<Longrightarrow> rank bound st n \<le> fuel \<Longrightarrow>
   \<exists>st'. close_remaining fuel n st = Some st' \<and> grows st st'"
proof (induction fuel arbitrary: n st)
  case 0
  have "0 < rank bound st n" using "0.prems"(2,3) by (auto simp: rank_def bounded_def)
  then show ?case using "0.prems"(4) by simp
next
  case (Suc fuel)
  have children: "c < arena_size st \<and> rank bound st c \<le> fuel" if "c \<in> set (children_at st n)" for c
    using rank_child [OF Suc.prems(1-3) that] arena_child [OF Suc.prems(1,3) that] Suc.prems(4) by simp
  have "\<exists>st1. fold (\<lambda>c walked. Option.bind walked (close_remaining fuel c)) (children_at st n) (Some st) = Some st1 \<and> grows st st1"
    by (rule close_remaining_children [OF Suc.IH Suc.prems(1,2) children])
  then obtain st1 where st1: "fold (\<lambda>c walked. Option.bind walked (close_remaining fuel c)) (children_at st n) (Some st) = Some st1"
    "grows st st1" by blast
  have "grows st1 (change_node 0 (\<lambda>b. b\<lparr>b_open := False\<rparr>) st1)"
    using quiet_ok [OF growsD(1) [OF st1(2)], of "\<lambda>b. b\<lparr>b_open := False\<rparr>" 0]
    by (simp add: grows_def quiet_def node_of_change)
  moreover have "grows st1 (close_block n st1)"
    using close_block_grows [OF growsD(1) [OF st1(2)]] Suc.prems(3) growsD(2) [OF st1(2)] by simp
  ultimately show ?case
    using st1(1) grows_trans [OF st1(2)] by auto
qed

text \<open>The parser always ends, with its nodes linked into a tree.\<close>

lemma parse_blocks_ok: "\<exists>st. parse_blocks input = Some st \<and> arena_ok st"
proof -
  have "arena_ok start_state" by (rule arena_okI) (simp_all add: start_state_def node_of_def new_block_def)
  then have "good start_state" using openly.root by (simp add: good_def start_state_def)
  then obtain st1 where st1: "handle_lines (split_lines input) start_state = Some st1" "good st1"
    using handle_lines_good by blast
  obtain st2 where st2: "close_tips (Suc (arena_size st1)) st1 = Some st2" "good st2"
    using close_tips_good [OF st1(2), of "Suc (arena_size st1)"] goodD(3) [OF st1(2)] by auto
  have "\<exists>st3. close_remaining (arena_size st2 + 4) 0 st2 = Some st3 \<and> grows st2 st3"
    using goodD(1) [OF st2(2)] arena_root [OF goodD(1) [OF st2(2)]]
    by (intro close_remaining_grows [of _ "arena_size st2"]) (simp_all add: bounded_def rank_def)
  then show ?thesis using st1(1) st2(1) growsD(1) by (auto simp: parse_blocks_def simp del: close_tips.simps)
qed

text \<open>
  C26. Every input, however malformed, is parsed into blocks: each loop of the parser ends within its
  bound (the descent, the closing of the tip, the walk to an ancestor, the nested containers, the blocks
  left at the end) and no null pointer is followed.
\<close>

theorem block_parsing_ends: "parse_blocks input \<noteq> None"
  using parse_blocks_ok [of input] by auto

section \<open>The shape of the tree\<close>

fun well_shaped :: "md_node \<Rightarrow> bool" where
  "well_shaped (Md_Node kind data nodes) \<longleftrightarrow> (\<forall>node \<in> set nodes. may_hold kind (md_kind node) \<and> well_shaped node)"

lemma md_kind_tree_of: "md_kind (tree_of (Suc fuel) st n) = kind_at st n"
  by simp

lemma tree_of_well_shaped:
  assumes "arena_ok st"
  shows "n < arena_size st \<Longrightarrow> arena_size st \<le> fuel + n \<Longrightarrow> well_shaped (tree_of fuel st n)"
proof (induction fuel arbitrary: n)
  case (Suc fuel)
  have "may_hold (kind_at st n) (md_kind (tree_of fuel st c)) \<and> well_shaped (tree_of fuel st c)"
    if "c \<in> set (children_at st n)" for c
  proof -
    have child: "c < arena_size st" "n < c" "may_hold (kind_at st n) (kind_at st c)"
      using arena_child [OF assms Suc.prems(1) that] by simp_all
    then have "0 < fuel" using Suc.prems by simp
    then have "md_kind (tree_of fuel st c) = kind_at st c" by (cases fuel) simp_all
    then show ?thesis using child Suc.IH [of c] Suc.prems by simp
  qed
  then show ?case by simp
qed simp

text \<open>
  C16. The block tree of every input is a document in which each block stands where it may: quotes, items
  and the document hold blocks, a list holds items only, a table holds rows and a row cells, a definition
  list holds terms and details (and what lands in it), and no other block has children.
\<close>

theorem block_tree_well_shaped:
  "\<exists>tree. block_tree input = Some tree \<and> md_kind tree = K_Document \<and> well_shaped tree"
proof -
  obtain st where st: "parse_blocks input = Some st" "arena_ok st"
    using parse_blocks_ok by blast
  note root = arena_root [OF st(2)]
  have "well_shaped (tree_of (arena_size st) st 0)" using tree_of_well_shaped [OF st(2)] root by simp
  moreover have "md_kind (tree_of (arena_size st) st 0) = K_Document" using root by (cases "arena_size st") simp_all
  ultimately show ?thesis using st(1) by (simp add: block_tree_def)
qed

end
