(* ===== verification/BlockExamples.thy ===== *)
theory BlockExamples
  imports BlockProps
begin

text \<open>
  What the block parser makes of whole documents: a fenced code block keeps its lines as they are, and
  four documents whose blocks land outside the block they are written in.
\<close>

section \<open>The lines of a document\<close>

abbreviation newline :: char where
  "newline \<equiv> CHR 0x0A"

definition plain_line :: "string \<Rightarrow> bool" where
  "plain_line line \<longleftrightarrow> newline \<notin> set line \<and> (line = [] \<or> last line \<noteq> CHR 0x0D)"

definition document_of :: "string list \<Rightarrow> string" where
  "document_of lines = concat (map (\<lambda>line. line @ [newline]) lines)"

lemma find_pos_append: "\<forall>x \<in> set xs. \<not> P x \<Longrightarrow> P y \<Longrightarrow> find_pos P (xs @ y # ys) = Some (length xs)"
  by (induction xs) simp_all

lemma split_document: "\<forall>line \<in> set lines. plain_line line \<Longrightarrow> split_lines (document_of lines) = lines"
proof (induction lines)
  case Nil
  then show ?case by (simp add: document_of_def split_lines.simps)
next
  case (Cons line lines)
  have "find_pos (\<lambda>c. c = newline) (line @ newline # document_of lines) = Some (length line)"
    using Cons.prems by (intro find_pos_append) (auto simp: plain_line_def)
  moreover have "document_of (line # lines) = line @ newline # document_of lines" by (simp add: document_of_def)
  ultimately show ?case
    using Cons by (subst split_lines.simps) (auto simp: strip_cr_def plain_line_def)
qed

section \<open>Fenced code\<close>

definition fence_closes :: "fence_match \<Rightarrow> string \<Rightarrow> bool" where
  "fence_closes fence line \<longleftrightarrow>
     (let (indent, s) = skip_spaces_to 3 (scan_line line)
      in indent \<le> 3 \<and> matches_closing_fence (sc_rest s) (fm_character fence) (fm_length fence))"

text \<open>The parser inside a code block that is the only block of the document.\<close>

definition code_state :: "fence_match \<Rightarrow> string \<Rightarrow> block_state" where
  "code_state fence content =
     start_state\<lparr>bs_nodes := [(new_block K_Document)\<lparr>b_children := [1]\<rparr>,
        (fence_block fence 0)\<lparr>b_parent := Some 0, b_content := content\<rparr>], bs_tip := 1\<rparr>"

definition closed_code_state :: "fence_match \<Rightarrow> string \<Rightarrow> block_state" where
  "closed_code_state fence content =
     start_state\<lparr>bs_nodes := [(new_block K_Document)\<lparr>b_children := [1]\<rparr>,
        (fence_block fence 0)\<lparr>b_parent := Some 0, f_literal := content, b_open := False\<rparr>], bs_tip := 0, bs_consumed := True\<rparr>"

lemma skip_nothing: "skip_spaces_to 0 s = (0, s)"
  by (simp add: skip_spaces_to_def skip_from.simps)

lemma skip_no_blank: "\<not> sc_at_blank s \<Longrightarrow> skip_spaces_to limit s = (0, s)"
  by (simp add: skip_spaces_to_def skip_from.simps)

lemma scan_rest [simp]: "sc_rest (scan_line line) = line"
  by (simp add: sc_rest_def scan_line_def)

lemma code_state_simps [simp]:
  "arena_size (code_state fence content) = 2" "bs_tip (code_state fence content) = 1"
  "node_of (code_state fence content) 0 = (new_block K_Document)\<lparr>b_children := [1]\<rparr>"
  "node_of (code_state fence content) (Suc 0) = (fence_block fence 0)\<lparr>b_parent := Some 0, b_content := content\<rparr>"
  "(code_state fence content)\<lparr>bs_consumed := False\<rparr> = code_state fence content"
  by (simp_all add: code_state_def start_state_def node_of_def)

lemma fence_block_simps [simp]:
  "b_kind (fence_block fence n) = K_Code_Block" "b_open (fence_block fence n)" "b_fenced (fence_block fence n)"
  "b_fence_char (fence_block fence n) = fm_character fence" "b_fence_length (fence_block fence n) = fm_length fence"
  "b_fence_offset (fence_block fence n) = n" "b_children (fence_block fence n) = []" "b_content (fence_block fence n) = []"
  "b_parent (fence_block fence n) = None"
  by (simp_all add: fence_block_def new_block_def)

lemma trim_keeps_first: "\<not> is_space c \<Longrightarrow> \<exists>rest'. trim (c # rest) = c # rest'"
proof -
  assume c: "\<not> is_space c"
  then have "trim (c # rest) = trim_end (c # rest)" by (simp add: trim_def trim_start_def)
  moreover obtain i where "find_last_pos (\<lambda>c. \<not> is_space c) (c # rest) = Some i"
    using c by (cases "find_last_pos (\<lambda>c. \<not> is_space c) (c # rest)") (auto split: option.splits)
  ultimately show ?thesis by (simp add: trim_end_def)
qed

lemma open_fence_line:
  assumes "match_code_fence first = Some fence"
  shows "handle_line first start_state = Some (code_state fence [])"
proof -
  obtain c rest where head: "first = c # rest" "c = CHR 0x60 \<or> c = CHR ''~''"
    using assms by (auto simp: match_code_fence_def split: list.splits if_splits)
  have unblank: "\<not> sc_at_blank (scan_line first)"
    using head by (auto simp: sc_at_blank_def sc_peek_def scan_line_def is_space_or_tab_def)
  have "\<exists>rest'. trim first = c # rest'"
    unfolding head(1) using head(2) by (intro trim_keeps_first) (auto simp: is_space_def whitespace_def)
  then have shortcode: "match_shortcode first = None"
    using head(2) by (auto simp: match_shortcode_def)
  have heading: "match_atx_heading first = None"
    using head by (auto simp: match_atx_heading_def Let_def)
  have kind: "\<not> in_paragraph (set_tip 0 (start_state\<lparr>bs_consumed := False\<rparr>))"
    by (simp add: in_paragraph_def tip_kind_def start_state_def node_of_def)
  then have closed: "close_paragraph (set_tip 0 (start_state\<lparr>bs_consumed := False\<rparr>)) = set_tip 0 (start_state\<lparr>bs_consumed := False\<rparr>)"
    by (simp add: close_paragraph_def)
  have add: "add_child (fence_block fence 0) (set_tip 0 (start_state\<lparr>bs_consumed := False\<rparr>)) = Some (code_state fence [])"
    by (simp add: add_child_def loosen_for_def start_state_def node_of_def tip_kind_def holds_no_blocks_def
        append_new_def change_node_def set_tip_def code_state_def Let_def)
  have turn: "open_turn (scan_line first) (set_tip 0 (start_state\<lparr>bs_consumed := False\<rparr>)) = Some (Opened (code_state fence []))"
    using assms head shortcode heading kind closed add
    by (simp add: open_turn_def skip_no_blank [OF unblank, unfolded head(1)] code_indent_def) auto
  have loop: "open_loop max_nesting (scan_line first) (set_tip 0 (start_state\<lparr>bs_consumed := False\<rparr>)) = Some (Opened (code_state fence []))"
    using turn by (simp add: max_nesting_def numeral_eq_Suc)
  have "open_child (start_state\<lparr>bs_consumed := False\<rparr>) 0 = None"
    by (simp add: open_child_def start_state_def node_of_def)
  then show ?thesis
    using loop by (simp add: handle_line_def matched_line_def open_new_blocks_def accepts_lines_def start_state_def node_of_def)
qed

lemma code_child: "open_child (code_state fence content) 0 = Some 1" "open_child (code_state fence content) 1 = None"
  by (simp_all add: open_child_def)

lemma code_line:
  assumes "\<not> fence_closes fence line"
  shows "handle_line line (code_state fence content) = Some (code_state fence (content @ line @ [newline]))"
proof -
  have "block_continues 1 (scan_line line) (code_state fence content) = (True, scan_line line, code_state fence content)"
    using assms by (auto simp: block_continues_def fenced_code_continues_def fence_closes_def skip_nothing Let_def split: prod.splits)
  moreover have "add_text 1 line (set_tip 1 (code_state fence content)) = code_state fence (content @ line @ [newline])"
    by (simp add: add_text_def change_node_def code_state_def set_tip_def start_state_def node_of_def)
  ultimately show ?thesis
    using code_child by (simp add: handle_line_def matched_line_def accepts_lines_def numeral_eq_Suc)
qed

lemma closing_line:
  assumes "fence_closes fence line"
  shows "handle_line line (code_state fence content) = Some (closed_code_state fence content)"
proof -
  have shut: "(close_block 1 (code_state fence content))\<lparr>bs_consumed := True\<rparr> = closed_code_state fence content"
    by (simp add: close_block_def finalize_block_def finalize_code_def code_state_def closed_code_state_def change_node_def
        set_tip_def start_state_def node_of_def parent_or_document_def fence_block_def new_block_def)
  then obtain s1 where "block_continues 1 (scan_line line) (code_state fence content) = (False, s1, closed_code_state fence content)"
    using assms by (auto simp: block_continues_def fenced_code_continues_def fence_closes_def Let_def split: prod.splits)
  moreover have "bs_consumed (closed_code_state fence content)" by (simp add: closed_code_state_def)
  ultimately show ?thesis using code_child by (simp add: handle_line_def)
qed

lemma code_lines:
  "\<forall>line \<in> set code. \<not> fence_closes fence line \<Longrightarrow>
   handle_lines (code @ rest) (code_state fence content) = handle_lines rest (code_state fence (content @ document_of code))"
  by (induction code arbitrary: content) (simp_all add: code_line document_of_def)

lemma close_code_document:
  "close_tips (Suc (arena_size (closed_code_state fence content))) (closed_code_state fence content)
     = Some (closed_code_state fence content)"
  "close_remaining (arena_size (closed_code_state fence content) + 4) 0 (closed_code_state fence content)
     = Some (change_node 0 (\<lambda>b. b\<lparr>b_open := False\<rparr>) (closed_code_state fence content))"
  by (simp_all add: closed_code_state_def start_state_def node_of_def close_block_def numeral_eq_Suc)

text \<open>
  C27. A document that is one fenced code block has that one block, with the lines between the fences as
  they are, every space and marker kept: they are not read as Markdown.
\<close>

theorem fenced_code_kept:
  assumes "match_code_fence first = Some fence" and "plain_line first"
    and "\<forall>line \<in> set code. plain_line line \<and> \<not> fence_closes fence line"
    and "fence_closes fence closing" and "plain_line closing"
  shows "\<exists>root data. block_tree (document_of (first # code @ [closing])) = Some (Md_Node K_Document root [Md_Node K_Code_Block data []]) \<and>
    f_literal data = document_of code \<and> f_info data = unescape_string (fm_info fence)"
proof -
  let ?st = "change_node 0 (\<lambda>b. b\<lparr>b_open := False\<rparr>) (closed_code_state fence (document_of code))"
  have "split_lines (document_of (first # code @ [closing])) = first # code @ [closing]"
    using assms(2,3,5) by (intro split_document) auto
  moreover have "handle_lines (first # code @ [closing]) start_state = Some (closed_code_state fence (document_of code))"
    using code_lines [of code fence "[closing]" "[]"] assms(3) open_fence_line [OF assms(1)] closing_line [OF assms(4)] by simp
  ultimately have "parse_blocks (document_of (first # code @ [closing])) = Some ?st"
    using close_code_document [of fence "document_of code"] by (simp add: parse_blocks_def)
  then have "block_tree (document_of (first # code @ [closing])) = Some (tree_of (arena_size ?st) ?st 0)"
    by (simp add: block_tree_def)
  then show ?thesis
    by (simp add: closed_code_state_def start_state_def change_node_def node_of_def numeral_eq_Suc fence_block_def md_fields.defs)
qed

lemma fence_samples:
  "match_code_fence ''```ruby'' = Some \<lparr>fm_character = CHR 0x60, fm_length = 3, fm_info = ''ruby''\<rparr>"
  "plain_line ''```ruby''" "plain_line ''# x''" "plain_line ''  - y''" "plain_line ''```''"
  "\<not> fence_closes \<lparr>fm_character = CHR 0x60, fm_length = 3, fm_info = ''ruby''\<rparr> ''# x''"
  "\<not> fence_closes \<lparr>fm_character = CHR 0x60, fm_length = 3, fm_info = ''ruby''\<rparr> ''  - y''"
  "fence_closes \<lparr>fm_character = CHR 0x60, fm_length = 3, fm_info = ''ruby''\<rparr> ''```''"
  by code_simp+

theorem fenced_code_kept_witness:
  "\<exists>root data. block_tree (document_of (''```ruby'' # [''# x'', ''  - y''] @ [''```''])) =
     Some (Md_Node K_Document root [Md_Node K_Code_Block data []]) \<and>
   f_literal data = document_of [''# x'', ''  - y''] \<and> f_info data = unescape_string ''ruby''"
  using fenced_code_kept [of "''```ruby''" "\<lparr>fm_character = CHR 0x60, fm_length = 3, fm_info = ''ruby''\<rparr>" "[''# x'', ''  - y'']" "''```''"]
    fence_samples by simp

section \<open>Blocks that land outside\<close>

text \<open>The kinds on the way to each block below the document.\<close>

fun outline :: "md_node \<Rightarrow> md_kind list list" where
  "outline (Md_Node kind data nodes) = [kind] # map ((#) kind) (concat (map outline nodes))"

definition outline_of :: "string list \<Rightarrow> md_kind list list" where
  "outline_of lines = (case block_tree (document_of lines) of None \<Rightarrow> [] | Some tree \<Rightarrow> map tl (tl (outline tree)))"

lemma table_leaves_item:
  "outline_of [''- a | b'', ''  --|--'', ''  1 | 2''] =
     [[K_List], [K_List, K_Item], [K_Table],
      [K_Table, K_Table_Row], [K_Table, K_Table_Row, K_Table_Cell], [K_Table, K_Table_Row, K_Table_Cell],
      [K_Table, K_Table_Row], [K_Table, K_Table_Row, K_Table_Cell], [K_Table, K_Table_Row, K_Table_Cell]]"
  by code_simp

lemma definitions_leave_quote:
  "outline_of [''> a'', ''> : b''] =
     [[K_Block_Quote], [K_Definition_List], [K_Definition_List, K_Definition_Term], [K_Definition_List, K_Definition_Detail]]"
  by code_simp

lemma heading_after_reference_leaves_quote:
  "outline_of [''> [a]: /b'', ''> # H''] = [[K_Block_Quote], [K_Heading]]"
  by code_simp

lemma heading_enters_definition_list:
  "outline_of [''a'', '': b'', ''# H''] =
     [[K_Definition_List], [K_Definition_List, K_Definition_Term], [K_Definition_List, K_Definition_Detail],
      [K_Definition_List, K_Heading]]"
  by code_simp

end
