(* ===== verification/Inlines.thy ===== *)
theory Inlines
  imports Attributes LinkDefinitions "HOL-Library.Monad_Syntax"
begin

text \<open>
  The inline half of the Markdown parser (\<open>markdown_inline.cpp\<close>, the class \<open>InlineParser\<close>): what a
  paragraph, a heading, a cell, a term or a detail holds. The input is fixed and the position is an
  index into it. A slot of \<open>nodes_\<close> is \<open>None\<close> where the code writes a null pointer. \<open>None\<close> for the
  state is the attribute block that never ends (\<open>attribute_block_ends\<close>).
\<close>

section \<open>The state\<close>

record delimiter =
  d_character :: char
  d_count :: nat
  d_original :: nat
  d_can_open :: bool
  d_can_close :: bool
  d_active :: bool
  d_index :: nat

record bracket =
  k_position :: nat
  k_delimiters :: nat
  k_image :: bool
  k_active :: bool

record inline_state =
  i_position :: nat
  i_pending :: string
  i_nodes :: "md_node option list"
  i_delimiters :: "delimiter list"
  i_brackets :: "bracket list"

definition no_fields :: md_fields where
  "no_fields =
     \<lparr>f_level = 0, f_literal = [], f_info = [], f_url = [], f_title = [], f_ordered = False, f_tight = True,
      f_start = 1, f_task = False, f_checked = False, f_header = False, f_alignment = Align_None,
      f_attributes = [], f_label = [], f_number = 0, f_occurrence = 1, f_display = False, f_raw = []\<rparr>"

definition literal_node :: "md_kind \<Rightarrow> string \<Rightarrow> md_node" where
  "literal_node kind literal = Md_Node kind (no_fields\<lparr>f_literal := literal\<rparr>) []"

definition bare_node :: "md_kind \<Rightarrow> md_node" where
  "bare_node kind = Md_Node kind no_fields []"

definition put_node :: "md_node \<Rightarrow> inline_state \<Rightarrow> inline_state" where
  "put_node node st = st\<lparr>i_nodes := i_nodes st @ [Some node]\<rparr>"

definition flush_text :: "inline_state \<Rightarrow> inline_state" where
  "flush_text st =
     (if i_pending st = [] then st else put_node (literal_node K_Text (i_pending st)) (st\<lparr>i_pending := []\<rparr>))"

definition emit_node :: "md_node \<Rightarrow> inline_state \<Rightarrow> inline_state" where
  "emit_node node st = put_node node (flush_text st)"

text \<open>\<open>pending_ += text; position_ += n\<close>.\<close>

definition take_text :: "string \<Rightarrow> nat \<Rightarrow> inline_state \<Rightarrow> inline_state" where
  "take_text literal n st = st\<lparr>i_pending := i_pending st @ literal, i_position := i_position st + n\<rparr>"

definition move_by :: "nat \<Rightarrow> inline_state \<Rightarrow> inline_state" where
  "move_by n st = st\<lparr>i_position := i_position st + n\<rparr>"

definition char_ahead :: "string \<Rightarrow> nat \<Rightarrow> char" where
  "char_ahead rest n = (if n < length rest then rest ! n else CHR 0x00)"

section \<open>Text, breaks and entities\<close>

definition handle_backslash :: "string \<Rightarrow> inline_state \<Rightarrow> inline_state" where
  "handle_backslash rest st =
     (let c = char_ahead rest 1 in
      if c = CHR 0x0A then move_by 2 (put_node (bare_node K_Line_Break) (flush_text st))
      else if is_punctuation c then take_text [c] 2 st
      else take_text [CHR 0x5C] 1 st)"

definition handle_newline :: "string \<Rightarrow> inline_state \<Rightarrow> inline_state" where
  "handle_newline rest st =
     (let trailing = length (takeWhile (\<lambda>c. c = CHR '' '') (rev (i_pending st)));
          st1 = flush_text (st\<lparr>i_pending := take (length (i_pending st) - trailing) (i_pending st)\<rparr>);
          st2 = put_node (bare_node (if 2 \<le> trailing then K_Line_Break else K_Soft_Break)) st1
      in move_by (Suc (length (takeWhile is_space_or_tab (tl rest)))) st2)"

definition handle_entity :: "string \<Rightarrow> inline_state \<Rightarrow> inline_state" where
  "handle_entity rest st =
     (case decode_entity rest of
        Some (n, decoded) \<Rightarrow> take_text decoded n st
      | None \<Rightarrow> take_text ''&'' 1 st)"

section \<open>Code spans\<close>

text \<open>The offset of the next run of exactly \<open>n\<close> backticks in a text, if there is one.\<close>

definition backticks :: "string \<Rightarrow> nat" where
  "backticks s = length (takeWhile (\<lambda>c. c = CHR 0x60) s)"

function find_backticks :: "nat \<Rightarrow> string \<Rightarrow> nat option" where
  "find_backticks n s =
     (case s of
        [] \<Rightarrow> None
      | c # rest \<Rightarrow>
          if c \<noteq> CHR 0x60 then map_option Suc (find_backticks n rest)
          else if backticks s = n then Some 0
          else map_option (\<lambda>k. backticks s + k) (find_backticks n (drop (backticks s) s)))"
  by pat_completeness auto
termination
  by (relation "measure (\<lambda>(n, s). length s)") (auto simp: backticks_def)

declare find_backticks.simps [simp del]

definition code_span_text :: "string \<Rightarrow> string" where
  "code_span_text body =
     (let content = map (\<lambda>c. if c = CHR 0x0A then CHR '' '' else c) body in
      if 2 \<le> length content \<and> hd content = CHR '' '' \<and> last content = CHR '' '' \<and> (\<exists>c \<in> set content. c \<noteq> CHR '' '')
      then butlast (tl content) else content)"

definition handle_code_span :: "string \<Rightarrow> inline_state \<Rightarrow> inline_state" where
  "handle_code_span rest st =
     (let n = backticks rest in
      case find_backticks n (drop n rest) of
        Some k \<Rightarrow> move_by (n + k + n) (emit_node (literal_node K_Code_Span (code_span_text (take k (drop n rest)))) st)
      | None \<Rightarrow> take_text (replicate n (CHR 0x60)) n st)"

section \<open>Autolinks and markup\<close>

definition scheme_character :: "char \<Rightarrow> bool" where
  "scheme_character c \<longleftrightarrow> is_letter c \<or> is_digit c \<or> c = CHR ''+'' \<or> c = CHR ''.'' \<or> c = CHR ''-''"

definition is_uri :: "string \<Rightarrow> bool" where
  "is_uri body \<longleftrightarrow>
     (case find_pos (\<lambda>c. c = CHR '':'') body of
        None \<Rightarrow> False
      | Some colon \<Rightarrow> 0 < colon \<and> colon \<le> 32 \<and> is_letter (hd body) \<and> list_all scheme_character (drop 1 (take colon body)))"

definition is_email :: "string \<Rightarrow> bool" where
  "is_email body \<longleftrightarrow>
     (case find_pos (\<lambda>c. c = CHR ''@'') body of
        None \<Rightarrow> False
      | Some at_sign \<Rightarrow>
          (let domain = drop (Suc at_sign) body in
           0 < at_sign \<and> domain \<noteq> [] \<and> CHR ''@'' \<notin> set domain \<and> CHR ''.'' \<in> set domain))"

text \<open>The node and the length of what it took, when there is one.\<close>

definition scan_autolink :: "string \<Rightarrow> (md_node \<times> nat) option" where
  "scan_autolink rest =
     (case find_pos (\<lambda>c. c = CHR ''>'') rest of
        None \<Rightarrow> None
      | Some closing \<Rightarrow>
          (let body = take (closing - 1) (tl rest) in
           if body = [] \<or> CHR '' '' \<in> set body \<or> CHR ''<'' \<in> set body then None
           else if \<not> is_uri body \<and> \<not> is_email body then None
           else
             Some (Md_Node K_Link (no_fields\<lparr>f_url := (if is_uri body then body else ''mailto:'' @ body)\<rparr>)
                     [literal_node K_Text body],
                   Suc closing)))"

text \<open>The end of the first \<open>closer\<close> at or after an offset.\<close>

definition end_of :: "string \<Rightarrow> string \<Rightarrow> nat \<Rightarrow> nat option" where
  "end_of closer rest from = map_option (\<lambda>n. n + from + length closer) (find_sub closer (drop from rest))"

definition raw_html_length :: "string \<Rightarrow> nat option" where
  "raw_html_length rest =
     (if length rest < 3 then None
      else if starts_with rest ''<!--'' then end_of ''-->'' rest 4
      else if starts_with rest ''<?'' then end_of ''?>'' rest 2
      else if starts_with rest ''<![CDATA['' then end_of '']]>'' rest 9
      else if rest ! 1 = CHR ''!'' \<and> is_letter (rest ! 2) then end_of ''>'' rest 2
      else if match_html_tag rest = 0 then None
      else Some (match_html_tag rest))"

definition scan_raw_html :: "string \<Rightarrow> (md_node \<times> nat) option" where
  "scan_raw_html rest = map_option (\<lambda>n. (literal_node K_Html_Inline (take n rest), n)) (raw_html_length rest)"

definition emit_scanned :: "md_node \<times> nat \<Rightarrow> inline_state \<Rightarrow> inline_state" where
  "emit_scanned scanned st = move_by (snd scanned) (emit_node (fst scanned) st)"

definition handle_angle :: "string \<Rightarrow> inline_state \<Rightarrow> inline_state" where
  "handle_angle rest st =
     (case scan_autolink rest of
        Some scanned \<Rightarrow> emit_scanned scanned st
      | None \<Rightarrow>
          (case scan_raw_html rest of
             Some scanned \<Rightarrow> emit_scanned scanned st
           | None \<Rightarrow> take_text ''<'' 1 st))"

section \<open>Footnote references and mathematics\<close>

definition scan_footnote_reference :: "string \<Rightarrow> (md_node \<times> nat) option" where
  "scan_footnote_reference rest =
     (let label = takeWhile footnote_character (drop 2 rest); after = dropWhile footnote_character (drop 2 rest) in
      if label = [] \<or> after = [] \<or> hd after \<noteq> CHR '']'' then None
      else Some (Md_Node K_Footnote_Ref (no_fields\<lparr>f_label := label\<rparr>) [], length label + 3))"

definition scan_math :: "string \<Rightarrow> (md_node \<times> nat) option" where
  "scan_math rest =
     (let c = char_ahead rest 1; display = (c = CHR ''$''); marker = (if display then 2 else 1) in
      if \<not> display \<and> (c = CHR 0x00 \<or> md_space c \<or> is_digit c) then None
      else
        (case find_sub (if display then ''$$'' else ''$'') (drop marker rest) of
           None \<Rightarrow> None
         | Some n \<Rightarrow>
             (let body = take n (drop marker rest) in
              if n = 0 \<or> find_sub [CHR 0x0A, CHR 0x0A] body \<noteq> None \<or> \<not> display \<and> md_space (last body) then None
              else Some (Md_Node K_Math (no_fields\<lparr>f_display := display, f_literal := body\<rparr>) [], marker + n + marker))))"

section \<open>Links and images\<close>

definition handle_open_bracket :: "bool \<Rightarrow> string \<Rightarrow> inline_state \<Rightarrow> inline_state" where
  "handle_open_bracket picture rest st =
     (let n = (if picture then 2 else 1); st1 = emit_node (literal_node K_Text (take n rest)) st in
      move_by n (st1\<lparr>i_brackets := i_brackets st1 @
        [\<lparr>k_position = length (i_nodes st1) - 1, k_delimiters = length (i_delimiters st1), k_image = picture, k_active = True\<rparr>]\<rparr>))"

text \<open>
  An angled destination reads as in a definition. A bare one counts its brackets.
\<close>

fun bare_link_destination :: "nat \<Rightarrow> string \<Rightarrow> string \<times> string" where
  "bare_link_destination depth [] = ([], [])"
| "bare_link_destination depth (c # rest) =
     (if escapes_punctuation (c # rest) then
        (case bare_link_destination depth (tl rest) of (body, after) \<Rightarrow> (hd rest # body, after))
      else if md_space c \<or> c = CHR '')'' \<and> depth = 0 then ([], c # rest)
      else
        (case bare_link_destination (if c = CHR ''('' then depth + 1 else if c = CHR '')'' then depth - 1 else depth) rest of
           (body, after) \<Rightarrow> (c # body, after)))"

definition link_destination :: "string \<Rightarrow> (string \<times> string) option" where
  "link_destination input =
     (if starts_with input ''<'' then closed_text (CHR ''>'') [CHR 0x0A, CHR ''<''] (tl input)
      else Some (bare_link_destination 0 input))"

text \<open>A title: up to its closer, which comes before an escape of it.\<close>

fun link_title_body :: "char \<Rightarrow> string \<Rightarrow> (string \<times> string) option" where
  "link_title_body closer [] = None"
| "link_title_body closer (c # rest) =
     (if c = closer then Some ([], rest)
      else if escapes_punctuation (c # rest) then
        map_option (\<lambda>(body, after). (hd rest # body, after)) (link_title_body closer (tl rest))
      else map_option (\<lambda>(body, after). (c # body, after)) (link_title_body closer rest))"

definition link_title :: "string \<Rightarrow> (string \<times> string) option" where
  "link_title input =
     (if input = [] \<or> hd input \<notin> {CHR 0x22, CHR 0x27, CHR ''(''} then Some ([], input)
      else link_title_body (if hd input = CHR ''('' then CHR '')'' else hd input) (tl input))"

text \<open>The url and title of an inline destination, and what follows it.\<close>

definition resolve_link :: "string \<Rightarrow> (string \<times> string \<times> string) option" where
  "resolve_link rest =
     (if \<not> starts_with rest ''('' then None
      else do {
        (destination, rest1) \<leftarrow> link_destination (dropWhile md_space (tl rest));
        (title, rest2) \<leftarrow> link_title (dropWhile md_space rest1);
        let rest3 = dropWhile md_space rest2;
        if starts_with rest3 '')'' then Some (unescape_string destination, unescape_string title, tl rest3) else None
      })"

definition lookup_reference :: "reference_map \<Rightarrow> string \<Rightarrow> (string \<times> string) option" where
  "lookup_reference references label = map_of references (normalize_label (unescape_string label))"

definition slot_text :: "md_node option \<Rightarrow> string" where
  "slot_text slot =
     (case slot of
        Some node \<Rightarrow> if md_kind node = K_Text \<or> md_kind node = K_Code_Span then f_literal (md_fields node) else []
      | None \<Rightarrow> [])"

definition collect_text :: "nat \<Rightarrow> inline_state \<Rightarrow> string" where
  "collect_text from st = concat (map slot_text (drop from (i_nodes st))) @ i_pending st"

text \<open>A label in brackets after the closing one, and what follows it; nothing is taken when there is none.\<close>

definition explicit_label :: "string \<Rightarrow> string \<times> string" where
  "explicit_label rest =
     (if starts_with rest ''['' then
        (case find_pos (\<lambda>c. c = CHR '']'') rest of
           None \<Rightarrow> ([], rest)
         | Some closing \<Rightarrow> (take (closing - 1) (tl rest), drop (Suc closing) rest))
      else ([], rest))"

definition link_target :: "reference_map \<Rightarrow> nat \<Rightarrow> string \<Rightarrow> inline_state \<Rightarrow> (string \<times> string \<times> string) option" where
  "link_target references text_start rest st =
     (case resolve_link rest of
        Some target \<Rightarrow> Some target
      | None \<Rightarrow>
          (case explicit_label rest of
             (label, after) \<Rightarrow>
               map_option (\<lambda>(url, title). (url, title, after))
                 (lookup_reference references (if label = [] then collect_text text_start st else label))))"

section \<open>Emphasis\<close>

definition handle_delimiter_run :: "string \<Rightarrow> char \<Rightarrow> inline_state \<Rightarrow> inline_state" where
  "handle_delimiter_run input c st =
     (let start = i_position st; run = takeWhile (\<lambda>d. d = c) (drop start input); stop = start + length run;
          behind = (if 0 < start then code_point_before input start else 0x0A);
          ahead = (if stop < length input then code_point_at input stop else 0x0A);
          left = (\<not> is_unicode_whitespace ahead \<and>
            (\<not> is_unicode_punctuation ahead \<or> is_unicode_whitespace behind \<or> is_unicode_punctuation behind));
          right = (\<not> is_unicode_whitespace behind \<and>
            (\<not> is_unicode_punctuation behind \<or> is_unicode_whitespace ahead \<or> is_unicode_punctuation ahead));
          mute = (c = CHR ''~'' \<and> 2 < length run);
          opens = (if c = CHR ''_'' then left \<and> (\<not> right \<or> is_unicode_punctuation behind) else left \<and> \<not> mute);
          closes = (if c = CHR ''_'' then right \<and> (\<not> left \<or> is_unicode_punctuation ahead) else right \<and> \<not> mute);
          st1 = put_node (literal_node K_Text run) (flush_text (st\<lparr>i_position := stop\<rparr>))
      in st1\<lparr>i_delimiters := i_delimiters st1 @
           [\<lparr>d_character = c, d_count = length run, d_original = length run, d_can_open = opens, d_can_close = closes,
             d_active = True, d_index = length (i_nodes st1) - 1\<rparr>]\<rparr>)"

definition tricky_pair :: "delimiter \<Rightarrow> delimiter \<Rightarrow> bool" where
  "tricky_pair opener closer \<longleftrightarrow>
     d_character closer \<noteq> CHR ''~'' \<and> (d_can_open closer \<or> d_can_close opener) \<and>
     (d_original closer + d_original opener) mod 3 = 0 \<and> (d_original closer mod 3 \<noteq> 0 \<or> d_original opener mod 3 \<noteq> 0)"

definition opens_for :: "delimiter \<Rightarrow> delimiter \<Rightarrow> bool" where
  "opens_for closer opener \<longleftrightarrow>
     d_active opener \<and> d_can_open opener \<and> d_character opener = d_character closer \<and> d_count opener \<noteq> 0 \<and>
     \<not> tricky_pair opener closer"

text \<open>The nearest opener of the delimiter at \<open>closer\<close>, not before \<open>floor\<close>.\<close>

fun find_opener :: "delimiter list \<Rightarrow> nat \<Rightarrow> nat \<Rightarrow> nat \<Rightarrow> nat option" where
  "find_opener delims floor closer 0 = None"
| "find_opener delims floor closer (Suc k) =
     (if k < floor then None
      else if opens_for (delims ! closer) (delims ! k) then Some k
      else find_opener delims floor closer k)"

text \<open>
  The node of a delimiter is the text in its slot, until a wrapper is written over it.
\<close>

definition trim_delimiter_node :: "delimiter \<Rightarrow> md_node option list \<Rightarrow> md_node option list" where
  "trim_delimiter_node d nodes =
     (if 0 < d_count d then
        (case nodes ! d_index d of
           Some node \<Rightarrow>
             if md_kind node = K_Text then nodes[d_index d := Some (literal_node K_Text (replicate (d_count d) (d_character d)))]
             else nodes
         | None \<Rightarrow> nodes)
      else nodes[d_index d := None])"

definition wrapper_kind :: "char \<Rightarrow> nat \<Rightarrow> md_kind" where
  "wrapper_kind c used = (if c = CHR ''~'' then K_Strikethrough else if used = 2 then K_Strong else K_Emphasis)"

definition between_slots :: "nat \<Rightarrow> nat \<Rightarrow> md_node option list \<Rightarrow> md_node option list" where
  "between_slots from to nodes = take (to - Suc from) (drop (Suc from) nodes)"

definition filled :: "md_node option list \<Rightarrow> md_node list" where
  "filled slots = map the (filter (\<lambda>slot. slot \<noteq> None) slots)"

text \<open>What lies between the pair moves into the wrapper, which takes a slot inside the pair.\<close>

definition wrap_nodes :: "delimiter \<Rightarrow> delimiter \<Rightarrow> nat \<Rightarrow> md_node option list \<Rightarrow> md_node option list" where
  "wrap_nodes opener closer used nodes =
     (let i = d_index opener; j = d_index closer;
          wrapper = Md_Node (wrapper_kind (d_character closer) used) no_fields (filled (between_slots i j nodes));
          emptied = take (Suc i) nodes @ replicate (length (between_slots i j nodes)) None @ drop (Suc i + length (between_slots i j nodes)) nodes;
          trimmed = trim_delimiter_node (closer\<lparr>d_count := d_count closer - used\<rparr>)
                      (trim_delimiter_node (opener\<lparr>d_count := d_count opener - used\<rparr>) emptied)
      in if i + 1 < j then trimmed[i + 1 := Some wrapper]
         else if trimmed ! j = None then trimmed[j := Some wrapper]
         else trimmed[i := Some wrapper])"

definition used_up :: "nat \<Rightarrow> delimiter \<Rightarrow> delimiter" where
  "used_up used d = d\<lparr>d_count := d_count d - used, d_active := (d_active d \<and> d_count d \<noteq> used)\<rparr>"

definition wrap_delimiters :: "nat \<Rightarrow> nat \<Rightarrow> nat \<Rightarrow> delimiter list \<Rightarrow> delimiter list" where
  "wrap_delimiters opener closer used delims =
     take opener delims @ [used_up used (delims ! opener)] @
     map (\<lambda>d. d\<lparr>d_active := False\<rparr>) (take (closer - Suc opener) (drop (Suc opener) delims)) @
     [used_up used (delims ! closer)] @ drop (Suc closer) delims"

definition wrap_pair :: "nat \<Rightarrow> nat \<Rightarrow> inline_state \<Rightarrow> inline_state" where
  "wrap_pair opener closer st =
     (let delims = i_delimiters st; o_run = delims ! opener; c_run = delims ! closer;
          used = (if 2 \<le> d_count o_run \<and> 2 \<le> d_count c_run then 2 else 1)
      in st\<lparr>i_nodes := wrap_nodes o_run c_run used (i_nodes st), i_delimiters := wrap_delimiters opener closer used delims\<rparr>)"

text \<open>The walk over the closers; every turn takes a marker away or goes on to the next one.\<close>

fun emphasis_loop :: "nat \<Rightarrow> nat \<Rightarrow> nat \<Rightarrow> inline_state \<Rightarrow> inline_state option" where
  "emphasis_loop 0 floor closer st = None"
| "emphasis_loop (Suc fuel) floor closer st =
     (if length (i_delimiters st) \<le> closer then Some st
      else
        (let delims = i_delimiters st; c_run = delims ! closer in
         if \<not> d_active c_run \<or> \<not> d_can_close c_run \<or> d_count c_run = 0 then emphasis_loop fuel floor (Suc closer) st
         else
           (case find_opener delims floor closer closer of
              None \<Rightarrow>
                emphasis_loop fuel floor (Suc closer)
                  (if d_can_open c_run then st else st\<lparr>i_delimiters := delims[closer := c_run\<lparr>d_active := False\<rparr>]\<rparr>)
            | Some opener \<Rightarrow> emphasis_loop fuel floor closer (wrap_pair opener closer st))))"

definition compact_nodes :: "inline_state \<Rightarrow> inline_state" where
  "compact_nodes st =
     st\<lparr>i_nodes := filter (\<lambda>slot. slot \<noteq> None) (i_nodes st), i_delimiters := [], i_brackets := []\<rparr>"

definition emphasis_fuel :: "delimiter list \<Rightarrow> nat" where
  "emphasis_fuel delims = Suc (length delims + sum_list (map d_count delims))"

definition process_emphasis :: "nat \<Rightarrow> inline_state \<Rightarrow> inline_state option" where
  "process_emphasis floor st =
     (if length (i_delimiters st) \<le> floor then Some st
      else map_option compact_nodes (emphasis_loop (emphasis_fuel (i_delimiters st)) floor floor st))"

section \<open>The closing bracket\<close>

definition stop_outer :: "bracket list \<Rightarrow> bracket list" where
  "stop_outer brackets = map (\<lambda>k. if k_image k then k else k\<lparr>k_active := False\<rparr>) brackets"

definition finish_link :: "bracket \<Rightarrow> string \<times> string \<times> string \<Rightarrow> nat \<Rightarrow> inline_state \<Rightarrow> inline_state option" where
  "finish_link bracket target len st =
     (case target of
        (url, title, rest) \<Rightarrow> do {
          st1 \<leftarrow> process_emphasis (k_delimiters bracket) (flush_text st);
          (attributes, after) \<leftarrow> attach_attribute_block rest;
          let link = Md_Node (if k_image bracket then K_Image else K_Link)
            (no_fields\<lparr>f_url := url, f_title := title, f_attributes := attributes\<rparr>)
            (map the (drop (Suc (k_position bracket)) (i_nodes st1)));
          Some (st1\<lparr>i_nodes := take (k_position bracket) (i_nodes st1) @ [Some link], i_position := len - length after,
            i_brackets := (if k_image bracket then i_brackets st1 else stop_outer (i_brackets st1))\<rparr>)
        })"

definition handle_close_bracket :: "reference_map \<Rightarrow> string \<Rightarrow> inline_state \<Rightarrow> inline_state option" where
  "handle_close_bracket references input st =
     (let rest = drop (Suc (i_position st)) input; literal = take_text '']'' 1 in
      if i_brackets st = [] then Some (literal st)
      else
        (let bracket = last (i_brackets st); st1 = st\<lparr>i_brackets := butlast (i_brackets st)\<rparr> in
         if \<not> k_active bracket then Some (literal st1)
         else
           (case link_target references (Suc (k_position bracket)) rest st1 of
              None \<Rightarrow> Some (literal st1)
            | Some target \<Rightarrow> finish_link bracket target (length input) st1)))"

section \<open>A step, and a text\<close>

definition inline_step :: "reference_map \<Rightarrow> string \<Rightarrow> inline_state \<Rightarrow> inline_state option" where
  "inline_step references input st =
     (let rest = drop (i_position st) input; c = char_ahead rest 0; plain = take_text [c] 1 st in
      if c = CHR 0x5C then Some (handle_backslash rest st)
      else if c = CHR 0x60 then Some (handle_code_span rest st)
      else if c = CHR ''&'' then Some (handle_entity rest st)
      else if c = CHR ''<'' then Some (handle_angle rest st)
      else if c = CHR ''['' then
        (case if char_ahead rest 1 = CHR ''^'' then scan_footnote_reference rest else None of
           Some scanned \<Rightarrow> Some (emit_scanned scanned st)
         | None \<Rightarrow> Some (handle_open_bracket False rest st))
      else if c = CHR ''$'' then
        (case scan_math rest of Some scanned \<Rightarrow> Some (emit_scanned scanned st) | None \<Rightarrow> Some plain)
      else if c = CHR ''!'' then
        Some (if char_ahead rest 1 = CHR ''['' then handle_open_bracket True rest st else plain)
      else if c = CHR '']'' then handle_close_bracket references input st
      else if c = CHR ''*'' \<or> c = CHR ''_'' \<or> c = CHR ''~'' then Some (handle_delimiter_run input c st)
      else if c = CHR 0x0A then Some (handle_newline rest st)
      else Some plain)"

fun inline_loop :: "nat \<Rightarrow> reference_map \<Rightarrow> string \<Rightarrow> inline_state \<Rightarrow> inline_state option" where
  "inline_loop 0 references input st = None"
| "inline_loop (Suc fuel) references input st =
     (if i_position st < length input then Option.bind (inline_step references input st) (inline_loop fuel references input)
      else Some st)"

definition start_inline :: inline_state where
  "start_inline = \<lparr>i_position = 0, i_pending = [], i_nodes = [], i_delimiters = [], i_brackets = []\<rparr>"

definition parse_inline_text :: "reference_map \<Rightarrow> string \<Rightarrow> md_node list option" where
  "parse_inline_text references input = do {
     st1 \<leftarrow> inline_loop (Suc (length input)) references input start_inline;
     st2 \<leftarrow> process_emphasis 0 (flush_text st1);
     Some (map the (i_nodes st2))
   }"

end
