(* ===== verification/Markdown.thy ===== *)
theory Markdown
  imports Blocks Inlines
begin

text \<open>
  A whole Markdown document: the blocks, then the inline nodes of every block that holds text
  (\<open>parse_inlines\<close>), then the footnotes, numbered in the order of their first reference
  (\<open>resolve_footnotes\<close>). \<open>None\<close> is a document whose parsing never ends.
\<close>

section \<open>The text of the blocks\<close>

definition holds_text :: "md_kind \<Rightarrow> bool" where
  "holds_text kind \<longleftrightarrow> kind \<in> {K_Paragraph, K_Heading, K_Table_Cell, K_Definition_Term, K_Definition_Detail}"

fun parse_inlines :: "reference_map \<Rightarrow> md_node \<Rightarrow> md_node option"
  and parse_all_inlines :: "reference_map \<Rightarrow> md_node list \<Rightarrow> md_node list option" where
  "parse_inlines references (Md_Node kind data nodes) =
     (if holds_text kind then
        map_option (\<lambda>spans. Md_Node kind (data\<lparr>f_literal := []\<rparr>) (nodes @ spans)) (parse_inline_text references (f_literal data))
      else map_option (Md_Node kind data) (parse_all_inlines references nodes))"
| "parse_all_inlines references [] = Some []"
| "parse_all_inlines references (node # nodes) = do {
     node' \<leftarrow> parse_inlines references node;
     nodes' \<leftarrow> parse_all_inlines references nodes;
     Some (node' # nodes')
   }"

section \<open>Footnotes\<close>

text \<open>\<open>seen\<close> are the labels of the references so far; their order is that of their first reference.\<close>

definition add_label :: "string \<Rightarrow> string list \<Rightarrow> string list" where
  "add_label label order = (if label \<in> set order then order else order @ [label])"

definition reference_order :: "string list \<Rightarrow> string list" where
  "reference_order seen = fold add_label seen []"

definition note_number :: "string list \<Rightarrow> string \<Rightarrow> int" where
  "note_number order label = (case find_pos (\<lambda>l. l = label) order of None \<Rightarrow> 0 | Some i \<Rightarrow> int (Suc i))"

definition number_reference :: "footnote_map \<Rightarrow> string list \<Rightarrow> md_fields \<Rightarrow> string list \<times> md_fields" where
  "number_reference footnotes seen data =
     (if map_of footnotes (f_label data) = None then (seen, data)
      else
        (let seen' = seen @ [f_label data] in
         (seen', data\<lparr>f_number := note_number (reference_order seen') (f_label data),
                      f_occurrence := int (count_list seen' (f_label data))\<rparr>)))"

fun number_node :: "footnote_map \<Rightarrow> string list \<Rightarrow> md_node \<Rightarrow> string list \<times> md_node"
  and number_nodes :: "footnote_map \<Rightarrow> string list \<Rightarrow> md_node list \<Rightarrow> string list \<times> md_node list" where
  "number_node footnotes seen (Md_Node kind data nodes) =
     (case (if kind = K_Footnote_Ref then number_reference footnotes seen data else (seen, data)) of
        (seen1, data1) \<Rightarrow>
          (case number_nodes footnotes seen1 nodes of (seen2, nodes2) \<Rightarrow> (seen2, Md_Node kind data1 nodes2)))"
| "number_nodes footnotes seen [] = (seen, [])"
| "number_nodes footnotes seen (node # nodes) =
     (case number_node footnotes seen node of
        (seen1, node1) \<Rightarrow>
          (case number_nodes footnotes seen1 nodes of (seen2, nodes2) \<Rightarrow> (seen2, node1 # nodes2)))"

definition footnote_item :: "reference_map \<Rightarrow> footnote_map \<Rightarrow> string list \<Rightarrow> string \<Rightarrow> md_node option" where
  "footnote_item references footnotes order label =
     map_option (Md_Node K_Footnote_Item (no_fields\<lparr>f_label := label, f_number := note_number order label\<rparr>))
       (parse_inline_text references (case map_of footnotes label of None \<Rightarrow> [] | Some body \<Rightarrow> body))"

definition resolve_footnotes :: "reference_map \<Rightarrow> footnote_map \<Rightarrow> md_node \<Rightarrow> md_node option" where
  "resolve_footnotes references footnotes document =
     (let (seen, numbered) = number_node footnotes [] document; order = reference_order seen in
      if order = [] then Some numbered
      else
        map_option (\<lambda>items. Md_Node (md_kind numbered) (md_fields numbered)
            (md_children numbered @ [Md_Node K_Footnotes no_fields items]))
          (those (map (footnote_item references footnotes order) order)))"

section \<open>The document\<close>

definition parse_markdown :: "string \<Rightarrow> md_node option" where
  "parse_markdown input = do {
     st \<leftarrow> parse_blocks input;
     tree \<leftarrow> parse_inlines (bs_references st) (tree_of (length (bs_nodes st)) st 0);
     resolve_footnotes (bs_references st) (bs_footnotes st) tree
   }"

end
