(* ===== verification/Emphasis.thy ===== *)
theory Emphasis
  imports Inlines
begin

text \<open>
  What the resolution of emphasis keeps (\<open>process_emphasis\<close> of \<open>markdown_inline.cpp\<close>): it always ends,
  leaves the slots before the first delimiter it may use as they are, builds nodes only by wrapping, and
  takes nothing away but markers.
\<close>

section \<open>The stack of delimiters\<close>

definition runs_ok :: "md_node option list \<Rightarrow> delimiter list \<Rightarrow> bool" where
  "runs_ok nodes delims \<longleftrightarrow> sorted_wrt (<) (map d_index delims) \<and> (\<forall>d \<in> set delims. d_index d < length nodes)"

lemma runs_okD:
  assumes "runs_ok nodes delims"
  shows "i < j \<Longrightarrow> j < length delims \<Longrightarrow> d_index (delims ! i) < d_index (delims ! j)"
    "i < length delims \<Longrightarrow> d_index (delims ! i) < length nodes"
  using assms by (auto simp: runs_ok_def sorted_wrt_iff_nth_less)

lemma find_opener_found:
  "find_opener delims floor closer k = Some opener \<Longrightarrow> floor \<le> opener \<and> opener < k \<and> opens_for (delims ! closer) (delims ! opener)"
  by (induction k) (auto split: if_splits)

lemma split_pair:
  assumes "i < j" and "j < length xs"
  obtains as bs cs where "xs = as @ xs ! i # bs @ xs ! j # cs" and "length as = i" and "length bs = j - Suc i"
proof
  have "drop (Suc i) xs = take (j - Suc i) (drop (Suc i) xs) @ drop j xs"
    using append_take_drop_id [of "j - Suc i" "drop (Suc i) xs"] assms(1) by simp
  then show "xs = take i xs @ xs ! i # take (j - Suc i) (drop (Suc i) xs) @ xs ! j # drop (Suc j) xs"
    using assms id_take_nth_drop [of i xs] by (simp add: Cons_nth_drop_Suc)
qed (use assms in simp_all)

lemma wrap_delimiters_split:
  assumes "length as = i" and "length bs = j - Suc i" and "i < j"
  shows "wrap_delimiters i j used (as @ d # bs @ e # cs) =
    as @ used_up used d # map (\<lambda>d. d\<lparr>d_active := False\<rparr>) bs @ used_up used e # cs"
proof -
  have "j = i + Suc (length bs)" "Suc j - i = Suc (Suc (length bs))" using assms by simp_all
  then show ?thesis using assms by (simp add: wrap_delimiters_def nth_append)
qed

lemma used_up_simps [simp]:
  "d_index (used_up used d) = d_index d" "d_count (used_up used d) = d_count d - used" "d_character (used_up used d) = d_character d"
  by (simp_all add: used_up_def)

lemma wrap_delimiters_facts:
  assumes "i < j" and "j < length delims"
  shows "map d_index (wrap_delimiters i j used delims) = map d_index delims"
    "sum_list (map d_count (wrap_delimiters i j used delims)) + min used (d_count (delims ! i)) + min used (d_count (delims ! j)) =
       sum_list (map d_count delims)"
    "length (wrap_delimiters i j used delims) = length delims"
proof -
  obtain as bs cs where split: "delims = as @ delims ! i # bs @ delims ! j # cs" "length as = i" "length bs = j - Suc i"
    by (rule split_pair [OF assms])
  note wrapped = wrap_delimiters_split [OF split(2,3) assms(1), of used "delims ! i" "delims ! j" cs, folded split(1)]
  have sums: "sum_list (map d_count delims) = sum_list (map d_count as) + d_count (delims ! i) + sum_list (map d_count bs) +
      d_count (delims ! j) + sum_list (map d_count cs)"
    by (subst split(1)) simp
  show "map d_index (wrap_delimiters i j used delims) = map d_index delims"
    unfolding wrapped by (subst (3) split(1)) simp
  show "sum_list (map d_count (wrap_delimiters i j used delims)) + min used (d_count (delims ! i)) + min used (d_count (delims ! j)) =
       sum_list (map d_count delims)"
    unfolding wrapped sums by (simp add: o_def)
  show "length (wrap_delimiters i j used delims) = length delims"
    unfolding wrapped by (subst (3) split(1)) simp
qed

section \<open>The slots\<close>

text \<open>What the nodes are made of: any predicate that holds of text and passes to a wrapper from what it holds.\<close>

definition wrap_closed :: "(md_node \<Rightarrow> bool) \<Rightarrow> bool" where
  "wrap_closed P \<longleftrightarrow> (\<forall>literal. P (literal_node K_Text literal)) \<and>
     (\<forall>c used nodes. list_all P nodes \<longrightarrow> P (Md_Node (wrapper_kind c used) no_fields nodes))"

definition slots_all :: "(md_node \<Rightarrow> bool) \<Rightarrow> md_node option list \<Rightarrow> bool" where
  "slots_all P slots \<longleftrightarrow> (\<forall>node. Some node \<in> set slots \<longrightarrow> P node)"

lemma slots_all_simps [simp]:
  "slots_all P []" "slots_all P (slot # slots) \<longleftrightarrow> (\<forall>node. slot = Some node \<longrightarrow> P node) \<and> slots_all P slots"
  "slots_all P (as @ bs) \<longleftrightarrow> slots_all P as \<and> slots_all P bs"
  by (auto simp: slots_all_def)

lemma slots_all_filled: "slots_all P slots \<Longrightarrow> list_all P (filled slots)"
  by (induction slots) (auto simp: filled_def)

lemma slots_all_part: "slots_all P slots \<Longrightarrow> slots_all P (take n slots)" "slots_all P slots \<Longrightarrow> slots_all P (drop n slots)"
  by (auto simp: slots_all_def dest: in_set_takeD in_set_dropD)

lemma slots_all_filter [simp]: "slots_all P (filter (\<lambda>slot. slot \<noteq> None) slots) \<longleftrightarrow> slots_all P slots"
  by (auto simp: slots_all_def)

lemma slots_all_update: "slots_all P slots \<Longrightarrow> (\<And>node. slot = Some node \<Longrightarrow> P node) \<Longrightarrow> slots_all P (slots[i := slot])"
  using set_update_subset_insert [of slots i slot] by (fastforce simp: slots_all_def)

lemma slots_all_None [simp]: "slots_all P (replicate n None)"
  by (auto simp: slots_all_def)

lemma trim_delimiter_facts:
  "length (trim_delimiter_node d nodes) = length nodes"
  "k \<noteq> d_index d \<Longrightarrow> trim_delimiter_node d nodes ! k = nodes ! k"
  "wrap_closed P \<Longrightarrow> m \<le> d_index d \<Longrightarrow> slots_all P (drop m nodes) \<Longrightarrow> slots_all P (drop m (trim_delimiter_node d nodes))"
  by (auto simp: trim_delimiter_node_def wrap_closed_def drop_update_swap intro!: slots_all_update split: option.split)

lemma emptied_nth:
  assumes "i < j" and "j < length nodes" and "k < length nodes"
  shows "(take (Suc i) nodes @ replicate (length (between_slots i j nodes)) None @
      drop (Suc i + length (between_slots i j nodes)) nodes) ! k = (if i < k \<and> k < j then None else nodes ! k)"
proof -
  have "length (between_slots i j nodes) = j - Suc i" using assms(1,2) by (simp add: between_slots_def)
  then show ?thesis using assms by (auto simp: nth_append)
qed

lemma wrap_nodes_facts:
  assumes "d_index opener < d_index closer" and "d_index closer < length nodes"
  shows "length (wrap_nodes opener closer used nodes) = length nodes"
    "k < d_index opener \<or> d_index closer < k \<Longrightarrow> k < length nodes \<Longrightarrow> wrap_nodes opener closer used nodes ! k = nodes ! k"
    "wrap_closed P \<Longrightarrow> m \<le> d_index opener \<Longrightarrow> slots_all P (drop m nodes) \<Longrightarrow>
       slots_all P (drop m (wrap_nodes opener closer used nodes))"
proof -
  let ?i = "d_index opener" and ?j = "d_index closer"
  let ?emptied = "take (Suc ?i) nodes @ replicate (length (between_slots ?i ?j nodes)) None @
      drop (Suc ?i + length (between_slots ?i ?j nodes)) nodes"
  have between: "length (between_slots ?i ?j nodes) = ?j - Suc ?i" using assms by (simp add: between_slots_def)
  then have size: "length ?emptied = length nodes" using assms by simp
  then show "length (wrap_nodes opener closer used nodes) = length nodes"
    unfolding wrap_nodes_def Let_def by (simp add: trim_delimiter_facts)
  show "wrap_nodes opener closer used nodes ! k = nodes ! k" if "k < ?i \<or> ?j < k" "k < length nodes"
    using that assms emptied_nth [OF assms that(2)]
    unfolding wrap_nodes_def Let_def by (auto simp: trim_delimiter_facts)
  show "slots_all P (drop m (wrap_nodes opener closer used nodes))"
    if closed: "wrap_closed P" and m: "m \<le> ?i" and nodes: "slots_all P (drop m nodes)"
  proof -
    have part: "slots_all P (drop k nodes)" if "m \<le> k" for k
      using slots_all_part(2) [OF nodes, of "k - m"] that by simp
    have "drop m ?emptied = take (Suc ?i - m) (drop m nodes) @ replicate (length (between_slots ?i ?j nodes)) None @
        drop (Suc ?i + length (between_slots ?i ?j nodes)) nodes"
      using m assms by (simp add: drop_take)
    then have "slots_all P (drop m ?emptied)" using nodes part m by (simp add: slots_all_part)
    then have trimmed: "slots_all P (drop m (trim_delimiter_node (closer\<lparr>d_count := d_count closer - used\<rparr>)
        (trim_delimiter_node (opener\<lparr>d_count := d_count opener - used\<rparr>) ?emptied)))"
      using closed m assms(1) by (intro trim_delimiter_facts(3)) simp_all
    have "slots_all P (between_slots ?i ?j nodes)" unfolding between_slots_def using part m by (intro slots_all_part(1)) simp
    then have "P (Md_Node (wrapper_kind (d_character closer) used) no_fields (filled (between_slots ?i ?j nodes)))"
      using closed slots_all_filled by (simp add: wrap_closed_def)
    then show ?thesis
      using trimmed m assms(1) unfolding wrap_nodes_def Let_def by (auto simp: drop_update_swap intro!: slots_all_update)
  qed
qed

section \<open>The walk over the closers\<close>

lemma wrap_pair_simps [simp]:
  "i_position (wrap_pair opener closer st) = i_position st" "i_pending (wrap_pair opener closer st) = i_pending st"
  by (simp_all add: wrap_pair_def Let_def)

lemma runs_ok_same: "map d_index delims' = map d_index delims \<Longrightarrow> length nodes' = length nodes \<Longrightarrow> runs_ok nodes delims \<Longrightarrow> runs_ok nodes' delims'"
proof -
  assume same: "map d_index delims' = map d_index delims" "length nodes' = length nodes" and ok: "runs_ok nodes delims"
  have "d_index ` set delims' = d_index ` set delims" using same(1) by (metis list.set_map)
  then have "\<forall>d \<in> set delims'. d_index d < length nodes'" using ok same(2) by (force simp: runs_ok_def image_iff)
  then show ?thesis using ok same by (simp add: runs_ok_def)
qed

lemma wrap_pair_facts:
  assumes ok: "runs_ok (i_nodes st) (i_delimiters st)" and pair: "opener < closer" "closer < length (i_delimiters st)"
    and count: "0 < d_count (i_delimiters st ! opener)" "0 < d_count (i_delimiters st ! closer)"
  shows "map d_index (i_delimiters (wrap_pair opener closer st)) = map d_index (i_delimiters st)"
    "length (i_nodes (wrap_pair opener closer st)) = length (i_nodes st)"
    "runs_ok (i_nodes (wrap_pair opener closer st)) (i_delimiters (wrap_pair opener closer st))"
    "sum_list (map d_count (i_delimiters (wrap_pair opener closer st))) < sum_list (map d_count (i_delimiters st))"
    "k < d_index (i_delimiters st ! opener) \<Longrightarrow> i_nodes (wrap_pair opener closer st) ! k = i_nodes st ! k"
    "wrap_closed P \<Longrightarrow> m \<le> d_index (i_delimiters st ! opener) \<Longrightarrow> slots_all P (drop m (i_nodes st)) \<Longrightarrow>
       slots_all P (drop m (i_nodes (wrap_pair opener closer st)))"
proof -
  let ?d = "i_delimiters st ! opener" and ?e = "i_delimiters st ! closer"
  have index: "d_index ?d < d_index ?e" "d_index ?e < length (i_nodes st)"
    using runs_okD [OF ok] pair by simp_all
  define used where "used = (if 2 \<le> d_count ?d \<and> 2 \<le> d_count ?e then 2 else 1 :: nat)"
  have eq: "i_delimiters (wrap_pair opener closer st) = wrap_delimiters opener closer used (i_delimiters st)"
    "i_nodes (wrap_pair opener closer st) = wrap_nodes ?d ?e used (i_nodes st)"
    by (simp_all add: wrap_pair_def Let_def used_def)
  note delims = wrap_delimiters_facts [OF pair, of used] and nodes = wrap_nodes_facts [OF index, where used = used]
  show index_same: "map d_index (i_delimiters (wrap_pair opener closer st)) = map d_index (i_delimiters st)"
    unfolding eq by (rule delims(1))
  show size: "length (i_nodes (wrap_pair opener closer st)) = length (i_nodes st)"
    unfolding eq by (rule nodes(1))
  show "runs_ok (i_nodes (wrap_pair opener closer st)) (i_delimiters (wrap_pair opener closer st))"
    by (rule runs_ok_same [OF index_same size ok])
  have "0 < min used (d_count ?d)" using count by (simp add: used_def)
  then show "sum_list (map d_count (i_delimiters (wrap_pair opener closer st))) < sum_list (map d_count (i_delimiters st))"
    unfolding eq using delims(2) by linarith
  show "k < d_index ?d \<Longrightarrow> i_nodes (wrap_pair opener closer st) ! k = i_nodes st ! k"
    unfolding eq using nodes(2) [of k] index by simp
  show "wrap_closed P \<Longrightarrow> m \<le> d_index ?d \<Longrightarrow> slots_all P (drop m (i_nodes st)) \<Longrightarrow>
      slots_all P (drop m (i_nodes (wrap_pair opener closer st)))"
    unfolding eq by (rule nodes(3))
qed

text \<open>A closer without an opener is put out; only whether it is active changes.\<close>

lemma put_out_same:
  fixes delims :: "delimiter list"
  shows "map d_index (delims[k := (delims ! k)\<lparr>d_active := False\<rparr>]) = map d_index delims"
  "map d_count (delims[k := (delims ! k)\<lparr>d_active := False\<rparr>]) = map d_count delims"
proof -
  have "(map f delims)[k := f (delims ! k)] = map f delims" for f :: "delimiter \<Rightarrow> nat"
  proof (cases "k < length delims")
    case True
    then have "f (delims ! k) = map f delims ! k" by simp
    then show ?thesis using list_update_id [of "map f delims" k] by simp
  qed (simp add: list_update_beyond)
  then show "map d_index (delims[k := (delims ! k)\<lparr>d_active := False\<rparr>]) = map d_index delims"
    "map d_count (delims[k := (delims ! k)\<lparr>d_active := False\<rparr>]) = map d_count delims"
    by (simp_all add: map_update)
qed

definition walked :: "nat \<Rightarrow> inline_state \<Rightarrow> inline_state \<Rightarrow> bool" where
  "walked keep st st' \<longleftrightarrow> length (i_nodes st') = length (i_nodes st) \<and> take keep (i_nodes st') = take keep (i_nodes st) \<and>
     (\<forall>P. wrap_closed P \<longrightarrow> slots_all P (drop keep (i_nodes st)) \<longrightarrow> slots_all P (drop keep (i_nodes st'))) \<and>
     i_position st' = i_position st \<and> i_pending st' = i_pending st"

lemma walked_trans: "walked keep st st1 \<Longrightarrow> walked keep st1 st2 \<Longrightarrow> walked keep st st2"
  by (simp add: walked_def)

lemma emphasis_loop_ends:
  "runs_ok (i_nodes st) (i_delimiters st) \<Longrightarrow> floor \<le> closer \<Longrightarrow> closer \<le> length (i_delimiters st) \<Longrightarrow>
    (\<forall>k < length (i_delimiters st). floor \<le> k \<longrightarrow> keep \<le> d_index (i_delimiters st ! k)) \<Longrightarrow>
    length (i_delimiters st) + sum_list (map d_count (i_delimiters st)) < fuel + closer \<Longrightarrow>
    \<exists>st'. emphasis_loop fuel floor closer st = Some st' \<and> walked keep st st'"
proof (induction fuel arbitrary: closer st)
  case (Suc fuel)
  let ?delims = "i_delimiters st"
  have self: "walked keep st st" by (simp add: walked_def)
  let ?idle = "\<not> d_active (?delims ! closer) \<or> \<not> d_can_close (?delims ! closer) \<or> d_count (?delims ! closer) = 0"
  consider (out) "length ?delims \<le> closer" | (pass) "closer < length ?delims" ?idle
    | (alone) "closer < length ?delims" "\<not> ?idle" "find_opener ?delims floor closer closer = None"
    | (pair) opener where "closer < length ?delims" "\<not> ?idle" "find_opener ?delims floor closer closer = Some opener"
    by (metis leI option.exhaust)
  then show ?case
  proof cases
    case out
    then show ?thesis using self by simp
  next
    case pass
    have "\<exists>st'. emphasis_loop fuel floor (Suc closer) st = Some st' \<and> walked keep st st'"
      using Suc.prems pass(1) by (intro Suc.IH) simp_all
    then show ?thesis using pass by (simp add: Let_def)
  next
    case alone
    define st1 where "st1 = (if d_can_open (?delims ! closer) then st
      else st\<lparr>i_delimiters := ?delims[closer := (?delims ! closer)\<lparr>d_active := False\<rparr>]\<rparr>)"
    have same: "map d_index (i_delimiters st1) = map d_index ?delims" "map d_count (i_delimiters st1) = map d_count ?delims"
      "i_nodes st1 = i_nodes st" "walked keep st st1"
      using put_out_same [of ?delims closer] self by (simp_all add: st1_def walked_def)
    have size: "length (i_delimiters st1) = length ?delims" by (rule map_eq_imp_length_eq [OF same(1)])
    have "d_index (i_delimiters st1 ! k) = d_index (?delims ! k)" if "k < length ?delims" for k
      using that same(1) size by (metis nth_map)
    then have "\<exists>st'. emphasis_loop fuel floor (Suc closer) st1 = Some st' \<and> walked keep st1 st'"
      using Suc.prems alone(1) same size runs_ok_same [OF same(1) _ Suc.prems(1), of "i_nodes st1"] by (intro Suc.IH) simp_all
    then show ?thesis using alone walked_trans [OF same(4)] by (auto simp: Let_def st1_def)
  next
    case pair
    have found: "floor \<le> opener" "opener < closer" "opens_for (?delims ! closer) (?delims ! opener)"
      using find_opener_found [OF pair(3)] by simp_all
    have count: "0 < d_count (?delims ! opener)" "0 < d_count (?delims ! closer)"
      using found(3) pair(2) by (auto simp: opens_for_def)
    let ?st = "wrap_pair opener closer st"
    note facts = wrap_pair_facts [OF Suc.prems(1) found(2) pair(1) count]
    have size: "length (i_delimiters ?st) = length ?delims" by (rule map_eq_imp_length_eq [OF facts(1)])
    have index: "d_index (i_delimiters ?st ! k) = d_index (?delims ! k)" if "k < length ?delims" for k
      using that facts(1) size by (metis nth_map)
    have keep: "keep \<le> d_index (?delims ! opener)" using Suc.prems(4) found(1,2) pair(1) by simp
    then have "take keep (i_nodes ?st) = take keep (i_nodes st)"
      using facts(2,5) by (intro nth_equalityI) simp_all
    then have step: "walked keep st ?st"
      using facts(2) facts(6) [OF _ keep] by (simp add: walked_def)
    have "\<exists>st'. emphasis_loop fuel floor closer ?st = Some st' \<and> walked keep ?st st'"
      using Suc.prems facts(3,4) size index by (intro Suc.IH) simp_all
    then show ?thesis using pair walked_trans [OF step] by (auto simp: Let_def)
  qed
qed simp

text \<open>Emphasis always ends; when there is something to do, holes and both stacks are gone after it.\<close>

definition resolved :: "nat \<Rightarrow> nat \<Rightarrow> inline_state \<Rightarrow> inline_state \<Rightarrow> bool" where
  "resolved floor keep st st' \<longleftrightarrow> None \<notin> set (i_nodes st') \<and> take keep (i_nodes st') = take keep (i_nodes st) \<and>
     (\<forall>P. wrap_closed P \<longrightarrow> slots_all P (drop keep (i_nodes st)) \<longrightarrow> slots_all P (drop keep (i_nodes st'))) \<and>
     i_position st' = i_position st \<and> i_pending st' = i_pending st \<and>
     (length (i_delimiters st) \<le> floor \<and> st' = st \<or> i_delimiters st' = [] \<and> i_brackets st' = [])"

lemma process_emphasis_ends:
  assumes ok: "runs_ok (i_nodes st) (i_delimiters st)"
    and keep: "\<forall>k < length (i_delimiters st). floor \<le> k \<longrightarrow> keep \<le> d_index (i_delimiters st ! k)"
    and nodes: "None \<notin> set (i_nodes st)"
  shows "\<exists>st'. process_emphasis floor st = Some st' \<and> resolved floor keep st st'"
proof (cases "length (i_delimiters st) \<le> floor")
  case True
  then show ?thesis using nodes by (simp add: process_emphasis_def resolved_def)
next
  case False
  obtain st1 where st1: "emphasis_loop (emphasis_fuel (i_delimiters st)) floor floor st = Some st1" "walked keep st st1"
    using emphasis_loop_ends [OF ok, of floor floor keep "emphasis_fuel (i_delimiters st)"] False keep
    by (auto simp: emphasis_fuel_def)
  let ?full = "\<lambda>slots. filter (\<lambda>slot. slot \<noteq> None) slots"
  have "\<forall>slot \<in> set (take keep (i_nodes st1)). slot \<noteq> None"
    using st1(2) nodes by (metis in_set_takeD walked_def)
  then have "?full (take keep (i_nodes st1)) = take keep (i_nodes st)"
    using st1(2) by (simp add: walked_def filter_id_conv)
  then have full: "?full (i_nodes st1) = take keep (i_nodes st) @ ?full (drop keep (i_nodes st1))"
    by (metis append_take_drop_id filter_append)
  have len: "length (take keep (i_nodes st)) = keep"
  proof -
    have "keep \<le> d_index (i_delimiters st ! floor)" "d_index (i_delimiters st ! floor) < length (i_nodes st)"
      using keep False runs_okD(2) [OF ok, of floor] by simp_all
    then show ?thesis by simp
  qed
  have "take keep (?full (i_nodes st1)) = take keep (i_nodes st)" "drop keep (?full (i_nodes st1)) = ?full (drop keep (i_nodes st1))"
    unfolding full using len by simp_all
  then have "resolved floor keep st (compact_nodes st1)"
    using st1(2) slots_all_filter by (auto simp: resolved_def compact_nodes_def walked_def simp del: not_None_eq)
  then show ?thesis using st1(1) False by (simp add: process_emphasis_def)
qed

section \<open>No text is lost\<close>

fun node_text :: "md_node \<Rightarrow> string" where
  "node_text (Md_Node kind data nodes) = f_literal data @ concat (map node_text nodes)"

definition slot_content :: "md_node option \<Rightarrow> string" where
  "slot_content slot = (case slot of None \<Rightarrow> [] | Some node \<Rightarrow> node_text node)"

definition slots_text :: "md_node option list \<Rightarrow> string" where
  "slots_text slots = concat (map slot_content slots)"

definition is_marker :: "char \<Rightarrow> bool" where
  "is_marker c \<longleftrightarrow> c = CHR ''*'' \<or> c = CHR ''_'' \<or> c = CHR ''~''"

definition unmarked :: "string \<Rightarrow> string" where
  "unmarked s = filter (\<lambda>c. \<not> is_marker c) s"

lemma unmarked_simps [simp]: "unmarked [] = []" "unmarked (as @ bs) = unmarked as @ unmarked bs"
  "is_marker c \<Longrightarrow> unmarked (replicate n c) = []"
  by (simp_all add: unmarked_def)

lemma slots_text_simps [simp]:
  "slots_text [] = []" "slots_text (slot # slots) = slot_content slot @ slots_text slots"
  "slots_text (as @ bs) = slots_text as @ slots_text bs" "slots_text (replicate n None) = []"
  "slot_content None = []" "slot_content (Some node) = node_text node"
  by (simp_all add: slots_text_def slot_content_def)

lemma filled_text: "concat (map node_text (filled slots)) = slots_text slots"
proof (induction slots)
  case (Cons slot slots)
  then show ?case by (cases slot) (simp_all add: filled_def)
qed (simp add: filled_def)

lemma compact_text: "slots_text (filter (\<lambda>slot. slot \<noteq> None) slots) = slots_text slots"
  by (induction slots) auto

definition trim_slot :: "delimiter \<Rightarrow> md_node option \<Rightarrow> md_node option" where
  "trim_slot d slot =
     (if 0 < d_count d then
        (case slot of
           Some node \<Rightarrow> if md_kind node = K_Text then Some (literal_node K_Text (replicate (d_count d) (d_character d))) else slot
         | None \<Rightarrow> None)
      else None)"

lemma trim_delimiter_node_slot:
  "d_index d < length nodes \<Longrightarrow> trim_delimiter_node d nodes = nodes[d_index d := trim_slot d (nodes ! d_index d)]"
  by (auto simp: trim_delimiter_node_def trim_slot_def split: option.split intro: sym [OF list_update_same_conv [THEN iffD2]])

lemma trim_slot_unmarked:
  "is_marker (d_character d) \<Longrightarrow> unmarked (slot_content slot) = [] \<Longrightarrow> unmarked (slot_content (trim_slot d slot)) = []"
  by (cases slot) (auto simp: trim_slot_def literal_node_def no_fields_def)

definition wrapper_of :: "delimiter \<Rightarrow> nat \<Rightarrow> md_node option list \<Rightarrow> md_node" where
  "wrapper_of closer used slots = Md_Node (wrapper_kind (d_character closer) used) no_fields (filled slots)"

lemma wrapper_text: "node_text (wrapper_of closer used slots) = slots_text slots"
  by (simp add: wrapper_of_def no_fields_def filled_text)

text \<open>The slots of a wrapped pair, in the three ways a wrapper finds a place.\<close>

lemma wrap_nodes_split:
  assumes "d_index opener = length as" and "d_index closer = Suc (length as + length bs)"
  shows "wrap_nodes opener closer used (as @ x # bs @ y # cs) =
    (let x' = trim_slot (opener\<lparr>d_count := d_count opener - used\<rparr>) x; y' = trim_slot (closer\<lparr>d_count := d_count closer - used\<rparr>) y in
     if bs \<noteq> [] then as @ x' # Some (wrapper_of closer used bs) # replicate (length bs - 1) None @ y' # cs
     else if y' = None then as @ x' # Some (wrapper_of closer used []) # cs
     else as @ Some (wrapper_of closer used []) # y' # cs)"
proof -
  let ?o = "opener\<lparr>d_count := d_count opener - used\<rparr>" and ?c = "closer\<lparr>d_count := d_count closer - used\<rparr>"
  have between: "between_slots (d_index opener) (d_index closer) (as @ x # bs @ y # cs) = bs"
    using assms by (simp add: between_slots_def)
  have emptied: "take (Suc (d_index opener)) (as @ x # bs @ y # cs) @ replicate (length bs) None @
      drop (Suc (d_index opener) + length bs) (as @ x # bs @ y # cs) = as @ x # replicate (length bs) None @ y # cs"
    using assms(1) by simp
  have trimmed: "trim_delimiter_node ?c (trim_delimiter_node ?o (as @ x # replicate (length bs) None @ y # cs)) =
      as @ trim_slot ?o x # replicate (length bs) None @ trim_slot ?c y # cs"
    using assms by (simp add: trim_delimiter_node_slot nth_append list_update_append)
  show ?thesis
  proof (cases bs)
    case Nil
    then show ?thesis
      unfolding wrap_nodes_def Let_def between emptied trimmed
      using assms by (simp add: wrapper_of_def list_update_append nth_append)
  next
    case (Cons b bs')
    then show ?thesis
      unfolding wrap_nodes_def Let_def between emptied trimmed
      using assms by (simp add: wrapper_of_def list_update_append)
  qed
qed

definition runs_marked :: "md_node option list \<Rightarrow> delimiter list \<Rightarrow> bool" where
  "runs_marked nodes delims \<longleftrightarrow>
     (\<forall>d \<in> set delims. d_active d \<longrightarrow> is_marker (d_character d) \<and> unmarked (slot_content (nodes ! d_index d)) = [])"

lemma wrap_nodes_text:
  assumes index: "d_index opener < d_index closer" "d_index closer < length nodes"
    and marks: "is_marker (d_character opener)" "unmarked (slot_content (nodes ! d_index opener)) = []"
      "is_marker (d_character closer)" "unmarked (slot_content (nodes ! d_index closer)) = []"
  shows "unmarked (slots_text (wrap_nodes opener closer used nodes)) = unmarked (slots_text nodes)"
    "unmarked (slot_content (wrap_nodes opener closer used nodes ! d_index opener)) = []"
    "unmarked (slot_content (wrap_nodes opener closer used nodes ! d_index closer)) = []"
proof -
  obtain as bs cs where split: "nodes = as @ nodes ! d_index opener # bs @ nodes ! d_index closer # cs"
    and len: "length as = d_index opener" "length bs = d_index closer - Suc (d_index opener)"
    by (rule split_pair [OF index])
  define x where "x = nodes ! d_index opener"
  define y where "y = nodes ! d_index closer"
  define x' where "x' = trim_slot (opener\<lparr>d_count := d_count opener - used\<rparr>) x"
  define y' where "y' = trim_slot (closer\<lparr>d_count := d_count closer - used\<rparr>) y"
  have empty: "unmarked (slot_content x) = []" "unmarked (slot_content y) = []" "unmarked (slot_content x') = []" "unmarked (slot_content y') = []"
    using marks trim_slot_unmarked [of "opener\<lparr>d_count := d_count opener - used\<rparr>" x]
      trim_slot_unmarked [of "closer\<lparr>d_count := d_count closer - used\<rparr>" y] by (simp_all add: x_def y_def x'_def y'_def)
  have index': "d_index opener = length as" "d_index closer = Suc (length as + length bs)" using len index(1) by simp_all
  have nodes: "nodes = as @ x # bs @ y # cs" using split by (simp add: x_def y_def)
  have wrapped: "wrap_nodes opener closer used nodes =
     (if bs \<noteq> [] then as @ x' # Some (wrapper_of closer used bs) # replicate (length bs - 1) None @ y' # cs
     else if y' = None then as @ x' # Some (wrapper_of closer used []) # cs
     else as @ Some (wrapper_of closer used []) # y' # cs)"
    unfolding nodes using wrap_nodes_split [OF index', of used x y cs] by (simp add: x'_def y'_def Let_def)
  show "unmarked (slots_text (wrap_nodes opener closer used nodes)) = unmarked (slots_text nodes)"
    unfolding wrapped using empty by (simp add: nodes wrapper_text)
  show "unmarked (slot_content (wrap_nodes opener closer used nodes ! d_index opener)) = []"
    unfolding wrapped index' using empty by (simp add: wrapper_text nth_append)
  show "unmarked (slot_content (wrap_nodes opener closer used nodes ! d_index closer)) = []"
    unfolding wrapped index' using empty by (cases bs) (simp_all add: wrapper_text nth_append)
qed

lemma wrap_pair_text:
  assumes ok: "runs_ok (i_nodes st) (i_delimiters st)" and marked: "runs_marked (i_nodes st) (i_delimiters st)"
    and pair: "opener < closer" "closer < length (i_delimiters st)"
    and active: "d_active (i_delimiters st ! opener)" "d_active (i_delimiters st ! closer)"
  shows "unmarked (slots_text (i_nodes (wrap_pair opener closer st))) = unmarked (slots_text (i_nodes st))"
    "runs_marked (i_nodes (wrap_pair opener closer st)) (i_delimiters (wrap_pair opener closer st))"
proof -
  let ?delims = "i_delimiters st" and ?nodes = "i_nodes st"
  let ?d = "?delims ! opener" and ?e = "?delims ! closer"
  have index: "d_index ?d < d_index ?e" "d_index ?e < length ?nodes" using runs_okD [OF ok] pair by simp_all
  define used where "used = (if 2 \<le> d_count ?d \<and> 2 \<le> d_count ?e then 2 else 1 :: nat)"
  have eq: "i_delimiters (wrap_pair opener closer st) = wrap_delimiters opener closer used ?delims"
    "i_nodes (wrap_pair opener closer st) = wrap_nodes ?d ?e used ?nodes"
    by (simp_all add: wrap_pair_def Let_def used_def)
  have marks: "is_marker (d_character ?d)" "unmarked (slot_content (?nodes ! d_index ?d)) = []"
    "is_marker (d_character ?e)" "unmarked (slot_content (?nodes ! d_index ?e)) = []"
    using marked active pair nth_mem [of opener ?delims] nth_mem [of closer ?delims] by (auto simp: runs_marked_def)
  note facts = wrap_nodes_text [OF index marks, of used]
  show "unmarked (slots_text (i_nodes (wrap_pair opener closer st))) = unmarked (slots_text ?nodes)"
    unfolding eq by (rule facts(1))
  obtain as bs cs where split: "?delims = as @ ?d # bs @ ?e # cs" "length as = opener" "length bs = closer - Suc opener"
    by (rule split_pair [OF pair])
  note wrapped = wrap_delimiters_split [OF split(2,3) pair(1), of used ?d ?e cs, folded split(1)]
  have sorted: "\<forall>a \<in> set as. d_index a < d_index ?d" "\<forall>c \<in> set cs. d_index ?e < d_index c"
    using ok by (subst (asm) split(1), simp add: runs_ok_def sorted_wrt_append)+
  have bound: "\<forall>d \<in> set as \<union> set cs. d_index d < length ?nodes \<and> d \<in> set ?delims"
    using ok by (subst split(1), subst (asm) split(1)) (auto simp: runs_ok_def)
  have outside: "unmarked (slot_content (wrap_nodes ?d ?e used ?nodes ! d_index d)) = [] \<and> is_marker (d_character d)"
    if "d \<in> set as \<union> set cs" "d_active d" for d
  proof -
    have "wrap_nodes ?d ?e used ?nodes ! d_index d = ?nodes ! d_index d"
      using that(1) sorted bound by (intro wrap_nodes_facts(2) [OF index]) auto
    then show ?thesis using that bound marked by (auto simp: runs_marked_def)
  qed
  show "runs_marked (i_nodes (wrap_pair opener closer st)) (i_delimiters (wrap_pair opener closer st))"
    unfolding eq wrapped runs_marked_def using facts(2,3) marks outside by auto
qed

lemma emphasis_loop_text:
  "runs_ok (i_nodes st) (i_delimiters st) \<Longrightarrow> runs_marked (i_nodes st) (i_delimiters st) \<Longrightarrow>
   emphasis_loop fuel floor closer st = Some st' \<Longrightarrow> unmarked (slots_text (i_nodes st')) = unmarked (slots_text (i_nodes st))"
proof (induction fuel arbitrary: closer st)
  case (Suc fuel)
  let ?delims = "i_delimiters st"
  let ?idle = "\<not> d_active (?delims ! closer) \<or> \<not> d_can_close (?delims ! closer) \<or> d_count (?delims ! closer) = 0"
  consider (out) "length ?delims \<le> closer" | (pass) "closer < length ?delims" ?idle
    | (alone) "closer < length ?delims" "\<not> ?idle" "find_opener ?delims floor closer closer = None"
    | (pair) opener where "closer < length ?delims" "\<not> ?idle" "find_opener ?delims floor closer closer = Some opener"
    by (metis leI option.exhaust)
  then show ?case
  proof cases
    case out
    then show ?thesis using Suc.prems(3) by simp
  next
    case pass
    then show ?thesis using Suc.prems Suc.IH [of st "Suc closer"] by (simp add: Let_def)
  next
    case alone
    define st1 where "st1 = (if d_can_open (?delims ! closer) then st
      else st\<lparr>i_delimiters := ?delims[closer := (?delims ! closer)\<lparr>d_active := False\<rparr>]\<rparr>)"
    have "runs_ok (i_nodes st1) (i_delimiters st1)"
      using put_out_same [of ?delims closer] by (intro runs_ok_same [OF _ _ Suc.prems(1)]) (simp_all add: st1_def)
    moreover have "runs_marked (i_nodes st1) (i_delimiters st1)"
      using Suc.prems(2) set_update_subset_insert [of ?delims closer "(?delims ! closer)\<lparr>d_active := False\<rparr>"]
      by (fastforce simp: st1_def runs_marked_def)
    ultimately have "unmarked (slots_text (i_nodes st')) = unmarked (slots_text (i_nodes st1))"
      using Suc.prems(3) alone by (intro Suc.IH [of st1 "Suc closer"]) (simp_all add: st1_def Let_def)
    then show ?thesis by (simp add: st1_def split: if_splits)
  next
    case pair
    have found: "opener < closer" "opens_for (?delims ! closer) (?delims ! opener)"
      using find_opener_found [OF pair(3)] by simp_all
    have active: "d_active (?delims ! opener)" "d_active (?delims ! closer)"
      "0 < d_count (?delims ! opener)" "0 < d_count (?delims ! closer)"
      using found(2) pair(2) by (auto simp: opens_for_def)
    note wrapped = wrap_pair_text [OF Suc.prems(1,2) found(1) pair(1) active(1,2)]
    have "unmarked (slots_text (i_nodes st')) = unmarked (slots_text (i_nodes (wrap_pair opener closer st)))"
      using Suc.prems(3) pair wrapped(2) wrap_pair_facts(3) [OF Suc.prems(1) found(1) pair(1) active(3,4)]
      by (intro Suc.IH [of "wrap_pair opener closer st" closer]) (simp_all add: Let_def)
    then show ?thesis using wrapped(1) by simp
  qed
qed simp

lemma process_emphasis_text:
  assumes "runs_ok (i_nodes st) (i_delimiters st)" and "runs_marked (i_nodes st) (i_delimiters st)"
    and "process_emphasis floor st = Some st'"
  shows "unmarked (slots_text (i_nodes st')) = unmarked (slots_text (i_nodes st))"
  using emphasis_loop_text [OF assms(1,2)] assms(3) compact_text
  by (auto simp: process_emphasis_def compact_nodes_def split: if_splits simp del: not_None_eq)

end
