(* ===== verification/InlineProps.thy ===== *)
theory InlineProps
  imports Emphasis "HOL-Library.Sublist"
begin

text \<open>
  What the inline parser keeps from step to step: the stacks of delimiters and brackets point into the
  nodes in their order, there are no holes, and each step goes on in the text. What the nodes are made of
  is an interface, \<open>inline_nodes\<close>: two predicates that pass from parts to the whole, the second of which
  must hold of what a link contains.
\<close>

section \<open>The stacks point into the nodes\<close>

definition brackets_ok :: "md_node option list \<Rightarrow> delimiter list \<Rightarrow> bracket list \<Rightarrow> bool" where
  "brackets_ok nodes delims brackets \<longleftrightarrow> sorted_wrt (<) (map k_position brackets) \<and>
     (\<forall>k \<in> set brackets. k_position k < length nodes \<and> k_delimiters k \<le> length delims \<and>
        (\<forall>i < length delims. if i < k_delimiters k then d_index (delims ! i) < k_position k else k_position k < d_index (delims ! i)))"

definition stacks_ok :: "inline_state \<Rightarrow> bool" where
  "stacks_ok st \<longleftrightarrow> None \<notin> set (i_nodes st) \<and> runs_ok (i_nodes st) (i_delimiters st) \<and>
     runs_marked (i_nodes st) (i_delimiters st) \<and> brackets_ok (i_nodes st) (i_delimiters st) (i_brackets st)"

lemma stacks_ok_same:
  "i_nodes st' = i_nodes st \<Longrightarrow> i_delimiters st' = i_delimiters st \<Longrightarrow> i_brackets st' = i_brackets st \<Longrightarrow>
   stacks_ok st \<Longrightarrow> stacks_ok st'"
  by (simp add: stacks_ok_def)

lemma put_node_simps [simp]:
  "i_nodes (put_node node st) = i_nodes st @ [Some node]" "i_delimiters (put_node node st) = i_delimiters st"
  "i_brackets (put_node node st) = i_brackets st" "i_position (put_node node st) = i_position st"
  "i_pending (put_node node st) = i_pending st"
  by (simp_all add: put_node_def)

lemma take_text_simps [simp]:
  "i_nodes (take_text s n st) = i_nodes st" "i_delimiters (take_text s n st) = i_delimiters st"
  "i_brackets (take_text s n st) = i_brackets st" "i_position (take_text s n st) = i_position st + n"
  "i_nodes (move_by n st) = i_nodes st" "i_delimiters (move_by n st) = i_delimiters st"
  "i_brackets (move_by n st) = i_brackets st" "i_position (move_by n st) = i_position st + n"
  by (simp_all add: take_text_def move_by_def)

lemma flush_text_simps [simp]:
  "i_delimiters (flush_text st) = i_delimiters st" "i_brackets (flush_text st) = i_brackets st"
  "i_position (flush_text st) = i_position st" "i_pending (flush_text st) = []"
  by (simp_all add: flush_text_def)

lemma emit_node_simps [simp]:
  "i_delimiters (emit_node node st) = i_delimiters st" "i_brackets (emit_node node st) = i_brackets st"
  "i_position (emit_node node st) = i_position st"
  by (simp_all add: emit_node_def)

lemma runs_append: "runs_ok nodes delims \<Longrightarrow> runs_ok (nodes @ others) delims"
  by (auto simp: runs_ok_def)

lemma marked_append: "runs_ok nodes delims \<Longrightarrow> runs_marked nodes delims \<Longrightarrow> runs_marked (nodes @ others) delims"
  by (auto simp: runs_ok_def runs_marked_def nth_append)

lemma stacks_ok_put: "stacks_ok st \<Longrightarrow> stacks_ok (put_node node st)"
  unfolding stacks_ok_def by (auto simp: runs_append marked_append) (force simp: brackets_ok_def)

lemma stacks_ok_flush: "stacks_ok st \<Longrightarrow> stacks_ok (flush_text st)"
  by (auto simp: flush_text_def intro!: stacks_ok_put elim: stacks_ok_same [rotated 3])

lemma stacks_ok_emit: "stacks_ok st \<Longrightarrow> stacks_ok (emit_node node st)"
  by (simp add: emit_node_def stacks_ok_put stacks_ok_flush)

lemma stacks_ok_text: "stacks_ok st \<Longrightarrow> stacks_ok (take_text s n st)" "stacks_ok st \<Longrightarrow> stacks_ok (move_by n st)"
  by (auto elim: stacks_ok_same [rotated 3])

lemma stacks_ok_open: "stacks_ok st \<Longrightarrow> stacks_ok (handle_open_bracket picture rest st)"
proof -
  assume ok: "stacks_ok st"
  define st1 where "st1 = flush_text st"
  have st1: "stacks_ok st1" unfolding st1_def by (rule stacks_ok_flush [OF ok])
  let ?node = "literal_node K_Text (take (if picture then 2 else 1) rest)"
  let ?bracket = "\<lparr>k_position = length (i_nodes st1), k_delimiters = length (i_delimiters st1), k_image = picture, k_active = True\<rparr>"
  have "brackets_ok (i_nodes st1 @ [Some ?node]) (i_delimiters st1) (i_brackets st1 @ [?bracket])"
    using st1 by (auto simp: stacks_ok_def brackets_ok_def runs_ok_def sorted_wrt_append less_Suc_eq)
  then show ?thesis
    using stacks_ok_put [OF st1, of ?node]
    by (simp add: handle_open_bracket_def Let_def stacks_ok_def emit_node_def flip: st1_def)
qed

lemma stacks_ok_run:
  assumes ok: "stacks_ok st" and c: "is_marker c"
  shows "stacks_ok (handle_delimiter_run input c st)"
proof -
  define run where "run = takeWhile (\<lambda>d. d = c) (drop (i_position st) input)"
  define st1 where "st1 = flush_text (st\<lparr>i_position := i_position st + length run\<rparr>)"
  have st1: "stacks_ok st1"
    unfolding st1_def by (rule stacks_ok_flush) (rule stacks_ok_same [OF _ _ _ ok]; simp)
  have "list_all is_marker run" using c by (auto simp: run_def list_all_iff dest: set_takeWhileD)
  then have clean: "unmarked (node_text (literal_node K_Text run)) = []"
    by (simp add: unmarked_def list_all_iff literal_node_def)
  obtain d where d: "handle_delimiter_run input c st =
      (put_node (literal_node K_Text run) st1)\<lparr>i_delimiters := i_delimiters st1 @ [d]\<rparr>"
    "d_index d = length (i_nodes st1)" "d_character d = c"
    by (simp add: handle_delimiter_run_def Let_def run_def [symmetric] st1_def [symmetric] del: flush_text_simps)
  have "runs_ok (i_nodes st1 @ [Some (literal_node K_Text run)]) (i_delimiters st1 @ [d])"
    using st1 d(2) by (auto simp: stacks_ok_def runs_ok_def sorted_wrt_append)
  moreover have "runs_marked (i_nodes st1 @ [Some (literal_node K_Text run)]) (i_delimiters st1 @ [d])"
    using st1 d(2,3) c clean by (auto simp: stacks_ok_def runs_marked_def runs_ok_def nth_append)
  moreover have "brackets_ok (i_nodes st1 @ [Some (literal_node K_Text run)]) (i_delimiters st1 @ [d]) (i_brackets st1)"
    using st1 d(2) by (auto simp: stacks_ok_def brackets_ok_def nth_append less_Suc_eq)
  ultimately show ?thesis using st1 by (simp add: d(1) stacks_ok_def)
qed

section \<open>What follows a link\<close>

lemma suffix_tl: "suffix (tl xs) xs"
  by (cases xs) (auto intro: suffix_ConsI)

lemma closed_text_suffix: "closed_text closer stops s = Some (body, after) \<Longrightarrow> suffix after s"
proof (induction closer stops s arbitrary: body rule: closed_text.induct)
  case (3 closer stops c d rest)
  have "suffix after (d # rest) \<Longrightarrow> suffix after (c # d # rest)" "suffix after rest \<Longrightarrow> suffix after (c # d # rest)"
    by (simp_all add: suffix_ConsI)
  then show ?case using 3 by (auto split: if_splits simp: suffix_ConsI)
qed (auto split: if_splits)

lemma bare_link_destination_suffix: "bare_link_destination depth s = (body, after) \<Longrightarrow> suffix after s"
proof (induction depth s arbitrary: body rule: bare_link_destination.induct)
  case (2 depth c rest)
  have up: "suffix after rest \<Longrightarrow> suffix after (c # rest)" "suffix after (tl rest) \<Longrightarrow> suffix after (c # rest)"
    using suffix_order.trans [OF _ suffix_tl, of after rest] by (auto intro: suffix_ConsI)
  show ?case using 2 up by (auto split: if_splits prod.splits)
qed simp

lemma link_title_body_suffix: "link_title_body closer s = Some (body, after) \<Longrightarrow> suffix after s"
proof (induction closer s arbitrary: body rule: link_title_body.induct)
  case (2 closer c rest)
  have up: "suffix after rest \<Longrightarrow> suffix after (c # rest)" "suffix after (tl rest) \<Longrightarrow> suffix after (c # rest)"
    using suffix_order.trans [OF _ suffix_tl, of after rest] by (auto intro: suffix_ConsI)
  show ?case using 2 up by (auto split: if_splits intro: suffix_ConsI)
qed simp

lemma resolve_link_suffix:
  assumes "resolve_link rest = Some (url, title, after)" shows "suffix after rest"
proof -
  obtain destination rest1 name rest2 where "link_destination (dropWhile md_space (tl rest)) = Some (destination, rest1)"
    "link_title (dropWhile md_space rest1) = Some (name, rest2)" "after = tl (dropWhile md_space rest2)"
    using assms by (auto simp: resolve_link_def Let_def Option.bind_eq_Some_conv split: if_splits)
  moreover from this(1) have "suffix rest1 (dropWhile md_space (tl rest))"
    using suffix_order.trans [OF closed_text_suffix suffix_tl]
    by (auto simp: link_destination_def split: if_splits dest: bare_link_destination_suffix)
  moreover from calculation(2) have "suffix rest2 (dropWhile md_space rest1)"
    using suffix_order.trans [OF link_title_body_suffix suffix_tl] by (auto simp: link_title_def split: if_splits)
  ultimately show ?thesis
    using suffix_tl suffix_dropWhile by (metis suffix_order.trans)
qed

lemma link_target_suffix:
  assumes "link_target references from rest st = Some (url, title, after)" shows "suffix after rest"
proof (cases "resolve_link rest")
  case None
  obtain label rest' where explicit: "explicit_label rest = (label, rest')" by fastforce
  then have "suffix rest' rest" by (auto simp: explicit_label_def suffix_drop split: if_splits option.splits)
  then show ?thesis using assms None explicit by (auto simp: link_target_def split: option.splits)
next
  case (Some target)
  then show ?thesis using assms resolve_link_suffix by (auto simp: link_target_def)
qed

lemma attach_attribute_block_suffix: "attach_attribute_block rest = Some (attributes, after) \<Longrightarrow> suffix after rest"
  by (auto simp: attach_attribute_block_def suffix_drop split: if_splits option.splits
      intro: suffix_order.trans [OF suffix_drop suffix_tl])

section \<open>The closing bracket\<close>

text \<open>What \<open>finish_link\<close> finds: the nodes before the bracket, and those the link takes.\<close>

lemma stop_outer_simps [simp]:
  "map k_position (stop_outer brackets) = map k_position brackets"
  "k \<in> set (stop_outer brackets) \<Longrightarrow> \<exists>k' \<in> set brackets. k_position k = k_position k' \<and> k_delimiters k = k_delimiters k' \<and> k_image k = k_image k' \<and>
     (k_active k \<longrightarrow> k_active k' \<and> k_image k)"
  by (auto simp: stop_outer_def)

definition linked :: "bracket \<Rightarrow> md_node \<Rightarrow> string \<Rightarrow> nat \<Rightarrow> inline_state \<Rightarrow> inline_state" where
  "linked bracket link after len st =
     st\<lparr>i_nodes := take (k_position bracket) (i_nodes st) @ [Some link], i_position := len - length after,
        i_brackets := (if k_image bracket then i_brackets st else stop_outer (i_brackets st))\<rparr>"

definition link_node :: "bracket \<Rightarrow> string \<Rightarrow> string \<Rightarrow> (string \<times> string) list \<Rightarrow> inline_state \<Rightarrow> md_node" where
  "link_node bracket url title attributes st =
     Md_Node (if k_image bracket then K_Image else K_Link) (no_fields\<lparr>f_url := url, f_title := title, f_attributes := attributes\<rparr>)
       (map the (drop (Suc (k_position bracket)) (i_nodes st)))"

lemma finish_link_cases:
  assumes ok: "stacks_ok st" and bracket: "brackets_ok (i_nodes st) (i_delimiters st) (i_brackets st @ [bracket])"
  obtains st1 where "process_emphasis (k_delimiters bracket) (flush_text st) = Some st1"
    and "resolved (k_delimiters bracket) (Suc (k_position bracket)) (flush_text st) st1"
    and "finish_link bracket (url, title, rest) len st =
      map_option (\<lambda>(attributes, after). linked bracket (link_node bracket url title attributes st1) after len st1)
        (attach_attribute_block rest)"
proof -
  have flushed: "stacks_ok (flush_text st)" by (rule stacks_ok_flush [OF ok])
  have "\<forall>k < length (i_delimiters (flush_text st)). k_delimiters bracket \<le> k \<longrightarrow>
      Suc (k_position bracket) \<le> d_index (i_delimiters (flush_text st) ! k)"
    using bracket by (auto simp: brackets_ok_def Suc_le_eq linorder_not_less [symmetric])
  then obtain st1 where "process_emphasis (k_delimiters bracket) (flush_text st) = Some st1"
      "resolved (k_delimiters bracket) (Suc (k_position bracket)) (flush_text st) st1"
    using process_emphasis_ends [of "flush_text st" "k_delimiters bracket" "Suc (k_position bracket)"] flushed
    by (auto simp: stacks_ok_def)
  then show ?thesis
    using that by (cases "attach_attribute_block rest") (auto simp: finish_link_def linked_def link_node_def Let_def)
qed

lemma brackets_ok_part:
  assumes "brackets_ok nodes delims (brackets @ [k])"
  shows "brackets_ok nodes delims brackets" "\<forall>k' \<in> set brackets. k_position k' < k_position k" "k_position k < length nodes"
    "\<forall>i < length delims. i < k_delimiters k \<longrightarrow> d_index (delims ! i) < k_position k"
  using assms by (auto simp: brackets_ok_def sorted_wrt_append)

lemma brackets_ok_stop: "brackets_ok nodes delims brackets \<Longrightarrow> brackets_ok nodes delims (stop_outer brackets)"
  unfolding brackets_ok_def by (metis stop_outer_simps)

lemma stacks_ok_linked:
  assumes ok: "stacks_ok st" and bracket: "brackets_ok (i_nodes st) (i_delimiters st) (i_brackets st @ [bracket])"
    and resolved: "resolved (k_delimiters bracket) (Suc (k_position bracket)) (flush_text st) st1"
  shows "stacks_ok (linked bracket link after len st1)"
proof (cases "i_delimiters st1 = [] \<and> i_brackets st1 = []")
  case True
  have "None \<notin> set (take (k_position bracket) (i_nodes st1))" using resolved by (auto simp: resolved_def dest: in_set_takeD)
  then show ?thesis
    using True by (simp add: stacks_ok_def linked_def runs_ok_def runs_marked_def brackets_ok_def stop_outer_def)
next
  case False
  then have st1: "st1 = flush_text st" and few: "length (i_delimiters st) \<le> k_delimiters bracket"
    using resolved by (auto simp: resolved_def)
  have flushed: "stacks_ok st1" unfolding st1 by (rule stacks_ok_flush [OF ok])
  let ?nodes = "take (k_position bracket) (i_nodes st1) @ [Some link]"
  have pos: "k_position bracket < length (i_nodes st1)"
    using brackets_ok_part(3) [OF bracket] by (simp add: st1 flush_text_def)
  have below: "\<forall>d \<in> set (i_delimiters st1). d_index d < k_position bracket"
    using brackets_ok_part(4) [OF bracket] few by (auto simp: st1 in_set_conv_nth)
  have "None \<notin> set ?nodes" using flushed by (auto simp: stacks_ok_def dest: in_set_takeD)
  moreover have "runs_ok ?nodes (i_delimiters st1)"
    using flushed below pos by (fastforce simp: stacks_ok_def runs_ok_def)
  moreover have "runs_marked ?nodes (i_delimiters st1)"
    using flushed below pos by (simp add: stacks_ok_def runs_marked_def nth_append)
  moreover have "brackets_ok ?nodes (i_delimiters st1) (i_brackets st1)"
    using brackets_ok_part(1,2) [OF bracket] pos by (auto simp: st1 brackets_ok_def)
  ultimately show ?thesis
    by (simp add: stacks_ok_def linked_def brackets_ok_stop)
qed

section \<open>Every step goes on\<close>

lemma decode_entity_moves: "decode_entity s = Some (n, decoded) \<Longrightarrow> 0 < n"
  by (auto simp: decode_entity_def Let_def split: if_splits option.splits)

lemma raw_html_moves: "raw_html_length rest = Some n \<Longrightarrow> 0 < n"
  by (auto simp: raw_html_length_def end_of_def split: if_splits)

lemma scanned_moves:
  "scan_autolink rest = Some scanned \<Longrightarrow> 0 < snd scanned" "scan_raw_html rest = Some scanned \<Longrightarrow> 0 < snd scanned"
  "scan_footnote_reference rest = Some scanned \<Longrightarrow> 0 < snd scanned" "scan_math rest = Some scanned \<Longrightarrow> 0 < snd scanned"
  by (auto simp: scan_autolink_def scan_raw_html_def scan_footnote_reference_def scan_math_def Let_def
      split: option.splits if_splits dest: raw_html_moves)

definition step_ok :: "string \<Rightarrow> inline_state \<Rightarrow> inline_state option \<Rightarrow> bool" where
  "step_ok input st result \<longleftrightarrow>
     (case result of
        None \<Rightarrow> \<exists>n. attach_attribute_block (drop n input) = None
      | Some st' \<Rightarrow> stacks_ok st' \<and> i_position st < i_position st')"

lemma step_ok_Some [simp]: "step_ok input st (Some st') \<longleftrightarrow> stacks_ok st' \<and> i_position st < i_position st'"
  by (simp add: step_ok_def)

lemma emit_scanned_ok: "stacks_ok st \<Longrightarrow> 0 < snd scanned \<Longrightarrow> step_ok input st (Some (emit_scanned scanned st))"
  by (simp add: emit_scanned_def stacks_ok_emit stacks_ok_text)

lemma handlers_ok:
  assumes ok: "stacks_ok st"
  shows "step_ok input st (Some (handle_backslash rest st))" "step_ok input st (Some (handle_entity rest st))"
    "rest \<noteq> [] \<Longrightarrow> hd rest = CHR 0x60 \<Longrightarrow> step_ok input st (Some (handle_code_span rest st))"
    "step_ok input st (Some (handle_angle rest st))" "step_ok input st (Some (handle_newline rest st))"
    "step_ok input st (Some (handle_open_bracket picture rest st))" "step_ok input st (Some (take_text [c] 1 st))"
proof -
  note texts = stacks_ok_text stacks_ok_put stacks_ok_flush stacks_ok_emit
  have angle: "scan_autolink rest = Some scanned \<or> scan_raw_html rest = Some scanned \<Longrightarrow> step_ok input st (Some (emit_scanned scanned st))" for scanned
    using emit_scanned_ok [OF ok] scanned_moves(1,2) by blast
  show "step_ok input st (Some (handle_backslash rest st))"
    using ok by (simp add: handle_backslash_def Let_def texts)
  show "step_ok input st (Some (handle_entity rest st))"
    using ok by (auto simp: handle_entity_def texts decode_entity_moves split: option.split)
  show "step_ok input st (Some (handle_angle rest st))"
    using angle ok by (cases "scan_autolink rest"; cases "scan_raw_html rest") (simp_all add: handle_angle_def texts)
  show "step_ok input st (Some (handle_newline rest st))"
  proof -
    have "stacks_ok (st\<lparr>i_pending := s\<rparr>)" for s by (rule stacks_ok_same [OF _ _ _ ok]) simp_all
    then show ?thesis by (simp add: handle_newline_def Let_def texts)
  qed
  show "step_ok input st (Some (handle_open_bracket picture rest st))"
    using stacks_ok_open [OF ok] by (simp add: handle_open_bracket_def Let_def)
  show "step_ok input st (Some (take_text [c] 1 st))" using ok by (simp add: texts)
  show "step_ok input st (Some (handle_code_span rest st))" if "rest \<noteq> []" "hd rest = CHR 0x60"
  proof -
    have "0 < backticks rest" using that by (cases rest) (simp_all add: backticks_def)
    then show ?thesis using ok by (auto simp: handle_code_span_def Let_def texts split: option.split)
  qed
qed

lemma run_step_ok:
  assumes "stacks_ok st" and "is_marker c" and "drop (i_position st) input = c # rest"
  shows "step_ok input st (Some (handle_delimiter_run input c st))"
  using stacks_ok_run [OF assms(1,2), of input] assms(3) by (simp add: handle_delimiter_run_def Let_def)

lemma closing_ok:
  assumes ok: "stacks_ok st" and position: "i_position st < length input"
  shows "step_ok input st (handle_close_bracket references input st)"
proof (cases "i_brackets st = []")
  case True
  then show ?thesis using ok by (simp add: handle_close_bracket_def stacks_ok_text)
next
  case False
  define bracket where "bracket = last (i_brackets st)"
  define st1 where "st1 = st\<lparr>i_brackets := butlast (i_brackets st)\<rparr>"
  define rest where "rest = drop (Suc (i_position st)) input"
  have stack: "i_brackets st = i_brackets st1 @ [bracket]" using False by (simp add: st1_def bracket_def)
  have same: "i_nodes st1 = i_nodes st" "i_delimiters st1 = i_delimiters st" "i_position st1 = i_position st"
    by (simp_all add: st1_def)
  have whole: "brackets_ok (i_nodes st1) (i_delimiters st1) (i_brackets st1 @ [bracket])"
    using ok unfolding stacks_ok_def same stack by blast
  have st1: "stacks_ok st1" "i_position st1 = i_position st"
    using ok brackets_ok_part(1) [OF whole] unfolding stacks_ok_def same by blast+
  have plain: "step_ok input st (Some (take_text '']'' 1 st1))"
    using st1 by (simp add: stacks_ok_text)
  show ?thesis
  proof (cases "k_active bracket \<and> link_target references (Suc (k_position bracket)) rest st1 \<noteq> None")
    case False
    then show ?thesis
      using plain \<open>i_brackets st \<noteq> []\<close> by (auto simp: handle_close_bracket_def Let_def simp flip: bracket_def st1_def rest_def split: option.split)
  next
    case True
    then obtain url title after where target: "link_target references (Suc (k_position bracket)) rest st1 = Some (url, title, after)"
      by auto
    obtain st2 where st2: "resolved (k_delimiters bracket) (Suc (k_position bracket)) (flush_text st1) st2"
      and finished: "finish_link bracket (url, title, after) (length input) st1 =
        map_option (\<lambda>(attributes, after'). linked bracket (link_node bracket url title attributes st2) after' (length input) st2)
          (attach_attribute_block after)"
      by (rule finish_link_cases [OF st1(1) whole])
    have eq: "handle_close_bracket references input st = finish_link bracket (url, title, after) (length input) st1"
      using target True \<open>i_brackets st \<noteq> []\<close>
      by (simp add: handle_close_bracket_def Let_def flip: bracket_def st1_def rest_def)
    have "suffix after rest" by (rule link_target_suffix [OF target])
    then have part: "suffix after input" by (metis rest_def suffix_drop suffix_order.trans)
    show ?thesis
    proof (cases "attach_attribute_block after")
      case None
      then have "attach_attribute_block (drop (length input - length after) input) = None"
        using part by (metis suffix_def append_eq_conv_conj length_append add_diff_cancel_right')
      then show ?thesis using finished None by (auto simp: eq step_ok_def)
    next
      case (Some attached)
      then obtain attributes after' where attached: "attach_attribute_block after = Some (attributes, after')" by (cases attached) auto
      have "length after' \<le> length rest"
        using suffix_length_le [OF attach_attribute_block_suffix [OF attached]] suffix_length_le [OF \<open>suffix after rest\<close>] by simp
      then have "i_position st < length input - length after'" using position by (simp add: rest_def)
      then show ?thesis
        using finished attached stacks_ok_linked [OF st1(1) whole st2] by (simp add: eq linked_def)
    qed
  qed
qed

lemma inline_step_ok:
  assumes ok: "stacks_ok st" and position: "i_position st < length input"
  shows "step_ok input st (inline_step references input st)"
proof -
  obtain c rest where rest: "drop (i_position st) input = c # rest"
    using position by (cases "drop (i_position st) input") simp_all
  have first: "char_ahead (c # rest) 0 = c" by (simp add: char_ahead_def)
  have footnote: "step_ok input st (case if b then scan_footnote_reference r else None of
      Some scanned \<Rightarrow> Some (emit_scanned scanned st) | None \<Rightarrow> Some (handle_open_bracket False r st))" for b r
    using emit_scanned_ok [OF ok scanned_moves(3)] handlers_ok(6) [OF ok, of input False r]
    by (cases "if b then scan_footnote_reference r else None") (simp_all split: if_splits)
  have math: "step_ok input st (case scan_math r of Some scanned \<Rightarrow> Some (emit_scanned scanned st) | None \<Rightarrow> Some (take_text [c] 1 st))" for r
    using emit_scanned_ok [OF ok scanned_moves(4)] handlers_ok(7) [OF ok, of input c] by (cases "scan_math r") simp_all
  have picture: "step_ok input st (Some (if b then handle_open_bracket True r st else take_text [c] 1 st))" for b r
    using handlers_ok(6,7) [OF ok] by simp
  note handlers = handlers_ok [OF ok, where input = input] run_step_ok [OF ok _ rest] closing_ok [OF ok position] footnote math picture
  have either: "(b \<Longrightarrow> step_ok input st x) \<Longrightarrow> (\<not> b \<Longrightarrow> step_ok input st y) \<Longrightarrow> step_ok input st (if b then x else y)" for b x y by simp
  show ?thesis
    unfolding inline_step_def Let_def rest first
    by (intro either handlers) (auto simp: is_marker_def)
qed

section \<open>The whole text\<close>

lemma start_inline_ok: "stacks_ok start_inline"
  by (simp add: stacks_ok_def start_inline_def runs_ok_def runs_marked_def brackets_ok_def)

lemma inline_loop_ok:
  "stacks_ok st \<Longrightarrow> length input - i_position st < fuel \<Longrightarrow>
   (case inline_loop fuel references input st of
      None \<Rightarrow> \<exists>n. attach_attribute_block (drop n input) = None
    | Some st' \<Rightarrow> stacks_ok st')"
proof (induction fuel arbitrary: st)
  case (Suc fuel)
  show ?case
  proof (cases "i_position st < length input")
    case True
    note step = inline_step_ok [OF Suc.prems(1) True, of references]
    show ?thesis
    proof (cases "inline_step references input st")
      case None
      then show ?thesis using step True by (simp add: step_ok_def)
    next
      case (Some st1)
      have "stacks_ok st1" "length input - i_position st1 < fuel" using step Some True Suc.prems(2) by auto
      then show ?thesis using Some True Suc.IH [of st1] by simp
    qed
  qed (use Suc.prems in simp)
qed simp

lemma inline_loop_stacks:
  assumes "inline_loop fuel references input st = Some st'" and "stacks_ok st"
  shows "stacks_ok st'"
  using assms
proof (induction fuel arbitrary: st)
  case (Suc fuel)
  show ?case
  proof (cases "i_position st < length input")
    case True
    then obtain st1 where "inline_step references input st = Some st1" "inline_loop fuel references input st1 = Some st'"
      using Suc.prems(1) by (auto simp: Option.bind_eq_Some_conv)
    then show ?thesis using inline_step_ok [OF Suc.prems(2) True, of references] Suc.IH by simp
  qed (use Suc.prems in simp)
qed simp

lemma inline_loop_ends:
  assumes "\<forall>n. attach_attribute_block (drop n input) \<noteq> None" and "length input < fuel"
  shows "\<exists>st. inline_loop fuel references input start_inline = Some st \<and> stacks_ok st"
proof (cases "inline_loop fuel references input start_inline")
  case None
  then show ?thesis
    using inline_loop_ok [OF start_inline_ok, of input fuel references] assms by (simp add: start_inline_def)
next
  case (Some st)
  then show ?thesis using inline_loop_stacks [OF Some start_inline_ok] by simp
qed

lemma last_emphasis:
  assumes "stacks_ok st"
  shows "\<exists>st'. process_emphasis 0 (flush_text st) = Some st' \<and> resolved 0 0 (flush_text st) st'"
  using stacks_ok_flush [OF assms] by (intro process_emphasis_ends) (simp_all add: stacks_ok_def)

lemma parse_inline_text_ends:
  assumes "\<forall>n. attach_attribute_block (drop n input) \<noteq> None"
  shows "\<exists>nodes. parse_inline_text references input = Some nodes"
proof -
  obtain st1 where st1: "inline_loop (Suc (length input)) references input start_inline = Some st1" "stacks_ok st1"
    using inline_loop_ends [OF assms, of "Suc (length input)"] by blast
  then show ?thesis
    using last_emphasis [OF st1(2)] by (auto simp: parse_inline_text_def simp del: inline_loop.simps)
qed

text \<open>
  The inline parser ends on every text in which no attribute block goes on for ever: each step moves
  forward, the resolution of emphasis takes a marker away or goes on to the next run at each turn, and no
  index leaves the nodes. (That some attribute blocks never end is a defect of their own.)
\<close>

theorem inline_parsing_ends:
  assumes "\<forall>n. attach_attribute_block (drop n input) \<noteq> None"
  shows "parse_inline_text references input \<noteq> None"
  using parse_inline_text_ends [OF assms] by auto

lemma no_brace_no_block: "CHR ''{'' \<notin> set input \<Longrightarrow> attach_attribute_block (drop n input) \<noteq> None"
proof -
  assume "CHR ''{'' \<notin> set input"
  then have "drop n input = [] \<or> hd (drop n input) \<noteq> CHR ''{''" by (metis hd_in_set in_set_dropD)
  then show ?thesis by (simp add: attach_attribute_block_def)
qed

theorem inline_parsing_ends_witness: "parse_inline_text [] ''*a* [b **c](d) `e` <f''  \<noteq> None"
  by (rule inline_parsing_ends) (simp add: no_brace_no_block)

text \<open>
  C13. Resolving the emphasis of a text loses nothing and moves nothing: whatever the steps before it left,
  the text of the nodes after it is the text before it, in the same order, but for asterisks, underscores
  and tildes.
\<close>

theorem emphasis_keeps_text:
  assumes "inline_loop fuel references input start_inline = Some st"
  shows "\<exists>st'. process_emphasis 0 (flush_text st) = Some st' \<and>
    unmarked (slots_text (i_nodes st')) = unmarked (slots_text (i_nodes (flush_text st)))"
proof -
  note ok = inline_loop_stacks [OF assms start_inline_ok]
  then show ?thesis
    using last_emphasis [OF ok] process_emphasis_text [of "flush_text st"] stacks_ok_flush [OF ok]
    by (auto simp: stacks_ok_def)
qed

theorem emphasis_keeps_text_witness:
  "\<exists>st st'. inline_loop 20 [] ''a **b *c*** d'' start_inline = Some st \<and> process_emphasis 0 (flush_text st) = Some st' \<and>
    unmarked (slots_text (i_nodes st')) = unmarked (slots_text (i_nodes (flush_text st)))"
proof -
  obtain st where "inline_loop 20 [] ''a **b *c*** d'' start_inline = Some st"
    using inline_loop_ends [of "''a **b *c*** d''" 20 "[]"] no_brace_no_block [of "''a **b *c*** d''"] by auto
  then show ?thesis using emphasis_keeps_text by blast
qed

section \<open>What the nodes are made of\<close>

definition leaf_kinds :: "md_kind list" where
  "leaf_kinds = [K_Text, K_Soft_Break, K_Line_Break, K_Code_Span, K_Html_Inline, K_Footnote_Ref, K_Math]"

definition made :: "(md_node \<Rightarrow> bool) \<Rightarrow> (md_node \<Rightarrow> bool) \<Rightarrow> inline_state \<Rightarrow> bool" where
  "made P F st \<longleftrightarrow> slots_all P (i_nodes st) \<and>
     (\<forall>k \<in> set (i_brackets st). k_active k \<and> \<not> k_image k \<longrightarrow> slots_all F (drop (Suc (k_position k)) (i_nodes st)))"

lemma made_same: "i_nodes st' = i_nodes st \<Longrightarrow> i_brackets st' = i_brackets st \<Longrightarrow> made P F st \<Longrightarrow> made P F st'"
  by (simp add: made_def)

lemma slots_all_the: "slots_all P slots \<Longrightarrow> None \<notin> set slots \<Longrightarrow> list_all P (map the slots)"
  by (induction slots) auto

locale inline_nodes =
  fixes P F :: "md_node \<Rightarrow> bool" and angles :: bool
  assumes leaf: "kind \<in> set leaf_kinds \<Longrightarrow> P (Md_Node kind data []) \<and> F (Md_Node kind data [])"
    and wrapped: "list_all P nodes \<Longrightarrow> P (Md_Node (wrapper_kind c used) no_fields nodes)"
      "list_all F nodes \<Longrightarrow> F (Md_Node (wrapper_kind c used) no_fields nodes)"
    and autolink: "angles \<Longrightarrow> P (Md_Node K_Link data [literal_node K_Text body]) \<and> F (Md_Node K_Link data [literal_node K_Text body])"
    and link: "list_all P nodes \<Longrightarrow> list_all F nodes \<Longrightarrow> P (Md_Node K_Link data nodes)"
    and image: "list_all P nodes \<Longrightarrow> P (Md_Node K_Image data nodes)" "list_all F nodes \<Longrightarrow> F (Md_Node K_Image data nodes)"
begin

lemma closed: "wrap_closed P" "wrap_closed F"
  using leaf [of K_Text] wrapped by (simp_all add: wrap_closed_def literal_node_def leaf_kinds_def)

lemma made_put: "made P F st \<Longrightarrow> P node \<Longrightarrow> F node \<Longrightarrow> made P F (put_node node st)"
  by (auto simp: made_def intro: slots_all_part)

lemma leaf_literal: "kind \<in> set leaf_kinds \<Longrightarrow> P (literal_node kind s) \<and> F (literal_node kind s)"
  "kind \<in> set leaf_kinds \<Longrightarrow> P (bare_node kind) \<and> F (bare_node kind)"
  by (simp_all add: literal_node_def bare_node_def leaf)

lemma made_flush: "made P F st \<Longrightarrow> made P F (flush_text st)"
  using leaf_literal(1) [of K_Text]
  by (auto simp: flush_text_def leaf_kinds_def intro!: made_put elim: made_same [rotated 2])

lemma made_emit: "made P F st \<Longrightarrow> P node \<Longrightarrow> F node \<Longrightarrow> made P F (emit_node node st)"
  by (simp add: emit_node_def made_put made_flush)

lemma made_text: "made P F st \<Longrightarrow> made P F (take_text s n st)" "made P F st \<Longrightarrow> made P F (move_by n st)"
  by (auto elim: made_same [rotated 2])

lemma made_pending: "made P F st \<Longrightarrow> made P F (st\<lparr>i_pending := s\<rparr>)" "made P F st \<Longrightarrow> made P F (st\<lparr>i_position := n\<rparr>)"
  by (auto elim: made_same [rotated 2])

lemma made_scanned: "made P F st \<Longrightarrow> P (fst scanned) \<and> F (fst scanned) \<Longrightarrow> made P F (emit_scanned scanned st)"
  by (simp add: emit_scanned_def made_text made_emit)

lemma scanned_nodes:
  "angles \<Longrightarrow> scan_autolink rest = Some scanned \<Longrightarrow> P (fst scanned) \<and> F (fst scanned)"
  "scan_raw_html rest = Some scanned \<Longrightarrow> P (fst scanned) \<and> F (fst scanned)"
  "scan_footnote_reference rest = Some scanned \<Longrightarrow> P (fst scanned) \<and> F (fst scanned)"
  "scan_math rest = Some scanned \<Longrightarrow> P (fst scanned) \<and> F (fst scanned)"
  using autolink leaf [of K_Footnote_Ref] leaf [of K_Math] leaf_literal(1) [of K_Html_Inline]
  by (auto simp: scan_autolink_def scan_raw_html_def scan_footnote_reference_def scan_math_def Let_def leaf_kinds_def
      split: option.splits if_splits)

lemma made_open: "made P F st \<Longrightarrow> made P F (handle_open_bracket picture rest st)"
proof -
  assume "made P F st"
  then have "made P F (emit_node (literal_node K_Text (take (if picture then 2 else 1) rest)) st)"
    using leaf_literal(1) [of K_Text] by (intro made_emit) (simp_all add: leaf_kinds_def)
  then show ?thesis by (auto simp: handle_open_bracket_def Let_def made_def)
qed

lemma made_run: "made P F st \<Longrightarrow> made P F (handle_delimiter_run input c st)"
proof -
  assume "made P F st"
  then have "made P F (put_node (literal_node K_Text s) (flush_text (st\<lparr>i_position := n\<rparr>)))" for s n
    using leaf_literal(1) [of K_Text] by (intro made_put made_flush made_pending) (simp_all add: leaf_kinds_def)
  then show ?thesis by (simp add: handle_delimiter_run_def Let_def made_def)
qed

lemma made_linked:
  assumes ok: "stacks_ok st" and whole: "brackets_ok (i_nodes st) (i_delimiters st) (i_brackets st @ [bracket])"
    and made: "made P F st" and active: "\<not> k_image bracket \<Longrightarrow> slots_all F (drop (Suc (k_position bracket)) (i_nodes st))"
    and resolved: "resolved (k_delimiters bracket) (Suc (k_position bracket)) (flush_text st) st1"
  shows "made P F (linked bracket (link_node bracket url title attributes st1) after len st1)"
proof -
  let ?keep = "Suc (k_position bracket)" and ?node = "link_node bracket url title attributes st1"
  have flushed: "made P F (flush_text st)" by (rule made_flush [OF made])
  have full: "None \<notin> set (drop ?keep (i_nodes st1))" using resolved by (auto simp: resolved_def dest: in_set_dropD)
  have inside: "slots_all P (drop ?keep (i_nodes st1))"
    using resolved closed(1) flushed by (simp add: resolved_def made_def slots_all_part)
  have before: "slots_all P (take (k_position bracket) (i_nodes st1))"
  proof -
    have "take (k_position bracket) (i_nodes st1) = take (k_position bracket) (take ?keep (i_nodes st1))" by simp
    also have "\<dots> = take (k_position bracket) (i_nodes (flush_text st))" using resolved by (simp add: resolved_def)
    finally show ?thesis using flushed by (simp add: made_def slots_all_part)
  qed
  have outside: "slots_all F (drop ?keep (i_nodes (flush_text st)))" if "\<not> k_image bracket"
    using active [OF that] leaf_literal(1) [of K_Text] by (auto simp: flush_text_def leaf_kinds_def intro: slots_all_part)
  have node: "P ?node"
    using slots_all_the [OF inside full] link image(1) outside resolved closed(2) slots_all_the [of F "drop ?keep (i_nodes st1)"] full
    by (cases "k_image bracket") (auto simp: link_node_def resolved_def)
  have "slots_all F (drop (Suc (k_position k)) (take (k_position bracket) (i_nodes st1) @ [Some ?node]))"
    if k: "k \<in> set (i_brackets st1)" "k_active k" "\<not> k_image k" and picture: "k_image bracket" for k
  proof -
    have st1: "st1 = flush_text st" using k(1) resolved by (auto simp: resolved_def)
    have below: "k_position k < k_position bracket" using brackets_ok_part(2) [OF whole] k(1) st1 by simp
    have F: "slots_all F (drop (Suc (k_position k)) (i_nodes st1))" using flushed k st1 by (simp add: made_def)
    then have "slots_all F (drop ?keep (i_nodes st1))"
      using slots_all_part(2) [OF F, of "k_position bracket - k_position k"] below by simp
    then have "F ?node" using slots_all_the [OF _ full] image(2) picture by (simp add: link_node_def)
    moreover have "slots_all F (drop (Suc (k_position k)) (take (k_position bracket) (i_nodes st1)))"
      using slots_all_part(1) [OF F] by (simp add: drop_take)
    ultimately show ?thesis by (simp add: slots_all_part)
  qed
  moreover have "k \<in> set (stop_outer brackets) \<Longrightarrow> k_active k \<Longrightarrow> k_image k" for k brackets
    using stop_outer_simps(2) by blast
  ultimately show ?thesis using before node by (auto simp: made_def linked_def)
qed

lemma made_close:
  assumes ok: "stacks_ok st" and made: "made P F st" and step: "handle_close_bracket references input st = Some st'"
  shows "made P F st'"
proof (cases "i_brackets st = []")
  case True
  then show ?thesis using step made by (auto simp: handle_close_bracket_def made_text)
next
  case False
  define bracket where "bracket = last (i_brackets st)"
  define st1 where "st1 = st\<lparr>i_brackets := butlast (i_brackets st)\<rparr>"
  define rest where "rest = drop (Suc (i_position st)) input"
  have stack: "i_brackets st = i_brackets st1 @ [bracket]" using False by (simp add: st1_def bracket_def)
  have same: "i_nodes st1 = i_nodes st" "i_delimiters st1 = i_delimiters st" by (simp_all add: st1_def)
  have whole: "brackets_ok (i_nodes st1) (i_delimiters st1) (i_brackets st1 @ [bracket])"
    using ok unfolding stacks_ok_def same stack by blast
  have st1: "stacks_ok st1" using ok brackets_ok_part(1) [OF whole] unfolding stacks_ok_def same by blast
  have made1: "made P F st1" using made unfolding made_def same stack by simp
  have inner: "k_active bracket \<and> \<not> k_image bracket \<Longrightarrow> slots_all F (drop (Suc (k_position bracket)) (i_nodes st1))"
    using made unfolding made_def same stack by simp
  show ?thesis
  proof (cases "k_active bracket \<and> link_target references (Suc (k_position bracket)) rest st1 \<noteq> None")
    case False
    then have "st' = take_text '']'' 1 st1"
      using step \<open>i_brackets st \<noteq> []\<close>
      by (auto simp: handle_close_bracket_def Let_def simp flip: bracket_def st1_def rest_def split: if_splits option.splits)
    then show ?thesis using made_text made1 by simp
  next
    case True
    then obtain url title after where target: "link_target references (Suc (k_position bracket)) rest st1 = Some (url, title, after)"
      by auto
    obtain st2 where st2: "resolved (k_delimiters bracket) (Suc (k_position bracket)) (flush_text st1) st2"
      and finished: "finish_link bracket (url, title, after) (length input) st1 =
        map_option (\<lambda>(attributes, after'). linked bracket (link_node bracket url title attributes st2) after' (length input) st2)
          (attach_attribute_block after)"
      by (rule finish_link_cases [OF st1 whole])
    have "finish_link bracket (url, title, after) (length input) st1 = Some st'"
      using step target True \<open>i_brackets st \<noteq> []\<close>
      by (simp add: handle_close_bracket_def Let_def flip: bracket_def st1_def rest_def)
    then obtain attributes after' where "st' = linked bracket (link_node bracket url title attributes st2) after' (length input) st2"
      using finished by auto
    then show ?thesis using made_linked [OF st1 whole made1 _ st2] inner True by simp
  qed
qed

lemma made_handlers:
  assumes made: "made P F st"
  shows "made P F (handle_backslash rest st)" "made P F (handle_entity rest st)" "made P F (handle_code_span rest st)"
    "angles \<Longrightarrow> made P F (handle_angle rest st)" "made P F (handle_newline rest st)"
proof -
  have kinds: "K_Line_Break \<in> set leaf_kinds" "K_Soft_Break \<in> set leaf_kinds" "K_Code_Span \<in> set leaf_kinds"
    by (simp_all add: leaf_kinds_def)
  note texts = made_text made_flush made_emit made_put made_pending leaf_literal kinds
  show "made P F (handle_backslash rest st)" using made by (simp add: handle_backslash_def Let_def texts)
  show "made P F (handle_entity rest st)" using made by (auto simp: handle_entity_def texts split: option.split)
  show "made P F (handle_code_span rest st)" using made by (auto simp: handle_code_span_def Let_def texts split: option.split)
  show "made P F (handle_newline rest st)" using made by (simp add: handle_newline_def Let_def texts)
  show "made P F (handle_angle rest st)" if angles
    using made made_scanned [OF made] scanned_nodes(1,2) that
    by (cases "scan_autolink rest"; cases "scan_raw_html rest") (simp_all add: handle_angle_def texts)
qed

lemma made_step:
  assumes ok: "stacks_ok st" and made: "made P F st" and position: "i_position st < length input"
    and angle: "CHR ''<'' \<in> set input \<longrightarrow> angles" and step: "inline_step references input st = Some st'"
  shows "made P F st'"
proof -
  obtain c rest where rest: "drop (i_position st) input = c # rest"
    using position by (cases "drop (i_position st) input") simp_all
  have first: "char_ahead (c # rest) 0 = c" by (simp add: char_ahead_def)
  have "c \<in> set input" using rest by (metis in_set_dropD list.set_intros(1))
  then have angle': "c = CHR ''<'' \<Longrightarrow> angles" using angle by blast
  define all where "all = (\<lambda>result. pred_option (made P F) result)"
  have some: "all (Some st1) \<longleftrightarrow> made P F st1" for st1 by (simp add: all_def)
  have either: "(b \<Longrightarrow> all x) \<Longrightarrow> (\<not> b \<Longrightarrow> all y) \<Longrightarrow> all (if b then x else y)" for b x y by simp
  have footnote: "all (case if b then scan_footnote_reference r else None of
      Some scanned \<Rightarrow> Some (emit_scanned scanned st) | None \<Rightarrow> Some (handle_open_bracket False r st))" for b r
    using made_scanned [OF made scanned_nodes(3)] made_open [OF made]
    by (cases "if b then scan_footnote_reference r else None") (simp_all add: some split: if_splits)
  have math: "all (case scan_math r of Some scanned \<Rightarrow> Some (emit_scanned scanned st) | None \<Rightarrow> Some (take_text [c] 1 st))" for r
    using made_scanned [OF made scanned_nodes(4)] made_text(1) [OF made] by (cases "scan_math r") (simp_all add: some)
  have picture: "all (Some (if b then handle_open_bracket True r st else take_text [c] 1 st))" for b r
    using made_open [OF made] made_text(1) [OF made] by (simp add: some)
  have close: "all (handle_close_bracket references input st)"
    using made_close [OF ok made] by (cases "handle_close_bracket references input st") (simp_all add: all_def)
  note handlers = made_handlers [OF made, folded some] made_run [OF made, folded some] made_text(1) [OF made, folded some]
    footnote math picture close
  have "all (inline_step references input st)"
    unfolding inline_step_def Let_def rest first by (intro either handlers angle')
  then show ?thesis using step by (simp add: some)
qed

lemma made_loop:
  assumes "inline_loop fuel references input st = Some st'" and "stacks_ok st" and "made P F st"
    and angle: "CHR ''<'' \<in> set input \<longrightarrow> angles"
  shows "made P F st'"
  using assms(1-3)
proof (induction fuel arbitrary: st)
  case (Suc fuel)
  show ?case
  proof (cases "i_position st < length input")
    case True
    then obtain st1 where st1: "inline_step references input st = Some st1" "inline_loop fuel references input st1 = Some st'"
      using Suc.prems(1) by (auto simp: Option.bind_eq_Some_conv)
    then show ?thesis
      using inline_step_ok [OF Suc.prems(2) True, of references] made_step [OF Suc.prems(2,3) True angle st1(1)] Suc.IH by simp
  qed (use Suc.prems in simp)
qed simp

lemma parsed_nodes:
  assumes parsed: "parse_inline_text references input = Some nodes" and angle: "CHR ''<'' \<in> set input \<longrightarrow> angles"
  shows "list_all P nodes"
proof -
  obtain st1 st2 where st1: "inline_loop (Suc (length input)) references input start_inline = Some st1"
    and st2: "process_emphasis 0 (flush_text st1) = Some st2" "nodes = map the (i_nodes st2)"
    using parsed by (auto simp: parse_inline_text_def Option.bind_eq_Some_conv simp del: inline_loop.simps)
  have ok: "stacks_ok st1" by (rule inline_loop_stacks [OF st1 start_inline_ok])
  have "made P F start_inline" by (simp add: made_def start_inline_def)
  then have "made P F (flush_text st1)" by (intro made_flush made_loop [OF st1 start_inline_ok _ angle])
  then have "slots_all P (i_nodes st2)" "None \<notin> set (i_nodes st2)"
    using last_emphasis [OF ok] st2(1) closed(1) by (auto simp: resolved_def made_def)
  then show ?thesis using slots_all_the st2(2) by simp
qed

end

section \<open>The shape of inline nodes\<close>

definition span_kinds :: "md_kind list" where
  "span_kinds = [K_Emphasis, K_Strong, K_Strikethrough, K_Link, K_Image]"

fun inline_shaped :: "md_node \<Rightarrow> bool" where
  "inline_shaped (Md_Node kind data nodes) \<longleftrightarrow>
     (kind \<in> set leaf_kinds \<and> nodes = [] \<or> kind \<in> set span_kinds) \<and> (\<forall>node \<in> set nodes. inline_shaped node)"

lemma wrapper_span: "wrapper_kind c used \<in> set span_kinds" "wrapper_kind c used \<noteq> K_Link"
  by (simp_all add: wrapper_kind_def span_kinds_def)

interpretation shaped: inline_nodes inline_shaped "\<lambda>_. True" True
  by unfold_locales
    (simp_all add: wrapper_span list_all_iff literal_node_def, simp_all add: leaf_kinds_def span_kinds_def)

section \<open>Links never nest\<close>

fun link_free :: "md_node \<Rightarrow> bool" where
  "link_free (Md_Node kind data nodes) \<longleftrightarrow> kind \<noteq> K_Link \<and> (\<forall>node \<in> set nodes. link_free node)"

fun unnested :: "md_node \<Rightarrow> bool" where
  "unnested (Md_Node kind data nodes) \<longleftrightarrow>
     (kind = K_Link \<longrightarrow> (\<forall>node \<in> set nodes. link_free node)) \<and> (\<forall>node \<in> set nodes. unnested node)"

interpretation unnested: inline_nodes unnested link_free False
  by unfold_locales
    (simp_all add: wrapper_span list_all_iff literal_node_def, auto simp: leaf_kinds_def)

text \<open>
  C14. A link never holds a link, at any depth, also not through emphasis or the text of an image, in a text
  without angle brackets: making a link puts every bracket before it out. An autolink is not such a link
  and does nest.
\<close>

theorem links_never_nest:
  assumes "parse_inline_text references input = Some nodes" and "CHR ''<'' \<notin> set input"
  shows "list_all unnested nodes"
  using assms by (intro unnested.parsed_nodes [of references input]) simp_all

theorem links_never_nest_witness:
  "\<exists>nodes. parse_inline_text [] ''[a ![b [c](d)](e)](f)'' = Some nodes \<and> list_all unnested nodes"
proof -
  obtain nodes where "parse_inline_text [] ''[a ![b [c](d)](e)](f)'' = Some nodes"
    using parse_inline_text_ends [of "''[a ![b [c](d)](e)](f)''" "[]"] no_brace_no_block [of "''[a ![b [c](d)](e)](f)''"] by auto
  then show ?thesis using links_never_nest by auto
qed

end
