(* ===== verification/MarkdownProps.thy ===== *)
theory MarkdownProps
  imports Markdown BlockProps InlineProps
begin

text \<open>
  The shape of the tree: what the block parser builds, the inline nodes put into it and the numbering of the
  footnotes all keep to the nesting the renderer walks.
\<close>

section \<open>The shape of a document\<close>

definition may_stand :: "md_kind \<Rightarrow> md_kind \<Rightarrow> bool" where
  "may_stand parent child \<longleftrightarrow> may_hold parent child \<or> parent = K_Document \<and> child = K_Footnotes \<or>
     parent = K_Footnotes \<and> child = K_Footnote_Item"

definition holds_spans :: "md_kind \<Rightarrow> bool" where
  "holds_spans kind \<longleftrightarrow> holds_text kind \<or> kind = K_Footnote_Item"

fun md_shaped :: "md_node \<Rightarrow> bool" where
  "md_shaped (Md_Node kind data nodes) \<longleftrightarrow>
     (if holds_spans kind then \<forall>node \<in> set nodes. inline_shaped node
      else \<forall>node \<in> set nodes. may_stand kind (md_kind node) \<and> md_shaped node)"

lemma text_holds_nothing: "holds_text kind \<Longrightarrow> \<not> may_hold kind child"
  by (auto simp: holds_text_def may_hold_def)

lemma kinds_all:
  assumes "map md_kind nodes' = map md_kind nodes" and "\<forall>n \<in> set nodes. Q (md_kind n)"
  shows "\<forall>n \<in> set nodes'. Q (md_kind n)"
proof -
  have "md_kind ` set nodes' = md_kind ` set nodes" using assms(1) by (metis list.set_map)
  then show ?thesis using assms(2) by (metis (no_types, lifting) image_iff)
qed

lemma parse_inlines_shaped:
  "well_shaped node \<Longrightarrow> parse_inlines references node = Some node' \<Longrightarrow> md_shaped node' \<and> md_kind node' = md_kind node"
  "list_all well_shaped nodes \<Longrightarrow> parse_all_inlines references nodes = Some nodes' \<Longrightarrow>
     list_all md_shaped nodes' \<and> map md_kind nodes' = map md_kind nodes"
proof (induction references node and references nodes arbitrary: node' and nodes' rule: parse_inlines_parse_all_inlines.induct)
  case (1 references kind data nodes)
  show ?case
  proof (cases "holds_text kind")
    case True
    then have "nodes = []" using "1.prems"(1) text_holds_nothing by (cases nodes) auto
    then show ?thesis
      using True "1.prems"(2) shaped.parsed_nodes by (auto simp: holds_spans_def list_all_iff)
  next
    case False
    then obtain nodes' where nodes': "parse_all_inlines references nodes = Some nodes'" "node' = Md_Node kind data nodes'"
      using "1.prems"(2) by auto
    have "list_all well_shaped nodes" using "1.prems"(1) by (simp add: list_all_iff)
    note inside = "1.IH" [OF False this nodes'(1)]
    have "\<forall>n \<in> set nodes'. may_hold kind (md_kind n)"
      using inside "1.prems"(1) by (intro kinds_all [of nodes' nodes]) simp_all
    moreover have "kind \<noteq> K_Footnote_Item \<or> nodes' = []"
      using "1.prems"(1) nodes'(1) by (cases nodes) (auto simp: may_hold_def)
    ultimately show ?thesis
      using conjunct1 [OF inside] False nodes'(2) by (auto simp: holds_spans_def may_stand_def list_all_iff)
  qed
next
  case (3 references node nodes)
  then show ?case by (auto simp: Option.bind_eq_Some_conv)
qed simp_all

lemma number_keeps_shape:
  "number_node footnotes seen node = (seen', node') \<Longrightarrow>
     md_kind node' = md_kind node \<and> (inline_shaped node \<longrightarrow> inline_shaped node') \<and> (md_shaped node \<longrightarrow> md_shaped node')"
  "number_nodes footnotes seen nodes = (seen', nodes') \<Longrightarrow>
     map md_kind nodes' = map md_kind nodes \<and> (list_all inline_shaped nodes \<longrightarrow> list_all inline_shaped nodes') \<and>
     (list_all md_shaped nodes \<longrightarrow> list_all md_shaped nodes')"
proof (induction footnotes seen node and footnotes seen nodes arbitrary: seen' node' and seen' nodes'
    rule: number_node_number_nodes.induct)
  case (1 footnotes seen kind data nodes)
  obtain seen1 data1 where one: "(if kind = K_Footnote_Ref then number_reference footnotes seen data else (seen, data)) = (seen1, data1)"
    by fastforce
  obtain seen2 nodes2 where two: "number_nodes footnotes seen1 nodes = (seen2, nodes2)" by fastforce
  have eq: "node' = Md_Node kind data1 nodes2" using "1.prems" one two by simp
  note inside = "1.IH" [OF one [symmetric] two]
  have "nodes = [] \<Longrightarrow> nodes2 = []" using inside by simp
  moreover have "\<forall>n \<in> set nodes. may_stand kind (md_kind n) \<Longrightarrow> \<forall>n \<in> set nodes2. may_stand kind (md_kind n)"
    using inside by (intro kinds_all [of nodes2 nodes]) simp_all
  ultimately show ?case using inside by (auto simp: eq list_all_iff)
next
  case (3 footnotes seen node nodes)
  then show ?case by (auto split: prod.splits)
qed simp_all

lemma those_items: "those (map f xs) = Some ys \<Longrightarrow> \<forall>y \<in> set ys. \<exists>x \<in> set xs. f x = Some y"
  by (induction xs arbitrary: ys) (fastforce split: option.splits)+

end
