(* ===== verification/MarkdownEnds.thy ===== *)
theory MarkdownEnds
  imports MarkdownProps
begin

text \<open>
  No text of a document holds a character the document does not: nothing the block parser keeps has a
  brace when the input has none, so no attribute block hangs and the whole parser ends.
\<close>

section \<open>Texts without a brace\<close>

definition clean :: "string \<Rightarrow> bool" where
  "clean s \<longleftrightarrow> CHR ''{'' \<notin> set s"

named_theorems clean_simps

lemma clean_basic [clean_simps]:
  "clean []" "clean (c # s) \<longleftrightarrow> c \<noteq> CHR ''{'' \<and> clean s" "clean (as @ bs) \<longleftrightarrow> clean as \<and> clean bs" "clean (rev s) \<longleftrightarrow> clean s"
  by (auto simp: clean_def)

lemma clean_subset: "set t \<subseteq> set s \<Longrightarrow> clean s \<Longrightarrow> clean t"
  by (auto simp: clean_def)

lemma clean_parts [intro]:
  "clean s \<Longrightarrow> clean (take n s)" "clean s \<Longrightarrow> clean (drop n s)" "clean s \<Longrightarrow> clean (tl s)"
  "clean s \<Longrightarrow> clean (takeWhile P s)" "clean s \<Longrightarrow> clean (dropWhile P s)" "clean s \<Longrightarrow> clean (butlast s)"
  by (auto simp: clean_def dest: in_set_takeD in_set_dropD set_takeWhileD set_dropWhileD in_set_butlastD list.set_sel(2) [rotated])
    (metis list.sel(2) list.set_sel(2))

lemma clean_trim [intro]: "clean s \<Longrightarrow> clean (trim_start s)" "clean s \<Longrightarrow> clean (trim_end s)" "clean s \<Longrightarrow> clean (trim s)"
  by (auto simp: trim_start_def trim_end_def trim_def clean_basic split: option.split)

lemma clean_suffix: "suffix t s \<Longrightarrow> clean s \<Longrightarrow> clean t"
  by (auto simp: suffix_def clean_basic)

lemma clean_split_lines: "clean s \<Longrightarrow> \<forall>line \<in> set (split_lines s). clean line"
proof (induction s rule: split_lines.induct)
  case (1 s)
  show ?case
  proof (cases "find_pos (\<lambda>c. c = CHR 0x0A) s")
    case None
    then show ?thesis using 1 by (subst split_lines.simps) simp
  next
    case (Some n)
    then show ?thesis using 1 by (subst split_lines.simps) (auto simp: strip_cr_def clean_basic)
  qed
qed

lemma clean_split_at: "clean s \<Longrightarrow> \<forall>part \<in> set (split_at s c). clean part"
proof (induction s c rule: split_at.induct)
  case (1 s c)
  show ?case
  proof (cases "find_pos (\<lambda>d. d = c) s")
    case None
    then show ?thesis using 1 by (subst split_at.simps) simp
  next
    case (Some n)
    then show ?thesis using 1 by (subst split_at.simps) auto
  qed
qed

lemma clean_join: "\<forall>part \<in> set parts. clean part \<Longrightarrow> c \<noteq> CHR ''{'' \<Longrightarrow> clean (join_with c parts)"
  by (induction c parts rule: join_with.induct) (auto simp: clean_basic)

section \<open>Lines and definitions\<close>

definition clean_scanner :: "scanner \<Rightarrow> bool" where
  "clean_scanner s \<longleftrightarrow> clean (sc_line s)"

lemma clean_rest: "clean_scanner s \<Longrightarrow> clean (sc_rest s)"
  by (simp add: clean_scanner_def sc_rest_def clean_def)

lemma clean_advance: "clean_scanner s \<Longrightarrow> clean_scanner (sc_advance s)"
  by (auto simp: clean_scanner_def sc_advance_def clean_simps split: list.split)

lemma clean_advances: "clean_scanner s \<Longrightarrow> clean_scanner ((sc_advance ^^ n) s)"
  by (induction n) (simp_all add: clean_advance)

lemma clean_skip_from: "clean_scanner s \<Longrightarrow> clean_scanner (skip_from started limit s)"
proof (induction started limit s rule: skip_from.induct)
  case (1 started limit s)
  have "clean_scanner (split_tab started limit s)"
    using "1.prems" by (auto simp: clean_scanner_def split_tab_def Let_def)
  then show ?case
    using 1 clean_advance by (subst skip_from.simps) simp
qed

lemma clean_skip: "clean_scanner s \<Longrightarrow> clean_scanner (snd (skip_spaces_to limit s))"
  by (simp add: skip_spaces_to_def Let_def clean_skip_from)

lemma clean_past_quote: "clean_scanner s \<Longrightarrow> clean_scanner (past_quote s)"
  by (simp add: past_quote_def Let_def clean_advance)

lemma clean_atx: "match_atx_heading rest = Some (level, content) \<Longrightarrow> clean rest \<Longrightarrow> clean content"
  by (auto simp: match_atx_heading_def atx_content_def Let_def clean_basic split: if_splits)

lemma clean_row_cells: "clean s \<Longrightarrow> clean cell \<Longrightarrow> \<forall>part \<in> set (row_cells cell s). clean part"
  by (induction cell s rule: row_cells.induct) (auto simp: clean_simps)

lemma clean_table_row: "clean line \<Longrightarrow> \<forall>cell \<in> set (split_table_row line). clean cell"
  unfolding split_table_row_def Let_def by (intro clean_row_cells) (auto simp: clean_simps)

lemma clean_unescape: "clean cell \<Longrightarrow> clean (unescape_pipes cell)"
  by (induction cell rule: unescape_pipes.induct) (auto simp: clean_simps)

lemma clean_drop_blank: "\<forall>line \<in> set lines. clean line \<Longrightarrow> \<forall>line \<in> set (drop_blank_lines lines). clean line"
  by (induction lines) auto

lemma clean_indented: "clean body \<Longrightarrow> clean (indented_code body)"
proof -
  assume "clean body"
  then have "\<forall>line \<in> set (drop_blank_lines (rev (split_at body (CHR 0x0A)))). clean line"
    using clean_split_at by (intro clean_drop_blank) simp
  then show ?thesis
    by (auto simp: indented_code_def clean_basic intro!: clean_join split: list.split)
qed

lemma clean_detail: "clean rest \<Longrightarrow> clean (detail_text rest)"
  by (auto simp: detail_text_def)

lemma label_part_suffix: "label_part depth label s = Some (l, after) \<Longrightarrow> suffix after s"
proof (induction depth label s rule: label_part.induct)
  case (3 depth label c d rest)
  have "suffix after (d # rest) \<Longrightarrow> suffix after (c # d # rest)" "suffix after rest \<Longrightarrow> suffix after (c # d # rest)"
    by (simp_all add: suffix_ConsI)
  then show ?case using 3 by (auto split: if_splits simp: suffix_ConsI)
qed (auto split: if_splits)

lemma bare_destination_suffix: "bare_destination s = (body, after) \<Longrightarrow> suffix after s"
proof (induction s arbitrary: body rule: bare_destination.induct)
  case (3 c d rest)
  have "suffix after (d # rest) \<Longrightarrow> suffix after (c # d # rest)" "suffix after rest \<Longrightarrow> suffix after (c # d # rest)"
    by (simp_all add: suffix_ConsI)
  then show ?case using 3 by (auto split: if_splits prod.splits)
qed (auto split: if_splits)

lemma clean_line_done: "line_done s = Some after \<Longrightarrow> clean s \<Longrightarrow> clean after"
proof -
  assume ended: "line_done s = Some after" and "clean s"
  then have "clean (dropWhile is_space_or_tab s)" by blast
  then show ?thesis using ended by (auto simp: line_done_def clean_simps split: list.splits if_splits)
qed

lemma clean_title: "read_definition_title s separated = Some (title, after) \<Longrightarrow> clean s \<Longrightarrow> clean after"
  by (auto simp: read_definition_title_def clean_simps split: list.splits if_splits option.splits
      dest!: closed_text_suffix elim!: clean_line_done intro: clean_suffix)

lemma clean_definition_end: "definition_end s = Some (title, after) \<Longrightarrow> clean s \<Longrightarrow> clean after"
proof -
  assume ended: "definition_end s = Some (title, after)" and s: "clean s"
  have "clean (dropWhile is_space_or_tab s)" using s by blast
  moreover from this have "clean (dropWhile is_space_or_tab (tl (dropWhile is_space_or_tab s)))" by blast
  ultimately show ?thesis
    using ended s by (auto simp: definition_end_def Let_def split: option.splits if_splits elim: clean_line_done dest: clean_title)
qed

lemma clean_reference: "parse_reference_definition input references = Some (after, references') \<Longrightarrow> clean input \<Longrightarrow> clean after"
proof -
  assume parsed: "parse_reference_definition input references = Some (after, references')" and input: "clean input"
  obtain label input1 where label: "read_definition_label input = Some (label, input1)"
    using parsed by (cases "read_definition_label input") (auto simp: parse_reference_definition_def)
  obtain destination angled input2 where destination: "read_definition_destination input1 = Some (destination, angled, input2)"
    using parsed label by (cases "read_definition_destination input1") (auto simp: parse_reference_definition_def)
  have ended: "\<exists>title. definition_end input2 = Some (title, after)"
  proof (cases "definition_end input2")
    case None
    then show ?thesis using parsed label destination by (simp add: parse_reference_definition_def split: if_splits)
  next
    case (Some found)
    obtain title after1 where found: "found = (title, after1)" by fastforce
    have "after1 = after"
      using parsed label destination Some found by (simp add: parse_reference_definition_def split: if_splits)
    then show ?thesis using Some found by simp
  qed
  obtain inside tail where inside: "dropWhile is_space_or_tab input = CHR ''['' # inside" "label_part 0 [] inside = Some (label, tail)"
      "input1 = dropWhile md_space (tl tail)"
    using label by (auto simp: read_definition_label_def split: list.splits if_splits option.splits)
  have "clean (CHR ''['' # inside)" using input inside(1) by (metis clean_parts(5))
  then have "clean tail" using clean_suffix [OF label_part_suffix [OF inside(2)]] by (simp add: clean_simps)
  then have "clean input1" using inside(3) by blast
  moreover have "suffix input2 input1"
    using destination suffix_order.trans [OF closed_text_suffix suffix_tl]
    by (auto simp: read_definition_destination_def split: if_splits prod.splits dest: bare_destination_suffix)
  ultimately show ?thesis using ended clean_definition_end clean_suffix by blast
qed

definition clean_notes :: "footnote_map \<Rightarrow> bool" where
  "clean_notes footnotes \<longleftrightarrow> (\<forall>body \<in> snd ` set footnotes. clean body)"

lemma clean_footnote:
  assumes "parse_footnote_definition input footnotes = Some (after, footnotes')" and "clean input" and "clean_notes footnotes"
  shows "clean after \<and> clean_notes footnotes'"
proof -
  define body where "body = dropWhile is_space_or_tab (drop 2 (dropWhile footnote_character (drop 2 (dropWhile is_space_or_tab input))))"
  have "clean body" unfolding body_def using assms(2) by blast
  then have "clean (drop n body)" "clean (takeWhile P body)" for n P by blast+
  then show ?thesis
    using assms(1,3)
    by (auto simp: parse_footnote_definition_def Let_def add_first_def clean_notes_def simp flip: body_def split: if_splits)
qed

lemma clean_definitions:
  "take_definitions remaining references footnotes = (remaining', references', footnotes') \<Longrightarrow> clean remaining \<Longrightarrow>
   clean_notes footnotes \<Longrightarrow> clean remaining' \<and> clean_notes footnotes'"
proof (induction remaining references footnotes rule: take_definitions.induct)
  case (1 remaining references footnotes)
  note unfolded = take_definitions.simps [of remaining references footnotes]
  show ?case
  proof (cases "remaining = []")
    case False
    show ?thesis
    proof (cases "parse_footnote_definition remaining footnotes")
      case None
      show ?thesis
      proof (cases "parse_reference_definition remaining references")
        case (Some found)
        obtain after references1 where found: "found = (after, references1)" by fastforce
        have "take_definitions after references1 footnotes = (remaining', references', footnotes')"
          using "1.prems"(1) unfolded False None Some found by simp
        then show ?thesis
          using "1.IH"(1) [OF False None Some found [symmetric]] "1.prems"(3) clean_reference [of remaining references after references1]
            Some found "1.prems"(2) by simp
      qed (use "1.prems" unfolded False None in simp)
    next
      case (Some found)
      obtain after footnotes1 where found: "found = (after, footnotes1)" by fastforce
      have "take_definitions after references footnotes1 = (remaining', references', footnotes')"
        using "1.prems"(1) unfolded False Some found by simp
      moreover have "clean after \<and> clean_notes footnotes1"
        using clean_footnote [of remaining footnotes after footnotes1] Some found "1.prems"(2,3) by simp
      ultimately show ?thesis using "1.IH"(2) [OF False Some found [symmetric]] by simp
    qed
  qed (use "1.prems" unfolded in simp)
qed

section \<open>The nodes\<close>

definition clean_block :: "block \<Rightarrow> bool" where
  "clean_block b \<longleftrightarrow> clean (b_content b) \<and> clean (f_literal b)"

definition clean_state :: "block_state \<Rightarrow> bool" where
  "clean_state st \<longleftrightarrow> (\<forall>b \<in> set (bs_nodes st). clean_block b) \<and> clean_notes (bs_footnotes st)"

lemma clean_new_block: "clean_block (new_block kind)"
  by (simp add: clean_block_def new_block_def clean_basic)

lemma clean_node_of: "clean_state st \<Longrightarrow> n < arena_size st \<Longrightarrow> clean (b_content (node_of st n)) \<and> clean (f_literal (node_of st n))"
  by (simp add: clean_state_def node_of_def clean_block_def)

lemma clean_change:
  assumes "clean_state st" and "\<And>b. clean_block b \<Longrightarrow> clean_block (f b)"
  shows "clean_state (change_node n f st)"
proof (cases "n < arena_size st")
  case True
  then have "clean_block (f (bs_nodes st ! n))" using assms by (simp add: clean_state_def)
  then show ?thesis
    using assms(1) set_update_subset_insert [of "bs_nodes st" n "f (bs_nodes st ! n)"]
    by (auto simp: clean_state_def change_node_def)
qed (use assms(1) in \<open>simp add: clean_state_def change_node_def list_update_beyond\<close>)

lemma clean_nodes: "bs_nodes st' = bs_nodes st \<Longrightarrow> bs_footnotes st' = bs_footnotes st \<Longrightarrow> clean_state st \<Longrightarrow> clean_state st'"
  by (simp add: clean_state_def)

lemma clean_updates:
  "clean_state st \<Longrightarrow> clean_state (set_tip n st)" "clean_state st \<Longrightarrow> clean_state (st\<lparr>bs_consumed := c\<rparr>)"
  "clean_state st \<Longrightarrow> clean_state (st\<lparr>bs_alignments := a\<rparr>)"
  "clean_state st \<Longrightarrow> clean_notes notes \<Longrightarrow> clean_state (st\<lparr>bs_references := references, bs_footnotes := notes\<rparr>)"
  by (simp_all add: clean_state_def set_tip_def)

lemma clean_append: "clean_state st \<Longrightarrow> clean_block node \<Longrightarrow> clean_state (snd (append_new parent node st))"
proof -
  assume st: "clean_state st" and node: "clean_block node"
  then have "clean_state (st\<lparr>bs_nodes := bs_nodes st @ [node\<lparr>b_parent := Some parent\<rparr>]\<rparr>)"
    by (auto simp: clean_state_def clean_block_def)
  then show ?thesis
    unfolding append_new_def Let_def snd_conv by (rule clean_change) (simp add: clean_block_def)
qed

lemma clean_detach: "clean_state st \<Longrightarrow> clean_state (detach n st)"
  by (auto simp: detach_def clean_block_def intro!: clean_change split: option.split)

lemma clean_loosen: "clean_state st \<Longrightarrow> clean_state (loosen n st)"
  by (auto simp: loosen_def clean_block_def intro!: clean_change)

section \<open>Closing blocks\<close>

lemma clean_cells: "clean_state st \<Longrightarrow> \<forall>cell \<in> set cells. clean cell \<Longrightarrow> clean_state (add_cells row header aligns cells st)"
proof (induction row header aligns cells st rule: add_cells.induct)
  case (2 row header align aligns cells st)
  have "clean_block (cell_block header align (if cells = [] then [] else hd cells))"
    using "2.prems"(2) clean_unescape by (simp add: cell_block_def clean_block_def new_block_def clean_basic)
  moreover have "\<forall>cell \<in> set (tl cells). clean cell" using "2.prems"(2) by (cases cells) auto
  ultimately show ?case using 2 clean_append by simp
qed simp

lemma clean_rows: "clean_state st \<Longrightarrow> \<forall>line \<in> set lines. clean line \<Longrightarrow> clean_state (add_rows table header lines st)"
proof (induction table header lines st rule: add_rows.induct)
  case (2 table header line lines st)
  have "clean_state (snd (append_new table ((new_block K_Table_Row)\<lparr>f_header := header\<rparr>) st))"
    using "2.prems"(1) clean_new_block by (intro clean_append) (simp_all add: clean_block_def)
  then show ?case
    using 2 clean_cells [OF _ clean_table_row] by (auto simp: append_new_def Let_def)
qed simp

lemma clean_finalize:
  assumes st: "clean_state st" and n: "n < arena_size st"
  shows "clean_state (finalize_block n st)"
proof -
  note content = clean_node_of [OF st n]
  obtain remaining references footnotes where taken:
    "take_definitions (b_content (node_of st n)) (bs_references st) (bs_footnotes st) = (remaining, references, footnotes)"
    by (metis prod_cases3)
  have "clean remaining \<and> clean_notes footnotes"
    using clean_definitions [OF taken] content st by (simp add: clean_state_def)
  then have kept: "clean_state (change_node n (\<lambda>b. b\<lparr>b_content := []\<rparr>) (st\<lparr>bs_references := references, bs_footnotes := footnotes\<rparr>))"
    and remaining: "clean (trim remaining)"
    using st by (auto intro!: clean_change clean_updates simp: clean_block_def clean_basic)
  have "clean_state (finalize_paragraph n st)"
    using kept remaining clean_detach clean_change [OF kept, of "\<lambda>b. b\<lparr>f_literal := trim remaining\<rparr>" n]
    by (simp add: finalize_paragraph_def taken Let_def clean_block_def)
  moreover have "clean_state (finalize_code n st)" "clean_state (finalize_text n st)" "clean_state (finalize_list n st)"
    using st clean_indented clean_loosen
    by (auto simp: finalize_code_def finalize_text_def finalize_list_def clean_block_def clean_basic intro!: clean_change)
  moreover have "clean_state (finalize_table n st)"
    unfolding finalize_table_def using st content clean_split_lines
    by (intro clean_rows clean_change) (auto simp: clean_block_def clean_basic)
  ultimately show ?thesis using st by (simp add: finalize_block_def Let_def)
qed

lemma clean_close: "clean_state st \<Longrightarrow> n < arena_size st \<Longrightarrow> clean_state (close_block n st)"
  unfolding close_block_def Let_def
  by (auto simp: clean_block_def intro!: clean_updates clean_finalize clean_change)

lemma clean_close_while:
  assumes "\<And>st. going st \<Longrightarrow> bs_tip st \<noteq> 0"
  shows "good st \<Longrightarrow> clean_state st \<Longrightarrow> close_while fuel going st = Some st' \<Longrightarrow> clean_state st'"
proof (induction fuel arbitrary: st)
  case (Suc fuel)
  show ?case
  proof (cases "going st")
    case True
    note tip = close_tip(1) [OF Suc.prems(1) assms [OF True]]
    have "clean_state (close_block (bs_tip st) st)" by (rule clean_close [OF Suc.prems(2) goodD(3) [OF Suc.prems(1)]])
    then show ?thesis using Suc.IH [OF tip] Suc.prems(3) True by simp
  qed (use Suc.prems in simp)
qed (auto split: if_splits)

lemma clean_close_paragraph: "good st \<Longrightarrow> clean_state st \<Longrightarrow> clean_state (close_paragraph st)"
  by (simp add: close_paragraph_def clean_close goodD)

lemma clean_loosen_for: "clean_state st \<Longrightarrow> loosen_for kind st = Some st' \<Longrightarrow> clean_state st'"
  by (auto simp: loosen_for_def Let_def Option.bind_eq_Some_conv clean_loosen split: if_splits option.splits)

lemma clean_add_child:
  assumes good: "good st" and kind: "flow_kind (b_kind node) \<or> b_kind node = K_Item \<and> tip_kind st = K_List"
    and st: "clean_state st" and node: "clean_block node" and added: "add_child node st = Some st'"
  shows "clean_state st'"
proof -
  obtain st1 st3 where st1: "close_while (arena_size st) holds_no_blocks st = Some st1"
    and st3: "loosen_for (b_kind node) (if b_kind node \<noteq> K_Item \<and> tip_kind st1 = K_List then close_block (bs_tip st1) st1 else st1) = Some st3"
    and st': "st' = set_tip (arena_size st3) (snd (append_new (bs_tip st3) node st3))"
    using added by (auto simp: add_child_def Option.bind_eq_Some_conv append_new_def Let_def)
  have going: "holds_no_blocks st \<Longrightarrow> bs_tip st \<noteq> 0" for st by (simp add: holds_no_blocks_def)
  obtain st1' where "close_while (arena_size st) holds_no_blocks st = Some st1'" "good st1'"
    using close_while_good [OF good, of "arena_size st" holds_no_blocks] going goodD(3) [OF good] by auto
  then have "good st1" using st1 by simp
  moreover have "clean_state st1" by (rule clean_close_while [OF going good st st1])
  ultimately have "clean_state (if b_kind node \<noteq> K_Item \<and> tip_kind st1 = K_List then close_block (bs_tip st1) st1 else st1)"
    by (simp add: clean_close goodD)
  from clean_loosen_for [OF this st3] show ?thesis
    unfolding st' using node by (intro clean_updates clean_append)
qed

section \<open>Opening blocks\<close>

definition fine :: "block_state \<Rightarrow> bool" where
  "fine st \<longleftrightarrow> good st \<and> clean_state st"

fun turn_fine :: "block_turn option \<Rightarrow> bool" where
  "turn_fine None \<longleftrightarrow> False"
| "turn_fine (Some (Opened st)) \<longleftrightarrow> fine st"
| "turn_fine (Some (Inside s st)) \<longleftrightarrow> fine st \<and> clean_scanner s"
| "turn_fine (Some (No_More s st)) \<longleftrightarrow> fine st \<and> clean_scanner s"

lemma fine_add:
  assumes "fine st" and "flow_kind (b_kind node) \<or> b_kind node = K_Item \<and> tip_kind st = K_List"
    and "b_children node = []" and "b_open node" and "clean_block node"
  obtains st' where "add_child node st = Some st'" "fine st'" "tip_kind st' = b_kind node"
  using add_child_good [OF _ assms(2-4)] clean_add_child [OF _ assms(2) _ assms(5)] assms(1) unfolding fine_def by blast

lemma fine_close_tip: "fine st \<Longrightarrow> tip_kind st \<noteq> K_Document \<Longrightarrow> fine (close_block (bs_tip st) st)"
  by (simp add: fine_def close_tip_good clean_close goodD)

lemma fine_close_paragraph: "fine st \<Longrightarrow> fine (close_paragraph st)"
  by (simp add: fine_def close_paragraph_good clean_close_paragraph)

lemma fine_open_leaf:
  assumes "fine st" and "flow_kind (b_kind node)" and "b_children node = []" and "b_open node" and "clean_block node"
  shows "turn_fine (open_leaf node st)"
proof -
  obtain st1 where st1: "add_child node (close_paragraph st) = Some st1" "fine st1" "tip_kind st1 = b_kind node"
    using fine_add [OF fine_close_paragraph [OF assms(1)], of node] assms(2-5) by blast
  have "tip_kind st1 \<noteq> K_Document" using st1(3) assms(2) by (auto simp: flow_kind_def)
  then show ?thesis using st1(1) fine_close_tip [OF st1(2)] by (simp add: open_leaf_def)
qed

lemma fine_open_html:
  assumes "fine st" and "clean rest" shows "turn_fine (open_html html_type rest st)"
proof -
  obtain st1 where st1: "add_child ((new_block K_Html_Block)\<lparr>b_html_type := html_type, b_content := rest @ [CHR 0x0A]\<rparr>)
      (close_paragraph st) = Some st1" "fine st1" "tip_kind st1 = K_Html_Block"
    using fine_add [OF fine_close_paragraph [OF assms(1)], of
      "(new_block K_Html_Block)\<lparr>b_html_type := html_type, b_content := rest @ [CHR 0x0A]\<rparr>"] assms(2) clean_new_block
    by (auto simp: clean_block_def clean_basic)
  then show ?thesis using fine_close_tip [OF st1(2)] by (simp add: open_html_def)
qed

lemma fine_open_indented:
  assumes "fine st" and "clean_scanner start" shows "turn_fine (open_indented start rest st)"
proof -
  let ?node = "(new_block K_Code_Block)\<lparr>b_content := sc_rest (snd (skip_spaces_to code_indent start)) @ [CHR 0x0A]\<rparr>"
  have "clean_block ?node"
    using clean_rest [OF clean_skip [OF assms(2)]] clean_new_block by (simp add: clean_block_def clean_basic)
  then obtain st1 where "add_child ?node st = Some st1" "fine st1"
    using fine_add [OF assms(1), of ?node] by auto
  then show ?thesis using assms by (simp add: open_indented_def)
qed

lemma fine_take_paragraph: "fine st \<Longrightarrow> fine (take_paragraph st)"
  unfolding fine_def take_paragraph_def [of st] Let_def
  using take_paragraph_good(1) [of st]
  by (auto simp: take_paragraph_def Let_def clean_block_def clean_basic intro!: clean_updates clean_detach clean_change)

lemma clean_term: "clean body \<Longrightarrow> clean_block (term_block body)"
  using clean_new_block by (simp add: term_block_def clean_block_def)

lemma fine_append_term:
  "fine st \<Longrightarrow> tip_kind st = K_Definition_List \<Longrightarrow> clean body \<Longrightarrow> fine (snd (append_new (bs_tip st) (term_block body) st))"
  by (simp add: fine_def append_term_good clean_append clean_term)

lemma fine_start_definitions:
  assumes fine: "fine st" shows "\<exists>st'. start_definition_list st = Some st' \<and> fine st'"
proof -
  note taken = fine_take_paragraph [OF fine]
  have kind: "tip_kind (take_paragraph st) = K_Document" using take_paragraph_good(2) fine by (simp add: fine_def)
  obtain st2 where "add_child (new_block K_Definition_List) (take_paragraph st) = Some st2" "fine st2"
      "tip_kind st2 = K_Definition_List"
    using fine_add [OF taken, of "new_block K_Definition_List"] clean_new_block by auto
  moreover have "clean (b_content (node_of st (bs_tip st)))" using fine clean_node_of goodD(3) by (simp add: fine_def)
  ultimately show ?thesis using fine_append_term kind by (simp add: start_definition_list_def Let_def)
qed

lemma fine_add_detail:
  assumes "fine st" and "clean body" shows "\<exists>st'. add_definition_detail body st = Some st' \<and> fine st'"
proof -
  obtain st' where st': "add_definition_detail body st = Some st'" "good st'"
    using add_definition_detail_good assms(1) by (auto simp: fine_def)
  have "clean_block ((new_block K_Definition_Detail)\<lparr>f_literal := body, b_open := False\<rparr>)"
    using assms(2) clean_new_block by (simp add: clean_block_def)
  then have "clean_state st'"
    using st'(1) assms(1) clean_append clean_updates(1)
    by (auto simp: add_definition_detail_def fine_def Option.bind_eq_Some_conv split: option.splits)
  then show ?thesis using st' by (simp add: fine_def)
qed

lemma fine_open_definition: "fine st \<Longrightarrow> clean rest \<Longrightarrow> turn_fine (open_definition rest st)"
  using fine_start_definitions [of st] fine_add_detail [OF _ clean_detail, of _ rest]
  by (fastforce simp: open_definition_def)

lemma fine_start_table:
  assumes "fine st" and "clean line" shows "\<exists>st'. start_table line alignments st = Some st' \<and> fine st'"
proof -
  obtain st' where st': "start_table line alignments st = Some st'" "good st'"
    using start_table_good [of st line alignments] assms(1) by (auto simp: fine_def)
  obtain st1 where st1: "add_child (new_block K_Table) (take_paragraph st) = Some st1" "fine st1"
    using fine_add [OF fine_take_paragraph [OF assms(1)], of "new_block K_Table"] clean_new_block by auto
  then have "clean_state st'"
    using st'(1) assms(2)
    by (auto simp: start_table_def fine_def clean_block_def clean_basic intro!: clean_change clean_updates)
  then show ?thesis using st' by (simp add: fine_def)
qed

lemma clean_item_padding: "clean_scanner s \<Longrightarrow> item_padding empty_item s = (padding, s1) \<Longrightarrow> clean_scanner s1"
  using clean_skip [of s] by (auto simp: item_padding_def Let_def split: if_splits prod.splits) (metis snd_conv)+

lemma fine_open_list:
  assumes fine: "fine st" and s: "clean_scanner s" shows "turn_fine (open_list indent list empty_item s st)"
proof -
  obtain padding s1 where item: "item_padding empty_item ((sc_advance ^^ lm_width list) s) = (padding, s1)" by fastforce
  have s1: "clean_scanner s1" by (rule clean_item_padding [OF clean_advances [OF s] item])
  define st1 where "st1 = close_paragraph st"
  have closed: "fine st1" unfolding st1_def by (rule fine_close_paragraph [OF fine])
  obtain st2 where st2: "(if same_list list (node_of st1 (bs_tip st1)) then Some st1 else add_child (list_block list) st1) = Some st2"
      "fine st2" "tip_kind st2 = K_List"
  proof (cases "same_list list (node_of st1 (bs_tip st1))")
    case True
    then show ?thesis using that [of st1] closed by (simp add: same_list_def tip_kind_def)
  next
    case False
    then show ?thesis
      using that fine_add [OF closed, of "list_block list"] clean_new_block by (auto simp: list_block_def clean_block_def)
  qed
  obtain st3 where "add_child ((new_block K_Item)\<lparr>b_padding := indent + lm_width list + padding\<rparr>) st2 = Some st3" "fine st3"
    using fine_add [OF st2(2), of "(new_block K_Item)\<lparr>b_padding := indent + lm_width list + padding\<rparr>"] st2(3) clean_new_block
    by (auto simp: clean_block_def)
  then show ?thesis using item st2(1) s1 by (simp add: open_list_def Let_def flip: st1_def)
qed

lemma fine_open_marker: "fine st \<Longrightarrow> clean_scanner s \<Longrightarrow> turn_fine (open_marker indent rest s st)"
  by (simp add: open_marker_def Let_def fine_open_list split: option.split)

lemma fine_open_underlined:
  assumes "fine st" and "in_paragraph st" shows "fine (open_underlined level st)"
proof -
  have "clean_state (change_node (bs_tip st) (\<lambda>b. b\<lparr>b_kind := K_Heading, f_level := int level, b_content := trim (b_content b)\<rparr>) st)"
    using assms(1) by (auto simp: fine_def clean_block_def intro!: clean_change)
  then show ?thesis
    using assms open_underlined_good [of st level] goodD(3) [of st]
    by (auto simp: fine_def open_underlined_def Let_def intro: clean_close)
qed

lemma fine_open_fence:
  assumes "fine st" shows "turn_fine (map_option Opened (add_child (fence_block fence indent) (close_paragraph st)))"
proof -
  have "clean_block (fence_block fence indent)" using clean_new_block by (simp add: fence_block_def clean_block_def)
  then obtain st1 where "add_child (fence_block fence indent) (close_paragraph st) = Some st1" "fine st1"
    using fine_add [OF fine_close_paragraph [OF assms], of "fence_block fence indent"] by (auto simp: fence_block_def)
  then show ?thesis by simp
qed

lemma fine_open_quote:
  assumes "fine st" and "clean_scanner s"
  shows "turn_fine (do { st1 \<leftarrow> add_child (new_block K_Block_Quote) (close_paragraph st); Some (Inside (past_quote s) st1) })"
proof -
  obtain st1 where "add_child (new_block K_Block_Quote) (close_paragraph st) = Some st1" "fine st1"
    using fine_add [OF fine_close_paragraph [OF assms(1)], of "new_block K_Block_Quote"] clean_new_block by auto
  then show ?thesis using clean_past_quote [OF assms(2)] by simp
qed

lemma fine_tip: "fine st \<Longrightarrow> clean (tip_content st)"
  using clean_node_of goodD(3) by (simp add: fine_def tip_content_def)

lemma fine_open_table: "fine st \<Longrightarrow> turn_fine (map_option Opened (start_table (tip_content st) alignments st))"
  using fine_start_table [of st "tip_content st" alignments] fine_tip by auto

lemma clean_leaf:
  "clean rest \<Longrightarrow> clean_block ((new_block K_Shortcode)\<lparr>f_label := name, f_raw := arguments, f_literal := trim rest\<rparr>)"
  "match_atx_heading rest = Some (level, content) \<Longrightarrow> clean rest \<Longrightarrow>
     clean_block ((new_block K_Heading)\<lparr>f_level := int level, b_content := content\<rparr>)"
  using clean_new_block clean_atx by (auto simp: clean_block_def)

lemma fine_open_turn:
  assumes fine: "fine st" and start: "clean_scanner start"
  shows "turn_fine (open_turn start st)"
proof -
  obtain indent s where skipped: "skip_spaces_to 100 start = (indent, s)" by fastforce
  have s: "clean_scanner s" using clean_skip [OF start, of 100] skipped by simp
  note rest = clean_rest [OF s]
  note steps = fine_open_indented [OF fine start] fine_open_quote [OF fine s] fine_open_leaf [OF fine]
    fine_open_definition [OF fine rest] fine_open_fence [OF fine] fine_open_table [OF fine] fine_open_underlined [OF fine]
    fine_open_html [OF fine rest] fine_open_marker [OF fine s] clean_leaf(1) [OF rest] clean_leaf(2) [OF _ rest] clean_new_block
  show ?thesis
    unfolding open_turn_def skipped
    using steps fine s by (auto simp: Let_def split: option.split simp del: bind.simps bind_eq_Some_conv)
qed

lemma fine_open_loop: "fine st \<Longrightarrow> clean_scanner s \<Longrightarrow> turn_fine (open_loop n s st)"
proof (induction n arbitrary: s st)
  case (Suc n)
  then show ?case using fine_open_turn [OF Suc.prems]
    by (cases "open_turn s st" rule: turn_fine.cases) simp_all
qed simp

section \<open>Lines\<close>

lemma clean_add_text:
  assumes st: "clean_state st" and line: "clean line" and n: "n < arena_size st"
  shows "clean_state (add_text n line st)"
proof -
  have "clean_state (change_node n (\<lambda>b. b\<lparr>b_content := b_content b @ line @ [CHR 0x0A]\<rparr>) st)"
    "clean_state (change_node n (\<lambda>b. b\<lparr>b_content := b_content b @ (if b_content b = [] then [] else [CHR 0x0A]) @ trim_start line\<rparr>) st)"
    using line by (auto simp: clean_block_def clean_basic intro!: clean_change [OF st])
  then show ?thesis using n by (simp add: add_text_def Let_def clean_close)
qed

lemma clean_mark_blank: "good st \<Longrightarrow> clean_state st \<Longrightarrow> mark_blank st = Some st' \<Longrightarrow> clean_state st'"
proof -
  assume good: "good st" and st: "clean_state st" and marked: "mark_blank st = Some st'"
  have "clean_state (fold (\<lambda>n. change_node n (\<lambda>b. b\<lparr>b_blank := True\<rparr>)) chain st1)" if "clean_state st1" for chain st1
    using that
  proof (induction chain arbitrary: st1)
    case (Cons n chain)
    have "clean_state (change_node n (\<lambda>b. b\<lparr>b_blank := True\<rparr>) st1)"
      by (rule clean_change [OF Cons.prems]) (simp add: clean_block_def)
    then show ?case using Cons.IH by simp
  qed simp
  then show ?thesis
    using marked clean_close_paragraph [OF good st] by (auto simp: mark_blank_def Let_def Option.bind_eq_Some_conv)
qed

lemma clean_open_text:
  assumes fine: "fine st" and s: "clean_scanner s" and opened: "open_text s st = Some st'"
  shows "clean_state st'"
proof -
  have st: "good st" "clean_state st" using fine by (simp_all add: fine_def)
  note rest = clean_rest [OF s]
  have add: "clean_state st'" if "add_child ((new_block K_Paragraph)\<lparr>b_content := body\<rparr>) st1 = Some st'" "fine st1" "clean body"
    for body st1
    using that clean_add_child [of st1 "(new_block K_Paragraph)\<lparr>b_content := body\<rparr>" st'] clean_new_block
    by (simp add: fine_def clean_block_def flow_kind_def)
  have task: "fine (change_node n (\<lambda>b. b\<lparr>f_task := True, f_checked := checked\<rparr>) st)" for n checked
    unfolding fine_def using good_quiet [OF st(1)] clean_change [OF st(2)] by (simp add: quiet_def clean_block_def)
  have body: "clean (trim_start (sc_rest s))" "clean (trim_start (drop width (trim_start (sc_rest s))))" for width
    using rest by blast+
  have detail: "clean_state st'" if "add_definition_detail (detail_text (sc_rest s)) st = Some st'"
    using fine_add_detail [OF fine clean_detail [OF rest]] that by (auto simp: fine_def)
  have item: "clean_state (snd (append_new (bs_tip st) (term_block (trim (sc_rest s))) st))"
    using st(2) clean_trim(3) [OF rest] by (intro clean_append clean_term)
  have line: "clean_state (add_text (bs_tip st) (sc_rest s) st)"
    by (rule clean_add_text [OF st(2) rest goodD(3) [OF st(1)]])
  show ?thesis
    using opened clean_mark_blank [OF st] detail item line add [OF _ fine body(1)] add [OF _ task body(2)]
    unfolding open_text_def Let_def by (auto split: if_splits option.splits)
qed

lemma fine_open_new_blocks:
  assumes "fine st" and "clean_scanner s" and "open_new_blocks s st = Some st'" shows "fine st'"
proof -
  have "good st'" using open_new_blocks_good [of st s] assms(1,3) by (auto simp: fine_def)
  moreover have "clean_state st'"
    using fine_open_loop [OF assms(1,2), of max_nesting] assms(3) clean_open_text
    by (cases "open_loop max_nesting s st" rule: turn_fine.cases) (auto simp: open_new_blocks_def fine_def)
  ultimately show ?thesis by (simp add: fine_def)
qed

lemma clean_continues:
  assumes st: "clean_state st" and n: "n < arena_size st" and s: "clean_scanner s"
    and step: "block_continues n s st = (matched, s1, st1)"
  shows "clean_state st1 \<and> clean_scanner s1"
proof -
  have "clean_scanner s1"
    using step s clean_past_quote clean_skip [OF s]
    by (auto simp: block_continues_def fenced_code_continues_def Let_def split: if_splits prod.splits) (metis snd_conv)+
  moreover have "st1 = st \<or> st1 = close_block n st \<or> st1 = (close_block n st)\<lparr>bs_consumed := True\<rparr>"
    using step by (auto simp: block_continues_def fenced_code_continues_def Let_def split: if_splits prod.splits)
  ultimately show ?thesis using st clean_close [OF st n] clean_updates(2) by auto
qed

fun descent_clean :: "descent option \<Rightarrow> bool" where
  "descent_clean None \<longleftrightarrow> True"
| "descent_clean (Some (Line_Done st)) \<longleftrightarrow> clean_state st"
| "descent_clean (Some (Walked container matched s st)) \<longleftrightarrow> clean_state st \<and> clean_scanner s"

lemma clean_descend:
  "good st \<Longrightarrow> openly st container \<Longrightarrow> clean_state st \<Longrightarrow> clean_scanner s \<Longrightarrow> descent_clean (descend fuel container s st)"
proof (induction fuel container s st rule: descend.induct)
  case (2 fuel container s st)
  show ?case
  proof (cases "open_child st container")
    case (Some child)
    note facts = open_child_facts [OF goodD(1) [OF "2.prems"(1)] "2.prems"(2) Some]
    obtain matched s1 st1 where step: "block_continues child s st = (matched, s1, st1)" by (rule prod_cases3)
    note kept = clean_continues [OF "2.prems"(3) facts(4) "2.prems"(4) step]
    show ?thesis
    proof (cases matched)
      case True
      have "st1 = st" by (rule block_continues_good(1) [OF "2.prems"(1,2) Some step True])
      then have "descent_clean (descend fuel child s1 st1)"
        using "2.prems" facts kept by (intro "2.IH" [OF Some step [symmetric] refl True]) simp_all
      then show ?thesis using Some step True by simp
    qed (use Some step kept "2.prems"(4) in \<open>simp split: option.split\<close>)
  qed (use "2.prems" in simp)
qed simp

lemma fine_matched_line:
  assumes fine: "fine st" and container: "openly st container" and s: "clean_scanner s"
    and handled: "matched_line container s st = Some st'"
  shows "fine st'"
proof -
  have good: "good st" using fine by (simp add: fine_def)
  have "fine (set_tip container st)"
    unfolding fine_def by (rule conjI, rule good_nodes [of _ st])
      (use goodD(1) [OF good] container fine clean_updates(1) in \<open>simp_all add: fine_def\<close>)
  moreover have "clean_state (add_text container (sc_rest s) (set_tip container st))"
    using fine openly_size [OF goodD(1) [OF good] container] clean_rest [OF s]
    by (intro clean_add_text clean_updates) (simp_all add: fine_def)
  ultimately have "clean_state st'"
    using handled fine_open_new_blocks [OF _ s, of "set_tip container st" st']
    by (cases "accepts_lines (kind_at st container) \<and> kind_at st container \<noteq> K_Paragraph")
      (simp_all add: matched_line_def Let_def fine_def)
  moreover have "good st'" using matched_line_good [OF good container, of s] handled by auto
  ultimately show ?thesis by (simp add: fine_def)
qed

lemma fine_unmatched_line:
  assumes fine: "fine st" and container: "openly st container" "kind_at st container \<noteq> K_Paragraph" and s: "clean_scanner s"
    and handled: "unmatched_line container s st = Some st'"
  shows "fine st'"
proof -
  have st: "good st" "clean_state st" using fine by (simp_all add: fine_def)
  have "clean_state st'"
  proof (cases "in_paragraph st \<and> \<not> is_blank (sc_rest s) \<and> starts_no_block s")
    case True
    then show ?thesis
      using handled clean_add_text [OF st(2) clean_rest [OF s] goodD(3) [OF st(1)]] by (simp add: unmatched_line_def)
  next
    case False
    let ?going = "\<lambda>st'. bs_tip st' \<noteq> container \<and> bs_tip st' \<noteq> 0"
    have "\<exists>st1. close_while (arena_size st) ?going st = Some st1 \<and> good st1 \<and> grows st st1 \<and> \<not> ?going st1"
      using goodD(3) [OF st(1)] by (intro close_while_good [OF st(1)]) simp_all
    then obtain st1 where st1: "close_while (arena_size st) ?going st = Some st1" "good st1" "grows st st1"
      by blast
    have "clean_state st1" by (rule clean_close_while [OF _ st st1(1)]) simp
    moreover have "kind_at st1 container \<noteq> K_Paragraph"
      using growsD(3) [OF st1(3)] openly_size [OF goodD(1) [OF st(1)] container(1)] container(2) by simp
    ultimately show ?thesis
      using handled False st1(1,2) fine_open_new_blocks [OF _ s, of st1 st'] by (simp add: unmatched_line_def fine_def)
  qed
  then show ?thesis using unmatched_line_good [OF st(1) container, of s] handled by (auto simp: fine_def)
qed

lemma fine_handle_line:
  assumes fine: "fine st" and raw: "clean raw" and handled: "handle_line raw st = Some st'"
  shows "fine st'"
proof -
  let ?st = "st\<lparr>bs_consumed := False\<rparr>"
  have st: "good st" "clean_state st" using fine by (simp_all add: fine_def)
  have good: "good ?st" by (rule good_nodes [of _ st]) (use goodD [OF st(1)] in simp_all)
  have start: "clean_scanner (scan_line raw)" using raw by (simp add: clean_scanner_def scan_line_def)
  define walk where "walk = descend (Suc (arena_size ?st)) 0 (scan_line raw) ?st"
  have walked: "descent_good walk" unfolding walk_def by (rule descend_good [OF good openly.root]) simp
  have kept: "descent_clean walk"
    unfolding walk_def by (rule clean_descend [OF good openly.root clean_updates(2) [OF st(2)] start])
  have handled: "(case walk of None \<Rightarrow> None | Some (Line_Done st1) \<Rightarrow> Some st1
      | Some (Walked container matched s st1) \<Rightarrow>
          if matched then matched_line container s st1 else unmatched_line container s st1) = Some st'"
    using handled by (simp add: handle_line_def walk_def del: descend.simps)
  show ?thesis
  proof (cases walk rule: descent_good.cases)
    case (3 container matched s st1)
    have "fine st1" "openly st1 container" "clean_scanner s" "\<not> matched \<Longrightarrow> kind_at st1 container \<noteq> K_Paragraph"
      using walked kept by (simp_all add: 3 fine_def)
    then show ?thesis
      using handled fine_matched_line [of st1 container s st'] fine_unmatched_line [of st1 container s st']
      by (cases matched) (simp_all add: 3)
  qed (use walked kept handled in \<open>simp_all add: fine_def\<close>)
qed

lemma fine_handle_lines: "fine st \<Longrightarrow> \<forall>line \<in> set lines. clean line \<Longrightarrow> handle_lines lines st = Some st' \<Longrightarrow> fine st'"
proof (induction lines arbitrary: st)
  case (Cons line lines)
  obtain st1 where "handle_line line st = Some st1" "handle_lines lines st1 = Some st'"
    using Cons.prems(3) by (auto simp: Option.bind_eq_Some_conv)
  then show ?case using Cons.IH [of st1] Cons.prems(1,2) fine_handle_line [of st line st1] by simp
qed simp

lemma fine_close_tips: "fine st \<Longrightarrow> close_tips fuel st = Some st' \<Longrightarrow> fine st'"
proof (induction fuel arbitrary: st)
  case (Suc fuel)
  show ?case
  proof (cases "bs_tip st = 0")
    case False
    have st: "good st" "clean_state st" using Suc.prems(1) by (simp_all add: fine_def)
    have "fine (close_block (bs_tip st) st)"
      using close_tip(1) [OF st(1) False] clean_close [OF st(2) goodD(3) [OF st(1)]] by (simp add: fine_def)
    then show ?thesis using Suc.IH Suc.prems(2) False by (auto simp: Let_def split: if_splits)
  qed (use Suc.prems in simp)
qed simp

lemma clean_remaining_children:
  assumes step: "\<And>c st st'. arena_ok st \<Longrightarrow> clean_state st \<Longrightarrow> c < arena_size st \<Longrightarrow> close_remaining fuel c st = Some st' \<Longrightarrow>
      grows st st' \<and> clean_state st'"
  shows "arena_ok st \<Longrightarrow> clean_state st \<Longrightarrow> (\<And>c. c \<in> set cs \<Longrightarrow> c < arena_size st) \<Longrightarrow>
    fold (\<lambda>c walked. Option.bind walked (close_remaining fuel c)) cs (Some st) = Some st' \<Longrightarrow> grows st st' \<and> clean_state st'"
proof (induction cs arbitrary: st)
  case (Cons c cs)
  have none: "fold (\<lambda>c walked. Option.bind walked (close_remaining fuel c)) cs None = None" for cs by (induction cs) simp_all
  obtain st1 where st1: "close_remaining fuel c st = Some st1"
    using Cons.prems(4) none by (cases "close_remaining fuel c st") simp_all
  note kept = step [OF Cons.prems(1,2) _ st1]
  have st1': "grows st st1" "clean_state st1" using kept Cons.prems(3) [of c] by simp_all
  have "d < arena_size st1" if "d \<in> set cs" for d
    using Cons.prems(3) [of d] that growsD(2) [OF st1'(1)] by simp
  then have "grows st1 st' \<and> clean_state st'"
    using Cons.IH [OF growsD(1) [OF st1'(1)] st1'(2)] Cons.prems(4) st1 by simp
  then show ?case using grows_trans [OF st1'(1)] by blast
qed (simp add: grows_refl)

lemma clean_close_remaining:
  "arena_ok st \<Longrightarrow> clean_state st \<Longrightarrow> n < arena_size st \<Longrightarrow> close_remaining fuel n st = Some st' \<Longrightarrow>
   grows st st' \<and> clean_state st'"
proof (induction fuel arbitrary: n st st')
  case (Suc fuel)
  obtain st1 where st1: "fold (\<lambda>c walked. Option.bind walked (close_remaining fuel c)) (children_at st n) (Some st) = Some st1"
    and st': "st' = (if n = 0 then change_node 0 (\<lambda>b. b\<lparr>b_open := False\<rparr>) st1 else close_block n st1)"
    using Suc.prems(4) by (auto simp: Option.bind_eq_Some_conv)
  have "grows st st1 \<and> clean_state st1"
    by (rule clean_remaining_children [OF Suc.IH Suc.prems(1,2) _ st1]) (use arena_child [OF Suc.prems(1,3)] in simp_all)
  then have kept: "grows st st1" "clean_state st1" by simp_all
  have n: "n < arena_size st1" using Suc.prems(3) growsD(2) [OF kept(1)] by simp
  have "grows st1 (change_node 0 (\<lambda>b. b\<lparr>b_open := False\<rparr>) st1)"
    using quiet_ok [OF growsD(1) [OF kept(1)], of "\<lambda>b. b\<lparr>b_open := False\<rparr>" 0]
    by (simp add: grows_def quiet_def node_of_change)
  moreover have "grows st1 (close_block n st1)" by (rule close_block_grows [OF growsD(1) [OF kept(1)] n])
  moreover have "clean_state (change_node 0 (\<lambda>b. b\<lparr>b_open := False\<rparr>) st1)"
    by (rule clean_change [OF kept(2)]) (simp add: clean_block_def)
  moreover note clean_close [OF kept(2) n]
  ultimately show ?case using grows_trans [OF kept(1)] by (simp add: st')
qed simp

lemma clean_parse_blocks:
  assumes input: "clean input" and parsed: "parse_blocks input = Some st"
  shows "clean_state st"
proof -
  have "arena_ok start_state" by (rule arena_okI) (simp_all add: start_state_def node_of_def new_block_def)
  then have "fine start_state"
    using openly.root clean_new_block by (simp add: fine_def good_def start_state_def clean_state_def clean_notes_def)
  moreover obtain st1 st2 where st1: "handle_lines (split_lines input) start_state = Some st1"
    and st2: "close_tips (Suc (arena_size st1)) st1 = Some st2" "close_remaining (arena_size st2 + 4) 0 st2 = Some st"
    using parsed by (auto simp: parse_blocks_def Option.bind_eq_Some_conv simp del: close_tips.simps)
  ultimately have "fine st1" using fine_handle_lines clean_split_lines [OF input] by blast
  from fine_close_tips [OF this st2(1)] have "good st2" "clean_state st2" by (simp_all add: fine_def)
  then show ?thesis
    using clean_close_remaining [OF goodD(1) _ _ st2(2)] arena_root [OF goodD(1)] by blast
qed

section \<open>The whole parser\<close>

fun all_clean :: "md_node \<Rightarrow> bool" where
  "all_clean (Md_Node kind data nodes) \<longleftrightarrow> clean (f_literal data) \<and> (\<forall>node \<in> set nodes. all_clean node)"

lemma clean_tree_of:
  assumes "arena_ok st" and "clean_state st"
  shows "n < arena_size st \<Longrightarrow> all_clean (tree_of fuel st n)"
proof (induction fuel arbitrary: n)
  case 0
  then show ?case using clean_node_of [OF assms(2)] by (simp add: md_fields.truncate_def)
next
  case (Suc fuel)
  then show ?case
    using clean_node_of [OF assms(2) Suc.prems] arena_child [OF assms(1) Suc.prems] by (simp add: md_fields.truncate_def)
qed

lemma clean_inline_ends: "clean body \<Longrightarrow> \<exists>nodes. parse_inline_text references body = Some nodes"
  using parse_inline_text_ends no_brace_no_block by (simp add: clean_def)

lemma parse_inlines_ends:
  "all_clean node \<Longrightarrow> \<exists>node'. parse_inlines references node = Some node'"
  "list_all all_clean nodes \<Longrightarrow> \<exists>nodes'. parse_all_inlines references nodes = Some nodes'"
proof (induction references node and references nodes rule: parse_inlines_parse_all_inlines.induct)
  case (1 references kind data nodes)
  then show ?case
    using clean_inline_ends [of "f_literal data" references] by (cases "holds_text kind") (auto simp: list_all_iff)
qed auto

lemma items_end: "clean_notes notes \<Longrightarrow> \<exists>items. those (map (footnote_item references notes order) labels) = Some items"
proof (induction labels)
  case (Cons label labels)
  have "clean (case map_of notes label of None \<Rightarrow> [] | Some body \<Rightarrow> body)"
    using Cons.prems by (auto simp: clean_notes_def clean_basic dest!: map_of_SomeD split: option.split)
  from clean_inline_ends [OF this, of references] have "\<exists>item. footnote_item references notes order label = Some item"
    by (auto simp: footnote_item_def)
  then show ?case using Cons by auto
qed simp

lemma parse_markdown_clean:
  assumes "CHR ''{'' \<notin> set input"
  shows "\<exists>tree. parse_markdown input = Some tree"
proof -
  obtain st where st: "parse_blocks input = Some st" "arena_ok st"
    using parse_blocks_ok by blast
  have "clean_state st" by (rule clean_parse_blocks [OF _ st(1)]) (simp add: clean_def assms)
  moreover from this obtain document where "parse_inlines (bs_references st) (tree_of (arena_size st) st 0) = Some document"
    using parse_inlines_ends(1) clean_tree_of [OF st(2)] arena_root [OF st(2)] by blast
  ultimately show ?thesis
    using st(1) items_end [of "bs_footnotes st"]
    by (auto simp: parse_markdown_def resolve_footnotes_def clean_state_def Let_def split: prod.split)
qed

text \<open>
  C12. Every document without an opening brace is parsed into a tree, whatever else it holds: every loop of
  the block parser, of the inline parser and of the emphasis resolution ends, in every text of every block
  and footnote.
\<close>

theorem markdown_parsing_ends:
  assumes "CHR ''{'' \<notin> set input"
  shows "\<exists>tree. parse_markdown input = Some tree"
  by (rule parse_markdown_clean [OF assms])

theorem markdown_parsing_ends_witness: "\<exists>tree. parse_markdown (''# a [b*'' @ [CHR 0x0A] @ ''> **c [^1]'') = Some tree"
  by (rule markdown_parsing_ends) simp

text \<open>
  C11. The tree of every document that is parsed is a document whose blocks stand where they may, whose
  paragraphs, headings, cells, terms, details and footnotes hold inline nodes and nothing else, and whose
  inline nodes are leaves or spans of inline nodes.
\<close>

theorem markdown_tree_shaped:
  assumes "parse_markdown input = Some tree"
  shows "md_kind tree = K_Document \<and> md_shaped tree"
proof -
  obtain st where st: "parse_blocks input = Some st" "arena_ok st"
    using parse_blocks_ok by blast
  let ?blocks = "tree_of (arena_size st) st 0"
  note root = arena_root [OF st(2)]
  have blocks: "well_shaped ?blocks" "md_kind ?blocks = K_Document"
    using tree_of_well_shaped [OF st(2), of 0 "arena_size st"] root by (simp_all, cases "arena_size st") simp_all
  obtain document where document: "parse_inlines (bs_references st) ?blocks = Some document"
    "resolve_footnotes (bs_references st) (bs_footnotes st) document = Some tree"
    using assms st(1) by (auto simp: parse_markdown_def Option.bind_eq_Some_conv)
  have shaped: "md_shaped document" "md_kind document = K_Document"
    using parse_inlines_shaped(1) [OF blocks(1) document(1)] blocks(2) by simp_all
  obtain seen numbered where numbered: "number_node (bs_footnotes st) [] document = (seen, numbered)" by fastforce
  have kept: "md_shaped numbered" "md_kind numbered = K_Document"
    using number_keeps_shape(1) [OF numbered] shaped by simp_all
  show ?thesis
  proof (cases "reference_order seen = []")
    case True
    then show ?thesis using document(2) numbered kept by (simp add: resolve_footnotes_def)
  next
    case False
    then obtain items where items: "those (map (footnote_item (bs_references st) (bs_footnotes st) (reference_order seen)) (reference_order seen)) = Some items"
      "tree = Md_Node (md_kind numbered) (md_fields numbered) (md_children numbered @ [Md_Node K_Footnotes no_fields items])"
      using document(2) numbered by (auto simp: resolve_footnotes_def Let_def)
    have "\<forall>item \<in> set items. md_kind item = K_Footnote_Item \<and> md_shaped item"
      using those_items [OF items(1)] shaped.parsed_nodes by (fastforce simp: footnote_item_def holds_spans_def list_all_iff)
    moreover have "\<not> holds_spans K_Footnotes" "\<not> holds_spans K_Document" by (simp_all add: holds_spans_def holds_text_def)
    moreover obtain data nodes where "numbered = Md_Node K_Document data nodes" using kept(2) by (cases numbered) simp
    ultimately show ?thesis using kept(1) items(2) by (auto simp: may_stand_def)
  qed
qed

theorem markdown_tree_shaped_witness:
  "\<exists>tree. parse_markdown ''- a *b*'' = Some tree \<and> md_kind tree = K_Document \<and> md_shaped tree"
proof -
  obtain tree where "parse_markdown ''- a *b*'' = Some tree" using parse_markdown_clean [of "''- a *b*''"] by auto
  then show ?thesis using markdown_tree_shaped by blast
qed

end
