(* ===== verification/Footnotes.thy ===== *)
theory Footnotes
  imports Markdown "HOL-Library.Sublist"
begin

text \<open>
  The footnotes of a document: the number a reference shows is the number of the note it leads to, and no
  two references are the same occurrence of a label.
\<close>

section \<open>The references of a tree\<close>

text \<open>The references outside the notes themselves, in document order, that have a definition.\<close>

fun body_refs :: "footnote_map \<Rightarrow> md_node \<Rightarrow> md_fields list" where
  "body_refs footnotes (Md_Node kind data nodes) =
     (if kind = K_Footnotes then []
      else (if kind = K_Footnote_Ref \<and> map_of footnotes (f_label data) \<noteq> None then [data] else []) @
        concat (map (body_refs footnotes) nodes))"

definition notes_of :: "md_node \<Rightarrow> md_node list" where
  "notes_of tree = (if md_children tree = [] then [] else md_children (last (md_children tree)))"

section \<open>The order of the labels\<close>

lemma order_facts: "set (fold add_label seen order) = set order \<union> set seen" "distinct order \<Longrightarrow> distinct (fold add_label seen order)"
  by (induction seen arbitrary: order) (auto simp: add_label_def)

lemma order_prefix: "prefix order (fold add_label seen order)"
proof (induction seen arbitrary: order)
  case (Cons label seen)
  have "prefix order (add_label label order)" by (simp add: add_label_def)
  then show ?case using Cons.IH prefix_order.trans by fastforce
qed simp

lemma reference_order_prefix: "prefix (reference_order (take k seen)) (reference_order seen)"
  using order_prefix [of "reference_order (take k seen)" "drop k seen"]
  by (simp add: reference_order_def flip: fold_append comp_apply [of "fold add_label (drop k seen)"])

lemma note_number_in:
  assumes "label \<in> set order"
  shows "\<exists>n. note_number order label = int (Suc n) \<and> n < length order \<and> order ! n = label"
proof (cases "find_pos (\<lambda>l. l = label) order")
  case None
  then show ?thesis using assms by (auto simp: find_pos_None)
next
  case (Some n)
  moreover from Some have "n < length order \<and> order ! n = label" by (simp add: find_pos_Some)
  ultimately show ?thesis by (simp add: note_number_def)
qed

lemma note_number_prefix: "prefix order order' \<Longrightarrow> label \<in> set order \<Longrightarrow> note_number order' label = note_number order label"
proof -
  assume "prefix order order'" and label: "label \<in> set order"
  then obtain rest where "order' = order @ rest" by (auto simp: prefix_def)
  moreover obtain n where "find_pos (\<lambda>l. l = label) order = Some n"
    using label find_pos_None [of "\<lambda>l. l = label" order] by fastforce
  ultimately show ?thesis by (simp add: note_number_def find_pos_append_Some)
qed

section \<open>Numbering\<close>

text \<open>The reference is the one that put its label at this place of the labels seen.\<close>

definition numbered_at :: "string list \<Rightarrow> md_fields \<Rightarrow> nat \<Rightarrow> bool" where
  "numbered_at seen data k \<longleftrightarrow> k < length seen \<and> seen ! k = f_label data \<and>
     f_number data = note_number (reference_order (take (Suc k) seen)) (f_label data) \<and>
     f_occurrence data = int (count_list (take (Suc k) seen) (f_label data))"

definition all_numbered :: "string list \<Rightarrow> string list \<Rightarrow> md_fields list \<Rightarrow> bool" where
  "all_numbered seen seen' refs \<longleftrightarrow> prefix seen seen' \<and>
     (\<exists>ks. sorted_wrt (<) ks \<and> (\<forall>k \<in> set ks. length seen \<le> k) \<and> list_all2 (numbered_at seen') refs ks)"

lemma numbered_prefix: "prefix seen seen' \<Longrightarrow> numbered_at seen data k \<Longrightarrow> numbered_at seen' data k"
  by (auto simp: numbered_at_def prefix_def nth_append)

lemma all_numbered_none: "prefix seen seen' \<Longrightarrow> all_numbered seen seen' []"
  unfolding all_numbered_def by (auto intro: exI [of _ "[]"])

lemma all_numbered_append:
  assumes "all_numbered seen seen1 refs" and "all_numbered seen1 seen2 refs'"
  shows "all_numbered seen seen2 (refs @ refs')"
proof -
  obtain ks where ks: "sorted_wrt (<) ks" "\<forall>k \<in> set ks. length seen \<le> k" "list_all2 (numbered_at seen1) refs ks"
    using assms(1) by (auto simp: all_numbered_def)
  obtain ks' where ks': "sorted_wrt (<) ks'" "\<forall>k \<in> set ks'. length seen1 \<le> k" "list_all2 (numbered_at seen2) refs' ks'"
    using assms(2) by (auto simp: all_numbered_def)
  have prefixes: "prefix seen seen1" "prefix seen1 seen2" using assms by (simp_all add: all_numbered_def)
  have "\<forall>k \<in> set ks. k < length seen1"
    using ks(3) by (auto simp: list_all2_conv_all_nth numbered_at_def in_set_conv_nth)
  then have "sorted_wrt (<) (ks @ ks')" using ks(1) ks'(1,2) by (fastforce simp: sorted_wrt_append)
  moreover have "list_all2 (numbered_at seen2) (refs @ refs') (ks @ ks')"
    using list_all2_mono [OF ks(3) numbered_prefix [OF prefixes(2)]] ks'(3) by (simp add: list_all2_appendI)
  moreover have "\<forall>k \<in> set (ks @ ks'). length seen \<le> k"
    using ks(2) ks'(2) prefix_length_le [OF prefixes(1)] by fastforce
  ultimately show ?thesis
    using prefix_order.trans [OF prefixes] unfolding all_numbered_def by blast
qed

lemma reference_numbered:
  assumes "number_reference footnotes seen data = (seen', data')"
  shows "f_label data' = f_label data"
    "all_numbered seen seen' (if map_of footnotes (f_label data) \<noteq> None then [data'] else [])"
proof -
  show "f_label data' = f_label data" using assms by (auto simp: number_reference_def Let_def split: if_splits)
  show "all_numbered seen seen' (if map_of footnotes (f_label data) \<noteq> None then [data'] else [])"
  proof (cases "map_of footnotes (f_label data)")
    case None
    then show ?thesis using assms by (simp add: number_reference_def all_numbered_none)
  next
    case (Some body)
    then have eq: "seen' = seen @ [f_label data]" "data' = data\<lparr>f_number := note_number (reference_order seen') (f_label data),
        f_occurrence := int (count_list seen' (f_label data))\<rparr>"
      using assms by (auto simp: number_reference_def Let_def)
    have "numbered_at seen' data' (length seen)" by (simp add: eq numbered_at_def)
    then show ?thesis
      using Some unfolding all_numbered_def by (auto simp: eq(1) intro!: exI [of _ "[length seen]"])
  qed
qed

lemma numbering:
  "number_node footnotes seen node = (seen', node') \<Longrightarrow> all_numbered seen seen' (body_refs footnotes node')"
  "number_nodes footnotes seen nodes = (seen', nodes') \<Longrightarrow>
     all_numbered seen seen' (concat (map (body_refs footnotes) nodes'))"
proof (induction footnotes seen node and footnotes seen nodes arbitrary: seen' node' and seen' nodes'
    rule: number_node_number_nodes.induct)
  case (1 footnotes seen kind data nodes)
  obtain seen1 data1 where one: "(if kind = K_Footnote_Ref then number_reference footnotes seen data else (seen, data)) = (seen1, data1)"
    by fastforce
  obtain seen2 nodes2 where two: "number_nodes footnotes seen1 nodes = (seen2, nodes2)" by fastforce
  have eq: "seen' = seen2" "node' = Md_Node kind data1 nodes2" using "1.prems" one two by simp_all
  have first: "all_numbered seen seen1 (if kind = K_Footnote_Ref \<and> map_of footnotes (f_label data1) \<noteq> None then [data1] else [])"
    using one reference_numbered [of footnotes seen data seen1 data1] by (auto simp: all_numbered_none split: if_splits)
  note all = all_numbered_append [OF first "1.IH" [OF one [symmetric] two]]
  then have "prefix seen seen2" by (simp add: all_numbered_def)
  then show ?case using all by (simp add: eq all_numbered_none)
next
  case (3 footnotes seen node nodes)
  obtain seen1 node1 where one: "number_node footnotes seen node = (seen1, node1)" by fastforce
  obtain seen2 nodes2 where two: "number_nodes footnotes seen1 nodes = (seen2, nodes2)" by fastforce
  show ?case
    using all_numbered_append [OF "3.IH"(1) [OF one] "3.IH"(2) [OF one [symmetric] two]] "3.prems" one two by auto
qed (simp add: all_numbered_none)

lemma those_nth: "those xs = Some ys \<Longrightarrow> length ys = length xs \<and> (\<forall>n < length xs. xs ! n = Some (ys ! n))"
proof (induction xs arbitrary: ys)
  case (Cons x xs)
  then show ?case by (auto simp: less_Suc_eq_0_disj split: option.splits)
qed simp

lemma numbered_facts:
  assumes at: "numbered_at seen data k"
  shows "\<exists>n. f_number data = int (Suc n) \<and> n < length (reference_order seen) \<and> reference_order seen ! n = f_label data"
proof -
  have "f_label data \<in> set (take (Suc k) seen)" using at by (auto simp: numbered_at_def in_set_conv_nth)
  then have "f_label data \<in> set (reference_order (take (Suc k) seen))" by (simp add: reference_order_def order_facts)
  then have "f_label data \<in> set (reference_order seen)" "f_number data = note_number (reference_order seen) (f_label data)"
    using note_number_prefix [OF reference_order_prefix] at set_mono_prefix [OF reference_order_prefix [of "Suc k" seen]]
    by (auto simp: numbered_at_def)
  then show ?thesis using note_number_in by metis
qed

lemma occurrence_grows:
  assumes "numbered_at seen data k" and "numbered_at seen data' k'" and "k < k'" and "f_label data = f_label data'"
  shows "f_occurrence data < f_occurrence data'"
proof -
  have less: "k' < length seen" "seen ! k' = f_label data'" using assms(2) by (simp_all add: numbered_at_def)
  have "take (Suc k') seen = take (Suc k) seen @ take (k' - Suc k) (drop (Suc k) seen) @ [seen ! k']"
    using less(1) assms(3) take_add [of "Suc k" "k' - Suc k" seen] by (simp add: take_Suc_conv_app_nth [of k'])
  then have "count_list (take (Suc k) seen) (f_label data) < count_list (take (Suc k') seen) (f_label data)"
    using less(2) assms(4) by simp
  then show ?thesis using assms by (simp add: numbered_at_def)
qed

lemma item_of: "footnote_item references footnotes order label = Some item \<Longrightarrow>
    md_kind item = K_Footnote_Item \<and> f_label (md_fields item) = label \<and> f_number (md_fields item) = note_number order label"
  by (auto simp: footnote_item_def no_fields_def)

lemma note_number_nth: "distinct order \<Longrightarrow> n < length order \<Longrightarrow> note_number order (order ! n) = int (Suc n)"
  using note_number_in [of "order ! n" order] nth_eq_iff_index_eq by fastforce

lemma resolved_notes:
  assumes "resolve_footnotes references footnotes document = Some tree"
    and "number_node footnotes [] document = (seen, numbered)"
    and numbered: "list_all2 (numbered_at seen) (body_refs footnotes numbered) ks"
  shows "body_refs footnotes tree = body_refs footnotes numbered"
    "body_refs footnotes numbered \<noteq> [] \<Longrightarrow> length (notes_of tree) = length (reference_order seen) \<and>
      (\<forall>n < length (notes_of tree).
        footnote_item references footnotes (reference_order seen) (reference_order seen ! n) = Some (notes_of tree ! n))"
proof -
  show "body_refs footnotes tree = body_refs footnotes numbered"
    using assms(1,2) by (cases numbered) (auto simp: resolve_footnotes_def Let_def split: if_splits)
next
  assume some: "body_refs footnotes numbered \<noteq> []"
  then obtain ref k where "numbered_at seen ref k" using numbered by (cases "body_refs footnotes numbered") (auto simp: list_all2_Cons1)
  then have "reference_order seen \<noteq> []" using numbered_facts by fastforce
  then obtain items where items:
    "those (map (footnote_item references footnotes (reference_order seen)) (reference_order seen)) = Some items"
    "notes_of tree = items"
    using assms(1,2) by (auto simp: resolve_footnotes_def Let_def notes_of_def)
  then show "length (notes_of tree) = length (reference_order seen) \<and> (\<forall>n < length (notes_of tree).
      footnote_item references footnotes (reference_order seen) (reference_order seen ! n) = Some (notes_of tree ! n))"
    using those_nth [OF items(1)] by auto
qed

text \<open>
  C15. Once the footnotes of a document are resolved, every reference in its body, outside the notes
  themselves, whose label is defined shows the number of a note that is there, the note in that place of the
  list, which carries the reference's label and the same number; and no two of these references are the same
  occurrence of one label. References inside the notes are not numbered.
\<close>

theorem footnote_numbers_agree:
  assumes "resolve_footnotes references footnotes document = Some tree"
  shows "(\<forall>ref \<in> set (body_refs footnotes tree). \<exists>n. f_number ref = int (Suc n) \<and> n < length (notes_of tree) \<and>
      md_kind (notes_of tree ! n) = K_Footnote_Item \<and> f_label (md_fields (notes_of tree ! n)) = f_label ref \<and>
      f_number (md_fields (notes_of tree ! n)) = f_number ref) \<and>
    distinct (map (\<lambda>ref. (f_label ref, f_occurrence ref)) (body_refs footnotes tree))"
proof -
  obtain seen numbered where numbered: "number_node footnotes [] document = (seen, numbered)" by fastforce
  obtain ks where ks: "sorted_wrt (<) ks" "list_all2 (numbered_at seen) (body_refs footnotes numbered) ks"
    using numbering(1) [OF numbered] by (auto simp: all_numbered_def)
  have order: "set (reference_order seen) = set seen" "distinct (reference_order seen)"
    by (simp_all add: reference_order_def order_facts)
  note resolved = resolved_notes [OF assms numbered ks(2)]
  have "\<exists>n. f_number ref = int (Suc n) \<and> n < length (notes_of tree) \<and> md_kind (notes_of tree ! n) = K_Footnote_Item \<and>
      f_label (md_fields (notes_of tree ! n)) = f_label ref \<and> f_number (md_fields (notes_of tree ! n)) = f_number ref"
    if ref: "ref \<in> set (body_refs footnotes numbered)" for ref
  proof -
    obtain k where "numbered_at seen ref k"
      using ref ks(2) by (auto simp: list_all2_conv_all_nth in_set_conv_nth)
    then obtain n where n: "f_number ref = int (Suc n)" "n < length (reference_order seen)" "reference_order seen ! n = f_label ref"
      using numbered_facts by blast
    have some: "body_refs footnotes numbered \<noteq> []" using ref by auto
    then have "footnote_item references footnotes (reference_order seen) (f_label ref) = Some (notes_of tree ! n)"
      using resolved(2) n(2,3) by metis
    from item_of [OF this] show ?thesis
      using n resolved(2) [OF some] note_number_nth [OF order(2) n(2)] by (intro exI [of _ n]) simp
  qed
  moreover have "distinct (map (\<lambda>ref. (f_label ref, f_occurrence ref)) (body_refs footnotes numbered))"
    unfolding distinct_conv_nth length_map
  proof (intro allI impI)
    let ?refs = "body_refs footnotes numbered"
    have differ: "(f_label (?refs ! i), f_occurrence (?refs ! i)) \<noteq> (f_label (?refs ! j), f_occurrence (?refs ! j))"
      if "i < j" "j < length ?refs" for i j
      using that occurrence_grows [of seen "?refs ! i" "ks ! i" "?refs ! j" "ks ! j"] ks
      by (auto simp: list_all2_conv_all_nth sorted_wrt_iff_nth_less)
    fix i j assume "i < length ?refs" "j < length ?refs" "i \<noteq> j"
    then show "map (\<lambda>ref. (f_label ref, f_occurrence ref)) ?refs ! i \<noteq> map (\<lambda>ref. (f_label ref, f_occurrence ref)) ?refs ! j"
      using differ [of i j] differ [of j i] by (cases "i < j") auto
  qed
  ultimately show ?thesis by (simp add: resolved(1))
qed

theorem footnote_numbers_agree_witness:
  "\<exists>tree. resolve_footnotes [] [(''b'', ''two''), (''a'', ''one'')]
      (Md_Node K_Paragraph no_fields (map (\<lambda>l. Md_Node K_Footnote_Ref (no_fields\<lparr>f_label := l\<rparr>) []) [''a'', ''b'', ''a''])) = Some tree \<and>
    length (body_refs [(''b'', ''two''), (''a'', ''one'')] tree) = 3 \<and>
    (\<forall>ref \<in> set (body_refs [(''b'', ''two''), (''a'', ''one'')] tree). \<exists>n. f_number ref = int (Suc n) \<and> n < length (notes_of tree) \<and>
      md_kind (notes_of tree ! n) = K_Footnote_Item \<and> f_label (md_fields (notes_of tree ! n)) = f_label ref \<and>
      f_number (md_fields (notes_of tree ! n)) = f_number ref)"
proof -
  let ?document = "Md_Node K_Paragraph no_fields (map (\<lambda>l. Md_Node K_Footnote_Ref (no_fields\<lparr>f_label := l\<rparr>) []) [''a'', ''b'', ''a''])"
  have "map_option (\<lambda>tree. length (body_refs [(''b'', ''two''), (''a'', ''one'')] tree))
      (resolve_footnotes [] [(''b'', ''two''), (''a'', ''one'')] ?document) = Some 3"
    by code_simp
  then obtain tree where tree: "resolve_footnotes [] [(''b'', ''two''), (''a'', ''one'')] ?document = Some tree"
      "length (body_refs [(''b'', ''two''), (''a'', ''one'')] tree) = 3"
    by auto
  then show ?thesis using footnote_numbers_agree [OF tree(1)] by blast
qed

end
