(* ===== verification/MarkdownExamples.thy ===== *)
theory MarkdownExamples
  imports MarkdownEnds Footnotes
begin

text \<open>
  Three texts whose tree is not the one their markup asks for, and one whose nesting the parser means to
  rule out.
\<close>

section \<open>The marks of a tree\<close>

text \<open>The tree as text: emphasis and links in brackets, a footnote reference by the number it shows.\<close>

fun shown :: "md_node \<Rightarrow> string" where
  "shown (Md_Node kind data nodes) =
     (let inside = concat (map shown nodes) in
      if kind = K_Text then f_literal data
      else if kind = K_Emphasis then ''em('' @ inside @ '')''
      else if kind = K_Link then ''link('' @ inside @ '')''
      else if kind = K_Image then ''image('' @ inside @ '')''
      else if kind = K_Footnote_Ref then (if f_number data = 0 then ''?'' else f_label data)
      else inside)"

definition spans_shown :: "string \<Rightarrow> string option" where
  "spans_shown input = map_option (\<lambda>nodes. concat (map shown nodes)) (parse_inline_text [] input)"

section \<open>What comes out\<close>

text \<open>An emphasis inside a link ends the emphasis around it: the stacks are emptied with the holes.\<close>

lemma plain_link_keeps_emphasis: "spans_shown ''*a [b](c) d*'' = Some ''em(a link(b) d)''"
  by code_simp

lemma emphasis_around_link_lost: "spans_shown ''*a [*b*](c) d*'' = Some ''*a link(em(b)) d*''"
  by code_simp

text \<open>An emphasis in the text of an image ends the link around it.\<close>

lemma image_in_link: "spans_shown ''[![a](i)](l)'' = Some ''link(image(a))''"
  by code_simp

lemma link_around_image_lost: "spans_shown ''[![*a*](i)](l)'' = Some ''[image(em(a))](l)''"
  by code_simp

text \<open>An address in angle brackets is a link inside a link.\<close>

lemma autolink_nests: "spans_shown ''[<http://x.y>](c)'' = Some ''link(link(http://x.y))''"
  by code_simp

text \<open>
  The id of a reference is its label and, from the second on, its occurrence. A label that ends like an
  occurrence makes two references of one id: the second use of \<open>a\<close> and the first of \<open>a-2\<close>.
\<close>

definition reference_id :: "md_fields \<Rightarrow> string" where
  "reference_id f = ''fnref-'' @ f_label f @ (if 1 < f_occurrence f then ''-'' @ format_int (f_occurrence f) else [])"

lemma reference_ids_collide:
  "map_option (\<lambda>tree. map reference_id (body_refs [(''a'', ''one''), (''a-2'', ''two'')] tree))
     (resolve_footnotes [] [(''a'', ''one''), (''a-2'', ''two'')]
        (Md_Node K_Paragraph no_fields (map (\<lambda>l. Md_Node K_Footnote_Ref (no_fields\<lparr>f_label := l\<rparr>) []) [''a'', ''a'', ''a-2'']))) =
   Some [''fnref-a'', ''fnref-a-2'', ''fnref-a-2'']"
  by code_simp

text \<open>A reference in a note is not numbered: the references are gathered before the notes are parsed.\<close>

lemma note_reference_unnumbered:
  "map_option (concat \<circ> map shown)
     (Option.bind (resolve_footnotes [] [(''1'', ''one[^2]''), (''2'', ''two'')]
        (Md_Node K_Document no_fields [Md_Node K_Footnote_Ref (no_fields\<lparr>f_label := ''1''\<rparr>) []])) (Some \<circ> md_children)) =
   Some ''1one?''"
  by code_simp

end
