(* ===== verification/Dates.thy ===== *)
theory Dates
  imports Floats
begin

text \<open>
  Calendar dates (\<open>date.cpp\<close>): reading and writing \<open>YYYY-MM-DD\<close>, weekdays and the subset of
  \<open>strftime\<close>. What the code takes from \<open>std::chrono\<close> is written out: a \<open>year\<close> keeps sixteen bits of its
  number, a \<open>month\<close> and a \<open>day\<close> eight, \<open>ok\<close> knows the lengths of the months, and \<open>sys_days\<close> counts the
  days from 1970-01-01, a Thursday.
\<close>

section \<open>The calendar of the standard library\<close>

record ymd =
  yd_year :: int
  yd_month :: nat
  yd_day :: nat

definition is_leap :: "int \<Rightarrow> bool" where
  "is_leap y \<longleftrightarrow> y mod 4 = 0 \<and> (y mod 100 \<noteq> 0 \<or> y mod 400 = 0)"

definition last_day :: "int \<Rightarrow> nat \<Rightarrow> nat" where
  "last_day y m = (if m = 2 then (if is_leap y then 29 else 28) else if m \<in> {4, 6, 9, 11} then 30 else 31)"

definition ymd_ok :: "ymd \<Rightarrow> bool" where
  "ymd_ok d \<longleftrightarrow> - 32767 \<le> yd_year d \<and> yd_year d \<le> 32767 \<and> 1 \<le> yd_month d \<and> yd_month d \<le> 12 \<and>
     1 \<le> yd_day d \<and> yd_day d \<le> last_day (yd_year d) (yd_month d)"

text \<open>The days of the years before, counted from March, and of the months before.\<close>

definition year_days :: "int \<Rightarrow> int" where
  "year_days y = 365 * y + y div 4 - y div 100 + y div 400"

definition sys_days :: "ymd \<Rightarrow> int" where
  "sys_days d =
     (let y = (if yd_month d \<le> 2 then yd_year d - 1 else yd_year d);
          m = (if yd_month d \<le> 2 then int (yd_month d) + 9 else int (yd_month d) - 3)
      in year_days y + (153 * m + 2) div 5 + int (yd_day d) - 1 - 719468)"

section \<open>Reading\<close>

definition make_date :: "int \<Rightarrow> nat \<Rightarrow> nat \<Rightarrow> ymd" where
  "make_date y m d = \<lparr>yd_year = (y + 32768) mod 65536 - 32768, yd_month = m mod 256, yd_day = d mod 256\<rparr>"

definition all_digits :: "string \<Rightarrow> bool" where
  "all_digits s \<longleftrightarrow> s \<noteq> [] \<and> list_all is_digit s"

text \<open>\<open>std::from_chars\<close> into an \<open>int\<close>.\<close>

definition date_number :: "string \<Rightarrow> nat option" where
  "date_number s =
     (if all_digits s \<and> digits_value 10 s \<le> 2147483647 then Some (digits_value 10 s) else None)"

definition parse_ymd :: "string \<Rightarrow> ymd option" where
  "parse_ymd s =
     (if length s < 10 \<or> s ! 4 \<noteq> CHR ''-'' \<or> s ! 7 \<noteq> CHR ''-'' then None
      else
        (case (date_number (take 4 s), date_number (take 2 (drop 5 s)), date_number (take 2 (drop 8 s))) of
           (Some y, Some m, Some d) \<Rightarrow>
             (let date = make_date (int y) m d in if ymd_ok date then Some date else None)
         | _ \<Rightarrow> None))"

definition parse_date :: "string \<Rightarrow> ymd option" where
  "parse_date s = (if length s \<noteq> 10 then None else parse_ymd s)"

definition parse_date_prefix :: "string \<Rightarrow> ymd option" where
  "parse_date_prefix s = parse_ymd s"

section \<open>Writing\<close>

text \<open>\<open>std::format\<close> with a width and leading zeroes; a minus sign counts into the width.\<close>

definition padded :: "nat \<Rightarrow> int \<Rightarrow> string" where
  "padded width i =
     (let ds = format_nat (nat \<bar>i\<bar>); w = (if i < 0 then width - 1 else width) in
      (if i < 0 then ''-'' else []) @ replicate (w - length ds) (CHR ''0'') @ ds)"

definition month_names :: "string list" where
  "month_names = [''January'', ''February'', ''March'', ''April'', ''May'', ''June'', ''July'', ''August'',
     ''September'', ''October'', ''November'', ''December'']"

definition weekday_names :: "string list" where
  "weekday_names = [''Monday'', ''Tuesday'', ''Wednesday'', ''Thursday'', ''Friday'', ''Saturday'', ''Sunday'']"

definition weekday :: "ymd \<Rightarrow> nat" where
  "weekday d = nat ((sys_days d + 3) mod 7 + 1)"

definition iso :: "ymd \<Rightarrow> string" where
  "iso d =
     (if \<not> ymd_ok d then []
      else padded 4 (yd_year d) @ ''-'' @ padded 2 (int (yd_month d)) @ ''-'' @ padded 2 (int (yd_day d)))"

definition date_specifier :: "ymd \<Rightarrow> char \<Rightarrow> string" where
  "date_specifier d c =
     (if c = CHR ''Y'' then padded 4 (yd_year d)
      else if c = CHR ''m'' then padded 2 (int (yd_month d))
      else if c = CHR ''d'' then padded 2 (int (yd_day d))
      else if c = CHR ''e'' then format_nat (yd_day d)
      else if c = CHR ''B'' then month_names ! (yd_month d - 1)
      else if c = CHR ''b'' then take 3 (month_names ! (yd_month d - 1))
      else if c = CHR ''A'' then weekday_names ! (weekday d - 1)
      else if c = CHR ''a'' then take 3 (weekday_names ! (weekday d - 1))
      else if c = CHR ''%'' then ''%''
      else [CHR ''%'', c])"

fun date_pattern :: "ymd \<Rightarrow> string \<Rightarrow> string" where
  "date_pattern d [] = []"
| "date_pattern d [c] = [c]"
| "date_pattern d (c # e # s) =
     (if c = CHR ''%'' then date_specifier d e @ date_pattern d s else c # date_pattern d (e # s))"

definition format_date :: "ymd \<Rightarrow> string \<Rightarrow> string" where
  "format_date d pattern = (if \<not> ymd_ok d then [] else date_pattern d pattern)"

section \<open>Digits\<close>

lemma digit_char_value: "is_digit c \<Longrightarrow> hex_value c = Some (digit_value c) \<and> digit_char (digit_value c) = c \<and> digit_value c < 10"
  by (auto simp: is_digit_def between_def hex_value_def digit_value_def digit_char_def)

lemma padded_one: "is_digit c \<Longrightarrow> padded 1 (int (digit_value c)) = [c]"
  using digit_char_value [of c] by (simp add: padded_def format_nat.simps)

lemma padded_snoc:
  assumes "0 < w" and "is_digit c"
  shows "padded (Suc w) (int (10 * n + digit_value c)) = padded w (int n) @ [c]"
proof (cases "n = 0")
  case True
  obtain v where w: "w = Suc v" using assms(1) by (cases w) auto
  have "CHR ''0'' = digit_char 0" by code_simp
  then show ?thesis
    using True digit_char_value [OF assms(2)] by (simp add: padded_def format_nat.simps w replicate_append_same)
next
  case False
  then have "format_nat (10 * n + digit_value c) = format_nat n @ [c]"
    using digit_char_value [OF assms(2)] by (subst format_nat.simps) simp
  then show ?thesis
    by (simp add: padded_def Let_def del: of_nat_add of_nat_mult)
qed

lemma padded_value: "all_digits s \<Longrightarrow> padded (length s) (int (digits_value 10 s)) = s"
proof (induction s rule: rev_induct)
  case (snoc c s)
  then have c: "is_digit c" by (simp add: all_digits_def)
  show ?case
  proof (cases "s = []")
    case True
    then show ?thesis
      using padded_one [OF c] digit_char_value [OF c] by (simp add: digits_value_def)
  next
    case False
    then have "padded (length s) (int (digits_value 10 s)) = s"
      using snoc by (simp add: all_digits_def)
    then show ?thesis
      using padded_snoc [OF _ c, of "length s" "digits_value 10 s"] False digit_char_value [OF c]
      by (simp add: digits_value_snoc)
  qed
qed (simp add: all_digits_def)

lemma padded_digits:
  "n < 10 ^ w \<Longrightarrow> 0 < w \<Longrightarrow> length (padded w (int n)) = w \<and> all_digits (padded w (int n)) \<and> digits_value 10 (padded w (int n)) = n"
proof (induction w arbitrary: n)
  case (Suc w)
  have c: "is_digit (digit_char (n mod 10))" "digit_value (digit_char (n mod 10)) = n mod 10"
    by (simp_all add: digit_value_def byte_digit_char)
  show ?case
  proof (cases "w = 0")
    case True
    then have "padded (Suc w) (int n) = [digit_char n]"
      using Suc.prems by (simp add: padded_def format_nat.simps)
    then show ?thesis
      using True Suc.prems by (simp add: all_digits_def digits_value_def)
  next
    case False
    then have "padded (Suc w) (int n) = padded w (int (n div 10)) @ [digit_char (n mod 10)]"
      using padded_snoc [OF _ c(1), of w "n div 10"] c(2) by simp
    then show ?thesis
      using False Suc.IH [of "n div 10"] Suc.prems by (simp add: all_digits_def digits_value_snoc)
  qed
qed simp

lemma date_number_padded: "n < 10 ^ w \<Longrightarrow> 0 < w \<Longrightarrow> w \<le> 4 \<Longrightarrow> date_number (padded w (int n)) = Some n"
proof -
  assume n: "n < 10 ^ w" "0 < w" "w \<le> 4"
  then have "(10 :: nat) ^ w \<le> 10 ^ 4"
    by (intro power_increasing) simp_all
  with n show ?thesis
    using padded_digits [OF n(1, 2)] by (simp add: date_number_def)
qed

lemma digits_value_less: "all_digits s \<or> s = [] \<Longrightarrow> digits_value 10 s < 10 ^ length s"
proof (induction s rule: rev_induct)
  case (snoc c s)
  then have "digits_value 10 s < 10 ^ length s" and "digit_value c < 10" "hex_value c = Some (digit_value c)"
    using digit_char_value [of c] by (auto simp: all_digits_def)
  then show ?case by (simp add: digits_value_snoc)
qed (simp add: digits_value_def)

lemma date_number_less: "date_number s = Some n \<Longrightarrow> n < 10 ^ length s"
  using digits_value_less [of s] by (auto simp: date_number_def split: if_splits)

lemma date_cut:
  assumes "length s = 10" and "s ! 4 = CHR ''-''" and "s ! 7 = CHR ''-''"
  shows "s = take 4 s @ ''-'' @ take 2 (drop 5 s) @ ''-'' @ take 2 (drop 8 s)"
proof -
  have "s = take 4 s @ ''-'' @ drop 5 s"
    using id_take_nth_drop [of 4 s] assms by simp
  also have "drop 5 s = take 2 (drop 5 s) @ drop 7 s"
    using append_take_drop_id [of 2 "drop 5 s"] by simp
  also have "drop 7 s = ''-'' @ drop 8 s"
    using Cons_nth_drop_Suc [of 7 s] assms by simp
  finally show ?thesis
    using assms(1) by simp
qed

lemma date_number_Some: "date_number s = Some n \<Longrightarrow> padded (length s) (int n) = s"
  using padded_value [of s] by (auto simp: date_number_def split: if_splits)

lemma ymd_small: "ymd_ok d \<Longrightarrow> yd_month d < 10 ^ 2 \<and> yd_day d < 10 ^ 2"
  by (auto simp: ymd_ok_def last_day_def split: if_splits)

text \<open>
  A date is read from its own spelling only. The texts that are read as a date are exactly the ten
  characters the code writes for a day that exists in the years 0 to 9999, and each is read as the day
  it was written for.
\<close>

theorem date_iso_round_trip:
  "parse_date s = Some d \<longleftrightarrow> ymd_ok d \<and> 0 \<le> yd_year d \<and> yd_year d \<le> 9999 \<and> s = iso d"
proof
  assume right: "ymd_ok d \<and> 0 \<le> yd_year d \<and> yd_year d \<le> 9999 \<and> s = iso d"
  then obtain y where y: "yd_year d = int y" "y < 10 ^ 4"
    using nonneg_int_cases [of "yd_year d"] by auto
  let ?m = "yd_month d" and ?d = "yd_day d"
  have s: "s = padded 4 (int y) @ ''-'' @ padded 2 (int ?m) @ ''-'' @ padded 2 (int ?d)"
    using right y by (simp add: iso_def)
  have len: "length (padded 4 (int y)) = 4" "length (padded 2 (int ?m)) = 2" "length (padded 2 (int ?d)) = 2"
    using right y padded_digits ymd_small by simp_all
  have "date_number (padded 4 (int y)) = Some y" "date_number (padded 2 (int ?m)) = Some ?m" "date_number (padded 2 (int ?d)) = Some ?d"
    using right y ymd_small [of d] by (simp_all add: date_number_padded)
  moreover have "make_date (int y) ?m ?d = d"
    using right y ymd_small [of d] by (cases d) (simp add: make_date_def)
  moreover have "ymd_ok d" using right by blast
  ultimately show "parse_date s = Some d"
    using len by (simp add: parse_date_def parse_ymd_def s nth_append Let_def)
next
  assume parsed: "parse_date s = Some d"
  then have len: "length s = 10" and dashes: "s ! 4 = CHR ''-''" "s ! 7 = CHR ''-''"
    by (auto simp: parse_date_def parse_ymd_def split: if_splits)
  obtain y m k where parts: "date_number (take 4 s) = Some y" "date_number (take 2 (drop 5 s)) = Some m" "date_number (take 2 (drop 8 s)) = Some k"
      and date: "d = make_date (int y) m k" "ymd_ok d"
    using parsed by (auto simp: parse_date_def parse_ymd_def Let_def split: if_splits option.splits)
  have pads: "padded 4 (int y) = take 4 s" "padded 2 (int m) = take 2 (drop 5 s)" "padded 2 (int k) = take 2 (drop 8 s)"
    using parts [THEN date_number_Some] len by simp_all
  have small: "y < 10 ^ 4" "m < 10 ^ 2" "k < 10 ^ 2"
    using parts [THEN date_number_less] len by simp_all
  have s: "s = take 4 s @ ''-'' @ take 2 (drop 5 s) @ ''-'' @ take 2 (drop 8 s)"
    by (rule date_cut [OF len dashes])
  have "d = \<lparr>yd_year = int y, yd_month = m, yd_day = k\<rparr>"
    using date(1) small by (simp add: make_date_def)
  with date(2) small show "ymd_ok d \<and> 0 \<le> yd_year d \<and> yd_year d \<le> 9999 \<and> s = iso d"
    by (subst s) (simp add: iso_def pads)
qed

section \<open>Days and weekdays\<close>

text \<open>The next day of the calendar.\<close>

definition next_day :: "ymd \<Rightarrow> ymd" where
  "next_day d =
     (if yd_day d < last_day (yd_year d) (yd_month d) then d\<lparr>yd_day := yd_day d + 1\<rparr>
      else if yd_month d < 12 then d\<lparr>yd_month := yd_month d + 1, yd_day := 1\<rparr>
      else \<lparr>yd_year = yd_year d + 1, yd_month = 1, yd_day = 1\<rparr>)"

lemma div_before:
  fixes k y :: int
  assumes "0 < k"
  shows "y div k = (y - 1) div k + (if y mod k = 0 then 1 else 0)"
proof -
  have y: "y = k * (y div k) + y mod k" by simp
  have r: "0 \<le> y mod k" "y mod k < k" using assms by simp_all
  show ?thesis
  proof (cases "y mod k = 0")
    case True
    then have "y - 1 = k * (y div k - 1) + (k - 1)"
      using y by (simp add: right_diff_distrib)
    then have "(y - 1) div k = y div k - 1"
      by (rule int_div_pos_eq) (use assms in simp_all)
    with True show ?thesis by simp
  next
    case False
    then have "y - 1 = k * (y div k) + (y mod k - 1)"
      using y by simp
    then have "(y - 1) div k = y div k"
      by (rule int_div_pos_eq) (use r False in simp_all)
    with False show ?thesis by simp
  qed
qed

lemma leap_sum:
  fixes y :: int
  assumes "q = p + (if a then 1 else 0)" and "q' = p' + (if b then 1 else 0)" and "q'' = p'' + (if c then 1 else 0)"
    and "b \<Longrightarrow> a" and "c \<Longrightarrow> b"
  shows "365 * y + q - q' + q'' = 365 * (y - 1) + p - p' + p'' + (if a \<and> (\<not> b \<or> c) then 366 else 365)"
  using assms by (cases a; cases b; cases c) simp_all

lemma year_before: "year_days y = year_days (y - 1) + (if is_leap y then 366 else 365)"
proof -
  have "y mod 100 = 0 \<Longrightarrow> y mod 4 = 0" "y mod 400 = 0 \<Longrightarrow> y mod 100 = 0"
    by presburger+
  then show ?thesis
    unfolding year_days_def is_leap_def
    by (intro leap_sum div_before) simp_all
qed

lemma sys_days_next: "ymd_ok d \<Longrightarrow> sys_days (next_day d) = sys_days d + 1"
proof -
  assume ok: "ymd_ok d"
  obtain y m k where d: "d = \<lparr>yd_year = y, yd_month = m, yd_day = k\<rparr>" by (cases d) auto
  have "1 \<le> m" "m \<le> 12"
    using ok by (simp_all add: ymd_ok_def d)
  then have "m = 1 \<or> m = 2 \<or> m = 3 \<or> m = 4 \<or> m = 5 \<or> m = 6 \<or> m = 7 \<or> m = 8 \<or> m = 9 \<or> m = 10 \<or> m = 11 \<or> m = 12"
    by arith
  then show ?thesis
    using ok year_before [of y]
    by (elim disjE) (auto simp: next_day_def sys_days_def ymd_ok_def d last_day_def Let_def split: if_splits)
qed

text \<open>
  The weekday follows the calendar. The day after a day that exists has the next weekday, through
  the ends of months, of leap and common Februaries and of years; and 1970-01-01 is a Thursday.
\<close>

theorem weekday_next:
  assumes "ymd_ok d"
  shows "weekday (next_day d) = weekday d mod 7 + 1 \<and> weekday \<lparr>yd_year = 1970, yd_month = 1, yd_day = 1\<rparr> = 4"
proof -
  have step: "nat ((x + 1) mod 7 + 1) = nat (x mod 7 + 1) mod 7 + 1" for x :: int
  proof -
    have "(x + 1) mod 7 = (x mod 7 + 1) mod 7" "0 \<le> x mod 7"
      by (simp_all add: mod_add_left_eq)
    then show ?thesis
      by (simp only:) (simp add: nat_add_distrib nat_mod_distrib)
  qed
  have "sys_days (next_day d) + 3 = sys_days d + 3 + 1"
    using sys_days_next [OF assms] by simp
  then have "weekday (next_day d) = weekday d mod 7 + 1"
    unfolding weekday_def by (simp only: step)
  moreover have "weekday \<lparr>yd_year = 1970, yd_month = 1, yd_day = 1\<rparr> = 4"
    by (simp add: weekday_def sys_days_def year_days_def)
  ultimately show ?thesis by blast
qed

theorem weekday_next_witness:
  "weekday (next_day \<lparr>yd_year = 2024, yd_month = 2, yd_day = 29\<rparr>) = weekday \<lparr>yd_year = 2024, yd_month = 2, yd_day = 29\<rparr> mod 7 + 1"
  by (rule weekday_next [THEN conjunct1]) (simp add: ymd_ok_def last_day_def is_leap_def)

end
