(* ===== verification/Feeds.thy ===== *)
theory Feeds
  imports TagScanner Dates JsonRoundTrip
begin

text \<open>
  Feeds, the sitemap and \<open>robots.txt\<close> (\<open>feed.cpp\<close>).
\<close>

record feed_entry =
  fe_title :: string
  fe_url :: string
  fe_date :: string
  fe_summary :: string

record feed_info =
  fi_title :: string
  fi_site_url :: string
  fi_feed_url :: string
  fi_updated :: string
  fi_entries :: "feed_entry list"

record sitemap_entry =
  se_location :: string
  se_lastmod :: string

section \<open>Parts\<close>

definition xml_entity :: "char \<Rightarrow> string" where
  "xml_entity c =
     (if c = CHR ''&'' then ''&amp;''
      else if c = CHR ''<'' then ''&lt;''
      else if c = CHR ''>'' then ''&gt;''
      else if c = CHR 0x22 then ''&quot;''
      else if c = CHR 0x27 then ''&apos;''
      else [c])"

definition escape_xml :: "string \<Rightarrow> string" where
  "escape_xml s = concat (map xml_entity s)"

interpretation xml: escaper xml_entity "{CHR ''<'', CHR ''>'', CHR 0x22, CHR 0x27}"
  by unfold_locales (auto simp: xml_entity_def split: if_splits)

definition xml_newline :: string where "xml_newline = [CHR 0x0A]"
definition xml_quote :: string where "xml_quote = [CHR 0x22]"

definition xml_element :: "string \<Rightarrow> string \<Rightarrow> string \<Rightarrow> string" where
  "xml_element name v indent = indent @ ''<'' @ name @ ''>'' @ escape_xml v @ ''</'' @ name @ ''>'' @ xml_newline"

definition atom_time :: "string \<Rightarrow> string" where
  "atom_time date = (if date = [] then ''1970-01-01T00:00:00Z'' else date @ ''T00:00:00Z'')"

definition rss_time :: "string \<Rightarrow> string" where
  "rss_time s =
     (case parse_date s of
        None \<Rightarrow> ''Thu, 01 Jan 1970 00:00:00 +0000''
      | Some d \<Rightarrow> format_date d ''%a, %d %b %Y'' @ '' 00:00:00 +0000'')"

definition filename_for :: "string \<Rightarrow> string" where
  "filename_for format =
     (if format = ''rss'' then ''rss.xml'' else if format = ''json'' then ''feed.json'' else ''feed.xml'')"

definition media_type_for :: "string \<Rightarrow> string" where
  "media_type_for format =
     (if format = ''rss'' then ''application/rss+xml''
      else if format = ''json'' then ''application/feed+json'' else ''application/atom+xml'')"

definition xml_prolog :: string where
  "xml_prolog = ''<?xml version='' @ xml_quote @ ''1.0'' @ xml_quote @ '' encoding='' @ xml_quote @ ''utf-8'' @ xml_quote @ ''?>'' @ xml_newline"

section \<open>The documents\<close>

definition atom_entry :: "feed_entry \<Rightarrow> string" where
  "atom_entry e =
     ''  <entry>'' @ xml_newline @ xml_element ''title'' (fe_title e) ''    '' @ xml_element ''id'' (fe_url e) ''    '' @
     ''    <link href='' @ xml_quote @ escape_xml (fe_url e) @ xml_quote @ ''/>'' @ xml_newline @
     xml_element ''updated'' (atom_time (fe_date e)) ''    '' @
     (if fe_summary e = [] then [] else xml_element ''summary'' (fe_summary e) ''    '') @ ''  </entry>'' @ xml_newline"

definition atom :: "feed_info \<Rightarrow> string" where
  "atom info =
     xml_prolog @ ''<feed xmlns='' @ xml_quote @ ''http://www.w3.org/2005/Atom'' @ xml_quote @ ''>'' @ xml_newline @
     xml_element ''title'' (fi_title info) ''  '' @ xml_element ''id'' (fi_site_url info) ''  '' @
     ''  <link href='' @ xml_quote @ escape_xml (fi_site_url info) @ xml_quote @ ''/>'' @ xml_newline @
     ''  <link href='' @ xml_quote @ escape_xml (fi_feed_url info) @ xml_quote @ '' rel='' @ xml_quote @ ''self'' @ xml_quote @ ''/>'' @ xml_newline @
     xml_element ''updated'' (atom_time (fi_updated info)) ''  '' @
     concat (map atom_entry (fi_entries info)) @ ''</feed>'' @ xml_newline"

definition rss_item :: "feed_entry \<Rightarrow> string" where
  "rss_item e =
     ''    <item>'' @ xml_newline @ xml_element ''title'' (fe_title e) ''      '' @ xml_element ''link'' (fe_url e) ''      '' @
     ''      <guid isPermaLink='' @ xml_quote @ ''true'' @ xml_quote @ ''>'' @ escape_xml (fe_url e) @ ''</guid>'' @ xml_newline @
     xml_element ''pubDate'' (rss_time (fe_date e)) ''      '' @
     xml_element ''description'' (if fe_summary e = [] then fe_title e else fe_summary e) ''      '' @ ''    </item>'' @ xml_newline"

definition rss :: "feed_info \<Rightarrow> string" where
  "rss info =
     xml_prolog @ ''<rss version='' @ xml_quote @ ''2.0'' @ xml_quote @ ''>'' @ xml_newline @ ''  <channel>'' @ xml_newline @
     xml_element ''title'' (fi_title info) ''    '' @ xml_element ''link'' (fi_site_url info) ''    '' @
     xml_element ''description'' (fi_title info) ''    '' @
     (if fi_updated info = [] then [] else xml_element ''lastBuildDate'' (rss_time (fi_updated info)) ''    '') @
     concat (map rss_item (fi_entries info)) @ ''  </channel>'' @ xml_newline @ ''</rss>'' @ xml_newline"

definition feed_item_value :: "feed_entry \<Rightarrow> jvalue" where
  "feed_item_value e =
     set_member (set_member (set_member (set_member (set_member (VObject [])
       ''id'' (VString (fe_url e))) ''url'' (VString (fe_url e))) ''title'' (VString (fe_title e)))
       ''date_published'' (VString (atom_time (fe_date e))))
       ''content_text'' (VString (if fe_summary e = [] then fe_title e else fe_summary e))"

definition json_feed :: "feed_info \<Rightarrow> string" where
  "json_feed info =
     to_json (set_member (set_member (set_member (set_member (set_member (VObject [])
       ''version'' (VString ''https://jsonfeed.org/version/1.1'')) ''title'' (VString (fi_title info)))
       ''home_page_url'' (VString (fi_site_url info))) ''feed_url'' (VString (fi_feed_url info)))
       ''items'' (fold (\<lambda>e v. push_item v (feed_item_value e)) (fi_entries info) (VArray []))) Pretty False"

definition sitemap_url :: "sitemap_entry \<Rightarrow> string" where
  "sitemap_url e =
     ''  <url><loc>'' @ escape_xml (se_location e) @ ''</loc>'' @
     (if se_lastmod e = [] then [] else ''<lastmod>'' @ escape_xml (se_lastmod e) @ ''</lastmod>'') @ ''</url>'' @ xml_newline"

definition sitemap :: "sitemap_entry list \<Rightarrow> string" where
  "sitemap entries =
     xml_prolog @ ''<urlset xmlns='' @ xml_quote @ ''http://www.sitemaps.org/schemas/sitemap/0.9'' @ xml_quote @ ''>'' @ xml_newline @
     concat (map sitemap_url entries) @ ''</urlset>'' @ xml_newline"

definition robots_txt :: "string \<Rightarrow> string" where
  "robots_txt base_url =
     ''User-agent: *'' @ xml_newline @ ''Allow: /'' @
     (if base_url = [] then []
      else xml_newline @ ''Sitemap: '' @ rev (dropWhile (\<lambda>c. c = CHR ''/'') (rev base_url)) @ ''/sitemap.xml'') @ xml_newline"

section \<open>The documents are balanced\<close>

lemma quiet_xml [simp]: "quiet (escape_xml s)"
  using xml.escape_quiet [of s] by (auto simp: escape_xml_def quiet_def)

lemma scan_element [simp]:
  assumes "quiet name" and "CHR '' '' \<notin> set name" and "name \<noteq> []" and "hd name \<noteq> CHR ''/''" and "quiet indent"
  shows "scan (xml_element name v indent) (Some (M_Text, stack)) = Some (M_Text, stack)"
  using assms scan_name [of name "[]"] scan_name [of name "''/''"]
  by (cases name) (simp_all add: xml_element_def xml_newline_def)

lemmas xml_defs = xml_newline_def xml_quote_def

lemma scan_concat: "(\<And>x. scan (f x) (Some (M_Text, stack)) = Some (M_Text, stack)) \<Longrightarrow>
  scan (concat (map f xs)) (Some (M_Text, stack)) = Some (M_Text, stack)"
  by (induction xs) simp_all

lemma scan_atom_entry [simp]: "scan (atom_entry e) (Some (M_Text, stack)) = Some (M_Text, stack)"
  by (simp add: atom_entry_def xml_defs)

lemma scan_rss_item [simp]: "scan (rss_item e) (Some (M_Text, stack)) = Some (M_Text, stack)"
  by (simp add: rss_item_def xml_defs)

lemma scan_sitemap_url [simp]: "scan (sitemap_url e) (Some (M_Text, stack)) = Some (M_Text, stack)"
  by (simp add: sitemap_url_def xml_defs)

text \<open>
  C40. Every feed is a document of its own. Behind the line that declares XML, the Atom feed, the RSS
  feed and the sitemap of any site are balanced markup, whatever titles, summaries, urls and dates
  hold.
\<close>

theorem feeds_balanced:
  "(\<exists>body. atom info = xml_prolog @ body \<and> balanced body) \<and> (\<exists>body. rss info = xml_prolog @ body \<and> balanced body) \<and>
   (\<exists>body. sitemap entries = xml_prolog @ body \<and> balanced body)"
  by (intro conjI; unfold atom_def rss_def sitemap_def; rule exI, rule conjI [OF refl])
    (simp_all add: balanced_def xml_defs scan_concat)

section \<open>The JSON feed is read back\<close>

lemma item_members: "feed_item_value e = VObject [(''id'', VString (fe_url e)), (''url'', VString (fe_url e)),
    (''title'', VString (fe_title e)), (''date_published'', VString (atom_time (fe_date e))),
    (''content_text'', VString (if fe_summary e = [] then fe_title e else fe_summary e))]"
  by (simp add: feed_item_value_def set_member_def)

text \<open>
  A reader of the JSON feed gets the feed. The document is accepted and read as the version, title
  and urls of the site and an item for every entry in order, with its url twice, its title, its time,
  and its summary or else its title.
\<close>

theorem json_feed_reads_back:
  "\<exists>st. parse_json (json_feed info) = Done (VObject [(''version'', VString ''https://jsonfeed.org/version/1.1''),
     (''title'', VString (fi_title info)), (''home_page_url'', VString (fi_site_url info)), (''feed_url'', VString (fi_feed_url info)),
     (''items'', VArray (map feed_item_value (fi_entries info)))]) st"
proof -
  let ?items = "VArray (map feed_item_value (fi_entries info))"
  let ?v = "VObject [(''version'', VString ''https://jsonfeed.org/version/1.1''), (''title'', VString (fi_title info)),
    (''home_page_url'', VString (fi_site_url info)), (''feed_url'', VString (fi_feed_url info)), (''items'', ?items)]"
  have v: "json_feed info = to_json ?v Pretty False"
    by (simp add: json_feed_def fold_push_items set_member_def)
  have "value_ok ?v" "number_free ?v"
    by (simp_all add: item_members)
  moreover have "nesting (feed_item_value e) \<le> Suc 0" for e
    unfolding item_members nesting_object_le by simp
  then have "nesting ?items \<le> Suc (Suc 0)"
    unfolding nesting_array_le by simp
  then have "nesting ?v \<le> Suc (Suc (Suc 0))"
    unfolding nesting_object_le by simp
  then have "nesting ?v \<le> max_json_depth"
    by (simp add: max_json_depth_def)
  ultimately show ?thesis
    using to_json_reads_back [of ?v Pretty False] by (auto simp: v)
qed

end
