(* ===== verification/Writers.thy ===== *)
theory Writers
  imports JsonRoundTrip
begin

text \<open>
  The writer of the output tree (\<open>writer.cpp\<close>) and the end of a build (\<open>build_site\<close> in \<open>site.cpp\<close>).
  The tree is a map from the path of a file below the root, spelled as \<open>relative\<close> spells it, to its
  bytes; directories are not kept. The calls into \<open>std::filesystem\<close> succeed: a file is written to its
  temporary name and renamed. A call runs whole before the next one.
\<close>

type_synonym disk = "string \<Rightarrow> string option"

definition manifest_name :: string where "manifest_name = ''.blogin-manifest.json''"
definition state_name :: string where "state_name = ''.blogin-state.json''"
definition keep_file :: string where "keep_file = ''.keep''"

section \<open>Hashes and names\<close>

unbundle bit_operations_syntax

definition fnv_step :: "64 word \<Rightarrow> char \<Rightarrow> 64 word" where
  "fnv_step hash c = (hash XOR of_nat (byte c)) * 0x100000001b3"

definition content_hash :: "string \<Rightarrow> string" where
  "content_hash content =
     (let hash = foldl fnv_step 0xcbf29ce484222325 content
      in map (\<lambda>i. hex_digit (unat hash div 16 ^ i mod 16)) (rev [0..<16]))"

definition file_name :: "string \<Rightarrow> string" where
  "file_name path = (case find_last_pos (\<lambda>c. c = CHR ''/'') path of None \<Rightarrow> path | Some i \<Rightarrow> drop (Suc i) path)"

text \<open>\<open>path::extension\<close>: a name that starts with its only dot has none.\<close>

definition path_extension :: "string \<Rightarrow> string" where
  "path_extension path =
     (let name = file_name path in
      if name = ''..'' then []
      else (case find_last_pos (\<lambda>c. c = CHR ''.'') name of None \<Rightarrow> [] | Some i \<Rightarrow> if i = 0 then [] else drop i name))"

section \<open>The writer\<close>

record writer =
  w_force :: bool
  w_previous :: "(string \<times> string) list"
  w_current :: "(string \<times> string) list"
  w_expected :: "string set"
  w_changed :: "string list"
  w_collisions :: "string list"
  w_produced :: "string list"
  w_written :: nat
  w_skipped :: nat

definition new_writer :: "bool \<Rightarrow> writer" where
  "new_writer force = \<lparr>w_force = force, w_previous = [], w_current = [], w_expected = {}, w_changed = [],
     w_collisions = [], w_produced = [], w_written = 0, w_skipped = 0\<rparr>"

text \<open>\<open>emplace\<close> leaves a key that is there as it is.\<close>

definition emplace :: "'k \<Rightarrow> 'v \<Rightarrow> ('k \<times> 'v) list \<Rightarrow> ('k \<times> 'v) list" where
  "emplace k v entries = (if k \<in> fst ` set entries then entries else entries @ [(k, v)])"

definition file_text :: "disk \<Rightarrow> string \<Rightarrow> string" where
  "file_text d path = (case d path of None \<Rightarrow> [] | Some s \<Rightarrow> s)"

definition load_manifest :: "disk \<Rightarrow> writer \<Rightarrow> writer" where
  "load_manifest d w =
     (let s = file_text d manifest_name in
      if s = [] then w
      else
        (case parse_json s of
           Done v st \<Rightarrow>
             if is_object v then
               w\<lparr>w_previous := fold (\<lambda>(k, item) entries. emplace k (as_string item []) entries) (members v) (w_previous w)\<rparr>
             else w
         | _ \<Rightarrow> w))"

definition manifest_value :: "writer \<Rightarrow> jvalue" where
  "manifest_value w = fold (\<lambda>(k, h) v. set_member v k (VString h)) (w_current w) (VObject [])"

definition save_manifest :: "writer \<Rightarrow> disk \<Rightarrow> disk" where
  "save_manifest w d = d(manifest_name \<mapsto> to_json (manifest_value w) Compact True)"

definition mark :: "writer \<Rightarrow> nat" where
  "mark w = length (w_produced w)"

definition since :: "writer \<Rightarrow> nat \<Rightarrow> string list" where
  "since w start = drop (min start (length (w_produced w))) (w_produced w)"

definition expect :: "string \<Rightarrow> writer \<Rightarrow> writer" where
  "expect k w =
     (if k \<in> w_expected w then w
      else w\<lparr>w_expected := insert k (w_expected w), w_produced := w_produced w @ [k]\<rparr>)"

definition filtered :: "(string \<Rightarrow> string) option \<Rightarrow> string \<Rightarrow> string \<Rightarrow> string" where
  "filtered page_filter k content =
     (case page_filter of Some f \<Rightarrow> if path_extension k = ''.html'' then f content else content | None \<Rightarrow> content)"

definition note_hash :: "string \<Rightarrow> string \<Rightarrow> writer \<Rightarrow> writer" where
  "note_hash k hash w =
     (let w1 = (case map_of (w_current w) k of
                  Some earlier \<Rightarrow> if earlier \<noteq> hash then w\<lparr>w_collisions := w_collisions w @ [k]\<rparr> else w
                | None \<Rightarrow> w)
      in w1\<lparr>w_current := put_entry k hash (w_current w1)\<rparr>)"

definition write_file :: "(string \<Rightarrow> string) option \<Rightarrow> string \<Rightarrow> string \<Rightarrow> writer \<times> disk \<Rightarrow> writer \<times> disk" where
  "write_file page_filter k content wd =
     (let (w, d) = wd; body = filtered page_filter k content; hash = content_hash body;
          w1 = note_hash k hash (expect k w)
      in if \<not> w_force w \<and> map_of (w_previous w) k = Some hash \<and> d k \<noteq> None
         then (w1\<lparr>w_skipped := w_skipped w1 + 1\<rparr>, d)
         else (w1\<lparr>w_written := w_written w1 + 1, w_changed := w_changed w1 @ [k]\<rparr>,
               (d(k @ ''.tmp'' := None))(k \<mapsto> body)))"

definition reusable :: "string \<Rightarrow> writer \<times> disk \<Rightarrow> bool" where
  "reusable k wd \<longleftrightarrow> map_of (w_previous (fst wd)) k \<noteq> None \<and> snd wd k \<noteq> None"

definition keep :: "string \<Rightarrow> writer \<times> disk \<Rightarrow> bool \<times> writer \<times> disk" where
  "keep k wd =
     (let (w, d) = wd in
      case map_of (w_previous w) k of
        None \<Rightarrow> (False, w, d)
      | Some hash \<Rightarrow>
          if d k = None then (False, w, d)
          else
            (let w1 = expect k w in
             (True, w1\<lparr>w_current := put_entry k hash (w_current w1), w_skipped := w_skipped w1 + 1\<rparr>, d)))"

definition record_change :: "string \<Rightarrow> writer \<Rightarrow> writer" where
  "record_change k w = (let w1 = expect k w in w1\<lparr>w_changed := w_changed w1 @ [k]\<rparr>)"

definition prune_leaves :: "string \<Rightarrow> bool" where
  "prune_leaves k \<longleftrightarrow> k = manifest_name \<or> k = state_name \<or> file_name k = keep_file"

definition prune :: "writer \<Rightarrow> disk \<Rightarrow> disk" where
  "prune w d = (\<lambda>k. if prune_leaves k \<or> k \<in> w_expected w then d k else None)"

section \<open>A build\<close>

text \<open>
  What the build asks of the writer: to write a page, to copy a file whose bytes are given, or to keep
  what is there. A build that produced two results for one path stops with an error.
\<close>

datatype writer_call = Write_File string string | Copy_File string string | Keep_File string

fun do_call :: "(string \<Rightarrow> string) option \<Rightarrow> writer_call \<Rightarrow> writer \<times> disk \<Rightarrow> writer \<times> disk" where
  "do_call page_filter (Write_File k content) wd = write_file page_filter k content wd"
| "do_call page_filter (Copy_File k content) wd = write_file page_filter k content wd"
| "do_call page_filter (Keep_File k) wd = snd (keep k wd)"

definition run_calls :: "(string \<Rightarrow> string) option \<Rightarrow> bool \<Rightarrow> writer_call list \<Rightarrow> disk \<Rightarrow> writer \<times> disk" where
  "run_calls page_filter force calls d =
     fold (do_call page_filter) calls (load_manifest d (new_writer force), d)"

definition finish_build :: "writer \<times> disk \<Rightarrow> (string list + writer) \<times> disk" where
  "finish_build wd =
     (let (w, d) = wd in
      if w_collisions w \<noteq> [] then (Inl (w_collisions w), d) else (Inr w, save_manifest w (prune w d)))"

definition run_build :: "(string \<Rightarrow> string) option \<Rightarrow> bool \<Rightarrow> writer_call list \<Rightarrow> disk \<Rightarrow> (string list + writer) \<times> disk" where
  "run_build page_filter force calls d = finish_build (run_calls page_filter force calls d)"

text \<open>The build of a site ends by saving its state into the same tree, beside the manifest.\<close>

definition finish_site :: "string \<Rightarrow> writer \<times> disk \<Rightarrow> (string list + writer) \<times> disk" where
  "finish_site state_text wd =
     (case finish_build wd of
        (Inl clashing, d) \<Rightarrow> (Inl clashing, d)
      | (Inr w, d) \<Rightarrow> (Inr w, d(state_name \<mapsto> state_text)))"

definition run_site :: "(string \<Rightarrow> string) option \<Rightarrow> bool \<Rightarrow> string \<Rightarrow> writer_call list \<Rightarrow> disk \<Rightarrow> (string list + writer) \<times> disk" where
  "run_site page_filter force state_text calls d = finish_site state_text (run_calls page_filter force calls d)"

section \<open>The manifest is read back\<close>

lemma fold_emplace_fresh:
  "distinct (map fst entries) \<Longrightarrow> fst ` set old \<inter> fst ` set entries = {} \<Longrightarrow>
   fold (\<lambda>(k, v) l. emplace k (g v) l) entries old = old @ map (\<lambda>(k, v). (k, g v)) entries"
  by (induction entries arbitrary: old) (auto simp: emplace_def)

lemma fold_set_member:
  "distinct (map fst ms @ map fst entries) \<Longrightarrow>
   fold (\<lambda>(k, h) v. set_member v k (g h)) entries (VObject ms) = VObject (ms @ map (\<lambda>(k, h). (k, g h)) entries)"
  by (induction entries arbitrary: ms) (auto simp: set_member_def put_entry_fresh)

lemma map_of_sort_key: "distinct (map fst ms) \<Longrightarrow> map_of (sort_key fst ms) = map_of ms"
  by (rule map_of_inject_set [THEN iffD2]) (simp_all add: distinct_sort_key_fst)

lemma map_of_map_values: "map_of (map (\<lambda>(k, v). (k, g v)) l) = map_option g \<circ> map_of l"
  by (simp add: map_of_map)

lemma manifest_reads_back:
  assumes "distinct (map fst (w_current w))"
  shows "map_of (w_previous (load_manifest (save_manifest w d) (new_writer force))) = map_of (w_current w)"
proof -
  let ?ms = "map (\<lambda>(k, h). (k, VString h)) (w_current w)"
  have keys: "map fst ?ms = map fst (w_current w)"
    by (simp add: case_prod_beta o_def)
  with assms have distinct: "distinct (map fst ?ms)"
    by (simp only:)
  have v: "manifest_value w = VObject ?ms"
    using fold_set_member [of "[]" "w_current w" VString] assms by (simp add: manifest_value_def)
  have "value_ok (VObject ?ms)" "number_free (VObject ?ms)"
    using distinct by (auto simp del: map_map)
  moreover have "nesting (VObject ?ms) \<le> max_json_depth"
    using nesting_object_le [of ?ms 0] by (auto simp: max_json_depth_def simp del: nesting.simps(2))
  ultimately obtain st where parsed: "parse_json (to_json (VObject ?ms) Compact True) = Done (reorder (VObject ?ms)) st"
    using to_json_reads_back [of "VObject ?ms" Compact True] by auto
  have same: "map (\<lambda>m. (fst m, reorder (snd m))) ?ms = ?ms"
    by (simp add: case_prod_beta o_def)
  have nonempty: "to_json (VObject ?ms) Compact True \<noteq> []"
    by (simp add: to_json_def)
  have "w_previous (load_manifest (save_manifest w d) (new_writer force)) = map (\<lambda>(k, v). (k, as_string v [])) (sort_key fst ?ms)"
    using nonempty parsed fold_emplace_fresh [of "sort_key fst ?ms" "[]" "\<lambda>v. as_string v []"] distinct
    by (simp add: load_manifest_def save_manifest_def new_writer_def file_text_def v distinct_sort_key_fst same del: map_map)
  also have "map_of \<dots> = map_option (\<lambda>v. as_string v []) \<circ> map_of ?ms"
    by (simp add: map_of_map_values map_of_sort_key [OF distinct] del: map_map)
  also have "\<dots> = map_of (w_current w)"
    by (simp add: map_of_map_values option.map_comp o_def fun_eq_iff option.map_ident)
  finally show ?thesis .
qed

section \<open>What a build keeps true\<close>

text \<open>Every file the manifest lists and that is there has the bytes whose hash the manifest holds.\<close>

definition manifest_true :: "disk \<Rightarrow> bool" where
  "manifest_true d \<longleftrightarrow>
     (\<forall>k h c. map_of (w_previous (load_manifest d (new_writer False))) k = Some h \<and> d k = Some c \<longrightarrow> content_hash c = h)"

fun writes :: "writer_call \<Rightarrow> (string \<times> string) option" where
  "writes (Write_File k content) = Some (k, content)"
| "writes (Copy_File k content) = Some (k, content)"
| "writes (Keep_File k) = None"

fun target :: "writer_call \<Rightarrow> string" where
  "target (Write_File k content) = k"
| "target (Copy_File k content) = k"
| "target (Keep_File k) = k"

definition written_keys :: "writer_call list \<Rightarrow> string set" where
  "written_keys calls = {k. \<exists>call \<in> set calls. target call = k \<and> writes call \<noteq> None}"

definition kept_keys :: "writer_call list \<Rightarrow> string set" where
  "kept_keys calls = {k. Keep_File k \<in> set calls}"

text \<open>
  The calls of one build: none is for the writer's own files or for a temporary name of another, and
  no file is both written and kept.
\<close>

definition proper_calls :: "writer_call list \<Rightarrow> bool" where
  "proper_calls calls \<longleftrightarrow>
     (\<forall>k \<in> target ` set calls. k \<noteq> manifest_name \<and> k \<noteq> state_name \<and> (\<forall>k' \<in> written_keys calls. k \<noteq> k' @ ''.tmp'')) \<and>
     written_keys calls \<inter> kept_keys calls = {}"

definition writer_inv :: "string set \<Rightarrow> string set \<Rightarrow> writer \<times> disk \<Rightarrow> bool" where
  "writer_inv W K wd \<longleftrightarrow>
     (let (w, d) = wd in
      distinct (map fst (w_current w)) \<and> fst ` set (w_current w) = w_expected w \<and> w_expected w \<subseteq> W \<union> K \<and>
      (\<forall>k h. map_of (w_current w) k = Some h \<longrightarrow> (\<exists>c. d k = Some c \<and> content_hash c = h)) \<and>
      (\<forall>k h c. map_of (w_previous w) k = Some h \<longrightarrow> d k = Some c \<longrightarrow> k \<notin> w_expected w \<longrightarrow> content_hash c = h) \<and>
      (\<forall>k \<in> w_expected w \<inter> K. map_of (w_current w) k = map_of (w_previous w) k))"

lemma expect_simps [simp]:
  "w_current (expect k w) = w_current w" "w_previous (expect k w) = w_previous w" "w_force (expect k w) = w_force w"
  "w_collisions (expect k w) = w_collisions w" "w_expected (expect k w) = insert k (w_expected w)"
  "w_written (expect k w) = w_written w" "w_skipped (expect k w) = w_skipped w"
  by (auto simp: expect_def)

lemma note_hash_simps [simp]:
  "w_previous (note_hash k h w) = w_previous w" "w_force (note_hash k h w) = w_force w"
  "w_current (note_hash k h w) = put_entry k h (w_current w)" "w_expected (note_hash k h w) = w_expected w"
  "w_written (note_hash k h w) = w_written w" "w_skipped (note_hash k h w) = w_skipped w"
  by (auto simp: note_hash_def Let_def split: option.splits)

lemma note_hash_collisions:
  "w_collisions (note_hash k h w) = w_collisions w @ (case map_of (w_current w) k of Some e \<Rightarrow> if e \<noteq> h then [k] else [] | None \<Rightarrow> [])"
  by (auto simp: note_hash_def Let_def split: option.splits)

lemma writer_invD:
  assumes "writer_inv W K (w, d)"
  shows "distinct (map fst (w_current w))" and "k \<in> w_expected w \<longleftrightarrow> (\<exists>h. map_of (w_current w) k = Some h)"
    and "k \<in> w_expected w \<Longrightarrow> k \<in> W \<union> K"
    and "map_of (w_current w) k = Some h \<Longrightarrow> \<exists>c. d k = Some c \<and> content_hash c = h"
    and "map_of (w_previous w) k = Some h \<Longrightarrow> d k = Some c \<Longrightarrow> content_hash c = h \<or> k \<in> w_expected w"
    and "k \<in> w_expected w \<Longrightarrow> k \<in> K \<Longrightarrow> map_of (w_current w) k = map_of (w_previous w) k"
proof -
  show "k \<in> w_expected w \<longleftrightarrow> (\<exists>h. map_of (w_current w) k = Some h)"
    using assms map_of_eq_None_iff [of "w_current w" k] by (auto simp: writer_inv_def)
qed (use assms in \<open>auto simp: writer_inv_def\<close>)

lemma put_keys: "fst ` set (put_entry k v l) = insert k (fst ` set l)"
  by (induction k v l rule: put_entry.induct) auto

text \<open>The invariant after a call, from what the call does to one key.\<close>

lemma writer_inv_step:
  assumes inv: "writer_inv W K (w, d)" and k: "k \<in> W \<union> K"
    and w': "w_current w' = put_entry k h (w_current w)" "w_expected w' = insert k (w_expected w)" "w_previous w' = w_previous w"
    and d': "\<And>j. j \<in> W \<union> K \<Longrightarrow> j \<noteq> k \<Longrightarrow> d' j = d j" "\<And>j c. d' j = Some c \<Longrightarrow> j \<noteq> k \<Longrightarrow> d j = Some c" "\<exists>c. d' k = Some c \<and> content_hash c = h"
    and kept: "k \<in> K \<Longrightarrow> map_of (w_previous w) k = Some h"
  shows "writer_inv W K (w', d')"
proof -
  note inv' = writer_invD [OF inv]
  have "distinct (map fst (w_current w'))"
    using inv'(1) by (simp add: w' distinct_put_entry)
  moreover have "fst ` set (w_current w') = w_expected w'" "w_expected w' \<subseteq> W \<union> K"
    using inv k by (auto simp: w' put_keys writer_inv_def)
  moreover have "\<exists>c. d' j = Some c \<and> content_hash c = g" if "map_of (w_current w') j = Some g" for j g
    using that d'(1, 3) inv'(2, 3, 4) by (cases "j = k") (auto simp: w' map_of_put_entry)
  moreover have "content_hash c = g" if "map_of (w_previous w') j = Some g" "d' j = Some c" "j \<notin> w_expected w'" for j g c
    using that d'(2) [of j c] inv'(5) [of j g c] by (auto simp: w')
  moreover have "map_of (w_current w') j = map_of (w_previous w') j" if "j \<in> w_expected w' \<inter> K" for j
    using that kept inv'(6) by (cases "j = k") (auto simp: w' map_of_put_entry)
  ultimately show ?thesis
    by (simp add: writer_inv_def)
qed

lemma write_no_collision:
  "w_collisions (fst (write_file page_filter k content wd)) = [] \<Longrightarrow>
     map_of (w_current (fst wd)) k = None \<or> map_of (w_current (fst wd)) k = Some (content_hash (filtered page_filter k content))"
  by (cases wd) (auto simp: write_file_def Let_def note_hash_collisions split: if_splits option.splits)

lemma write_inv:
  assumes inv: "writer_inv W K (w, d)" and k: "k \<in> W" "k \<notin> K" and tmp: "k @ ''.tmp'' \<notin> W \<union> K"
    and none: "w_collisions (fst (write_file page_filter k content (w, d))) = []"
  shows "writer_inv W K (write_file page_filter k content (w, d))"
proof -
  let ?body = "filtered page_filter k content"
  let ?h = "content_hash ?body" and ?w = "note_hash k (content_hash (filtered page_filter k content)) (expect k w)"
  have current: "map_of (w_current w) k = None \<or> map_of (w_current w) k = Some ?h"
    using write_no_collision [OF none] by simp
  show ?thesis
  proof (cases "\<not> w_force w \<and> map_of (w_previous w) k = Some ?h \<and> d k \<noteq> None")
    case True
    have "\<exists>c. d k = Some c \<and> content_hash c = ?h"
      using True current writer_invD(2, 4, 5) [OF inv, of k] by fastforce
    then have "writer_inv W K (?w\<lparr>w_skipped := w_skipped ?w + 1\<rparr>, d)"
      using k by (intro writer_inv_step [OF inv, of k]) auto
    with True show ?thesis by (simp add: write_file_def Let_def)
  next
    case False
    have "writer_inv W K (?w\<lparr>w_written := w_written ?w + 1, w_changed := w_changed ?w @ [k]\<rparr>, (d(k @ ''.tmp'' := None))(k \<mapsto> ?body))"
      using k tmp by (intro writer_inv_step [OF inv, of k]) (auto split: if_splits)
    with False show ?thesis by (auto simp: write_file_def Let_def)
  qed
qed

lemma keep_inv:
  assumes inv: "writer_inv W K (w, d)" and k: "k \<in> K"
  shows "writer_inv W K (snd (keep k (w, d)))"
proof (cases "map_of (w_previous w) k = None \<or> d k = None")
  case True
  then show ?thesis
    using inv by (auto simp: keep_def split: option.split)
next
  case False
  then obtain h c where h: "map_of (w_previous w) k = Some h" and c: "d k = Some c" by auto
  have hash: "content_hash c = h"
    using writer_invD(2, 4, 5, 6) [OF inv, of k] h c k by fastforce
  let ?w = "(expect k w)\<lparr>w_current := put_entry k h (w_current w), w_skipped := w_skipped w + 1\<rparr>"
  have "writer_inv W K (?w, d)"
    using k h c hash by (intro writer_inv_step [OF inv, of k]) auto
  with h c show ?thesis by (simp add: keep_def Let_def)
qed

lemma collisions_grow: "w_collisions (fst (do_call page_filter call wd)) = [] \<Longrightarrow> w_collisions (fst wd) = []"
  by (cases call) (auto simp: write_file_def keep_def Let_def note_hash_collisions split: prod.splits if_splits option.splits)

lemma run_inv:
  assumes "\<And>call. call \<in> set calls \<Longrightarrow> (writes call \<noteq> None \<longrightarrow> target call \<in> W - K \<and> target call @ ''.tmp'' \<notin> W \<union> K) \<and>
      (writes call = None \<longrightarrow> target call \<in> K)"
    and "writer_inv W K wd" and "w_collisions (fst (fold (do_call page_filter) calls wd)) = []"
  shows "writer_inv W K (fold (do_call page_filter) calls wd)"
  using assms
proof (induction calls arbitrary: wd)
  case (Cons call calls)
  have grow: "w_collisions (fst (fold (do_call page_filter) calls wd')) = [] \<Longrightarrow> w_collisions (fst wd') = []" for wd'
  proof (induction calls arbitrary: wd')
    case (Cons call calls)
    then show ?case using collisions_grow [of page_filter call wd'] by simp
  qed simp
  have none: "w_collisions (fst (do_call page_filter call wd)) = []"
    using grow Cons.prems(3) by simp
  have "writer_inv W K (do_call page_filter call wd)"
    using Cons.prems(1) [of call] Cons.prems(2) none
    by (cases wd; cases call) (auto intro!: write_inv keep_inv)
  then show ?case
    using Cons by simp
qed simp

lemma loaded_simps [simp]:
  "w_current (load_manifest d (new_writer force)) = []" "w_expected (load_manifest d (new_writer force)) = {}"
  "w_collisions (load_manifest d (new_writer force)) = []" "w_force (load_manifest d (new_writer force)) = force"
  "w_written (load_manifest d (new_writer force)) = 0" "w_skipped (load_manifest d (new_writer force)) = 0"
  by (auto simp: load_manifest_def new_writer_def Let_def split: outcome.split)

lemma loaded_previous: "w_previous (load_manifest d (new_writer force)) = w_previous (load_manifest d (new_writer False))"
  by (simp add: load_manifest_def new_writer_def Let_def split: outcome.split)

lemma targets: "target ` set calls = written_keys calls \<union> kept_keys calls"
proof -
  have "writes call = None \<longleftrightarrow> call = Keep_File (target call)" for call
    by (cases call) auto
  then show ?thesis
    by (fastforce simp: written_keys_def kept_keys_def image_iff)
qed

lemma proper_call:
  assumes "proper_calls calls" and "call \<in> set calls"
  shows "(writes call \<noteq> None \<longrightarrow> target call \<in> written_keys calls - kept_keys calls \<and>
      target call @ ''.tmp'' \<notin> written_keys calls \<union> kept_keys calls) \<and> (writes call = None \<longrightarrow> target call \<in> kept_keys calls)"
proof (cases "writes call")
  case None
  then have "call = Keep_File (target call)" by (cases call) auto
  with None assms(2) show ?thesis by (metis (mono_tags) kept_keys_def mem_Collect_eq)
next
  case (Some kc)
  then have "target call \<in> written_keys calls"
    using assms(2) by (auto simp: written_keys_def)
  then show ?thesis
    using assms(1) Some by (auto simp: proper_calls_def targets)
qed

lemma run_calls_inv:
  assumes "manifest_true d" and "proper_calls calls" and "w_collisions (fst (run_calls page_filter force calls d)) = []"
  shows "writer_inv (written_keys calls) (kept_keys calls) (run_calls page_filter force calls d)"
proof -
  have "writer_inv (written_keys calls) (kept_keys calls) (load_manifest d (new_writer force), d)"
    using assms(1) by (auto simp: writer_inv_def manifest_true_def loaded_previous [of d force])
  then show ?thesis
    using run_inv [OF proper_call [OF assms(2)]] assms(3) by (simp add: run_calls_def)
qed

text \<open>With no collision, the hash of every result written is the one the writer holds.\<close>

lemma fold_collisions: "w_collisions (fst (fold (do_call page_filter) calls wd)) = [] \<Longrightarrow> w_collisions (fst wd) = []"
proof (induction calls arbitrary: wd)
  case (Cons call calls)
  then show ?case using collisions_grow [of page_filter call wd] by simp
qed simp

lemma written_hash:
  assumes "w_collisions (fst (fold (do_call page_filter) calls wd)) = []" and "written_keys calls \<inter> kept_keys calls = {}"
    and "call \<in> set calls" and "writes call = Some (k, content)"
  shows "map_of (w_current (fst (fold (do_call page_filter) calls wd))) k = Some (content_hash (filtered page_filter k content))"
  using assms
proof (induction calls rule: rev_induct)
  case (snoc last_call calls)
  let ?wd = "fold (do_call page_filter) calls wd"
  have step: "fold (do_call page_filter) (calls @ [last_call]) wd = do_call page_filter last_call ?wd"
    by simp
  have none: "w_collisions (fst (do_call page_filter last_call ?wd)) = []"
    using snoc.prems(1) step by simp
  have written: "map_of (w_current (fst (write_file page_filter j body wd'))) = (map_of (w_current (fst wd')))(j \<mapsto> content_hash (filtered page_filter j body))" for j body wd'
    by (cases wd') (simp add: write_file_def Let_def map_of_put_entry)
  show ?case
  proof (cases "writes last_call = Some (k, content)")
    case True
    then show ?thesis by (cases last_call) (auto simp: written)
  next
    case False
    then have call: "call \<in> set calls"
      using snoc.prems by auto
    have "target call = k"
      using snoc.prems(4) by (cases call) auto
    then have k: "k \<in> written_keys calls"
      using call snoc.prems(4) unfolding written_keys_def by blast
    have earlier: "map_of (w_current (fst ?wd)) k = Some (content_hash (filtered page_filter k content))"
    proof (rule snoc.IH [OF collisions_grow [OF none] _ call snoc.prems(4)])
      have "written_keys calls \<subseteq> written_keys (calls @ [last_call])" "kept_keys calls \<subseteq> kept_keys (calls @ [last_call])"
        by (auto simp: written_keys_def kept_keys_def)
      then show "written_keys calls \<inter> kept_keys calls = {}"
        using snoc.prems(2) by blast
    qed
    show ?thesis
    proof (cases last_call)
      case (Keep_File j)
      then have "j \<noteq> k"
        using k snoc.prems(2) by (auto simp: written_keys_def kept_keys_def)
      then show ?thesis
        using earlier Keep_File by (cases ?wd) (auto simp: keep_def Let_def map_of_put_entry split: option.splits)
    next
      case (Write_File j body)
      then show ?thesis
        using earlier none write_no_collision [of page_filter j body ?wd] by (auto simp: written)
    next
      case (Copy_File j body)
      then show ?thesis
        using earlier none write_no_collision [of page_filter j body ?wd] by (auto simp: written)
    qed
  qed
qed simp

text \<open>
  C4. A build that succeeds leaves a tree its manifest tells the truth about. When the manifest of the
  last build holds the hashes of the files that are there, and the calls of a build produce no two
  results for one path, then afterwards every path written holds a result with the hash of the one
  asked for, nothing is there but what the build produced and what pruning leaves alone, and the new
  manifest holds the hashes of the files again, so that the next build starts from the truth.
\<close>

theorem build_keeps_manifest_true:
  assumes "manifest_true d" and "proper_calls calls" and "run_build page_filter force calls d = (Inr w, d')"
  shows "manifest_true d' \<and> (\<forall>k c. d' k = Some c \<and> \<not> prune_leaves k \<longrightarrow> k \<in> target ` set calls) \<and>
    (\<forall>call \<in> set calls. \<forall>k content. writes call = Some (k, content) \<longrightarrow>
      (\<exists>c. d' k = Some c \<and> content_hash c = content_hash (filtered page_filter k content)))"
proof -
  obtain d1 where run: "run_calls page_filter force calls d = (w, d1)" and none: "w_collisions w = []"
      and d': "d' = save_manifest w (prune w d1)"
    using assms(3) by (auto simp: run_build_def finish_build_def Let_def split: prod.splits if_splits)
  have inv: "writer_inv (written_keys calls) (kept_keys calls) (w, d1)"
    using run_calls_inv [OF assms(1, 2)] run none by (metis fst_conv)
  note inv' = writer_invD [OF inv]
  have expected: "k \<in> target ` set calls" "k \<noteq> manifest_name" if "k \<in> w_expected w" for k
    using inv'(3) [OF that] assms(2) by (auto simp: targets proper_calls_def)
  have kept: "d' k = d1 k" if "k \<in> w_expected w" for k
    using expected(2) [OF that] that by (simp add: d' save_manifest_def prune_def)
  have "manifest_true d'"
    unfolding manifest_true_def d' manifest_reads_back [OF inv'(1)]
    using inv'(2, 4) kept d' by fastforce
  moreover have "k \<in> target ` set calls" if "d' k = Some c" "\<not> prune_leaves k" for k c
    using that expected by (auto simp: d' save_manifest_def prune_def prune_leaves_def split: if_splits)
  moreover have "\<exists>c. d' k = Some c \<and> content_hash c = content_hash (filtered page_filter k content)"
    if "call \<in> set calls" "writes call = Some (k, content)" for call k content
  proof -
    have "map_of (w_current w) k = Some (content_hash (filtered page_filter k content))"
      using written_hash [OF _ _ that, of page_filter "(load_manifest d (new_writer force), d)"] run none assms(2)
      by (simp add: run_calls_def proper_calls_def)
    then show ?thesis
      using inv'(2, 4) kept by fastforce
  qed
  ultimately show ?thesis by blast
qed

definition one_page :: "writer_call list" where
  "one_page = [Write_File ''a.html'' ''A'', Keep_File ''b.html'']"

lemma one_page_proper: "proper_calls one_page"
  by (auto simp: proper_calls_def one_page_def written_keys_def kept_keys_def manifest_name_def state_name_def)

lemma empty_true: "manifest_true (\<lambda>k. None)"
  by (simp add: manifest_true_def)

lemma one_page_built: "\<exists>w. run_build None False one_page (\<lambda>k. None) = (Inr w, snd (run_build None False one_page (\<lambda>k. None)))"
  by (simp add: run_build_def run_calls_def one_page_def load_manifest_def new_writer_def file_text_def write_file_def keep_def
      note_hash_def expect_def finish_build_def Let_def)

theorem build_keeps_manifest_true_witness:
  "manifest_true (snd (run_build None False one_page (\<lambda>k. None))) \<and>
   (\<exists>c. snd (run_build None False one_page (\<lambda>k. None)) ''a.html'' = Some c \<and> content_hash c = content_hash ''A'')"
proof -
  obtain w where "run_build None False one_page (\<lambda>k. None) = (Inr w, snd (run_build None False one_page (\<lambda>k. None)))"
    using one_page_built by blast
  from build_keeps_manifest_true [OF empty_true one_page_proper this] show ?thesis
    by (simp add: one_page_def filtered_def)
qed

section \<open>Building again\<close>

definition books :: "writer \<Rightarrow> (string \<times> string) list \<times> string set \<times> string list" where
  "books w = (w_current w, w_expected w, w_collisions w)"

lemma books_call:
  assumes "books (fst wd) = books (fst wd')" and "writes call \<noteq> None"
  shows "books (fst (do_call page_filter call wd)) = books (fst (do_call page_filter call wd'))"
proof -
  have "books (fst (write_file page_filter k c wd)) = books (fst (write_file page_filter k c wd'))" for k c
    using assms(1) by (cases wd; cases wd') (auto simp: write_file_def Let_def books_def note_hash_collisions)
  with assms(2) show ?thesis by (cases call) auto
qed

lemma books_run:
  "books (fst wd) = books (fst wd') \<Longrightarrow> \<forall>call \<in> set calls. writes call \<noteq> None \<Longrightarrow>
   books (fst (fold (do_call page_filter) calls wd)) = books (fst (fold (do_call page_filter) calls wd'))"
proof (induction calls arbitrary: wd wd')
  case (Cons call calls)
  have "books (fst (do_call page_filter call wd)) = books (fst (do_call page_filter call wd'))"
    using Cons.prems by (intro books_call) simp_all
  from Cons.IH [OF this] show ?case
    using Cons.prems(2) by simp
qed simp

lemma run_skips:
  assumes "\<not> w_force w" and "\<And>call k c. call \<in> set calls \<Longrightarrow> writes call = Some (k, c) \<Longrightarrow>
      map_of (w_previous w) k = Some (content_hash (filtered page_filter k c)) \<and> d k \<noteq> None"
    and "\<forall>call \<in> set calls. writes call \<noteq> None"
  shows "\<exists>w'. fold (do_call page_filter) calls (w, d) = (w', d) \<and> w_written w' = w_written w \<and> w_skipped w' = w_skipped w + length calls"
  using assms
proof (induction calls arbitrary: w)
  case (Cons call calls)
  obtain k c where call: "writes call = Some (k, c)" using Cons.prems(3) by auto
  have known: "map_of (w_previous w) k = Some (content_hash (filtered page_filter k c)) \<and> d k \<noteq> None"
    using Cons.prems(2) [of call] call by simp
  have same: "do_call page_filter call (w, d) = write_file page_filter k c (w, d)"
    using call by (cases call) auto
  obtain w1 where w1: "write_file page_filter k c (w, d) = (w1, d)" "w_previous w1 = w_previous w" "\<not> w_force w1"
      "w_written w1 = w_written w" "w_skipped w1 = w_skipped w + 1"
    using known Cons.prems(1) by (simp add: write_file_def Let_def)
  have step: "do_call page_filter call (w, d) = (w1, d)" using same w1 by simp
  have "\<exists>w'. fold (do_call page_filter) calls (w1, d) = (w', d) \<and> w_written w' = w_written w1 \<and> w_skipped w' = w_skipped w1 + length calls"
  proof (rule Cons.IH [OF w1(3)])
    fix other k c assume "other \<in> set calls" "writes other = Some (k, c)"
    then show "map_of (w_previous w1) k = Some (content_hash (filtered page_filter k c)) \<and> d k \<noteq> None"
      using Cons.prems(2) [of other] w1(2) by simp
  qed (use Cons.prems(3) in simp)
  then show ?case
    using w1 step by auto
qed simp

text \<open>
  C34. Building a site again writes nothing but its state. Take a tree whose manifest holds the hashes of
  its files, and calls none of which is for the writer's own files or for the temporary name of another,
  and all of which produce their file instead of keeping the last build's. When a build with them
  succeeded, the same calls on the tree it left succeed, write no file and skip every one of them; the
  tree, the manifest included, is as it was, but for the state file, which is saved anew.
\<close>

theorem rebuild_writes_nothing:
  assumes "manifest_true d" and "proper_calls calls" and "\<forall>call \<in> set calls. writes call \<noteq> None"
    and "run_site page_filter force old_state calls d = (Inr w, d')"
  shows "\<exists>w'. run_site page_filter False new_state calls d' = (Inr w', d'(state_name \<mapsto> new_state)) \<and>
    w_written w' = 0 \<and> w_skipped w' = length calls"
proof -
  obtain d1 where run: "run_calls page_filter force calls d = (w, d1)" and none: "w_collisions w = []"
      and d': "d' = (save_manifest w (prune w d1))(state_name \<mapsto> old_state)"
    using assms(4) by (auto simp: run_site_def finish_site_def finish_build_def Let_def split: prod.splits if_splits sum.splits)
  have inv: "writer_inv (written_keys calls) (kept_keys calls) (w, d1)"
    using run_calls_inv [OF assms(1, 2)] run none by (metis fst_conv)
  note inv' = writer_invD [OF inv]
  let ?w0 = "load_manifest d' (new_writer False)"
  have "manifest_name \<noteq> state_name"
    by (simp add: manifest_name_def state_name_def)
  then have loaded: "?w0 = load_manifest (save_manifest w (prune w d1)) (new_writer False)"
    by (simp add: d' load_manifest_def file_text_def)
  have known: "map_of (w_previous ?w0) k = Some (content_hash (filtered page_filter k c)) \<and> d' k \<noteq> None"
    if "call \<in> set calls" "writes call = Some (k, c)" for call k c
  proof -
    have current: "map_of (w_current w) k = Some (content_hash (filtered page_filter k c))"
      using written_hash [OF _ _ that, of page_filter "(load_manifest d (new_writer force), d)"] run none assms(2)
      by (simp add: run_calls_def proper_calls_def)
    then have "d1 k \<noteq> None" "k \<in> w_expected w"
      using inv'(2, 4) by fastforce+
    then show ?thesis
      using current manifest_reads_back [OF inv'(1)] by (simp add: loaded) (simp add: d' save_manifest_def prune_def)
  qed
  have "\<not> w_force ?w0" by simp
  have "\<exists>w'. fold (do_call page_filter) calls (?w0, d') = (w', d') \<and> w_written w' = w_written ?w0 \<and> w_skipped w' = w_skipped ?w0 + length calls"
    by (rule run_skips [OF \<open>\<not> w_force ?w0\<close> _ assms(3)]) (rule known)
  then obtain w' where again: "run_calls page_filter False calls d' = (w', d')"
      and counts: "w_written w' = 0" "w_skipped w' = length calls"
    by (auto simp: run_calls_def)
  have "books w' = books w"
    using books_run [of "(?w0, d')" "(load_manifest d (new_writer force), d)" calls page_filter] assms(3) again run
    by (simp add: run_calls_def books_def)
  then have same: "w_current w' = w_current w" "w_expected w' = w_expected w" "w_collisions w' = []"
    using none by (simp_all add: books_def)
  have "manifest_value w' = manifest_value w"
    by (simp add: manifest_value_def same)
  then have "(save_manifest w' (prune w' d'))(state_name \<mapsto> new_state) = d'(state_name \<mapsto> new_state)"
    by (auto simp: d' save_manifest_def prune_def prune_leaves_def same fun_eq_iff)
  then show ?thesis
    using again counts same by (simp add: run_site_def finish_site_def finish_build_def)
qed

theorem rebuild_writes_nothing_witness:
  "\<exists>w d. snd (run_site None False ''first'' [Write_File ''a.html'' ''A''] (\<lambda>k. None)) = d \<and>
     run_site None False ''second'' [Write_File ''a.html'' ''A''] d = (Inr w, d(state_name \<mapsto> ''second'')) \<and>
     w_written w = 0 \<and> w_skipped w = 1"
proof -
  let ?calls = "[Write_File ''a.html'' ''A'']"
  have "proper_calls ?calls"
    by (auto simp: proper_calls_def written_keys_def kept_keys_def manifest_name_def state_name_def)
  moreover obtain w where "run_site None False ''first'' ?calls (\<lambda>k. None) = (Inr w, snd (run_site None False ''first'' ?calls (\<lambda>k. None)))"
    by (auto simp: run_site_def finish_site_def run_calls_def load_manifest_def new_writer_def file_text_def write_file_def
        note_hash_def expect_def finish_build_def Let_def)
  ultimately show ?thesis
    using rebuild_writes_nothing [OF empty_true, of ?calls None False "''first''" w _ "''second''"] by simp
qed

section \<open>A build that stops\<close>

text \<open>
  A build that stops with an error has already put pages into the tree and does not save its manifest.
  The next build trusts the manifest of the one before: a page whose old text comes back is skipped,
  and the text of the build that stopped stays.
\<close>

lemma stopped_build_leaves_page:
  assumes "content_hash a \<noteq> content_hash b"
  shows "\<exists>w1 d1 d2 w3 d3.
    run_build None False [Write_File ''p.html'' a] (\<lambda>k. None) = (Inr w1, d1) \<and>
    run_build None False [Write_File ''p.html'' a, Write_File ''p.html'' b] d1 = (Inl [''p.html''], d2) \<and>
    run_build None False [Write_File ''p.html'' a] d2 = (Inr w3, d3) \<and> d3 ''p.html'' = Some b"
proof -
  let ?calls = "[Write_File ''p.html'' a]"
  have names: "''p.html'' \<noteq> manifest_name" "''p.html.tmp'' \<noteq> manifest_name" "manifest_name \<noteq> ''p.html''" "manifest_name \<noteq> ''p.html.tmp''"
    by (simp_all add: manifest_name_def)
  obtain w1 d1 where first: "run_build None False ?calls (\<lambda>k. None) = (Inr w1, d1)"
    and current: "w_current w1 = [(''p.html'', content_hash a)]" and page: "d1 ''p.html'' = Some a"
    and saved: "\<exists>d. d1 = save_manifest w1 d"
    using names by (auto simp: run_build_def run_calls_def load_manifest_def new_writer_def file_text_def write_file_def
        note_hash_def expect_def finish_build_def filtered_def prune_def save_manifest_def Let_def)
  have known: "map_of (w_previous (load_manifest d1 (new_writer False))) ''p.html'' = Some (content_hash a)"
    using saved current manifest_reads_back [of w1] by auto
  let ?d2 = "(d1(''p.html.tmp'' := None))(''p.html'' \<mapsto> b)"
  have reload: "load_manifest ?d2 (new_writer False) = load_manifest d1 (new_writer False)"
    using names by (simp add: load_manifest_def file_text_def)
  have second: "run_build None False [Write_File ''p.html'' a, Write_File ''p.html'' b] d1 = (Inl [''p.html''], ?d2)"
    using known page assms
    by (simp add: run_build_def run_calls_def write_file_def filtered_def finish_build_def note_hash_collisions Let_def)
  have "\<exists>w3 d3. run_build None False ?calls ?d2 = (Inr w3, d3) \<and> d3 ''p.html'' = Some b"
    using known names
    by (simp add: run_build_def run_calls_def write_file_def filtered_def finish_build_def note_hash_collisions reload
        save_manifest_def prune_def Let_def)
  with first second show ?thesis by blast
qed

end
