(* ===== verification/BuildStates.thy ===== *)
theory BuildStates
  imports Writers
begin

text \<open>
  What one build remembers for the next (\<open>build_state.cpp\<close>): \<open>save\<close> writes it as JSON and \<open>load\<close>
  reads it. A map of the code is an association list in the order it is walked; sizes are unsigned
  and pass through the signed integers of the JSON values. \<open>load\<close> is undefined, \<open>None\<close>, where the
  conversion of a double that fits no integer is.
\<close>

record source_state =
  ss_size :: nat
  ss_modified :: int
  ss_hash :: string
  ss_output :: string
  ss_metadata :: jvalue

record build_state =
  bs_fingerprint :: string
  bs_sources :: "(string \<times> source_state) list"
  bs_derived :: "string list"
  bs_listings :: int
  bs_copies :: "(string \<times> source_state) list"
  bs_started :: int

definition settled :: "build_state \<Rightarrow> source_state \<Rightarrow> bool" where
  "settled state source \<longleftrightarrow> ss_modified source < bs_started state"

definition empty_state :: build_state where
  "empty_state = \<lparr>bs_fingerprint = [], bs_sources = [], bs_derived = [], bs_listings = 0, bs_copies = [], bs_started = 0\<rparr>"

section \<open>Saving\<close>

definition source_value :: "source_state \<Rightarrow> jvalue" where
  "source_value s =
     set_member (set_member (set_member (set_member (set_member (VObject [])
       ''size'' (VInteger (int64_of_size (ss_size s)))) ''modified'' (VInteger (ss_modified s)))
       ''hash'' (VString (ss_hash s))) ''output'' (VString (ss_output s))) ''metadata'' (ss_metadata s)"

definition sources_value :: "(string \<times> source_state) list \<Rightarrow> jvalue" where
  "sources_value from_map = fold (\<lambda>(k, s) v. set_member v k (source_value s)) from_map (VObject [])"

definition state_value :: "build_state \<Rightarrow> jvalue" where
  "state_value b =
     set_member (set_member (set_member (set_member (set_member (set_member (VObject [])
       ''fingerprint'' (VString (bs_fingerprint b))) ''started'' (VInteger (bs_started b)))
       ''listings'' (VInteger (bs_listings b)))
       ''derived'' (fold (\<lambda>entry v. push_item v (VString entry)) (bs_derived b) (VArray [])))
       ''sources'' (sources_value (bs_sources b))) ''copies'' (sources_value (bs_copies b))"

definition save_state :: "build_state \<Rightarrow> string" where
  "save_state b = to_json (state_value b) Compact True"

section \<open>Loading\<close>

text \<open>\<open>static_cast<std::uintmax_t>\<close> of a signed integer wraps around.\<close>

definition size_of_int64 :: "int \<Rightarrow> nat" where
  "size_of_int64 i = nat (i mod 2 ^ 64)"

definition read_source :: "jvalue \<Rightarrow> source_state option" where
  "read_source v =
     (case (as_integer (get_member v ''size'') 0, as_integer (get_member v ''modified'') 0) of
        (Some bytes, Some modified) \<Rightarrow>
          Some \<lparr>ss_size = size_of_int64 bytes, ss_modified = modified, ss_hash = as_string (get_member v ''hash'') [],
            ss_output = as_string (get_member v ''output'') [], ss_metadata = get_member v ''metadata''\<rparr>
      | _ \<Rightarrow> None)"

fun read_sources :: "(string \<times> jvalue) list \<Rightarrow> (string \<times> source_state) list \<Rightarrow> (string \<times> source_state) list option" where
  "read_sources [] into = Some into"
| "read_sources ((k, v) # entries) into =
     (case read_source v of None \<Rightarrow> None | Some s \<Rightarrow> read_sources entries (emplace k s into))"

definition load_state :: "string \<Rightarrow> build_state option" where
  "load_state s =
     (case parse_json s of
        Done v st \<Rightarrow>
          if \<not> is_object v then Some empty_state
          else
            (case (as_integer (get_member v ''started'') 0, as_integer (get_member v ''listings'') 0,
                read_sources (members (get_member v ''sources'')) [], read_sources (members (get_member v ''copies'')) []) of
               (Some started, Some listings, Some sources, Some copies) \<Rightarrow>
                 Some \<lparr>bs_fingerprint = as_string (get_member v ''fingerprint'') [], bs_sources = sources,
                   bs_derived = map (\<lambda>entry. as_string entry []) (items (get_member v ''derived'')),
                   bs_listings = listings, bs_copies = copies, bs_started = started\<rparr>
             | _ \<Rightarrow> None)
      | _ \<Rightarrow> Some empty_state)"

section \<open>What is saved is loaded\<close>

definition source_ok :: "source_state \<Rightarrow> bool" where
  "source_ok s \<longleftrightarrow> ss_size s < 2 ^ 64 \<and> in_int64 (ss_modified s) \<and> value_ok (ss_metadata s) \<and> number_free (ss_metadata s) \<and>
     nesting (ss_metadata s) \<le> 61"

definition state_ok :: "build_state \<Rightarrow> bool" where
  "state_ok b \<longleftrightarrow> in_int64 (bs_started b) \<and> in_int64 (bs_listings b) \<and>
     distinct (map fst (bs_sources b)) \<and> distinct (map fst (bs_copies b)) \<and>
     (\<forall>s \<in> snd ` (set (bs_sources b) \<union> set (bs_copies b)). source_ok s)"

text \<open>A source as it comes back: the members of its metadata sorted by key.\<close>

definition sorted_source :: "source_state \<Rightarrow> source_state" where
  "sorted_source s = s\<lparr>ss_metadata := reorder (ss_metadata s)\<rparr>"

lemma size_round_trip: "n < 2 ^ 64 \<Longrightarrow> size_of_int64 (int64_of_size n) = n"
  by (simp add: size_of_int64_def int64_of_size_def mod_diff_left_eq)

lemma find_reorder: "distinct (map fst ms) \<Longrightarrow> find_member (reorder (VObject ms)) k = map_option reorder (map_of ms k)"
proof -
  assume d: "distinct (map fst ms)"
  have "distinct (map fst (map (\<lambda>m. (fst m, reorder (snd m))) ms))"
    using d by (simp add: o_def)
  then show ?thesis
    using map_of_map_values [of reorder ms] by (simp add: map_of_sort_key case_prod_beta')
qed

lemma get_VObject: "get_member (VObject ms) k = (case map_of ms k of Some v \<Rightarrow> v | None \<Rightarrow> VNull)"
  by (simp add: get_member_def)

lemma get_reorder: "distinct (map fst ms) \<Longrightarrow> get_member (reorder (VObject ms)) k = reorder (get_member (VObject ms) k)"
  using find_reorder [of ms k] by (simp only: get_member_def find_member_VObject) (simp split: option.split)

lemma source_members: "source_value s = VObject [(''size'', VInteger (int64_of_size (ss_size s))), (''modified'', VInteger (ss_modified s)),
    (''hash'', VString (ss_hash s)), (''output'', VString (ss_output s)), (''metadata'', ss_metadata s)]"
  by (simp add: source_value_def set_member_def)

lemma read_written_source: "source_ok s \<Longrightarrow> read_source (reorder (source_value s)) = Some (sorted_source s)"
  by (simp add: source_members read_source_def get_reorder get_VObject size_round_trip source_ok_def sorted_source_def del: reorder.simps(2))

lemma read_sources_all:
  "distinct (map fst ms) \<Longrightarrow> fst ` set into \<inter> fst ` set ms = {} \<Longrightarrow> (\<And>m. m \<in> set ms \<Longrightarrow> read_source (snd m) = Some (g m)) \<Longrightarrow>
   read_sources ms into = Some (into @ map (\<lambda>m. (fst m, g m)) ms)"
proof (induction ms arbitrary: into)
  case (Cons m ms)
  obtain k v where m: "m = (k, v)" by fastforce
  have "read_source v = Some (g m)" using Cons.prems(3) [of m] m by simp
  moreover have "emplace k (g m) into = into @ [(k, g m)]"
    using Cons.prems(2) m by (auto simp: emplace_def)
  moreover have "read_sources ms (into @ [(k, g m)]) = Some ((into @ [(k, g m)]) @ map (\<lambda>m. (fst m, g m)) ms)"
    using Cons.prems m by (intro Cons.IH) auto
  ultimately show ?case by (simp add: m)
qed simp

lemma sources_members: "distinct (map fst l) \<Longrightarrow> sources_value l = VObject (map (\<lambda>m. (fst m, source_value (snd m))) l)"
  using fold_set_member [of "[]" l source_value] by (simp add: sources_value_def case_prod_beta')

text \<open>The sources of a map as they come back.\<close>

definition sorted_sources :: "(string \<times> source_state) list \<Rightarrow> (string \<times> source_state) list" where
  "sorted_sources l = map (\<lambda>m. (fst m, sorted_source (snd m))) (sort_key fst l)"

lemma sources_read_back:
  assumes "distinct (map fst l)" and "\<And>m. m \<in> set l \<Longrightarrow> source_ok (snd m)"
  shows "read_sources (members (reorder (sources_value l))) [] = Some (sorted_sources l)"
proof -
  let ?ms = "map (\<lambda>m. (fst m, reorder (source_value (snd m)))) (sort_key fst l)"
  have sorted: "sort_key fst (map (\<lambda>m. (fst m, reorder (source_value (snd m)))) l) = ?ms"
    using sort_key_map_snd [of "\<lambda>s. reorder (source_value s)" l] by simp
  have "members (reorder (sources_value l)) = ?ms"
    using sorted by (simp add: sources_members [OF assms(1)] o_def)
  moreover have "read_sources ?ms [] = Some (map (\<lambda>m. (fst m, the (read_source (snd m)))) ?ms)"
    using assms by (subst read_sources_all [where g = "\<lambda>m. the (read_source (snd m))"])
      (auto simp: read_written_source distinct_sort_key_fst o_def)
  moreover have "map (\<lambda>m. (fst m, the (read_source (snd m)))) ?ms = sorted_sources l"
    using assms(2) by (auto simp: sorted_sources_def read_written_source)
  ultimately show ?thesis by simp
qed

lemma map_of_sorted_sources: "distinct (map fst l) \<Longrightarrow> map_of (sorted_sources l) = map_option sorted_source \<circ> map_of l"
  using map_of_map_values [of sorted_source "sort_key fst l"] by (simp add: sorted_sources_def case_prod_beta' map_of_sort_key)

lemma state_members:
  "state_value b = VObject [(''fingerprint'', VString (bs_fingerprint b)), (''started'', VInteger (bs_started b)),
     (''listings'', VInteger (bs_listings b)), (''derived'', VArray (map VString (bs_derived b))),
     (''sources'', sources_value (bs_sources b)), (''copies'', sources_value (bs_copies b))]"
  by (simp add: state_value_def set_member_def fold_push_items)

lemma source_writable:
  assumes "source_ok s"
  shows "value_ok (source_value s)" and "number_free (source_value s)" and "nesting (source_value s) \<le> Suc 61"
proof -
  show "nesting (source_value s) \<le> Suc 61"
    unfolding source_members nesting_object_le using assms by (simp add: source_ok_def)
qed (use assms in \<open>simp_all add: source_members source_ok_def int64_of_size_fits\<close>)

lemma sources_writable:
  assumes "distinct (map fst l)" and "\<And>m. m \<in> set l \<Longrightarrow> source_ok (snd m)"
  shows "value_ok (sources_value l)" and "number_free (sources_value l)" and "nesting (sources_value l) \<le> Suc 62"
proof -
  show "nesting (sources_value l) \<le> Suc 62"
    unfolding sources_members [OF assms(1)] nesting_object_le using assms(2) source_writable(3) by auto
qed (use assms source_writable in \<open>auto simp: sources_members o_def\<close>)

lemma state_writable:
  assumes "state_ok b"
  shows "value_ok (state_value b)" and "number_free (state_value b)" and "nesting (state_value b) \<le> max_json_depth"
proof -
  have ok: "distinct (map fst (bs_sources b))" "distinct (map fst (bs_copies b))"
      "\<And>m. m \<in> set (bs_sources b) \<Longrightarrow> source_ok (snd m)" "\<And>m. m \<in> set (bs_copies b) \<Longrightarrow> source_ok (snd m)"
      "in_int64 (bs_started b)" "in_int64 (bs_listings b)"
    using assms by (auto simp: state_ok_def)
  note sources = sources_writable [OF ok(1, 3)] and copies = sources_writable [OF ok(2, 4)]
  show "value_ok (state_value b)" "number_free (state_value b)"
    using sources copies ok(5, 6) by (simp_all add: state_members)
  have "nesting (VArray (map VString (bs_derived b))) \<le> Suc 62"
    unfolding nesting_array_le by auto
  then have "nesting (state_value b) \<le> Suc 63"
    unfolding state_members nesting_object_le using sources(3) copies(3) by simp
  then show "nesting (state_value b) \<le> max_json_depth"
    by (simp add: max_json_depth_def)
qed

text \<open>
  C39. What a build remembers, the next build reads. Every state whose numbers fit and whose metadata
  holds no double and nests at most 61 deep is loaded as it was saved: the fingerprint, the start, the
  count and the derived paths in their order, and under every path the source with its size, stamp,
  hash, output and metadata, the members of the metadata sorted by key.
\<close>

theorem build_state_round_trip:
  assumes "state_ok b"
  shows "\<exists>t. load_state (save_state b) = Some t \<and> bs_fingerprint t = bs_fingerprint b \<and> bs_started t = bs_started b \<and>
    bs_listings t = bs_listings b \<and> bs_derived t = bs_derived b \<and>
    map_of (bs_sources t) = map_option sorted_source \<circ> map_of (bs_sources b) \<and>
    map_of (bs_copies t) = map_option sorted_source \<circ> map_of (bs_copies b)"
proof -
  obtain st where parsed: "parse_json (save_state b) = Done (reorder (state_value b)) st"
    using to_json_reads_back [OF state_writable [OF assms], of Compact True] by (auto simp: save_state_def)
  have ok: "distinct (map fst (bs_sources b))" "distinct (map fst (bs_copies b))"
      "\<And>m. m \<in> set (bs_sources b) \<Longrightarrow> source_ok (snd m)" "\<And>m. m \<in> set (bs_copies b) \<Longrightarrow> source_ok (snd m)"
    using assms by (auto simp: state_ok_def)
  have object: "is_object (reorder (state_value b))"
    by (simp add: state_members)
  have get: "get_member (reorder (state_value b)) k = reorder (get_member (state_value b) k)" for k
    unfolding state_members by (rule get_reorder) simp
  show ?thesis
    using object map_of_sorted_sources [OF ok(1)] map_of_sorted_sources [OF ok(2)]
    by (simp add: load_state_def parsed get) (simp add: state_members get_VObject sources_read_back ok o_def)
qed

theorem build_state_round_trip_witness:
  "\<exists>t. load_state (save_state (empty_state\<lparr>bs_fingerprint := ''f'', bs_started := 7, bs_sources := [(''a.md'',
      \<lparr>ss_size = 2 ^ 63, ss_modified = - 1, ss_hash = ''h'', ss_output = ''a.html'', ss_metadata = VObject []\<rparr>)]\<rparr>)) = Some t \<and>
    bs_fingerprint t = ''f'' \<and> bs_started t = 7 \<and>
    map_of (bs_sources t) ''a.md'' = Some \<lparr>ss_size = 2 ^ 63, ss_modified = - 1, ss_hash = ''h'', ss_output = ''a.html'', ss_metadata = VObject []\<rparr>"
proof -
  let ?b = "empty_state\<lparr>bs_fingerprint := ''f'', bs_started := 7, bs_sources := [(''a.md'',
      \<lparr>ss_size = 2 ^ 63, ss_modified = - 1, ss_hash = ''h'', ss_output = ''a.html'', ss_metadata = VObject []\<rparr>)]\<rparr>"
  have "state_ok ?b"
    by (simp add: state_ok_def source_ok_def empty_state_def in_int64_def int64_min_def int64_max_def nesting.simps)
  from build_state_round_trip [OF this] show ?thesis
    by (auto simp: sorted_source_def)
qed

end
