(* ===== verification/Searches.thy ===== *)
theory Searches
  imports JsonRoundTrip "HOL-Library.Multiset"
begin

text \<open>
  The search index (\<open>search.cpp\<close>): tokens, scores, the ranking and the index the browser fetches. The
  scores are \<open>int\<close>s of the code; they are unbounded here, and stay below \<open>2 ^ 31\<close> for texts of less than
  a hundred megabytes. \<open>std::stable_sort\<close> is an insertion sort by the comparison the code gives it.
\<close>

record search_record =
  sr_title :: string
  sr_url :: string
  sr_date :: string
  sr_description :: string
  sr_text :: string
  sr_tags :: "string list"

section \<open>Tokens and scores\<close>

definition is_word_character :: "char \<Rightarrow> bool" where
  "is_word_character c \<longleftrightarrow> between (CHR ''a'') (CHR ''z'') c \<or> between (CHR ''A'') (CHR ''Z'') c \<or>
     between (CHR ''0'') (CHR ''9'') c \<or> c = CHR ''_''"

function tokenize :: "string \<Rightarrow> string list" where
  "tokenize s =
     (let rest = dropWhile (\<lambda>c. \<not> is_word_character c) s in
      if rest = [] then []
      else to_lower_ascii (takeWhile is_word_character rest) # tokenize (dropWhile is_word_character rest))"
  by pat_completeness auto
termination
proof (relation "measure length", goal_cases)
  case (2 s rest)
  then have "length (dropWhile is_word_character rest) < length rest"
    by (intro length_dropWhile_less) (metis hd_dropWhile)+
  also have "length rest \<le> length s"
    using 2 by (simp add: length_dropWhile_le)
  finally show ?case by simp
qed simp

declare tokenize.simps [simp del]

definition count_prefixed :: "string \<Rightarrow> string \<Rightarrow> nat" where
  "count_prefixed s token = length (filter (\<lambda>word. starts_with word token) (tokenize s))"

definition token_score :: "search_record \<Rightarrow> string \<Rightarrow> nat" where
  "token_score r token =
     10 * count_prefixed (sr_title r) token + 1 * count_prefixed (sr_text r) token +
     5 * length (filter (\<lambda>tag. starts_with (to_lower_ascii tag) token) (sr_tags r))"

definition search_score :: "search_record \<Rightarrow> string list \<Rightarrow> nat" where
  "search_score r tokens = sum_list (map (token_score r) tokens)"

section \<open>Ranking\<close>

text \<open>\<open>std::string\<close> compares by bytes, as the order of texts does here.\<close>

definition ranks_before :: "nat \<times> search_record \<Rightarrow> nat \<times> search_record \<Rightarrow> bool" where
  "ranks_before a b =
     (if fst a \<noteq> fst b then fst b < fst a else sr_title (snd a) < sr_title (snd b))"

fun insert_ranked :: "nat \<times> search_record \<Rightarrow> (nat \<times> search_record) list \<Rightarrow> (nat \<times> search_record) list" where
  "insert_ranked x [] = [x]"
| "insert_ranked x (y # ys) = (if ranks_before y x then y # insert_ranked x ys else x # y # ys)"

definition stable_sort_ranked :: "(nat \<times> search_record) list \<Rightarrow> (nat \<times> search_record) list" where
  "stable_sort_ranked xs = foldr insert_ranked xs []"

definition search_rank :: "search_record list \<Rightarrow> string \<Rightarrow> nat \<Rightarrow> search_record list" where
  "search_rank records query cap =
     (let tokens = tokenize query in
      if tokens = [] then []
      else take cap (map snd (stable_sort_ranked
        (filter (\<lambda>s. 0 < fst s) (map (\<lambda>r. (search_score r tokens, r)) records)))))"

section \<open>The index\<close>

definition record_value :: "nat \<Rightarrow> search_record \<Rightarrow> jvalue" where
  "record_value text_length r =
     set_member (set_member (set_member (set_member (set_member (set_member (VObject [])
       ''title'' (VString (sr_title r))) ''url'' (VString (sr_url r))) ''date'' (VString (sr_date r)))
       ''description'' (VString (sr_description r)))
       ''tags'' (fold (\<lambda>tag v. push_item v (VString tag)) (sr_tags r) (VArray [])))
       ''text'' (VString (char_substr (sr_text r) 0 (Some text_length)))"

definition index_json :: "search_record list \<Rightarrow> nat \<Rightarrow> string" where
  "index_json records text_length =
     to_json (fold (\<lambda>r v. push_item v (record_value text_length r)) records (VArray [])) Compact True"

section \<open>The order of the ranking\<close>

text \<open>\<open>b\<close> may stand after \<open>a\<close>.\<close>

definition may_follow :: "nat \<times> search_record \<Rightarrow> nat \<times> search_record \<Rightarrow> bool" where
  "may_follow a b \<longleftrightarrow> fst b < fst a \<or> fst a = fst b \<and> sr_title (snd a) \<le> sr_title (snd b)"

lemma ranks_may_follow: "ranks_before y x \<Longrightarrow> may_follow y x" "\<not> ranks_before y x \<Longrightarrow> may_follow x y"
  by (auto simp: ranks_before_def may_follow_def split: if_splits)

lemma may_follow_trans: "may_follow a b \<Longrightarrow> may_follow b c \<Longrightarrow> may_follow a c"
  by (auto simp: may_follow_def)

lemma mset_insert_ranked [simp]: "mset (insert_ranked x ys) = add_mset x (mset ys)"
  by (induction x ys rule: insert_ranked.induct) auto

lemma insert_ranked_sorted: "sorted_wrt may_follow ys \<Longrightarrow> sorted_wrt may_follow (insert_ranked x ys)"
proof (induction x ys rule: insert_ranked.induct)
  case (2 x y ys)
  have set: "set (insert_ranked x ys) = insert x (set ys)"
    by (metis mset_insert_ranked set_mset_add_mset_insert set_mset_mset)
  show ?case
  proof (cases "ranks_before y x")
    case True
    then show ?thesis
      using 2 ranks_may_follow(1) by (auto simp: set)
  next
    case False
    then have "may_follow x y" by (rule ranks_may_follow(2))
    with False show ?thesis
      using 2 may_follow_trans [of x y] by auto
  qed
qed simp

lemma stable_sort_facts: "mset (stable_sort_ranked xs) = mset xs" "sorted_wrt may_follow (stable_sort_ranked xs)"
  by (induction xs) (simp_all add: stable_sort_ranked_def insert_ranked_sorted)

text \<open>Equal elements keep their order.\<close>

definition same_rank :: "nat \<Rightarrow> string \<Rightarrow> nat \<times> search_record \<Rightarrow> bool" where
  "same_rank n t s \<longleftrightarrow> fst s = n \<and> sr_title (snd s) = t"

lemma insert_ranked_stable: "filter (same_rank n t) (insert_ranked x ys) = filter (same_rank n t) (x # ys)"
  by (induction x ys rule: insert_ranked.induct) (auto simp: same_rank_def ranks_before_def)

lemma sort_stable: "filter (same_rank n t) (stable_sort_ranked xs) = filter (same_rank n t) xs"
  by (induction xs) (simp_all add: stable_sort_ranked_def insert_ranked_stable)

text \<open>Case of the query.\<close>

lemma lower_word: "is_word_character (lower_char c) = is_word_character c"
  by (auto simp: is_word_character_def lower_char_def between_def)

lemma lower_lower: "lower_char (lower_char c) = lower_char c"
  by (auto simp: lower_char_def between_def)

lemma tokenize_lower: "tokenize (to_lower_ascii s) = tokenize s"
proof (induction s rule: tokenize.induct)
  case (1 s)
  have drops: "dropWhile (\<lambda>c. \<not> is_word_character c) (to_lower_ascii t) = to_lower_ascii (dropWhile (\<lambda>c. \<not> is_word_character c) t)"
    "dropWhile is_word_character (to_lower_ascii t) = to_lower_ascii (dropWhile is_word_character t)"
    "takeWhile is_word_character (to_lower_ascii t) = to_lower_ascii (takeWhile is_word_character t)"
    "to_lower_ascii (to_lower_ascii t) = to_lower_ascii t" "to_lower_ascii t = [] \<longleftrightarrow> t = []" for t
    by (simp_all add: to_lower_ascii_def dropWhile_map takeWhile_map o_def lower_word lower_lower)
  let ?rest = "dropWhile (\<lambda>c. \<not> is_word_character c) s"
  show ?case
    unfolding tokenize.simps [of s] tokenize.simps [of "to_lower_ascii s"] Let_def drops
    using "1.IH" [OF refl] by simp
qed

lemma filter_map_pair: "map snd (filter (\<lambda>s. 0 < fst s) (map (\<lambda>r. (f r, r)) records)) = filter (\<lambda>r. 0 < f r) records"
  by (induction records) auto

text \<open>
  A search answers with the best matches. What is found is the beginning, of at most \<open>cap\<close> records,
  of the list of all records that score, the higher score first, equal scores in the order of their
  titles and equal titles in the order of the index; only a list of \<open>cap\<close> records leaves any out; and
  the case of the query makes no difference.
\<close>

theorem search_finds_best:
  defines "score r query \<equiv> search_score r (tokenize query)"
  shows "\<exists>rest. mset (search_rank records query cap @ rest) = mset (filter (\<lambda>r. 0 < score r query) records) \<and>
    sorted_wrt (\<lambda>a b. score b query < score a query \<or> score a query = score b query \<and> sr_title a \<le> sr_title b)
      (search_rank records query cap @ rest) \<and>
    (\<forall>n t. filter (\<lambda>r. score r query = n \<and> sr_title r = t) (search_rank records query cap @ rest) =
      filter (\<lambda>r. score r query = n \<and> sr_title r = t) (filter (\<lambda>r. 0 < score r query) records)) \<and>
    length (search_rank records query cap) \<le> cap \<and> (rest = [] \<or> length (search_rank records query cap) = cap) \<and>
    search_rank records (to_lower_ascii query) cap = search_rank records query cap"
proof -
  define scored where "scored = filter (\<lambda>s. 0 < fst s) (map (\<lambda>r. (score r query, r)) records)"
  define best where "best = map snd (stable_sort_ranked scored)"
  have paired: "\<forall>s \<in> set scored. fst s = score (snd s) query"
    by (auto simp: scored_def)
  have "set (stable_sort_ranked scored) = set scored"
    using stable_sort_facts(1) by (metis set_mset_mset)
  then have paired': "\<forall>s \<in> set (stable_sort_ranked scored). fst s = score (snd s) query"
    using paired by simp
  have records: "map snd scored = filter (\<lambda>r. 0 < score r query) records"
    by (simp add: scored_def filter_map_pair)
  have perm: "mset best = mset (filter (\<lambda>r. 0 < score r query) records)"
    by (simp add: best_def stable_sort_facts(1) flip: records)
  have sorted: "sorted_wrt (\<lambda>a b. score b query < score a query \<or> score a query = score b query \<and> sr_title a \<le> sr_title b) best"
    unfolding best_def sorted_wrt_map
    using stable_sort_facts(2) [of scored] paired' by (rule_tac sorted_wrt_mono_rel [of _ may_follow]) (auto simp: may_follow_def)
  have by_snd: "filter (\<lambda>r. score r query = n \<and> sr_title r = t) (map snd l) = map snd (filter (same_rank n t) l)"
    if "\<forall>s \<in> set l. fst s = score (snd s) query" for l n t
    using that by (induction l) (auto simp: same_rank_def)
  have stable: "filter (\<lambda>r. score r query = n \<and> sr_title r = t) best =
      filter (\<lambda>r. score r query = n \<and> sr_title r = t) (filter (\<lambda>r. 0 < score r query) records)" for n t
    unfolding best_def records [symmetric] by_snd [OF paired] by_snd [OF paired'] sort_stable ..
  have found: "search_rank records query cap = take cap best"
  proof (cases "tokenize query = []")
    case True
    then have "scored = []"
      by (simp add: scored_def score_def search_score_def)
    with True show ?thesis
      by (simp add: search_rank_def best_def stable_sort_ranked_def)
  qed (simp add: search_rank_def best_def scored_def score_def)
  have lower: "search_rank records (to_lower_ascii query) cap = search_rank records query cap"
    by (simp add: search_rank_def tokenize_lower)
  have parts: "take cap best @ drop cap best = best" "length (take cap best) \<le> cap" "drop cap best = [] \<or> length (take cap best) = cap"
    by auto
  show ?thesis
    unfolding lower found
    by (rule exI [of _ "drop cap best"]) (intro conjI allI; (simp only: parts perm sorted stable; fail)?; use parts in simp)
qed

section \<open>The index is read back\<close>

text \<open>A record as the browser reads it, its members in the order of their names.\<close>

definition read_record :: "nat \<Rightarrow> search_record \<Rightarrow> jvalue" where
  "read_record text_length r = VObject [(''date'', VString (sr_date r)), (''description'', VString (sr_description r)),
     (''tags'', VArray (map VString (sr_tags r))), (''text'', VString (char_substr (sr_text r) 0 (Some text_length))),
     (''title'', VString (sr_title r)), (''url'', VString (sr_url r))]"

lemma record_members: "record_value text_length r = VObject [(''title'', VString (sr_title r)), (''url'', VString (sr_url r)),
    (''date'', VString (sr_date r)), (''description'', VString (sr_description r)), (''tags'', VArray (map VString (sr_tags r))),
    (''text'', VString (char_substr (sr_text r) 0 (Some text_length)))]"
  by (simp add: record_value_def set_member_def fold_push_items)

lemma record_reorder: "reorder (record_value text_length r) = read_record text_length r"
  by (simp add: record_members read_record_def less_char_def o_def)

text \<open>
  The browser reads the index the site was given. Whatever the texts of the records hold, the file
  is JSON that is accepted and read as the list of the records in their order, each with its title,
  url, date, description, tags and the first characters of its text.
\<close>

theorem search_index_reads_back:
  "\<exists>st. parse_json (index_json records text_length) = Done (VArray (map (read_record text_length) records)) st"
proof -
  let ?v = "VArray (map (record_value text_length) records)"
  have v: "index_json records text_length = to_json ?v Compact True"
    by (simp add: index_json_def fold_push_items)
  have "value_ok ?v" "number_free ?v"
    by (simp_all add: record_members)
  moreover have "nesting (VArray (map VString tags)) \<le> Suc 0" for tags
    unfolding nesting_array_le by auto
  then have "nesting (record_value text_length r) \<le> Suc (Suc 0)" for r
    unfolding record_members nesting_object_le by simp
  then have "nesting ?v \<le> Suc (Suc (Suc 0))"
    unfolding nesting_array_le by simp
  then have "nesting ?v \<le> max_json_depth"
    by (simp add: max_json_depth_def)
  ultimately show ?thesis
    using to_json_reads_back [of ?v Compact True] by (auto simp: v record_reorder o_def)
qed

end
