(* ===== verification/Config.thy ===== *)
theory Config
  imports ViewContexts
begin

text \<open>
  The configuration of a site (\<open>config.cpp\<close>), read from the object \<open>blogin.json\<close> holds. A known key
  with a value of the wrong type is an error; a key nobody knows is kept apart. \<open>edit_distance\<close> is
  written out a second time in config.cpp, word for word, and not repeated here. A \<open>std::int64_t\<close> that
  goes into an \<open>int\<close> keeps its low 32 bits.
\<close>

section \<open>What a site can say\<close>

record section_config =
  se_name :: string
  se_page_size :: "int option"
  se_label :: "string option"
  se_order :: "int option"
  se_nav :: "bool option"
  se_layout :: "string option"
  se_index_dates :: "bool option"
  se_show_dates :: "bool option"

record language_config =
  la_code :: string
  la_title :: "string option"

record config =
  cf_title :: string
  cf_base_url :: string
  cf_output_dir :: string
  cf_author :: string
  cf_image :: string
  cf_twitter :: string
  cf_home_section :: string
  cf_css_framework :: string
  cf_theme :: string
  cf_page_size :: int
  cf_summary_length :: int
  cf_reading_wpm :: int
  cf_related_count :: int
  cf_search_text_length :: int
  cf_search_cap :: int
  cf_clean_urls :: bool
  cf_debug :: bool
  cf_search :: bool
  cf_highlight :: bool
  cf_robots :: bool
  cf_minify :: bool
  cf_fingerprint :: bool
  cf_image_widths :: "int list"
  cf_taxonomies :: "string list"
  cf_feed_formats :: "string list"
  cf_languages :: "string list"
  cf_language_config :: "language_config list"
  cf_sections :: "section_config list"
  cf_unknown_keys :: "string list"

definition default_config :: config where
  "default_config =
     \<lparr>cf_title = [], cf_base_url = [], cf_output_dir = ''public'', cf_author = [], cf_image = [], cf_twitter = [],
      cf_home_section = [], cf_css_framework = ''none'', cf_theme = [],
      cf_page_size = 10, cf_summary_length = 200, cf_reading_wpm = 200, cf_related_count = 5,
      cf_search_text_length = 2000, cf_search_cap = 10,
      cf_clean_urls = False, cf_debug = False, cf_search = True, cf_highlight = False, cf_robots = True,
      cf_minify = False, cf_fingerprint = False,
      cf_image_widths = [], cf_taxonomies = [''tags''], cf_feed_formats = [''atom''], cf_languages = [],
      cf_language_config = [], cf_sections = [], cf_unknown_keys = []\<rparr>"

definition known_keys :: "string list" where
  "known_keys =
     [''title'', ''base-url'', ''output-dir'', ''author'', ''image'', ''twitter'', ''home-section'', ''css-framework'',
      ''theme'', ''page-size'', ''summary-length'', ''reading-wpm'', ''related-count'', ''search-text-length'',
      ''search-cap'', ''clean-urls'', ''debug'', ''search'', ''highlight'', ''robots'', ''minify'', ''fingerprint'',
      ''image-widths'', ''taxonomies'', ''feed-formats'', ''languages'', ''language-config'', ''sections'']"

definition known_feed_formats :: "string list" where
  "known_feed_formats = [''atom'', ''rss'', ''json'']"

definition section_of :: "config \<Rightarrow> string \<Rightarrow> section_config option" where
  "section_of config name = find (\<lambda>entry. se_name entry = name) (cf_sections config)"

section \<open>Reading a value\<close>

definition config_error :: "string \<Rightarrow> parse_error" where
  "config_error message = \<lparr>pe_message = message, pe_line = 1, pe_column = 1\<rparr>"

definition wrong_type :: "string \<Rightarrow> string \<Rightarrow> jvalue \<Rightarrow> parse_error" where
  "wrong_type key expected v = config_error
     (''config key '' @ [CHR 0x27] @ key @ [CHR 0x27] @ '' must be '' @ expected @ '', not '' @ type_name (type_of_value v))"

definition to_int :: "int \<Rightarrow> int" where
  "to_int i = signed_take_bit 31 i"

definition want_string :: "jvalue \<Rightarrow> string \<Rightarrow> parse_error + string" where
  "want_string v key = (case v of VString s \<Rightarrow> Inr s | _ \<Rightarrow> Inl (wrong_type key ''a string'' v))"

definition want_int :: "jvalue \<Rightarrow> string \<Rightarrow> parse_error + int" where
  "want_int v key = (case v of VInteger i \<Rightarrow> Inr (to_int i) | _ \<Rightarrow> Inl (wrong_type key ''an integer'' v))"

definition want_bool :: "jvalue \<Rightarrow> string \<Rightarrow> parse_error + bool" where
  "want_bool v key = (case v of VBoolean b \<Rightarrow> Inr b | _ \<Rightarrow> Inl (wrong_type key ''a boolean'' v))"

definition bind_sum :: "'e + 'a \<Rightarrow> ('a \<Rightarrow> 'e + 'b) \<Rightarrow> 'e + 'b" where
  "bind_sum m f = (case m of Inl e \<Rightarrow> Inl e | Inr a \<Rightarrow> f a)"

fun want_each :: "(jvalue \<Rightarrow> parse_error + 'a) \<Rightarrow> jvalue list \<Rightarrow> parse_error + 'a list" where
  "want_each want [] = Inr []"
| "want_each want (v # vs) = bind_sum (want v) (\<lambda>x. bind_sum (want_each want vs) (\<lambda>xs. Inr (x # xs)))"

definition want_string_list :: "jvalue \<Rightarrow> string \<Rightarrow> parse_error + string list" where
  "want_string_list v key =
     (if \<not> is_array v then Inl (wrong_type key ''a list of strings'' v)
      else want_each (\<lambda>item. case item of VString s \<Rightarrow> Inr s | _ \<Rightarrow> Inl (wrong_type key ''a list of strings'' item)) (items v))"

definition want_int_list :: "jvalue \<Rightarrow> string \<Rightarrow> parse_error + int list" where
  "want_int_list v key =
     (if \<not> is_array v then Inl (wrong_type key ''a list of integers'' v)
      else want_each (\<lambda>item. case item of VInteger i \<Rightarrow> Inr (to_int i) | _ \<Rightarrow> Inl (wrong_type key ''a list of integers'' item)) (items v))"

section \<open>The keys with a shape of their own\<close>

definition unknown_format :: "string \<Rightarrow> parse_error" where
  "unknown_format format = config_error
     (''config key '' @ [CHR 0x27] @ ''feed-formats'' @ [CHR 0x27] @ '' has an unknown format '' @ [CHR 0x27] @ format @ [CHR 0x27] @
      '' (use atom, rss, or json)'')"

definition read_feed_formats :: "jvalue \<Rightarrow> config \<Rightarrow> parse_error + config" where
  "read_feed_formats item config =
     bind_sum (want_string_list item ''feed-formats'')
       (\<lambda>formats. case find (\<lambda>format. format \<notin> set known_feed_formats) formats of
          Some format \<Rightarrow> Inl (unknown_format format)
        | None \<Rightarrow> Inr (config\<lparr>cf_feed_formats := formats\<rparr>))"

definition read_language :: "string \<times> jvalue \<Rightarrow> parse_error + language_config" where
  "read_language entry =
     (case entry of (code, v) \<Rightarrow>
        if \<not> is_object v then Inl (wrong_type (''language-config.'' @ code) ''a map'' v)
        else
          (case find_member v ''title'' of
             None \<Rightarrow> Inr \<lparr>la_code = code, la_title = None\<rparr>
           | Some title \<Rightarrow>
               bind_sum (want_string title (''language-config.'' @ code @ ''.title''))
                 (\<lambda>s. Inr \<lparr>la_code = code, la_title = Some s\<rparr>)))"

fun add_languages :: "(string \<times> jvalue) list \<Rightarrow> config \<Rightarrow> parse_error + config" where
  "add_languages [] config = Inr config"
| "add_languages (entry # entries) config =
     bind_sum (read_language entry)
       (\<lambda>language. add_languages entries (config\<lparr>cf_language_config := cf_language_config config @ [language]\<rparr>))"

definition read_language_config :: "jvalue \<Rightarrow> config \<Rightarrow> parse_error + config" where
  "read_language_config item config =
     (if \<not> is_object item then Inl (wrong_type ''language-config'' ''a map'' item)
      else add_languages (members item) config)"

text \<open>One field of a section, when the section has it.\<close>

definition section_field ::
  "(jvalue \<Rightarrow> string \<Rightarrow> parse_error + 'a) \<Rightarrow> string \<Rightarrow> ('a \<Rightarrow> section_config \<Rightarrow> section_config) \<Rightarrow> string \<times> jvalue \<Rightarrow>
    section_config \<Rightarrow> parse_error + section_config" where
  "section_field reader name put entry sect =
     (case find_member (snd entry) name of
        None \<Rightarrow> Inr sect
      | Some found \<Rightarrow> bind_sum (reader found (''sections.'' @ fst entry @ ''.'' @ name)) (\<lambda>x. Inr (put x sect)))"

definition new_section :: "string \<Rightarrow> section_config" where
  "new_section name =
     \<lparr>se_name = name, se_page_size = None, se_label = None, se_order = None, se_nav = None, se_layout = None,
      se_index_dates = None, se_show_dates = None\<rparr>"

definition read_section :: "string \<times> jvalue \<Rightarrow> section_config \<Rightarrow> parse_error + section_config" where
  "read_section entry sect =
     bind_sum (section_field want_int ''page-size'' (\<lambda>x s. s\<lparr>se_page_size := Some x\<rparr>) entry sect) (\<lambda>s1.
     bind_sum (section_field want_string ''label'' (\<lambda>x s. s\<lparr>se_label := Some x\<rparr>) entry s1) (\<lambda>s2.
     bind_sum (section_field want_int ''order'' (\<lambda>x s. s\<lparr>se_order := Some x\<rparr>) entry s2) (\<lambda>s3.
     bind_sum (section_field want_bool ''nav'' (\<lambda>x s. s\<lparr>se_nav := Some x\<rparr>) entry s3) (\<lambda>s4.
     bind_sum (section_field want_string ''layout'' (\<lambda>x s. s\<lparr>se_layout := Some x\<rparr>) entry s4) (\<lambda>s5.
     bind_sum (section_field want_bool ''index-dates'' (\<lambda>x s. s\<lparr>se_index_dates := Some x\<rparr>) entry s5) (\<lambda>s6.
     section_field want_bool ''show-dates'' (\<lambda>x s. s\<lparr>se_show_dates := Some x\<rparr>) entry s6))))))"

fun add_sections :: "(string \<times> jvalue) list \<Rightarrow> config \<Rightarrow> parse_error + config" where
  "add_sections [] config = Inr config"
| "add_sections (entry # entries) config =
     (if \<not> is_object (snd entry) then Inl (wrong_type (''sections.'' @ fst entry) ''a map'' (snd entry))
      else
        bind_sum (read_section entry (new_section (fst entry)))
          (\<lambda>sect. add_sections entries (config\<lparr>cf_sections := cf_sections config @ [sect]\<rparr>)))"

definition read_sections :: "jvalue \<Rightarrow> config \<Rightarrow> parse_error + config" where
  "read_sections item config =
     (if \<not> is_object item then Inl (wrong_type ''sections'' ''a map'' item) else add_sections (members item) config)"

section \<open>The whole configuration\<close>

definition read_key :: "string \<Rightarrow> jvalue \<Rightarrow> config \<Rightarrow> parse_error + config" where
  "read_key key item config =
     (let text_key = (\<lambda>put. bind_sum (want_string item key) (\<lambda>s. Inr (put s)));
          int_key = (\<lambda>put. bind_sum (want_int item key) (\<lambda>i. Inr (put i)));
          bool_key = (\<lambda>put. bind_sum (want_bool item key) (\<lambda>b. Inr (put b)));
          list_key = (\<lambda>put. bind_sum (want_string_list item key) (\<lambda>xs. Inr (put xs)))
      in
      if key = ''title'' then text_key (\<lambda>s. config\<lparr>cf_title := s\<rparr>)
      else if key = ''base-url'' then text_key (\<lambda>s. config\<lparr>cf_base_url := s\<rparr>)
      else if key = ''output-dir'' then text_key (\<lambda>s. config\<lparr>cf_output_dir := s\<rparr>)
      else if key = ''author'' then text_key (\<lambda>s. config\<lparr>cf_author := s\<rparr>)
      else if key = ''image'' then text_key (\<lambda>s. config\<lparr>cf_image := s\<rparr>)
      else if key = ''twitter'' then text_key (\<lambda>s. config\<lparr>cf_twitter := s\<rparr>)
      else if key = ''home-section'' then text_key (\<lambda>s. config\<lparr>cf_home_section := s\<rparr>)
      else if key = ''css-framework'' then text_key (\<lambda>s. config\<lparr>cf_css_framework := s\<rparr>)
      else if key = ''theme'' then text_key (\<lambda>s. config\<lparr>cf_theme := s\<rparr>)
      else if key = ''page-size'' then int_key (\<lambda>i. config\<lparr>cf_page_size := i\<rparr>)
      else if key = ''summary-length'' then int_key (\<lambda>i. config\<lparr>cf_summary_length := i\<rparr>)
      else if key = ''reading-wpm'' then int_key (\<lambda>i. config\<lparr>cf_reading_wpm := i\<rparr>)
      else if key = ''related-count'' then int_key (\<lambda>i. config\<lparr>cf_related_count := i\<rparr>)
      else if key = ''search-text-length'' then int_key (\<lambda>i. config\<lparr>cf_search_text_length := i\<rparr>)
      else if key = ''search-cap'' then int_key (\<lambda>i. config\<lparr>cf_search_cap := i\<rparr>)
      else if key = ''clean-urls'' then bool_key (\<lambda>b. config\<lparr>cf_clean_urls := b\<rparr>)
      else if key = ''debug'' then bool_key (\<lambda>b. config\<lparr>cf_debug := b\<rparr>)
      else if key = ''search'' then bool_key (\<lambda>b. config\<lparr>cf_search := b\<rparr>)
      else if key = ''highlight'' then bool_key (\<lambda>b. config\<lparr>cf_highlight := b\<rparr>)
      else if key = ''robots'' then bool_key (\<lambda>b. config\<lparr>cf_robots := b\<rparr>)
      else if key = ''minify'' then bool_key (\<lambda>b. config\<lparr>cf_minify := b\<rparr>)
      else if key = ''fingerprint'' then bool_key (\<lambda>b. config\<lparr>cf_fingerprint := b\<rparr>)
      else if key = ''taxonomies'' then list_key (\<lambda>xs. config\<lparr>cf_taxonomies := xs\<rparr>)
      else if key = ''languages'' then list_key (\<lambda>xs. config\<lparr>cf_languages := xs\<rparr>)
      else if key = ''image-widths'' then
        bind_sum (want_int_list item key) (\<lambda>widths. Inr (config\<lparr>cf_image_widths := widths\<rparr>))
      else if key = ''feed-formats'' then read_feed_formats item config
      else if key = ''language-config'' then read_language_config item config
      else if key = ''sections'' then read_sections item config
      else Inr config)"

fun read_members :: "(string \<times> jvalue) list \<Rightarrow> config \<Rightarrow> parse_error + config" where
  "read_members [] config = Inr config"
| "read_members ((key, item) # entries) config =
     (if key \<notin> set known_keys then read_members entries (config\<lparr>cf_unknown_keys := cf_unknown_keys config @ [key]\<rparr>)
      else bind_sum (read_key key item config) (read_members entries))"

definition config_of :: "jvalue \<Rightarrow> parse_error + config" where
  "config_of v =
     (if \<not> is_object v then Inl (config_error ''config must be an object'') else read_members (members v) default_config)"

text \<open>Without a file the site has the defaults. The outer \<open>None\<close> is the JSON parser out of fuel, which it never is.\<close>

definition load_config :: "string option \<Rightarrow> (parse_error + config) option" where
  "load_config contents =
     (case contents of
        None \<Rightarrow> Some (Inr default_config)
      | Some body \<Rightarrow>
          (case parse_json body of
             Done v st \<Rightarrow> Some (config_of v)
           | Failed e \<Rightarrow> Some (Inl e)
           | OutOfFuel \<Rightarrow> None))"

section \<open>The hint for an unknown key\<close>

definition nearer_key :: "string \<Rightarrow> string \<Rightarrow> (string \<times> nat) option \<Rightarrow> (string \<times> nat) option" where
  "nearer_key unknown candidate best =
     (let distance = edit_distance unknown candidate in
      case best of
        None \<Rightarrow> Some (candidate, distance)
      | Some (_, best_distance) \<Rightarrow> if distance < best_distance then Some (candidate, distance) else best)"

definition nearest_key_hint :: "string \<Rightarrow> string" where
  "nearest_key_hint unknown =
     (case fold (nearer_key unknown) known_keys None of
        None \<Rightarrow> []
      | Some (best, distance) \<Rightarrow>
          if 3 < distance \<or> best = [] then [] else ''did you mean '' @ [CHR 0x27] @ best @ [CHR 0x27] @ ''?'')"

end
