(* ===== verification/ConfigProps.thy ===== *)
theory ConfigProps
  imports Config
begin

text \<open>
  A configuration is refused exactly when one of its known keys has a value of the wrong type, and the hint
  for an unknown key names the nearest known one.
\<close>

section \<open>What every key asks for\<close>

definition text_keys :: "string list" where
  "text_keys = [''title'', ''base-url'', ''output-dir'', ''author'', ''image'', ''twitter'', ''home-section'', ''css-framework'', ''theme'']"

definition int_keys :: "string list" where
  "int_keys = [''page-size'', ''summary-length'', ''reading-wpm'', ''related-count'', ''search-text-length'', ''search-cap'']"

definition bool_keys :: "string list" where
  "bool_keys = [''clean-urls'', ''debug'', ''search'', ''highlight'', ''robots'', ''minify'', ''fingerprint'']"

definition has_type :: "value_type \<Rightarrow> jvalue \<Rightarrow> bool" where
  "has_type expected v \<longleftrightarrow> type_of_value v = expected"

definition list_of_type :: "value_type \<Rightarrow> jvalue \<Rightarrow> bool" where
  "list_of_type expected v \<longleftrightarrow> is_array v \<and> list_all (has_type expected) (items v)"

definition field_of_type :: "value_type \<Rightarrow> string \<Rightarrow> jvalue \<Rightarrow> bool" where
  "field_of_type expected name v \<longleftrightarrow> (case find_member v name of None \<Rightarrow> True | Some item \<Rightarrow> has_type expected item)"

definition section_accepted :: "jvalue \<Rightarrow> bool" where
  "section_accepted v \<longleftrightarrow> is_object v \<and>
     field_of_type TInteger ''page-size'' v \<and> field_of_type TString ''label'' v \<and> field_of_type TInteger ''order'' v \<and>
     field_of_type TBoolean ''nav'' v \<and> field_of_type TString ''layout'' v \<and> field_of_type TBoolean ''index-dates'' v \<and>
     field_of_type TBoolean ''show-dates'' v"

definition key_accepts :: "string \<Rightarrow> jvalue \<Rightarrow> bool" where
  "key_accepts key item \<longleftrightarrow>
     (if key \<in> set text_keys then has_type TString item
      else if key \<in> set int_keys then has_type TInteger item
      else if key \<in> set bool_keys then has_type TBoolean item
      else if key = ''taxonomies'' \<or> key = ''languages'' then list_of_type TString item
      else if key = ''image-widths'' then list_of_type TInteger item
      else if key = ''feed-formats'' then
        list_of_type TString item \<and> list_all (\<lambda>v. as_string v [] \<in> set known_feed_formats) (items item)
      else if key = ''language-config'' then
        is_object item \<and> list_all (\<lambda>(code, v). is_object v \<and> field_of_type TString ''title'' v) (members item)
      else if key = ''sections'' then is_object item \<and> list_all (\<lambda>(name, v). section_accepted v) (members item)
      else True)"

section \<open>The readers\<close>

text \<open>What comes out when the value is right, and that nothing else comes out.\<close>

definition reads :: "bool \<Rightarrow> ('a \<Rightarrow> bool) \<Rightarrow> parse_error + 'a \<Rightarrow> bool" where
  "reads ok P r \<longleftrightarrow> (case r of Inr x \<Rightarrow> ok \<and> P x | Inl e \<Rightarrow> \<not> ok)"

lemma reads_simps [simp]: "reads ok P (Inr x) \<longleftrightarrow> ok \<and> P x" "reads ok P (Inl e) \<longleftrightarrow> \<not> ok"
  by (simp_all add: reads_def)

lemma reads_bind:
  assumes "reads ok Q r" and "\<And>x. Q x \<Longrightarrow> reads ok' P (f x)" and "ok'' = (ok \<and> ok')"
  shows "reads ok'' P (bind_sum r f)"
  using assms by (cases r) (auto simp: bind_sum_def)

lemma reads_mono: "reads ok P r \<Longrightarrow> (\<And>x. P x \<Longrightarrow> Q x) \<Longrightarrow> reads ok Q r"
  by (cases r) auto

lemma want_reads:
  "reads (has_type TString v) (\<lambda>s. v = VString s) (want_string v key)"
  "reads (has_type TInteger v) (\<lambda>i. True) (want_int v key)"
  "reads (has_type TBoolean v) (\<lambda>b. v = VBoolean b) (want_bool v key)"
  by (simp_all add: want_string_def want_int_def want_bool_def has_type_def split: jvalue.split)

lemma want_each_reads:
  "(\<And>v. reads (ok v) (P v) (want v)) \<Longrightarrow> reads (list_all ok vs) (\<lambda>xs. list_all2 P vs xs) (want_each want vs)"
proof (induction vs)
  case (Cons v vs)
  have "reads (list_all ok vs) (\<lambda>xs. list_all2 P (v # vs) xs) (bind_sum (want_each want vs) (\<lambda>xs. Inr (x # xs)))" if "P v x" for x
    by (rule reads_bind [OF Cons.IH [OF Cons.prems], of True]) (use that in simp_all)
  then show ?case unfolding want_each.simps by (rule reads_bind [OF Cons.prems]) (auto simp: list_all_iff)
qed simp

lemma want_string_list_reads:
  "reads (list_of_type TString v) (\<lambda>xs. v = VArray (map VString xs)) (want_string_list v key)"
proof (cases v)
  case (VArray vs)
  have each: "reads (has_type TString item) (\<lambda>s. item = VString s)
      (case item of VString s \<Rightarrow> Inr s | _ \<Rightarrow> Inl (wrong_type key ''a list of strings'' item))" for item
    by (simp add: has_type_def split: jvalue.split)
  from want_each_reads [of "has_type TString" "\<lambda>v s. v = VString s" _ vs, OF each] show ?thesis
    by (auto simp: VArray want_string_list_def list_of_type_def list_all2_conv_all_nth intro!: nth_equalityI elim!: reads_mono)
qed (simp_all add: want_string_list_def list_of_type_def)

lemma want_int_list_reads: "reads (list_of_type TInteger v) (\<lambda>xs. True) (want_int_list v key)"
proof (cases v)
  case (VArray vs)
  have each: "reads (has_type TInteger item) (\<lambda>i. True)
      (case item of VInteger i \<Rightarrow> Inr (to_int i) | _ \<Rightarrow> Inl (wrong_type key ''a list of integers'' item))" for item
    by (simp add: has_type_def split: jvalue.split)
  from want_each_reads [of "has_type TInteger" "\<lambda>v i. True" _ vs, OF each] show ?thesis
    by (auto simp: VArray want_int_list_def list_of_type_def elim!: reads_mono)
qed (simp_all add: want_int_list_def list_of_type_def)

text \<open>Reading a key never touches the unknown keys.\<close>

abbreviation same_unknown :: "config \<Rightarrow> config \<Rightarrow> bool" where
  "same_unknown config config' \<equiv> cf_unknown_keys config' = cf_unknown_keys config"

lemma read_feed_formats_reads:
  "reads (key_accepts ''feed-formats'' item) (same_unknown config) (read_feed_formats item config)"
proof -
  have eq: "key_accepts ''feed-formats'' item \<longleftrightarrow>
      list_of_type TString item \<and> list_all (\<lambda>v. as_string v [] \<in> set known_feed_formats) (items item)"
    by (simp add: key_accepts_def text_keys_def int_keys_def bool_keys_def)
  show ?thesis
    unfolding read_feed_formats_def
  proof (rule reads_bind [OF want_string_list_reads _ eq])
    fix formats assume "item = VArray (map VString formats)"
    then show "reads (list_all (\<lambda>v. as_string v [] \<in> set known_feed_formats) (items item)) (same_unknown config)
        (case find (\<lambda>format. format \<notin> set known_feed_formats) formats of
           Some format \<Rightarrow> Inl (unknown_format format) | None \<Rightarrow> Inr (config\<lparr>cf_feed_formats := formats\<rparr>))"
      by (auto simp: list_all_iff find_None_iff find_Some_iff split: option.split)
  qed
qed

lemma read_language_reads:
  "reads (is_object v \<and> field_of_type TString ''title'' v) (\<lambda>_. True) (read_language (code, v))"
  unfolding read_language_def field_of_type_def
  by (auto split: option.split intro!: reads_bind [OF want_reads(1)])

lemma add_languages_reads:
  "reads (list_all (\<lambda>(code, v). is_object v \<and> field_of_type TString ''title'' v) entries) (same_unknown config) (add_languages entries config)"
proof (induction entries arbitrary: config)
  case (Cons entry entries)
  obtain code v where entry: "entry = (code, v)" by fastforce
  have "reads (list_all (\<lambda>(code, v). is_object v \<and> field_of_type TString ''title'' v) entries) (same_unknown config)
      (add_languages entries (config\<lparr>cf_language_config := cf_language_config config @ [language]\<rparr>))" for language
    by (rule reads_mono [OF Cons.IH]) simp
  then show ?case unfolding add_languages.simps entry by (rule reads_bind [OF read_language_reads]) simp
qed simp

lemma section_field_reads:
  assumes "\<And>v key. reads (has_type expected v) (\<lambda>_. True) (reader v key)"
  shows "reads (field_of_type expected name (snd entry)) (\<lambda>_. True) (section_field reader name put entry sect)"
  unfolding section_field_def field_of_type_def
  using assms by (auto split: option.split intro!: reads_bind [OF assms])

lemma section_fields_reads:
  "reads (field_of_type TString name (snd entry)) (\<lambda>_. True) (section_field want_string name put_text entry sect)"
  "reads (field_of_type TInteger name (snd entry)) (\<lambda>_. True) (section_field want_int name put_int entry sect)"
  "reads (field_of_type TBoolean name (snd entry)) (\<lambda>_. True) (section_field want_bool name put_bool entry sect)"
  by (rule section_field_reads; rule reads_mono [OF want_reads(1)] want_reads(2) reads_mono [OF want_reads(3)]; simp)+

lemma read_section_reads:
  "is_object v \<Longrightarrow> reads (section_accepted v) (\<lambda>_. True) (read_section (name, v) sect)"
  unfolding read_section_def section_accepted_def
  by (rule reads_bind section_fields_reads section_fields_reads [of _ "(name, v)", unfolded snd_conv] | simp)+

lemma add_sections_reads:
  "reads (list_all (\<lambda>(name, v). section_accepted v) entries) (same_unknown config) (add_sections entries config)"
proof (induction entries arbitrary: config)
  case (Cons entry entries)
  obtain name v where entry: "entry = (name, v)" by fastforce
  have rest: "reads (list_all (\<lambda>(name, v). section_accepted v) entries) (same_unknown config)
      (add_sections entries (config\<lparr>cf_sections := cf_sections config @ [sect]\<rparr>))" for sect
    by (rule reads_mono [OF Cons.IH]) simp
  show ?case
  proof (cases "is_object v")
    case True
    show ?thesis using True unfolding add_sections.simps entry snd_conv fst_conv
      by (simp add: reads_bind [OF read_section_reads [OF True] rest])
  qed (simp add: entry section_accepted_def)
qed simp

section \<open>Every key\<close>

lemma key_reads:
  "(\<And>x. same_unknown config (put x)) \<Longrightarrow>
     reads (has_type TString item) (same_unknown config) (bind_sum (want_string item key) (\<lambda>x. Inr (put x)))"
  "(\<And>x. same_unknown config (put' x)) \<Longrightarrow>
     reads (has_type TInteger item) (same_unknown config) (bind_sum (want_int item key) (\<lambda>x. Inr (put' x)))"
  "(\<And>x. same_unknown config (put'' x)) \<Longrightarrow>
     reads (has_type TBoolean item) (same_unknown config) (bind_sum (want_bool item key) (\<lambda>x. Inr (put'' x)))"
  "(\<And>x. same_unknown config (put_list x)) \<Longrightarrow>
     reads (list_of_type TString item) (same_unknown config) (bind_sum (want_string_list item key) (\<lambda>x. Inr (put_list x)))"
  "(\<And>x. same_unknown config (put_ints x)) \<Longrightarrow>
     reads (list_of_type TInteger item) (same_unknown config) (bind_sum (want_int_list item key) (\<lambda>x. Inr (put_ints x)))"
  by (rule reads_bind [where ok' = True, OF want_reads(1)] reads_bind [where ok' = True, OF want_reads(2)]
      reads_bind [where ok' = True, OF want_reads(3)] reads_bind [where ok' = True, OF want_string_list_reads]
      reads_bind [where ok' = True, OF want_int_list_reads]; simp)+

lemma map_key_reads:
  "reads (key_accepts ''language-config'' item) (same_unknown config) (read_language_config item config)"
  "reads (key_accepts ''sections'' item) (same_unknown config) (read_sections item config)"
  using add_languages_reads [of "members item" config] add_sections_reads [of "members item" config]
  by (auto simp: key_accepts_def text_keys_def int_keys_def bool_keys_def read_language_config_def read_sections_def)

lemma known_key_groups:
  "set known_keys \<subseteq> {''feed-formats'', ''language-config'', ''sections'', ''taxonomies'', ''languages'', ''image-widths''} \<union>
     set text_keys \<union> set int_keys \<union> set bool_keys"
  by code_simp

lemma read_key_reads: "reads (key_accepts key item) (same_unknown config) (read_key key item config)"
proof (cases "key \<in> set known_keys")
  case False
  then show ?thesis
    by (simp add: known_keys_def read_key_def key_accepts_def text_keys_def int_keys_def bool_keys_def)
next
  case True
  have "key \<in> {''feed-formats'', ''language-config'', ''sections'', ''taxonomies'', ''languages'', ''image-widths''} \<union>
     set text_keys \<union> set int_keys \<union> set bool_keys"
    by (rule subsetD [OF known_key_groups True])
  then show ?thesis
  proof (elim UnE insertE emptyE)
    assume "key = ''feed-formats''"
    then show ?thesis using read_feed_formats_reads [of item config] by (simp add: read_key_def)
  next
    assume "key = ''language-config''"
    then show ?thesis using map_key_reads(1) [of item config] by (simp add: read_key_def)
  next
    assume "key = ''sections''"
    then show ?thesis using map_key_reads(2) [of item config] by (simp add: read_key_def)
  next
    assume key: "key \<in> set text_keys"
    then have "key_accepts key item = has_type TString item" by (simp add: key_accepts_def)
    then show ?thesis
      using key unfolding text_keys_def list.set
      by (elim insertE emptyE) (simp_all add: read_key_def key_reads)
  next
    assume key: "key \<in> set int_keys"
    then have "key \<notin> set text_keys" unfolding int_keys_def list.set
      by (elim insertE emptyE) (simp_all add: text_keys_def)
    then have "key_accepts key item = has_type TInteger item" using key by (simp add: key_accepts_def)
    then show ?thesis
      using key unfolding int_keys_def list.set
      by (elim insertE emptyE) (simp_all add: read_key_def key_reads)
  next
    assume key: "key \<in> set bool_keys"
    then have "key \<notin> set text_keys" "key \<notin> set int_keys" unfolding bool_keys_def list.set
      by (elim insertE emptyE; simp add: text_keys_def int_keys_def)+
    then have "key_accepts key item = has_type TBoolean item" using key by (simp add: key_accepts_def)
    then show ?thesis
      using key unfolding bool_keys_def list.set
      by (elim insertE emptyE) (simp_all add: read_key_def key_reads)
  qed (simp_all add: read_key_def key_accepts_def text_keys_def int_keys_def bool_keys_def key_reads)
qed

lemma read_members_reads:
  "case read_members entries config of
     Inr config' \<Rightarrow> list_all (\<lambda>(key, item). key_accepts key item) entries \<and>
       cf_unknown_keys config' = cf_unknown_keys config @ filter (\<lambda>key. key \<notin> set known_keys) (map fst entries)
   | Inl e \<Rightarrow> (\<exists>before key item after. entries = before @ (key, item) # after \<and> \<not> key_accepts key item \<and>
       list_all (\<lambda>(key, item). key_accepts key item) before \<and> (\<exists>config'. read_key key item config' = Inl e))"
proof (induction entries arbitrary: config)
  case (Cons entry entries)
  obtain key item where entry: "entry = (key, item)" by fastforce
  have step: ?case if config': "key_accepts key item" "cf_unknown_keys config' = cf_unknown_keys config @ (if key \<in> set known_keys then [] else [key])"
      "read_members (entry # entries) config = read_members entries config'" for config'
  proof (cases "read_members entries config'")
    case (Inl e)
    then have "\<exists>before k v after. entries = before @ (k, v) # after \<and> \<not> key_accepts k v \<and>
        list_all (\<lambda>(key, item). key_accepts key item) before \<and> (\<exists>config'. read_key k v config' = Inl e)"
      using Cons.IH [of config'] by simp
    then obtain before k v after where "entries = before @ (k, v) # after" "\<not> key_accepts k v"
        "list_all (\<lambda>(key, item). key_accepts key item) before" "\<exists>config'. read_key k v config' = Inl e"
      by blast
    then show ?thesis using config' Inl by (auto simp: entry intro!: exI [of _ "(key, item) # before"])
  qed (use Cons.IH [of config'] config' in \<open>simp add: entry\<close>)
  show ?case
  proof (cases "key \<in> set known_keys")
    case False
    have "key_accepts key item"
      using False by (simp add: known_keys_def key_accepts_def text_keys_def int_keys_def bool_keys_def)
    then show ?thesis by (rule step) (use False in \<open>simp_all add: entry\<close>)
  next
    case True
    show ?thesis
    proof (cases "read_key key item config")
      case (Inl e)
      then have "\<not> key_accepts key item" using read_key_reads [of key item config] by simp
      then have "entry # entries = [] @ (key, item) # entries \<and> \<not> key_accepts key item \<and>
          list_all (\<lambda>(key, item). key_accepts key item) [] \<and> (\<exists>config'. read_key key item config' = Inl e)"
        using Inl by (auto simp: entry)
      then have "\<exists>before k v after. entry # entries = before @ (k, v) # after \<and> \<not> key_accepts k v \<and>
          list_all (\<lambda>(key, item). key_accepts key item) before \<and> (\<exists>config'. read_key k v config' = Inl e)"
        by blast
      then show ?thesis using True Inl by (simp add: entry bind_sum_def)
    next
      case (Inr config')
      then show ?thesis using read_key_reads [of key item config] True
        by (intro step [of config']) (simp_all add: entry bind_sum_def)
    qed
  qed
qed simp

text \<open>
  C23. A configuration is read exactly when it is an object whose known keys all hold what they ask for, down
  to the lists, the languages and the fields of every section; then the unknown keys are kept in their
  order. Otherwise the error is the one of the first key that does not.
\<close>

theorem config_refuses_wrong_types:
  "case config_of v of
     Inr config \<Rightarrow> is_object v \<and> list_all (\<lambda>(key, item). key_accepts key item) (members v) \<and>
       cf_unknown_keys config = filter (\<lambda>key. key \<notin> set known_keys) (map fst (members v))
   | Inl e \<Rightarrow> (if is_object v then \<exists>before key item after config. members v = before @ (key, item) # after \<and>
         \<not> key_accepts key item \<and> list_all (\<lambda>(key, item). key_accepts key item) before \<and> read_key key item config = Inl e
       else e = config_error ''config must be an object'')"
proof (cases "is_object v")
  case True
  then show ?thesis
    using read_members_reads [of "members v" default_config]
    by (auto simp: config_of_def default_config_def split: sum.split)
qed (simp add: config_of_def)

section \<open>Numbers that do not fit\<close>

text \<open>A number past 32 bits is taken for another one.\<close>

lemma page_size_wraps: "map_sum id cf_page_size (config_of (VObject [(''page-size'', VInteger 4294967297)])) = Inr 1"
  by code_simp

lemma page_size_turns_negative: "map_sum id cf_page_size (config_of (VObject [(''page-size'', VInteger 2147483648)])) = Inr (- 2147483648)"
  by code_simp

section \<open>The hint\<close>

lemma nearer_key_least:
  "fold (nearer_key unknown) names best = Some (name, distance) \<Longrightarrow>
   (best \<noteq> None \<longrightarrow> snd (the best) = edit_distance unknown (fst (the best))) \<Longrightarrow>
   (name \<in> set names \<or> best = Some (name, distance)) \<and> distance = edit_distance unknown name \<and>
   (\<forall>other \<in> set names. distance \<le> edit_distance unknown other) \<and> (best \<noteq> None \<longrightarrow> distance \<le> snd (the best))"
proof (induction names arbitrary: best)
  case (Cons candidate names)
  define next_best where "next_best = nearer_key unknown candidate best"
  have next_best: "next_best \<noteq> None" "snd (the next_best) = edit_distance unknown (fst (the next_best))"
    "snd (the next_best) \<le> edit_distance unknown candidate" "best \<noteq> None \<Longrightarrow> snd (the next_best) \<le> snd (the best)"
    "next_best = Some (candidate, edit_distance unknown candidate) \<or> next_best = best"
    using Cons.prems(2) by (auto simp: next_best_def nearer_key_def Let_def split: option.split)
  have "fold (nearer_key unknown) names next_best = Some (name, distance)" using Cons.prems(1) by (simp add: next_best_def)
  from Cons.IH [OF this] next_best show ?case by auto
qed auto

lemma hint_names_nearest_key:
  "if \<exists>known \<in> set known_keys. edit_distance unknown known \<le> 3
   then \<exists>known \<in> set known_keys. nearest_key_hint unknown = ''did you mean '' @ [CHR 0x27] @ known @ [CHR 0x27] @ ''?'' \<and>
     (\<forall>other \<in> set known_keys. edit_distance unknown known \<le> edit_distance unknown other)
   else nearest_key_hint unknown = []"
proof -
  have some: "fold (nearer_key unknown) names (Some start) \<noteq> None" for names start
    by (induction names arbitrary: start) (auto simp: nearer_key_def Let_def)
  obtain first rest where keys: "known_keys = first # rest" by (simp add: known_keys_def)
  obtain name distance where found: "fold (nearer_key unknown) known_keys None = Some (name, distance)"
    using some [of rest] by (auto simp: keys nearer_key_def Let_def) (metis option.exhaust surj_pair)
  have "name \<in> set known_keys" "distance = edit_distance unknown name"
    "\<forall>other \<in> set known_keys. edit_distance unknown name \<le> edit_distance unknown other"
    using nearer_key_least [OF found] by auto
  moreover have "[] \<notin> set known_keys" by (simp add: known_keys_def)
  ultimately have name: "name \<in> set known_keys" "name \<noteq> []" "distance = edit_distance unknown name"
    "\<forall>other \<in> set known_keys. edit_distance unknown name \<le> edit_distance unknown other"
    by auto
  show ?thesis
  proof (cases "edit_distance unknown name \<le> 3")
    case True
    then have "nearest_key_hint unknown = ''did you mean '' @ [CHR 0x27] @ name @ [CHR 0x27] @ ''?''"
      using found name by (simp add: nearest_key_hint_def)
    then show ?thesis using True name by auto
  next
    case False
    then have "\<forall>known \<in> set known_keys. \<not> edit_distance unknown known \<le> 3" using name(4) by fastforce
    moreover have "nearest_key_hint unknown = []" using found name False by (simp add: nearest_key_hint_def)
    ultimately show ?thesis by simp
  qed
qed

end
