(* ===== verification/Posts.thy ===== *)
theory Posts
  imports Config Dates Slug "HOL-Library.Sublist"
begin

text \<open>
  One Markdown file (\<open>post.cpp\<close>): the front matter, read line by line as keys and values, and the body
  under it. A \<open>Date\<close> that is not valid is \<open>None\<close>. The body is cut from the source where the closing line
  ends, so the lines come with what follows them.
\<close>

section \<open>The front matter\<close>

function lines_with_rest :: "string \<Rightarrow> (string \<times> string) list" where
  "lines_with_rest s =
     (case find_pos (\<lambda>c. c = CHR 0x0A) s of
        None \<Rightarrow> if s \<noteq> [] then [(s, [])] else []
      | Some newline \<Rightarrow>
          (let line = strip_cr (take newline s)
           in (line, drop (length line) s) # lines_with_rest (drop (Suc newline) s)))"
  by pat_completeness auto
termination
  by (relation "measure length") (auto dest: find_pos_less)

declare lines_with_rest.simps [simp del]

lemma lines_are_split_lines: "map fst (lines_with_rest s) = split_lines s"
proof (induction s rule: lines_with_rest.induct)
  case (1 s)
  show ?case
    by (subst lines_with_rest.simps, subst split_lines.simps) (auto simp: Let_def 1 split: option.split)
qed

definition is_key_character :: "char \<Rightarrow> bool" where
  "is_key_character c \<longleftrightarrow>
     between (CHR ''a'') (CHR ''z'') c \<or> between (CHR ''A'') (CHR ''Z'') c \<or> between (CHR ''0'') (CHR ''9'') c \<or>
     c = CHR ''-'' \<or> c = CHR ''_''"

definition field_line :: "string \<Rightarrow> (string \<times> string) option" where
  "field_line line =
     (let trimmed = trim_start line; key = takeWhile is_key_character trimmed; after = dropWhile is_key_character trimmed in
      if key \<noteq> [] \<and> after \<noteq> [] \<and> hd after = CHR '':'' then Some (key, trim (tl after)) else None)"

definition marks_front :: "string \<times> string \<Rightarrow> bool" where
  "marks_front line \<longleftrightarrow> trim (fst line) = ''---''"

definition split_front_matter :: "string \<Rightarrow> (string \<times> string) list \<times> string" where
  "split_front_matter source =
     (case lines_with_rest source of
        [] \<Rightarrow> ([], source)
      | first # rest \<Rightarrow>
          if \<not> marks_front first then ([], source)
          else
            (List.map_filter (field_line \<circ> fst) (takeWhile (\<lambda>line. \<not> marks_front line) rest),
             case dropWhile (\<lambda>line. \<not> marks_front line) rest of
               [] \<Rightarrow> []
             | (closing, after) # _ \<Rightarrow> dropWhile (\<lambda>c. c = CHR 0x0A \<or> c = CHR 0x0D) after))"

section \<open>Values\<close>

definition unquote_field :: "string \<Rightarrow> string" where
  "unquote_field v =
     (if 2 \<le> length v \<and> (hd v = CHR 0x22 \<and> last v = CHR 0x22 \<or> hd v = CHR 0x27 \<and> last v = CHR 0x27) then butlast (tl v) else v)"

definition parse_list :: "string \<Rightarrow> string list" where
  "parse_list raw =
     (let v = trim raw; inside = (if 2 \<le> length v \<and> hd v = CHR ''['' \<and> last v = CHR '']'' then butlast (tl v) else v)
      in filter (\<lambda>item. item \<noteq> []) (map (\<lambda>piece. trim (unquote_field (trim piece))) (split_at inside (CHR '',''))))"

definition parse_flag :: "string \<Rightarrow> bool" where
  "parse_flag raw \<longleftrightarrow> to_lower_ascii (trim raw) = ''true''"

definition parse_order :: "string \<Rightarrow> double option" where
  "parse_order raw = (if trim raw = [] then None else to_double (trim raw))"

text \<open>The name of a file without its directory, its extension, or a date in front.\<close>

definition filename_stem :: "string \<Rightarrow> string" where
  "filename_stem filename =
     (let name = (case find_last_pos (\<lambda>c. c = CHR ''/'') filename of None \<Rightarrow> filename | Some slash \<Rightarrow> drop (Suc slash) filename);
          stem = (case find_last_pos (\<lambda>c. c = CHR ''.'') name of None \<Rightarrow> name | Some dot \<Rightarrow> if 0 < dot then take dot name else name)
      in if 10 < length stem \<and> parse_date_prefix stem \<noteq> None then drop (if stem ! 10 = CHR ''-'' then 11 else 10) stem else stem)"

definition field_of :: "(string \<times> string) list \<Rightarrow> string \<Rightarrow> string" where
  "field_of entries name = (case map_of entries name of None \<Rightarrow> [] | Some v \<Rightarrow> v)"

section \<open>A post\<close>

record post =
  po_title :: string
  po_date :: "ymd option"
  po_updated :: "ymd option"
  po_slug :: string
  po_description :: string
  po_summary :: string
  po_layout :: string
  po_image :: string
  po_body :: string
  po_filename :: string
  po_tags :: "string list"
  po_aliases :: "string list"
  po_draft :: bool
  po_toc :: bool
  po_noindex :: bool
  po_order :: "double option"
  po_meta :: "(string \<times> string) list"

definition date_string :: "ymd option \<Rightarrow> string" where
  "date_string date = (case date of None \<Rightarrow> [] | Some d \<Rightarrow> iso d)"

definition post_keys :: "string list" where
  "post_keys = [''title'', ''date'', ''slug'', ''tags'', ''draft'', ''description'', ''summary'', ''toc'', ''aliases'', ''order'',
     ''layout'', ''image'', ''updated'', ''noindex'']"

definition in_quotes :: "string \<Rightarrow> string" where
  "in_quotes s = CHR 0x27 # s @ [CHR 0x27]"

text \<open>A date that is there has to be a date; the file name may give the one of the post.\<close>

definition read_date :: "string \<Rightarrow> string \<Rightarrow> string \<Rightarrow> ymd option \<Rightarrow> parse_error + ymd option" where
  "read_date raw what filename fallback =
     (if raw = [] then Inr fallback
      else
        (case parse_date raw of
           None \<Rightarrow> Inl (config_error (''unparseable '' @ what @ '' '' @ in_quotes raw @ '' in '' @ in_quotes filename))
         | Some d \<Rightarrow> Inr (Some d)))"

definition post_of :: "(string \<times> string) list \<Rightarrow> string \<Rightarrow> string \<Rightarrow> parse_error + post" where
  "post_of entries body filename =
     (let field = (\<lambda>name. unquote_field (field_of entries name));
          title = (if field ''title'' = [] then humanize (filename_stem filename) else field ''title'') in
      if title = [] then Inl (config_error (''missing title in '' @ in_quotes filename))
      else
        bind_sum (read_date (field ''date'') ''date'' filename (parse_date_prefix filename)) (\<lambda>date.
        bind_sum (read_date (field ''updated'') ''updated date'' filename None) (\<lambda>updated.
        Inr \<lparr>po_title = title, po_date = date, po_updated = updated,
             po_slug = (if field ''slug'' = [] then slugify title else field ''slug''),
             po_description = field ''description'', po_summary = field ''summary'', po_layout = field ''layout'',
             po_image = field ''image'', po_body = body, po_filename = filename,
             po_tags = parse_list (field_of entries ''tags''), po_aliases = parse_list (field_of entries ''aliases''),
             po_draft = parse_flag (field_of entries ''draft''), po_toc = parse_flag (field_of entries ''toc''),
             po_noindex = parse_flag (field_of entries ''noindex''), po_order = parse_order (field ''order''),
             po_meta = filter (\<lambda>(key, v). key \<notin> set post_keys) entries\<rparr>)))"

definition parse_post :: "string \<Rightarrow> string \<Rightarrow> parse_error + post" where
  "parse_post source filename = (case split_front_matter source of (entries, body) \<Rightarrow> post_of entries body filename)"

text \<open>\<open>None\<close> is a file that cannot be opened.\<close>

definition load_post :: "string \<Rightarrow> string \<Rightarrow> string option \<Rightarrow> parse_error + post" where
  "load_post path filename contents =
     (case contents of
        None \<Rightarrow> Inl (config_error (''cannot read '' @ in_quotes path))
      | Some source \<Rightarrow> parse_post source filename)"

definition meta_value :: "post \<Rightarrow> string \<Rightarrow> string" where
  "meta_value p key = field_of (po_meta p) key"

definition terms_of :: "post \<Rightarrow> string \<Rightarrow> string list" where
  "terms_of p taxonomy = (if taxonomy = ''tags'' then po_tags p else parse_list (meta_value p taxonomy))"

section \<open>What is written is read\<close>

definition written_post :: "(string \<times> string) list \<Rightarrow> string \<Rightarrow> string" where
  "written_post entries body =
     ''---'' @ [CHR 0x0A] @ concat (map (\<lambda>(key, v). key @ '': '' @ v @ [CHR 0x0A]) entries) @ ''---'' @ [CHR 0x0A] @ body"

definition plain_field :: "string \<times> string \<Rightarrow> bool" where
  "plain_field field \<longleftrightarrow>
     (case field of (key, v) \<Rightarrow> key \<noteq> [] \<and> list_all is_key_character key \<and> trim v = v \<and> CHR 0x0A \<notin> set v)"

lemma lines_with_rest_line:
  assumes "CHR 0x0A \<notin> set line" and "line = [] \<or> last line \<noteq> CHR 0x0D"
  shows "lines_with_rest (line @ CHR 0x0A # rest) = (line, CHR 0x0A # rest) # lines_with_rest rest"
proof -
  have "find_pos (\<lambda>c. c = CHR 0x0A) (line @ CHR 0x0A # rest) = Some (length line)"
    using assms(1) by (intro find_pos_append_first) auto
  then show ?thesis using assms(2) by (subst lines_with_rest.simps) (auto simp: strip_cr_def)
qed

lemma key_character_facts: "is_key_character c \<Longrightarrow> \<not> is_space c \<and> c \<noteq> CHR '':'' \<and> c \<noteq> CHR 0x0A"
  by (auto simp: is_key_character_def between_def is_space_def whitespace_def)

lemma trim_start_stop: "s \<noteq> [] \<Longrightarrow> \<not> is_space (hd s) \<Longrightarrow> trim_start s = s"
  by (cases s) (auto simp: trim_start_def)

lemma field_is_read:
  assumes "plain_field (key, v)"
  shows "field_line (key @ '': '' @ v) = Some (key, v)" "\<not> marks_front (key @ '': '' @ v, after)"
proof -
  have key: "key \<noteq> []" "\<forall>c \<in> set key. is_key_character c" and v: "trim v = v"
    using assms by (simp_all add: plain_field_def list_all_iff)
  have "\<not> is_space (hd key)" using key key_character_facts by (simp add: list.set_sel(1))
  then have "trim_start (key @ '': '' @ v) = key @ '': '' @ v" using key(1) by (intro trim_start_stop) simp_all
  moreover have "takeWhile is_key_character (key @ '': '' @ v) = key" "dropWhile is_key_character (key @ '': '' @ v) = '': '' @ v"
    using key(2) key_character_facts [of "CHR '':''"] by (auto simp: takeWhile_append dropWhile_append)
  moreover have "trim (CHR '' '' # v) = v" using v by (simp add: trim_def text_simps is_space_def whitespace_def)
  moreover have "\<not> is_key_character (CHR '':'')" using key_character_facts by blast
  ultimately show "field_line (key @ '': '' @ v) = Some (key, v)" using key(1) by (simp add: field_line_def)
  obtain ws ws' where parts: "key @ '': '' @ v = ws @ trim (key @ '': '' @ v) @ ws'" "\<forall>c \<in> set ws \<union> set ws'. is_space c"
    using trim_decompose [of "key @ '': '' @ v"] by auto
  have "CHR '':'' \<in> set (ws @ trim (key @ '': '' @ v) @ ws')" using parts(1) by (metis in_set_conv_decomp append_Cons)
  moreover have "\<not> is_space (CHR '':'')" by (simp add: is_space_def whitespace_def)
  ultimately have "CHR '':'' \<in> set (trim (key @ '': '' @ v))" using parts(2) by auto
  then show "\<not> marks_front (key @ '': '' @ v, after)" by (auto simp: marks_front_def)
qed

lemma field_line_plain:
  assumes "plain_field (key, v)"
  shows "CHR 0x0A \<notin> set (key @ '': '' @ v)" "last (key @ '': '' @ v) \<noteq> CHR 0x0D"
proof -
  show "CHR 0x0A \<notin> set (key @ '': '' @ v)"
    using assms key_character_facts by (auto simp: plain_field_def list_all_iff)
  have "v \<noteq> [] \<Longrightarrow> \<not> is_space (last v)" using assms trim_ends [of v] by (simp add: plain_field_def)
  then show "last (key @ '': '' @ v) \<noteq> CHR 0x0D" by (auto simp: is_space_def whitespace_def)
qed

lemma front_lines:
  assumes "list_all plain_field entries"
  shows "lines_with_rest (concat (map (\<lambda>(key, v). key @ '': '' @ v @ [CHR 0x0A]) entries) @ ''---'' @ [CHR 0x0A] @ body) =
    map (\<lambda>n. case entries ! n of (key, v) \<Rightarrow> (key @ '': '' @ v, CHR 0x0A #
      concat (map (\<lambda>(key, v). key @ '': '' @ v @ [CHR 0x0A]) (drop (Suc n) entries)) @ ''---'' @ [CHR 0x0A] @ body)) [0..<length entries] @
    (''---'', CHR 0x0A # body) # lines_with_rest body"
  using assms
proof (induction entries)
  case Nil
  then show ?case using lines_with_rest_line [of "''---''" body] by simp
next
  case (Cons entry entries)
  obtain key v where entry: "entry = (key, v)" by fastforce
  have plain: "plain_field (key, v)" using Cons.prems entry by simp
  let ?after = "concat (map (\<lambda>(key, v). key @ '': '' @ v @ [CHR 0x0A]) entries) @ ''---'' @ [CHR 0x0A] @ body"
  have "lines_with_rest ((key @ '': '' @ v) @ CHR 0x0A # ?after) = (key @ '': '' @ v, CHR 0x0A # ?after) # lines_with_rest ?after"
    using field_line_plain [OF plain] by (intro lines_with_rest_line) simp_all
  then show ?case using Cons by (simp add: entry map_upt_Suc del: upt_Suc)
qed

lemma map_filter_all: "map f xs = map Some ys \<Longrightarrow> List.map_filter f xs = ys"
  by (induction xs arbitrary: ys) (auto simp: List.map_filter_simps)

text \<open>
  C17. A post that is written, every field on a line of its own between the two markers, is read back: the
  same fields in the same order and the body after the blank lines in front of it, whatever the body
  holds, so the post is the one of those fields and that body.
\<close>

theorem written_post_is_read:
  assumes "list_all plain_field entries"
  shows "parse_post (written_post entries body) filename = post_of entries (dropWhile (\<lambda>c. c = CHR 0x0A \<or> c = CHR 0x0D) body) filename"
proof -
  define lines where "lines = map (\<lambda>n. case entries ! n of (key, v) \<Rightarrow> (key @ '': '' @ v, CHR 0x0A #
      concat (map (\<lambda>(key, v). key @ '': '' @ v @ [CHR 0x0A]) (drop (Suc n) entries)) @ ''---'' @ [CHR 0x0A] @ body)) [0..<length entries]"
  define close where "close = (''---'', CHR 0x0A # body) # lines_with_rest body"
  have "lines_with_rest (''---'' @ CHR 0x0A # concat (map (\<lambda>(key, v). key @ '': '' @ v @ [CHR 0x0A]) entries) @ ''---'' @ [CHR 0x0A] @ body) =
      (''---'', CHR 0x0A # concat (map (\<lambda>(key, v). key @ '': '' @ v @ [CHR 0x0A]) entries) @ ''---'' @ [CHR 0x0A] @ body) # lines @ close"
    using front_lines [OF assms, of body] by (subst lines_with_rest_line) (simp_all add: lines_def close_def)
  moreover have marks: "marks_front (''---'', after)" for after by (simp add: marks_front_def trim_def text_simps is_space_def whitespace_def)
  moreover have line: "\<not> marks_front (lines ! n) \<and> field_line (fst (lines ! n)) = Some (entries ! n)" if "n < length entries" for n
  proof -
    obtain key v where "entries ! n = (key, v)" by fastforce
    moreover from this have "plain_field (key, v)" using assms that by (metis list_all_length)
    ultimately show ?thesis using that field_is_read [of key v] by (simp add: lines_def)
  qed
  then have unmarked: "\<forall>line \<in> set lines. \<not> marks_front line" unfolding all_set_conv_all_nth by (simp add: lines_def)
  have "takeWhile (\<lambda>line. \<not> marks_front line) (lines @ close) = lines" "dropWhile (\<lambda>line. \<not> marks_front line) (lines @ close) = close"
    using unmarked marks by (simp_all add: takeWhile_append2 dropWhile_append2 close_def)
  moreover have "List.map_filter (field_line \<circ> fst) lines = entries"
    by (rule map_filter_all, rule nth_equalityI) (use line in \<open>simp_all add: lines_def\<close>)
  ultimately show ?thesis by (simp add: close_def parse_post_def written_post_def split_front_matter_def map_nth)
qed

theorem written_post_is_read_witness:
  "parse_post (written_post [(''title'', ''A: b''), (''tags'', ''x, y''), (''mood'', []), (''date'', ''2024-02-29'')] (CHR 0x0A # ''---'')) ''a.md'' =
    post_of [(''title'', ''A: b''), (''tags'', ''x, y''), (''mood'', []), (''date'', ''2024-02-29'')] ''---'' ''a.md''"
  by (subst written_post_is_read) (simp_all add: plain_field_def is_key_character_def between_def trim_def text_simps is_space_def whitespace_def)

end
