(* ===== verification/Navs.thy ===== *)
theory Navs
  imports Config Slug "HOL-Library.Product_Lexorder"
begin

text \<open>
  The menu of a site (\<open>nav.cpp\<close>): one node for every folder of the content, in the order the
  configuration gives. The folders on disk are a tree of names without its symbolic links; the
  directory listing, in any order, is the list of the folders below.
\<close>

section \<open>The tree\<close>

datatype folder = Folder (fo_name: string) (fo_below: "folder list")

datatype nav_node =
  Nav_Node (nv_name: string) (nv_label: string) (nv_path: string) (nv_url: string) (nv_order: int) (nv_children: "nav_node list")

record nav_options =
  no_url_prefix :: string
  no_clean_urls :: bool

definition join_path :: "string \<Rightarrow> string \<Rightarrow> string" where
  "join_path start name = (if start = [] then name else start @ ''/'' @ name)"

definition nav_url :: "string \<Rightarrow> nav_options \<Rightarrow> string" where
  "nav_url path options = no_url_prefix options @ ''/'' @ path @ (if no_clean_urls options then [] else ''/'')"

text \<open>A section can stay out of the menu.\<close>

definition hidden :: "config \<Rightarrow> string \<Rightarrow> bool" where
  "hidden config path \<longleftrightarrow> (case section_of config path of None \<Rightarrow> False | Some sect \<Rightarrow> se_nav sect = Some False)"

definition nav_label :: "config \<Rightarrow> string \<Rightarrow> string \<Rightarrow> string" where
  "nav_label config path name =
     (case Option.bind (section_of config path) se_label of None \<Rightarrow> humanize name | Some label \<Rightarrow> label)"

definition nav_order :: "config \<Rightarrow> string \<Rightarrow> int" where
  "nav_order config path = (case Option.bind (section_of config path) se_order of None \<Rightarrow> 0 | Some i \<Rightarrow> i)"

definition menu_key :: "nav_node \<Rightarrow> int \<times> string" where
  "menu_key node = (nv_order node, nv_name node)"

function nodes_in :: "config \<Rightarrow> nav_options \<Rightarrow> string \<Rightarrow> folder list \<Rightarrow> nav_node list" where
  "nodes_in config options start folders =
     sort_key menu_key
       (map (\<lambda>folder.
          (let name = fo_name folder; path = join_path start name in
           Nav_Node name (nav_label config path name) path (nav_url path options) (nav_order config path)
             (nodes_in config options path (fo_below folder))))
         (filter (\<lambda>folder. \<not> hidden config (join_path start (fo_name folder))) (sort_key fo_name folders)))"
  by pat_completeness auto
termination
proof (relation "measure (\<lambda>(config, options, start, folders). size_list size folders)")
  fix config :: config and options :: nav_options and start folders and folder :: folder and name path
  assume "folder \<in> set (filter (\<lambda>folder. \<not> hidden config (join_path start (fo_name folder))) (sort_key fo_name folders))"
  then have "folder \<in> set folders" by simp
  then have "size folder \<le> size_list size folders" by (simp add: size_list_estimation')
  moreover have "size_list size (fo_below folder) < size folder" by (cases folder) simp
  ultimately show "((config, options, path, fo_below folder), config, options, start, folders)
      \<in> measure (\<lambda>(config, options, start, folders). size_list size folders)"
    by simp
qed simp

declare nodes_in.simps [simp del]

definition build_nav :: "folder list \<Rightarrow> config \<Rightarrow> nav_options \<Rightarrow> nav_node list" where
  "build_nav content config options = nodes_in config options [] content"

fun find_nav :: "nav_node list \<Rightarrow> string \<Rightarrow> nav_node option" where
  "find_nav [] path = None"
| "find_nav (Nav_Node name label here url order children # nodes) path =
     (if here = path then Some (Nav_Node name label here url order children)
      else (case find_nav children path of None \<Rightarrow> find_nav nodes path | Some found \<Rightarrow> Some found))"

definition is_current :: "nav_node \<Rightarrow> string \<Rightarrow> bool" where
  "is_current node sect \<longleftrightarrow>
     sect = nv_path node \<or>
     starts_with sect (nv_path node) \<and> length (nv_path node) < length sect \<and> sect ! length (nv_path node) = CHR ''/''"

section \<open>What the menu lists\<close>

text \<open>The folders a reader can see: those not hidden, below folders not hidden.\<close>

fun visible_paths :: "config \<Rightarrow> string \<Rightarrow> folder \<Rightarrow> string set" where
  "visible_paths config start (Folder name below) =
     (let path = join_path start name in
      if hidden config path then {} else insert path (\<Union>folder \<in> set below. visible_paths config path folder))"

fun in_menu_order :: "nav_node \<Rightarrow> bool" where
  "in_menu_order (Nav_Node name label path url order children) \<longleftrightarrow>
     sorted (map menu_key children) \<and> (\<forall>child \<in> set children. in_menu_order child)"

fun nav_paths :: "nav_node \<Rightarrow> string set" where
  "nav_paths (Nav_Node name label path url order children) = insert path (\<Union>child \<in> set children. nav_paths child)"

lemma nodes_of_folders:
  "(\<Union>node \<in> set (nodes_in config options start folders). nav_paths node) = (\<Union>folder \<in> set folders. visible_paths config start folder) \<and>
   sorted (map menu_key (nodes_in config options start folders)) \<and> (\<forall>node \<in> set (nodes_in config options start folders). in_menu_order node)"
proof (induction config options start folders rule: nodes_in.induct)
  case (1 config options start folders)
  let ?seen = "filter (\<lambda>folder. \<not> hidden config (join_path start (fo_name folder))) (sort_key fo_name folders)"
  have below: "(\<Union>node \<in> set (nodes_in config options (join_path start (fo_name folder)) (fo_below folder)). nav_paths node) =
      (\<Union>inner \<in> set (fo_below folder). visible_paths config (join_path start (fo_name folder)) inner) \<and>
      sorted (map menu_key (nodes_in config options (join_path start (fo_name folder)) (fo_below folder))) \<and>
      (\<forall>node \<in> set (nodes_in config options (join_path start (fo_name folder)) (fo_below folder)). in_menu_order node)"
    if "folder \<in> set folders" "\<not> hidden config (join_path start (fo_name folder))" for folder
    using "1" [OF _ refl refl, of folder] that by simp
  have one: "visible_paths config start folder = (if hidden config (join_path start (fo_name folder)) then {}
      else insert (join_path start (fo_name folder)) (\<Union>inner \<in> set (fo_below folder). visible_paths config (join_path start (fo_name folder)) inner))"
    for folder by (cases folder) (simp add: Let_def)
  show ?case
    by (subst (1 2 3) nodes_in.simps) (use below in \<open>auto simp: one Let_def split: if_splits\<close>)
qed

lemma find_nav_path: "find_nav nodes path = Some node \<Longrightarrow> nv_path node = path"
  by (induction nodes path rule: find_nav.induct) (auto split: if_splits option.splits)

lemma find_nav_some: "find_nav nodes path \<noteq> None \<longleftrightarrow> path \<in> (\<Union>node \<in> set nodes. nav_paths node)"
  by (induction nodes path rule: find_nav.induct) (auto split: option.splits)

text \<open>
  C24. The menu finds a section exactly when its folder and every folder above it may be seen, whatever order
  the disk lists them in, and the nodes of every level are in the order of the configuration, then by name.
\<close>

theorem menu_finds_visible_sections:
  "(find_nav (build_nav content config options) path \<noteq> None \<longleftrightarrow> path \<in> (\<Union>folder \<in> set content. visible_paths config [] folder)) \<and>
   sorted (map menu_key (build_nav content config options)) \<and> list_all in_menu_order (build_nav content config options)"
  unfolding find_nav_some build_nav_def list_all_iff using nodes_of_folders [of config options "[]" content] by simp

lemma current_section:
  "is_current node sect \<longleftrightarrow> sect = nv_path node \<or> (\<exists>below. sect = nv_path node @ ''/'' @ below)"
proof -
  have "starts_with sect (nv_path node) \<and> length (nv_path node) < length sect \<and> sect ! length (nv_path node) = CHR ''/'' \<longleftrightarrow>
      (\<exists>below. sect = nv_path node @ ''/'' @ below)"
  proof
    assume "starts_with sect (nv_path node) \<and> length (nv_path node) < length sect \<and> sect ! length (nv_path node) = CHR ''/''"
    then obtain rest where "sect = nv_path node @ rest" "rest \<noteq> []" "hd rest = CHR ''/''"
      by (auto simp: starts_with_iff nth_append hd_conv_nth)
    then show "\<exists>below. sect = nv_path node @ ''/'' @ below" by (metis append_Cons append_Nil list.collapse)
  qed (auto simp: starts_with_iff)
  then show ?thesis by (simp add: is_current_def)
qed

end
