(* ===== verification/Views.thy ===== *)
theory Views
  imports Posts Navs Frameworks Tocs TagScanner ViewContexts "HOL-Library.Multiset"
begin

text \<open>
  What a layout can read (\<open>view.cpp\<close> with \<open>view_theme.cpp\<close> and \<open>filters.cpp\<close>): the values and functions of
  a page, the markup of its head, its pagination and its neighbours. The conversion of a double outside
  the range of an integer is undefined; what it gives is the parameter \<open>stray\<close>. Page numbers are
  integers, far from the ends of \<open>int\<close>.
\<close>

section \<open>Filters\<close>

definition filter_date :: "string \<Rightarrow> string \<Rightarrow> string" where
  "filter_date written pattern = (case parse_date written of None \<Rightarrow> written | Some d \<Rightarrow> format_date d pattern)"

text \<open>The groups so far, in the order of their first item.\<close>

fun add_to_group :: "string \<Rightarrow> jvalue \<Rightarrow> (string \<times> jvalue list) list \<Rightarrow> (string \<times> jvalue list) list" where
  "add_to_group key item [] = [(key, [item])]"
| "add_to_group key item ((k, inside) # groups) =
     (if k = key then (k, inside @ [item]) # groups else (k, inside) # add_to_group key item groups)"

definition group_key :: "string \<Rightarrow> jvalue \<Rightarrow> string" where
  "group_key field item = as_string (get_member item field) []"

definition group_by :: "jvalue \<Rightarrow> string \<Rightarrow> (string \<times> jvalue list) list" where
  "group_by v field = rev (sort_key fst (fold (\<lambda>item. add_to_group (group_key field item) item) (items v) []))"

section \<open>Markup\<close>

definition dq :: string where "dq = [CHR 0x22]"

text \<open>Pairs of hyphens are spaced out.\<close>

fun safe_comment :: "string \<Rightarrow> string" where
  "safe_comment [] = []"
| "safe_comment [c] = [c]"
| "safe_comment (c # d # s) =
     (if c = CHR ''-'' \<and> d = CHR ''-'' then ''- -'' @ safe_comment s else c # safe_comment (d # s))"

definition meta_tag :: "string \<Rightarrow> string \<Rightarrow> string \<Rightarrow> string" where
  "meta_tag attribute name content =
     (if content = [] then []
      else ''<meta '' @ attribute @ ''='' @ dq @ escaped name @ dq @ '' content='' @ dq @ escaped content @ dq @ ''/>'' @ [CHR 0x0A])"

definition set_if_present :: "string \<Rightarrow> string \<Rightarrow> jvalue \<Rightarrow> jvalue" where
  "set_if_present key s v = (if s = [] then v else set_member v key (VString s))"

definition script_safe :: "string \<Rightarrow> string" where
  "script_safe s = concat (map (\<lambda>c. if c = CHR ''<'' then [CHR 0x5C] @ ''u003c'' else [c]) s)"

definition structured_data :: "jvalue \<Rightarrow> string" where
  "structured_data document =
     ''<script type='' @ dq @ ''application/ld+json'' @ dq @ ''>'' @ script_safe (to_json document Compact False) @ ''</script>'' @ [CHR 0x0A]"

section \<open>What every page has\<close>

record share_image =
  sh_url :: string
  sh_width :: int
  sh_height :: int

record feed_link =
  fl_type :: string
  fl_url :: string

record chrome =
  ch_site :: jvalue
  ch_data :: jvalue
  ch_languages :: jvalue
  ch_section :: string
  ch_url :: string
  ch_share_image :: share_image
  ch_feeds :: "feed_link list"
  ch_noindex :: bool
  ch_home :: bool
  ch_nav :: "nav_node list"
  ch_has_header :: bool
  ch_has_sidebar :: bool
  ch_has_footer :: bool
  ch_debug :: bool
  ch_framework :: framework

record head_meta =
  hm_title :: string
  hm_description :: string
  hm_type :: string
  hm_published :: string
  hm_modified :: string
  hm_tags :: "string list"

definition site_text :: "chrome \<Rightarrow> string \<Rightarrow> string" where
  "site_text chrome key = as_string (get_member (ch_site chrome) key) []"

fun nav_value :: "string \<Rightarrow> nav_node \<Rightarrow> jvalue" where
  "nav_value sect (Nav_Node name label path url order children) =
     VObject [(''name'', VString name), (''label'', VString label), (''path'', VString path), (''url'', VString url),
       (''current'', VBoolean (is_current (Nav_Node name label path url order children) sect)),
       (''children'', VArray (map (nav_value sect) children))]"

definition nav_to_value :: "nav_node list \<Rightarrow> string \<Rightarrow> jvalue" where
  "nav_to_value nodes sect = VArray (map (nav_value sect) nodes)"

definition site_base :: "chrome \<Rightarrow> string" where
  "site_base chrome = rev (dropWhile (\<lambda>c. c = CHR ''/'') (rev (site_text chrome ''base-url'')))"

definition canonical_url :: "chrome \<Rightarrow> string" where
  "canonical_url chrome = site_base chrome @ ch_url chrome"

definition share_image_url :: "chrome \<Rightarrow> string" where
  "share_image_url chrome =
     (let url = sh_url (ch_share_image chrome)
      in if starts_with url ''/'' \<and> \<not> starts_with url ''//'' then site_base chrome @ url else url)"

definition compose_title :: "string \<Rightarrow> string \<Rightarrow> string" where
  "compose_title site_title page_title =
     (if page_title = [] \<or> page_title = site_title then site_title else site_title @ '' :: '' @ page_title)"

definition section_label :: "nav_node list \<Rightarrow> string \<Rightarrow> string" where
  "section_label nav sect =
     (case find_nav nav sect of
        Some node \<Rightarrow> nv_label node
      | None \<Rightarrow>
          humanize (case find_last_pos (\<lambda>c. c = CHR ''/'') sect of None \<Rightarrow> sect | Some slash \<Rightarrow> drop (Suc slash) sect))"

section \<open>The head\<close>

definition feed_tag :: "chrome \<Rightarrow> feed_link \<Rightarrow> string" where
  "feed_tag chrome feed =
     ''<link rel='' @ dq @ ''alternate'' @ dq @ '' type='' @ dq @ escaped (fl_type feed) @ dq @
     '' title='' @ dq @ escaped (site_text chrome ''title'') @ dq @
     '' href='' @ dq @ escaped (site_base chrome @ fl_url feed) @ dq @ ''/>'' @ [CHR 0x0A]"

definition head_title :: "chrome \<Rightarrow> head_meta \<Rightarrow> string" where
  "head_title chrome page = (if hm_title page = [] then site_text chrome ''title'' else hm_title page)"

definition head_tags :: "chrome \<Rightarrow> head_meta \<Rightarrow> string" where
  "head_tags chrome page =
     (let site_title = site_text chrome ''title''; title = head_title chrome page; url = canonical_url chrome;
          image = share_image_url chrome; share = ch_share_image chrome; twitter = site_text chrome ''twitter'' in
      (if url = [] then [] else ''<link rel='' @ dq @ ''canonical'' @ dq @ '' href='' @ dq @ escaped url @ dq @ ''/>'' @ [CHR 0x0A]) @
      (if ch_noindex chrome then meta_tag ''name'' ''robots'' ''noindex'' else []) @
      meta_tag ''name'' ''description'' (hm_description page) @
      meta_tag ''property'' ''og:type'' (hm_type page) @
      meta_tag ''property'' ''og:title'' title @
      meta_tag ''property'' ''og:description'' (hm_description page) @
      meta_tag ''property'' ''og:url'' url @
      meta_tag ''property'' ''og:site_name'' site_title @
      meta_tag ''property'' ''og:image'' image @
      (if image \<noteq> [] \<and> 0 < sh_width share \<and> 0 < sh_height share then
         meta_tag ''property'' ''og:image:width'' (format_int (sh_width share)) @
         meta_tag ''property'' ''og:image:height'' (format_int (sh_height share))
       else []) @
      (if hm_type page = ''article'' then
         meta_tag ''property'' ''article:published_time'' (hm_published page) @
         meta_tag ''property'' ''article:modified_time'' (hm_modified page) @
         concat (map (meta_tag ''property'' ''article:tag'') (hm_tags page))
       else []) @
      meta_tag ''name'' ''twitter:card'' (if image = [] then ''summary'' else ''summary_large_image'') @
      meta_tag ''name'' ''twitter:site'' twitter @
      meta_tag ''name'' ''twitter:creator'' twitter @
      meta_tag ''name'' ''twitter:title'' title @
      meta_tag ''name'' ''twitter:description'' (hm_description page) @
      concat (map (feed_tag chrome) (ch_feeds chrome)))"

definition blog_posting :: "chrome \<Rightarrow> head_meta \<Rightarrow> jvalue" where
  "blog_posting chrome page =
     (let author = site_text chrome ''author'';
          posting = set_if_present ''image'' (share_image_url chrome)
            (set_if_present ''dateModified'' (hm_modified page)
            (set_if_present ''datePublished'' (hm_published page)
            (set_if_present ''description'' (hm_description page)
            (VObject [(''@context'', VString ''https://schema.org''), (''@type'', VString ''BlogPosting''),
              (''headline'', VString (head_title chrome page)), (''url'', VString (canonical_url chrome))]))))
      in if author = [] then posting
         else set_member posting ''author'' (VObject [(''@type'', VString ''Person''), (''name'', VString author)]))"

definition web_site :: "chrome \<Rightarrow> jvalue" where
  "web_site chrome =
     VObject [(''@context'', VString ''https://schema.org''), (''@type'', VString ''WebSite''),
       (''name'', VString (site_text chrome ''title'')), (''url'', VString (canonical_url chrome))]"

definition head_markup :: "chrome \<Rightarrow> head_meta \<Rightarrow> string" where
  "head_markup chrome page =
     head_tags chrome page @
     (if hm_type page = ''article'' then structured_data (blog_posting chrome page) else []) @
     (if ch_home chrome then structured_data (web_site chrome) else [])"

section \<open>The theme\<close>

definition theme_script :: string where
  "theme_script = concat (map (\<lambda>line. line @ [CHR 0x0A]) [
     ''    <script>'',
     ''    (function () {'',
     ''      var KEY = 'blogin-theme', root = document.documentElement;'',
     ''      function apply(m) { root.setAttribute('data-theme', m); root.setAttribute('data-bs-theme', m); }'',
     ''      function pref() {'',
     ''        try { var s = localStorage.getItem(KEY); if (s === 'light' || s === 'dark') return s; } catch (e) {}'',
     ''        return 'light';'',
     ''      }'',
     ''      apply(pref());'',
     ''      window.bloginToggleTheme = function () {'',
     ''        var m = root.getAttribute('data-theme') === 'dark' ? 'light' : 'dark';'',
     ''        apply(m);'',
     ''        try { localStorage.setItem(KEY, m); } catch (e) {}'',
     ''      };'',
     ''    })();'',
     ''    </script>''])"

definition theme_toggle :: string where
  "theme_toggle =
     ''<button type=\"button\" class=\"blogin-theme-toggle\" aria-label=\"Toggle color theme\" title=\"Toggle color theme\" onclick=\"bloginToggleTheme()\">'' @
     ''<svg class=\"icon-moon\" viewBox=\"0 0 24 24\" aria-hidden=\"true\">'' @
     ''<path d=\"M21 12.8A8.5 8.5 0 0 1 11.2 3 7 7 0 1 0 21 12.8z\"/></svg>'' @
     ''<svg class=\"icon-sun\" viewBox=\"0 0 24 24\" aria-hidden=\"true\"><circle cx=\"12\" cy=\"12\" r=\"4.2\"/>'' @
     ''<line x1=\"12\" y1=\"2\" x2=\"12\" y2=\"4.5\"/><line x1=\"12\" y1=\"19.5\" x2=\"12\" y2=\"22\"/>'' @
     ''<line x1=\"2\" y1=\"12\" x2=\"4.5\" y2=\"12\"/><line x1=\"19.5\" y1=\"12\" x2=\"22\" y2=\"12\"/>'' @
     ''<line x1=\"4.9\" y1=\"4.9\" x2=\"6.7\" y2=\"6.7\"/><line x1=\"17.3\" y1=\"17.3\" x2=\"19.1\" y2=\"19.1\"/>'' @
     ''<line x1=\"4.9\" y1=\"19.1\" x2=\"6.7\" y2=\"17.3\"/><line x1=\"17.3\" y1=\"6.7\" x2=\"19.1\" y2=\"4.9\"/></svg></button>''"

section \<open>Pages of a listing, and neighbours\<close>

record post_view =
  pv_chrome :: chrome
  pv_post :: "post option"
  pv_body_html :: string
  pv_summary :: string
  pv_headings :: "heading list"
  pv_word_count :: nat
  pv_reading_time :: int
  pv_related :: jvalue
  pv_tags :: jvalue
  pv_show_dates :: bool
  pv_index_dates :: bool
  pv_previous_url :: string
  pv_previous_title :: string
  pv_next_url :: string
  pv_next_title :: string

record listing_view =
  lv_chrome :: chrome
  lv_entries :: jvalue
  lv_page_number :: int
  lv_total_pages :: int
  lv_previous_url :: string
  lv_next_url :: string
  lv_page_urls :: "string list"
  lv_index_dates :: bool
  lv_heading :: string
  lv_at_root :: bool

definition pagination_window :: "int \<Rightarrow> int \<Rightarrow> int list" where
  "pagination_window current last_page = [max 1 (current - 3) .. min last_page (current + 3)]"

fun joined_names :: "string list \<Rightarrow> string" where
  "joined_names [] = []"
| "joined_names (name # names) =
     (if name = [] then joined_names names
      else if joined_names names = [] then name
      else name @ '' '' @ joined_names names)"

definition class_attribute :: "string list \<Rightarrow> string" where
  "class_attribute names = (if joined_names names = [] then [] else '' class='' @ dq @ joined_names names @ dq)"

definition page_anchor :: "framework \<Rightarrow> string \<Rightarrow> string \<Rightarrow> string \<Rightarrow> string \<Rightarrow> string" where
  "page_anchor fw url label rel aria =
     ''<li'' @ class_attribute [class_for fw ''pagination-item''] @ ''>'' @
     ''<a'' @ class_attribute [class_for fw ''pagination-link''] @
     (if rel = [] then [] else '' rel='' @ dq @ rel @ dq) @
     (if aria = [] then [] else '' aria-label='' @ dq @ aria @ dq) @
     '' href='' @ dq @ escaped url @ dq @ ''>'' @ label @ ''</a>'' @ ''</li>''"

definition active_page :: "framework \<Rightarrow> int \<Rightarrow> string" where
  "active_page fw page =
     ''<li'' @ class_attribute [class_for fw ''pagination-item'', class_for fw ''pagination-active-item''] @ ''><span'' @
     class_attribute [class_for fw ''pagination-link'', class_for fw ''pagination-active-link''] @
     '' aria-current='' @ dq @ ''page'' @ dq @ ''>'' @ format_int page @ ''</span></li>''"

definition pagination_html :: "listing_view \<Rightarrow> string" where
  "pagination_html listing =
     (let urls = lv_page_urls listing; last_page = to_int (int (length urls)); fw = ch_framework (lv_chrome listing) in
      if last_page \<le> 1 then []
      else
        ''<nav'' @ class_attribute [''blogin-pagination'', class_for fw ''pagination-nav''] @ '' aria-label='' @ dq @ ''Pagination'' @ dq @
        ''><ul'' @ class_attribute [class_for fw ''pagination-list''] @ ''>'' @
        (if lv_previous_url listing = [] then []
         else page_anchor fw (hd urls) ''&laquo;'' [] ''First'' @
           page_anchor fw (lv_previous_url listing) ''&lsaquo;'' ''prev'' ''Previous'') @
        concat (map (\<lambda>page. if page = lv_page_number listing then active_page fw page
            else page_anchor fw (urls ! nat (page - 1)) (format_int page) [] [])
          (pagination_window (lv_page_number listing) last_page)) @
        (if lv_next_url listing = [] then []
         else page_anchor fw (lv_next_url listing) ''&rsaquo;'' ''next'' ''Next'' @
           page_anchor fw (last urls) ''&raquo;'' [] ''Last'') @
        ''</ul></nav>'')"

definition post_navigation_html :: "post_view \<Rightarrow> framework \<Rightarrow> string" where
  "post_navigation_html page fw =
     (if pv_previous_url page = [] \<and> pv_next_url page = [] then []
      else
        (let slot = class_for fw ''post-nav-button''; button = (if slot = [] then ''blogin-btn'' else slot) in
         ''<nav class='' @ dq @ ''post-nav'' @ dq @ ''>'' @
         (if pv_previous_url page = [] then []
          else ''<a class='' @ dq @ ''prev '' @ button @ dq @ '' href='' @ dq @ escaped (pv_previous_url page) @ dq @
            ''><span aria-hidden='' @ dq @ ''true'' @ dq @ ''>&larr;</span> <span class='' @ dq @ ''post-nav-label'' @ dq @ ''>'' @
            escaped (pv_previous_title page) @ ''</span></a>'') @
         (if pv_next_url page = [] then []
          else ''<a class='' @ dq @ ''next '' @ button @ dq @ '' href='' @ dq @ escaped (pv_next_url page) @ dq @
            ''><span class='' @ dq @ ''post-nav-label'' @ dq @ ''>'' @ escaped (pv_next_title page) @
            ''</span> <span aria-hidden='' @ dq @ ''true'' @ dq @ ''>&rarr;</span></a>'') @
         ''</nav>''))"

section \<open>The functions of a layout\<close>

definition argument_value :: "argument list \<Rightarrow> nat \<Rightarrow> jvalue" where
  "argument_value arguments n = snd (arguments ! n)"

definition argument_text :: "argument list \<Rightarrow> nat \<Rightarrow> string" where
  "argument_text arguments n = as_string (argument_value arguments n) []"

definition call_framework_class :: "framework \<Rightarrow> view_function" where
  "call_framework_class fw arguments = VString (if arguments = [] then [] else class_for fw (argument_text arguments 0))"

definition call_nav_current :: view_function where
  "call_nav_current arguments =
     VBoolean (if arguments = [] then False else truthy (get_member (argument_value arguments 0) ''current''))"

definition call_debug :: "string \<Rightarrow> bool \<Rightarrow> view_function" where
  "call_debug mark debug arguments =
     VString (if \<not> debug \<or> arguments = [] then []
       else ''<!-- '' @ mark @ '' '' @ safe_comment (argument_text arguments 0) @ '' -->'' @ [CHR 0x0A])"

definition call_format_date :: view_function where
  "call_format_date arguments =
     VString (if arguments = [] then []
       else filter_date (argument_text arguments 0) (if 1 < length arguments then argument_text arguments 1 else ''%Y-%m-%d''))"

definition call_truncate :: "int \<Rightarrow> view_function" where
  "call_truncate stray arguments =
     VString (if arguments = [] then []
       else
         (let len = (if 1 < length arguments then
                (case as_integer (argument_value arguments 1) 200 of Some i \<Rightarrow> i | None \<Rightarrow> stray) else 200)
          in truncate_text (argument_text arguments 0) (nat (len mod 2 ^ 64)) default_ellipsis))"

definition call_group_by :: view_function where
  "call_group_by arguments =
     VArray (if length arguments < 2 then []
       else map (\<lambda>(key, group). VObject [(''key'', VString key), (''items'', VArray group)])
         (group_by (argument_value arguments 0) (argument_text arguments 1)))"

definition define_chrome_functions :: "int \<Rightarrow> chrome \<Rightarrow> view_context \<Rightarrow> view_context" where
  "define_chrome_functions stray chrome c =
     fold (\<lambda>(name, f). vc_define name f)
       [(''framework-class'', call_framework_class (ch_framework chrome)),
        (''nav-current'', call_nav_current),
        (''debug-open'', call_debug ''begin'' (ch_debug chrome)),
        (''debug-close'', call_debug ''end'' (ch_debug chrome)),
        (''format-date'', call_format_date),
        (''truncate'', call_truncate stray),
        (''group-by'', call_group_by)] c"

section \<open>The context of a page\<close>

definition set_values :: "(string \<times> jvalue) list \<Rightarrow> view_context \<Rightarrow> view_context" where
  "set_values entries c = fold (\<lambda>(name, v). vc_set name v) entries c"

definition chrome_values :: "chrome \<Rightarrow> head_meta \<Rightarrow> string \<Rightarrow> (string \<times> jvalue) list" where
  "chrome_values chrome page template_label =
     [(''site'', ch_site chrome),
      (''site-title'', get_member (ch_site chrome) ''title''),
      (''data'', ch_data chrome),
      (''languages'', ch_languages chrome),
      (''has-languages'', VBoolean (value_size (ch_languages chrome) \<noteq> 0)),
      (''section'', VString (ch_section chrome)),
      (''url'', VString (ch_url chrome)),
      (''nav-nodes'', nav_to_value (ch_nav chrome) (ch_section chrome)),
      (''has-header'', VBoolean (ch_has_header chrome)),
      (''has-sidebar'', VBoolean (ch_has_sidebar chrome)),
      (''has-footer'', VBoolean (ch_has_footer chrome)),
      (''debug'', VBoolean (ch_debug chrome)),
      (''template-label'', VString template_label),
      (''page-title'', VString (hm_title page)),
      (''meta-title'', VString (compose_title (site_text chrome ''title'') (hm_title page))),
      (''meta-description'', VString (hm_description page)),
      (''meta-type'', VString (hm_type page)),
      (''canonical-url'', VString (canonical_url chrome)),
      (''section-label'', VString (section_label (ch_nav chrome) (ch_section chrome))),
      (''head-meta'', VString (head_markup chrome page)),
      (''theme-script'', VString theme_script),
      (''theme-toggle'', VString theme_toggle),
      (''framework-stylesheet-tag'',
        VString (if fw_stylesheet (ch_framework chrome) = [] then []
          else ''<link rel='' @ dq @ ''stylesheet'' @ dq @ '' href='' @ dq @ fw_stylesheet (ch_framework chrome) @ dq @ ''>'')),
      (''framework-script-tag'',
        VString (if fw_script (ch_framework chrome) = [] then []
          else ''<script src='' @ dq @ fw_script (ch_framework chrome) @ dq @ ''></script>''))]"

definition add_chrome :: "int \<Rightarrow> chrome \<Rightarrow> head_meta \<Rightarrow> string \<Rightarrow> view_context \<Rightarrow> view_context" where
  "add_chrome stray chrome page template_label c =
     define_chrome_functions stray chrome (set_values (chrome_values chrome page template_label) c)"

definition post_meta :: "post_view \<Rightarrow> head_meta" where
  "post_meta page =
     (let none = \<lparr>hm_title = [], hm_description = pv_summary page, hm_type = ''article'', hm_published = [], hm_modified = [], hm_tags = []\<rparr> in
      case pv_post page of
        None \<Rightarrow> none
      | Some p \<Rightarrow>
          none\<lparr>hm_title := po_title p, hm_description := (if po_description p = [] then pv_summary page else po_description p),
            hm_published := date_string (po_date p), hm_modified := date_string (po_updated p), hm_tags := po_tags p\<rparr>)"

definition post_values :: "post_view \<Rightarrow> (string \<times> jvalue) list" where
  "post_values page =
     (case pv_post page of
        None \<Rightarrow> []
      | Some p \<Rightarrow>
          [(''title'', VString (po_title p)), (''date'', VString (date_string (po_date p))),
           (''description'', VString (po_description p)), (''slug'', VString (po_slug p)), (''has-toc'', VBoolean (po_toc p))]) @
     [(''body'', VString (pv_body_html page)),
      (''summary'', VString (pv_summary page)),
      (''show-dates'', VBoolean (pv_show_dates page)),
      (''index-dates'', VBoolean (pv_index_dates page)),
      (''word-count'', VInteger (int (pv_word_count page))),
      (''reading-time'', VInteger (pv_reading_time page)),
      (''related'', pv_related page),
      (''has-related'', VBoolean (value_size (pv_related page) \<noteq> 0)),
      (''tags'', pv_tags page),
      (''has-tags'', VBoolean (value_size (pv_tags page) \<noteq> 0)),
      (''toc-html'', VString (toc_render (toc_build (pv_headings page)))),
      (''post-nav-html'', VString (post_navigation_html page (ch_framework (pv_chrome page))))]"

definition build_post_view :: "int \<Rightarrow> post_view \<Rightarrow> view_context" where
  "build_post_view stray page =
     set_values (post_values page) (add_chrome stray (pv_chrome page) (post_meta page) ''template: show'' empty_context)"

definition listing_heading :: "listing_view \<Rightarrow> string" where
  "listing_heading listing =
     (if lv_at_root listing then []
      else if lv_heading listing = [] then section_label (ch_nav (lv_chrome listing)) (ch_section (lv_chrome listing))
      else lv_heading listing)"

definition page_links :: "listing_view \<Rightarrow> jvalue list" where
  "page_links listing =
     (if length (lv_page_urls listing) \<le> 1 then []
      else
        map (\<lambda>n. VObject [(''number'', VInteger (int n + 1)), (''url'', VString (lv_page_urls listing ! n)),
            (''current'', VBoolean (int n + 1 = lv_page_number listing))])
          [0..<length (lv_page_urls listing)])"

definition listing_values :: "listing_view \<Rightarrow> (string \<times> jvalue) list" where
  "listing_values listing =
     (let heading = listing_heading listing in
      [(''posts'', lv_entries listing),
       (''entries'', lv_entries listing),
       (''heading'', VString (if heading = [] then section_label (ch_nav (lv_chrome listing)) (ch_section (lv_chrome listing)) else heading)),
       (''page-number'', VInteger (lv_page_number listing)),
       (''total-pages'', VInteger (lv_total_pages listing)),
       (''index-dates'', VBoolean (lv_index_dates listing)),
       (''at-root'', VBoolean (lv_at_root listing)),
       (''pagination-html'', VString (pagination_html listing)),
       (''pagination-links'', VArray (page_links listing))])"

definition build_listing_view :: "int \<Rightarrow> listing_view \<Rightarrow> view_context" where
  "build_listing_view stray listing =
     set_values (listing_values listing)
       (add_chrome stray (lv_chrome listing)
         \<lparr>hm_title = listing_heading listing, hm_description = [], hm_type = ''website'', hm_published = [], hm_modified = [], hm_tags = []\<rparr>
         ''template: index'' empty_context)"

end
