(* ===== verification/ViewProps.thy ===== *)
theory ViewProps
  imports Views
begin

text \<open>
  What a layout can rely on: grouping is a partition by key, a pagination bar leads only to pages there are,
  and the markup of the head, the bar and the neighbours is balanced whatever the titles and urls hold.
\<close>

section \<open>Grouping\<close>

definition grouped :: "(jvalue \<Rightarrow> string) \<Rightarrow> jvalue list \<Rightarrow> (string \<times> jvalue list) list \<Rightarrow> bool" where
  "grouped key vs groups \<longleftrightarrow> distinct (map fst groups) \<and> fst ` set groups = key ` set vs \<and>
     (\<forall>(k, inside) \<in> set groups. inside = filter (\<lambda>v. key v = k) vs)"

lemma add_to_group_keys:
  "fst ` set (add_to_group k v groups) = insert k (fst ` set groups)"
  "distinct (map fst groups) \<Longrightarrow> distinct (map fst (add_to_group k v groups))"
  by (induction k v groups rule: add_to_group.induct) auto

lemma add_to_group_entries:
  "distinct (map fst groups) \<Longrightarrow> (k', inside) \<in> set (add_to_group k v groups) \<Longrightarrow>
   (k' = k \<and> (\<exists>before. (k, before) \<in> set groups \<and> inside = before @ [v])) \<or>
   (k' = k \<and> k \<notin> fst ` set groups \<and> inside = [v]) \<or> (k' \<noteq> k \<and> (k', inside) \<in> set groups)"
  by (induction k v groups rule: add_to_group.induct) (auto split: if_splits simp: rev_image_eqI)

lemma grouped_step:
  assumes "grouped key vs groups"
  shows "grouped key (vs @ [v]) (add_to_group (key v) v groups)"
proof -
  have old: "distinct (map fst groups)" "fst ` set groups = key ` set vs"
    "\<And>k inside. (k, inside) \<in> set groups \<Longrightarrow> inside = filter (\<lambda>v. key v = k) vs"
    using assms by (auto simp: grouped_def)
  have "inside = filter (\<lambda>v. key v = k) (vs @ [v])" if "(k, inside) \<in> set (add_to_group (key v) v groups)" for k inside
    using add_to_group_entries [OF old(1) that]
  proof (elim disjE conjE exE)
    assume new: "k = key v" "key v \<notin> fst ` set groups" "inside = [v]"
    then have "\<forall>w \<in> set vs. key w \<noteq> k" using old(2) by (metis imageI)
    then have "filter (\<lambda>w. key w = k) vs = []" by (simp add: filter_empty_conv)
    then show ?thesis using new by simp
  qed (use old(3) in auto)
  then show ?thesis
    using add_to_group_keys(1) [of "key v" v groups] add_to_group_keys(2) [OF old(1)] old(2) by (auto simp: grouped_def)
qed

lemma grouped_fold: "grouped key vs groups \<Longrightarrow> grouped key (vs @ ws) (fold (\<lambda>v. add_to_group (key v) v) ws groups)"
proof (induction ws arbitrary: vs groups)
  case (Cons w ws)
  from Cons.IH [OF grouped_step [OF Cons.prems, of w]] show ?case by simp
qed simp

text \<open>
  Grouping a list by a field gives one group for every value the field has, the greatest first, and each
  group holds the items with that value in the order of the list: nothing is lost and nothing is twice.
\<close>

theorem groups_partition_by_key:
  "group_by v field = map (\<lambda>k. (k, filter (\<lambda>item. group_key field item = k) (items v)))
     (rev (sorted_list_of_set (group_key field ` set (items v))))"
proof -
  define groups where "groups = fold (\<lambda>item. add_to_group (group_key field item) item) (items v) []"
  have "grouped (group_key field) ([] @ items v) groups"
    unfolding groups_def by (rule grouped_fold) (simp add: grouped_def)
  then have ok: "distinct (map fst groups)" "fst ` set groups = group_key field ` set (items v)"
    "\<And>k inside. (k, inside) \<in> set groups \<Longrightarrow> inside = filter (\<lambda>item. group_key field item = k) (items v)"
    by (auto simp: grouped_def)
  let ?sorted = "sort_key fst groups"
  have "sorted (map fst ?sorted)" "distinct (map fst ?sorted)" "set (map fst ?sorted) = group_key field ` set (items v)"
    using ok(1,2) by (simp_all add: distinct_map)
  then have keys: "map fst ?sorted = sorted_list_of_set (group_key field ` set (items v))"
    by (intro sorted_distinct_set_unique) simp_all
  have "?sorted = map (\<lambda>k. (k, filter (\<lambda>item. group_key field item = k) (items v))) (map fst ?sorted)"
    unfolding map_map using ok(3) by (intro map_idI [symmetric]) (auto simp: comp_def)
  then show ?thesis unfolding keys group_by_def groups_def [symmetric] by (simp add: rev_map)
qed

section \<open>Pagination\<close>

lemma window_facts:
  "\<forall>page \<in> set (pagination_window current pages). 1 \<le> page \<and> page \<le> pages \<and> \<bar>page - current\<bar> \<le> 3"
  "length (pagination_window current pages) \<le> 7" "sorted_wrt (<) (pagination_window current pages)"
  "1 \<le> current \<Longrightarrow> current \<le> pages \<Longrightarrow> current \<in> set (pagination_window current pages)"
  by (auto simp: pagination_window_def sorted_wrt_upto)

section \<open>Markup\<close>

lemma slots_quiet: "list_all (\<lambda>p. list_all quiet (map snd (fp_slots p))) known_profiles"
  by (simp add: known_profiles_def)

lemma class_for_quiet: "quiet (class_for fw slot)"
proof -
  have "quiet names" if "find_profile (fw_name fw) known_profiles = Some p" "map_of (fp_slots p) slot = Some names" for p names
    using slots_quiet find_profile_Some [OF that(1)] map_of_SomeD [OF that(2)] by (fastforce simp: list_all_iff)
  then show ?thesis by (simp add: class_for_def split: option.split)
qed

lemma class_names_quiet: "\<forall>name \<in> set names. quiet name \<Longrightarrow> quiet (joined_names names)"
  by (induction names) auto

lemma class_attribute_scan [simp]:
  "\<forall>name \<in> set names. quiet name \<Longrightarrow>
     scan (class_attribute names) (Some (M_Name tag, stack)) = Some (if joined_names names = [] then M_Name tag else M_Attrs tag False, stack)"
  using class_names_quiet [of names] by (simp add: class_attribute_def dq_def)

lemma meta_tag_scan:
  "quiet attribute \<Longrightarrow> scan (meta_tag attribute name content) (Some (M_Text, stack)) = Some (M_Text, stack)"
  using scan_attrs [of attribute "''meta''" False stack] by (auto simp: meta_tag_def dq_def)

lemma feed_tag_scan: "scan (feed_tag chrome feed) (Some (M_Text, stack)) = Some (M_Text, stack)"
  by (simp add: feed_tag_def dq_def)

lemma markup_concat: "\<forall>x \<in> set xs. scan (f x) (Some (M_Text, stack)) = Some (M_Text, stack) \<Longrightarrow>
    scan (concat (map f xs)) (Some (M_Text, stack)) = Some (M_Text, stack)"
  by (induction xs) auto

lemma head_tags_balanced: "balanced (head_tags chrome page)"
  unfolding balanced_def head_tags_def Let_def
  by (simp add: meta_tag_scan feed_tag_scan markup_concat dq_def)

lemma page_anchor_scan:
  assumes "quiet rel" and "quiet aria" and "quiet label"
  shows "scan (page_anchor fw url label rel aria) (Some (M_Text, stack)) = Some (M_Text, stack)"
proof -
  have link: "scan ('' href='' @ dq @ escaped url @ dq @ ''>'' @ label @ ''</a>'' @ ''</li>'') (Some (mode, ''li'' # stack)) = Some (M_Text, stack)"
    if "mode = M_Name ''a'' \<or> mode = M_Attrs ''a'' False" for mode
    using that assms(3) by (auto simp: dq_def)
  show ?thesis
    using link assms by (simp add: page_anchor_def class_for_quiet dq_def)
qed

lemma active_page_scan: "scan (active_page fw page) (Some (M_Text, stack)) = Some (M_Text, stack)"
  by (simp add: active_page_def class_for_quiet dq_def)

lemma pagination_balanced: "balanced (pagination_html listing)"
proof -
  have pages: "scan (concat (map (\<lambda>page. if page = current then active_page fw page
        else page_anchor fw (urls ! nat (page - 1)) (format_int page) [] []) window)) (Some (M_Text, stack)) = Some (M_Text, stack)"
    for current fw urls window stack
    by (rule markup_concat) (simp add: active_page_scan page_anchor_scan)
  show ?thesis
    by (simp add: balanced_def pagination_html_def Let_def class_for_quiet page_anchor_scan pages dq_def)
qed

lemma post_navigation_balanced: "balanced (post_navigation_html page fw)"
  using class_for_quiet [of fw "''post-nav-button''"]
  by (simp add: balanced_def post_navigation_html_def Let_def dq_def)

lemma script_safe_quiet: "CHR ''<'' \<notin> set (script_safe s)"
  by (auto simp: script_safe_def)

text \<open>
  C18. Whatever a site's titles, descriptions, urls, tags and feeds hold, and under every framework, the tags of
  the head, the pagination bar and the links to the neighbours are balanced markup, and the head adds to its
  tags only scripts of data, whose text has no bracket that could close them.
\<close>

theorem page_markup_balanced:
  "balanced (head_tags chrome page) \<and> balanced (pagination_html listing) \<and> balanced (post_navigation_html neighbours fw) \<and>
   (\<exists>documents. head_markup chrome page = head_tags chrome page @ concat (map structured_data documents)) \<and>
   (\<forall>document. \<exists>body. structured_data document = ''<script type='' @ dq @ ''application/ld+json'' @ dq @ ''>'' @ body @ ''</script>'' @ [CHR 0x0A] \<and>
     CHR ''<'' \<notin> set body)"
proof -
  have "head_markup chrome page = head_tags chrome page @ concat (map structured_data
      ((if hm_type page = ''article'' then [blog_posting chrome page] else []) @ (if ch_home chrome then [web_site chrome] else [])))"
    by (simp add: head_markup_def)
  moreover have "structured_data document = ''<script type='' @ dq @ ''application/ld+json'' @ dq @ ''>'' @
      script_safe (to_json document Compact False) @ ''</script>'' @ [CHR 0x0A]" for document
    by (simp add: structured_data_def)
  ultimately show ?thesis
    using head_tags_balanced pagination_balanced post_navigation_balanced script_safe_quiet by blast
qed

section \<open>A comment that ends early\<close>

text \<open>Of three hyphens two stay together, so the name of a template can close the comment around it.\<close>

lemma comment_ends_early: "safe_comment ''--->'' = ''- -'' @ ''->''" "find_sub ''-->'' (safe_comment ''--->'') \<noteq> None"
  by code_simp+

end
