(* ===== verification/Assets.thy ===== *)
theory Assets
  imports Writers "HOL-Library.Monad_Syntax"
begin

text \<open>
  The assets of a site (\<open>assets.cpp\<close>): minifying stylesheets and scripts, names with a fingerprint or a
  width, references rewritten in a text, and the size of an image read from its first bytes. A file is
  its name; running the resizer and reading its output from a pipe has no model.
\<close>

section \<open>Names\<close>

text \<open>\<open>stem_of\<close>: a name that starts with its only dot has no extension.\<close>

definition split_extension :: "string \<Rightarrow> string \<times> string" where
  "split_extension filename =
     (case find_last_pos (\<lambda>c. c = CHR ''.'') filename of
        None \<Rightarrow> (filename, [])
      | Some dot \<Rightarrow> if dot = 0 then (filename, []) else (take dot filename, drop (Suc dot) filename))"

definition has_extension :: "string \<Rightarrow> string list \<Rightarrow> bool" where
  "has_extension path allowed \<longleftrightarrow>
     (let extension = to_lower_ascii (path_extension path) in extension \<noteq> [] \<and> tl extension \<in> set allowed)"

definition is_fingerprintable :: "string \<Rightarrow> bool" where
  "is_fingerprintable path = has_extension path [''css'', ''js'', ''png'', ''jpg'', ''jpeg'', ''gif'', ''webp'', ''svg'', ''ico'']"

definition is_raster :: "string \<Rightarrow> bool" where
  "is_raster path = has_extension path [''png'', ''jpg'', ''jpeg'', ''gif'', ''webp'']"

definition fingerprint_name :: "string \<Rightarrow> string \<Rightarrow> string" where
  "fingerprint_name filename hash =
     (case split_extension filename of (stem, extension) \<Rightarrow>
        if extension = [] then filename @ ''.'' @ hash else stem @ ''.'' @ hash @ ''.'' @ extension)"

definition variant_name :: "string \<Rightarrow> int \<Rightarrow> string" where
  "variant_name filename width =
     (case split_extension filename of (stem, extension) \<Rightarrow>
        if extension = [] then filename @ ''-'' @ format_int width else stem @ ''-'' @ format_int width @ ''.'' @ extension)"

definition srcset_value :: "string \<Rightarrow> int \<Rightarrow> (string \<times> int) list \<Rightarrow> string" where
  "srcset_value original_url original_width variants =
     concat (map (\<lambda>(url, width). url @ '' '' @ format_int width @ ''w, '') variants) @
     original_url @ '' '' @ format_int original_width @ ''w''"

text \<open>A path in single quotes for the shell.\<close>

definition shell_quote :: "string \<Rightarrow> string" where
  "shell_quote path =
     [CHR 0x27] @ concat (map (\<lambda>c. if c = CHR 0x27 then [CHR 0x27, CHR 0x5C, CHR 0x27, CHR 0x27] else [c]) path) @ [CHR 0x27]"

section \<open>Minifying\<close>

definition css_space :: "char \<Rightarrow> bool" where
  "css_space c \<longleftrightarrow> c \<in> {CHR '' '', CHR 0x09, CHR 0x0A, CHR 0x0D, CHR 0x0C}"

definition is_structural :: "char \<Rightarrow> bool" where
  "is_structural c \<longleftrightarrow> c \<in> {CHR ''{'', CHR ''}'', CHR '':'', CHR '';'', CHR '','', CHR ''>''}"

text \<open>What is written so far, and whether a space is pending.\<close>

definition emit_pending :: "bool \<Rightarrow> string \<Rightarrow> string" where
  "emit_pending waiting out = (if waiting \<and> out \<noteq> [] \<and> \<not> is_structural (last out) then out @ '' '' else out)"

text \<open>The rest of a string after its opening quote, as it stands, and what follows it.\<close>

fun quoted_rest :: "char \<Rightarrow> string \<Rightarrow> string \<times> string" where
  "quoted_rest quote [] = ([], [])"
| "quoted_rest quote (c # s) =
     (if c = quote then ([c], s)
      else if c = CHR 0x5C \<and> s \<noteq> [] then (case quoted_rest quote (tl s) of (body, after) \<Rightarrow> (c # hd s # body, after))
      else (case quoted_rest quote s of (body, after) \<Rightarrow> (c # body, after)))"

definition after_comment :: "string \<Rightarrow> string" where
  "after_comment s = (case find_sub ''*/'' s of None \<Rightarrow> [] | Some n \<Rightarrow> drop (n + 2) s)"

lemma quoted_rest_parts: "quoted_rest quote s = (body, after) \<Longrightarrow> s = body @ after"
proof (induction quote s arbitrary: body rule: quoted_rest.induct)
  case (2 quote c s)
  then show ?case by (cases s) (auto split: if_splits prod.splits)
qed simp

lemma quoted_rest_length: "length (snd (quoted_rest quote s)) \<le> length s"
  using quoted_rest_parts [of quote s "fst (quoted_rest quote s)" "snd (quoted_rest quote s)"]
  by (metis length_append le_add2 prod.collapse)

lemma after_comment_length: "length (after_comment s) \<le> length s"
  by (simp add: after_comment_def split: option.split)

function css_loop :: "bool \<Rightarrow> string \<Rightarrow> string \<Rightarrow> string" where
  "css_loop waiting out s =
     (case s of
        [] \<Rightarrow> out
      | c # rest \<Rightarrow>
          if starts_with s ''/*'' then css_loop True out (after_comment (drop 2 s))
          else if c = CHR 0x22 \<or> c = CHR 0x27 then
            css_loop False (emit_pending waiting out @ [c] @ fst (quoted_rest c rest)) (snd (quoted_rest c rest))
          else if css_space c then css_loop True out rest
          else if is_structural c then
            css_loop False ((if c = CHR ''}'' \<and> out \<noteq> [] \<and> last out = CHR '';'' then butlast out else out) @ [c]) rest
          else css_loop False (emit_pending waiting out @ [c]) rest)"
  by pat_completeness auto
termination
proof (relation "measure (\<lambda>(waiting, out, s). length s)")
  show "wf (measure (\<lambda>(waiting, out, s). length s))" by simp
qed (use after_comment_length quoted_rest_length in \<open>auto simp: starts_with_iff intro!: le_imp_less_Suc le_SucI\<close>)

declare css_loop.simps [simp del]

definition minify_css :: "string \<Rightarrow> string" where
  "minify_css css = css_loop False [] css"

definition minify_js :: "string \<Rightarrow> string" where
  "minify_js js =
     join_with (CHR 0x0A) (filter (\<lambda>line. line \<noteq> [] \<and> \<not> starts_with line ''//'') (map trim (split_at js (CHR 0x0A))))"

section \<open>References\<close>

definition ref_delimiter :: "char \<Rightarrow> bool" where
  "ref_delimiter c \<longleftrightarrow> c \<in> {CHR 0x22, CHR 0x27, CHR ''('', CHR '')'', CHR '',''} \<or> css_space c"

function rewrite_from :: "(string \<Rightarrow> string option) \<Rightarrow> string \<Rightarrow> string" where
  "rewrite_from manifest s =
     (case s of
        [] \<Rightarrow> []
      | c # rest \<Rightarrow>
          c # (if ref_delimiter c \<and> starts_with rest ''/'' then
                 (case manifest (takeWhile (\<lambda>d. \<not> ref_delimiter d) rest) of
                    None \<Rightarrow> rewrite_from manifest rest
                  | Some url \<Rightarrow> url @ rewrite_from manifest (dropWhile (\<lambda>d. \<not> ref_delimiter d) rest))
               else rewrite_from manifest rest))"
  by pat_completeness auto
termination
  by (relation "measure (\<lambda>(manifest, s). length s)") (auto simp: le_imp_less_Suc length_dropWhile_le)

declare rewrite_from.simps [simp del]

definition rewrite_refs :: "string \<Rightarrow> (string \<times> string) list \<Rightarrow> string" where
  "rewrite_refs s manifest = (if manifest = [] then s else rewrite_from (map_of manifest) s)"

function srcset_from :: "(string \<Rightarrow> string option) \<Rightarrow> string \<Rightarrow> string" where
  "srcset_from srcsets s =
     (case s of
        [] \<Rightarrow> []
      | c # rest \<Rightarrow>
          if starts_with s (''src='' @ [CHR 0x22]) then
            (let tail = drop 5 s in
             case find_pos (\<lambda>d. d = CHR 0x22) tail of
               None \<Rightarrow> c # srcset_from srcsets rest
             | Some n \<Rightarrow>
                 ''src='' @ [CHR 0x22] @ take n tail @ [CHR 0x22] @
                 (case srcsets (take n tail) of None \<Rightarrow> [] | Some v \<Rightarrow> '' srcset='' @ [CHR 0x22] @ v @ [CHR 0x22]) @
                 srcset_from srcsets (drop (Suc n) tail))
          else c # srcset_from srcsets rest)"
  by pat_completeness auto
termination
  by (relation "measure (\<lambda>(srcsets, s). length s)") auto

declare srcset_from.simps [simp del]

definition add_srcset :: "string \<Rightarrow> (string \<times> string) list \<Rightarrow> string" where
  "add_srcset html srcsets = (if srcsets = [] then html else srcset_from (map_of srcsets) html)"

section \<open>The size of an image\<close>

text \<open>
  A read outside the bytes is undefined: \<open>None\<close>. The inner option is the answer.
\<close>

definition byte_at :: "string \<Rightarrow> nat \<Rightarrow> nat option" where
  "byte_at bytes n = (if n < length bytes then Some (byte (bytes ! n)) else None)"

definition big_endian_16 :: "string \<Rightarrow> nat \<Rightarrow> nat option" where
  "big_endian_16 bytes n = do { a \<leftarrow> byte_at bytes n; b \<leftarrow> byte_at bytes (n + 1); Some (a * 2 ^ 8 + b) }"

definition little_endian_16 :: "string \<Rightarrow> nat \<Rightarrow> nat option" where
  "little_endian_16 bytes n = do { a \<leftarrow> byte_at bytes n; b \<leftarrow> byte_at bytes (n + 1); Some (a + b * 2 ^ 8) }"

definition little_endian_24 :: "string \<Rightarrow> nat \<Rightarrow> nat option" where
  "little_endian_24 bytes n = do { a \<leftarrow> little_endian_16 bytes n; b \<leftarrow> byte_at bytes (n + 2); Some (a + b * 2 ^ 16) }"

definition big_endian_32 :: "string \<Rightarrow> nat \<Rightarrow> nat option" where
  "big_endian_32 bytes n = do { a \<leftarrow> big_endian_16 bytes n; b \<leftarrow> big_endian_16 bytes (n + 2); Some (a * 2 ^ 16 + b) }"

type_synonym image_answer = "(nat \<times> nat) option option"

definition sized :: "nat \<Rightarrow> nat \<Rightarrow> image_answer" where
  "sized width height =
     Some (if width = 0 \<or> height = 0 \<or> 2 ^ 30 < width \<or> 2 ^ 30 < height then None else Some (width, height))"

definition png_size :: "string \<Rightarrow> image_answer" where
  "png_size bytes =
     (if length bytes < 24 \<or> take 4 (drop 12 bytes) \<noteq> ''IHDR'' then Some None
      else do { width \<leftarrow> big_endian_32 bytes 16; height \<leftarrow> big_endian_32 bytes 20; sized width height })"

definition gif_size :: "string \<Rightarrow> image_answer" where
  "gif_size bytes =
     (if length bytes < 10 then Some None
      else do { width \<leftarrow> little_endian_16 bytes 6; height \<leftarrow> little_endian_16 bytes 8; sized width height })"

definition is_start_of_frame :: "nat \<Rightarrow> bool" where
  "is_start_of_frame marker \<longleftrightarrow>
     0xC0 \<le> marker \<and> marker \<le> 0xCF \<and> marker \<noteq> 0xC4 \<and> marker \<noteq> 0xC8 \<and> marker \<noteq> 0xCC"

text \<open>The walk over the segments; every turn goes on by a byte at least.\<close>

fun jpeg_walk :: "nat \<Rightarrow> string \<Rightarrow> nat \<Rightarrow> image_answer" where
  "jpeg_walk 0 bytes index = None"
| "jpeg_walk (Suc fuel) bytes index =
     (if length bytes < index + 4 then Some None
      else do {
        start \<leftarrow> byte_at bytes index;
        (if start \<noteq> 0xFF then Some None
         else do {
           marker \<leftarrow> byte_at bytes (index + 1);
           (if marker = 0xFF then jpeg_walk fuel bytes (index + 1)
            else do {
              len \<leftarrow> big_endian_16 bytes (index + 2);
              (if is_start_of_frame marker then
                 (if length bytes < index + 9 then Some None
                  else do { width \<leftarrow> big_endian_16 bytes (index + 7); height \<leftarrow> big_endian_16 bytes (index + 5); sized width height })
               else if len < 2 then Some None
               else jpeg_walk fuel bytes (index + (2 + len)))
            })
         })
      })"

definition jpeg_size :: "string \<Rightarrow> image_answer" where
  "jpeg_size bytes = jpeg_walk (Suc (length bytes)) bytes 2"

definition webp_size :: "string \<Rightarrow> image_answer" where
  "webp_size bytes =
     (if length bytes < 30 then Some None
      else
        (let chunk = take 4 (drop 12 bytes) in
         if chunk = ''VP8 '' then do {
           width \<leftarrow> little_endian_16 bytes 26; height \<leftarrow> little_endian_16 bytes 28;
           sized (width mod 2 ^ 14) (height mod 2 ^ 14) }
         else if chunk = ''VP8L'' then do {
           low \<leftarrow> little_endian_16 bytes 21; high \<leftarrow> little_endian_16 bytes 23;
           let bits = low + high * 2 ^ 16;
           sized (bits mod 2 ^ 14 + 1) (bits div 2 ^ 14 mod 2 ^ 14 + 1) }
         else if chunk = ''VP8X'' then do {
           width \<leftarrow> little_endian_24 bytes 24; height \<leftarrow> little_endian_24 bytes 27;
           sized (width + 1) (height + 1) }
         else Some None))"

definition image_size :: "string \<Rightarrow> image_answer" where
  "image_size bytes =
     (if starts_with bytes [CHR 0x89, CHR ''P'', CHR ''N'', CHR ''G'', CHR 0x0D, CHR 0x0A, CHR 0x1A, CHR 0x0A] then png_size bytes
      else if starts_with bytes ''GIF87a'' \<or> starts_with bytes ''GIF89a'' then gif_size bytes
      else if starts_with bytes [CHR 0xFF, CHR 0xD8] then jpeg_size bytes
      else if starts_with bytes ''RIFF'' \<and> 12 \<le> length bytes \<and> take 4 (drop 8 bytes) = ''WEBP'' then webp_size bytes
      else Some None)"

section \<open>What is read stays inside\<close>

text \<open>The answer is there, and a size in it fits an \<open>int\<close>.\<close>

definition answered :: "image_answer \<Rightarrow> bool" where
  "answered answer \<longleftrightarrow>
     (case answer of
        None \<Rightarrow> False
      | Some None \<Rightarrow> True
      | Some (Some (width, height)) \<Rightarrow> 0 < width \<and> width \<le> 2 ^ 30 \<and> 0 < height \<and> height \<le> 2 ^ 30)"

named_theorems image_simps

lemma answered_simps [image_simps]: "answered (Some None)" "answered (sized width height)" "\<not> answered None"
  by (auto simp: answered_def sized_def)

lemma reads_inside [image_simps]:
  "n < length bytes \<Longrightarrow> \<exists>a. byte_at bytes n = Some a"
  "n + 1 < length bytes \<Longrightarrow> \<exists>a. big_endian_16 bytes n = Some a"
  "n + 1 < length bytes \<Longrightarrow> \<exists>a. little_endian_16 bytes n = Some a"
  "n + 2 < length bytes \<Longrightarrow> \<exists>a. little_endian_24 bytes n = Some a"
  "n + 3 < length bytes \<Longrightarrow> \<exists>a. big_endian_32 bytes n = Some a"
  by (simp_all add: byte_at_def big_endian_16_def little_endian_16_def little_endian_24_def big_endian_32_def)

lemma answered_bind: "\<exists>a. m = Some a \<Longrightarrow> (\<And>a. answered (f a)) \<Longrightarrow> answered (Option.bind m f)"
  by auto

lemma jpeg_walk_answered: "0 < fuel \<Longrightarrow> length bytes < fuel + index \<Longrightarrow> answered (jpeg_walk fuel bytes index)"
proof (induction fuel arbitrary: index)
  case (Suc fuel)
  show ?case
  proof (cases "length bytes < index + 4")
    case False
    have next_turn: "answered (jpeg_walk fuel bytes (index + 1))" "answered (jpeg_walk fuel bytes (index + (2 + len)))" for len
      using Suc False by (simp_all add: Suc.IH)
    obtain start marker len where bytes: "byte_at bytes index = Some start" "byte_at bytes (index + 1) = Some marker"
        "big_endian_16 bytes (index + 2) = Some len"
      using reads_inside(1) [of index bytes] reads_inside(1) [of "index + 1" bytes] reads_inside(2) [of "index + 2" bytes] False
      by auto
    have frame: "answered (if length bytes < index + 9 then Some None
        else do { width \<leftarrow> big_endian_16 bytes (index + 7); height \<leftarrow> big_endian_16 bytes (index + 5); sized width height })"
      by (auto simp: answered_simps intro!: answered_bind reads_inside(2))
    show ?thesis using False bytes next_turn frame by (auto simp: answered_simps)
  qed (simp add: answered_simps)
qed simp

lemma sizes_answered:
  "answered (png_size bytes)" "answered (gif_size bytes)" "answered (jpeg_size bytes)" "answered (webp_size bytes)"
  unfolding png_size_def gif_size_def webp_size_def jpeg_size_def Let_def
  by (auto simp: answered_simps intro!: answered_bind reads_inside jpeg_walk_answered)

text \<open>
  C25. The size of every image, whatever its bytes, is read inside them: no header, table or segment length
  leads past the end, the walk over the segments of a JPEG ends, and a size that is found is positive
  and fits an \<open>int\<close>.
\<close>

theorem image_size_inside: "answered (image_size bytes)"
  by (simp add: image_size_def sizes_answered answered_simps)

section \<open>What minifying changes\<close>

lemma css_strings_kept: "minify_css (''a { content : '' @ [CHR 0x22] @ ''x ;  y'' @ [CHR 0x22] @ '' ; }'') =
    ''a{content:'' @ [CHR 0x22] @ ''x ;  y'' @ [CHR 0x22] @ ''}''"
  by code_simp

text \<open>The space before a pseudo-class separates a descendant from its ancestor; without it the rule is about another element.\<close>

lemma descendant_lost: "minify_css ''nav :hover { color : red }'' = ''nav:hover{color:red}''"
  by code_simp

text \<open>A line of a template literal that looks like a comment is dropped.\<close>

lemma literal_line_lost:
  "minify_js (''var s = `a'' @ [CHR 0x0A] @ ''// not a comment'' @ [CHR 0x0A] @ ''b`'') = ''var s = `a'' @ [CHR 0x0A] @ ''b`''"
  by code_simp

end
