(* ===== verification/Pages.thy ===== *)
theory Pages
  imports Views BuildStates Assets
begin

text \<open>
  The pages of a site (\<open>site.cpp\<close>, \<open>metrics.cpp\<close>): where a post lands and under which url, which posts come
  before and after it, which are related to it, and what a build remembers about it. Paths of output are
  relative to the output directory. The stem of a file and its path below the content come from
  \<open>std::filesystem\<close> and are arguments. An integer read from a double outside its range is the argument
  \<open>stray\<close>, as in the views.
\<close>

section \<open>A page\<close>

record page =
  pg_post :: post
  pg_parsed :: bool
  pg_prepared :: bool
  pg_section :: string
  pg_url :: string
  pg_url_path :: string
  pg_translation_key :: string
  pg_output :: string
  pg_summary :: string
  pg_first_image :: string
  pg_share_image :: share_image
  pg_word_count :: nat
  pg_reading_time :: int
  pg_tags :: jvalue
  pg_related :: jvalue
  pg_previous_url :: string
  pg_previous_title :: string
  pg_next_url :: string
  pg_next_title :: string

definition no_image :: share_image where
  "no_image = \<lparr>sh_url = [], sh_width = 0, sh_height = 0\<rparr>"

definition empty_post :: post where
  "empty_post = \<lparr>po_title = [], po_date = None, po_updated = None, po_slug = [], po_description = [], po_summary = [],
     po_layout = [], po_image = [], po_body = [], po_filename = [], po_tags = [], po_aliases = [], po_draft = False,
     po_toc = False, po_noindex = False, po_order = None, po_meta = []\<rparr>"

definition empty_page :: page where
  "empty_page = \<lparr>pg_post = empty_post, pg_parsed = False, pg_prepared = False, pg_section = [], pg_url = [], pg_url_path = [],
     pg_translation_key = [], pg_output = [], pg_summary = [], pg_first_image = [], pg_share_image = no_image,
     pg_word_count = 0, pg_reading_time = 0, pg_tags = VArray [], pg_related = VArray [],
     pg_previous_url = [], pg_previous_title = [], pg_next_url = [], pg_next_title = []\<rparr>"

section \<open>Urls and files\<close>

definition join_url :: "string \<Rightarrow> string \<Rightarrow> bool \<Rightarrow> string" where
  "join_url start path clean_urls = start @ ''/'' @ path @ (if \<not> clean_urls \<and> path \<noteq> [] then ''/'' else [])"

definition page_file :: "string \<Rightarrow> bool \<Rightarrow> string" where
  "page_file path clean_urls = (if clean_urls then path @ ''.html'' else path @ ''/index.html'')"

definition listing_path :: "string \<Rightarrow> nat \<Rightarrow> string" where
  "listing_path base page_number =
     (if page_number = 1 then base
      else if base = [] then ''page/'' @ format_nat page_number
      else base @ ''/page/'' @ format_nat page_number)"

definition listing_file :: "string \<Rightarrow> nat \<Rightarrow> bool \<Rightarrow> bool \<Rightarrow> string" where
  "listing_file sect page_number at_root clean_urls =
     (let base = (if at_root then [] else sect); path = listing_path base page_number in
      if page_number = 1 \<and> base = [] then ''index.html'' else page_file path clean_urls)"

definition listing_url :: "string \<Rightarrow> nat \<Rightarrow> bool \<Rightarrow> bool \<Rightarrow> string \<Rightarrow> string" where
  "listing_url sect page_number at_root clean_urls start =
     (let path = listing_path (if at_root then [] else sect) page_number in
      if path = [] then (if start = [] then ''/'' else start @ ''/'') else join_url start path clean_urls)"

text \<open>Where a url lands on disk.\<close>

definition url_to_file :: "string \<Rightarrow> bool \<Rightarrow> string" where
  "url_to_file url clean_urls =
     (let relative = rev (dropWhile (\<lambda>c. c = CHR ''/'') (rev (dropWhile (\<lambda>c. c = CHR ''/'') url))) in
      if relative = [] then ''index.html'' else page_file relative clean_urls)"

definition section_name :: "string \<Rightarrow> string" where
  "section_name relative = (if relative = ''.'' then [] else relative)"

definition dated_stem :: "string \<Rightarrow> bool" where
  "dated_stem stem \<longleftrightarrow> 10 \<le> length stem \<and> stem ! 4 = CHR ''-'' \<and> stem ! 7 = CHR ''-'' \<and>
     list_all (\<lambda>n. is_digit (stem ! n)) [0, 1, 2, 3, 5, 6, 8, 9]"

definition translation_stem :: "string \<Rightarrow> string" where
  "translation_stem stem =
     (if dated_stem stem then drop (if 10 < length stem \<and> stem ! 10 = CHR ''-'' then 11 else 10) stem else stem)"

text \<open>The page of a post that was read: the one named \<open>index\<close> outside every section is the root.\<close>

definition place_page :: "post \<Rightarrow> string \<Rightarrow> string \<Rightarrow> string \<Rightarrow> bool \<Rightarrow> page" where
  "place_page p sect stem start clean_urls =
     (let is_root = (sect = [] \<and> stem = ''index'');
          path = (if sect = [] then po_slug p else sect @ ''/'' @ po_slug p) in
      empty_page\<lparr>pg_post := p, pg_parsed := True, pg_section := sect, pg_url_path := path,
        pg_url := (if is_root then start @ ''/'' else join_url start path clean_urls),
        pg_output := (if is_root then ''index.html'' else page_file path clean_urls),
        pg_translation_key := (if sect = [] then translation_stem stem else sect @ ''/'' @ translation_stem stem)\<rparr>)"

section \<open>Switching languages\<close>

record language_options =
  lo_languages :: "string list"
  lo_current :: string
  lo_translations :: "(string \<times> (string \<times> string) list) list"

definition switch_entry :: "language_options \<Rightarrow> string \<Rightarrow> string \<Rightarrow> jvalue" where
  "switch_entry options code url =
     VObject [(''code'', VString code), (''url'', VString url), (''current'', VBoolean (code = lo_current options))]"

definition language_switcher :: "language_options \<Rightarrow> string \<Rightarrow> bool \<Rightarrow> jvalue" where
  "language_switcher options key clean_urls =
     VArray (map (\<lambda>code. switch_entry options code
         (case Option.bind (map_of (lo_translations options) code) (\<lambda>paths. map_of paths key) of
            None \<Rightarrow> ''/'' @ code @ ''/''
          | Some path \<Rightarrow> join_url (''/'' @ code) path clean_urls))
       (lo_languages options))"

definition section_switcher :: "language_options \<Rightarrow> string \<Rightarrow> bool \<Rightarrow> jvalue" where
  "section_switcher options sect clean_urls =
     VArray (map (\<lambda>code. switch_entry options code
         (if sect = [] then ''/'' @ code @ ''/'' else join_url (''/'' @ code) sect clean_urls))
       (lo_languages options))"

section \<open>Entries\<close>

definition page_entry :: "string \<Rightarrow> page \<Rightarrow> jvalue" where
  "page_entry base pg =
     (let p = pg_post pg in
      VObject [(''title'', VString (po_title p)), (''url'', VString (base @ pg_url pg)), (''date'', VString (date_string (po_date p))),
        (''summary'', VString (pg_summary pg)),
        (''description'', VString (if po_description p = [] then pg_summary pg else po_description p)),
        (''image'', VString (pg_first_image pg))])"

definition first_image_of :: "string \<Rightarrow> string" where
  "first_image_of html =
     (case find_sub ''<img'' html of
        None \<Rightarrow> []
      | Some tag \<Rightarrow>
          (case find_sub (''src='' @ dq) (drop tag html) of
             None \<Rightarrow> []
           | Some source \<Rightarrow>
               (let rest = drop (tag + source + 5) html in
                case find_pos (\<lambda>c. c = CHR 0x22) rest of None \<Rightarrow> [] | Some closing \<Rightarrow> take closing rest)))"

definition reading_time :: "nat \<Rightarrow> int \<Rightarrow> int" where
  "reading_time words_read words_per_minute =
     (if words_read = 0 \<or> words_per_minute \<le> 0 then 0
      else max 1 (to_int ((int words_read + words_per_minute - 1) div words_per_minute)))"

section \<open>The order of posts\<close>

text \<open>A date that is not valid is the zero date, before every valid one.\<close>

fun date_less :: "ymd option \<Rightarrow> ymd option \<Rightarrow> bool" where
  "date_less None None \<longleftrightarrow> False"
| "date_less None (Some d) \<longleftrightarrow> True"
| "date_less (Some d) None \<longleftrightarrow> False"
| "date_less (Some d) (Some e) \<longleftrightarrow>
     yd_year d < yd_year e \<or>
     yd_year d = yd_year e \<and> (yd_month d < yd_month e \<or> yd_month d = yd_month e \<and> yd_day d < yd_day e)"

definition order_of :: "post \<Rightarrow> double" where
  "order_of p = (case po_order p of Some d \<Rightarrow> d | None \<Rightarrow> double_of_int (10 ^ 18))"

definition newer_first :: "page \<Rightarrow> page \<Rightarrow> bool" where
  "newer_first left right =
     (let l = pg_post left; r = pg_post right in
      if double_less (order_of l) (order_of r) then True
      else if double_less (order_of r) (order_of l) then False
      else if po_date l \<noteq> po_date r then date_less (po_date r) (po_date l)
      else po_slug l < po_slug r)"

text \<open>\<open>std::stable_sort\<close> with a strict weak order, which alone it is defined for.\<close>

fun insert_by :: "('a \<Rightarrow> 'a \<Rightarrow> bool) \<Rightarrow> 'a \<Rightarrow> 'a list \<Rightarrow> 'a list" where
  "insert_by earlier x [] = [x]"
| "insert_by earlier x (y # ys) = (if earlier y x then y # insert_by earlier x ys else x # y # ys)"

definition stable_sort :: "('a \<Rightarrow> 'a \<Rightarrow> bool) \<Rightarrow> 'a list \<Rightarrow> 'a list" where
  "stable_sort earlier xs = foldr (insert_by earlier) xs []"

section \<open>Neighbours\<close>

definition with_neighbours :: "page option \<Rightarrow> page option \<Rightarrow> page \<Rightarrow> page" where
  "with_neighbours before after pg =
     (let pg1 = (case before of None \<Rightarrow> pg
            | Some b \<Rightarrow> pg\<lparr>pg_previous_url := pg_url b, pg_previous_title := po_title (pg_post b)\<rparr>)
      in case after of None \<Rightarrow> pg1 | Some a \<Rightarrow> pg1\<lparr>pg_next_url := pg_url a, pg_next_title := po_title (pg_post a)\<rparr>)"

text \<open>The indices of the pages of a section, as it lists them.\<close>

definition section_members :: "page list \<Rightarrow> string \<Rightarrow> nat list" where
  "section_members pages sect =
     stable_sort (\<lambda>i j. newer_first (pages ! i) (pages ! j))
       (filter (\<lambda>i. pg_section (pages ! i) = sect) [0..<length pages])"

fun link_members :: "nat option \<Rightarrow> nat list \<Rightarrow> page list \<Rightarrow> page list" where
  "link_members before [] pages = pages"
| "link_members before (i # rest) pages =
     (let neighbour = map_option (\<lambda>j. pages ! j)
      in link_members (Some i) rest
           (pages[i := with_neighbours (neighbour before) (neighbour (case rest of [] \<Rightarrow> None | j # _ \<Rightarrow> Some j)) (pages ! i)]))"

definition link_pages :: "page list \<Rightarrow> page list" where
  "link_pages pages =
     fold (\<lambda>sect. link_members None (section_members pages sect))
       (sort (remdups (map pg_section pages))) pages"

section \<open>Related posts\<close>

definition page_terms :: "config \<Rightarrow> page \<Rightarrow> string list" where
  "page_terms config pg =
     remdups_adj (sort (concat (map (\<lambda>taxonomy. map (\<lambda>term. taxonomy @ '':'' @ term) (terms_of (pg_post pg) taxonomy))
       (cf_taxonomies config))))"

definition posts_by_term :: "config \<Rightarrow> page list \<Rightarrow> string \<Rightarrow> nat list" where
  "posts_by_term config pages term = filter (\<lambda>i. term \<in> set (page_terms config (pages ! i))) [0..<length pages]"

text \<open>Every other post met while the terms of one are walked, as often as it is met.\<close>

definition met_posts :: "config \<Rightarrow> page list \<Rightarrow> nat \<Rightarrow> nat list" where
  "met_posts config pages i =
     concat (map (\<lambda>term. filter (\<lambda>j. j \<noteq> i) (posts_by_term config pages term)) (page_terms config (pages ! i)))"

definition add_candidate :: "nat \<Rightarrow> nat list \<Rightarrow> nat list" where
  "add_candidate j found_so_far = (if j \<in> set found_so_far then found_so_far else found_so_far @ [j])"

definition closer_related :: "page list \<Rightarrow> nat list \<Rightarrow> nat \<Rightarrow> nat \<Rightarrow> bool" where
  "closer_related pages met left right =
     (if count_list met left \<noteq> count_list met right then count_list met right < count_list met left
      else newer_first (pages ! left) (pages ! right))"

definition related_posts :: "config \<Rightarrow> page list \<Rightarrow> nat \<Rightarrow> nat list" where
  "related_posts config pages i =
     (let met = met_posts config pages i in
      take (nat (cf_related_count config)) (stable_sort (closer_related pages met) (fold add_candidate met [])))"

definition assign_related :: "config \<Rightarrow> page list \<Rightarrow> page list" where
  "assign_related config pages =
     map (\<lambda>i. (pages ! i)\<lparr>pg_related := VArray (map (\<lambda>j. page_entry [] (pages ! j)) (related_posts config pages i))\<rparr>) [0..<length pages]"

definition related_key :: "jvalue \<Rightarrow> string" where
  "related_key related = content_hash (to_json related Compact False)"

section \<open>What a build remembers\<close>

definition share_image_key :: "share_image \<Rightarrow> string" where
  "share_image_key picture =
     (if sh_url picture = [] then []
      else sh_url picture @ '' '' @ format_int (sh_width picture) @ ''x'' @ format_int (sh_height picture))"

definition texts_value :: "string list \<Rightarrow> jvalue" where
  "texts_value xs = VArray (map VString xs)"

definition metadata_of :: "page \<Rightarrow> jvalue" where
  "metadata_of pg =
     (let p = pg_post pg;
          saved = VObject
            [(''title'', VString (po_title p)), (''date'', VString (date_string (po_date p))), (''slug'', VString (po_slug p)),
             (''description'', VString (po_description p)), (''summary'', VString (pg_summary pg)),
             (''section'', VString (pg_section pg)), (''url'', VString (pg_url pg)), (''url-path'', VString (pg_url_path pg)),
             (''translation-key'', VString (pg_translation_key pg)), (''first-image'', VString (pg_first_image pg)),
             (''image'', VString (po_image p)), (''updated'', VString (date_string (po_updated p))),
             (''noindex'', VBoolean (po_noindex p)), (''share-image'', VString (share_image_key (pg_share_image pg))),
             (''word-count'', VInteger (int (pg_word_count pg))), (''reading-time'', VInteger (pg_reading_time pg)),
             (''tags'', texts_value (po_tags p)),
             (''meta'', fold (\<lambda>(key, v) object. set_member object key (VString v)) (po_meta p) (VObject [])),
             (''aliases'', texts_value (po_aliases p)),
             (''prev-url'', VString (pg_previous_url pg)), (''prev-title'', VString (pg_previous_title pg)),
             (''next-url'', VString (pg_next_url pg)), (''next-title'', VString (pg_next_title pg)),
             (''related-key'', VString (related_key (pg_related pg)))]
      in case po_order p of None \<Rightarrow> saved | Some d \<Rightarrow> set_member saved ''order'' (VNumber d))"

definition saved_text :: "jvalue \<Rightarrow> string \<Rightarrow> string" where
  "saved_text metadata key = as_string (get_member metadata key) []"

definition saved_integer :: "int \<Rightarrow> jvalue \<Rightarrow> string \<Rightarrow> int" where
  "saved_integer stray metadata key = (case as_integer (get_member metadata key) 0 of Some i \<Rightarrow> i | None \<Rightarrow> stray)"

definition kept_date :: "string \<Rightarrow> ymd option \<Rightarrow> ymd option" where
  "kept_date written old = (case parse_date written of Some d \<Rightarrow> Some d | None \<Rightarrow> old)"

definition apply_metadata :: "int \<Rightarrow> page \<Rightarrow> jvalue \<Rightarrow> page" where
  "apply_metadata stray pg metadata =
     (let p = pg_post pg;
          tags = po_tags p @ map (\<lambda>v. as_string v []) (items (get_member metadata ''tags''));
          p' = p\<lparr>po_title := saved_text metadata ''title'', po_slug := saved_text metadata ''slug'',
            po_description := saved_text metadata ''description'', po_image := saved_text metadata ''image'',
            po_date := kept_date (saved_text metadata ''date'') (po_date p),
            po_updated := kept_date (saved_text metadata ''updated'') (po_updated p),
            po_noindex := truthy (get_member metadata ''noindex''),
            po_order := (if has_member metadata ''order'' then Some (as_number (get_member metadata ''order'') double_zero) else po_order p),
            po_tags := tags,
            po_meta := po_meta p @ map (\<lambda>(key, v). (key, as_string v [])) (members (get_member metadata ''meta'')),
            po_aliases := po_aliases p @ map (\<lambda>v. as_string v []) (items (get_member metadata ''aliases''))\<rparr>
      in pg\<lparr>pg_post := p', pg_summary := saved_text metadata ''summary'', pg_section := saved_text metadata ''section'',
            pg_url := saved_text metadata ''url'', pg_url_path := saved_text metadata ''url-path'',
            pg_translation_key := saved_text metadata ''translation-key'', pg_first_image := saved_text metadata ''first-image'',
            pg_word_count := nat (saved_integer stray metadata ''word-count'' mod 2 ^ 64),
            pg_reading_time := to_int (saved_integer stray metadata ''reading-time''),
            pg_tags := VArray (map (\<lambda>term. VObject [(''name'', VString term), (''url'', VString [])]) tags)\<rparr>)"

text \<open>Whether a page that was not read can stay as it is on disk: its neighbours and its image are what they were.\<close>

definition page_settled :: "jvalue \<Rightarrow> page \<Rightarrow> bool" where
  "page_settled before pg \<longleftrightarrow>
     saved_text before ''prev-url'' = pg_previous_url pg \<and> saved_text before ''prev-title'' = pg_previous_title pg \<and>
     saved_text before ''next-url'' = pg_next_url pg \<and> saved_text before ''next-title'' = pg_next_title pg \<and>
     saved_text before ''share-image'' = share_image_key (pg_share_image pg)"

definition related_settled :: "jvalue \<Rightarrow> page \<Rightarrow> bool" where
  "related_settled before pg \<longleftrightarrow> saved_text before ''related-key'' = related_key (pg_related pg)"

section \<open>What every page depends on\<close>

definition optional_value :: "('a \<Rightarrow> jvalue) \<Rightarrow> 'a option \<Rightarrow> jvalue" where
  "optional_value value_of item = (case item of None \<Rightarrow> VNull | Some x \<Rightarrow> value_of x)"

definition language_value :: "language_config \<Rightarrow> jvalue" where
  "language_value language =
     VObject [(''code'', VString (la_code language)), (''title'', optional_value VString (la_title language))]"

definition section_value :: "section_config \<Rightarrow> jvalue" where
  "section_value sect =
     VObject [(''name'', VString (se_name sect)), (''page-size'', optional_value VInteger (se_page_size sect)),
       (''label'', optional_value VString (se_label sect)), (''order'', optional_value VInteger (se_order sect)),
       (''nav'', optional_value VBoolean (se_nav sect)), (''layout'', optional_value VString (se_layout sect)),
       (''index-dates'', optional_value VBoolean (se_index_dates sect)), (''show-dates'', optional_value VBoolean (se_show_dates sect))]"

definition config_value :: "config \<Rightarrow> jvalue" where
  "config_value c =
     VObject
       [(''title'', VString (cf_title c)), (''base-url'', VString (cf_base_url c)), (''output-dir'', VString (cf_output_dir c)),
        (''author'', VString (cf_author c)), (''image'', VString (cf_image c)), (''twitter'', VString (cf_twitter c)),
        (''home-section'', VString (cf_home_section c)), (''css-framework'', VString (cf_css_framework c)),
        (''theme'', VString (cf_theme c)), (''page-size'', VInteger (cf_page_size c)),
        (''summary-length'', VInteger (cf_summary_length c)), (''reading-wpm'', VInteger (cf_reading_wpm c)),
        (''related-count'', VInteger (cf_related_count c)), (''search-text-length'', VInteger (cf_search_text_length c)),
        (''search-cap'', VInteger (cf_search_cap c)), (''clean-urls'', VBoolean (cf_clean_urls c)),
        (''debug'', VBoolean (cf_debug c)), (''search'', VBoolean (cf_search c)), (''highlight'', VBoolean (cf_highlight c)),
        (''robots'', VBoolean (cf_robots c)), (''minify'', VBoolean (cf_minify c)), (''fingerprint'', VBoolean (cf_fingerprint c)),
        (''image-widths'', VArray (map VInteger (cf_image_widths c))), (''taxonomies'', texts_value (cf_taxonomies c)),
        (''feed-formats'', texts_value (cf_feed_formats c)), (''languages'', texts_value (cf_languages c)),
        (''language-config'', VArray (map language_value (cf_language_config c))),
        (''sections'', VArray (map section_value (cf_sections c)))]"

definition config_material :: "config \<Rightarrow> string" where
  "config_material c = to_json (config_value c) Compact False"

text \<open>The files every page may be rendered from, each by its path and the hash of its bytes.\<close>

definition global_fingerprint :: "config \<Rightarrow> (string \<times> string) list \<Rightarrow> string" where
  "global_fingerprint c files = content_hash (config_material c @ concat (map (\<lambda>(path, hash). path @ hash) files))"

section \<open>Share images\<close>

text \<open>
  \<open>renamed\<close> is the manifest of the assets; \<open>published\<close> is the bytes of the file a url is copied from, when there
  is one. An image whose size cannot be read is answered the way \<open>Assets.image_size\<close> answers it.
\<close>

definition share_image_of :: "(string \<Rightarrow> string option) \<Rightarrow> (string \<Rightarrow> string option) \<Rightarrow> string \<Rightarrow> share_image \<times> string list" where
  "share_image_of renamed published picture =
     (if picture = [] then (no_image, [])
      else if starts_with picture ''http://'' \<or> starts_with picture ''https://'' \<or> starts_with picture ''//'' then
        (no_image\<lparr>sh_url := picture\<rparr>, [])
      else
        (let url = (if starts_with picture ''/'' then picture else ''/'' @ picture);
             out = no_image\<lparr>sh_url := (case renamed url of None \<Rightarrow> url | Some u \<Rightarrow> u)\<rparr> in
         case published url of
           None \<Rightarrow> (out, [''share image '' @ in_quotes picture @ '' is not in assets or static''])
         | Some bytes \<Rightarrow>
             (case image_size bytes of
                Some (Some (width, height)) \<Rightarrow> (out\<lparr>sh_width := int width, sh_height := int height\<rparr>, [])
              | _ \<Rightarrow> (out, [''share image '' @ in_quotes picture @
                  '' has no size blogin can read, so og:image:width and og:image:height are left out'']))))"

section \<open>Pages of no post\<close>

definition lines_of :: "string list \<Rightarrow> string" where
  "lines_of rows = concat (map (\<lambda>row. row @ [CHR 0x0A]) rows)"

definition redirect_html :: "string \<Rightarrow> string" where
  "redirect_html goal =
     (let link = escaped goal in
      lines_of [''<!doctype html>'', ''<html lang='' @ dq @ ''en'' @ dq @ ''>'', ''<head>'', ''<meta charset='' @ dq @ ''utf-8'' @ dq @ ''>'',
        ''<meta http-equiv='' @ dq @ ''refresh'' @ dq @ '' content='' @ dq @ ''0; url='' @ link @ dq @ ''>'',
        ''<link rel='' @ dq @ ''canonical'' @ dq @ '' href='' @ dq @ link @ dq @ ''>'', ''<title>Redirecting</title>'', ''</head>'', ''<body>'',
        ''<p>Redirecting to <a href='' @ dq @ link @ dq @ ''>'' @ link @ ''</a>.</p>'', ''</body>'', ''</html>''])"

definition not_found_html :: string where
  "not_found_html =
     lines_of [''<!doctype html>'', ''<html lang='' @ dq @ ''en'' @ dq @ ''>'', ''<head>'', ''<meta charset='' @ dq @ ''utf-8'' @ dq @ ''>'',
       ''<meta name='' @ dq @ ''robots'' @ dq @ '' content='' @ dq @ ''noindex'' @ dq @ ''>'', ''<title>404 Not Found</title>'', ''</head>'',
       ''<body>'', ''<h1>404</h1>'', ''<p>The page you are looking for was not found.</p>'',
       ''<p><a href='' @ dq @ ''/'' @ dq @ ''>Home</a></p>'', ''</body>'', ''</html>'']"

end
