(* ===== verification/DataFiles.thy ===== *)
theory DataFiles
  imports Yaml Writers
begin

text \<open>
  The data files of a site (\<open>data.cpp\<close>): the tree under \<open>data/\<close> and the \<open>_data\<close> files beside the
  content, which a section reads merged along its path. A directory is the list of its entries, links
  left out; a file that cannot be opened has no text.
\<close>

datatype data_entry =
  Data_File (de_name: string) (de_text: string)
| Data_Directory (de_name: string) (de_entries: "data_entry list")

definition path_stem :: "string \<Rightarrow> string" where
  "path_stem name = take (length name - length (path_extension name)) name"

definition data_extension :: "string \<Rightarrow> string" where
  "data_extension name = to_lower_ascii (path_extension name)"

definition is_data_file :: "string \<Rightarrow> bool" where
  "is_data_file name \<longleftrightarrow> data_extension name \<in> {''.json'', ''.yaml'', ''.yml''}"

text \<open>What a parser gives, without its state.\<close>

fun parsed_value :: "('s, jvalue) outcome \<Rightarrow> (unit, jvalue) outcome" where
  "parsed_value (Done v st) = Done v ()"
| "parsed_value (Failed e) = Failed e"
| "parsed_value OutOfFuel = OutOfFuel"

fun named_error :: "string \<Rightarrow> (unit, jvalue) outcome \<Rightarrow> (unit, jvalue) outcome" where
  "named_error name (Failed e) = Failed (e\<lparr>pe_message := name @ '': '' @ pe_message e\<rparr>)"
| "named_error name r = r"

definition load_file :: "string \<Rightarrow> string \<Rightarrow> (unit, jvalue) outcome" where
  "load_file name source =
     (if \<not> is_data_file name then Done VNull ()
      else named_error name
        (if data_extension name = ''.json'' then parsed_value (parse_json source) else parsed_value (parse_yaml source)))"

section \<open>The tree\<close>

text \<open>Entries are read in the order of their names.\<close>

fun sorted_entry :: "data_entry \<Rightarrow> data_entry" where
  "sorted_entry (Data_File name source) = Data_File name source"
| "sorted_entry (Data_Directory name entries) = Data_Directory name (sort_key de_name (map sorted_entry entries))"

fun load_entry :: "data_entry \<Rightarrow> jvalue \<Rightarrow> (unit, jvalue) outcome"
  and load_entries :: "data_entry list \<Rightarrow> jvalue \<Rightarrow> (unit, jvalue) outcome" where
  "load_entry (Data_Directory name entries) tree =
     bind_outcome (load_entries entries (VObject [])) (\<lambda>nested st. Done (set_member tree name nested) ())"
| "load_entry (Data_File name source) tree =
     (if \<not> is_data_file name then Done tree ()
      else bind_outcome (load_file name source) (\<lambda>v st. Done (set_member tree (path_stem name) v) ()))"
| "load_entries [] tree = Done tree ()"
| "load_entries (entry # entries) tree = bind_outcome (load_entry entry tree) (\<lambda>grown st. load_entries entries grown)"

text \<open>\<open>None\<close> is a directory that is not there.\<close>

definition load_tree :: "data_entry list option \<Rightarrow> (unit, jvalue) outcome" where
  "load_tree directory =
     (case directory of
        None \<Rightarrow> Done (VObject []) ()
      | Some entries \<Rightarrow> load_entries (sort_key de_name (map sorted_entry entries)) (VObject []))"

section \<open>Beside the content\<close>

definition data_file_names :: "string list" where
  "data_file_names = [''_data.json'', ''_data.yaml'', ''_data.yml'']"

text \<open>The directories from the content down to a section, each by its names from there.\<close>

definition section_directories :: "string \<Rightarrow> string list list" where
  "section_directories sect =
     (let segments = filter (\<lambda>segment. segment \<noteq> []) (split_at sect (CHR ''/''))
      in map (\<lambda>n. take n segments) [0..<Suc (length segments)])"

fun merge_data :: "(string \<times> string) list \<Rightarrow> jvalue \<Rightarrow> (unit, jvalue) outcome" where
  "merge_data [] merged = Done merged ()"
| "merge_data ((name, source) # files) merged =
     bind_outcome (load_file name source) (\<lambda>v st. merge_data files (if is_object v then deep_merge merged v else merged))"

definition section_files :: "(string list \<Rightarrow> string \<Rightarrow> string option) \<Rightarrow> string \<Rightarrow> (string \<times> string) list" where
  "section_files file_at sect =
     concat (map (\<lambda>directory. List.map_filter (\<lambda>name. map_option (Pair name) (file_at directory name)) data_file_names)
       (section_directories sect))"

definition resolve_data :: "jvalue \<Rightarrow> (string list \<Rightarrow> string \<Rightarrow> string option) \<Rightarrow> string \<Rightarrow> (unit, jvalue) outcome" where
  "resolve_data whole file_at sect = merge_data (section_files file_at sect) whole"

end
