(* ===== verification/Sites.thy ===== *)
theory Sites
  imports Pages DataFiles Markdown HtmlRender Renders TemplateStores Feeds Searches
begin

text \<open>
  Building the pages of a site (\<open>build\<close> of \<open>site.cpp\<close>, down to the listings): the sources are read or
  taken from what the last build remembers, linked with their neighbours, prepared, related and
  rendered, one after the other. The C++ gives pages to threads; the definitions take them in order, so
  the error reported is the first one. What the operating system answers is in the inputs: the stamps
  and bytes of the files, today's date, the files below the search paths.
\<close>

section \<open>What a build is given\<close>

record build_input =
  bi_config :: config
  bi_url_prefix :: string
  bi_languages :: language_options
  bi_drafts :: bool
  bi_future :: bool
  bi_today :: ymd
  bi_framework :: framework
  bi_shortcodes :: registry
  bi_store :: template_store
  bi_nav :: "nav_node list"
  bi_data :: "string \<Rightarrow> jvalue option"
  bi_manifest :: "(string \<times> string) list"
  bi_srcsets :: "(string \<times> string) list"
  bi_published :: "string \<Rightarrow> string option"
  bi_shipped :: "string list"
  bi_address :: "string \<times> node \<Rightarrow> string"
  bi_stray :: int

record source_file =
  sf_key :: string
  sf_path :: string
  sf_section :: string
  sf_stem :: string
  sf_bytes :: "string option"
  sf_size :: nat
  sf_modified :: int

text \<open>
  What a step comes to: a value, an error, or what C++ leaves undefined or does not return from.
\<close>

datatype 'a build_step = Built 'a | Stopped parse_error | Undefined_Step

fun bind_step :: "'a build_step \<Rightarrow> ('a \<Rightarrow> 'b build_step) \<Rightarrow> 'b build_step" where
  "bind_step (Built v) k = k v"
| "bind_step (Stopped e) k = Stopped e"
| "bind_step Undefined_Step k = Undefined_Step"

fun each_step :: "('a \<Rightarrow> 'b build_step) \<Rightarrow> 'a list \<Rightarrow> 'b list build_step" where
  "each_step f [] = Built []"
| "each_step f (x # xs) = bind_step (f x) (\<lambda>y. bind_step (each_step f xs) (\<lambda>ys. Built (y # ys)))"

fun step_of :: "parse_error + 'a \<Rightarrow> 'a build_step" where
  "step_of (Inl e) = Stopped e"
| "step_of (Inr v) = Built v"

fun rendered_step :: "'a rendered \<Rightarrow> 'a build_step" where
  "rendered_step (Rendered v) = Built v"
| "rendered_step (Refused e) = Stopped e"
| "rendered_step Overflow = Undefined_Step"
| "rendered_step Exceeded = Undefined_Step"
| "rendered_step Null_Dereference = Undefined_Step"

section \<open>Reading the sources\<close>

text \<open>A draft, or a post dated after today, is held back unless it is asked for.\<close>

definition post_held :: "build_input \<Rightarrow> post \<Rightarrow> bool" where
  "post_held b p \<longleftrightarrow>
     po_draft p \<and> \<not> bi_drafts b \<or>
     \<not> bi_future b \<and> po_date p \<noteq> None \<and> date_less (Some (bi_today b)) (po_date p)"

definition read_post :: "source_file \<Rightarrow> parse_error + post" where
  "read_post f = load_post (sf_path f) (file_name (sf_path f)) (sf_bytes f)"

definition known_source :: "build_state \<Rightarrow> source_file \<Rightarrow> source_state option" where
  "known_source before f = map_of (bs_sources before) (sf_key f)"

definition source_unchanged :: "build_state \<Rightarrow> source_file \<Rightarrow> source_state \<Rightarrow> bool" where
  "source_unchanged before f s \<longleftrightarrow>
     ss_size s = sf_size f \<and> ss_modified s = sf_modified f \<and>
     (settled before s \<or> content_hash (case sf_bytes f of None \<Rightarrow> [] | Some bytes \<Rightarrow> bytes) = ss_hash s)"

definition reused_page :: "build_input \<Rightarrow> (string \<Rightarrow> bool) \<Rightarrow> build_state \<Rightarrow> source_file \<Rightarrow> page option" where
  "reused_page b on_disk before f =
     (case known_source before f of
        None \<Rightarrow> None
      | Some s \<Rightarrow>
          if source_unchanged before f s \<and> on_disk (ss_output s)
          then Some ((apply_metadata (bi_stray b) empty_page (ss_metadata s))\<lparr>pg_output := ss_output s\<rparr>)
          else None)"

definition new_page :: "build_input \<Rightarrow> source_file \<Rightarrow> post \<Rightarrow> page" where
  "new_page b f p = place_page p (sf_section f) (sf_stem f) (bi_url_prefix b) (cf_clean_urls (bi_config b))"

definition same_page_error :: "page \<Rightarrow> string \<Rightarrow> source_file \<Rightarrow> parse_error" where
  "same_page_error pg other f =
     config_error (''two posts write the same page '' @ in_quotes (pg_url pg) @ '': '' @ other @ '' and '' @ sf_path f)"

text \<open>\<open>before\<close> is the state of the last build when its pages may be reused; \<open>seen\<close> says which file writes a page.\<close>

fun collect_pages ::
  "build_input \<Rightarrow> (string \<Rightarrow> bool) \<Rightarrow> build_state option \<Rightarrow> (string \<times> string) list \<Rightarrow> source_file list \<Rightarrow>
   ((page \<times> source_file) list \<times> (string \<times> string) list) build_step" where
  "collect_pages b on_disk before seen [] = Built ([], seen)"
| "collect_pages b on_disk before seen (f # files) =
     (let go_on = (\<lambda>pg. bind_step (collect_pages b on_disk before (emplace (pg_output pg) (sf_path f) seen) files)
            (\<lambda>(pages, seen'). Built ((pg, f) # pages, seen')))
      in case Option.bind before (\<lambda>state. reused_page b on_disk state f) of
           Some pg \<Rightarrow> go_on pg
         | None \<Rightarrow>
             bind_step (step_of (read_post f)) (\<lambda>p.
               if post_held b p then collect_pages b on_disk before seen files
               else
                 (let pg = new_page b f p in
                  case map_of seen (pg_output pg) of
                    Some other \<Rightarrow> Stopped (same_page_error pg other f)
                  | None \<Rightarrow> go_on pg)))"

section \<open>Share images and neighbours\<close>

definition picture_of :: "build_input \<Rightarrow> page \<Rightarrow> string" where
  "picture_of b pg = (if po_image (pg_post pg) = [] then cf_image (bi_config b) else po_image (pg_post pg))"

definition resolve_image :: "build_input \<Rightarrow> string \<Rightarrow> share_image \<times> string list" where
  "resolve_image b picture = share_image_of (map_of (bi_manifest b)) (bi_published b) picture"

definition with_share_image :: "build_input \<Rightarrow> page \<Rightarrow> page" where
  "with_share_image b pg = pg\<lparr>pg_share_image := fst (resolve_image b (picture_of b pg))\<rparr>"

definition with_pages :: "(page list \<Rightarrow> page list) \<Rightarrow> (page \<times> source_file) list \<Rightarrow> (page \<times> source_file) list" where
  "with_pages f entries = zip (f (map fst entries)) (map snd entries)"

section \<open>Reading again what moved\<close>

definition remembered :: "build_state \<Rightarrow> source_file \<Rightarrow> jvalue option" where
  "remembered before f = map_option ss_metadata (known_source before f)"

definition read_again :: "source_file \<Rightarrow> page \<Rightarrow> page build_step" where
  "read_again f pg =
     bind_step (step_of (read_post f)) (\<lambda>p. Built (pg\<lparr>pg_post := p, pg_tags := VArray [], pg_parsed := True\<rparr>))"

definition reread_moved :: "(string \<Rightarrow> bool) \<Rightarrow> build_state \<Rightarrow> page \<times> source_file \<Rightarrow> (page \<times> source_file) build_step" where
  "reread_moved on_disk before entry =
     (case entry of (pg, f) \<Rightarrow>
        if pg_parsed pg \<or> (case remembered before f of None \<Rightarrow> False | Some v \<Rightarrow> page_settled v pg) \<and> on_disk (pg_output pg)
        then Built (pg, f)
        else bind_step (read_again f pg) (\<lambda>pg'. Built (pg', f)))"

section \<open>Preparing a page\<close>

definition more_marker :: string where "more_marker = ''<!--more-->''"

definition page_render_options :: "build_input \<Rightarrow> render_options" where
  "page_render_options b =
     \<lparr>ro_framework = bi_framework b, ro_highlight = cf_highlight (bi_config b), ro_shortcodes = Some (bi_shortcodes b), ro_anchors = True\<rparr>"

text \<open>A body whose parsing never ends has no result.\<close>

definition body_of :: "build_input \<Rightarrow> string \<Rightarrow> render_result build_step" where
  "body_of b source =
     (case parse_markdown source of
        None \<Rightarrow> Undefined_Step
      | Some document \<Rightarrow> Built (render_document (page_render_options b) document))"

definition excerpt_of :: "build_input \<Rightarrow> string \<Rightarrow> string build_step" where
  "excerpt_of b source =
     (case find_sub more_marker source of
        None \<Rightarrow> Built []
      | Some marker \<Rightarrow> bind_step (body_of b (take marker source)) (\<lambda>r. Built (rr_text r)))"

definition tag_value :: "build_input \<Rightarrow> string \<Rightarrow> jvalue" where
  "tag_value b term =
     VObject [(''name'', VString term), (''url'', VString (join_url [] (''tags/'' @ slugify term) (cf_clean_urls (bi_config b))))]"

definition prepare_page :: "build_input \<Rightarrow> page \<Rightarrow> page build_step" where
  "prepare_page b pg =
     (if \<not> pg_parsed pg \<or> pg_prepared pg then Built pg
      else
        bind_step (body_of b (po_body (pg_post pg))) (\<lambda>body.
        bind_step (excerpt_of b (po_body (pg_post pg))) (\<lambda>excerpt.
          (let read = TextOps.word_count (rr_text body) in
           Built (pg\<lparr>pg_prepared := True, pg_word_count := read,
             pg_reading_time := Pages.reading_time read (cf_reading_wpm (bi_config b)),
             pg_first_image := first_image_of (rr_html body),
             pg_summary := choose_summary (po_summary (pg_post pg)) excerpt (rr_text body)
               (nat (cf_summary_length (bi_config b) mod 2 ^ 64)),
             pg_tags := VArray (map (tag_value b) (terms_of (pg_post pg) ''tags''))\<rparr>)))))"

definition prepare_entry :: "build_input \<Rightarrow> page \<times> source_file \<Rightarrow> (page \<times> source_file) build_step" where
  "prepare_entry b entry = bind_step (prepare_page b (fst entry)) (\<lambda>pg. Built (pg, snd entry))"

definition relate_pages :: "build_input \<Rightarrow> page list \<Rightarrow> page list" where
  "relate_pages b pages = (if mentions (bi_store b) ''related'' then assign_related (bi_config b) pages else pages)"

text \<open>A page whose related block is what it was is kept on disk; every other one is read and prepared.\<close>

fun keep_settled ::
  "build_input \<Rightarrow> build_state \<Rightarrow> (page \<times> source_file) list \<Rightarrow> writer \<times> disk \<Rightarrow>
   ((page \<times> source_file) list \<times> writer \<times> disk) build_step" where
  "keep_settled b before [] wd = Built ([], wd)"
| "keep_settled b before ((pg, f) # entries) wd =
     (let go_on = (\<lambda>pg' wd'. bind_step (keep_settled b before entries wd') (\<lambda>(rest, wd''). Built ((pg', f) # rest, wd'')));
          anew = bind_step (bind_step (read_again f pg) (prepare_page b))
      in if pg_parsed pg then go_on pg wd
         else if (case remembered before f of None \<Rightarrow> False | Some v \<Rightarrow> related_settled v pg) then
           (case keep (pg_output pg) wd of
              (True, wd') \<Rightarrow> go_on pg wd'
            | (False, wd') \<Rightarrow> anew (\<lambda>pg'. go_on pg' wd'))
         else anew (\<lambda>pg'. go_on pg' wd))"

end
