(* ===== verification/SitePages.thy ===== *)
theory SitePages
  imports Sites
begin

text \<open>
  Rendering the pages of a site and its listings (\<open>build\<close> of \<open>site.cpp\<close>): the layouts, the chrome
  around a page, the pages of a listing, the taxonomies, the feeds, the sitemap, the search index, the
  page for a missing url and the redirects. A file written is its path below the output and its text.
\<close>

section \<open>Layouts\<close>

definition has_template :: "build_input \<Rightarrow> string \<Rightarrow> string \<Rightarrow> bool" where
  "has_template b name sect \<longleftrightarrow> find_template (bi_store b) name sect \<noteq> None"

definition options_for :: "build_input \<Rightarrow> string \<Rightarrow> haml_options" where
  "options_for b sect =
     \<lparr>ro_partial = Some (\<lambda>name. find_partial (bi_store b) name sect), ro_caching = True, ro_body = [], ro_address = bi_address b\<rparr>"

text \<open>A page in its layout, and that in \<open>base\<close> when there is one.\<close>

definition render_layout ::
  "build_input \<Rightarrow> string \<Rightarrow> haml_template \<Rightarrow> view_context \<Rightarrow> fragment_cache \<Rightarrow> string build_step \<times> fragment_cache" where
  "render_layout b sect layout context cache =
     (let (r, st) =
        bind_render (render_haml (options_for b sect) layout \<lparr>rs_context = context, rs_cache = cache\<rparr>) (\<lambda>inner st.
          case find_template (bi_store b) ''base'' sect of
            None \<Rightarrow> (Rendered inner, st)
          | Some base \<Rightarrow> render_haml ((options_for b sect)\<lparr>ro_body := inner\<rparr>) base st)
      in (rendered_step r, rs_cache st))"

section \<open>Chrome\<close>

definition site_values :: "config \<Rightarrow> jvalue" where
  "site_values c =
     VObject [(''title'', VString (cf_title c)), (''base-url'', VString (cf_base_url c)),
       (''author'', VString (cf_author c)), (''twitter'', VString (cf_twitter c))]"

definition feed_links :: "build_input \<Rightarrow> bool \<Rightarrow> feed_link list" where
  "feed_links b has_pages =
     (if has_pages then
        map (\<lambda>format. \<lparr>fl_type = media_type_for format, fl_url = bi_url_prefix b @ ''/'' @ filename_for format\<rparr>)
          (cf_feed_formats (bi_config b))
      else [])"

definition home_url :: "build_input \<Rightarrow> string" where
  "home_url b = bi_url_prefix b @ ''/''"

definition chrome_for :: "build_input \<Rightarrow> bool \<Rightarrow> string \<Rightarrow> chrome" where
  "chrome_for b has_pages sect =
     \<lparr>ch_site = site_values (bi_config b),
      ch_data = (case bi_data b sect of None \<Rightarrow> VObject [] | Some v \<Rightarrow> v),
      ch_languages = section_switcher (bi_languages b) sect (cf_clean_urls (bi_config b)),
      ch_section = sect, ch_url = [],
      ch_share_image = fst (resolve_image b (cf_image (bi_config b))),
      ch_feeds = feed_links b has_pages, ch_noindex = False, ch_home = False, ch_nav = bi_nav b,
      ch_has_header = (find_partial (bi_store b) ''header'' sect \<noteq> None),
      ch_has_sidebar = (find_partial (bi_store b) ''sidebar'' sect \<noteq> None),
      ch_has_footer = (find_partial (bi_store b) ''footer'' sect \<noteq> None),
      ch_debug = cf_debug (bi_config b), ch_framework = bi_framework b\<rparr>"

definition page_chrome :: "build_input \<Rightarrow> bool \<Rightarrow> page \<Rightarrow> chrome" where
  "page_chrome b has_pages pg =
     (chrome_for b has_pages (pg_section pg))\<lparr>ch_url := pg_url pg, ch_share_image := pg_share_image pg,
       ch_noindex := po_noindex (pg_post pg), ch_home := (pg_url pg = home_url b),
       ch_languages := language_switcher (bi_languages b) (pg_translation_key pg) (cf_clean_urls (bi_config b))\<rparr>"

section \<open>A post\<close>

definition section_setting :: "build_input \<Rightarrow> (section_config \<Rightarrow> 'a option) \<Rightarrow> string \<Rightarrow> 'a \<Rightarrow> 'a" where
  "section_setting b setting sect fallback =
     (case Option.bind (section_of (bi_config b) sect) setting of None \<Rightarrow> fallback | Some v \<Rightarrow> v)"

definition page_view :: "build_input \<Rightarrow> bool \<Rightarrow> page \<Rightarrow> render_result \<Rightarrow> post_view" where
  "page_view b has_pages pg body =
     \<lparr>pv_chrome = page_chrome b has_pages pg, pv_post = Some (pg_post pg), pv_body_html = rr_html body,
      pv_summary = pg_summary pg, pv_headings = rr_headings body, pv_word_count = pg_word_count pg,
      pv_reading_time = pg_reading_time pg, pv_related = pg_related pg, pv_tags = pg_tags pg,
      pv_show_dates = section_setting b se_show_dates (pg_section pg) True,
      pv_index_dates = section_setting b se_index_dates (pg_section pg) True,
      pv_previous_url = pg_previous_url pg, pv_previous_title = pg_previous_title pg,
      pv_next_url = pg_next_url pg, pv_next_title = pg_next_title pg\<rparr>"

text \<open>The first layout there is of the post's own, its section's and the default.\<close>

definition layout_named :: "build_input \<Rightarrow> string list \<Rightarrow> string \<Rightarrow> haml_template option" where
  "layout_named b names sect =
     (case find (\<lambda>name. has_template b name sect) names of
        None \<Rightarrow> None
      | Some name \<Rightarrow> find_template (bi_store b) name sect)"

definition page_layout :: "build_input \<Rightarrow> page \<Rightarrow> haml_template option" where
  "page_layout b pg =
     layout_named b
       (filter (\<lambda>name. name \<noteq> [])
         [po_layout (pg_post pg), section_setting b se_layout (pg_section pg) [], ''show''])
       (pg_section pg)"

definition render_page :: "build_input \<Rightarrow> bool \<Rightarrow> page \<Rightarrow> fragment_cache \<Rightarrow> string build_step \<times> fragment_cache" where
  "render_page b has_pages pg cache =
     (case body_of b (po_body (pg_post pg)) of
        Built body \<Rightarrow>
          (case page_layout b pg of
             None \<Rightarrow> (Stopped (config_error (''no '' @ in_quotes ''show'' @ '' layout found'')), cache)
           | Some layout \<Rightarrow>
               render_layout b (pg_section pg) layout (build_post_view (bi_stray b) (page_view b has_pages pg body)) cache)
      | Stopped e \<Rightarrow> (Stopped e, cache)
      | Undefined_Step \<Rightarrow> (Undefined_Step, cache))"

text \<open>
  The pages that were read, rendered in turn. A task says it succeeded with an error on line zero, so
  an error that really is on line zero leaves its page unwritten and the build goes on.
\<close>

fun render_pages :: "build_input \<Rightarrow> bool \<Rightarrow> page list \<Rightarrow> fragment_cache \<Rightarrow> ((string \<times> string) list \<times> fragment_cache) build_step" where
  "render_pages b has_pages [] cache = Built ([], cache)"
| "render_pages b has_pages (pg # pages) cache =
     (if \<not> pg_parsed pg then render_pages b has_pages pages cache
      else
        (case render_page b has_pages pg cache of
           (Built html, cache') \<Rightarrow>
             bind_step (render_pages b has_pages pages cache') (\<lambda>(files, cache''). Built ((pg_output pg, html) # files, cache''))
         | (Stopped e, cache') \<Rightarrow> if pe_line e = 0 then render_pages b has_pages pages cache' else Stopped e
         | (Undefined_Step, cache') \<Rightarrow> Undefined_Step))"

section \<open>A listing\<close>

definition listing_size :: "build_input \<Rightarrow> string \<Rightarrow> nat" where
  "listing_size b sect = nat (max 1 (section_setting b se_page_size sect (cf_page_size (bi_config b))))"

definition listing_total :: "nat \<Rightarrow> nat \<Rightarrow> nat" where
  "listing_total per_page entries = max 1 ((entries + per_page - 1) div per_page)"

definition listing_slice :: "nat \<Rightarrow> 'a list \<Rightarrow> nat \<Rightarrow> 'a list" where
  "listing_slice per_page entries number = take per_page (drop ((number - 1) * per_page) entries)"

record listing =
  li_section :: string
  li_at_root :: bool
  li_heading :: string
  li_layouts :: "string list"
  li_entries :: "page list"

definition listing_urls :: "build_input \<Rightarrow> listing \<Rightarrow> nat \<Rightarrow> string list" where
  "listing_urls b l pages_in =
     map (\<lambda>number. listing_url (li_section l) number (li_at_root l) (cf_clean_urls (bi_config b)) (bi_url_prefix b)) [1..<Suc pages_in]"

definition sorted_entries :: "listing \<Rightarrow> page list" where
  "sorted_entries l = stable_sort newer_first (li_entries l)"

text \<open>The view of one page of a listing, its number counted from one.\<close>

definition listing_page_view :: "build_input \<Rightarrow> bool \<Rightarrow> listing \<Rightarrow> nat \<Rightarrow> listing_view" where
  "listing_page_view b has_pages l number =
     (let per_page = listing_size b (li_section l); entries = sorted_entries l;
          pages_in = listing_total per_page (length entries); urls = listing_urls b l pages_in; url = urls ! (number - 1) in
      \<lparr>lv_chrome = (chrome_for b has_pages (li_section l))\<lparr>ch_url := url, ch_noindex := (1 < number), ch_home := (url = home_url b)\<rparr>,
       lv_entries = VArray (map (page_entry []) (listing_slice per_page entries number)),
       lv_page_number = int number, lv_total_pages = int pages_in,
       lv_previous_url = (if 1 < number then urls ! (number - 2) else []),
       lv_next_url = (if number < pages_in then urls ! number else []),
       lv_page_urls = urls,
       lv_index_dates = section_setting b se_index_dates (li_section l) True,
       lv_heading = li_heading l, lv_at_root = li_at_root l\<rparr>)"

text \<open>What producing files comes to: the files, the places for the sitemap, the listings counted, the cache.\<close>

record produced =
  pr_files :: "(string \<times> string) list"
  pr_locations :: "sitemap_entry list"
  pr_listings :: nat
  pr_cache :: fragment_cache

definition add_file :: "string \<Rightarrow> string \<Rightarrow> produced \<Rightarrow> produced" where
  "add_file path content made = made\<lparr>pr_files := pr_files made @ [(path, content)]\<rparr>"

definition add_location :: "build_input \<Rightarrow> string \<Rightarrow> produced \<Rightarrow> produced" where
  "add_location b url made =
     made\<lparr>pr_locations := pr_locations made @ [\<lparr>se_location = cf_base_url (bi_config b) @ url, se_lastmod = []\<rparr>]\<rparr>"

definition write_listing_page :: "build_input \<Rightarrow> bool \<Rightarrow> listing \<Rightarrow> nat \<Rightarrow> produced \<Rightarrow> produced build_step" where
  "write_listing_page b has_pages l number made =
     (let view = listing_page_view b has_pages l number in
      case layout_named b (li_layouts l) (li_section l) of
        None \<Rightarrow> Stopped (config_error ''no listing layout found'')
      | Some layout \<Rightarrow>
          (case render_layout b (li_section l) layout (build_listing_view (bi_stray b) view) (pr_cache made) of (r, cache) \<Rightarrow>
             bind_step r (\<lambda>html.
               (let made1 = add_file (listing_file (li_section l) number (li_at_root l) (cf_clean_urls (bi_config b))) html
                      (made\<lparr>pr_cache := cache\<rparr>);
                    made2 = (if ch_noindex (lv_chrome view) then made1 else add_location b (ch_url (lv_chrome view)) made1)
                in Built (made2\<lparr>pr_listings := pr_listings made2 + 1\<rparr>)))))"

fun all_steps :: "('a \<Rightarrow> 's \<Rightarrow> 's build_step) \<Rightarrow> 'a list \<Rightarrow> 's \<Rightarrow> 's build_step" where
  "all_steps f [] st = Built st"
| "all_steps f (x # xs) st = bind_step (f x st) (all_steps f xs)"

definition write_listing :: "build_input \<Rightarrow> bool \<Rightarrow> listing \<Rightarrow> produced \<Rightarrow> produced build_step" where
  "write_listing b has_pages l =
     all_steps (write_listing_page b has_pages l)
       [1..<Suc (listing_total (listing_size b (li_section l)) (length (li_entries l)))]"

section \<open>Sections and taxonomies\<close>

text \<open>The sections that have pages, in order, each with its pages.\<close>

definition sections_of :: "page list \<Rightarrow> (string \<times> page list) list" where
  "sections_of pages =
     map (\<lambda>sect. (sect, filter (\<lambda>pg. pg_section pg = sect) pages))
       (sort (remdups (filter (\<lambda>sect. sect \<noteq> []) (map pg_section pages))))"

definition section_listing :: "string \<times> page list \<Rightarrow> listing" where
  "section_listing entry =
     \<lparr>li_section = fst entry, li_at_root = False, li_heading = [], li_layouts = [''index''], li_entries = snd entry\<rparr>"

definition home_listing :: "build_input \<Rightarrow> page list \<Rightarrow> listing list" where
  "home_listing b pages =
     (let home = cf_home_section (bi_config b) in
      case (if home = [] then None else map_of (sections_of pages) home) of
        None \<Rightarrow> []
      | Some entries \<Rightarrow>
          [\<lparr>li_section = home, li_at_root = True, li_heading = [], li_layouts = [''home'', ''index''], li_entries = entries\<rparr>])"

text \<open>The terms of a taxonomy, in order, each with the pages that name it, as often as they do.\<close>

definition pages_by_term :: "string \<Rightarrow> page list \<Rightarrow> (string \<times> page list) list" where
  "pages_by_term taxonomy pages =
     (let named = concat (map (\<lambda>pg. map (\<lambda>term. (term, pg)) (terms_of (pg_post pg) taxonomy)) pages) in
      map (\<lambda>term. (term, map snd (filter (\<lambda>(t, pg). t = term) named))) (sort (remdups (map fst named))))"

definition singular :: "string \<Rightarrow> string" where
  "singular name = (if ends_with name ''s'' then butlast name else name)"

definition term_path :: "string \<Rightarrow> string \<Rightarrow> string" where
  "term_path taxonomy term = taxonomy @ ''/'' @ slugify term"

definition term_listing :: "string \<Rightarrow> string \<times> page list \<Rightarrow> listing" where
  "term_listing taxonomy entry =
     \<lparr>li_section = term_path taxonomy (fst entry), li_at_root = False, li_heading = fst entry,
      li_layouts = [singular taxonomy, ''term'', taxonomy, ''index''], li_entries = snd entry\<rparr>"

definition term_entry :: "build_input \<Rightarrow> string \<Rightarrow> string \<times> page list \<Rightarrow> jvalue" where
  "term_entry b taxonomy entry =
     VObject [(''title'', VString (fst entry @ '' ('' @ format_nat (length (snd entry)) @ '')'')),
       (''url'', VString (join_url [] (term_path taxonomy (fst entry)) (cf_clean_urls (bi_config b)))),
       (''date'', VString [])]"

definition plain_listing :: "chrome \<Rightarrow> string \<Rightarrow> jvalue list \<Rightarrow> string list \<Rightarrow> listing_view" where
  "plain_listing chrome heading entries urls =
     \<lparr>lv_chrome = chrome, lv_entries = VArray entries, lv_page_number = 1, lv_total_pages = 1, lv_previous_url = [],
      lv_next_url = [], lv_page_urls = urls, lv_index_dates = True, lv_heading = heading, lv_at_root = False\<rparr>"

definition write_index :: "build_input \<Rightarrow> bool \<Rightarrow> string \<Rightarrow> (string \<times> page list) list \<Rightarrow> produced \<Rightarrow> produced build_step" where
  "write_index b has_pages taxonomy named made =
     (let url = join_url [] taxonomy (cf_clean_urls (bi_config b));
          view = plain_listing ((chrome_for b has_pages taxonomy)\<lparr>ch_url := url\<rparr>) (humanize taxonomy)
            (map (term_entry b taxonomy) named) [url] in
      case find_template (bi_store b) (if has_template b taxonomy [] then taxonomy else ''index'') [] of
        None \<Rightarrow> Built made
      | Some layout \<Rightarrow>
          (case render_layout b [] layout (build_listing_view (bi_stray b) view) (pr_cache made) of (r, cache) \<Rightarrow>
             bind_step r (\<lambda>html.
               Built ((add_location b url (add_file (page_file taxonomy (cf_clean_urls (bi_config b))) html (made\<lparr>pr_cache := cache\<rparr>)))
                 \<lparr>pr_listings := pr_listings made + 1\<rparr>))))"

definition write_taxonomy :: "build_input \<Rightarrow> page list \<Rightarrow> string \<Rightarrow> produced \<Rightarrow> produced build_step" where
  "write_taxonomy b pages taxonomy made =
     (let named = pages_by_term taxonomy pages; has_pages = (pages \<noteq> []) in
      if named = [] then Built made
      else bind_step (all_steps (\<lambda>entry. write_listing b has_pages (term_listing taxonomy entry)) named made)
             (write_index b has_pages taxonomy named))"

section \<open>Feeds, the sitemap and the search index\<close>

definition feed_text :: "string \<Rightarrow> feed_info \<Rightarrow> string" where
  "feed_text format info = (if format = ''rss'' then rss info else if format = ''json'' then json_feed info else atom info)"

definition feed_of :: "build_input \<Rightarrow> string \<Rightarrow> string \<Rightarrow> string \<Rightarrow> page list \<Rightarrow> feed_info" where
  "feed_of b title start format pages =
     (let base = cf_base_url (bi_config b) in
      \<lparr>fi_title = title, fi_site_url = base @ start, fi_feed_url = base @ start @ filename_for format,
       fi_updated = (case pages of [] \<Rightarrow> [] | pg # _ \<Rightarrow> date_string (po_date (pg_post pg))),
       fi_entries = map (\<lambda>pg. \<lparr>fe_title = po_title (pg_post pg), fe_url = base @ pg_url pg,
           fe_date = date_string (po_date (pg_post pg)), fe_summary = pg_summary pg\<rparr>) pages\<rparr>)"

text \<open>The site's feed in a format and one for every section; a file shipped by hand stays.\<close>

definition write_shippable :: "build_input \<Rightarrow> string \<Rightarrow> string \<Rightarrow> produced \<Rightarrow> produced" where
  "write_shippable b path content made = (if path \<in> set (bi_shipped b) then made else add_file path content made)"

text \<open>The site of a section's feed is its url without the slash at the end.\<close>

definition section_feed :: "build_input \<Rightarrow> string \<Rightarrow> string \<times> page list \<Rightarrow> feed_info" where
  "section_feed b format entry =
     (let start = bi_url_prefix b @ ''/'' @ fst entry in
      (feed_of b (cf_title (bi_config b) @ '': '' @ fst entry) (start @ ''/'') format (stable_sort newer_first (snd entry)))
        \<lparr>fi_site_url := cf_base_url (bi_config b) @ start\<rparr>)"

definition write_feeds :: "build_input \<Rightarrow> page list \<Rightarrow> string \<Rightarrow> produced \<Rightarrow> produced" where
  "write_feeds b pages format made =
     fold (\<lambda>entry. write_shippable b (fst entry @ ''/'' @ filename_for format) (feed_text format (section_feed b format entry)))
       (sections_of pages)
       (write_shippable b (filename_for format)
         (feed_text format (feed_of b (cf_title (bi_config b)) (home_url b) format (stable_sort newer_first pages))) made)"

definition page_locations :: "build_input \<Rightarrow> page list \<Rightarrow> sitemap_entry list" where
  "page_locations b pages =
     map (\<lambda>pg. \<lparr>se_location = cf_base_url (bi_config b) @ pg_url pg,
         se_lastmod = (if po_updated (pg_post pg) \<noteq> None then date_string (po_updated (pg_post pg)) else date_string (po_date (pg_post pg)))\<rparr>)
       (filter (\<lambda>pg. \<not> po_noindex (pg_post pg)) pages)"

text \<open>\<open>std::unique\<close> keeps the first of neighbours with one location.\<close>

fun unique_locations :: "sitemap_entry list \<Rightarrow> sitemap_entry list" where
  "unique_locations (x # y # xs) =
     (if se_location x = se_location y then unique_locations (x # xs) else x # unique_locations (y # xs))"
| "unique_locations xs = xs"

definition search_record_of :: "page \<Rightarrow> search_record" where
  "search_record_of pg =
     \<lparr>sr_title = po_title (pg_post pg), sr_url = pg_url pg, sr_date = date_string (po_date (pg_post pg)),
      sr_description = po_description (pg_post pg), sr_text = pg_summary pg, sr_tags = po_tags (pg_post pg)\<rparr>"

definition write_site_files :: "build_input \<Rightarrow> page list \<Rightarrow> produced \<Rightarrow> produced" where
  "write_site_files b pages made =
     (let c = bi_config b;
          made1 = fold (write_feeds b pages) (cf_feed_formats c) made;
          places = unique_locations (sort_key se_location (pr_locations made1));
          made2 = write_shippable b ''sitemap.xml'' (sitemap places) (made1\<lparr>pr_locations := places\<rparr>);
          made3 = (if cf_robots c then write_shippable b ''robots.txt'' (robots_txt (cf_base_url c)) made2 else made2)
      in if pages = [] then made
         else if cf_search c then
           add_file ''search-index.json'' (index_json (map search_record_of pages) (nat (cf_search_text_length c mod 2 ^ 64))) made3
         else made3)"

end
