(* ===== verification/Stylesheets.thy ===== *)
theory Stylesheets
  imports Floats
begin

text \<open>
  The texts a site is given by the program: the stylesheet of \<open>style.cpp\<close>, and the script and the
  stylesheet of the search of \<open>search.cpp\<close>, line by line as the sources have them.
\<close>

definition text_lines :: "string list \<Rightarrow> string" where
  "text_lines rows = concat (map (\<lambda>row. row @ [CHR 0x0A]) rows)"

definition markup_css :: string where
  "markup_css = text_lines [
     ''pre {'',
     ''  background: #f6f8fa;'',
     ''  padding: 1rem;'',
     ''  overflow-x: auto;'',
     ''  border-radius: 6px;'',
     ''}'',
     [],
     ''code {'',
     ''  font-family: ui-monospace, SFMono-Regular, Menlo, monospace;'',
     ''}'',
     [],
     ''.hl-keyword { color: #d73a49; }'',
     ''.hl-string { color: #032f62; }'',
     ''.hl-number { color: #005cc5; }'',
     ''.hl-comment { color: #6a737d; font-style: italic; }'',
     [],
     ''.anchor {'',
     ''  visibility: hidden;'',
     ''  margin-left: 0.35rem;'',
     ''  color: #adb5bd;'',
     ''  text-decoration: none;'',
     ''}'',
     [],
     ''h1:hover > .anchor,'',
     ''h2:hover > .anchor,'',
     ''h3:hover > .anchor,'',
     ''h4:hover > .anchor,'',
     ''h5:hover > .anchor,'',
     ''h6:hover > .anchor {'',
     ''  visibility: visible;'',
     ''}'',
     [],
     ''.post-nav {'',
     ''  display: flex;'',
     ''  justify-content: space-between;'',
     ''  gap: 1rem;'',
     ''  margin-top: 2rem;'',
     ''}'',
     [],
     ''.blogin-pagination {'',
     ''  margin-bottom: 1rem;'',
     ''}'',
     [],
     ''.post-nav .next {'',
     ''  margin-left: auto;'',
     ''  text-align: right;'',
     ''}'',
     [],
     ''.blogin-btn {'',
     ''  display: inline-block;'',
     ''  padding: 0.5rem 1rem;'',
     ''  background: #0d6efd;'',
     ''  color: #fff;'',
     ''  border-radius: 0.375rem;'',
     ''  text-decoration: none;'',
     ''}'',
     [],
     ''.blogin-btn:hover {'',
     ''  background: #0b5ed7;'',
     ''  color: #fff;'',
     ''}'',
     [],
     ''dl {'',
     ''  margin: 1.5rem 0;'',
     ''  padding: 1rem 1.25rem;'',
     ''  border: 1px solid #e5e7eb;'',
     ''  border-radius: 0.5rem;'',
     ''  background: #f9fafb;'',
     ''}'',
     [],
     ''dl dt {'',
     ''  font-weight: 600;'',
     ''}'',
     [],
     ''dl dd {'',
     ''  margin: 0.25rem 0 1rem;'',
     ''}'',
     [],
     ''dl dd:last-child {'',
     ''  margin-bottom: 0;'',
     ''}'']"

definition theme_css :: string where
  "theme_css = text_lines [
     ''.blogin-theme-toggle {'',
     ''  display: inline-flex;'',
     ''  align-items: center;'',
     ''  justify-content: center;'',
     ''  background: transparent;'',
     ''  border: 0;'',
     ''  color: inherit;'',
     ''  cursor: pointer;'',
     ''  padding: 0.25rem 0.5rem;'',
     ''  line-height: 0;'',
     ''}'',
     [],
     ''.blogin-theme-toggle svg {'',
     ''  width: 1.25rem;'',
     ''  height: 1.25rem;'',
     ''}'',
     [],
     ''.blogin-theme-toggle .icon-moon {'',
     ''  fill: currentColor;'',
     ''}'',
     [],
     ''.blogin-theme-toggle .icon-sun {'',
     ''  display: none;'',
     ''  fill: none;'',
     ''  stroke: currentColor;'',
     ''  stroke-width: 2;'',
     ''  stroke-linecap: round;'',
     ''}'',
     [],
     ''[data-theme=\"dark\"] .blogin-theme-toggle .icon-moon {'',
     ''  display: none;'',
     ''}'',
     [],
     ''[data-theme=\"dark\"] .blogin-theme-toggle .icon-sun {'',
     ''  display: inline;'',
     ''}'',
     [],
     ''[data-theme=\"dark\"] pre {'',
     ''  background: #161b22;'',
     ''}'',
     [],
     ''[data-theme=\"dark\"] .hl-keyword { color: #ff7b72; }'',
     ''[data-theme=\"dark\"] .hl-string { color: #a5d6ff; }'',
     ''[data-theme=\"dark\"] .hl-number { color: #79c0ff; }'',
     ''[data-theme=\"dark\"] .hl-comment { color: #8b949e; }'',
     [],
     ''[data-theme=\"dark\"] .anchor {'',
     ''  color: #6e7681;'',
     ''}'',
     [],
     ''[data-theme=\"dark\"] dl {'',
     ''  border-color: #30363d;'',
     ''  background: #161b22;'',
     ''}'']"

definition navbar_css :: string where
  "navbar_css = text_lines [
     ''.navbar-tools {'',
     ''  display: flex;'',
     ''  flex-direction: column;'',
     ''  align-items: flex-start;'',
     ''  gap: 0.5rem;'',
     ''  width: 100%;'',
     ''  margin-top: 0.5rem;'',
     ''}'',
     [],
     ''.navbar-search {'',
     ''  width: 100%;'',
     ''}'',
     [],
     ''@media (min-width: 992px) {'',
     ''  .navbar-tools {'',
     ''    flex-direction: row;'',
     ''    align-items: center;'',
     ''    width: auto;'',
     ''    margin-top: 0;'',
     ''    margin-left: auto;'',
     ''  }'',
     [],
     ''  .navbar-search {'',
     ''    width: 24rem;'',
     ''    max-width: 90vw;'',
     ''  }'',
     [],
     ''  .navbar-toggle-slot {'',
     ''    order: 2;'',
     ''  }'',
     ''}'']"

definition search_js :: string where
  "search_js = text_lines [
     ''(function () {'',
     ''  const WEIGHT = { title: 10, tag: 5, body: 1 };'',
     ''  const CAP = (typeof BLOGIN_SEARCH_CAP === '' @ [CHR 0x27] @ ''number'' @ [CHR 0x27] @ '') ? BLOGIN_SEARCH_CAP : 10;'',
     [],
     ''  const form = document.querySelector('' @ [CHR 0x27] @ ''[data-blogin-search]'' @ [CHR 0x27] @ '');'',
     ''  if (!form) return;'',
     [],
     ''  const input = form.querySelector('' @ [CHR 0x27] @ ''input'' @ [CHR 0x27] @ '');'',
     ''  const results = document.querySelector('' @ [CHR 0x27] @ ''[data-blogin-results]'' @ [CHR 0x27] @ '');'',
     [],
     ''  // Float the results on <body> so no ancestor stacking context (a card with'',
     ''  // backdrop-filter, a transformed container) can trap them behind the content'',
     ''  // below. Positioned at the input each time they are shown.'',
     ''  if (results && results.parentNode !== document.body) document.body.appendChild(results);'',
     [],
     ''  function place() {'',
     ''    const r = input.getBoundingClientRect();'',
     ''    results.style.top = (r.bottom + 4) + '' @ [CHR 0x27] @ ''px'' @ [CHR 0x27] @ '';'',
     ''    results.style.left = r.left + '' @ [CHR 0x27] @ ''px'' @ [CHR 0x27] @ '';'',
     ''    results.style.width = r.width + '' @ [CHR 0x27] @ ''px'' @ [CHR 0x27] @ '';'',
     ''  }'',
     [],
     ''  let records = [];'',
     ''  fetch('' @ [CHR 0x27] @ ''/search-index.json'' @ [CHR 0x27] @ '').then(function (r) { return r.json(); }).then(function (data) {'',
     ''    records = data;'',
     ''  });'',
     [],
     ''  function tokenize(text) {'',
     ''    return (text.toLowerCase().match(/'' @ [CHR 0x5C] @ ''w+/g) || []);'',
     ''  }'',
     [],
     ''  function wordCount(text, token) {'',
     ''    return tokenize(text).filter(function (w) { return w.indexOf(token) === 0; }).length;'',
     ''  }'',
     [],
     ''  function rank(query) {'',
     ''    const tokens = tokenize(query);'',
     ''    if (!tokens.length) return [];'',
     [],
     ''    const scored = [];'',
     ''    for (const rec of records) {'',
     ''      let score = 0;'',
     ''      for (const t of tokens) {'',
     ''        score += WEIGHT.title * wordCount(rec.title || '' @ [CHR 0x27] @ [CHR 0x27] @ '', t);'',
     ''        score += WEIGHT.tag * (rec.tags || []).map(function (x) { return x.toLowerCase(); })'',
     ''          .filter(function (x) { return x.indexOf(t) === 0; }).length;'',
     ''        score += WEIGHT.body * wordCount(rec.text || '' @ [CHR 0x27] @ [CHR 0x27] @ '', t);'',
     ''      }'',
     ''      if (score > 0) scored.push({ rec: rec, score: score });'',
     ''    }'',
     [],
     ''    scored.sort(function (a, b) {'',
     ''      return (b.score - a.score) || a.rec.title.localeCompare(b.rec.title);'',
     ''    });'',
     [],
     ''    return scored.slice(0, CAP).map(function (s) { return s.rec; });'',
     ''  }'',
     [],
     ''  function snippet(text, tokens) {'',
     ''    const lower = text.toLowerCase();'',
     ''    for (const t of tokens) {'',
     ''      const i = lower.indexOf(t);'',
     ''      if (i >= 0) {'',
     ''        const start = Math.max(0, i - 30);'',
     ''        return (start > 0 ? '' @ [CHR 0x27] @ [CHR 0xE2] @ [CHR 0x80] @ [CHR 0xA6] @ [CHR 0x27] @ '' : '' @ [CHR 0x27] @ [CHR 0x27] @ '') + text.slice(start, i + 60) + '' @ [CHR 0x27] @ [CHR 0xE2] @ [CHR 0x80] @ [CHR 0xA6] @ [CHR 0x27] @ '';'',
     ''      }'',
     ''    }'',
     ''    return text.slice(0, 90);'',
     ''  }'',
     [],
     ''  function render(query) {'',
     ''    results.innerHTML = '' @ [CHR 0x27] @ [CHR 0x27] @ '';'',
     ''    const tokens = tokenize(query);'',
     ''    for (const rec of rank(query)) {'',
     ''      const li = document.createElement('' @ [CHR 0x27] @ ''li'' @ [CHR 0x27] @ '');'',
     [],
     ''      const a = document.createElement('' @ [CHR 0x27] @ ''a'' @ [CHR 0x27] @ '');'',
     ''      a.href = rec.url;'',
     [],
     ''      const title = document.createElement('' @ [CHR 0x27] @ ''span'' @ [CHR 0x27] @ '');'',
     ''      title.className = '' @ [CHR 0x27] @ ''blogin-result-title'' @ [CHR 0x27] @ '';'',
     ''      title.textContent = rec.title;'',
     ''      a.appendChild(title);'',
     [],
     ''      const p = document.createElement('' @ [CHR 0x27] @ ''p'' @ [CHR 0x27] @ '');'',
     ''      p.textContent = snippet(rec.text || '' @ [CHR 0x27] @ [CHR 0x27] @ '', tokens);'',
     ''      a.appendChild(p);'',
     [],
     ''      li.appendChild(a);'',
     ''      results.appendChild(li);'',
     ''    }'',
     ''    if (results.children.length) place();'',
     ''  }'',
     [],
     ''  input.addEventListener('' @ [CHR 0x27] @ ''input'' @ [CHR 0x27] @ '', function () { render(input.value); });'',
     ''  window.addEventListener('' @ [CHR 0x27] @ ''resize'' @ [CHR 0x27] @ '', function () { if (results.children.length) place(); });'',
     ''  window.addEventListener('' @ [CHR 0x27] @ ''scroll'' @ [CHR 0x27] @ '', function () { if (results.children.length) place(); }, true);'',
     ''})();'']"

definition search_css :: string where
  "search_css = text_lines [
     ''[data-blogin-search] {'',
     ''  margin: 0;'',
     ''}'',
     [],
     ''[data-blogin-search] input {'',
     ''  width: 100%;'',
     ''  min-width: 12rem;'',
     ''  box-sizing: border-box;'',
     ''  padding: 0.5rem 0.75rem;'',
     ''  font-size: 1rem;'',
     ''  line-height: 1.5;'',
     ''  color: #212529;'',
     ''  background: #fff;'',
     ''  border: 1px solid #ced4da;'',
     ''  border-radius: 0.5rem;'',
     ''}'',
     [],
     ''[data-blogin-search] input:focus {'',
     ''  outline: none;'',
     ''  border-color: #86b7fe;'',
     ''  box-shadow: 0 0 0 0.25rem rgba(13, 110, 253, 0.25);'',
     ''}'',
     [],
     ''.blogin-search {'',
     ''  position: relative;'',
     ''}'',
     [],
     ''[data-blogin-results]:empty {'',
     ''  display: none;'',
     ''}'',
     [],
     ''[data-blogin-results] {'',
     ''  position: fixed;'',
     ''  z-index: 1050;'',
     ''  margin: 0;'',
     ''  padding: 0;'',
     ''  list-style: none;'',
     ''  max-height: 70vh;'',
     ''  overflow: hidden auto;'',
     ''  background: #fff;'',
     ''  border: 1px solid rgba(0, 0, 0, 0.15);'',
     ''  border-radius: 0.5rem;'',
     ''  box-shadow: 0 0.5rem 1rem rgba(0, 0, 0, 0.15);'',
     ''}'',
     [],
     ''[data-blogin-results] li + li {'',
     ''  border-top: 1px solid #f0f0f0;'',
     ''}'',
     [],
     ''[data-blogin-results] a {'',
     ''  display: block;'',
     ''  padding: 0.5rem 0.75rem;'',
     ''  text-decoration: none;'',
     ''  color: inherit;'',
     ''  overflow-wrap: break-word;'',
     ''}'',
     [],
     ''[data-blogin-results] a:hover {'',
     ''  background: #f6f8fa;'',
     ''}'',
     [],
     ''[data-blogin-results] .blogin-result-title {'',
     ''  display: block;'',
     ''  font-weight: 600;'',
     ''}'',
     [],
     ''[data-blogin-results] p {'',
     ''  margin: 0.25rem 0 0;'',
     ''  font-size: 0.8125rem;'',
     ''  color: #6c757d;'',
     ''}'']"

definition content_css :: string where
  "content_css = markup_css @ [CHR 0x0A] @ theme_css @ [CHR 0x0A] @ navbar_css"

definition search_script :: "int \<Rightarrow> string" where
  "search_script cap = ''const BLOGIN_SEARCH_CAP = '' @ format_int cap @ '';'' @ [CHR 0x0A] @ search_js"

end
