(* ===== verification/AssetPlans.thy ===== *)
theory AssetPlans
  imports Assets BuildStates Config Sites Stylesheets
begin

text \<open>
  The plan of a site's assets (\<open>plan_assets\<close> of \<open>site.cpp\<close>): which files go under \<open>assets/\<close>, under which
  names, and what pages have to be told about them. The resizer is a program of the machine: \<open>measure\<close> and
  \<open>resized\<close> say what it answers for the bytes of an image. The files come in the order of their paths, a
  file of the site in place of the theme's.
\<close>

record candidate =
  ca_relative :: string
  ca_content :: string
  ca_size :: nat
  ca_modified :: int
  ca_width :: int
  ca_from_disk :: bool

record planned_asset =
  as_destination :: string
  as_content :: string
  as_reused :: bool
  as_source :: string

record asset_plan =
  ap_assets :: "planned_asset list"
  ap_manifest :: "(string \<times> string) list"
  ap_srcsets :: "(string \<times> string) list"
  ap_warnings :: "string list"
  ap_copies :: "(string \<times> source_state) list"
  ap_placed :: "string list"
  ap_widths :: "(string \<times> int) list"

text \<open>The program that resizes: its width of an image, zero when it cannot read it, and the image at a width.\<close>

record resizer_tool =
  rt_measure :: "string \<Rightarrow> int"
  rt_resized :: "string \<Rightarrow> int \<Rightarrow> string option"

section \<open>Names\<close>

definition is_stylesheet :: "string \<Rightarrow> bool" where
  "is_stylesheet path \<longleftrightarrow> to_lower_ascii (path_extension path) = ''.css''"

definition minified :: "config \<Rightarrow> string \<Rightarrow> string \<Rightarrow> string" where
  "minified c path content =
     (if \<not> cf_minify c then content
      else if is_stylesheet path then minify_css content
      else if to_lower_ascii (path_extension path) = ''.js'' then minify_js content
      else content)"

definition sibling_name :: "string \<Rightarrow> string \<Rightarrow> string" where
  "sibling_name path name = take (length path - length (file_name path)) path @ name"

definition asset_url :: "string \<Rightarrow> string" where
  "asset_url relative = ''/assets/'' @ relative"

text \<open>\<open>lexically_relative("/")\<close>, which is empty for a path that does not start at the root.\<close>

definition without_root :: "string \<Rightarrow> string" where
  "without_root path = (if starts_with path ''/'' then tl path else [])"

definition bytes_of :: "source_file \<Rightarrow> string" where
  "bytes_of f = (case sf_bytes f of None \<Rightarrow> [] | Some bytes \<Rightarrow> bytes)"

section \<open>Carrying an asset over\<close>

definition recorded_variants :: "source_state \<Rightarrow> (string \<times> string) list" where
  "recorded_variants s =
     map (\<lambda>variant. (as_string (get_member variant ''url'') [], as_string (get_member variant ''output'') []))
       (items (get_member (ss_metadata s) ''variants''))"

definition asset_stamped :: "bool \<Rightarrow> build_state \<Rightarrow> source_file \<Rightarrow> source_state option" where
  "asset_stamped force before f =
     (case map_of (bs_copies before) (sf_key f) of
        Some s \<Rightarrow> if \<not> force \<and> \<not> is_stylesheet (sf_key f) \<and> ss_size s = sf_size f \<and> ss_modified s = sf_modified f then Some s else None
      | None \<Rightarrow> None)"

text \<open>A path that is empty names the output directory, which is there.\<close>

definition on_output :: "disk \<Rightarrow> string \<Rightarrow> bool" where
  "on_output d path \<longleftrightarrow> without_root path = [] \<or> d (without_root path) \<noteq> None"

definition asset_unchanged :: "bool \<Rightarrow> build_state \<Rightarrow> disk \<Rightarrow> source_file \<Rightarrow> source_state option" where
  "asset_unchanged force before d f =
     (case asset_stamped force before f of
        None \<Rightarrow> None
      | Some s \<Rightarrow>
          if list_all (\<lambda>(url, written). on_output d written) (recorded_variants s) \<and>
             (settled before s \<or> content_hash (bytes_of f) = ss_hash s)
          then Some s else None)"

definition note_renamed :: "string \<Rightarrow> string \<Rightarrow> asset_plan \<Rightarrow> asset_plan" where
  "note_renamed url written plan = (if written = url then plan else plan\<lparr>ap_manifest := emplace url written (ap_manifest plan)\<rparr>)"

definition carry_variant :: "string \<times> string \<Rightarrow> asset_plan \<Rightarrow> asset_plan" where
  "carry_variant variant plan =
     (case variant of (url, written) \<Rightarrow>
        (let plan1 = note_renamed url written (plan\<lparr>ap_placed := url # ap_placed plan\<rparr>) in
         plan1\<lparr>ap_assets := ap_assets plan1 @
           [\<lparr>as_destination = without_root written, as_content = [], as_reused = True, as_source = []\<rparr>]\<rparr>))"

definition carry_asset :: "source_file \<Rightarrow> source_state \<Rightarrow> asset_plan \<Rightarrow> asset_plan" where
  "carry_asset f s plan =
     (let url = asset_url (sf_key f);
          plan1 = note_renamed url (ss_output s) plan;
          plan2 = plan1\<lparr>ap_assets := ap_assets plan1 @
            [\<lparr>as_destination = without_root (ss_output s), as_content = [], as_reused = True, as_source = bytes_of f\<rparr>]\<rparr>;
          plan3 = fold carry_variant (recorded_variants s) plan2;
          plan4 = plan3\<lparr>ap_copies := emplace (sf_key f) s (ap_copies plan3)\<rparr>
      in case get_member (ss_metadata s) ''width'' of
           VInteger i \<Rightarrow> plan4\<lparr>ap_widths := emplace url (to_int i) (ap_widths plan4)\<rparr>
         | _ \<Rightarrow> plan4)"

section \<open>Reading an asset\<close>

definition resize_variants :: "config \<Rightarrow> resizer_tool \<Rightarrow> source_file \<Rightarrow> candidate list" where
  "resize_variants c tool f =
     List.map_filter (\<lambda>width.
         map_option (\<lambda>bytes. \<lparr>ca_relative = sibling_name (sf_key f) (variant_name (file_name (sf_key f)) width), ca_content = bytes,
             ca_size = 0, ca_modified = 0, ca_width = 0, ca_from_disk = False\<rparr>) (rt_resized tool (bytes_of f) width))
       (sort (filter (\<lambda>width. width < rt_measure tool (bytes_of f)) (cf_image_widths c)))"

text \<open>What a file gives: stylesheets apart from the rest, its variants before it.\<close>

definition read_asset ::
  "config \<Rightarrow> resizer_tool option \<Rightarrow> source_file \<Rightarrow> asset_plan \<times> candidate list \<times> candidate list \<Rightarrow> asset_plan \<times> candidate list \<times> candidate list" where
  "read_asset c tool f st =
     (case st of (plan, sheets, others) \<Rightarrow>
        (let resizable = (case tool of Some t \<Rightarrow> is_raster (sf_key f) | None \<Rightarrow> False);
             width = (if resizable then rt_measure (the tool) (bytes_of f) else 0);
             variants = (if resizable \<and> 0 < width then resize_variants c (the tool) f else []);
             plan1 = (if 0 < width then plan\<lparr>ap_widths := emplace (asset_url (sf_key f)) width (ap_widths plan)\<rparr> else plan);
             one = \<lparr>ca_relative = sf_key f, ca_content = minified c (sf_key f) (bytes_of f), ca_size = sf_size f,
               ca_modified = sf_modified f, ca_width = (if 0 < width then width else 0), ca_from_disk = True\<rparr>
         in if is_stylesheet (sf_key f) then (plan1, sheets @ [one], others @ variants)
            else (plan1, sheets, others @ variants @ [one])))"

definition take_asset ::
  "config \<Rightarrow> resizer_tool option \<Rightarrow> bool \<Rightarrow> build_state \<Rightarrow> disk \<Rightarrow> source_file \<Rightarrow>
   asset_plan \<times> candidate list \<times> candidate list \<Rightarrow> asset_plan \<times> candidate list \<times> candidate list" where
  "take_asset c tool force before d f st =
     (case asset_unchanged force before d f of
        Some s \<Rightarrow> (carry_asset f s (fst st), snd st)
      | None \<Rightarrow> read_asset c tool f st)"

definition generated :: "config \<Rightarrow> string \<Rightarrow> string \<Rightarrow> candidate" where
  "generated c name content =
     \<lparr>ca_relative = name, ca_content = minified c name content, ca_size = 0, ca_modified = 0, ca_width = 0, ca_from_disk = False\<rparr>"

section \<open>Placing\<close>

definition place_asset :: "config \<Rightarrow> int \<Rightarrow> candidate \<Rightarrow> asset_plan \<Rightarrow> asset_plan" where
  "place_asset c started one plan =
     (let url = asset_url (ca_relative one); renames = (cf_fingerprint c \<and> is_fingerprintable (ca_relative one));
          written = (if renames then asset_url (sibling_name (ca_relative one)
              (fingerprint_name (file_name (ca_relative one)) (content_hash (ca_content one)))) else url);
          plan1 = plan\<lparr>ap_placed := url # ap_placed plan,
            ap_manifest := (if renames then emplace url written (ap_manifest plan) else ap_manifest plan)\<rparr>;
          entry = \<lparr>ss_size = ca_size one, ss_modified = ca_modified one,
            ss_hash = (if started \<le> ca_modified one then content_hash (ca_content one) else []), ss_output = written,
            ss_metadata = (if 0 < ca_width one then VObject [(''width'', VInteger (ca_width one))] else VNull)\<rparr>;
          plan2 = (if ca_from_disk one then plan1\<lparr>ap_copies := put_entry (ca_relative one) entry (ap_copies plan1)\<rparr> else plan1)
      in plan2\<lparr>ap_assets := ap_assets plan2 @
           [\<lparr>as_destination = tl written, as_content = ca_content one, as_reused = False, as_source = []\<rparr>]\<rparr>)"

text \<open>The references of a stylesheet are rewritten before it is named.\<close>

definition place_stylesheet :: "config \<Rightarrow> int \<Rightarrow> candidate \<Rightarrow> asset_plan \<Rightarrow> asset_plan" where
  "place_stylesheet c started one plan =
     place_asset c started (one\<lparr>ca_content := rewrite_refs (ca_content one) (ap_manifest plan)\<rparr>) plan"

section \<open>Sizes of an image\<close>

definition variants_of :: "config \<Rightarrow> asset_plan \<Rightarrow> string \<Rightarrow> int \<Rightarrow> (string \<times> int) list" where
  "variants_of c plan relative width =
     List.map_filter (\<lambda>w.
         (let url = asset_url (sibling_name relative (variant_name (file_name relative) w))
          in if w < width \<and> url \<in> set (ap_placed plan) then Some (url, w) else None))
       (cf_image_widths c)"

definition variant_record :: "asset_plan \<Rightarrow> string \<times> int \<Rightarrow> jvalue" where
  "variant_record plan variant =
     VObject [(''url'', VString (fst variant)),
       (''output'', VString (case map_of (ap_manifest plan) (fst variant) of None \<Rightarrow> fst variant | Some url \<Rightarrow> url))]"

definition add_sizes :: "config \<Rightarrow> string \<times> int \<Rightarrow> asset_plan \<Rightarrow> asset_plan" where
  "add_sizes c original plan =
     (let (url, width) = original; relative = drop (length ''/assets/'') url; found = variants_of c plan relative width in
      if found = [] then plan
      else
        (let plan1 = plan\<lparr>ap_srcsets := emplace url (srcset_value url width found) (ap_srcsets plan)\<rparr> in
         case map_of (ap_copies plan1) relative of
           None \<Rightarrow> plan1
         | Some entry \<Rightarrow>
             plan1\<lparr>ap_copies := put_entry relative
               (entry\<lparr>ss_metadata := set_member (ss_metadata entry) ''variants'' (VArray (map (variant_record plan) found))\<rparr>) (ap_copies plan1)\<rparr>))"

section \<open>The plan\<close>

definition no_resizer_warning :: string where
  "no_resizer_warning = ''responsive images were requested but no image resizer (ImageMagick or sips) was found''"

definition empty_plan :: "string list \<Rightarrow> asset_plan" where
  "empty_plan warnings =
     \<lparr>ap_assets = [], ap_manifest = [], ap_srcsets = [], ap_warnings = warnings, ap_copies = [], ap_placed = [], ap_widths = []\<rparr>"

definition plan_assets ::
  "config \<Rightarrow> resizer_tool option \<Rightarrow> bool \<Rightarrow> build_state \<Rightarrow> int \<Rightarrow> disk \<Rightarrow> source_file list \<Rightarrow> asset_plan" where
  "plan_assets c machine force before started d files =
     (let wanted = (cf_image_widths c \<noteq> []); tool = (if wanted then machine else None);
          start = empty_plan (if wanted \<and> machine = None then [no_resizer_warning] else []);
          (plan, sheets, others) = fold (take_asset c tool force before d) files (start, [], []);
          others' = others @ (if cf_search c then [generated c ''js/search.js'' (search_script (cf_search_cap c))] else []) @
            [generated c ''css/blogin.css'' content_css];
          sheets' = sheets @ (if cf_search c then [generated c ''css/search.css'' search_css] else []);
          placed = fold (place_stylesheet c started) sheets' (fold (place_asset c started) others' plan)
      in fold (add_sizes c) (sort_key fst (ap_widths placed)) placed)"

end
