(* ===== verification/SiteBuild.thy ===== *)
theory SiteBuild
  imports SitePages AssetPlans
begin

text \<open>
  A build from its sources to what it leaves on disk (\<open>build\<close> of \<open>site.cpp\<close>): the page for a missing
  url, the redirects of old urls, what is remembered for the next build, and the steps in their order.
  The static files come in the order of the paths they are published under, one file for a path.
\<close>

section \<open>The page for a missing url\<close>

definition write_not_found :: "build_input \<Rightarrow> bool \<Rightarrow> produced \<Rightarrow> produced build_step" where
  "write_not_found b has_pages made =
     (if ''404.html'' \<in> set (bi_shipped b) then Built made
      else
        (case find_template (bi_store b) ''404'' [] of
           None \<Rightarrow> Built (add_file ''404.html'' not_found_html made)
         | Some layout \<Rightarrow>
             (let chrome = (chrome_for b has_pages [])\<lparr>ch_url := bi_url_prefix b @ ''/404'', ch_noindex := True\<rparr> in
              case render_layout b [] layout (build_listing_view (bi_stray b) (plain_listing chrome [] [] [])) (pr_cache made) of
                (r, cache) \<Rightarrow> bind_step r (\<lambda>html. Built (add_file ''404.html'' html (made\<lparr>pr_cache := cache\<rparr>))))))"

section \<open>Redirects\<close>

text \<open>Every alias of every page, in order, with the page's url.\<close>

definition page_aliases :: "page list \<Rightarrow> (string \<times> string) list" where
  "page_aliases pages = concat (map (\<lambda>pg. map (\<lambda>alias. (alias, pg_url pg)) (po_aliases (pg_post pg))) pages)"

definition alias_warning :: "string \<Rightarrow> string \<Rightarrow> string \<Rightarrow> string" where
  "alias_warning alias first_url second_url =
     ''alias '' @ in_quotes alias @ '' is claimed by both '' @ in_quotes first_url @ '' and '' @ in_quotes second_url @
     '', so it points at the first''"

text \<open>The redirects to write, by file, and what is said of those a first page has claimed.\<close>

fun redirects :: "bool \<Rightarrow> string list \<Rightarrow> (string \<times> string) list \<Rightarrow> (string \<times> string) list \<Rightarrow> (string \<times> string) list \<times> string list" where
  "redirects clean_urls taken owners [] = ([], [])"
| "redirects clean_urls taken owners ((alias, url) # aliases) =
     (let key = url_to_file alias clean_urls in
      if key \<in> set taken then redirects clean_urls taken owners aliases
      else
        (case map_of owners key of
           Some first_url \<Rightarrow>
             (let (files, warnings) = redirects clean_urls taken owners aliases in (files, alias_warning alias first_url url # warnings))
         | None \<Rightarrow>
             (let (files, warnings) = redirects clean_urls taken (owners @ [(key, url)]) aliases in ((key, redirect_html url) # files, warnings))))"

section \<open>What is remembered\<close>

definition source_entry :: "int \<Rightarrow> page \<times> source_file \<Rightarrow> string \<times> source_state" where
  "source_entry started entry =
     (case entry of (pg, f) \<Rightarrow>
        (sf_key f,
         \<lparr>ss_size = sf_size f, ss_modified = sf_modified f,
          ss_hash = (if started \<le> sf_modified f then content_hash (case sf_bytes f of None \<Rightarrow> [] | Some bytes \<Rightarrow> bytes) else []),
          ss_output = pg_output pg, ss_metadata = metadata_of pg\<rparr>))"

text \<open>A page that was read is remembered anew; the others stay as they were.\<close>

definition new_sources :: "int \<Rightarrow> build_state \<Rightarrow> (page \<times> source_file) list \<Rightarrow> (string \<times> source_state) list" where
  "new_sources started before entries =
     List.map_filter (\<lambda>entry.
       if pg_parsed (fst entry) then Some (source_entry started entry)
       else map_option (Pair (sf_key (snd entry))) (known_source before (snd entry))) entries"

section \<open>The pages of a build\<close>

definition page_filter_of :: "build_input \<Rightarrow> (string \<Rightarrow> string) option" where
  "page_filter_of b =
     (if bi_manifest b = [] \<and> bi_srcsets b = [] then None
      else Some (\<lambda>page. rewrite_refs (add_srcset page (bi_srcsets b)) (bi_manifest b)))"

text \<open>Whether the last build's pages may be taken over.\<close>

definition may_reuse :: "bool \<Rightarrow> build_state \<Rightarrow> string \<Rightarrow> bool" where
  "may_reuse force before fingerprint \<longleftrightarrow> \<not> force \<and> bs_fingerprint before \<noteq> [] \<and> bs_fingerprint before = fingerprint"

text \<open>Everything outside the content: the configuration, the files, the names of the assets in order, the default image.\<close>

definition build_fingerprint :: "build_input \<Rightarrow> (string \<times> string) list \<Rightarrow> string" where
  "build_fingerprint b files =
     content_hash
       (global_fingerprint (bi_config b) files @ concat (map (\<lambda>(url, renamed). url @ renamed) (sort_key fst (bi_manifest b))) @
        share_image_key (fst (resolve_image b (cf_image (bi_config b)))))"

text \<open>From the sources to pages that are ready to be rendered.\<close>

definition ready_pages ::
  "build_input \<Rightarrow> build_state \<Rightarrow> bool \<Rightarrow> source_file list \<Rightarrow> writer \<times> disk \<Rightarrow>
   ((page \<times> source_file) list \<times> (string \<times> string) list \<times> writer \<times> disk) build_step" where
  "ready_pages b before reuse files wd =
     (let on_disk = (\<lambda>path. reusable path wd) in
      bind_step (collect_pages b on_disk (if reuse then Some before else None) [] files) (\<lambda>(found, seen).
      bind_step (each_step (reread_moved on_disk before) (with_pages (link_pages \<circ> map (with_share_image b)) found)) (\<lambda>linked.
      bind_step (each_step (prepare_entry b) linked) (\<lambda>prepared.
      bind_step (keep_settled b before (with_pages (relate_pages b) prepared) wd) (\<lambda>(entries, wd').
        Built (entries, seen, wd'))))))"

definition write_all :: "build_input \<Rightarrow> (string \<times> string) list \<Rightarrow> writer \<times> disk \<Rightarrow> writer \<times> disk" where
  "write_all b files wd = fold (\<lambda>(path, content). write_file (page_filter_of b) path content) files wd"

text \<open>Listings, taxonomies, feeds, the index, the page for a missing url and the redirects, with the warnings.\<close>

definition derived_files :: "build_input \<Rightarrow> page list \<Rightarrow> (string \<times> string) list \<Rightarrow> fragment_cache \<Rightarrow> (produced \<times> string list) build_step" where
  "derived_files b pages seen cache =
     (let has_pages = (pages \<noteq> []);
          none = \<lparr>pr_files = [], pr_locations = page_locations b pages, pr_listings = 0, pr_cache = cache\<rparr> in
      bind_step (all_steps (write_listing b has_pages) (map section_listing (sections_of pages) @ home_listing b pages) none) (\<lambda>made1.
      bind_step (all_steps (write_taxonomy b pages) (cf_taxonomies (bi_config b)) made1) (\<lambda>made2.
      bind_step (write_not_found b has_pages (write_site_files b pages made2)) (\<lambda>made3.
        (let (files, warnings) = redirects (cf_clean_urls (bi_config b)) (map fst seen) [] (page_aliases pages)
         in Built (made3\<lparr>pr_files := pr_files made3 @ files\<rparr>, warnings))))))"

text \<open>The files of the last build are kept when nothing was read; one that is gone stops the build.\<close>

fun keep_derived :: "string list \<Rightarrow> writer \<times> disk \<Rightarrow> (writer \<times> disk) build_step" where
  "keep_derived [] wd = Built wd"
| "keep_derived (path # paths) wd =
     (case keep path wd of
        (True, wd') \<Rightarrow> keep_derived paths wd'
      | (False, wd') \<Rightarrow> Stopped (config_error (''cannot reuse '' @ in_quotes path @ ''. Build with --force'')))"

record build_result =
  br_pages :: "page list"
  br_state :: build_state
  br_warnings :: "string list"

definition build_pages ::
  "build_input \<Rightarrow> build_state \<Rightarrow> bool \<Rightarrow> string \<Rightarrow> int \<Rightarrow> source_file list \<Rightarrow> writer \<times> disk \<Rightarrow> (build_result \<times> writer \<times> disk) build_step" where
  "build_pages b before reuse fingerprint started files wd =
     bind_step (ready_pages b before reuse files wd) (\<lambda>(entries, seen, wd1).
     (let pages = map fst entries; sources = new_sources started before entries;
          state = (\<lambda>derived listings. \<lparr>bs_fingerprint = fingerprint, bs_sources = sources, bs_derived = derived,
            bs_listings = listings, bs_copies = [], bs_started = started\<rparr>) in
      bind_step (render_pages b (pages \<noteq> []) pages empty_cache) (\<lambda>(rendered, cache).
      (let wd2 = write_all b rendered wd1; start = mark (fst wd2) in
       if reuse \<and> filter pg_parsed pages = [] \<and> length sources = length (bs_sources before) then
         bind_step (keep_derived (bs_derived before) wd2) (\<lambda>wd3.
           Built (\<lparr>br_pages = pages, br_state = state (bs_derived before) (bs_listings before), br_warnings = []\<rparr>, wd3))
       else
         bind_step (derived_files b pages seen cache) (\<lambda>(made, warnings).
           (let wd3 = write_all b (pr_files made) wd2 in
            Built (\<lparr>br_pages = pages, br_state = state (since (fst wd3) start) (int (pr_listings made)), br_warnings = warnings\<rparr>, wd3)))))))"

section \<open>Static files and assets\<close>

definition copied_entry :: "int \<Rightarrow> source_file \<Rightarrow> source_state" where
  "copied_entry started f =
     \<lparr>ss_size = sf_size f, ss_modified = sf_modified f, ss_hash = (if started \<le> sf_modified f then content_hash (bytes_of f) else []),
      ss_output = [], ss_metadata = VNull\<rparr>"

text \<open>A file whose stamp is the last build's is kept unread; every other one is copied.\<close>

definition copy_file ::
  "build_input \<Rightarrow> bool \<Rightarrow> build_state \<Rightarrow> int \<Rightarrow> source_file \<Rightarrow> (string \<times> source_state) list \<times> writer \<times> disk \<Rightarrow>
   (string \<times> source_state) list \<times> writer \<times> disk" where
  "copy_file b force before started f st =
     (let (copies, wd) = st;
          anew = (\<lambda>wd'. (put_entry (sf_key f) (copied_entry started f) copies, write_file (page_filter_of b) (sf_key f) (bytes_of f) wd'))
      in case map_of (bs_copies before) (sf_key f) of
           None \<Rightarrow> anew wd
         | Some s \<Rightarrow>
             if \<not> force \<and> ss_size s = sf_size f \<and> ss_modified s = sf_modified f \<and>
                (settled before s \<or> content_hash (bytes_of f) = ss_hash s)
             then (case keep (sf_key f) wd of (True, wd') \<Rightarrow> (emplace (sf_key f) s copies, wd') | (False, wd') \<Rightarrow> anew wd')
             else anew wd)"

definition write_asset :: "build_input \<Rightarrow> planned_asset \<Rightarrow> writer \<times> disk \<Rightarrow> writer \<times> disk" where
  "write_asset b asset wd =
     (if as_reused asset then
        (case keep (as_destination asset) wd of
           (True, wd') \<Rightarrow> wd'
         | (False, wd') \<Rightarrow> write_file (page_filter_of b) (as_destination asset) (as_source asset) wd')
      else write_file (page_filter_of b) (as_destination asset) (as_content asset) wd)"

section \<open>A whole build\<close>

text \<open>What a machine has beside the content of a site.\<close>

record site_files =
  sx_sources :: "source_file list"
  sx_static :: "source_file list"
  sx_assets :: "source_file list"
  sx_fingerprinted :: "(string \<times> string) list"
  sx_resizer :: "resizer_tool option"

definition clash_error :: "string list \<Rightarrow> parse_error" where
  "clash_error clashing =
     config_error (''two different results were written to '' @ in_quotes (hd clashing) @
       (if 1 < length clashing then '' (and '' @ format_nat (length clashing - 1) @ '' more)'' else []))"

text \<open>What the build is told by the plan of its assets.\<close>

definition with_plan :: "asset_plan \<Rightarrow> site_files \<Rightarrow> build_input \<Rightarrow> build_input" where
  "with_plan plan files b =
     b\<lparr>bi_manifest := ap_manifest plan, bi_srcsets := ap_srcsets plan, bi_shipped := map sf_key (sx_static files)\<rparr>"

text \<open>
  The last build's state and manifest are read from the disk, and what the build leaves is there
  afterwards. A build that stops has written what it had got to; the step does not say what, so the disk
  is only given when it ends. A loaded state is \<open>None\<close> when it has a number no integer holds.
\<close>

definition build_on_disk :: "build_input \<Rightarrow> bool \<Rightarrow> int \<Rightarrow> site_files \<Rightarrow> disk \<Rightarrow> (build_result \<times> disk) build_step" where
  "build_on_disk input force started files d =
     (case load_state (file_text d state_name) of
        None \<Rightarrow> Undefined_Step
      | Some before \<Rightarrow>
          (let plan = plan_assets (bi_config input) (sx_resizer files) force before started d (sx_assets files);
               b = with_plan plan files input;
               fingerprint = build_fingerprint b (sx_fingerprinted files) in
           bind_step (build_pages b before (may_reuse force before fingerprint) fingerprint started (sx_sources files)
               (load_manifest d (new_writer force), d)) (\<lambda>(result, wd).
             (let (copies, wd1) = fold (copy_file b force before started) (sx_static files) (ap_copies plan, wd);
                  wd2 = fold (write_asset b) (ap_assets plan) wd1;
                  state = (br_state result)\<lparr>bs_copies := copies\<rparr> in
              case finish_site (save_state state) wd2 of
                (Inl clashing, d') \<Rightarrow> Stopped (clash_error clashing)
              | (Inr w, d') \<Rightarrow>
                  Built (result\<lparr>br_state := state, br_warnings := ap_warnings plan @ br_warnings result\<rparr>, d')))))"

end
