(* ===== verification/PageProps.thy ===== *)
theory PageProps
  imports Pages "HOL-Library.Multiset"
begin

text \<open>
  What holds of the pages of a site: sorting keeps them all, every page gets the neighbours its section
  gives it, related posts share terms, and a page is remembered as it was.
\<close>

section \<open>Sorting\<close>

lemma mset_insert_by [simp]: "mset (insert_by earlier x ys) = add_mset x (mset ys)"
  by (induction ys) auto

lemma mset_stable_sort [simp]: "mset (stable_sort earlier xs) = mset xs"
  by (induction xs) (auto simp: stable_sort_def)

lemma set_stable_sort [simp]: "set (stable_sort earlier xs) = set xs"
  by (metis mset_stable_sort set_mset_mset)

lemma distinct_stable_sort [simp]: "distinct (stable_sort earlier xs) = distinct xs"
  by (metis mset_stable_sort mset_eq_imp_distinct_iff)

lemma length_stable_sort [simp]: "length (stable_sort earlier xs) = length xs"
  by (metis mset_stable_sort size_mset)

lemma insert_by_cong:
  "(\<And>y. y \<in> set ys \<Longrightarrow> earlier y x = earlier' y x) \<Longrightarrow> insert_by earlier x ys = insert_by earlier' x ys"
  by (induction ys) auto

lemma stable_sort_cong:
  "(\<And>x y. x \<in> set xs \<Longrightarrow> y \<in> set xs \<Longrightarrow> earlier x y = earlier' x y) \<Longrightarrow> stable_sort earlier xs = stable_sort earlier' xs"
proof (induction xs)
  case (Cons x xs)
  have "stable_sort earlier xs = stable_sort earlier' xs"
    by (rule Cons.IH) (simp add: Cons.prems)
  then show ?case
    using insert_by_cong [of "stable_sort earlier' xs" earlier x earlier'] Cons.prems
    by (auto simp: stable_sort_def [of _ "x # xs"] simp flip: stable_sort_def)
qed (simp add: stable_sort_def)

section \<open>Neighbours\<close>

text \<open>What stands before and after an index in a list.\<close>

fun around :: "nat option \<Rightarrow> nat list \<Rightarrow> nat \<Rightarrow> nat option \<times> nat option" where
  "around before [] i = (None, None)"
| "around before (j # rest) i =
     (if j = i then (before, case rest of [] \<Rightarrow> None | k # _ \<Rightarrow> Some k) else around (Some j) rest i)"

text \<open>What a neighbour is known by.\<close>

definition known_by :: "page \<Rightarrow> string \<times> string" where
  "known_by pg = (pg_url pg, po_title (pg_post pg))"

definition with_known :: "(string \<times> string) option \<Rightarrow> (string \<times> string) option \<Rightarrow> page \<Rightarrow> page" where
  "with_known before after pg =
     (let pg1 = (case before of None \<Rightarrow> pg | Some (url, title) \<Rightarrow> pg\<lparr>pg_previous_url := url, pg_previous_title := title\<rparr>)
      in case after of None \<Rightarrow> pg1 | Some (url, title) \<Rightarrow> pg1\<lparr>pg_next_url := url, pg_next_title := title\<rparr>)"

lemma with_neighbours_known: "with_neighbours x y pg = with_known (map_option known_by x) (map_option known_by y) pg"
  by (cases x; cases y) (simp_all add: with_neighbours_def with_known_def known_by_def)

lemma with_neighbours_cong:
  "map_option known_by x = map_option known_by x' \<Longrightarrow> map_option known_by y = map_option known_by y' \<Longrightarrow>
   with_neighbours x y pg = with_neighbours x' y' pg"
  by (simp add: with_neighbours_known)

lemma known_by_with_neighbours [simp]: "known_by (with_neighbours x y pg) = known_by pg"
  by (cases x; cases y) (auto simp: with_neighbours_def known_by_def)

lemma section_with_neighbours [simp]: "pg_section (with_neighbours x y pg) = pg_section pg"
  by (cases x; cases y) (auto simp: with_neighbours_def)

lemma length_link_members [simp]: "length (link_members before ms pages) = length pages"
  by (induction ms arbitrary: before pages) (auto simp: Let_def)

definition neighbours_of :: "page list \<Rightarrow> nat option \<Rightarrow> nat list \<Rightarrow> nat \<Rightarrow> page \<Rightarrow> page" where
  "neighbours_of pages before ms i pg =
     with_neighbours (map_option ((!) pages) (fst (around before ms i))) (map_option ((!) pages) (snd (around before ms i))) pg"

lemma neighbours_of_cong:
  "(\<And>j. known_by (pages ! j) = known_by (pages' ! j)) \<Longrightarrow> neighbours_of pages before ms i pg = neighbours_of pages' before ms i pg"
  unfolding neighbours_of_def by (rule with_neighbours_cong) (auto simp: option.map_comp o_def)

lemma known_by_neighbours_of [simp]: "known_by (neighbours_of pages before ms i pg) = known_by pg"
  by (simp add: neighbours_of_def)

lemma known_by_update_all:
  "known_by (pages[i := with_neighbours x y (pages ! i)] ! j) = known_by (pages ! j)"
proof (cases "i < length pages")
  case True
  then show ?thesis
    by (cases "i = j") auto
qed (simp add: not_less list_update_beyond)

lemma link_members_nth:
  assumes "distinct ms" "set ms \<subseteq> {..<length pages}"
  shows "link_members before ms pages ! i = (if i \<in> set ms then neighbours_of pages before ms i (pages ! i) else pages ! i)"
  using assms
proof (induction ms arbitrary: before pages)
  case (Cons m ms)
  define pages' where "pages' = pages[m := with_neighbours (map_option ((!) pages) before)
      (map_option ((!) pages) (case ms of [] \<Rightarrow> None | j # _ \<Rightarrow> Some j)) (pages ! m)]"
  have unfold: "link_members before (m # ms) pages = link_members (Some m) ms pages'"
    by (simp add: pages'_def Let_def)
  have same: "known_by (pages' ! j) = known_by (pages ! j)" for j
    by (simp add: pages'_def known_by_update_all)
  have IH: "link_members (Some m) ms pages' ! i =
      (if i \<in> set ms then neighbours_of pages' (Some m) ms i (pages' ! i) else pages' ! i)"
    using Cons.prems by (intro Cons.IH) (auto simp: pages'_def)
  have m: "m < length pages"
    using Cons.prems(2) by simp
  have rest: "neighbours_of pages' (Some m) ms i pg = neighbours_of pages (Some m) ms i pg" for pg
    by (rule neighbours_of_cong) (rule same)
  show ?case
  proof (cases "i = m")
    case True
    then show ?thesis
      using Cons.prems m IH unfold by (simp add: pages'_def neighbours_of_def)
  next
    case False
    then have "pages' ! i = pages ! i"
      by (simp add: pages'_def)
    moreover have "neighbours_of pages before (m # ms) i = neighbours_of pages (Some m) ms i"
      using False by (intro ext) (simp add: neighbours_of_def)
    ultimately show ?thesis
      using False unfold IH rest by auto
  qed
qed simp

lemma set_section_members: "i \<in> set (section_members pages sect) \<longleftrightarrow> i < length pages \<and> pg_section (pages ! i) = sect"
  by (auto simp: section_members_def)

lemma distinct_section_members [simp]: "distinct (section_members pages sect)"
  by (simp add: section_members_def)

lemma link_sections_nth:
  assumes "distinct sects" "length acc = length pages" "\<And>j. known_by (acc ! j) = known_by (pages ! j)" "i < length pages"
  shows "fold (\<lambda>sect. link_members None (section_members pages sect)) sects acc ! i =
    (if pg_section (pages ! i) \<in> set sects
     then neighbours_of pages None (section_members pages (pg_section (pages ! i))) i (acc ! i) else acc ! i)"
  using assms
proof (induction sects arbitrary: acc)
  case (Cons sect sects)
  define acc' where "acc' = link_members None (section_members pages sect) acc"
  have within: "set (section_members pages sect) \<subseteq> {..<length acc}"
    using Cons.prems(2) by (auto simp: set_section_members)
  have nth: "acc' ! j = (if j \<in> set (section_members pages sect) then neighbours_of acc None (section_members pages sect) j (acc ! j) else acc ! j)" for j
    unfolding acc'_def by (rule link_members_nth [OF distinct_section_members within])
  have known: "known_by (acc' ! j) = known_by (pages ! j)" for j
    using Cons.prems(3) by (simp add: nth)
  have IH: "fold (\<lambda>sect. link_members None (section_members pages sect)) sects acc' ! i =
      (if pg_section (pages ! i) \<in> set sects
       then neighbours_of pages None (section_members pages (pg_section (pages ! i))) i (acc' ! i) else acc' ! i)"
    using Cons.prems known by (intro Cons.IH) (auto simp: acc'_def)
  have swap: "neighbours_of acc None ms i pg = neighbours_of pages None ms i pg" for ms pg
    by (rule neighbours_of_cong) (rule Cons.prems(3))
  show ?case
    using Cons.prems IH
    by (cases "pg_section (pages ! i) = sect") (auto simp: acc'_def [symmetric] nth set_section_members swap)
qed simp

lemma link_pages_nth:
  assumes "i < length pages"
  shows "link_pages pages ! i = neighbours_of pages None (section_members pages (pg_section (pages ! i))) i (pages ! i)"
proof -
  have "pg_section (pages ! i) \<in> set (sort (remdups (map pg_section pages)))"
    using assms by simp
  then show ?thesis
    using link_sections_nth [of "sort (remdups (map pg_section pages))" pages pages i] assms
    by (simp add: link_pages_def)
qed

lemma length_link_pages [simp]: "length (link_pages pages) = length pages"
proof -
  have "length (fold (\<lambda>sect. link_members None (section_members pages sect)) sects acc) = length acc" for sects acc
    by (induction sects arbitrary: acc) auto
  then show ?thesis
    by (simp add: link_pages_def)
qed

lemma around_nth:
  assumes "distinct ms" "k < length ms"
  shows "around before ms (ms ! k) =
    (if k = 0 then before else Some (ms ! (k - 1)), if Suc k < length ms then Some (ms ! Suc k) else None)"
  using assms
proof (induction ms arbitrary: before k)
  case (Cons m ms)
  show ?case
  proof (cases k)
    case 0
    then show ?thesis
      by (cases ms) auto
  next
    case (Suc l)
    then have "m \<noteq> ms ! l"
      using Cons.prems by auto
    then show ?thesis
      using Cons.IH [of l "Some m"] Cons.prems Suc by (cases l) auto
  qed
qed simp

text \<open>
  C19. The post before and the post after a page are the ones its section lists there: the page at place
  \<open>k\<close> of a section is linked to the ones at \<open>k - 1\<close> and \<open>k + 1\<close>, by url and title, and keeps what it had
  where there is none.
\<close>

theorem neighbours_follow_section:
  fixes pages :: "page list" and sect :: string
  defines "ms \<equiv> section_members pages sect"
  assumes "k < length ms"
  shows "link_pages pages ! (ms ! k) =
    with_neighbours (if k = 0 then None else Some (pages ! (ms ! (k - 1))))
      (if Suc k < length ms then Some (pages ! (ms ! Suc k)) else None) (pages ! (ms ! k))"
proof -
  have "ms ! k < length pages" "pg_section (pages ! (ms ! k)) = sect"
    using set_section_members [of "ms ! k" pages sect] nth_mem [OF assms(2)] by (simp_all add: ms_def)
  then show ?thesis
    using around_nth [of ms k None] assms(2)
    by (simp add: link_pages_nth neighbours_of_def ms_def [symmetric] distinct_section_members [of pages sect, folded ms_def])
qed

definition two_pages :: "page list" where
  "two_pages =
     [empty_page\<lparr>pg_section := ''a'', pg_url := ''/a/x/'', pg_post := empty_post\<lparr>po_slug := ''x'', po_title := ''X''\<rparr>\<rparr>,
      empty_page\<lparr>pg_section := ''a'', pg_url := ''/a/y/'', pg_post := empty_post\<lparr>po_slug := ''y'', po_title := ''Y''\<rparr>\<rparr>]"

lemma double_less_irrefl [simp]: "\<not> double_less d d"
  by (cases d) auto

lemma two_members: "section_members two_pages ''a'' = [0, 1]"
  by (simp add: section_members_def two_pages_def empty_post_def stable_sort_def newer_first_def order_of_def Let_def upt_rec)

theorem neighbours_follow_section_witness:
  "link_pages two_pages ! 0 = with_neighbours None (Some (two_pages ! 1)) (two_pages ! 0)"
  using neighbours_follow_section [of 0 two_pages "''a''"] by (simp add: two_members)

section \<open>Related posts\<close>

definition shared_terms :: "config \<Rightarrow> page list \<Rightarrow> nat \<Rightarrow> nat \<Rightarrow> nat" where
  "shared_terms c pages i j = card (set (page_terms c (pages ! i)) \<inter> set (page_terms c (pages ! j)))"

lemma sorted_remdups_adj_distinct: "sorted xs \<Longrightarrow> distinct (remdups_adj xs)"
  by (induction xs rule: remdups_adj.induct) (auto split: if_splits)

lemma distinct_page_terms [simp]: "distinct (page_terms c pg)"
  unfolding page_terms_def by (rule sorted_remdups_adj_distinct) simp

lemma distinct_posts_by_term [simp]: "distinct (posts_by_term c pages term)"
  by (simp add: posts_by_term_def)

lemma count_list_filter_distinct: "distinct xs \<Longrightarrow> count_list (filter P xs) x = (if x \<in> set xs \<and> P x then 1 else 0)"
  by (induction xs) auto

lemma count_list_concat: "count_list (concat xss) x = sum_list (map (\<lambda>xs. count_list xs x) xss)"
  by (induction xss) auto

lemma sum_list_indicator: "sum_list (map (\<lambda>x. if P x then 1 else 0 :: nat) xs) = length (filter P xs)"
  by (induction xs) auto

lemma met_as_often_as_shared:
  assumes "j < length pages" "j \<noteq> i"
  shows "count_list (met_posts c pages i) j = shared_terms c pages i j"
proof -
  have "count_list (met_posts c pages i) j =
      sum_list (map (\<lambda>term. if term \<in> set (page_terms c (pages ! j)) then 1 else 0) (page_terms c (pages ! i)))"
    using assms
    by (simp add: met_posts_def count_list_concat o_def count_list_filter_distinct)
       (simp add: posts_by_term_def)
  also have "\<dots> = card (set (filter (\<lambda>term. term \<in> set (page_terms c (pages ! j))) (page_terms c (pages ! i))))"
    by (simp only: sum_list_indicator distinct_card distinct_filter distinct_page_terms)
  also have "set (filter (\<lambda>term. term \<in> set (page_terms c (pages ! j))) (page_terms c (pages ! i))) =
      set (page_terms c (pages ! i)) \<inter> set (page_terms c (pages ! j))"
    by auto
  finally show ?thesis
    by (simp add: shared_terms_def)
qed

lemma met_posts_within: "j \<in> set (met_posts c pages i) \<Longrightarrow> j < length pages \<and> j \<noteq> i"
  by (auto simp: met_posts_def posts_by_term_def)

lemma set_add_candidates [simp]: "set (fold add_candidate xs acc) = set xs \<union> set acc"
  by (induction xs arbitrary: acc) (auto simp: add_candidate_def)

lemma distinct_add_candidates [simp]: "distinct acc \<Longrightarrow> distinct (fold add_candidate xs acc)"
  by (induction xs arbitrary: acc) (auto simp: add_candidate_def)

lemma count_list_eq_0: "count_list xs x = 0 \<longleftrightarrow> x \<notin> set xs"
  by (induction xs) auto

text \<open>Sorting by a comparison that decides a total preorder on the elements there are.\<close>

lemma insert_by_sorted:
  assumes "\<And>x y. x \<in> A \<Longrightarrow> y \<in> A \<Longrightarrow> if earlier y x then R y x else R x y"
    and "\<And>x y z. x \<in> A \<Longrightarrow> y \<in> A \<Longrightarrow> z \<in> A \<Longrightarrow> R x y \<Longrightarrow> R y z \<Longrightarrow> R x z"
    and "x \<in> A" "set ys \<subseteq> A" "sorted_wrt R ys"
  shows "sorted_wrt R (insert_by earlier x ys)"
  using assms(4,5)
proof (induction ys)
  case (Cons y ys)
  have inserted: "set (insert_by earlier x ys) = insert x (set ys)"
    by (metis mset_insert_by set_mset_add_mset_insert set_mset_mset)
  show ?case
  proof (cases "earlier y x")
    case True
    then show ?thesis
      using Cons assms(1) [of x y] assms(3) by (simp add: inserted)
  next
    case False
    then have "R x y"
      using Cons.prems assms(1) [of x y] assms(3) by simp
    moreover have "R x z" if "z \<in> set ys" for z
      using that Cons.prems assms(2) [of x y z] assms(3) \<open>R x y\<close> by auto
    ultimately show ?thesis
      using False Cons.prems by simp
  qed
qed simp

lemma stable_sort_sorted:
  assumes "\<And>x y. x \<in> set xs \<Longrightarrow> y \<in> set xs \<Longrightarrow> if earlier y x then R y x else R x y"
    and "\<And>x y z. x \<in> set xs \<Longrightarrow> y \<in> set xs \<Longrightarrow> z \<in> set xs \<Longrightarrow> R x y \<Longrightarrow> R y z \<Longrightarrow> R x z"
  shows "sorted_wrt R (stable_sort earlier xs)"
proof -
  have "sorted_wrt R (foldr (insert_by earlier) zs [])" if "set zs \<subseteq> set xs" for zs
    using that
  proof (induction zs)
    case (Cons z zs)
    have "set (foldr (insert_by earlier) zs []) = set zs"
      using set_stable_sort [of earlier zs] by (simp add: stable_sort_def)
    then have "sorted_wrt R (insert_by earlier z (foldr (insert_by earlier) zs []))"
      using Cons by (intro insert_by_sorted [of "set xs" earlier R, OF assms]) simp_all
    then show ?case
      by simp
  qed simp
  then show ?thesis
    by (simp add: stable_sort_def)
qed

text \<open>
  C20. The related posts of a post are the first ones, up to the configured number, of all the other posts
  that share a term with it, ranked by how many terms they share.
\<close>

theorem related_share_most:
  "\<exists>ranked. related_posts c pages i = take (nat (cf_related_count c)) ranked \<and> distinct ranked \<and>
     set ranked = {j. j < length pages \<and> j \<noteq> i \<and> shared_terms c pages i j \<noteq> 0} \<and>
     sorted_wrt (\<lambda>j k. shared_terms c pages i k \<le> shared_terms c pages i j) ranked"
proof -
  define met where "met = met_posts c pages i"
  define ranked where "ranked = stable_sort (closer_related pages met) (fold add_candidate met [])"
  have set: "set ranked = set met"
    by (simp add: ranked_def)
  have "set met = {j. j < length pages \<and> j \<noteq> i \<and> shared_terms c pages i j \<noteq> 0}"
  proof (rule set_eqI)
    fix j
    show "j \<in> set met \<longleftrightarrow> j \<in> {j. j < length pages \<and> j \<noteq> i \<and> shared_terms c pages i j \<noteq> 0}"
      using met_posts_within [of j c pages i] met_as_often_as_shared [of j pages i c] count_list_eq_0 [of met j]
      by (auto simp: met_def)
  qed
  moreover have "sorted_wrt (\<lambda>j k. count_list met k \<le> count_list met j) ranked"
    unfolding ranked_def by (rule stable_sort_sorted) (auto simp: closer_related_def split: if_splits)
  then have "sorted_wrt (\<lambda>j k. shared_terms c pages i k \<le> shared_terms c pages i j) ranked"
    by (rule sorted_wrt_mono_rel [rotated])
       (use set met_posts_within met_as_often_as_shared in \<open>auto simp: met_def\<close>)
  ultimately show ?thesis
    using set by (intro exI [of _ ranked]) (simp add: related_posts_def Let_def ranked_def met_def)
qed

section \<open>What is remembered\<close>

definition date_kept :: "ymd option \<Rightarrow> bool" where
  "date_kept date \<longleftrightarrow> (case date of None \<Rightarrow> True | Some d \<Rightarrow> ymd_ok d \<and> 0 \<le> yd_year d \<and> yd_year d \<le> 9999)"

lemma no_date_read: "parse_date [] = None"
  by code_simp

lemma kept_date_string:
  assumes "date_kept date"
  shows "kept_date (date_string date) None = date"
proof (cases date)
  case (Some d)
  then have "parse_date (iso d) = Some d"
    using assms date_iso_round_trip [of "iso d" d] by (simp add: date_kept_def)
  then show ?thesis
    using Some by (simp add: kept_date_def date_string_def)
qed (simp add: kept_date_def date_string_def no_date_read)

definition recalled_post :: "post \<Rightarrow> post" where
  "recalled_post p = empty_post
     \<lparr>po_title := po_title p, po_date := po_date p, po_updated := po_updated p, po_slug := po_slug p,
      po_description := po_description p, po_image := po_image p, po_tags := po_tags p, po_aliases := po_aliases p,
      po_noindex := po_noindex p, po_order := po_order p, po_meta := po_meta p\<rparr>"

definition recalled_page :: "page \<Rightarrow> page" where
  "recalled_page pg = empty_page
     \<lparr>pg_post := recalled_post (pg_post pg), pg_section := pg_section pg, pg_url := pg_url pg, pg_url_path := pg_url_path pg,
      pg_translation_key := pg_translation_key pg, pg_summary := pg_summary pg, pg_first_image := pg_first_image pg,
      pg_word_count := pg_word_count pg, pg_reading_time := pg_reading_time pg,
      pg_tags := VArray (map (\<lambda>term. VObject [(''name'', VString term), (''url'', VString [])]) (po_tags (pg_post pg)))\<rparr>"

text \<open>A page that can be written: real dates, numbers that fit, no key of the front matter twice.\<close>

definition page_ok :: "page \<Rightarrow> bool" where
  "page_ok pg \<longleftrightarrow> date_kept (po_date (pg_post pg)) \<and> date_kept (po_updated (pg_post pg)) \<and>
     distinct (map fst (po_meta (pg_post pg))) \<and> pg_word_count pg < 2 ^ 63 \<and> to_int (pg_reading_time pg) = pg_reading_time pg"

lemma meta_object:
  "distinct (map fst entries) \<Longrightarrow>
   fold (\<lambda>(key, v) object. set_member object key (VString v)) entries (VObject []) = VObject (map (\<lambda>(key, v). (key, VString v)) entries)"
  using fold_set_member [of "[]" entries VString] by simp

lemma saved_word_count: "n < 2 ^ 63 \<Longrightarrow> nat (int n mod 2 ^ 64) = n"
  by (simp add: nat_mod_distrib nat_power_eq flip: of_nat_power)

lemma find_in_saved: "find_member (VObject ms) key = map_of ms key"
  by simp

theorem page_is_remembered:
  assumes "page_ok pg"
  shows "apply_metadata stray empty_page (metadata_of pg) = recalled_page pg"
proof -
  let ?p = "pg_post pg"
  have meta: "fold (\<lambda>(key, v) object. set_member object key (VString v)) (po_meta ?p) (VObject []) =
      VObject (map (\<lambda>(key, v). (key, VString v)) (po_meta ?p))"
    using assms by (intro meta_object) (simp add: page_ok_def)
  have "kept_date (date_string (po_date ?p)) None = po_date ?p" "kept_date (date_string (po_updated ?p)) None = po_updated ?p"
    using assms by (simp_all add: page_ok_def kept_date_string)
  moreover have "nat (int (pg_word_count pg) mod 2 ^ 64) = pg_word_count pg"
    using assms by (intro saved_word_count) (simp add: page_ok_def)
  moreover have "to_int (pg_reading_time pg) = pg_reading_time pg"
    using assms by (simp add: page_ok_def)
  ultimately show ?thesis
    unfolding metadata_of_def Let_def meta
    by (cases "po_order ?p")
      (simp_all add: apply_metadata_def recalled_page_def recalled_post_def empty_page_def empty_post_def saved_text_def
        saved_integer_def get_member_def has_member_def set_member_def texts_value_def o_def case_prod_beta')
qed

end
