(* ===== verification/SiteProps.thy ===== *)
theory SiteProps
  imports SiteBuild PageProps
begin

text \<open>
  What holds of a build: which posts become pages and where, that the pages of a listing hold its posts,
  that redirects stay out of the way of pages, and what a build overlooks.
\<close>

section \<open>Which posts are published\<close>

text \<open>The page of a source, when it is a post that is not held back.\<close>

definition published_page :: "build_input \<Rightarrow> source_file \<Rightarrow> (page \<times> source_file) option" where
  "published_page b f =
     (case read_post f of Inl e \<Rightarrow> None | Inr p \<Rightarrow> if post_held b p then None else Some (new_page b f p, f))"

definition published :: "build_input \<Rightarrow> source_file list \<Rightarrow> (page \<times> source_file) list" where
  "published b files = List.map_filter (published_page b) files"

definition claims :: "(page \<times> source_file) list \<Rightarrow> (string \<times> string) list" where
  "claims entries = map (\<lambda>(pg, f). (pg_output pg, sf_path f)) entries"

lemma published_simps [simp]:
  "published b [] = []"
  "published b (f # files) = (case published_page b f of None \<Rightarrow> published b files | Some entry \<Rightarrow> entry # published b files)"
  by (auto simp: published_def List.map_filter_simps split: option.split)

lemma bind_step_Built: "bind_step r k = Built y \<longleftrightarrow> (\<exists>x. r = Built x \<and> k x = Built y)"
  by (cases r) auto

lemma collect_fresh:
  assumes "collect_pages b on_disk None seen files = Built (entries, seen')"
  shows "entries = published b files \<and> seen' = seen @ claims entries \<and> list_all (\<lambda>f. \<exists>p. read_post f = Inr p) files \<and>
    distinct (map (pg_output \<circ> fst) entries) \<and> fst ` set seen \<inter> (pg_output \<circ> fst) ` set entries = {}"
  using assms
proof (induction files arbitrary: seen entries)
  case (Cons f files)
  obtain p where p: "read_post f = Inr p"
    using Cons.prems by (cases "read_post f") auto
  show ?case
  proof (cases "post_held b p")
    case True
    then show ?thesis
      using Cons.IH [of seen entries] Cons.prems p by (auto simp: published_page_def)
  next
    case False
    define pg where "pg = new_page b f p"
    have free: "map_of seen (pg_output pg) = None"
      using Cons.prems p False by (cases "map_of seen (pg_output pg)") (auto simp: pg_def Let_def)
    then have fresh: "pg_output pg \<notin> fst ` set seen"
      by (simp add: map_of_eq_None_iff)
    then have seen: "emplace (pg_output pg) (sf_path f) seen = seen @ [(pg_output pg, sf_path f)]"
      by (simp add: emplace_def)
    obtain rest where rest: "collect_pages b on_disk None (seen @ [(pg_output pg, sf_path f)]) files = Built (rest, seen')"
      "entries = (pg, f) # rest"
      using Cons.prems p False free seen by (auto simp: pg_def Let_def bind_step_Built)
    show ?thesis
      using Cons.IH [OF rest(1)] rest(2) p False fresh by (auto simp: published_page_def claims_def pg_def)
  qed
qed (simp add: claims_def)

text \<open>
  C9. A build from scratch publishes exactly the posts that are not held back, in the order of their
  files, each under the url and file its section and slug give it, and no two of them in one file.
\<close>

theorem posts_published_apart:
  assumes "collect_pages b on_disk None [] files = Built (entries, seen)"
  shows "entries = published b files \<and> distinct (map (pg_output \<circ> fst) entries) \<and> seen = claims entries \<and>
    list_all (\<lambda>f. \<exists>p. read_post f = Inr p) files"
  using collect_fresh [OF assms, unfolded append_Nil] by blast

definition sample_source :: "string \<Rightarrow> string \<Rightarrow> source_file" where
  "sample_source stem text =
     \<lparr>sf_key = stem @ ''.md'', sf_path = ''content/'' @ stem @ ''.md'', sf_section = [], sf_stem = stem, sf_bytes = Some text,
      sf_size = length text, sf_modified = 5\<rparr>"

definition sample_input :: build_input where
  "sample_input =
     \<lparr>bi_config = default_config, bi_url_prefix = [], bi_languages = \<lparr>lo_languages = [], lo_current = [], lo_translations = []\<rparr>,
      bi_drafts = False, bi_future = True, bi_today = \<lparr>yd_year = 2024, yd_month = 1, yd_day = 1\<rparr>,
      bi_framework = \<lparr>fw_name = ''none'', fw_stylesheet = [], fw_script = []\<rparr>, bi_shortcodes = [],
      bi_store = \<lparr>ts_templates = [], ts_sources = []\<rparr>, bi_nav = [], bi_data = (\<lambda>sect. None), bi_manifest = [], bi_srcsets = [],
      bi_published = (\<lambda>url. None), bi_shipped = [], bi_address = (\<lambda>s. []), bi_stray = 0\<rparr>"

definition sample_sources :: "source_file list" where
  "sample_sources =
     [sample_source ''one'' ''Hello'',
      sample_source ''two'' (''---'' @ [CHR 0x0A] @ ''draft: true'' @ [CHR 0x0A] @ ''---'' @ [CHR 0x0A]),
      sample_source ''three'' []]"

lemma sample_collected:
  "(case collect_pages sample_input (\<lambda>path. False) None [] sample_sources of
      Built (entries, seen) \<Rightarrow> map (pg_output \<circ> fst) entries = [''one/index.html'', ''three/index.html'']
    | _ \<Rightarrow> False)"
  by code_simp

theorem posts_published_apart_witness:
  "\<exists>entries seen. collect_pages sample_input (\<lambda>path. False) None [] sample_sources = Built (entries, seen) \<and>
     entries = published sample_input sample_sources \<and> length entries = 2"
proof -
  obtain entries seen where collected:
    "collect_pages sample_input (\<lambda>path. False) None [] sample_sources = Built (entries, seen)"
    "map (pg_output \<circ> fst) entries = [''one/index.html'', ''three/index.html'']"
    using sample_collected by (auto split: build_step.splits)
  then have "length entries = 2"
    by (metis length_map length_Cons list.size(3) Suc_1 One_nat_def)
  then show ?thesis
    using posts_published_apart [OF collected(1)] collected(1) by blast
qed

section \<open>The pages of a listing\<close>

lemma listing_slices:
  assumes "0 < per_page"
  shows "concat (map (listing_slice per_page entries) [1..<Suc n]) = take (n * per_page) entries"
proof (induction n)
  case (Suc n)
  have "[1..<Suc (Suc n)] = [1..<Suc n] @ [Suc n]"
    by simp
  moreover have "listing_slice per_page entries (Suc n) = take per_page (drop (n * per_page) entries)"
    by (simp add: listing_slice_def)
  ultimately show ?case
    using Suc by (simp only: map_append concat_append) (simp add: take_add add.commute [of per_page])
qed simp

lemma listing_total_enough: "0 < per_page \<Longrightarrow> entries \<le> listing_total per_page entries * per_page"
proof -
  assume "0 < per_page"
  then have "entries \<le> (entries + per_page - 1) div per_page * per_page"
    using div_mult_mod_eq [of "entries + per_page - 1" per_page] mod_less_divisor [of per_page "entries + per_page - 1"]
    by linarith
  also have "\<dots> \<le> listing_total per_page entries * per_page"
    by (intro mult_le_mono1) (simp add: listing_total_def)
  finally show ?thesis .
qed

text \<open>
  The order of a listing, said for two of its posts: the smaller configured order first, a post without one
  at the end; then the later date; then the slug.
\<close>

definition listed_before :: "page \<Rightarrow> page \<Rightarrow> bool" where
  "listed_before a b \<longleftrightarrow>
     (let p = pg_post a; q = pg_post b in
      double_less (order_of p) (order_of q) \<or>
      \<not> double_less (order_of q) (order_of p) \<and>
        (date_less (po_date q) (po_date p) \<or> po_date p = po_date q \<and> po_slug p \<le> po_slug q))"

lemma double_less_cases:
  assumes "d \<noteq> NaN" "e \<noteq> NaN" "f \<noteq> NaN"
  shows "double_less d e \<Longrightarrow> \<not> double_less f e \<Longrightarrow> double_less d f"
    and "\<not> double_less e d \<Longrightarrow> double_less e f \<Longrightarrow> double_less d f"
    and "\<not> double_less e d \<Longrightarrow> \<not> double_less f e \<Longrightarrow> \<not> double_less f d"
  using assms by (cases d; cases e; cases f; auto)+

lemma double_less_asym: "double_less d e \<Longrightarrow> \<not> double_less e d"
  by (cases d; cases e) auto

lemma date_less_trans: "date_less d e \<Longrightarrow> date_less e f \<Longrightarrow> date_less d f"
  by (cases d; cases e; cases f) auto

lemma date_less_total: "d \<noteq> e \<Longrightarrow> date_less d e \<or> date_less e d"
  by (cases d; cases e) (auto intro: ymd.equality)

lemma newer_first_listed: "newer_first a b \<Longrightarrow> listed_before a b"
  using double_less_asym [of "order_of (pg_post a)"] by (auto simp: newer_first_def listed_before_def Let_def split: if_splits)

lemma not_newer_first_listed: "\<not> newer_first a b \<Longrightarrow> listed_before b a"
  using date_less_total [of "po_date (pg_post a)" "po_date (pg_post b)"]
  by (auto simp: newer_first_def listed_before_def Let_def split: if_splits)

definition later_first :: "post \<Rightarrow> post \<Rightarrow> bool" where
  "later_first p q \<longleftrightarrow> date_less (po_date q) (po_date p) \<or> po_date p = po_date q \<and> po_slug p \<le> po_slug q"

lemma later_first_trans: "later_first p q \<Longrightarrow> later_first q r \<Longrightarrow> later_first p r"
  using date_less_trans [of "po_date r" "po_date q" "po_date p"] by (auto simp: later_first_def)

lemma listed_before_cases:
  "listed_before a b \<longleftrightarrow> double_less (order_of (pg_post a)) (order_of (pg_post b)) \<or>
     \<not> double_less (order_of (pg_post b)) (order_of (pg_post a)) \<and> later_first (pg_post a) (pg_post b)"
  by (simp add: listed_before_def later_first_def Let_def)

lemma listed_before_trans:
  assumes "order_of (pg_post a) \<noteq> NaN" "order_of (pg_post b) \<noteq> NaN" "order_of (pg_post c) \<noteq> NaN"
    and ab: "listed_before a b" and bc: "listed_before b c"
  shows "listed_before a c"
proof (cases "double_less (order_of (pg_post a)) (order_of (pg_post b))")
  case True
  have "\<not> double_less (order_of (pg_post c)) (order_of (pg_post b))"
    using bc double_less_asym by (auto simp: listed_before_cases)
  then show ?thesis
    using double_less_cases(1) [OF assms(1-3) True] by (simp add: listed_before_cases)
next
  case False
  then have tie: "\<not> double_less (order_of (pg_post b)) (order_of (pg_post a))" "later_first (pg_post a) (pg_post b)"
    using ab by (simp_all add: listed_before_cases)
  show ?thesis
  proof (cases "double_less (order_of (pg_post b)) (order_of (pg_post c))")
    case True
    then show ?thesis
      using double_less_cases(2) [OF assms(1-3) tie(1)] by (simp add: listed_before_cases)
  next
    case False
    then have "\<not> double_less (order_of (pg_post c)) (order_of (pg_post b))" "later_first (pg_post b) (pg_post c)"
      using bc by (simp_all add: listed_before_cases)
    then show ?thesis
      using double_less_cases(3) [OF assms(1-3) tie(1)] later_first_trans [OF tie(2)] by (simp add: listed_before_cases)
  qed
qed

lemma sorted_entries_listed:
  assumes "list_all (\<lambda>pg. order_of (pg_post pg) \<noteq> NaN) (li_entries l)"
  shows "sorted_wrt listed_before (sorted_entries l)"
  unfolding sorted_entries_def
proof (rule stable_sort_sorted)
  show "if newer_first y x then listed_before y x else listed_before x y" for x y
    by (simp add: newer_first_listed not_newer_first_listed)
  show "listed_before x z"
    if "x \<in> set (li_entries l)" "y \<in> set (li_entries l)" "z \<in> set (li_entries l)" "listed_before x y" "listed_before y z" for x y z
    using that assms by (intro listed_before_trans [of x y z]) (simp_all add: list_all_iff)
qed

text \<open>
  C21. The pages of a listing, one after the other, show exactly the posts the listing was given, each as
  often as it was given, in the order of the section: by the configured order, then the later date first,
  then by slug. No page shows more of them than the configured size. An order that is not a number, for
  which the comparison of the code is no order, is left out.
\<close>

theorem listing_shows_every_post:
  assumes "list_all (\<lambda>pg. order_of (pg_post pg) \<noteq> NaN) (li_entries l)"
  shows "\<exists>ranked. mset ranked = mset (li_entries l) \<and> sorted_wrt listed_before ranked \<and>
    concat (map (\<lambda>number. items (lv_entries (listing_page_view b has_pages l number)))
        [1..<Suc (listing_total (listing_size b (li_section l)) (length (li_entries l)))]) =
      map (page_entry []) ranked \<and>
    list_all (\<lambda>number. length (items (lv_entries (listing_page_view b has_pages l number))) \<le> listing_size b (li_section l))
      [1..<Suc (listing_total (listing_size b (li_section l)) (length (li_entries l)))]"
proof (rule exI [of _ "sorted_entries l"])
  have per_page: "0 < listing_size b (li_section l)"
    by (simp add: listing_size_def)
  have shown: "items (lv_entries (listing_page_view b has_pages l number)) =
      map (page_entry []) (listing_slice (listing_size b (li_section l)) (sorted_entries l) number)" for number
    by (simp add: listing_page_view_def Let_def)
  have "concat (map (\<lambda>number. map (page_entry []) (listing_slice (listing_size b (li_section l)) (sorted_entries l) number)) numbers) =
      map (page_entry []) (concat (map (listing_slice (listing_size b (li_section l)) (sorted_entries l)) numbers))" for numbers
    by (simp add: map_concat o_def)
  moreover have "mset (sorted_entries l) = mset (li_entries l)" "length (sorted_entries l) = length (li_entries l)"
    by (simp_all add: sorted_entries_def)
  ultimately show "mset (sorted_entries l) = mset (li_entries l) \<and> sorted_wrt listed_before (sorted_entries l) \<and>
    concat (map (\<lambda>number. items (lv_entries (listing_page_view b has_pages l number)))
        [1..<Suc (listing_total (listing_size b (li_section l)) (length (li_entries l)))]) =
      map (page_entry []) (sorted_entries l) \<and>
    list_all (\<lambda>number. length (items (lv_entries (listing_page_view b has_pages l number))) \<le> listing_size b (li_section l))
      [1..<Suc (listing_total (listing_size b (li_section l)) (length (li_entries l)))]"
    using listing_total_enough [OF per_page, of "length (li_entries l)"] sorted_entries_listed [OF assms]
    by (simp only: shown listing_slices [OF per_page]) (simp add: list_all_iff listing_slice_def)
qed

definition dated_page :: "string \<Rightarrow> nat \<Rightarrow> page" where
  "dated_page slug day =
     empty_page\<lparr>pg_post := empty_post\<lparr>po_slug := slug, po_date := Some \<lparr>yd_year = 2024, yd_month = 1, yd_day = day\<rparr>, po_order := None\<rparr>\<rparr>"

definition dated_listing :: listing where
  "dated_listing =
     \<lparr>li_section = ''a'', li_at_root = False, li_heading = [], li_layouts = [], li_entries = [dated_page ''x'' 1, dated_page ''y'' 2]\<rparr>"

text \<open>Two posts, the older one given first, on one page.\<close>

theorem listing_shows_every_post_witness:
  "concat (map (\<lambda>number. items (lv_entries (listing_page_view sample_input True dated_listing number)))
       [1..<Suc (listing_total (listing_size sample_input ''a'') 2)]) =
     map (page_entry []) [dated_page ''y'' 2, dated_page ''x'' 1]"
proof -
  have ordered: "order_of (pg_post (dated_page slug day)) = double_of_int (10 ^ 18)" for slug day
    by (simp add: order_of_def dated_page_def)
  have "double_of_int (10 ^ 18) \<noteq> NaN"
    by (simp add: double_of_int_def round_ratio_def Let_def case_prod_beta')
  then have "list_all (\<lambda>pg. order_of (pg_post pg) \<noteq> NaN) (li_entries dated_listing)"
    by (simp add: dated_listing_def ordered)
  note shown = listing_shows_every_post [OF this, of sample_input True]
  have given: "li_entries dated_listing = [dated_page ''x'' 1, dated_page ''y'' 2]" "li_section dated_listing = ''a''"
    by (simp_all add: dated_listing_def)
  obtain ranked where ranked: "mset ranked = mset [dated_page ''x'' 1, dated_page ''y'' 2]" "sorted_wrt listed_before ranked"
    "concat (map (\<lambda>number. items (lv_entries (listing_page_view sample_input True dated_listing number)))
       [1..<Suc (listing_total (listing_size sample_input ''a'') (length [dated_page ''x'' 1, dated_page ''y'' 2]))]) =
     map (page_entry []) ranked"
    using shown unfolding given by blast
  have "length ranked = 2"
    using arg_cong [OF ranked(1), of size] by simp
  then obtain p q where two: "ranked = [p, q]"
    by (metis length_0_conv length_Suc_conv numeral_2_eq_2)
  have "\<not> listed_before (dated_page ''x'' 1) (dated_page ''y'' 2)"
    by (simp add: listed_before_def ordered) (simp add: dated_page_def)
  then have "p = dated_page ''y'' 2 \<and> q = dated_page ''x'' 1"
    using ranked(1,2) unfolding two by (auto simp: add_eq_conv_ex)
  with ranked(3) two show ?thesis
    by (simp only: list.size numeral_2_eq_2 One_nat_def add_0 plus_nat.simps)
qed

section \<open>Redirects\<close>

abbreviation redirect_files :: "bool \<Rightarrow> string list \<Rightarrow> (string \<times> string) list \<Rightarrow> (string \<times> string) list \<Rightarrow> string list" where
  "redirect_files clean_urls taken owners aliases \<equiv> map fst (fst (redirects clean_urls taken owners aliases))"

lemma redirect_files_step:
  "redirect_files clean_urls taken owners (entry # aliases) =
     (let file = url_to_file (fst entry) clean_urls in
      if file \<in> set taken \<or> file \<in> fst ` set owners then redirect_files clean_urls taken owners aliases
      else file # redirect_files clean_urls taken (owners @ [(file, snd entry)]) aliases)"
proof (cases entry)
  case (Pair path url)
  show ?thesis
  proof (cases "map_of owners (url_to_file path clean_urls)")
    case None
    then have "url_to_file path clean_urls \<notin> fst ` set owners"
      by (simp add: map_of_eq_None_iff)
    then show ?thesis
      using Pair None by (simp add: Let_def case_prod_beta')
  next
    case (Some first_url)
    then have "url_to_file path clean_urls \<in> fst ` set owners"
      by (metis map_of_eq_None_iff option.distinct(1))
    then show ?thesis
      using Pair Some by (simp add: Let_def case_prod_beta')
  qed
qed

lemma redirects_free:
  "list_all (\<lambda>file. file \<notin> set taken \<and> file \<notin> fst ` set owners) (redirect_files clean_urls taken owners aliases) \<and>
   distinct (redirect_files clean_urls taken owners aliases) \<and>
   list_all (\<lambda>entry. url_to_file (fst entry) clean_urls \<in> set taken \<union> fst ` set owners \<union> set (redirect_files clean_urls taken owners aliases)) aliases"
proof (induction aliases arbitrary: owners)
  case (Cons entry aliases)
  show ?case
  proof (cases "url_to_file (fst entry) clean_urls \<in> set taken \<or> url_to_file (fst entry) clean_urls \<in> fst ` set owners")
    case True
    then show ?thesis
      using Cons.IH [of owners] by (simp only: redirect_files_step Let_def) (simp, blast)
  next
    case False
    then show ?thesis
      using Cons.IH [of "owners @ [(url_to_file (fst entry) clean_urls, snd entry)]"]
      by (simp only: redirect_files_step Let_def) (auto simp: list_all_iff)
  qed
qed simp

text \<open>C22. The redirects of old urls: every alias has a page or a redirect at its place, no redirect takes the place of a
  post's page, and no place has two.\<close>

theorem redirects_never_replace_pages:
  "list_all (\<lambda>file. file \<notin> set taken) (map fst (fst (redirects clean_urls taken [] aliases))) \<and>
   distinct (map fst (fst (redirects clean_urls taken [] aliases))) \<and>
   list_all (\<lambda>entry. url_to_file (fst entry) clean_urls \<in> set taken \<union> set (map fst (fst (redirects clean_urls taken [] aliases)))) aliases"
  using redirects_free [of taken "[]" clean_urls aliases] by simp

section \<open>What a build overlooks\<close>

text \<open>
  Whether a post is held back is asked when its file is read, and a page taken from the last build is
  not read: what a build with drafts has published stays, although the build after it would not publish it.
\<close>

lemma held_post_stays_published:
  assumes "known_source state f = Some s" "source_unchanged state f s" "on_disk (ss_output s)"
    and "read_post f = Inr p" "post_held b p"
  shows "\<exists>pg seen. collect_pages b on_disk (Some state) [] [f] = Built ([(pg, f)], seen) \<and> pg_output pg = ss_output s"
    and "collect_pages b on_disk None [] [f] = Built ([], [])"
  using assms by (simp_all add: reused_page_def)

text \<open>A term that a post names twice lists the post twice, on the page of the term and in its count.\<close>

lemma repeated_term_lists_twice:
  assumes "terms_of (pg_post pg) ''tags'' = [term, term]"
  shows "pages_by_term ''tags'' [pg] = [(term, [pg, pg])]"
  using assms by (simp add: pages_by_term_def)

lemma drafts_not_in_fingerprint: "build_fingerprint (b\<lparr>bi_drafts := drafts, bi_future := future\<rparr>) files = build_fingerprint b files"
  by (simp add: build_fingerprint_def resolve_image_def)

end
