(* ===== verification/SiteRebuilds.thy ===== *)
theory SiteRebuilds
  imports SiteProps
begin

text \<open>
  A second build of an unchanged site: what the first one remembers of its pages is enough to link them,
  to find their related posts and to see that none of them has to be read again.
\<close>

section \<open>What the steps leave alone\<close>

lemma each_step_Built: "each_step f xs = Built ys \<longleftrightarrow> list_all2 (\<lambda>x y. f x = Built y) xs ys"
  by (induction xs arbitrary: ys) (auto simp: bind_step_Built list_all2_Cons1)

lemma each_step_same: "(\<And>x. x \<in> set xs \<Longrightarrow> f x = Built x) \<Longrightarrow> each_step f xs = Built xs"
  by (induction xs) auto

definition bookkeeping :: "page \<Rightarrow> string \<times> string \<times> share_image \<times> jvalue \<times> bool" where
  "bookkeeping pg = (pg_section pg, pg_output pg, pg_share_image pg, pg_related pg, pg_parsed pg)"

definition links :: "page \<Rightarrow> string \<times> string \<times> string \<times> string" where
  "links pg = (pg_previous_url pg, pg_previous_title pg, pg_next_url pg, pg_next_title pg)"

definition identity :: "page \<Rightarrow> string \<times> post" where
  "identity pg = (pg_url pg, pg_post pg)"

lemma prepare_leaves:
  assumes "prepare_page b pg = Built pg'"
  shows "bookkeeping pg' = bookkeeping pg" "links pg' = links pg" "identity pg' = identity pg"
  using assms
  by (auto simp: prepare_page_def bind_step_Built Let_def bookkeeping_def links_def identity_def split: if_splits)

lemma links_with_known: "links pg = links pg' \<Longrightarrow> links (with_known x y pg) = links (with_known x y pg')"
  by (auto simp: with_known_def links_def Let_def split: option.splits)

lemma with_known_leaves [simp]:
  "bookkeeping (with_known x y pg) = bookkeeping pg" "identity (with_known x y pg) = identity pg"
  "pg_summary (with_known x y pg) = pg_summary pg" "pg_first_image (with_known x y pg) = pg_first_image pg"
  "pg_parsed (with_known x y pg) = pg_parsed pg"
  by (auto simp: with_known_def bookkeeping_def identity_def Let_def split: option.splits)

lemma neighbours_of_known:
  "neighbours_of pages before ms i pg =
     with_known (map_option (\<lambda>j. known_by (pages ! j)) (fst (around before ms i)))
       (map_option (\<lambda>j. known_by (pages ! j)) (snd (around before ms i))) pg"
  by (simp add: neighbours_of_def with_neighbours_known option.map_comp o_def)

section \<open>Pages that sort and link alike\<close>

definition placed_alike :: "page \<Rightarrow> page \<Rightarrow> bool" where
  "placed_alike pg pg' \<longleftrightarrow> pg_section pg = pg_section pg' \<and> pg_url pg = pg_url pg' \<and>
     po_title (pg_post pg) = po_title (pg_post pg') \<and> po_date (pg_post pg) = po_date (pg_post pg') \<and>
     po_slug (pg_post pg) = po_slug (pg_post pg') \<and> po_order (pg_post pg) = po_order (pg_post pg')"

lemma order_of_alike: "placed_alike x y \<Longrightarrow> order_of (pg_post x) = order_of (pg_post y)"
  by (simp add: placed_alike_def order_of_def)

lemma newer_first_alike:
  "placed_alike x x' \<Longrightarrow> placed_alike y y' \<Longrightarrow> newer_first x y = newer_first x' y'"
  using order_of_alike [of x x'] order_of_alike [of y y']
  by (simp add: newer_first_def placed_alike_def Let_def)

lemma known_by_alike: "placed_alike x y \<Longrightarrow> known_by x = known_by y"
  by (simp add: placed_alike_def known_by_def)

lemma section_members_alike:
  assumes "list_all2 placed_alike pages pages'"
  shows "section_members pages sect = section_members pages' sect"
proof -
  have len: "length pages = length pages'"
    using assms by (rule list_all2_lengthD)
  have same: "placed_alike (pages ! i) (pages' ! i)" if "i < length pages" for i
    using assms that by (rule list_all2_nthD)
  have "filter (\<lambda>i. pg_section (pages ! i) = sect) [0..<length pages] = filter (\<lambda>i. pg_section (pages' ! i) = sect) [0..<length pages']"
    using same len by (intro filter_cong) (auto simp: placed_alike_def)
  moreover have "stable_sort (\<lambda>i j. newer_first (pages ! i) (pages ! j)) (filter (\<lambda>i. pg_section (pages' ! i) = sect) [0..<length pages']) =
      stable_sort (\<lambda>i j. newer_first (pages' ! i) (pages' ! j)) (filter (\<lambda>i. pg_section (pages' ! i) = sect) [0..<length pages'])"
    using same len by (intro stable_sort_cong newer_first_alike) auto
  ultimately show ?thesis
    by (simp add: section_members_def)
qed

lemma set_around:
  "fst (around before ms i) = Some j \<Longrightarrow> j \<in> set ms \<or> before = Some j"
  "snd (around before ms i) = Some j \<Longrightarrow> j \<in> set ms"
  by (induction before ms i rule: around.induct) (auto split: if_splits list.splits)

lemma links_alike:
  assumes "list_all2 placed_alike pages pages'" "i < length pages" "links (pages ! i) = links (pages' ! i)"
  shows "links (link_pages pages ! i) = links (link_pages pages' ! i)"
proof -
  have len: "length pages = length pages'" and alike: "\<And>j. j < length pages \<Longrightarrow> placed_alike (pages ! j) (pages' ! j)"
    using assms(1) by (auto dest: list_all2_lengthD list_all2_nthD)
  let ?ms = "section_members pages (pg_section (pages ! i))"
  have ms: "?ms = section_members pages' (pg_section (pages' ! i))"
    using section_members_alike [OF assms(1)] alike [OF assms(2)] by (simp add: placed_alike_def)
  have inside: "j < length pages" if "j \<in> set ?ms" for j
    using that by (simp add: set_section_members)
  have before: "map_option (\<lambda>j. known_by (pages ! j)) (fst (around None ?ms i)) = map_option (\<lambda>j. known_by (pages' ! j)) (fst (around None ?ms i))"
  proof (rule map_option_cong [OF refl])
    fix j
    assume "fst (around None ?ms i) = Some j"
    then have "j \<in> set ?ms"
      using set_around(1) [of None ?ms i j] by simp
    then show "known_by (pages ! j) = known_by (pages' ! j)"
      by (intro known_by_alike alike inside)
  qed
  have after: "map_option (\<lambda>j. known_by (pages ! j)) (snd (around None ?ms i)) = map_option (\<lambda>j. known_by (pages' ! j)) (snd (around None ?ms i))"
  proof (rule map_option_cong [OF refl])
    fix j
    assume "snd (around None ?ms i) = Some j"
    then have "j \<in> set ?ms"
      using set_around(2) [of None ?ms i j] by simp
    then show "known_by (pages ! j) = known_by (pages' ! j)"
      by (intro known_by_alike alike inside)
  qed
  have "i < length pages'"
    using assms(2) len by simp
  then have "link_pages pages' ! i = neighbours_of pages' None ?ms i (pages' ! i)"
    by (simp only: link_pages_nth ms [symmetric])
  then show ?thesis
    unfolding link_pages_nth [OF assms(2)] neighbours_of_known
    using links_with_known [OF assms(3)] by (simp only: before after neighbours_of_known)
qed

lemma link_pages_leaves:
  assumes "i < length pages"
  shows "bookkeeping (link_pages pages ! i) = bookkeeping (pages ! i)" "identity (link_pages pages ! i) = identity (pages ! i)"
    "pg_summary (link_pages pages ! i) = pg_summary (pages ! i)" "pg_first_image (link_pages pages ! i) = pg_first_image (pages ! i)"
    "pg_parsed (link_pages pages ! i) = pg_parsed (pages ! i)"
  using assms by (simp_all add: link_pages_nth neighbours_of_known)

section \<open>Pages that relate alike\<close>

definition related_alike :: "page \<Rightarrow> page \<Rightarrow> bool" where
  "related_alike pg pg' \<longleftrightarrow> placed_alike pg pg' \<and> pg_summary pg = pg_summary pg' \<and> pg_first_image pg = pg_first_image pg' \<and>
     po_description (pg_post pg) = po_description (pg_post pg') \<and> po_tags (pg_post pg) = po_tags (pg_post pg') \<and>
     po_meta (pg_post pg) = po_meta (pg_post pg')"

lemma terms_of_alike: "related_alike x y \<Longrightarrow> terms_of (pg_post x) taxonomy = terms_of (pg_post y) taxonomy"
  by (cases "taxonomy = ''tags''") (simp_all add: Posts.terms_of_def Posts.meta_value_def related_alike_def)

lemma page_terms_alike: "related_alike x y \<Longrightarrow> page_terms c x = page_terms c y"
  by (simp add: page_terms_def terms_of_alike)

lemma page_entry_alike: "related_alike x y \<Longrightarrow> page_entry start x = page_entry start y"
  by (simp add: page_entry_def related_alike_def placed_alike_def Let_def)

lemma related_posts_alike:
  assumes "list_all2 related_alike pages pages'" "i < length pages"
  shows "related_posts c pages i = related_posts c pages' i"
proof -
  have len: "length pages = length pages'" and alike: "\<And>j. j < length pages \<Longrightarrow> related_alike (pages ! j) (pages' ! j)"
    using assms(1) by (auto dest: list_all2_lengthD list_all2_nthD)
  have terms: "page_terms c (pages ! j) = page_terms c (pages' ! j)" if "j < length pages" for j
    using alike [OF that] by (rule page_terms_alike)
  have by_term: "posts_by_term c pages term = posts_by_term c pages' term" for "term"
    unfolding posts_by_term_def len by (rule filter_cong) (use terms len in auto)
  have met: "met_posts c pages i = met_posts c pages' i"
    using terms [OF assms(2)] by (simp add: met_posts_def by_term)
  have "stable_sort (closer_related pages (met_posts c pages' i)) (fold add_candidate (met_posts c pages' i) []) =
      stable_sort (closer_related pages' (met_posts c pages' i)) (fold add_candidate (met_posts c pages' i) [])"
  proof (rule stable_sort_cong)
    fix x y
    assume "x \<in> set (fold add_candidate (met_posts c pages' i) [])" "y \<in> set (fold add_candidate (met_posts c pages' i) [])"
    then have "x < length pages" "y < length pages"
      using met_posts_within [of _ c pages' i] len by auto
    then have "newer_first (pages ! x) (pages ! y) = newer_first (pages' ! x) (pages' ! y)"
      using alike by (intro newer_first_alike) (auto simp: related_alike_def)
    then show "closer_related pages (met_posts c pages' i) x y = closer_related pages' (met_posts c pages' i) x y"
      by (simp add: closer_related_def)
  qed
  then show ?thesis
    by (simp add: related_posts_def Let_def met)
qed

lemma length_assign_related [simp]: "length (assign_related c pages) = length pages"
  by (simp add: assign_related_def)

lemma assign_related_nth:
  "i < length pages \<Longrightarrow> assign_related c pages ! i =
     (pages ! i)\<lparr>pg_related := VArray (map (\<lambda>j. page_entry [] (pages ! j)) (related_posts c pages i))\<rparr>"
  by (simp add: assign_related_def)

lemma related_alike_same:
  assumes "list_all2 related_alike pages pages'" "i < length pages"
  shows "pg_related (assign_related c pages ! i) = pg_related (assign_related c pages' ! i)"
proof -
  have len: "length pages = length pages'" and alike: "\<And>j. j < length pages \<Longrightarrow> related_alike (pages ! j) (pages' ! j)"
    using assms(1) by (auto dest: list_all2_lengthD list_all2_nthD)
  have "set (related_posts c pages' i) \<subseteq> {..<length pages}"
    using set_take_subset met_posts_within [of _ c pages' i] len
    by (fastforce simp: related_posts_def Let_def)
  then show ?thesis
    using assms(2) len alike related_posts_alike [OF assms]
    by (auto simp: assign_related_nth page_entry_alike)
qed

section \<open>Reading the sources again\<close>

definition recalled_entry :: "page \<times> source_file \<Rightarrow> page \<times> source_file" where
  "recalled_entry entry = ((recalled_page (fst entry))\<lparr>pg_output := pg_output (fst entry)\<rparr>, snd entry)"

lemma collect_known:
  assumes "\<And>entry. entry \<in> set entries \<Longrightarrow> reused_page b on_disk state (snd entry) = Some (fst (recalled_entry entry))"
    "map snd entries = map snd (published b files)"
    "\<And>f. f \<in> set files \<Longrightarrow> published_page b f = None \<Longrightarrow> known_source state f = None"
    "list_all (\<lambda>f. \<exists>p. read_post f = Inr p) files"
  shows "\<exists>seen'. collect_pages b on_disk (Some state) seen files = Built (map recalled_entry entries, seen')"
  using assms
proof (induction files arbitrary: entries seen)
  case (Cons f files)
  obtain p where p: "read_post f = Inr p"
    using Cons.prems(4) by auto
  show ?case
  proof (cases "published_page b f")
    case None
    then have held: "post_held b p"
      using p by (auto simp: published_page_def split: if_splits)
    have "known_source state f = None"
      using Cons.prems(3) None by simp
    then have "reused_page b on_disk state f = None"
      by (simp add: reused_page_def)
    moreover have "\<exists>seen'. collect_pages b on_disk (Some state) seen files = Built (map recalled_entry entries, seen')"
      using Cons.prems None by (intro Cons.IH) auto
    ultimately show ?thesis
      using p held by simp
  next
    case (Some found)
    then have "snd found = f"
      using p by (auto simp: published_page_def split: if_splits)
    then obtain pg rest where entries: "entries = (pg, f) # rest" and rest: "map snd rest = map snd (published b files)"
      using Cons.prems(2) Some by (cases entries) (auto simp: prod_eq_iff)
    have reused: "reused_page b on_disk state f = Some (fst (recalled_entry (pg, f)))"
      using Cons.prems(1) [of "(pg, f)"] entries by simp
    have "\<exists>seen'. collect_pages b on_disk (Some state) seen1 files = Built (map recalled_entry rest, seen')" for seen1
      using Cons.prems entries rest by (intro Cons.IH) auto
    then obtain seen' where "collect_pages b on_disk (Some state)
        (emplace (pg_output (fst (recalled_entry (pg, f)))) (sf_path f) seen) files = Built (map recalled_entry rest, seen')"
      by blast
    then show ?thesis
      using reused entries by (simp add: Let_def recalled_entry_def)
  qed
qed simp

section \<open>What is settled\<close>

lemma saved_members:
  "saved_text (metadata_of pg) ''prev-url'' = pg_previous_url pg" "saved_text (metadata_of pg) ''prev-title'' = pg_previous_title pg"
  "saved_text (metadata_of pg) ''next-url'' = pg_next_url pg" "saved_text (metadata_of pg) ''next-title'' = pg_next_title pg"
  "saved_text (metadata_of pg) ''share-image'' = share_image_key (pg_share_image pg)"
  "saved_text (metadata_of pg) ''related-key'' = related_key (pg_related pg)"
  by (cases "po_order (pg_post pg)"; simp add: metadata_of_def Let_def saved_text_def get_member_def set_member_def)+

lemma page_settled_same:
  "links pg = links pg' \<Longrightarrow> pg_share_image pg = pg_share_image pg' \<Longrightarrow> page_settled (metadata_of pg) pg'"
  by (simp add: page_settled_def saved_members links_def)

lemma keep_reusable:
  assumes "reusable path wd"
  obtains wd' where "keep path wd = (True, wd')" "\<And>other. reusable other wd' = reusable other wd"
proof -
  obtain w d hash where wd: "wd = (w, d)" "map_of (w_previous w) path = Some hash" "d path \<noteq> None"
    using assms by (cases wd) (auto simp: reusable_def)
  then show ?thesis
    by (intro that [of "snd (keep path wd)"]) (auto simp: keep_def reusable_def expect_def Let_def)
qed

lemma keep_all_settled:
  assumes "\<And>pg f. (pg, f) \<in> set entries \<Longrightarrow> \<not> pg_parsed pg \<and> reusable (pg_output pg) wd \<and>
     (\<exists>v. remembered before f = Some v \<and> related_settled v pg)"
  shows "\<exists>wd'. keep_settled b before entries wd = Built (entries, wd')"
  using assms
proof (induction entries arbitrary: wd)
  case (Cons entry entries)
  obtain pg f where entry: "entry = (pg, f)"
    by (cases entry)
  obtain v where v: "\<not> pg_parsed pg" "remembered before f = Some v" "related_settled v pg" "reusable (pg_output pg) wd"
    using Cons.prems [of pg f] entry by auto
  obtain wd' where kept: "keep (pg_output pg) wd = (True, wd')" "\<And>other. reusable other wd' = reusable other wd"
    using keep_reusable [OF v(4)] by blast
  have "\<exists>wd''. keep_settled b before entries wd' = Built (entries, wd'')"
    using Cons.prems kept(2) by (intro Cons.IH) (auto simp: entry)
  then show ?case
    using v kept(1) entry by (auto simp: Let_def)
qed simp

section \<open>The first build\<close>

lemma list_all2_fst_snd:
  "list_all2 (\<lambda>e e'. prepare_entry b e = Built e') (zip pages fs) prepared \<Longrightarrow> length pages = length fs \<Longrightarrow>
   prepared = zip (map fst prepared) fs \<and> length prepared = length fs \<and>
   (\<forall>i < length fs. prepare_page b (pages ! i) = Built (map fst prepared ! i))"
proof -
  assume all: "list_all2 (\<lambda>e e'. prepare_entry b e = Built e') (zip pages fs) prepared" and len: "length pages = length fs"
  have n: "length prepared = length fs"
    using list_all2_lengthD [OF all] len by simp
  have each: "snd (prepared ! i) = fs ! i \<and> prepare_page b (pages ! i) = Built (fst (prepared ! i))" if "i < length fs" for i
    using list_all2_nthD [OF all, of i] that len
    by (cases "prepared ! i") (auto simp: prepare_entry_def bind_step_Built)
  have "map snd prepared = fs"
    by (rule nth_equalityI) (use n each in auto)
  then have "prepared = zip (map fst prepared) fs"
    by (metis zip_map_fst_snd)
  then show ?thesis
    using n each by simp
qed

lemma relate_leaves:
  assumes "i < length pages"
  shows "links (relate_pages b pages ! i) = links (pages ! i)" "identity (relate_pages b pages ! i) = identity (pages ! i)"
    "pg_section (relate_pages b pages ! i) = pg_section (pages ! i)" "pg_output (relate_pages b pages ! i) = pg_output (pages ! i)"
    "pg_share_image (relate_pages b pages ! i) = pg_share_image (pages ! i)" "pg_parsed (relate_pages b pages ! i) = pg_parsed (pages ! i)"
    "pg_summary (relate_pages b pages ! i) = pg_summary (pages ! i)" "pg_first_image (relate_pages b pages ! i) = pg_first_image (pages ! i)"
  using assms by (simp_all add: relate_pages_def assign_related_nth links_def identity_def)

lemma length_relate_pages [simp]: "length (relate_pages b pages) = length pages"
  by (simp add: relate_pages_def)

lemma keep_parsed: "(\<And>entry. entry \<in> set entries \<Longrightarrow> pg_parsed (fst entry)) \<Longrightarrow> keep_settled b before entries wd = Built (entries, wd)"
proof (induction entries)
  case (Cons entry entries)
  have "pg_parsed (fst entry)"
    using Cons.prems by simp
  then show ?case
    using Cons by (cases entry) (simp add: Let_def)
qed simp

text \<open>The pages of a build from scratch before they are linked.\<close>

definition first_pages :: "build_input \<Rightarrow> source_file list \<Rightarrow> page list" where
  "first_pages b files = map (\<lambda>entry. with_share_image b (fst entry)) (published b files)"

lemma first_page_facts:
  assumes "pg \<in> set (first_pages b files)"
  shows "pg_parsed pg" "links pg = ([], [], [], [])" "pg_related pg = VArray []"
    "pg_share_image pg = fst (resolve_image b (picture_of b pg))"
  using assms
  by (auto simp: first_pages_def published_def List.map_filter_def published_page_def new_page_def place_page_def
      empty_page_def links_def with_share_image_def picture_of_def Let_def split: sum.splits if_splits)

lemma fresh_ready:
  assumes "ready_pages b before False files wd = Built (entries, seen, wd1)"
  obtains prep where "length prep = length (first_pages b files)"
    "\<And>i. i < length prep \<Longrightarrow> prepare_page b (link_pages (first_pages b files) ! i) = Built (prep ! i)"
    "entries = zip (relate_pages b prep) (map snd (published b files))"
    "list_all (\<lambda>f. \<exists>p. read_post f = Inr p) files"
proof -
  let ?fs = "map snd (published b files)" and ?linked = "link_pages (first_pages b files)"
  have len: "length ?linked = length ?fs"
    by (simp add: first_pages_def)
  obtain found where collected: "collect_pages b (\<lambda>path. reusable path wd) None [] files = Built (found, seen)"
    and after: "bind_step (each_step (reread_moved (\<lambda>path. reusable path wd) before) (with_pages (link_pages \<circ> map (with_share_image b)) found)) (\<lambda>linked.
      bind_step (each_step (prepare_entry b) linked) (\<lambda>prepared.
      bind_step (keep_settled b before (with_pages (relate_pages b) prepared) wd) (\<lambda>(entries, wd').
        Built (entries, seen, wd')))) = Built (entries, seen, wd1)"
    using assms by (auto simp: ready_pages_def Let_def bind_step_Built)
  have found: "found = published b files"
    using collect_fresh [OF collected] by simp
  have linked: "with_pages (link_pages \<circ> map (with_share_image b)) found = zip ?linked ?fs"
    by (simp add: with_pages_def found first_pages_def o_def)
  have parsed: "pg_parsed (?linked ! i)" if "i < length ?fs" for i
    using that first_page_facts(1) [of "first_pages b files ! i" b files] len by (simp add: link_pages_leaves)
  have same: "each_step (reread_moved (\<lambda>path. reusable path wd) before) (zip ?linked ?fs) = Built (zip ?linked ?fs)"
    using parsed len by (intro each_step_same) (auto simp: reread_moved_def in_set_zip)
  obtain prepared where prepared: "list_all2 (\<lambda>e e'. prepare_entry b e = Built e') (zip ?linked ?fs) prepared"
    and kept: "bind_step (keep_settled b before (with_pages (relate_pages b) prepared) wd) (\<lambda>(entries, wd').
        Built (entries, seen, wd')) = Built (entries, seen, wd1)"
    using after by (auto simp: linked same bind_step_Built each_step_Built)
  note prep = list_all2_fst_snd [OF prepared len]
  have each: "prepare_page b (?linked ! i) = Built (map fst prepared ! i)" if "i < length ?fs" for i
    using prep that by blast
  have "pg_parsed (map fst prepared ! i)" if "i < length ?fs" for i
    using prepare_leaves(1) [OF each [OF that]] parsed [OF that] by (simp add: bookkeeping_def)
  then have "keep_settled b before (with_pages (relate_pages b) prepared) wd = Built (with_pages (relate_pages b) prepared, wd)"
    using prep by (intro keep_parsed) (auto simp: with_pages_def in_set_zip relate_leaves)
  then have "entries = with_pages (relate_pages b) prepared"
    using kept by simp
  also have "\<dots> = zip (relate_pages b (map fst prepared)) ?fs"
    using prep by (metis with_pages_def map_snd_zip length_map)
  finally show ?thesis
    using that [of "map fst prepared"] each prep len collect_fresh [OF collected] by simp
qed

section \<open>The second build\<close>

text \<open>The pages of the second build before they are linked.\<close>

definition second_pages :: "build_input \<Rightarrow> page list \<Rightarrow> page list" where
  "second_pages b pages = map (\<lambda>pg. with_share_image b ((recalled_page pg)\<lparr>pg_output := pg_output pg\<rparr>)) pages"

lemma second_page_facts:
  assumes "i < length pages"
  shows "\<not> pg_parsed (second_pages b pages ! i)" "links (second_pages b pages ! i) = ([], [], [], [])"
    "pg_related (second_pages b pages ! i) = VArray []" "pg_output (second_pages b pages ! i) = pg_output (pages ! i)"
    "pg_summary (second_pages b pages ! i) = pg_summary (pages ! i)" "pg_first_image (second_pages b pages ! i) = pg_first_image (pages ! i)"
    "pg_share_image (second_pages b pages ! i) = fst (resolve_image b (picture_of b (pages ! i)))"
    "placed_alike (pages ! i) (second_pages b pages ! i)"
  using assms
  by (simp_all add: second_pages_def with_share_image_def recalled_page_def recalled_post_def empty_page_def empty_post_def
      links_def picture_of_def placed_alike_def)

lemma second_page_related:
  assumes "i < length pages"
  shows "related_alike (pages ! i) (second_pages b pages ! i)"
  using assms second_page_facts [OF assms, of b]
  by (simp add: related_alike_def) (simp add: second_pages_def with_share_image_def recalled_page_def recalled_post_def)

lemma placed_alike_identity:
  "identity pg = identity pg' \<Longrightarrow> pg_section pg = pg_section pg' \<Longrightarrow> placed_alike pg pg'"
  by (simp add: identity_def placed_alike_def)

lemma placed_alike_trans: "placed_alike x y \<Longrightarrow> placed_alike y z \<Longrightarrow> placed_alike x z"
  by (simp add: placed_alike_def)

text \<open>The pages a first build prepares, by place.\<close>

definition first_build :: "build_input \<Rightarrow> source_file list \<Rightarrow> page list \<Rightarrow> bool" where
  "first_build b files prep \<longleftrightarrow> length prep = length (first_pages b files) \<and>
     (\<forall>i < length prep. prepare_page b (link_pages (first_pages b files) ! i) = Built (prep ! i))"

lemma first_build_length: "first_build b files prep \<Longrightarrow> length prep = length (first_pages b files)"
  by (simp add: first_build_def)

lemma first_build_prepared:
  "first_build b files prep \<Longrightarrow> i < length prep \<Longrightarrow> prepare_page b (link_pages (first_pages b files) ! i) = Built (prep ! i)"
  by (simp add: first_build_def)

lemma prep_facts:
  assumes "first_build b files prep" "i < length prep"
  shows "links (prep ! i) = links (link_pages (first_pages b files) ! i)" "identity (prep ! i) = identity (first_pages b files ! i)"
    "bookkeeping (prep ! i) = bookkeeping (first_pages b files ! i)"
  using prepare_leaves [OF first_build_prepared [OF assms]] link_pages_leaves [of i "first_pages b files"] assms
    first_build_length [OF assms(1)] by simp_all

lemma last_pages_alike:
  assumes "first_build b files prep" "i < length prep"
  shows "placed_alike (first_pages b files ! i) (second_pages b (relate_pages b prep) ! i)"
proof -
  have "placed_alike (first_pages b files ! i) (relate_pages b prep ! i)"
    using prep_facts [OF assms] relate_leaves [OF assms(2)] by (intro placed_alike_identity) (simp_all add: bookkeeping_def)
  then show ?thesis
    using second_page_facts(8) [of i "relate_pages b prep" b] assms by (auto intro: placed_alike_trans)
qed

lemma links_again:
  assumes "first_build b files prep" "i < length prep"
  shows "links (link_pages (second_pages b (relate_pages b prep)) ! i) = links (relate_pages b prep ! i)"
proof -
  have "list_all2 placed_alike (first_pages b files) (second_pages b (relate_pages b prep))"
    using last_pages_alike [OF assms(1)] first_build_length [OF assms(1)]
    by (intro list_all2_all_nthI) (simp_all add: second_pages_def)
  then have "links (link_pages (first_pages b files) ! i) = links (link_pages (second_pages b (relate_pages b prep)) ! i)"
    using assms first_build_length [OF assms(1)] first_page_facts(2) [of "first_pages b files ! i" b files]
      second_page_facts(2) [of i "relate_pages b prep" b]
    by (intro links_alike) simp_all
  then show ?thesis
    using prep_facts(1) [OF assms] relate_leaves(1) [OF assms(2)] by simp
qed

lemma share_again:
  assumes "first_build b files prep" "i < length prep"
  shows "pg_share_image (link_pages (second_pages b (relate_pages b prep)) ! i) = pg_share_image (relate_pages b prep ! i)"
proof -
  have "pg_share_image (prep ! i) = pg_share_image (first_pages b files ! i)" "pg_post (prep ! i) = pg_post (first_pages b files ! i)"
    using prep_facts [OF assms] by (simp_all add: bookkeeping_def identity_def)
  moreover have "pg_post (relate_pages b prep ! i) = pg_post (prep ! i)"
    using relate_leaves(2) [OF assms(2)] by (simp add: identity_def)
  moreover have "bookkeeping (link_pages (second_pages b (relate_pages b prep)) ! i) = bookkeeping (second_pages b (relate_pages b prep) ! i)"
    using assms by (intro link_pages_leaves) (simp add: second_pages_def)
  ultimately show ?thesis
    using assms first_build_length [OF assms(1)] first_page_facts(4) [of "first_pages b files ! i" b files]
      second_page_facts(7) [of i "relate_pages b prep" b] relate_leaves(5) [OF assms(2)]
    by (simp add: picture_of_def bookkeeping_def)
qed

lemma related_again:
  assumes "first_build b files prep" "i < length prep"
  shows "pg_related (relate_pages b (link_pages (second_pages b (relate_pages b prep))) ! i) = pg_related (relate_pages b prep ! i)"
proof (cases "mentions (bi_store b) ''related''")
  case True
  have "list_all2 related_alike prep (link_pages (second_pages b (relate_pages b prep)))"
  proof (rule list_all2_all_nthI)
    fix j
    assume j: "j < length prep"
    then have len: "j < length (relate_pages b prep)" "j < length (second_pages b (relate_pages b prep))"
      by (simp_all add: second_pages_def)
    have "related_alike (prep ! j) (relate_pages b prep ! j)"
      using relate_leaves [OF j] by (simp add: related_alike_def placed_alike_def identity_def)
    moreover have "related_alike (second_pages b (relate_pages b prep) ! j) (link_pages (second_pages b (relate_pages b prep)) ! j)"
      using link_pages_leaves [OF len(2)] by (simp add: related_alike_def placed_alike_def identity_def bookkeeping_def)
    ultimately show "related_alike (prep ! j) (link_pages (second_pages b (relate_pages b prep)) ! j)"
      using second_page_related [OF len(1), of b] by (simp add: related_alike_def placed_alike_def)
  qed (simp add: second_pages_def)
  then show ?thesis
    using related_alike_same assms True by (simp add: relate_pages_def)
next
  case False
  have "bookkeeping (link_pages (second_pages b prep) ! i) = bookkeeping (second_pages b prep ! i)"
    using assms by (intro link_pages_leaves) (simp add: second_pages_def)
  then show ?thesis
    using False assms first_build_length [OF assms(1)] prep_facts(3) [OF assms] second_page_facts(3) [of i prep b]
      first_page_facts(3) [of "first_pages b files ! i" b files]
    by (simp add: relate_pages_def bookkeeping_def)
qed

section \<open>An unchanged site\<close>

lemma render_none: "list_all (\<lambda>pg. \<not> pg_parsed pg) pages \<Longrightarrow> render_pages b has_pages pages cache = Built ([], cache)"
  by (induction pages) simp_all

lemma published_files: "map snd (published b files) = filter (\<lambda>f. published_page b f \<noteq> None) files"
  by (induction files) (auto simp: published_page_def split: option.splits sum.splits if_splits)

lemma known_again:
  assumes "distinct (map sf_key (map snd entries))" "bs_sources state = map (source_entry started) entries" "entry \<in> set entries"
  shows "known_source state (snd entry) = Some (snd (source_entry started entry))"
proof -
  have keys: "map fst (map (source_entry started) entries) = map sf_key (map snd entries)"
    by (simp add: source_entry_def case_prod_beta')
  have "distinct (map fst (map (source_entry started) entries))"
    unfolding keys by (rule assms(1))
  moreover have "(sf_key (snd entry), snd (source_entry started entry)) \<in> set (map (source_entry started) entries)"
    using assms(3) by (auto simp: image_iff source_entry_def case_prod_beta' intro!: bexI [of _ entry])
  ultimately show ?thesis
    using assms(2) by (simp add: known_source_def)
qed

lemma reused_again:
  assumes "known_source state f = Some (snd (source_entry started (pg, f)))" "page_ok pg" "on_disk (pg_output pg)"
    "sf_modified f < bs_started state"
  shows "reused_page b on_disk state f = Some (fst (recalled_entry (pg, f)))"
  using assms page_is_remembered [OF assms(2), of "bi_stray b"]
  by (simp add: reused_page_def source_entry_def source_unchanged_def settled_def recalled_entry_def)

lemma sources_kept:
  assumes "list_all (\<lambda>entry. \<not> pg_parsed (fst entry)) again" and "map snd again = map snd entries"
    and "\<forall>entry \<in> set entries. known_source state (snd entry) = Some (snd (source_entry started entry))"
  shows "new_sources now state again = map (source_entry started) entries"
  using assms
proof (induction again arbitrary: entries)
  case (Cons entry again)
  then obtain entry' rest where "entries = entry' # rest" "snd entry = snd entry'" "map snd again = map snd rest"
    by (cases entries) auto
  with Cons show ?case
    by (auto simp: new_sources_def List.map_filter_simps source_entry_def case_prod_beta')
qed (simp add: new_sources_def List.map_filter_simps)

text \<open>
  C5. The pages of an unchanged site are taken over from the last build. Let a build have made its
  pages from scratch, out of files with different names, let the state hold what it remembers of them, let no file have changed since that build began, let every page it published
  still be on disk, and let what a page carries survive being remembered: dates with four-digit years,
  counts within their integers and front matter without a key given twice. Then the next build takes
  every page from the state, the same pages in the same order. Neighbours, share images and related
  posts, worked out again from what is remembered, are what they were, so no published post is read
  again, rendering the pages writes nothing, and the state remembers exactly what it did: the build after
  this one meets the same state. Posts that are held back are no pages, and are read by every build.
\<close>

theorem unchanged_pages_taken_over:
  assumes first: "ready_pages b before False files wd = Built (entries, seen, wd1)"
    and keys: "distinct (map sf_key files)"
    and old: "\<forall>f \<in> set files. sf_modified f < bs_started state"
    and kept: "\<forall>entry \<in> set entries. page_ok (fst entry) \<and> reusable (pg_output (fst entry)) wd2"
    and state: "bs_sources state = map (source_entry started) entries"
  shows "\<exists>entries' seen' wd3. ready_pages b state True files wd2 = Built (entries', seen', wd3) \<and>
    map snd entries' = map snd entries \<and> map (pg_output \<circ> fst) entries' = map (pg_output \<circ> fst) entries \<and>
    list_all (\<lambda>entry. \<not> pg_parsed (fst entry)) entries' \<and>
    render_pages b has_pages (map fst entries') cache = Built ([], cache) \<and>
    new_sources now state entries' = bs_sources state"
proof -
  let ?fs = "map snd (published b files)" and ?on_disk = "\<lambda>path. reusable path wd2"
  obtain prep where prep: "length prep = length (first_pages b files)"
    "\<And>i. i < length prep \<Longrightarrow> prepare_page b (link_pages (first_pages b files) ! i) = Built (prep ! i)"
    "entries = zip (relate_pages b prep) ?fs" "list_all (\<lambda>f. \<exists>p. read_post f = Inr p) files"
    using fresh_ready [OF first] by blast
  define final where "final = relate_pages b prep"
  define again where "again = link_pages (second_pages b final)"
  have fb: "first_build b files prep"
    using prep by (simp add: first_build_def)
  have len: "length final = length ?fs" "length again = length ?fs"
    using prep(1) by (simp_all add: final_def again_def second_pages_def first_pages_def)
  have entries: "entries = zip final ?fs" "map fst entries = final" "map snd entries = ?fs"
    using prep(3) len by (simp_all add: final_def)
  have fs_keys: "distinct (map sf_key (map snd entries))"
    using keys by (simp add: entries(3) published_files distinct_map_filter)
  have known: "known_source state (snd entry) = Some (snd (source_entry started entry))" if "entry \<in> set entries" for entry
    using known_again [OF fs_keys state that] .
  have fs_files: "set ?fs \<subseteq> set files"
    by (auto simp: published_files)
  have reused: "reused_page b ?on_disk state (snd entry) = Some (fst (recalled_entry entry))" if "entry \<in> set entries" for entry
  proof -
    have "snd entry \<in> set files"
      using that entries(3) fs_files by (metis in_mono list.set_map image_eqI)
    then show ?thesis
      using reused_again [of state "snd entry" started "fst entry" ?on_disk b] known [OF that] kept that old by simp
  qed
  have unknown: "known_source state f = None" if "f \<in> set files" "published_page b f = None" for f
  proof -
    have "sf_key f \<notin> sf_key ` set ?fs"
    proof
      assume "sf_key f \<in> sf_key ` set ?fs"
      then obtain g where "g \<in> set files" "published_page b g \<noteq> None" "sf_key f = sf_key g"
        by (auto simp: published_files)
      then show False
        using keys that by (auto simp: distinct_map inj_on_def)
    qed
    moreover have "fst ` set (map (source_entry started) entries) = sf_key ` set (map snd entries)"
      by (auto simp: source_entry_def image_iff split: prod.splits) (metis fst_conv snd_conv)+
    ultimately show ?thesis
      by (simp add: known_source_def state map_of_eq_None_iff entries(3))
  qed
  obtain seen' where collected: "collect_pages b ?on_disk (Some state) [] files = Built (map recalled_entry entries, seen')"
    using collect_known [of entries b ?on_disk state files "[]"] reused unknown prep(4) entries(3) by blast
  have "map (with_share_image b) (map fst (map recalled_entry entries)) = second_pages b final"
    unfolding entries(2) [symmetric] by (simp add: second_pages_def recalled_entry_def)
  moreover have "map snd (map recalled_entry entries) = ?fs"
    unfolding entries(3) [symmetric] by (simp add: recalled_entry_def)
  ultimately have linked: "with_pages (link_pages \<circ> map (with_share_image b)) (map recalled_entry entries) = zip again ?fs"
    by (simp only: with_pages_def again_def comp_apply)
  have facts: "\<not> pg_parsed (again ! i) \<and> pg_output (again ! i) = pg_output (final ! i) \<and>
      links (final ! i) = links (again ! i) \<and> pg_share_image (final ! i) = pg_share_image (again ! i) \<and>
      pg_related (relate_pages b again ! i) = pg_related (final ! i)" if "i < length ?fs" for i
  proof -
    have i: "i < length prep" "i < length final" "i < length (second_pages b final)"
      using that len by (simp_all add: final_def second_pages_def)
    then show ?thesis
      using links_again [OF fb i(1)] share_again [OF fb i(1)] related_again [OF fb i(1)] link_pages_leaves [OF i(3)]
        second_page_facts [OF i(2), of b]
      by (simp add: again_def final_def bookkeeping_def)
  qed
  have in_entries: "(final ! i, ?fs ! i) \<in> set entries" if "i < length ?fs" for i
    using that len by (auto simp: entries(1) set_zip)
  have remembered: "remembered state (?fs ! i) = Some (metadata_of (final ! i))" if "i < length ?fs" for i
    using known [OF in_entries [OF that]] by (simp add: remembered_def source_entry_def)
  have same: "each_step (reread_moved ?on_disk state) (zip again ?fs) = Built (zip again ?fs)"
  proof (rule each_step_same)
    fix entry
    assume "entry \<in> set (zip again ?fs)"
    then obtain i where i: "i < length ?fs" "entry = (again ! i, ?fs ! i)"
      using len by (auto simp: set_zip)
    have "page_settled (metadata_of (final ! i)) (again ! i)"
      using facts [OF i(1)] by (intro page_settled_same) auto
    then show "reread_moved ?on_disk state entry = Built entry"
      using i facts [OF i(1)] remembered [OF i(1)] kept in_entries [OF i(1)] by (auto simp: reread_moved_def)
  qed
  have idle: "each_step (prepare_entry b) (zip again ?fs) = Built (zip again ?fs)"
  proof (rule each_step_same)
    fix entry
    assume "entry \<in> set (zip again ?fs)"
    then show "prepare_entry b entry = Built entry"
      using facts len by (auto simp: set_zip prepare_entry_def prepare_page_def)
  qed
  let ?last = "zip (relate_pages b again) ?fs"
  have last: "with_pages (relate_pages b) (zip again ?fs) = ?last"
    using len by (simp add: with_pages_def)
  have unread: "\<not> pg_parsed pg \<and> reusable (pg_output pg) wd2 \<and> (\<exists>v. remembered state f = Some v \<and> related_settled v pg)"
    if "(pg, f) \<in> set ?last" for pg f
  proof -
    note member = that
    obtain i where i: "i < length ?fs" "pg = relate_pages b again ! i" "f = ?fs ! i"
      using member len by (auto simp: set_zip)
    have "related_settled (metadata_of (final ! i)) pg"
      using facts [OF i(1)] i(2) by (simp add: related_settled_def saved_members)
    then show ?thesis
      using i facts [OF i(1)] remembered [OF i(1)] kept in_entries [OF i(1)] relate_leaves [of i again b] len by auto
  qed
  obtain wd3 where "keep_settled b state ?last wd2 = Built (?last, wd3)"
    using keep_all_settled [of ?last wd2 state b] unread by blast
  then have "ready_pages b state True files wd2 = Built (?last, seen', wd3)"
    using collected linked same idle last by (simp add: ready_pages_def)
  moreover have "list_all (\<lambda>entry. \<not> pg_parsed (fst entry)) ?last"
    using unread by (auto simp: list_all_iff)
  moreover have "map (pg_output \<circ> fst) ?last = map (pg_output \<circ> fst) entries"
  proof (rule nth_equalityI)
    show "(map (pg_output \<circ> fst) ?last) ! i = map (pg_output \<circ> fst) entries ! i" if "i < length (map (pg_output \<circ> fst) ?last)" for i
      using that facts [of i] relate_leaves(4) [of i again b] len by (simp add: entries(1))
  qed (simp add: entries(1) len)
  moreover have "render_pages b has_pages (map fst ?last) cache = Built ([], cache)"
    using unread by (intro render_none) (force simp: list_all_iff)
  moreover have "new_sources now state ?last = bs_sources state"
    unfolding state using unread known len entries(3) by (intro sources_kept) (auto simp: list_all_iff)
  ultimately show ?thesis
    using len entries by auto
qed

text \<open>One post with an empty body, built once and built again with nothing changed.\<close>

definition tiny_sources :: "source_file list" where
  "tiny_sources = [sample_source ''one'' []]"

definition tiny_disk :: "writer \<times> disk" where
  "tiny_disk =
     ((new_writer False)\<lparr>w_previous := [(''one/index.html'', [])]\<rparr>, (\<lambda>path. if path = ''one/index.html'' then Some [] else None))"

lemma tiny_ready:
  "(case ready_pages sample_input empty_state False tiny_sources tiny_disk of
      Built (entries, seen, wd) \<Rightarrow> map (pg_output \<circ> fst) entries = [''one/index.html''] \<and>
        map (po_meta \<circ> pg_post \<circ> fst) entries = [[]] \<and> map (po_date \<circ> pg_post \<circ> fst) entries = [None] \<and>
        map (po_updated \<circ> pg_post \<circ> fst) entries = [None] \<and> map (pg_word_count \<circ> fst) entries = [0] \<and>
        map (pg_reading_time \<circ> fst) entries = [0]
    | _ \<Rightarrow> False)"
  by code_simp

theorem unchanged_pages_taken_over_witness:
  "\<exists>state entries seen wd. ready_pages sample_input state True tiny_sources tiny_disk = Built (entries, seen, wd) \<and>
     length entries = 1 \<and> list_all (\<lambda>entry. \<not> pg_parsed (fst entry)) entries \<and> new_sources 7 state entries = bs_sources state"
proof -
  obtain entries seen wd where first:
    "ready_pages sample_input empty_state False tiny_sources tiny_disk = Built (entries, seen, wd)"
    and facts: "map (pg_output \<circ> fst) entries = [''one/index.html'']" "map (po_meta \<circ> pg_post \<circ> fst) entries = [[]]"
    "map (po_date \<circ> pg_post \<circ> fst) entries = [None]" "map (po_updated \<circ> pg_post \<circ> fst) entries = [None]"
    "map (pg_word_count \<circ> fst) entries = [0]" "map (pg_reading_time \<circ> fst) entries = [0]"
    using tiny_ready by (auto split: build_step.splits)
  obtain entry where entry: "entries = [entry]"
    using facts(1) by (cases entries) auto
  define state where "state = empty_state\<lparr>bs_sources := map (source_entry 0) entries, bs_started := 6\<rparr>"
  have "page_ok (fst entry) \<and> pg_output (fst entry) = ''one/index.html''"
    using facts unfolding entry by (simp add: page_ok_def date_kept_def to_int_def)
  moreover have "reusable ''one/index.html'' tiny_disk"
    by (simp add: reusable_def tiny_disk_def new_writer_def)
  ultimately have kept: "\<forall>entry \<in> set entries. page_ok (fst entry) \<and> reusable (pg_output (fst entry)) tiny_disk"
    by (simp add: entry)
  have keys: "distinct (map sf_key tiny_sources)" and old: "\<forall>f \<in> set tiny_sources. sf_modified f < bs_started state"
    by (simp_all add: tiny_sources_def sample_source_def state_def)
  have sources: "bs_sources state = map (source_entry 0) entries"
    by (simp add: state_def)
  obtain entries' seen' wd' where second:
    "ready_pages sample_input state True tiny_sources tiny_disk = Built (entries', seen', wd')"
    "map snd entries' = map snd entries" "list_all (\<lambda>entry. \<not> pg_parsed (fst entry)) entries'"
    "new_sources 7 state entries' = bs_sources state"
    using unchanged_pages_taken_over [OF first keys old kept sources, of True empty_cache 7] by blast
  moreover have "length entries' = 1"
    using arg_cong [OF second(2), of length] by (simp add: entry)
  ultimately show ?thesis
    by blast
qed

end
