(* ===== verification/Spec2Isabelle.thy ===== *)
theory Spec2Isabelle
  imports YamlProps WebsocketProps Connection FragmentKeys TemplateStores HtmlProps Attributes BlockExamples MarkdownExamples Feeds BuildStates Searches ConfigProps ViewProps SiteRebuilds
begin

text \<open>
  Blogin is a static site generator in C++. This development models the parts of it that read and
  write formats, parse and render posts and templates, plan and build a site and serve its preview, as
  HOL functions and step relations that follow the sources under \<open>src/src/blogin/\<close>. A byte is a \<open>char\<close>, a
  \<open>std::string\<close> a list of them, a 64-bit integer an \<open>int\<close> with its range checked where it can be left, a
  32-bit word a word, and an error a value. Doubles are exact: a sign, a natural and a power of two, with
  rounding written out. A \<open>std::map\<close> is an association list, sorted where its order is seen.

  \<^bold>\<open>Text and values.\<close> \<open>Prelude\<close> holds the helpers and the two interfaces below. \<open>TextOps\<close> is \<open>text.cpp\<close> and
  \<open>summary.cpp\<close> (characters of a UTF-8 text, trimming, splitting, words, truncation), \<open>Slug\<close> is \<open>slug.cpp\<close>,
  \<open>Dates\<close> is \<open>date.cpp\<close>, \<open>Floats\<close> is what the code uses of \<open>strtod\<close>, \<open>from_chars\<close> and the printing of
  numbers. \<open>Values\<close> is \<open>value.cpp\<close>: the dynamic value whose objects keep their members in order, its
  readers and setters and the deep merge.

  \<^bold>\<open>JSON and YAML.\<close> \<open>Json\<close> is \<open>json.cpp\<close>. The parser is a record of the unread text, line, column
  and depth; its functions have fuel, eight units a byte, which \<open>JsonProps\<close> shows to be enough
  because every call consumes or goes down one of a few ranks. \<open>JsonRoundTrip\<close> shows that what is
  written is read back. \<open>Yaml\<close> is \<open>yaml.cpp\<close>, over the list of significant lines; \<open>YamlProps\<close> shows
  that its fuel is enough, that its values are well-formed and that they survive JSON, and that the
  block counter does not do what its comment says.

  \<^bold>\<open>The preview server.\<close> \<open>Http\<close> is \<open>http.cpp\<close>, with the file system as a parameter; \<open>HttpProps\<close> is about
  requests and the files they reach. \<open>Websocket\<close> is \<open>websocket.cpp\<close>, SHA-1 over words; \<open>WebsocketProps\<close> is
  about its frames. \<open>Reload\<close> is the messages and the channel of \<open>reload.cpp\<close>. \<open>Connection\<close> is the loop of one
  connection in \<open>server.cpp\<close>: the step relation \<open>conn_reach\<close> has a rule for a read, for a turn of the loop and
  for an end; every turn is given the site as it is read for that request and how many bytes of each text
  the socket takes, and goes on after a failed send where the code does. What it sends is compared with
  \<open>requests_in\<close>, the requests in the bytes read at once.

  \<^bold>\<open>Expressions and templates.\<close> \<open>ViewContexts\<close> is \<open>view_context.cpp\<close>: what a template may read and the
  recording of what it read. \<open>Expressions\<close> is \<open>expression.cpp\<close>: \<open>xstate\<close> is the parser object, each parser
  function first decides what to do in a non-recursive \<open>turn\<close> and then calls the others; the fuel is
  sixteen units a byte. The evaluator has the depth it may recurse to. \<open>ExpressionProps\<close> shows that
  the parser consumes, gives its depth counter back, stores the height of every node and never runs
  out of fuel; \<open>EvaluationProps\<close> that an accepted tree is evaluated within 64 levels, that a value
  depends on what was recorded as read, and that values stay well-formed. \<open>Templates\<close> is \<open>haml.cpp\<close>, line by
  line, with \<open>TemplateProps\<close>; \<open>Renders\<close> is \<open>haml_render.cpp\<close>, over a context and a cache of fragments, with
  the nesting of partials as its fuel, as in the code, and \<open>RenderProps\<close>. \<open>Fragments\<close> shows that rendering is
  decided by what it reads; \<open>FragmentKeys\<close> for which pages a cached fragment is the one that would be
  rendered, and pages for which it is not. \<open>TemplateStores\<close> is \<open>template_store.cpp\<close>.

  \<^bold>\<open>Markdown.\<close> \<open>MarkdownText\<close> is \<open>markdown_shared.cpp\<close> (characters, entities, code points, unescaping),
  \<open>MarkdownTree\<close> the tree, \<open>MarkdownLines\<close>, \<open>LinkDefinitions\<close> and \<open>Blocks\<close> are \<open>markdown.cpp\<close>: an arena of nodes,
  closed and extended line by line. \<open>Inlines\<close> is \<open>markdown_inline.cpp\<close>, with its stacks of delimiters and
  brackets over slots that nodes leave; \<open>Attributes\<close> is its loop over \<open>{.class key=value}\<close>, a partial
  function because it can run for ever; \<open>Markdown\<close> puts them together and numbers the footnotes. \<open>BlockProps\<close>,
  \<open>Emphasis\<close>, \<open>InlineProps\<close>, \<open>MarkdownProps\<close>, \<open>MarkdownEnds\<close> and \<open>Footnotes\<close> show that parsing ends, that its
  tree is shaped as the renderer expects, that text is kept and links do not nest, and what footnotes
  show; \<open>BlockExamples\<close> and \<open>MarkdownExamples\<close> what happens to some texts.

  \<^bold>\<open>HTML.\<close> \<open>Escapes\<close> and \<open>HtmlRender\<close> are \<open>html.cpp\<close>: one definition renders one kind of node and has the
  rendering of its children as an argument. \<open>Frameworks\<close>, \<open>Highlights\<close>, \<open>Tocs\<close> and \<open>Shortcodes\<close> are the files
  of those names. \<open>TagScanner\<close> is a reader of markup that is not part of the program; \<open>HtmlProps\<close> shows with
  it that a page is balanced. \<open>Views\<close> is \<open>view.cpp\<close> and \<open>view_theme.cpp\<close>, what a layout is given, with
  \<open>ViewProps\<close>. \<open>Config\<close> is \<open>config.cpp\<close>, with \<open>ConfigProps\<close>; \<open>Posts\<close> is \<open>post.cpp\<close>; \<open>Navs\<close> is \<open>nav.cpp\<close>;
  \<open>DataFiles\<close> is \<open>data.cpp\<close>.

  \<^bold>\<open>Building a site.\<close> \<open>Writers\<close> is \<open>writer.cpp\<close> and the end of a build in \<open>site.cpp\<close>, over a map from
  paths to bytes: what a finished build leaves, that building again writes nothing but the state, and what
  a build that stops leaves behind. \<open>BuildStates\<close> is \<open>build_state.cpp\<close>, \<open>Feeds\<close> is \<open>feed.cpp\<close>, \<open>Searches\<close> is
  \<open>search.cpp\<close> with its constants in \<open>Stylesheets\<close>, which holds those of \<open>style.cpp\<close> too, \<open>Assets\<close> is
  \<open>assets.cpp\<close>. \<open>Pages\<close> is the page record of \<open>site.cpp\<close> with its urls, order, neighbours, related posts and
  what is remembered of it; \<open>Sites\<close> its \<open>build\<close> down to pages ready to render, \<open>SitePages\<close> the rendering of
  pages, listings, taxonomies, feeds and the search index, \<open>AssetPlans\<close> its \<open>plan_assets\<close>, and \<open>SiteBuild\<close> the
  whole from the sources to the tree on disk, \<open>build_on_disk\<close>. A step is a value, an error, or what C++
  leaves undefined. \<open>PageProps\<close> is about neighbours, related posts and what a state remembers of a page,
  \<open>SiteProps\<close> about what is published where and what a listing shows, \<open>SiteRebuilds\<close> about building an
  unchanged site again.

  \<^bold>\<open>Interfaces.\<close> Two locales of \<open>Prelude\<close>. \<open>keyed_store\<close> is lookup after update; the members of an
  object and the three stores of a view context provide it. \<open>escaper\<close> is a code for every character
  from which the text can be read back and which holds none of the characters that mean something to
  the reader; the escapers of \<open>html.cpp\<close> and \<open>feed.cpp\<close> provide it. \<open>inline_nodes\<close> of
  \<open>InlineProps\<close> is what a property of nodes has to allow for every step of the inline parser to keep it.

  \<^bold>\<open>Not modelled.\<close> Threads, sockets, the watcher and the walks of the file system, which are calls to the
  operating system: pages are rendered in order, a lock is the atomicity of the call it guards, and
  directories are lists of their entries. A path is a string and is not normalised, so two spellings of one
  file are two files. The command line, the scaffold, the log, the counters, the arena, the smaller
  builder of \<open>build.cpp\<close> with its engine in \<open>template.cpp\<close>, running the image resizer, the client script of the
  reload channel, and of \<open>site.cpp\<close> the loop over the languages, the list of translations, the counters of the
  report and the warnings about share images. The functions a view offers to templates are parameters, any
  function from arguments to a value. Calls to the file system succeed and allocation never fails. The JSON
  round trip leaves out doubles, whose printed form is modelled and computed but not proved to be read back.
\<close>

end
